(* ===== verification/Prelude.thy ===== *)
theory Prelude
  imports Main "HOL-Library.Word" "HOL-Library.Char_ord" "HOL-Library.List_Lexorder"
    "HOL-Library.Multiset"
begin

text \<open>
  Shared vocabulary of the development.

  \<^item> Results.  A Rust \<open>anyhow::Result<T>\<close> is a value of \<open>'a result\<close>: \<open>Inr\<close> for
    \<open>Ok\<close>, \<open>Inl (Anyhow msg)\<close> for \<open>Err(anyhow!(..))\<close> (the literal text of the message, the
    interpolated values left out) and \<open>Inl Panic\<close> for an index out of range, an \<open>expect\<close> that
    fails, a division overflow or a slice off a character boundary.
  \<^item> Machine integers.  \<open>i64\<close>, \<open>u64\<close> and \<open>u32\<close> are words; \<open>+\<close>, \<open>-\<close>, \<open>*\<close> wrap as in the
    release profile (no \<open>Cargo.toml\<close> of the repository turns overflow checks on).
  \<^item> Strings.  A Rust string is its sequence of UTF-8 bytes, a \<^typ>\<open>string\<close>; \<open>str::cmp\<close> is
    the lexicographic order on those bytes, and slicing checks character boundaries.
  \<^item> Orderings.  \<open>std::cmp::Ordering\<close> with \<open>reverse\<close> and \<open>then_with\<close>.
  \<^item> Decimal printing and parsing of integers, and \<open>/\<close> and \<open>div_euclid\<close> on signed integers.
\<close>

named_theorems res_simps \<open>how binds and traversals of results compute\<close>

subsection \<open>Results\<close>

datatype rerror = Anyhow string | Panic

type_synonym 'a result = "rerror + 'a"

definition bindR :: "'a result \<Rightarrow> ('a \<Rightarrow> 'b result) \<Rightarrow> 'b result" where
  "bindR r f = (case r of Inl e \<Rightarrow> Inl e | Inr x \<Rightarrow> f x)"

lemma bindR_simps [simp]:
  "bindR (Inl e) f = Inl e"
  "bindR (Inr x) f = f x"
  by (simp_all add: bindR_def)

lemma bindR_cong [fundef_cong]:
  "r = r' \<Longrightarrow> (\<And>x. r' = Inr x \<Longrightarrow> f x = g x) \<Longrightarrow> bindR r f = bindR r' g"
  by (cases r') auto

lemma bindR_eq_Inr [simp]: "bindR r f = Inr y \<longleftrightarrow> (\<exists>x. r = Inr x \<and> f x = Inr y)"
  by (cases r) auto

text \<open>The loop \<open>for x in xs { out.push(f(x)?) }\<close>.\<close>

fun traverseR :: "('a \<Rightarrow> 'b result) \<Rightarrow> 'a list \<Rightarrow> 'b list result" where
  "traverseR f [] = Inr []"
| "traverseR f (x # xs) = bindR (f x) (\<lambda>y. bindR (traverseR f xs) (\<lambda>ys. Inr (y # ys)))"

lemma traverseR_cong [fundef_cong]:
  "xs = ys \<Longrightarrow> (\<And>x. x \<in> set ys \<Longrightarrow> f x = g x) \<Longrightarrow> traverseR f xs = traverseR g ys"
  by (induction ys arbitrary: xs) auto

lemma traverseR_Inr_map: "(\<And>x. x \<in> set xs \<Longrightarrow> f x = Inr (g x)) \<Longrightarrow> traverseR f xs = Inr (map g xs)"
  by (induction xs) auto

lemma traverseR_length: "traverseR f xs = Inr ys \<Longrightarrow> length ys = length xs"
  by (induction xs arbitrary: ys) auto

lemma traverseR_nth:
  "traverseR f xs = Inr ys \<Longrightarrow> i < length xs \<Longrightarrow> f (xs ! i) = Inr (ys ! i)"
proof (induction xs arbitrary: ys i)
  case (Cons x xs)
  then show ?case by (cases i) auto
qed simp

text \<open>\<open>v[i]\<close> on a slice: a panic out of range.\<close>

definition index_list :: "'a list \<Rightarrow> nat \<Rightarrow> 'a result" where
  "index_list xs i = (if i < length xs then Inr (xs ! i) else Inl Panic)"

lemma index_list_Inr [simp]: "index_list xs i = Inr y \<longleftrightarrow> i < length xs \<and> y = xs ! i"
  by (auto simp: index_list_def)

lemma index_list_simps [res_simps]:
  "index_list (x # xs) 0 = Inr x"
  "index_list (x # xs) (Suc i) = index_list xs i"
  "index_list [] i = Inl Panic"
  by (simp_all add: index_list_def)

subsection \<open>Orderings\<close>

datatype ordering = Less | Equal | Greater

fun reverse_ord :: "ordering \<Rightarrow> ordering" where
  "reverse_ord Less = Greater"
| "reverse_ord Equal = Equal"
| "reverse_ord Greater = Less"

fun then_with :: "ordering \<Rightarrow> ordering \<Rightarrow> ordering" where
  "then_with Equal o2 = o2"
| "then_with o1 o2 = o1"

definition cmp_lin :: "'a::linorder \<Rightarrow> 'a \<Rightarrow> ordering" where
  "cmp_lin a b = (if a < b then Less else if a = b then Equal else Greater)"

lemma reverse_ord_invol [simp]: "reverse_ord (reverse_ord c) = c"
  by (cases c) auto

lemma reverse_then_with [simp]:
  "reverse_ord (then_with c d) = then_with (reverse_ord c) (reverse_ord d)"
  by (cases c) auto

lemma cmp_lin_refl [simp]: "cmp_lin a a = Equal"
  by (simp add: cmp_lin_def)

lemma cmp_lin_swap: "cmp_lin b a = reverse_ord (cmp_lin a b)"
  by (auto simp: cmp_lin_def)

lemma cmp_lin_eq_iff [simp]:
  "cmp_lin a b = Equal \<longleftrightarrow> a = b"
  "cmp_lin a b = Less \<longleftrightarrow> a < b"
  "cmp_lin a b = Greater \<longleftrightarrow> b < a"
  by (auto simp: cmp_lin_def)

lemma then_with_eq_iff:
  "then_with c d = Equal \<longleftrightarrow> c = Equal \<and> d = Equal"
  "then_with c d = Less \<longleftrightarrow> c = Less \<or> c = Equal \<and> d = Less"
  "then_with c d = Greater \<longleftrightarrow> c = Greater \<or> c = Equal \<and> d = Greater"
  by (cases c; simp)+

subsection \<open>Machine integers\<close>

type_synonym i64 = "64 word"
type_synonym u64 = "64 word"
type_synonym u32 = "32 word"

definition i64_cmp :: "i64 \<Rightarrow> i64 \<Rightarrow> ordering" where
  "i64_cmp a b = cmp_lin (sint a) (sint b)"

definition in_i64 :: "int \<Rightarrow> bool" where
  "in_i64 x \<longleftrightarrow> - (2 ^ 63) \<le> x \<and> x < 2 ^ 63"

lemma sint_in_i64 [simp]: "in_i64 (sint (w :: i64))"
  using sint_range_size [of w] by (simp add: in_i64_def size_word_def)

lemma signed_take_bit_i64: "in_i64 x \<Longrightarrow> signed_take_bit 63 x = x"
  by (rule signed_take_bit_int_eq_self) (simp_all add: in_i64_def)

lemma sint_word_of_int_i64: "in_i64 x \<Longrightarrow> sint (word_of_int x :: i64) = x"
  by (simp add: sint_sbintrunc' signed_take_bit_i64)

lemma sint_i64_ariths:
  "in_i64 (sint a + sint b) \<Longrightarrow> sint ((a :: i64) + b) = sint a + sint b"
  "in_i64 (sint a - sint b) \<Longrightarrow> sint (a - b) = sint a - sint b"
  "in_i64 (sint a * sint b) \<Longrightarrow> sint (a * b) = sint a * sint b"
  "in_i64 (- sint a) \<Longrightarrow> sint (- a) = - sint a"
  by (simp_all add: sint_word_add sint_word_diff sint_word_mult sint_word_minus signed_take_bit_i64)

lemma i64_eqI: "sint (a :: i64) = sint b \<Longrightarrow> a = b"
  by (metis of_int_sint scast_id)

text \<open>Rust's \<open>/\<close> on signed integers rounds towards zero.\<close>

definition tdiv :: "int \<Rightarrow> int \<Rightarrow> int" where
  "tdiv a b = sgn a * sgn b * (\<bar>a\<bar> div \<bar>b\<bar>)"

lemma tdiv_nonneg [simp]: "0 \<le> a \<Longrightarrow> 0 < b \<Longrightarrow> tdiv a b = a div b"
  by (cases "a = 0") (simp_all add: tdiv_def)

lemma tdiv_floor_neg: "z < 0 \<Longrightarrow> 0 < b \<Longrightarrow> tdiv (z - (b - 1)) b = z div b"
proof -
  assume z: "z < 0" and b: "0 < b"
  have "tdiv (z - (b - 1)) b = - ((- (z - (b - 1))) div b)"
    using z b by (simp add: tdiv_def sgn_if)
  also have "(- (z - (b - 1))) div b = - (z div b)"
  proof -
    define q r where "q = z div b" and "r = z mod b"
    have zq: "z = b * q + r" and r: "0 \<le> r" "r < b"
      using b by (auto simp: q_def r_def)
    have "- (z - (b - 1)) = b * (- q) + (b - 1 - r)"
      using zq by (simp add: algebra_simps)
    then have "(- (z - (b - 1))) div b = (b * (- q) + (b - 1 - r)) div b"
      by (rule arg_cong)
    also have "\<dots> = - q + (b - 1 - r) div b"
      using b by (metis div_mult_self4 less_irrefl)
    also have "(b - 1 - r) div b = 0"
      using r by (simp add: div_pos_pos_trivial)
    finally show ?thesis by (simp add: q_def)
  qed
  finally show ?thesis by simp
qed

end
