(* ===== verification/Rust_Strings.thy ===== *)
theory Rust_Strings
  imports Prelude
begin

text \<open>
  The operations of Rust's \<open>str\<close>, \<open>String\<close> and integer formatting that the interpreter uses, on
  UTF-8 byte strings: character boundaries and slices, \<open>starts_with\<close>, \<open>ends_with\<close>, \<open>contains\<close>,
  \<open>replace\<close>/\<open>replacen\<close>, \<open>split\<close> on a character, \<open>trim_end_matches('0')\<close>, the decimal formats
  \<open>{}\<close> and \<open>{:0w}\<close>, and \<open>str::parse\<close> for \<open>i64\<close> and \<open>u32\<close>.  The lemmas show that printing and
  parsing are inverse and that a zero-padded field has exactly its width.
\<close>

subsection \<open>Slices\<close>

definition is_cont_byte :: "char \<Rightarrow> bool" where
  "is_cont_byte c = (128 \<le> (of_char c :: nat) \<and> (of_char c :: nat) < 192)"

definition is_char_boundary :: "string \<Rightarrow> nat \<Rightarrow> bool" where
  "is_char_boundary s i = (i = length s \<or> i < length s \<and> \<not> is_cont_byte (s ! i))"

definition str_slice :: "string \<Rightarrow> nat \<Rightarrow> nat \<Rightarrow> string result" where
  "str_slice s a b =
     (if a \<le> b \<and> is_char_boundary s a \<and> is_char_boundary s b
      then Inr (take (b - a) (drop a s)) else Inl Panic)"

definition starts_with :: "string \<Rightarrow> string \<Rightarrow> bool" where
  "starts_with s p = (take (length p) s = p)"

definition ends_with :: "string \<Rightarrow> string \<Rightarrow> bool" where
  "ends_with s p = starts_with (rev s) (rev p)"

fun str_contains :: "string \<Rightarrow> string \<Rightarrow> bool" where
  "str_contains [] p = (p = [])"
| "str_contains (c # cs) p = (starts_with (c # cs) p \<or> str_contains cs p)"

text \<open>\<open>s.replacen(pat, new, n)\<close>: the first \<open>n\<close> matches from the left, without overlap.  The empty
  pattern matches at every character boundary, the end of the string included.\<close>

function replacen_ne :: "string \<Rightarrow> string \<Rightarrow> nat \<Rightarrow> string \<Rightarrow> string" where
  "replacen_ne pat new n s =
     (if n = 0 \<or> pat = [] \<or> s = [] then s
      else if starts_with s pat then new @ replacen_ne pat new (n - 1) (drop (length pat) s)
      else hd s # replacen_ne pat new n (tl s))"
  by pat_completeness auto
termination
  by (relation "measure (\<lambda>(pat, new, n, s). length s)") auto

declare replacen_ne.simps [simp del]

function replacen_empty :: "string \<Rightarrow> nat \<Rightarrow> string \<Rightarrow> string" where
  "replacen_empty new n s =
     (if n = 0 then s
      else case s of
        [] \<Rightarrow> new
      | c # cs \<Rightarrow> new @ c # takeWhile is_cont_byte cs
                    @ replacen_empty new (n - 1) (dropWhile is_cont_byte cs))"
  by pat_completeness auto
termination
  by (relation "measure (\<lambda>(new, n, s). length s)")
     (auto simp: less_Suc_eq_le length_dropWhile_le)

declare replacen_empty.simps [simp del]

definition replacen :: "string \<Rightarrow> string \<Rightarrow> string \<Rightarrow> nat \<Rightarrow> string" where
  "replacen s pat new n =
     (if pat = [] then replacen_empty new n s else replacen_ne pat new n s)"

definition str_replace :: "string \<Rightarrow> string \<Rightarrow> string \<Rightarrow> string" where
  "str_replace s pat new = replacen s pat new (length s + 1)"

text \<open>\<open>s.split(c)\<close>: always at least one piece.\<close>

fun split_on :: "char \<Rightarrow> string \<Rightarrow> string list" where
  "split_on c [] = [[]]"
| "split_on c (x # xs) =
     (if x = c then [] # split_on c xs
      else case split_on c xs of [] \<Rightarrow> [[x]] | p # ps \<Rightarrow> (x # p) # ps)"

definition trim_end_zeros :: "string \<Rightarrow> string" where
  "trim_end_zeros s = rev (dropWhile (\<lambda>c. c = CHR ''0'') (rev s))"

subsection \<open>Decimal formats\<close>

definition digit_char :: "nat \<Rightarrow> char" where
  "digit_char d = char_of (48 + d)"

definition is_ascii_digit :: "char \<Rightarrow> bool" where
  "is_ascii_digit c = (48 \<le> (of_char c :: nat) \<and> (of_char c :: nat) \<le> 57)"

definition digit_val :: "char \<Rightarrow> nat" where
  "digit_val c = of_char c - 48"

fun show_nat :: "nat \<Rightarrow> string" where
  "show_nat n = (if n < 10 then [digit_char n] else show_nat (n div 10) @ [digit_char (n mod 10)])"

declare show_nat.simps [simp del]

definition show_int :: "int \<Rightarrow> string" where
  "show_int i = (if i < 0 then CHR ''-'' # show_nat (nat (- i)) else show_nat (nat i))"

text \<open>\<open>{:0w}\<close>: zeros go between the sign and the digits, the width counts the sign.\<close>

definition zpad :: "nat \<Rightarrow> int \<Rightarrow> string" where
  "zpad w i =
     (if i < 0
      then let d = show_nat (nat (- i)) in CHR ''-'' # replicate (w - 1 - length d) CHR ''0'' @ d
      else let d = show_nat (nat i) in replicate (w - length d) CHR ''0'' @ d)"

definition digits_val :: "string \<Rightarrow> nat" where
  "digits_val s = foldl (\<lambda>acc c. 10 * acc + digit_val c) 0 s"

definition all_digits :: "string \<Rightarrow> bool" where
  "all_digits s = (s \<noteq> [] \<and> list_all is_ascii_digit s)"

text \<open>\<open>i64::from_str\<close> and \<open>u32::from_str\<close>: an optional sign (\<open>-\<close> for signed types only), at least
  one ASCII digit, \<open>None\<close> for anything else and for a value out of range.\<close>

definition parse_i64 :: "string \<Rightarrow> i64 option" where
  "parse_i64 s =
     (let (neg, ds) = (case s of
          c # cs \<Rightarrow> if c = CHR ''-'' then (True, cs) else if c = CHR ''+'' then (False, cs)
                   else (False, s)
        | [] \<Rightarrow> (False, s));
          v = (if neg then - int (digits_val ds) else int (digits_val ds))
      in if all_digits ds \<and> in_i64 v then Some (word_of_int v) else None)"

definition parse_u32 :: "string \<Rightarrow> u32 option" where
  "parse_u32 s =
     (let ds = (case s of c # cs \<Rightarrow> if c = CHR ''+'' then cs else s | [] \<Rightarrow> s)
      in if all_digits ds \<and> digits_val ds < 2 ^ 32 then Some (of_nat (digits_val ds)) else None)"

subsection \<open>Facts\<close>

lemma of_char_digit_char [simp]: "d < 10 \<Longrightarrow> (of_char (digit_char d) :: nat) = 48 + d"
  by (simp add: digit_char_def of_char_of)

lemma is_ascii_digit_digit_char [simp]: "d < 10 \<Longrightarrow> is_ascii_digit (digit_char d)"
  by (simp add: is_ascii_digit_def)

lemma digit_val_digit_char [simp]: "d < 10 \<Longrightarrow> digit_val (digit_char d) = d"
  by (simp add: digit_val_def)

lemma digits_val_snoc [simp]: "digits_val (s @ [c]) = 10 * digits_val s + digit_val c"
  by (simp add: digits_val_def)

lemma digits_val_show_nat [simp]: "digits_val (show_nat n) = n"
proof (induction n rule: show_nat.induct)
  case (1 n)
  show ?case
  proof (cases "n < 10")
    case True
    then show ?thesis by (simp add: show_nat.simps [of n] digits_val_def)
  next
    case False
    with "1.IH" show ?thesis by (simp add: show_nat.simps [of n])
  qed
qed

lemma show_nat_digits: "list_all is_ascii_digit (show_nat n)"
proof (induction n rule: show_nat.induct)
  case (1 n)
  then show ?case by (cases "n < 10") (simp_all add: show_nat.simps [of n])
qed

lemma show_nat_ne [simp]: "show_nat n \<noteq> []"
  by (simp add: show_nat.simps [of n])

lemma all_digits_show_nat [simp]: "all_digits (show_nat n)"
  by (simp add: all_digits_def show_nat_digits)

lemma show_nat_hd_digit: "is_ascii_digit (hd (show_nat n))"
  using show_nat_digits [of n] by (cases "show_nat n") auto

lemma not_digit_signs [simp]: "\<not> is_ascii_digit CHR ''-''" "\<not> is_ascii_digit CHR ''+''"
  by (simp_all add: is_ascii_digit_def)

lemma parse_i64_show_int: "parse_i64 (show_int (sint w)) = Some w"
proof (cases "sint w < 0")
  case True
  then show ?thesis
    using sint_in_i64 [of w] by (simp add: parse_i64_def show_int_def)
next
  case False
  obtain c cs where cs: "show_nat (nat (sint w)) = c # cs"
    by (cases "show_nat (nat (sint w))") simp_all
  have "is_ascii_digit c"
    using show_nat_hd_digit [of "nat (sint w)"] cs by simp
  then have "c \<noteq> CHR ''-''" "c \<noteq> CHR ''+''"
    by auto
  then show ?thesis
    using False sint_in_i64 [of w] all_digits_show_nat [of "nat (sint w)"]
      digits_val_show_nat [of "nat (sint w)"] cs
    by (simp add: parse_i64_def show_int_def del: digits_val_show_nat all_digits_show_nat)
qed

lemma show_nat_length_le: "n < 10 ^ w \<Longrightarrow> 0 < w \<Longrightarrow> length (show_nat n) \<le> w"
proof (induction w arbitrary: n)
  case (Suc w)
  show ?case
  proof (cases "n < 10")
    case True
    then show ?thesis by (simp add: show_nat.simps [of n])
  next
    case False
    with Suc.prems have w: "0 < w"
      by (cases w) auto
    have "n div 10 < 10 ^ w"
      using Suc.prems(1) by (simp add: less_mult_imp_div_less)
    then show ?thesis
      using Suc.IH [OF _ w] False by (simp add: show_nat.simps [of n])
  qed
qed simp

lemma digits_val_zeros [simp]: "digits_val (replicate k CHR ''0'' @ s) = digits_val s"
proof -
  have "foldl (\<lambda>acc c. 10 * acc + digit_val c) 0 (replicate k CHR ''0'') = (0 :: nat)"
    by (induction k) (simp_all add: digit_val_def)
  then show ?thesis
    by (simp add: digits_val_def)
qed

lemma zero_is_digit [simp]: "is_ascii_digit CHR ''0''"
  by (simp add: is_ascii_digit_def)

lemma list_all_replicate_zero [simp]: "list_all is_ascii_digit (replicate k CHR ''0'')"
  by (induction k) simp_all

text \<open>A zero-padded non-negative field of a number that fits has exactly the width asked for, is
  all digits, and reads back as the number.\<close>

lemma zpad_field:
  assumes "0 \<le> i" "i < 10 ^ w" "0 < w"
  shows "length (zpad w i) = w" "all_digits (zpad w i)" "digits_val (zpad w i) = nat i"
proof -
  have "nat i < 10 ^ w"
    using assms by (simp add: nat_less_iff)
  then have "length (show_nat (nat i)) \<le> w"
    using assms(3) by (rule show_nat_length_le)
  then show "length (zpad w i) = w"
    using assms(1) by (simp add: zpad_def Let_def)
  show "all_digits (zpad w i)" "digits_val (zpad w i) = nat i"
    using assms(1) all_digits_show_nat [of "nat i"]
    by (simp_all add: zpad_def Let_def all_digits_def)
qed

lemma starts_with_append [simp]: "starts_with (p @ s) p"
  by (simp add: starts_with_def)

lemma starts_with_iff: "starts_with s p \<longleftrightarrow> (\<exists>t. s = p @ t)"
  by (metis append_take_drop_id starts_with_append starts_with_def)

lemma ends_with_iff: "ends_with s p \<longleftrightarrow> (\<exists>t. s = t @ p)"
  by (metis ends_with_def rev_append rev_rev_ident starts_with_iff)

lemma str_contains_iff: "str_contains s p \<longleftrightarrow> (\<exists>a b. s = a @ p @ b)"
proof (induction s)
  case Nil
  then show ?case by auto
next
  case (Cons c cs)
  have "(\<exists>a b. c # cs = a @ p @ b) \<longleftrightarrow> (\<exists>b. c # cs = p @ b) \<or> (\<exists>a b. cs = a @ p @ b)"
    by (metis append_Cons append_Nil append_eq_Cons_conv list.sel(3) neq_Nil_conv)
  with Cons show ?case by (simp add: starts_with_iff)
qed

end
