(* ===== verification/Values.thy ===== *)
theory Values
  imports Rust_Strings
begin

text \<open>
  The value type of \<open>mangle-common\<close>: \<open>CompoundKind\<close>, \<open>Value\<close> and its hand-written \<open>PartialEq\<close> and
  \<open>Ord\<close>.  A float is its bit pattern, so that HOL's equality on \<open>mvalue\<close> is the Rust equality, which
  compares \<open>to_bits\<close>.  \<open>f64::total_cmp\<close> and the cast \<open>i64 as f64\<close> (round to nearest, ties to even)
  are computed on the bits.
\<close>

subsection \<open>Floats as bit patterns\<close>

type_synonym f64 = "64 word"

text \<open>\<open>total_cmp\<close>: flip all bits below the sign of a negative number, then compare as \<open>i64\<close>.\<close>

definition total_key :: "f64 \<Rightarrow> int" where
  "total_key x = (let i = sint x in if i < 0 then - i - 1 - 2 ^ 63 else i)"

definition total_cmp :: "f64 \<Rightarrow> f64 \<Rightarrow> ordering" where
  "total_cmp a b = cmp_lin (total_key a) (total_key b)"

text \<open>Position of the highest set bit of a positive number.\<close>

fun ilog2 :: "nat \<Rightarrow> nat" where
  "ilog2 n = (if n < 2 then 0 else Suc (ilog2 (n div 2)))"

declare ilog2.simps [simp del]

definition f64_of_mag :: "nat \<Rightarrow> nat" where
  "f64_of_mag m =
     (let e = ilog2 m in
      if e \<le> 52 then (e + 1023) * 2 ^ 52 + (m * 2 ^ (52 - e) - 2 ^ 52)
      else
        let sh = e - 52; q = m div 2 ^ sh; r = m mod 2 ^ sh; half = 2 ^ (sh - 1);
            q' = (if half < r \<or> r = half \<and> odd q then q + 1 else q)
        in (e + 1023) * 2 ^ 52 + (q' - 2 ^ 52))"

definition i64_to_f64 :: "i64 \<Rightarrow> f64" where
  "i64_to_f64 n =
     (if n = 0 then 0
      else of_nat ((if sint n < 0 then 2 ^ 63 else 0) + f64_of_mag (nat \<bar>sint n\<bar>)))"

subsection \<open>Values\<close>

datatype compound_kind = KList | KPair | KMap | KStruct

datatype mvalue =
    Number i64
  | Float f64
  | Str string
  | Name string
  | Time i64
  | Duration i64
  | Compound compound_kind "mvalue list"
  | Null

text \<open>\<open>#[derive(Ord)]\<close> on \<open>CompoundKind\<close>: the order of the variants.\<close>

fun kind_rank :: "compound_kind \<Rightarrow> nat" where
  "kind_rank KList = 0"
| "kind_rank KPair = 1"
| "kind_rank KMap = 2"
| "kind_rank KStruct = 3"

definition kind_cmp :: "compound_kind \<Rightarrow> compound_kind \<Rightarrow> ordering" where
  "kind_cmp a b = cmp_lin (kind_rank a) (kind_rank b)"

text \<open>\<open>impl Ord for Value\<close>, arm by arm, and the lexicographic \<open>Ord\<close> of \<open>Vec<Value>\<close>.\<close>

fun value_cmp :: "mvalue \<Rightarrow> mvalue \<Rightarrow> ordering"
and values_cmp :: "mvalue list \<Rightarrow> mvalue list \<Rightarrow> ordering" where
  "value_cmp (Number a) (Number b) = i64_cmp a b"
| "value_cmp (Float a) (Float b) = total_cmp a b"
| "value_cmp (Number a) (Float b) = total_cmp (i64_to_f64 a) b"
| "value_cmp (Float a) (Number b) = total_cmp a (i64_to_f64 b)"
| "value_cmp (Str a) (Str b) = cmp_lin a b"
| "value_cmp (Name a) (Name b) = cmp_lin a b"
| "value_cmp (Time a) (Time b) = i64_cmp a b"
| "value_cmp (Duration a) (Duration b) = i64_cmp a b"
| "value_cmp (Duration a) (Number b) = i64_cmp a b"
| "value_cmp (Number a) (Duration b) = i64_cmp a b"
| "value_cmp (Time a) (Number b) = i64_cmp a b"
| "value_cmp (Number a) (Time b) = i64_cmp a b"
| "value_cmp (Compound ka a) (Compound kb b) = then_with (kind_cmp ka kb) (values_cmp a b)"
| "value_cmp Null Null = Equal"
| "value_cmp (Number _) _ = Less"
| "value_cmp (Float _) _ = Less"
| "value_cmp _ (Number _) = Greater"
| "value_cmp _ (Float _) = Greater"
| "value_cmp (Str _) _ = Less"
| "value_cmp _ (Str _) = Greater"
| "value_cmp (Name _) _ = Less"
| "value_cmp _ (Name _) = Greater"
| "value_cmp (Time _) _ = Less"
| "value_cmp _ (Time _) = Greater"
| "value_cmp (Duration _) _ = Less"
| "value_cmp _ (Duration _) = Greater"
| "value_cmp (Compound _ _) _ = Less"
| "value_cmp _ (Compound _ _) = Greater"
| "values_cmp [] [] = Equal"
| "values_cmp [] (_ # _) = Less"
| "values_cmp (_ # _) [] = Greater"
| "values_cmp (x # xs) (y # ys) = then_with (value_cmp x y) (values_cmp xs ys)"

subsection \<open>Laws of the comparison\<close>

lemma i64_cmp_refl [simp]: "i64_cmp a a = Equal"
  by (simp add: i64_cmp_def)

lemma total_cmp_refl [simp]: "total_cmp a a = Equal"
  by (simp add: total_cmp_def)

lemma kind_cmp_refl [simp]: "kind_cmp k k = Equal"
  by (simp add: kind_cmp_def)

lemmas scalar_cmp_defs = i64_cmp_def total_cmp_def kind_cmp_def cmp_lin_def

lemma cmp_swap_both:
  "value_cmp b a = reverse_ord (value_cmp a b)"
  "values_cmp ys xs = reverse_ord (values_cmp xs ys)"
  by (induction a b and xs ys rule: value_cmp_values_cmp.induct) (auto simp: scalar_cmp_defs)

lemma values_cmp_refl: "(\<And>v. v \<in> set vs \<Longrightarrow> value_cmp v v = Equal) \<Longrightarrow> values_cmp vs vs = Equal"
  by (induction vs) simp_all

lemma value_cmp_refl [simp]: "value_cmp v v = Equal"
  by (induction v) (simp_all add: values_cmp_refl)

subsection \<open>Fragments on which the comparison is a total order\<close>

text \<open>\<open>deep p v\<close>: every scalar inside \<open>v\<close> satisfies \<open>p\<close>.\<close>

fun deep :: "(mvalue \<Rightarrow> bool) \<Rightarrow> mvalue \<Rightarrow> bool" where
  "deep p (Compound k vs) = list_all (deep p) vs"
| "deep p v = p v"

definition is_number :: "mvalue \<Rightarrow> bool" where
  "is_number v = (case v of Number _ \<Rightarrow> True | _ \<Rightarrow> False)"

definition mixes_with_number :: "mvalue \<Rightarrow> bool" where
  "mixes_with_number v =
     (case v of Float _ \<Rightarrow> True | Time _ \<Rightarrow> True | Duration _ \<Rightarrow> True | _ \<Rightarrow> False)"

text \<open>A value without integers, or one without floats, times and durations.\<close>

definition no_number :: "mvalue \<Rightarrow> bool" where
  "no_number = deep (\<lambda>v. \<not> is_number v)"

definition integral :: "mvalue \<Rightarrow> bool" where
  "integral = deep (\<lambda>v. \<not> mixes_with_number v)"

lemma total_key_inj: "total_key a = total_key b \<Longrightarrow> a = b"
proof -
  assume eq: "total_key a = total_key b"
  have "in_i64 (sint a)" "in_i64 (sint b)"
    by (rule sint_in_i64)+
  with eq have "sint a = sint b"
    by (auto simp: total_key_def Let_def in_i64_def split: if_splits)
  then show ?thesis
    by (rule i64_eqI)
qed

lemma scalar_cmp_Equal:
  "i64_cmp a b = Equal \<longleftrightarrow> a = b"
  "total_cmp x y = Equal \<longleftrightarrow> x = y"
  "kind_cmp k l = Equal \<longleftrightarrow> k = l"
  by (auto simp: i64_cmp_def total_cmp_def kind_cmp_def intro: i64_eqI total_key_inj)
     (cases k; cases l; simp)

lemma scalar_cmp_Less_trans:
  "i64_cmp a b = Less \<Longrightarrow> i64_cmp b c = Less \<Longrightarrow> i64_cmp a c = Less"
  "total_cmp x y = Less \<Longrightarrow> total_cmp y z = Less \<Longrightarrow> total_cmp x z = Less"
  "kind_cmp k l = Less \<Longrightarrow> kind_cmp l m = Less \<Longrightarrow> kind_cmp k m = Less"
  by (simp_all add: i64_cmp_def total_cmp_def kind_cmp_def)

lemma values_cmp_Equal:
  assumes "\<And>x y. x \<in> set xs \<Longrightarrow> y \<in> set ys \<Longrightarrow> value_cmp x y = Equal \<longleftrightarrow> x = y"
  shows "values_cmp xs ys = Equal \<longleftrightarrow> xs = ys"
  using assms
proof (induction xs arbitrary: ys)
  case Nil
  then show ?case by (cases ys) auto
next
  case (Cons x xs)
  then show ?case by (cases ys) (auto simp: then_with_eq_iff)
qed

lemma values_cmp_Less_trans:
  assumes "\<And>x y. x \<in> set xs \<Longrightarrow> y \<in> set ys \<Longrightarrow> value_cmp x y = Equal \<longleftrightarrow> x = y"
    and "\<And>y z. y \<in> set ys \<Longrightarrow> z \<in> set zs \<Longrightarrow> value_cmp y z = Equal \<longleftrightarrow> y = z"
    and "\<And>x y z. x \<in> set xs \<Longrightarrow> y \<in> set ys \<Longrightarrow> z \<in> set zs \<Longrightarrow>
           value_cmp x y = Less \<Longrightarrow> value_cmp y z = Less \<Longrightarrow> value_cmp x z = Less"
    and "values_cmp xs ys = Less" "values_cmp ys zs = Less"
  shows "values_cmp xs zs = Less"
  using assms
proof (induction xs arbitrary: ys zs)
  case Nil
  show ?case using Nil(4,5) by (cases ys; cases zs) simp_all
next
  case (Cons x xs)
  obtain y ys' where ys: "ys = y # ys'"
    using Cons.prems(4) by (cases ys) auto
  obtain z zs' where zs: "zs = z # zs'"
    using Cons.prems(5) ys by (cases zs) auto
  have e1: "value_cmp x y = Equal \<longleftrightarrow> x = y" and e2: "value_cmp y z = Equal \<longleftrightarrow> y = z"
    using Cons.prems(1) [of x y] Cons.prems(2) [of y z] by (simp_all add: ys zs)
  have t: "value_cmp x y = Less \<Longrightarrow> value_cmp y z = Less \<Longrightarrow> value_cmp x z = Less"
    using Cons.prems(3) [of x y z] by (simp add: ys zs)
  have IH: "values_cmp xs ys' = Less \<Longrightarrow> values_cmp ys' zs' = Less \<Longrightarrow> values_cmp xs zs' = Less"
    by (rule Cons.IH [of ys' zs'])
       (use Cons.prems(1-3) in \<open>simp_all add: ys zs, blast+\<close>)
  have "value_cmp x y = Less \<or> x = y \<and> values_cmp xs ys' = Less"
    using Cons.prems(4) e1 by (simp add: ys then_with_eq_iff)
  moreover have "value_cmp y z = Less \<or> y = z \<and> values_cmp ys' zs' = Less"
    using Cons.prems(5) e2 by (simp add: ys zs then_with_eq_iff)
  ultimately show ?case
    using t IH by (elim disjE conjE) (simp_all add: zs then_with_eq_iff)
qed

lemma fragment_cmp_Equal:
  assumes "no_number a \<and> no_number b \<or> integral a \<and> integral b"
  shows "value_cmp a b = Equal \<longleftrightarrow> a = b"
  using assms
proof (induction a arbitrary: b)
  case (Compound k vs)
  show ?case
  proof (cases b)
    case (Compound l ws)
    have "values_cmp vs ws = Equal \<longleftrightarrow> vs = ws"
      using Compound.IH Compound.prems Compound
      by (intro values_cmp_Equal) (auto simp: no_number_def integral_def list_all_iff)
    then show ?thesis
      using Compound by (simp add: then_with_eq_iff scalar_cmp_Equal)
  qed simp_all
qed (case_tac b; simp add: scalar_cmp_Equal no_number_def integral_def is_number_def
       mixes_with_number_def)+

lemma fragment_cmp_Less_trans:
  assumes "no_number a \<and> no_number b \<and> no_number c \<or> integral a \<and> integral b \<and> integral c"
    and "value_cmp a b = Less" "value_cmp b c = Less"
  shows "value_cmp a c = Less"
  using assms
proof (induction a arbitrary: b c)
  case (Compound k vs)
  show ?case
  proof (cases b; cases c)
    fix l ws m us
    assume b: "b = Compound l ws" and c: "c = Compound m us"
    have eq: "\<And>x y. no_number x \<and> no_number y \<or> integral x \<and> integral y \<Longrightarrow>
        value_cmp x y = Equal \<longleftrightarrow> x = y"
      by (rule fragment_cmp_Equal)
    have frag: "no_number x \<and> no_number y \<and> no_number z \<or> integral x \<and> integral y \<and> integral z"
      if "x \<in> set vs" "y \<in> set ws" "z \<in> set us" for x y z
      using that Compound.prems(1) b c by (auto simp: no_number_def integral_def list_all_iff)
    have tr: "value_cmp x z = Less"
      if "x \<in> set vs" "y \<in> set ws" "z \<in> set us" "value_cmp x y = Less" "value_cmp y z = Less"
      for x y z
      using Compound.IH [OF that(1) frag [OF that(1-3)] that(4,5)] .
    have "values_cmp vs ws = Less \<Longrightarrow> values_cmp ws us = Less \<Longrightarrow> values_cmp vs us = Less"
      using Compound.prems(1) b c tr
      by (elim values_cmp_Less_trans [of vs ws us, rotated 3])
         (auto intro!: eq simp: no_number_def integral_def list_all_iff)
    moreover have "values_cmp vs ws = Equal \<Longrightarrow> vs = ws" "values_cmp ws us = Equal \<Longrightarrow> ws = us"
      using Compound.prems(1) b c eq
      by (auto simp: no_number_def integral_def list_all_iff values_cmp_Equal)
    ultimately show ?thesis
      using Compound.prems(2,3) b c scalar_cmp_Less_trans(3) [of k l m]
      by (auto simp: then_with_eq_iff scalar_cmp_Equal)
  qed (use Compound.prems in \<open>auto simp: no_number_def integral_def is_number_def
         mixes_with_number_def\<close>)
qed (case_tac b; case_tac c; auto simp: no_number_def integral_def is_number_def
       mixes_with_number_def intro: scalar_cmp_Less_trans)+

subsection \<open>Properties\<close>

text \<open>\<open>Value::cmp\<close> is reflexive and antisymmetric: swapping the arguments of the comparison
  reverses its outcome, for every pair of values, compound ones included.\<close>

theorem value_cmp_antisym:
  "value_cmp v v = Equal \<and> value_cmp w v = reverse_ord (value_cmp v w)"
  using cmp_swap_both(1) [of w v] by simp

text \<open>On values without integers, and on values without floats, times and durations,
  \<open>Value::cmp\<close> is a total order that agrees with equality: it answers \<open>Equal\<close> exactly on equal
  values, and \<open>Less\<close> is transitive.\<close>

theorem value_cmp_total_order:
  assumes "no_number a \<and> no_number b \<and> no_number c \<or> integral a \<and> integral b \<and> integral c"
  shows "(value_cmp a b = Equal \<longleftrightarrow> a = b) \<and>
    (value_cmp a b = Less \<longrightarrow> value_cmp b c = Less \<longrightarrow> value_cmp a c = Less)"
  using assms fragment_cmp_Equal [of a b] fragment_cmp_Less_trans [of a b c] by blast

theorem value_cmp_total_order_witness:
  "value_cmp (Str ''a'') (Compound KList [Number 1]) = Less \<and>
   value_cmp (Number 7) (Compound KList [Number 1]) = Less"
  using value_cmp_total_order [of "Number 7" "Str ''a''" "Compound KList [Number 1]"]
  by (simp add: integral_def mixes_with_number_def)

text \<open>Across variants \<open>Value::cmp\<close> is not an order: an integer is below every string and a
  string below every time, yet a time is below every integer with a larger nanosecond count, so the
  three values form a cycle.\<close>

theorem value_cmp_cycle:
  assumes "sint t < sint n"
  shows "value_cmp (Number n) (Str s) = Less \<and> value_cmp (Str s) (Time t) = Less \<and>
    value_cmp (Time t) (Number n) = Less"
  using assms by (simp add: i64_cmp_def)

theorem value_cmp_cycle_witness:
  "value_cmp (Number 5) (Str ''a'') = Less \<and> value_cmp (Str ''a'') (Time 3) = Less \<and>
   value_cmp (Time 3) (Number 5) = Less"
  using value_cmp_cycle [of 3 5 "''a''"] by simp

end
