(* ===== verification/Cells.thy ===== *)
theory Cells
  imports Values
begin

text \<open>
  The storage cells of the interpreter's \<open>MemStore\<close>: a compound value is stored inline as a
  \<open>CompoundStart\<close> marker with its kind and element count, followed by its flattened elements.  The
  source reads cells through a slice and a moving position; here a reader takes the suffix that
  starts at the position and returns the suffix it stops at, and reading past the end is a panic.
  The lemmas show that flattening loses nothing: reading back, skipping and counting agree with it.
\<close>

subsection \<open>Cells and their readers\<close>

datatype cell = Val mvalue | CompoundStart compound_kind nat

fun flatten_value :: "mvalue \<Rightarrow> cell list" where
  "flatten_value (Compound kind elems) =
     CompoundStart kind (length elems) # concat (map flatten_value elems)"
| "flatten_value v = [Val v]"

definition flatten_tuple :: "mvalue list \<Rightarrow> cell list" where
  "flatten_tuple t = concat (map flatten_value t)"

function (sequential) unflatten_one :: "cell list \<Rightarrow> (mvalue \<times> cell list) result"
and unflatten_many :: "nat \<Rightarrow> cell list \<Rightarrow> (mvalue list \<times> cell list) result" where
  "unflatten_one [] = Inl Panic"
| "unflatten_one (Val v # cs) = Inr (v, cs)"
| "unflatten_one (CompoundStart kind n # cs) =
     bindR (unflatten_many n cs) (\<lambda>(vs, cs'). Inr (Compound kind vs, cs'))"
| "unflatten_many 0 cs = Inr ([], cs)"
| "unflatten_many (Suc n) cs =
     bindR (unflatten_one cs) (\<lambda>(v, cs').
       bindR (unflatten_many n cs') (\<lambda>(vs, cs''). Inr (v # vs, cs'')))"
  by pat_completeness auto
termination
proof (relation "measures [\<lambda>x. case x of Inl cs \<Rightarrow> length cs | Inr (n, cs) \<Rightarrow> length cs,
                           \<lambda>x. case x of Inl cs \<Rightarrow> 0 | Inr (n, cs) \<Rightarrow> n]", goal_cases)
  case (4 n cs p v cs')
  have shrink: "unflatten_one_unflatten_many_dom (Inl ds) \<Longrightarrow>
      (\<forall>w ds'. unflatten_one ds = Inr (w, ds') \<longrightarrow> length ds' < length ds)"
    and "unflatten_one_unflatten_many_dom (Inr (m, es)) \<Longrightarrow>
      (\<forall>ws es'. unflatten_many m es = Inr (ws, es') \<longrightarrow> length es' \<le> length es)" for ds m es
    by (induction ds and m es rule: unflatten_one_unflatten_many.pinduct)
       (fastforce simp: unflatten_one.psimps unflatten_many.psimps)+
  show ?case using 4 shrink by auto
qed auto

lemma unflatten_shrink:
  "unflatten_one cs = Inr (v, cs') \<Longrightarrow> length cs' < length cs"
  "unflatten_many n ds = Inr (vs, ds') \<Longrightarrow> length ds' \<le> length ds"
  by (induction cs and n ds arbitrary: v cs' and vs ds' rule: unflatten_one_unflatten_many.induct)
     fastforce+

definition unflatten_tuple :: "cell list \<Rightarrow> nat \<Rightarrow> mvalue list result" where
  "unflatten_tuple cells n_cols = bindR (unflatten_many n_cols cells) (\<lambda>(vs, _). Inr vs)"

text \<open>\<open>skip_one\<close> walks the same cells without building a value.\<close>

function (sequential) skip_one :: "cell list \<Rightarrow> cell list result"
and skip_many :: "nat \<Rightarrow> cell list \<Rightarrow> cell list result" where
  "skip_one [] = Inl Panic"
| "skip_one (Val v # cs) = Inr cs"
| "skip_one (CompoundStart kind n # cs) = skip_many n cs"
| "skip_many 0 cs = Inr cs"
| "skip_many (Suc n) cs = bindR (skip_one cs) (\<lambda>cs'. skip_many n cs')"
  by pat_completeness auto
termination
proof (relation "measures [\<lambda>x. case x of Inl cs \<Rightarrow> length cs | Inr (n, cs) \<Rightarrow> length cs,
                           \<lambda>x. case x of Inl cs \<Rightarrow> 0 | Inr (n, cs) \<Rightarrow> n]", goal_cases)
  case (4 n cs cs')
  have shrink: "skip_one_skip_many_dom (Inl ds) \<Longrightarrow>
      (\<forall>ds'. skip_one ds = Inr ds' \<longrightarrow> length ds' < length ds)"
    and "skip_one_skip_many_dom (Inr (m, es)) \<Longrightarrow>
      (\<forall>es'. skip_many m es = Inr es' \<longrightarrow> length es' \<le> length es)" for ds m es
    by (induction ds and m es rule: skip_one_skip_many.pinduct)
       (fastforce simp: skip_one.psimps skip_many.psimps)+
  show ?case using 4 shrink by auto
qed auto

lemma skip_shrink:
  "skip_one cs = Inr cs' \<Longrightarrow> length cs' < length cs"
  "skip_many n ds = Inr ds' \<Longrightarrow> length ds' \<le> length ds"
  by (induction cs and n ds arbitrary: cs' and ds' rule: skip_one_skip_many.induct) fastforce+

function count_logical_values :: "cell list \<Rightarrow> nat result" where
  "count_logical_values cs =
     (if cs = [] then Inr 0
      else bindR (skip_one cs) (\<lambda>cs'. bindR (count_logical_values cs') (\<lambda>k. Inr (Suc k))))"
  by pat_completeness auto
termination
  by (relation "measure length") (auto dest: skip_shrink)

declare count_logical_values.simps [simp del]

subsection \<open>Flattening loses nothing\<close>

lemma unflatten_many_concat:
  assumes "\<And>v rest. v \<in> set vs \<Longrightarrow> unflatten_one (flatten_value v @ rest) = Inr (v, rest)"
  shows "unflatten_many (length vs) (concat (map flatten_value vs) @ rest) = Inr (vs, rest)"
  using assms by (induction vs) simp_all

lemma unflatten_flatten [simp]: "unflatten_one (flatten_value v @ rest) = Inr (v, rest)"
proof (induction v arbitrary: rest)
  case (Compound k vs)
  then show ?case by (simp add: unflatten_many_concat)
qed simp_all

lemma unflatten_many_flatten [simp]:
  "unflatten_many (length t) (flatten_tuple t @ rest) = Inr (t, rest)"
  by (simp add: flatten_tuple_def unflatten_many_concat)

lemma unflatten_flatten_tuple [simp]: "unflatten_tuple (flatten_tuple t) (length t) = Inr t"
  using unflatten_many_flatten [of t "[]"] by (simp add: unflatten_tuple_def)

lemma skip_many_concat:
  assumes "\<And>v rest. v \<in> set vs \<Longrightarrow> skip_one (flatten_value v @ rest) = Inr rest"
  shows "skip_many (length vs) (concat (map flatten_value vs) @ rest) = Inr rest"
  using assms by (induction vs) simp_all

lemma skip_flatten [simp]: "skip_one (flatten_value v @ rest) = Inr rest"
proof (induction v arbitrary: rest)
  case (Compound k vs)
  then show ?case by (simp add: skip_many_concat)
qed simp_all

lemma flatten_value_ne [simp]: "flatten_value v \<noteq> []"
  by (cases v) simp_all

lemma flatten_tuple_simps [simp]:
  "flatten_tuple [] = []"
  "flatten_tuple (v # t) = flatten_value v @ flatten_tuple t"
  by (simp_all add: flatten_tuple_def)

lemma count_flatten_tuple [simp]: "count_logical_values (flatten_tuple t) = Inr (length t)"
proof (induction t)
  case Nil
  then show ?case by (simp add: count_logical_values.simps [of "[]"])
next
  case (Cons v t)
  then show ?case by (simp add: count_logical_values.simps [of "flatten_value v @ flatten_tuple t"])
qed

lemma flatten_tuple_inj [simp]: "flatten_tuple s = flatten_tuple t \<longleftrightarrow> s = t"
proof
  assume eq: "flatten_tuple s = flatten_tuple t"
  then have "count_logical_values (flatten_tuple s) = count_logical_values (flatten_tuple t)"
    by (rule arg_cong)
  then have len: "length s = length t"
    by simp
  have "unflatten_tuple (flatten_tuple s) (length s) = unflatten_tuple (flatten_tuple t) (length t)"
    by (simp only: eq len)
  then show "s = t"
    by simp
qed simp

text \<open>The first cell of a flattened value is what the indexes are keyed on.\<close>

definition value_to_index_key :: "mvalue \<Rightarrow> cell" where
  "value_to_index_key v =
     (case v of Compound kind elems \<Rightarrow> CompoundStart kind (length elems) | _ \<Rightarrow> Val v)"

lemma hd_flatten_value [simp]: "hd (flatten_value v @ rest) = value_to_index_key v"
  by (cases v) (simp_all add: value_to_index_key_def)

lemma value_to_index_key_scalar:
  "\<not> (\<exists>k es. w = Compound k es) \<Longrightarrow> value_to_index_key v = value_to_index_key w \<longleftrightarrow> v = w"
  by (cases v; cases w) (auto simp: value_to_index_key_def)

text \<open>C16: Storing a tuple as flat cells loses nothing: reading the cells back with the tuple's
  length gives the tuple, the logical values counted in the cells are its columns, and two tuples
  have the same cells only if they are the same tuple.\<close>

theorem cells_roundtrip:
  "unflatten_tuple (flatten_tuple t) (length t) = Inr t \<and>
   count_logical_values (flatten_tuple t) = Inr (length t) \<and>
   (flatten_tuple t = flatten_tuple u \<longleftrightarrow> t = u)"
  by simp

end
