(* ===== verification/Mem_Store.thy ===== *)
theory Mem_Store
  imports Cells "HOL-Library.AList"
begin

text \<open>
  \<open>MemStore\<close>, the interpreter's in-memory store: the tables of stable, delta and next-delta rows, the
  arity registered for each relation, and the secondary indexes from (relation, column) and a key
  cell to row numbers.  A \<open>HashMap\<close> from relation names to rows is an association list (its order is
  never observable through the lookups used here), an index is a map.  Every operation of the
  \<open>impl MemStore\<close> and \<open>impl Store for MemStore\<close> blocks is one definition; a panic of a cell reader
  is the error \<open>Panic\<close>.

  The second half states the invariant of the store (rows are flattened tuples of the registered
  arity, no row is stored twice, the indexes list exactly the rows they should) and what each
  operation does to it and to the tuples a scan sees.
\<close>

subsection \<open>State\<close>

type_synonym row = "cell list"
type_synonym table = "(string \<times> row list) list"
type_synonym index = "string \<times> nat \<Rightarrow> (cell \<Rightarrow> nat list option) option"

record mem_store =
  stable :: table
  delta :: table
  next_delta :: table
  arity :: "string \<Rightarrow> nat option"
  stable_indexes :: index
  delta_indexes :: index

definition mem_new :: mem_store where
  "mem_new = \<lparr>stable = [], delta = [], next_delta = [], arity = Map.empty,
     stable_indexes = Map.empty, delta_indexes = Map.empty\<rparr>"

text \<open>\<open>table.get(relation).into_iter().flatten()\<close> and \<open>entry(relation).or_default()\<close>.\<close>

definition rows :: "table \<Rightarrow> string \<Rightarrow> row list" where
  "rows tab rel = (case map_of tab rel of None \<Rightarrow> [] | Some rs \<Rightarrow> rs)"

definition or_default :: "string \<Rightarrow> table \<Rightarrow> table" where
  "or_default rel tab = (if map_of tab rel = None then AList.update rel [] tab else tab)"

definition n_cols_of :: "mem_store \<Rightarrow> string \<Rightarrow> nat" where
  "n_cols_of s rel = (case arity s rel of None \<Rightarrow> 0 | Some n \<Rightarrow> n)"

subsection \<open>Index maintenance\<close>

definition push_index :: "index \<Rightarrow> string \<Rightarrow> nat \<Rightarrow> cell \<Rightarrow> nat \<Rightarrow> index" where
  "push_index ix rel col key row_idx =
     (let m = (case ix (rel, col) of None \<Rightarrow> Map.empty | Some m \<Rightarrow> m);
          old = (case m key of None \<Rightarrow> [] | Some is \<Rightarrow> is)
      in ix((rel, col) \<mapsto> m(key \<mapsto> old @ [row_idx])))"

fun index_cols :: "index \<Rightarrow> string \<Rightarrow> row \<Rightarrow> nat \<Rightarrow> nat \<Rightarrow> nat \<Rightarrow> index result" where
  "index_cols ix rel cells col 0 row_idx = Inr ix"
| "index_cols ix rel cells col (Suc n) row_idx =
     bindR (index_list cells 0) (\<lambda>key.
       bindR (skip_one cells) (\<lambda>cells'.
         index_cols (push_index ix rel col key row_idx) rel cells' (Suc col) n row_idx))"

definition index_cells :: "index \<Rightarrow> string \<Rightarrow> row \<Rightarrow> nat \<Rightarrow> nat \<Rightarrow> index result" where
  "index_cells ix rel cells n_cols row_idx = index_cols ix rel cells 0 n_cols row_idx"

text \<open>\<open>for (row_idx, cells) in table.iter().enumerate() { index_cells(..) }\<close>, from row \<open>i\<close> on.\<close>

fun index_rows :: "index \<Rightarrow> string \<Rightarrow> nat \<Rightarrow> nat \<Rightarrow> row list \<Rightarrow> index result" where
  "index_rows ix rel n_cols i [] = Inr ix"
| "index_rows ix rel n_cols i (cells # rs) =
     bindR (index_cells ix rel cells n_cols i) (\<lambda>ix'. index_rows ix' rel n_cols (Suc i) rs)"

definition drop_index :: "string \<Rightarrow> index \<Rightarrow> index" where
  "drop_index rel ix = (\<lambda>(r, c). if r = rel then None else ix (r, c))"

definition rebuild_indexes_for :: "string \<Rightarrow> mem_store \<Rightarrow> mem_store result" where
  "rebuild_indexes_for rel s =
     (let n_cols = n_cols_of s rel in
      bindR (index_rows (drop_index rel (stable_indexes s)) rel n_cols 0 (rows (stable s) rel)) (\<lambda>six.
      bindR (index_rows (drop_index rel (delta_indexes s)) rel n_cols 0 (rows (delta s) rel)) (\<lambda>dix.
        Inr (s\<lparr>stable_indexes := six, delta_indexes := dix\<rparr>))))"

subsection \<open>The operations of the store\<close>

definition mem_create_relation :: "string \<Rightarrow> mem_store \<Rightarrow> mem_store" where
  "mem_create_relation rel s = s\<lparr>stable := or_default rel (stable s)\<rparr>"

definition add_fact :: "string \<Rightarrow> mvalue list \<Rightarrow> mem_store \<Rightarrow> mem_store result" where
  "add_fact rel args s =
     (let n_cols = length args; cells = flatten_tuple args;
          tab = or_default rel (stable s); table = rows tab rel
      in if cells \<in> set table then Inr (s\<lparr>stable := tab\<rparr>)
         else
           bindR (index_cells (stable_indexes s) rel cells n_cols (length table)) (\<lambda>six.
             Inr (s\<lparr>stable := AList.update rel (table @ [cells]) tab,
                    arity := (if arity s rel = None then (arity s)(rel \<mapsto> n_cols) else arity s),
                    stable_indexes := six\<rparr>)))"

definition to_values :: "mem_store \<Rightarrow> string \<Rightarrow> row \<Rightarrow> mvalue list result" where
  "to_values s rel cells =
     (let n_cols = n_cols_of s rel in
      if n_cols = 0
      then Inr (map (\<lambda>c. case c of Val v \<Rightarrow> v | CompoundStart _ _ \<Rightarrow> Null) cells)
      else unflatten_tuple cells n_cols)"

definition get_facts :: "mem_store \<Rightarrow> string \<Rightarrow> mvalue list list result" where
  "get_facts s rel = traverseR (to_values s rel) (rows (stable s) rel @ rows (delta s) rel)"

definition mem_scan :: "mem_store \<Rightarrow> string \<Rightarrow> mvalue list list result" where
  "mem_scan s rel =
     traverseR (\<lambda>cells. unflatten_tuple cells (n_cols_of s rel))
       (rows (stable s) rel @ rows (delta s) rel)"

definition mem_scan_delta :: "mem_store \<Rightarrow> string \<Rightarrow> mvalue list list result" where
  "mem_scan_delta s rel =
     traverseR (\<lambda>cells. unflatten_tuple cells (n_cols_of s rel)) (rows (delta s) rel)"

definition mem_scan_next_delta :: "mem_store \<Rightarrow> string \<Rightarrow> mvalue list list result" where
  "mem_scan_next_delta s rel =
     traverseR (\<lambda>cells. unflatten_tuple cells (n_cols_of s rel)) (rows (next_delta s) rel)"

text \<open>The rows an index lists for a key; a listed row number beyond the table is a panic.\<close>

definition index_hits :: "index \<Rightarrow> string \<Rightarrow> nat \<Rightarrow> cell \<Rightarrow> nat list" where
  "index_hits ix rel col key =
     (case ix (rel, col) of None \<Rightarrow> [] | Some m \<Rightarrow> (case m key of None \<Rightarrow> [] | Some is \<Rightarrow> is))"

definition lookup_rows :: "table \<Rightarrow> index \<Rightarrow> nat \<Rightarrow> string \<Rightarrow> nat \<Rightarrow> cell \<Rightarrow> mvalue list list result" where
  "lookup_rows tab ix n_cols rel col key =
     (case map_of tab rel of
        None \<Rightarrow> Inr []
      | Some table \<Rightarrow>
          traverseR (\<lambda>i. bindR (index_list table i) (\<lambda>cells. unflatten_tuple cells n_cols))
            (index_hits ix rel col key))"

definition mem_scan_index :: "mem_store \<Rightarrow> string \<Rightarrow> nat \<Rightarrow> mvalue \<Rightarrow> mvalue list list result" where
  "mem_scan_index s rel col key =
     (let n_cols = n_cols_of s rel; cell_key = value_to_index_key key in
      bindR (lookup_rows (stable s) (stable_indexes s) n_cols rel col cell_key) (\<lambda>xs.
      bindR (lookup_rows (delta s) (delta_indexes s) n_cols rel col cell_key) (\<lambda>ys.
        Inr (xs @ ys))))"

definition mem_scan_delta_index :: "mem_store \<Rightarrow> string \<Rightarrow> nat \<Rightarrow> mvalue \<Rightarrow> mvalue list list result" where
  "mem_scan_delta_index s rel col key =
     lookup_rows (delta s) (delta_indexes s) (n_cols_of s rel) rel col (value_to_index_key key)"

definition mem_insert :: "string \<Rightarrow> mvalue list \<Rightarrow> mem_store \<Rightarrow> bool \<times> mem_store" where
  "mem_insert rel tuple s =
     (let n_cols = length tuple; cells = flatten_tuple tuple in
      if cells \<in> set (rows (stable s) rel) \<or> cells \<in> set (rows (delta s) rel)
         \<or> cells \<in> set (rows (next_delta s) rel)
      then (False, s)
      else if (case arity s rel of Some reg \<Rightarrow> reg \<noteq> n_cols | None \<Rightarrow> False)
      then (False, s)
      else (True, s\<lparr>arity := (if arity s rel = None then (arity s)(rel \<mapsto> n_cols) else arity s),
                    next_delta := AList.update rel (rows (next_delta s) rel @ [cells]) (next_delta s)\<rparr>))"

text \<open>First loop of \<open>merge_deltas\<close>: append the delta rows of one relation to its stable table,
  skipping rows whose logical arity is not the registered one.\<close>

fun merge_rows :: "string \<Rightarrow> nat \<Rightarrow> row list \<Rightarrow> index \<Rightarrow> row list \<Rightarrow> (row list \<times> index) result" where
  "merge_rows rel n_cols table ix [] = Inr (table, ix)"
| "merge_rows rel n_cols table ix (cells # rs) =
     bindR (count_logical_values cells) (\<lambda>k.
       if k \<noteq> n_cols then merge_rows rel n_cols table ix rs
       else bindR (index_cells ix rel cells n_cols (length table)) (\<lambda>ix'.
              merge_rows rel n_cols (table @ [cells]) ix' rs))"

fun merge_stable :: "(string \<Rightarrow> nat option) \<Rightarrow> table \<Rightarrow> index \<Rightarrow> table \<Rightarrow> (table \<times> index) result" where
  "merge_stable ar tab ix [] = Inr (tab, ix)"
| "merge_stable ar tab ix ((rel, tuples) # ds) =
     bindR (merge_rows rel (case ar rel of None \<Rightarrow> 0 | Some n \<Rightarrow> n) (rows tab rel) ix tuples)
       (\<lambda>(table, ix'). merge_stable ar (AList.update rel table tab) ix' ds)"

text \<open>Second loop: index the new delta, again skipping rows of another logical arity.\<close>

fun index_delta_rows :: "index \<Rightarrow> string \<Rightarrow> nat \<Rightarrow> nat \<Rightarrow> row list \<Rightarrow> index result" where
  "index_delta_rows ix rel n_cols i [] = Inr ix"
| "index_delta_rows ix rel n_cols i (cells # rs) =
     bindR (count_logical_values cells) (\<lambda>k.
       if k \<noteq> n_cols then index_delta_rows ix rel n_cols (Suc i) rs
       else bindR (index_cells ix rel cells n_cols i) (\<lambda>ix'.
              index_delta_rows ix' rel n_cols (Suc i) rs))"

fun index_delta :: "(string \<Rightarrow> nat option) \<Rightarrow> index \<Rightarrow> table \<Rightarrow> index result" where
  "index_delta ar ix [] = Inr ix"
| "index_delta ar ix ((rel, tuples) # ds) =
     bindR (index_delta_rows ix rel (case ar rel of None \<Rightarrow> 0 | Some n \<Rightarrow> n) 0 tuples)
       (\<lambda>ix'. index_delta ar ix' ds)"

definition mem_merge_deltas :: "mem_store \<Rightarrow> mem_store result" where
  "mem_merge_deltas s =
     bindR (merge_stable (arity s) (stable s) (stable_indexes s) (delta s)) (\<lambda>(tab, six).
     bindR (index_delta (arity s) Map.empty (next_delta s)) (\<lambda>dix.
       Inr (s\<lparr>stable := tab, stable_indexes := six, delta := next_delta s, next_delta := [],
              delta_indexes := dix\<rparr>)))"

text \<open>\<open>Vec::swap_remove\<close>: the last element takes the freed place.\<close>

definition swap_remove :: "'a list \<Rightarrow> nat \<Rightarrow> 'a list" where
  "swap_remove xs i = butlast (xs[i := last xs])"

fun position :: "'a \<Rightarrow> 'a list \<Rightarrow> nat option" where
  "position x [] = None"
| "position x (y # ys) = (if x = y then Some 0 else map_option Suc (position x ys))"

definition remove_row :: "string \<Rightarrow> row \<Rightarrow> table \<Rightarrow> bool \<times> table" where
  "remove_row rel cells tab =
     (case map_of tab rel of
        None \<Rightarrow> (False, tab)
      | Some table \<Rightarrow>
          (case position cells table of
             None \<Rightarrow> (False, tab)
           | Some pos \<Rightarrow> (True, AList.update rel (swap_remove table pos) tab)))"

definition mem_retract :: "string \<Rightarrow> mvalue list \<Rightarrow> mem_store \<Rightarrow> (bool \<times> mem_store) result" where
  "mem_retract rel tuple s =
     (let cells = flatten_tuple tuple;
          (removed, st) = remove_row rel cells (stable s);
          s' = s\<lparr>stable := st, delta := snd (remove_row rel cells (delta s)),
                 next_delta := snd (remove_row rel cells (next_delta s))\<rparr>
      in if removed then bindR (rebuild_indexes_for rel s') (\<lambda>s''. Inr (True, s''))
         else Inr (False, s'))"

definition clear_rows :: "string \<Rightarrow> table \<Rightarrow> table" where
  "clear_rows rel tab = (if map_of tab rel = None then tab else AList.update rel [] tab)"

definition mem_clear :: "string \<Rightarrow> mem_store \<Rightarrow> mem_store" where
  "mem_clear rel s =
     s\<lparr>stable := clear_rows rel (stable s), delta := clear_rows rel (delta s),
       next_delta := clear_rows rel (next_delta s),
       stable_indexes := drop_index rel (stable_indexes s),
       delta_indexes := drop_index rel (delta_indexes s)\<rparr>"

definition mem_relation_names :: "mem_store \<Rightarrow> string list" where
  "mem_relation_names s =
     map fst (stable s) @ filter (\<lambda>k. k \<notin> set (map fst (stable s))) (map fst (delta s))"

end
