(* ===== verification/Mem_Store_Inv.thy ===== *)
theory Mem_Store_Inv
  imports Mem_Store
begin

text \<open>
  The invariant of \<open>MemStore\<close> and the effect of its operations on the tuples it holds.
  \<open>facts_of\<close> decodes the rows of a table; \<open>store_inv\<close> says that every row is a flattened tuple of
  the registered arity, that no row is stored twice, and that both indexes list, in ascending order,
  exactly the rows whose column starts with the key cell.
\<close>

subsection \<open>Tables\<close>

lemma rows_update [simp]: "rows (AList.update r v tab) r' = (if r' = r then v else rows tab r')"
  by (simp add: rows_def update_conv')

lemma rows_or_default [simp]: "rows (or_default r tab) r' = rows tab r'"
  by (simp add: or_default_def rows_def update_conv')

lemma rows_clear_rows [simp]: "rows (clear_rows r tab) r' = (if r' = r then [] else rows tab r')"
  by (simp add: clear_rows_def rows_def update_conv')

lemma rows_Nil [simp]: "rows [] r = []"
  by (simp add: rows_def)

lemma distinct_keys [simp]:
  "distinct (map fst tab) \<Longrightarrow> distinct (map fst (AList.update r v tab))"
  "distinct (map fst tab) \<Longrightarrow> distinct (map fst (or_default r tab))"
  "distinct (map fst tab) \<Longrightarrow> distinct (map fst (clear_rows r tab))"
  by (simp_all add: distinct_update or_default_def clear_rows_def)

lemma rows_Cons:
  "distinct (map fst ((r, ts) # tab)) \<Longrightarrow> rows ((r, ts) # tab) r' = (if r' = r then ts else rows tab r')"
  by (simp add: rows_def)

lemma rows_absent: "r \<notin> set (map fst tab) \<Longrightarrow> rows tab r = []"
  by (simp add: rows_def map_of_eq_None_iff [THEN iffD2])

subsection \<open>Index lookups\<close>

definition hit :: "nat \<Rightarrow> cell \<Rightarrow> mvalue list \<Rightarrow> bool" where
  "hit c k t \<longleftrightarrow> c < length t \<and> value_to_index_key (t ! c) = k"

definition hits_from :: "nat \<Rightarrow> mvalue list list \<Rightarrow> nat \<Rightarrow> cell \<Rightarrow> nat list" where
  "hits_from i ts c k = map fst (filter (\<lambda>(_, t). hit c k t) (enumerate i ts))"

lemma hits_from_simps [simp]:
  "hits_from i [] c k = []"
  "hits_from i (t # ts) c k = (if hit c k t then [i] else []) @ hits_from (Suc i) ts c k"
  by (simp_all add: hits_from_def)

lemma hits_from_append:
  "hits_from i (ts @ us) c k = hits_from i ts c k @ hits_from (i + length ts) us c k"
  by (induction ts arbitrary: i) simp_all

lemma index_hits_empty [simp]: "index_hits Map.empty r c k = []"
  by (simp add: index_hits_def)

lemma index_hits_push:
  "index_hits (push_index ix rel col key i) r c k =
     index_hits ix r c k @ (if r = rel \<and> c = col \<and> k = key then [i] else [])"
  by (auto simp: index_hits_def push_index_def Let_def split: option.splits)

lemma index_hits_drop [simp]:
  "index_hits (drop_index rel ix) r c k = (if r = rel then [] else index_hits ix r c k)"
  by (simp add: index_hits_def drop_index_def)

lemma index_cols_flatten:
  "\<exists>ix'. index_cols ix rel (flatten_tuple t) col (length t) i = Inr ix' \<and>
     (\<forall>r c k. index_hits ix' r c k =
        index_hits ix r c k @ (if r = rel \<and> col \<le> c \<and> hit (c - col) k t then [i] else []))"
proof (induction t arbitrary: ix col)
  case Nil
  then show ?case by (simp add: hit_def)
next
  case (Cons v t)
  let ?ix = "push_index ix rel col (value_to_index_key v) i"
  obtain ix' where ix': "index_cols ?ix rel (flatten_tuple t) (Suc col) (length t) i = Inr ix'"
    and hits: "index_hits ix' r c k = index_hits ?ix r c k @
      (if r = rel \<and> Suc col \<le> c \<and> hit (c - Suc col) k t then [i] else [])" for r c k
    using Cons.IH [of ?ix "Suc col"] by blast
  have "index_list (flatten_value v @ flatten_tuple t) 0 = Inr (value_to_index_key v)"
    by (cases v) (simp_all add: value_to_index_key_def)
  then have "index_cols ix rel (flatten_tuple (v # t)) col (length (v # t)) i = Inr ix'"
    by (simp add: ix' del: index_list_Inr)
  moreover have "index_hits ix' r c k = index_hits ix r c k @
      (if r = rel \<and> col \<le> c \<and> hit (c - col) k (v # t) then [i] else [])" for r c k
  proof (cases c col rule: linorder_cases)
    case greater
    then obtain d where "c = Suc (col + d)"
      using less_imp_Suc_add by blast
    then show ?thesis by (simp add: hits index_hits_push hit_def)
  qed (auto simp: hits index_hits_push hit_def)
  ultimately show ?case by blast
qed

lemma index_cells_flatten:
  obtains ix' where "index_cells ix rel (flatten_tuple t) (length t) i = Inr ix'"
    "\<And>r c k. index_hits ix' r c k = index_hits ix r c k @ (if r = rel \<and> hit c k t then [i] else [])"
  using index_cols_flatten [of ix rel t 0 i] unfolding index_cells_def by auto

lemma index_rows_flatten:
  assumes "\<And>t. t \<in> set ts \<Longrightarrow> length t = n"
  shows "\<exists>ix'. index_rows ix rel n i (map flatten_tuple ts) = Inr ix' \<and>
    (\<forall>r c k. index_hits ix' r c k = index_hits ix r c k @ (if r = rel then hits_from i ts c k else []))"
  using assms
proof (induction ts arbitrary: ix i)
  case (Cons t ts)
  obtain ix1 where 1: "index_cells ix rel (flatten_tuple t) (length t) i = Inr ix1"
    "\<And>r c k. index_hits ix1 r c k = index_hits ix r c k @ (if r = rel \<and> hit c k t then [i] else [])"
    using index_cells_flatten [of ix rel t i] by blast
  obtain ix2 where 2: "index_rows ix1 rel n (Suc i) (map flatten_tuple ts) = Inr ix2"
    "\<And>r c k. index_hits ix2 r c k = index_hits ix1 r c k @ (if r = rel then hits_from (Suc i) ts c k else [])"
    using Cons.IH [of ix1 "Suc i"] Cons.prems by auto
  show ?case
    using 1 2 Cons.prems by simp
qed simp

lemma index_delta_rows_eq:
  assumes "\<And>t. t \<in> set ts \<Longrightarrow> length t = n"
  shows "index_delta_rows ix rel n i (map flatten_tuple ts) = index_rows ix rel n i (map flatten_tuple ts)"
  using assms by (induction ts arbitrary: ix i) simp_all

lemma merge_rows_flatten:
  assumes "\<And>t. t \<in> set ts \<Longrightarrow> length t = n"
  shows "merge_rows rel n table ix (map flatten_tuple ts) =
    bindR (index_rows ix rel n (length table) (map flatten_tuple ts))
      (\<lambda>ix'. Inr (table @ map flatten_tuple ts, ix'))"
  using assms
proof (induction ts arbitrary: table ix)
  case (Cons t ts)
  then show ?case
    by (cases "index_cells ix rel (flatten_tuple t) n (length table)") simp_all
qed simp

lemma nth_hits_from:
  "map (\<lambda>j. ts ! j) (hits_from 0 ts c k) = filter (hit c k) ts"
proof -
  have "map (\<lambda>j. (us @ ts) ! j) (hits_from (length us) ts c k) = filter (hit c k) ts" for us
  proof (induction ts arbitrary: us)
    case (Cons t ts)
    show ?case using Cons.IH [of "us @ [t]"] by simp
  qed simp
  from this [of "[]"] show ?thesis by simp
qed

lemma hits_from_bound: "j \<in> set (hits_from i ts c k) \<Longrightarrow> i \<le> j \<and> j < i + length ts"
  by (induction ts arbitrary: i) (force split: if_splits)+

lemma lookup_rows_filter:
  assumes "rows tab rel = map flatten_tuple ts" "\<And>t. t \<in> set ts \<Longrightarrow> length t = n"
    and "index_hits ix rel c k = hits_from 0 ts c k"
  shows "lookup_rows tab ix n rel c k = Inr (filter (hit c k) ts)"
proof (cases "map_of tab rel")
  case None
  then show ?thesis using assms by (simp add: lookup_rows_def rows_def)
next
  case (Some table)
  then have table: "table = map flatten_tuple ts"
    using assms(1) by (simp add: rows_def)
  have "bindR (index_list table j) (\<lambda>cells. unflatten_tuple cells n) = Inr (ts ! j)"
    if "j \<in> set (hits_from 0 ts c k)" for j
    using hits_from_bound [OF that] assms(2) [of "ts ! j"] unflatten_flatten_tuple [of "ts ! j"]
    by (auto simp: table index_list_def simp del: unflatten_flatten_tuple)
  then show ?thesis
    using traverseR_Inr_map [of "hits_from 0 ts c k" _ "\<lambda>j. ts ! j"] Some
    by (simp add: lookup_rows_def assms(3) nth_hits_from)
qed

subsection \<open>The invariant\<close>

definition decode :: "nat \<Rightarrow> row \<Rightarrow> mvalue list" where
  "decode n cells = (case unflatten_tuple cells n of Inl _ \<Rightarrow> [] | Inr t \<Rightarrow> t)"

definition facts_of :: "mem_store \<Rightarrow> table \<Rightarrow> string \<Rightarrow> mvalue list list" where
  "facts_of s tab r = map (decode (n_cols_of s r)) (rows tab r)"

abbreviation "stable_facts s \<equiv> facts_of s (stable s)"
abbreviation "delta_facts s \<equiv> facts_of s (delta s)"
abbreviation "next_facts s \<equiv> facts_of s (next_delta s)"

definition rows_ok :: "mem_store \<Rightarrow> table \<Rightarrow> bool" where
  "rows_ok s tab \<longleftrightarrow> distinct (map fst tab) \<and>
     (\<forall>r. \<exists>ts. rows tab r = map flatten_tuple ts \<and> (\<forall>t\<in>set ts. arity s r = Some (length t)))"

definition index_ok :: "mem_store \<Rightarrow> table \<Rightarrow> index \<Rightarrow> bool" where
  "index_ok s tab ix \<longleftrightarrow> (\<forall>r c k. index_hits ix r c k = hits_from 0 (facts_of s tab r) c k)"

definition store_inv :: "mem_store \<Rightarrow> bool" where
  "store_inv s \<longleftrightarrow>
     rows_ok s (stable s) \<and> rows_ok s (delta s) \<and> rows_ok s (next_delta s) \<and>
     index_ok s (stable s) (stable_indexes s) \<and> index_ok s (delta s) (delta_indexes s) \<and>
     (\<forall>r. distinct (rows (stable s) r @ rows (delta s) r @ rows (next_delta s) r))"

lemma decode_flatten: "length t = n \<Longrightarrow> decode n (flatten_tuple t) = t"
  by (auto simp: decode_def)

lemma facts_of_eq:
  assumes "rows tab r = map flatten_tuple ts" "\<forall>t\<in>set ts. arity s r = Some (length t)"
  shows "facts_of s tab r = ts"
proof -
  have "decode (n_cols_of s r) (flatten_tuple t) = t" if "t \<in> set ts" for t
    using assms(2) that by (auto intro!: decode_flatten simp: n_cols_of_def)
  then show ?thesis
    using assms(1) by (simp add: facts_of_def map_idI)
qed

lemma rows_okD:
  assumes "rows_ok s tab"
  shows "rows tab r = map flatten_tuple (facts_of s tab r)"
    and "t \<in> set (facts_of s tab r) \<Longrightarrow> arity s r = Some (length t)"
    and "t \<in> set (facts_of s tab r) \<Longrightarrow> length t = n_cols_of s r"
proof -
  obtain ts where ts: "rows tab r = map flatten_tuple ts" "\<forall>t\<in>set ts. arity s r = Some (length t)"
    using assms by (auto simp: rows_ok_def)
  note eq = facts_of_eq [OF ts]
  show "rows tab r = map flatten_tuple (facts_of s tab r)"
    using ts(1) eq by simp
  show "t \<in> set (facts_of s tab r) \<Longrightarrow> arity s r = Some (length t)"
    using ts(2) eq by simp
  then show "t \<in> set (facts_of s tab r) \<Longrightarrow> length t = n_cols_of s r"
    by (simp add: n_cols_of_def)
qed

lemma store_invD:
  assumes "store_inv s"
  shows "rows_ok s (stable s)" "rows_ok s (delta s)" "rows_ok s (next_delta s)"
    "index_ok s (stable s) (stable_indexes s)" "index_ok s (delta s) (delta_indexes s)"
    "distinct (stable_facts s r @ delta_facts s r @ next_facts s r)"
proof -
  show ok: "rows_ok s (stable s)" "rows_ok s (delta s)" "rows_ok s (next_delta s)"
    and "index_ok s (stable s) (stable_indexes s)" "index_ok s (delta s) (delta_indexes s)"
    using assms by (simp_all add: store_inv_def)
  have "map flatten_tuple (stable_facts s r @ delta_facts s r @ next_facts s r) =
      rows (stable s) r @ rows (delta s) r @ rows (next_delta s) r"
    by (simp flip: rows_okD(1) [OF ok(1)] rows_okD(1) [OF ok(2)] rows_okD(1) [OF ok(3)])
  moreover have "distinct (rows (stable s) r @ rows (delta s) r @ rows (next_delta s) r)"
    using assms unfolding store_inv_def by blast
  ultimately have "distinct (map flatten_tuple (stable_facts s r @ delta_facts s r @ next_facts s r))"
    by (simp only:)
  then show "distinct (stable_facts s r @ delta_facts s r @ next_facts s r)"
    by (simp only: distinct_map)
qed

lemma mem_new_inv: "store_inv mem_new"
  by (simp add: store_inv_def mem_new_def rows_ok_def index_ok_def facts_of_def)

text \<open>Membership of a row is membership of the tuple.\<close>

lemma row_mem_iff:
  "rows_ok s tab \<Longrightarrow> flatten_tuple t \<in> set (rows tab r) \<longleftrightarrow> t \<in> set (facts_of s tab r)"
  by (subst rows_okD(1)) (auto simp: image_iff)

subsection \<open>Scans\<close>

lemma traverse_unflatten:
  assumes "rows_ok s tab"
  shows "traverseR (\<lambda>cells. unflatten_tuple cells (n_cols_of s r)) (rows tab r) = Inr (facts_of s tab r)"
proof -
  have "unflatten_tuple cells (n_cols_of s r) = Inr (decode (n_cols_of s r) cells)"
    if "cells \<in> set (rows tab r)" for cells
  proof -
    from that obtain t where t: "t \<in> set (facts_of s tab r)" "cells = flatten_tuple t"
      using rows_okD(1) [OF assms, of r] by auto
    then have "length t = n_cols_of s r"
      using rows_okD(3) [OF assms] by blast
    then show ?thesis
      using t unflatten_flatten_tuple [of t] by (simp add: decode_flatten)
  qed
  then show ?thesis
    unfolding facts_of_def by (rule traverseR_Inr_map)
qed

lemma traverseR_append:
  "traverseR f (xs @ ys) = bindR (traverseR f xs) (\<lambda>us. bindR (traverseR f ys) (\<lambda>vs. Inr (us @ vs)))"
proof (induction xs)
  case Nil
  show ?case by (cases "traverseR f ys") simp_all
next
  case (Cons x xs)
  show ?case
    by (cases "f x"; cases "traverseR f xs"; cases "traverseR f ys") (simp_all add: Cons.IH)
qed

lemma scan_facts:
  assumes "store_inv s"
  shows "mem_scan s r = Inr (stable_facts s r @ delta_facts s r)"
    and "mem_scan_delta s r = Inr (delta_facts s r)"
    and "mem_scan_next_delta s r = Inr (next_facts s r)"
  using store_invD(1-3) [OF assms]
  by (simp_all add: mem_scan_def mem_scan_delta_def mem_scan_next_delta_def traverseR_append
      traverse_unflatten)

lemma scan_index_facts:
  assumes "store_inv s"
  shows "mem_scan_index s r c key =
      Inr (filter (hit c (value_to_index_key key)) (stable_facts s r @ delta_facts s r))"
    and "mem_scan_delta_index s r c key =
      Inr (filter (hit c (value_to_index_key key)) (delta_facts s r))"
proof -
  let ?k = "value_to_index_key key"
  have st: "lookup_rows (stable s) (stable_indexes s) (n_cols_of s r) r c ?k =
      Inr (filter (hit c ?k) (stable_facts s r))"
    using store_invD(1,4) [OF assms]
    by (intro lookup_rows_filter rows_okD) (simp_all add: index_ok_def)
  have dl: "lookup_rows (delta s) (delta_indexes s) (n_cols_of s r) r c ?k =
      Inr (filter (hit c ?k) (delta_facts s r))"
    using store_invD(2,5) [OF assms]
    by (intro lookup_rows_filter rows_okD) (simp_all add: index_ok_def)
  show "mem_scan_index s r c key = Inr (filter (hit c ?k) (stable_facts s r @ delta_facts s r))"
    by (simp add: mem_scan_index_def Let_def st dl)
  show "mem_scan_delta_index s r c key = Inr (filter (hit c ?k) (delta_facts s r))"
    by (simp add: mem_scan_delta_index_def dl)
qed

subsection \<open>Representation of abstract relations\<close>

text \<open>\<open>represents s A B C\<close>: the store holds the stable tuples \<open>A\<close>, the delta tuples \<open>B\<close> and the
  next-delta tuples \<open>C\<close>, and satisfies the invariant.\<close>

type_synonym relations = "string \<Rightarrow> mvalue list list"

definition represents :: "mem_store \<Rightarrow> relations \<Rightarrow> relations \<Rightarrow> relations \<Rightarrow> bool" where
  "represents s A B C \<longleftrightarrow>
     distinct (map fst (stable s)) \<and> distinct (map fst (delta s)) \<and> distinct (map fst (next_delta s)) \<and>
     (\<forall>r. rows (stable s) r = map flatten_tuple (A r)) \<and>
     (\<forall>r. rows (delta s) r = map flatten_tuple (B r)) \<and>
     (\<forall>r. rows (next_delta s) r = map flatten_tuple (C r)) \<and>
     (\<forall>r. \<forall>t \<in> set (A r) \<union> set (B r) \<union> set (C r). arity s r = Some (length t)) \<and>
     (\<forall>r c k. index_hits (stable_indexes s) r c k = hits_from 0 (A r) c k) \<and>
     (\<forall>r c k. index_hits (delta_indexes s) r c k = hits_from 0 (B r) c k) \<and>
     (\<forall>r. distinct (A r @ B r @ C r))"

lemma represents_facts:
  assumes "represents s A B C"
  shows "stable_facts s = A" "delta_facts s = B" "next_facts s = C"
  using assms by (auto simp: represents_def intro!: ext facts_of_eq)

lemma represents_inv:
  assumes "represents s A B C"
  shows "store_inv s"
proof -
  have "distinct (A r @ B r @ C r)" for r
    using assms unfolding represents_def by blast
  then have "distinct (map flatten_tuple (A r @ B r @ C r))" for r
    by (simp only: distinct_map) (simp add: inj_on_def)
  then have "distinct (rows (stable s) r @ rows (delta s) r @ rows (next_delta s) r)" for r
    using assms by (simp add: represents_def)
  moreover have "rows_ok s (stable s)" "rows_ok s (delta s)" "rows_ok s (next_delta s)"
    using assms unfolding represents_def rows_ok_def
    by (metis (no_types, lifting) UnCI)+
  ultimately show ?thesis
    using assms represents_facts [OF assms]
    by (simp add: store_inv_def represents_def index_ok_def)
qed

lemma inv_represents:
  assumes "store_inv s"
  shows "represents s (stable_facts s) (delta_facts s) (next_facts s)"
  unfolding represents_def
  using store_invD [OF assms] rows_okD(1,2) [OF store_invD(1) [OF assms]]
    rows_okD(1,2) [OF store_invD(2) [OF assms]] rows_okD(1,2) [OF store_invD(3) [OF assms]]
  by (intro conjI allI ballI) (auto simp: rows_ok_def index_ok_def)

lemma represents_mem:
  assumes "represents s A B C"
  shows "flatten_tuple t \<in> set (rows (stable s) r) \<longleftrightarrow> t \<in> set (A r)"
    "flatten_tuple t \<in> set (rows (delta s) r) \<longleftrightarrow> t \<in> set (B r)"
    "flatten_tuple t \<in> set (rows (next_delta s) r) \<longleftrightarrow> t \<in> set (C r)"
  using assms by (auto simp: represents_def image_iff)

subsection \<open>Insert\<close>

definition accepts :: "mem_store \<Rightarrow> string \<Rightarrow> mvalue list \<Rightarrow> bool" where
  "accepts s r t \<longleftrightarrow> arity s r = None \<or> arity s r = Some (length t)"

lemma mem_insert_represents:
  assumes "represents s A B C"
  shows "mem_insert r t s =
    (if t \<notin> set (A r) \<union> set (B r) \<union> set (C r) \<and> accepts s r t
     then (True, snd (mem_insert r t s)) else (False, s))"
    and "t \<notin> set (A r) \<union> set (B r) \<union> set (C r) \<Longrightarrow> accepts s r t \<Longrightarrow>
      represents (snd (mem_insert r t s)) A B (C(r := C r @ [t])) \<and>
      arity (snd (mem_insert r t s)) = (arity s)(r \<mapsto> length t)"
proof -
  note mem = represents_mem [OF assms, of t r]
  show "mem_insert r t s =
    (if t \<notin> set (A r) \<union> set (B r) \<union> set (C r) \<and> accepts s r t
     then (True, snd (mem_insert r t s)) else (False, s))"
    by (auto simp: mem_insert_def Let_def mem accepts_def split: option.splits)
  assume new: "t \<notin> set (A r) \<union> set (B r) \<union> set (C r)" and acc: "accepts s r t"
  have "(if arity s r = None then (arity s)(r \<mapsto> length t) else arity s) = (arity s)(r \<mapsto> length t)"
    using acc by (auto simp: accepts_def)
  with new acc have ins: "snd (mem_insert r t s) =
      s\<lparr>arity := (arity s)(r \<mapsto> length t),
        next_delta := AList.update r (rows (next_delta s) r @ [flatten_tuple t]) (next_delta s)\<rparr>"
    unfolding mem_insert_def Let_def mem accepts_def by (auto simp only: snd_conv split: option.splits if_splits)
  have "length u = length t" if "u \<in> set (A r) \<union> set (B r) \<union> set (C r)" for u
  proof -
    have "arity s r = Some (length u)"
      using assms that unfolding represents_def by blast
    then show ?thesis using acc by (simp add: accepts_def)
  qed
  then show "represents (snd (mem_insert r t s)) A B (C(r := C r @ [t])) \<and>
      arity (snd (mem_insert r t s)) = (arity s)(r \<mapsto> length t)"
    using assms new unfolding ins represents_def
    by (auto simp: distinct_update)
qed

subsection \<open>Merging deltas\<close>

lemma merge_stable_represents:
  assumes "distinct (map fst ds)" "distinct (map fst tab)"
    and "\<And>r. rows tab r = map flatten_tuple (A r)"
    and "\<And>r. rows ds r = map flatten_tuple (B r)"
    and "\<And>r t. t \<in> set (B r) \<Longrightarrow> ar r = Some (length t)"
    and "\<And>r c k. index_hits ix r c k = hits_from 0 (A r) c k"
  shows "\<exists>tab' ix'. merge_stable ar tab ix ds = Inr (tab', ix') \<and> distinct (map fst tab') \<and>
    (\<forall>r. rows tab' r = map flatten_tuple (A r @ B r)) \<and>
    (\<forall>r c k. index_hits ix' r c k = hits_from 0 (A r @ B r) c k)"
  using assms
proof (induction ds arbitrary: tab ix A B)
  case Nil
  then show ?case by simp
next
  case (Cons d ds)
  obtain rel tuples where d: "d = (rel, tuples)"
    by (cases d)
  let ?n = "case ar rel of None \<Rightarrow> 0 | Some n \<Rightarrow> n"
  have rel: "tuples = map flatten_tuple (B rel)"
    using Cons.prems(1) Cons.prems(4) [of rel] by (simp add: d rows_Cons)
  have len: "length t = ?n" if "t \<in> set (B rel)" for t
    using Cons.prems(5) [OF that] by simp
  obtain ix1 where ix1: "index_rows ix rel ?n (length (rows tab rel)) tuples = Inr ix1"
    and hits1: "\<And>r c k. index_hits ix1 r c k = index_hits ix r c k @
      (if r = rel then hits_from (length (rows tab rel)) (B rel) c k else [])"
    using index_rows_flatten [OF len] unfolding rel by blast
  have merged: "merge_rows rel ?n (rows tab rel) ix tuples = Inr (rows tab rel @ tuples, ix1)"
    using merge_rows_flatten [OF len] ix1 unfolding rel by simp
  let ?tab = "AList.update rel (rows tab rel @ tuples) tab"
  let ?A = "A(rel := A rel @ B rel)" and ?B = "B(rel := [])"
  have "\<exists>tab' ix'. merge_stable ar ?tab ix1 ds = Inr (tab', ix') \<and> distinct (map fst tab') \<and>
    (\<forall>r. rows tab' r = map flatten_tuple (?A r @ ?B r)) \<and>
    (\<forall>r c k. index_hits ix' r c k = hits_from 0 (?A r @ ?B r) c k)"
  proof (rule Cons.IH)
    show "distinct (map fst ds)" "distinct (map fst ?tab)"
      using Cons.prems(1,2) by (simp_all add: d)
    show "rows ?tab r = map flatten_tuple (?A r)" for r
      using Cons.prems(3) by (simp add: rel)
    show "rows ds r = map flatten_tuple (?B r)" for r
      using Cons.prems(1) Cons.prems(4) [of r] by (auto simp: d rows_Cons rows_absent)
    show "t \<in> set (?B r) \<Longrightarrow> ar r = Some (length t)" for r t
      using Cons.prems(5) by (auto split: if_splits)
    show "index_hits ix1 r c k = hits_from 0 (?A r) c k" for r c k
      using Cons.prems(3,6) by (simp add: hits1 hits_from_append)
  qed
  moreover have "?A r @ ?B r = A r @ B r" for r
    by simp
  ultimately have "\<exists>tab' ix'. merge_stable ar ?tab ix1 ds = Inr (tab', ix') \<and> distinct (map fst tab') \<and>
    (\<forall>r. rows tab' r = map flatten_tuple (A r @ B r)) \<and>
    (\<forall>r c k. index_hits ix' r c k = hits_from 0 (A r @ B r) c k)"
    by (simp only:)
  then show ?case
    by (simp add: d merged)
qed

lemma index_delta_represents:
  assumes "distinct (map fst ds)"
    and "\<And>r. rows ds r = map flatten_tuple (B r)"
    and "\<And>r t. t \<in> set (B r) \<Longrightarrow> ar r = Some (length t)"
  shows "\<exists>ix'. index_delta ar ix ds = Inr ix' \<and>
    (\<forall>r c k. index_hits ix' r c k = index_hits ix r c k @ hits_from 0 (B r) c k)"
  using assms
proof (induction ds arbitrary: ix B)
  case Nil
  then show ?case by simp
next
  case (Cons d ds)
  obtain rel tuples where d: "d = (rel, tuples)"
    by (cases d)
  let ?n = "case ar rel of None \<Rightarrow> 0 | Some n \<Rightarrow> n"
  have rel: "tuples = map flatten_tuple (B rel)"
    using Cons.prems(1) Cons.prems(2) [of rel] by (simp add: d rows_Cons)
  have len: "length t = ?n" if "t \<in> set (B rel)" for t
    using Cons.prems(3) [OF that] by simp
  obtain ix1 where ix1: "index_rows ix rel ?n 0 tuples = Inr ix1"
    and hits1: "\<And>r c k. index_hits ix1 r c k = index_hits ix r c k @
      (if r = rel then hits_from 0 (B rel) c k else [])"
    using index_rows_flatten [OF len] unfolding rel by blast
  have first: "index_delta_rows ix rel ?n 0 tuples = Inr ix1"
    using index_delta_rows_eq [OF len] ix1 unfolding rel by simp
  have "\<exists>ix'. index_delta ar ix1 ds = Inr ix' \<and>
    (\<forall>r c k. index_hits ix' r c k = index_hits ix1 r c k @ hits_from 0 ((B(rel := [])) r) c k)"
  proof (rule Cons.IH)
    show "distinct (map fst ds)"
      using Cons.prems(1) by (simp add: d)
    show "rows ds r = map flatten_tuple ((B(rel := [])) r)" for r
      using Cons.prems(1) Cons.prems(2) [of r] by (auto simp: d rows_Cons rows_absent)
    show "t \<in> set ((B(rel := [])) r) \<Longrightarrow> ar r = Some (length t)" for r t
      using Cons.prems(3) by (auto split: if_splits)
  qed
  then show ?case
    by (auto simp: d first hits1)
qed

lemma mem_merge_represents:
  assumes "represents s A B C"
  shows "\<exists>s'. mem_merge_deltas s = Inr s' \<and> arity s' = arity s \<and>
    represents s' (\<lambda>r. A r @ B r) C (\<lambda>r. [])"
proof -
  obtain tab six where 1: "merge_stable (arity s) (stable s) (stable_indexes s) (delta s) = Inr (tab, six)"
    "distinct (map fst tab)" "\<And>r. rows tab r = map flatten_tuple (A r @ B r)"
    "\<And>r c k. index_hits six r c k = hits_from 0 (A r @ B r) c k"
    using merge_stable_represents [of "delta s" "stable s" A B "arity s" "stable_indexes s"] assms
    unfolding represents_def by blast
  obtain dix where 2: "index_delta (arity s) Map.empty (next_delta s) = Inr dix"
    "\<And>r c k. index_hits dix r c k = hits_from 0 (C r) c k"
    using index_delta_represents [of "next_delta s" C "arity s" Map.empty] assms
    unfolding represents_def by auto
  have "represents (s\<lparr>stable := tab, stable_indexes := six, delta := next_delta s, next_delta := [],
      delta_indexes := dix\<rparr>) (\<lambda>r. A r @ B r) C (\<lambda>r. [])"
    using assms 1 2 unfolding represents_def by auto
  then show ?thesis
    using 1(1) 2(1) by (simp add: mem_merge_deltas_def)
qed

subsection \<open>Retract, clear, create and add\<close>

lemma position_None [simp]: "position x xs = None \<longleftrightarrow> x \<notin> set xs"
  by (induction xs) auto

lemma position_Some: "position x xs = Some i \<Longrightarrow> i < length xs \<and> xs ! i = x"
  by (induction xs arbitrary: i) (auto split: if_splits)

lemma position_map: "inj f \<Longrightarrow> position (f x) (map f xs) = position x xs"
  by (induction xs) (auto simp: inj_eq)

lemma swap_remove_map: "i < length xs \<Longrightarrow> swap_remove (map f xs) i = map f (swap_remove xs i)"
  by (cases "xs = []") (simp_all add: swap_remove_def last_map map_butlast map_update)

lemma mset_swap_remove:
  assumes "i < length xs"
  shows "mset (swap_remove xs i) = mset xs - {#xs ! i#}"
proof (cases xs rule: rev_cases)
  case (snoc ys y)
  then show ?thesis
    using assms
    by (cases "i = length ys")
       (auto simp: swap_remove_def list_update_append butlast_append mset_update nth_append)
qed (use assms in simp)

definition del_tuple :: "mvalue list \<Rightarrow> mvalue list list \<Rightarrow> mvalue list list" where
  "del_tuple t ts = (case position t ts of None \<Rightarrow> ts | Some i \<Rightarrow> swap_remove ts i)"

lemma mset_del_tuple: "mset (del_tuple t ts) = mset ts - {#t#}"
proof (cases "position t ts")
  case None
  then show ?thesis by (simp add: del_tuple_def diff_single_trivial flip: position_None)
next
  case (Some i)
  then show ?thesis
    using mset_swap_remove [of i ts] position_Some [OF Some] by (simp add: del_tuple_def)
qed

lemma del_tuple_props:
  assumes "distinct ts"
  shows "set (del_tuple t ts) = set ts - {t}" "distinct (del_tuple t ts)"
proof -
  have count: "count (mset (del_tuple t ts)) a = (if a \<in> set ts - {t} then 1 else 0)" for a
    using assms by (auto simp: mset_del_tuple distinct_count_atmost_1)
  show set: "set (del_tuple t ts) = set ts - {t}"
    using count by (metis (no_types, lifting) count_mset_0_iff set_eqI zero_neq_one)
  show "distinct (del_tuple t ts)"
    using count set by (simp add: distinct_count_atmost_1)
qed

lemma remove_row_represents:
  assumes "rows tab r = map flatten_tuple ts"
  shows "fst (remove_row r (flatten_tuple t) tab) \<longleftrightarrow> t \<in> set ts"
    and "rows (snd (remove_row r (flatten_tuple t) tab)) r' =
      (if r' = r then map flatten_tuple (del_tuple t ts) else rows tab r')"
    and "distinct (map fst tab) \<Longrightarrow> distinct (map fst (snd (remove_row r (flatten_tuple t) tab)))"
    and "t \<notin> set ts \<Longrightarrow> snd (remove_row r (flatten_tuple t) tab) = tab"
proof -
  have pos: "position (flatten_tuple t) (map flatten_tuple ts) = position t ts"
    by (rule position_map) (simp add: inj_def)
  show "fst (remove_row r (flatten_tuple t) tab) \<longleftrightarrow> t \<in> set ts"
    using assms pos position_None [of t ts]
    by (cases "map_of tab r"; cases "position t ts")
       (auto simp: remove_row_def rows_def simp del: position_None)
  show "rows (snd (remove_row r (flatten_tuple t) tab)) r' =
      (if r' = r then map flatten_tuple (del_tuple t ts) else rows tab r')"
  proof (cases "map_of tab r")
    case None
    then show ?thesis using assms by (auto simp: remove_row_def rows_def del_tuple_def)
  next
    case (Some table)
    then have table: "table = map flatten_tuple ts"
      using assms by (simp add: rows_def)
    show ?thesis
    proof (cases "position t ts")
      case None
      then show ?thesis
        using Some pos assms by (simp add: remove_row_def table del_tuple_def del: position_None)
    next
      case (Some i)
      then show ?thesis
        using \<open>map_of tab r = Some table\<close> pos position_Some [OF Some]
        by (simp add: remove_row_def table del_tuple_def swap_remove_map)
    qed
  qed
  show "distinct (map fst tab) \<Longrightarrow> distinct (map fst (snd (remove_row r (flatten_tuple t) tab)))"
    by (auto simp: remove_row_def distinct_update split: option.splits)
  show "t \<notin> set ts \<Longrightarrow> snd (remove_row r (flatten_tuple t) tab) = tab"
    using assms pos position_None [of t ts]
    by (cases "map_of tab r") (auto simp: remove_row_def rows_def simp del: position_None)
qed

lemma rebuild_represents:
  assumes "distinct (map fst (stable s))" "distinct (map fst (delta s))" "distinct (map fst (next_delta s))"
    and st: "\<And>r. rows (stable s) r = map flatten_tuple (A r)"
    and dl: "\<And>r. rows (delta s) r = map flatten_tuple (B r)"
    and nx: "\<And>r. rows (next_delta s) r = map flatten_tuple (C r)"
    and ar: "\<And>r t. t \<in> set (A r) \<union> set (B r) \<union> set (C r) \<Longrightarrow> arity s r = Some (length t)"
    and six: "\<And>r c k. r \<noteq> rel \<Longrightarrow> index_hits (stable_indexes s) r c k = hits_from 0 (A r) c k"
    and dix: "\<And>r c k. r \<noteq> rel \<Longrightarrow> index_hits (delta_indexes s) r c k = hits_from 0 (B r) c k"
    and dist: "\<And>r. distinct (A r @ B r @ C r)"
  shows "\<exists>s'. rebuild_indexes_for rel s = Inr s' \<and> arity s' = arity s \<and> represents s' A B C"
proof -
  let ?n = "n_cols_of s rel"
  have len: "length t = ?n" if "t \<in> set (A rel) \<union> set (B rel)" for t
  proof -
    from that have "t \<in> set (A rel) \<union> set (B rel) \<union> set (C rel)" by blast
    from ar [OF this] show ?thesis by (simp add: n_cols_of_def)
  qed
  obtain ix1 where 1: "index_rows (drop_index rel (stable_indexes s)) rel ?n 0 (rows (stable s) rel) = Inr ix1"
    "\<And>r c k. index_hits ix1 r c k = hits_from 0 (A r) c k"
    using index_rows_flatten [of "A rel" ?n "drop_index rel (stable_indexes s)" rel 0] len six
    unfolding st by (auto split: if_splits) metis
  obtain ix2 where 2: "index_rows (drop_index rel (delta_indexes s)) rel ?n 0 (rows (delta s) rel) = Inr ix2"
    "\<And>r c k. index_hits ix2 r c k = hits_from 0 (B r) c k"
    using index_rows_flatten [of "B rel" ?n "drop_index rel (delta_indexes s)" rel 0] len dix
    unfolding dl by (auto split: if_splits) metis
  have "represents (s\<lparr>stable_indexes := ix1, delta_indexes := ix2\<rparr>) A B C"
    using assms 1 2 unfolding represents_def by auto
  then show ?thesis
    using 1(1) 2(1) by (simp add: rebuild_indexes_for_def Let_def)
qed

lemma mem_retract_represents:
  assumes rep: "represents s A B C" and "t \<notin> set (B r)"
  shows "\<exists>s'. mem_retract r t s = Inr (t \<in> set (A r), s') \<and> arity s' = arity s \<and>
    represents s' (A(r := del_tuple t (A r))) B (C(r := del_tuple t (C r)))"
proof -
  note st = remove_row_represents [of "stable s" r "A r" t]
  note dl = remove_row_represents [of "delta s" r "B r" t]
  note nx = remove_row_represents [of "next_delta s" r "C r" t]
  have rows: "\<And>r. rows (stable s) r = map flatten_tuple (A r)" "\<And>r. rows (delta s) r = map flatten_tuple (B r)"
    "\<And>r. rows (next_delta s) r = map flatten_tuple (C r)"
    using rep by (auto simp: represents_def)
  have dist: "distinct (A r') \<and> distinct (B r') \<and> distinct (C r')" for r'
    using rep by (auto simp: represents_def)
  let ?A = "A(r := del_tuple t (A r))" and ?C = "C(r := del_tuple t (C r))"
  let ?s = "s\<lparr>stable := snd (remove_row r (flatten_tuple t) (stable s)),
      delta := snd (remove_row r (flatten_tuple t) (delta s)),
      next_delta := snd (remove_row r (flatten_tuple t) (next_delta s))\<rparr>"
  have sub: "set (?A r') \<subseteq> set (A r')" "set (?C r') \<subseteq> set (C r')" for r'
    using dist by (auto simp: del_tuple_props)
  have keys: "distinct (map fst (stable ?s))" "distinct (map fst (delta ?s))" "distinct (map fst (next_delta ?s))"
    using rep st(3) dl(3) nx(3) rows by (auto simp: represents_def)
  have rows': "rows (stable ?s) r' = map flatten_tuple (?A r')" "rows (delta ?s) r' = map flatten_tuple (B r')"
    "rows (next_delta ?s) r' = map flatten_tuple (?C r')" for r'
    using st(2) dl(4) nx(2) rows assms(2) by auto
  have ar: "arity ?s r' = Some (length u)" if "u \<in> set (?A r') \<union> set (B r') \<union> set (?C r')" for r' u
  proof -
    have "u \<in> set (A r') \<union> set (B r') \<union> set (C r')"
      using that sub by blast
    then show ?thesis
      using rep by (auto simp: represents_def)
  qed
  have dist': "distinct (?A r' @ B r' @ ?C r')" for r'
    using rep dist [of r'] sub [of r'] by (auto simp: represents_def del_tuple_props)
  show ?thesis
  proof (cases "t \<in> set (A r)")
    case True
    have "\<exists>s'. rebuild_indexes_for r ?s = Inr s' \<and> arity s' = arity ?s \<and> represents s' ?A B ?C"
      by (rule rebuild_represents [OF keys rows' ar])
         (use rep dist' in \<open>auto simp: represents_def\<close>)
    then show ?thesis
      using True st(1) rows by (auto simp: mem_retract_def Let_def case_prod_beta)
  next
    case False
    then have "?A = A"
      by (auto simp: del_tuple_def split: option.splits) (metis option.distinct(1) position_None)
    then have "represents ?s ?A B ?C"
      using rep keys rows' ar dist' unfolding represents_def by simp
    then show ?thesis
      using False st(1) rows by (auto simp: mem_retract_def Let_def case_prod_beta)
  qed
qed

lemma mem_create_represents:
  "represents s A B C \<Longrightarrow> represents (mem_create_relation r s) A B C"
  by (simp add: represents_def mem_create_relation_def)

lemma mem_clear_represents:
  "represents s A B C \<Longrightarrow> represents (mem_clear r s) (A(r := [])) (B(r := [])) (C(r := []))"
  by (auto simp: represents_def mem_clear_def)

lemma add_fact_represents:
  assumes rep: "represents s A B C" and acc: "accepts s r t" and "t \<notin> set (B r) \<union> set (C r)"
  shows "\<exists>s'. add_fact r t s = Inr s' \<and> arity s' r = Some (length t) \<and>
    represents s' (A(r := if t \<in> set (A r) then A r else A r @ [t])) B C"
proof (cases "t \<in> set (A r)")
  case True
  have "arity s r = Some (length t)"
    using rep True unfolding represents_def by blast
  moreover have "add_fact r t s = Inr (s\<lparr>stable := or_default r (stable s)\<rparr>)"
    using True represents_mem(1) [OF rep, of t r] by (simp add: add_fact_def Let_def)
  ultimately show ?thesis
    using rep True by (simp add: represents_def)
next
  case False
  let ?tab = "or_default r (stable s)"
  obtain ix where ix: "index_cells (stable_indexes s) r (flatten_tuple t) (length t)
      (length (rows (stable s) r)) = Inr ix"
    "\<And>r' c k. index_hits ix r' c k = index_hits (stable_indexes s) r' c k @
      (if r' = r \<and> hit c k t then [length (rows (stable s) r)] else [])"
    using index_cells_flatten by blast
  have "(if arity s r = None then (arity s)(r \<mapsto> length t) else arity s) = (arity s)(r \<mapsto> length t)"
    using acc by (auto simp: accepts_def)
  then have add: "add_fact r t s = Inr (s\<lparr>stable := AList.update r (rows (stable s) r @ [flatten_tuple t]) ?tab,
      arity := (arity s)(r \<mapsto> length t), stable_indexes := ix\<rparr>)"
    using False represents_mem(1) [OF rep, of t r] ix(1)
    unfolding add_fact_def Let_def by (simp only: rows_or_default if_False bindR_simps)
  have "length u = length t" if "u \<in> set (A r) \<union> set (B r) \<union> set (C r)" for u
  proof -
    have "arity s r = Some (length u)"
      using rep that unfolding represents_def by blast
    then show ?thesis using acc by (simp add: accepts_def)
  qed
  then show ?thesis
    using rep False assms(3) ix(2) unfolding add represents_def
    by (auto simp: hits_from_append)
qed

text \<open>The operations of the store keep the invariant.  \<open>retract\<close> does so when the tuple is not in
  the delta table, \<open>add_fact\<close> when the tuple has the registered arity and is not in a delta.\<close>

lemmas store_inv_represents = represents_inv [OF mem_create_represents]
  represents_inv [OF mem_clear_represents]

end
