(* ===== verification/Store_API.thy ===== *)
theory Store_API
  imports Mem_Store_Inv
begin

text \<open>
  The trait \<open>Store\<close> of \<open>mangle-common\<close> as a record of operations, the way a \<open>dyn Store\<close> reaches its
  clients, and its contract as the locale \<open>fact_store\<close>: what a scan returns, what an index lookup may
  add to it, and what an insert changes.  \<open>MemStore\<close> satisfies the contract under \<open>store_inv\<close>.
\<close>

type_synonym tuple = "mvalue list"
type_synonym fact = "string \<times> tuple"

record 's store_ops =
  so_scan :: "'s \<Rightarrow> string \<Rightarrow> tuple list result"
  so_scan_delta :: "'s \<Rightarrow> string \<Rightarrow> tuple list result"
  so_scan_next_delta :: "'s \<Rightarrow> string \<Rightarrow> tuple list result"
  so_scan_index :: "'s \<Rightarrow> string \<Rightarrow> nat \<Rightarrow> mvalue \<Rightarrow> tuple list result"
  so_scan_delta_index :: "'s \<Rightarrow> string \<Rightarrow> nat \<Rightarrow> mvalue \<Rightarrow> tuple list result"
  so_insert :: "string \<Rightarrow> tuple \<Rightarrow> 's \<Rightarrow> (bool \<times> 's) result"
  so_merge_deltas :: "'s \<Rightarrow> 's result"
  so_create_relation :: "string \<Rightarrow> 's \<Rightarrow> 's"
  so_retract :: "string \<Rightarrow> tuple \<Rightarrow> 's \<Rightarrow> (bool \<times> 's) result"
  so_clear :: "string \<Rightarrow> 's \<Rightarrow> 's"
  so_relation_names :: "'s \<Rightarrow> string list"

definition mem_ops :: "mem_store store_ops" where
  "mem_ops = \<lparr>so_scan = mem_scan, so_scan_delta = mem_scan_delta,
     so_scan_next_delta = mem_scan_next_delta, so_scan_index = mem_scan_index,
     so_scan_delta_index = mem_scan_delta_index,
     so_insert = (\<lambda>r t s. Inr (mem_insert r t s)), so_merge_deltas = mem_merge_deltas,
     so_create_relation = mem_create_relation, so_retract = mem_retract, so_clear = mem_clear,
     so_relation_names = mem_relation_names\<rparr>"

text \<open>\<open>col_is c k t\<close>: column \<open>c\<close> of the tuple holds \<open>k\<close>.  An index lookup returns every such tuple
  and possibly others, which its client filters out.\<close>

definition col_is :: "nat \<Rightarrow> mvalue \<Rightarrow> tuple \<Rightarrow> bool" where
  "col_is c k t \<longleftrightarrow> c < length t \<and> t ! c = k"

locale fact_store =
  fixes S :: "'s store_ops" and inv :: "'s \<Rightarrow> bool"
    and old dl nx :: "'s \<Rightarrow> string \<Rightarrow> tuple list" and ar :: "'s \<Rightarrow> string \<Rightarrow> nat option"
  assumes scan: "inv s \<Longrightarrow> so_scan S s r = Inr (old s r @ dl s r)"
    and scan_delta: "inv s \<Longrightarrow> so_scan_delta S s r = Inr (dl s r)"
    and scan_next: "inv s \<Longrightarrow> so_scan_next_delta S s r = Inr (nx s r)"
    and scan_index: "inv s \<Longrightarrow> \<exists>ts. so_scan_index S s r c k = Inr ts \<and>
          set ts \<subseteq> set (old s r @ dl s r) \<and>
          filter (col_is c k) ts = filter (col_is c k) (old s r @ dl s r)"
    and scan_index_cong: "inv s \<Longrightarrow> inv s' \<Longrightarrow> old s' r = old s r \<Longrightarrow> dl s' r = dl s r \<Longrightarrow>
          so_scan_index S s' r c k = so_scan_index S s r c k"
    and facts_distinct: "inv s \<Longrightarrow> distinct (old s r @ dl s r @ nx s r)"
    and facts_arity: "inv s \<Longrightarrow> t \<in> set (old s r @ dl s r @ nx s r) \<Longrightarrow> ar s r = Some (length t)"
    and insert_new: "inv s \<Longrightarrow> t \<notin> set (old s r @ dl s r @ nx s r) \<Longrightarrow>
          ar s r = None \<or> ar s r = Some (length t) \<Longrightarrow>
          \<exists>s'. so_insert S r t s = Inr (True, s') \<and> inv s' \<and> old s' = old s \<and> dl s' = dl s \<and>
            nx s' = (nx s)(r := nx s r @ [t]) \<and> ar s' = (ar s)(r \<mapsto> length t)"
    and insert_old: "inv s \<Longrightarrow>
          t \<in> set (old s r @ dl s r @ nx s r) \<or> \<not> (ar s r = None \<or> ar s r = Some (length t)) \<Longrightarrow>
          so_insert S r t s = Inr (False, s)"
    and merge: "inv s \<Longrightarrow> \<exists>s'. so_merge_deltas S s = Inr s' \<and> inv s' \<and>
          old s' = (\<lambda>r. old s r @ dl s r) \<and> dl s' = nx s \<and> nx s' = (\<lambda>r. []) \<and> ar s' = ar s"
begin

definition facts :: "'s \<Rightarrow> fact set" where
  "facts s = {(r, t). t \<in> set (old s r @ dl s r @ nx s r)}"

text \<open>The tuples of one relation in a log of insertions.\<close>

definition log_of :: "string \<Rightarrow> fact list \<Rightarrow> tuple list" where
  "log_of r N = map snd (filter (\<lambda>f. fst f = r) N)"

lemma log_of_simps [simp]:
  "log_of r [] = []"
  "log_of r (f # N) = (if fst f = r then [snd f] else []) @ log_of r N"
  "log_of r (N @ M) = log_of r N @ log_of r M"
  by (simp_all add: log_of_def)

lemma in_log_of: "t \<in> set (log_of r N) \<longleftrightarrow> (r, t) \<in> set N"
  by (force simp: log_of_def)

text \<open>\<open>grows s N s'\<close>: from \<open>s\<close> to \<open>s'\<close> exactly the facts of the log \<open>N\<close>, all new, were
  inserted, in that order.\<close>

definition grows :: "'s \<Rightarrow> fact list \<Rightarrow> 's \<Rightarrow> bool" where
  "grows s N s' \<longleftrightarrow> inv s' \<and> old s' = old s \<and> dl s' = dl s \<and>
     (\<forall>r. nx s' r = nx s r @ log_of r N) \<and> (\<forall>f\<in>set N. f \<notin> facts s) \<and>
     (\<forall>r. ar s r \<noteq> None \<longrightarrow> ar s' r = ar s r) \<and>
     (\<forall>r n. ar s' r = Some n \<longrightarrow> ar s r = Some n \<or> (\<exists>t. (r, t) \<in> set N \<and> n = length t))"

lemma grows_refl: "inv s \<Longrightarrow> grows s [] s"
  by (simp add: grows_def)

lemma grows_arity:
  "grows s N s' \<Longrightarrow> ar s' r = Some n \<Longrightarrow> ar s r = Some n \<or> (\<exists>t. (r, t) \<in> set N \<and> n = length t)"
  unfolding grows_def by blast

lemma grows_trans:
  assumes "grows s N s1" "grows s1 M s2"
  shows "grows s (N @ M) s2"
proof -
  have "ar s r = Some n \<or> (\<exists>t. (r, t) \<in> set (N @ M) \<and> n = length t)" if "ar s2 r = Some n" for r n
    using grows_arity [OF assms(2) that] grows_arity [OF assms(1)] by auto
  then show ?thesis
    using assms unfolding grows_def by (auto simp: facts_def)
qed

lemma grows_inv: "grows s N s' \<Longrightarrow> inv s'"
  by (simp add: grows_def)

lemma grows_facts: "grows s N s' \<Longrightarrow> facts s' = facts s \<union> set N"
  by (auto simp: grows_def facts_def in_log_of)

lemma grows_distinct: "grows s N s' \<Longrightarrow> distinct N"
proof -
  assume g: "grows s N s'"
  have "distinct (log_of r N)" for r
    using facts_distinct [OF grows_inv [OF g], of r] g by (simp add: grows_def)
  then show ?thesis
  proof (induction N)
    case (Cons f N)
    have "distinct (log_of r N)" for r
      using Cons.prems [of r] by (simp split: if_splits)
    moreover have "f \<notin> set N"
      using Cons.prems [of "fst f"] in_log_of [of "snd f" "fst f" N] by simp
    ultimately show ?case using Cons.IH by simp
  qed simp
qed

lemma insert_grows:
  assumes "inv s"
  obtains b s' where "so_insert S r t s = Inr (b, s')" "grows s (if b then [(r, t)] else []) s'"
    "(r, t) \<in> facts s' \<or> \<not> (ar s r = None \<or> ar s r = Some (length t))"
proof (cases "t \<notin> set (old s r @ dl s r @ nx s r) \<and> (ar s r = None \<or> ar s r = Some (length t))")
  case True
  then obtain s' where s': "so_insert S r t s = Inr (True, s')" "inv s'" "old s' = old s" "dl s' = dl s"
    "nx s' = (nx s)(r := nx s r @ [t])" "ar s' = (ar s)(r \<mapsto> length t)"
    using insert_new [OF assms, of t r] by blast
  show ?thesis
    by (rule that [OF s'(1)]) (use s'(2-) True in \<open>auto simp: grows_def facts_def split: if_splits\<close>)
next
  case False
  then have "so_insert S r t s = Inr (False, s)"
    using insert_old [OF assms] by blast
  then show ?thesis
    by (rule that) (use assms False in \<open>auto simp: grows_refl facts_def\<close>)
qed

end

subsection \<open>\<open>MemStore\<close> satisfies the contract\<close>

lemma col_is_hit: "(\<lambda>t. hit c (value_to_index_key k) t \<and> col_is c k t) = col_is c k"
  by (auto simp: hit_def col_is_def)

interpretation ms: fact_store mem_ops store_inv stable_facts delta_facts next_facts arity
proof (unfold_locales, goal_cases)
  case (1 s r)
  then show ?case by (simp add: mem_ops_def scan_facts)
next
  case (2 s r)
  then show ?case by (simp add: mem_ops_def scan_facts)
next
  case (3 s r)
  then show ?case by (simp add: mem_ops_def scan_facts)
next
  case (4 s r c k)
  show ?case
    by (rule exI [of _ "filter (hit c (value_to_index_key k)) (stable_facts s r @ delta_facts s r)"])
       (use 4 in \<open>auto simp: mem_ops_def scan_index_facts col_is_hit\<close>)
next
  case (5 s s' r c k)
  then show ?case by (simp add: mem_ops_def scan_index_facts)
next
  case (6 s r)
  then show ?case by (rule store_invD(6))
next
  case (7 s t r)
  then show ?case
    using inv_represents [OF 7(1)] unfolding represents_def by auto
next
  case (8 s t r)
  note rep = inv_represents [OF 8(1)]
  have acc: "accepts s r t" and new: "t \<notin> set (stable_facts s r) \<union> set (delta_facts s r) \<union> set (next_facts s r)"
    using 8 by (auto simp: accepts_def)
  note ins = mem_insert_represents [OF rep, where r = r and t = t]
  let ?s = "snd (mem_insert r t s)"
  have "represents ?s (stable_facts s) (delta_facts s) ((next_facts s)(r := next_facts s r @ [t]))"
    "arity ?s = (arity s)(r \<mapsto> length t)"
    using ins(2) [OF new acc] by blast+
  then show ?case
    using ins(1) new acc represents_facts represents_inv
    by (intro exI [of _ ?s]) (auto simp: mem_ops_def)
next
  case (9 s t r)
  then show ?case
    using mem_insert_represents(1) [OF inv_represents [OF 9(1)], where r = r and t = t]
    by (auto simp: mem_ops_def accepts_def)
next
  case (10 s)
  from mem_merge_represents [OF inv_represents [OF 10]] obtain s' where
    s': "mem_merge_deltas s = Inr s'" "arity s' = arity s"
      "represents s' (\<lambda>r. stable_facts s r @ delta_facts s r) (next_facts s) (\<lambda>r. [])"
    by blast
  then show ?case
    using represents_facts [OF s'(3)] represents_inv [OF s'(3)] by (simp add: mem_ops_def)
qed

end
