(* ===== verification/Interner.thy ===== *)
theory Interner
  imports Prelude
begin

text \<open>
  The containers of \<open>mangle-ir\<close>: keys (\<open>InstId\<close>, \<open>NameId\<close>, \<open>StringId\<close>: a \<open>NonZeroU32\<close> holding the
  index plus one), the string interner \<open>Store<K>\<close>, the instruction type \<open>Inst\<close> and the container
  \<open>Ir\<close>.  A \<open>NonZeroU32\<close> is a 32-bit word; \<open>K::new\<close> truncates the index to 32 bits and panics on
  zero, so the model keeps the width.  The locale \<open>string_interner\<close> is the contract of an interner
  and the source's \<open>Store<K>\<close> is shown to satisfy it.
\<close>

subsection \<open>Keys\<close>

type_synonym key = u32
type_synonym name_id = key
type_synonym string_id = key
type_synonym inst_id = key

definition key_new :: "nat \<Rightarrow> key result" where
  "key_new index = (let k = of_nat (index + 1) in if k = 0 then Inl Panic else Inr k)"

definition key_index :: "key \<Rightarrow> nat" where
  "key_index k = unat (k - 1)"

subsection \<open>The interner\<close>

record interner =
  imap :: "string \<Rightarrow> key option"
  ivec :: "string list"

definition interner_new :: interner where
  "interner_new = \<lparr>imap = Map.empty, ivec = []\<rparr>"

definition intern :: "string \<Rightarrow> interner \<Rightarrow> (key \<times> interner) result" where
  "intern name s =
     (case imap s name of
        Some k \<Rightarrow> Inr (k, s)
      | None \<Rightarrow>
          bindR (key_new (length (ivec s))) (\<lambda>k.
            Inr (k, s\<lparr>ivec := ivec s @ [name], imap := (imap s)(name \<mapsto> k)\<rparr>)))"

definition interner_get :: "interner \<Rightarrow> key \<Rightarrow> string result" where
  "interner_get s k = index_list (ivec s) (key_index k)"

definition interner_lookup :: "interner \<Rightarrow> string \<Rightarrow> key option" where
  "interner_lookup s name = imap s name"

definition interner_values :: "interner \<Rightarrow> string list" where
  "interner_values s = ivec s"

subsection \<open>Instructions and their container\<close>

datatype inst =
    IBool bool
  | INumber i64
  | IFloat u64
  | IString string_id
  | IBytes "8 word list"
  | IName name_id
  | ITime i64
  | IDuration i64
  | IList "inst_id list"
  | IMap "inst_id list" "inst_id list"
  | IStruct "name_id list" "inst_id list"
  | IVar name_id
  | IApplyFn name_id "inst_id list"
  | IAtom name_id "inst_id list"
  | INegAtom inst_id
  | IEq inst_id inst_id
  | IIneq inst_id inst_id
  | ITransform "name_id option" inst_id
  | IRule inst_id "inst_id list" "inst_id list"
  | IDecl inst_id "inst_id list" "inst_id list" "inst_id option"
  | IBoundDecl "inst_id list"
  | IConstraints "inst_id list" "inst_id list list"

record ir =
  insts :: "inst list"
  name_store :: interner
  string_store :: interner
  temporal_predicates :: "name_id list"

definition ir_new :: ir where
  "ir_new = \<lparr>insts = [], name_store = interner_new, string_store = interner_new,
     temporal_predicates = []\<rparr>"

definition add_inst :: "inst \<Rightarrow> ir \<Rightarrow> (inst_id \<times> ir) result" where
  "add_inst i m = bindR (key_new (length (insts m))) (\<lambda>k. Inr (k, m\<lparr>insts := insts m @ [i]\<rparr>))"

definition ir_get :: "ir \<Rightarrow> inst_id \<Rightarrow> inst result" where
  "ir_get m k = index_list (insts m) (key_index k)"

definition intern_name :: "string \<Rightarrow> ir \<Rightarrow> (name_id \<times> ir) result" where
  "intern_name n m = bindR (intern n (name_store m)) (\<lambda>(k, s). Inr (k, m\<lparr>name_store := s\<rparr>))"

definition resolve_name :: "ir \<Rightarrow> name_id \<Rightarrow> string result" where
  "resolve_name m k = interner_get (name_store m) k"

definition intern_string :: "string \<Rightarrow> ir \<Rightarrow> (string_id \<times> ir) result" where
  "intern_string n m = bindR (intern n (string_store m)) (\<lambda>(k, s). Inr (k, m\<lparr>string_store := s\<rparr>))"

definition resolve_string :: "ir \<Rightarrow> string_id \<Rightarrow> string result" where
  "resolve_string m k = interner_get (string_store m) k"

subsection \<open>Keys and indexes\<close>

lemma key_new_Inr:
  assumes "i < 2 ^ 32"
  shows "key_new i = Inr k \<longleftrightarrow> i + 1 < 2 ^ 32 \<and> k = of_nat (i + 1)"
proof -
  have "(of_nat (i + 1) :: key) = 0 \<longleftrightarrow> 2 ^ 32 dvd i + 1"
    using word_of_nat_eq_0_iff [where 'a = 32, of "i + 1"] by simp
  also have "\<dots> \<longleftrightarrow> i + 1 = 2 ^ 32"
    using assms by (auto dest!: dvd_imp_le)
  finally show ?thesis
    using assms unfolding key_new_def Let_def by (auto simp del: of_nat_add)
qed

lemma key_index_of_nat: "i < 2 ^ 32 \<Longrightarrow> key_index (of_nat (i + 1)) = i"
  by (simp add: key_index_def unat_of_nat)

lemma key_index_inj: "key_index j = key_index k \<longleftrightarrow> j = k"
  by (simp add: key_index_def flip: word_unat_eq_iff)

subsection \<open>The contract of an interner\<close>

text \<open>Interning a list of names, threading the interner.\<close>

fun intern_list :: "(string \<Rightarrow> 's \<Rightarrow> (key \<times> 's) result) \<Rightarrow> string list \<Rightarrow> 's \<Rightarrow> (key list \<times> 's) result" where
  "intern_list itn [] s = Inr ([], s)"
| "intern_list itn (n # ns) s =
     bindR (itn n s) (\<lambda>(k, s'). bindR (intern_list itn ns s') (\<lambda>(ks, s''). Inr (k # ks, s'')))"

locale string_interner =
  fixes inv :: "'s \<Rightarrow> bool" and itn :: "string \<Rightarrow> 's \<Rightarrow> (key \<times> 's) result"
    and get :: "'s \<Rightarrow> key \<Rightarrow> string result" and lkp :: "'s \<Rightarrow> string \<Rightarrow> key option"
  assumes int_inv: "inv s \<Longrightarrow> itn n s = Inr (k, s') \<Longrightarrow> inv s'"
    and int_get: "inv s \<Longrightarrow> itn n s = Inr (k, s') \<Longrightarrow> get s' k = Inr n"
    and int_keeps: "inv s \<Longrightarrow> itn n s = Inr (k, s') \<Longrightarrow> get s j = Inr m \<Longrightarrow> get s' j = Inr m"
    and int_known: "inv s \<Longrightarrow> lkp s n = Some k \<Longrightarrow> itn n s = Inr (k, s)"
    and lkp_get: "inv s \<Longrightarrow> lkp s m = Some k \<longleftrightarrow> get s k = Inr m"
begin

lemma key_unique: "inv s \<Longrightarrow> get s j = Inr m \<Longrightarrow> get s k = Inr m \<Longrightarrow> j = k"
  by (metis lkp_get option.inject)

lemma int_again: "inv s \<Longrightarrow> itn n s = Inr (k, s') \<Longrightarrow> itn n s' = Inr (k, s')"
  using int_inv int_get int_known lkp_get by blast

lemma intern_list_inv:
  "inv s \<Longrightarrow> intern_list itn ns s = Inr (ks, s') \<Longrightarrow> inv s'"
  by (induction ns arbitrary: s ks) (auto dest: int_inv)

lemma intern_list_keeps:
  "inv s \<Longrightarrow> intern_list itn ns s = Inr (ks, s') \<Longrightarrow> get s j = Inr m \<Longrightarrow> get s' j = Inr m"
proof (induction ns arbitrary: s ks)
  case (Cons n ns)
  obtain k s1 ks' where k: "itn n s = Inr (k, s1)" "intern_list itn ns s1 = Inr (ks', s')"
    using Cons.prems(2) by auto
  show ?case
    using Cons.IH [OF int_inv [OF Cons.prems(1) k(1)] k(2)] int_keeps [OF Cons.prems(1) k(1) Cons.prems(3)]
    by blast
qed simp

lemma intern_list_get:
  "inv s \<Longrightarrow> intern_list itn ns s = Inr (ks, s') \<Longrightarrow> traverseR (get s') ks = Inr ns"
proof (induction ns arbitrary: s ks)
  case (Cons n ns)
  obtain k s1 ks' where k: "itn n s = Inr (k, s1)" "intern_list itn ns s1 = Inr (ks', s')"
    and ks: "ks = k # ks'"
    using Cons.prems(2) by auto
  note inv1 = int_inv [OF Cons.prems(1) k(1)]
  have "get s' k = Inr n"
    using intern_list_keeps [OF inv1 k(2)] int_get [OF Cons.prems(1) k(1)] by blast
  then show ?case
    using Cons.IH [OF inv1 k(2)] by (simp add: ks)
qed simp

lemma intern_list_length: "intern_list itn ns s = Inr (ks, s') \<Longrightarrow> length ks = length ns"
  by (induction ns arbitrary: s ks) auto

lemma intern_list_eq_iff:
  assumes "inv s" "intern_list itn ns s = Inr (ks, s')" "i < length ns" "j < length ns"
  shows "ks ! i = ks ! j \<longleftrightarrow> ns ! i = ns ! j"
proof -
  have "get s' (ks ! l) = Inr (ns ! l)" if "l < length ns" for l
    using traverseR_nth [OF intern_list_get [OF assms(1,2)]] intern_list_length [OF assms(2)] that
    by simp
  then show ?thesis
    using assms(3,4) key_unique [OF intern_list_inv [OF assms(1,2)]] by (metis sum.inject(2))
qed

end

subsection \<open>The source's interner satisfies the contract\<close>

definition interner_inv :: "interner \<Rightarrow> bool" where
  "interner_inv s \<longleftrightarrow> length (ivec s) < 2 ^ 32 \<and>
     (\<forall>n k. imap s n = Some k \<longleftrightarrow> interner_get s k = Inr n)"

lemma interner_new_inv: "interner_inv interner_new"
  by (simp add: interner_inv_def interner_new_def interner_get_def)

lemma intern_cases:
  assumes "interner_inv s" "intern n s = Inr (k, s')"
  obtains "imap s n = Some k" "s' = s"
  | "imap s n = None" "length (ivec s) + 1 < 2 ^ 32" "key_index k = length (ivec s)"
    "s' = s\<lparr>ivec := ivec s @ [n], imap := (imap s)(n \<mapsto> k)\<rparr>"
proof (cases "imap s n")
  case (Some j)
  show ?thesis
    by (rule that(1)) (use assms(2) Some in \<open>simp_all add: intern_def\<close>)
next
  case None
  then have eq: "key_new (length (ivec s)) = Inr k"
    "s' = s\<lparr>ivec := ivec s @ [n], imap := (imap s)(n \<mapsto> k)\<rparr>"
    using assms(2) by (auto simp: intern_def)
  have len: "length (ivec s) < 2 ^ 32"
    using assms(1) unfolding interner_inv_def by (rule conjunct1)
  note nk = eq(1) [unfolded key_new_Inr [OF len]]
  show ?thesis
    using that(2) [OF None conjunct1 [OF nk] _ eq(2)] key_index_of_nat [OF len] conjunct2 [OF nk]
    by (simp only:)
qed

lemma intern_get_new:
  assumes "key_index k = length (ivec s)" "s' = s\<lparr>ivec := ivec s @ [n], imap := m\<rparr>"
  shows "interner_get s' j = Inr x \<longleftrightarrow> interner_get s j = Inr x \<or> j = k \<and> x = n"
  using assms by (auto simp: interner_get_def nth_append less_Suc_eq key_index_inj [symmetric])

lemma intern_inv: "interner_inv s \<Longrightarrow> intern n s = Inr (k, s') \<Longrightarrow> interner_inv s'"
proof (rule intern_cases, assumption, assumption, simp)
  assume inv: "interner_inv s" and fresh: "imap s n = None" and len: "length (ivec s) + 1 < 2 ^ 32"
    and k: "key_index k = length (ivec s)"
    and s': "s' = s\<lparr>ivec := ivec s @ [n], imap := (imap s)(n \<mapsto> k)\<rparr>"
  have iff: "imap s m = Some j \<longleftrightarrow> interner_get s j = Inr m" for m j
    using inv by (simp add: interner_inv_def)
  have "imap s' m = Some j \<longleftrightarrow> interner_get s' j = Inr m" for m j
    using intern_get_new [OF k s', of j m] iff [of m j] fresh iff [of n j] k
    by (cases "m = n") (auto simp: s' interner_get_def)
  then show "interner_inv s'"
    using len by (simp add: interner_inv_def s')
qed

interpretation si: string_interner interner_inv intern interner_get interner_lookup
proof (unfold_locales, goal_cases)
  case (1 s n k s')
  then show ?case by (rule intern_inv)
next
  case (2 s n k s')
  show ?case
    using 2 by (rule intern_cases) (use 2(1) in \<open>auto simp: interner_inv_def intern_get_new\<close>)
next
  case (3 s n k s' j m)
  show ?case
    using 3(1,2) by (rule intern_cases) (use 3(3) in \<open>auto simp: intern_get_new\<close>)
next
  case (4 s n k)
  then show ?case by (simp add: interner_lookup_def intern_def)
next
  case (5 s m k)
  then show ?case by (simp add: interner_lookup_def interner_inv_def)
qed

subsection \<open>Properties\<close>

text \<open>C18: Interning any list of names resolves back to the names, in order, and two of the keys are
  equal exactly when the names are: the interner never confuses two names, since it refuses to
  allocate a key before the 32-bit counter wraps.\<close>

theorem intern_list_faithful:
  assumes "interner_inv s" "intern_list intern ns s = Inr (ks, s')"
  shows "interner_inv s' \<and> traverseR (interner_get s') ks = Inr ns \<and>
    (\<forall>i j. i < length ns \<and> j < length ns \<longrightarrow> (ks ! i = ks ! j \<longleftrightarrow> ns ! i = ns ! j))"
  using si.intern_list_inv [OF assms] si.intern_list_get [OF assms] si.intern_list_eq_iff [OF assms]
  by blast

theorem intern_list_faithful_witness:
  "traverseR (interner_get (snd (projr (intern_list intern [''p'', ''q'', ''p''] interner_new)))) [1, 2, 1]
     = Inr [''p'', ''q'', ''p'']"
  using intern_list_faithful [OF interner_new_inv, of "[''p'', ''q'', ''p'']" "[1, 2, 1]"
      "snd (projr (intern_list intern [''p'', ''q'', ''p''] interner_new))"]
  by (simp add: interner_new_def intern_def key_new_def)

end
