(* ===== verification/Plan_IR.thy ===== *)
theory Plan_IR
  imports Values Interner
begin

text \<open>
  The physical plan language of \<open>mangle-ir/src/physical.rs\<close>: operations, data sources, conditions,
  expressions, operands and constants, one constructor per variant of the source (suffixed where the
  variant's name is taken in HOL or by another type).
\<close>

datatype plan_const =
    CNumber i64
  | CFloat f64
  | CString string_id
  | CName name_id
  | CTime i64
  | CDuration i64

datatype operand = OVar name_id | OConst plan_const

datatype expr = ValueE operand | CallE name_id "operand list"

datatype cmp_op = CEq | CNeq | CLt | CLe | CGt | CGe

datatype condition =
    Cmp cmp_op operand operand
  | Negation name_id "operand list"
  | CallC name_id "operand list"
  | NotC condition

datatype data_source =
    Scan name_id "name_id list"
  | ScanDelta name_id "name_id list"
  | IndexLookup name_id nat operand "name_id list"

record aggregate =
  agg_var :: name_id
  agg_func :: name_id
  agg_args :: "operand list"

datatype op =
    Nop
  | Seq "op list"
  | Iterate data_source op
  | FilterOp condition op
  | InsertOp name_id "operand list"
  | LetOp name_id expr op
  | GroupBy name_id "name_id list" "name_id list" "aggregate list" op
  | HashJoin data_source data_source "name_id list" op
  | MatchField operand name_id name_id op
  | IterateList operand name_id op

end
