(* ===== verification/Civil_Time.thy ===== *)
theory Civil_Time
  imports Values
begin

text \<open>
  Times and durations: the civil-date arithmetic of \<open>mangle-common\<close> (\<open>format_time_nanos\<close>,
  \<open>format_duration_nanos\<close>) and of the interpreter (\<open>civil_from_epoch_secs\<close>,
  \<open>format_time_with_precision\<close>, \<open>parse_timezone_offset\<close>, \<open>parse_rfc3339_to_nanos\<close>,
  \<open>parse_duration_string\<close>).  A nanosecond count is an \<open>i64\<close>; the date arithmetic on it stays far
  inside the range of \<open>i64\<close> and \<open>u32\<close> (\<open>civil_bounds\<close>), so it is written on integers, with the
  casts that can lose information written out.  Parsing works on unchecked fields, so there the
  \<open>u32\<close> arithmetic is on words.  The operations on \<open>f64\<close> that \<open>parse_duration_string\<close> needs are
  parameters.
\<close>

subsection \<open>Civil dates from seconds\<close>

definition civil_from_days :: "int \<Rightarrow> int \<times> int \<times> int" where
  "civil_from_days days =
     (let z = days + 719468;
          era = tdiv (if 0 \<le> z then z else z - 146096) 146097;
          doe = (z - era * 146097) mod 2 ^ 32;
          yoe = (doe - doe div 1460 + doe div 36524 - doe div 146096) div 365;
          y = yoe + era * 400;
          doy = doe - (365 * yoe + yoe div 4 - yoe div 100);
          mp = (5 * doy + 2) div 153;
          d = doy - (153 * mp + 2) div 5 + 1;
          m = (if mp < 10 then mp + 3 else mp - 9);
          y' = (if m \<le> 2 then y + 1 else y)
      in (y', m, d))"

text \<open>The same computation in the interpreter, whose year is cast with \<open>y as i32\<close>.\<close>

definition civil_from_epoch_secs :: "int \<Rightarrow> int \<times> int \<times> int" where
  "civil_from_epoch_secs secs = (case civil_from_days (secs div 86400) of (y, m, d) \<Rightarrow> (signed_take_bit 31 y, m, d))"

subsection \<open>Printing times\<close>

definition colon :: string where
  "colon = '':''"

definition date_str :: "int \<times> int \<times> int \<Rightarrow> string" where
  "date_str ymd = (case ymd of (y, m, d) \<Rightarrow> zpad 4 y @ ''-'' @ zpad 2 m @ ''-'' @ zpad 2 d)"

definition clock_str :: "int \<Rightarrow> string" where
  "clock_str time_of_day =
     zpad 2 (time_of_day div 3600) @ colon @ zpad 2 (time_of_day mod 3600 div 60) @ colon
       @ zpad 2 (time_of_day mod 60)"

definition format_time_nanos :: "i64 \<Rightarrow> string" where
  "format_time_nanos nanos =
     (let secs = sint nanos div 1000000000; ns = sint nanos mod 1000000000;
          ymd = civil_from_days (secs div 86400); time_of_day = secs mod 86400
      in if ns = 0 then date_str ymd @ ''T'' @ clock_str time_of_day @ ''Z''
         else date_str ymd @ ''T'' @ clock_str time_of_day @ ''.'' @ trim_end_zeros (zpad 9 ns) @ ''Z'')"

definition format_time_with_precision :: "i64 \<Rightarrow> string \<Rightarrow> string result" where
  "format_time_with_precision nanos precision =
     (let secs = sint nanos div 1000000000; sub_nanos = sint nanos mod 1000000000;
          (y, m, d) = civil_from_epoch_secs secs;
          time_of_day = secs mod 86400; hour = time_of_day div 3600;
          minute = time_of_day mod 3600 div 60
      in if precision = ''/year'' then Inr (zpad 4 y)
         else if precision = ''/month'' then Inr (zpad 4 y @ ''-'' @ zpad 2 m)
         else if precision = ''/day'' then Inr (date_str (y, m, d))
         else if precision = ''/hour'' then Inr (date_str (y, m, d) @ ''T'' @ zpad 2 hour @ ''Z'')
         else if precision = ''/minute''
           then Inr (date_str (y, m, d) @ ''T'' @ zpad 2 hour @ colon @ zpad 2 minute @ ''Z'')
         else if precision = ''/second''
           then Inr (date_str (y, m, d) @ ''T'' @ clock_str time_of_day @ ''Z'')
         else if precision = ''/millisecond''
           then Inr (date_str (y, m, d) @ ''T'' @ clock_str time_of_day @ ''.''
                       @ zpad 3 (sub_nanos div 1000000) @ ''Z'')
         else if precision = ''/microsecond''
           then Inr (date_str (y, m, d) @ ''T'' @ clock_str time_of_day @ ''.''
                       @ zpad 6 (sub_nanos div 1000) @ ''Z'')
         else if precision = ''/nanosecond''
           then (if sub_nanos = 0
                 then Inr (date_str (y, m, d) @ ''T'' @ clock_str time_of_day @ ''Z'')
                 else Inr (date_str (y, m, d) @ ''T'' @ clock_str time_of_day @ ''.''
                             @ trim_end_zeros (zpad 9 sub_nanos) @ ''Z''))
         else Inl (Anyhow ''unknown time precision''))"

subsection \<open>Parsing times\<close>

definition parse_timezone_offset :: "string \<Rightarrow> i64 result" where
  "parse_timezone_offset tz =
     (if tz = ''UTC'' then Inr 0
      else if starts_with tz ''+'' \<or> starts_with tz ''-'' then
        (let sign = (if starts_with tz ''-'' then -1 else 1); parts = split_on CHR 0x3A (tl tz)
         in case parts of
              [hs, ms] \<Rightarrow>
                (case parse_i64 hs of
                   None \<Rightarrow> Inl (Anyhow ''invalid timezone'')
                 | Some hours \<Rightarrow>
                     (case parse_i64 ms of
                        None \<Rightarrow> Inl (Anyhow ''invalid timezone'')
                      | Some minutes \<Rightarrow> Inr (sign * (hours * 3600 + minutes * 60))))
            | _ \<Rightarrow> Inl (Anyhow ''invalid timezone offset''))
      else Inl (Anyhow ''unsupported timezone''))"

definition parse_field :: "(string \<Rightarrow> 'a option) \<Rightarrow> string \<Rightarrow> nat \<Rightarrow> nat \<Rightarrow> string \<Rightarrow> 'a result" where
  "parse_field p s a b msg =
     bindR (str_slice s a b) (\<lambda>f. case p f of None \<Rightarrow> Inl (Anyhow msg) | Some v \<Rightarrow> Inr v)"

text \<open>\<open>format!("{frac_str:0<9}")\<close> pads by characters; the following \<open>[..9]\<close> cuts by bytes.\<close>

definition char_count :: "string \<Rightarrow> nat" where
  "char_count s = length (filter (\<lambda>c. \<not> is_cont_byte c) s)"

definition parse_frac_nanos :: "string \<Rightarrow> i64 result" where
  "parse_frac_nanos s =
     (if 19 < length s \<and> s ! 19 = CHR ''.'' then
        (let end_pos = length s - (if ends_with s ''Z'' then 1 else 0) in
         bindR (str_slice s 20 end_pos) (\<lambda>frac_str.
         bindR (str_slice (frac_str @ replicate (9 - char_count frac_str) CHR ''0'') 0 9) (\<lambda>padded.
           Inr (case parse_i64 padded of None \<Rightarrow> 0 | Some v \<Rightarrow> v))))
      else Inr 0)"

definition parse_clock :: "string \<Rightarrow> (u32 \<times> u32 \<times> u32 \<times> i64) result" where
  "parse_clock s =
     (if 10 < length s \<and> s ! 10 = CHR ''T'' then
        (if length s < 19 then Inl (Anyhow ''fn:time:parse_rfc3339: incomplete time'')
         else
           bindR (parse_field parse_u32 s 11 13 ''invalid hour'') (\<lambda>h.
           bindR (parse_field parse_u32 s 14 16 ''invalid minute'') (\<lambda>mi.
           bindR (parse_field parse_u32 s 17 19 ''invalid second'') (\<lambda>sec.
           bindR (parse_frac_nanos s) (\<lambda>frac. Inr (h, mi, sec, frac))))))
      else Inr (0, 0, 0, 0))"

text \<open>Days since the epoch of a date whose fields have not been checked.\<close>

definition days_of_date :: "i64 \<Rightarrow> u32 \<Rightarrow> u32 \<Rightarrow> int" where
  "days_of_date year month day =
     (let y = (if month \<le> 2 then sint year - 1 else sint year);
          era = tdiv (if 0 \<le> y then y else y - 399) 400;
          yoe = (word_of_int (y - era * 400) :: u32);
          m_adj = (if 2 < month then month - 3 else month + 9);
          doy = (153 * m_adj + 2) div 5 + day - 1;
          doe = yoe * 365 + yoe div 4 - yoe div 100 + doy
      in era * 146097 + uint doe - 719468)"

definition parse_rfc3339_to_nanos :: "string \<Rightarrow> i64 result" where
  "parse_rfc3339_to_nanos s =
     (if length s < 10 then Inl (Anyhow ''fn:time:parse_rfc3339: string too short'')
      else
        bindR (parse_field parse_i64 s 0 4 ''invalid year'') (\<lambda>year.
        bindR (parse_field parse_u32 s 5 7 ''invalid month'') (\<lambda>month.
        bindR (parse_field parse_u32 s 8 10 ''invalid day'') (\<lambda>day.
        bindR (parse_clock s) (\<lambda>(hour, minute, second, frac_nanos).
          let days = days_of_date year month day;
              total_seconds = days * 86400 + uint hour * 3600 + uint minute * 60 + uint second
          in Inr (word_of_int total_seconds * 1000000000 + frac_nanos))))))"

subsection \<open>Durations\<close>

definition frac_str :: "nat \<Rightarrow> int \<Rightarrow> string" where
  "frac_str w sub = trim_end_zeros (zpad w sub)"

definition micro_sign :: string where
  "micro_sign = [char_of (194 :: nat), char_of (181 :: nat)]"

definition format_duration_nanos :: "i64 \<Rightarrow> string" where
  "format_duration_nanos nanos =
     (if nanos = 0 then ''0s''
      else
        let sign = (if sint nanos < 0 then ''-'' else ''''); remaining = \<bar>sint nanos\<bar> in
        sign @
        (if 1000000000 \<le> remaining then
           (let hours = remaining div 3600000000000; r1 = remaining mod 3600000000000;
                minutes = r1 div 60000000000; r2 = r1 mod 60000000000;
                seconds = r2 div 1000000000; sub = r2 mod 1000000000
            in (if 0 < hours then show_int hours @ ''h'' else '''')
               @ (if 0 < minutes \<or> 0 < hours then show_int minutes @ ''m'' else '''')
               @ (if sub = 0 then show_int seconds @ ''s''
                  else show_int seconds @ ''.'' @ frac_str 9 sub @ ''s''))
         else if 1000000 \<le> remaining then
           (let ms = remaining div 1000000; sub = remaining mod 1000000
            in if sub = 0 then show_int ms @ ''ms'' else show_int ms @ ''.'' @ frac_str 6 sub @ ''ms'')
         else if 1000 \<le> remaining then
           (let us = remaining div 1000; sub = remaining mod 1000
            in if sub = 0 then show_int us @ micro_sign @ ''s''
               else show_int us @ ''.'' @ frac_str 3 sub @ micro_sign @ ''s'')
         else show_int remaining @ ''ns''))"

text \<open>The unit suffix at the head of a string: its nanoseconds and its length in bytes.\<close>

definition duration_unit :: "string \<Rightarrow> (i64 \<times> nat) option" where
  "duration_unit rest =
     (if starts_with rest ''ns'' then Some (1, 2)
      else if starts_with rest ''us'' \<or> starts_with rest (micro_sign @ ''s'')
        then Some (1000, if starts_with rest micro_sign then 3 else 2)
      else if starts_with rest ''ms'' then Some (1000000, 2)
      else if starts_with rest ''s'' then Some (1000000000, 1)
      else if starts_with rest ''m'' then Some (60000000000, 1)
      else if starts_with rest ''h'' then Some (3600000000000, 1)
      else None)"

text \<open>The loop of \<open>parse_duration_string\<close>.  \<open>frac\<close> stands for the float path
  \<open>(num_str.parse::<f64>()? * unit_nanos as f64) as i64\<close>, \<open>None\<close> when the number does not parse.\<close>

function parse_duration_loop :: "(string \<Rightarrow> i64 \<Rightarrow> i64 option) \<Rightarrow> i64 \<Rightarrow> string \<Rightarrow> i64 result" where
  "parse_duration_loop frac acc rest =
     (if rest = [] then Inr acc
      else
        let num_str = takeWhile (\<lambda>c. is_ascii_digit c \<or> c = CHR ''.'') rest;
            rest' = dropWhile (\<lambda>c. is_ascii_digit c \<or> c = CHR ''.'') rest
        in if num_str = [] then Inl (Anyhow ''fn:duration:parse: expected number'')
           else case duration_unit rest' of
             None \<Rightarrow> Inl (Anyhow ''fn:duration:parse: unknown unit'')
           | Some (unit_nanos, unit_len) \<Rightarrow>
               (case (if CHR ''.'' \<in> set num_str then frac num_str unit_nanos
                      else map_option (\<lambda>v. v * unit_nanos) (parse_i64 num_str)) of
                  None \<Rightarrow> Inl (Anyhow ''fn:duration:parse: invalid number'')
                | Some v \<Rightarrow> parse_duration_loop frac (acc + v) (drop unit_len rest')))"
  by pat_completeness auto
termination
proof (relation "measure (\<lambda>(frac, acc, rest). length rest)", goal_cases)
  case (2 frac acc rest num_str rest' p unit_nanos unit_len v)
  have "length rest' < length rest"
  proof -
    have "length num_str + length rest' = length rest"
      using 2(2,3) by (metis length_append takeWhile_dropWhile_id)
    with 2(4) show ?thesis by (cases num_str) auto
  qed
  then show ?case by simp
qed simp

declare parse_duration_loop.simps [simp del]

definition parse_duration_string :: "(string \<Rightarrow> i64 \<Rightarrow> i64 option) \<Rightarrow> string \<Rightarrow> i64 result" where
  "parse_duration_string frac s =
     (if s = [] then Inl (Anyhow ''fn:duration:parse: empty string'')
      else if s = ''0'' \<or> s = ''0s'' then Inr 0
      else
        let (sign, rest) = (if starts_with s ''-'' then (-1, tl s)
                            else if starts_with s ''+'' then (1, tl s) else (1, s))
        in bindR (parse_duration_loop frac 0 rest) (\<lambda>total_nanos. Inr (sign * total_nanos)))"

subsection \<open>The calendar\<close>

text \<open>Within an era of 400 years (146097 days), \<open>year_start\<close> is the first day of a year and
  \<open>year_of_era\<close> the source's closed form for the year a day belongs to.\<close>

definition year_start :: "int \<Rightarrow> int" where
  "year_start yoe = 365 * yoe + yoe div 4 - yoe div 100"

definition year_end :: "int \<Rightarrow> int" where
  "year_end yoe = (if yoe = 399 then 146096 else year_start (yoe + 1) - 1)"

definition year_of_era :: "int \<Rightarrow> int" where
  "year_of_era doe = (doe - doe div 1460 + doe div 36524 - doe div 146096) div 365"

lemma year_of_era_ends:
  "list_all (\<lambda>y. year_of_era (year_start y) = y \<and> year_of_era (year_end y) = y \<and>
     year_end y - year_start y \<le> 365 \<and> year_start y \<le> year_end y) [0..399]"
  by code_simp

lemma div_int_Suc:
  assumes "0 < k"
  shows "(d + 1) div k = d div k + (if k dvd d + 1 then 1 else (0 :: int))"
proof -
  define q r where "q = d div k" and "r = d mod k"
  have d: "d = k * q + r" and r: "0 \<le> r" "r < k"
    using assms by (auto simp: q_def r_def)
  show ?thesis
  proof (cases "r + 1 = k")
    case True
    then have "d + 1 = k * (q + 1)"
      by (simp add: d algebra_simps)
    then show ?thesis
      using assms q_def by simp
  next
    case False
    then have "(d + 1) div k = q" "(d + 1) mod k = r + 1"
      using d r by (auto simp: int_div_pos_eq [of _ _ q "r + 1"] int_mod_pos_eq [of _ _ q "r + 1"])
    then show ?thesis
      using r q_def by (auto simp: dvd_eq_mod_eq_0)
  qed
qed

lemma year_of_era_mono_Suc: "year_of_era d \<le> year_of_era (d + 1)"
proof -
  have "36524 dvd d + 1" if "146096 dvd d + 1"
    using that by (rule dvd_trans [rotated]) simp
  then show ?thesis
    unfolding year_of_era_def by (intro zdiv_mono1) (auto simp: div_int_Suc)
qed

lemma year_of_era_mono: "d \<le> e \<Longrightarrow> year_of_era d \<le> year_of_era e"
  by (induction e rule: int_ge_induct) (use year_of_era_mono_Suc order_trans in blast)+

lemma year_facts:
  assumes "0 \<le> y" "y \<le> 399"
  shows "year_of_era (year_start y) = y" "year_of_era (year_end y) = y"
    "year_end y - year_start y \<le> 365" "year_start y \<le> year_end y"
  using year_of_era_ends assms unfolding list_all_iff by auto

lemma year_exists:
  assumes "0 \<le> doe" "doe \<le> 146096"
  shows "\<exists>y. 0 \<le> y \<and> y \<le> 399 \<and> year_start y \<le> doe \<and> doe \<le> year_end y"
proof -
  let ?Y = "{y. 0 \<le> y \<and> y \<le> 399 \<and> year_start y \<le> doe}"
  have fin: "finite ?Y"
    by (rule finite_subset [of _ "{0..399}"]) auto
  have "0 \<in> ?Y"
    using assms by (simp add: year_start_def)
  then have "Max ?Y \<in> ?Y"
    using fin by (intro Max_in) blast+
  moreover have "doe \<le> year_end (Max ?Y)"
  proof (rule ccontr)
    assume "\<not> doe \<le> year_end (Max ?Y)"
    then have "Max ?Y + 1 \<in> ?Y"
      using calculation assms by (auto simp: year_end_def split: if_splits)
    then have "Max ?Y + 1 \<le> Max ?Y"
      using fin by (rule Max_ge [rotated])
    then show False by simp
  qed
  ultimately show ?thesis by blast
qed

lemma year_of_era_correct:
  assumes "0 \<le> doe" "doe \<le> 146096"
  shows "0 \<le> year_of_era doe" "year_of_era doe \<le> 399"
    "year_start (year_of_era doe) \<le> doe" "doe \<le> year_start (year_of_era doe) + 365"
proof -
  obtain y where y: "0 \<le> y" "y \<le> 399" "year_start y \<le> doe" "doe \<le> year_end y"
    using year_exists [OF assms] by blast
  have "year_of_era doe = y"
    using year_of_era_mono [OF y(3)] year_of_era_mono [OF y(4)] year_facts [OF y(1,2)] by simp
  then show "0 \<le> year_of_era doe" "year_of_era doe \<le> 399"
    "year_start (year_of_era doe) \<le> doe" "doe \<le> year_start (year_of_era doe) + 365"
    using y year_facts(3) [OF y(1,2)] by simp_all
qed

lemma month_facts:
  assumes "0 \<le> doy" "doy \<le> (365 :: int)"
  defines "mp \<equiv> (5 * doy + 2) div 153"
  shows "0 \<le> mp" "mp \<le> 11" "1 \<le> doy - (153 * mp + 2) div 5 + 1" "doy - (153 * mp + 2) div 5 + 1 \<le> 31"
proof -
  show mp: "0 \<le> mp" "mp \<le> 11"
    using assms by auto
  define q where "q = (153 * mp + 2) div 5"
  have q: "5 * q \<le> 153 * mp + 2" "153 * mp + 2 < 5 * q + 5"
    unfolding q_def by simp_all
  have "153 * mp \<le> 5 * doy + 2" "5 * doy + 2 < 153 * mp + 153"
    unfolding mp_def by simp_all
  then have "q \<le> doy" "doy \<le> q + 30"
    using q by linarith+
  then show "1 \<le> doy - (153 * mp + 2) div 5 + 1" "doy - (153 * mp + 2) div 5 + 1 \<le> 31"
    unfolding q_def by simp_all
qed

lemma uint_u32: "0 \<le> x \<Longrightarrow> x < 2 ^ 32 \<Longrightarrow> uint (word_of_int x :: u32) = x"
  by (simp add: uint_word_of_int take_bit_int_eq_self)

lemma u32_div: "0 \<le> x \<Longrightarrow> x < 2 ^ 32 \<Longrightarrow> 0 < b \<Longrightarrow> b < 2 ^ 32 \<Longrightarrow>
    (word_of_int x :: u32) div word_of_int b = word_of_int (x div b)"
  by (simp add: word_div_def uint_u32)

lemma civil_from_days_eq:
  fixes days :: int
  defines "z \<equiv> days + 719468"
  defines "yoe \<equiv> year_of_era (z mod 146097)"
  defines "doy \<equiv> z mod 146097 - year_start yoe"
  defines "mp \<equiv> (5 * doy + 2) div 153"
  shows "civil_from_days days =
      (yoe + z div 146097 * 400 + (if mp < 10 then 0 else 1),
       if mp < 10 then mp + 3 else mp - 9, doy - (153 * mp + 2) div 5 + 1)"
    and "0 \<le> yoe" "yoe \<le> 399" "0 \<le> doy" "doy \<le> 365" "0 \<le> mp" "mp \<le> 11"
proof -
  have era: "tdiv (if 0 \<le> z then z else z - 146096) 146097 = z div 146097"
    using tdiv_floor_neg [of z 146097] by simp
  have "z - z div 146097 * 146097 = z mod 146097"
    by (simp add: minus_div_mult_eq_mod)
  then have doe: "(z - z div 146097 * 146097) mod 2 ^ 32 = z mod 146097"
    using pos_mod_bound [of 146097 z] pos_mod_sign [of 146097 z] by (simp add: mod_pos_pos_trivial)
  have b: "0 \<le> z mod 146097" "z mod 146097 \<le> 146096"
    using pos_mod_bound [of 146097 z] by simp_all
  show ye: "0 \<le> yoe" "yoe \<le> 399" and dy: "0 \<le> doy" "doy \<le> 365"
    using year_of_era_correct [OF b] by (simp_all add: yoe_def doy_def)
  then show mp: "0 \<le> mp" "mp \<le> 11"
    unfolding mp_def using month_facts by blast+
  have "civil_from_days days = (let y = yoe + z div 146097 * 400;
      m = (if mp < 10 then mp + 3 else mp - 9)
      in (if m \<le> 2 then y + 1 else y, m, doy - (153 * mp + 2) div 5 + 1))"
    unfolding civil_from_days_def Let_def z_def [symmetric] era doe
    by (simp add: year_of_era_def [symmetric] year_start_def [symmetric] yoe_def [symmetric]
        doy_def [symmetric] mp_def [symmetric])
  then show "civil_from_days days =
      (yoe + z div 146097 * 400 + (if mp < 10 then 0 else 1),
       if mp < 10 then mp + 3 else mp - 9, doy - (153 * mp + 2) div 5 + 1)"
    using mp by (simp add: Let_def)
qed

lemma civil_from_days_cases:
  obtains yoe doy mp where
    "civil_from_days days =
      (yoe + (days + 719468) div 146097 * 400 + (if mp < 10 then 0 else 1),
       if mp < 10 then mp + 3 else mp - 9, doy - (153 * mp + 2) div 5 + 1)"
    "0 \<le> yoe" "yoe \<le> 399" "0 \<le> doy" "doy \<le> 365" "0 \<le> mp" "mp \<le> 11"
    "(days + 719468) mod 146097 = year_start yoe + doy"
    "1 \<le> doy - (153 * mp + 2) div 5 + 1" "doy - (153 * mp + 2) div 5 + 1 \<le> 31"
proof -
  note eq = civil_from_days_eq [of days]
  show thesis
    by (rule that [OF eq]) (simp, (rule month_facts(3,4) [OF eq(4,5)])+)
qed

text \<open>The fields of a civil date are in range for every day count.\<close>

lemma civil_bounds:
  assumes "civil_from_days days = (y, m, d)"
  shows "1 \<le> m" "m \<le> 12" "1 \<le> d" "d \<le> 31"
    "(days + 719468) div 146097 * 400 \<le> y" "y \<le> (days + 719468) div 146097 * 400 + 400"
  by (rule civil_from_days_cases [of days]; use assms in \<open>simp split: if_splits\<close>)+

text \<open>Recomputing the day count from the civil date gives back the day count.\<close>

lemma u32_le: "0 \<le> x \<Longrightarrow> x < 2 ^ 32 \<Longrightarrow> 0 \<le> y \<Longrightarrow> y < 2 ^ 32 \<Longrightarrow>
    (word_of_int x :: u32) \<le> word_of_int y \<longleftrightarrow> x \<le> y"
  by (simp add: word_le_def uint_u32)

lemma days_of_civil:
  assumes civil: "civil_from_days days = (y, m, d)" and y: "in_i64 y"
  shows "days_of_date (word_of_int y) (word_of_int m) (word_of_int d) = days"
proof (rule civil_from_days_cases [of days])
  fix yoe doy mp
  let ?era = "(days + 719468) div 146097"
  assume eq: "civil_from_days days =
      (yoe + ?era * 400 + (if mp < 10 then 0 else 1), if mp < 10 then mp + 3 else mp - 9,
       doy - (153 * mp + 2) div 5 + 1)"
    and b: "0 \<le> yoe" "yoe \<le> 399" "0 \<le> doy" "doy \<le> 365" "0 \<le> mp" "mp \<le> 11"
    and doe: "(days + 719468) mod 146097 = year_start yoe + doy"
    and d: "1 \<le> doy - (153 * mp + 2) div 5 + 1" "doy - (153 * mp + 2) div 5 + 1 \<le> 31"
  define q where "q = (153 * mp + 2) div 5"
  have fields: "y = yoe + ?era * 400 + (if mp < 10 then 0 else 1)"
    "m = (if mp < 10 then mp + 3 else mp - 9)" "d = doy - q + 1"
    using civil eq by (simp_all add: q_def)
  have m: "(word_of_int m :: u32) \<le> 2 \<longleftrightarrow> \<not> mp < 10"
    using u32_le [of m 2] b fields(2) by (simp split: if_splits)
  have y': "(if (word_of_int m :: u32) \<le> 2 then sint (word_of_int y :: i64) - 1
      else sint (word_of_int y :: i64)) = yoe + ?era * 400"
    unfolding sint_word_of_int_i64 [OF y] using m fields(1) by simp
  have era: "tdiv (if 0 \<le> yoe + e * 400 then yoe + e * 400 else yoe + e * 400 - 399) 400 = e" for e
    using tdiv_floor_neg [of "yoe + e * 400" 400] b by simp
  have madj: "(if 2 < (word_of_int m :: u32) then word_of_int m - 3 else word_of_int m + 9) =
      (word_of_int mp :: u32)"
    using m fields(2) by (simp add: not_le [symmetric] flip: wi_hom_syms)
  have "(153 * word_of_int mp + 2) div 5 = (word_of_int q :: u32)"
    using u32_div [of "153 * mp + 2" 5] b by (simp add: q_def wi_hom_syms)
  then have doy: "(153 * word_of_int mp + 2) div 5 + word_of_int d - 1 = (word_of_int doy :: u32)"
    using fields(3) by (simp add: wi_hom_syms)
  have divs: "(word_of_int yoe :: u32) div 4 = word_of_int (yoe div 4)"
    "(word_of_int yoe :: u32) div 100 = word_of_int (yoe div 100)"
    using u32_div [of yoe 4] u32_div [of yoe 100] b by simp_all
  have doe': "word_of_int yoe * 365 + word_of_int yoe div 4 - word_of_int yoe div 100 + word_of_int doy
      = (word_of_int (year_start yoe + doy) :: u32)"
    unfolding divs year_start_def by (simp add: wi_hom_syms algebra_simps)
  have u: "uint (word_of_int (year_start yoe + doy) :: u32) = year_start yoe + doy"
    by (rule uint_u32) (use doe pos_mod_bound [of 146097 "days + 719468"] pos_mod_sign [of 146097 "days + 719468"] in simp_all)
  have "days_of_date (word_of_int y) (word_of_int m) (word_of_int d) =
      ?era * 146097 + (year_start yoe + doy) - 719468"
    unfolding days_of_date_def Let_def y' era madj doy add_diff_cancel_right' doe' u ..
  also have "\<dots> = days"
    using doe div_mult_mod_eq [of "days + 719468" 146097] by simp
  finally show ?thesis .
qed

subsection \<open>Printing and reading back a time\<close>

definition is_ascii :: "string \<Rightarrow> bool" where
  "is_ascii s = list_all (\<lambda>c. (of_char c :: nat) < 128) s"

lemma is_ascii_append [simp]: "is_ascii (s @ t) \<longleftrightarrow> is_ascii s \<and> is_ascii t"
  by (simp add: is_ascii_def)

lemma is_ascii_simps [simp]:
  "is_ascii []"
  "is_ascii (c # s) \<longleftrightarrow> (of_char c :: nat) < 128 \<and> is_ascii s"
  by (simp_all add: is_ascii_def)

lemma is_ascii_digits: "all_digits s \<Longrightarrow> is_ascii s"
  by (auto simp: all_digits_def is_ascii_def list_all_iff is_ascii_digit_def)

lemma is_ascii_cont: "is_ascii s \<Longrightarrow> i < length s \<Longrightarrow> \<not> is_cont_byte (s ! i)"
  by (auto simp: is_ascii_def is_cont_byte_def list_all_length not_le)

lemma char_count_ascii: "is_ascii s \<Longrightarrow> char_count s = length s"
  unfolding char_count_def is_ascii_def list_all_iff is_cont_byte_def
  by (rule arg_cong [where f = length], rule filter_True) auto

lemma str_slice_mid:
  assumes "is_ascii (a @ f @ b)" "i = length a" "j = length a + length f"
  shows "str_slice (a @ f @ b) i j = Inr f"
  using assms(2,3) is_ascii_cont [OF assms(1), of i] is_ascii_cont [OF assms(1), of j]
  by (auto simp: str_slice_def is_char_boundary_def)

lemma all_digits_hd: "all_digits (c # cs) \<Longrightarrow> c \<noteq> CHR ''-'' \<and> c \<noteq> CHR ''+''"
  by (auto simp: all_digits_def)

lemma parse_i64_digits:
  assumes "all_digits s" "in_i64 (int (digits_val s))"
  shows "parse_i64 s = Some (of_nat (digits_val s))"
  using assms all_digits_hd by (cases s) (auto simp: parse_i64_def Let_def)

lemma parse_u32_digits:
  assumes "all_digits s" "digits_val s < 2 ^ 32"
  shows "parse_u32 s = Some (of_nat (digits_val s))"
  using assms all_digits_hd by (cases s) (auto simp: parse_u32_def Let_def)

lemma parse_zpad:
  assumes "0 \<le> i" "i < 10 ^ w" "0 < w" "w \<le> 9"
  shows "parse_u32 (zpad w i) = Some (word_of_int i)" "parse_i64 (zpad w i) = Some (word_of_int i)"
proof -
  note z = zpad_field [OF assms(1,2,3)]
  have "(10 :: int) ^ w \<le> 10 ^ 9"
    using assms(4) by (intro power_increasing) auto
  then have i: "i < 10 ^ 9"
    using assms(2) by linarith
  then have "digits_val (zpad w i) < 2 ^ 32" "in_i64 (int (digits_val (zpad w i)))"
    using assms(1) z(3) by (auto simp: in_i64_def)
  then show "parse_u32 (zpad w i) = Some (word_of_int i)" "parse_i64 (zpad w i) = Some (word_of_int i)"
    using parse_u32_digits [OF z(2)] parse_i64_digits [OF z(2)] assms(1) z(3) by simp_all
qed

lemma trim_end_zeros_pad:
  "trim_end_zeros s @ replicate (length s - length (trim_end_zeros s)) CHR ''0'' = s"
proof (induction s rule: rev_induct)
  case (snoc c s)
  have le: "length (trim_end_zeros s) \<le> length s"
    unfolding trim_end_zeros_def by (metis length_dropWhile_le length_rev)
  show ?case
  proof (cases "c = CHR ''0''")
    case True
    then have trim: "trim_end_zeros (s @ [c]) = trim_end_zeros s"
      by (simp add: trim_end_zeros_def)
    have "replicate (length (s @ [c]) - length (trim_end_zeros s)) CHR ''0'' =
        replicate (length s - length (trim_end_zeros s)) CHR ''0'' @ [c]"
      using le True by (simp add: Suc_diff_le replicate_append_same)
    then show ?thesis
      unfolding trim by (metis append_assoc snoc)
  qed (simp add: trim_end_zeros_def)
qed (simp add: trim_end_zeros_def)

lemma is_ascii_trim: "is_ascii s \<Longrightarrow> is_ascii (trim_end_zeros s)"
  by (metis is_ascii_append trim_end_zeros_pad)

text \<open>A printed time, as the concatenation of its fields.\<close>

definition time_text :: "int \<Rightarrow> int \<Rightarrow> int \<Rightarrow> int \<Rightarrow> int \<Rightarrow> int \<Rightarrow> string \<Rightarrow> string" where
  "time_text y m d h mi sec tail =
     zpad 4 y @ ''-'' @ zpad 2 m @ ''-'' @ zpad 2 d @ ''T'' @ zpad 2 h @ colon @ zpad 2 mi
       @ colon @ zpad 2 sec @ tail"

lemma parse_field_mid:
  assumes "s = a @ f @ b" "is_ascii s" "i = length a" "j = length a + length f" "p f = Some v"
  shows "parse_field p s i j msg = Inr v"
  unfolding parse_field_def assms(1) using assms by (subst str_slice_mid) auto

lemma frac_roundtrip:
  assumes "length p = 19" "is_ascii p" "0 \<le> ns" "ns < 1000000000"
  shows "parse_frac_nanos (p @ ''Z'') = Inr 0"
    and "parse_frac_nanos (p @ ''.'' @ trim_end_zeros (zpad 9 ns) @ ''Z'') = Inr (word_of_int ns)"
proof -
  show "parse_frac_nanos (p @ ''Z'') = Inr 0"
    using assms by (simp add: parse_frac_nanos_def nth_append)
  let ?f = "trim_end_zeros (zpad 9 ns)" and ?s = "p @ ''.'' @ trim_end_zeros (zpad 9 ns) @ ''Z''"
  note z = zpad_field [of ns 9]
  have f: "is_ascii ?f"
    using assms z by (intro is_ascii_trim is_ascii_digits) simp
  have "ends_with ?s ''Z''"
    unfolding ends_with_iff by (rule exI [of _ "p @ ''.'' @ ?f"]) simp
  moreover have "str_slice ((p @ ''.'') @ ?f @ ''Z'') 20 (length ?s - 1) = Inr ?f"
    by (rule str_slice_mid) (use assms f in \<open>simp_all add: is_ascii_def\<close>)
  moreover have pad: "?f @ replicate (9 - char_count ?f) CHR ''0'' = zpad 9 ns"
    using trim_end_zeros_pad [of "zpad 9 ns"] z assms by (simp add: char_count_ascii [OF f])
  moreover have "str_slice ([] @ zpad 9 ns @ []) 0 9 = Inr (zpad 9 ns)"
    by (rule str_slice_mid) (use assms z in \<open>auto intro: is_ascii_digits\<close>)
  ultimately show "parse_frac_nanos ?s = Inr (word_of_int ns)"
    using assms parse_zpad(2) [of ns 9] by (simp add: parse_frac_nanos_def nth_append)
qed

lemma parse_time_text:
  assumes y: "0 \<le> y" "y < 10000" and m: "0 \<le> m" "m < 100" and d: "0 \<le> d" "d < 100"
    and h: "0 \<le> h" "h < 100" and mi: "0 \<le> mi" "mi < 100" and sec: "0 \<le> sec" "sec < 100"
    and tail: "is_ascii tail"
    and frac: "parse_frac_nanos (time_text y m d h mi sec tail) = Inr fr"
  shows "parse_rfc3339_to_nanos (time_text y m d h mi sec tail) =
    Inr (word_of_int (days_of_date (word_of_int y) (word_of_int m) (word_of_int d) * 86400
           + h * 3600 + mi * 60 + sec) * 1000000000 + fr)"
proof -
  let ?s = "time_text y m d h mi sec tail"
  have len: "length (zpad 4 y) = 4" "length (zpad 2 m) = 2" "length (zpad 2 d) = 2"
    "length (zpad 2 h) = 2" "length (zpad 2 mi) = 2" "length (zpad 2 sec) = 2"
    by (rule zpad_field(1); use assms in simp)+
  have asc: "is_ascii (zpad 4 y)" "is_ascii (zpad 2 m)" "is_ascii (zpad 2 d)"
    "is_ascii (zpad 2 h)" "is_ascii (zpad 2 mi)" "is_ascii (zpad 2 sec)"
    by (rule is_ascii_digits, rule zpad_field(2); use assms in simp)+
  then have s: "is_ascii ?s"
    using tail by (simp add: time_text_def colon_def is_ascii_def)
  have long: "19 \<le> length ?s" and T: "?s ! 10 = CHR ''T''"
    using len by (simp_all add: time_text_def colon_def nth_append)
  have 1: "parse_field parse_i64 ?s 0 4 msg = Inr (word_of_int y)" for msg
    by (rule parse_field_mid [OF _ s, where a = "[]" and f = "zpad 4 y"])
       (use len in \<open>simp add: time_text_def\<close>, (use len parse_zpad [of y 4] y in simp)+)
  have 2: "parse_field parse_u32 ?s 5 7 msg = Inr (word_of_int m)" for msg
    by (rule parse_field_mid [OF _ s, where a = "zpad 4 y @ ''-''" and f = "zpad 2 m"])
       (use len in \<open>simp add: time_text_def\<close>, (use len parse_zpad [of m 2] m in simp)+)
  have 3: "parse_field parse_u32 ?s 8 10 msg = Inr (word_of_int d)" for msg
    by (rule parse_field_mid [OF _ s, where a = "zpad 4 y @ ''-'' @ zpad 2 m @ ''-''" and f = "zpad 2 d"])
       (use len in \<open>simp add: time_text_def\<close>, (use len parse_zpad [of d 2] d in simp)+)
  have 4: "parse_field parse_u32 ?s 11 13 msg = Inr (word_of_int h)" for msg
    by (rule parse_field_mid [OF _ s, where
          a = "zpad 4 y @ ''-'' @ zpad 2 m @ ''-'' @ zpad 2 d @ ''T''" and f = "zpad 2 h"])
       (use len in \<open>simp add: time_text_def\<close>, (use len parse_zpad [of h 2] h in simp)+)
  have 5: "parse_field parse_u32 ?s 14 16 msg = Inr (word_of_int mi)" for msg
    by (rule parse_field_mid [OF _ s, where
          a = "zpad 4 y @ ''-'' @ zpad 2 m @ ''-'' @ zpad 2 d @ ''T'' @ zpad 2 h @ colon"
          and f = "zpad 2 mi"])
       (use len in \<open>simp add: time_text_def\<close>, (use len parse_zpad [of mi 2] mi in \<open>simp add: colon_def\<close>)+)
  have 6: "parse_field parse_u32 ?s 17 19 msg = Inr (word_of_int sec)" for msg
    by (rule parse_field_mid [OF _ s, where
          a = "zpad 4 y @ ''-'' @ zpad 2 m @ ''-'' @ zpad 2 d @ ''T'' @ zpad 2 h @ colon
            @ zpad 2 mi @ colon" and f = "zpad 2 sec"])
       (use len in \<open>simp add: time_text_def\<close>, (use len parse_zpad [of sec 2] sec in \<open>simp add: colon_def\<close>)+)
  have "parse_clock ?s = Inr (word_of_int h, word_of_int mi, word_of_int sec, fr)"
    using long by (simp add: parse_clock_def T 4 5 6 frac)
  then show ?thesis
    using long h mi sec
    by (simp add: parse_rfc3339_to_nanos_def 1 2 3 uint_u32 Let_def del: of_int_add of_int_mult)
qed

text \<open>Every \<open>i64\<close> of nanoseconds is in the years 1677 to 2262, so its date fits the four-digit year.\<close>

lemma nanos_year:
  fixes t :: i64
  assumes "civil_from_days (sint t div 1000000000 div 86400) = (y, m, d)"
  shows "0 \<le> y" "y < 10000"
proof -
  have "- (2 ^ 63) \<le> sint t" "sint t < 2 ^ 63"
    using sint_in_i64 [of t] unfolding in_i64_def by blast+
  then have "4 \<le> (sint t div 1000000000 div 86400 + 719468) div 146097"
    "(sint t div 1000000000 div 86400 + 719468) div 146097 \<le> 5"
    by simp_all
  then show "0 \<le> y" "y < 10000"
    using civil_bounds(5,6) [OF assms] by linarith+
qed

lemma format_time_nanos_text:
  fixes t :: i64
  defines "secs \<equiv> sint t div 1000000000" and "ns \<equiv> sint t mod 1000000000"
  assumes "civil_from_days (secs div 86400) = (y, m, d)"
  shows "format_time_nanos t = time_text y m d (secs mod 86400 div 3600)
    (secs mod 86400 mod 3600 div 60) (secs mod 86400 mod 60)
    (if ns = 0 then ''Z'' else ''.'' @ trim_end_zeros (zpad 9 ns) @ ''Z'')"
  using assms by (simp add: format_time_nanos_def time_text_def date_str_def clock_str_def Let_def)

lemma time_roundtrip: "parse_rfc3339_to_nanos (format_time_nanos t) = Inr t"
proof -
  define secs ns where "secs = sint t div 1000000000" and "ns = sint t mod 1000000000"
  obtain y m d where civil: "civil_from_days (secs div 86400) = (y, m, d)"
    by (metis prod_cases3)
  note yb = nanos_year [of t y m d, folded secs_def, OF civil]
  note b = civil_bounds [OF civil]
  define h mi sec where "h = secs mod 86400 div 3600" and "mi = secs mod 86400 mod 3600 div 60"
    and "sec = secs mod 86400 mod 60"
  have clock: "0 \<le> h" "h < 100" "0 \<le> mi" "mi < 100" "0 \<le> sec" "sec < 100"
    unfolding h_def mi_def sec_def by simp_all
  have ns: "0 \<le> ns" "ns < 1000000000"
    by (simp_all add: ns_def)
  let ?tail = "if ns = 0 then ''Z'' else ''.'' @ trim_end_zeros (zpad 9 ns) @ ''Z''"
  have shape: "format_time_nanos t = time_text y m d h mi sec ?tail"
    using format_time_nanos_text [of t y m d] civil
    unfolding secs_def ns_def h_def mi_def sec_def by simp
  have pre: "time_text y m d h mi sec u = time_text y m d h mi sec [] @ u" for u
    by (simp add: time_text_def)
  have asc: "is_ascii (time_text y m d h mi sec [])" and len: "length (time_text y m d h mi sec []) = 19"
    using yb b clock
    by (simp_all add: time_text_def colon_def zpad_field is_ascii_digits)
  have tail: "is_ascii ?tail"
    using ns by (simp add: is_ascii_trim is_ascii_digits zpad_field)
  have frac: "parse_frac_nanos (time_text y m d h mi sec ?tail) = Inr (word_of_int ns)"
    unfolding pre [of ?tail] using frac_roundtrip [OF len asc ns] by simp
  have "parse_rfc3339_to_nanos (format_time_nanos t) =
      Inr (word_of_int (secs div 86400 * 86400 + h * 3600 + mi * 60 + sec) * 1000000000 + word_of_int ns)"
    unfolding shape using yb b clock
    by (subst parse_time_text [OF _ _ _ _ _ _ _ _ _ _ _ _ tail frac])
       (simp_all add: days_of_civil [OF civil] in_i64_def)
  also have "secs div 86400 * 86400 + h * 3600 + mi * 60 + sec = secs"
  proof -
    have "secs mod 86400 mod 60 = secs mod 86400 mod 3600 mod 60"
      by (simp add: mod_mod_cancel)
    then have "h * 3600 + mi * 60 + sec = secs mod 86400"
      using div_mult_mod_eq [of "secs mod 86400" 3600] div_mult_mod_eq [of "secs mod 86400 mod 3600" 60]
      unfolding h_def mi_def sec_def by linarith
    then show ?thesis
      using div_mult_mod_eq [of secs 86400] by linarith
  qed
  also have "word_of_int secs * 1000000000 + word_of_int ns = (word_of_int (secs * 1000000000 + ns) :: i64)"
    by simp
  also have "secs * 1000000000 + ns = sint t"
    by (simp add: secs_def ns_def)
  finally show ?thesis by simp
qed

text \<open>The cast of the year changes no time, and the nanosecond precision of \<open>fn:time:format\<close> is the
  display format.\<close>

lemma civil_of_nanos:
  fixes t :: i64
  shows "civil_from_epoch_secs (sint t div 1000000000) = civil_from_days (sint t div 1000000000 div 86400)"
proof -
  obtain y m d where c: "civil_from_days (sint t div 1000000000 div 86400) = (y, m, d)"
    by (cases "civil_from_days (sint t div 1000000000 div 86400)")
  have "signed_take_bit 31 y = y"
    using nanos_year [OF c] by (intro signed_take_bit_int_eq_self) simp_all
  then show ?thesis
    by (simp add: civil_from_epoch_secs_def c)
qed

lemma format_time_nanosecond: "format_time_with_precision t ''/nanosecond'' = Inr (format_time_nanos t)"
  by (simp add: format_time_with_precision_def format_time_nanos_def civil_of_nanos Let_def split: prod.splits)

subsection \<open>Properties\<close>

text \<open>C17: Printing a time and parsing it back is the identity, for every \<open>i64\<close> of nanoseconds:
  \<open>parse_rfc3339_to_nanos(format_time_nanos(t)) = t\<close>, fractional seconds and times before 1970
  included.\<close>

theorem time_display_roundtrip: "parse_rfc3339_to_nanos (format_time_nanos t) = Inr t"
  by (rule time_roundtrip)

text \<open>The date computed from a number of days is a date of the calendar (month 1 to 12, day 1 to
  31), and the inverse computation of the parser maps it back to the same day, as long as the year
  fits an \<open>i64\<close>.\<close>

theorem civil_days_inverse:
  assumes "civil_from_days days = (y, m, d)" "in_i64 y"
  shows "1 \<le> m \<and> m \<le> 12 \<and> 1 \<le> d \<and> d \<le> 31 \<and>
    days_of_date (word_of_int y) (word_of_int m) (word_of_int d) = days"
  using civil_bounds [OF assms(1)] days_of_civil [OF assms] by simp

theorem civil_days_inverse_witness:
  "days_of_date (word_of_int 2000) (word_of_int 2) (word_of_int 29) = 11016"
proof -
  have "civil_from_days 11016 = (2000, 2, 29)" "in_i64 2000"
    by code_simp+
  from civil_days_inverse [OF this] show ?thesis by blast
qed

end
