(* ===== verification/Builtins.thy ===== *)
theory Builtins
  imports Rust_Strings Civil_Time
begin

text \<open>
  The built-in functions of the interpreter (\<open>eval_function\<close> and its helpers) and its built-in
  predicates (\<open>eval_builtin_predicate\<close>), one definition per arm of the source's \<open>match\<close>, composed by
  the same dispatch on the function name.  Arithmetic on \<open>i64\<close> wraps; \<open>/\<close> panics on the one quotient
  that does not fit.  What the arms take from the platform is the record \<open>platform\<close>: arithmetic,
  parsing and printing of \<open>f64\<close>, the escaping of \<open>{:?}\<close> on strings, and the clock.
\<close>

subsection \<open>The platform\<close>

record platform =
  f_add :: "f64 \<Rightarrow> f64 \<Rightarrow> f64"
  f_sub :: "f64 \<Rightarrow> f64 \<Rightarrow> f64"
  f_mul :: "f64 \<Rightarrow> f64 \<Rightarrow> f64"
  f_div :: "f64 \<Rightarrow> f64 \<Rightarrow> f64"
  f_sqrt :: "f64 \<Rightarrow> f64"
  f_max :: "f64 \<Rightarrow> f64 \<Rightarrow> f64"
  f_min :: "f64 \<Rightarrow> f64 \<Rightarrow> f64"
  f_display :: "f64 \<Rightarrow> string"
  f_scaled :: "string \<Rightarrow> i64 \<Rightarrow> i64 option"
  str_debug :: "string \<Rightarrow> string"
  now_nanos :: "i64 result"

definition f_neg :: "f64 \<Rightarrow> f64" where
  "f_neg x = xor x (push_bit 63 1)"

definition f_is_zero :: "f64 \<Rightarrow> bool" where
  "f_is_zero x = (x = 0 \<or> x = push_bit 63 1)"

definition f_one :: f64 where
  "f_one = 0x3FF0000000000000"

subsection \<open>Display of values\<close>

fun chunks2 :: "'a list \<Rightarrow> ('a \<times> 'a) list" where
  "chunks2 (a # b # xs) = (a, b) # chunks2 xs"
| "chunks2 _ = []"

fun join_comma :: "string list \<Rightarrow> string" where
  "join_comma [] = []"
| "join_comma [s] = s"
| "join_comma (s # ss) = s @ '', '' @ join_comma ss"

fun chunks_exact2 :: "string list \<Rightarrow> string list" where
  "chunks_exact2 (a # b # xs) = (a @ '': '' @ b) # chunks_exact2 xs"
| "chunks_exact2 _ = []"

fun value_display :: "platform \<Rightarrow> mvalue \<Rightarrow> string" where
  "value_display P (Number n) = show_int (sint n)"
| "value_display P (Float f) = f_display P f"
| "value_display P (Str s) = str_debug P s"
| "value_display P (Name s) = s"
| "value_display P (Time t) = format_time_nanos t"
| "value_display P (Duration d) = format_duration_nanos d"
| "value_display P (Compound KMap es) =
     ''['' @ join_comma (chunks_exact2 (map (value_display P) es)) @ '']''"
| "value_display P (Compound KStruct es) =
     ''{'' @ join_comma (chunks_exact2 (map (value_display P) es)) @ ''}''"
| "value_display P (Compound k es) = ''['' @ join_comma (map (value_display P) es) @ '']''"
| "value_display P Null = ''null''"

definition value_as_float :: "mvalue \<Rightarrow> f64 result" where
  "value_as_float v =
     (case v of Float f \<Rightarrow> Inr f | Number n \<Rightarrow> Inr (i64_to_f64 n)
      | _ \<Rightarrow> Inl (Anyhow ''expected numeric value''))"

definition value_to_string :: "platform \<Rightarrow> mvalue \<Rightarrow> string" where
  "value_to_string P v = (case v of Str s \<Rightarrow> s | _ \<Rightarrow> value_display P v)"

subsection \<open>Integer arithmetic\<close>

fun fold_ints :: "string \<Rightarrow> (i64 \<Rightarrow> i64 \<Rightarrow> i64) \<Rightarrow> i64 \<Rightarrow> mvalue list \<Rightarrow> i64 result" where
  "fold_ints msg f acc [] = Inr acc"
| "fold_ints msg f acc (v # vs) =
     (case v of Number n \<Rightarrow> fold_ints msg f (f acc n) vs | _ \<Rightarrow> Inl (Anyhow msg))"

definition fn_plus :: "mvalue list \<Rightarrow> mvalue result" where
  "fn_plus vals =
     bindR (fold_ints ''fn:plus: expected integer'' (+) 0 vals) (\<lambda>s. Inr (Number s))"

definition fn_minus :: "mvalue list \<Rightarrow> mvalue result" where
  "fn_minus vals =
     (case vals of
        [] \<Rightarrow> Inl (Anyhow ''fn:minus: requires at least 1 argument'')
      | Number first # rest \<Rightarrow>
          (if rest = [] then Inr (Number (- first))
           else bindR (fold_ints ''fn:minus: expected integer'' (-) first rest) (\<lambda>r. Inr (Number r)))
      | _ \<Rightarrow> Inl (Anyhow ''fn:minus: expected integer''))"

definition fn_mult :: "mvalue list \<Rightarrow> mvalue result" where
  "fn_mult vals =
     bindR (fold_ints ''fn:mult: expected integer'' (*) 1 vals) (\<lambda>p. Inr (Number p))"

text \<open>\<open>a / b\<close> on \<open>i64\<close>, for \<open>b\<close> not zero: \<open>i64::MIN / -1\<close> panics in every profile.\<close>

definition i64_div :: "i64 \<Rightarrow> i64 \<Rightarrow> i64 result" where
  "i64_div a b =
     (if sint a = - (2 ^ 63) \<and> sint b = -1 then Inl Panic
      else Inr (word_of_int (tdiv (sint a) (sint b))))"

fun div_loop :: "i64 \<Rightarrow> mvalue list \<Rightarrow> mvalue result" where
  "div_loop acc [] = Inr (Number acc)"
| "div_loop acc (v # vs) =
     (case v of
        Number n \<Rightarrow>
          (if n = 0 then Inl (Anyhow ''Division by zero in fn:div'')
           else bindR (i64_div acc n) (\<lambda>q. if q = 0 then Inr (Number 0) else div_loop q vs))
      | _ \<Rightarrow> Inl (Anyhow ''fn:div: expected integer''))"

definition fn_div :: "mvalue list \<Rightarrow> mvalue result" where
  "fn_div vals =
     (case vals of
        [] \<Rightarrow> Inl (Anyhow ''fn:div: requires at least 1 argument'')
      | Number first # rest \<Rightarrow>
          (if rest = [] then
             (if first = 0 then Inl (Anyhow ''Division by zero in fn:div'')
              else bindR (i64_div 1 first) (\<lambda>q. Inr (Number q)))
           else div_loop first rest)
      | _ \<Rightarrow> Inl (Anyhow ''fn:div: expected integer''))"

subsection \<open>Float arithmetic\<close>

fun fold_floats :: "(f64 \<Rightarrow> f64 \<Rightarrow> f64) \<Rightarrow> f64 \<Rightarrow> mvalue list \<Rightarrow> f64 result" where
  "fold_floats f acc [] = Inr acc"
| "fold_floats f acc (v # vs) = bindR (value_as_float v) (\<lambda>x. fold_floats f (f acc x) vs)"

definition fn_float_plus :: "platform \<Rightarrow> mvalue list \<Rightarrow> mvalue result" where
  "fn_float_plus P vals = bindR (fold_floats (f_add P) 0 vals) (\<lambda>s. Inr (Float s))"

definition fn_float_minus :: "platform \<Rightarrow> mvalue list \<Rightarrow> mvalue result" where
  "fn_float_minus P vals =
     (case vals of
        [] \<Rightarrow> Inl (Anyhow ''fn:float:minus: requires at least 1 argument'')
      | v # rest \<Rightarrow>
          bindR (value_as_float v) (\<lambda>first.
            if rest = [] then Inr (Float (f_neg first))
            else bindR (fold_floats (f_sub P) first rest) (\<lambda>r. Inr (Float r))))"

definition fn_float_mult :: "platform \<Rightarrow> mvalue list \<Rightarrow> mvalue result" where
  "fn_float_mult P vals = bindR (fold_floats (f_mul P) f_one vals) (\<lambda>p. Inr (Float p))"

fun float_div_loop :: "platform \<Rightarrow> f64 \<Rightarrow> mvalue list \<Rightarrow> mvalue result" where
  "float_div_loop P acc [] = Inr (Float acc)"
| "float_div_loop P acc (v # vs) =
     bindR (value_as_float v) (\<lambda>d.
       if f_is_zero d then Inl (Anyhow ''Division by zero in fn:float:div'')
       else float_div_loop P (f_div P acc d) vs)"

definition fn_float_div :: "platform \<Rightarrow> mvalue list \<Rightarrow> mvalue result" where
  "fn_float_div P vals =
     (case vals of
        [] \<Rightarrow> Inl (Anyhow ''fn:float:div: requires at least 1 argument'')
      | v # rest \<Rightarrow>
          bindR (value_as_float v) (\<lambda>first.
            if rest = [] then
              (if f_is_zero first then Inl (Anyhow ''Division by zero in fn:float:div'')
               else Inr (Float (f_div P f_one first)))
            else float_div_loop P first rest))"

definition fn_sqrt :: "platform \<Rightarrow> mvalue list \<Rightarrow> mvalue result" where
  "fn_sqrt P vals =
     (case vals of
        [v] \<Rightarrow> bindR (value_as_float v) (\<lambda>f. Inr (Float (f_sqrt P f)))
      | _ \<Rightarrow> Inl (Anyhow ''fn:sqrt: requires exactly 1 argument''))"

subsection \<open>Strings and conversions\<close>

definition fn_string_concat :: "platform \<Rightarrow> mvalue list \<Rightarrow> mvalue result" where
  "fn_string_concat P vals = Inr (Str (concat (map (value_to_string P) vals)))"

definition fn_string_replace :: "mvalue list \<Rightarrow> mvalue result" where
  "fn_string_replace vals =
     (case vals of
        [a, b, c, d] \<Rightarrow>
          (case a of
             Str s \<Rightarrow>
               (case b of
                  Str old \<Rightarrow>
                    (case c of
                       Str new_s \<Rightarrow>
                         (case d of
                            Number cnt \<Rightarrow>
                              Inr (Str (if sint cnt < 0 then str_replace s old new_s
                                        else replacen s old new_s (unat cnt)))
                          | _ \<Rightarrow> Inl (Anyhow ''fn:string:replace: fourth arg must be number''))
                     | _ \<Rightarrow> Inl (Anyhow ''fn:string:replace: third arg must be string''))
                | _ \<Rightarrow> Inl (Anyhow ''fn:string:replace: second arg must be string''))
           | _ \<Rightarrow> Inl (Anyhow ''fn:string:replace: first arg must be string''))
      | _ \<Rightarrow> Inl (Anyhow ''fn:string:replace: requires 4 arguments (string, old, new, count)''))"

definition fn_number_to_string :: "mvalue list \<Rightarrow> mvalue result" where
  "fn_number_to_string vals =
     (case vals of
        [v] \<Rightarrow> (case v of Number n \<Rightarrow> Inr (Str (show_int (sint n)))
                 | _ \<Rightarrow> Inl (Anyhow ''fn:number:to_string: expected number''))
      | _ \<Rightarrow> Inl (Anyhow ''fn:number:to_string: requires 1 argument''))"

definition fn_float64_to_string :: "platform \<Rightarrow> mvalue list \<Rightarrow> mvalue result" where
  "fn_float64_to_string P vals =
     (case vals of
        [v] \<Rightarrow> (case v of Float f \<Rightarrow> Inr (Str (f_display P f))
                 | _ \<Rightarrow> Inl (Anyhow ''fn:float64:to_string: expected float''))
      | _ \<Rightarrow> Inl (Anyhow ''fn:float64:to_string: requires 1 argument''))"

definition fn_name_to_string :: "mvalue list \<Rightarrow> mvalue result" where
  "fn_name_to_string vals =
     (case vals of
        [v] \<Rightarrow> (case v of Name s \<Rightarrow> Inr (Str s)
                 | _ \<Rightarrow> Inl (Anyhow ''fn:name:to_string: expected name''))
      | _ \<Rightarrow> Inl (Anyhow ''fn:name:to_string: requires 1 argument''))"

subsection \<open>Times\<close>

definition time_component :: "mvalue list \<Rightarrow> (int \<Rightarrow> int \<Rightarrow> int) \<Rightarrow> mvalue result" where
  "time_component vals extract =
     (case vals of
        [v] \<Rightarrow> (case v of
                  Time nanos \<Rightarrow>
                    Inr (Number (word_of_int (extract (sint nanos div 1000000000) (sint nanos mod 1000000000))))
                | _ \<Rightarrow> Inl (Anyhow ''time component function: expected time''))
      | _ \<Rightarrow> Inl (Anyhow ''time component function: requires 1 argument''))"

definition fn_time_now :: "platform \<Rightarrow> mvalue list \<Rightarrow> mvalue result" where
  "fn_time_now P vals =
     (if vals \<noteq> [] then Inl (Anyhow ''fn:time:now: takes no arguments'')
      else bindR (now_nanos P) (\<lambda>n. Inr (Time n)))"

definition fn_time_add :: "mvalue list \<Rightarrow> mvalue result" where
  "fn_time_add vals =
     (case vals of
        [a, b] \<Rightarrow> (case (a, b) of (Time t, Duration d) \<Rightarrow> Inr (Time (t + d))
                    | _ \<Rightarrow> Inl (Anyhow ''fn:time:add: expected (time, duration)''))
      | _ \<Rightarrow> Inl (Anyhow ''fn:time:add: requires 2 arguments (time, duration)''))"

definition fn_time_sub :: "mvalue list \<Rightarrow> mvalue result" where
  "fn_time_sub vals =
     (case vals of
        [a, b] \<Rightarrow> (case (a, b) of
                       (Time t1, Time t2) \<Rightarrow> Inr (Duration (t1 - t2))
                     | (Time t, Duration d) \<Rightarrow> Inr (Time (t - d))
                     | _ \<Rightarrow> Inl (Anyhow ''fn:time:sub: expected (time, time) or (time, duration)''))
      | _ \<Rightarrow> Inl (Anyhow ''fn:time:sub: requires 2 arguments''))"

definition fn_time_year :: "mvalue list \<Rightarrow> mvalue result" where
  "fn_time_year vals = time_component vals (\<lambda>secs _. fst (civil_from_epoch_secs secs))"

definition fn_time_month :: "mvalue list \<Rightarrow> mvalue result" where
  "fn_time_month vals = time_component vals (\<lambda>secs _. fst (snd (civil_from_epoch_secs secs)))"

definition fn_time_day :: "mvalue list \<Rightarrow> mvalue result" where
  "fn_time_day vals = time_component vals (\<lambda>secs _. snd (snd (civil_from_epoch_secs secs)))"

definition fn_time_hour :: "mvalue list \<Rightarrow> mvalue result" where
  "fn_time_hour vals = time_component vals (\<lambda>secs _. secs mod 86400 div 3600)"

definition fn_time_minute :: "mvalue list \<Rightarrow> mvalue result" where
  "fn_time_minute vals = time_component vals (\<lambda>secs _. secs mod 86400 mod 3600 div 60)"

definition fn_time_second :: "mvalue list \<Rightarrow> mvalue result" where
  "fn_time_second vals = time_component vals (\<lambda>secs _. secs mod 86400 mod 60)"

definition fn_time_from_unix_nanos :: "mvalue list \<Rightarrow> mvalue result" where
  "fn_time_from_unix_nanos vals =
     (case vals of
        [v] \<Rightarrow> (case v of Number n \<Rightarrow> Inr (Time n)
                 | _ \<Rightarrow> Inl (Anyhow ''fn:time:from_unix_nanos: expected number''))
      | _ \<Rightarrow> Inl (Anyhow ''fn:time:from_unix_nanos: requires 1 argument''))"

definition fn_time_to_unix_nanos :: "mvalue list \<Rightarrow> mvalue result" where
  "fn_time_to_unix_nanos vals =
     (case vals of
        [v] \<Rightarrow> (case v of Time t \<Rightarrow> Inr (Number t)
                 | _ \<Rightarrow> Inl (Anyhow ''fn:time:to_unix_nanos: expected time''))
      | _ \<Rightarrow> Inl (Anyhow ''fn:time:to_unix_nanos: requires 1 argument''))"

definition trunc_unit :: "string \<Rightarrow> int option" where
  "trunc_unit u =
     (if u = ''/nanosecond'' then Some 1
      else if u = ''/microsecond'' then Some 1000
      else if u = ''/millisecond'' then Some 1000000
      else if u = ''/second'' then Some 1000000000
      else if u = ''/minute'' then Some (60 * 1000000000)
      else if u = ''/hour'' then Some (3600 * 1000000000)
      else if u = ''/day'' then Some (24 * 3600 * 1000000000)
      else None)"

definition fn_time_trunc :: "mvalue list \<Rightarrow> mvalue result" where
  "fn_time_trunc vals =
     (case vals of
        [a, b] \<Rightarrow>
          (case a of
             Time t \<Rightarrow>
               (case b of
                  Name u \<Rightarrow>
                    (case trunc_unit u of
                       None \<Rightarrow> Inl (Anyhow ''fn:time:trunc: unknown unit'')
                     | Some d \<Rightarrow> Inr (Time (t - word_of_int (sint t mod d))))
                | _ \<Rightarrow> Inl (Anyhow ''fn:time:trunc: second arg must be name''))
           | _ \<Rightarrow> Inl (Anyhow ''fn:time:trunc: first arg must be time''))
      | _ \<Rightarrow> Inl (Anyhow ''fn:time:trunc: requires 2 arguments (time, unit_name)''))"

definition fn_time_format :: "mvalue list \<Rightarrow> mvalue result" where
  "fn_time_format vals =
     (case vals of
        [a, b] \<Rightarrow>
          (case a of
             Time t \<Rightarrow>
               (case b of
                  Str precision \<Rightarrow>
                    bindR (format_time_with_precision t precision) (\<lambda>s. Inr (Str s))
                | _ \<Rightarrow> Inl (Anyhow ''fn:time:format: second arg must be name''))
           | _ \<Rightarrow> Inl (Anyhow ''fn:time:format: first arg must be time''))
      | _ \<Rightarrow> Inl (Anyhow ''fn:time:format: requires 2 arguments (time, precision)''))"

definition fn_time_format_civil :: "mvalue list \<Rightarrow> mvalue result" where
  "fn_time_format_civil vals =
     (case vals of
        [a, b, c] \<Rightarrow>
          (case a of
             Time t \<Rightarrow>
               (case b of
                  Str tz \<Rightarrow>
                    (case c of
                       Str precision \<Rightarrow>
                         bindR (parse_timezone_offset tz) (\<lambda>offset.
                         bindR (format_time_with_precision (t + offset * 1000000000) precision)
                           (\<lambda>s. Inr (Str s)))
                     | _ \<Rightarrow> Inl (Anyhow ''fn:time:format_civil: third arg must be name''))
                | _ \<Rightarrow> Inl (Anyhow ''fn:time:format_civil: second arg must be string''))
           | _ \<Rightarrow> Inl (Anyhow ''fn:time:format_civil: first arg must be time''))
      | _ \<Rightarrow> Inl (Anyhow ''fn:time:format_civil: requires 3 arguments (time, timezone, precision)''))"

definition fn_time_parse_rfc3339 :: "mvalue list \<Rightarrow> mvalue result" where
  "fn_time_parse_rfc3339 vals =
     (case vals of
        [v] \<Rightarrow> (case v of Str s \<Rightarrow> bindR (parse_rfc3339_to_nanos s) (\<lambda>n. Inr (Time n))
                 | _ \<Rightarrow> Inl (Anyhow ''fn:time:parse_rfc3339: expected string''))
      | _ \<Rightarrow> Inl (Anyhow ''fn:time:parse_rfc3339: requires 1 argument''))"

definition parse_civil_datetime_to_nanos :: "string \<Rightarrow> i64 result" where
  "parse_civil_datetime_to_nanos s = parse_rfc3339_to_nanos s"

definition fn_time_parse_civil :: "mvalue list \<Rightarrow> mvalue result" where
  "fn_time_parse_civil vals =
     (case vals of
        [a, b] \<Rightarrow>
          (case a of
             Str s \<Rightarrow>
               (case b of
                  Str tz \<Rightarrow>
                    bindR (parse_timezone_offset tz) (\<lambda>offset.
                    bindR (parse_civil_datetime_to_nanos s) (\<lambda>nanos.
                      Inr (Time (nanos - offset * 1000000000))))
                | _ \<Rightarrow> Inl (Anyhow ''fn:time:parse_civil: second arg must be string''))
           | _ \<Rightarrow> Inl (Anyhow ''fn:time:parse_civil: first arg must be string''))
      | _ \<Rightarrow> Inl (Anyhow ''fn:time:parse_civil: requires 2 arguments (string, timezone)''))"

subsection \<open>Durations\<close>

definition duration_component_float :: "mvalue list \<Rightarrow> (i64 \<Rightarrow> f64) \<Rightarrow> mvalue result" where
  "duration_component_float vals extract =
     (case vals of
        [v] \<Rightarrow> (case v of Duration nanos \<Rightarrow> Inr (Float (extract nanos))
                 | _ \<Rightarrow> Inl (Anyhow ''duration component function: expected duration''))
      | _ \<Rightarrow> Inl (Anyhow ''duration component function: requires 1 argument''))"

definition duration_component_int :: "mvalue list \<Rightarrow> (i64 \<Rightarrow> i64) \<Rightarrow> mvalue result" where
  "duration_component_int vals extract =
     (case vals of
        [v] \<Rightarrow> (case v of Duration nanos \<Rightarrow> Inr (Number (extract nanos))
                 | _ \<Rightarrow> Inl (Anyhow ''duration component function: expected duration''))
      | _ \<Rightarrow> Inl (Anyhow ''duration component function: requires 1 argument''))"

definition duration_from :: "mvalue list \<Rightarrow> i64 \<Rightarrow> mvalue result" where
  "duration_from vals multiplier =
     (case vals of
        [v] \<Rightarrow> (case v of Number n \<Rightarrow> Inr (Duration (n * multiplier))
                 | _ \<Rightarrow> Inl (Anyhow ''fn:duration:from_: expected number''))
      | _ \<Rightarrow> Inl (Anyhow ''fn:duration:from_: requires 1 argument''))"

definition fn_duration_add :: "mvalue list \<Rightarrow> mvalue result" where
  "fn_duration_add vals =
     (case vals of
        [a, b] \<Rightarrow> (case (a, b) of (Duration x, Duration y) \<Rightarrow> Inr (Duration (x + y))
                    | _ \<Rightarrow> Inl (Anyhow ''fn:duration:add: expected (duration, duration)''))
      | _ \<Rightarrow> Inl (Anyhow ''fn:duration:add: requires 2 arguments''))"

definition fn_duration_mult :: "mvalue list \<Rightarrow> mvalue result" where
  "fn_duration_mult vals =
     (case vals of
        [a, b] \<Rightarrow>
          (case (a, b) of
             (Duration d, Number n) \<Rightarrow> Inr (Duration (d * n))
           | (Number n, Duration d) \<Rightarrow> Inr (Duration (n * d))
           | _ \<Rightarrow> Inl (Anyhow ''fn:duration:mult: expected (duration, number) or (number, duration)''))
      | _ \<Rightarrow> Inl (Anyhow ''fn:duration:mult: requires 2 arguments''))"

text \<open>The divisors \<open>60.0 * 60.0 * 1e9\<close>, \<open>60.0 * 1e9\<close> and \<open>1e9\<close> are exact in \<open>f64\<close>.\<close>

definition fn_duration_hours :: "platform \<Rightarrow> mvalue list \<Rightarrow> mvalue result" where
  "fn_duration_hours P vals =
     duration_component_float vals (\<lambda>n. f_div P (i64_to_f64 n) (i64_to_f64 3600000000000))"

definition fn_duration_minutes :: "platform \<Rightarrow> mvalue list \<Rightarrow> mvalue result" where
  "fn_duration_minutes P vals =
     duration_component_float vals (\<lambda>n. f_div P (i64_to_f64 n) (i64_to_f64 60000000000))"

definition fn_duration_seconds :: "platform \<Rightarrow> mvalue list \<Rightarrow> mvalue result" where
  "fn_duration_seconds P vals =
     duration_component_float vals (\<lambda>n. f_div P (i64_to_f64 n) (i64_to_f64 1000000000))"

definition fn_duration_from_nanos :: "mvalue list \<Rightarrow> mvalue result" where
  "fn_duration_from_nanos vals =
     (case vals of
        [v] \<Rightarrow> (case v of Number n \<Rightarrow> Inr (Duration n)
                 | _ \<Rightarrow> Inl (Anyhow ''fn:duration:from_nanos: expected number''))
      | _ \<Rightarrow> Inl (Anyhow ''fn:duration:from_nanos: requires 1 argument''))"

definition fn_duration_parse :: "platform \<Rightarrow> mvalue list \<Rightarrow> mvalue result" where
  "fn_duration_parse P vals =
     (case vals of
        [v] \<Rightarrow> (case v of
                  Str s \<Rightarrow> bindR (parse_duration_string (f_scaled P) s) (\<lambda>n. Inr (Duration n))
                | _ \<Rightarrow> Inl (Anyhow ''fn:duration:parse: expected string''))
      | _ \<Rightarrow> Inl (Anyhow ''fn:duration:parse: requires 1 argument''))"

subsection \<open>Compound values\<close>

definition fn_list :: "mvalue list \<Rightarrow> mvalue result" where
  "fn_list vals = Inr (Compound KList vals)"

definition fn_pair :: "mvalue list \<Rightarrow> mvalue result" where
  "fn_pair vals =
     (if length vals \<noteq> 2 then Inl (Anyhow ''fn:pair: requires exactly 2 arguments'')
      else Inr (Compound KPair vals))"

definition fn_struct :: "mvalue list \<Rightarrow> mvalue result" where
  "fn_struct vals =
     (if odd (length vals)
      then Inl (Anyhow ''fn:struct: requires even number of arguments (field, value pairs)'')
      else Inr (Compound KStruct vals))"

definition fn_map :: "mvalue list \<Rightarrow> mvalue result" where
  "fn_map vals =
     (if odd (length vals)
      then Inl (Anyhow ''fn:map: requires even number of arguments (key, value pairs)'')
      else Inr (Compound KMap vals))"

definition fn_list_get :: "mvalue list \<Rightarrow> mvalue result" where
  "fn_list_get vals =
     (case vals of
        [a, b] \<Rightarrow>
          (case (a, b) of
             (Compound _ elems, Number idx) \<Rightarrow>
               (if unat idx < length elems then Inr (elems ! unat idx)
                else Inl (Anyhow ''fn:list:get: index out of bounds''))
           | _ \<Rightarrow> Inl (Anyhow ''fn:list:get: expected (compound, number)''))
      | _ \<Rightarrow> Inl (Anyhow ''fn:list:get: requires 2 arguments (list, index)''))"

definition fn_list_append :: "mvalue list \<Rightarrow> mvalue result" where
  "fn_list_append vals =
     (case vals of
        [a, b] \<Rightarrow>
          (case a of
             Compound KList elems \<Rightarrow> Inr (Compound KList (elems @ [b]))
           | _ \<Rightarrow> Inl (Anyhow ''fn:list:append: expected list as first argument''))
      | _ \<Rightarrow> Inl (Anyhow ''fn:list:append: requires 2 arguments (list, elem)''))"

text \<open>The accessors of one compound argument: what they do with its elements.\<close>

definition on_compound :: "string \<Rightarrow> mvalue list \<Rightarrow> (mvalue list \<Rightarrow> mvalue result) \<Rightarrow> mvalue result" where
  "on_compound nm vals f =
     (case vals of
        [v] \<Rightarrow> (case v of Compound _ elems \<Rightarrow> f elems
                 | _ \<Rightarrow> Inl (Anyhow (nm @ '': expected compound value'')))
      | _ \<Rightarrow> Inl (Anyhow (nm @ '': requires 1 argument'')))"

definition fn_len :: "mvalue list \<Rightarrow> mvalue result" where
  "fn_len vals = on_compound ''fn:len'' vals (\<lambda>elems. Inr (Number (of_nat (length elems))))"

definition fn_pair_first :: "mvalue list \<Rightarrow> mvalue result" where
  "fn_pair_first vals =
     (case vals of
        [Compound _ (a # _)] \<Rightarrow> Inr a
      | [_] \<Rightarrow> Inl (Anyhow ''fn:pair:first: expected compound with at least 1 element'')
      | _ \<Rightarrow> Inl (Anyhow ''fn:pair:first: requires 1 argument''))"

definition fn_pair_second :: "mvalue list \<Rightarrow> mvalue result" where
  "fn_pair_second vals =
     (case vals of
        [Compound _ (_ # b # _)] \<Rightarrow> Inr b
      | [_] \<Rightarrow> Inl (Anyhow ''fn:pair:second: expected compound with at least 2 elements'')
      | _ \<Rightarrow> Inl (Anyhow ''fn:pair:second: requires 1 argument''))"

definition fn_struct_get :: "string \<Rightarrow> mvalue list \<Rightarrow> mvalue result" where
  "fn_struct_get nm vals =
     (case vals of
        [a, key] \<Rightarrow>
          (case a of
             Compound _ elems \<Rightarrow>
               (case map_of (chunks2 elems) key of
                  Some v \<Rightarrow> Inr v
                | None \<Rightarrow> Inl (Anyhow (nm @ '': key not found'')))
           | _ \<Rightarrow> Inl (Anyhow (nm @ '': expected compound value'')))
      | _ \<Rightarrow> Inl (Anyhow (nm @ '': requires 2 arguments (compound, key)'')))"

definition fn_map_len :: "string \<Rightarrow> mvalue list \<Rightarrow> mvalue result" where
  "fn_map_len nm vals = on_compound nm vals (\<lambda>elems. Inr (Number (of_nat (length elems div 2))))"

definition fn_map_keys :: "mvalue list \<Rightarrow> mvalue result" where
  "fn_map_keys vals =
     on_compound ''fn:map:keys'' vals (\<lambda>elems. Inr (Compound KList (map fst (chunks2 elems))))"

definition fn_map_values :: "string \<Rightarrow> mvalue list \<Rightarrow> mvalue result" where
  "fn_map_values nm vals =
     on_compound nm vals (\<lambda>elems. Inr (Compound KList (map snd (chunks2 elems))))"

subsection \<open>Dispatch\<close>

definition eval_function :: "platform \<Rightarrow> string \<Rightarrow> mvalue list \<Rightarrow> mvalue result" where
  "eval_function P nm vals =
     (if nm = ''fn:plus'' then fn_plus vals
      else if nm = ''fn:minus'' then fn_minus vals
      else if nm = ''fn:mult'' then fn_mult vals
      else if nm = ''fn:div'' then fn_div vals
      else if nm = ''fn:float:plus'' then fn_float_plus P vals
      else if nm = ''fn:float:minus'' then fn_float_minus P vals
      else if nm = ''fn:float:mult'' then fn_float_mult P vals
      else if nm = ''fn:float:div'' then fn_float_div P vals
      else if nm = ''fn:sqrt'' then fn_sqrt P vals
      else if nm = ''fn:string:concat'' then fn_string_concat P vals
      else if nm = ''fn:string:replace'' then fn_string_replace vals
      else if nm = ''fn:number:to_string'' then fn_number_to_string vals
      else if nm = ''fn:float64:to_string'' then fn_float64_to_string P vals
      else if nm = ''fn:name:to_string'' then fn_name_to_string vals
      else if nm = ''fn:time:now'' then fn_time_now P vals
      else if nm = ''fn:time:add'' then fn_time_add vals
      else if nm = ''fn:time:sub'' then fn_time_sub vals
      else if nm = ''fn:time:year'' then fn_time_year vals
      else if nm = ''fn:time:month'' then fn_time_month vals
      else if nm = ''fn:time:day'' then fn_time_day vals
      else if nm = ''fn:time:hour'' then fn_time_hour vals
      else if nm = ''fn:time:minute'' then fn_time_minute vals
      else if nm = ''fn:time:second'' then fn_time_second vals
      else if nm = ''fn:time:from_unix_nanos'' then fn_time_from_unix_nanos vals
      else if nm = ''fn:time:to_unix_nanos'' then fn_time_to_unix_nanos vals
      else if nm = ''fn:time:trunc'' then fn_time_trunc vals
      else if nm = ''fn:time:format'' then fn_time_format vals
      else if nm = ''fn:time:format_civil'' then fn_time_format_civil vals
      else if nm = ''fn:time:parse_rfc3339'' then fn_time_parse_rfc3339 vals
      else if nm = ''fn:time:parse_civil'' then fn_time_parse_civil vals
      else if nm = ''fn:duration:add'' then fn_duration_add vals
      else if nm = ''fn:duration:mult'' then fn_duration_mult vals
      else if nm = ''fn:duration:hours'' then fn_duration_hours P vals
      else if nm = ''fn:duration:minutes'' then fn_duration_minutes P vals
      else if nm = ''fn:duration:seconds'' then fn_duration_seconds P vals
      else if nm = ''fn:duration:nanos'' then duration_component_int vals (\<lambda>n. n)
      else if nm = ''fn:duration:from_nanos'' then fn_duration_from_nanos vals
      else if nm = ''fn:duration:from_hours'' then duration_from vals (60 * 60 * 1000000000)
      else if nm = ''fn:duration:from_minutes'' then duration_from vals (60 * 1000000000)
      else if nm = ''fn:duration:from_seconds'' then duration_from vals 1000000000
      else if nm = ''fn:duration:parse'' then fn_duration_parse P vals
      else if nm = ''fn:list'' then fn_list vals
      else if nm = ''fn:pair'' then fn_pair vals
      else if nm = ''fn:struct'' then fn_struct vals
      else if nm = ''fn:map'' then fn_map vals
      else if nm = ''fn:list:get'' then fn_list_get vals
      else if nm = ''fn:list:append'' then fn_list_append vals
      else if nm = ''fn:list:len'' \<or> nm = ''fn:len'' then fn_len vals
      else if nm = ''fn:pair:first'' then fn_pair_first vals
      else if nm = ''fn:pair:second'' then fn_pair_second vals
      else if nm = ''fn:struct:get'' \<or> nm = ''fn:map:get'' then fn_struct_get nm vals
      else if nm = ''fn:map:len'' \<or> nm = ''fn:struct:len'' then fn_map_len nm vals
      else if nm = ''fn:map:keys'' then fn_map_keys vals
      else if nm = ''fn:map:values'' \<or> nm = ''fn:struct:values'' then fn_map_values nm vals
      else Inl (Anyhow ''Unknown function''))"

subsection \<open>Built-in predicates\<close>

definition pred_strings :: "string \<Rightarrow> (string \<Rightarrow> string \<Rightarrow> bool) \<Rightarrow> mvalue list \<Rightarrow> bool result" where
  "pred_strings msg f vals =
     bindR (index_list vals 0) (\<lambda>a. bindR (index_list vals 1) (\<lambda>b.
       case (a, b) of (Str s, Str p) \<Rightarrow> Inr (f s p) | _ \<Rightarrow> Inl (Anyhow msg)))"

definition pred_match_prefix :: "mvalue list \<Rightarrow> bool result" where
  "pred_match_prefix vals =
     bindR (index_list vals 0) (\<lambda>a. bindR (index_list vals 1) (\<lambda>b.
       case (a, b) of
         (Name n, Name p) \<Rightarrow> Inr (starts_with n p \<and> length p < length n)
       | _ \<Rightarrow> Inl (Anyhow '':match_prefix: expected name arguments'')))"

definition pred_list_member :: "mvalue list \<Rightarrow> bool result" where
  "pred_list_member vals =
     bindR (index_list vals 1) (\<lambda>l.
       case l of
         Compound KList elems \<Rightarrow> bindR (index_list vals 0) (\<lambda>e. Inr (e \<in> set elems))
       | _ \<Rightarrow> Inr False)"

text \<open>\<open>any\<close> reads \<open>vals[2]\<close> only for a chunk whose key matches.\<close>

fun match_any :: "mvalue list \<Rightarrow> string \<Rightarrow> (mvalue \<times> mvalue) list \<Rightarrow> bool result" where
  "match_any vals field [] = Inr False"
| "match_any vals field ((k, v) # ps) =
     (if k = Name field
      then bindR (index_list vals 2) (\<lambda>x. if v = x then Inr True else match_any vals field ps)
      else match_any vals field ps)"

definition pred_match_field :: "mvalue list \<Rightarrow> bool result" where
  "pred_match_field vals =
     bindR (index_list vals 0) (\<lambda>a. bindR (index_list vals 1) (\<lambda>b.
       case (a, b) of
         (Compound KStruct pairs, Name field) \<Rightarrow> match_any vals field (chunks2 pairs)
       | _ \<Rightarrow> Inr False))"

definition eval_builtin_predicate :: "string \<Rightarrow> mvalue list \<Rightarrow> bool result" where
  "eval_builtin_predicate nm vals =
     (if nm = '':string:starts_with''
        then pred_strings '':string:starts_with: expected string arguments'' starts_with vals
      else if nm = '':string:ends_with''
        then pred_strings '':string:ends_with: expected string arguments'' ends_with vals
      else if nm = '':string:contains''
        then pred_strings '':string:contains: expected string arguments'' str_contains vals
      else if nm = '':match_prefix'' then pred_match_prefix vals
      else if nm = '':list:member'' then pred_list_member vals
      else if nm = '':match_field'' then pred_match_field vals
      else Inl (Anyhow ''Unknown built-in predicate''))"

end
