(* ===== verification/Interp.thy ===== *)
theory Interp
  imports Store_API Plan_IR Builtins
begin

text \<open>
  The interpreter of \<open>mangle-interpreter\<close>: operands, expressions, conditions and aggregates, and
  \<open>exec_op\<close> on every operation of a physical plan.  Its state (the store behind the trait, the
  provenance recorder and the variable environment) is threaded explicitly; an error keeps the state
  reached so far, as the source does.  The environment is the source's single mutable map: a binding
  made inside a loop survives it, only \<open>MatchField\<close> and \<open>IterateList\<close> remove theirs.  The order in
  which a \<open>HashMap\<close> yields the groups of a \<open>GroupBy\<close> is a parameter.
\<close>

subsection \<open>State\<close>

type_synonym env = "name_id \<Rightarrow> mvalue option"

record provenance_entry =
  derived :: fact
  prem_facts :: "fact list"

record provenance_recorder =
  prov_entries :: "provenance_entry list"
  active_premises :: "fact list"

record 's istate =
  st_store :: 's
  st_prov :: "provenance_recorder option"
  st_env :: env

text \<open>What stays fixed during a run: the IR, the operations of the store, the platform and the
  iteration order of hash maps.\<close>

type_synonym groups = "(tuple \<times> tuple list) list"

record 's interp_cfg =
  cf_ir :: ir
  cf_store :: "'s store_ops"
  cf_platform :: platform
  cf_order :: "groups \<Rightarrow> groups"

definition bindS :: "'a result \<times> 'st \<Rightarrow> ('a \<Rightarrow> 'st \<Rightarrow> 'b result \<times> 'st) \<Rightarrow> 'b result \<times> 'st" where
  "bindS p f = (case p of (Inl e, s) \<Rightarrow> (Inl e, s) | (Inr x, s) \<Rightarrow> f x s)"

lemma bindS_simps [simp]:
  "bindS (Inl e, s) f = (Inl e, s)"
  "bindS (Inr x, s) f = f x s"
  by (simp_all add: bindS_def)

lemma bindS_cong [fundef_cong]:
  "p = q \<Longrightarrow> (\<And>x s. q = (Inr x, s) \<Longrightarrow> f x s = g x s) \<Longrightarrow> bindS p f = bindS q g"
  by (cases q; cases "fst q") auto

text \<open>\<open>for x in xs { count += f(x)? }\<close>\<close>

fun for_each :: "('a \<Rightarrow> 'st \<Rightarrow> nat result \<times> 'st) \<Rightarrow> 'a list \<Rightarrow> 'st \<Rightarrow> nat result \<times> 'st" where
  "for_each f [] st = (Inr 0, st)"
| "for_each f (x # xs) st =
     bindS (f x st) (\<lambda>n st1. bindS (for_each f xs st1) (\<lambda>m st2. (Inr (n + m), st2)))"

lemma for_each_cong [fundef_cong]:
  "xs = ys \<Longrightarrow> st = st' \<Longrightarrow> (\<And>x s. x \<in> set ys \<Longrightarrow> f x s = g x s) \<Longrightarrow>
     for_each f xs st = for_each g ys st'"
proof (induction ys arbitrary: xs st st')
  case (Cons y ys)
  have "for_each f ys s = for_each g ys s" for s
    using Cons.prems(3) by (intro Cons.IH) auto
  then show ?case
    using Cons.prems by (auto intro!: bindS_cong)
qed simp

subsection \<open>Operands, expressions and conditions\<close>

fun eval_const :: "ir \<Rightarrow> plan_const \<Rightarrow> mvalue result" where
  "eval_const m (CNumber n) = Inr (Number n)"
| "eval_const m (CFloat f) = Inr (Float f)"
| "eval_const m (CString sid) = bindR (resolve_string m sid) (\<lambda>s. Inr (Str s))"
| "eval_const m (CName nid) = bindR (resolve_name m nid) (\<lambda>s. Inr (Name s))"
| "eval_const m (CTime t) = Inr (Time t)"
| "eval_const m (CDuration d) = Inr (Duration d)"

fun eval_operand :: "ir \<Rightarrow> env \<Rightarrow> operand \<Rightarrow> mvalue result" where
  "eval_operand m e (OVar v) =
     (case e v of Some x \<Rightarrow> Inr x | None \<Rightarrow> Inl (Anyhow ''Variable not found''))"
| "eval_operand m e (OConst c) = eval_const m c"

fun eval_expr :: "'s interp_cfg \<Rightarrow> env \<Rightarrow> expr \<Rightarrow> mvalue result" where
  "eval_expr C e (ValueE x) = eval_operand (cf_ir C) e x"
| "eval_expr C e (CallE f args) =
     bindR (resolve_name (cf_ir C) f) (\<lambda>nm.
     bindR (traverseR (eval_operand (cf_ir C) e) args) (\<lambda>vals. eval_function (cf_platform C) nm vals))"

definition cmp_holds :: "cmp_op \<Rightarrow> mvalue \<Rightarrow> mvalue \<Rightarrow> bool" where
  "cmp_holds c l r =
     (case c of
        CEq \<Rightarrow> l = r
      | CNeq \<Rightarrow> l \<noteq> r
      | CLt \<Rightarrow> value_cmp l r = Less
      | CLe \<Rightarrow> value_cmp l r \<noteq> Greater
      | CGt \<Rightarrow> value_cmp l r = Greater
      | CGe \<Rightarrow> value_cmp l r \<noteq> Less)"

text \<open>The inner loop of a negation: columns are compared left to right and the first difference
  stops the evaluation of the arguments.\<close>

fun matches_args :: "ir \<Rightarrow> env \<Rightarrow> operand list \<Rightarrow> tuple \<Rightarrow> bool result" where
  "matches_args m e (a # args) (x # t) =
     bindR (eval_operand m e a) (\<lambda>v. if x \<noteq> v then Inr False else matches_args m e args t)"
| "matches_args m e _ _ = Inr True"

fun no_match :: "ir \<Rightarrow> env \<Rightarrow> operand list \<Rightarrow> tuple list \<Rightarrow> bool result" where
  "no_match m e args [] = Inr True"
| "no_match m e args (t # ts) =
     (if length t \<noteq> length args then no_match m e args ts
      else bindR (matches_args m e args t) (\<lambda>b. if b then Inr False else no_match m e args ts))"

fun eval_cond :: "'s interp_cfg \<Rightarrow> 's \<Rightarrow> env \<Rightarrow> condition \<Rightarrow> bool result" where
  "eval_cond C s e (Cmp c l r) =
     bindR (eval_operand (cf_ir C) e l) (\<lambda>x.
     bindR (eval_operand (cf_ir C) e r) (\<lambda>y. Inr (cmp_holds c x y)))"
| "eval_cond C s e (Negation rel args) =
     bindR (resolve_name (cf_ir C) rel) (\<lambda>nm.
     bindR (so_scan (cf_store C) s nm) (\<lambda>ts. no_match (cf_ir C) e args ts))"
| "eval_cond C s e (NotC c) = bindR (eval_cond C s e c) (\<lambda>b. Inr (\<not> b))"
| "eval_cond C s e (CallC f args) =
     bindR (resolve_name (cf_ir C) f) (\<lambda>nm.
     bindR (traverseR (eval_operand (cf_ir C) e) args) (\<lambda>vals. eval_builtin_predicate nm vals))"

subsection \<open>Aggregates\<close>

text \<open>The loop shared by the aggregates: bind the columns of a tuple, evaluate the argument, take a
  step.  The bindings stay in the environment.\<close>

fun agg_loop :: "ir \<Rightarrow> ('acc \<Rightarrow> mvalue \<Rightarrow> 'acc result) \<Rightarrow> operand \<Rightarrow> name_id list \<Rightarrow> 'acc \<Rightarrow> tuple list \<Rightarrow>
    env \<Rightarrow> 'acc result \<times> env" where
  "agg_loop m step arg vars acc [] e = (Inr acc, e)"
| "agg_loop m step arg vars acc (t # ts) e =
     (let e' = e(vars [\<mapsto>] t) in
      case bindR (eval_operand m e' arg) (step acc) of
        Inl err \<Rightarrow> (Inl err, e')
      | Inr acc' \<Rightarrow> agg_loop m step arg vars acc' ts e')"

definition sum_step :: "i64 \<Rightarrow> mvalue \<Rightarrow> i64 result" where
  "sum_step acc v =
     (case v of Number n \<Rightarrow> Inr (acc + n) | _ \<Rightarrow> Inl (Anyhow ''fn:sum: expected integer''))"

definition float_sum_step :: "platform \<Rightarrow> f64 \<Rightarrow> mvalue \<Rightarrow> f64 result" where
  "float_sum_step P acc v = bindR (value_as_float v) (\<lambda>f. Inr (f_add P acc f))"

definition max_step :: "mvalue option \<Rightarrow> mvalue \<Rightarrow> mvalue option result" where
  "max_step acc v =
     Inr (case acc of None \<Rightarrow> Some v
          | Some m \<Rightarrow> if value_cmp v m = Greater then Some v else Some m)"

definition min_step :: "mvalue option \<Rightarrow> mvalue \<Rightarrow> mvalue option result" where
  "min_step acc v =
     Inr (case acc of None \<Rightarrow> Some v
          | Some m \<Rightarrow> if value_cmp v m = Less then Some v else Some m)"

definition float_max_step :: "platform \<Rightarrow> f64 option \<Rightarrow> mvalue \<Rightarrow> f64 option result" where
  "float_max_step P acc v =
     bindR (value_as_float v) (\<lambda>f. Inr (Some (case acc of None \<Rightarrow> f | Some m \<Rightarrow> f_max P f m)))"

definition float_min_step :: "platform \<Rightarrow> f64 option \<Rightarrow> mvalue \<Rightarrow> f64 option result" where
  "float_min_step P acc v =
     bindR (value_as_float v) (\<lambda>f. Inr (Some (case acc of None \<Rightarrow> f | Some m \<Rightarrow> f_min P f m)))"

definition collect_step :: "bool \<Rightarrow> mvalue list \<Rightarrow> mvalue \<Rightarrow> mvalue list result" where
  "collect_step dedup acc v = Inr (if dedup \<and> v \<in> set acc then acc else acc @ [v])"

definition map_fst_result :: "('a \<Rightarrow> 'b result) \<Rightarrow> 'a result \<times> 'e \<Rightarrow> 'b result \<times> 'e" where
  "map_fst_result f p = (bindR (fst p) f, snd p)"

definition found :: "string \<Rightarrow> mvalue option \<Rightarrow> mvalue result" where
  "found nm x = (case x of None \<Rightarrow> Inl (Anyhow (nm @ '' on empty group'')) | Some v \<Rightarrow> Inr v)"

text \<open>The aggregates that take an argument, by name.\<close>

definition run_aggregate ::
    "ir \<Rightarrow> platform \<Rightarrow> string \<Rightarrow> operand \<Rightarrow> tuple list \<Rightarrow> name_id list \<Rightarrow> env \<Rightarrow> mvalue result \<times> env" where
  "run_aggregate m P nm arg grp vars e =
     (if nm = ''fn:sum'' then
        map_fst_result (\<lambda>n. Inr (Number n)) (agg_loop m sum_step arg vars 0 grp e)
      else if nm = ''fn:float:sum'' then
        map_fst_result (\<lambda>f. Inr (Float f)) (agg_loop m (float_sum_step P) arg vars 0 grp e)
      else if nm = ''fn:max'' then
        map_fst_result (found nm) (agg_loop m max_step arg vars None grp e)
      else if nm = ''fn:min'' then
        map_fst_result (found nm) (agg_loop m min_step arg vars None grp e)
      else if nm = ''fn:float:max'' then
        map_fst_result (\<lambda>x. found nm (map_option Float x))
          (agg_loop m (float_max_step P) arg vars None grp e)
      else if nm = ''fn:float:min'' then
        map_fst_result (\<lambda>x. found nm (map_option Float x))
          (agg_loop m (float_min_step P) arg vars None grp e)
      else
        map_fst_result (\<lambda>vs. Inr (Compound KList vs))
          (agg_loop m (collect_step (nm = ''fn:collect_distinct'')) arg vars [] grp e))"

definition agg_names :: "string list" where
  "agg_names = [''fn:sum'', ''fn:float:sum'', ''fn:max'', ''fn:min'', ''fn:float:max'', ''fn:float:min'',
     ''fn:collect'', ''fn:collect_distinct'']"

definition eval_aggregate ::
    "'s interp_cfg \<Rightarrow> aggregate \<Rightarrow> tuple list \<Rightarrow> name_id list \<Rightarrow> env \<Rightarrow> mvalue result \<times> env" where
  "eval_aggregate C agg grp vars e =
     (case resolve_name (cf_ir C) (agg_func agg) of
        Inl err \<Rightarrow> (Inl err, e)
      | Inr nm \<Rightarrow>
          if nm = ''fn:count'' then (Inr (Number (of_nat (length grp))), e)
          else if nm \<in> set agg_names then
            (case agg_args agg of
               [] \<Rightarrow> (Inl (Anyhow (nm @ (if nm = ''fn:collect'' \<or> nm = ''fn:collect_distinct''
                                         then '': requires 1 argument'' else '' requires 1 argument''))), e)
             | arg # _ \<Rightarrow> run_aggregate (cf_ir C) (cf_platform C) nm arg grp vars e)
          else (Inl (Anyhow ''Unknown aggregation function''), e))"

text \<open>\<open>for agg in aggregates { env.insert(agg.var, eval_aggregate(..)?) }\<close>\<close>

fun exec_aggs :: "'s interp_cfg \<Rightarrow> aggregate list \<Rightarrow> tuple list \<Rightarrow> name_id list \<Rightarrow> env \<Rightarrow> unit result \<times> env" where
  "exec_aggs C [] grp vars e = (Inr (), e)"
| "exec_aggs C (agg # aggs) grp vars e =
     bindS (eval_aggregate C agg grp vars e) (\<lambda>v e'.
       exec_aggs C aggs grp vars (e'(agg_var agg \<mapsto> v)))"

text \<open>The grouping loop of \<open>GroupBy\<close>.\<close>

fun add_group :: "tuple \<Rightarrow> tuple \<Rightarrow> groups \<Rightarrow> groups" where
  "add_group key t [] = [(key, [t])]"
| "add_group key t ((k, ts) # gs) =
     (if k = key then (k, ts @ [t]) # gs else (k, ts) # add_group key t gs)"

definition group_key :: "name_id list \<Rightarrow> env \<Rightarrow> tuple" where
  "group_key keys e = map (\<lambda>k. case e k of Some v \<Rightarrow> v | None \<Rightarrow> Null) keys"

fun group_tuples :: "name_id list \<Rightarrow> name_id list \<Rightarrow> tuple list \<Rightarrow> groups \<Rightarrow> env \<Rightarrow> groups \<times> env" where
  "group_tuples vars keys [] gs e = (gs, e)"
| "group_tuples vars keys (t # ts) gs e =
     (if length t \<noteq> length vars then group_tuples vars keys ts gs e
      else let e' = e(vars [\<mapsto>] t) in
           group_tuples vars keys ts (add_group (group_key keys e') t gs) e')"

subsection \<open>Data sources and joins\<close>

fun source_vars :: "data_source \<Rightarrow> name_id list" where
  "source_vars (Scan _ vars) = vars"
| "source_vars (ScanDelta _ vars) = vars"
| "source_vars (IndexLookup _ _ _ vars) = vars"

text \<open>\<open>collect_data_source\<close>: the relation's name, for provenance, and its tuples.\<close>

fun collect_data_source :: "'s interp_cfg \<Rightarrow> 's \<Rightarrow> env \<Rightarrow> data_source \<Rightarrow> (string \<times> tuple list) result" where
  "collect_data_source C s e (Scan rel vars) =
     bindR (resolve_name (cf_ir C) rel) (\<lambda>nm.
     bindR (so_scan (cf_store C) s nm) (\<lambda>ts. Inr (nm, ts)))"
| "collect_data_source C s e (ScanDelta rel vars) =
     bindR (resolve_name (cf_ir C) rel) (\<lambda>nm.
     bindR (so_scan_delta (cf_store C) s nm) (\<lambda>ts. Inr (nm, ts)))"
| "collect_data_source C s e (IndexLookup rel col key vars) =
     bindR (resolve_name (cf_ir C) rel) (\<lambda>nm.
     bindR (eval_operand (cf_ir C) e key) (\<lambda>k.
     bindR (so_scan_index (cf_store C) s nm col k) (\<lambda>ts. Inr (nm, ts))))"

definition key_positions :: "string \<Rightarrow> name_id list \<Rightarrow> name_id list \<Rightarrow> nat list result" where
  "key_positions msg join_keys vars =
     traverseR (\<lambda>k. case position k vars of None \<Rightarrow> Inl (Anyhow msg) | Some i \<Rightarrow> Inr i) join_keys"

definition proj :: "nat list \<Rightarrow> tuple \<Rightarrow> tuple" where
  "proj ps t = map (\<lambda>i. t ! i) ps"

text \<open>The hash table of the build side: \<open>table.entry(key).or_default().push(tuple)\<close>.\<close>

fun build_table :: "nat list \<Rightarrow> nat \<Rightarrow> tuple list \<Rightarrow> groups \<Rightarrow> groups" where
  "build_table ps n [] tab = tab"
| "build_table ps n (t # ts) tab =
     build_table ps n ts (if length t \<noteq> n then tab else add_group (proj ps t) t tab)"

subsection \<open>Provenance\<close>

definition push_premise :: "fact \<Rightarrow> 's istate \<Rightarrow> 's istate" where
  "push_premise f st =
     st\<lparr>st_prov := map_option (\<lambda>p. p\<lparr>active_premises := active_premises p @ [f]\<rparr>) (st_prov st)\<rparr>"

definition pop_premise :: "'s istate \<Rightarrow> 's istate" where
  "pop_premise st =
     st\<lparr>st_prov := map_option (\<lambda>p. p\<lparr>active_premises := butlast (active_premises p)\<rparr>) (st_prov st)\<rparr>"

definition record_derivation :: "fact \<Rightarrow> 's istate \<Rightarrow> 's istate" where
  "record_derivation f st =
     st\<lparr>st_prov := map_option (\<lambda>p. p\<lparr>prov_entries :=
          prov_entries p @ [\<lparr>derived = f, prem_facts = active_premises p\<rparr>]\<rparr>) (st_prov st)\<rparr>"

definition set_env :: "env \<Rightarrow> 's istate \<Rightarrow> 's istate" where
  "set_env e st = st\<lparr>st_env := e\<rparr>"

subsection \<open>Operations\<close>

definition exec_insert :: "'s interp_cfg \<Rightarrow> name_id \<Rightarrow> operand list \<Rightarrow> 's istate \<Rightarrow> nat result \<times> 's istate" where
  "exec_insert C rel args st =
     (case bindR (resolve_name (cf_ir C) rel) (\<lambda>nm.
           bindR (traverseR (eval_operand (cf_ir C) (st_env st)) args) (\<lambda>t.
           bindR (so_insert (cf_store C) nm t (st_store st)) (\<lambda>(is_new, s). Inr (nm, t, is_new, s)))) of
        Inl err \<Rightarrow> (Inl err, st)
      | Inr (nm, t, is_new, s) \<Rightarrow>
          let st' = st\<lparr>st_store := s\<rparr>
          in if is_new then (Inr 1, record_derivation (nm, t) st') else (Inr 0, st'))"

definition struct_field :: "string \<Rightarrow> mvalue \<Rightarrow> mvalue option" where
  "struct_field field v =
     (case v of Compound KStruct pairs \<Rightarrow> map_of (chunks2 pairs) (Name field) | _ \<Rightarrow> None)"

definition exec_hash_join :: "'s interp_cfg \<Rightarrow> data_source \<Rightarrow> data_source \<Rightarrow> name_id list \<Rightarrow>
    ('s istate \<Rightarrow> nat result \<times> 's istate) \<Rightarrow> 's istate \<Rightarrow> nat result \<times> 's istate" where
  "exec_hash_join C build probe join_keys run st =
     (case bindR (collect_data_source C (st_store st) (st_env st) build) (\<lambda>(_, bts).
           bindR (key_positions ''HashJoin: join key not in build_source vars'' join_keys (source_vars build)) (\<lambda>bps.
           bindR (collect_data_source C (st_store st) (st_env st) probe) (\<lambda>(_, pts).
           bindR (key_positions ''HashJoin: join key not in probe_source vars'' join_keys (source_vars probe)) (\<lambda>pps.
             Inr (bts, bps, pts, pps))))) of
        Inl err \<Rightarrow> (Inl err, st)
      | Inr (bts, bps, pts, pps) \<Rightarrow>
          let table = build_table bps (length (source_vars build)) bts [] in
          for_each (\<lambda>pt st1.
            if length pt \<noteq> length (source_vars probe) then (Inr 0, st1)
            else case map_of table (proj pps pt) of
              None \<Rightarrow> (Inr 0, st1)
            | Some matches \<Rightarrow>
                for_each (\<lambda>bt st2.
                    run (set_env ((st_env st2)(source_vars build [\<mapsto>] bt)) st2))
                  matches (set_env ((st_env st1)(source_vars probe [\<mapsto>] pt)) st1)) pts st)"

fun exec_op :: "'s interp_cfg \<Rightarrow> op \<Rightarrow> 's istate \<Rightarrow> nat result \<times> 's istate" where
  "exec_op C Nop st = (Inr 0, st)"
| "exec_op C (Seq ops) st = for_each (exec_op C) ops st"
| "exec_op C (Iterate source body) st =
     (case collect_data_source C (st_store st) (st_env st) source of
        Inl err \<Rightarrow> (Inl err, st)
      | Inr (nm, tuples) \<Rightarrow>
          for_each (\<lambda>t st1.
            if length t \<noteq> length (source_vars source) then (Inr 0, st1)
            else bindS (exec_op C body
                   (push_premise (nm, t) (set_env ((st_env st1)(source_vars source [\<mapsto>] t)) st1)))
                 (\<lambda>n st2. (Inr n, pop_premise st2))) tuples st)"
| "exec_op C (FilterOp cond body) st =
     (case eval_cond C (st_store st) (st_env st) cond of
        Inl err \<Rightarrow> (Inl err, st)
      | Inr b \<Rightarrow> if b then exec_op C body st else (Inr 0, st))"
| "exec_op C (InsertOp rel args) st = exec_insert C rel args st"
| "exec_op C (LetOp var expr body) st =
     (case eval_expr C (st_env st) expr of
        Inl err \<Rightarrow> (Inl err, st)
      | Inr v \<Rightarrow> exec_op C body (set_env ((st_env st)(var \<mapsto> v)) st))"
| "exec_op C (HashJoin build probe join_keys body) st =
     exec_hash_join C build probe join_keys (exec_op C body) st"
| "exec_op C (GroupBy source vars keys aggs body) st =
     (case bindR (resolve_name (cf_ir C) source) (\<lambda>nm.
           bindR (so_scan (cf_store C) (st_store st) nm) (\<lambda>ts.
             Inr (ts @ (case so_scan_next_delta (cf_store C) (st_store st) nm of
                          Inl _ \<Rightarrow> [] | Inr nd \<Rightarrow> nd)))) of
        Inl err \<Rightarrow> (Inl err, st)
      | Inr tuples \<Rightarrow>
          let (gs, e) = group_tuples vars keys tuples [] (st_env st) in
          for_each (\<lambda>(key, grp) st1.
            case exec_aggs C aggs grp vars ((st_env st1)(keys [\<mapsto>] key)) of
              (Inl err, e1) \<Rightarrow> (Inl err, set_env e1 st1)
            | (Inr _, e1) \<Rightarrow> exec_op C body (set_env e1 st1))
            (cf_order C gs) (set_env e st))"
| "exec_op C (MatchField struct_op field var body) st =
     (case bindR (eval_operand (cf_ir C) (st_env st) struct_op) (\<lambda>v.
           bindR (resolve_name (cf_ir C) field) (\<lambda>f. Inr (struct_field f v))) of
        Inl err \<Rightarrow> (Inl err, st)
      | Inr None \<Rightarrow> (Inr 0, st)
      | Inr (Some v) \<Rightarrow>
          bindS (exec_op C body (set_env ((st_env st)(var \<mapsto> v)) st))
            (\<lambda>n st1. (Inr n, set_env ((st_env st1)(var := None)) st1)))"
| "exec_op C (IterateList source var body) st =
     (case eval_operand (cf_ir C) (st_env st) source of
        Inl err \<Rightarrow> (Inl err, st)
      | Inr v \<Rightarrow>
          (case v of
             Compound KList elems \<Rightarrow>
               bindS (for_each (\<lambda>x st1. exec_op C body (set_env ((st_env st1)(var \<mapsto> x)) st1)) elems st)
                 (\<lambda>n st1. (Inr n, set_env ((st_env st1)(var := None)) st1))
           | _ \<Rightarrow> (Inr 0, st)))"

definition execute :: "'s interp_cfg \<Rightarrow> op \<Rightarrow> 's istate \<Rightarrow> nat result \<times> 's istate" where
  "execute C p st = exec_op C p (set_env Map.empty st)"

end
