(* ===== verification/Interp_Correct.thy ===== *)
theory Interp_Correct
  imports Interp
begin

text \<open>
  What a run of the interpreter does.  \<open>derives\<close> is the declarative reading of a plan: the facts its
  \<open>Insert\<close>s produce under all choices of tuples from the scanned relations.  \<open>scoped\<close> is the
  discipline under which the single mutable environment of the source behaves like lexical scoping:
  an operation reads only variables bound around it and never rebinds one of those.  The main lemma
  shows, for every store that meets the contract \<open>fact_store\<close>, that a run inserts exactly the
  derivable facts, counts the insertions, and records one provenance entry per insertion.
\<close>

subsection \<open>The declarative reading of a plan\<close>

inductive derives :: "'s interp_cfg \<Rightarrow> 's \<Rightarrow> env \<Rightarrow> op \<Rightarrow> fact \<Rightarrow> bool" for C s where
  d_insert: "resolve_name (cf_ir C) rel = Inr nm \<Longrightarrow>
      traverseR (eval_operand (cf_ir C) e) args = Inr t \<Longrightarrow> derives C s e (InsertOp rel args) (nm, t)"
| d_seq: "p \<in> set ps \<Longrightarrow> derives C s e p f \<Longrightarrow> derives C s e (Seq ps) f"
| d_iterate: "collect_data_source C s e source = Inr (nm, ts) \<Longrightarrow> t \<in> set ts \<Longrightarrow>
      length t = length (source_vars source) \<Longrightarrow> derives C s (e(source_vars source [\<mapsto>] t)) body f \<Longrightarrow>
      derives C s e (Iterate source body) f"
| d_filter: "eval_cond C s e c = Inr True \<Longrightarrow> derives C s e body f \<Longrightarrow> derives C s e (FilterOp c body) f"
| d_let: "eval_expr C e x = Inr v \<Longrightarrow> derives C s (e(var \<mapsto> v)) body f \<Longrightarrow>
      derives C s e (LetOp var x body) f"
| d_join: "collect_data_source C s e build = Inr (bn, bts) \<Longrightarrow> collect_data_source C s e probe = Inr (pn, pts) \<Longrightarrow>
      key_positions bmsg join_keys (source_vars build) = Inr bps \<Longrightarrow>
      key_positions pmsg join_keys (source_vars probe) = Inr pps \<Longrightarrow>
      bt \<in> set bts \<Longrightarrow> length bt = length (source_vars build) \<Longrightarrow>
      pt \<in> set pts \<Longrightarrow> length pt = length (source_vars probe) \<Longrightarrow> proj bps bt = proj pps pt \<Longrightarrow>
      derives C s (e(source_vars probe [\<mapsto>] pt, source_vars build [\<mapsto>] bt)) body f \<Longrightarrow>
      derives C s e (HashJoin build probe join_keys body) f"
| d_field: "eval_operand (cf_ir C) e x = Inr sv \<Longrightarrow> resolve_name (cf_ir C) field = Inr fnm \<Longrightarrow>
      struct_field fnm sv = Some v \<Longrightarrow> derives C s (e(var \<mapsto> v)) body f \<Longrightarrow>
      derives C s e (MatchField x field var body) f"
| d_list: "eval_operand (cf_ir C) e x = Inr (Compound KList elems) \<Longrightarrow> v \<in> set elems \<Longrightarrow>
      derives C s (e(var \<mapsto> v)) body f \<Longrightarrow> derives C s e (IterateList x var body) f"

inductive_simps derives_simps:
  "derives C s e Nop f"
  "derives C s e (Seq ps) f"
  "derives C s e (Iterate source body) f"
  "derives C s e (FilterOp c body) f"
  "derives C s e (InsertOp rel args) f"
  "derives C s e (LetOp var x body) f"
  "derives C s e (HashJoin build probe join_keys body) f"
  "derives C s e (MatchField x field var body) f"
  "derives C s e (IterateList x var body) f"

subsection \<open>Scoping\<close>

fun operand_in :: "name_id set \<Rightarrow> operand \<Rightarrow> bool" where
  "operand_in V (OVar v) = (v \<in> V)"
| "operand_in V (OConst _) = True"

fun expr_in :: "name_id set \<Rightarrow> expr \<Rightarrow> bool" where
  "expr_in V (ValueE x) = operand_in V x"
| "expr_in V (CallE _ args) = list_all (operand_in V) args"

fun cond_in :: "name_id set \<Rightarrow> condition \<Rightarrow> bool" where
  "cond_in V (Cmp _ l r) = (operand_in V l \<and> operand_in V r)"
| "cond_in V (Negation _ args) = list_all (operand_in V) args"
| "cond_in V (CallC _ args) = list_all (operand_in V) args"
| "cond_in V (NotC c) = cond_in V c"

fun source_in :: "name_id set \<Rightarrow> data_source \<Rightarrow> bool" where
  "source_in V (IndexLookup _ _ key _) = operand_in V key"
| "source_in V _ = True"

fun scoped :: "name_id set \<Rightarrow> op \<Rightarrow> bool" where
  "scoped V Nop = True"
| "scoped V (Seq ps) = list_all (scoped V) ps"
| "scoped V (Iterate src body) =
     (source_in V src \<and> set (source_vars src) \<inter> V = {} \<and> scoped (V \<union> set (source_vars src)) body)"
| "scoped V (FilterOp c body) = (cond_in V c \<and> scoped V body)"
| "scoped V (InsertOp _ args) = list_all (operand_in V) args"
| "scoped V (LetOp v x body) = (expr_in V x \<and> v \<notin> V \<and> scoped (insert v V) body)"
| "scoped V (HashJoin b p _ body) =
     (source_in V b \<and> source_in V p \<and> set (source_vars b) \<inter> V = {} \<and> set (source_vars p) \<inter> V = {} \<and>
      scoped (V \<union> set (source_vars p) \<union> set (source_vars b)) body)"
| "scoped V (GroupBy _ _ _ _ _) = False"
| "scoped V (MatchField x _ v body) = (operand_in V x \<and> v \<notin> V \<and> scoped (insert v V) body)"
| "scoped V (IterateList x v body) = (operand_in V x \<and> v \<notin> V \<and> scoped (insert v V) body)"

definition agree :: "name_id set \<Rightarrow> env \<Rightarrow> env \<Rightarrow> bool" where
  "agree V e e' \<longleftrightarrow> (\<forall>v\<in>V. e v = e' v)"

lemma agree_refl [simp]: "agree V e e"
  by (simp add: agree_def)

lemma map_upds_in:
  "length vs = length t \<Longrightarrow> v \<in> set vs \<Longrightarrow> (m(vs [\<mapsto>] t)) v = (m'(vs [\<mapsto>] t)) v"
proof -
  assume "length vs = length t" "v \<in> set vs"
  then have "map_of (rev (zip vs t)) v \<noteq> None"
    by (simp add: map_of_eq_None_iff image_set [symmetric] flip: set_map)
  then show ?thesis
    by (auto simp: map_upds_def map_add_def)
qed

lemma agree_upds:
  assumes "agree V e e'" "length t = length vs"
  shows "agree (V \<union> set vs) (e(vs [\<mapsto>] t)) (e'(vs [\<mapsto>] t))"
  unfolding agree_def
proof
  fix v
  assume "v \<in> V \<union> set vs"
  then show "(e(vs [\<mapsto>] t)) v = (e'(vs [\<mapsto>] t)) v"
    using assms map_upds_in [of vs t v e e'] by (cases "v \<in> set vs") (auto simp: agree_def)
qed

lemma agree_upd: "agree V e e' \<Longrightarrow> agree (insert v V) (e(v := x)) (e'(v := x))"
  by (simp add: agree_def)

lemma agree_upds_drop: "agree (V \<union> set vs) (e(vs [\<mapsto>] t)) e' \<Longrightarrow> set vs \<inter> V = {} \<Longrightarrow> agree V e e'"
  unfolding agree_def by (metis UnI1 disjoint_iff map_upds_apply_nontin)

lemma agree_upd_drop: "agree (insert v V) (e(v := x)) e' \<Longrightarrow> v \<notin> V \<Longrightarrow> agree V e e'"
  by (auto simp: agree_def split: if_splits)

lemma agree_weaken: "agree W e e' \<Longrightarrow> V \<subseteq> W \<Longrightarrow> agree V e e'"
  by (auto simp: agree_def)

lemma agree_operand: "agree V e e' \<Longrightarrow> operand_in V x \<Longrightarrow> eval_operand m e' x = eval_operand m e x"
  by (cases x) (simp_all add: agree_def)

lemma agree_operands:
  "agree V e e' \<Longrightarrow> list_all (operand_in V) xs \<Longrightarrow>
     traverseR (eval_operand m e') xs = traverseR (eval_operand m e) xs"
  by (induction xs) (simp_all add: agree_operand)

lemma agree_expr: "agree V e e' \<Longrightarrow> expr_in V x \<Longrightarrow> eval_expr C e' x = eval_expr C e x"
  by (cases x) (simp_all add: agree_operand agree_operands)

lemma agree_matches:
  "agree V e e' \<Longrightarrow> list_all (operand_in V) xs \<Longrightarrow> matches_args m e' xs t = matches_args m e xs t"
  by (induction m e xs t rule: matches_args.induct) (auto simp: agree_operand intro!: bindR_cong)

lemma agree_no_match:
  "agree V e e' \<Longrightarrow> list_all (operand_in V) xs \<Longrightarrow> no_match m e' xs = no_match m e xs"
proof
  fix ts
  assume "agree V e e'" "list_all (operand_in V) xs"
  then show "no_match m e' xs ts = no_match m e xs ts"
    by (induction ts) (simp_all add: agree_matches cong: if_cong)
qed

lemma agree_cond: "agree V e e' \<Longrightarrow> cond_in V c \<Longrightarrow> eval_cond C s e' c = eval_cond C s e c"
  by (induction c) (simp_all add: agree_operand agree_operands agree_no_match)

lemma agree_source:
  "agree V e e' \<Longrightarrow> source_in V src \<Longrightarrow> collect_data_source C s e' src = collect_data_source C s e src"
  by (cases src) (simp_all add: agree_operand)

subsection \<open>Hash tables of tuples\<close>

text \<open>A table built by \<open>add_group\<close> lists, for each key, the tuples added under it, in order.\<close>

lemma map_of_add_group:
  "map_of (add_group key t tab) k =
     (if k = key then Some ((case map_of tab key of None \<Rightarrow> [] | Some ts \<Rightarrow> ts) @ [t]) else map_of tab k)"
  by (induction tab) auto

lemma build_table_lookup:
  "(case map_of (build_table ps n ts tab) k of None \<Rightarrow> [] | Some us \<Rightarrow> us) =
     (case map_of tab k of None \<Rightarrow> [] | Some us \<Rightarrow> us) @ filter (\<lambda>t. length t = n \<and> proj ps t = k) ts"
proof (induction ts arbitrary: tab)
  case (Cons t ts)
  show ?case
    unfolding build_table.simps Cons.IH by (auto simp: map_of_add_group split: option.splits)
qed simp

lemma build_table_match:
  "(case map_of (build_table ps n ts []) k of None \<Rightarrow> [] | Some us \<Rightarrow> us) =
     filter (\<lambda>t. length t = n \<and> proj ps t = k) ts"
  using build_table_lookup [of ps n ts "[]" k] by simp

subsection \<open>Runs\<close>

context fact_store
begin

text \<open>The facts a plan can read: a run never changes them.\<close>

definition readable :: "'s \<Rightarrow> fact set" where
  "readable s = {(r, t). t \<in> set (old s r @ dl s r)}"

definition base :: "'s \<Rightarrow> 's \<Rightarrow> bool" where
  "base s s' \<longleftrightarrow> inv s \<and> inv s' \<and> old s' = old s \<and> dl s' = dl s"

lemma base_refl: "inv s \<Longrightarrow> base s s"
  by (simp add: base_def)

lemma base_grows: "base s s1 \<Longrightarrow> grows s1 N s2 \<Longrightarrow> base s s2"
  by (simp add: base_def grows_def)

lemma base_source:
  "cf_store C = S \<Longrightarrow> base s s' \<Longrightarrow> collect_data_source C s' e src = collect_data_source C s e src"
  by (cases src) (simp_all add: base_def scan scan_delta scan_index_cong [of s s'])

lemma base_cond: "cf_store C = S \<Longrightarrow> base s s' \<Longrightarrow> eval_cond C s' e c = eval_cond C s e c"
  by (induction c) (simp_all add: base_def scan)

lemma source_readable:
  assumes "cf_store C = S" "inv s" "collect_data_source C s e src = Inr (nm, ts)" "t \<in> set ts"
  shows "(nm, t) \<in> readable s"
proof (cases src)
  case (IndexLookup rel col key vars)
  then obtain k where "so_scan_index S s nm col k = Inr ts"
    using assms by auto
  then have "set ts \<subseteq> set (old s nm @ dl s nm)"
    using scan_index [OF assms(2), of nm col k] by auto
  then show ?thesis
    using assms(4) by (auto simp: readable_def)
qed (use assms in \<open>auto simp: readable_def scan scan_delta\<close>)

text \<open>\<open>stored s f\<close>: the fact is there, or its relation has another arity and the store refuses
  it.  Both last.\<close>

definition stored :: "'s \<Rightarrow> fact \<Rightarrow> bool" where
  "stored s f \<longleftrightarrow> f \<in> facts s \<or> (\<exists>n. ar s (fst f) = Some n \<and> n \<noteq> length (snd f))"

lemma stored_grows: "stored s f \<Longrightarrow> grows s N s' \<Longrightarrow> stored s' f"
proof -
  assume st: "stored s f" and g: "grows s N s'"
  have "ar s' (fst f) = ar s (fst f)" if "ar s (fst f) \<noteq> None"
    using g that unfolding grows_def by blast
  then show ?thesis
    using st grows_facts [OF g] by (auto simp: stored_def)
qed

text \<open>A run from \<open>st\<close> with outcome \<open>p\<close>: a log of insertions within \<open>D\<close>; on success the count is the
  length of the log, the variables of the scope keep their values and all of \<open>D\<close> is stored.\<close>

definition exact :: "name_id set \<Rightarrow> env \<Rightarrow> fact set \<Rightarrow> 's istate \<Rightarrow> nat result \<times> 's istate \<Rightarrow> bool" where
  "exact V e D st p \<longleftrightarrow>
     (\<exists>N. grows (st_store st) N (st_store (snd p)) \<and> set N \<subseteq> D \<and>
        (\<forall>n. fst p = Inr n \<longrightarrow> n = length N \<and> agree V e (st_env (snd p)) \<and>
           (\<forall>f\<in>D. stored (st_store (snd p)) f)))"

lemma exact_Inl: "inv (st_store st) \<Longrightarrow> exact V e D st (Inl err, st)"
  unfolding exact_def by (rule exI [of _ "[]"]) (simp add: grows_refl)

lemma exact_none: "inv (st_store st) \<Longrightarrow> agree V e (st_env st) \<Longrightarrow> exact V e {} st (Inr 0, st)"
  unfolding exact_def by (rule exI [of _ "[]"]) (simp add: grows_refl)

lemma exact_weaken:
  "exact W e' D st p \<Longrightarrow> (\<And>n. fst p = Inr n \<Longrightarrow> agree W e' (st_env (snd p)) \<Longrightarrow> agree V e (st_env (snd p))) \<Longrightarrow>
     exact V e D st p"
  unfolding exact_def by blast

text \<open>The outcome does not depend on the state's environment or recorder being changed before.\<close>

lemma exact_start: "exact V e D st1 p \<Longrightarrow> st_store st1 = st_store st \<Longrightarrow> exact V e D st p"
  by (simp add: exact_def)

lemma exact_after:
  assumes "exact V e D st p" "\<And>st'. st_store (g st') = st_store st'"
    and "\<And>n st'. p = (Inr n, st') \<Longrightarrow> agree V e (st_env st') \<Longrightarrow> agree W e' (st_env (g st'))"
  shows "exact W e' D st (bindS p (\<lambda>n st'. (Inr n, g st')))"
proof (cases p)
  case (Pair r st')
  then show ?thesis
    using assms by (cases r) (auto simp: exact_def)
qed

lemma for_each_exact:
  assumes "base s (st_store st)" "agree V e (st_env st)"
    and "\<And>x st1. x \<in> set xs \<Longrightarrow> base s (st_store st1) \<Longrightarrow> agree V e (st_env st1) \<Longrightarrow>
           exact V e (D x) st1 (f x st1)"
  shows "exact V e (\<Union>x\<in>set xs. D x) st (for_each f xs st)"
  using assms
proof (induction xs arbitrary: st)
  case Nil
  then show ?case by (simp add: exact_none base_def)
next
  case (Cons x xs)
  obtain r st1 where p: "f x st = (r, st1)"
    by (cases "f x st")
  obtain N where N: "grows (st_store st) N (st_store st1)" "set N \<subseteq> D x"
    "\<And>n. r = Inr n \<Longrightarrow> n = length N \<and> agree V e (st_env st1) \<and> (\<forall>f\<in>D x. stored (st_store st1) f)"
    using Cons.prems(3) [of x st] Cons.prems(1,2) p by (auto simp: exact_def)
  show ?case
  proof (cases r)
    case (Inl err)
    then show ?thesis
      using N p by (auto simp: exact_def)
  next
    case (Inr n)
    have "exact V e (\<Union>x\<in>set xs. D x) st1 (for_each f xs st1)"
      by (rule Cons.IH) (use base_grows [OF Cons.prems(1) N(1)] N(3) [OF Inr] Cons.prems(3) in auto)
    then obtain M where M: "grows (st_store st1) M (st_store (snd (for_each f xs st1)))"
      "set M \<subseteq> (\<Union>x\<in>set xs. D x)"
      "\<And>n. fst (for_each f xs st1) = Inr n \<Longrightarrow> n = length M \<and> agree V e (st_env (snd (for_each f xs st1))) \<and>
         (\<forall>h\<in>(\<Union>x\<in>set xs. D x). stored (st_store (snd (for_each f xs st1))) h)"
      unfolding exact_def by blast
    obtain r2 st2 where q: "for_each f xs st1 = (r2, st2)"
      by (cases "for_each f xs st1")
    have g: "grows (st_store st) (N @ M) (st_store st2)"
      using grows_trans [OF N(1) M(1)] q by simp
    have keep: "\<And>f. f \<in> D x \<Longrightarrow> stored (st_store st2) f"
      using N(3) [OF Inr] M(1) stored_grows q by auto
    show ?thesis
      unfolding exact_def
      by (rule exI [of _ "N @ M"]) (use p Inr q g keep N(2,3) M(2,3) in \<open>cases r2; force\<close>)
  qed
qed


subsection \<open>A run inserts exactly what the plan derives\<close>

lemma insert_exact:
  assumes "cf_store C = S" "base s (st_store st)" "agree V e (st_env st)" "list_all (operand_in V) args"
  shows "exact V e {f. derives C s e (InsertOp rel args) f} st (exec_insert C rel args st)"
proof -
  let ?D = "{f. derives C s e (InsertOp rel args) f}"
  have inv: "inv (st_store st)"
    using assms(2) by (simp add: base_def)
  have args: "traverseR (eval_operand (cf_ir C) (st_env st)) args = traverseR (eval_operand (cf_ir C) e) args"
    using assms(3,4) by (rule agree_operands)
  show ?thesis
  proof (cases "resolve_name (cf_ir C) rel")
    case (Inl err)
    then show ?thesis using exact_Inl [OF inv] by (simp add: exec_insert_def)
  next
    case nm: (Inr nm)
    show ?thesis
    proof (cases "traverseR (eval_operand (cf_ir C) e) args")
      case (Inl err)
      then show ?thesis using exact_Inl [OF inv] nm args by (simp add: exec_insert_def)
    next
      case t: (Inr t)
      obtain b s' where ins: "so_insert S nm t (st_store st) = Inr (b, s')"
        "grows (st_store st) (if b then [(nm, t)] else []) s'"
        "(nm, t) \<in> facts s' \<or> \<not> (ar (st_store st) nm = None \<or> ar (st_store st) nm = Some (length t))"
        by (rule insert_grows [OF inv])
      have D: "?D = {(nm, t)}"
        using nm t by (auto simp: derives_simps)
      have "stored s' (nm, t)"
        using ins(3) stored_grows [OF _ ins(2), of "(nm, t)"] by (auto simp: stored_def)
      then show ?thesis
        using assms(1,3) nm t args ins(1,2) unfolding D exact_def
        by (intro exI [of _ "if b then [(nm, t)] else []"])
           (cases b; simp add: exec_insert_def record_derivation_def Let_def)
    qed
  qed
qed

text \<open>The statement proved for each operation from the same statement for its body.\<close>

definition plan_exact :: "'s interp_cfg \<Rightarrow> 's \<Rightarrow> op \<Rightarrow> bool" where
  "plan_exact C s p \<longleftrightarrow>
     (\<forall>V e st. base s (st_store st) \<longrightarrow> agree V e (st_env st) \<longrightarrow> scoped V p \<longrightarrow>
        exact V e {f. derives C s e p f} st (exec_op C p st))"

lemma plan_exactD:
  "plan_exact C s p \<Longrightarrow> base s (st_store st) \<Longrightarrow> agree V e (st_env st) \<Longrightarrow> scoped V p \<Longrightarrow>
     exact V e {f. derives C s e p f} st (exec_op C p st)"
  unfolding plan_exact_def by blast

lemma source_static:
  "cf_store C = S \<Longrightarrow> base s (st_store st) \<Longrightarrow> agree V e (st_env st) \<Longrightarrow> source_in V src \<Longrightarrow>
     collect_data_source C (st_store st) (st_env st) src = collect_data_source C s e src"
  by (metis agree_source base_source)

text \<open>Running the body with variables bound and dropping the bindings from the scope again.\<close>

lemma bound_body_exact:
  assumes body: "plan_exact C s body" and st: "base s (st_store st)" "agree V e (st_env st)"
    and vs: "set vs \<inter> V = {}" "length t = length vs" "scoped (V \<union> set vs) body"
    and g: "\<And>st. st_store (g st) = st_store st" "\<And>st. st_env (g st) = st_env st"
  shows "exact V e {f. derives C s (e(vs [\<mapsto>] t)) body f} st
    (exec_op C body (g (set_env ((st_env st)(vs [\<mapsto>] t)) st)))"
proof -
  let ?st = "g (set_env ((st_env st)(vs [\<mapsto>] t)) st)"
  have "exact (V \<union> set vs) (e(vs [\<mapsto>] t)) {f. derives C s (e(vs [\<mapsto>] t)) body f} ?st (exec_op C body ?st)"
    by (rule plan_exactD [OF body _ _ vs(3)]) (use st vs(2) g in \<open>simp_all add: agree_upds set_env_def\<close>)
  then have "exact V e {f. derives C s (e(vs [\<mapsto>] t)) body f} ?st (exec_op C body ?st)"
    by (rule exact_weaken) (rule agree_upds_drop [OF _ vs(1)])
  then show ?thesis
    by (rule exact_start) (simp add: g set_env_def)
qed

lemma bound_var_exact:
  assumes "plan_exact C s body" "base s (st_store st)" "agree V e (st_env st)"
    and "v \<notin> V" "scoped (insert v V) body"
  shows "exact V e {f. derives C s (e(v \<mapsto> x)) body f} st
    (exec_op C body (set_env ((st_env st)(v \<mapsto> x)) st))"
  using bound_body_exact [OF assms(1-3), of "[v]" "[x]" "\<lambda>st. st"] assms(4,5) by simp

lemma iterate_exact:
  assumes C: "cf_store C = S" and body: "plan_exact C s body"
  shows "plan_exact C s (Iterate src body)"
  unfolding plan_exact_def
proof (intro allI impI)
  fix V e and st :: "'s istate"
  assume st: "base s (st_store st)" "agree V e (st_env st)" and sc: "scoped V (Iterate src body)"
  let ?vs = "source_vars src"
  have inv: "inv (st_store st)"
    using st(1) by (simp add: base_def)
  have src: "collect_data_source C (st_store st) (st_env st) src = collect_data_source C s e src"
    by (rule source_static [OF C st]) (use sc in simp)
  show "exact V e {f. derives C s e (Iterate src body) f} st (exec_op C (Iterate src body) st)"
  proof (cases "collect_data_source C s e src")
    case (Inl err)
    then show ?thesis using exact_Inl [OF inv] src by simp
  next
    case (Inr q)
    obtain nm ts where q: "q = (nm, ts)"
      by (cases q)
    let ?D = "\<lambda>t. {f. length t = length ?vs \<and> derives C s (e(?vs [\<mapsto>] t)) body f}"
    let ?f = "\<lambda>t st1. if length t \<noteq> length ?vs then (Inr 0, st1)
      else bindS (exec_op C body (push_premise (nm, t) (set_env ((st_env st1)(?vs [\<mapsto>] t)) st1)))
        (\<lambda>n st2. (Inr n, pop_premise st2))"
    have step: "exact V e (?D t) st1 (?f t st1)"
      if "base s (st_store st1)" "agree V e (st_env st1)" for t and st1 :: "'s istate"
    proof (cases "length t = length ?vs")
      case True
      have "exact V e {f. derives C s (e(?vs [\<mapsto>] t)) body f} st1
          (exec_op C body (push_premise (nm, t) (set_env ((st_env st1)(?vs [\<mapsto>] t)) st1)))"
        by (rule bound_body_exact [OF body that]) (use sc True in \<open>simp_all add: push_premise_def\<close>)
      then show ?thesis
        using True by (simp, elim exact_after) (simp_all add: pop_premise_def)
    qed (use that in \<open>simp add: exact_none base_def\<close>)
    have "exact V e (\<Union>t\<in>set ts. ?D t) st (for_each ?f ts st)"
      by (rule for_each_exact [OF st step])
    moreover have "(\<Union>t\<in>set ts. ?D t) = {f. derives C s e (Iterate src body) f}"
      using Inr q by (auto simp: derives_simps)
    ultimately show ?thesis
      using src Inr q by simp
  qed
qed

lemma filter_exact:
  assumes C: "cf_store C = S" and body: "plan_exact C s body"
  shows "plan_exact C s (FilterOp c body)"
  unfolding plan_exact_def
proof (intro allI impI)
  fix V e and st :: "'s istate"
  assume st: "base s (st_store st)" "agree V e (st_env st)" and sc: "scoped V (FilterOp c body)"
  have inv: "inv (st_store st)"
    using st(1) by (simp add: base_def)
  have c: "eval_cond C (st_store st) (st_env st) c = eval_cond C s e c"
    using base_cond [OF C st(1)] agree_cond [OF st(2)] sc by (metis scoped.simps(4))
  show "exact V e {f. derives C s e (FilterOp c body) f} st (exec_op C (FilterOp c body) st)"
  proof (cases "eval_cond C s e c")
    case (Inl err)
    then show ?thesis using exact_Inl [OF inv] c by simp
  next
    case (Inr b)
    then show ?thesis
      using plan_exactD [OF body st] sc c exact_none [OF inv st(2)]
      by (cases b) (simp_all add: derives_simps)
  qed
qed

lemma let_exact:
  assumes "cf_store C = S" and body: "plan_exact C s body"
  shows "plan_exact C s (LetOp v x body)"
  unfolding plan_exact_def
proof (intro allI impI)
  fix V e and st :: "'s istate"
  assume st: "base s (st_store st)" "agree V e (st_env st)" and sc: "scoped V (LetOp v x body)"
  have x: "eval_expr C (st_env st) x = eval_expr C e x"
    by (rule agree_expr [OF st(2)]) (use sc in simp)
  show "exact V e {f. derives C s e (LetOp v x body) f} st (exec_op C (LetOp v x body) st)"
  proof (cases "eval_expr C e x")
    case (Inl err)
    then show ?thesis using exact_Inl st(1) x by (simp add: base_def)
  next
    case (Inr w)
    then show ?thesis
      using bound_var_exact [OF body st, of v w] sc x by (simp add: derives_simps)
  qed
qed

lemma match_field_exact:
  assumes "cf_store C = S" and body: "plan_exact C s body"
  shows "plan_exact C s (MatchField x field v body)"
  unfolding plan_exact_def
proof (intro allI impI)
  fix V e and st :: "'s istate"
  assume st: "base s (st_store st)" "agree V e (st_env st)" and sc: "scoped V (MatchField x field v body)"
  let ?r = "bindR (eval_operand (cf_ir C) e x) (\<lambda>v. bindR (resolve_name (cf_ir C) field) (\<lambda>f. Inr (struct_field f v)))"
  have inv: "inv (st_store st)"
    using st(1) by (simp add: base_def)
  have x: "eval_operand (cf_ir C) (st_env st) x = eval_operand (cf_ir C) e x"
    using agree_operand [OF st(2)] sc by simp
  show "exact V e {f. derives C s e (MatchField x field v body) f} st (exec_op C (MatchField x field v body) st)"
  proof (cases ?r)
    case (Inl err)
    then show ?thesis using exact_Inl [OF inv] x by simp
  next
    case (Inr q)
    show ?thesis
    proof (cases q)
      case None
      then have D: "{f. derives C s e (MatchField x field v body) f} = {}"
        using Inr by (auto simp: derives_simps)
      show ?thesis
        unfolding D exec_op.simps x Inr None sum.case option.case by (rule exact_none [OF inv st(2)])
    next
      case (Some w)
      then have D: "{f. derives C s e (MatchField x field v body) f} = {f. derives C s (e(v \<mapsto> w)) body f}"
        using Inr by (auto simp: derives_simps)
      show ?thesis
        unfolding D exec_op.simps x Inr Some sum.case option.case
        by (rule exact_after [OF bound_var_exact [OF body st]])
           (use sc in \<open>auto simp: set_env_def agree_def\<close>)
    qed
  qed
qed

lemma iterate_list_exact:
  assumes "cf_store C = S" and body: "plan_exact C s body"
  shows "plan_exact C s (IterateList x v body)"
  unfolding plan_exact_def
proof (intro allI impI)
  fix V e and st :: "'s istate"
  assume st: "base s (st_store st)" "agree V e (st_env st)" and sc: "scoped V (IterateList x v body)"
  let ?p = "IterateList x v body"
  have inv: "inv (st_store st)"
    using st(1) by (simp add: base_def)
  have x: "eval_operand (cf_ir C) (st_env st) x = eval_operand (cf_ir C) e x"
    using agree_operand [OF st(2)] sc by simp
  show "exact V e {f. derives C s e ?p f} st (exec_op C ?p st)"
  proof (cases "\<exists>es. eval_operand (cf_ir C) e x = Inr (Compound KList es)")
    case True
    then obtain es where es: "eval_operand (cf_ir C) e x = Inr (Compound KList es)"
      by blast
    have D: "{f. derives C s e ?p f} = (\<Union>w\<in>set es. {f. derives C s (e(v \<mapsto> w)) body f})"
      using es by (auto simp: derives_simps)
    have "exact V e (\<Union>w\<in>set es. {f. derives C s (e(v \<mapsto> w)) body f}) st
        (for_each (\<lambda>w st1. exec_op C body (set_env ((st_env st1)(v \<mapsto> w)) st1)) es st)"
      by (rule for_each_exact [OF st bound_var_exact [OF body]]) (use sc in simp_all)
    then have "exact V e (\<Union>w\<in>set es. {f. derives C s (e(v \<mapsto> w)) body f}) st
        (bindS (for_each (\<lambda>w st1. exec_op C body (set_env ((st_env st1)(v \<mapsto> w)) st1)) es st)
          (\<lambda>n st1. (Inr n, set_env ((st_env st1)(v := None)) st1)))"
      by (rule exact_after) (use sc in \<open>auto simp: set_env_def agree_def\<close>)
    then show ?thesis
      using es x by (simp add: D)
  next
    case False
    then have D: "{f. derives C s e ?p f} = {}"
      by (auto simp: derives_simps)
    show ?thesis
      unfolding D using False x exact_Inl [OF inv] exact_none [OF inv st(2)]
      by (cases "eval_operand (cf_ir C) e x") (auto split: mvalue.splits compound_kind.splits)
  qed
qed

lemma hash_join_step:
  assumes body: "plan_exact C s body" and st: "base s (st_store st)" "agree V e (st_env st)"
    and sc: "set bv \<inter> V = {}" "set pv \<inter> V = {}" "scoped (V \<union> set pv \<union> set bv) body"
    and len: "length pt = length pv" "\<And>bt. bt \<in> set bts \<Longrightarrow> length bt = length bv"
  shows "exact V e (\<Union>bt\<in>set bts. {f. derives C s (e(pv [\<mapsto>] pt, bv [\<mapsto>] bt)) body f}) st
    (for_each (\<lambda>bt st2. exec_op C body (set_env ((st_env st2)(bv [\<mapsto>] bt)) st2)) bts
      (set_env ((st_env st)(pv [\<mapsto>] pt)) st))"
proof -
  text \<open>Between matches the scope is the outer one and the probe's own variables.\<close>
  let ?W = "V \<union> (set pv - set bv)" and ?e = "e(pv [\<mapsto>] pt)"
  let ?st = "set_env ((st_env st)(pv [\<mapsto>] pt)) st"
  have start: "base s (st_store ?st)" "agree ?W ?e (st_env ?st)"
    using st agree_weaken [OF agree_upds [OF st(2) len(1)], of ?W] by (auto simp: set_env_def)
  have W: "set bv \<inter> ?W = {}" "?W \<union> set bv = V \<union> set pv \<union> set bv"
    using sc(1) by auto
  have step: "exact ?W ?e {f. derives C s (?e(bv [\<mapsto>] bt)) body f} st2
      (exec_op C body (set_env ((st_env st2)(bv [\<mapsto>] bt)) st2))"
    if "bt \<in> set bts" "base s (st_store st2)" "agree ?W ?e (st_env st2)" for bt st2
    by (rule bound_body_exact [OF body that(2,3) W(1), where g = "\<lambda>st. st"])
       (use sc(3) len(2) [OF that(1)] W(2) in simp_all)
  have "exact ?W ?e (\<Union>bt\<in>set bts. {f. derives C s (?e(bv [\<mapsto>] bt)) body f}) ?st
      (for_each (\<lambda>bt st2. exec_op C body (set_env ((st_env st2)(bv [\<mapsto>] bt)) st2)) bts ?st)"
    by (rule for_each_exact [OF start step])
  then have "exact V e (\<Union>bt\<in>set bts. {f. derives C s (?e(bv [\<mapsto>] bt)) body f}) ?st
      (for_each (\<lambda>bt st2. exec_op C body (set_env ((st_env st2)(bv [\<mapsto>] bt)) st2)) bts ?st)"
  proof (rule exact_weaken)
    fix st' :: env
    show "agree ?W ?e st' \<Longrightarrow> agree V e st'"
      unfolding agree_def using sc(2) by (metis UnI1 disjoint_iff map_upds_apply_nontin)
  qed
  then show ?thesis
    by (rule exact_start) (simp add: set_env_def)
qed

lemma key_positions_msg: "key_positions m1 ks vs = Inr ps \<Longrightarrow> key_positions m2 ks vs = Inr ps"
  unfolding key_positions_def
  by (induction ks arbitrary: ps) (auto simp del: position_None split: option.splits)

lemma derives_join_iff:
  assumes "collect_data_source C s e b = Inr (bn, bts)" "collect_data_source C s e p = Inr (pn, pts)"
    and "key_positions bmsg ks (source_vars b) = Inr bps" "key_positions pmsg ks (source_vars p) = Inr pps"
  shows "derives C s e (HashJoin b p ks body) f \<longleftrightarrow>
    (\<exists>pt\<in>set pts. length pt = length (source_vars p) \<and>
      (\<exists>bt\<in>set bts. length bt = length (source_vars b) \<and> proj bps bt = proj pps pt \<and>
         derives C s (e(source_vars p [\<mapsto>] pt, source_vars b [\<mapsto>] bt)) body f))"
proof
  assume "derives C s e (HashJoin b p ks body) f"
  then show "\<exists>pt\<in>set pts. length pt = length (source_vars p) \<and>
      (\<exists>bt\<in>set bts. length bt = length (source_vars b) \<and> proj bps bt = proj pps pt \<and>
         derives C s (e(source_vars p [\<mapsto>] pt, source_vars b [\<mapsto>] bt)) body f)"
  proof cases
    case (d_join bn' bts' pn' pts' bmsg' bps' pmsg' pps' bt pt)
    have "bps' = bps" "pps' = pps"
      using key_positions_msg [OF d_join(3), of bmsg] key_positions_msg [OF d_join(4), of pmsg] assms(3,4)
      by simp_all
    then show ?thesis
      using d_join assms(1,2) by auto
  qed
qed (use d_join [OF assms] in blast)

lemma hash_join_exact:
  assumes C: "cf_store C = S" and body: "plan_exact C s body"
  shows "plan_exact C s (HashJoin b p ks body)"
  unfolding plan_exact_def
proof (intro allI impI)
  fix V e and st :: "'s istate"
  let ?p = "HashJoin b p ks body" and ?bv = "source_vars b" and ?pv = "source_vars p"
  assume st: "base s (st_store st)" "agree V e (st_env st)" and sc: "scoped V ?p"
  let ?r = "bindR (collect_data_source C s e b) (\<lambda>(_, bts).
     bindR (key_positions ''HashJoin: join key not in build_source vars'' ks ?bv) (\<lambda>bps.
     bindR (collect_data_source C s e p) (\<lambda>(_, pts).
     bindR (key_positions ''HashJoin: join key not in probe_source vars'' ks ?pv) (\<lambda>pps.
       Inr (bts, bps, pts, pps)))))"
  have inv: "inv (st_store st)"
    using st(1) by (simp add: base_def)
  have src: "collect_data_source C (st_store st) (st_env st) b = collect_data_source C s e b"
    "collect_data_source C (st_store st) (st_env st) p = collect_data_source C s e p"
    by (rule source_static [OF C st]; use sc in simp)+
  show "exact V e {f. derives C s e ?p f} st (exec_op C ?p st)"
  proof (cases ?r)
    case (Inl err)
    show ?thesis
      unfolding exec_op.simps exec_hash_join_def src Inl sum.case by (rule exact_Inl [OF inv])
  next
    case (Inr q)
    then obtain bn bts bps pn pts pps where q: "q = (bts, bps, pts, pps)"
      and cb: "collect_data_source C s e b = Inr (bn, bts)" and cp: "collect_data_source C s e p = Inr (pn, pts)"
      and kb: "key_positions ''HashJoin: join key not in build_source vars'' ks ?bv = Inr bps"
      and kp: "key_positions ''HashJoin: join key not in probe_source vars'' ks ?pv = Inr pps"
      by auto
    let ?tab = "build_table bps (length ?bv) bts []"
    let ?m = "\<lambda>pt. filter (\<lambda>t. length t = length ?bv \<and> proj bps t = proj pps pt) bts"
    let ?D = "\<lambda>pt. if length pt = length ?pv
      then \<Union>bt\<in>set (?m pt). {f. derives C s (e(?pv [\<mapsto>] pt, ?bv [\<mapsto>] bt)) body f} else {}"
    let ?f = "\<lambda>pt st1. if length pt \<noteq> length ?pv then (Inr 0, st1)
      else case map_of ?tab (proj pps pt) of None \<Rightarrow> (Inr 0, st1)
        | Some matches \<Rightarrow> for_each (\<lambda>bt st2. exec_op C body (set_env ((st_env st2)(?bv [\<mapsto>] bt)) st2))
            matches (set_env ((st_env st1)(?pv [\<mapsto>] pt)) st1)"
    have step: "exact V e (?D pt) st1 (?f pt st1)"
      if "base s (st_store st1)" "agree V e (st_env st1)" for pt and st1 :: "'s istate"
    proof (cases "length pt = length ?pv \<and> map_of ?tab (proj pps pt) \<noteq> None")
      case True
      then have "map_of ?tab (proj pps pt) = Some (?m pt)"
        using build_table_match [of bps "length ?bv" bts "proj pps pt"] by auto
      then show ?thesis
        using True hash_join_step [OF body that, of ?bv ?pv pt "?m pt"] sc by auto
    next
      case False
      then have "length pt = length ?pv \<Longrightarrow> ?m pt = []"
        using build_table_match [of bps "length ?bv" bts "proj pps pt"] by auto
      then have "?D pt = {}" "?f pt st1 = (Inr 0, st1)"
        using False by auto
      then show ?thesis
        using exact_none that by (simp add: base_def)
    qed
    have D: "(\<Union>pt\<in>set pts. ?D pt) = {f. derives C s e ?p f}"
      by (auto simp: derives_join_iff [OF cb cp kb kp] split: if_splits)
    show ?thesis
      unfolding exec_op.simps exec_hash_join_def src Inr q sum.case prod.case Let_def D [symmetric]
      by (rule for_each_exact [OF st step])
  qed
qed

lemma exec_exact:
  assumes "cf_store C = S"
  shows "plan_exact C s p"
proof (induction p)
  case Nop
  then show ?case by (simp add: plan_exact_def derives_simps exact_none base_def)
next
  case (Seq ps)
  have "exact V e (\<Union>p\<in>set ps. {f. derives C s e p f}) st (for_each (exec_op C) ps st)"
    if "base s (st_store st)" "agree V e (st_env st)" "scoped V (Seq ps)" for V e st
    by (rule for_each_exact [OF that(1,2)]) (use Seq that(3) in \<open>auto simp: list_all_iff plan_exactD\<close>)
  moreover have "(\<Union>p\<in>set ps. {f. derives C s e p f}) = {f. derives C s e (Seq ps) f}" for e
    by (auto simp: derives_simps)
  ultimately show ?case by (simp add: plan_exact_def)
next
  case (InsertOp rel args)
  then show ?case
    unfolding plan_exact_def using insert_exact [OF assms] by simp
next
  case (GroupBy r vs ks as p)
  then show ?case by (simp add: plan_exact_def)
qed (simp_all add: assms iterate_exact filter_exact let_exact hash_join_exact match_field_exact
       iterate_list_exact)

end

end
