(* ===== verification/Interp_Prov.thy ===== *)
theory Interp_Prov
  imports Interp_Correct
begin

text \<open>
  Frame and provenance of a run, for every plan (no scoping needed, \<open>GroupBy\<close> included): a run only
  appends new facts to the next-delta tables, its count is the number of insertions, and a recorder
  gets exactly one entry per inserted fact, in order, whose premises are the active ones at the start
  followed by facts the run read from the store.
\<close>

context fact_store
begin

definition prov_rel :: "'s \<Rightarrow> fact list \<Rightarrow> bool \<Rightarrow> provenance_recorder option \<Rightarrow> provenance_recorder option \<Rightarrow> bool" where
  "prov_rel s N ok p p' \<longleftrightarrow>
     (case p of
        None \<Rightarrow> p' = None
      | Some pr \<Rightarrow> (\<exists>es pr'. p' = Some pr' \<and> prov_entries pr' = prov_entries pr @ es \<and> map derived es = N \<and>
          (ok \<longrightarrow> active_premises pr' = active_premises pr) \<and>
          (\<forall>x\<in>set es. \<exists>extra. prem_facts x = active_premises pr @ extra \<and> set extra \<subseteq> readable s)))"

lemma prov_rel_refl: "prov_rel s [] ok p p"
  by (auto simp: prov_rel_def split: option.splits)

lemma prov_rel_trans: "prov_rel s N True p p1 \<Longrightarrow> prov_rel s M ok p1 p2 \<Longrightarrow> prov_rel s (N @ M) ok p p2"
  by (fastforce simp: prov_rel_def split: option.splits)

definition traced :: "'s \<Rightarrow> 's istate \<Rightarrow> nat result \<times> 's istate \<Rightarrow> bool" where
  "traced s st p \<longleftrightarrow>
     (\<exists>N. grows (st_store st) N (st_store (snd p)) \<and> (\<forall>n. fst p = Inr n \<longrightarrow> n = length N) \<and>
        prov_rel s N (isl (fst p) = False) (st_prov st) (st_prov (snd p)))"

lemma traced_Inl: "inv (st_store st) \<Longrightarrow> traced s st (Inl err, st)"
  unfolding traced_def by (rule exI [of _ "[]"]) (simp add: grows_refl prov_rel_refl)

lemma traced_none: "inv (st_store st) \<Longrightarrow> traced s st (Inr 0, st)"
  unfolding traced_def by (rule exI [of _ "[]"]) (simp add: grows_refl prov_rel_refl)

lemma traced_start:
  "traced s st1 p \<Longrightarrow> st_store st1 = st_store st \<Longrightarrow> st_prov st1 = st_prov st \<Longrightarrow> traced s st p"
  by (simp add: traced_def)

lemma traced_after:
  assumes "traced s st p" "\<And>st'. st_store (g st') = st_store st'" "\<And>st'. st_prov (g st') = st_prov st'"
  shows "traced s st (bindS p (\<lambda>n st'. (Inr n, g st')))"
proof (cases p)
  case (Pair r st')
  then show ?thesis
    using assms by (cases r) (simp_all add: traced_def)
qed

lemma traced_bind:
  assumes "traced s st (Inr n, st1)" "traced s st1 q"
  shows "traced s st (bindS q (\<lambda>m st2. (Inr (n + m), st2)))"
proof -
  obtain N where N: "grows (st_store st) N (st_store st1)" "n = length N" "prov_rel s N True (st_prov st) (st_prov st1)"
    using assms(1) by (auto simp: traced_def)
  obtain M where M: "grows (st_store st1) M (st_store (snd q))" "\<And>m. fst q = Inr m \<Longrightarrow> m = length M"
    "prov_rel s M (isl (fst q) = False) (st_prov st1) (st_prov (snd q))"
    using assms(2) by (auto simp: traced_def)
  show ?thesis
    unfolding traced_def
    by (rule exI [of _ "N @ M"])
       (use N M grows_trans [OF N(1) M(1)] prov_rel_trans [OF N(3) M(3)] in
        \<open>cases q; cases "fst q"; simp\<close>)
qed

lemma traced_grows: "traced s st p \<Longrightarrow> base s (st_store st) \<Longrightarrow> base s (st_store (snd p))"
  unfolding traced_def using base_grows by blast

lemma for_each_traced:
  assumes "base s (st_store st)"
    and "\<And>x st1. x \<in> set xs \<Longrightarrow> base s (st_store st1) \<Longrightarrow> traced s st1 (f x st1)"
  shows "traced s st (for_each f xs st)"
  using assms
proof (induction xs arbitrary: st)
  case Nil
  then show ?case by (simp add: traced_none base_def)
next
  case (Cons x xs)
  obtain r st1 where p: "f x st = (r, st1)"
    by (cases "f x st")
  have t: "traced s st (r, st1)"
    using Cons.prems(2) [of x st] Cons.prems(1) p by simp
  show ?case
  proof (cases r)
    case (Inl err)
    then show ?thesis using t p by simp
  next
    case (Inr n)
    have "traced s st1 (for_each f xs st1)"
      by (rule Cons.IH) (use traced_grows [OF t Cons.prems(1)] Cons.prems(2) in auto)
    then show ?thesis
      using traced_bind t Inr p by simp
  qed
qed

text \<open>Around the body of an \<open>Iterate\<close> the scanned tuple is an active premise.\<close>

lemma traced_premise:
  assumes "f \<in> readable s" "traced s (push_premise f st) p"
  shows "traced s st (bindS p (\<lambda>n st2. (Inr n, pop_premise st2)))"
proof -
  obtain N where N: "grows (st_store st) N (st_store (snd p))" "\<And>n. fst p = Inr n \<Longrightarrow> n = length N"
    "prov_rel s N (isl (fst p) = False) (st_prov (push_premise f st)) (st_prov (snd p))"
    using assms(2) by (auto simp: traced_def push_premise_def)
  obtain r st' where p: "p = (r, st')"
    by (cases p)
  have out: "prov_rel s N (isl r = False) (st_prov st) (st_prov (if isl r then st' else pop_premise st'))"
  proof (cases "st_prov st")
    case None
    then show ?thesis
      using N(3) p by (simp add: prov_rel_def push_premise_def pop_premise_def)
  next
    case (Some pr)
    then obtain es pr' where es: "st_prov st' = Some pr'" "prov_entries pr' = prov_entries pr @ es" "map derived es = N"
      "isl r = False \<longrightarrow> active_premises pr' = active_premises pr @ [f]"
      "\<forall>x\<in>set es. \<exists>extra. prem_facts x = (active_premises pr @ [f]) @ extra \<and> set extra \<subseteq> readable s"
      using N(3) p by (auto simp: prov_rel_def push_premise_def)
    have "\<forall>x\<in>set es. \<exists>extra. prem_facts x = active_premises pr @ extra \<and> set extra \<subseteq> readable s"
      using es(5) assms(1) by (metis append_assoc append_Cons append_Nil insert_subset list.simps(15))
    then show ?thesis
      using Some es by (auto simp: prov_rel_def pop_premise_def)
  qed
  show ?thesis
    unfolding traced_def
    by (rule exI [of _ N]) (use N(1,2) out p in \<open>cases r; simp add: pop_premise_def\<close>)
qed

lemma insert_traced:
  assumes "cf_store C = S" "inv (st_store st)"
  shows "traced s st (exec_insert C rel args st)"
proof (cases "bindR (resolve_name (cf_ir C) rel) (\<lambda>nm.
    bindR (traverseR (eval_operand (cf_ir C) (st_env st)) args) (\<lambda>t. Inr (nm, t)))")
  case (Inl err)
  then have "exec_insert C rel args st = (Inl err, st)"
    by (cases "resolve_name (cf_ir C) rel"; cases "traverseR (eval_operand (cf_ir C) (st_env st)) args")
       (auto simp: exec_insert_def)
  then show ?thesis using traced_Inl [OF assms(2)] by simp
next
  case (Inr q)
  then obtain nm t where nm: "resolve_name (cf_ir C) rel = Inr nm"
    and t: "traverseR (eval_operand (cf_ir C) (st_env st)) args = Inr t"
    by auto
  obtain b s' where ins: "so_insert S nm t (st_store st) = Inr (b, s')"
    "grows (st_store st) (if b then [(nm, t)] else []) s'"
    by (rule insert_grows [OF assms(2)])
  show ?thesis
    unfolding traced_def
    by (rule exI [of _ "if b then [(nm, t)] else []"])
       (use assms(1) nm t ins in \<open>cases b; cases "st_prov st";
          auto simp: exec_insert_def record_derivation_def Let_def prov_rel_def\<close>)
qed

lemma env_traced:
  assumes "\<And>st. base s (st_store st) \<Longrightarrow> traced s st (exec_op C body st)" "base s (st_store st)"
  shows "traced s st (exec_op C body (set_env e st))"
  by (rule traced_start [OF assms(1)]) (use assms(2) in \<open>simp_all add: set_env_def\<close>)

lemma traced_Inl_env: "inv (st_store st) \<Longrightarrow> traced s st (Inl err, set_env e st)"
  using traced_Inl [of st s err] by (simp add: traced_def set_env_def)

lemma env_for_each_traced:
  assumes "base s (st_store st)"
    and "\<And>x st1. x \<in> set xs \<Longrightarrow> base s (st_store st1) \<Longrightarrow> traced s st1 (f x st1)"
  shows "traced s st (for_each f xs (set_env e st))"
  by (rule traced_start [OF for_each_traced]) (use assms in \<open>simp_all add: set_env_def\<close>)

lemma exec_traced:
  assumes C: "cf_store C = S"
  shows "base s (st_store st) \<Longrightarrow> traced s st (exec_op C p st)"
proof (induction p arbitrary: st)
  case Nop
  then show ?case by (simp add: traced_none base_def)
next
  case (Seq ps)
  then show ?case by (simp add: for_each_traced)
next
  case (Iterate src body)
  then have inv: "inv (st_store st)" "inv s"
    by (simp_all add: base_def)
  show ?case
  proof (cases "collect_data_source C (st_store st) (st_env st) src")
    case (Inl err)
    then show ?thesis using traced_Inl [OF inv(1)] by simp
  next
    case (Inr q)
    obtain nm ts where q: "q = (nm, ts)"
      by (cases q)
    have read: "(nm, t) \<in> readable s" if "t \<in> set ts" for t
      using source_readable [OF C inv(2), of "st_env st" src nm ts t] base_source [OF C Iterate.prems]
        Inr q that by simp
    show ?thesis
      unfolding exec_op.simps Inr q sum.case prod.case
    proof (rule for_each_traced [OF Iterate.prems])
      fix t and st1 :: "'s istate"
      assume t: "t \<in> set ts" and st1: "base s (st_store st1)"
      let ?st = "set_env ((st_env st1)(source_vars src [\<mapsto>] t)) st1"
      have "traced s (push_premise (nm, t) ?st) (exec_op C body (push_premise (nm, t) ?st))"
        by (rule Iterate.IH) (use st1 in \<open>simp add: push_premise_def set_env_def\<close>)
      then have "traced s ?st (bindS (exec_op C body (push_premise (nm, t) ?st)) (\<lambda>n st2. (Inr n, pop_premise st2)))"
        by (rule traced_premise [OF read [OF t]])
      then have "traced s st1 (bindS (exec_op C body (push_premise (nm, t) ?st)) (\<lambda>n st2. (Inr n, pop_premise st2)))"
        by (rule traced_start) (simp_all add: set_env_def)
      then show "traced s st1 (if length t \<noteq> length (source_vars src) then (Inr 0, st1)
          else bindS (exec_op C body (push_premise (nm, t) ?st)) (\<lambda>n st2. (Inr n, pop_premise st2)))"
        using traced_none st1 by (simp add: base_def)
    qed
  qed
next
  case (FilterOp c body)
  then show ?case
    using traced_Inl traced_none by (auto simp: base_def split: sum.splits)
next
  case (InsertOp rel args)
  then show ?case
    using insert_traced [OF C] by (simp add: base_def)
next
  case (LetOp v x body)
  then show ?case
    using traced_Inl by (auto simp: base_def intro: env_traced [OF LetOp.IH] split: sum.splits)
next
  case (GroupBy rel vars keys aggs body)
  have inv: "inv (st_store st)"
    using GroupBy.prems by (simp add: base_def)
  let ?f = "\<lambda>(key, grp) st1. case exec_aggs C aggs grp vars ((st_env st1)(keys [\<mapsto>] key)) of
      (Inl err, e1) \<Rightarrow> (Inl err, set_env e1 st1) | (Inr _, e1) \<Rightarrow> exec_op C body (set_env e1 st1)"
  have group: "traced s st1 (?f g st1)" if st1: "base s (st_store st1)" for g and st1 :: "'s istate"
  proof -
    obtain r e1 where r: "exec_aggs C aggs (snd g) vars ((st_env st1)(keys [\<mapsto>] fst g)) = (r, e1)"
      by force
    have "inv (st_store st1)"
      using st1 by (simp add: base_def)
    then show ?thesis
      using r traced_Inl_env env_traced [OF GroupBy.IH st1] by (cases r) (simp_all add: case_prod_beta)
  qed
  obtain r where r: "bindR (resolve_name (cf_ir C) rel) (\<lambda>nm.
      bindR (so_scan (cf_store C) (st_store st) nm) (\<lambda>ts.
        Inr (ts @ (case so_scan_next_delta (cf_store C) (st_store st) nm of Inl _ \<Rightarrow> [] | Inr nd \<Rightarrow> nd)))) = r"
    by blast
  show ?case
  proof (cases r)
    case (Inl err)
    then show ?thesis
      unfolding exec_op.simps r by (simp add: traced_Inl [OF inv])
  next
    case (Inr ts)
    show ?thesis
      unfolding exec_op.simps r Inr sum.case Let_def case_prod_beta
      by (rule env_for_each_traced [OF GroupBy.prems group [unfolded case_prod_beta]])
  qed
next
  case (HashJoin b p ks body)
  have inv: "inv (st_store st)"
    using HashJoin.prems by (simp add: base_def)
  show ?case
    using traced_Inl [OF inv]
    by (auto simp: exec_hash_join_def Let_def base_def split: sum.splits option.splits
        intro!: for_each_traced [OF HashJoin.prems] env_for_each_traced env_traced [OF HashJoin.IH]
          traced_none)
next
  case (MatchField x field v body)
  then show ?case
    using traced_Inl traced_none
    by (auto simp: base_def split: sum.splits option.splits
        intro!: traced_after env_traced [OF MatchField.IH]) (simp_all add: set_env_def)
next
  case (IterateList x v body)
  then show ?case
    using traced_Inl traced_none
    by (auto simp: base_def split: sum.splits mvalue.splits compound_kind.splits
        intro!: traced_after for_each_traced env_traced [OF IterateList.IH]) (simp_all add: set_env_def)
qed

end

end
