(* ===== verification/Interp_Group.thy ===== *)
theory Interp_Group
  imports Interp_Prov
begin

text \<open>
  \<open>GroupBy\<close>: the groups are the classes of the scanned tuples (next-delta tuples included) under the
  values of the key variables, each in scan order; every aggregate is computed over its group; and the
  body runs once per group with keys and aggregates bound.  The order of the groups does not matter
  for the facts inserted.
\<close>

subsection \<open>Environments\<close>

lemma map_upds_map: "(m(ks [\<mapsto>] map f ks)) k = (if k \<in> set ks then Some (f k) else m k)"
  by (induction ks arbitrary: m) auto

lemma group_key_bind:
  assumes "group_key keys E = key" "set keys \<subseteq> dom E" "k \<in> set keys"
  shows "(m(keys [\<mapsto>] key)) k = E k"
proof -
  have "key = map (\<lambda>k. the (E k)) keys"
    using assms(1,2) by (force simp: group_key_def split: option.splits)
  then show ?thesis
    using assms(2,3) by (auto simp: map_upds_map)
qed

lemma dom_upds: "length vs = length t \<Longrightarrow> set vs \<subseteq> dom (m(vs [\<mapsto>] t))"
  by (simp add: dom_map_upds)

definition tuple_key :: "name_id list \<Rightarrow> name_id list \<Rightarrow> tuple \<Rightarrow> tuple" where
  "tuple_key vars keys t = group_key keys (Map.empty(vars [\<mapsto>] t))"

lemma group_key_upds:
  assumes "set keys \<subseteq> set vars" "length t = length vars"
  shows "group_key keys (e(vars [\<mapsto>] t)) = tuple_key vars keys t"
  unfolding tuple_key_def group_key_def
  using assms map_upds_in [of vars t _ e Map.empty] by (intro map_cong) auto

subsection \<open>Grouping\<close>

definition members :: "tuple \<Rightarrow> groups \<Rightarrow> tuple list" where
  "members key gs = (case map_of gs key of None \<Rightarrow> [] | Some ts \<Rightarrow> ts)"

lemma members_add_group:
  "members k (add_group key t gs) = members k gs @ (if k = key then [t] else [])"
  by (auto simp: members_def map_of_add_group split: option.splits)

lemma in_groups_iff:
  assumes "distinct (map fst gs)"
  shows "(key, grp) \<in> set gs \<longleftrightarrow> key \<in> fst ` set gs \<and> members key gs = grp"
  unfolding map_of_eq_Some_iff [OF assms, symmetric]
proof (cases "map_of gs key")
  case None
  then show "map_of gs key = Some grp \<longleftrightarrow> key \<in> fst ` set gs \<and> members key gs = grp"
    using map_of_eq_None_iff [of gs key] by simp
next
  case (Some ts)
  then have "key \<in> fst ` set gs"
    by (metis fst_conv image_eqI map_of_SomeD)
  then show "map_of gs key = Some grp \<longleftrightarrow> key \<in> fst ` set gs \<and> members key gs = grp"
    by (simp add: members_def Some)
qed

lemma add_group_keys: "set (map fst (add_group key t gs)) = insert key (set (map fst gs))"
proof (induction gs)
  case (Cons g gs)
  then show ?case by (cases g; cases "fst g = key") auto
qed simp

lemma add_group_distinct: "distinct (map fst gs) \<Longrightarrow> distinct (map fst (add_group key t gs))"
proof (induction gs)
  case (Cons g gs)
  then show ?case
    using add_group_keys [of key t gs] by (cases g) auto
qed simp

lemma group_tuples_spec:
  assumes "set keys \<subseteq> set vars" "distinct (map fst gs)"
  shows "members k (fst (group_tuples vars keys ts gs e)) =
      members k gs @ filter (\<lambda>t. length t = length vars \<and> tuple_key vars keys t = k) ts"
    and "set (map fst (fst (group_tuples vars keys ts gs e))) =
      set (map fst gs) \<union> tuple_key vars keys ` {t \<in> set ts. length t = length vars}"
    and "distinct (map fst (fst (group_tuples vars keys ts gs e)))"
  using assms(2)
proof (induction ts arbitrary: gs e)
  case (Cons t ts)
  {
    case 1
    then show ?case
      using Cons.IH(1) [OF add_group_distinct [OF 1]] Cons.IH(1) [OF 1] assms(1)
      by (auto simp: Let_def group_key_upds members_add_group)
  next
    case 2
    then show ?case
      using Cons.IH(2) [OF add_group_distinct [OF 2]] Cons.IH(2) [OF 2] assms(1)
      unfolding group_tuples.simps Let_def
      by (auto simp: group_key_upds add_group_keys simp del: set_map)
  next
    case 3
    then show ?case
      using Cons.IH(3) [OF add_group_distinct [OF 3]] Cons.IH(3) [OF 3] by (simp add: Let_def)
  }
qed auto

lemma group_tuples_set:
  assumes "set keys \<subseteq> set vars"
  shows "set (fst (group_tuples vars keys ts [] e)) =
    (\<lambda>t. (tuple_key vars keys t,
       filter (\<lambda>u. length u = length vars \<and> tuple_key vars keys u = tuple_key vars keys t) ts)) `
    {t \<in> set ts. length t = length vars}" (is "set ?gs = ?G")
proof (rule set_eqI)
  fix g :: "tuple \<times> tuple list"
  note gt = group_tuples_spec [OF assms, of "[]", simplified]
  have mem: "members (fst g) ?gs = filter (\<lambda>u. length u = length vars \<and> tuple_key vars keys u = fst g) ts"
    by (subst gt(1)) (simp add: members_def)
  have "g \<in> set ?gs \<longleftrightarrow> fst g \<in> fst ` set ?gs \<and> members (fst g) ?gs = snd g"
    using in_groups_iff [OF gt(3), of "fst g" "snd g" ts e] by simp
  then show "g \<in> set ?gs \<longleftrightarrow> g \<in> ?G"
    unfolding mem gt(2) by (cases g) auto
qed

lemma group_tuples_env:
  "set vars \<inter> V = {} \<Longrightarrow> agree V e e' \<Longrightarrow> agree V e (snd (group_tuples vars keys ts gs e'))"
proof (induction ts arbitrary: gs e')
  case (Cons t ts)
  have "agree V e (e'(vars [\<mapsto>] t))"
    unfolding agree_def using Cons.prems by (metis agree_def disjoint_iff map_upds_apply_nontin)
  then show ?case
    using Cons by (simp add: Let_def)
qed simp

subsection \<open>Aggregates depend on the group and the outer scope only\<close>

definition agg_in :: "name_id set \<Rightarrow> aggregate \<Rightarrow> bool" where
  "agg_in V agg = list_all (operand_in V) (agg_args agg)"

lemma agg_loop_agree:
  assumes "agree V e e'" "operand_in (V \<union> set vars) arg" "\<forall>t\<in>set ts. length t = length vars"
  shows "fst (agg_loop m step arg vars acc ts e') = fst (agg_loop m step arg vars acc ts e)"
  using assms(1,3)
proof (induction ts arbitrary: acc e e')
  case (Cons t ts)
  have ag: "agree (V \<union> set vars) (e(vars [\<mapsto>] t)) (e'(vars [\<mapsto>] t))"
    using Cons.prems by (simp add: agree_upds)
  have eval: "eval_operand m (e'(vars [\<mapsto>] t)) arg = eval_operand m (e(vars [\<mapsto>] t)) arg"
    by (rule agree_operand [OF ag assms(2)])
  show ?case
    using Cons.IH [OF agree_weaken [OF ag]] Cons.prems(2)
    by (auto simp: Let_def eval split: sum.splits)
qed simp

text \<open>After the loop the outer scope and any key the whole group shares are as before.\<close>

lemma agg_loop_env:
  assumes "agree W K e" "\<forall>t\<in>set ts. \<forall>m. agree W K m \<longrightarrow> agree W K (m(vars [\<mapsto>] t))"
  shows "agree W K (snd (agg_loop ir step arg vars acc ts e))"
  using assms
proof (induction ts arbitrary: acc e)
  case (Cons t ts)
  then show ?case
    by (auto simp: Let_def split: sum.splits)
qed simp

lemma run_aggregate_agree:
  assumes "agree V e e'" "operand_in (V \<union> set vars) arg" "\<forall>t\<in>set ts. length t = length vars"
  shows "fst (run_aggregate m P nm arg ts vars e') = fst (run_aggregate m P nm arg ts vars e)"
  unfolding run_aggregate_def by (simp add: map_fst_result_def agg_loop_agree [OF assms])

lemma eval_aggregate_agree:
  assumes "agree V e e'" "agg_in (V \<union> set vars) agg" "\<forall>t\<in>set ts. length t = length vars"
  shows "fst (eval_aggregate C agg ts vars e') = fst (eval_aggregate C agg ts vars e)"
proof (cases "agg_args agg")
  case Nil
  then show ?thesis
    by (cases "resolve_name (cf_ir C) (agg_func agg)") (simp_all add: eval_aggregate_def)
next
  case (Cons arg rest)
  then have "operand_in (V \<union> set vars) arg"
    using assms(2) by (simp add: agg_in_def)
  then show ?thesis
    using Cons run_aggregate_agree [OF assms(1) _ assms(3)]
    by (cases "resolve_name (cf_ir C) (agg_func agg)") (simp_all add: eval_aggregate_def)
qed

lemma eval_aggregate_env:
  assumes "agree W K e" "\<forall>t\<in>set ts. \<forall>m. agree W K m \<longrightarrow> agree W K (m(vars [\<mapsto>] t))"
  shows "agree W K (snd (eval_aggregate C agg ts vars e))"
proof -
  have "agree W K (snd (run_aggregate m P nm arg ts vars e))" for m P nm arg
    unfolding run_aggregate_def by (simp add: map_fst_result_def agg_loop_env [OF assms])
  then show ?thesis
    using assms(1) by (cases "resolve_name (cf_ir C) (agg_func agg)"; cases "agg_args agg")
      (simp_all add: eval_aggregate_def)
qed

text \<open>The loop over the aggregates, from an environment that agrees with \<open>K\<close> on the scope \<open>W\<close>: the
  values are those computed from \<open>K\<close>, and afterwards scope and aggregate variables are bound to them.\<close>

lemma exec_aggs_spec:
  assumes "agree W K e" "\<forall>t\<in>set ts. \<forall>m. agree W K m \<longrightarrow> agree W K (m(vars [\<mapsto>] t))"
    and "\<forall>t\<in>set ts. length t = length vars" "\<forall>a\<in>set aggs. agg_in (V \<union> set vars) a" "V \<subseteq> W"
    and "agg_var ` set aggs \<inter> (W \<union> set vars) = {}" "distinct (map agg_var aggs)"
  shows "\<exists>r e'. exec_aggs C aggs ts vars e = (r, e') \<and>
      (case r of
         Inl err \<Rightarrow> traverseR (\<lambda>a. fst (eval_aggregate C a ts vars K)) aggs = Inl err
       | Inr _ \<Rightarrow> (\<exists>vals. traverseR (\<lambda>a. fst (eval_aggregate C a ts vars K)) aggs = Inr vals \<and>
           agree (W \<union> agg_var ` set aggs) (K(map agg_var aggs [\<mapsto>] vals)) e'))"
  using assms
proof (induction aggs arbitrary: W K e)
  case Nil
  then show ?case by simp
next
  case (Cons a aggs)
  obtain r e1 where r: "eval_aggregate C a ts vars e = (r, e1)"
    by force
  have ag1: "agree W K e1"
    using eval_aggregate_env [OF Cons.prems(1,2), of C a] r by simp
  have val: "fst (eval_aggregate C a ts vars K) = r"
    using eval_aggregate_agree [of V K e vars a ts C] Cons.prems(1,3,4,5) r
    by (auto intro: agree_weaken)
  show ?case
  proof (cases r)
    case (Inl err)
    then show ?thesis using r val by simp
  next
    case (Inr v)
    let ?K = "K(agg_var a \<mapsto> v)" and ?W = "insert (agg_var a) W"
    have fresh: "agg_var a \<notin> W" "agg_var a \<notin> set vars"
      using Cons.prems(6) by auto
    have "agree V ?K K"
      using fresh(1) Cons.prems(5) by (auto simp: agree_def)
    then have same: "traverseR (\<lambda>a. fst (eval_aggregate C a ts vars ?K)) aggs =
        traverseR (\<lambda>a. fst (eval_aggregate C a ts vars K)) aggs"
      using eval_aggregate_agree [of V ?K K vars _ ts C] Cons.prems(3,4)
      by (intro traverseR_cong) auto
    have "\<exists>r' e'. exec_aggs C aggs ts vars (e1(agg_var a \<mapsto> v)) = (r', e') \<and>
      (case r' of
         Inl err \<Rightarrow> traverseR (\<lambda>a. fst (eval_aggregate C a ts vars ?K)) aggs = Inl err
       | Inr _ \<Rightarrow> (\<exists>vals. traverseR (\<lambda>a. fst (eval_aggregate C a ts vars ?K)) aggs = Inr vals \<and>
           agree (?W \<union> agg_var ` set aggs) (?K(map agg_var aggs [\<mapsto>] vals)) e'))"
    proof (rule Cons.IH)
      show "agree ?W ?K (e1(agg_var a \<mapsto> v))"
        using agree_upd [OF ag1] .
      show "\<forall>t\<in>set ts. \<forall>m. agree ?W ?K m \<longrightarrow> agree ?W ?K (m(vars [\<mapsto>] t))"
      proof (intro ballI allI impI)
        fix t and m :: env
        assume t: "t \<in> set ts" and m: "agree ?W ?K m"
        have "agree W K (m(vars [\<mapsto>] t))"
          using Cons.prems(2) t agree_upd_drop [OF m] fresh by blast
        moreover have "(m(vars [\<mapsto>] t)) (agg_var a) = Some v"
          using m fresh by (simp add: agree_def)
        ultimately show "agree ?W ?K (m(vars [\<mapsto>] t))"
          by (simp add: agree_def)
      qed
    qed (use Cons.prems in auto)
    then obtain r' e' where r': "exec_aggs C aggs ts vars (e1(agg_var a \<mapsto> v)) = (r', e')"
      and res: "case r' of
         Inl err \<Rightarrow> traverseR (\<lambda>a. fst (eval_aggregate C a ts vars K)) aggs = Inl err
       | Inr _ \<Rightarrow> (\<exists>vals. traverseR (\<lambda>a. fst (eval_aggregate C a ts vars K)) aggs = Inr vals \<and>
           agree (?W \<union> agg_var ` set aggs) (?K(map agg_var aggs [\<mapsto>] vals)) e')"
      unfolding same by blast
    show ?thesis
      by (rule exI [of _ r'], rule exI [of _ e']) (use r val Inr r' res in \<open>cases r'; auto\<close>)
  qed
qed

subsection \<open>The declarative reading of \<open>GroupBy\<close>\<close>

definition group_derives :: "'s interp_cfg \<Rightarrow> 's \<Rightarrow> env \<Rightarrow> tuple list \<Rightarrow> name_id list \<Rightarrow> name_id list \<Rightarrow>
    aggregate list \<Rightarrow> op \<Rightarrow> fact \<Rightarrow> bool" where
  "group_derives C s e tuples vars keys aggs body f \<longleftrightarrow>
     (\<exists>t0\<in>set tuples. length t0 = length vars \<and>
       (let key = tuple_key vars keys t0;
            grp = filter (\<lambda>t. length t = length vars \<and> tuple_key vars keys t = key) tuples
        in \<exists>vals. traverseR (\<lambda>a. fst (eval_aggregate C a grp vars (e(keys [\<mapsto>] key)))) aggs = Inr vals \<and>
             derives C s (e(keys [\<mapsto>] key, map agg_var aggs [\<mapsto>] vals)) body f))"

definition group_scoped :: "name_id set \<Rightarrow> name_id list \<Rightarrow> name_id list \<Rightarrow> aggregate list \<Rightarrow> op \<Rightarrow> bool" where
  "group_scoped V vars keys aggs body \<longleftrightarrow>
     set keys \<subseteq> set vars \<and> set vars \<inter> V = {} \<and> list_all (agg_in (V \<union> set vars)) aggs \<and>
     agg_var ` set aggs \<inter> (V \<union> set vars) = {} \<and> distinct (map agg_var aggs) \<and>
     scoped (V \<union> set keys \<union> agg_var ` set aggs) body"

context fact_store
begin

lemma exact_Inl_env: "inv (st_store st) \<Longrightarrow> exact V e D st (Inl err, set_env e' st)"
  using exact_Inl [of st V e D err] by (simp add: exact_def set_env_def)

text \<open>One group: its aggregates and its body.\<close>

lemma group_step_exact:
  assumes C: "cf_store C = S" and st: "base s (st_store st)" "agree V e (st_env st)"
    and sc: "group_scoped V vars keys aggs body"
    and grp: "\<forall>t\<in>set grp. length t = length vars \<and> tuple_key vars keys t = key"
    and D: "D = {f. \<exists>vals. traverseR (\<lambda>a. fst (eval_aggregate C a grp vars (e(keys [\<mapsto>] key)))) aggs = Inr vals \<and>
      derives C s (e(keys [\<mapsto>] key, map agg_var aggs [\<mapsto>] vals)) body f}"
    and key: "length key = length keys"
  shows "exact V e D st (case exec_aggs C aggs grp vars ((st_env st)(keys [\<mapsto>] key)) of
      (Inl err, e1) \<Rightarrow> (Inl err, set_env e1 st) | (Inr _, e1) \<Rightarrow> exec_op C body (set_env e1 st))"
proof -
  let ?K = "e(keys [\<mapsto>] key)" and ?W = "V \<union> set keys"
  have inv: "inv (st_store st)"
    using st(1) by (simp add: base_def)
  have ag: "agree ?W ?K ((st_env st)(keys [\<mapsto>] key))"
    using agree_upds [OF st(2) key] .
  have keep: "\<forall>t\<in>set grp. \<forall>m. agree ?W ?K m \<longrightarrow> agree ?W ?K (m(vars [\<mapsto>] t))"
  proof (intro ballI allI impI)
    fix t and m :: env
    assume t: "t \<in> set grp" and m: "agree ?W ?K m"
    have "?K k = (m(vars [\<mapsto>] t)) k" if "k \<in> set keys" for k
      by (rule group_key_bind [OF _ _ that])
         (use grp t sc dom_upds [of vars t m] in \<open>auto simp: group_scoped_def group_key_upds\<close>)
    moreover have "?K v = (m(vars [\<mapsto>] t)) v" if "v \<in> V" for v
    proof -
      have "v \<notin> set vars"
        using that sc by (auto simp: group_scoped_def)
      then show ?thesis
        using m that by (simp add: agree_def)
    qed
    ultimately show "agree ?W ?K (m(vars [\<mapsto>] t))"
      by (auto simp: agree_def)
  qed
  have "agg_var ` set aggs \<inter> (?W \<union> set vars) = {}"
    using sc unfolding group_scoped_def by blast
  then obtain r e1 where r: "exec_aggs C aggs grp vars ((st_env st)(keys [\<mapsto>] key)) = (r, e1)"
    and res: "case r of
         Inl err \<Rightarrow> traverseR (\<lambda>a. fst (eval_aggregate C a grp vars ?K)) aggs = Inl err
       | Inr _ \<Rightarrow> (\<exists>vals. traverseR (\<lambda>a. fst (eval_aggregate C a grp vars ?K)) aggs = Inr vals \<and>
           agree (?W \<union> agg_var ` set aggs) (?K(map agg_var aggs [\<mapsto>] vals)) e1)"
    using exec_aggs_spec [OF ag keep, of aggs V C] grp sc by (auto simp add: group_scoped_def list_all_iff)
  show ?thesis
  proof (cases r)
    case (Inl err)
    then show ?thesis
      using r exact_Inl_env [OF inv] by simp
  next
    case (Inr u)
    then obtain vals where vals: "traverseR (\<lambda>a. fst (eval_aggregate C a grp vars ?K)) aggs = Inr vals"
      and ag1: "agree (?W \<union> agg_var ` set aggs) (?K(map agg_var aggs [\<mapsto>] vals)) e1"
      using res by auto
    have "exact (?W \<union> agg_var ` set aggs) (?K(map agg_var aggs [\<mapsto>] vals))
        {f. derives C s (?K(map agg_var aggs [\<mapsto>] vals)) body f} (set_env e1 st) (exec_op C body (set_env e1 st))"
      by (rule plan_exactD [OF exec_exact [OF C]])
         (use st(1) ag1 sc in \<open>simp_all add: set_env_def group_scoped_def\<close>)
    then have "exact V e {f. derives C s (?K(map agg_var aggs [\<mapsto>] vals)) body f} (set_env e1 st)
        (exec_op C body (set_env e1 st))"
    proof (rule exact_weaken)
      fix e2 :: env
      have "v \<notin> set (map agg_var aggs)" "v \<notin> set keys" if "v \<in> V" for v
        using that sc by (auto simp: group_scoped_def)
      then show "agree (?W \<union> agg_var ` set aggs) (?K(map agg_var aggs [\<mapsto>] vals)) e2 \<Longrightarrow> agree V e e2"
        unfolding agree_def by (metis UnI1 map_upds_apply_nontin)
    qed
    then have "exact V e {f. derives C s (?K(map agg_var aggs [\<mapsto>] vals)) body f} st
        (exec_op C body (set_env e1 st))"
      by (rule exact_start) (simp add: set_env_def)
    then show ?thesis
      using r Inr vals unfolding D by simp
  qed
qed

lemma group_by_exact:
  assumes C: "cf_store C = S" and ord: "\<And>gs. set (cf_order C gs) = set gs"
    and st: "base s (st_store st)" "agree V e (st_env st)"
    and sc: "group_scoped V vars keys aggs body" and nm: "resolve_name (cf_ir C) rel = Inr nm"
  shows "exact V e {f. group_derives C s e (old s nm @ dl s nm @ nx (st_store st) nm) vars keys aggs body f} st
    (exec_op C (GroupBy rel vars keys aggs body) st)"
proof -
  let ?ts = "old s nm @ dl s nm @ nx (st_store st) nm"
  let ?gs = "fst (group_tuples vars keys ?ts [] (st_env st))" and ?e = "snd (group_tuples vars keys ?ts [] (st_env st))"
  have inv: "inv (st_store st)" "old (st_store st) = old s" "dl (st_store st) = dl s"
    using st(1) by (simp_all add: base_def)
  have keys: "set keys \<subseteq> set vars"
    using sc by (simp add: group_scoped_def)
  note gs = group_tuples_set [OF keys, of ?ts "st_env st"]
  let ?Q = "\<lambda>key grp. {f. \<exists>vals. traverseR (\<lambda>a. fst (eval_aggregate C a grp vars (e(keys [\<mapsto>] key)))) aggs = Inr vals \<and>
        derives C s (e(keys [\<mapsto>] key, map agg_var aggs [\<mapsto>] vals)) body f}"
  have D: "{f. group_derives C s e ?ts vars keys aggs body f} = (\<Union>g\<in>set (cf_order C ?gs). ?Q (fst g) (snd g))"
    unfolding ord gs UN_simps(10) fst_conv snd_conv
    by (rule set_eqI) (simp only: group_derives_def Let_def mem_Collect_eq UN_iff bex_simps(6) conj_assoc Bex_def)
  have start: "base s (st_store (set_env ?e st))" "agree V e (st_env (set_env ?e st))"
    using st sc group_tuples_env [of vars V e "st_env st"] by (simp_all add: set_env_def group_scoped_def)
  let ?f = "\<lambda>g st1. case exec_aggs C aggs (snd g) vars ((st_env st1)(keys [\<mapsto>] fst g)) of
      (Inl err, e1) \<Rightarrow> (Inl err, set_env e1 st1) | (Inr _, e1) \<Rightarrow> exec_op C body (set_env e1 st1)"
  have "exact V e {f. group_derives C s e ?ts vars keys aggs body f} (set_env ?e st)
      (for_each ?f (cf_order C ?gs) (set_env ?e st))"
    unfolding D
  proof (rule for_each_exact [OF start])
    fix g and st1 :: "'s istate"
    assume g: "g \<in> set (cf_order C ?gs)" and st1: "base s (st_store st1)" "agree V e (st_env st1)"
    have "\<forall>t\<in>set (snd g). length t = length vars \<and> tuple_key vars keys t = fst g" "length (fst g) = length keys"
      using g unfolding ord gs by (auto simp: tuple_key_def group_key_def)
    then show "exact V e (?Q (fst g) (snd g)) st1 (?f g st1)"
      by (intro group_step_exact [OF C st1 sc _ refl])
  qed
  then have "exact V e {f. group_derives C s e ?ts vars keys aggs body f} st
      (for_each ?f (cf_order C ?gs) (set_env ?e st))"
    by (rule exact_start) (simp add: set_env_def)
  then show ?thesis
    using nm C inv by (simp add: scan scan_next Let_def case_prod_unfold)
qed

end

end
