(* ===== verification/Interp_Why.thy ===== *)
theory Interp_Why
  imports Interp_Prov
begin

text \<open>
  Which premises a recorded derivation carries.  \<open>derives_by C s e p ps f\<close> refines \<open>derives\<close> by the list
  \<open>ps\<close> of the facts that the \<open>Iterate\<close>s on the way to the insertion of \<open>f\<close> bound their variables to,
  outermost first.  For a well-scoped plan every entry a run appends to the recorder is such a
  derivation, with exactly these facts as its premises.  A \<open>HashJoin\<close> binds the variables of both its
  sides but pushes no premise, as in the source, so the facts it reads are missing from \<open>ps\<close>.
\<close>

inductive derives_by :: "'s interp_cfg \<Rightarrow> 's \<Rightarrow> env \<Rightarrow> op \<Rightarrow> fact list \<Rightarrow> fact \<Rightarrow> bool" for C s where
  by_insert: "resolve_name (cf_ir C) rel = Inr nm \<Longrightarrow>
      traverseR (eval_operand (cf_ir C) e) args = Inr t \<Longrightarrow> derives_by C s e (InsertOp rel args) [] (nm, t)"
| by_seq: "p \<in> set ps \<Longrightarrow> derives_by C s e p qs f \<Longrightarrow> derives_by C s e (Seq ps) qs f"
| by_iterate: "collect_data_source C s e source = Inr (nm, ts) \<Longrightarrow> t \<in> set ts \<Longrightarrow>
      length t = length (source_vars source) \<Longrightarrow>
      derives_by C s (e(source_vars source [\<mapsto>] t)) body qs f \<Longrightarrow>
      derives_by C s e (Iterate source body) ((nm, t) # qs) f"
| by_filter: "eval_cond C s e c = Inr True \<Longrightarrow> derives_by C s e body qs f \<Longrightarrow>
      derives_by C s e (FilterOp c body) qs f"
| by_let: "eval_expr C e x = Inr v \<Longrightarrow> derives_by C s (e(var \<mapsto> v)) body qs f \<Longrightarrow>
      derives_by C s e (LetOp var x body) qs f"
| by_join: "collect_data_source C s e build = Inr (bn, bts) \<Longrightarrow> collect_data_source C s e probe = Inr (pn, pts) \<Longrightarrow>
      key_positions bmsg join_keys (source_vars build) = Inr bps \<Longrightarrow>
      key_positions pmsg join_keys (source_vars probe) = Inr pps \<Longrightarrow>
      bt \<in> set bts \<Longrightarrow> length bt = length (source_vars build) \<Longrightarrow>
      pt \<in> set pts \<Longrightarrow> length pt = length (source_vars probe) \<Longrightarrow> proj bps bt = proj pps pt \<Longrightarrow>
      derives_by C s (e(source_vars probe [\<mapsto>] pt, source_vars build [\<mapsto>] bt)) body qs f \<Longrightarrow>
      derives_by C s e (HashJoin build probe join_keys body) qs f"
| by_field: "eval_operand (cf_ir C) e x = Inr sv \<Longrightarrow> resolve_name (cf_ir C) field = Inr fnm \<Longrightarrow>
      struct_field fnm sv = Some v \<Longrightarrow> derives_by C s (e(var \<mapsto> v)) body qs f \<Longrightarrow>
      derives_by C s e (MatchField x field var body) qs f"
| by_list: "eval_operand (cf_ir C) e x = Inr (Compound KList elems) \<Longrightarrow> v \<in> set elems \<Longrightarrow>
      derives_by C s (e(var \<mapsto> v)) body qs f \<Longrightarrow> derives_by C s e (IterateList x var body) qs f"

inductive_cases derives_by_insertE: "derives_by C s e (InsertOp rel args) qs f"
inductive_cases derives_by_iterateE: "derives_by C s e (Iterate source body) qs f"
inductive_cases derives_by_filterE: "derives_by C s e (FilterOp c body) qs f"

text \<open>The premises are a refinement only: what is derived with some premises is what is derived.\<close>

lemma derives_by_derives: "derives_by C s e p qs f \<Longrightarrow> derives C s e p f"
  by (induction rule: derives_by.induct) (blast intro: derives.intros)+

lemma derives_derives_by: "derives C s e p f \<Longrightarrow> \<exists>qs. derives_by C s e p qs f"
  by (induction rule: derives.induct) (blast intro: derives_by.intros)+

lemma derives_by_iff: "(\<exists>qs. derives_by C s e p qs f) \<longleftrightarrow> derives C s e p f"
  using derives_by_derives derives_derives_by by metis

context fact_store
begin

text \<open>An outcome whose new entries are justified by \<open>J\<close>: each carries the premises active at the start
  and then a list that \<open>J\<close> relates to its fact.  On success the stack of premises and the variables of
  the scope are as before.\<close>

definition justified :: "'s \<Rightarrow> name_id set \<Rightarrow> env \<Rightarrow> (fact list \<Rightarrow> fact \<Rightarrow> bool) \<Rightarrow> 's istate \<Rightarrow>
    nat result \<times> 's istate \<Rightarrow> bool" where
  "justified s V e J st p \<longleftrightarrow>
     base s (st_store (snd p)) \<and> (\<not> isl (fst p) \<longrightarrow> agree V e (st_env (snd p))) \<and>
     (\<forall>pr. st_prov st = Some pr \<longrightarrow>
        (\<exists>es pr'. st_prov (snd p) = Some pr' \<and> prov_entries pr' = prov_entries pr @ es \<and>
           (\<not> isl (fst p) \<longrightarrow> active_premises pr' = active_premises pr) \<and>
           (\<forall>x\<in>set es. \<exists>qs. prem_facts x = active_premises pr @ qs \<and> J qs (derived x))))"

lemma justified_Inl: "base s (st_store st) \<Longrightarrow> justified s V e J st (Inl err, st)"
  by (simp add: justified_def)

lemma justified_none: "base s (st_store st) \<Longrightarrow> agree V e (st_env st) \<Longrightarrow> justified s V e J st (Inr n, st)"
  by (simp add: justified_def)

lemma justified_mono:
  assumes "justified s V e J st p" "\<And>qs f. J qs f \<Longrightarrow> J' qs f"
  shows "justified s V e J' st p"
  using assms unfolding justified_def by meson

lemma justified_weaken:
  assumes "justified s W e' J st p" "\<And>e1. agree W e' e1 \<Longrightarrow> agree V e e1"
  shows "justified s V e J st p"
  using assms unfolding justified_def by blast

lemma justified_start: "justified s V e J st1 p \<Longrightarrow> st_prov st1 = st_prov st \<Longrightarrow> justified s V e J st p"
  by (simp add: justified_def)

lemma justified_after:
  assumes "justified s V e J st p" "\<And>st'. st_store (g st') = st_store st'" "\<And>st'. st_prov (g st') = st_prov st'"
    and "\<And>st'. agree V e (st_env st') \<Longrightarrow> agree W e' (st_env (g st'))"
  shows "justified s W e' J st (bindS p (\<lambda>n st'. (Inr n, g st')))"
proof (cases p)
  case (Pair r st')
  then show ?thesis
    using assms by (cases r) (simp_all add: justified_def)
qed

lemma justified_bind:
  assumes "justified s V e J st (Inr n, st1)" "justified s V e J st1 q"
  shows "justified s V e J st (bindS q (\<lambda>m st2. (Inr (n + m), st2)))"
proof -
  have q: "snd (bindS q (\<lambda>m st2. (Inr (n + m), st2))) = snd q"
    "isl (fst (bindS q (\<lambda>m st2. (Inr (n + m), st2)))) = isl (fst q)"
    by (cases q; cases "fst q"; simp)+
  have "\<exists>es pr'. st_prov (snd q) = Some pr' \<and> prov_entries pr' = prov_entries pr @ es \<and>
      (\<not> isl (fst q) \<longrightarrow> active_premises pr' = active_premises pr) \<and>
      (\<forall>x\<in>set es. \<exists>qs. prem_facts x = active_premises pr @ qs \<and> J qs (derived x))"
    if pr: "st_prov st = Some pr" for pr
  proof -
    obtain es pr1 where 1: "st_prov st1 = Some pr1" "prov_entries pr1 = prov_entries pr @ es"
      "active_premises pr1 = active_premises pr"
      "\<forall>x\<in>set es. \<exists>qs. prem_facts x = active_premises pr @ qs \<and> J qs (derived x)"
      using assms(1) pr by (auto simp: justified_def)
    obtain es' pr' where 2: "st_prov (snd q) = Some pr'" "prov_entries pr' = prov_entries pr1 @ es'"
      "\<not> isl (fst q) \<longrightarrow> active_premises pr' = active_premises pr1"
      "\<forall>x\<in>set es'. \<exists>qs. prem_facts x = active_premises pr1 @ qs \<and> J qs (derived x)"
      using assms(2) 1(1) by (auto simp: justified_def)
    show ?thesis
      by (rule exI [of _ "es @ es'"]) (use 1 2 in auto)
  qed
  then show ?thesis
    using assms(2) by (simp add: justified_def q)
qed

lemma for_each_justified:
  assumes "base s (st_store st)" "agree V e (st_env st)"
    and "\<And>x st1. x \<in> set xs \<Longrightarrow> base s (st_store st1) \<Longrightarrow> agree V e (st_env st1) \<Longrightarrow>
           justified s V e J st1 (f x st1)"
  shows "justified s V e J st (for_each f xs st)"
  using assms
proof (induction xs arbitrary: st)
  case Nil
  then show ?case by (simp add: justified_none)
next
  case (Cons x xs)
  obtain r st1 where p: "f x st = (r, st1)"
    by (cases "f x st")
  have j: "justified s V e J st (r, st1)"
    using Cons.prems(3) [of x st] Cons.prems(1,2) p by simp
  show ?case
  proof (cases r)
    case (Inl err)
    then show ?thesis using j p by simp
  next
    case (Inr n)
    have "justified s V e J st1 (for_each f xs st1)"
      by (rule Cons.IH) (use j Inr Cons.prems(3) in \<open>auto simp: justified_def\<close>)
    then show ?thesis
      using justified_bind j Inr p by simp
  qed
qed

text \<open>Around the body of an \<open>Iterate\<close> the scanned tuple is the first of the new premises.\<close>

lemma justified_premise:
  assumes "justified s V e J (push_premise h st) p"
  shows "justified s V e (\<lambda>qs f. \<exists>qs'. qs = h # qs' \<and> J qs' f) st
    (bindS p (\<lambda>n st2. (Inr n, pop_premise st2)))"
proof (cases p)
  case (Pair r st')
  have "\<exists>es pr'. st_prov st' = Some pr' \<and> prov_entries pr' = prov_entries pr @ es \<and>
      (\<not> isl r \<longrightarrow> active_premises pr' = active_premises pr @ [h]) \<and>
      (\<forall>x\<in>set es. \<exists>qs. prem_facts x = active_premises pr @ h # qs \<and> J qs (derived x))"
    if "st_prov st = Some pr" for pr
    using assms that Pair by (simp add: justified_def push_premise_def)
  then show ?thesis
    using assms Pair by (cases r) (fastforce simp: justified_def pop_premise_def)+
qed

subsection \<open>Every entry of a run is a derivation with its premises\<close>

definition plan_justified :: "'s interp_cfg \<Rightarrow> 's \<Rightarrow> op \<Rightarrow> bool" where
  "plan_justified C s p \<longleftrightarrow>
     (\<forall>V e st. base s (st_store st) \<longrightarrow> agree V e (st_env st) \<longrightarrow> scoped V p \<longrightarrow>
        justified s V e (derives_by C s e p) st (exec_op C p st))"

lemma plan_justifiedD:
  "plan_justified C s p \<Longrightarrow> base s (st_store st) \<Longrightarrow> agree V e (st_env st) \<Longrightarrow> scoped V p \<Longrightarrow>
     justified s V e (derives_by C s e p) st (exec_op C p st)"
  unfolding plan_justified_def by blast

lemma bound_body_justified:
  assumes body: "plan_justified C s body" and st: "base s (st_store st)" "agree V e (st_env st)"
    and vs: "set vs \<inter> V = {}" "length t = length vs" "scoped (V \<union> set vs) body"
    and g: "\<And>st. st_store (g st) = st_store st" "\<And>st. st_env (g st) = st_env st"
  shows "justified s V e (derives_by C s (e(vs [\<mapsto>] t)) body) (g (set_env ((st_env st)(vs [\<mapsto>] t)) st))
    (exec_op C body (g (set_env ((st_env st)(vs [\<mapsto>] t)) st)))"
proof -
  let ?st = "g (set_env ((st_env st)(vs [\<mapsto>] t)) st)"
  have "justified s (V \<union> set vs) (e(vs [\<mapsto>] t)) (derives_by C s (e(vs [\<mapsto>] t)) body) ?st (exec_op C body ?st)"
    by (rule plan_justifiedD [OF body _ _ vs(3)]) (use st vs(2) g in \<open>simp_all add: agree_upds set_env_def\<close>)
  then show ?thesis
    by (rule justified_weaken) (rule agree_upds_drop [OF _ vs(1)])
qed

lemma bound_var_justified:
  assumes "plan_justified C s body" "base s (st_store st)" "agree V e (st_env st)"
    and "v \<notin> V" "scoped (insert v V) body"
  shows "justified s V e (derives_by C s (e(v \<mapsto> x)) body) st
    (exec_op C body (set_env ((st_env st)(v \<mapsto> x)) st))"
proof -
  have "justified s V e (derives_by C s (e(v \<mapsto> x)) body) (set_env ((st_env st)(v \<mapsto> x)) st)
      (exec_op C body (set_env ((st_env st)(v \<mapsto> x)) st))"
    using bound_body_justified [OF assms(1-3), of "[v]" "[x]" "\<lambda>st. st"] assms(4,5) by simp
  then show ?thesis
    by (rule justified_start) (simp add: set_env_def)
qed

lemma insert_justified:
  assumes C: "cf_store C = S" and st: "base s (st_store st)" "agree V e (st_env st)"
    and args: "list_all (operand_in V) args"
  shows "justified s V e (derives_by C s e (InsertOp rel args)) st (exec_insert C rel args st)"
proof -
  have eq: "traverseR (eval_operand (cf_ir C) (st_env st)) args = traverseR (eval_operand (cf_ir C) e) args"
    using st(2) args by (rule agree_operands)
  show ?thesis
  proof (cases "\<exists>nm t. resolve_name (cf_ir C) rel = Inr nm \<and> traverseR (eval_operand (cf_ir C) e) args = Inr t")
    case False
    then obtain err where "exec_insert C rel args st = (Inl err, st)"
      by (cases "resolve_name (cf_ir C) rel"; cases "traverseR (eval_operand (cf_ir C) e) args")
         (auto simp: exec_insert_def eq)
    then show ?thesis using justified_Inl st(1) by simp
  next
    case True
    then obtain nm t where nm: "resolve_name (cf_ir C) rel = Inr nm"
      and t: "traverseR (eval_operand (cf_ir C) e) args = Inr t"
      by blast
    obtain b s' where ins: "so_insert S nm t (st_store st) = Inr (b, s')"
      "grows (st_store st) (if b then [(nm, t)] else []) s'"
      by (rule insert_grows [of "st_store st"]) (use st(1) in \<open>simp add: base_def\<close>)
    have "base s s'"
      using base_grows [OF st(1) ins(2)] .
    then show ?thesis
      using C nm t eq ins(1) st(2) by_insert [OF nm t, of s]
      by (cases b) (auto simp: exec_insert_def record_derivation_def Let_def justified_def)
  qed
qed

lemma iterate_justified:
  assumes C: "cf_store C = S" and body: "plan_justified C s body"
  shows "plan_justified C s (Iterate src body)"
  unfolding plan_justified_def
proof (intro allI impI)
  fix V e and st :: "'s istate"
  assume st: "base s (st_store st)" "agree V e (st_env st)" and sc: "scoped V (Iterate src body)"
  let ?vs = "source_vars src"
  have src: "collect_data_source C (st_store st) (st_env st) src = collect_data_source C s e src"
    by (rule source_static [OF C st]) (use sc in simp)
  show "justified s V e (derives_by C s e (Iterate src body)) st (exec_op C (Iterate src body) st)"
  proof (cases "collect_data_source C s e src")
    case (Inl err)
    then show ?thesis using justified_Inl [OF st(1)] src by simp
  next
    case (Inr q)
    obtain nm ts where q: "q = (nm, ts)"
      by (cases q)
    show ?thesis
      unfolding exec_op.simps src Inr q sum.case prod.case
    proof (rule for_each_justified [OF st])
      fix t and st1 :: "'s istate"
      assume t: "t \<in> set ts" and st1: "base s (st_store st1)" "agree V e (st_env st1)"
      let ?st = "set_env ((st_env st1)(?vs [\<mapsto>] t)) st1"
      have "justified s V e (derives_by C s e (Iterate src body)) st1
          (bindS (exec_op C body (push_premise (nm, t) ?st)) (\<lambda>n st2. (Inr n, pop_premise st2)))"
        if len: "length t = length ?vs"
      proof -
        have "justified s V e (derives_by C s (e(?vs [\<mapsto>] t)) body) (push_premise (nm, t) ?st)
            (exec_op C body (push_premise (nm, t) ?st))"
          by (rule bound_body_justified [OF body st1]) (use sc len in \<open>simp_all add: push_premise_def\<close>)
        from justified_premise [OF this] have "justified s V e (derives_by C s e (Iterate src body)) ?st
            (bindS (exec_op C body (push_premise (nm, t) ?st)) (\<lambda>n st2. (Inr n, pop_premise st2)))"
          by (rule justified_mono) (use by_iterate [OF Inr [unfolded q] t len] in blast)
        then show ?thesis
          by (rule justified_start) (simp add: set_env_def)
      qed
      then show "justified s V e (derives_by C s e (Iterate src body)) st1
          (if length t \<noteq> length ?vs then (Inr 0, st1)
           else bindS (exec_op C body (push_premise (nm, t) ?st)) (\<lambda>n st2. (Inr n, pop_premise st2)))"
        using justified_none [OF st1] by simp
    qed
  qed
qed

lemma filter_justified:
  assumes C: "cf_store C = S" and body: "plan_justified C s body"
  shows "plan_justified C s (FilterOp c body)"
  unfolding plan_justified_def
proof (intro allI impI)
  fix V e and st :: "'s istate"
  assume st: "base s (st_store st)" "agree V e (st_env st)" and sc: "scoped V (FilterOp c body)"
  have c: "eval_cond C (st_store st) (st_env st) c = eval_cond C s e c"
    using base_cond [OF C st(1)] agree_cond [OF st(2)] sc by (metis scoped.simps(4))
  have "justified s V e (derives_by C s e (FilterOp c body)) st (exec_op C body st)"
    if "eval_cond C s e c = Inr True"
    by (rule justified_mono [OF plan_justifiedD [OF body st]]) (use sc that in \<open>auto intro: by_filter\<close>)
  then show "justified s V e (derives_by C s e (FilterOp c body)) st (exec_op C (FilterOp c body) st)"
    using justified_Inl [OF st(1)] justified_none [OF st] c
    by (cases "eval_cond C s e c") simp_all
qed

lemma let_justified:
  assumes "cf_store C = S" and body: "plan_justified C s body"
  shows "plan_justified C s (LetOp v x body)"
  unfolding plan_justified_def
proof (intro allI impI)
  fix V e and st :: "'s istate"
  assume st: "base s (st_store st)" "agree V e (st_env st)" and sc: "scoped V (LetOp v x body)"
  have x: "eval_expr C (st_env st) x = eval_expr C e x"
    by (rule agree_expr [OF st(2)]) (use sc in simp)
  have "justified s V e (derives_by C s e (LetOp v x body)) st (exec_op C body (set_env ((st_env st)(v \<mapsto> w)) st))"
    if "eval_expr C e x = Inr w" for w
    by (rule justified_mono [OF bound_var_justified [OF body st]]) (use sc that in \<open>auto intro: by_let\<close>)
  then show "justified s V e (derives_by C s e (LetOp v x body)) st (exec_op C (LetOp v x body) st)"
    using justified_Inl [OF st(1)] x by (cases "eval_expr C e x") simp_all
qed

lemma match_field_justified:
  assumes "cf_store C = S" and body: "plan_justified C s body"
  shows "plan_justified C s (MatchField x field v body)"
  unfolding plan_justified_def
proof (intro allI impI)
  fix V e and st :: "'s istate"
  let ?p = "MatchField x field v body"
  assume st: "base s (st_store st)" "agree V e (st_env st)" and sc: "scoped V ?p"
  let ?r = "bindR (eval_operand (cf_ir C) e x) (\<lambda>v. bindR (resolve_name (cf_ir C) field) (\<lambda>f. Inr (struct_field f v)))"
  let ?run = "\<lambda>w. bindS (exec_op C body (set_env ((st_env st)(v \<mapsto> w)) st))
    (\<lambda>n st1. (Inr n, set_env ((st_env st1)(v := None)) st1))"
  have x: "eval_operand (cf_ir C) (st_env st) x = eval_operand (cf_ir C) e x"
    using agree_operand [OF st(2)] sc by simp
  have run: "justified s V e (derives_by C s e ?p) st (?run w)" if "?r = Inr (Some w)" for w
  proof (rule justified_mono)
    show "justified s V e (derives_by C s (e(v \<mapsto> w)) body) st (?run w)"
      by (rule justified_after [OF bound_var_justified [OF body st]]) (use sc in \<open>auto simp: set_env_def agree_def\<close>)
  qed (use that in \<open>auto intro: by_field\<close>)
  show "justified s V e (derives_by C s e ?p) st (exec_op C ?p st)"
    unfolding exec_op.simps x
    using justified_Inl [OF st(1)] justified_none [OF st] run by (auto split: sum.split option.split)
qed

lemma iterate_list_justified:
  assumes "cf_store C = S" and body: "plan_justified C s body"
  shows "plan_justified C s (IterateList x v body)"
  unfolding plan_justified_def
proof (intro allI impI)
  fix V e and st :: "'s istate"
  let ?p = "IterateList x v body"
  assume st: "base s (st_store st)" "agree V e (st_env st)" and sc: "scoped V ?p"
  let ?f = "\<lambda>w st1. exec_op C body (set_env ((st_env st1)(v \<mapsto> w)) st1)"
  have x: "eval_operand (cf_ir C) (st_env st) x = eval_operand (cf_ir C) e x"
    using agree_operand [OF st(2)] sc by simp
  have run: "justified s V e (derives_by C s e ?p) st
      (bindS (for_each ?f es st) (\<lambda>n st1. (Inr n, set_env ((st_env st1)(v := None)) st1)))"
    if es: "eval_operand (cf_ir C) e x = Inr (Compound KList es)" for es
  proof (rule justified_after [OF for_each_justified [OF st]])
    fix w and st1 :: "'s istate"
    assume "w \<in> set es" "base s (st_store st1)" "agree V e (st_env st1)"
    then show "justified s V e (derives_by C s e ?p) st1 (?f w st1)"
      using sc es by (intro justified_mono [OF bound_var_justified [OF body]]) (auto intro: by_list)
  qed (use sc in \<open>auto simp: set_env_def agree_def\<close>)
  show "justified s V e (derives_by C s e ?p) st (exec_op C ?p st)"
    unfolding exec_op.simps x
    using justified_Inl [OF st(1)] justified_none [OF st] run
    by (auto split: sum.split mvalue.split compound_kind.split)
qed

lemma hash_join_pairs_justified:
  assumes body: "plan_justified C s body" and st: "base s (st_store st)" "agree V e (st_env st)"
    and sc: "set bv \<inter> V = {}" "set pv \<inter> V = {}" "scoped (V \<union> set pv \<union> set bv) body"
    and len: "length pt = length pv" "\<And>bt. bt \<in> set bts \<Longrightarrow> length bt = length bv"
    and J: "\<And>bt qs f. bt \<in> set bts \<Longrightarrow> derives_by C s (e(pv [\<mapsto>] pt, bv [\<mapsto>] bt)) body qs f \<Longrightarrow> J qs f"
  shows "justified s V e J st
    (for_each (\<lambda>bt st2. exec_op C body (set_env ((st_env st2)(bv [\<mapsto>] bt)) st2)) bts
      (set_env ((st_env st)(pv [\<mapsto>] pt)) st))"
proof -
  let ?W = "V \<union> (set pv - set bv)" and ?e = "e(pv [\<mapsto>] pt)"
  let ?st = "set_env ((st_env st)(pv [\<mapsto>] pt)) st"
  have start: "base s (st_store ?st)" "agree ?W ?e (st_env ?st)"
    using st agree_weaken [OF agree_upds [OF st(2) len(1)], of ?W] by (auto simp: set_env_def)
  have W: "set bv \<inter> ?W = {}" "?W \<union> set bv = V \<union> set pv \<union> set bv"
    using sc(1) by auto
  have step: "justified s ?W ?e J st2 (exec_op C body (set_env ((st_env st2)(bv [\<mapsto>] bt)) st2))"
    if "bt \<in> set bts" "base s (st_store st2)" "agree ?W ?e (st_env st2)" for bt and st2 :: "'s istate"
  proof -
    have "justified s ?W ?e (derives_by C s (?e(bv [\<mapsto>] bt)) body) (set_env ((st_env st2)(bv [\<mapsto>] bt)) st2)
        (exec_op C body (set_env ((st_env st2)(bv [\<mapsto>] bt)) st2))"
      by (rule bound_body_justified [OF body that(2,3) W(1), where g = "\<lambda>st. st"])
         (use sc(3) len(2) [OF that(1)] W(2) in simp_all)
    then have "justified s ?W ?e J (set_env ((st_env st2)(bv [\<mapsto>] bt)) st2)
        (exec_op C body (set_env ((st_env st2)(bv [\<mapsto>] bt)) st2))"
      by (rule justified_mono) (rule J [OF that(1)])
    then show ?thesis
      by (rule justified_start) (simp add: set_env_def)
  qed
  have "justified s ?W ?e J ?st
      (for_each (\<lambda>bt st2. exec_op C body (set_env ((st_env st2)(bv [\<mapsto>] bt)) st2)) bts ?st)"
    by (rule for_each_justified [OF start step])
  then have "justified s V e J ?st
      (for_each (\<lambda>bt st2. exec_op C body (set_env ((st_env st2)(bv [\<mapsto>] bt)) st2)) bts ?st)"
  proof (rule justified_weaken)
    fix e1 :: env
    show "agree ?W ?e e1 \<Longrightarrow> agree V e e1"
      unfolding agree_def using sc(2) by (metis UnI1 disjoint_iff map_upds_apply_nontin)
  qed
  then show ?thesis
    by (rule justified_start) (simp add: set_env_def)
qed

lemma hash_join_justified:
  assumes C: "cf_store C = S" and body: "plan_justified C s body"
  shows "plan_justified C s (HashJoin b p ks body)"
  unfolding plan_justified_def
proof (intro allI impI)
  fix V e and st :: "'s istate"
  let ?p = "HashJoin b p ks body" and ?bv = "source_vars b" and ?pv = "source_vars p"
  assume st: "base s (st_store st)" "agree V e (st_env st)" and sc: "scoped V ?p"
  let ?r = "bindR (collect_data_source C s e b) (\<lambda>(_, bts).
     bindR (key_positions ''HashJoin: join key not in build_source vars'' ks ?bv) (\<lambda>bps.
     bindR (collect_data_source C s e p) (\<lambda>(_, pts).
     bindR (key_positions ''HashJoin: join key not in probe_source vars'' ks ?pv) (\<lambda>pps.
       Inr (bts, bps, pts, pps)))))"
  have src: "collect_data_source C (st_store st) (st_env st) b = collect_data_source C s e b"
    "collect_data_source C (st_store st) (st_env st) p = collect_data_source C s e p"
    by (rule source_static [OF C st]; use sc in simp)+
  show "justified s V e (derives_by C s e ?p) st (exec_op C ?p st)"
  proof (cases ?r)
    case (Inl err)
    show ?thesis
      unfolding exec_op.simps exec_hash_join_def src Inl sum.case by (rule justified_Inl [OF st(1)])
  next
    case (Inr q)
    then obtain bn bts bps pn pts pps where q: "q = (bts, bps, pts, pps)"
      and cb: "collect_data_source C s e b = Inr (bn, bts)" and cp: "collect_data_source C s e p = Inr (pn, pts)"
      and kb: "key_positions ''HashJoin: join key not in build_source vars'' ks ?bv = Inr bps"
      and kp: "key_positions ''HashJoin: join key not in probe_source vars'' ks ?pv = Inr pps"
      by auto
    let ?tab = "build_table bps (length ?bv) bts []"
    let ?m = "\<lambda>pt. filter (\<lambda>t. length t = length ?bv \<and> proj bps t = proj pps pt) bts"
    let ?run = "\<lambda>pt st1 us. for_each (\<lambda>bt st2. exec_op C body (set_env ((st_env st2)(?bv [\<mapsto>] bt)) st2))
            us (set_env ((st_env st1)(?pv [\<mapsto>] pt)) st1)"
    let ?f = "\<lambda>pt st1. if length pt \<noteq> length ?pv then (Inr 0, st1)
      else case map_of ?tab (proj pps pt) of None \<Rightarrow> (Inr 0, st1) | Some us \<Rightarrow> ?run pt st1 us"
    have step: "justified s V e (derives_by C s e ?p) st1 (?f pt st1)"
      if pt: "pt \<in> set pts" and st1: "base s (st_store st1)" "agree V e (st_env st1)"
      for pt and st1 :: "'s istate"
    proof (cases "length pt = length ?pv \<and> map_of ?tab (proj pps pt) \<noteq> None")
      case True
      then have m: "map_of ?tab (proj pps pt) = Some (?m pt)"
        using build_table_match [of bps "length ?bv" bts "proj pps pt"] by auto
      have "justified s V e (derives_by C s e ?p) st1 (?run pt st1 (?m pt))"
        by (rule hash_join_pairs_justified [OF body st1])
           (use sc True pt in \<open>auto intro: by_join [OF cb cp kb kp]\<close>)
      then show ?thesis
        using True m by simp
    qed (use justified_none [OF st1] in auto)
    show ?thesis
      unfolding exec_op.simps exec_hash_join_def src Inr q sum.case prod.case Let_def
      by (rule for_each_justified [OF st step])
  qed
qed

lemma exec_justified:
  assumes "cf_store C = S"
  shows "plan_justified C s p"
proof (induction p)
  case Nop
  then show ?case by (simp add: plan_justified_def justified_none)
next
  case (Seq ps)
  have "justified s V e (derives_by C s e (Seq ps)) st (for_each (exec_op C) ps st)"
    if "base s (st_store st)" "agree V e (st_env st)" "scoped V (Seq ps)" for V e st
  proof (rule for_each_justified [OF that(1,2)])
    fix p and st1 :: "'s istate"
    assume "p \<in> set ps" "base s (st_store st1)" "agree V e (st_env st1)"
    then show "justified s V e (derives_by C s e (Seq ps)) st1 (exec_op C p st1)"
      using Seq that(3)
      by (intro justified_mono [OF plan_justifiedD]) (auto simp: list_all_iff intro: by_seq)
  qed
  then show ?case by (simp add: plan_justified_def)
next
  case (InsertOp rel args)
  then show ?case
    unfolding plan_justified_def using insert_justified [OF assms] by simp
next
  case (GroupBy r vs ks as p)
  then show ?case by (simp add: plan_justified_def)
qed (simp_all add: assms iterate_justified filter_justified let_justified hash_join_justified
       match_field_justified iterate_list_justified)

end

end
