(* ===== verification/Mem_Store_Props.thy ===== *)
theory Mem_Store_Props
  imports Store_API
begin

text \<open>
  The properties of \<open>MemStore\<close>: the effect of each operation on the facts, exactness of index
  lookups, and what goes wrong when a tuple that is only in the delta is retracted.
\<close>

subsection \<open>The invariant after inserts and merges\<close>

lemma insert_inv:
  assumes "store_inv s" "mem_insert r t s = (b, s')"
  shows "store_inv s'" "b \<longleftrightarrow> t \<notin> set (stable_facts s r @ delta_facts s r @ next_facts s r) \<and> accepts s r t"
    "stable_facts s' = stable_facts s" "delta_facts s' = delta_facts s"
    "next_facts s' = (if b then (next_facts s)(r := next_facts s r @ [t]) else next_facts s)"
proof -
  note rep = inv_represents [OF assms(1)]
  let ?new = "t \<notin> set (stable_facts s r) \<union> set (delta_facts s r) \<union> set (next_facts s r) \<and> accepts s r t"
  have eq: "(b, s') = (if ?new then (True, snd (mem_insert r t s)) else (False, s))"
    using mem_insert_represents(1) [OF rep, where r = r and t = t] unfolding assms(2) .
  show b: "b \<longleftrightarrow> t \<notin> set (stable_facts s r @ delta_facts s r @ next_facts s r) \<and> accepts s r t"
    using eq by (cases ?new) auto
  have "store_inv s' \<and> stable_facts s' = stable_facts s \<and> delta_facts s' = delta_facts s \<and>
        next_facts s' = (if b then (next_facts s)(r := next_facts s r @ [t]) else next_facts s)"
  proof (cases ?new)
    case True
    then have "represents s' (stable_facts s) (delta_facts s) ((next_facts s)(r := next_facts s r @ [t]))"
      using mem_insert_represents(2) [OF rep, where r = r and t = t] assms(2) by simp
    moreover have b
      using eq True by simp
    ultimately show ?thesis
      using represents_inv represents_facts by simp
  next
    case False
    then have "\<not> b" "s' = s"
      using eq by auto
    then show ?thesis
      using assms(1) by simp
  qed
  then show "store_inv s'" "stable_facts s' = stable_facts s" "delta_facts s' = delta_facts s"
    "next_facts s' = (if b then (next_facts s)(r := next_facts s r @ [t]) else next_facts s)"
    by blast+
qed

lemma merge_inv: "store_inv s \<Longrightarrow> mem_merge_deltas s = Inr s' \<Longrightarrow> store_inv s'"
  using mem_merge_represents [OF inv_represents] represents_inv by fastforce

subsection \<open>A row dropped from the delta\<close>

lemma traverseR_Panic:
  assumes "\<And>x. x \<in> set xs \<Longrightarrow> f x = Inl Panic \<or> (\<exists>y. f x = Inr y)" "x \<in> set xs" "f x = Inl Panic"
  shows "traverseR f xs = Inl Panic"
  using assms
proof (induction xs)
  case (Cons z zs)
  show ?case
  proof (cases "f z")
    case (Inl e)
    then show ?thesis
      using Cons.prems(1) [of z] by simp
  next
    case (Inr y)
    have "traverseR f zs = Inl Panic"
      by (rule Cons.IH) (use Cons.prems Inr in auto)
    then show ?thesis
      using Inr by simp
  qed
qed simp

lemma length_swap_remove: "length (swap_remove xs i) = length xs - 1"
  by (simp add: swap_remove_def)

lemma set_swap_remove: "i < length xs \<Longrightarrow> set (swap_remove xs i) \<subseteq> set xs"
proof -
  assume "i < length xs"
  then have "set (xs[i := last xs]) \<subseteq> set xs"
    by (intro set_update_subsetI) (auto intro!: last_in_set)
  then show ?thesis
    unfolding swap_remove_def by (meson in_set_butlastD subset_code(1))
qed

text \<open>What \<open>retract\<close> leaves behind when the tuple is only in the delta: the row is gone, the index
  of the delta still lists its old last row number.\<close>

lemma retract_delta_state:
  assumes inv: "store_inv s" and t: "t \<in> set (delta_facts s r)"
  obtains i where "mem_retract r t s = Inr (False, s\<lparr>
        delta := AList.update r (swap_remove (rows (delta s) r) i) (delta s)\<rparr>)"
    "i < length (rows (delta s) r)"
proof -
  have notin: "t \<notin> set (stable_facts s r)" "t \<notin> set (next_facts s r)"
    using store_invD(6) [OF inv, of r] t by auto
  note st = remove_row_represents(1,4) [OF rows_okD(1) [OF store_invD(1) [OF inv]], where r = r and t = t]
  note nx = remove_row_represents(1,4) [OF rows_okD(1) [OF store_invD(3) [OF inv]], where r = r and t = t]
  have "flatten_tuple t \<in> set (rows (delta s) r)"
    using row_mem_iff [OF store_invD(2) [OF inv]] t by blast
  then obtain table where tab: "map_of (delta s) r = Some table" and mem: "flatten_tuple t \<in> set table"
    by (cases "map_of (delta s) r") (simp_all add: rows_def)
  then obtain i where "position (flatten_tuple t) table = Some i"
    using position_None [of "flatten_tuple t" table] by (auto simp del: position_None)
  note table = tab this
  then have "remove_row r (flatten_tuple t) (delta s) =
      (True, AList.update r (swap_remove (rows (delta s) r) i) (delta s))" "i < length (rows (delta s) r)"
    using position_Some [OF table(2)] by (simp_all add: remove_row_def rows_def)
  moreover have "remove_row r (flatten_tuple t) (stable s) = (False, stable s)"
    "snd (remove_row r (flatten_tuple t) (next_delta s)) = next_delta s"
    using st nx notin by (simp_all add: prod_eq_iff)
  ultimately show thesis
    using that by (simp add: mem_retract_def Let_def)
qed

lemma stale_lookup:
  assumes inv: "store_inv s" and i: "i < length (rows (delta s) r)"
    and last: "delta_facts s r = ts @ [u]" and c: "c < length u"
  shows "lookup_rows (AList.update r (swap_remove (rows (delta s) r) i) (delta s)) (delta_indexes s)
    (n_cols_of s r) r c (value_to_index_key (u ! c)) = Inl Panic"
proof -
  let ?table = "swap_remove (rows (delta s) r) i"
  let ?f = "\<lambda>j. bindR (index_list ?table j) (\<lambda>cells. unflatten_tuple cells (n_cols_of s r))"
  let ?hits = "index_hits (delta_indexes s) r c (value_to_index_key (u ! c))"
  have ok: "rows_ok s (delta s)"
    by (rule store_invD(2) [OF inv])
  have len: "length (rows (delta s) r) = length (ts @ [u])"
    using rows_okD(1) [OF ok, of r] last by simp
  have hits: "?hits = hits_from 0 (ts @ [u]) c (value_to_index_key (u ! c))"
    using store_invD(5) [OF inv] last by (simp add: index_ok_def)
  have "length ts \<in> set ?hits"
    using c by (simp add: hits hits_from_append hit_def)
  moreover have "?f (length ts) = Inl Panic"
    using len by (simp add: index_list_def length_swap_remove)
  moreover have "?f j = Inl Panic \<or> (\<exists>y. ?f j = Inr y)" for j
  proof (cases "j < length ?table")
    case True
    then have "?table ! j \<in> set (rows (delta s) r)"
      using set_swap_remove [OF i] nth_mem by blast
    then obtain v where v: "?table ! j = flatten_tuple v" "v \<in> set (delta_facts s r)"
      using rows_okD(1) [OF ok, of r] by auto
    then have "length v = n_cols_of s r"
      using rows_okD(3) [OF ok] by blast
    then show ?thesis
      using v unflatten_flatten_tuple [of v] True by (simp add: index_list_def)
  qed (simp add: index_list_def)
  ultimately have "traverseR ?f ?hits = Inl Panic"
    by (intro traverseR_Panic) auto
  then show ?thesis
    by (simp add: lookup_rows_def update_conv')
qed

subsection \<open>Properties\<close>

text \<open>\<open>insert\<close> reports \<open>true\<close> exactly when the tuple is in none of the three tables and has the
  registered arity (or none is registered); then it appends the tuple to the next delta and changes
  nothing else, and otherwise it changes nothing.\<close>

theorem mem_insert_spec:
  assumes "store_inv s" "mem_insert r t s = (b, s')"
  shows "store_inv s' \<and>
    (b \<longleftrightarrow> t \<notin> set (stable_facts s r @ delta_facts s r @ next_facts s r) \<and> accepts s r t) \<and>
    mem_scan s' r' = mem_scan s r' \<and> mem_scan_delta s' r' = mem_scan_delta s r' \<and>
    mem_scan_next_delta s' r' =
      Inr (next_facts s r' @ (if b \<and> r' = r then [t] else []))"
  using insert_inv [OF assms] scan_facts [OF assms(1)] scan_facts [OF insert_inv(1) [OF assms]]
  by simp

theorem mem_insert_spec_witness:
  "mem_scan_next_delta (snd (mem_insert ''p'' [Number 1] mem_new)) ''p'' = Inr [[Number 1]]"
proof -
  have "mem_insert ''p'' [Number 1] mem_new = (True, snd (mem_insert ''p'' [Number 1] mem_new))"
    by (simp add: mem_insert_def mem_new_def Let_def)
  from mem_insert_spec [OF mem_new_inv this, of "''p''"] show ?thesis
    by (simp add: mem_new_def facts_of_def)
qed

text \<open>C11: \<open>merge_deltas\<close> always succeeds on a well-formed store: the delta rows move behind the stable
  ones, the next delta becomes the delta, the next delta is emptied, and all indexes are right again
  (the invariant), so that nothing is lost or duplicated.\<close>

theorem mem_merge_spec:
  assumes "store_inv s"
  shows "\<exists>s'. mem_merge_deltas s = Inr s' \<and> store_inv s' \<and>
    mem_scan s' r = Inr (stable_facts s r @ delta_facts s r @ next_facts s r) \<and>
    mem_scan_delta s' r = Inr (next_facts s r) \<and> mem_scan_next_delta s' r = Inr []"
proof -
  obtain s' where s': "mem_merge_deltas s = Inr s'"
    "represents s' (\<lambda>r. stable_facts s r @ delta_facts s r) (next_facts s) (\<lambda>r. [])"
    using mem_merge_represents [OF inv_represents [OF assms]] by blast
  have inv: "store_inv s'" by (rule represents_inv [OF s'(2)])
  show ?thesis
    by (rule exI [of _ s']) (simp add: s'(1) inv scan_facts [OF inv] represents_facts [OF s'(2)])
qed

theorem mem_merge_spec_witness:
  "\<exists>s'. mem_merge_deltas (snd (mem_insert ''p'' [Number 1] mem_new)) = Inr s' \<and>
     mem_scan_next_delta s' ''p'' = Inr []"
proof -
  have "store_inv (snd (mem_insert ''p'' [Number 1] mem_new))"
    by (rule insert_inv(1) [OF mem_new_inv surjective_pairing])
  from mem_merge_spec [OF this, of "''p''"] show ?thesis by blast
qed



text \<open>Retracting a tuple that is not in the delta removes it from the stable and next-delta
  tables and from nothing else, keeps the invariant (the indexes are rebuilt), and reports whether it
  was stable.\<close>

theorem mem_retract_spec:
  assumes "store_inv s" "t \<notin> set (delta_facts s r)"
  shows "\<exists>s'. mem_retract r t s = Inr (t \<in> set (stable_facts s r), s') \<and> store_inv s' \<and>
    set (stable_facts s' r) = set (stable_facts s r) - {t} \<and> delta_facts s' = delta_facts s \<and>
    set (next_facts s' r) = set (next_facts s r) - {t} \<and>
    (\<forall>q. q \<noteq> r \<longrightarrow> stable_facts s' q = stable_facts s q \<and> next_facts s' q = next_facts s q)"
proof -
  obtain s' where s': "mem_retract r t s = Inr (t \<in> set (stable_facts s r), s')"
    "represents s' ((stable_facts s)(r := del_tuple t (stable_facts s r))) (delta_facts s)
       ((next_facts s)(r := del_tuple t (next_facts s r)))"
    using mem_retract_represents [OF inv_represents [OF assms(1)] assms(2)] by blast
  have "distinct (stable_facts s r)" "distinct (next_facts s r)"
    using store_invD(6) [OF assms(1), of r] by simp_all
  then show ?thesis
    using s'(1) represents_inv [OF s'(2)] represents_facts [OF s'(2)] by (simp add: del_tuple_props)
qed

theorem mem_retract_spec_witness:
  "\<exists>s'. mem_retract ''p'' [Number 1] mem_new = Inr (False, s') \<and> store_inv s'"
  using mem_retract_spec [OF mem_new_inv, of "[Number 1]" "''p''"]
  by (auto simp: mem_new_def facts_of_def)

text \<open>C13: Retracting a tuple that is in the delta reports \<open>false\<close> although it removes the tuple, and
  leaves the delta index stale: a later index lookup with a key of the last delta row panics.\<close>

theorem retract_delta_stale_index:
  assumes "store_inv s" "t \<in> set (delta_facts s r)" "delta_facts s r = ts @ [u]" "c < length u"
  shows "\<exists>s'. mem_retract r t s = Inr (False, s') \<and>
    length (rows (delta s') r) < length (rows (delta s) r) \<and>
    mem_scan_index s' r c (u ! c) = Inl Panic"
proof -
  obtain i where i: "mem_retract r t s = Inr (False, s\<lparr>
      delta := AList.update r (swap_remove (rows (delta s) r) i) (delta s)\<rparr>)" "i < length (rows (delta s) r)"
    by (rule retract_delta_state [OF assms(1,2)])
  let ?s = "s\<lparr>delta := AList.update r (swap_remove (rows (delta s) r) i) (delta s)\<rparr>"
  have "lookup_rows (stable s) (stable_indexes s) (n_cols_of s r) r c (value_to_index_key (u ! c)) =
      Inr (filter (hit c (value_to_index_key (u ! c))) (stable_facts s r))"
    using store_invD(1,4) [OF assms(1)]
    by (intro lookup_rows_filter rows_okD) (simp_all add: index_ok_def)
  then have "mem_scan_index ?s r c (u ! c) = Inl Panic"
    using stale_lookup [OF assms(1) i(2) assms(3,4)] by (simp add: mem_scan_index_def n_cols_of_def Let_def)
  then show ?thesis
    using i by (auto simp: length_swap_remove)
qed

theorem retract_delta_stale_index_witness:
  "\<exists>s'. mem_retract ''p'' [Number 1]
          (projr (mem_merge_deltas (snd (mem_insert ''p'' [Number 1] mem_new)))) = Inr (False, s') \<and>
     mem_scan_index s' ''p'' 0 (Number 1) = Inl Panic"
proof -
  let ?s1 = "snd (mem_insert ''p'' [Number 1] mem_new)"
  have ins: "mem_insert ''p'' [Number 1] mem_new = (True, ?s1)"
    by (simp add: mem_insert_def mem_new_def Let_def)
  note s1 = insert_inv [OF mem_new_inv ins]
  obtain s2 where s2: "mem_merge_deltas ?s1 = Inr s2"
    "represents s2 (\<lambda>r. stable_facts ?s1 r @ delta_facts ?s1 r) (next_facts ?s1) (\<lambda>r. [])"
    using mem_merge_represents [OF inv_represents [OF s1(1)]] by blast
  have "delta_facts s2 ''p'' = [] @ [[Number 1]]"
    unfolding represents_facts(2) [OF s2(2)] s1(5) by (simp add: mem_new_def facts_of_def)
  then show ?thesis
    using retract_delta_stale_index [OF represents_inv [OF s2(2)], of "[Number 1]" "''p''" "[]" "[Number 1]" 0]
      s2(1) by auto
qed

end
