(* ===== verification/Demo.thy ===== *)
theory Demo
  imports Interp_Correct Mem_Store_Props
begin

text \<open>
  The small concrete program that witnesses run: \<open>q(X) :- p(X), X < 2.\<close> over the facts \<open>p(1)\<close> and
  \<open>p(2)\<close>, with an IR that names the relations, variables and aggregates used.
\<close>

subsection \<open>A concrete run\<close>

definition demo_ir :: ir where
  "demo_ir = ir_new\<lparr>name_store := \<lparr>imap = [''p'' \<mapsto> 1, ''q'' \<mapsto> 2, ''X'' \<mapsto> 3, ''fn:max'' \<mapsto> 4,
       ''fn:sum'' \<mapsto> 5, ''Y'' \<mapsto> 6],
     ivec = [''p'', ''q'', ''X'', ''fn:max'', ''fn:sum'', ''Y'']\<rparr>\<rparr>"

text \<open>Any platform serves: the plan below uses no float and no clock.\<close>

definition demo_platform :: platform where
  "demo_platform = \<lparr>f_add = (+), f_sub = (-), f_mul = (*), f_div = (\<lambda>x y. x), f_sqrt = (\<lambda>x. x),
     f_max = (\<lambda>x y. x), f_min = (\<lambda>x y. x), f_display = (\<lambda>x. []), f_scaled = (\<lambda>s n. None),
     str_debug = (\<lambda>s. s), now_nanos = Inr 0\<rparr>"

definition demo_cfg :: "mem_store interp_cfg" where
  "demo_cfg = \<lparr>cf_ir = demo_ir, cf_store = mem_ops, cf_platform = demo_platform, cf_order = (\<lambda>gs. gs)\<rparr>"

definition demo_store :: mem_store where
  "demo_store = projr (mem_merge_deltas
     (snd (mem_insert ''p'' [Number 2] (snd (mem_insert ''p'' [Number 1] mem_new)))))"

definition demo_plan :: op where
  "demo_plan = Iterate (Scan 1 [3]) (FilterOp (Cmp CLt (OVar 3) (OConst (CNumber 2))) (InsertOp 2 [OVar 3]))"

definition demo_state :: "mem_store istate" where
  "demo_state = \<lparr>st_store = demo_store, st_prov = Some \<lparr>prov_entries = [], active_premises = []\<rparr>,
     st_env = Map.empty\<rparr>"

lemma demo_store_inv: "store_inv demo_store"
proof -
  let ?s = "snd (mem_insert ''p'' [Number 2] (snd (mem_insert ''p'' [Number 1] mem_new)))"
  have inv: "store_inv ?s"
    by (rule insert_inv(1) [OF insert_inv(1) [OF mem_new_inv surjective_pairing] surjective_pairing])
  obtain s' where "mem_merge_deltas ?s = Inr s'"
    using mem_merge_represents [OF inv_represents [OF inv]] by blast
  then show ?thesis
    unfolding demo_store_def using merge_inv [OF inv] by simp
qed

lemma demo_run: "fst (execute demo_cfg demo_plan demo_state) = Inr 1"
  by code_simp

lemma demo_scoped: "scoped {} demo_plan"
  by (simp add: demo_plan_def)

lemma demo_cf: "cf_store demo_cfg = mem_ops"
  by (simp add: demo_cfg_def)

end
