(* ===== verification/Interp_Props.thy ===== *)
theory Interp_Props
  imports Interp_Group Interp_Why Demo
begin

text \<open>
  The properties of the interpreter over \<open>MemStore\<close>.
\<close>

subsection \<open>Facts of a run over \<open>MemStore\<close>\<close>

lemma ms_factsD: "(r, t) \<in> ms.facts s \<longleftrightarrow> t \<in> set (stable_facts s r @ delta_facts s r @ next_facts s r)"
  by (simp add: ms.facts_def)

lemma ms_growsD:
  assumes "ms.grows s N s'"
  shows "store_inv s'" "stable_facts s' = stable_facts s" "delta_facts s' = delta_facts s"
    "next_facts s' r = next_facts s r @ map snd (filter (\<lambda>f. fst f = r) N)"
    "f \<in> set N \<Longrightarrow> f \<notin> ms.facts s"
  using assms unfolding ms.grows_def ms.log_of_def by blast+

lemma execute_traced:
  assumes "cf_store C = mem_ops" "store_inv (st_store st)"
  shows "ms.traced (st_store st) st (execute C p st)"
  unfolding execute_def
  by (rule ms.env_traced [OF ms.exec_traced [OF assms(1)] ms.base_refl [OF assms(2)]])

lemma execute_exact:
  assumes "cf_store C = mem_ops" "store_inv (st_store st)" "scoped {} p"
  shows "ms.exact {} Map.empty {f. derives C (st_store st) Map.empty p f} st (execute C p st)"
proof -
  have "ms.exact {} Map.empty {f. derives C (st_store st) Map.empty p f} (set_env Map.empty st)
      (exec_op C p (set_env Map.empty st))"
    by (rule ms.plan_exactD [OF ms.exec_exact [OF assms(1)] _ _ assms(3)])
       (use assms(2) in \<open>simp_all add: set_env_def ms.base_refl\<close>)
  then show ?thesis
    unfolding execute_def by (rule ms.exact_start) (simp add: set_env_def)
qed

lemma execute_justified:
  assumes "cf_store C = mem_ops" "store_inv (st_store st)" "scoped {} p"
  shows "ms.justified (st_store st) {} Map.empty (derives_by C (st_store st) Map.empty p) st (execute C p st)"
proof -
  have "ms.justified (st_store st) {} Map.empty (derives_by C (st_store st) Map.empty p) (set_env Map.empty st)
      (exec_op C p (set_env Map.empty st))"
    by (rule ms.plan_justifiedD [OF ms.exec_justified [OF assms(1)] _ _ assms(3)])
       (use assms(2) in \<open>simp_all add: set_env_def ms.base_refl\<close>)
  then show ?thesis
    unfolding execute_def by (rule ms.justified_start) (simp add: set_env_def)
qed

lemma exact_log:
  assumes "ms.exact {} Map.empty D st (Inr n, st')"
  shows "\<exists>N. n = length N \<and> distinct N \<and>
    set N = {(r, t). (r, t) \<in> D \<and>
      t \<notin> set (stable_facts (st_store st) r @ delta_facts (st_store st) r @ next_facts (st_store st) r) \<and>
      arity (st_store st') r = Some (length t)} \<and>
    store_inv (st_store st') \<and> stable_facts (st_store st') = stable_facts (st_store st) \<and>
    delta_facts (st_store st') = delta_facts (st_store st) \<and>
    (\<forall>r. next_facts (st_store st') r = next_facts (st_store st) r @ map snd (filter (\<lambda>f. fst f = r) N))"
proof -
  obtain N where g: "ms.grows (st_store st) N (st_store st')" and n: "n = length N"
    and sound: "set N \<subseteq> D" and complete: "\<And>f. f \<in> D \<Longrightarrow> ms.stored (st_store st') f"
    using assms by (auto simp: ms.exact_def)
  note gD = ms_growsD [OF g]
  have "(r, t) \<in> set N \<longleftrightarrow> (r, t) \<in> D \<and> (r, t) \<notin> ms.facts (st_store st) \<and>
      arity (st_store st') r = Some (length t)" for r t
  proof (intro iffI conjI; (elim conjE)?)
    assume N: "(r, t) \<in> set N"
    show "(r, t) \<in> D"
      using N sound by auto
    show "(r, t) \<notin> ms.facts (st_store st)"
      by (rule gD(5) [OF N])
    have "(r, t) \<in> ms.facts (st_store st')"
      using N ms.grows_facts [OF g] by simp
    then show "arity (st_store st') r = Some (length t)"
      using ms.facts_arity [OF gD(1), of t r] ms_factsD by blast
  next
    assume "(r, t) \<in> D" "(r, t) \<notin> ms.facts (st_store st)" "arity (st_store st') r = Some (length t)"
    then show "(r, t) \<in> set N"
      using complete [of "(r, t)"] ms.grows_facts [OF g] by (auto simp: ms.stored_def)
  qed
  then have "set N = {(r, t). (r, t) \<in> D \<and>
      t \<notin> set (stable_facts (st_store st) r @ delta_facts (st_store st) r @ next_facts (st_store st) r) \<and>
      arity (st_store st') r = Some (length t)}"
    unfolding ms_factsD by auto
  then show ?thesis
    using n ms.grows_distinct [OF g] gD(1-4) by blast
qed

subsection \<open>Properties\<close>

text \<open>C5: A successful run of a well-scoped plan (joins, filters, negation, let, struct and list
  matching; \<open>GroupBy\<close> apart) inserts exactly the facts the plan derives from the store it started
  on: the log of insertions holds, without repetition, the derivable facts that were not yet stored
  and have the arity of their relation, the count returned is its length, it is appended to the
  next-delta tables, and the stable and delta tables are untouched.\<close>

theorem run_derives_exactly:
  assumes "cf_store C = mem_ops" "store_inv (st_store st)" "scoped {} p"
    and "execute C p st = (Inr n, st')"
  shows "\<exists>N. n = length N \<and> distinct N \<and>
    set N = {(r, t). derives C (st_store st) Map.empty p (r, t) \<and>
      t \<notin> set (stable_facts (st_store st) r @ delta_facts (st_store st) r @ next_facts (st_store st) r) \<and>
      arity (st_store st') r = Some (length t)} \<and>
    store_inv (st_store st') \<and> stable_facts (st_store st') = stable_facts (st_store st) \<and>
    delta_facts (st_store st') = delta_facts (st_store st) \<and>
    (\<forall>r. next_facts (st_store st') r = next_facts (st_store st) r @ map snd (filter (\<lambda>f. fst f = r) N))"
  using exact_log [of "{f. derives C (st_store st) Map.empty p f}" st n st']
    execute_exact [OF assms(1-3)] assms(4) by simp

theorem run_derives_exactly_witness:
  "\<exists>N. length N = 1 \<and> (\<forall>f\<in>set N. derives demo_cfg demo_store Map.empty demo_plan f)"
proof -
  obtain st' where "execute demo_cfg demo_plan demo_state = (Inr 1, st')"
    using demo_run by (metis prod.collapse)
  from run_derives_exactly [OF demo_cf _ demo_scoped this] show ?thesis
    using demo_store_inv by (auto simp: demo_state_def)
qed

text \<open>C6: A successful run of a \<open>GroupBy\<close> whose body is well scoped inserts exactly the facts the body
  derives for the groups: the groups are the scanned tuples (stable, delta and next delta) with equal
  key values, in scan order, keys and aggregates are bound to their values, and the iteration order of
  the hash map that holds the groups does not matter.\<close>

theorem group_by_exactly:
  assumes "cf_store C = mem_ops" "\<And>gs. set (cf_order C gs) = set gs" "store_inv (st_store st)"
    and "group_scoped {} vars keys aggs body" "resolve_name (cf_ir C) rel = Inr nm"
    and "execute C (GroupBy rel vars keys aggs body) st = (Inr n, st')"
  shows "\<exists>N. n = length N \<and> distinct N \<and>
    set N = {(r, t). group_derives C (st_store st) Map.empty
        (stable_facts (st_store st) nm @ delta_facts (st_store st) nm @ next_facts (st_store st) nm)
        vars keys aggs body (r, t) \<and>
      t \<notin> set (stable_facts (st_store st) r @ delta_facts (st_store st) r @ next_facts (st_store st) r) \<and>
      arity (st_store st') r = Some (length t)}"
proof -
  let ?D = "{f. group_derives C (st_store st) Map.empty
        (stable_facts (st_store st) nm @ delta_facts (st_store st) nm @ next_facts (st_store st) nm)
        vars keys aggs body f}"
  have "ms.exact {} Map.empty ?D (set_env Map.empty st)
      (exec_op C (GroupBy rel vars keys aggs body) (set_env Map.empty st))"
    using ms.group_by_exact [OF assms(1,2), of "st_store st" "set_env Map.empty st" "{}" Map.empty] assms(3-5)
    by (simp add: set_env_def ms.base_refl)
  then have "ms.exact {} Map.empty ?D st (Inr n, st')"
    unfolding execute_def [symmetric] assms(6) by (rule ms.exact_start) (simp add: set_env_def)
  from exact_log [OF this] show ?thesis
    unfolding mem_Collect_eq by blast
qed

theorem group_by_exactly_witness:
  "\<exists>N. length N = 1 \<and> (\<forall>f\<in>set N. group_derives demo_cfg demo_store Map.empty
     (stable_facts demo_store ''p'' @ delta_facts demo_store ''p'' @ next_facts demo_store ''p'')
     [3] [] [\<lparr>agg_var = 6, agg_func = 5, agg_args = [OVar 3]\<rparr>] (InsertOp 2 [OVar 6]) f)"
proof -
  let ?aggs = "[\<lparr>agg_var = 6, agg_func = 5, agg_args = [OVar 3]\<rparr>]" and ?b = "InsertOp 2 [OVar 6]"
  have "fst (execute demo_cfg (GroupBy 1 [3] [] ?aggs ?b) demo_state) = Inr 1"
    "resolve_name (cf_ir demo_cfg) 1 = Inr ''p''"
    by code_simp+
  then obtain st' where ex: "execute demo_cfg (GroupBy 1 [3] [] ?aggs ?b) demo_state = (Inr 1, st')"
    and nm: "resolve_name (cf_ir demo_cfg) 1 = Inr ''p''"
    by (metis prod.collapse)
  have ord: "\<And>gs. set (cf_order demo_cfg gs) = set gs" and inv: "store_inv (st_store demo_state)"
    and sc: "group_scoped {} [3] [] ?aggs ?b"
    using demo_store_inv by (simp_all add: demo_cfg_def demo_state_def group_scoped_def agg_in_def)
  from group_by_exactly [OF demo_cf ord inv sc nm ex] show ?thesis
    by (auto simp: demo_state_def)
qed

text \<open>C8: Whatever the plan and whether the run succeeds, fails or panics, the only change it makes to
  the store is to append facts that were not stored, each once, to the next-delta tables; the
  invariant holds afterwards, and a successful run returns the number of facts it appended.\<close>

theorem run_frame:
  assumes "cf_store C = mem_ops" "store_inv (st_store st)" "execute C p st = (res, st')"
  shows "\<exists>N. distinct N \<and> (\<forall>n. res = Inr n \<longrightarrow> n = length N) \<and> store_inv (st_store st') \<and>
    (\<forall>(r, t)\<in>set N. t \<notin> set (stable_facts (st_store st) r @ delta_facts (st_store st) r @ next_facts (st_store st) r)) \<and>
    stable_facts (st_store st') = stable_facts (st_store st) \<and>
    delta_facts (st_store st') = delta_facts (st_store st) \<and>
    (\<forall>r. next_facts (st_store st') r = next_facts (st_store st) r @ map snd (filter (\<lambda>f. fst f = r) N))"
proof -
  obtain N where g: "ms.grows (st_store st) N (st_store st')" and n: "\<forall>n. res = Inr n \<longrightarrow> n = length N"
    using execute_traced [OF assms(1,2), of p] assms(3) by (auto simp: ms.traced_def)
  have "\<forall>(r, t)\<in>set N. t \<notin> set (stable_facts (st_store st) r @ delta_facts (st_store st) r @ next_facts (st_store st) r)"
    using ms_growsD(5) [OF g] ms_factsD by blast
  then show ?thesis
    using n ms.grows_distinct [OF g] ms_growsD(1-4) [OF g] by blast
qed

theorem run_frame_witness:
  "stable_facts (st_store (snd (execute demo_cfg demo_plan demo_state))) = stable_facts demo_store"
  using run_frame [OF demo_cf _ surjective_pairing, of demo_state demo_plan] demo_store_inv
  by (auto simp: demo_state_def)

text \<open>C9: With provenance recording on, a run appends exactly one entry per inserted fact, in the
  order of insertion, and a successful run leaves the stack of active premises as it found it.  The
  premises of each entry are the ones active when the run began followed by facts that were in the
  stable or delta tables when the run began.  For a well-scoped plan (no \<open>GroupBy\<close>) these are exactly
  the facts the derivation read: there is a derivation of the entry's fact from the initial store
  whose \<open>Iterate\<close>s bound their variables to these facts, in this order, with nothing left out and
  nothing added.  (The two facts a \<open>HashJoin\<close> matches are not among them: the interpreter pushes no
  premise there.)\<close>

theorem run_provenance:
  assumes "cf_store C = mem_ops" "store_inv (st_store st)" "st_prov st = Some pr"
    and "execute C p st = (res, st')"
  shows "\<exists>es pr'. st_prov st' = Some pr' \<and> prov_entries pr' = prov_entries pr @ es \<and>
    (\<forall>r. next_facts (st_store st') r =
       next_facts (st_store st) r @ map (snd \<circ> derived) (filter (\<lambda>x. fst (derived x) = r) es)) \<and>
    (\<forall>n. res = Inr n \<longrightarrow> n = length es \<and> active_premises pr' = active_premises pr) \<and>
    (\<forall>x\<in>set es. \<exists>extra. prem_facts x = active_premises pr @ extra \<and>
       (\<forall>(r, t)\<in>set extra. t \<in> set (stable_facts (st_store st) r @ delta_facts (st_store st) r)) \<and>
       (scoped {} p \<longrightarrow> derives_by C (st_store st) Map.empty p extra (derived x)))"
proof -
  obtain N where g: "ms.grows (st_store st) N (st_store st')" and n: "\<And>n. res = Inr n \<Longrightarrow> n = length N"
    and pr: "ms.prov_rel (st_store st) N (isl res = False) (st_prov st) (st_prov st')"
    using execute_traced [OF assms(1,2), of p] assms(4) by (auto simp: ms.traced_def)
  obtain es pr' where es: "st_prov st' = Some pr'" "prov_entries pr' = prov_entries pr @ es" "map derived es = N"
    "isl res = False \<longrightarrow> active_premises pr' = active_premises pr"
    "\<And>x. x \<in> set es \<Longrightarrow> \<exists>extra. prem_facts x = active_premises pr @ extra \<and> set extra \<subseteq> ms.readable (st_store st)"
    using pr assms(3) by (auto simp: ms.prov_rel_def)
  have next_log: "next_facts (st_store st') r =
      next_facts (st_store st) r @ map (snd \<circ> derived) (filter (\<lambda>x. fst (derived x) = r) es)" for r
    using ms_growsD(4) [OF g, of r] by (simp add: es(3) [symmetric] filter_map comp_def)
  have why: "derives_by C (st_store st) Map.empty p extra (derived x)"
    if "scoped {} p" "x \<in> set es" "prem_facts x = active_premises pr @ extra" for x extra
    using execute_justified [OF assms(1,2) that(1)] assms(3,4) es(1,2) that(2,3)
    by (fastforce simp: ms.justified_def)
  have prems: "\<exists>extra. prem_facts x = active_premises pr @ extra \<and>
      (\<forall>(r, t)\<in>set extra. t \<in> set (stable_facts (st_store st) r @ delta_facts (st_store st) r)) \<and>
      (scoped {} p \<longrightarrow> derives_by C (st_store st) Map.empty p extra (derived x))" if "x \<in> set es" for x
    using es(5) [OF that] why [OF _ that] unfolding ms.readable_def by blast
  have "n = length es \<and> active_premises pr' = active_premises pr" if "res = Inr n" for n
    using n [OF that] es(3,4) that by auto
  then show ?thesis
    using es(1,2) next_log prems by blast
qed

text \<open>The entry of the demo run names the one fact its scan read.\<close>

theorem run_provenance_witness:
  "\<exists>x pr'. st_prov (snd (execute demo_cfg demo_plan demo_state)) = Some pr' \<and> prov_entries pr' = [x] \<and>
     derives_by demo_cfg demo_store Map.empty demo_plan (prem_facts x) (derived x) \<and>
     length (prem_facts x) = 1"
proof -
  have ex: "execute demo_cfg demo_plan demo_state = (Inr 1, snd (execute demo_cfg demo_plan demo_state))"
    using demo_run by (metis prod.collapse)
  have inv: "store_inv (st_store demo_state)"
    and rec: "st_prov demo_state = Some \<lparr>prov_entries = [], active_premises = []\<rparr>"
    using demo_store_inv by (simp_all add: demo_state_def)
  obtain es pr' where pr': "st_prov (snd (execute demo_cfg demo_plan demo_state)) = Some pr'"
      "prov_entries pr' = es" "length es = 1"
    and why: "\<And>x. x \<in> set es \<Longrightarrow> derives_by demo_cfg demo_store Map.empty demo_plan (prem_facts x) (derived x)"
    using run_provenance [OF demo_cf inv rec ex] demo_scoped by (fastforce simp: demo_state_def)
  obtain x where x: "es = [x]"
    using pr'(3) by (cases es) auto
  have "length (prem_facts x) = 1"
    using why [of x] x unfolding demo_plan_def
    by (auto elim!: derives_by_iterateE derives_by_filterE derives_by_insertE)
  then show ?thesis
    using pr' x why [of x] by auto
qed

text \<open>A negated atom holds exactly when no stored tuple of the relation equals the values of its
  arguments, provided the arguments evaluate.\<close>

theorem negation_spec:
  assumes "cf_store C = mem_ops" "store_inv s" "resolve_name (cf_ir C) rel = Inr nm"
    and "traverseR (eval_operand (cf_ir C) e) args = Inr vals"
  shows "eval_cond C s e (Negation rel args) = Inr (vals \<notin> set (stable_facts s nm @ delta_facts s nm))"
proof -
  have args: "matches_args (cf_ir C) e as t = Inr (t = vs)"
    if "traverseR (eval_operand (cf_ir C) e) as = Inr vs" "length t = length as" for as t vs
    using that
  proof (induction as arbitrary: t vs)
    case (Cons a as)
    then show ?case by (cases t) auto
  qed simp
  have len: "length vals = length args"
    using traverseR_length [OF assms(4)] .
  have "no_match (cf_ir C) e args ts = Inr (vals \<notin> set ts)" for ts
    by (induction ts) (use args [OF assms(4)] len in auto)
  then show ?thesis
    using assms scan_facts(1) [OF assms(2)] by (simp add: mem_ops_def)
qed

theorem negation_spec_witness:
  "eval_cond demo_cfg demo_store [3 \<mapsto> Number 1] (Negation 2 [OVar 3]) =
     Inr ([Number 1] \<notin> set (stable_facts demo_store ''q'' @ delta_facts demo_store ''q''))"
  by (rule negation_spec [OF demo_cf demo_store_inv]) code_simp+

end
