(* ===== verification/Aggregates.thy ===== *)
theory Aggregates
  imports Interp_Group Demo
begin

text \<open>
  What the aggregates compute: each is a fold of its step over the values of its argument in the
  group, \<open>fn:sum\<close> the wrapped sum, \<open>fn:max\<close>/\<open>fn:min\<close> an extremum wherever \<open>Value::cmp\<close> is an order,
  \<open>fn:collect\<close> the values in order and \<open>fn:collect_distinct\<close> their first occurrences.
\<close>

subsection \<open>The loop as a fold\<close>

fun foldR :: "('acc \<Rightarrow> 'a \<Rightarrow> 'acc result) \<Rightarrow> 'acc \<Rightarrow> 'a list \<Rightarrow> 'acc result" where
  "foldR step acc [] = Inr acc"
| "foldR step acc (v # vs) = bindR (step acc v) (\<lambda>acc'. foldR step acc' vs)"

text \<open>The values of the argument over the tuples of a group.\<close>

definition agg_values :: "ir \<Rightarrow> env \<Rightarrow> operand \<Rightarrow> name_id list \<Rightarrow> tuple list \<Rightarrow> mvalue list result" where
  "agg_values m e arg vars ts = traverseR (\<lambda>t. eval_operand m (e(vars [\<mapsto>] t)) arg) ts"

lemma upds_upds: "length t = length vs \<Longrightarrow> e(vs [\<mapsto>] u, vs [\<mapsto>] t) = e(vs [\<mapsto>] t)"
proof
  fix v
  assume "length t = length vs"
  then show "(e(vs [\<mapsto>] u, vs [\<mapsto>] t)) v = (e(vs [\<mapsto>] t)) v"
    using map_upds_in [of vs t v "e(vs [\<mapsto>] u)" e] by (cases "v \<in> set vs") auto
qed

lemma agg_loop_fold:
  assumes "\<forall>t\<in>set ts. length t = length vars" "agg_values m e arg vars ts = Inr vals"
  shows "fst (agg_loop m step arg vars acc ts e) = foldR step acc vals"
proof -
  have "fst (agg_loop m step arg vars acc ts e') = foldR step acc vals"
    if "\<forall>t\<in>set ts. e'(vars [\<mapsto>] t) = e(vars [\<mapsto>] t)" for e'
    using that assms unfolding agg_values_def
  proof (induction ts arbitrary: acc vals e')
    case (Cons t ts)
    have "\<forall>u\<in>set ts. (e(vars [\<mapsto>] t))(vars [\<mapsto>] u) = e(vars [\<mapsto>] u)"
      using Cons.prems(2) by (simp add: upds_upds)
    then show ?case
      using Cons.IH [of "e(vars [\<mapsto>] t)"] Cons.prems by (auto simp: Let_def split: sum.splits)
  qed simp
  then show ?thesis by simp
qed

lemma foldR_sum: "foldR sum_step acc (map Number ns) = Inr (acc + sum_list ns)"
  by (induction ns arbitrary: acc) (simp_all add: sum_step_def add.assoc)

lemma foldR_collect: "foldR (collect_step False) acc vs = Inr (acc @ vs)"
  by (induction vs arbitrary: acc) (simp_all add: collect_step_def)

text \<open>First occurrences, in order.\<close>

fun firsts :: "'a list \<Rightarrow> 'a list \<Rightarrow> 'a list" where
  "firsts seen [] = []"
| "firsts seen (v # vs) = (if v \<in> set seen then firsts seen vs else v # firsts (seen @ [v]) vs)"

lemma foldR_collect_distinct: "foldR (collect_step True) acc vs = Inr (acc @ firsts acc vs)"
  by (induction vs arbitrary: acc) (simp_all add: collect_step_def)

lemma firsts_props: "set (firsts seen vs) = set vs - set seen" "distinct (firsts seen vs)"
  by (induction vs arbitrary: seen) auto

subsection \<open>Extrema\<close>

lemma extremum_steps:
  "max_step None v = Inr (Some v)" "max_step (Some m) v = Inr (Some (if value_cmp v m = Greater then v else m))"
  "min_step None v = Inr (Some v)" "min_step (Some m) v = Inr (Some (if value_cmp v m = Less then v else m))"
  by (simp_all add: max_step_def min_step_def)

locale value_order =
  fixes P :: "mvalue \<Rightarrow> bool"
  assumes cmp_Equal: "P a \<Longrightarrow> P b \<Longrightarrow> value_cmp a b = Equal \<longleftrightarrow> a = b"
    and cmp_trans: "P a \<Longrightarrow> P b \<Longrightarrow> P c \<Longrightarrow> value_cmp a b = Less \<Longrightarrow> value_cmp b c = Less \<Longrightarrow> value_cmp a c = Less"
begin

lemma cmp_Greater: "value_cmp a b = Greater \<longleftrightarrow> value_cmp b a = Less"
  using cmp_swap_both(1) [of b a] by (cases "value_cmp a b") simp_all

lemma le_trans:
  assumes "P a" "P b" "P c" "value_cmp a b \<noteq> Greater" "value_cmp b c \<noteq> Greater"
  shows "value_cmp a c \<noteq> Greater"
  using assms cmp_Equal cmp_trans
  by (metis (full_types) cmp_Greater ordering.exhaust ordering.distinct(3,5) value_cmp_refl)

lemma max_fold:
  assumes "P m" "\<forall>v\<in>set vs. P v"
  shows "\<exists>x. foldR max_step (Some m) vs = Inr (Some x) \<and> x \<in> insert m (set vs) \<and>
    (\<forall>w\<in>insert m (set vs). value_cmp w x \<noteq> Greater)"
  using assms
proof (induction vs arbitrary: m)
  case (Cons v vs)
  let ?m = "if value_cmp v m = Greater then v else m"
  have "P ?m"
    using Cons.prems by simp
  then obtain x where x: "foldR max_step (Some ?m) vs = Inr (Some x)" "x \<in> insert ?m (set vs)"
    "\<forall>w\<in>insert ?m (set vs). value_cmp w x \<noteq> Greater"
    using Cons.IH [of ?m] Cons.prems by auto
  have P: "P x" "P v" "P m" "P ?m"
    using x(2) Cons.prems by (auto split: if_splits)
  have le: "value_cmp v ?m \<noteq> Greater" "value_cmp m ?m \<noteq> Greater"
    using cmp_Greater [of v m] by (auto split: if_splits)
  have "value_cmp v x \<noteq> Greater" "value_cmp m x \<noteq> Greater"
    using le_trans [OF P(2,4,1) le(1)] le_trans [OF P(3,4,1) le(2)] x(3) by auto
  then show ?case
    using x by (auto simp: extremum_steps split: if_splits)
qed simp

lemma min_fold:
  assumes "P m" "\<forall>v\<in>set vs. P v"
  shows "\<exists>x. foldR min_step (Some m) vs = Inr (Some x) \<and> x \<in> insert m (set vs) \<and>
    (\<forall>w\<in>insert m (set vs). value_cmp x w \<noteq> Greater)"
  using assms
proof (induction vs arbitrary: m)
  case (Cons v vs)
  let ?m = "if value_cmp v m = Less then v else m"
  have "P ?m"
    using Cons.prems by simp
  then obtain x where x: "foldR min_step (Some ?m) vs = Inr (Some x)" "x \<in> insert ?m (set vs)"
    "\<forall>w\<in>insert ?m (set vs). value_cmp x w \<noteq> Greater"
    using Cons.IH [of ?m] Cons.prems by auto
  have P: "P x" "P v" "P m" "P ?m"
    using x(2) Cons.prems by (auto split: if_splits)
  have le: "value_cmp ?m v \<noteq> Greater" "value_cmp ?m m \<noteq> Greater"
    using cmp_Greater [of m v] by (auto split: if_splits)
  have "value_cmp x v \<noteq> Greater" "value_cmp x m \<noteq> Greater"
    using le_trans [OF P(1,4,2) _ le(1)] le_trans [OF P(1,4,3) _ le(2)] x(3) by auto
  then show ?case
    using x by (auto simp: extremum_steps split: if_splits)
qed simp

lemma extrema_fold:
  assumes "\<forall>v\<in>set vs. P v" "vs \<noteq> []"
  shows "\<exists>x. foldR max_step None vs = Inr (Some x) \<and> x \<in> set vs \<and> (\<forall>w\<in>set vs. value_cmp w x \<noteq> Greater)"
    and "\<exists>x. foldR min_step None vs = Inr (Some x) \<and> x \<in> set vs \<and> (\<forall>w\<in>set vs. value_cmp x w \<noteq> Greater)"
  using assms max_fold min_fold by (cases vs; simp add: extremum_steps)+

end

interpretation nn: value_order no_number
  by unfold_locales (use fragment_cmp_Equal fragment_cmp_Less_trans in blast)+

interpretation ig: value_order integral
  by unfold_locales (use fragment_cmp_Equal fragment_cmp_Less_trans in blast)+

subsection \<open>Properties\<close>

lemma aggregate_fold:
  assumes "resolve_name (cf_ir C) (agg_func a) = Inr nm" "agg_args a = arg # rest" "nm \<in> set agg_names"
  shows "eval_aggregate C a grp vars e = run_aggregate (cf_ir C) (cf_platform C) nm arg grp vars e"
  using assms by (auto simp: eval_aggregate_def agg_names_def)

text \<open>C15: \<open>fn:max\<close> and \<open>fn:min\<close> return a value of the group that no other value of the group exceeds
  (respectively undercuts), whenever the group is not empty and its values are all integer-free or all
  free of floats, times and durations.\<close>

theorem extremum_aggregate_spec:
  assumes "resolve_name (cf_ir C) (agg_func a) = Inr nm" "nm = ''fn:max'' \<or> nm = ''fn:min''"
    and "agg_args a = arg # rest" "grp \<noteq> []" "\<forall>t\<in>set grp. length t = length vars"
    and "agg_values (cf_ir C) e arg vars grp = Inr vals"
    and "(\<forall>v\<in>set vals. no_number v) \<or> (\<forall>v\<in>set vals. integral v)"
  shows "\<exists>x\<in>set vals. fst (eval_aggregate C a grp vars e) = Inr x \<and>
    (\<forall>w\<in>set vals. (if nm = ''fn:max'' then value_cmp w x else value_cmp x w) \<noteq> Greater)"
proof -
  have "vals \<noteq> []"
    using assms(4,6) traverseR_length [of _ grp vals] by (auto simp: agg_values_def)
  then have ext: "\<exists>x. foldR max_step None vals = Inr (Some x) \<and> x \<in> set vals \<and> (\<forall>w\<in>set vals. value_cmp w x \<noteq> Greater)"
    "\<exists>x. foldR min_step None vals = Inr (Some x) \<and> x \<in> set vals \<and> (\<forall>w\<in>set vals. value_cmp x w \<noteq> Greater)"
    using assms(7) nn.extrema_fold [of vals] ig.extrema_fold [of vals] by blast+
  have "nm \<in> set agg_names"
    using assms(2) by (auto simp: agg_names_def)
  note eq = aggregate_fold [OF assms(1,3) this, of grp vars e]
  note fold = agg_loop_fold [OF assms(5,6)]
  show ?thesis
    using assms(2) ext by (elim disjE) (auto simp: eq run_aggregate_def map_fst_result_def fold found_def)
qed

theorem extremum_aggregate_spec_witness:
  "\<exists>x\<in>{Number 3, Number 9}. fst (eval_aggregate demo_cfg \<lparr>agg_var = 3, agg_func = 4, agg_args = [OVar 3]\<rparr>
     [[Number 3], [Number 9]] [3] Map.empty) = Inr x \<and> value_cmp (Number 9) x \<noteq> Greater"
proof -
  let ?a = "\<lparr>agg_var = 3, agg_func = 4, agg_args = [OVar 3]\<rparr>"
  have "resolve_name (cf_ir demo_cfg) (agg_func ?a) = Inr ''fn:max''"
    "agg_values (cf_ir demo_cfg) Map.empty (OVar 3) [3] [[Number 3], [Number 9]] = Inr [Number 3, Number 9]"
    by code_simp+
  from extremum_aggregate_spec [OF this(1) _ _ _ _ this(2)] show ?thesis
    by (simp add: integral_def mixes_with_number_def no_number_def is_number_def) blast
qed

text \<open>C40: On a group of tuples as long as the list of variables, on each of which the argument of the aggregate
  evaluates: \<open>fn:sum\<close> returns the sum modulo \<open>2^64\<close> when the values are integers, \<open>fn:collect\<close> the values in
  scan order, and \<open>fn:collect_distinct\<close> a list with the same values and no duplicates.\<close>

theorem collecting_aggregates_spec:
  assumes "resolve_name (cf_ir C) (agg_func a) = Inr nm" "agg_args a = arg # rest"
    and "\<forall>t\<in>set grp. length t = length vars" "agg_values (cf_ir C) e arg vars grp = Inr vals"
  shows "(nm = ''fn:sum'' \<longrightarrow> vals = map Number ns \<longrightarrow>
      fst (eval_aggregate C a grp vars e) = Inr (Number (sum_list ns))) \<and>
    (nm = ''fn:collect'' \<longrightarrow> fst (eval_aggregate C a grp vars e) = Inr (Compound KList vals)) \<and>
    (nm = ''fn:collect_distinct'' \<longrightarrow> (\<exists>us. fst (eval_aggregate C a grp vars e) = Inr (Compound KList us) \<and>
      set us = set vals \<and> distinct us))"
proof -
  note fold = agg_loop_fold [OF assms(3,4)]
  have eq: "eval_aggregate C a grp vars e = run_aggregate (cf_ir C) (cf_platform C) nm arg grp vars e"
    if "nm \<in> set agg_names"
    using aggregate_fold [OF assms(1,2) that] .
  show ?thesis
    by (intro conjI impI)
       (simp_all add: eq agg_names_def run_aggregate_def map_fst_result_def fold foldR_sum foldR_collect
         foldR_collect_distinct firsts_props)
qed

theorem collecting_aggregates_spec_witness:
  "fst (eval_aggregate demo_cfg \<lparr>agg_var = 3, agg_func = 5, agg_args = [OVar 3]\<rparr>
     [[Number 3], [Number 9]] [3] Map.empty) = Inr (Number 12)"
proof -
  let ?a = "\<lparr>agg_var = 3, agg_func = 5, agg_args = [OVar 3]\<rparr>"
  have "resolve_name (cf_ir demo_cfg) (agg_func ?a) = Inr ''fn:sum''"
    "agg_values (cf_ir demo_cfg) Map.empty (OVar 3) [3] [[Number 3], [Number 9]] = Inr [Number 3, Number 9]"
    by code_simp+
  from collecting_aggregates_spec [OF this(1) _ _ this(2), where ns = "[3, 9]"] show ?thesis
    by simp
qed

end
