(* ===== verification/Coalesce.thy ===== *)
theory Coalesce
  imports Mem_Store_Props
begin

text \<open>
  \<open>MemStore::coalesce_temporal\<close>: the facts of a temporal relation are grouped by their non-temporal
  columns, and the intervals of each group are sorted and merged where they overlap or touch.  The
  order in which the hash map yields the groups is a parameter.  The lemmas show that coalescing keeps,
  for every key, exactly the covered instants, and that the intervals it leaves are separated.
\<close>

subsection \<open>Intervals\<close>

type_synonym interval = "i64 \<times> i64"
type_synonym interval_groups = "(mvalue list \<times> interval list) list"

definition as_nanos :: "mvalue \<Rightarrow> i64 option" where
  "as_nanos v = (case v of Time t \<Rightarrow> Some t | Number n \<Rightarrow> Some n | _ \<Rightarrow> None)"

definition saturating_succ :: "i64 \<Rightarrow> i64" where
  "saturating_succ b = (if sint b = 2 ^ 63 - 1 then b else b + 1)"

definition i64_max :: "i64 \<Rightarrow> i64 \<Rightarrow> i64" where
  "i64_max a b = (if sint a \<le> sint b then b else a)"

text \<open>The merging loop, with the last merged interval as its state.\<close>

fun merge_loop :: "interval \<Rightarrow> interval list \<Rightarrow> interval list" where
  "merge_loop (a, b) [] = [(a, b)]"
| "merge_loop (a, b) ((s, e) # ivs) =
     (if sint s \<le> sint (saturating_succ b) then merge_loop (a, i64_max b e) ivs
      else (a, b) # merge_loop (s, e) ivs)"

definition merge_intervals :: "interval list \<Rightarrow> interval list" where
  "merge_intervals ivs =
     (case sort_key (\<lambda>iv. sint (fst iv)) ivs of [] \<Rightarrow> [] | iv # rest \<Rightarrow> merge_loop iv rest)"

subsection \<open>Coalescing a relation\<close>

fun push_interval :: "mvalue list \<Rightarrow> interval \<Rightarrow> interval_groups \<Rightarrow> interval_groups" where
  "push_interval key iv [] = [(key, [iv])]"
| "push_interval key iv ((k, ivs) # gs) =
     (if k = key then (k, ivs @ [iv]) # gs else (k, ivs) # push_interval key iv gs)"

fun interval_groups :: "nat \<Rightarrow> mvalue list list \<Rightarrow> interval_groups \<Rightarrow> interval_groups" where
  "interval_groups kc [] gs = gs"
| "interval_groups kc (f # fs) gs =
     interval_groups kc fs
       (case (as_nanos (f ! kc), as_nanos (f ! (kc + 1))) of
          (Some s, Some e) \<Rightarrow> push_interval (take kc f) (s, e) gs
        | _ \<Rightarrow> gs)"

definition coalesced_facts :: "interval_groups \<Rightarrow> mvalue list list" where
  "coalesced_facts gs =
     concat (map (\<lambda>(key, ivs). map (\<lambda>(s, e). key @ [Time s, Time e]) (merge_intervals ivs)) gs)"

fun decode_rows :: "nat \<Rightarrow> row list \<Rightarrow> mvalue list list result" where
  "decode_rows n [] = Inr []"
| "decode_rows n (cells # rs) =
     bindR (count_logical_values cells) (\<lambda>k.
       if k \<noteq> n then decode_rows n rs
       else bindR (unflatten_tuple cells n) (\<lambda>t. bindR (decode_rows n rs) (\<lambda>ts. Inr (t # ts))))"

definition mem_coalesce_temporal ::
    "(interval_groups \<Rightarrow> interval_groups) \<Rightarrow> string \<Rightarrow> mem_store \<Rightarrow> mem_store result" where
  "mem_coalesce_temporal ord rel s =
     (case arity s rel of
        None \<Rightarrow> Inr s
      | Some n_cols \<Rightarrow>
          if n_cols < 2 then Inr s
          else
            bindR (decode_rows n_cols (rows (stable s) rel)) (\<lambda>sts.
            bindR (decode_rows n_cols (rows (delta s) rel)) (\<lambda>dts.
              if sts @ dts = [] then Inr s
              else
                let gs = interval_groups (n_cols - 2) (sts @ dts) [] in
                rebuild_indexes_for rel
                  (s\<lparr>stable := AList.update rel (map flatten_tuple (coalesced_facts (ord gs))) (stable s),
                     delta := AList.delete rel (delta s),
                     next_delta := AList.delete rel (next_delta s)\<rparr>))))"

subsection \<open>What the merge keeps\<close>

definition covered :: "interval list \<Rightarrow> int \<Rightarrow> bool" where
  "covered ivs x \<longleftrightarrow> (\<exists>(s, e) \<in> set ivs. sint s \<le> x \<and> x \<le> sint e)"

lemma covered_simps [simp]:
  "covered [] x \<longleftrightarrow> False"
  "covered ((s, e) # ivs) x \<longleftrightarrow> sint s \<le> x \<and> x \<le> sint e \<or> covered ivs x"
  by (auto simp: covered_def)

lemma sint_i64_max: "sint (i64_max a b) = max (sint a) (sint b)"
  by (simp add: i64_max_def)

lemma sint_saturating_succ: "sint (saturating_succ b) = min (sint b + 1) (2 ^ 63 - 1)"
proof (cases "sint b = 2 ^ 63 - 1")
  case False
  then have "in_i64 (sint b + sint (1 :: i64))"
    using sint_in_i64 [of b] by (simp add: in_i64_def)
  then show ?thesis
    using False sint_in_i64 [of b] sint_i64_ariths(1) [of b 1]
    by (simp add: saturating_succ_def in_i64_def)
qed (simp add: saturating_succ_def)

lemma merge_loop_covered:
  assumes "sorted (map (\<lambda>iv. sint (fst iv)) ((a, b) # ivs))"
  shows "covered (merge_loop (a, b) ivs) x \<longleftrightarrow> covered ((a, b) # ivs) x"
  using assms
proof (induction "(a, b)" ivs arbitrary: a b rule: merge_loop.induct)
  case (2 a b s e ivs)
  show ?case
  proof (cases "sint s \<le> sint (saturating_succ b)")
    case True
    then have s: "sint s \<le> sint b + 1" "sint a \<le> sint s"
      using 2(3) by (auto simp: sint_saturating_succ)
    have "covered (merge_loop (a, i64_max b e) ivs) x \<longleftrightarrow> covered ((a, i64_max b e) # ivs) x"
      by (rule 2(1) [OF True]) (use 2(3) in auto)
    then show ?thesis
      using True s by (auto simp: sint_i64_max)
  next
    case False
    then show ?thesis
      using 2(2) [OF False] 2(3) by auto
  qed
qed simp

text \<open>Proper intervals: merged, they stay proper, in order and at least two nanoseconds apart.\<close>

definition proper :: "interval \<Rightarrow> bool" where
  "proper iv \<longleftrightarrow> sint (fst iv) \<le> sint (snd iv)"

definition separated :: "interval list \<Rightarrow> bool" where
  "separated ivs \<longleftrightarrow> (\<forall>iv\<in>set ivs. proper iv) \<and> sorted_wrt (\<lambda>p q. sint (snd p) + 1 < sint (fst q)) ivs"

lemma merge_loop_starts: "iv \<in> set (merge_loop (a, b) ivs) \<Longrightarrow> fst iv \<in> insert a (fst ` set ivs)"
proof (induction "(a, b)" ivs arbitrary: a b rule: merge_loop.induct)
  case (2 a b s e ivs)
  then show ?case by (auto split: if_splits)
qed simp

lemma merge_loop_separated:
  assumes "sorted (map (\<lambda>iv. sint (fst iv)) ((a, b) # ivs))" "\<forall>iv\<in>set ((a, b) # ivs). proper iv"
  shows "separated (merge_loop (a, b) ivs)"
  using assms
proof (induction "(a, b)" ivs arbitrary: a b rule: merge_loop.induct)
  case (1 a b)
  then show ?case by (simp add: separated_def)
next
  case (2 a b s e ivs)
  show ?case
  proof (cases "sint s \<le> sint (saturating_succ b)")
    case True
    have "separated (merge_loop (a, i64_max b e) ivs)"
      by (rule 2(1) [OF True]) (use 2(3,4) in \<open>auto simp: proper_def sint_i64_max\<close>)
    then show ?thesis
      using True by simp
  next
    case False
    then have s: "sint b + 1 < sint s"
      using sint_in_i64 [of s] by (auto simp: sint_saturating_succ in_i64_def)
    have IH: "separated (merge_loop (s, e) ivs)"
      using 2(2) [OF False] 2(3,4) by auto
    have "sint b + 1 < sint (fst q)" if "q \<in> set (merge_loop (s, e) ivs)" for q
      using merge_loop_starts [OF that] 2(3) s by auto
    then show ?thesis
      using False IH 2(4) by (auto simp: separated_def)
  qed
qed

lemma merge_intervals_covered: "covered (merge_intervals ivs) x \<longleftrightarrow> covered ivs x"
proof -
  let ?s = "sort_key (\<lambda>iv. sint (fst iv)) ivs"
  have same: "covered ?s x \<longleftrightarrow> covered ivs x"
    by (simp add: covered_def)
  have sorted: "sorted (map (\<lambda>iv. sint (fst iv)) ?s)"
    by (rule sorted_sort_key)
  show ?thesis
  proof (cases ?s)
    case Nil
    then show ?thesis using same by (simp add: merge_intervals_def)
  next
    case (Cons iv rest)
    then show ?thesis
      using same sorted merge_loop_covered [of "fst iv" "snd iv" rest x]
      unfolding merge_intervals_def Cons by simp
  qed
qed

lemma merge_intervals_separated: "\<forall>iv\<in>set ivs. proper iv \<Longrightarrow> separated (merge_intervals ivs)"
proof -
  assume p: "\<forall>iv\<in>set ivs. proper iv"
  let ?s = "sort_key (\<lambda>iv. sint (fst iv)) ivs"
  have "sorted (map (\<lambda>iv. sint (fst iv)) ?s)" "\<forall>iv\<in>set ?s. proper iv"
    using p by (simp_all add: sorted_sort_key)
  then show ?thesis
    using merge_loop_separated unfolding merge_intervals_def
    by (cases ?s) (auto simp: separated_def [of "[]"])
qed

lemma separated_distinct: "separated ivs \<Longrightarrow> distinct ivs"
  by (induction ivs) (auto simp: separated_def proper_def)

subsection \<open>Groups of intervals\<close>

definition fact_interval :: "nat \<Rightarrow> mvalue list \<Rightarrow> interval option" where
  "fact_interval kc f =
     (case (as_nanos (f ! kc), as_nanos (f ! (kc + 1))) of (Some s, Some e) \<Rightarrow> Some (s, e) | _ \<Rightarrow> None)"

definition group_of :: "mvalue list \<Rightarrow> interval_groups \<Rightarrow> interval list" where
  "group_of key gs = (case map_of gs key of None \<Rightarrow> [] | Some ivs \<Rightarrow> ivs)"

lemma group_of_push: "group_of k (push_interval key iv gs) = group_of k gs @ (if k = key then [iv] else [])"
proof (induction gs)
  case (Cons g gs)
  then show ?case by (cases g) (auto simp: group_of_def)
qed (simp add: group_of_def)

lemma push_interval_keys: "set (map fst (push_interval key iv gs)) = insert key (set (map fst gs))"
proof (induction gs)
  case (Cons g gs)
  then show ?case by (cases g; cases "fst g = key") auto
qed simp

lemma push_interval_distinct: "distinct (map fst gs) \<Longrightarrow> distinct (map fst (push_interval key iv gs))"
proof (induction gs)
  case (Cons g gs)
  then show ?case
    using push_interval_keys [of key iv gs] by (cases g) auto
qed simp

lemma interval_groups_Cons:
  "interval_groups kc (f # fs) gs =
     interval_groups kc fs (case fact_interval kc f of Some iv \<Rightarrow> push_interval (take kc f) iv gs | None \<Rightarrow> gs)"
  by (auto simp: fact_interval_def split: option.splits)

lemma interval_groups_spec:
  shows "distinct (map fst gs) \<Longrightarrow> distinct (map fst (interval_groups kc fs gs))"
    and "iv \<in> set (group_of k (interval_groups kc fs gs)) \<longleftrightarrow>
      iv \<in> set (group_of k gs) \<or> (\<exists>f\<in>set fs. take kc f = k \<and> fact_interval kc f = Some iv)"
    and "k \<in> set (map fst (interval_groups kc fs gs)) \<Longrightarrow> k \<in> set (map fst gs) \<or> k \<in> take kc ` set fs"
proof (induction fs arbitrary: gs)
  case (Cons f fs)
  let ?g = "\<lambda>gs. case fact_interval kc f of Some iv \<Rightarrow> push_interval (take kc f) iv gs | None \<Rightarrow> gs"
  {
    case (1 gs)
    then have "distinct (map fst (?g gs))"
      using push_interval_distinct by (auto split: option.splits)
    then show ?case
      unfolding interval_groups_Cons by (rule Cons.IH)
  next
    case 2
    show ?case
      unfolding interval_groups_Cons Cons.IH(2) by (auto simp: group_of_push split: option.splits)
  next
    case (3 gs)
    have keys: "set (map fst (?g gs)) \<subseteq> insert (take kc f) (set (map fst gs))"
      by (cases "fact_interval kc f") (use push_interval_keys in auto)
    show ?case
      using Cons.IH(3) [of "?g gs"] 3 keys unfolding interval_groups_Cons by auto
  }
qed simp_all

lemma group_of_in: "distinct (map fst gs) \<Longrightarrow> (key, ivs) \<in> set gs \<Longrightarrow> group_of key gs = ivs"
  by (simp add: group_of_def map_of_eq_Some_iff [THEN iffD2])

lemma group_of_key: "iv \<in> set (group_of key gs) \<Longrightarrow> (key, group_of key gs) \<in> set gs"
  by (auto simp: group_of_def dest: map_of_SomeD split: option.splits)

subsection \<open>Coverage of a relation\<close>

definition fact_covers :: "nat \<Rightarrow> mvalue list list \<Rightarrow> mvalue list \<Rightarrow> int \<Rightarrow> bool" where
  "fact_covers n fs key x \<longleftrightarrow>
     (\<exists>f\<in>set fs. take (n - 2) f = key \<and>
        (\<exists>s e. fact_interval (n - 2) f = Some (s, e) \<and> sint s \<le> x \<and> x \<le> sint e))"

lemma fact_interval_made: "length key = kc \<Longrightarrow> fact_interval kc (key @ [Time s, Time e]) = Some (s, e)"
  by (simp add: fact_interval_def as_nanos_def nth_append)

lemma interval_groups_length:
  assumes "\<forall>f\<in>set fs. length f = n" "2 \<le> n" "(k, ivs) \<in> set (interval_groups (n - 2) fs [])"
  shows "length k = n - 2"
proof -
  have "k \<in> set (map fst (interval_groups (n - 2) fs []))"
    using assms(3) by force
  then have "k \<in> take (n - 2) ` set fs"
    using interval_groups_spec(3) [where k = k and kc = "n - 2" and fs = fs and gs = "[]"] by simp
  then show ?thesis
    using assms(1,2) by auto
qed

lemma in_coalesced:
  "f \<in> set (coalesced_facts gs) \<longleftrightarrow>
     (\<exists>key ivs s e. (key, ivs) \<in> set gs \<and> (s, e) \<in> set (merge_intervals ivs) \<and> f = key @ [Time s, Time e])"
  by (auto simp: coalesced_facts_def) force+

lemma coalesced_covers:
  assumes "\<forall>f\<in>set fs. length f = n" "2 \<le> n" "\<And>gs. mset (ord gs) = mset gs"
  shows "fact_covers n (coalesced_facts (ord (interval_groups (n - 2) fs []))) key x \<longleftrightarrow> fact_covers n fs key x"
proof -
  let ?gs = "interval_groups (n - 2) fs []"
  have set: "set (ord ?gs) = set ?gs"
    by (metis assms(3) set_mset_mset)
  have len: "length k = n - 2" if "(k, ivs) \<in> set ?gs" for k ivs
    using interval_groups_length [OF assms(1,2) that] .
  have dist: "distinct (map fst ?gs)"
    by (rule interval_groups_spec(1)) simp
  have "fact_covers n (coalesced_facts (ord ?gs)) key x \<longleftrightarrow>
      (\<exists>ivs. (key, ivs) \<in> set ?gs \<and> covered (merge_intervals ivs) x)"
    unfolding fact_covers_def Bex_def in_coalesced set covered_def
    using len by (fastforce simp: fact_interval_made)
  also have "\<dots> \<longleftrightarrow> covered (group_of key ?gs) x"
    using group_of_in [OF dist, of key] group_of_key [of _ key ?gs]
    by (auto simp: merge_intervals_covered) (auto simp: covered_def)
  also have "\<dots> \<longleftrightarrow> fact_covers n fs key x"
    using interval_groups_spec(2) [where k = key and kc = "n - 2" and fs = fs and gs = "[]"]
    by (fastforce simp: covered_def fact_covers_def group_of_def)
  finally show ?thesis .
qed

lemma coalesced_distinct:
  assumes "distinct (map fst gs)" "\<forall>(k, ivs)\<in>set gs. \<forall>iv\<in>set ivs. proper iv"
  shows "distinct (coalesced_facts gs)"
  using assms
proof (induction gs)
  case (Cons g gs)
  obtain key ivs where g: "g = (key, ivs)"
    by (cases g)
  have "distinct (merge_intervals ivs)"
    using Cons.prems(2) g by (intro separated_distinct merge_intervals_separated) auto
  then have "distinct (map (\<lambda>(s, e). key @ [Time s, Time e]) (merge_intervals ivs))"
    by (auto simp: distinct_map inj_on_def)
  moreover have "f \<notin> set (coalesced_facts gs)" if "f \<in> set (map (\<lambda>(s, e). key @ [Time s, Time e]) (merge_intervals ivs))" for f
    using that Cons.prems(1) g by (force simp: in_coalesced)
  moreover have "distinct (coalesced_facts gs)"
    using Cons by auto
  moreover have "coalesced_facts (g # gs) =
      map (\<lambda>(s, e). key @ [Time s, Time e]) (merge_intervals ivs) @ coalesced_facts gs"
    by (simp add: coalesced_facts_def g)
  ultimately show ?case
    by (simp only: distinct_append) blast
qed (simp add: coalesced_facts_def)

subsection \<open>The store after coalescing\<close>

definition apart :: "interval \<Rightarrow> interval \<Rightarrow> bool" where
  "apart p q \<longleftrightarrow> sint (snd p) + 1 < sint (fst q) \<or> sint (snd q) + 1 < sint (fst p)"

definition facts_apart :: "nat \<Rightarrow> mvalue list list \<Rightarrow> bool" where
  "facts_apart n fs \<longleftrightarrow>
     (\<forall>f\<in>set fs. \<forall>g\<in>set fs. take (n - 2) f = take (n - 2) g \<longrightarrow>
        f = g \<or> (\<exists>p q. fact_interval (n - 2) f = Some p \<and> fact_interval (n - 2) g = Some q \<and> apart p q))"

definition all_proper :: "nat \<Rightarrow> mvalue list list \<Rightarrow> bool" where
  "all_proper n fs \<longleftrightarrow> (\<forall>f\<in>set fs. \<forall>iv. fact_interval (n - 2) f = Some iv \<longrightarrow> proper iv)"

lemma separated_apart: "separated ivs \<Longrightarrow> p \<in> set ivs \<Longrightarrow> q \<in> set ivs \<Longrightarrow> p = q \<or> apart p q"
  by (induction ivs) (auto simp: separated_def apart_def)

lemma interval_groups_proper:
  assumes "all_proper n fs" "(k, ivs) \<in> set (interval_groups (n - 2) fs [])" "iv \<in> set ivs"
  shows "proper iv"
proof -
  have "distinct (map fst (interval_groups (n - 2) fs []))"
    by (rule interval_groups_spec(1)) simp
  then have "iv \<in> set (group_of k (interval_groups (n - 2) fs []))"
    using group_of_in assms(2,3) by blast
  then obtain f where "f \<in> set fs" "fact_interval (n - 2) f = Some iv"
    using interval_groups_spec(2) [where iv = iv and k = k and kc = "n - 2" and fs = fs and gs = "[]"]
    by (auto simp: group_of_def [of _ "[]"])
  then show ?thesis
    using assms(1) unfolding all_proper_def by blast
qed

lemma coalesced_apart:
  assumes "\<forall>(k, ivs)\<in>set gs. length k = n - 2 \<and> (\<forall>iv\<in>set ivs. proper iv)" "distinct (map fst gs)"
  shows "facts_apart n (coalesced_facts gs)"
  unfolding facts_apart_def
proof (intro ballI impI)
  fix f g
  assume fg: "f \<in> set (coalesced_facts gs)" "g \<in> set (coalesced_facts gs)" "take (n - 2) f = take (n - 2) g"
  obtain k ivs s e where f: "(k, ivs) \<in> set gs" "(s, e) \<in> set (merge_intervals ivs)" "f = k @ [Time s, Time e]"
    using fg(1) by (auto simp: in_coalesced)
  obtain k' ivs' s' e' where g: "(k', ivs') \<in> set gs" "(s', e') \<in> set (merge_intervals ivs')"
    "g = k' @ [Time s', Time e']"
    using fg(2) by (auto simp: in_coalesced)
  have len: "length k = n - 2" "length k' = n - 2"
    using assms(1) f(1) g(1) by auto
  then have "k' = k"
    using fg(3) f(3) g(3) by simp
  then have "ivs' = ivs"
    using group_of_in [OF assms(2)] f(1) g(1) by metis
  have "separated (merge_intervals ivs)"
    using assms(1) f(1) by (intro merge_intervals_separated) auto
  then have "(s, e) = (s', e') \<or> apart (s, e) (s', e')"
    using f(2) g(2) \<open>ivs' = ivs\<close> by (intro separated_apart) auto
  then show "f = g \<or> (\<exists>p q. fact_interval (n - 2) f = Some p \<and> fact_interval (n - 2) g = Some q \<and> apart p q)"
    using f(3) g(3) \<open>k' = k\<close> len by (auto simp: fact_interval_made)
qed

lemma decode_rows_flatten: "\<forall>t\<in>set ts. length t = n \<Longrightarrow> decode_rows n (map flatten_tuple ts) = Inr ts"
  by (induction ts) auto

lemma rows_delete [simp]: "rows (AList.delete r tab) r' = (if r' = r then [] else rows tab r')"
  by (simp add: rows_def delete_conv')

lemma coalesce_represents:
  assumes rep: "represents s A B C" and n: "arity s r = Some n" "2 \<le> n"
    and ord: "\<And>gs. mset (ord gs) = mset gs" and p: "all_proper n (A r @ B r)" and ne: "A r @ B r \<noteq> []"
  shows "\<exists>s'. mem_coalesce_temporal ord r s = Inr s' \<and>
    represents s' (A(r := coalesced_facts (ord (interval_groups (n - 2) (A r @ B r) [])))) (B(r := [])) (C(r := []))
    \<and> facts_apart n (coalesced_facts (ord (interval_groups (n - 2) (A r @ B r) [])))"
proof -
  let ?gs = "interval_groups (n - 2) (A r @ B r) []"
  let ?fs = "coalesced_facts (ord ?gs)"
  let ?s = "s\<lparr>stable := AList.update r (map flatten_tuple ?fs) (stable s), delta := AList.delete r (delta s),
      next_delta := AList.delete r (next_delta s)\<rparr>"
  have ar: "\<And>q t. t \<in> set (A q) \<union> set (B q) \<union> set (C q) \<Longrightarrow> arity s q = Some (length t)"
    using rep unfolding represents_def by blast
  have len: "\<forall>t\<in>set (A r @ B r). length t = n"
    using ar [of _ r] n(1) by auto
  have set: "set (ord ?gs) = set ?gs"
    by (metis ord set_mset_mset)
  have keys: "distinct (map fst (ord ?gs))"
  proof -
    have "mset (map fst (ord ?gs)) = mset (map fst ?gs)"
      using ord by simp
    moreover have "distinct (map fst ?gs)"
      by (rule interval_groups_spec(1)) simp
    ultimately show ?thesis
      using mset_eq_imp_distinct_iff by blast
  qed
  have ok: "\<forall>(k, ivs)\<in>set (ord ?gs). length k = n - 2 \<and> (\<forall>iv\<in>set ivs. proper iv)"
    unfolding set using interval_groups_length [OF len n(2)] interval_groups_proper [OF p] by blast
  have flen: "length f = n" if "f \<in> set ?fs" for f
    using that ok n(2) by (auto simp: in_coalesced)
  have dist: "distinct ?fs"
    by (rule coalesced_distinct [OF keys]) (use ok in blast)
  have "\<exists>s'. rebuild_indexes_for r ?s = Inr s' \<and> arity s' = arity ?s \<and>
      represents s' (A(r := ?fs)) (B(r := [])) (C(r := []))"
  proof (rule rebuild_represents)
    show "arity ?s q = Some (length t)"
      if "t \<in> set ((A(r := ?fs)) q) \<union> set ((B(r := [])) q) \<union> set ((C(r := [])) q)" for q t
      using that flen ar [of t q] n(1) by (auto split: if_splits)
  qed (use rep dist in \<open>auto simp: represents_def distinct_update distinct_delete\<close>)
  moreover have "mem_coalesce_temporal ord r s = rebuild_indexes_for r ?s"
    using n ne len rep decode_rows_flatten [of "A r" n] decode_rows_flatten [of "B r" n]
    by (auto simp: mem_coalesce_temporal_def represents_def Let_def)
  ultimately show ?thesis
    using coalesced_apart [OF ok keys] by auto
qed

subsection \<open>Properties\<close>

text \<open>C14: Coalescing a temporal relation whose intervals are proper succeeds and keeps the store
  well-formed: for every key exactly the same instants are covered, two facts with the same key are at
  least a nanosecond apart unless the relation was empty, and no other relation changes.\<close>

theorem coalesce_temporal_spec:
  assumes "store_inv s" "arity s r = Some n" "2 \<le> n" "\<And>gs. mset (ord gs) = mset gs"
    "mem_scan s r = Inr ts" "all_proper n ts"
  shows "\<exists>s' us. mem_coalesce_temporal ord r s = Inr s' \<and> store_inv s' \<and> mem_scan s' r = Inr us \<and>
    fact_covers n us = fact_covers n ts \<and> facts_apart n us \<and>
    (\<forall>q. q \<noteq> r \<longrightarrow> mem_scan s' q = mem_scan s q)"
proof (cases "ts = []")
  case True
  then have "stable_facts s r = []" "delta_facts s r = []"
    using assms(5) scan_facts(1) [OF assms(1), of r] by auto
  then have "rows (stable s) r = []" "rows (delta s) r = []"
    by (simp_all add: facts_of_def)
  then have "mem_coalesce_temporal ord r s = Inr s"
    using assms(2) by (simp add: mem_coalesce_temporal_def)
  then show ?thesis
    using assms True by (auto simp: facts_apart_def)
next
  case False
  have ts: "ts = stable_facts s r @ delta_facts s r"
    using assms(5) scan_facts(1) [OF assms(1), of r] by simp
  let ?fs = "coalesced_facts (ord (interval_groups (n - 2) ts []))"
  obtain s' where s': "mem_coalesce_temporal ord r s = Inr s'" "facts_apart n ?fs"
    "represents s' ((stable_facts s)(r := ?fs)) ((delta_facts s)(r := [])) ((next_facts s)(r := []))"
    using coalesce_represents [OF inv_represents [OF assms(1)] assms(2-4)] assms(6) False
    unfolding ts by blast
  have len: "\<forall>f\<in>set ts. length f = n"
    using rows_okD(2) [OF store_invD(1) [OF assms(1)], of _ r] rows_okD(2) [OF store_invD(2) [OF assms(1)], of _ r]
      assms(2) unfolding ts by fastforce
  note inv = represents_inv [OF s'(3)]
  have "fact_covers n ?fs = fact_covers n ts"
    by (intro ext coalesced_covers [OF len assms(3,4)])
  moreover have "mem_scan s' r = Inr ?fs" "\<And>q. q \<noteq> r \<Longrightarrow> mem_scan s' q = mem_scan s q"
    by (simp_all add: scan_facts(1) [OF inv] scan_facts(1) [OF assms(1)] represents_facts [OF s'(3)])
  ultimately show ?thesis
    using s'(1,2) inv by blast
qed

definition two_spans :: mem_store where
  "two_spans = projr (mem_merge_deltas
     (snd (mem_insert ''on'' [Number 7, Time 5, Time 9]
       (snd (mem_insert ''on'' [Number 7, Time 1, Time 4] mem_new)))))"

lemma two_spans_inv: "store_inv two_spans"
proof -
  have "store_inv (snd (mem_insert ''on'' [Number 7, Time 5, Time 9]
      (snd (mem_insert ''on'' [Number 7, Time 1, Time 4] mem_new))))"
    by (intro insert_inv(1) [OF _ surjective_pairing] mem_new_inv)
  from mem_merge_represents [OF inv_represents [OF this]] show ?thesis
    using represents_inv by (auto simp: two_spans_def)
qed

theorem coalesce_temporal_spec_witness:
  "\<exists>s' us. mem_coalesce_temporal (\<lambda>gs. gs) ''on'' two_spans = Inr s' \<and> mem_scan s' ''on'' = Inr us \<and>
     fact_covers 3 us = fact_covers 3 [[Number 7, Time 1, Time 4], [Number 7, Time 5, Time 9]] \<and>
     us = [[Number 7, Time 1, Time 9]]"
proof -
  have 1: "arity two_spans ''on'' = Some 3"
    "mem_scan two_spans ''on'' = Inr [[Number 7, Time 1, Time 4], [Number 7, Time 5, Time 9]]"
    "bindR (mem_coalesce_temporal (\<lambda>gs. gs) ''on'' two_spans) (\<lambda>s'. mem_scan s' ''on'') =
      Inr [[Number 7, Time 1, Time 9]]"
    by code_simp+
  have 2: "all_proper 3 [[Number 7, Time 1, Time 4], [Number 7, Time 5, Time 9]]"
    by (simp add: all_proper_def fact_interval_def as_nanos_def proper_def)
  from coalesce_temporal_spec [OF two_spans_inv 1(1) _ _ 1(2) 2, of "\<lambda>gs. gs"] 1(3)
  show ?thesis by auto
qed

end
