(* ===== verification/Planner.thy ===== *)
theory Planner
  imports Plan_IR Rust_Strings
begin

text \<open>
  \<open>mangle-analysis/src/planner.rs\<close>: a rule of the IR becomes a physical plan.  The planner's state (the
  IR, into which fresh names are interned, the delta predicate, the counter of fresh names and the hash
  join flag) is threaded through a state and error monad.  The source is written in continuation-passing
  style and so is the model: a continuation returns an operation and, beside it, the variables captured
  when a block is materialised (the source assigns them to a variable of the enclosing function).  The
  recursion over the instruction tree takes a depth bound; \<open>plan_rule\<close> uses the number of
  instructions, which no path through an acyclic IR exceeds, and exceeding it (a cyclic IR overflows
  the stack) is a panic.
\<close>

subsection \<open>The planner's state\<close>

record planner =
  pl_ir :: ir
  pl_delta :: "name_id option"
  pl_fresh :: nat
  pl_hash_join :: bool

type_synonym 'a pl = "planner \<Rightarrow> ('a \<times> planner) result"
type_synonym planned = "op \<times> name_id list"

definition retP :: "'a \<Rightarrow> 'a pl" where
  "retP x p = Inr (x, p)"

definition bindP :: "'a pl \<Rightarrow> ('a \<Rightarrow> 'b pl) \<Rightarrow> 'b pl" where
  "bindP f g p = bindR (f p) (\<lambda>(x, p'). g x p')"

definition failP :: "rerror \<Rightarrow> 'a pl" where
  "failP e p = Inl e"

definition liftP :: "(planner \<Rightarrow> 'a result) \<Rightarrow> 'a pl" where
  "liftP f p = bindR (f p) (\<lambda>x. Inr (x, p))"

definition planner_new :: "bool \<Rightarrow> ir \<Rightarrow> planner" where
  "planner_new env_default m = \<lparr>pl_ir = m, pl_delta = None, pl_fresh = 0, pl_hash_join = env_default\<rparr>"

definition with_delta :: "name_id \<Rightarrow> planner \<Rightarrow> planner" where
  "with_delta d p = p\<lparr>pl_delta := Some d\<rparr>"

definition with_hash_join :: "bool \<Rightarrow> planner \<Rightarrow> planner" where
  "with_hash_join b p = p\<lparr>pl_hash_join := b\<rparr>"

definition get_inst :: "inst_id \<Rightarrow> inst pl" where
  "get_inst i = liftP (\<lambda>p. ir_get (pl_ir p) i)"

definition name_of :: "name_id \<Rightarrow> string pl" where
  "name_of k = liftP (\<lambda>p. resolve_name (pl_ir p) k)"

definition intern_nameP :: "string \<Rightarrow> name_id pl" where
  "intern_nameP nm p = bindR (intern_name nm (pl_ir p)) (\<lambda>(k, m). Inr (k, p\<lparr>pl_ir := m\<rparr>))"

definition add_instP :: "inst \<Rightarrow> inst_id pl" where
  "add_instP i p = bindR (add_inst i (pl_ir p)) (\<lambda>(k, m). Inr (k, p\<lparr>pl_ir := m\<rparr>))"

definition fresh_var :: "string \<Rightarrow> name_id pl" where
  "fresh_var prefix p =
     intern_nameP (''$'' @ prefix @ ''_'' @ show_nat (pl_fresh p)) (p\<lparr>pl_fresh := pl_fresh p + 1\<rparr>)"

subsection \<open>Evaluating terms\<close>

definition const_operand :: "inst \<Rightarrow> operand option" where
  "const_operand i =
     (case i of
        INumber n \<Rightarrow> Some (OConst (CNumber n))
      | IString s \<Rightarrow> Some (OConst (CString s))
      | IName n \<Rightarrow> Some (OConst (CName n))
      | IFloat f \<Rightarrow> Some (OConst (CFloat f))
      | ITime t \<Rightarrow> Some (OConst (CTime t))
      | IDuration d \<Rightarrow> Some (OConst (CDuration d))
      | _ \<Rightarrow> None)"

definition wrap_op :: "(op \<Rightarrow> op) \<Rightarrow> planned pl \<Rightarrow> planned pl" where
  "wrap_op w f = bindP f (\<lambda>(body, captured). retP (w body, captured))"

definition let_call :: "string \<Rightarrow> name_id \<Rightarrow> (operand \<Rightarrow> planned pl) \<Rightarrow> operand list \<Rightarrow> planned pl" where
  "let_call prefix function f ops =
     bindP (fresh_var prefix) (\<lambda>tmp. wrap_op (LetOp tmp (CallE function ops)) (f (OVar tmp)))"

fun interleave :: "'a list \<Rightarrow> 'a list \<Rightarrow> 'a list" where
  "interleave (k # ks) (v # vs) = k # v # interleave ks vs"
| "interleave _ _ = []"

fun struct_args :: "name_id list \<Rightarrow> inst_id list \<Rightarrow> inst_id list pl" where
  "struct_args (f # fs) (v # vs) st =
     bindP (add_instP (IName f)) (\<lambda>k. bindP (struct_args fs vs) (\<lambda>rest. retP (k # v # rest))) st"
| "struct_args _ _ st = retP [] st"

function with_eval :: "nat \<Rightarrow> inst_id \<Rightarrow> (operand \<Rightarrow> planned pl) \<Rightarrow> planned pl"
and with_eval_args :: "nat \<Rightarrow> inst_id list \<Rightarrow> operand list \<Rightarrow> (operand list \<Rightarrow> planned pl) \<Rightarrow> planned pl" where
  "with_eval 0 i f st = failP Panic st"
| "with_eval (Suc n) i f st =
     bindP (get_inst i) (\<lambda>inst.
       case inst of
         IVar v \<Rightarrow> f (OVar v)
       | IApplyFn function args \<Rightarrow> with_eval_args n args [] (let_call ''call'' function f)
       | IList args \<Rightarrow>
           bindP (intern_nameP ''fn:list'') (\<lambda>g. with_eval_args n args [] (let_call ''list'' g f))
       | IMap keys vals \<Rightarrow>
           bindP (intern_nameP ''fn:map'') (\<lambda>g.
             with_eval_args n (interleave keys vals) [] (let_call ''map'' g f))
       | IStruct flds vals \<Rightarrow>
           bindP (struct_args flds vals) (\<lambda>args.
           bindP (intern_nameP ''fn:struct'') (\<lambda>g. with_eval_args n args [] (let_call ''struct'' g f)))
       | _ \<Rightarrow>
           (case const_operand inst of
              Some c \<Rightarrow> f c
            | None \<Rightarrow> failP (Anyhow ''Unsupported expression in evaluation''))) st"
| "with_eval_args n [] acc f st = f acc st"
| "with_eval_args n (a # args) acc f st = with_eval n a (\<lambda>x. with_eval_args n args (acc @ [x]) f) st"
  by pat_completeness auto

termination
  by (relation "measures [\<lambda>x. case x of Inl (n, _) \<Rightarrow> 2 * n | Inr (n, _) \<Rightarrow> 2 * n + 1,
      \<lambda>x. case x of Inl _ \<Rightarrow> 0 | Inr (_, args, _) \<Rightarrow> length args]") auto

definition inst_to_expr :: "nat \<Rightarrow> inst_id \<Rightarrow> (expr \<Rightarrow> planned pl) \<Rightarrow> planned pl" where
  "inst_to_expr n i f =
     bindP (get_inst i) (\<lambda>inst.
       case inst of
         IApplyFn function args \<Rightarrow> with_eval_args n args [] (\<lambda>ops. f (CallE function ops))
       | _ \<Rightarrow> with_eval n i (\<lambda>x. f (ValueE x)))"

definition wrap_eval_check :: "nat \<Rightarrow> inst_id \<Rightarrow> operand \<Rightarrow> planned \<Rightarrow> planned pl" where
  "wrap_eval_check n i target body =
     with_eval n i (\<lambda>x. wrap_op (FilterOp (Cmp CEq target x)) (retP body))"

text \<open>Two operands in order, then one operation around a body that is already planned.\<close>

definition with_eval2 :: "nat \<Rightarrow> inst_id \<Rightarrow> inst_id \<Rightarrow> (operand \<Rightarrow> operand \<Rightarrow> op \<Rightarrow> op) \<Rightarrow> planned \<Rightarrow> planned pl" where
  "with_eval2 n l r w body = with_eval n l (\<lambda>x. with_eval n r (\<lambda>y. wrap_op (w x y) (retP body)))"

definition wrap_eq_check :: "nat \<Rightarrow> inst_id \<Rightarrow> inst_id \<Rightarrow> planned \<Rightarrow> planned pl" where
  "wrap_eq_check n l r body = with_eval2 n l r (\<lambda>x y. FilterOp (Cmp CEq x y)) body"

definition plan_head_insert :: "nat \<Rightarrow> inst_id \<Rightarrow> planned pl" where
  "plan_head_insert n head =
     bindP (get_inst head) (\<lambda>inst.
       case inst of
         IAtom pred args \<Rightarrow> with_eval_args n args [] (\<lambda>ops. retP (InsertOp pred ops, []))
       | _ \<Rightarrow> failP (Anyhow ''Head must be an atom''))"

subsection \<open>The order of the premises\<close>

definition cmp_of_name :: "string \<Rightarrow> cmp_op option" where
  "cmp_of_name nm =
     (if nm \<in> {'':lt'', '':time:lt'', '':duration:lt''} then Some CLt
      else if nm \<in> {'':le'', '':time:le'', '':duration:le''} then Some CLe
      else if nm \<in> {'':gt'', '':time:gt'', '':duration:gt''} then Some CGt
      else if nm \<in> {'':ge'', '':time:ge'', '':duration:ge''} then Some CGe
      else None)"

definition is_string_pred :: "string \<Rightarrow> bool" where
  "is_string_pred nm \<longleftrightarrow>
     nm \<in> {'':string:starts_with'', '':string:ends_with'', '':string:contains'', '':match_prefix''}"

definition union_results :: "('a \<Rightarrow> 'b set result) \<Rightarrow> 'a list \<Rightarrow> 'b set result" where
  "union_results f xs = bindR (traverseR f xs) (\<lambda>ss. Inr (\<Union>(set ss)))"

fun collect_vars :: "nat \<Rightarrow> ir \<Rightarrow> inst_id \<Rightarrow> name_id set result" where
  "collect_vars 0 m i = Inl Panic"
| "collect_vars (Suc n) m i =
     bindR (ir_get m i) (\<lambda>inst.
       case inst of
         IVar v \<Rightarrow> bindR (resolve_name m v) (\<lambda>nm. Inr (if nm \<noteq> ''_'' then {v} else {}))
       | IList args \<Rightarrow> union_results (collect_vars n m) args
       | IMap keys vals \<Rightarrow> union_results (collect_vars n m) (keys @ vals)
       | IStruct flds vals \<Rightarrow> union_results (collect_vars n m) vals
       | IApplyFn function args \<Rightarrow> union_results (collect_vars n m) args
       | _ \<Rightarrow> Inr {})"

definition term_fully_bound :: "nat \<Rightarrow> ir \<Rightarrow> inst_id \<Rightarrow> name_id set \<Rightarrow> bool result" where
  "term_fully_bound n m i bound = bindR (collect_vars n m i) (\<lambda>vs. Inr (vs \<subseteq> bound))"

text \<open>\<open>a && b\<close> and \<open>a || b\<close> on fallible tests.\<close>

definition andR :: "bool result \<Rightarrow> bool result \<Rightarrow> bool result" where
  "andR a b = bindR a (\<lambda>x. if x then b else Inr False)"

definition orR :: "bool result \<Rightarrow> bool result \<Rightarrow> bool result" where
  "orR a b = bindR a (\<lambda>x. if x then Inr True else b)"

fun allR :: "('a \<Rightarrow> bool result) \<Rightarrow> 'a list \<Rightarrow> bool result" where
  "allR f [] = Inr True"
| "allR f (x # xs) = andR (f x) (allR f xs)"

definition eq_as_binding_ready :: "nat \<Rightarrow> ir \<Rightarrow> inst_id \<Rightarrow> inst_id \<Rightarrow> name_id set \<Rightarrow> bool result" where
  "eq_as_binding_ready n m lhs rhs bound =
     andR (bindR (ir_get m lhs) (\<lambda>inst. Inr (case inst of IVar v \<Rightarrow> v \<notin> bound | _ \<Rightarrow> False)))
       (term_fully_bound n m rhs bound)"

definition premise_ready :: "nat \<Rightarrow> ir \<Rightarrow> inst_id \<Rightarrow> name_id set \<Rightarrow> bool result" where
  "premise_ready n m p bound =
     bindR (ir_get m p) (\<lambda>inst.
       case inst of
         IIneq l r \<Rightarrow> andR (term_fully_bound n m l bound) (term_fully_bound n m r bound)
       | IEq l r \<Rightarrow>
           orR (andR (term_fully_bound n m l bound) (term_fully_bound n m r bound))
             (orR (eq_as_binding_ready n m l r bound) (eq_as_binding_ready n m r l bound))
       | INegAtom inner \<Rightarrow>
           bindR (ir_get m inner) (\<lambda>a.
             case a of IAtom _ args \<Rightarrow> allR (\<lambda>x. term_fully_bound n m x bound) args | _ \<Rightarrow> Inr True)
       | _ \<Rightarrow> Inr True)"

definition var_of :: "ir \<Rightarrow> inst_id \<Rightarrow> name_id set result" where
  "var_of m i = bindR (ir_get m i) (\<lambda>inst. Inr (case inst of IVar v \<Rightarrow> {v} | _ \<Rightarrow> {}))"

definition premise_bindings :: "nat \<Rightarrow> ir \<Rightarrow> inst_id \<Rightarrow> name_id set \<Rightarrow> name_id set result" where
  "premise_bindings n m p bound =
     bindR (ir_get m p) (\<lambda>inst.
       case inst of
         IAtom pred args \<Rightarrow>
           bindR (resolve_name m pred) (\<lambda>nm.
             if cmp_of_name nm \<noteq> None \<or> is_string_pred nm then Inr bound
             else if nm = '':match_field'' then
               (if 2 < length args then bindR (var_of m (args ! 2)) (\<lambda>vs. Inr (bound \<union> vs)) else Inr bound)
             else if nm = '':list:member'' then
               (case args of [] \<Rightarrow> Inr bound | a # _ \<Rightarrow> bindR (var_of m a) (\<lambda>vs. Inr (bound \<union> vs)))
             else bindR (union_results (collect_vars n m) args) (\<lambda>vs. Inr (bound \<union> vs)))
       | IEq l r \<Rightarrow> bindR (union_results (collect_vars n m) [l, r]) (\<lambda>vs. Inr (bound \<union> vs))
       | _ \<Rightarrow> Inr bound)"

text \<open>One pass over the waiting premises: those that are ready move to the end of the order.\<close>

fun place_waiting :: "nat \<Rightarrow> ir \<Rightarrow> inst_id list \<Rightarrow> inst_id list \<Rightarrow> name_id set \<Rightarrow>
    (inst_id list \<times> name_id set \<times> inst_id list) result" where
  "place_waiting n m [] ordered bound = Inr (ordered, bound, [])"
| "place_waiting n m (w # ws) ordered bound =
     bindR (premise_ready n m w bound) (\<lambda>ready.
       if ready
       then bindR (premise_bindings n m w bound) (\<lambda>bound'. place_waiting n m ws (ordered @ [w]) bound')
       else bindR (place_waiting n m ws ordered bound) (\<lambda>(ordered', bound', still).
              Inr (ordered', bound', w # still)))"

lemma place_waiting_length:
  "place_waiting n m ws ordered bound = Inr (ordered', bound', still) \<Longrightarrow> length still \<le> length ws"
  by (induction ws arbitrary: ordered bound still) (force split: if_splits)+

text \<open>Passes are repeated until one moves nothing.\<close>

function place_loop :: "nat \<Rightarrow> ir \<Rightarrow> inst_id list \<Rightarrow> inst_id list \<Rightarrow> name_id set \<Rightarrow>
    (inst_id list \<times> name_id set \<times> inst_id list) result" where
  "place_loop n m waiting ordered bound =
     bindR (place_waiting n m waiting ordered bound) (\<lambda>(ordered', bound', still).
       if length still = length waiting then Inr (ordered', bound', still)
       else place_loop n m still ordered' bound')"
  by pat_completeness auto

termination
proof (relation "measure (\<lambda>(n, m, waiting, ordered, bound). length waiting)", goal_cases)
  case (2 n m waiting ordered bound r ordered' y bound' still)
  then have "length still \<le> length waiting"
    using place_waiting_length [of n m waiting ordered bound ordered' bound' still] by simp
  then show ?case using 2 by simp
qed simp

definition place_premise :: "nat \<Rightarrow> ir \<Rightarrow> inst_id \<Rightarrow> inst_id list \<Rightarrow> name_id set \<Rightarrow> inst_id list \<Rightarrow>
    (inst_id list \<times> name_id set \<times> inst_id list) result" where
  "place_premise n m p ordered bound waiting =
     bindR (premise_bindings n m p bound) (\<lambda>bound'. place_loop n m waiting (ordered @ [p]) bound')"

definition delayable :: "inst \<Rightarrow> bool" where
  "delayable i = (case i of INegAtom _ \<Rightarrow> True | IIneq _ _ \<Rightarrow> True | IEq _ _ \<Rightarrow> True | _ \<Rightarrow> False)"

fun delay_loop :: "nat \<Rightarrow> ir \<Rightarrow> inst_id list \<Rightarrow> inst_id list \<Rightarrow> name_id set \<Rightarrow> inst_id list \<Rightarrow> inst_id list result" where
  "delay_loop n m [] ordered bound waiting = Inr (ordered @ waiting)"
| "delay_loop n m (p # ps) ordered bound waiting =
     bindR (ir_get m p) (\<lambda>inst.
     bindR (if delayable inst then premise_ready n m p bound else Inr True) (\<lambda>ready.
       if \<not> ready then delay_loop n m ps ordered bound (waiting @ [p])
       else bindR (place_premise n m p ordered bound waiting) (\<lambda>(ordered', bound', waiting').
              delay_loop n m ps ordered' bound' waiting')))"

definition delay_unbound_premises :: "nat \<Rightarrow> ir \<Rightarrow> inst_id list \<Rightarrow> inst_id list result" where
  "delay_unbound_premises n m premises = delay_loop n m premises [] {} []"

subsection \<open>Premises\<close>

text \<open>Each arm of \<open>plan_join_sequence\<close> takes the planning of the remaining premises as an argument: \<open>rest\<close>
  when it leaves the bound variables as they are, a function of the bound variables otherwise.\<close>

definition plan_comparison :: "nat \<Rightarrow> cmp_op \<Rightarrow> inst_id list \<Rightarrow> planned pl \<Rightarrow> planned pl" where
  "plan_comparison n c args rest =
     (case args of
        [l, r] \<Rightarrow> bindP rest (with_eval2 n l r (\<lambda>x y. FilterOp (Cmp c x y)))
      | _ \<Rightarrow> failP (Anyhow ''Comparison predicate requires exactly 2 arguments''))"

definition plan_string_pred :: "nat \<Rightarrow> name_id \<Rightarrow> inst_id list \<Rightarrow> planned pl \<Rightarrow> planned pl" where
  "plan_string_pred n pred args rest =
     (case args of
        [l, r] \<Rightarrow> bindP rest (with_eval2 n l r (\<lambda>x y. FilterOp (CallC pred [x, y])))
      | _ \<Rightarrow> failP (Anyhow ''Built-in predicate requires exactly 2 arguments''))"

definition unbound_var :: "name_id set \<Rightarrow> inst_id \<Rightarrow> name_id option pl" where
  "unbound_var bound i =
     bindP (get_inst i) (\<lambda>inst. retP (case inst of IVar v \<Rightarrow> if v \<notin> bound then Some v else None | _ \<Rightarrow> None))"

definition field_name :: "inst_id \<Rightarrow> name_id pl" where
  "field_name i =
     bindP (get_inst i) (\<lambda>inst.
       case inst of IName f \<Rightarrow> retP f
       | _ \<Rightarrow> failP (Anyhow '':match_field second argument must be a name constant''))"

definition plan_match_field ::
    "nat \<Rightarrow> inst_id list \<Rightarrow> name_id set \<Rightarrow> (name_id set \<Rightarrow> planned pl) \<Rightarrow> planned pl" where
  "plan_match_field n args bound rest =
     (case args of
        [a0, a1, a2] \<Rightarrow>
          bindP (field_name a1) (\<lambda>f.
          bindP (unbound_var bound a2) (\<lambda>out.
            case out of
              Some v \<Rightarrow>
                bindP (rest (insert v bound)) (\<lambda>body.
                  with_eval n a0 (\<lambda>x. wrap_op (MatchField x f v) (retP body)))
            | None \<Rightarrow>
                bindP (fresh_var ''mf'') (\<lambda>tmp.
                bindP (rest bound) (\<lambda>body.
                  with_eval2 n a0 a2 (\<lambda>x y b. MatchField x f tmp (FilterOp (Cmp CEq (OVar tmp) y) b)) body))))
      | _ \<Rightarrow> failP (Anyhow '':match_field requires exactly 3 arguments''))"

definition plan_list_member ::
    "nat \<Rightarrow> inst_id list \<Rightarrow> name_id set \<Rightarrow> (name_id set \<Rightarrow> planned pl) \<Rightarrow> planned pl" where
  "plan_list_member n args bound rest =
     (case args of
        [a0, a1] \<Rightarrow>
          bindP (unbound_var bound a0) (\<lambda>elem.
            case elem of
              Some v \<Rightarrow>
                bindP (rest (insert v bound)) (\<lambda>body.
                  with_eval n a1 (\<lambda>x. wrap_op (IterateList x v) (retP body)))
            | None \<Rightarrow>
                bindP (fresh_var ''listmem'') (\<lambda>tmp.
                bindP (rest bound) (\<lambda>body.
                  with_eval2 n a1 a0 (\<lambda>x y b. IterateList x tmp (FilterOp (Cmp CEq (OVar tmp) y) b)) body)))
      | _ \<Rightarrow> failP (Anyhow '':list:member requires exactly 2 arguments''))"

text \<open>Relational atoms: the column to look up, the scan variables, the constraints.\<close>

fun find_index :: "name_id set \<Rightarrow> nat \<Rightarrow> inst_id list \<Rightarrow> (nat \<times> operand) option pl" where
  "find_index bound i [] st = retP None st"
| "find_index bound i (a # args) st =
     bindP (get_inst a) (\<lambda>inst.
       case (case inst of IVar v \<Rightarrow> if v \<in> bound then Some (OVar v) else None | _ \<Rightarrow> const_operand inst) of
         Some x \<Rightarrow> retP (Some (i, x))
       | None \<Rightarrow> find_index bound (Suc i) args) st"

fun scan_args :: "name_id set \<Rightarrow> name_id list \<Rightarrow> inst_id list \<Rightarrow> name_id list pl" where
  "scan_args bound direct [] st = retP [] st"
| "scan_args bound direct (a # args) st =
     bindP (get_inst a) (\<lambda>inst.
       case (case inst of IVar v \<Rightarrow> if v \<notin> bound \<and> v \<notin> set direct then Some v else None | _ \<Rightarrow> None) of
         Some v \<Rightarrow> bindP (scan_args bound (direct @ [v]) args) (\<lambda>vs. retP (v # vs))
       | None \<Rightarrow>
           bindP (fresh_var ''scan'') (\<lambda>tmp. bindP (scan_args bound direct args) (\<lambda>vs. retP (tmp # vs)))) st"

fun apply_constraints :: "nat \<Rightarrow> inst_id list \<Rightarrow> name_id list \<Rightarrow> planned \<Rightarrow> planned pl" where
  "apply_constraints n [] svs body st = retP body st"
| "apply_constraints n (a # args) [] body st = failP Panic st"
| "apply_constraints n (a # args) (sv # svs) body st =
     bindP (apply_constraints n args svs body) (\<lambda>body'.
     bindP (get_inst a) (\<lambda>inst.
       case inst of
         IVar v \<Rightarrow> if v = sv then retP body'
                   else wrap_op (FilterOp (Cmp CEq (OVar sv) (OVar v))) (retP body')
       | _ \<Rightarrow> wrap_eval_check n a (OVar sv) body')) st"

definition plan_scan ::
    "nat \<Rightarrow> name_id \<Rightarrow> inst_id list \<Rightarrow> name_id set \<Rightarrow> (name_id set \<Rightarrow> planned pl) \<Rightarrow> planned pl" where
  "plan_scan n pred args bound rest =
     bindP (find_index bound 0 args) (\<lambda>lookup.
     bindP (scan_args bound [] args) (\<lambda>svs.
     bindP (rest (bound \<union> set svs)) (\<lambda>body.
     bindP (apply_constraints n args svs body) (\<lambda>(wrapped, captured) p.
       retP (Iterate (case lookup of
                        Some (col, key) \<Rightarrow> IndexLookup pred col key svs
                      | None \<Rightarrow> if pl_delta p = Some pred then ScanDelta pred svs else Scan pred svs)
               wrapped, captured) p))))"

fun all_fresh_distinct_vars :: "inst_id list \<Rightarrow> name_id set \<Rightarrow> name_id list \<Rightarrow> name_id list option pl" where
  "all_fresh_distinct_vars [] bound out st = retP (Some out) st"
| "all_fresh_distinct_vars (a # args) bound out st =
     bindP (get_inst a) (\<lambda>inst.
       case inst of
         IVar v \<Rightarrow> if v \<in> bound \<or> v \<in> set out then retP None
                   else all_fresh_distinct_vars args bound (out @ [v])
       | _ \<Rightarrow> retP None) st"

text \<open>On success the next premise is consumed; the join comes with the variables it binds.\<close>

definition try_plan_hash_join ::
    "name_id \<Rightarrow> inst_id list \<Rightarrow> inst_id \<Rightarrow> name_id set \<Rightarrow> (op \<times> name_id set) option pl" where
  "try_plan_hash_join pred args next_id bound =
     bindP (all_fresh_distinct_vars args bound []) (\<lambda>bvs.
       case bvs of
         None \<Rightarrow> retP None
       | Some build_vars \<Rightarrow>
           bindP (get_inst next_id) (\<lambda>next_inst.
             case next_inst of
               IAtom next_pred next_args \<Rightarrow> (\<lambda>p.
                 if pl_delta p = Some next_pred then retP None p
                 else bindP (all_fresh_distinct_vars next_args bound []) (\<lambda>pvs.
                   case pvs of
                     None \<Rightarrow> retP None
                   | Some probe_vars \<Rightarrow>
                       let join_keys = filter (\<lambda>v. v \<in> set probe_vars) build_vars in
                       if join_keys = [] then retP None
                       else retP (Some (HashJoin (Scan pred build_vars) (Scan next_pred probe_vars) join_keys Nop,
                                        bound \<union> set build_vars \<union> set probe_vars))) p)
             | _ \<Rightarrow> retP None))"

definition splice_hash_join_body :: "op \<Rightarrow> op \<Rightarrow> op" where
  "splice_hash_join_body j body =
     (case j of HashJoin build probe join_keys _ \<Rightarrow> HashJoin build probe join_keys body | _ \<Rightarrow> j)"

text \<open>Equalities: a let-binding when one side is a fresh variable, a check otherwise.\<close>

definition eq_as_binding :: "inst_id \<Rightarrow> inst_id \<Rightarrow> name_id set \<Rightarrow> (name_id \<times> inst_id) option pl" where
  "eq_as_binding lhs rhs bound =
     bindP (unbound_var bound lhs) (\<lambda>v. retP (map_option (\<lambda>x. (x, rhs)) v))"

definition plan_eq ::
    "nat \<Rightarrow> inst_id \<Rightarrow> inst_id \<Rightarrow> name_id set \<Rightarrow> (name_id set \<Rightarrow> planned pl) \<Rightarrow> planned pl" where
  "plan_eq n l r bound rest =
     bindP (eq_as_binding l r bound) (\<lambda>b1.
     bindP (case b1 of Some x \<Rightarrow> retP (Some x) | None \<Rightarrow> eq_as_binding r l bound) (\<lambda>binding.
       case binding of
         Some (v, i) \<Rightarrow> inst_to_expr n i (\<lambda>e. wrap_op (LetOp v e) (rest (insert v bound)))
       | None \<Rightarrow> bindP (rest bound) (wrap_eq_check n l r)))"

definition plan_ineq :: "nat \<Rightarrow> inst_id \<Rightarrow> inst_id \<Rightarrow> planned pl \<Rightarrow> planned pl" where
  "plan_ineq n l r rest = bindP rest (with_eval2 n l r (\<lambda>x y. FilterOp (Cmp CNeq x y)))"

text \<open>Negated atoms.\<close>

fun require_bound_args :: "inst_id list \<Rightarrow> name_id set \<Rightarrow> string \<Rightarrow> unit pl" where
  "require_bound_args [] bound ctxt st = retP () st"
| "require_bound_args (a # args) bound ctxt st =
     bindP (unbound_var bound a) (\<lambda>v.
       case v of
         Some _ \<Rightarrow> failP (Anyhow (ctxt @ '': all arguments must be bound by earlier premises''))
       | None \<Rightarrow> require_bound_args args bound ctxt) st"

fun neg_operands :: "inst_id list \<Rightarrow> operand list pl" where
  "neg_operands [] st = retP [] st"
| "neg_operands (a # args) st =
     bindP (get_inst a) (\<lambda>inst.
       case (case inst of IVar v \<Rightarrow> Some (OVar v) | _ \<Rightarrow> const_operand inst) of
         None \<Rightarrow> failP (Anyhow ''Complex expression in negated atom'')
       | Some x \<Rightarrow> bindP (neg_operands args) (\<lambda>xs. retP (x # xs))) st"

definition plan_neg_builtin2 ::
    "nat \<Rightarrow> string \<Rightarrow> string \<Rightarrow> (operand \<Rightarrow> operand \<Rightarrow> condition) \<Rightarrow> inst_id list \<Rightarrow> name_id set \<Rightarrow> planned pl \<Rightarrow> planned pl" where
  "plan_neg_builtin2 n msg ctxt cond args bound rest =
     (case args of
        [l, r] \<Rightarrow>
          bindP (require_bound_args args bound ctxt) (\<lambda>_.
          bindP rest (with_eval2 n l r (\<lambda>x y. FilterOp (NotC (cond x y)))))
      | _ \<Rightarrow> failP (Anyhow msg))"

definition plan_neg_match_field :: "nat \<Rightarrow> name_id \<Rightarrow> inst_id list \<Rightarrow> name_id set \<Rightarrow> planned pl \<Rightarrow> planned pl" where
  "plan_neg_match_field n pred args bound rest =
     (case args of
        [a0, a1, a2] \<Rightarrow>
          bindP (field_name a1) (\<lambda>f.
          bindP (require_bound_args args bound ''!:match_field'') (\<lambda>_.
          bindP rest (with_eval2 n a0 a2 (\<lambda>x y. FilterOp (NotC (CallC pred [x, OConst (CName f), y]))))))
      | _ \<Rightarrow> failP (Anyhow '':match_field requires exactly 3 arguments''))"

definition plan_negation :: "nat \<Rightarrow> inst_id \<Rightarrow> name_id set \<Rightarrow> planned pl \<Rightarrow> planned pl" where
  "plan_negation n inner bound rest =
     bindP (get_inst inner) (\<lambda>inst.
       case inst of
         IAtom pred args \<Rightarrow>
           bindP (name_of pred) (\<lambda>nm.
             if nm = '':list:member'' then
               plan_neg_builtin2 n '':list:member requires exactly 2 arguments'' ''!:list:member''
                 (\<lambda>x y. CallC pred [x, y]) args bound rest
             else if nm = '':match_field'' then plan_neg_match_field n pred args bound rest
             else if is_string_pred nm then
               plan_neg_builtin2 n ''Built-in predicate requires exactly 2 arguments'' (''!'' @ nm)
                 (\<lambda>x y. CallC pred [x, y]) args bound rest
             else case cmp_of_name nm of
               Some c \<Rightarrow>
                 plan_neg_builtin2 n ''Comparison predicate requires exactly 2 arguments'' (''!'' @ nm)
                   (\<lambda>x y. Cmp c x y) args bound rest
             | None \<Rightarrow>
                 if starts_with nm '':''
                 then failP (Anyhow ''negation of built-in predicate is not supported'')
                 else bindP rest (\<lambda>(body, captured).
                   bindP (neg_operands args) (\<lambda>ops. retP (FilterOp (Negation pred ops) body, captured))))
       | _ \<Rightarrow> failP (Anyhow ''NegAtom wraps non-atom''))"

fun plan_join_sequence ::
    "nat \<Rightarrow> inst_id list \<Rightarrow> name_id set \<Rightarrow> (name_id set \<Rightarrow> planned pl) \<Rightarrow> planned pl" where
  "plan_join_sequence n [] bound cont st = cont bound st"
| "plan_join_sequence n (p # ps) bound cont st =
     bindP (get_inst p) (\<lambda>inst.
       case inst of
         IAtom pred args \<Rightarrow>
           bindP (name_of pred) (\<lambda>nm.
             case cmp_of_name nm of
               Some c \<Rightarrow> plan_comparison n c args (plan_join_sequence n ps bound cont)
             | None \<Rightarrow>
                 if is_string_pred nm then plan_string_pred n pred args (plan_join_sequence n ps bound cont)
                 else if nm = '':match_field'' then
                   plan_match_field n args bound (\<lambda>b. plan_join_sequence n ps b cont)
                 else if nm = '':list:member'' then
                   plan_list_member n args bound (\<lambda>b. plan_join_sequence n ps b cont)
                 else (\<lambda>st.
                   bindP (if pl_hash_join st \<and> pl_delta st = None \<and> ps \<noteq> []
                          then try_plan_hash_join pred args (hd ps) bound else retP None) (\<lambda>j.
                     case j of
                       Some (op, bound') \<Rightarrow>
                         wrap_op (splice_hash_join_body op) (plan_join_sequence n (tl ps) bound' cont)
                     | None \<Rightarrow> plan_scan n pred args bound (\<lambda>b. plan_join_sequence n ps b cont)) st))
       | IEq l r \<Rightarrow> plan_eq n l r bound (\<lambda>b. plan_join_sequence n ps b cont)
       | IIneq l r \<Rightarrow> plan_ineq n l r (plan_join_sequence n ps bound cont)
       | INegAtom inner \<Rightarrow> plan_negation n inner bound (plan_join_sequence n ps bound cont)
       | _ \<Rightarrow> failP (Anyhow ''Unsupported premise type'')) st"

subsection \<open>Transforms\<close>

fun plan_transforms_sequence ::
    "nat \<Rightarrow> inst_id list \<Rightarrow> name_id set \<Rightarrow> (name_id set \<Rightarrow> planned pl) \<Rightarrow> planned pl" where
  "plan_transforms_sequence n [] bound cont st = cont bound st"
| "plan_transforms_sequence n (t # ts) bound cont st =
     bindP (get_inst t) (\<lambda>inst.
       case inst of
         ITransform (Some v) app \<Rightarrow>
           inst_to_expr n app (\<lambda>e. wrap_op (LetOp v e) (plan_transforms_sequence n ts (insert v bound) cont))
       | _ \<Rightarrow> failP (Anyhow ''Unexpected transform in sequence'')) st"

text \<open>Blocks: a \<open>do\<close> statement starts a new one.\<close>

fun split_loop :: "inst_id list \<Rightarrow> inst_id list list \<Rightarrow> inst_id list \<Rightarrow> inst_id list list pl" where
  "split_loop [] blocks current st = retP (blocks @ [current]) st"
| "split_loop (t # ts) blocks current st =
     bindP (get_inst t) (\<lambda>inst.
       case inst of
         ITransform None _ \<Rightarrow> split_loop ts (blocks @ [current]) [t]
       | _ \<Rightarrow> split_loop ts blocks (current @ [t])) st"

definition split_transforms :: "inst_id list \<Rightarrow> inst_id list list pl" where
  "split_transforms ts = split_loop ts [] []"

definition get_transform_app_args :: "inst_id \<Rightarrow> inst_id list pl" where
  "get_transform_app_args t =
     bindP (get_inst t) (\<lambda>inst.
       case inst of
         ITransform _ app \<Rightarrow>
           bindP (get_inst app) (\<lambda>a.
             case a of IApplyFn _ args \<Rightarrow> retP args | _ \<Rightarrow> failP (Anyhow ''Invalid transform structure''))
       | _ \<Rightarrow> failP (Anyhow ''Invalid transform structure''))"

fun key_vars :: "inst_id list \<Rightarrow> name_id list pl" where
  "key_vars [] st = retP [] st"
| "key_vars (k # ks) st =
     bindP (get_inst k) (\<lambda>inst.
       case inst of
         IVar v \<Rightarrow> bindP (key_vars ks) (\<lambda>vs. retP (v # vs))
       | _ \<Rightarrow> failP (Anyhow ''GroupBy keys must be variables'')) st"

definition is_aggregate_name :: "string \<Rightarrow> bool" where
  "is_aggregate_name nm \<longleftrightarrow>
     nm \<in> {''fn:sum'', ''fn:count'', ''fn:max'', ''fn:min'', ''fn:collect'', ''fn:collect_distinct'',
           ''fn:float:sum'', ''fn:float:max'', ''fn:float:min''}"

fun agg_operands :: "inst_id list \<Rightarrow> operand list pl" where
  "agg_operands [] st = retP [] st"
| "agg_operands (a # args) st =
     bindP (get_inst a) (\<lambda>inst.
       case (case inst of IVar v \<Rightarrow> Some (OVar v) | INumber n \<Rightarrow> Some (OConst (CNumber n))
             | IFloat f \<Rightarrow> Some (OConst (CFloat f)) | _ \<Rightarrow> None) of
         None \<Rightarrow> failP (Anyhow ''Complex expressions in aggregates not supported yet'')
       | Some x \<Rightarrow> bindP (agg_operands args) (\<lambda>xs. retP (x # xs))) st"

definition try_parse_aggregate :: "inst_id \<Rightarrow> aggregate option pl" where
  "try_parse_aggregate t =
     bindP (get_inst t) (\<lambda>inst.
       case inst of
         ITransform (Some v) app \<Rightarrow>
           bindP (get_inst app) (\<lambda>a.
             case a of
               IApplyFn function args \<Rightarrow>
                 bindP (name_of function) (\<lambda>nm.
                   if is_aggregate_name nm
                   then bindP (agg_operands args) (\<lambda>ops.
                          retP (Some \<lparr>agg_var = v, agg_func = function, agg_args = ops\<rparr>))
                   else retP None)
             | _ \<Rightarrow> retP None)
       | _ \<Rightarrow> retP None)"

fun split_aggregates :: "inst_id list \<Rightarrow> (aggregate list \<times> inst_id list) pl" where
  "split_aggregates [] st = retP ([], []) st"
| "split_aggregates (t # ts) st =
     bindP (try_parse_aggregate t) (\<lambda>agg.
     bindP (split_aggregates ts) (\<lambda>(aggs, lets).
       case agg of Some a \<Rightarrow> retP (a # aggs, lets) | None \<Rightarrow> retP (aggs, t # lets))) st"

definition plan_block_k ::
    "nat \<Rightarrow> name_id \<Rightarrow> name_id list \<Rightarrow> inst_id list \<Rightarrow> (name_id set \<Rightarrow> planned pl) \<Rightarrow> planned pl" where
  "plan_block_k n source_rel vars block cont =
     (case block of
        [] \<Rightarrow> failP Panic
      | do_stmt # ts \<Rightarrow>
          bindP (get_transform_app_args do_stmt) (\<lambda>ks.
          bindP (key_vars ks) (\<lambda>keys.
          bindP (split_aggregates ts) (\<lambda>(aggs, lets).
            wrap_op (GroupBy source_rel vars keys aggs)
              (plan_transforms_sequence n lets (set keys \<union> set (map agg_var aggs)) cont)))))"

subsection \<open>Rules\<close>

definition capture :: "name_id \<Rightarrow> name_id set \<Rightarrow> planned pl" where
  "capture temp_rel vars =
     (let sorted_vars = sorted_list_of_set vars in retP (InsertOp temp_rel (map OVar sorted_vars), sorted_vars))"

fun plan_blocks :: "nat \<Rightarrow> string \<Rightarrow> inst_id \<Rightarrow> name_id \<Rightarrow> name_id list \<Rightarrow> inst_id list list \<Rightarrow> op list pl" where
  "plan_blocks n prefix head src_rel src_vars [] st = retP [] st"
| "plan_blocks n prefix head src_rel src_vars (block # blocks) st =
(     (if blocks = [] then
        bindP (plan_block_k n src_rel src_vars block (\<lambda>_. plan_head_insert n head)) (\<lambda>(op, _). retP [op])
      else
        bindP (fresh_var prefix) (\<lambda>next_temp.
        bindP (plan_block_k n src_rel src_vars block (capture next_temp)) (\<lambda>(op, next_vars).
        bindP (plan_blocks n prefix head next_temp next_vars blocks) (\<lambda>ops. retP (op # ops)))))) st"

definition plan_first_block ::
    "nat \<Rightarrow> string \<Rightarrow> inst_id \<Rightarrow> inst_id list \<Rightarrow> inst_id list \<Rightarrow> inst_id list list \<Rightarrow> op list pl" where
  "plan_first_block n prefix head ps block blocks =
     (if blocks = [] then
        bindP (plan_join_sequence n ps {} (\<lambda>vars.
            plan_transforms_sequence n block vars (\<lambda>_. plan_head_insert n head))) (\<lambda>(op, _). retP [op])
      else
        bindP (fresh_var prefix) (\<lambda>temp_rel.
        bindP (plan_join_sequence n ps {} (\<lambda>vars.
            plan_transforms_sequence n block vars (capture temp_rel))) (\<lambda>(op, capture_vars).
        bindP (plan_blocks n prefix head temp_rel capture_vars blocks) (\<lambda>ops. retP (op # ops)))))"

definition plan_rule_depth :: "nat \<Rightarrow> inst_id \<Rightarrow> op pl" where
  "plan_rule_depth n rule_id =
     bindP (get_inst rule_id) (\<lambda>inst.
       case inst of
         IRule head ps transform \<Rightarrow>
           bindP (liftP (\<lambda>p. delay_unbound_premises n (pl_ir p) ps)) (\<lambda>ps'.
           bindP (split_transforms transform) (\<lambda>blocks.
             case blocks of
               [] \<Rightarrow> retP (Seq [])
             | block # rest \<Rightarrow>
                 bindP (plan_first_block n (''temp_grp_r'' @ show_nat (key_index rule_id)) head ps' block rest)
                   (\<lambda>ops. retP (case ops of [op] \<Rightarrow> op | _ \<Rightarrow> Seq ops))))
       | _ \<Rightarrow> failP (Anyhow ''Not a rule''))"

definition plan_rule :: "inst_id \<Rightarrow> op pl" where
  "plan_rule rule_id p = plan_rule_depth (Suc (length (insts (pl_ir p)))) rule_id p"

end
