(* ===== verification/Ast.thy ===== *)
theory Ast
  imports Values
begin

text \<open>
  The abstract syntax of \<open>mangle-ast\<close>: constants, base terms, atoms, premises, transforms and clauses,
  with one constructor or field per variant or field of the source, and substitution.  Arena references
  are the values they point to.  An index newtype is the number it wraps.
\<close>

type_synonym pred_index = nat
type_synonym fun_index = nat
type_synonym var_index = u32

datatype ast_const =
    CsName u32
  | CsBool bool
  | CsNumber i64
  | CsFloat f64
  | CsString string
  | CsBytes "8 word list"
  | CsTime i64
  | CsDuration i64
  | CsList "ast_const list"
  | CsMap "ast_const list" "ast_const list"
  | CsStruct "string list" "ast_const list"

datatype base_term =
    BConst ast_const
  | BVar var_index
  | BApp fun_index "base_term list"

record atom =
  a_sym :: pred_index
  a_args :: "base_term list"

datatype temporal_bound =
    Timestamp i64
  | BoundVar var_index
  | NegInf
  | PosInf

record time_interval =
  ti_start :: temporal_bound
  ti_end :: temporal_bound

datatype ast_term =
    TAtom atom
  | TNegAtom atom
  | TEq base_term base_term
  | TIneq base_term base_term
  | TTemporalAtom atom time_interval

record transform_stmt =
  ts_var :: "string option"
  ts_app :: base_term

record clause =
  cl_head :: atom
  cl_head_time :: "time_interval option"
  cl_premises :: "ast_term list"
  cl_transform :: "transform_stmt list"

subsection \<open>Substitution\<close>

fun apply_subst :: "(var_index \<Rightarrow> base_term option) \<Rightarrow> base_term \<Rightarrow> base_term" where
  "apply_subst \<sigma> (BConst c) = BConst c"
| "apply_subst \<sigma> (BVar v) = (case \<sigma> v of Some t \<Rightarrow> t | None \<Rightarrow> BVar v)"
| "apply_subst \<sigma> (BApp f args) = BApp f (map (apply_subst \<sigma>) args)"

definition apply_subst_atom :: "(var_index \<Rightarrow> base_term option) \<Rightarrow> atom \<Rightarrow> atom" where
  "apply_subst_atom \<sigma> a = a\<lparr>a_args := map (apply_subst \<sigma>) (a_args a)\<rparr>"

fun apply_subst_term :: "(var_index \<Rightarrow> base_term option) \<Rightarrow> ast_term \<Rightarrow> ast_term" where
  "apply_subst_term \<sigma> (TAtom a) = TAtom (apply_subst_atom \<sigma> a)"
| "apply_subst_term \<sigma> (TNegAtom a) = TNegAtom (apply_subst_atom \<sigma> a)"
| "apply_subst_term \<sigma> (TEq l r) = TEq (apply_subst \<sigma> l) (apply_subst \<sigma> r)"
| "apply_subst_term \<sigma> (TIneq l r) = TIneq (apply_subst \<sigma> l) (apply_subst \<sigma> r)"
| "apply_subst_term \<sigma> (TTemporalAtom a iv) = TTemporalAtom (apply_subst_atom \<sigma> a) iv"

end
