(* ===== verification/Graph_Walk.thy ===== *)
theory Graph_Walk
  imports Main
begin

text \<open>
  The depth-first traversal that the stratifier uses three times (\<open>visit\<close>, \<open>rvisit\<close> and
  \<open>visit_stratum\<close> of \<open>stratification.rs\<close>).  A graph is an adjacency list; \<open>walk\<close> visits the nodes of
  a list in order, recursively, skipping the nodes already seen, and returns the newly visited nodes
  in the order they are entered and in the order they are left.  The lemmas characterise the visited
  nodes as those reachable through unseen nodes, and the leaving order by its one property that both
  Kosaraju's algorithm and topological sorting rest on.
\<close>

type_synonym 'a adjacency = "('a \<times> 'a list) list"

definition succs :: "'a adjacency \<Rightarrow> 'a \<Rightarrow> 'a list" where
  "succs adj n = (case map_of adj n of None \<Rightarrow> [] | Some ns \<Rightarrow> ns)"

lemma card_unseen:
  "n \<notin> seen \<Longrightarrow> n \<in> fst ` set adj \<Longrightarrow> card (fst ` set adj - insert n seen) < card (fst ` set adj - seen)"
  by (rule psubset_card_mono) auto

lemma succs_outside: "n \<notin> fst ` set adj \<Longrightarrow> succs adj n = []"
  by (simp add: succs_def map_of_eq_None_iff [THEN iffD2])

function walk :: "'a adjacency \<Rightarrow> 'a set \<Rightarrow> 'a list \<Rightarrow> 'a list \<times> 'a list" where
  "walk adj seen [] = ([], [])"
| "walk adj seen (n # ns) =
     (if n \<in> seen then walk adj seen ns
      else
        let (pre, post) = walk adj (insert n seen) (succs adj n);
            (pre', post') = walk adj (insert n seen \<union> set pre) ns
        in (n # pre @ pre', post @ n # post'))"
  by pat_completeness auto

termination
proof (relation "measures [\<lambda>(adj, seen, ns). card (fst ` set adj - seen), \<lambda>(adj, seen, ns). length ns]",
    goal_cases)
  case (3 adj seen n ns)
  show ?case
  proof (cases "n \<in> fst ` set adj")
    case True
    then show ?thesis
      by (intro measures_less) (unfold prod.case, rule card_unseen [OF 3])
  next
    case False
    then have "fst ` set adj - insert n seen = fst ` set adj - seen" by auto
    then show ?thesis using succs_outside [OF False] by simp
  qed
next
  case (4 adj seen n ns x pre post)
  have "card (fst ` set adj - (insert n seen \<union> set pre)) \<le> card (fst ` set adj - seen)"
    by (rule card_mono) auto
  then show ?case by auto
qed auto

subsection \<open>Reachability inside a region\<close>

definition edges_of :: "'a adjacency \<Rightarrow> ('a \<times> 'a) set" where
  "edges_of adj = {(u, v). v \<in> set (succs adj u)}"

definition inside :: "'a adjacency \<Rightarrow> 'a set \<Rightarrow> ('a \<times> 'a) set" where
  "inside adj W = (edges_of adj \<inter> W \<times> W)\<^sup>*"

definition reach :: "'a adjacency \<Rightarrow> 'a set \<Rightarrow> 'a list \<Rightarrow> 'a set" where
  "reach adj W ns = {v. \<exists>n\<in>set ns. n \<in> W \<and> (n, v) \<in> inside adj W}"

lemma inside_mono: "V \<subseteq> W \<Longrightarrow> inside adj V \<subseteq> inside adj W"
  unfolding inside_def by (rule rtrancl_mono) auto

lemma inside_refl [simp]: "(x, x) \<in> inside adj W"
  by (simp add: inside_def)

lemma inside_trans: "(x, y) \<in> inside adj W \<Longrightarrow> (y, z) \<in> inside adj W \<Longrightarrow> (x, z) \<in> inside adj W"
  unfolding inside_def by (rule rtrancl_trans)

lemma inside_edge: "v \<in> set (succs adj u) \<Longrightarrow> u \<in> W \<Longrightarrow> v \<in> W \<Longrightarrow> (u, v) \<in> inside adj W"
  unfolding inside_def by (rule r_into_rtrancl) (simp add: edges_of_def)

lemma inside_induct [consumes 1, case_names refl step]:
  assumes "(x, y) \<in> inside adj W"
    and "P x" "\<And>u v. (x, u) \<in> inside adj W \<Longrightarrow> v \<in> set (succs adj u) \<Longrightarrow> u \<in> W \<Longrightarrow> v \<in> W \<Longrightarrow> P u \<Longrightarrow> P v"
  shows "P y"
  using assms(1) unfolding inside_def
proof (induction rule: rtrancl_induct)
  case (step u v)
  then show ?case
    using assms(3) [of u v] by (auto simp: edges_of_def inside_def)
qed (rule assms(2))

lemma inside_in: "(x, y) \<in> inside adj W \<Longrightarrow> x \<in> W \<Longrightarrow> y \<in> W"
  by (induction rule: inside_induct) auto

lemma reach_in: "v \<in> reach adj W ns \<Longrightarrow> v \<in> W"
  by (auto simp: reach_def intro: inside_in)

lemma reach_Nil [simp]: "reach adj W [] = {}"
  by (simp add: reach_def)

lemma reach_outside: "n \<notin> W \<Longrightarrow> reach adj W (n # ns) = reach adj W ns"
  by (auto simp: reach_def)

lemma reach_closed: "u \<in> reach adj W ns \<Longrightarrow> (u, v) \<in> inside adj W \<Longrightarrow> v \<in> reach adj W ns"
  by (auto simp: reach_def intro: inside_trans)

text \<open>From a node: the node itself, and what its successors reach without it.\<close>

lemma reach_node:
  assumes "n \<in> W"
  shows "reach adj W [n] = insert n (reach adj (W - {n}) (succs adj n))"
proof (intro set_eqI iffI)
  fix v
  assume "v \<in> reach adj W [n]"
  then have "(n, v) \<in> inside adj W" by (simp add: reach_def)
  then show "v \<in> insert n (reach adj (W - {n}) (succs adj n))"
  proof (induction rule: inside_induct)
    case (step u v)
    consider "v = n" | "v \<noteq> n" "u = n" | "v \<noteq> n" "u \<noteq> n" by blast
    then show ?case
    proof cases
      case 2
      then have "v \<in> reach adj (W - {n}) (succs adj n)"
        using step(2,4) unfolding reach_def by auto
      then show ?thesis by simp
    next
      case 3
      then have "u \<in> reach adj (W - {n}) (succs adj n)" "(u, v) \<in> inside adj (W - {n})"
        using step(2-5) by (auto intro!: inside_edge)
      then show ?thesis using reach_closed by fast
    qed simp
  qed simp
next
  fix v
  assume "v \<in> insert n (reach adj (W - {n}) (succs adj n))"
  then consider "v = n" | m where "m \<in> set (succs adj n)" "m \<in> W" "(m, v) \<in> inside adj (W - {n})"
    by (auto simp: reach_def)
  then have "(n, v) \<in> inside adj W"
  proof cases
    case 2
    then show ?thesis
      using inside_trans [OF inside_edge [OF 2(1) assms 2(2)]] inside_mono [of "W - {n}" W adj] by blast
  qed simp
  then show "v \<in> reach adj W [n]"
    using assms by (simp add: reach_def)
qed

text \<open>From a list: what its head reaches, and what the rest reaches without that.\<close>

lemma inside_avoid:
  assumes "(x, y) \<in> inside adj W" "y \<notin> A" "\<And>u v. u \<in> A \<Longrightarrow> (u, v) \<in> inside adj W \<Longrightarrow> v \<in> A"
  shows "(x, y) \<in> inside adj (W - A)"
  using assms(1,2)
proof (induction rule: inside_induct)
  case (step u v)
  then have "u \<notin> A"
    using assms(3) [of u v] inside_edge [of v adj u W] by blast
  then have "(x, u) \<in> inside adj (W - A)" "(u, v) \<in> inside adj (W - A)"
    using step by (auto intro: inside_edge)
  then show ?case
    by (rule inside_trans)
qed simp

lemma reach_Cons:
  "reach adj W (n # ns) = reach adj W [n] \<union> reach adj (W - reach adj W [n]) ns"
proof (intro set_eqI iffI)
  fix v
  let ?A = "reach adj W [n]"
  assume "v \<in> reach adj W (n # ns)"
  then obtain m where m: "m \<in> set (n # ns)" "m \<in> W" "(m, v) \<in> inside adj W"
    by (auto simp: reach_def)
  show "v \<in> ?A \<union> reach adj (W - ?A) ns"
  proof (cases "v \<in> ?A")
    case False
    then have "m \<notin> ?A" using m(3) reach_closed by metis
    moreover from this m(1,2) have "m \<in> set ns"
      by (auto simp: reach_def)
    moreover have "(m, v) \<in> inside adj (W - ?A)"
      by (rule inside_avoid [OF m(3) False reach_closed])
    ultimately show ?thesis
      using m(2) by (auto simp: reach_def)
  qed simp
next
  fix v
  assume "v \<in> reach adj W [n] \<union> reach adj (W - reach adj W [n]) ns"
  then show "v \<in> reach adj W (n # ns)"
    using inside_mono [of "W - reach adj W [n]" W adj] by (auto simp: reach_def)
qed

lemma inside_through:
  "(x, y) \<in> inside adj W \<Longrightarrow> (x, y) \<in> inside adj (W - {n}) \<or> (x, n) \<in> inside adj W"
proof (induction rule: inside_induct)
  case (step u v)
  show ?case
  proof (cases "u = n \<or> v = n")
    case True
    then show ?thesis
      using step(1-4) by (auto intro: inside_trans [OF _ inside_edge])
  next
    case False
    then have "(u, v) \<in> inside adj (W - {n})"
      using step(2-4) by (auto intro: inside_edge)
    then show ?thesis
      using step(5) inside_trans [of x u adj "W - {n}" v] by blast
  qed
qed simp

subsection \<open>What the traversal visits\<close>

lemma walk_visits:
  "set (fst (walk adj seen ns)) = reach adj (- seen) ns \<and>
   set (snd (walk adj seen ns)) = reach adj (- seen) ns \<and>
   distinct (fst (walk adj seen ns)) \<and> distinct (snd (walk adj seen ns))"
proof (induction adj seen ns rule: walk.induct)
  case (2 adj seen n ns)
  show ?case
  proof (cases "n \<in> seen")
    case True
    then show ?thesis using 2(1) by (simp add: reach_outside)
  next
    case False
    obtain pre post where w1: "walk adj (insert n seen) (succs adj n) = (pre, post)"
      by fastforce
    obtain pre' post' where w2: "walk adj (insert n seen \<union> set pre) ns = (pre', post')"
      by fastforce
    have c1: "- insert n seen = - seen - {n}" by auto
    have s1: "set pre = reach adj (- seen - {n}) (succs adj n)" "set post = set pre" "distinct pre" "distinct post"
      using 2(2) [OF False] unfolding w1 c1 by auto
    have node: "reach adj (- seen) [n] = insert n (set pre)"
      using reach_node [of n "- seen" adj] False s1(1) by simp
    have c2: "- (insert n seen \<union> set pre) = - seen - reach adj (- seen) [n]"
      unfolding node by auto
    have s2: "set pre' = reach adj (- seen - reach adj (- seen) [n]) ns" "set post' = set pre'"
      "distinct pre'" "distinct post'"
      using 2(3) [OF False w1 [symmetric] refl] unfolding w2 c2 by auto
    have "set pre' \<inter> insert n (set pre) = {}"
      using s2(1) node reach_in by fastforce
    moreover have "n \<notin> set pre"
      using s1(1) reach_in by fastforce
    ultimately show ?thesis
      using False w1 w2 s1 s2 node reach_Cons [of adj "- seen" n ns] by auto
  qed
qed simp

lemmas walk_sets = walk_visits [THEN conjunct1] walk_visits [THEN conjunct2, THEN conjunct1]
lemmas walk_distinct = walk_visits [THEN conjunct2, THEN conjunct2, THEN conjunct1]
  walk_visits [THEN conjunct2, THEN conjunct2, THEN conjunct2]

text \<open>If \<open>x\<close> reaches \<open>y\<close>, then a node of the strong component of \<open>x\<close> is left at \<open>y\<close> or later.\<close>

definition left_after :: "'a adjacency \<Rightarrow> 'a set \<Rightarrow> 'a list \<Rightarrow> bool" where
  "left_after adj W post \<longleftrightarrow> (\<forall>as y bs x. post = as @ y # bs \<longrightarrow> x \<in> set post \<longrightarrow> (x, y) \<in> inside adj W \<longrightarrow>
     (\<exists>z\<in>set (y # bs). (x, z) \<in> inside adj W \<and> (z, x) \<in> inside adj W))"

lemma left_afterD:
  "left_after adj W post \<Longrightarrow> post = as @ y # bs \<Longrightarrow> x \<in> set post \<Longrightarrow> (x, y) \<in> inside adj W \<Longrightarrow>
    \<exists>z\<in>set (y # bs). (x, z) \<in> inside adj W \<and> (z, x) \<in> inside adj W"
  unfolding left_after_def by blast

lemma left_after_join:
  assumes n: "n \<in> W" and post: "set post = reach adj (W - {n}) (succs adj n)"
    and post': "set post' \<subseteq> W - insert n (set post)"
    and l1: "left_after adj (W - {n}) post" and l2: "left_after adj (W - insert n (set post)) post'"
  shows "left_after adj W (post @ n # post')"
  unfolding left_after_def
proof (intro allI impI)
  fix as y bs x
  let ?A = "insert n (set post)"
  assume eq: "post @ n # post' = as @ y # bs" and x: "x \<in> set (post @ n # post')" and r: "(x, y) \<in> inside adj W"
  have A: "?A = reach adj W [n]"
    using reach_node [OF n] post by simp
  have closed: "\<And>u v. u \<in> ?A \<Longrightarrow> (u, v) \<in> inside adj W \<Longrightarrow> v \<in> ?A"
    unfolding A by (rule reach_closed)
  have from_n: "(n, u) \<in> inside adj W" if "u \<in> ?A" for u
    using that unfolding A by (simp add: reach_def)
  consider (early) cs where "post = as @ y # cs" "bs = cs @ n # post'" | (mid) "y = n" "bs = post'"
    | (late) cs where "post' = cs @ y # bs"
    using eq by (auto simp: append_eq_append_conv2 Cons_eq_append_conv append_eq_Cons_conv)
  then show "\<exists>z\<in>set (y # bs). (x, z) \<in> inside adj W \<and> (z, x) \<in> inside adj W"
  proof cases
    case early
    show ?thesis
    proof (cases "x \<in> set post")
      case True
      have "(x, y) \<in> inside adj (W - {n}) \<or> (x, n) \<in> inside adj W"
        by (rule inside_through [OF r])
      then show ?thesis
      proof
        assume "(x, y) \<in> inside adj (W - {n})"
        from left_afterD [OF l1 early(1) True this] show ?thesis
          using inside_mono [of "W - {n}" W adj] early(2) by auto
      qed (use from_n True early(2) in auto)
    next
      case False
      then have "x \<in> set (y # bs)" using x early(2) by auto
      then show ?thesis by (intro bexI [of _ x]) simp_all
    qed
  next
    case mid
    show ?thesis
    proof (cases "x \<in> ?A")
      case True
      then show ?thesis using mid r from_n by auto
    next
      case False
      then have "x \<in> set (y # bs)" using x mid by auto
      then show ?thesis by (intro bexI [of _ x]) simp_all
    qed
  next
    case late
    then have "y \<notin> ?A" using post' by auto
    then have "x \<notin> ?A" using closed r by blast
    then have "x \<in> set post'" using x by auto
    moreover have "(x, y) \<in> inside adj (W - ?A)"
      by (rule inside_avoid [OF r \<open>y \<notin> ?A\<close>]) (rule closed)
    ultimately show ?thesis
      using left_afterD [OF l2 late, of x] inside_mono [of "W - ?A" W adj] by auto
  qed
qed

lemma walk_left_after: "left_after adj (- seen) (snd (walk adj seen ns))"
proof (induction adj seen ns rule: walk.induct)
  case (1 adj seen)
  then show ?case by (simp add: left_after_def)
next
  case (2 adj seen n ns)
  show ?case
  proof (cases "n \<in> seen")
    case True
    then show ?thesis using 2(1) by simp
  next
    case False
    obtain pre post where w1: "walk adj (insert n seen) (succs adj n) = (pre, post)"
      by fastforce
    obtain pre' post' where w2: "walk adj (insert n seen \<union> set pre) ns = (pre', post')"
      by fastforce
    have c1: "- insert n seen = - seen - {n}" by auto
    have s1: "set post = reach adj (- seen - {n}) (succs adj n)" "set pre = set post"
      using walk_sets [of adj "insert n seen" "succs adj n"] unfolding w1 c1 by auto
    have c2: "- (insert n seen \<union> set pre) = - seen - insert n (set post)"
      using s1 by auto
    have "set post' \<subseteq> - seen - insert n (set post)"
      using walk_sets(2) [of adj "insert n seen \<union> set pre" ns] reach_in unfolding w2 c2 by fastforce
    moreover have "left_after adj (- seen - {n}) post" "left_after adj (- seen - insert n (set post)) post'"
      using 2(2) [OF False] 2(3) [OF False w1 [symmetric] refl] unfolding w1 w2 c1 c2 by simp_all
    ultimately show ?thesis
      using left_after_join [of n "- seen" post adj post'] False s1(1) w1 w2 by simp
  qed
qed

end
