(* ===== verification/Components.thy ===== *)
theory Components
  imports Graph_Walk
begin

text \<open>
  The strongly connected components as \<open>DepGraph::sccs\<close> computes them (Kosaraju): nodes are taken off
  the stack of left nodes, and each one not yet assigned collects what it reaches in the reversed
  graph.  The lemma shows that the result lists every class of mutual reachability exactly once.
\<close>

fun components :: "'a adjacency \<Rightarrow> 'a list \<Rightarrow> 'a set \<Rightarrow> 'a list list" where
  "components radj [] seen = []"
| "components radj (t # s) seen =
     (if t \<in> seen then components radj s seen
      else let scc = fst (walk radj seen [t]) in
           (if scc \<noteq> [] then [scc] else []) @ components radj s (seen \<union> set scc))"

definition mutual :: "'a adjacency \<Rightarrow> 'a \<Rightarrow> 'a \<Rightarrow> bool" where
  "mutual adj u v \<longleftrightarrow> (u, v) \<in> inside adj UNIV \<and> (v, u) \<in> inside adj UNIV"

lemma mutual_refl [simp]: "mutual adj u u"
  by (simp add: mutual_def)

lemma mutual_sym: "mutual adj u v \<Longrightarrow> mutual adj v u"
  by (simp add: mutual_def)

lemma mutual_trans: "mutual adj u v \<Longrightarrow> mutual adj v w \<Longrightarrow> mutual adj u w"
  unfolding mutual_def using inside_trans by metis

lemma inside_converse:
  assumes "edges_of radj = (edges_of adj)\<inverse>"
  shows "(u, v) \<in> inside radj W \<longleftrightarrow> (v, u) \<in> inside adj W"
proof -
  have "edges_of radj \<inter> W \<times> W = (edges_of adj \<inter> W \<times> W)\<inverse>"
    using assms by auto
  then show ?thesis
    by (simp add: inside_def rtrancl_converse)
qed

text \<open>A walk between mutually reachable nodes avoids every union of classes they are not in.\<close>

lemma mutual_inside:
  assumes "(t, v) \<in> inside adj UNIV" "(v, t) \<in> inside adj UNIV" "t \<notin> S"
    and "\<And>u v. u \<in> S \<Longrightarrow> mutual adj u v \<Longrightarrow> v \<in> S"
  shows "(t, v) \<in> inside adj (- S)"
  using assms(1,2)
proof (induction rule: inside_induct)
  case (step u v)
  have "(u, t) \<in> inside adj UNIV"
    using inside_trans [OF inside_edge [OF step(2)] step(6)] by simp
  then have "(t, u) \<in> inside adj (- S)" "mutual adj u t" "mutual adj v t"
    using step inside_trans [OF step(1) inside_edge [OF step(2)]] by (auto simp: mutual_def)
  then show ?case
    using inside_trans [OF _ inside_edge [OF step(2), of "- S"]] assms(3,4) by blast
qed simp

text \<open>The set collected from a node that is last among the unassigned ones is its class.\<close>

lemma class_of_top:
  assumes conv: "edges_of radj = (edges_of adj)\<inverse>" and post: "post = as @ t # bs"
    and order: "left_after adj UNIV post" and dom: "fst ` set adj \<subseteq> set post"
    and seen: "set bs \<subseteq> seen" "t \<notin> seen" "\<And>u v. u \<in> seen \<Longrightarrow> mutual adj u v \<Longrightarrow> v \<in> seen"
  shows "reach radj (- seen) [t] = {u. mutual adj u t}"
proof (intro set_eqI iffI)
  fix u
  assume "u \<in> reach radj (- seen) [t]"
  then have r: "(t, u) \<in> inside radj (- seen)" and u: "u \<notin> seen"
    by (auto simp: reach_def dest: inside_in)
  then have ut: "(u, t) \<in> inside adj UNIV"
    using inside_converse [OF conv] inside_mono [of "- seen" UNIV adj] by blast
  have "u \<in> set post"
  proof (cases "u = t")
    case False
    with ut obtain v where "v \<in> set (succs adj u)"
      unfolding inside_def by (auto elim: converse_rtranclE simp: edges_of_def)
    then have "u \<in> fst ` set adj"
      using succs_outside [of u adj] by fastforce
    then show ?thesis using dom by blast
  qed (simp add: post)
  from left_afterD [OF order post this ut] obtain z where z: "z \<in> set (t # bs)" "mutual adj u z"
    by (auto simp: mutual_def)
  then show "u \<in> {u. mutual adj u t}"
    using seen u mutual_sym [OF z(2)] by auto
next
  fix u
  assume "u \<in> {u. mutual adj u t}"
  then have "(t, u) \<in> inside radj UNIV" "(u, t) \<in> inside radj UNIV"
    using inside_converse [OF conv] by (auto simp: mutual_def)
  moreover have "\<And>u v. u \<in> seen \<Longrightarrow> mutual radj u v \<Longrightarrow> v \<in> seen"
    using seen(3) inside_converse [OF conv] unfolding mutual_def by blast
  ultimately have "(t, u) \<in> inside radj (- seen)"
    using mutual_inside [of t u radj seen] seen(2) by blast
  then show "u \<in> reach radj (- seen) [t]"
    using seen(2) by (simp add: reach_def)
qed

definition is_class :: "'a adjacency \<Rightarrow> 'a list \<Rightarrow> bool" where
  "is_class adj c \<longleftrightarrow> (\<exists>t. set c = {u. mutual adj u t})"

lemma components_classes:
  assumes conv: "edges_of radj = (edges_of adj)\<inverse>" and order: "left_after adj UNIV post"
    and dom: "fst ` set adj \<subseteq> set post"
  shows "post = rev todo @ bs \<Longrightarrow> set bs \<subseteq> seen \<Longrightarrow> (\<And>u v. u \<in> seen \<Longrightarrow> mutual adj u v \<Longrightarrow> v \<in> seen) \<Longrightarrow>
    distinct (concat (components radj todo seen)) \<and>
    (\<forall>c\<in>set (components radj todo seen). (\<exists>t\<in>set todo. set c = {u. mutual adj u t}) \<and> set c \<inter> seen = {}) \<and>
    set todo \<subseteq> seen \<union> set (concat (components radj todo seen))"
proof (induction todo arbitrary: seen bs)
  case (Cons t s)
  have post: "post = rev s @ t # bs"
    using Cons.prems(1) by simp
  show ?case
  proof (cases "t \<in> seen")
    case True
    then show ?thesis
      using Cons.IH [OF post, of seen] Cons.prems(2,3) by auto
  next
    case False
    define scc where "scc = fst (walk radj seen [t])"
    have class_: "set scc = {u. mutual adj u t}"
      unfolding scc_def walk_sets(1)
      by (rule class_of_top [OF conv post order dom Cons.prems(2) False Cons.prems(3)])
    have top: "t \<in> set scc"
      by (simp add: class_)
    have clear: "set scc \<inter> seen = {}"
      using Cons.prems(3) False by (auto simp: class_)
    have closed: "v \<in> seen \<union> set scc" if "u \<in> seen \<union> set scc" "mutual adj u v" for u v
      using that Cons.prems(3) mutual_trans [OF mutual_sym [OF that(2)]] by (auto simp: class_)
    have IH: "distinct (concat (components radj s (seen \<union> set scc)))"
      "\<forall>c\<in>set (components radj s (seen \<union> set scc)).
        (\<exists>t\<in>set s. set c = {u. mutual adj u t}) \<and> set c \<inter> (seen \<union> set scc) = {}"
      "set s \<subseteq> seen \<union> set scc \<union> set (concat (components radj s (seen \<union> set scc)))"
      using Cons.IH [OF post, of "seen \<union> set scc"] Cons.prems(2) top closed by auto
    have eq: "components radj (t # s) seen = scc # components radj s (seen \<union> set scc)"
      using False top by (auto simp: scc_def Let_def)
    have "distinct scc"
      unfolding scc_def by (rule walk_distinct(1))
    moreover have "set scc \<inter> set (concat (components radj s (seen \<union> set scc))) = {}"
      using IH(2) by fastforce
    moreover have "\<forall>c\<in>set (scc # components radj s (seen \<union> set scc)).
        (\<exists>t'\<in>set (t # s). set c = {u. mutual adj u t'}) \<and> set c \<inter> seen = {}"
      using IH(2) class_ clear by auto
    ultimately show ?thesis
      unfolding eq using IH(1,3) top by auto
  qed
qed simp

lemma sccs_are_classes:
  assumes "edges_of radj = (edges_of adj)\<inverse>" "fst ` set adj \<subseteq> set ns"
    and "post = snd (walk adj {} ns)" "cs = components radj (rev post) {}"
  shows "distinct (concat cs)" "\<forall>c\<in>set cs. is_class adj c" "set (concat cs) = reach adj UNIV ns"
proof -
  have post: "set post = reach adj UNIV ns" "left_after adj UNIV post"
    using walk_sets(2) [of adj "{}" ns] walk_left_after [of adj "{}" ns] assms(3) by simp_all
  then have "fst ` set adj \<subseteq> set post"
    using assms(2) by (auto simp: reach_def intro!: bexI)
  note spec = components_classes [OF assms(1) post(2) this, of "rev post" "[]" "{}"]
  show "distinct (concat cs)" "\<forall>c\<in>set cs. is_class adj c"
    using spec unfolding assms(4) is_class_def by (simp_all, blast)
  have "set (concat cs) \<subseteq> reach adj UNIV ns"
  proof
    fix u
    assume "u \<in> set (concat cs)"
    then obtain t where "t \<in> set post" "mutual adj u t"
      using spec by (auto simp: assms(4))
    then show "u \<in> reach adj UNIV ns"
      using post(1) reach_closed by (auto simp: mutual_def)
  qed
  then show "set (concat cs) = reach adj UNIV ns"
    using spec post(1) by (auto simp: assms(4))
qed

end
