(* ===== verification/Cycle_Rotate.thy ===== *)
theory Cycle_Rotate
  imports Prelude
begin

text \<open>
  \<open>apply_permutation_cycle_rotate\<close> of \<open>stratification.rs\<close>: an array is permuted in place by rotating
  along the cycles of the permutation.  The inner loop runs until it is back at its start, which it
  never is when the argument is not a permutation; it is a partial function whose value \<open>None\<close> stands
  for not returning.  The theorem shows that on permutations it returns and puts every element where
  the permutation sends it.
\<close>

partial_function (option) rotate_loop ::
    "nat list \<Rightarrow> nat \<Rightarrow> nat \<Rightarrow> 'a \<Rightarrow> 'a list \<Rightarrow> bool list \<Rightarrow> ('a list \<times> bool list) result option" where
  "rotate_loop perm i cur x arr visited =
     (if length perm \<le> cur \<or> length visited \<le> cur \<or> length arr \<le> perm ! cur then Some (Inl Panic)
      else if perm ! cur = i then Some (Inr (arr[perm ! cur := x], visited[cur := True]))
      else rotate_loop perm i (perm ! cur) (arr ! (perm ! cur)) (arr[perm ! cur := x]) (visited[cur := True]))"

fun rotate_from :: "'a \<Rightarrow> nat list \<Rightarrow> nat list \<Rightarrow> 'a list \<Rightarrow> bool list \<Rightarrow> 'a list result option" where
  "rotate_from dflt perm [] arr visited = Some (Inr arr)"
| "rotate_from dflt perm (i # is) arr visited =
     (if visited ! i then rotate_from dflt perm is arr visited
      else if length perm \<le> i then Some (Inl Panic)
      else if perm ! i = i then rotate_from dflt perm is arr (visited[i := True])
      else case rotate_loop perm i i (arr ! i) (arr[i := dflt]) visited of
             None \<Rightarrow> None
           | Some (Inl e) \<Rightarrow> Some (Inl e)
           | Some (Inr (arr', visited')) \<Rightarrow> rotate_from dflt perm is arr' visited')"

definition apply_permutation_cycle_rotate :: "'a \<Rightarrow> 'a list \<Rightarrow> nat list \<Rightarrow> 'a list result option" where
  "apply_permutation_cycle_rotate dflt arr perm =
     rotate_from dflt perm [0..<length arr] arr (replicate (length arr) False)"

subsection \<open>One cycle\<close>

definition is_perm :: "nat list \<Rightarrow> nat \<Rightarrow> bool" where
  "is_perm perm n \<longleftrightarrow> length perm = n \<and> distinct perm \<and> set perm = {0..<n}"

lemma is_permD:
  assumes "is_perm perm n"
  shows "length perm = n" "j < n \<Longrightarrow> perm ! j < n" "j < n \<Longrightarrow> k < n \<Longrightarrow> perm ! j = perm ! k \<Longrightarrow> j = k"
proof -
  show len: "length perm = n"
    using assms by (simp add: is_perm_def)
  show "perm ! j < n" if "j < n"
  proof -
    have "perm ! j \<in> set perm" using that len by simp
    then show ?thesis using assms by (simp add: is_perm_def)
  qed
  show "j < n \<Longrightarrow> k < n \<Longrightarrow> perm ! j = perm ! k \<Longrightarrow> j = k"
    using assms nth_eq_iff_index_eq by (auto simp: is_perm_def)
qed

text \<open>The state of the inner loop: \<open>V\<close> are the positions whose element has been moved.\<close>

definition in_cycle :: "nat list \<Rightarrow> nat \<Rightarrow> 'a list \<Rightarrow> bool list \<Rightarrow> nat set \<Rightarrow> nat \<Rightarrow> 'a \<Rightarrow> 'a list \<Rightarrow> bool list \<Rightarrow> bool" where
  "in_cycle perm i orig vis0 V cur x arr vis \<longleftrightarrow>
     length arr = length orig \<and> length vis = length orig \<and> cur < length orig \<and> x = orig ! cur \<and>
     V \<subseteq> {j. j < length orig \<and> \<not> vis0 ! j} \<and> cur \<notin> V \<and> \<not> vis0 ! cur \<and>
     insert i ((!) perm ` V) = insert cur V \<and>
     (\<forall>j < length orig. vis ! j \<longleftrightarrow> vis0 ! j \<or> j \<in> V) \<and>
     (\<forall>j\<in>V. arr ! (perm ! j) = orig ! j) \<and>
     (\<forall>j < length orig. j \<noteq> i \<longrightarrow> j \<notin> (!) perm ` V \<longrightarrow> arr ! j = orig ! j)"

definition rotated :: "nat list \<Rightarrow> 'a list \<Rightarrow> bool list \<Rightarrow> nat set \<Rightarrow> 'a list \<Rightarrow> bool list \<Rightarrow> bool" where
  "rotated perm orig vis0 V arr vis \<longleftrightarrow>
     length arr = length orig \<and> length vis = length orig \<and> V \<subseteq> {j. j < length orig \<and> \<not> vis0 ! j} \<and>
     (!) perm ` V = V \<and> (\<forall>j < length orig. vis ! j \<longleftrightarrow> vis0 ! j \<or> j \<in> V) \<and>
     (\<forall>j\<in>V. arr ! (perm ! j) = orig ! j) \<and> (\<forall>j < length orig. j \<notin> V \<longrightarrow> arr ! j = orig ! j)"

lemma in_cycle_step:
  assumes p: "is_perm perm (length orig)" and c: "in_cycle perm i orig vis0 V cur x arr vis"
    and vis0: "\<forall>j < length orig. \<not> vis0 ! j \<longrightarrow> \<not> vis0 ! (perm ! j)"
  shows "perm ! cur = i \<Longrightarrow> rotated perm orig vis0 (insert cur V) (arr[perm ! cur := x]) (vis[cur := True])"
    and "perm ! cur \<noteq> i \<Longrightarrow> in_cycle perm i orig vis0 (insert cur V) (perm ! cur) (arr ! (perm ! cur))
      (arr[perm ! cur := x]) (vis[cur := True])"
proof -
  note pd = is_permD [OF p]
  have V: "\<And>j. j \<in> V \<Longrightarrow> j < length orig" and cur: "cur < length orig" "cur \<notin> V" "perm ! cur < length orig"
    using c pd(2) by (auto simp: in_cycle_def)
  have fresh: "perm ! cur \<noteq> perm ! j" if "j \<in> V" for j
    using pd(3) [OF cur(1) V [OF that]] cur(2) that by blast
  have eq: "insert i ((!) perm ` V) = insert cur V"
    using c by (simp add: in_cycle_def)
  have moved: "\<forall>j\<in>insert cur V. arr[perm ! cur := x] ! (perm ! j) = orig ! j"
  proof
    fix j
    assume j: "j \<in> insert cur V"
    show "arr[perm ! cur := x] ! (perm ! j) = orig ! j"
    proof (cases "j = cur")
      case True
      then show ?thesis using c cur by (simp add: in_cycle_def)
    next
      case False
      with j have "j \<in> V" by simp
      then show ?thesis using c fresh [of j] by (simp add: in_cycle_def)
    qed
  qed
  have rest: "\<forall>j < length orig. j \<noteq> i \<longrightarrow> j \<notin> (!) perm ` insert cur V \<longrightarrow> arr[perm ! cur := x] ! j = orig ! j"
    using c by (auto simp: in_cycle_def)
  have vis: "\<forall>j < length orig. vis[cur := True] ! j \<longleftrightarrow> vis0 ! j \<or> j \<in> insert cur V"
    using c by (auto simp: in_cycle_def nth_list_update)
  have sub: "insert cur V \<subseteq> {j. j < length orig \<and> \<not> vis0 ! j}"
    using c by (auto simp: in_cycle_def)
  have len: "length (arr[perm ! cur := x]) = length orig" "length (vis[cur := True]) = length orig"
    using c by (simp_all add: in_cycle_def)
  show "rotated perm orig vis0 (insert cur V) (arr[perm ! cur := x]) (vis[cur := True])" if "perm ! cur = i"
  proof -
    have img: "(!) perm ` insert cur V = insert cur V"
      using eq that by auto
    then have "i \<in> insert cur V" using that by blast
    then have "\<forall>j < length orig. j \<notin> insert cur V \<longrightarrow> arr[perm ! cur := x] ! j = orig ! j"
      using rest img by blast
    then show ?thesis
      unfolding rotated_def using len sub img vis moved by blast
  qed
  show "in_cycle perm i orig vis0 (insert cur V) (perm ! cur) (arr ! (perm ! cur))
      (arr[perm ! cur := x]) (vis[cur := True])" if ne: "perm ! cur \<noteq> i"
  proof -
    have out: "perm ! cur \<notin> (!) perm ` V"
      using fresh by blast
    then have "arr ! (perm ! cur) = orig ! (perm ! cur)"
      using c ne cur(3) by (simp add: in_cycle_def)
    moreover have "perm ! cur \<notin> insert cur V"
      using out ne eq by auto
    moreover have "insert i ((!) perm ` insert cur V) = insert (perm ! cur) (insert cur V)"
      using eq by auto
    moreover have "\<not> vis0 ! (perm ! cur)"
      using c vis0 by (simp add: in_cycle_def)
    ultimately show ?thesis
      unfolding in_cycle_def using len sub vis moved rest cur(3) by blast
  qed
qed

lemma rotate_loop_returns:
  assumes p: "is_perm perm (length orig)"
    and vis0: "\<forall>j < length orig. \<not> vis0 ! j \<longrightarrow> \<not> vis0 ! (perm ! j)"
  shows "in_cycle perm i orig vis0 V cur x arr vis \<Longrightarrow>
    \<exists>V' arr' vis'. rotate_loop perm i cur x arr vis = Some (Inr (arr', vis')) \<and> i \<in> V' \<and>
      rotated perm orig vis0 V' arr' vis'"
proof (induction "length orig - card V" arbitrary: V cur x arr vis rule: less_induct)
  case less
  note step = in_cycle_step [OF p less.prems vis0]
  have c: "length arr = length orig" "length vis = length orig" "cur < length orig" "cur \<notin> V"
    "V \<subseteq> {0..<length orig}"
    using less.prems by (auto simp: in_cycle_def)
  have ok: "\<not> (length perm \<le> cur \<or> length vis \<le> cur \<or> length arr \<le> perm ! cur)"
    using c is_permD [OF p] by (simp add: not_le)
  show ?case
  proof (cases "perm ! cur = i")
    case True
    then have "rotate_loop perm i cur x arr vis = Some (Inr (arr[perm ! cur := x], vis[cur := True]))"
      using ok by (subst rotate_loop.simps) simp
    moreover have "i \<in> insert cur V"
      using less.prems by (auto simp: in_cycle_def)
    ultimately show ?thesis
      using step(1) [OF True] by blast
  next
    case False
    have fin: "finite V" using c(5) finite_subset by blast
    have "card (insert cur V) \<le> length orig"
      using card_mono [of "{0..<length orig}" "insert cur V"] c by auto
    then have "length orig - card (insert cur V) < length orig - card V"
      using fin c(4) by simp
    from less.hyps [OF this step(2) [OF False]] show ?thesis
      using ok False by (subst rotate_loop.simps) simp
  qed
qed

subsection \<open>All cycles\<close>

definition placed :: "nat list \<Rightarrow> 'a list \<Rightarrow> 'a list \<Rightarrow> bool list \<Rightarrow> bool" where
  "placed perm orig arr vis \<longleftrightarrow>
     length arr = length orig \<and> length vis = length orig \<and>
     (\<forall>j < length orig. vis ! (perm ! j) \<longleftrightarrow> vis ! j) \<and>
     (\<forall>j < length orig. if vis ! j then arr ! (perm ! j) = orig ! j else arr ! j = orig ! j)"

lemma rotated_placed:
  assumes p: "is_perm perm (length orig)" and pl: "placed perm orig arr vis" and r: "rotated perm arr vis V arr' vis'"
  shows "placed perm orig arr' vis'"
proof -
  note pd = is_permD [OF p]
  have len: "length arr = length orig"
    using pl by (simp add: placed_def)
  have V: "\<And>j. j \<in> V \<Longrightarrow> j < length orig \<and> \<not> vis ! j" and img: "(!) perm ` V = V"
    using r len by (auto simp: rotated_def)
  have inV: "perm ! j \<in> V \<longleftrightarrow> j \<in> V" if "j < length orig" for j
  proof
    assume "perm ! j \<in> V"
    then obtain k where "k \<in> V" "perm ! k = perm ! j"
      using img by (metis imageE)
    then show "j \<in> V" using pd(3) [of k j] V that by blast
  qed (use img in blast)
  have "if vis' ! j then arr' ! (perm ! j) = orig ! j else arr' ! j = orig ! j" if j: "j < length orig" for j
    using pl r len inV [OF j] V [of j] pd(2) [OF j] j by (auto simp: placed_def rotated_def)
  moreover have "vis' ! (perm ! j) \<longleftrightarrow> vis' ! j" if j: "j < length orig" for j
    using pl r len inV [OF j] pd(2) [OF j] j by (auto simp: placed_def rotated_def)
  ultimately show ?thesis
    using r len by (auto simp: placed_def rotated_def)
qed

lemma rotate_from_placed:
  assumes p: "is_perm perm (length orig)"
  shows "placed perm orig arr vis \<Longrightarrow> \<forall>i\<in>set is. i < length orig \<Longrightarrow>
    (\<forall>j < length orig. j \<notin> set is \<longrightarrow> vis ! j) \<Longrightarrow>
    \<exists>arr'. rotate_from dflt perm is arr vis = Some (Inr arr') \<and> length arr' = length orig \<and>
      (\<forall>j < length orig. arr' ! (perm ! j) = orig ! j)"
proof (induction "is" arbitrary: arr vis)
  case Nil
  then show ?case by (auto simp: placed_def)
next
  case (Cons i "is")
  note pd = is_permD [OF p]
  have i: "i < length orig" using Cons.prems by simp
  have len: "length arr = length orig" "length vis = length orig"
    using Cons.prems(1) by (simp_all add: placed_def)
  consider "vis ! i" | "\<not> vis ! i" "perm ! i = i" | "\<not> vis ! i" "perm ! i \<noteq> i" by blast
  then show ?case
  proof cases
    case 1
    then show ?thesis using Cons by auto
  next
    case 2
    have "rotated perm arr vis {i} arr (vis[i := True])"
      using 2 i len by (auto simp: rotated_def nth_list_update)
    note Cons.IH [OF rotated_placed [OF p Cons.prems(1) this]]
    then show ?thesis
      using 2 i pd(1) Cons.prems(2,3) len by (auto simp: nth_list_update)
  next
    case 3
    have start: "in_cycle perm i arr vis {} i (arr ! i) (arr[i := dflt]) vis"
      using 3 i len by (auto simp: in_cycle_def)
    have "\<forall>j < length arr. \<not> vis ! j \<longrightarrow> \<not> vis ! (perm ! j)"
      using Cons.prems(1) by (simp add: placed_def)
    then obtain V arr' vis' where r: "rotate_loop perm i i (arr ! i) (arr[i := dflt]) vis = Some (Inr (arr', vis'))"
      "i \<in> V" "rotated perm arr vis V arr' vis'"
      using rotate_loop_returns [OF _ _ start] p len by metis
    have "\<forall>j < length orig. j \<notin> set is \<longrightarrow> vis' ! j"
      using Cons.prems(3) r(2,3) len by (auto simp: rotated_def)
    then show ?thesis
      using Cons.IH [OF rotated_placed [OF p Cons.prems(1) r(3)]] Cons.prems(2) 3 i r(1) pd(1) by auto
  qed
qed

lemma cycle_rotate_spec:
  assumes "is_perm perm (length arr)"
  shows "\<exists>arr'. apply_permutation_cycle_rotate dflt arr perm = Some (Inr arr') \<and> length arr' = length arr \<and>
    (\<forall>j < length arr. arr' ! (perm ! j) = arr ! j)"
  unfolding apply_permutation_cycle_rotate_def
  by (rule rotate_from_placed [OF assms])
     (use is_permD(2) [OF assms] in \<open>auto simp: placed_def\<close>)

end
