(* ===== verification/Stratification.thy ===== *)
theory Stratification
  imports Ast Components Cycle_Rotate "HOL-Library.AList"
begin

text \<open>
  \<open>mangle-analysis/src/stratification.rs\<close>: programs, their dependency graph, its strongly connected
  components, the check for negation inside a component, and the ordering of the components.  A hash
  map is an association list with distinct keys in insertion order; the order in which an iteration
  over a hash map or hash set yields its keys is a parameter (\<open>hash_orders\<close>), one function per kind of
  container, applied to the keys.
\<close>

subsection \<open>Programs\<close>

record program =
  ext_preds :: "pred_index list"
  prog_rules :: "(pred_index \<times> clause list) list"

record hash_orders =
  ho_rules :: "pred_index list \<Rightarrow> pred_index list"
  ho_nodes :: "pred_index list \<Rightarrow> pred_index list"
  ho_edges :: "pred_index list \<Rightarrow> pred_index list"
  ho_set :: "pred_index list \<Rightarrow> pred_index list"

definition program_new :: program where
  "program_new = \<lparr>ext_preds = [], prog_rules = []\<rparr>"

definition rules_for :: "program \<Rightarrow> pred_index \<Rightarrow> clause list" where
  "rules_for prog p = (case map_of (prog_rules prog) p of None \<Rightarrow> [] | Some cls \<Rightarrow> cls)"

text \<open>\<open>copy\<close> is \<open>Arena::copy_clause\<close> into the program's arena.\<close>

definition add_clause :: "(clause \<Rightarrow> clause) \<Rightarrow> clause \<Rightarrow> program \<Rightarrow> program" where
  "add_clause copy c prog =
     (let cl = copy c; p = a_sym (cl_head cl) in
      prog\<lparr>prog_rules := AList.update p (rules_for prog p @ [cl]) (prog_rules prog)\<rparr>)"

subsection \<open>The dependency graph\<close>

type_synonym edge_map = "(pred_index \<times> bool) list"
type_synonym dep_graph = "(pred_index \<times> edge_map) list"

definition edges_at :: "dep_graph \<Rightarrow> pred_index \<Rightarrow> edge_map" where
  "edges_at g s = (case map_of g s of None \<Rightarrow> [] | Some es \<Rightarrow> es)"

definition init_node :: "pred_index \<Rightarrow> dep_graph \<Rightarrow> dep_graph" where
  "init_node s g = (if map_of g s = None then AList.update s [] g else g)"

definition add_edge :: "pred_index \<Rightarrow> pred_index \<Rightarrow> bool \<Rightarrow> dep_graph \<Rightarrow> dep_graph" where
  "add_edge s d negated g =
     (let es = edges_at g s in
      AList.update s
        (if negated then AList.update d True es
         else if map_of es d = None \<or> map_of es d = Some False then AList.update d False es
         else es) g)"

text \<open>\<open>let\<close>-transforms keep dependencies positive; a transform that starts with a \<open>do\<close> makes them
  negative.\<close>

definition aggregates :: "clause \<Rightarrow> bool" where
  "aggregates c \<longleftrightarrow> \<not> (cl_transform c = [] \<or> ts_var (hd (cl_transform c)) \<noteq> None)"

definition dep_of :: "program \<Rightarrow> clause \<Rightarrow> ast_term \<Rightarrow> (pred_index \<times> bool) option" where
  "dep_of prog c t =
     (case t of
        TAtom a \<Rightarrow> if a_sym a \<notin> set (ext_preds prog) then Some (a_sym a, aggregates c) else None
      | TNegAtom a \<Rightarrow> if a_sym a \<notin> set (ext_preds prog) then Some (a_sym a, True) else None
      | TTemporalAtom a _ \<Rightarrow> if a_sym a \<notin> set (ext_preds prog) then Some (a_sym a, aggregates c) else None
      | _ \<Rightarrow> None)"

definition rule_deps :: "program \<Rightarrow> pred_index \<Rightarrow> (pred_index \<times> bool) list" where
  "rule_deps prog s = concat (map (\<lambda>c. List.map_filter (dep_of prog c) (cl_premises c)) (rules_for prog s))"

definition add_rules :: "program \<Rightarrow> pred_index \<Rightarrow> dep_graph \<Rightarrow> dep_graph" where
  "add_rules prog s g = fold (\<lambda>(d, neg). add_edge s d neg) (rule_deps prog s) (init_node s g)"

definition make_dep_graph :: "hash_orders \<Rightarrow> program \<Rightarrow> dep_graph" where
  "make_dep_graph ho prog = fold (add_rules prog) (ho_rules ho (map fst (prog_rules prog))) []"

definition add_reversed :: "dep_graph \<Rightarrow> pred_index \<Rightarrow> pred_index list \<Rightarrow> dep_graph \<Rightarrow> dep_graph" where
  "add_reversed g src ds r =
     fold (\<lambda>d r'. add_edge d src (the (map_of (edges_at g src) d)) (init_node d r')) ds r"

definition transpose_graph :: "hash_orders \<Rightarrow> dep_graph \<Rightarrow> dep_graph" where
  "transpose_graph ho g =
     fold (\<lambda>src. add_reversed g src (ho_edges ho (map fst (edges_at g src)))) (ho_nodes ho (map fst g)) []"

definition adj_of :: "hash_orders \<Rightarrow> dep_graph \<Rightarrow> pred_index adjacency" where
  "adj_of ho g = map (\<lambda>(s, es). (s, ho_edges ho (map fst es))) g"

subsection \<open>Strata\<close>

definition sccs :: "hash_orders \<Rightarrow> dep_graph \<Rightarrow> pred_index list list" where
  "sccs ho g =
     (let s = snd (walk (adj_of ho g) {} (ho_nodes ho (map fst g))) in
      components (adj_of ho (transpose_graph ho g)) (rev s) {})"

type_synonym stratum_map = "pred_index \<Rightarrow> nat option"

fun check_strata :: "dep_graph \<Rightarrow> nat \<Rightarrow> pred_index list list \<Rightarrow> stratum_map \<Rightarrow> stratum_map result" where
  "check_strata g i [] m = Inr m"
| "check_strata g i (c # cs) m =
     (let m' = fold (\<lambda>p m. m(p \<mapsto> i)) c m in
      if \<exists>p\<in>set c. \<exists>(d, neg)\<in>set (edges_at g p). neg \<and> m' d = Some i
      then Inl (Anyhow ''program cannot be stratified'')
      else check_strata g (Suc i) cs m')"

text \<open>The strata a stratum depends on, in the order \<open>visit_stratum\<close> looks at them.\<close>

definition stratum_adj :: "hash_orders \<Rightarrow> dep_graph \<Rightarrow> pred_index list list \<Rightarrow> stratum_map \<Rightarrow> nat adjacency" where
  "stratum_adj ho g strata m =
     map (\<lambda>i. (i, concat (map (\<lambda>p. List.map_filter m (ho_edges ho (map fst (edges_at g p))))
                             (ho_set ho (strata ! i))))) [0..<length strata]"

fun fill_permutation :: "nat list \<Rightarrow> nat \<Rightarrow> nat list \<Rightarrow> nat list result" where
  "fill_permutation [] new_idx perm = Inr perm"
| "fill_permutation (old_idx # olds) new_idx perm =
     (if length perm \<le> old_idx then Inl Panic
      else fill_permutation olds (Suc new_idx) (perm[old_idx := new_idx]))"

definition sort_result :: "hash_orders \<Rightarrow> dep_graph \<Rightarrow> pred_index list list \<Rightarrow> stratum_map \<Rightarrow>
    (pred_index list list \<times> stratum_map) result option" where
  "sort_result ho g strata m =
     (let n = length strata;
          sorted_indices = snd (walk (stratum_adj ho g strata m) {} [0..<n]) in
      if length sorted_indices < n then Some (Inl Panic)
      else case fill_permutation (take n sorted_indices) 0 (replicate n 0) of
        Inl e \<Rightarrow> Some (Inl e)
      | Inr perm \<Rightarrow>
          (case apply_permutation_cycle_rotate [] strata perm of
             None \<Rightarrow> None
           | Some (Inl e) \<Rightarrow> Some (Inl e)
           | Some (Inr strata') \<Rightarrow>
               Some (Inr (strata', \<lambda>p. case m p of None \<Rightarrow> None
                                        | Some old \<Rightarrow> if old \<in> set (take n sorted_indices) then Some (perm ! old) else None))))"

record stratified_program =
  sp_program :: program
  sp_strata :: "pred_index list list"

definition stratify :: "hash_orders \<Rightarrow> program \<Rightarrow> stratified_program result option" where
  "stratify ho prog =
     (let g = make_dep_graph ho prog; strata = sccs ho g in
      case check_strata g 0 strata Map.empty of
        Inl e \<Rightarrow> Some (Inl e)
      | Inr m \<Rightarrow>
          map_option (\<lambda>r. bindR r (\<lambda>(strata', _). Inr \<lparr>sp_program = prog, sp_strata = strata'\<rparr>))
            (sort_result ho g strata m))"

fun position_where :: "('a \<Rightarrow> bool) \<Rightarrow> 'a list \<Rightarrow> nat option" where
  "position_where P [] = None"
| "position_where P (x # xs) = (if P x then Some 0 else map_option Suc (position_where P xs))"

definition pred_to_index :: "stratified_program \<Rightarrow> pred_index \<Rightarrow> nat option" where
  "pred_to_index sp p = position_where (\<lambda>c. p \<in> set c) (sp_strata sp)"

end
