(* ===== verification/Arena.thy ===== *)
theory Arena
  imports Ast
begin

text \<open>
  The arena of \<open>mangle-ast\<close>: its string interner and its symbol tables, and the copying of syntax
  from one arena to another.  References into the bump allocator are the values they point to, so
  allocation disappears; what remains of an arena is the state below, which every copying operation
  threads through.  An interned name is a 32-bit index, truncated as in the source.
\<close>

subsection \<open>The interner\<close>

record ast_interner =
  ai_map :: "(string \<times> u32) list"
  ai_vec :: "string list"

definition ast_intern :: "string \<Rightarrow> ast_interner \<Rightarrow> u32 \<times> ast_interner" where
  "ast_intern nm s =
     (case map_of (ai_map s) nm of
        Some i \<Rightarrow> (i, s)
      | None \<Rightarrow> let i = of_nat (length (ai_map s)) in
                 (i, s\<lparr>ai_map := (nm, i) # ai_map s, ai_vec := ai_vec s @ [nm]\<rparr>))"

definition ast_lookup_name_index :: "ast_interner \<Rightarrow> string \<Rightarrow> u32 option" where
  "ast_lookup_name_index s nm = map_of (ai_map s) nm"

definition ast_lookup :: "ast_interner \<Rightarrow> u32 \<Rightarrow> string option" where
  "ast_lookup s i = (if unat i < length (ai_vec s) then Some (ai_vec s ! unat i) else None)"

definition ast_interner_new :: ast_interner where
  "ast_interner_new = snd (ast_intern ''_'' \<lparr>ai_map = [], ai_vec = []\<rparr>)"

subsection \<open>The arena\<close>

record symbol =
  sy_name :: u32
  sy_arity :: "8 word option"

record arena =
  ar_interner :: ast_interner
  ar_predicates :: "symbol list"
  ar_functions :: "symbol list"

definition arena_new :: "ast_interner \<Rightarrow> arena" where
  "arena_new itn = \<lparr>ar_interner = itn, ar_predicates = [], ar_functions = []\<rparr>"

definition arena_intern :: "string \<Rightarrow> arena \<Rightarrow> u32 \<times> arena" where
  "arena_intern nm a = (let (i, s) = ast_intern nm (ar_interner a) in (i, a\<lparr>ar_interner := s\<rparr>))"

definition lookup_name :: "arena \<Rightarrow> u32 \<Rightarrow> string option" where
  "lookup_name a i = ast_lookup (ar_interner a) i"

definition predicate_name :: "arena \<Rightarrow> pred_index \<Rightarrow> string option" where
  "predicate_name a p =
     (if p < length (ar_predicates a) then lookup_name a (sy_name (ar_predicates a ! p)) else None)"

definition predicate_arity :: "arena \<Rightarrow> pred_index \<Rightarrow> 8 word option" where
  "predicate_arity a p = (if p < length (ar_predicates a) then sy_arity (ar_predicates a ! p) else None)"

definition function_name :: "arena \<Rightarrow> fun_index \<Rightarrow> string option" where
  "function_name a f =
     (if f < length (ar_functions a) then lookup_name a (sy_name (ar_functions a ! f)) else None)"

fun find_symbol :: "u32 \<Rightarrow> symbol list \<Rightarrow> nat option" where
  "find_symbol n [] = None"
| "find_symbol n (s # ss) = (if sy_name s = n then Some 0 else map_option Suc (find_symbol n ss))"

definition lookup_predicate_sym :: "arena \<Rightarrow> u32 \<Rightarrow> pred_index option" where
  "lookup_predicate_sym a n = find_symbol n (ar_predicates a)"

definition variable_sym :: "string \<Rightarrow> arena \<Rightarrow> var_index \<times> arena" where
  "variable_sym nm a = arena_intern nm a"

definition function_sym :: "string \<Rightarrow> 8 word option \<Rightarrow> arena \<Rightarrow> fun_index \<times> arena" where
  "function_sym nm ar a =
     (let (n, a') = arena_intern nm a in
      case find_symbol n (ar_functions a') of
        Some i \<Rightarrow> (i, a')
      | None \<Rightarrow> (length (ar_functions a'),
                 a'\<lparr>ar_functions := ar_functions a' @ [\<lparr>sy_name = n, sy_arity = ar\<rparr>]\<rparr>))"

definition predicate_sym :: "string \<Rightarrow> 8 word option \<Rightarrow> arena \<Rightarrow> pred_index \<times> arena" where
  "predicate_sym nm ar a =
     (let (n, a') = arena_intern nm a in
      case find_symbol n (ar_predicates a') of
        Some i \<Rightarrow> (i, a')
      | None \<Rightarrow> (length (ar_predicates a'),
                 a'\<lparr>ar_predicates := ar_predicates a' @ [\<lparr>sy_name = n, sy_arity = ar\<rparr>]\<rparr>))"

definition new_query :: "arena \<Rightarrow> pred_index \<Rightarrow> atom result" where
  "new_query a p =
     bindR (index_list (ar_predicates a) p) (\<lambda>s.
       Inr \<lparr>a_sym = p, a_args = (case sy_arity s of Some n \<Rightarrow> replicate (unat n) (BVar 0) | None \<Rightarrow> [])\<rparr>)"

subsection \<open>Copying\<close>

text \<open>\<open>expect("expected to find name")\<close>\<close>

definition expect_name :: "arena \<Rightarrow> u32 \<Rightarrow> string result" where
  "expect_name src i = (case lookup_name src i of Some nm \<Rightarrow> Inr nm | None \<Rightarrow> Inl Panic)"

text \<open>\<open>xs.iter().map(|x| self.copy(x)).collect()\<close>, threading the target arena.\<close>

fun copy_all :: "('a \<Rightarrow> arena \<Rightarrow> ('b \<times> arena) result) \<Rightarrow> 'a list \<Rightarrow> arena \<Rightarrow> ('b list \<times> arena) result" where
  "copy_all f [] a = Inr ([], a)"
| "copy_all f (x # xs) a =
     bindR (f x a) (\<lambda>(y, a1). bindR (copy_all f xs a1) (\<lambda>(ys, a2). Inr (y # ys, a2)))"

lemma copy_all_cong [fundef_cong]:
  "xs = ys \<Longrightarrow> a = b \<Longrightarrow> (\<And>x c. x \<in> set ys \<Longrightarrow> f x c = g x c) \<Longrightarrow> copy_all f xs a = copy_all g ys b"
proof (induction ys arbitrary: xs a b)
  case (Cons y ys)
  have "copy_all f ys c = copy_all g ys c" for c
    using Cons.prems(3) by (intro Cons.IH) auto
  then show ?case
    using Cons.prems by (auto intro!: bindR_cong)
qed simp

definition copy_function_sym :: "arena \<Rightarrow> fun_index \<Rightarrow> arena \<Rightarrow> (fun_index \<times> arena) result" where
  "copy_function_sym src f a =
     bindR (index_list (ar_functions src) f) (\<lambda>s.
     bindR (expect_name src (sy_name s)) (\<lambda>nm. Inr (function_sym nm (sy_arity s) a)))"

definition copy_predicate_sym :: "arena \<Rightarrow> pred_index \<Rightarrow> arena \<Rightarrow> (pred_index \<times> arena) result" where
  "copy_predicate_sym src p a =
     bindR (index_list (ar_predicates src) p) (\<lambda>s.
     bindR (expect_name src (sy_name s)) (\<lambda>nm. Inr (predicate_sym nm (sy_arity s) a)))"

fun copy_const :: "arena \<Rightarrow> ast_const \<Rightarrow> arena \<Rightarrow> (ast_const \<times> arena) result" where
  "copy_const src (CsName n) a =
     bindR (expect_name src n) (\<lambda>nm. let (i, a') = arena_intern nm a in Inr (CsName i, a'))"
| "copy_const src (CsList cs) a = bindR (copy_all (copy_const src) cs a) (\<lambda>(cs', a'). Inr (CsList cs', a'))"
| "copy_const src (CsMap ks vs) a =
     bindR (copy_all (copy_const src) ks a) (\<lambda>(ks', a1).
     bindR (copy_all (copy_const src) vs a1) (\<lambda>(vs', a2). Inr (CsMap ks' vs', a2)))"
| "copy_const src (CsStruct fs vs) a =
     bindR (copy_all (copy_const src) vs a) (\<lambda>(vs', a'). Inr (CsStruct fs vs', a'))"
| "copy_const src c a = Inr (c, a)"

fun copy_base_term :: "arena \<Rightarrow> base_term \<Rightarrow> arena \<Rightarrow> (base_term \<times> arena) result" where
  "copy_base_term src (BConst c) a = bindR (copy_const src c a) (\<lambda>(c', a'). Inr (BConst c', a'))"
| "copy_base_term src (BVar v) a =
     bindR (expect_name src v) (\<lambda>nm. let (i, a') = variable_sym nm a in Inr (BVar i, a'))"
| "copy_base_term src (BApp f args) a =
     bindR (copy_function_sym src f a) (\<lambda>(f', a1).
     bindR (copy_all (copy_base_term src) args a1) (\<lambda>(args', a2). Inr (BApp f' args', a2)))"

definition copy_atom :: "arena \<Rightarrow> atom \<Rightarrow> arena \<Rightarrow> (atom \<times> arena) result" where
  "copy_atom src at a =
     bindR (copy_all (copy_base_term src) (a_args at) a) (\<lambda>(args, a1).
     bindR (copy_predicate_sym src (a_sym at) a1) (\<lambda>(p, a2). Inr (\<lparr>a_sym = p, a_args = args\<rparr>, a2)))"

fun copy_term :: "arena \<Rightarrow> ast_term \<Rightarrow> arena \<Rightarrow> (ast_term \<times> arena) result" where
  "copy_term src (TAtom at) a = bindR (copy_atom src at a) (\<lambda>(x, a'). Inr (TAtom x, a'))"
| "copy_term src (TNegAtom at) a = bindR (copy_atom src at a) (\<lambda>(x, a'). Inr (TNegAtom x, a'))"
| "copy_term src (TEq l r) a =
     bindR (copy_base_term src l a) (\<lambda>(l', a1).
     bindR (copy_base_term src r a1) (\<lambda>(r', a2). Inr (TEq l' r', a2)))"
| "copy_term src (TIneq l r) a =
     bindR (copy_base_term src l a) (\<lambda>(l', a1).
     bindR (copy_base_term src r a1) (\<lambda>(r', a2). Inr (TIneq l' r', a2)))"
| "copy_term src (TTemporalAtom at iv) a = bindR (copy_atom src at a) (\<lambda>(x, a'). Inr (TTemporalAtom x iv, a'))"

definition copy_transform :: "arena \<Rightarrow> transform_stmt \<Rightarrow> arena \<Rightarrow> (transform_stmt \<times> arena) result" where
  "copy_transform src t a =
     bindR (copy_base_term src (ts_app t) a) (\<lambda>(app, a'). Inr (\<lparr>ts_var = ts_var t, ts_app = app\<rparr>, a'))"

definition copy_clause :: "arena \<Rightarrow> clause \<Rightarrow> arena \<Rightarrow> (clause \<times> arena) result" where
  "copy_clause src c a =
     bindR (copy_all (copy_term src) (cl_premises c) a) (\<lambda>(ps, a1).
     bindR (copy_all (copy_transform src) (cl_transform c) a1) (\<lambda>(ts, a2).
     bindR (copy_atom src (cl_head c) a2) (\<lambda>(h, a3).
       Inr (\<lparr>cl_head = h, cl_head_time = cl_head_time c, cl_premises = ps, cl_transform = ts\<rparr>, a3))))"

end
