(* ===== verification/Driver.thy ===== *)
theory Driver
  imports Planner Interp Stratification Arena
begin

text \<open>
  \<open>mangle-driver/src/lib.rs\<close>: executing a compiled program.  Every stratum is planned first (which
  interns fresh names into the IR), then the plans run stratum by stratum, a recursive stratum in the
  semi-naive loop.  The loop may run forever: it is a partial function, and \<open>None\<close> means that it does not
  return.  \<open>coalesce\<close> is the store's \<open>coalesce_temporal\<close>, \<open>hash_join\<close> the default read from the
  environment; on an error the interpreter is dropped, so an error carries no state.
\<close>

subsection \<open>Planning\<close>

datatype stratum_plan = NonRecursive "op list" | Recursive "op list" "op list"

definition stratum_names :: "arena \<Rightarrow> pred_index list \<Rightarrow> string set" where
  "stratum_names a stratum = set (List.map_filter (predicate_name a) stratum)"

text \<open>The instructions that are rules whose head is a predicate of the stratum.\<close>

fun rules_of :: "ir \<Rightarrow> string set \<Rightarrow> nat \<Rightarrow> inst list \<Rightarrow> inst_id list result" where
  "rules_of m names i [] = Inr []"
| "rules_of m names i (inst # rest) =
     bindR (case inst of
              IRule head _ _ \<Rightarrow>
                bindR (ir_get m head) (\<lambda>h.
                  case h of
                    IAtom pred _ \<Rightarrow>
                      bindR (resolve_name m pred) (\<lambda>nm.
                        if nm \<in> names then bindR (key_new i) (\<lambda>k. Inr [k]) else Inr [])
                  | _ \<Rightarrow> Inr [])
            | _ \<Rightarrow> Inr []) (\<lambda>ks. bindR (rules_of m names (Suc i) rest) (\<lambda>ks'. Inr (ks @ ks')))"

definition rule_premises :: "ir \<Rightarrow> inst_id \<Rightarrow> inst_id list result" where
  "rule_premises m rule =
     bindR (ir_get m rule) (\<lambda>i. Inr (case i of IRule _ ps _ \<Rightarrow> ps | _ \<Rightarrow> []))"

text \<open>The predicate of a premise that is an atom of the stratum.\<close>

definition stratum_atom :: "ir \<Rightarrow> string set \<Rightarrow> inst_id \<Rightarrow> name_id option result" where
  "stratum_atom m names premise =
     bindR (ir_get m premise) (\<lambda>i.
       case i of
         IAtom pred _ \<Rightarrow> bindR (resolve_name m pred) (\<lambda>nm. Inr (if nm \<in> names then Some pred else None))
       | _ \<Rightarrow> Inr None)"

fun any_recursive :: "ir \<Rightarrow> string set \<Rightarrow> inst_id list \<Rightarrow> bool result" where
  "any_recursive m names [] = Inr False"
| "any_recursive m names (p # ps) =
     bindR (stratum_atom m names p) (\<lambda>a. if a \<noteq> None then Inr True else any_recursive m names ps)"

fun is_recursive :: "ir \<Rightarrow> string set \<Rightarrow> inst_id list \<Rightarrow> bool result" where
  "is_recursive m names [] = Inr False"
| "is_recursive m names (r # rs) =
     bindR (rule_premises m r) (\<lambda>ps.
     bindR (any_recursive m names ps) (\<lambda>b. if b then Inr True else is_recursive m names rs))"

definition plan_with :: "bool \<Rightarrow> name_id option \<Rightarrow> inst_id \<Rightarrow> ir \<Rightarrow> (op \<times> ir) result" where
  "plan_with hash_join dp rule m =
     bindR (plan_rule rule (case dp of
              None \<Rightarrow> planner_new hash_join m
            | Some d \<Rightarrow> with_delta d (planner_new hash_join m))) (\<lambda>(op, p). Inr (op, pl_ir p))"

fun plan_rules :: "bool \<Rightarrow> inst_id list \<Rightarrow> ir \<Rightarrow> (op list \<times> ir) result" where
  "plan_rules hj [] m = Inr ([], m)"
| "plan_rules hj (r # rs) m =
     bindR (plan_with hj None r m) (\<lambda>(op, m1). bindR (plan_rules hj rs m1) (\<lambda>(ops, m2). Inr (op # ops, m2)))"

fun plan_deltas_of :: "bool \<Rightarrow> string set \<Rightarrow> inst_id \<Rightarrow> inst_id list \<Rightarrow> ir \<Rightarrow> (op list \<times> ir) result" where
  "plan_deltas_of hj names r [] m = Inr ([], m)"
| "plan_deltas_of hj names r (p # ps) m =
     bindR (stratum_atom m names p) (\<lambda>a.
       case a of
         None \<Rightarrow> plan_deltas_of hj names r ps m
       | Some d \<Rightarrow>
           bindR (plan_with hj (Some d) r m) (\<lambda>(op, m1).
           bindR (plan_deltas_of hj names r ps m1) (\<lambda>(ops, m2). Inr (op # ops, m2))))"

fun plan_deltas :: "bool \<Rightarrow> string set \<Rightarrow> inst_id list \<Rightarrow> ir \<Rightarrow> (op list \<times> ir) result" where
  "plan_deltas hj names [] m = Inr ([], m)"
| "plan_deltas hj names (r # rs) m =
     bindR (rule_premises m r) (\<lambda>ps.
     bindR (plan_deltas_of hj names r ps m) (\<lambda>(ops, m1).
     bindR (plan_deltas hj names rs m1) (\<lambda>(ops', m2). Inr (ops @ ops', m2))))"

definition plan_stratum :: "bool \<Rightarrow> arena \<Rightarrow> pred_index list \<Rightarrow> ir \<Rightarrow> (stratum_plan option \<times> ir) result" where
  "plan_stratum hj a stratum m =
     (let names = stratum_names a stratum in
      bindR (rules_of m names 0 (insts m)) (\<lambda>rules.
        if rules = [] then Inr (None, m)
        else bindR (is_recursive m names rules) (\<lambda>recursive.
          if \<not> recursive
          then bindR (plan_rules hj rules m) (\<lambda>(ops, m'). Inr (Some (NonRecursive ops), m'))
          else bindR (plan_rules hj rules m) (\<lambda>(initial_ops, m1).
               bindR (plan_deltas hj names rules m1) (\<lambda>(delta_plans, m2).
                 Inr (Some (Recursive initial_ops delta_plans), m2))))))"

fun plan_strata :: "bool \<Rightarrow> arena \<Rightarrow> pred_index list list \<Rightarrow> ir \<Rightarrow> (stratum_plan option list \<times> ir) result" where
  "plan_strata hj a [] m = Inr ([], m)"
| "plan_strata hj a (c # cs) m =
     bindR (plan_stratum hj a c m) (\<lambda>(plan, m1).
     bindR (plan_strata hj a cs m1) (\<lambda>(plans, m2). Inr (plan # plans, m2)))"

subsection \<open>Execution\<close>

definition on_store :: "('s \<Rightarrow> 's result) \<Rightarrow> 's istate \<Rightarrow> 's istate result" where
  "on_store f st = bindR (f (st_store st)) (\<lambda>s. Inr (st\<lparr>st_store := s\<rparr>))"

fun foldR_store :: "(string \<Rightarrow> 's \<Rightarrow> 's result) \<Rightarrow> string list \<Rightarrow> 's \<Rightarrow> 's result" where
  "foldR_store f [] s = Inr s"
| "foldR_store f (n # ns) s = bindR (f n s) (foldR_store f ns)"

partial_function (option) fixpoint_loop ::
    "'s interp_cfg \<Rightarrow> op list \<Rightarrow> 's istate \<Rightarrow> 's istate result option" where
  "fixpoint_loop C delta_plans st =
     (case for_each (execute C) delta_plans st of
        (Inl e, _) \<Rightarrow> Some (Inl e)
      | (Inr changes, st1) \<Rightarrow>
          if changes = 0 then Some (Inr st1)
          else (case on_store (so_merge_deltas (cf_store C)) st1 of
                  Inl e \<Rightarrow> Some (Inl e)
                | Inr st2 \<Rightarrow> fixpoint_loop C delta_plans st2))"

definition thenO :: "'a result option \<Rightarrow> ('a \<Rightarrow> 'b result option) \<Rightarrow> 'b result option" where
  "thenO x f = (case x of None \<Rightarrow> None | Some (Inl e) \<Rightarrow> Some (Inl e) | Some (Inr y) \<Rightarrow> f y)"

definition run_ops :: "'s interp_cfg \<Rightarrow> op list \<Rightarrow> 's istate \<Rightarrow> 's istate result" where
  "run_ops C ops st = (case for_each (execute C) ops st of (Inl e, _) \<Rightarrow> Inl e | (Inr _, st') \<Rightarrow> Inr st')"

definition run_stratum ::
    "(string \<Rightarrow> 's \<Rightarrow> 's result) \<Rightarrow> string list \<Rightarrow> 's interp_cfg \<Rightarrow> stratum_plan option \<Rightarrow> 's istate \<Rightarrow> 's istate result option" where
  "run_stratum coalesce temporal C plan st =
     thenO
       (case plan of
          None \<Rightarrow> Some (Inr st)
        | Some (NonRecursive ops) \<Rightarrow> Some (run_ops C ops st)
        | Some (Recursive initial_ops delta_plans) \<Rightarrow>
            thenO (Some (run_ops C initial_ops st)) (\<lambda>st1.
            thenO (Some (on_store (so_merge_deltas (cf_store C)) st1)) (\<lambda>st2.
            thenO (fixpoint_loop C delta_plans st2) (\<lambda>st3.
              Some (on_store (foldR_store coalesce temporal) st3)))))
       (\<lambda>st'. thenO (Some (on_store (so_merge_deltas (cf_store C)) st'))
          (\<lambda>st''. Some (on_store (foldR_store coalesce temporal) st'')))"

fun run_strata ::
    "(string \<Rightarrow> 's \<Rightarrow> 's result) \<Rightarrow> string list \<Rightarrow> 's interp_cfg \<Rightarrow> stratum_plan option list \<Rightarrow> 's istate \<Rightarrow> 's istate result option" where
  "run_strata coalesce temporal C [] st = Some (Inr st)"
| "run_strata coalesce temporal C (plan # plans) st =
     thenO (run_stratum coalesce temporal C plan st) (run_strata coalesce temporal C plans)"

definition execute_with_options ::
    "bool \<Rightarrow> (string \<Rightarrow> 's \<Rightarrow> 's result) \<Rightarrow> 's interp_cfg \<Rightarrow> arena \<Rightarrow> stratified_program \<Rightarrow> 's \<Rightarrow> bool \<Rightarrow>
      ('s interp_cfg \<times> 's istate) result option" where
  "execute_with_options hash_join coalesce C a sp s with_provenance =
     thenO (Some (plan_strata hash_join a (sp_strata sp) (cf_ir C))) (\<lambda>(plans, m).
     thenO (Some (traverseR (resolve_name m) (temporal_predicates m))) (\<lambda>temporal.
       let C' = C\<lparr>cf_ir := m\<rparr>;
           s' = fold (so_create_relation (cf_store C)) (List.map_filter (predicate_name a) (ext_preds (sp_program sp))) s;
           st = \<lparr>st_store = s', st_prov = (if with_provenance then Some \<lparr>prov_entries = [], active_premises = []\<rparr> else None),
                 st_env = Map.empty\<rparr>
       in thenO (run_strata coalesce temporal C' plans st) (\<lambda>st'. Some (Inr (C', st')))))"

end
