(* ===== verification/Mem_Store_Scan.thy ===== *)
theory Mem_Store_Scan
  imports Mem_Store_Inv Driver
begin

text \<open>
  What scans see of \<open>MemStore\<close>, without the indexes.  Retracting a tuple of the delta leaves a stale index,
  so the invariant of the store is too strong for a client that retracts; one that only scans needs the
  weaker \<open>tables\<close> below, which every operation keeps.
\<close>

subsection \<open>Tables\<close>

definition tables :: "mem_store \<Rightarrow> relations \<Rightarrow> relations \<Rightarrow> relations \<Rightarrow> bool" where
  "tables s A B C \<longleftrightarrow>
     distinct (map fst (stable s)) \<and> distinct (map fst (delta s)) \<and> distinct (map fst (next_delta s)) \<and>
     (\<forall>r. rows (stable s) r = map flatten_tuple (A r)) \<and>
     (\<forall>r. rows (delta s) r = map flatten_tuple (B r)) \<and>
     (\<forall>r. rows (next_delta s) r = map flatten_tuple (C r)) \<and>
     (\<forall>r. \<forall>t \<in> set (A r) \<union> set (B r) \<union> set (C r). arity s r = Some (length t)) \<and>
     (\<forall>r. distinct (A r @ B r @ C r))"

text \<open>With the right indexes the tables represent a store.\<close>

definition exact_index :: "relations \<Rightarrow> index" where
  "exact_index A = (\<lambda>(r, c). Some (\<lambda>k. Some (hits_from 0 (A r) c k)))"

lemma exact_index_hits [simp]: "index_hits (exact_index A) r c k = hits_from 0 (A r) c k"
  by (simp add: index_hits_def exact_index_def)

lemma tables_represents:
  "tables s A B C \<longleftrightarrow> represents (s\<lparr>stable_indexes := exact_index A, delta_indexes := exact_index B\<rparr>) A B C"
  by (simp add: tables_def represents_def)

lemma represents_tables:
  "represents s A B C \<longleftrightarrow> tables s A B C \<and> (\<forall>r c k. index_hits (stable_indexes s) r c k = hits_from 0 (A r) c k) \<and>
     (\<forall>r c k. index_hits (delta_indexes s) r c k = hits_from 0 (B r) c k)"
  unfolding tables_def represents_def by blast

lemma tables_scan: "tables s A B C \<Longrightarrow> mem_scan s r = Inr (A r @ B r)"
proof -
  assume "tables s A B C"
  then have rep: "represents (s\<lparr>stable_indexes := exact_index A, delta_indexes := exact_index B\<rparr>) A B C"
    by (simp add: tables_represents)
  have "mem_scan s r = mem_scan (s\<lparr>stable_indexes := exact_index A, delta_indexes := exact_index B\<rparr>) r"
    by (simp add: mem_scan_def n_cols_of_def)
  then show ?thesis
    using scan_facts(1) [OF represents_inv [OF rep]] represents_facts [OF rep] by simp
qed

subsection \<open>Insertion and merging\<close>

lemma tables_insert:
  assumes "tables s A B C" "accepts s r t"
  shows "\<exists>D. tables (snd (mem_insert r t s)) A B (C(r := D)) \<and> set D = set (C r) \<union> ({t} - set (A r) - set (B r)) \<and>
    arity (snd (mem_insert r t s)) = (arity s)(r \<mapsto> length t) \<and>
    stable_indexes (snd (mem_insert r t s)) = stable_indexes s \<and> delta_indexes (snd (mem_insert r t s)) = delta_indexes s"
proof -
  let ?w = "\<lambda>s. s\<lparr>stable_indexes := exact_index A, delta_indexes := exact_index B\<rparr>"
  have rep: "represents (?w s) A B C"
    using assms(1) by (simp add: tables_represents)
  have w: "mem_insert r t (?w s) = (fst (mem_insert r t s), ?w (snd (mem_insert r t s)))"
    "stable_indexes (snd (mem_insert r t s)) = stable_indexes s" "delta_indexes (snd (mem_insert r t s)) = delta_indexes s"
    by (auto simp: mem_insert_def Let_def)
  have acc: "accepts (?w s) r t"
    using assms(2) by (simp add: accepts_def)
  show ?thesis
  proof (cases "t \<in> set (A r) \<union> set (B r) \<union> set (C r)")
    case True
    then have "arity s r = Some (length t)"
      using assms(1) unfolding tables_def by blast
    then have "(arity s)(r \<mapsto> length t) = arity s"
      by auto
    moreover have "snd (mem_insert r t s) = s"
      using assms(1) True by (auto simp: mem_insert_def Let_def tables_def image_iff)
    ultimately show ?thesis
      using assms(1) True by (intro exI [of _ "C r"]) auto
  next
    case False
    then have "represents (?w (snd (mem_insert r t s))) A B (C(r := C r @ [t]))"
      "arity (snd (mem_insert r t s)) = (arity s)(r \<mapsto> length t)"
      using mem_insert_represents(2) [OF rep False acc] w(1) by simp_all
    then show ?thesis
      using False w(2,3) by (intro exI [of _ "C r @ [t]"]) (auto simp: tables_represents)
  qed
qed

text \<open>Whether indexing succeeds does not depend on the index it starts from.\<close>

lemma index_cols_any: "index_cols ix rel cells col n i = Inr ix' \<Longrightarrow> \<exists>jx'. index_cols jx rel cells col n i = Inr jx'"
  by (induction n arbitrary: ix jx cells col) auto

lemma merge_rows_any:
  "merge_rows rel n tab ix cs = Inr (tab', ix') \<Longrightarrow> \<exists>jx'. merge_rows rel n tab jx cs = Inr (tab', jx')"
proof (induction cs arbitrary: tab ix jx)
  case (Cons c cs)
  obtain k where k: "count_logical_values c = Inr k"
    using Cons.prems by auto
  show ?case
  proof (cases "k = n")
    case True
    obtain ix1 where ix1: "index_cells ix rel c n (length tab) = Inr ix1" "merge_rows rel n (tab @ [c]) ix1 cs = Inr (tab', ix')"
      using Cons.prems k True by auto
    obtain jx1 where "index_cells jx rel c n (length tab) = Inr jx1"
      using index_cols_any ix1(1) unfolding index_cells_def by blast
    then show ?thesis
      using Cons.IH [OF ix1(2)] k True by simp
  qed (use Cons k in simp)
qed simp

lemma merge_stable_any:
  "merge_stable ar tab ix ds = Inr (tab', ix') \<Longrightarrow> \<exists>jx'. merge_stable ar tab jx ds = Inr (tab', jx')"
proof (induction ds arbitrary: tab ix jx)
  case (Cons d ds)
  obtain rel cs where d: "d = (rel, cs)"
    by (cases d)
  let ?n = "case ar rel of None \<Rightarrow> 0 | Some n \<Rightarrow> n"
  obtain t1 ix1 where 1: "merge_rows rel ?n (rows tab rel) ix cs = Inr (t1, ix1)" "merge_stable ar (AList.update rel t1 tab) ix1 ds = Inr (tab', ix')"
    using Cons.prems d by auto
  obtain jx1 where "merge_rows rel ?n (rows tab rel) jx cs = Inr (t1, jx1)"
    using merge_rows_any [OF 1(1)] by blast
  then show ?case
    using Cons.IH [OF 1(2), of jx1] d by simp
qed simp

lemma tables_merge:
  assumes "tables s A B C"
  shows "\<exists>s'. mem_merge_deltas s = Inr s' \<and> arity s' = arity s \<and> tables s' (\<lambda>r. A r @ B r) C (\<lambda>r. [])"
proof -
  let ?w = "\<lambda>s. s\<lparr>stable_indexes := exact_index A, delta_indexes := exact_index B\<rparr>"
  obtain s1 where s1: "mem_merge_deltas (?w s) = Inr s1" "arity s1 = arity s" "represents s1 (\<lambda>r. A r @ B r) C (\<lambda>r. [])"
    using mem_merge_represents [OF assms [unfolded tables_represents]] by auto
  obtain tab six dix where m: "merge_stable (arity s) (stable s) (exact_index A) (delta s) = Inr (tab, six)"
    "index_delta (arity s) Map.empty (next_delta s) = Inr dix"
    "s1 = (?w s)\<lparr>stable := tab, stable_indexes := six, delta := next_delta s, next_delta := [], delta_indexes := dix\<rparr>"
    using s1(1) by (auto simp: mem_merge_deltas_def)
  obtain jx where j: "merge_stable (arity s) (stable s) (stable_indexes s) (delta s) = Inr (tab, jx)"
    using merge_stable_any [OF m(1)] by blast
  let ?s = "s\<lparr>stable := tab, stable_indexes := jx, delta := next_delta s, next_delta := [], delta_indexes := dix\<rparr>"
  have "mem_merge_deltas s = Inr ?s"
    using j m(2) by (simp add: mem_merge_deltas_def)
  moreover have "tables ?s (\<lambda>r. A r @ B r) C (\<lambda>r. [])"
    using s1(3) unfolding m(3) represents_def tables_def by simp
  ultimately show ?thesis
    by simp
qed

subsection \<open>Retraction, clearing and creation\<close>

lemma rebuild_tables:
  assumes "tables s A B C"
  shows "\<exists>s'. rebuild_indexes_for r s = Inr s' \<and> arity s' = arity s \<and> tables s' A B C"
proof -
  have "length t = n_cols_of s r" if "t \<in> set (A r) \<union> set (B r)" for t
  proof -
    have "arity s r = Some (length t)"
      using assms that unfolding tables_def by blast
    then show ?thesis by (simp add: n_cols_of_def)
  qed
  moreover have "rows (stable s) r = map flatten_tuple (A r)" "rows (delta s) r = map flatten_tuple (B r)"
    using assms by (simp_all add: tables_def)
  ultimately obtain ix jx where "index_rows (drop_index r (stable_indexes s)) r (n_cols_of s r) 0 (rows (stable s) r) = Inr ix"
    "index_rows (drop_index r (delta_indexes s)) r (n_cols_of s r) 0 (rows (delta s) r) = Inr jx"
    using index_rows_flatten [of "A r" "n_cols_of s r" "drop_index r (stable_indexes s)" r 0]
      index_rows_flatten [of "B r" "n_cols_of s r" "drop_index r (delta_indexes s)" r 0] by auto
  moreover have "tables (s\<lparr>stable_indexes := ix, delta_indexes := jx\<rparr>) A B C"
    using assms by (simp add: tables_def)
  ultimately show ?thesis
    by (simp add: rebuild_indexes_for_def Let_def)
qed

lemma tables_retract:
  assumes "tables s A B C"
  shows "\<exists>b s'. mem_retract r t s = Inr (b, s') \<and> arity s' = arity s \<and>
    tables s' (A(r := del_tuple t (A r))) (B(r := del_tuple t (B r))) (C(r := del_tuple t (C r)))"
proof -
  let ?A = "A(r := del_tuple t (A r))" and ?B = "B(r := del_tuple t (B r))" and ?C = "C(r := del_tuple t (C r))"
  let ?s = "s\<lparr>stable := snd (remove_row r (flatten_tuple t) (stable s)),
      delta := snd (remove_row r (flatten_tuple t) (delta s)), next_delta := snd (remove_row r (flatten_tuple t) (next_delta s))\<rparr>"
  have rows: "\<And>r. rows (stable s) r = map flatten_tuple (A r)" "\<And>r. rows (delta s) r = map flatten_tuple (B r)"
    "\<And>r. rows (next_delta s) r = map flatten_tuple (C r)"
    and dist: "\<And>r. distinct (A r @ B r @ C r)"
    using assms by (auto simp: tables_def)
  have sub: "set (?A r') \<subseteq> set (A r')" "set (?B r') \<subseteq> set (B r')" "set (?C r') \<subseteq> set (C r')" for r'
    using dist by (auto simp: del_tuple_props)
  have ar: "arity s r' = Some (length u)" if "u \<in> set (?A r') \<union> set (?B r') \<union> set (?C r')" for r' u
    using assms that sub [of r'] unfolding tables_def by blast
  have "distinct (?A r' @ ?B r' @ ?C r')" for r'
    using dist [of r'] sub [of r'] by (auto simp: del_tuple_props)
  then have tab: "tables ?s ?A ?B ?C"
    using assms ar remove_row_represents(2,3) [of "stable s" r "A r" t] remove_row_represents(2,3) [of "delta s" r "B r" t]
      remove_row_represents(2,3) [of "next_delta s" r "C r" t] rows
    unfolding tables_def by simp
  then obtain s' where s': "rebuild_indexes_for r ?s = Inr s'" "arity s' = arity s" "tables s' ?A ?B ?C"
    using rebuild_tables by (metis (no_types, lifting) mem_store.select_convs(4) mem_store.surjective mem_store.update_convs(1-3))
  show ?thesis
  proof (cases "fst (remove_row r (flatten_tuple t) (stable s))")
    case True
    then show ?thesis
      using s' by (auto simp: mem_retract_def Let_def case_prod_beta)
  next
    case False
    then show ?thesis
      using tab by (auto simp: mem_retract_def Let_def case_prod_beta)
  qed
qed

lemma tables_clear:
  "tables s A B C \<Longrightarrow> tables (mem_clear r s) (A(r := [])) (B(r := [])) (C(r := [])) \<and> arity (mem_clear r s) = arity s"
  by (auto simp: tables_def mem_clear_def)

lemma tables_create: "tables s A B C \<Longrightarrow> tables (mem_create_relation r s) A B C"
  by (auto simp: tables_def mem_create_relation_def)

subsection \<open>The facts of a store\<close>

definition stores :: "mem_store \<Rightarrow> (string \<Rightarrow> mvalue list set) \<Rightarrow> bool" where
  "stores s F \<longleftrightarrow> (\<exists>A B. tables s A B (\<lambda>r. []) \<and> F = (\<lambda>r. set (A r) \<union> set (B r)))"

definition registers :: "(string \<Rightarrow> nat) \<Rightarrow> mem_store \<Rightarrow> bool" where
  "registers ar s \<longleftrightarrow> (\<forall>r n. arity s r = Some n \<longrightarrow> n = ar r)"

lemma stores_scan: "stores s F \<Longrightarrow> \<exists>ts. mem_scan s r = Inr ts \<and> distinct ts \<and> set ts = F r"
proof -
  assume "stores s F"
  then obtain A B where t0: "tables s A B (\<lambda>r. [])" "F = (\<lambda>r. set (A r) \<union> set (B r))"
    unfolding stores_def by blast
  have "distinct (A r @ B r)"
    using t0(1) by (auto simp: tables_def)
  then show ?thesis
    using tables_scan [OF t0(1), of r] t0(2) by (intro exI [of _ "A r @ B r"]) simp
qed

lemma stores_length: "stores s F \<Longrightarrow> registers ar s \<Longrightarrow> t \<in> F r \<Longrightarrow> length t = ar r"
  unfolding stores_def registers_def tables_def by blast

lemma stores_arity: "stores s F \<Longrightarrow> t \<in> F r \<Longrightarrow> arity s r = Some (length t)"
  unfolding stores_def tables_def by blast

lemma stores_new: "stores mem_new (\<lambda>r. {})" "registers ar mem_new"
proof -
  have "tables mem_new (\<lambda>r. []) (\<lambda>r. []) (\<lambda>r. [])"
    by (simp add: tables_def mem_new_def)
  then show "stores mem_new (\<lambda>r. {})"
    unfolding stores_def by (intro exI [of _ "\<lambda>r. []"]) simp
qed (simp add: registers_def mem_new_def)

lemma tables_stores: "tables s A B (\<lambda>r. []) \<Longrightarrow> (\<And>r. F r = set (A r) \<union> set (B r)) \<Longrightarrow> stores s F"
  unfolding stores_def by blast

text \<open>An insertion followed by a merge: the tuple is there afterwards unless its length is not the
  registered one.\<close>

lemma stores_insert:
  assumes "stores s F"
  shows "\<exists>s'. mem_merge_deltas (snd (mem_insert r t s)) = Inr s' \<and>
    stores s' (if accepts s r t then F(r := insert t (F r)) else F) \<and>
    arity s' = (if accepts s r t then (arity s)(r \<mapsto> length t) else arity s)"
proof -
  obtain A B where t0: "tables s A B (\<lambda>r. [])" "F = (\<lambda>r. set (A r) \<union> set (B r))"
    using assms unfolding stores_def by blast
  show ?thesis
  proof (cases "accepts s r t")
    case True
    obtain D where D: "tables (snd (mem_insert r t s)) A B ((\<lambda>r. [])(r := D))" "set D = {t} - set (A r) - set (B r)"
      "arity (snd (mem_insert r t s)) = (arity s)(r \<mapsto> length t)"
      using tables_insert [OF t0(1) True] by auto
    obtain s' where "mem_merge_deltas (snd (mem_insert r t s)) = Inr s'" "arity s' = (arity s)(r \<mapsto> length t)"
      "tables s' (\<lambda>r. A r @ B r) ((\<lambda>r. [])(r := D)) (\<lambda>r. [])"
      using tables_merge [OF D(1)] D(3) by auto
    moreover from this(3) have "stores s' (F(r := insert t (F r)))"
      by (rule tables_stores) (use D(2) t0(2) in auto)
    ultimately show ?thesis
      using True by auto
  next
    case False
    then have "snd (mem_insert r t s) = s"
      by (auto simp: mem_insert_def Let_def accepts_def split: option.splits)
    moreover obtain s' where "mem_merge_deltas s = Inr s'" "arity s' = arity s" "tables s' (\<lambda>r. A r @ B r) (\<lambda>r. []) (\<lambda>r. [])"
      using tables_merge [OF t0(1)] by auto
    moreover from this(3) have "stores s' F"
      by (rule tables_stores) (simp add: t0(2))
    ultimately show ?thesis
      using False by auto
  qed
qed

lemma stores_retract:
  assumes "stores s F"
  shows "\<exists>b s'. mem_retract r t s = Inr (b, s') \<and> stores s' (F(r := F r - {t})) \<and> arity s' = arity s"
proof -
  obtain A B where t0: "tables s A B (\<lambda>r. [])" "F = (\<lambda>r. set (A r) \<union> set (B r))"
    using assms unfolding stores_def by blast
  have dist: "distinct (A r)" "distinct (B r)"
    using t0(1) by (auto simp: tables_def)
  have nil: "(\<lambda>r. [])(r := del_tuple t []) = (\<lambda>r. [])"
    by (auto simp: del_tuple_def)
  obtain b s' where s': "mem_retract r t s = Inr (b, s')" "arity s' = arity s"
    "tables s' (A(r := del_tuple t (A r))) (B(r := del_tuple t (B r))) (\<lambda>r. [])"
    using tables_retract [OF t0(1), of r t] unfolding nil by blast
  from s'(3) have "stores s' (F(r := F r - {t}))"
    by (rule tables_stores) (use dist t0(2) in \<open>auto simp: del_tuple_props\<close>)
  then show ?thesis
    using s'(1,2) by blast
qed

lemma stores_clear: "stores s F \<Longrightarrow> stores (fold mem_clear rs s) (\<lambda>r. if r \<in> set rs then {} else F r) \<and> arity (fold mem_clear rs s) = arity s"
proof (induction rs arbitrary: s F)
  case (Cons q rs)
  obtain A B where t0: "tables s A B (\<lambda>r. [])" "F = (\<lambda>r. set (A r) \<union> set (B r))"
    using Cons.prems unfolding stores_def by blast
  have "tables (mem_clear q s) (A(q := [])) (B(q := [])) (\<lambda>r. [])" "arity (mem_clear q s) = arity s"
    using tables_clear [OF t0(1), of q] by (simp_all add: fun_upd_def)
  moreover from this(1) have "stores (mem_clear q s) (F(q := {}))"
    by (rule tables_stores) (simp add: t0(2))
  moreover have "(\<lambda>r. if r \<in> set rs then {} else (F(q := {})) r) = (\<lambda>r. if r \<in> set (q # rs) then {} else F r)"
    by (simp add: fun_eq_iff)
  ultimately show ?case
    using Cons.IH [of "mem_clear q s" "F(q := {})"] by (simp del: fun_upd_apply)
qed simp

end
