(* ===== verification/Mem_Store_Steps.thy ===== *)
theory Mem_Store_Steps
  imports Coalesce Mem_Store_Scan
begin

text \<open>
  The operations of \<open>MemStore\<close> as steps, and what holds on every store they reach.  Retracting a tuple of
  the delta leaves the delta index of its relation stale until it is rebuilt, so a state is a store with
  the set of relations whose delta index may be stale (a ghost component: no operation reads it).  The
  tables are right on every reachable store, the indexes on the relations outside that set.

  Steps are all insertions, merges, creations, clears and retractions, without a condition;
  \<open>coalesce_temporal\<close> where the intervals of the relation are proper; and \<open>add_fact\<close> where the tuple has the
  registered arity (\<open>add_fact\<close> does not check it) and is in neither delta (\<open>add_fact\<close> looks at the stable
  table only, so it would store the tuple twice).
\<close>

subsection \<open>Steps\<close>

inductive mem_step :: "mem_store \<times> string set \<Rightarrow> mem_store \<times> string set \<Rightarrow> bool" where
  step_insert: "mem_insert r t s = (b, s') \<Longrightarrow> mem_step (s, Z) (s', Z)"
| step_merge: "mem_merge_deltas s = Inr s' \<Longrightarrow> mem_step (s, Z) (s', {})"
| step_create: "mem_step (s, Z) (mem_create_relation r s, Z)"
| step_clear: "mem_step (s, Z) (mem_clear r s, Z - {r})"
| step_retract: "mem_retract r t s = Inr (b, s') \<Longrightarrow>
    mem_step (s, Z) (s', if b then Z - {r} else if flatten_tuple t \<in> set (rows (delta s) r) then insert r Z else Z)"
| step_coalesce: "mem_coalesce_temporal ord r s = Inr s' \<Longrightarrow> (\<And>gs. mset (ord gs) = mset gs) \<Longrightarrow>
    mem_scan s r = Inr ts \<Longrightarrow> all_proper (n_cols_of s r) ts \<Longrightarrow> mem_step (s, Z) (s', Z)"
| step_add: "add_fact r t s = Inr s' \<Longrightarrow> accepts s r t \<Longrightarrow>
    flatten_tuple t \<notin> set (rows (delta s) r) \<union> set (rows (next_delta s) r) \<Longrightarrow> mem_step (s, Z) (s', Z)"

subsection \<open>Indexes that agree outside a set of relations\<close>

definition agree_off :: "string set \<Rightarrow> index \<Rightarrow> index \<Rightarrow> bool" where
  "agree_off Z ix jx \<longleftrightarrow> (\<forall>q c. q \<notin> Z \<longrightarrow> ix (q, c) = jx (q, c))"

lemma agree_off_refl [simp]: "agree_off Z ix ix"
  by (simp add: agree_off_def)

lemma agree_off_drop: "agree_off Z ix jx \<Longrightarrow> agree_off (Z - {r}) (drop_index r ix) (drop_index r jx)"
  by (auto simp: agree_off_def drop_index_def)

lemma agree_off_push: "agree_off Z ix jx \<Longrightarrow> agree_off Z (push_index ix r c k i) (push_index jx r c k i)"
  by (auto simp: agree_off_def push_index_def Let_def)

lemma index_cols_agree:
  "agree_off Z ix jx \<Longrightarrow> index_cols ix r cells c n i = Inr ix' \<Longrightarrow>
     \<exists>jx'. index_cols jx r cells c n i = Inr jx' \<and> agree_off Z ix' jx'"
proof (induction n arbitrary: ix jx cells c)
  case (Suc n)
  then obtain key cells' where k: "index_list cells 0 = Inr key" "skip_one cells = Inr cells'"
    "index_cols (push_index ix r c key i) r cells' (Suc c) n i = Inr ix'"
    by auto
  then show ?case
    using Suc.IH [OF agree_off_push [OF Suc.prems(1)] k(3)] by simp
qed simp

lemma index_rows_agree:
  "agree_off Z ix jx \<Longrightarrow> index_rows ix r n i rs = Inr ix' \<Longrightarrow>
     \<exists>jx'. index_rows jx r n i rs = Inr jx' \<and> agree_off Z ix' jx'"
proof (induction rs arbitrary: ix jx i)
  case (Cons cells rs)
  then obtain kx where k: "index_cells ix r cells n i = Inr kx" "index_rows kx r n (Suc i) rs = Inr ix'"
    by auto
  obtain lx where l: "index_cells jx r cells n i = Inr lx" "agree_off Z kx lx"
    using index_cols_agree [OF Cons.prems(1)] k(1) unfolding index_cells_def by blast
  show ?case
    using Cons.IH [OF l(2) k(2)] l(1) by simp
qed simp

text \<open>Rebuilding the indexes of \<open>r\<close> repairs \<open>r\<close> and looks at no other relation's index.\<close>

lemma rebuild_agree:
  assumes "agree_off Z ix (delta_indexes s)" "rebuild_indexes_for r (s\<lparr>delta_indexes := ix\<rparr>) = Inr s1"
  shows "\<exists>s' jx. rebuild_indexes_for r s = Inr s' \<and> s1 = s'\<lparr>delta_indexes := jx\<rparr> \<and>
    agree_off (Z - {r}) jx (delta_indexes s')"
proof -
  let ?n = "n_cols_of s r"
  obtain six jx where
    six: "index_rows (drop_index r (stable_indexes s)) r ?n 0 (rows (stable s) r) = Inr six"
    and jx: "index_rows (drop_index r ix) r ?n 0 (rows (delta s) r) = Inr jx"
    and s1: "s1 = s\<lparr>stable_indexes := six, delta_indexes := jx\<rparr>"
    using assms(2) by (auto simp: rebuild_indexes_for_def Let_def n_cols_of_def)
  obtain kx where "index_rows (drop_index r (delta_indexes s)) r ?n 0 (rows (delta s) r) = Inr kx"
    "agree_off (Z - {r}) jx kx"
    using index_rows_agree [OF agree_off_drop [OF assms(1)] jx] by blast
  then show ?thesis
    using six s1
    by (intro exI [of _ "s\<lparr>stable_indexes := six, delta_indexes := kx\<rparr>"] exI [of _ jx])
       (simp add: rebuild_indexes_for_def Let_def)
qed

subsection \<open>Stores with stale delta indexes\<close>

text \<open>\<open>mended Z s A B C\<close>: with the delta indexes of the relations in \<open>Z\<close> put right, the store represents the
  relations.\<close>

definition mended :: "string set \<Rightarrow> mem_store \<Rightarrow> relations \<Rightarrow> relations \<Rightarrow> relations \<Rightarrow> bool" where
  "mended Z s A B C \<longleftrightarrow>
     (\<exists>ix. agree_off Z ix (delta_indexes s) \<and> represents (s\<lparr>delta_indexes := ix\<rparr>) A B C)"

lemma mendedE:
  assumes "mended Z s A B C"
  obtains ix where "agree_off Z ix (delta_indexes s)" "represents (s\<lparr>delta_indexes := ix\<rparr>) A B C"
  using assms unfolding mended_def by blast

lemma mendedI: "represents s A B C \<Longrightarrow> mended Z s A B C"
  unfolding mended_def by (rule exI [of _ "delta_indexes s"]) simp

lemma mended_tables: "mended Z s A B C \<Longrightarrow> tables s A B C"
  by (auto simp: mended_def represents_def tables_def)

lemma mended_hits:
  assumes "mended Z s A B C"
  shows "index_hits (stable_indexes s) r c k = hits_from 0 (A r) c k"
    and "r \<notin> Z \<Longrightarrow> index_hits (delta_indexes s) r c k = hits_from 0 (B r) c k"
proof -
  obtain ix where ix: "agree_off Z ix (delta_indexes s)" "represents (s\<lparr>delta_indexes := ix\<rparr>) A B C"
    using assms by (rule mendedE)
  show "index_hits (stable_indexes s) r c k = hits_from 0 (A r) c k"
    using ix(2) by (simp add: represents_def)
  show "index_hits (delta_indexes s) r c k = hits_from 0 (B r) c k" if "r \<notin> Z"
  proof -
    have "index_hits (delta_indexes s) r c k = index_hits ix r c k"
      using ix(1) that by (simp add: index_hits_def agree_off_def)
    then show ?thesis using ix(2) by (simp add: represents_def)
  qed
qed

lemma mended_clean: "mended {} s A B C \<Longrightarrow> represents s A B C"
  by (simp add: represents_tables mended_tables mended_hits)

subsection \<open>Every step keeps the tables\<close>

lemma mended_insert:
  assumes "mended Z s A B C" "mem_insert r t s = (b, s')"
  shows "\<exists>C'. mended Z s' A B C'"
proof -
  obtain ix where ix: "agree_off Z ix (delta_indexes s)" "represents (s\<lparr>delta_indexes := ix\<rparr>) A B C"
    using assms(1) by (rule mendedE)
  have same: "mem_insert r t (s\<lparr>delta_indexes := ix\<rparr>) = (b, s'\<lparr>delta_indexes := ix\<rparr>)"
    "delta_indexes s' = delta_indexes s"
    using assms(2) by (auto simp: mem_insert_def Let_def split: if_splits option.splits)
  note ins = mem_insert_represents [OF ix(2), where r = r and t = t]
  have "\<exists>C'. represents (s'\<lparr>delta_indexes := ix\<rparr>) A B C'"
    using ins ix(2) unfolding same(1) by (auto split: if_splits)
  then show ?thesis
    using ix(1) same(2) unfolding mended_def by metis
qed

lemma mended_merge:
  assumes "mended Z s A B C"
  shows "\<exists>s'. mem_merge_deltas s = Inr s' \<and> represents s' (\<lambda>r. A r @ B r) C (\<lambda>r. [])"
proof -
  obtain ix where ix: "represents (s\<lparr>delta_indexes := ix\<rparr>) A B C"
    using assms by (rule mendedE)
  have "mem_merge_deltas (s\<lparr>delta_indexes := ix\<rparr>) = mem_merge_deltas s"
    by (simp add: mem_merge_deltas_def)
  then show ?thesis
    using mem_merge_represents [OF ix] by auto
qed

lemma mended_create: "mended Z s A B C \<Longrightarrow> mended Z (mem_create_relation r s) A B C"
  by (auto simp: mended_def represents_def mem_create_relation_def)

lemma mended_clear:
  assumes "mended Z s A B C"
  shows "mended (Z - {r}) (mem_clear r s) (A(r := [])) (B(r := [])) (C(r := []))"
proof -
  obtain ix where ix: "agree_off Z ix (delta_indexes s)" "represents (s\<lparr>delta_indexes := ix\<rparr>) A B C"
    using assms by (rule mendedE)
  have "mem_clear r (s\<lparr>delta_indexes := ix\<rparr>) = (mem_clear r s)\<lparr>delta_indexes := drop_index r ix\<rparr>"
    "delta_indexes (mem_clear r s) = drop_index r (delta_indexes s)"
    by (simp_all add: mem_clear_def)
  then show ?thesis
    using mem_clear_represents [OF ix(2), of r] agree_off_drop [OF ix(1), of r] unfolding mended_def by metis
qed

lemma mended_retract_other:
  assumes "mended Z s A B C" "t \<notin> set (B r)"
  shows "\<exists>b s' A' C'. mem_retract r t s = Inr (b, s') \<and> mended (if b then Z - {r} else Z) s' A' B C'"
proof -
  obtain ix where ix: "agree_off Z ix (delta_indexes s)" "represents (s\<lparr>delta_indexes := ix\<rparr>) A B C"
    using assms(1) by (rule mendedE)
  let ?t = "\<lambda>s. s\<lparr>stable := snd (remove_row r (flatten_tuple t) (stable s)),
      delta := snd (remove_row r (flatten_tuple t) (delta s)),
      next_delta := snd (remove_row r (flatten_tuple t) (next_delta s))\<rparr>"
  let ?b = "fst (remove_row r (flatten_tuple t) (stable s))"
  obtain s1 A' C' where s1: "mem_retract r t (s\<lparr>delta_indexes := ix\<rparr>) = Inr (t \<in> set (A r), s1)"
    "represents s1 A' B C'"
    using mem_retract_represents [OF ix(2) assms(2)] by blast
  have com: "?t (s\<lparr>delta_indexes := ix\<rparr>) = (?t s)\<lparr>delta_indexes := ix\<rparr>"
    by simp
  have ret: "mem_retract r t s' = (if fst (remove_row r (flatten_tuple t) (stable s'))
      then bindR (rebuild_indexes_for r (?t s')) (\<lambda>s''. Inr (True, s'')) else Inr (False, ?t s'))" for s'
    by (simp add: mem_retract_def Let_def case_prod_beta)
  show ?thesis
  proof (cases ?b)
    case True
    then have "rebuild_indexes_for r ((?t s)\<lparr>delta_indexes := ix\<rparr>) = Inr s1"
      using s1(1) unfolding ret com by (auto split: if_splits)
    then obtain s' jx where s': "rebuild_indexes_for r (?t s) = Inr s'" "s1 = s'\<lparr>delta_indexes := jx\<rparr>"
      "agree_off (Z - {r}) jx (delta_indexes s')"
      using rebuild_agree [of Z ix "?t s" r s1] ix(1) by auto
    then show ?thesis
      using True s1(2) unfolding ret mended_def by auto
  next
    case False
    then have "s1 = (?t s)\<lparr>delta_indexes := ix\<rparr>"
      using s1(1) unfolding ret com by (auto split: if_splits)
    then show ?thesis
      using False s1(2) ix(1) unfolding ret mended_def by auto
  qed
qed

lemma mended_retract_delta:
  assumes "mended Z s A B C" "t \<in> set (B r)"
  shows "\<exists>s' B'. mem_retract r t s = Inr (False, s') \<and> mended (insert r Z) s' A B' C"
proof -
  obtain ix where ix: "agree_off Z ix (delta_indexes s)" "represents (s\<lparr>delta_indexes := ix\<rparr>) A B C"
    using assms(1) by (rule mendedE)
  have "distinct (A r @ B r @ C r)"
    using mended_tables [OF assms(1)] by (simp add: tables_def)
  then have notin: "t \<notin> set (A r)" "t \<notin> set (C r)"
    using assms(2) by auto
  let ?B = "B(r := del_tuple t (B r))"
  obtain b s' where s': "mem_retract r t s = Inr (b, s')"
    "tables s' (A(r := del_tuple t (A r))) ?B (C(r := del_tuple t (C r)))"
    using tables_retract [OF mended_tables [OF assms(1)]] by blast
  have same: "A(r := del_tuple t (A r)) = A" "C(r := del_tuple t (C r)) = C"
  proof -
    have "position t (A r) = None" "position t (C r) = None"
      using notin by simp_all
    then show "A(r := del_tuple t (A r)) = A" "C(r := del_tuple t (C r)) = C"
      by (simp_all add: del_tuple_def fun_upd_idem del: position_None)
  qed
  have "\<not> fst (remove_row r (flatten_tuple t) (stable s))"
    using remove_row_represents(1) [of "stable s" r "A r" t] notin(1) mended_tables [OF assms(1)]
    by (simp add: tables_def)
  then have b: "\<not> b" "stable_indexes s' = stable_indexes s" "delta_indexes s' = delta_indexes s"
    using s'(1) by (auto simp: mem_retract_def Let_def case_prod_beta)
  let ?ix = "\<lambda>(q, c). if q = r then exact_index ?B (q, c) else ix (q, c)"
  have hits: "index_hits ?ix q c k = hits_from 0 (?B q) c k" for q c k
  proof (cases "q = r")
    case True
    then show ?thesis
      using exact_index_hits [of ?B q c k] by (simp add: index_hits_def)
  next
    case False
    then have "index_hits ?ix q c k = index_hits ix q c k"
      by (simp add: index_hits_def)
    then show ?thesis
      using ix(2) False by (simp add: represents_def)
  qed
  have "represents (s'\<lparr>delta_indexes := ?ix\<rparr>) A ?B C"
    unfolding represents_tables
    using s'(2) hits mended_hits(1) [OF assms(1)] b(2) unfolding same by (simp add: tables_def)
  moreover have "agree_off (insert r Z) ?ix (delta_indexes s')"
    using ix(1) b(3) by (simp add: agree_off_def)
  ultimately have "mended (insert r Z) s' A ?B C"
    unfolding mended_def by blast
  then show ?thesis
    using s'(1) b(1) by auto
qed

lemma mended_retract:
  assumes "mended Z s A B C"
  shows "\<exists>b s' A' B' C'. mem_retract r t s = Inr (b, s') \<and>
    mended (if b then Z - {r} else if flatten_tuple t \<in> set (rows (delta s) r) then insert r Z else Z) s' A' B' C'"
proof -
  have mem: "flatten_tuple t \<in> set (rows (delta s) r) \<longleftrightarrow> t \<in> set (B r)"
    using mended_tables [OF assms] by (auto simp: tables_def)
  show ?thesis
  proof (cases "t \<in> set (B r)")
    case True
    then show ?thesis
      using mended_retract_delta [OF assms True] mem by auto
  next
    case False
    obtain b s' A' C' where r: "mem_retract r t s = Inr (b, s')" "mended (if b then Z - {r} else Z) s' A' B C'"
      using mended_retract_other [OF assms False] by blast
    have "mended (if b then Z - {r} else if flatten_tuple t \<in> set (rows (delta s) r) then insert r Z else Z) s' A' B C'"
      using r(2) False mem by (simp split: if_splits)
    then show ?thesis
      using r(1) by blast
  qed
qed

lemma mended_add:
  assumes "mended Z s A B C" "accepts s r t" "t \<notin> set (B r) \<union> set (C r)" "add_fact r t s = Inr s'"
  shows "\<exists>A'. mended Z s' A' B C"
proof -
  obtain ix where ix: "agree_off Z ix (delta_indexes s)" "represents (s\<lparr>delta_indexes := ix\<rparr>) A B C"
    using assms(1) by (rule mendedE)
  have same: "add_fact r t (s\<lparr>delta_indexes := ix\<rparr>) = Inr (s'\<lparr>delta_indexes := ix\<rparr>)"
    "delta_indexes s' = delta_indexes s"
    using assms(4) by (auto simp: add_fact_def Let_def split: if_splits)
  have "\<exists>A'. represents (s'\<lparr>delta_indexes := ix\<rparr>) A' B C"
    using add_fact_represents [OF ix(2) _ assms(3)] assms(2) same(1) by (auto simp: accepts_def)
  then show ?thesis
    using ix(1) same(2) unfolding mended_def by metis
qed

text \<open>Coalescing reads the tables only, and rebuilds the indexes of the relation at its end.\<close>

lemma coalesce_agree:
  assumes "agree_off Z ix (delta_indexes s)" "mem_coalesce_temporal ord r (s\<lparr>delta_indexes := ix\<rparr>) = Inr s1"
    "mem_coalesce_temporal ord r s = Inr s'"
  shows "\<exists>jx. s1 = s'\<lparr>delta_indexes := jx\<rparr> \<and> agree_off Z jx (delta_indexes s')"
proof (cases "\<exists>n sts dts. arity s r = Some n \<and> \<not> n < 2 \<and> decode_rows n (rows (stable s) r) = Inr sts \<and>
    decode_rows n (rows (delta s) r) = Inr dts \<and> sts @ dts \<noteq> []")
  case True
  then obtain n sts dts where n: "arity s r = Some n" "\<not> n < 2" "decode_rows n (rows (stable s) r) = Inr sts"
    "decode_rows n (rows (delta s) r) = Inr dts" "sts @ dts \<noteq> []"
    by blast
  let ?s = "s\<lparr>stable := AList.update r (map flatten_tuple (coalesced_facts (ord (interval_groups (n - 2) (sts @ dts) [])))) (stable s),
      delta := AList.delete r (delta s), next_delta := AList.delete r (next_delta s)\<rparr>"
  have ne: "(sts = [] \<and> dts = []) = False"
    using n(5) by simp
  have com: "s\<lparr>delta_indexes := ix, stable := S, delta := D, next_delta := N\<rparr> =
      s\<lparr>stable := S, delta := D, next_delta := N, delta_indexes := ix\<rparr>" for S D N
    by simp
  have "rebuild_indexes_for r (?s\<lparr>delta_indexes := ix\<rparr>) = Inr s1" "rebuild_indexes_for r ?s = Inr s'"
    using assms(2,3) n(1-4) by (simp_all add: mem_coalesce_temporal_def Let_def ne com)
  then have "\<exists>jx. s1 = s'\<lparr>delta_indexes := jx\<rparr> \<and> agree_off (Z - {r}) jx (delta_indexes s')"
    using rebuild_agree [of Z ix ?s r s1] assms(1) by auto
  then show ?thesis
    by (auto simp: agree_off_def)
next
  case False
  then have "s1 = s\<lparr>delta_indexes := ix\<rparr>" "s' = s"
    using assms(2,3) by (auto simp: mem_coalesce_temporal_def Let_def split: option.splits if_splits)
  then show ?thesis
    using assms(1) by auto
qed

lemma coalesce_represents_any:
  assumes rep: "represents s A B C" and ord: "\<And>gs. mset (ord gs) = mset gs"
    and p: "all_proper (n_cols_of s r) (A r @ B r)"
  shows "\<exists>s' A' B' C'. mem_coalesce_temporal ord r s = Inr s' \<and> represents s' A' B' C'"
proof (cases "\<exists>n. arity s r = Some n \<and> 2 \<le> n \<and> A r @ B r \<noteq> []")
  case True
  then obtain n where n: "arity s r = Some n" "2 \<le> n" "A r @ B r \<noteq> []"
    by blast
  have "n_cols_of s r = n"
    using n(1) by (simp add: n_cols_of_def)
  then show ?thesis
    using coalesce_represents [OF rep n(1,2) ord _ n(3)] p by blast
next
  case False
  have rows: "rows (stable s) r = map flatten_tuple (A r)" "rows (delta s) r = map flatten_tuple (B r)"
    using rep by (simp_all add: represents_def)
  have "mem_coalesce_temporal ord r s = Inr s"
    using False by (auto simp: mem_coalesce_temporal_def rows split: option.splits)
  then show ?thesis
    using rep by blast
qed

lemma mended_coalesce:
  assumes "mended Z s A B C" "\<And>gs. mset (ord gs) = mset gs" "mem_scan s r = Inr ts"
    "all_proper (n_cols_of s r) ts" "mem_coalesce_temporal ord r s = Inr s'"
  shows "\<exists>A' B' C'. mended Z s' A' B' C'"
proof -
  obtain ix where ix: "agree_off Z ix (delta_indexes s)" "represents (s\<lparr>delta_indexes := ix\<rparr>) A B C"
    using assms(1) by (rule mendedE)
  have "ts = A r @ B r"
    using tables_scan [OF mended_tables [OF assms(1)], of r] assms(3) by simp
  then have "all_proper (n_cols_of (s\<lparr>delta_indexes := ix\<rparr>) r) (A r @ B r)"
    using assms(4) by (simp add: n_cols_of_def)
  from coalesce_represents_any [OF ix(2) assms(2) this]
  obtain s1 A' B' C' where s1: "mem_coalesce_temporal ord r (s\<lparr>delta_indexes := ix\<rparr>) = Inr s1" "represents s1 A' B' C'"
    by blast
  then show ?thesis
    using coalesce_agree [OF ix(1) s1(1) assms(5)] unfolding mended_def by blast
qed

lemma mem_step_mended:
  assumes "mem_step x y" "\<exists>A B C. mended (snd x) (fst x) A B C"
  shows "\<exists>A B C. mended (snd y) (fst y) A B C"
  using assms
proof (induction rule: mem_step.induct)
  case (step_insert r t s b s' Z)
  then obtain A B C where "mended Z s A B C"
    by auto
  from mended_insert [OF this step_insert(1)] show ?case
    by auto
next
  case (step_merge s s' Z)
  then obtain A B C where "mended Z s A B C"
    by auto
  from mended_merge [OF this] step_merge(1) show ?case
    using mendedI by fastforce
next
  case (step_create s Z r)
  then obtain A B C where "mended Z s A B C"
    by auto
  from mended_create [OF this] show ?case
    by auto
next
  case (step_clear s Z r)
  then obtain A B C where "mended Z s A B C"
    by auto
  from mended_clear [OF this, of r] show ?case
    unfolding fst_conv snd_conv by blast
next
  case (step_retract r t s b s' Z)
  then obtain A B C where "mended Z s A B C"
    by auto
  from mended_retract [OF this, of r t] obtain A' B' C' where
    "mended (if b then Z - {r} else if flatten_tuple t \<in> set (rows (delta s) r) then insert r Z else Z) s' A' B' C'"
    unfolding step_retract(1) by blast
  then show ?case
    unfolding fst_conv snd_conv by blast
next
  case (step_coalesce ord r s s' ts Z)
  then obtain A B C where "mended Z s A B C"
    by auto
  from mended_coalesce [OF this step_coalesce(2-4,1)] show ?case
    by auto
next
  case (step_add r t s s' Z)
  then obtain A B C where m: "mended Z s A B C"
    by auto
  have "t \<notin> set (B r) \<union> set (C r)"
    using mended_tables [OF m] step_add(3) by (auto simp: tables_def)
  from mended_add [OF m step_add(2) this step_add(1)] show ?case
    by auto
qed

lemma reachable_mended:
  assumes "mem_step\<^sup>*\<^sup>* (mem_new, {}) (s, Z)"
  obtains A B C where "mended Z s A B C"
proof -
  have "\<exists>A B C. mended (snd y) (fst y) A B C" if "mem_step\<^sup>*\<^sup>* (mem_new, {}) y" for y
    using that
  proof (induction rule: rtranclp_induct)
    case base
    show ?case
      using mendedI [OF inv_represents [OF mem_new_inv]] by auto
  next
    case (step y z)
    then show ?case
      by (blast intro: mem_step_mended)
  qed
  from this [OF assms] that show ?thesis
    by auto
qed

subsection \<open>Readers\<close>

lemma tables_unflatten:
  assumes "tables s A B C" "set us \<subseteq> set (A r) \<union> set (B r) \<union> set (C r)"
  shows "traverseR (\<lambda>cells. unflatten_tuple cells (n_cols_of s r)) (map flatten_tuple us) = Inr us"
  using assms(2)
proof (induction us)
  case (Cons u us)
  then have "arity s r = Some (length u)"
    using assms(1) unfolding tables_def by auto
  then show ?case
    using Cons by (simp add: n_cols_of_def)
qed simp

lemma tables_to_values:
  assumes "tables s A B C" "t \<in> set (A r) \<union> set (B r)"
  shows "to_values s r (flatten_tuple t) = Inr t"
proof -
  have ar: "arity s r = Some (length t)"
    using assms unfolding tables_def by blast
  then show ?thesis
    by (cases "length t = 0") (simp_all add: to_values_def Let_def n_cols_of_def)
qed

lemma tables_readers:
  assumes "tables s A B C"
  shows "mem_scan s r = Inr (A r @ B r)" "mem_scan_delta s r = Inr (B r)" "mem_scan_next_delta s r = Inr (C r)"
    "get_facts s r = Inr (A r @ B r)"
proof -
  note rows = assms [unfolded tables_def]
  show "mem_scan s r = Inr (A r @ B r)"
    by (rule tables_scan [OF assms])
  show "mem_scan_delta s r = Inr (B r)" "mem_scan_next_delta s r = Inr (C r)"
    using rows by (auto simp: mem_scan_delta_def mem_scan_next_delta_def intro!: tables_unflatten [OF assms])
  have "traverseR (to_values s r) (map flatten_tuple us) = Inr us" if "set us \<subseteq> set (A r) \<union> set (B r)" for us
    using that by (induction us) (simp_all add: tables_to_values [OF assms])
  from this [of "A r @ B r"] show "get_facts s r = Inr (A r @ B r)"
    using rows by (simp add: get_facts_def)
qed

lemma mended_index_readers:
  assumes "mended Z s A B C" "r \<notin> Z"
  shows "mem_scan_index s r c key = Inr (filter (hit c (value_to_index_key key)) (A r @ B r))"
    "mem_scan_delta_index s r c key = Inr (filter (hit c (value_to_index_key key)) (B r))"
proof -
  let ?k = "value_to_index_key key"
  note tab = mended_tables [OF assms(1)]
  have rows: "rows (stable s) r = map flatten_tuple (A r)" "rows (delta s) r = map flatten_tuple (B r)"
    using tab by (simp_all add: tables_def)
  have len: "length t = n_cols_of s r" if "t \<in> set (A r) \<union> set (B r)" for t
  proof -
    have "arity s r = Some (length t)"
      using tab that unfolding tables_def by blast
    then show ?thesis by (simp add: n_cols_of_def)
  qed
  have "lookup_rows (stable s) (stable_indexes s) (n_cols_of s r) r c ?k = Inr (filter (hit c ?k) (A r))"
    "lookup_rows (delta s) (delta_indexes s) (n_cols_of s r) r c ?k = Inr (filter (hit c ?k) (B r))"
    using len mended_hits [OF assms(1)] assms(2) by (auto intro!: lookup_rows_filter rows)
  then show "mem_scan_index s r c key = Inr (filter (hit c ?k) (A r @ B r))"
    "mem_scan_delta_index s r c key = Inr (filter (hit c ?k) (B r))"
    by (simp_all add: mem_scan_index_def mem_scan_delta_index_def Let_def)
qed

subsection \<open>Property\<close>

text \<open>C10: Take any store reached from the empty one by insertions, merges, creations, clears and
  retractions (of any tuple), by coalescing relations with proper intervals, and by \<open>add_fact\<close> of tuples
  that have the registered arity and are in neither delta.  Then no scan panics: \<open>scan\<close>, \<open>scan_delta\<close>,
  \<open>scan_next_delta\<close> and \<open>get_facts\<close> return the relation's tuples, of the registered arity and none twice; a
  retraction and a merge succeed, and the merged store satisfies the full invariant.  Index lookups
  return exactly the tuples of the scan whose column has the key's cell, except on a relation from whose
  delta a tuple was retracted since the last merge, clear or rebuild.  Not covered: \<open>add_fact\<close> of another
  arity or of a tuple still in a delta, and coalescing of intervals that end before they start.\<close>

theorem reachable_store_safe:
  assumes "mem_step\<^sup>*\<^sup>* (mem_new, {}) (s, Z)"
  shows "\<exists>ts ds ns. mem_scan s r = Inr (ts @ ds) \<and> get_facts s r = Inr (ts @ ds) \<and>
    mem_scan_delta s r = Inr ds \<and> mem_scan_next_delta s r = Inr ns \<and>
    distinct (ts @ ds @ ns) \<and> (\<forall>t\<in>set (ts @ ds @ ns). arity s r = Some (length t)) \<and>
    (\<forall>t. \<exists>b s'. mem_retract r t s = Inr (b, s')) \<and> (\<exists>s'. mem_merge_deltas s = Inr s' \<and> store_inv s') \<and>
    (r \<notin> Z \<longrightarrow> (\<forall>c key.
       mem_scan_index s r c key = Inr (filter (hit c (value_to_index_key key)) (ts @ ds)) \<and>
       mem_scan_delta_index s r c key = Inr (filter (hit c (value_to_index_key key)) ds)))"
proof -
  obtain A B C where m: "mended Z s A B C"
    using assms by (rule reachable_mended)
  note tab = mended_tables [OF m]
  have "distinct (A r @ B r @ C r)" "\<forall>t\<in>set (A r @ B r @ C r). arity s r = Some (length t)"
    using tab by (simp_all add: tables_def)
  moreover have "\<exists>b s'. mem_retract r t s = Inr (b, s')" for t
    using mended_retract [OF m] by blast
  moreover have "\<exists>s'. mem_merge_deltas s = Inr s' \<and> store_inv s'"
    using mended_merge [OF m] represents_inv by blast
  ultimately show ?thesis
    using tables_readers [OF tab, of r] mended_index_readers [OF m, of r]
    by (intro exI [of _ "A r"] exI [of _ "B r"] exI [of _ "C r"]) simp
qed

text \<open>Two insertions, a merge, the retraction of a delta tuple, and a second merge.\<close>

definition step_demo :: "mem_store list" where
  "step_demo =
     (let s1 = snd (mem_insert ''p'' [Number 1] mem_new); s2 = snd (mem_insert ''p'' [Number 2] s1);
          s3 = projr (mem_merge_deltas s2); s4 = snd (projr (mem_retract ''p'' [Number 1] s3))
      in [s1, s2, s3, s4, projr (mem_merge_deltas s4)])"

lemma step_demo_reachable: "mem_step\<^sup>*\<^sup>* (mem_new, {}) (step_demo ! 4, {})"
proof -
  let ?s1 = "snd (mem_insert ''p'' [Number 1] mem_new)" and ?s2 = "step_demo ! 1"
    and ?s3 = "step_demo ! 2" and ?s4 = "step_demo ! 3"
  have ok: "\<not> isl (mem_merge_deltas ?s2)" "\<not> isl (mem_retract ''p'' [Number 1] ?s3)" "\<not> isl (mem_merge_deltas ?s4)"
    "\<not> fst (projr (mem_retract ''p'' [Number 1] ?s3))" "flatten_tuple [Number 1] \<in> set (rows (delta ?s3) ''p'')"
    by code_simp+
  have list: "?s2 = snd (mem_insert ''p'' [Number 2] ?s1)" "?s3 = projr (mem_merge_deltas ?s2)"
    "?s4 = snd (projr (mem_retract ''p'' [Number 1] ?s3))" "step_demo ! 4 = projr (mem_merge_deltas ?s4)"
    by (simp_all add: step_demo_def Let_def)
  have ops: "mem_merge_deltas ?s2 = Inr ?s3" "mem_merge_deltas ?s4 = Inr (step_demo ! 4)"
    "mem_retract ''p'' [Number 1] ?s3 = Inr (False, ?s4)"
    using ok list by (metis sum.collapse(2) prod.collapse)+
  have 1: "mem_step (mem_new, {}) (?s1, {})"
    by (rule step_insert) (rule surjective_pairing)
  have 2: "mem_step (?s1, {}) (?s2, {})"
    unfolding list(1) by (rule step_insert) (rule surjective_pairing)
  have 3: "mem_step (?s2, {}) (?s3, {})"
    by (rule step_merge) (rule ops(1))
  have 4: "mem_step (?s3, {}) (?s4, {''p''})"
    using step_retract [OF ops(3), of "{}"] ok(5) by simp
  have 5: "mem_step (?s4, {''p''}) (step_demo ! 4, {})"
    by (rule step_merge) (rule ops(2))
  show ?thesis
    using 1 2 3 4 5 by (meson r_into_rtranclp rtranclp_trans)
qed

theorem reachable_store_safe_witness:
  "mem_scan (step_demo ! 4) ''p'' = Inr [[Number 2]] \<and>
   mem_scan_index (step_demo ! 4) ''p'' 0 (Number 2) =
     Inr (filter (hit 0 (value_to_index_key (Number 2))) [[Number 2]])"
proof -
  have scan: "mem_scan (step_demo ! 4) ''p'' = Inr [[Number 2]]"
    by code_simp
  obtain ts ds where "mem_scan (step_demo ! 4) ''p'' = Inr (ts @ ds)"
    and idx: "mem_scan_index (step_demo ! 4) ''p'' 0 (Number 2) =
      Inr (filter (hit 0 (value_to_index_key (Number 2))) (ts @ ds))"
    using reachable_store_safe [OF step_demo_reachable, of "''p''"] by blast
  then have "ts @ ds = [[Number 2]]"
    using scan by simp
  then show ?thesis
    using scan idx by metis
qed

end
