(* ===== verification/Plan_Model.thy ===== *)
theory Plan_Model
  imports Interp_Correct
begin

text \<open>
  The meaning of plans over sets of facts.  \<open>fires C F D e p f\<close>: reading the facts \<open>F\<close>, and \<open>D\<close> where it
  scans the delta, the plan \<open>p\<close> produces \<open>f\<close> from the environment \<open>e\<close>.  A store enters only through the
  set of facts it makes readable: the contract of the store is extended by what an index lookup
  returns, and under it the run of a plan inserts what the plan fires.
\<close>

subsection \<open>Firing\<close>

text \<open>An index compares the key cells of columns.\<close>

definition index_hit :: "nat \<Rightarrow> mvalue \<Rightarrow> tuple \<Rightarrow> bool" where
  "index_hit c k t \<longleftrightarrow> hit c (value_to_index_key k) t"

fun source_tuples :: "ir \<Rightarrow> fact set \<Rightarrow> fact set \<Rightarrow> env \<Rightarrow> data_source \<Rightarrow> tuple set" where
  "source_tuples m F D e (Scan rel vars) = {t. \<exists>nm. resolve_name m rel = Inr nm \<and> (nm, t) \<in> F}"
| "source_tuples m F D e (ScanDelta rel vars) = {t. \<exists>nm. resolve_name m rel = Inr nm \<and> (nm, t) \<in> D}"
| "source_tuples m F D e (IndexLookup rel c key vars) =
     {t. \<exists>nm k. resolve_name m rel = Inr nm \<and> eval_operand m e key = Inr k \<and> (nm, t) \<in> F \<and> index_hit c k t}"

text \<open>A negation reads the facts; any other condition holds whatever the store.\<close>

definition holds :: "'s interp_cfg \<Rightarrow> fact set \<Rightarrow> env \<Rightarrow> condition \<Rightarrow> bool" where
  "holds C F e c \<longleftrightarrow>
     (case c of
        Negation rel args \<Rightarrow>
          \<exists>nm. resolve_name (cf_ir C) rel = Inr nm \<and>
            (\<forall>t. (nm, t) \<in> F \<longrightarrow> length t = length args \<longrightarrow> matches_args (cf_ir C) e args t = Inr False)
      | _ \<Rightarrow> \<forall>s. eval_cond C s e c = Inr True)"

inductive fires :: "'s interp_cfg \<Rightarrow> fact set \<Rightarrow> fact set \<Rightarrow> env \<Rightarrow> op \<Rightarrow> fact \<Rightarrow> bool" for C F D where
  f_insert: "resolve_name (cf_ir C) rel = Inr nm \<Longrightarrow>
      traverseR (eval_operand (cf_ir C) e) args = Inr t \<Longrightarrow> fires C F D e (InsertOp rel args) (nm, t)"
| f_seq: "p \<in> set ps \<Longrightarrow> fires C F D e p f \<Longrightarrow> fires C F D e (Seq ps) f"
| f_iterate: "t \<in> source_tuples (cf_ir C) F D e source \<Longrightarrow> length t = length (source_vars source) \<Longrightarrow>
      fires C F D (e(source_vars source [\<mapsto>] t)) body f \<Longrightarrow> fires C F D e (Iterate source body) f"
| f_filter: "holds C F e c \<Longrightarrow> fires C F D e body f \<Longrightarrow> fires C F D e (FilterOp c body) f"
| f_let: "eval_expr C e x = Inr v \<Longrightarrow> fires C F D (e(var \<mapsto> v)) body f \<Longrightarrow> fires C F D e (LetOp var x body) f"
| f_join: "key_positions bmsg join_keys (source_vars build) = Inr bps \<Longrightarrow>
      key_positions pmsg join_keys (source_vars probe) = Inr pps \<Longrightarrow>
      bt \<in> source_tuples (cf_ir C) F D e build \<Longrightarrow> length bt = length (source_vars build) \<Longrightarrow>
      pt \<in> source_tuples (cf_ir C) F D e probe \<Longrightarrow> length pt = length (source_vars probe) \<Longrightarrow>
      proj bps bt = proj pps pt \<Longrightarrow>
      fires C F D (e(source_vars probe [\<mapsto>] pt, source_vars build [\<mapsto>] bt)) body f \<Longrightarrow>
      fires C F D e (HashJoin build probe join_keys body) f"
| f_field: "eval_operand (cf_ir C) e x = Inr sv \<Longrightarrow> resolve_name (cf_ir C) field = Inr fnm \<Longrightarrow>
      struct_field fnm sv = Some v \<Longrightarrow> fires C F D (e(var \<mapsto> v)) body f \<Longrightarrow>
      fires C F D e (MatchField x field var body) f"
| f_list: "eval_operand (cf_ir C) e x = Inr (Compound KList elems) \<Longrightarrow> v \<in> set elems \<Longrightarrow>
      fires C F D (e(var \<mapsto> v)) body f \<Longrightarrow> fires C F D e (IterateList x var body) f"

inductive_simps fires_simps:
  "fires C F D e Nop f"
  "fires C F D e (Seq ps) f"
  "fires C F D e (Iterate source body) f"
  "fires C F D e (FilterOp c body) f"
  "fires C F D e (InsertOp rel args) f"
  "fires C F D e (LetOp var x body) f"
  "fires C F D e (GroupBy rel vars keys aggs body) f"
  "fires C F D e (HashJoin build probe join_keys body) f"
  "fires C F D e (MatchField x field var body) f"
  "fires C F D e (IterateList x var body) f"

subsection \<open>Plain conditions\<close>

fun store_free :: "condition \<Rightarrow> bool" where
  "store_free (Negation _ _) = False"
| "store_free (NotC c) = store_free c"
| "store_free _ = True"

fun plain_cond :: "condition \<Rightarrow> bool" where
  "plain_cond (Negation _ _) = True"
| "plain_cond c = store_free c"

fun plain :: "op \<Rightarrow> bool" where
  "plain (Seq ps) = list_all plain ps"
| "plain (Iterate _ body) = plain body"
| "plain (FilterOp c body) = (plain_cond c \<and> plain body)"
| "plain (LetOp _ _ body) = plain body"
| "plain (HashJoin _ _ _ body) = plain body"
| "plain (MatchField _ _ _ body) = plain body"
| "plain (IterateList _ _ body) = plain body"
| "plain (GroupBy _ _ _ _ _) = False"
| "plain _ = True"

lemma eval_cond_free: "store_free c \<Longrightarrow> eval_cond C s e c = eval_cond C s' e c"
  by (induction c) simp_all

lemma no_match_True:
  "no_match m e args ts = Inr True \<longleftrightarrow>
     (\<forall>t\<in>set ts. length t = length args \<longrightarrow> matches_args m e args t = Inr False)"
  by (induction ts) auto

lemma holds_free:
  assumes "store_free c"
  shows "holds C F e c \<longleftrightarrow> eval_cond C s e c = Inr True"
proof -
  have "eval_cond C s' e c = eval_cond C s e c" for s'
    by (rule eval_cond_free [OF assms])
  moreover have "holds C F e c \<longleftrightarrow> (\<forall>s. eval_cond C s e c = Inr True)"
    unfolding holds_def using assms by (cases c) simp_all
  ultimately show ?thesis by metis
qed

subsection \<open>Stores with indexes\<close>

locale indexed_store = fact_store S inv old dl nx ar
  for S :: "'s store_ops" and inv :: "'s \<Rightarrow> bool" and old dl nx :: "'s \<Rightarrow> string \<Rightarrow> tuple list"
    and ar :: "'s \<Rightarrow> string \<Rightarrow> nat option" +
  assumes index_hits: "inv s \<Longrightarrow> so_scan_index S s r c k = Inr ts \<Longrightarrow>
      set ts = {t \<in> set (old s r @ dl s r). index_hit c k t}"
begin

definition fresh :: "'s \<Rightarrow> fact set" where
  "fresh s = {(r, t). t \<in> set (dl s r)}"

lemma source_tuples_iff:
  assumes "cf_store C = S" "inv s"
  shows "(\<exists>nm ts. collect_data_source C s e src = Inr (nm, ts) \<and> t \<in> set ts) \<longleftrightarrow>
    t \<in> source_tuples (cf_ir C) (readable s) (fresh s) e src"
proof (cases src)
  case (IndexLookup rel c key vars)
  have look: "\<exists>ts. so_scan_index S s nm c k = Inr ts \<and> set ts = {t \<in> set (old s nm @ dl s nm). index_hit c k t}" for nm k
    using scan_index [OF assms(2), of nm c k] index_hits [OF assms(2), of nm c k] by blast
  show ?thesis
    unfolding IndexLookup using assms(1) look by (fastforce simp: readable_def)
qed (use assms in \<open>auto simp: readable_def fresh_def scan scan_delta\<close>)

lemma eval_cond_holds:
  assumes "cf_store C = S" "inv s" "plain_cond c"
  shows "eval_cond C s e c = Inr True \<longleftrightarrow> holds C (readable s) e c"
proof (cases "store_free c")
  case True
  then show ?thesis
    using holds_free [of c C _ e s] by blast
next
  case False
  then obtain rel args where "c = Negation rel args"
    using assms(3) by (cases c) auto
  then show ?thesis
    using assms by (auto simp: holds_def scan no_match_True readable_def)
qed

lemma derives_fires:
  assumes "cf_store C = S" "inv s"
  shows "plain p \<Longrightarrow> derives C s e p f \<longleftrightarrow> fires C (readable s) (fresh s) e p f"
proof (induction p arbitrary: e)
  case (Seq ps)
  then show ?case by (auto simp: derives_simps fires_simps list_all_iff)
next
  case (Iterate src body)
  have "derives C s e (Iterate src body) f \<longleftrightarrow>
      (\<exists>t. (\<exists>nm ts. collect_data_source C s e src = Inr (nm, ts) \<and> t \<in> set ts) \<and>
         length t = length (source_vars src) \<and> derives C s (e(source_vars src [\<mapsto>] t)) body f)"
    unfolding derives_simps by blast
  then show ?case
    using Iterate by (simp add: source_tuples_iff [OF assms] fires_simps)
next
  case (FilterOp c body)
  then show ?case
    using eval_cond_holds [OF assms, of c e] by (simp add: derives_simps fires_simps)
next
  case (HashJoin b p ks body)
  have "derives C s e (HashJoin b p ks body) f \<longleftrightarrow>
      (\<exists>bmsg bps pmsg pps bt pt. key_positions bmsg ks (source_vars b) = Inr bps \<and>
         key_positions pmsg ks (source_vars p) = Inr pps \<and>
         (\<exists>nm ts. collect_data_source C s e b = Inr (nm, ts) \<and> bt \<in> set ts) \<and> length bt = length (source_vars b) \<and>
         (\<exists>nm ts. collect_data_source C s e p = Inr (nm, ts) \<and> pt \<in> set ts) \<and> length pt = length (source_vars p) \<and>
         proj bps bt = proj pps pt \<and>
         derives C s (e(source_vars p [\<mapsto>] pt, source_vars b [\<mapsto>] bt)) body f)"
    unfolding derives_simps by blast
  then show ?case
    unfolding source_tuples_iff [OF assms] using HashJoin by (simp add: fires_simps)
qed (simp_all add: derives_simps fires_simps)

end

interpretation ims: indexed_store mem_ops store_inv stable_facts delta_facts next_facts arity
  by unfold_locales (auto simp: mem_ops_def scan_index_facts index_hit_def)

end
