(* ===== verification/Seminaive.thy ===== *)
theory Seminaive
  imports Plan_Model
begin

text \<open>
  Delta plans.  \<open>delta_plan d p\<close> is the plan \<open>p\<close> with every scan of \<open>d\<close> turned into a scan of its delta, as
  the planner produces it for the delta predicate \<open>d\<close>.  The facts a plan fires from grown facts are those it
  fired before and those its delta plans fire, provided no relation that grows is scanned and read a
  second time in one plan.
\<close>

subsection \<open>What a plan reads and writes\<close>

fun source_rel :: "data_source \<Rightarrow> name_id" where
  "source_rel (Scan r _) = r"
| "source_rel (ScanDelta r _) = r"
| "source_rel (IndexLookup r _ _ _) = r"

fun is_scan :: "data_source \<Rightarrow> bool" where
  "is_scan (Scan _ _) = True"
| "is_scan _ = False"

text \<open>The sources of a plan, in order; relations it negates; relations it inserts into, with the
  number of columns.\<close>

fun sources :: "op \<Rightarrow> data_source list" where
  "sources (Seq ps) = concat (map sources ps)"
| "sources (Iterate src body) = src # sources body"
| "sources (FilterOp _ body) = sources body"
| "sources (LetOp _ _ body) = sources body"
| "sources (GroupBy r vs _ _ body) = Scan r vs # sources body"
| "sources (HashJoin b p _ body) = b # p # sources body"
| "sources (MatchField _ _ _ body) = sources body"
| "sources (IterateList _ _ body) = sources body"
| "sources _ = []"

fun negated_in :: "condition \<Rightarrow> name_id list" where
  "negated_in (Negation r _) = [r]"
| "negated_in (NotC c) = negated_in c"
| "negated_in _ = []"

fun negated :: "op \<Rightarrow> name_id list" where
  "negated (Seq ps) = concat (map negated ps)"
| "negated (Iterate _ body) = negated body"
| "negated (FilterOp c body) = negated_in c @ negated body"
| "negated (LetOp _ _ body) = negated body"
| "negated (GroupBy _ _ _ _ body) = negated body"
| "negated (HashJoin _ _ _ body) = negated body"
| "negated (MatchField _ _ _ body) = negated body"
| "negated (IterateList _ _ body) = negated body"
| "negated _ = []"

fun writes :: "op \<Rightarrow> (name_id \<times> nat) list" where
  "writes (Seq ps) = concat (map writes ps)"
| "writes (Iterate _ body) = writes body"
| "writes (FilterOp _ body) = writes body"
| "writes (InsertOp r args) = [(r, length args)]"
| "writes (LetOp _ _ body) = writes body"
| "writes (GroupBy _ _ _ _ body) = writes body"
| "writes (HashJoin _ _ _ body) = writes body"
| "writes (MatchField _ _ _ body) = writes body"
| "writes (IterateList _ _ body) = writes body"
| "writes Nop = []"

lemma fires_writes:
  "fires C F D e p (nm, t) \<Longrightarrow> \<exists>rel. (rel, length t) \<in> set (writes p) \<and> resolve_name (cf_ir C) rel = Inr nm"
proof (induction e p "(nm, t)" rule: fires.induct)
  case (f_insert rel e args)
  then show ?case using traverseR_length by fastforce
qed auto

subsection \<open>Monotonicity\<close>

text \<open>\<open>same_on m ps F G\<close>: the relations negated in the plans hold the same tuples in \<open>F\<close> and \<open>G\<close>.\<close>

definition same_on :: "ir \<Rightarrow> name_id set \<Rightarrow> fact set \<Rightarrow> fact set \<Rightarrow> bool" where
  "same_on m N F G \<longleftrightarrow> (\<forall>rel\<in>N. \<forall>nm t. resolve_name m rel = Inr nm \<longrightarrow> (nm, t) \<in> F \<longleftrightarrow> (nm, t) \<in> G)"

lemma same_on_refl [simp]: "same_on m N F F"
  by (simp add: same_on_def)

lemma same_on_sym: "same_on m N F G \<Longrightarrow> same_on m N G F"
  by (simp add: same_on_def)

lemma same_on_trans: "same_on m N F G \<Longrightarrow> same_on m N G H \<Longrightarrow> same_on m N F H"
  by (simp add: same_on_def)

lemma same_on_mono: "same_on m N F G \<Longrightarrow> M \<subseteq> N \<Longrightarrow> same_on m M F G"
  by (auto simp: same_on_def)

lemma holds_same:
  assumes "holds C F e c" "same_on (cf_ir C) (set (negated_in c)) F G" "plain_cond c"
  shows "holds C G e c"
proof (cases "store_free c")
  case True
  then show ?thesis using assms(1) holds_free [of c C F e] holds_free [of c C G e] by blast
next
  case False
  then obtain rel args where "c = Negation rel args"
    using assms(3) by (cases c) auto
  then show ?thesis
    using assms(1,2) by (auto simp: holds_def same_on_def)
qed

lemma source_tuples_mono:
  "F \<subseteq> G \<Longrightarrow> D \<subseteq> E \<Longrightarrow> source_tuples m F D e src \<subseteq> source_tuples m G E e src"
  by (cases src) auto

lemma fires_mono:
  assumes "fires C F D e p f" "F \<subseteq> G" "D \<subseteq> E" "same_on (cf_ir C) (set (negated p)) F G" "plain p"
  shows "fires C G E e p f"
  using assms
proof (induction rule: fires.induct)
  case (f_seq p ps e f)
  have "same_on (cf_ir C) (set (negated p)) F G"
    by (rule same_on_mono [OF f_seq.prems(3)]) (use f_seq.hyps(1) in auto)
  then show ?case
    using f_seq by (auto simp: list_all_iff intro!: fires.f_seq)
next
  case (f_iterate t e source body f)
  then show ?case
    by (auto intro!: fires.f_iterate intro: subsetD [OF source_tuples_mono])
next
  case (f_filter e c body f)
  have "same_on (cf_ir C) (set (negated_in c)) F G" "same_on (cf_ir C) (set (negated body)) F G"
    by (rule same_on_mono [OF f_filter.prems(3)]; simp)+
  then show ?case
    using f_filter holds_same [of C F e c G] by (auto intro!: fires.f_filter)
next
  case (f_join bmsg join_keys build bps pmsg probe pps bt e pt body f)
  then show ?case
    by (auto intro!: fires.f_join intro: subsetD [OF source_tuples_mono])
qed (auto intro: fires.intros)

subsection \<open>Delta plans\<close>

fun delta_source :: "name_id \<Rightarrow> data_source \<Rightarrow> data_source" where
  "delta_source d (Scan r vs) = (if r = d then ScanDelta r vs else Scan r vs)"
| "delta_source d src = src"

fun full_source :: "data_source \<Rightarrow> data_source" where
  "full_source (ScanDelta r vs) = Scan r vs"
| "full_source src = src"

fun map_sources :: "(data_source \<Rightarrow> data_source) \<Rightarrow> op \<Rightarrow> op" where
  "map_sources h (Seq ps) = Seq (map (map_sources h) ps)"
| "map_sources h (Iterate src body) = Iterate (h src) (map_sources h body)"
| "map_sources h (FilterOp c body) = FilterOp c (map_sources h body)"
| "map_sources h (LetOp v x body) = LetOp v x (map_sources h body)"
| "map_sources h (GroupBy r vs ks as body) = GroupBy r vs ks as (map_sources h body)"
| "map_sources h (HashJoin b p ks body) = HashJoin (h b) (h p) ks (map_sources h body)"
| "map_sources h (MatchField x f v body) = MatchField x f v (map_sources h body)"
| "map_sources h (IterateList x v body) = IterateList x v (map_sources h body)"
| "map_sources h p = p"

definition delta_plan :: "name_id \<Rightarrow> op \<Rightarrow> op" where
  "delta_plan d = map_sources (delta_source d)"

definition full_plan :: "op \<Rightarrow> op" where
  "full_plan = map_sources full_source"

text \<open>A full plan scans no delta.  A plan is linear in \<open>d\<close> when it reads \<open>d\<close> at most once, or only through
  indexes, which see old and new facts alike.\<close>

fun is_delta :: "data_source \<Rightarrow> bool" where
  "is_delta (ScanDelta _ _) = True"
| "is_delta _ = False"

definition is_full :: "op \<Rightarrow> bool" where
  "is_full p \<longleftrightarrow> list_all (\<lambda>src. \<not> is_delta src) (sources p)"

fun simple_plan :: "op \<Rightarrow> bool" where
  "simple_plan (Seq ps) = list_all simple_plan ps"
| "simple_plan (Iterate _ body) = simple_plan body"
| "simple_plan (FilterOp c body) = simple_plan body"
| "simple_plan (LetOp _ _ body) = simple_plan body"
| "simple_plan (MatchField _ _ _ body) = simple_plan body"
| "simple_plan (IterateList _ _ body) = simple_plan body"
| "simple_plan (HashJoin _ _ _ _) = False"
| "simple_plan (GroupBy _ _ _ _ _) = False"
| "simple_plan _ = True"

definition reads :: "op \<Rightarrow> name_id list" where
  "reads p = map source_rel (sources p)"

definition linear_in :: "name_id \<Rightarrow> op \<Rightarrow> bool" where
  "linear_in d p \<longleftrightarrow> count_list (reads p) d \<le> 1 \<or> list_all (\<lambda>src. is_scan src \<longrightarrow> source_rel src \<noteq> d) (sources p)"

lemma source_rel_maps [simp]: "source_rel (delta_source d src) = source_rel src" "source_rel (full_source src) = source_rel src"
  "source_vars (delta_source d src) = source_vars src" "source_vars (full_source src) = source_vars src"
  by (cases src; simp)+

lemma delta_source_id: "\<not> (is_scan src \<and> source_rel src = d) \<Longrightarrow> delta_source d src = src"
  by (cases src) auto

lemma map_sources_id: "\<forall>src\<in>set (sources p). h src = src \<Longrightarrow> map_sources h p = p"
proof (induction p)
  case (Seq ps)
  then show ?case by (auto intro!: map_idI)
qed auto

lemma delta_plan_id: "list_all (\<lambda>src. is_scan src \<longrightarrow> source_rel src \<noteq> d) (sources p) \<Longrightarrow> delta_plan d p = p"
  unfolding delta_plan_def by (rule map_sources_id) (auto simp: list_all_iff delta_source_id)

lemma delta_plan_simps [simp]:
  "delta_plan d Nop = Nop"
  "delta_plan d (Seq ps) = Seq (map (delta_plan d) ps)"
  "delta_plan d (Iterate src body) = Iterate (delta_source d src) (delta_plan d body)"
  "delta_plan d (FilterOp c body) = FilterOp c (delta_plan d body)"
  "delta_plan d (InsertOp r args) = InsertOp r args"
  "delta_plan d (LetOp v ex body) = LetOp v ex (delta_plan d body)"
  "delta_plan d (MatchField x f v body) = MatchField x f v (delta_plan d body)"
  "delta_plan d (IterateList x v body) = IterateList x v (delta_plan d body)"
  by (simp_all add: delta_plan_def)

lemma reads_simps [simp]:
  "reads (Iterate src body) = source_rel src # reads body"
  "reads (FilterOp c body) = reads body"
  "reads (LetOp v ex body) = reads body"
  "reads (MatchField x f v body) = reads body"
  "reads (IterateList x v body) = reads body"
  "reads (Seq ps) = concat (map reads ps)"
  by (simp_all add: reads_def [abs_def] map_concat comp_def)

text \<open>A full plan does not look at the delta; a full reading of a plan sees at least what it sees.\<close>

lemma source_tuples_full: "\<not> is_delta src \<Longrightarrow> source_tuples m F D e src = source_tuples m F D' e src"
  by (cases src) auto

lemma fires_full:
  assumes "fires C F D e p f" "is_full p"
  shows "fires C F D' e p f"
  using assms
proof (induction rule: fires.induct)
  case (f_seq p ps e f)
  then have "is_full p" by (auto simp: is_full_def list_all_iff)
  then show ?case using f_seq by (auto intro: fires.f_seq)
next
  case (f_iterate t e source body f)
  then show ?case
    using source_tuples_full [of source "cf_ir C" F D e D'] by (auto simp: is_full_def intro!: fires.f_iterate)
next
  case (f_join bmsg join_keys build bps pmsg probe pps bt e pt body f)
  then show ?case
    using source_tuples_full [of build "cf_ir C" F D e D'] source_tuples_full [of probe "cf_ir C" F D e D']
    by (auto simp: is_full_def intro!: fires.f_join)
qed (auto simp: is_full_def intro: fires.intros)

lemma full_source_tuples: "D \<subseteq> F \<Longrightarrow> source_tuples m F D e src \<subseteq> source_tuples m F F e (full_source src)"
  by (cases src) auto

lemma fires_full_plan:
  assumes "fires C F D e p f" "D \<subseteq> F"
  shows "fires C F F e (full_plan p) f"
  using assms unfolding full_plan_def
proof (induction rule: fires.induct)
  case (f_seq p ps e f)
  then show ?case
    by (auto intro: fires.f_seq [of "map_sources full_source p"])
next
  case (f_iterate t e source body f)
  then show ?case
    by (auto intro!: fires.f_iterate intro: subsetD [OF full_source_tuples])
next
  case (f_join bmsg join_keys build bps pmsg probe pps bt e pt body f)
  then show ?case
    by (auto intro!: fires.f_join intro: subsetD [OF full_source_tuples])
qed (auto intro: fires.intros)

subsection \<open>The semi-naive step\<close>

lemma linear_body: "linear_in d (Iterate src body) \<Longrightarrow> linear_in d body"
  by (auto simp: linear_in_def split: if_splits)

lemma count_list_concat: "x \<in> set xs \<Longrightarrow> count_list (h x) d \<le> count_list (concat (map h xs)) d"
  by (induction xs) auto

lemma linear_member: "p \<in> set ps \<Longrightarrow> linear_in d (Seq ps) \<Longrightarrow> linear_in d p"
  using count_list_concat [of p ps reads d] by (auto simp: linear_in_def list_all_iff)

lemma linear_source:
  "linear_in d (Iterate src body) \<Longrightarrow> source_rel src = d \<Longrightarrow> delta_plan d body = body"
proof -
  assume lin: "linear_in d (Iterate src body)" and d: "source_rel src = d"
  have "d \<notin> set (reads body) \<or> list_all (\<lambda>src. is_scan src \<longrightarrow> source_rel src \<noteq> d) (sources body)"
    using lin d by (auto simp: linear_in_def count_list_0_iff)
  then show ?thesis
    by (intro delta_plan_id) (auto simp: reads_def list_all_iff)
qed

lemma linear_twice:
  "linear_in d (Iterate src body) \<Longrightarrow> d \<in> set (reads body) \<Longrightarrow> source_rel src = d \<Longrightarrow> delta_source d src = src"
proof -
  assume lin: "linear_in d (Iterate src body)" and d: "d \<in> set (reads body)" "source_rel src = d"
  have "count_list (reads body) d \<noteq> 0"
    using d(1) by (simp add: count_list_0_iff)
  then have "\<not> is_scan src"
    using lin d(2) by (simp add: linear_in_def)
  then show ?thesis
    by (simp add: delta_source_id)
qed

lemma delta_source_tuples:
  assumes "source_rel src \<noteq> d \<or> delta_source d src = src" "\<not> is_delta src"
  shows "source_tuples m F F e src = source_tuples m F D e (delta_source d src)"
proof -
  have "delta_source d src = src"
    using assms(1) delta_source_id by blast
  then show ?thesis
    using source_tuples_full [OF assms(2)] by simp
qed

text \<open>A tuple read through a source is an old one, or a new one of a relation that grew.\<close>

lemma source_old_or_new:
  assumes "t \<in> source_tuples m F F e src" "\<not> is_delta src" "F \<subseteq> G \<union> D"
    and grown: "\<forall>nm t. (nm, t) \<in> D \<longrightarrow> (\<exists>d\<in>W. resolve_name m d = Inr nm)"
    and uniq: "\<forall>j k nm. resolve_name m j = Inr nm \<longrightarrow> resolve_name m k = Inr nm \<longrightarrow> j = k"
  shows "t \<in> source_tuples m G G e src \<or>
    source_rel src \<in> W \<and> t \<in> source_tuples m F D e (delta_source (source_rel src) src)"
proof -
  obtain nm where nm: "resolve_name m (source_rel src) = Inr nm" "(nm, t) \<in> F"
    using assms(1,2) by (cases src) auto
  show ?thesis
  proof (cases "(nm, t) \<in> G")
    case True
    then show ?thesis
      using assms(1,2) nm by (cases src) auto
  next
    case False
    then have "(nm, t) \<in> D"
      using assms(3) nm(2) by blast
    then have "source_rel src \<in> W"
      using grown uniq nm(1) by blast
    then show ?thesis
      using assms(1,2) nm \<open>(nm, t) \<in> D\<close> by (cases src) auto
  qed
qed

lemma fires_split:
  assumes "F \<subseteq> G \<union> D" and grown: "\<forall>nm t. (nm, t) \<in> D \<longrightarrow> (\<exists>d\<in>W. resolve_name (cf_ir C) d = Inr nm)"
    and uniq: "\<forall>j k nm. resolve_name (cf_ir C) j = Inr nm \<longrightarrow> resolve_name (cf_ir C) k = Inr nm \<longrightarrow> j = k"
    and "fires C F F e p f" "is_full p" "simple_plan p" "plain p"
    and "same_on (cf_ir C) (set (negated p)) F G" "\<forall>d\<in>W. linear_in d p"
  shows "fires C G G e p f \<or> (\<exists>d\<in>W. d \<in> set (reads p) \<and> fires C F D e (delta_plan d p) f)"
  using assms(4-)
proof (induction rule: fires.induct)
  case (f_iterate t e src body f)
  have nd: "\<not> is_delta src" and full: "is_full body" and lin: "\<forall>d\<in>W. linear_in d body"
    using f_iterate.prems linear_body by (auto simp: is_full_def)
  note IH = f_iterate.IH [OF full _ _ _ lin]
  have tF: "t \<in> source_tuples (cf_ir C) F D e src"
    using f_iterate.hyps(1) source_tuples_full [OF nd] by blast
  consider (new) "source_rel src \<in> W" "t \<in> source_tuples (cf_ir C) F D e (delta_source (source_rel src) src)"
    | (old) "t \<in> source_tuples (cf_ir C) G G e src"
    using source_old_or_new [OF f_iterate.hyps(1) nd assms(1) grown uniq] by blast
  then show ?case
  proof cases
    case new
    have "fires C F D (e(source_vars src [\<mapsto>] t)) (delta_plan (source_rel src) body) f"
      using fires_full [OF f_iterate.hyps(3) full] linear_source f_iterate.prems(5) new(1) by metis
    then have "fires C F D e (delta_plan (source_rel src) (Iterate src body)) f"
      using new(2) f_iterate.hyps(2) by (auto intro!: fires.f_iterate)
    then show ?thesis
      using new(1) by auto
  next
    case old
    then show ?thesis
    proof (cases "fires C G G (e(source_vars src [\<mapsto>] t)) body f")
      case False
      then obtain d where d: "d \<in> W" "d \<in> set (reads body)"
        "fires C F D (e(source_vars src [\<mapsto>] t)) (delta_plan d body) f"
        using IH f_iterate.prems by auto
      have "delta_source d src = src"
        using linear_twice [of d src body] delta_source_id [of src d] f_iterate.prems(5) d(1,2) by blast
      then have "fires C F D e (delta_plan d (Iterate src body)) f"
        using d(3) tF f_iterate.hyps(2) by (auto intro!: fires.f_iterate)
      then show ?thesis using d(1,2) by auto
    qed (use f_iterate.hyps(2) in \<open>auto intro: fires.f_iterate\<close>)
  qed
next
  case (f_seq p ps e f)
  have p: "is_full p" "simple_plan p" "plain p" "\<forall>d\<in>W. linear_in d p"
    using f_seq.prems linear_member [OF f_seq.hyps(1)] f_seq.hyps(1) by (auto simp: is_full_def list_all_iff)
  have "same_on (cf_ir C) (set (negated p)) F G"
    by (rule same_on_mono [OF f_seq.prems(4)]) (use f_seq.hyps(1) in auto)
  then have "fires C G G e p f \<or> (\<exists>d\<in>W. d \<in> set (reads p) \<and> fires C F D e (delta_plan d p) f)"
    using f_seq.IH p by blast
  moreover have "fires C F D e (delta_plan d (Seq ps)) f" if "fires C F D e (delta_plan d p) f" for d
    using that f_seq.hyps(1) by (auto intro: fires.f_seq [of "delta_plan d p"])
  moreover have "set (reads p) \<subseteq> set (reads (Seq ps))"
    using f_seq.hyps(1) by auto
  ultimately show ?case
    using fires.f_seq [OF f_seq.hyps(1)] by blast
next
  case (f_filter e c body f)
  have same: "same_on (cf_ir C) (set (negated_in c)) F G" "same_on (cf_ir C) (set (negated body)) F G"
    by (rule same_on_mono [OF f_filter.prems(4)]; simp)+
  have "holds C G e c"
    using holds_same [OF f_filter.hyps(1) same(1)] f_filter.prems(3) by simp
  moreover have "fires C G G e body f \<or> (\<exists>d\<in>W. d \<in> set (reads body) \<and> fires C F D e (delta_plan d body) f)"
    using f_filter.IH same(2) f_filter.prems by (auto simp: is_full_def linear_in_def)
  ultimately show ?case
    using f_filter.hyps(1) by (auto intro: fires.f_filter)
qed (auto simp: is_full_def linear_in_def intro: fires.intros)

end
