(* ===== verification/Driver_Model.thy ===== *)
theory Driver_Model
  imports Driver Seminaive
begin

text \<open>
  What the driver computes.  The model of a stratum is the least set of facts that contains the given
  ones and is closed under the plans of its rules, negation being read in the given facts; the model of
  a program is built stratum by stratum.  Inside the contract of the store, a run of the strata that
  returns has stored exactly that model, and it returns whenever finitely many facts can be derived.
\<close>

subsection \<open>The model of a stratum\<close>

definition consequences :: "'s interp_cfg \<Rightarrow> op list \<Rightarrow> fact set \<Rightarrow> fact set \<Rightarrow> fact set" where
  "consequences C ops F D = {f. \<exists>p\<in>set ops. fires C F D Map.empty p f}"

definition negated_of :: "op list \<Rightarrow> name_id set" where
  "negated_of ops = (\<Union>p\<in>set ops. set (negated p))"

definition written :: "op list \<Rightarrow> name_id set" where
  "written ops = (\<Union>p\<in>set ops. set (map fst (writes p)))"

definition least_model :: "'s interp_cfg \<Rightarrow> op list \<Rightarrow> fact set \<Rightarrow> fact set \<Rightarrow> bool" where
  "least_model C ops F G \<longleftrightarrow>
     F \<subseteq> G \<and> same_on (cf_ir C) (negated_of ops) F G \<and> consequences C ops G G \<subseteq> G \<and>
     (\<forall>H. F \<subseteq> H \<longrightarrow> same_on (cf_ir C) (negated_of ops) F H \<longrightarrow> consequences C ops H H \<subseteq> H \<longrightarrow> G \<subseteq> H)"

fun stratum_ops :: "stratum_plan option \<Rightarrow> op list" where
  "stratum_ops None = []"
| "stratum_ops (Some (NonRecursive ops)) = ops"
| "stratum_ops (Some (Recursive initial_ops _)) = initial_ops"

fun strata_model :: "'s interp_cfg \<Rightarrow> stratum_plan option list \<Rightarrow> fact set \<Rightarrow> fact set \<Rightarrow> bool" where
  "strata_model C [] F G \<longleftrightarrow> G = F"
| "strata_model C (plan # plans) F G \<longleftrightarrow> (\<exists>H. least_model C (stratum_ops plan) F H \<and> strata_model C plans H G)"

lemma least_model_unique: "least_model C ops F G \<Longrightarrow> least_model C ops F H \<Longrightarrow> G = H"
  unfolding least_model_def by (meson subset_antisym)

lemma strata_model_unique: "strata_model C plans F G \<Longrightarrow> strata_model C plans F H \<Longrightarrow> G = H"
proof (induction plans arbitrary: F)
  case (Cons plan plans)
  then show ?case using least_model_unique by (metis strata_model.simps(2))
qed simp

subsection \<open>Strata the driver evaluates\<close>

text \<open>The relations a stratum writes are not negated in it; a recursive stratum reads each of them at most
  once per plan (or through indexes only) and has the delta plans for those it reads.\<close>

definition full_ok :: "name_id set \<Rightarrow> op \<Rightarrow> bool" where
  "full_ok W p \<longleftrightarrow> scoped {} p \<and> plain p \<and> is_full p \<and> list_all (\<lambda>r. r \<notin> W) (negated p)"

definition initial_ok :: "name_id set \<Rightarrow> op list \<Rightarrow> op \<Rightarrow> bool" where
  "initial_ok W delta_plans p \<longleftrightarrow> simple_plan p \<and> (\<forall>d\<in>W. linear_in d p) \<and>
     list_all (\<lambda>d. d \<in> W \<longrightarrow> delta_plan d p \<in> set delta_plans) (reads p)"

fun stratum_ok :: "stratum_plan option \<Rightarrow> bool" where
  "stratum_ok None = True"
| "stratum_ok (Some (NonRecursive ops)) =
     list_all (\<lambda>p. full_ok (written ops) p \<and> list_all (\<lambda>r. r \<notin> written ops) (reads p)) ops"
| "stratum_ok (Some (Recursive initial_ops delta_plans)) =
     (list_all (\<lambda>p. full_ok (written initial_ops) p \<and> initial_ok (written initial_ops) delta_plans p) initial_ops \<and>
      list_all (\<lambda>p. scoped {} p \<and> plain p \<and> full_plan p \<in> set initial_ops) delta_plans)"

text \<open>Every relation has one arity.\<close>

definition fits :: "ir \<Rightarrow> (string \<Rightarrow> nat) \<Rightarrow> op list \<Rightarrow> bool" where
  "fits m A ops \<longleftrightarrow> (\<forall>p\<in>set ops. \<forall>(rel, n)\<in>set (writes p). \<forall>nm. resolve_name m rel = Inr nm \<longrightarrow> A nm = n)"

lemma writes_map_sources [simp]: "writes (map_sources h p) = writes p"
proof (induction p)
  case (Seq ps)
  then show ?case by (auto intro!: arg_cong [of _ _ concat])
qed simp_all

lemma negated_map_sources [simp]: "negated (map_sources h p) = negated p"
proof (induction p)
  case (Seq ps)
  then show ?case by (auto intro!: arg_cong [of _ _ concat])
qed simp_all

lemma fires_fits:
  "fits m A ops \<Longrightarrow> p \<in> set ops \<Longrightarrow> cf_ir C = m \<Longrightarrow> fires C F D e p (r, t) \<Longrightarrow> length t = A r"
  using fires_writes [of C F D e p r t] unfolding fits_def by fastforce

lemma fires_written:
  "p \<in> set ops \<Longrightarrow> fires C F D e p (nm, t) \<Longrightarrow> \<exists>d\<in>written ops. resolve_name (cf_ir C) d = Inr nm"
  using fires_writes [of C F D e p nm t] by (force simp: written_def)

text \<open>A plan that neither reads nor negates what changes fires the same facts.\<close>

lemma source_tuples_same:
  "same_on m {source_rel src} F G \<Longrightarrow> \<not> is_delta src \<Longrightarrow> source_tuples m F F e src = source_tuples m G G e src"
  by (cases src) (auto simp: same_on_def)

lemma fires_same:
  assumes "fires C F F e p f" "same_on (cf_ir C) (set (reads p) \<union> set (negated p)) F G" "is_full p" "plain p"
  shows "fires C G G e p f"
  using assms
proof (induction rule: fires.induct)
  case (f_seq p ps e f)
  have "same_on (cf_ir C) (set (reads p) \<union> set (negated p)) F G"
    by (rule same_on_mono [OF f_seq.prems(1)]) (use f_seq.hyps(1) in auto)
  then show ?case
    using f_seq by (intro fires.f_seq [OF f_seq.hyps(1)]) (auto simp: is_full_def list_all_iff)
next
  case (f_iterate t e src body f)
  have same: "same_on (cf_ir C) {source_rel src} F G" "same_on (cf_ir C) (set (reads body) \<union> set (negated body)) F G"
    by (rule same_on_mono [OF f_iterate.prems(1)]; auto)+
  show ?case
    using f_iterate source_tuples_same [OF same(1)] same(2)
    by (intro fires.f_iterate [of t]) (auto simp: is_full_def)
next
  case (f_filter e c body f)
  have same: "same_on (cf_ir C) (set (negated_in c)) F G" "same_on (cf_ir C) (set (reads body) \<union> set (negated body)) F G"
    by (rule same_on_mono [OF f_filter.prems(1)]; auto)+
  show ?case
    using f_filter holds_same [OF _ same(1)] same(2) by (intro fires.f_filter) (auto simp: is_full_def)
next
  case (f_join bmsg join_keys build bps pmsg probe pps bt e pt body f)
  have same: "same_on (cf_ir C) {source_rel build} F G" "same_on (cf_ir C) {source_rel probe} F G"
    "same_on (cf_ir C) (set (reads body) \<union> set (negated body)) F G"
    by (rule same_on_mono [OF f_join.prems(1)]; auto simp: reads_def)+
  show ?case
    using f_join source_tuples_same [OF same(1)] source_tuples_same [OF same(2)] same(3)
    by (intro fires.f_join [where bps = bps and pps = pps and bt = bt and pt = pt]) (auto simp: is_full_def)
qed (auto simp: is_full_def intro: fires.intros)

text \<open>\<open>between C ops F G\<close>: \<open>G\<close> lies between \<open>F\<close> and the model of the stratum.\<close>

definition between :: "'s interp_cfg \<Rightarrow> op list \<Rightarrow> fact set \<Rightarrow> fact set \<Rightarrow> bool" where
  "between C ops F G \<longleftrightarrow> F \<subseteq> G \<and> same_on (cf_ir C) (negated_of ops) F G \<and>
     (\<forall>H. F \<subseteq> H \<longrightarrow> same_on (cf_ir C) (negated_of ops) F H \<longrightarrow> consequences C ops H H \<subseteq> H \<longrightarrow> G \<subseteq> H)"

subsection \<open>Rounds\<close>

context indexed_store
begin

definition arities :: "(string \<Rightarrow> nat) \<Rightarrow> 's \<Rightarrow> bool" where
  "arities A s \<longleftrightarrow> (\<forall>r n. ar s r = Some n \<longrightarrow> n = A r)"

definition settled :: "'s \<Rightarrow> fact set" where
  "settled s = {(r, t). t \<in> set (old s r)}"

text \<open>Between rounds nothing is pending: all facts are readable.\<close>

definition ready :: "(string \<Rightarrow> nat) \<Rightarrow> 's \<Rightarrow> bool" where
  "ready A s \<longleftrightarrow> inv s \<and> arities A s \<and> (\<forall>r. nx s r = [])"

lemma ready_readable: "ready A s \<Longrightarrow> readable s = facts s" "ready A s \<Longrightarrow> inv s"
  by (simp_all add: ready_def readable_def facts_def)

lemma facts_split: "ready A s \<Longrightarrow> facts s = settled s \<union> fresh s"
  by (auto simp: ready_def facts_def settled_def fresh_def)

lemma execute_exact_base:
  assumes "cf_store C = S" "base s (st_store st)" "scoped {} p"
  shows "exact {} Map.empty {f. derives C s Map.empty p f} st (execute C p st)"
proof -
  have "exact {} Map.empty {f. derives C s Map.empty p f} (set_env Map.empty st)
      (exec_op C p (set_env Map.empty st))"
    by (rule plan_exactD [OF exec_exact [OF assms(1)] _ _ assms(3)])
       (use assms(2) in \<open>simp_all add: set_env_def\<close>)
  then show ?thesis
    unfolding execute_def by (rule exact_start) (simp add: set_env_def)
qed

lemma round:
  assumes C: "cf_store C = S" and rd: "ready A (st_store st)" and fit: "fits (cf_ir C) A ops"
    and ok: "\<forall>p\<in>set ops. scoped {} p \<and> plain p"
    and run: "for_each (execute C) ops st = (Inr n, st')"
  shows "\<exists>N. n = length N \<and> grows (st_store st) N (st_store st') \<and> arities A (st_store st') \<and>
    set N = consequences C ops (facts (st_store st)) (fresh (st_store st)) - facts (st_store st)"
proof -
  let ?s = "st_store st" and ?T = "consequences C ops (facts (st_store st)) (fresh (st_store st))"
  have T: "(\<Union>p\<in>set ops. {f. derives C ?s Map.empty p f}) = ?T"
    using ok derives_fires [OF C ready_readable(2) [OF rd]] ready_readable(1) [OF rd]
    by (auto simp: consequences_def)
  have "exact {} Map.empty (\<Union>p\<in>set ops. {f. derives C ?s Map.empty p f}) st (for_each (execute C) ops st)"
    by (rule for_each_exact [OF base_refl]) (use ready_readable(2) [OF rd] ok C execute_exact_base in \<open>auto simp: agree_def\<close>)
  then obtain N where N: "n = length N" "grows ?s N (st_store st')" "set N \<subseteq> ?T"
    "\<forall>f\<in>?T. stored (st_store st') f"
    unfolding T run exact_def by auto
  have len: "length t = A r" if "(r, t) \<in> ?T" for r t
    using that fires_fits [OF fit _ refl] by (auto simp: consequences_def)
  have ar: "arities A (st_store st')"
    unfolding arities_def
  proof (intro allI impI)
    fix r n
    assume "ar (st_store st') r = Some n"
    then show "n = A r"
      using grows_arity [OF N(2), of r n] rd N(3) len by (auto simp: ready_def arities_def)
  qed
  have "f \<in> facts ?s \<union> set N" if f: "f \<in> ?T" for f
  proof -
    have "stored (st_store st') f" "length (snd f) = A (fst f)"
      using N(4) f len [of "fst f" "snd f"] by auto
    then show ?thesis
      using ar grows_facts [OF N(2)] by (auto simp: stored_def arities_def)
  qed
  moreover have "set N \<inter> facts ?s = {}"
    using N(2) by (auto simp: grows_def)
  ultimately have "set N = ?T - facts ?s"
    using N(3) by blast
  then show ?thesis
    using N(1,2) ar by blast
qed

lemma merge_ready:
  assumes "inv s" "arities A s"
  shows "\<exists>s'. so_merge_deltas S s = Inr s' \<and> ready A s' \<and> facts s' = facts s \<and> settled s' = readable s"
proof -
  obtain s' where s': "so_merge_deltas S s = Inr s'" "inv s'" "old s' = (\<lambda>r. old s r @ dl s r)"
    "dl s' = nx s" "nx s' = (\<lambda>r. [])" "ar s' = ar s"
    using merge [OF assms(1)] by blast
  then show ?thesis
    using assms(2) by (intro exI [of _ s']) (auto simp: ready_def arities_def facts_def settled_def readable_def)
qed

text \<open>A round followed by a merge: what was readable is settled, what the plans fire is added.\<close>

lemma round_merge:
  assumes "cf_store C = S" "ready A (st_store st)" "fits (cf_ir C) A ops"
    and "\<forall>p\<in>set ops. scoped {} p \<and> plain p"
    and run: "for_each (execute C) ops st = (Inr n, st1)"
    and mrg: "on_store (so_merge_deltas S) st1 = Inr st2"
  shows "ready A (st_store st2)" "settled (st_store st2) = facts (st_store st)"
    "facts (st_store st2) = facts (st_store st) \<union> consequences C ops (facts (st_store st)) (fresh (st_store st))"
    "fresh (st_store st2) \<subseteq> consequences C ops (facts (st_store st)) (fresh (st_store st))"
    "n = 0 \<Longrightarrow> consequences C ops (facts (st_store st)) (fresh (st_store st)) \<subseteq> facts (st_store st)"
proof -
  let ?s = "st_store st" and ?T = "consequences C ops (facts (st_store st)) (fresh (st_store st))"
  obtain N where N: "n = length N" "grows ?s N (st_store st1)" "arities A (st_store st1)" "set N = ?T - facts ?s"
    using round [OF assms(1-4) run] by blast
  obtain s' where s': "so_merge_deltas S (st_store st1) = Inr s'" "ready A s'" "facts s' = facts (st_store st1)"
    "settled s' = readable (st_store st1)"
    using merge_ready [OF grows_inv [OF N(2)] N(3)] by blast
  have st2: "st_store st2 = s'"
    using mrg s'(1) by (auto simp: on_store_def)
  have rd: "readable (st_store st1) = facts ?s"
    using N(2) ready_readable(1) [OF assms(2)] by (auto simp: grows_def readable_def)
  have fr: "facts s' = facts ?s \<union> ?T"
    using s'(3) grows_facts [OF N(2)] N(4) by auto
  have "fresh s' \<inter> settled s' = {}"
    using facts_distinct [OF ready_readable(2) [OF s'(2)]] by (auto simp: fresh_def settled_def)
  then have "fresh s' \<subseteq> ?T"
    using fr facts_split [OF s'(2)] s'(4) rd by auto
  then show "ready A (st_store st2)" "settled (st_store st2) = facts ?s" "facts (st_store st2) = facts ?s \<union> ?T"
    "fresh (st_store st2) \<subseteq> ?T"
    using s'(2,4) rd fr st2 by simp_all
  show "n = 0 \<Longrightarrow> ?T \<subseteq> facts ?s"
    using N(1,4) by simp
qed

subsection \<open>The loop\<close>

text \<open>What holds before every round of a recursive stratum that started from \<open>F\<close>: the facts lie between \<open>F\<close>
  and the model, what the plans fire from the settled facts is there, and only relations the stratum
  writes have grown.\<close>

definition loop_inv :: "'s interp_cfg \<Rightarrow> (string \<Rightarrow> nat) \<Rightarrow> op list \<Rightarrow> fact set \<Rightarrow> 's \<Rightarrow> bool" where
  "loop_inv C A ops F s \<longleftrightarrow> ready A s \<and> between C ops F (facts s) \<and>
     consequences C ops (settled s) (settled s) \<subseteq> facts s \<and>
     (\<forall>nm t. (nm, t) \<in> fresh s \<longrightarrow> (\<exists>d\<in>written ops. resolve_name (cf_ir C) d = Inr nm))"

end

text \<open>Facts of relations that are written leave the negated relations alone.\<close>

lemma same_on_grown:
  assumes "\<forall>nm t. (nm, t) \<in> D \<longrightarrow> (\<exists>d\<in>W. resolve_name m d = Inr nm)" "N \<inter> W = {}" "interner_inv (name_store m)"
  shows "same_on m N F (F \<union> D)"
proof -
  have "j = k" if "resolve_name m j = Inr nm" "resolve_name m k = Inr nm" for j k nm
    using si.key_unique [OF assms(3)] that by (auto simp: resolve_name_def)
  then show ?thesis
    unfolding same_on_def using assms(1,2) by blast
qed

lemma consequences_written:
  "(nm, t) \<in> consequences C ops F D \<Longrightarrow> \<exists>d\<in>written ops. resolve_name (cf_ir C) d = Inr nm"
  using fires_written unfolding consequences_def by blast

lemma consequences_mono:
  assumes "F \<subseteq> G" "D \<subseteq> E" "same_on (cf_ir C) (negated_of ops) F G" "\<forall>p\<in>set ops. plain p"
  shows "consequences C ops F D \<subseteq> consequences C ops G E"
proof
  fix f
  assume "f \<in> consequences C ops F D"
  then obtain p where p: "p \<in> set ops" "fires C F D Map.empty p f"
    by (auto simp: consequences_def)
  have "same_on (cf_ir C) (set (negated p)) F G"
    by (rule same_on_mono [OF assms(3)]) (use p(1) in \<open>auto simp: negated_of_def\<close>)
  then show "f \<in> consequences C ops G E"
    using fires_mono [OF p(2) assms(1,2)] assms(4) p(1) by (auto simp: consequences_def)
qed

text \<open>Delta plans fire what the full plans fire.\<close>

lemma consequences_full:
  assumes "D \<subseteq> F" "\<forall>p\<in>set deltas. full_plan p \<in> set ops"
  shows "consequences C deltas F D \<subseteq> consequences C ops F F"
  using assms fires_full_plan [of C F D] unfolding consequences_def by blast

text \<open>One semi-naive step is complete: what the full plans fire was fired from the settled facts or is fired
  by a delta plan.\<close>

lemma consequences_split:
  assumes "F = G \<union> D" and grown: "\<forall>nm t. (nm, t) \<in> D \<longrightarrow> (\<exists>d\<in>written ops. resolve_name (cf_ir C) d = Inr nm)"
    and names: "interner_inv (name_store (cf_ir C))"
    and ok: "\<forall>p\<in>set ops. full_ok (written ops) p \<and> initial_ok (written ops) deltas p"
  shows "consequences C ops F F \<subseteq> consequences C ops G G \<union> consequences C deltas F D"
proof
  fix f
  assume "f \<in> consequences C ops F F"
  then obtain p where p: "p \<in> set ops" "fires C F F Map.empty p f"
    by (auto simp: consequences_def)
  have uniq: "\<forall>j k nm. resolve_name (cf_ir C) j = Inr nm \<longrightarrow> resolve_name (cf_ir C) k = Inr nm \<longrightarrow> j = k"
    using si.key_unique [OF names] by (auto simp: resolve_name_def)
  have "same_on (cf_ir C) (set (negated p)) G F"
    unfolding assms(1) by (rule same_on_grown [OF grown _ names])
      (use bspec [OF ok p(1)] in \<open>auto simp: full_ok_def list_all_iff\<close>)
  then have "fires C G G Map.empty p f \<or>
      (\<exists>d\<in>written ops. d \<in> set (reads p) \<and> fires C F D Map.empty (delta_plan d p) f)"
    using bspec [OF ok p(1)] by (intro fires_split [OF _ grown uniq p(2)])
      (auto simp: assms(1) full_ok_def initial_ok_def intro: same_on_sym)
  then show "f \<in> consequences C ops G G \<union> consequences C deltas F D"
    using p(1) bspec [OF ok p(1)] by (auto simp: consequences_def initial_ok_def list_all_iff)
qed

lemma between_step:
  assumes btw: "between C ops F G" and T: "T \<subseteq> consequences C ops G G"
    and ok: "\<forall>p\<in>set ops. full_ok (written ops) p" and names: "interner_inv (name_store (cf_ir C))"
  shows "between C ops F (G \<union> T)"
  unfolding between_def
proof (intro conjI allI impI)
  let ?N = "negated_of ops"
  have G: "F \<subseteq> G" "same_on (cf_ir C) ?N F G"
    and least: "\<And>H. F \<subseteq> H \<Longrightarrow> same_on (cf_ir C) ?N F H \<Longrightarrow> consequences C ops H H \<subseteq> H \<Longrightarrow> G \<subseteq> H"
    using btw unfolding between_def by blast+
  have "\<forall>nm t. (nm, t) \<in> T \<longrightarrow> (\<exists>d\<in>written ops. resolve_name (cf_ir C) d = Inr nm)"
    using consequences_written T by (meson subsetD)
  then have "same_on (cf_ir C) ?N G (G \<union> T)"
    by (rule same_on_grown [OF _ _ names]) (use ok in \<open>auto simp: full_ok_def negated_of_def list_all_iff\<close>)
  then show "same_on (cf_ir C) ?N F (G \<union> T)"
    by (rule same_on_trans [OF G(2)])
  show "F \<subseteq> G \<union> T"
    using G(1) by blast
  fix H
  assume H: "F \<subseteq> H" "same_on (cf_ir C) ?N F H" "consequences C ops H H \<subseteq> H"
  have GH: "G \<subseteq> H" "same_on (cf_ir C) ?N G H"
    by (rule least [OF H], rule same_on_trans [OF same_on_sym [OF G(2)] H(2)])
  have "consequences C ops G G \<subseteq> consequences C ops H H"
    by (rule consequences_mono [OF GH(1) GH(1) GH(2)]) (use ok in \<open>simp add: full_ok_def\<close>)
  then show "G \<union> T \<subseteq> H"
    using T H(3) GH(1) by blast
qed

lemma thenO_Some: "thenO x f = Some (Inr y) \<longleftrightarrow> (\<exists>z. x = Some (Inr z) \<and> f z = Some (Inr y))"
  by (auto simp: thenO_def split: option.splits sum.splits)

lemma no_temporal [simp]: "on_store (foldR_store co []) st = Inr st"
  by (simp add: on_store_def)

lemma run_ops_Inr: "run_ops C ops st = Inr st' \<longleftrightarrow> (\<exists>n. for_each (execute C) ops st = (Inr n, st'))"
  by (auto simp: run_ops_def split: prod.splits sum.splits)

lemma least_model_empty: "least_model C [] F F"
  by (simp add: least_model_def consequences_def negated_of_def)

text \<open>A stratum that does not read what it writes is done after one round.\<close>

lemma one_round_model:
  assumes names: "interner_inv (name_store (cf_ir C))"
    and ok: "\<forall>p\<in>set ops. full_ok (written ops) p \<and> list_all (\<lambda>r. r \<notin> written ops) (reads p)"
  shows "least_model C ops F (F \<union> consequences C ops F D)"
proof -
  have full: "consequences C ops F D = consequences C ops F F"
    using ok fires_full unfolding consequences_def full_ok_def by blast
  let ?T = "consequences C ops F F"
  have "between C ops F F"
    by (simp add: between_def)
  then have btw: "between C ops F (F \<union> ?T)"
    by (rule between_step [OF _ subset_refl _ names]) (use ok in blast)
  have "consequences C ops (F \<union> ?T) (F \<union> ?T) \<subseteq> ?T"
  proof
    fix f
    assume "f \<in> consequences C ops (F \<union> ?T) (F \<union> ?T)"
    then obtain p where p: "p \<in> set ops" "fires C (F \<union> ?T) (F \<union> ?T) Map.empty p f"
      by (auto simp: consequences_def)
    have "same_on (cf_ir C) (set (reads p) \<union> set (negated p)) F (F \<union> ?T)"
      by (rule same_on_grown [OF _ _ names, of _ "written ops"])
         (use bspec [OF ok p(1)] consequences_written in \<open>auto simp: full_ok_def list_all_iff\<close>)
    then have "fires C F F Map.empty p f"
      using fires_same [OF p(2) same_on_sym] bspec [OF ok p(1)] by (auto simp: full_ok_def)
    then show "f \<in> ?T"
      using p(1) by (auto simp: consequences_def)
  qed
  then show ?thesis
    using btw unfolding least_model_def between_def full by blast
qed

context indexed_store
begin

text \<open>The hypotheses on a recursive stratum.\<close>

definition loop_ok :: "'s interp_cfg \<Rightarrow> (string \<Rightarrow> nat) \<Rightarrow> op list \<Rightarrow> op list \<Rightarrow> bool" where
  "loop_ok C A ops deltas \<longleftrightarrow> cf_store C = S \<and> interner_inv (name_store (cf_ir C)) \<and> fits (cf_ir C) A ops \<and>
     (\<forall>p\<in>set ops. full_ok (written ops) p \<and> initial_ok (written ops) deltas p) \<and>
     (\<forall>p\<in>set deltas. scoped {} p \<and> plain p \<and> full_plan p \<in> set ops)"

lemma loop_okD:
  assumes "loop_ok C A ops deltas"
  shows "cf_store C = S" "interner_inv (name_store (cf_ir C))" "fits (cf_ir C) A ops" "fits (cf_ir C) A deltas"
    "\<forall>p\<in>set ops. full_ok (written ops) p \<and> initial_ok (written ops) deltas p"
    "\<forall>p\<in>set ops. full_ok (written ops) p"
    "\<forall>p\<in>set deltas. scoped {} p \<and> plain p" "\<forall>p\<in>set deltas. full_plan p \<in> set ops"
proof -
  have fit: "fits (cf_ir C) A ops" and full: "\<forall>p\<in>set deltas. full_plan p \<in> set ops"
    using assms unfolding loop_ok_def by blast+
  have "\<forall>(rel, n)\<in>set (writes p). \<forall>nm. resolve_name (cf_ir C) rel = Inr nm \<longrightarrow> A nm = n" if "p \<in> set deltas" for p
  proof -
    have "\<forall>(rel, n)\<in>set (writes (full_plan p)). \<forall>nm. resolve_name (cf_ir C) rel = Inr nm \<longrightarrow> A nm = n"
      using fit full that unfolding fits_def by blast
    then show ?thesis by (simp add: full_plan_def)
  qed
  then show "fits (cf_ir C) A deltas"
    unfolding fits_def by blast
qed (use assms in \<open>unfold loop_ok_def, blast+\<close>)

lemma loop_round:
  assumes ok: "loop_ok C A ops deltas" and inv: "loop_inv C A ops F (st_store st)"
    and run: "for_each (execute C) deltas st = (Inr n, st1)" and mrg: "on_store (so_merge_deltas S) st1 = Inr st2"
  shows "loop_inv C A ops F (st_store st2)"
    and "n = 0 \<Longrightarrow> least_model C ops F (facts (st_store st))"
proof -
  let ?s = "st_store st" and ?s2 = "st_store st2"
  let ?T = "consequences C deltas (facts ?s) (fresh ?s)"
  note okD = loop_okD [OF ok]
  have rd: "ready A ?s" and btw: "between C ops F (facts ?s)"
    and settled: "consequences C ops (settled ?s) (settled ?s) \<subseteq> facts ?s"
    and grown: "\<forall>nm t. (nm, t) \<in> fresh ?s \<longrightarrow> (\<exists>d\<in>written ops. resolve_name (cf_ir C) d = Inr nm)"
    using inv by (auto simp: loop_inv_def)
  note step = round_merge [OF okD(1) rd okD(4) okD(7) run mrg]
  have T: "?T \<subseteq> consequences C ops (facts ?s) (facts ?s)"
    by (rule consequences_full) (use facts_split [OF rd] okD(8) in auto)
  have split: "consequences C ops (facts ?s) (facts ?s) \<subseteq> facts ?s \<union> ?T"
    using consequences_split [OF facts_split [OF rd] grown okD(2) okD(5)] settled by blast
  have "between C ops F (facts ?s2)"
    unfolding step(3) by (rule between_step [OF btw T okD(6) okD(2)])
  moreover have "\<forall>nm t. (nm, t) \<in> fresh ?s2 \<longrightarrow> (\<exists>d\<in>written ops. resolve_name (cf_ir C) d = Inr nm)"
    using step(4) T consequences_written by blast
  ultimately show "loop_inv C A ops F ?s2"
    using step split by (simp add: loop_inv_def)
  show "least_model C ops F (facts ?s)" if "n = 0"
    using btw split step(5) [OF that] unfolding least_model_def between_def by blast
qed

lemma loop_model:
  assumes ok: "loop_ok C A ops deltas"
  shows "fixpoint_loop C deltas st = Some (Inr st') \<Longrightarrow> loop_inv C A ops F (st_store st) \<Longrightarrow>
    ready A (st_store st') \<and> least_model C ops F (facts (st_store st'))"
proof -
  have "C' = C \<longrightarrow> ds = deltas \<longrightarrow> loop_inv C A ops F (st_store st) \<longrightarrow> y = Inr st' \<longrightarrow>
      ready A (st_store st') \<and> least_model C ops F (facts (st_store st'))"
    if loop: "fixpoint_loop C' ds st = Some y" for C' ds st y
  proof (rule fixpoint_loop.raw_induct [OF _ loop, where P = "\<lambda>C' ds st y. C' = C \<longrightarrow> ds = deltas \<longrightarrow>
      loop_inv C A ops F (st_store st) \<longrightarrow> y = Inr st' \<longrightarrow>
      ready A (st_store st') \<and> least_model C ops F (facts (st_store st'))"], goal_cases)
    case (1 fixpoint_loop C' ds st y)
    show ?case
    proof (intro impI)
      assume eq: "C' = C" "ds = deltas" "y = Inr st'" and inv: "loop_inv C A ops F (st_store st)"
      obtain n st1 where run: "for_each (execute C) deltas st = (Inr n, st1)"
        using 1(2) eq by (auto split: prod.splits sum.splits)
      have rd: "ready A (st_store st)" using inv by (simp add: loop_inv_def)
      note okD = loop_okD [OF ok]
      obtain N where N: "n = length N" "grows (st_store st) N (st_store st1)" "arities A (st_store st1)"
        using round [OF okD(1) rd okD(4) okD(7) run] by blast
      obtain s2 where "so_merge_deltas S (st_store st1) = Inr s2"
        using merge_ready [OF grows_inv [OF N(2)] N(3)] by blast
      then obtain st2 where mrg: "on_store (so_merge_deltas S) st1 = Inr st2"
        by (simp add: on_store_def)
      note rnd = loop_round [OF ok inv run mrg]
      show "ready A (st_store st') \<and> least_model C ops F (facts (st_store st'))"
      proof (cases "n = 0")
        case True
        have "st' = st1"
          using 1(2) eq run True by simp
        moreover have "facts (st_store st1) = facts (st_store st)" "\<forall>r. nx (st_store st1) r = []"
          using N True rd grows_facts [OF N(2)] by (auto simp: grows_def ready_def)
        ultimately show ?thesis
          using rnd(2) [OF True] N(3) grows_inv [OF N(2)] by (simp add: ready_def)
      next
        case False
        then have "fixpoint_loop C deltas st2 = Some (Inr st')"
          using 1(2) eq run mrg okD(1) by simp
        then show ?thesis
          using 1(1) rnd(1) by blast
      qed
    qed
  qed
  then show "fixpoint_loop C deltas st = Some (Inr st') \<Longrightarrow> loop_inv C A ops F (st_store st) \<Longrightarrow> ?thesis"
    by blast
qed

subsection \<open>Strata\<close>

lemma stratum_model:
  assumes C: "cf_store C = S" and names: "interner_inv (name_store (cf_ir C))" and rd: "ready A (st_store st)"
    and fit: "fits (cf_ir C) A (stratum_ops plan)" and ok: "stratum_ok plan"
    and run: "run_stratum co [] C plan st = Some (Inr st')"
  shows "ready A (st_store st') \<and> least_model C (stratum_ops plan) (facts (st_store st)) (facts (st_store st'))"
proof -
  text \<open>The merge that ends every stratum keeps the facts.\<close>
  have last: "ready A (st_store st') \<and> facts (st_store st') = facts (st_store st1)"
    if "ready A (st_store st1)" "on_store (so_merge_deltas S) st1 = Inr st'" for st1
    using merge_ready [of "st_store st1" A] that by (auto simp: on_store_def ready_def)
  show ?thesis
  proof (cases plan)
    case None
    then show ?thesis
      using run last [OF rd] C by (auto simp: run_stratum_def thenO_Some least_model_empty)
  next
    case (Some sp)
    show ?thesis
    proof (cases sp)
      case (NonRecursive ops)
      obtain n st1 where ops: "for_each (execute C) ops st = (Inr n, st1)" "on_store (so_merge_deltas S) st1 = Inr st'"
        using run C unfolding Some NonRecursive by (auto simp: run_stratum_def thenO_Some run_ops_Inr)
      have okp: "\<forall>p\<in>set ops. full_ok (written ops) p \<and> list_all (\<lambda>r. r \<notin> written ops) (reads p)"
        using ok unfolding Some NonRecursive by (simp add: list_all_iff)
      then have plain: "\<forall>p\<in>set ops. scoped {} p \<and> plain p"
        by (simp add: full_ok_def)
      have "fits (cf_ir C) A ops"
        using fit unfolding Some NonRecursive by simp
      note rnd = round_merge [OF C rd this plain ops]
      show ?thesis
        unfolding Some NonRecursive stratum_ops.simps rnd(3) using rnd(1) one_round_model [OF names okp] by blast
    next
      case (Recursive ops deltas)
      obtain n st1 st2 st3 where ops: "for_each (execute C) ops st = (Inr n, st1)"
        "on_store (so_merge_deltas S) st1 = Inr st2" "fixpoint_loop C deltas st2 = Some (Inr st3)"
        "on_store (so_merge_deltas S) st3 = Inr st'"
        using run C unfolding Some Recursive by (auto simp: run_stratum_def thenO_Some run_ops_Inr)
      have fit': "fits (cf_ir C) A ops"
        using fit unfolding Some Recursive by simp
      have lok: "loop_ok C A ops deltas"
        using ok C names fit' unfolding Some Recursive loop_ok_def by (simp add: list_all_iff)
      note okD = loop_okD [OF lok]
      have plain: "\<forall>p\<in>set ops. scoped {} p \<and> plain p" and full: "\<forall>p\<in>set ops. is_full p"
        using okD(6) by (simp_all add: full_ok_def)
      note rnd = round_merge [OF C rd fit' plain ops(1,2)]
      let ?F = "facts (st_store st)"
      have T: "consequences C ops ?F (fresh (st_store st)) = consequences C ops ?F ?F"
        using full fires_full unfolding consequences_def by blast
      have "between C ops ?F ?F"
        by (simp add: between_def)
      then have "between C ops ?F (facts (st_store st2))"
        unfolding rnd(3) T by (rule between_step [OF _ subset_refl okD(6) names])
      moreover have "\<forall>nm t. (nm, t) \<in> fresh (st_store st2) \<longrightarrow>
          (\<exists>d\<in>written ops. resolve_name (cf_ir C) d = Inr nm)"
        using rnd(4) consequences_written by (meson subsetD)
      ultimately have "loop_inv C A ops ?F (st_store st2)"
        unfolding loop_inv_def using rnd(1-3) T by simp
      then have "ready A (st_store st3) \<and> least_model C ops ?F (facts (st_store st3))"
        by (rule loop_model [OF lok ops(3)])
      then show ?thesis
        unfolding Some Recursive stratum_ops.simps using last [OF _ ops(4)] by simp
    qed
  qed
qed

lemma strata_models:
  assumes C: "cf_store C = S" and names: "interner_inv (name_store (cf_ir C))"
  shows "ready A (st_store st) \<Longrightarrow> list_all stratum_ok plans \<Longrightarrow>
    list_all (\<lambda>plan. fits (cf_ir C) A (stratum_ops plan)) plans \<Longrightarrow>
    run_strata co [] C plans st = Some (Inr st') \<Longrightarrow>
    ready A (st_store st') \<and> strata_model C plans (facts (st_store st)) (facts (st_store st'))"
proof (induction plans arbitrary: st)
  case (Cons plan plans)
  obtain st1 where st1: "run_stratum co [] C plan st = Some (Inr st1)" "run_strata co [] C plans st1 = Some (Inr st')"
    using Cons.prems(4) by (auto simp: thenO_Some)
  have one: "ready A (st_store st1) \<and> least_model C (stratum_ops plan) (facts (st_store st)) (facts (st_store st1))"
    by (rule stratum_model [OF C names Cons.prems(1) _ _ st1(1)]) (use Cons.prems(2,3) in simp_all)
  then show ?case
    using Cons.IH [OF _ _ _ st1(2)] Cons.prems(2,3) by auto
qed simp

end

end
