(* ===== verification/Driver_Halts.thy ===== *)
theory Driver_Halts
  imports Driver_Model
begin

text \<open>
  Termination of the driver.  A plan is flat when it computes no new values: it copies columns, constants
  and parts of compound values.  Flat plans fire only facts over a finite universe, so that the
  semi-naive loop, which adds a fact in every round but the last, returns.
\<close>

subsection \<open>Values\<close>

fun parts :: "mvalue \<Rightarrow> mvalue set" where
  "parts (Compound k vs) = insert (Compound k vs) (\<Union>v\<in>set vs. parts v)"
| "parts v = {v}"

lemma parts_self [simp]: "v \<in> parts v"
  by (cases v) auto

lemma parts_trans: "w \<in> parts v \<Longrightarrow> parts w \<subseteq> parts v"
  by (induction v) auto

lemma finite_parts: "finite (parts v)"
  by (induction v) auto

definition part_closed :: "mvalue set \<Rightarrow> bool" where
  "part_closed V \<longleftrightarrow> (\<forall>v\<in>V. parts v \<subseteq> V)"

lemma part_closed_elems: "part_closed V \<Longrightarrow> Compound k vs \<in> V \<Longrightarrow> set vs \<subseteq> V"
  unfolding part_closed_def by (fastforce)

lemma part_closed_UN: "part_closed (\<Union>v\<in>V. parts v)"
  unfolding part_closed_def using parts_trans by blast

lemma struct_field_elem: "struct_field f v = Some w \<Longrightarrow> \<exists>k vs. v = Compound k vs \<and> w \<in> set vs"
proof -
  have "w \<in> set vs" if "(x, w) \<in> set (chunks2 vs)" for vs x
    using that by (induction vs rule: chunks2.induct) auto
  then show "struct_field f v = Some w \<Longrightarrow> ?thesis"
    by (auto simp: struct_field_def split: mvalue.splits compound_kind.splits dest!: map_of_SomeD)
qed

subsection \<open>Flat plans\<close>

fun operand_consts :: "operand \<Rightarrow> plan_const list" where
  "operand_consts (OVar _) = []"
| "operand_consts (OConst c) = [c]"

fun flat :: "op \<Rightarrow> bool" where
  "flat (Seq ps) = list_all flat ps"
| "flat (Iterate _ body) = flat body"
| "flat (FilterOp _ body) = flat body"
| "flat (LetOp _ x body) = ((case x of ValueE _ \<Rightarrow> True | CallE _ _ \<Rightarrow> False) \<and> flat body)"
| "flat (HashJoin _ _ _ body) = flat body"
| "flat (GroupBy _ _ _ _ _) = False"
| "flat (MatchField _ _ _ body) = flat body"
| "flat (IterateList _ _ body) = flat body"
| "flat _ = True"

fun plan_consts :: "op \<Rightarrow> plan_const list" where
  "plan_consts (Seq ps) = concat (map plan_consts ps)"
| "plan_consts (Iterate _ body) = plan_consts body"
| "plan_consts (FilterOp _ body) = plan_consts body"
| "plan_consts (InsertOp _ args) = concat (map operand_consts args)"
| "plan_consts (LetOp _ x body) = (case x of ValueE y \<Rightarrow> operand_consts y | CallE _ _ \<Rightarrow> []) @ plan_consts body"
| "plan_consts (GroupBy _ _ _ _ body) = plan_consts body"
| "plan_consts (HashJoin _ _ _ body) = plan_consts body"
| "plan_consts (MatchField x _ _ body) = operand_consts x @ plan_consts body"
| "plan_consts (IterateList x _ body) = operand_consts x @ plan_consts body"
| "plan_consts Nop = []"

definition const_values :: "ir \<Rightarrow> op \<Rightarrow> mvalue set" where
  "const_values m p = {v. \<exists>c\<in>set (plan_consts p). eval_const m c = Inr v}"

lemma finite_const_values: "finite (const_values m p)"
proof -
  have "const_values m p \<subseteq> (\<lambda>c. projr (eval_const m c)) ` set (plan_consts p)"
    by (force simp: const_values_def)
  then show ?thesis
    by (rule finite_subset) simp
qed

definition values_in :: "mvalue set \<Rightarrow> fact set \<Rightarrow> bool" where
  "values_in V F \<longleftrightarrow> (\<forall>(r, t)\<in>F. set t \<subseteq> V)"

definition operand_ok :: "ir \<Rightarrow> mvalue set \<Rightarrow> operand \<Rightarrow> bool" where
  "operand_ok m V x \<longleftrightarrow> (\<forall>c\<in>set (operand_consts x). \<forall>v. eval_const m c = Inr v \<longrightarrow> v \<in> V)"

lemma operand_value:
  "ran e \<subseteq> V \<Longrightarrow> operand_ok m V x \<Longrightarrow> eval_operand m e x = Inr v \<Longrightarrow> v \<in> V"
  by (cases x) (auto simp: operand_ok_def ran_def split: option.splits)

lemma operand_values:
  "ran e \<subseteq> V \<Longrightarrow> \<forall>x\<in>set xs. operand_ok m V x \<Longrightarrow> traverseR (eval_operand m e) xs = Inr vs \<Longrightarrow> set vs \<subseteq> V"
  by (induction xs arbitrary: vs) (auto dest: operand_value)

lemma ran_upds: "ran e \<subseteq> V \<Longrightarrow> set t \<subseteq> V \<Longrightarrow> ran (e(vs [\<mapsto>] t)) \<subseteq> V"
proof (induction vs arbitrary: e t)
  case (Cons v vs)
  show ?case
  proof (cases t)
    case t: (Cons x t')
    then have "ran (e(v \<mapsto> x)) \<subseteq> V"
      using Cons.prems by (auto simp: ran_def split: if_splits)
    then show ?thesis
      unfolding t map_upds_Cons by (rule Cons.IH) (use t Cons.prems in simp)
  qed (use Cons.prems in simp)
qed simp

lemma source_values: "t \<in> source_tuples m F D e src \<Longrightarrow> values_in V F \<Longrightarrow> values_in V D \<Longrightarrow> set t \<subseteq> V"
  by (cases src) (auto simp: values_in_def)

lemma fires_values:
  assumes "fires C F D e p f" "flat p" "const_values (cf_ir C) p \<subseteq> V" "part_closed V" "values_in V F" "values_in V D"
    and "ran e \<subseteq> V"
  shows "set (snd f) \<subseteq> V"
  using assms
proof (induction rule: fires.induct)
  case (f_insert rel nm e args t)
  have "\<forall>x\<in>set args. operand_ok (cf_ir C) V x"
    using f_insert.prems(2) by (auto simp: const_values_def operand_ok_def)
  then show ?case
    using operand_values [OF f_insert.prems(6) _ f_insert.hyps(2)] by simp
next
  case (f_seq p ps e f)
  have "const_values (cf_ir C) p \<subseteq> const_values (cf_ir C) (Seq ps)"
    using f_seq.hyps(1) by (auto simp: const_values_def)
  then show ?case
    using f_seq by (auto simp: list_all_iff)
next
  case (f_iterate t e src body f)
  have "ran (e(source_vars src [\<mapsto>] t)) \<subseteq> V"
    by (rule ran_upds [OF f_iterate.prems(6) source_values [OF f_iterate.hyps(1) f_iterate.prems(4,5)]])
  then show ?case
    using f_iterate by (simp add: const_values_def)
next
  case (f_filter e c body f)
  then show ?case by (simp add: const_values_def)
next
  case (f_let e x v var body f)
  obtain y where y: "x = ValueE y"
    using f_let.prems(1) by (cases x) auto
  have "operand_ok (cf_ir C) V y"
    using f_let.prems(2) y by (auto simp: const_values_def operand_ok_def)
  then have "v \<in> V"
    using operand_value [OF f_let.prems(6)] f_let.hyps(1) y by simp
  then have ran: "ran (e(var \<mapsto> v)) \<subseteq> V"
    using f_let.prems(6) by (auto simp: ran_def split: if_splits)
  show ?case
    by (rule f_let.IH [OF _ _ f_let.prems(3-5) ran]) (use f_let.prems(1,2) in \<open>auto simp: const_values_def\<close>)
next
  case (f_join bmsg join_keys build bps pmsg probe pps bt e pt body f)
  have "ran (e(source_vars probe [\<mapsto>] pt, source_vars build [\<mapsto>] bt)) \<subseteq> V"
    using source_values [OF f_join.hyps(3)] source_values [OF f_join.hyps(5)] f_join.prems(4-6)
    by (simp add: ran_upds)
  then show ?case
    using f_join by (simp add: const_values_def)
next
  case (f_field e x sv field fnm v var body f)
  have "operand_ok (cf_ir C) V x"
    using f_field.prems(2) by (auto simp: const_values_def operand_ok_def)
  then have "v \<in> V"
    using operand_value [OF f_field.prems(6) _ f_field.hyps(1)] struct_field_elem [OF f_field.hyps(3)]
      part_closed_elems [OF f_field.prems(3)] by blast
  then have ran: "ran (e(var \<mapsto> v)) \<subseteq> V"
    using f_field.prems(6) by (auto simp: ran_def split: if_splits)
  show ?case
    by (rule f_field.IH [OF _ _ f_field.prems(3-5) ran]) (use f_field.prems(1,2) in \<open>auto simp: const_values_def\<close>)
next
  case (f_list e x elems v var body f)
  have "operand_ok (cf_ir C) V x"
    using f_list.prems(2) by (auto simp: const_values_def operand_ok_def)
  then have "v \<in> V"
    using operand_value [OF f_list.prems(6) _ f_list.hyps(1)] part_closed_elems [OF f_list.prems(3)]
      f_list.hyps(2) by blast
  then have ran: "ran (e(var \<mapsto> v)) \<subseteq> V"
    using f_list.prems(6) by (auto simp: ran_def split: if_splits)
  show ?case
    by (rule f_list.IH [OF _ _ f_list.prems(3-5) ran]) (use f_list.prems(1,2) in \<open>auto simp: const_values_def\<close>)
qed

text \<open>The universe of a list of plans over the values \<open>V\<close>: the facts with the relations and arities they
  insert.\<close>

definition universe :: "ir \<Rightarrow> op list \<Rightarrow> mvalue set \<Rightarrow> fact set" where
  "universe m ops V = {(nm, t). set t \<subseteq> V \<and>
     (\<exists>p\<in>set ops. \<exists>rel. (rel, length t) \<in> set (writes p) \<and> resolve_name m rel = Inr nm)}"

lemma finite_universe:
  assumes "finite V"
  shows "finite (universe m ops V)"
proof -
  let ?ws = "concat (map writes ops)"
  have "universe m ops V \<subseteq>
      (\<Union>(rel, n)\<in>set ?ws. Pair (projr (resolve_name m rel)) ` {t. set t \<subseteq> V \<and> length t = n})"
    by (force simp: universe_def)
  then show ?thesis
    by (rule finite_subset) (auto simp: finite_lists_length_eq [OF assms])
qed

lemma consequences_universe:
  assumes "\<forall>p\<in>set ops. flat p \<and> const_values (cf_ir C) p \<subseteq> V" "part_closed V" "values_in V F" "D \<subseteq> F"
  shows "consequences C ops F D \<subseteq> universe (cf_ir C) ops V"
proof
  fix f
  assume "f \<in> consequences C ops F D"
  then obtain p where p: "p \<in> set ops" "fires C F D Map.empty p f"
    by (auto simp: consequences_def)
  have "values_in V D"
    using assms(3,4) by (auto simp: values_in_def)
  then have "set (snd f) \<subseteq> V"
    using fires_values [OF p(2)] assms(1-3) p(1) by simp
  then show "f \<in> universe (cf_ir C) ops V"
    using p fires_writes [of C F D Map.empty p "fst f" "snd f"] by (cases f) (auto simp: universe_def)
qed

lemma universe_values: "values_in V (universe m ops V)"
  by (auto simp: values_in_def universe_def)

subsection \<open>The loop returns\<close>

context indexed_store
begin

lemma loop_returns:
  assumes ok: "loop_ok C A ops deltas" and fin: "finite U"
    and closed: "\<And>F D. F \<subseteq> U \<Longrightarrow> D \<subseteq> F \<Longrightarrow> consequences C deltas F D \<subseteq> U"
  shows "ready A (st_store st) \<Longrightarrow> facts (st_store st) \<subseteq> U \<Longrightarrow> \<exists>r. fixpoint_loop C deltas st = Some r"
proof (induction "card (U - facts (st_store st))" arbitrary: st rule: less_induct)
  case less
  note okD = loop_okD [OF ok]
  obtain res st1 where run: "for_each (execute C) deltas st = (res, st1)"
    by (cases "for_each (execute C) deltas st")
  show ?case
  proof (cases res)
    case (Inl e)
    then show ?thesis
      using run by (subst fixpoint_loop.simps) simp
  next
    case (Inr n)
    note run' = run [unfolded Inr]
    obtain N where N: "n = length N" "grows (st_store st) N (st_store st1)" "arities A (st_store st1)"
      "set N = consequences C deltas (facts (st_store st)) (fresh (st_store st)) - facts (st_store st)"
      using round [OF okD(1) less.prems(1) okD(4) okD(7) run'] by blast
    obtain s2 where s2: "so_merge_deltas S (st_store st1) = Inr s2" "ready A s2" "facts s2 = facts (st_store st1)"
      using merge_ready [OF grows_inv [OF N(2)] N(3)] by blast
    let ?st2 = "st1\<lparr>st_store := s2\<rparr>"
    show ?thesis
    proof (cases "n = 0")
      case True
      then show ?thesis
        using run' by (subst fixpoint_loop.simps) simp
    next
      case False
      have facts2: "facts s2 = facts (st_store st) \<union> set N"
        using s2(3) grows_facts [OF N(2)] by simp
      have "fresh (st_store st) \<subseteq> facts (st_store st)"
        using facts_split [OF less.prems(1)] by blast
      then have NU: "set N \<subseteq> U - facts (st_store st)"
        using N(4) closed [OF less.prems(2)] by blast
      obtain x where x: "x \<in> set N"
        using N(1) False by (cases N) auto
      have "U - facts s2 \<subset> U - facts (st_store st)"
        unfolding facts2 using x NU by blast
      then have "card (U - facts s2) < card (U - facts (st_store st))"
        using fin by (simp add: psubset_card_mono)
      then have "\<exists>r. fixpoint_loop C deltas ?st2 = Some r"
        using less.hyps [of ?st2] s2(2) facts2 NU less.prems(2) by auto
      then show ?thesis
        using run' False s2(1) okD(1) by (subst fixpoint_loop.simps) (simp add: on_store_def)
    qed
  qed
qed

end

subsection \<open>The strata return\<close>

fun all_plans :: "stratum_plan option \<Rightarrow> op list" where
  "all_plans None = []"
| "all_plans (Some (NonRecursive ops)) = ops"
| "all_plans (Some (Recursive initial_ops delta_plans)) = initial_ops @ delta_plans"

definition active_values :: "ir \<Rightarrow> op list \<Rightarrow> fact set \<Rightarrow> mvalue set" where
  "active_values m ops F = (\<Union>v \<in> (\<Union>(r, t)\<in>F. set t) \<union> (\<Union>p\<in>set ops. const_values m p). parts v)"

lemma active_values_props:
  assumes "finite F"
  shows "finite (active_values m ops F)" "part_closed (active_values m ops F)"
    "values_in (active_values m ops F) F" "\<forall>p\<in>set ops. const_values m p \<subseteq> active_values m ops F"
proof -
  show "finite (active_values m ops F)"
    unfolding active_values_def using assms by (auto simp: finite_parts finite_const_values)
  show "part_closed (active_values m ops F)"
    unfolding active_values_def by (rule part_closed_UN)
qed (force simp: active_values_def values_in_def)+

text \<open>Everything a list of flat plans can ever derive from \<open>F\<close>.\<close>

definition herbrand :: "ir \<Rightarrow> op list \<Rightarrow> fact set \<Rightarrow> fact set" where
  "herbrand m ops F = F \<union> universe m ops (active_values m ops F)"

lemma finite_herbrand: "finite F \<Longrightarrow> finite (herbrand m ops F)"
  by (simp add: herbrand_def finite_universe active_values_props)

lemma consequences_herbrand:
  assumes "finite F" "\<forall>p\<in>set ops. flat p" "set ps \<subseteq> set ops" "G \<subseteq> herbrand (cf_ir C) ops F" "D \<subseteq> G"
  shows "consequences C ps G D \<subseteq> universe (cf_ir C) ops (active_values (cf_ir C) ops F)"
proof -
  let ?V = "active_values (cf_ir C) ops F"
  note act = active_values_props [OF assms(1), where m = "cf_ir C" and ops = ops]
  have "values_in ?V (herbrand (cf_ir C) ops F)"
    using act(3) universe_values unfolding herbrand_def values_in_def by blast
  then have "values_in ?V G"
    using assms(4) unfolding values_in_def by blast
  then have "consequences C ops G D \<subseteq> universe (cf_ir C) ops ?V"
    by (intro consequences_universe) (use assms(2,5) act(2,4) in auto)
  moreover have "consequences C ps G D \<subseteq> consequences C ops G D"
    using assms(3) by (auto simp: consequences_def)
  ultimately show ?thesis by blast
qed

lemma least_model_finite:
  assumes "least_model C ops F G" "finite F" "\<forall>p\<in>set ops. flat p" "interner_inv (name_store (cf_ir C))"
    and "negated_of ops \<inter> written ops = {}"
  shows "finite G"
proof -
  let ?U = "universe (cf_ir C) ops (active_values (cf_ir C) ops F)"
  have "\<forall>nm t. (nm, t) \<in> ?U \<longrightarrow> (\<exists>d\<in>written ops. resolve_name (cf_ir C) d = Inr nm)"
    by (force simp: universe_def written_def)
  then have same: "same_on (cf_ir C) (negated_of ops) F (F \<union> ?U)"
    using assms(5,4) by (rule same_on_grown)
  have "consequences C ops (F \<union> ?U) (F \<union> ?U) \<subseteq> ?U"
    by (rule consequences_herbrand) (use assms(2,3) in \<open>auto simp: herbrand_def\<close>)
  then have "G \<subseteq> F \<union> ?U"
    using assms(1) same unfolding least_model_def by blast
  then show ?thesis
    using finite_herbrand [OF assms(2)] unfolding herbrand_def by (rule finite_subset)
qed

lemma stratum_ok_negated: "stratum_ok plan \<Longrightarrow> negated_of (stratum_ops plan) \<inter> written (stratum_ops plan) = {}"
  by (cases plan rule: stratum_ok.cases) (auto simp: negated_of_def full_ok_def list_all_iff)

lemma thenO_returns: "\<exists>r. x = Some r \<Longrightarrow> (\<And>y. x = Some (Inr y) \<Longrightarrow> \<exists>r. f y = Some r) \<Longrightarrow> \<exists>r. thenO x f = Some r"
  by (auto simp: thenO_def split: sum.splits)

context indexed_store
begin

lemma stratum_returns:
  assumes C: "cf_store C = S" and names: "interner_inv (name_store (cf_ir C))" and rd: "ready A (st_store st)"
    and fit: "fits (cf_ir C) A (stratum_ops plan)" and ok: "stratum_ok plan"
    and fin: "finite (facts (st_store st))" and flt: "\<forall>p\<in>set (all_plans plan). flat p"
  shows "\<exists>r. run_stratum co [] C plan st = Some r"
proof -
  have "\<exists>r. (case plan of
          None \<Rightarrow> Some (Inr st)
        | Some (NonRecursive ops) \<Rightarrow> Some (run_ops C ops st)
        | Some (Recursive initial_ops delta_plans) \<Rightarrow>
            thenO (Some (run_ops C initial_ops st)) (\<lambda>st1.
            thenO (Some (on_store (so_merge_deltas (cf_store C)) st1)) (\<lambda>st2.
            thenO (fixpoint_loop C delta_plans st2) (\<lambda>st3.
              Some (on_store (foldR_store co []) st3))))) = Some r"
  proof (cases plan rule: stratum_ok.cases)
    case (3 ops deltas)
    have fit': "fits (cf_ir C) A ops"
      using fit 3 by simp
    have lok: "loop_ok C A ops deltas"
      using ok C names fit' unfolding 3 loop_ok_def by (simp add: list_all_iff)
    note okD = loop_okD [OF lok]
    let ?all = "ops @ deltas" and ?F = "facts (st_store st)"
    let ?U = "herbrand (cf_ir C) ?all ?F"
    have closed: "consequences C ps G D \<subseteq> ?U" if "set ps \<subseteq> set ?all" "G \<subseteq> ?U" "D \<subseteq> G" for ps G D
      using consequences_herbrand [OF fin _ that] flt 3 by (auto simp: herbrand_def)
    have "\<exists>r. fixpoint_loop C deltas st2 = Some r"
      if run: "run_ops C ops st = Inr st1" and mrg: "on_store (so_merge_deltas S) st1 = Inr st2" for st1 st2
    proof -
      obtain n where n: "for_each (execute C) ops st = (Inr n, st1)"
        using run by (auto simp: run_ops_Inr)
      have plain: "\<forall>p\<in>set ops. scoped {} p \<and> plain p"
        using okD(6) by (simp add: full_ok_def)
      note rnd = round_merge [OF C rd fit' plain n mrg]
      have "facts (st_store st2) \<subseteq> ?U"
        unfolding rnd(3) using closed [of ops ?F "fresh (st_store st)"] facts_split [OF rd]
        by (auto simp: herbrand_def)
      then show ?thesis
        by (intro loop_returns [OF lok finite_herbrand [OF fin] closed rnd(1)]) auto
    qed
    then show ?thesis
      using C 3 by (auto intro!: thenO_returns)
  qed auto
  then show ?thesis
    unfolding run_stratum_def by (intro thenO_returns) auto
qed

lemma strata_return:
  assumes C: "cf_store C = S" and names: "interner_inv (name_store (cf_ir C))"
  shows "ready A (st_store st) \<Longrightarrow> finite (facts (st_store st)) \<Longrightarrow> list_all stratum_ok plans \<Longrightarrow>
    list_all (\<lambda>plan. fits (cf_ir C) A (stratum_ops plan)) plans \<Longrightarrow>
    list_all (\<lambda>plan. list_all flat (all_plans plan)) plans \<Longrightarrow> \<exists>r. run_strata co [] C plans st = Some r"
proof (induction plans arbitrary: st)
  case (Cons plan plans)
  have fit: "fits (cf_ir C) A (stratum_ops plan)" and ok: "stratum_ok plan" and flt: "\<forall>p\<in>set (all_plans plan). flat p"
    using Cons.prems by (auto simp: list_all_iff)
  have flt': "\<forall>p\<in>set (stratum_ops plan). flat p"
    using flt by (cases plan rule: stratum_ok.cases) auto
  have "\<exists>r. run_strata co [] C plans st1 = Some r" if "run_stratum co [] C plan st = Some (Inr st1)" for st1
  proof -
    have m: "ready A (st_store st1)" "least_model C (stratum_ops plan) (facts (st_store st)) (facts (st_store st1))"
      using stratum_model [OF C names Cons.prems(1) fit ok that] by blast+
    show ?thesis
      using Cons.IH [OF m(1) least_model_finite [OF m(2) Cons.prems(2) flt' names stratum_ok_negated [OF ok]]]
        Cons.prems by simp
  qed
  then show ?case
    using stratum_returns [OF C names Cons.prems(1) fit ok Cons.prems(2) flt] by (auto intro!: thenO_returns)
qed simp

end

end
