(* ===== verification/Planner_Frame.thy ===== *)
theory Planner_Frame
  imports Planner
begin

text \<open>
  What planning changes.  The planner only adds to the IR: instructions are appended, names are interned,
  nothing that was there resolves differently (the only instructions added are the names of struct
  fields).  The statement is an invariant of the planner's monad:
  \<open>keeps f\<close> says that every successful step of \<open>f\<close> leads to a grown state, and is established rule by rule
  along the structure of the code.
\<close>

named_theorems keeps_rules \<open>the planner's operations grow the state\<close>

subsection \<open>Growth of the IR\<close>

definition ir_inv :: "ir \<Rightarrow> bool" where
  "ir_inv m \<longleftrightarrow> interner_inv (name_store m) \<and> length (insts m) < 2 ^ 32"

definition ir_grown :: "ir \<Rightarrow> ir \<Rightarrow> bool" where
  "ir_grown m m' \<longleftrightarrow>
     (\<exists>ns. insts m' = insts m @ map IName ns) \<and>
     string_store m' = string_store m \<and> temporal_predicates m' = temporal_predicates m \<and>
     (ir_inv m \<longrightarrow> ir_inv m' \<and> (\<forall>k nm. resolve_name m k = Inr nm \<longrightarrow> resolve_name m' k = Inr nm))"

lemma ir_grown_refl [simp]: "ir_grown m m"
  by (simp add: ir_grown_def)

lemma ir_grown_trans:
  assumes "ir_grown m1 m2" "ir_grown m2 m3"
  shows "ir_grown m1 m3"
proof -
  obtain ns ns' where "insts m2 = insts m1 @ map IName ns" "insts m3 = insts m2 @ map IName ns'"
    using assms unfolding ir_grown_def by blast
  then have more: "\<exists>ns. insts m3 = insts m1 @ map IName ns"
    by (intro exI [of _ "ns @ ns'"]) simp
  show ?thesis
    using assms unfolding ir_grown_def by (intro conjI more) simp_all
qed

lemma ir_grown_inv: "ir_grown m m' \<Longrightarrow> ir_inv m \<Longrightarrow> ir_inv m'"
  by (simp add: ir_grown_def)

lemma ir_grown_get: "ir_grown m m' \<Longrightarrow> ir_get m i = Inr x \<Longrightarrow> ir_get m' i = Inr x"
  by (auto simp: ir_grown_def ir_get_def nth_append)

lemma ir_grown_resolve:
  "ir_grown m m' \<Longrightarrow> ir_inv m \<Longrightarrow> resolve_name m k = Inr nm \<Longrightarrow> resolve_name m' k = Inr nm"
  by (simp add: ir_grown_def)

lemma intern_name_grown:
  assumes "intern_name nm m = Inr (k, m')"
  shows "ir_grown m m'"
proof -
  obtain s where s: "intern nm (name_store m) = Inr (k, s)" "m' = m\<lparr>name_store := s\<rparr>"
    using assms by (auto simp: intern_name_def)
  then show ?thesis
    using si.int_inv [OF _ s(1)] si.int_keeps [OF _ s(1)] by (simp add: ir_grown_def ir_inv_def resolve_name_def)
qed

lemma add_instD:
  assumes "add_inst x m = Inr (k, m')" "ir_inv m"
  shows "ir_inv m'" "ir_get m' k = Inr x"
proof -
  have len: "length (insts m) < 2 ^ 32"
    using assms(2) unfolding ir_inv_def by (rule conjunct2)
  have k: "key_new (length (insts m)) = Inr k" and m': "m' = m\<lparr>insts := insts m @ [x]\<rparr>"
    using assms(1) by (auto simp: add_inst_def)
  note kk = k [unfolded key_new_Inr [OF len]]
  have "key_index k = length (insts m)"
    using key_index_of_nat [OF len] conjunct2 [OF kk] by simp
  then show "ir_get m' k = Inr x"
    by (simp add: ir_get_def m')
  show "ir_inv m'"
    using assms(2) conjunct1 [OF kk] by (simp add: ir_inv_def m')
qed

lemma add_inst_grown: "add_inst (IName n) m = Inr (k, m') \<Longrightarrow> ir_grown m m'"
  using add_instD(1) [of "IName n" m k m'] by (auto simp: add_inst_def ir_grown_def resolve_name_def intro: exI [of _ "[n]"])

subsection \<open>The invariant of the monad\<close>

definition grown :: "planner \<Rightarrow> planner \<Rightarrow> bool" where
  "grown p q \<longleftrightarrow> pl_delta q = pl_delta p \<and> pl_hash_join q = pl_hash_join p \<and> ir_grown (pl_ir p) (pl_ir q)"

lemma grown_refl [simp]: "grown p p"
  by (simp add: grown_def)

lemma grown_trans: "grown p q \<Longrightarrow> grown q r \<Longrightarrow> grown p r"
  using ir_grown_trans by (auto simp: grown_def)

definition keeps :: "'a pl \<Rightarrow> bool" where
  "keeps f \<longleftrightarrow> (\<forall>p x q. f p = Inr (x, q) \<longrightarrow> grown p q)"

lemma keepsD: "keeps f \<Longrightarrow> f p = Inr (x, q) \<Longrightarrow> grown p q"
  by (simp add: keeps_def)

lemma keeps_basic [keeps_rules]: "keeps (retP x)" "keeps (failP e)" "keeps (liftP g)"
  by (auto simp: keeps_def retP_def failP_def liftP_def)

lemma keeps_bindP [keeps_rules]: "keeps f \<Longrightarrow> (\<And>x. keeps (g x)) \<Longrightarrow> keeps (bindP f g)"
  unfolding keeps_def bindP_def using grown_trans by fastforce

lemma keeps_state: "(\<And>p. keeps (f p)) \<Longrightarrow> keeps (\<lambda>p. f p p)"
  by (simp add: keeps_def)

lemma keeps_if [keeps_rules]: "(b \<Longrightarrow> keeps f) \<Longrightarrow> (\<not> b \<Longrightarrow> keeps g) \<Longrightarrow> keeps (if b then f else g)"
  by simp

lemma keeps_if_state: "keeps f \<Longrightarrow> keeps g \<Longrightarrow> keeps (\<lambda>p. if b p then f p else g p)"
  by (simp add: keeps_def)

lemma keeps_option [keeps_rules]:
  "keeps f \<Longrightarrow> (\<And>x. keeps (g x)) \<Longrightarrow> keeps (case x of None \<Rightarrow> f | Some y \<Rightarrow> g y)"
  by (cases x) simp_all

lemma keeps_pair [keeps_rules]: "(\<And>x y. keeps (f x y)) \<Longrightarrow> keeps (case z of (x, y) \<Rightarrow> f x y)"
  by (cases z) simp

lemma keeps_intern [keeps_rules]: "keeps (intern_nameP nm)" "keeps (add_instP (IName n))"
  using intern_name_grown add_inst_grown by (auto simp: keeps_def intern_nameP_def add_instP_def grown_def)

lemma keeps_fresh [keeps_rules]: "keeps (fresh_var prefix)"
  using intern_name_grown by (auto simp: keeps_def fresh_var_def intern_nameP_def grown_def)

lemma keeps_get [keeps_rules]: "keeps (get_inst i)" "keeps (name_of k)"
  by (simp_all add: get_inst_def name_of_def keeps_rules)

lemma keeps_wrap [keeps_rules]: "keeps f \<Longrightarrow> keeps (wrap_op w f)"
  unfolding wrap_op_def by (intro keeps_rules)

lemma keeps_let_call [keeps_rules]: "(\<And>x. keeps (f x)) \<Longrightarrow> keeps (let_call prefix g f ops)"
  unfolding let_call_def by (intro keeps_rules)

lemma keeps_struct_args [keeps_rules]: "keeps (struct_args fs vs)"
proof (induction fs arbitrary: vs)
  case (Cons f fs)
  then show ?case
    by (cases vs) (auto simp: struct_args.simps [abs_def] intro!: keeps_rules)
qed (simp add: struct_args.simps [abs_def] keeps_rules)

lemma keeps_args_from:
  assumes "\<And>i f. (\<And>x. keeps (f x)) \<Longrightarrow> keeps (with_eval n i f)" "\<And>xs. keeps (g xs)"
  shows "keeps (with_eval_args n args acc g)"
  using assms(2)
proof (induction args arbitrary: acc)
  case Nil
  then show ?case by (simp add: with_eval_args.simps [abs_def])
next
  case (Cons a args)
  have "with_eval_args n (a # args) acc g = with_eval n a (\<lambda>x. with_eval_args n args (acc @ [x]) g)"
    by (rule ext) simp
  then show ?case
    using assms(1) Cons by simp
qed

lemma keeps_with_eval [keeps_rules]: "(\<And>x. keeps (f x)) \<Longrightarrow> keeps (with_eval n i f)"
proof (induction n arbitrary: i f)
  case 0
  have "with_eval 0 i f = failP Panic"
    by (rule ext) simp
  then show ?case by (simp add: keeps_rules)
next
  case (Suc n)
  note args = keeps_args_from [OF Suc.IH]
  show ?case
    unfolding with_eval.simps(2) [abs_def]
  proof (intro keeps_bindP keeps_get)
    fix inst
    show "keeps (case inst of IVar v \<Rightarrow> f (OVar v)
       | IApplyFn function args \<Rightarrow> with_eval_args n args [] (let_call ''call'' function f)
       | IList args \<Rightarrow>
           bindP (intern_nameP ''fn:list'') (\<lambda>g. with_eval_args n args [] (let_call ''list'' g f))
       | IMap keys vals \<Rightarrow>
           bindP (intern_nameP ''fn:map'') (\<lambda>g.
             with_eval_args n (interleave keys vals) [] (let_call ''map'' g f))
       | IStruct flds vals \<Rightarrow>
           bindP (struct_args flds vals) (\<lambda>args.
           bindP (intern_nameP ''fn:struct'') (\<lambda>g. with_eval_args n args [] (let_call ''struct'' g f)))
       | _ \<Rightarrow>
           (case const_operand inst of
              Some c \<Rightarrow> f c
            | None \<Rightarrow> failP (Anyhow ''Unsupported expression in evaluation'')))"
      using Suc.prems by (cases inst) (auto intro!: keeps_rules args)
  qed
qed

lemma keeps_with_eval_args [keeps_rules]: "(\<And>xs. keeps (g xs)) \<Longrightarrow> keeps (with_eval_args n args acc g)"
  by (rule keeps_args_from [OF keeps_with_eval])

subsection \<open>Premises\<close>

lemma keeps_inst_to_expr [keeps_rules]: "(\<And>x. keeps (f x)) \<Longrightarrow> keeps (inst_to_expr n i f)"
  unfolding inst_to_expr_def by (auto split: inst.split intro!: keeps_rules)

lemma keeps_checks [keeps_rules]:
  "keeps (wrap_eval_check n i target body)" "keeps (with_eval2 n l r w body)" "keeps (wrap_eq_check n l r body)"
  unfolding wrap_eval_check_def wrap_eq_check_def with_eval2_def by (intro keeps_rules)+

lemma keeps_head [keeps_rules]: "keeps (plan_head_insert n head)"
  unfolding plan_head_insert_def by (auto split: inst.split intro!: keeps_rules)

lemma keeps_binary [keeps_rules]:
  "keeps rest \<Longrightarrow> keeps (plan_comparison n c args rest)"
  "keeps rest \<Longrightarrow> keeps (plan_string_pred n pred args rest)"
  "keeps rest \<Longrightarrow> keeps (plan_ineq n l r rest)"
  unfolding plan_comparison_def plan_string_pred_def plan_ineq_def
  by (auto split: list.split intro!: keeps_rules)

lemma keeps_small [keeps_rules]: "keeps (unbound_var bound i)" "keeps (field_name i)"
  unfolding unbound_var_def field_name_def by (auto split: inst.split intro!: keeps_rules)

lemma keeps_matching [keeps_rules]:
  "(\<And>b. keeps (rest b)) \<Longrightarrow> keeps (plan_match_field n args bound rest)"
  "(\<And>b. keeps (rest b)) \<Longrightarrow> keeps (plan_list_member n args bound rest)"
  unfolding plan_match_field_def plan_list_member_def
  by (auto split: list.split intro!: keeps_rules)

lemma keeps_eq [keeps_rules]: "(\<And>b. keeps (rest b)) \<Longrightarrow> keeps (plan_eq n l r bound rest)"
  unfolding plan_eq_def eq_as_binding_def by (auto split: option.split intro!: keeps_rules)

lemma keeps_find_index [keeps_rules]: "keeps (find_index bound i args)"
  by (induction args arbitrary: i) (auto simp: find_index.simps [abs_def] split: inst.split intro!: keeps_rules)

lemma keeps_scan_args [keeps_rules]: "keeps (scan_args bound direct args)"
  by (induction args arbitrary: direct) (auto simp: scan_args.simps [abs_def] split: inst.split intro!: keeps_rules)

lemma keeps_constraints [keeps_rules]: "keeps (apply_constraints n args svs body)"
proof (induction args arbitrary: svs)
  case (Cons a args)
  then show ?case
    by (cases svs) (auto simp: apply_constraints.simps [abs_def] split: inst.split intro!: keeps_rules)
qed (simp add: apply_constraints.simps [abs_def] keeps_rules)

lemma keeps_scan [keeps_rules]: "(\<And>b. keeps (rest b)) \<Longrightarrow> keeps (plan_scan n pred args bound rest)"
  unfolding plan_scan_def by (auto intro!: keeps_rules keeps_state [of "\<lambda>p. retP (_ p)"])

lemma keeps_fresh_vars [keeps_rules]: "keeps (all_fresh_distinct_vars args bound out)"
  by (induction args arbitrary: out)
     (auto simp: all_fresh_distinct_vars.simps [abs_def] split: inst.split intro!: keeps_rules)

lemma keeps_try_join [keeps_rules]: "keeps (try_plan_hash_join pred args nxt bound)"
  unfolding try_plan_hash_join_def Let_def
  by (auto split: inst.split intro!: keeps_rules keeps_if_state)

lemma keeps_require [keeps_rules]: "keeps (require_bound_args args bound ctxt)"
  by (induction args) (auto simp: require_bound_args.simps [abs_def] intro!: keeps_rules)

lemma keeps_neg_operands [keeps_rules]: "keeps (neg_operands args)"
  by (induction args) (auto simp: neg_operands.simps [abs_def] intro!: keeps_rules)

lemma keeps_neg_builtin [keeps_rules]:
  "keeps rest \<Longrightarrow> keeps (plan_neg_builtin2 n msg ctxt cond args bound rest)"
  "keeps rest \<Longrightarrow> keeps (plan_neg_match_field n pred args bound rest)"
  unfolding plan_neg_builtin2_def plan_neg_match_field_def by (auto split: list.split intro!: keeps_rules)

lemma keeps_negation [keeps_rules]: "keeps rest \<Longrightarrow> keeps (plan_negation n inner bound rest)"
  unfolding plan_negation_def by (auto split: inst.split option.split intro!: keeps_rules)

lemma keeps_join_sequence [keeps_rules]: "(\<And>b. keeps (cont b)) \<Longrightarrow> keeps (plan_join_sequence n ps bound cont)"
proof (induction ps arbitrary: bound rule: length_induct)
  case (1 ps)
  show ?case
  proof (cases ps)
    case Nil
    then show ?thesis
      using 1(2) by (simp add: plan_join_sequence.simps [abs_def])
  next
    case (Cons p qs)
    have rest: "keeps (plan_join_sequence n qs b cont)" "keeps (plan_join_sequence n (tl qs) b cont)" for b
      using 1 Cons by auto
    have join: "keeps (\<lambda>st. bindP (if pl_hash_join st \<and> pl_delta st = None \<and> qs \<noteq> []
            then try_plan_hash_join pred args (hd qs) bound else retP None) (\<lambda>j.
            case j of
              Some (op, bound') \<Rightarrow> wrap_op (splice_hash_join_body op) (plan_join_sequence n (tl qs) bound' cont)
            | None \<Rightarrow> plan_scan n pred args bound (\<lambda>b. plan_join_sequence n qs b cont)) st)" for pred args
      by (rule keeps_state) (auto intro!: keeps_rules rest)
    show ?thesis
      unfolding Cons plan_join_sequence.simps(2) [abs_def]
      by (auto split: inst.split intro!: keeps_rules rest join)
  qed
qed

subsection \<open>Transforms and rules\<close>

lemma keeps_transforms [keeps_rules]: "(\<And>b. keeps (cont b)) \<Longrightarrow> keeps (plan_transforms_sequence n ts bound cont)"
  by (induction ts arbitrary: bound)
     (auto simp: plan_transforms_sequence.simps [abs_def] split: inst.split option.split intro!: keeps_rules)

lemma keeps_split [keeps_rules]: "keeps (split_loop ts blocks current)" "keeps (split_transforms ts)"
proof -
  show *: "keeps (split_loop ts blocks current)" for ts blocks current
    by (induction ts arbitrary: blocks current)
       (auto simp: split_loop.simps [abs_def] split: inst.split option.split intro!: keeps_rules)
  show "keeps (split_transforms ts)"
    unfolding split_transforms_def by (rule *)
qed

lemma keeps_app_args [keeps_rules]: "keeps (get_transform_app_args t)" "keeps (key_vars ks)" "keeps (agg_operands args)"
proof -
  show "keeps (get_transform_app_args t)"
    unfolding get_transform_app_args_def by (auto split: inst.split intro!: keeps_rules)
  show "keeps (key_vars ks)"
    by (induction ks) (auto simp: key_vars.simps [abs_def] split: inst.split intro!: keeps_rules)
  show "keeps (agg_operands args)"
    by (induction args) (auto simp: agg_operands.simps [abs_def] intro!: keeps_rules)
qed

lemma keeps_aggregate [keeps_rules]: "keeps (try_parse_aggregate t)" "keeps (split_aggregates ts)"
proof -
  show *: "keeps (try_parse_aggregate t)" for t
    unfolding try_parse_aggregate_def by (auto split: inst.split option.split intro!: keeps_rules)
  show "keeps (split_aggregates ts)"
    by (induction ts) (auto simp: split_aggregates.simps [abs_def] split: option.split intro!: keeps_rules *)
qed

lemma keeps_block [keeps_rules]: "(\<And>b. keeps (cont b)) \<Longrightarrow> keeps (plan_block_k n rel vars block cont)"
  unfolding plan_block_k_def by (auto split: list.split intro!: keeps_rules)

lemma keeps_capture [keeps_rules]: "keeps (capture rel vars)"
  unfolding capture_def Let_def by (intro keeps_rules)

lemma keeps_blocks [keeps_rules]: "keeps (plan_blocks n prefix head rel vars blocks)"
  by (induction blocks arbitrary: rel vars) (auto simp: plan_blocks.simps [abs_def] intro!: keeps_rules)

lemma keeps_rule [keeps_rules]: "keeps (plan_rule_depth n rule)" "keeps (plan_rule rule)"
proof -
  show *: "keeps (plan_rule_depth n rule)" for n
    unfolding plan_rule_depth_def plan_first_block_def
    by (auto split: inst.split list.split intro!: keeps_rules)
  show "keeps (plan_rule rule)"
    unfolding plan_rule_def [abs_def] by (rule keeps_state) (rule *)
qed

end
