(* ===== verification/Planner_Delta.thy ===== *)
theory Planner_Delta
  imports Planner_Frame Seminaive
begin

text \<open>
  Planning a rule twice.  The driver plans every rule of a recursive stratum once in full and, later, once
  for every recursive premise with that premise's predicate as the delta predicate.  The second plan is the
  delta plan of the first: fresh names are reused (they are interned already) and nothing else depends on
  the state.  The proof is a relational one: \<open>sim M dq P R f g\<close> says that when \<open>f\<close>, run first and ending in
  an IR contained in \<open>M\<close>, and \<open>g\<close>, run on an IR that contains \<open>M\<close>, both succeed, their results are related.
\<close>

named_theorems sim_rules \<open>related planning steps\<close>

subsection \<open>Two runs\<close>

definition delta_of :: "name_id option \<Rightarrow> op \<Rightarrow> op" where
  "delta_of dq p = (case dq of None \<Rightarrow> p | Some d \<Rightarrow> delta_plan d p)"

definition start :: "ir \<Rightarrow> name_id option \<Rightarrow> planner \<Rightarrow> planner \<Rightarrow> bool" where
  "start M dq p q \<longleftrightarrow> pl_delta p = None \<and> pl_delta q = dq \<and> \<not> pl_hash_join p \<and> \<not> pl_hash_join q \<and>
     pl_fresh p = pl_fresh q \<and> ir_inv (pl_ir p) \<and> ir_inv (pl_ir q) \<and> ir_inv M \<and> ir_grown M (pl_ir q)"

definition sim :: "ir \<Rightarrow> name_id option \<Rightarrow> (planner \<Rightarrow> planner \<Rightarrow> bool) \<Rightarrow>
    (planner \<Rightarrow> planner \<Rightarrow> 'a \<Rightarrow> 'b \<Rightarrow> bool) \<Rightarrow> 'a pl \<Rightarrow> 'b pl \<Rightarrow> bool" where
  "sim M dq P R f g \<longleftrightarrow>
     (\<forall>p q x p' y q'. f p = Inr (x, p') \<longrightarrow> g q = Inr (y, q') \<longrightarrow> start M dq p q \<longrightarrow> P p q \<longrightarrow>
        ir_grown (pl_ir p) M \<longrightarrow> ir_grown (pl_ir p') M \<longrightarrow> R p' q' x y \<and> pl_fresh p' = pl_fresh q')"

definition stable :: "(planner \<Rightarrow> planner \<Rightarrow> bool) \<Rightarrow> bool" where
  "stable P \<longleftrightarrow> (\<forall>p q p' q'. P p q \<longrightarrow> grown p p' \<longrightarrow> grown q q' \<longrightarrow> P p' q')"

abbreviation same :: "planner \<Rightarrow> planner \<Rightarrow> 'a \<Rightarrow> 'a \<Rightarrow> bool" where
  "same \<equiv> \<lambda>p q x y. x = y"

abbreviation planned :: "name_id option \<Rightarrow> planner \<Rightarrow> planner \<Rightarrow> planned \<Rightarrow> planned \<Rightarrow> bool" where
  "planned dq \<equiv> \<lambda>p q x y. y = (delta_of dq (fst x), snd x)"

lemma start_grown:
  "start M dq p q \<Longrightarrow> grown p p' \<Longrightarrow> grown q q' \<Longrightarrow> pl_fresh p' = pl_fresh q' \<Longrightarrow> start M dq p' q'"
  using ir_grown_trans [of M "pl_ir q" "pl_ir q'"] ir_grown_inv [of "pl_ir p" "pl_ir p'"]
    ir_grown_inv [of "pl_ir q" "pl_ir q'"] by (simp add: start_def grown_def)

lemma sim_bind_gen:
  assumes f: "sim M dq P R f f'" and g: "\<And>x y. sim M dq (\<lambda>p q. P p q \<and> R p q x y) S (g x) (g' y)"
    and st: "stable P" and k: "keeps f" "keeps f'" "\<And>x. keeps (g x)"
  shows "sim M dq P S (bindP f g) (bindP f' g')"
  unfolding sim_def
proof (intro allI impI)
  fix p q x p2 y q2
  assume run: "bindP f g p = Inr (x, p2)" "bindP f' g' q = Inr (y, q2)" and s: "start M dq p q" "P p q"
    and M: "ir_grown (pl_ir p) M" "ir_grown (pl_ir p2) M"
  obtain z p1 w q1 where one: "f p = Inr (z, p1)" "g z p1 = Inr (x, p2)" "f' q = Inr (w, q1)" "g' w q1 = Inr (y, q2)"
    using run by (auto simp: bindP_def)
  have gr: "grown p p1" "grown q q1" "grown p1 p2"
    using one k by (auto dest: keepsD)
  have M1: "ir_grown (pl_ir p1) M"
    using gr(3) M(2) ir_grown_trans by (auto simp: grown_def)
  have R: "R p1 q1 z w" "pl_fresh p1 = pl_fresh q1"
    using f one(1,3) s M(1) M1 unfolding sim_def by blast+
  have "P p1 q1"
    using st s(2) gr(1,2) unfolding stable_def by blast
  then show "S p2 q2 x y \<and> pl_fresh p2 = pl_fresh q2"
    using g [of z w] one(2,4) start_grown [OF s(1) gr(1,2) R(2)] R(1) M1 M(2) unfolding sim_def by blast
qed

lemma sim_weaken: "sim M dq P R f g \<Longrightarrow> (\<And>p q. Q p q \<Longrightarrow> P p q) \<Longrightarrow> sim M dq Q R f g"
  unfolding sim_def by blast

lemma sim_bind [sim_rules]:
  assumes "sim M dq P same f f'" "\<And>x. sim M dq P S (g x) (g' x)" "stable P" "keeps f" "keeps f'" "\<And>x. keeps (g x)"
  shows "sim M dq P S (bindP f g) (bindP f' g')"
proof (rule sim_bind_gen [OF assms(1) _ assms(3-6)])
  fix x y
  show "sim M dq (\<lambda>p q. P p q \<and> x = y) S (g x) (g' y)"
    using assms(2) [of x] by (auto simp: sim_def)
qed

lemma sim_bind_planned:
  assumes "sim M dq P (planned dq) f f'" "\<And>p cap. sim M dq P S (g (p, cap)) (g' (delta_of dq p, cap))"
    and "stable P" "keeps f" "keeps f'" "\<And>x. keeps (g x)"
  shows "sim M dq P S (bindP f g) (bindP f' g')"
proof (rule sim_bind_gen [OF assms(1) _ assms(3-6)])
  fix x y
  show "sim M dq (\<lambda>p q. P p q \<and> y = (delta_of dq (fst x), snd x)) S (g x) (g' y)"
    using assms(2) [of "fst x" "snd x"] by (auto simp: sim_def)
qed

lemma sim_ret [sim_rules]: "(\<And>p q. R p q x y) \<Longrightarrow> sim M dq P R (retP x) (retP y)"
  by (auto simp: sim_def retP_def start_def)

lemma sim_fail [sim_rules]: "sim M dq P R (failP e) g"
  by (simp add: sim_def failP_def)

lemma sim_get [sim_rules]: "sim M dq P same (get_inst i) (get_inst i)"
  unfolding sim_def get_inst_def liftP_def start_def using ir_grown_get by fastforce

lemma sim_name [sim_rules]: "sim M dq P same (name_of k) (name_of k)"
proof -
  have "x = y" if "resolve_name m k = Inr x" "resolve_name m' k = Inr y" "ir_grown m M" "ir_grown M m'"
    "ir_inv m" "ir_inv M" for m m' x y
    using that ir_grown_resolve by (metis sum.inject(2))
  then show ?thesis
    unfolding sim_def name_of_def liftP_def start_def by fastforce
qed

lemma intern_same:
  assumes "intern_name nm m = Inr (k, m1)" "intern_name nm m' = Inr (k', m1')" "ir_grown m1 M" "ir_grown M m'"
    and "ir_inv m" "ir_inv m'" "ir_inv M"
  shows "k = k'"
proof -
  have inv: "interner_inv (name_store m)" "interner_inv (name_store m')"
    using assms(5,6) by (simp_all add: ir_inv_def)
  obtain s s' where s: "intern nm (name_store m) = Inr (k, s)" "m1 = m\<lparr>name_store := s\<rparr>"
    "intern nm (name_store m') = Inr (k', s')"
    using assms(1,2) by (auto simp: intern_name_def)
  have m1: "ir_inv m1" "resolve_name m1 k = Inr nm"
    using si.int_inv [OF inv(1) s(1)] si.int_get [OF inv(1) s(1)] s(2) assms(5)
    by (simp_all add: resolve_name_def ir_inv_def)
  then have "interner_get (name_store m') k = Inr nm"
    using ir_grown_resolve assms(3,4,7) unfolding resolve_name_def by blast
  then have "intern nm (name_store m') = Inr (k, name_store m')"
    using si.int_known [OF inv(2)] si.lkp_get [OF inv(2)] by blast
  then show ?thesis using s(3) by simp
qed

lemma sim_intern [sim_rules]: "sim M dq P same (intern_nameP nm) (intern_nameP nm)"
  unfolding sim_def intern_nameP_def start_def using intern_same by fastforce

lemma sim_fresh [sim_rules]: "sim M dq P same (fresh_var prefix) (fresh_var prefix)"
  unfolding sim_def fresh_var_def intern_nameP_def start_def using intern_same by fastforce

lemma sim_if [sim_rules]: "(b \<Longrightarrow> sim M dq P R f f') \<Longrightarrow> (\<not> b \<Longrightarrow> sim M dq P R g g') \<Longrightarrow>
    sim M dq P R (if b then f else g) (if b then f' else g')"
  by simp

lemma sim_option [sim_rules]: "sim M dq P R f f' \<Longrightarrow> (\<And>x. sim M dq P R (g x) (g' x)) \<Longrightarrow>
    sim M dq P R (case x of None \<Rightarrow> f | Some y \<Rightarrow> g y) (case x of None \<Rightarrow> f' | Some y \<Rightarrow> g' y)"
  by (cases x) simp_all

lemma sim_wrap [sim_rules]:
  assumes "sim M dq P (planned dq) f f'" "\<And>p. w' (delta_of dq p) = delta_of dq (w p)" "stable P" "keeps f" "keeps f'"
  shows "sim M dq P (planned dq) (wrap_op w f) (wrap_op w' f')"
  unfolding wrap_op_def
  by (rule sim_bind_planned [OF assms(1) _ assms(3-5)]) (auto intro!: sim_rules keeps_rules simp: assms(2))

lemma delta_of_simps [simp]:
  "delta_of dq (FilterOp c body) = FilterOp c (delta_of dq body)"
  "delta_of dq (LetOp v x body) = LetOp v x (delta_of dq body)"
  "delta_of dq (MatchField y f v body) = MatchField y f v (delta_of dq body)"
  "delta_of dq (IterateList y v body) = IterateList y v (delta_of dq body)"
  "delta_of dq (InsertOp r args) = InsertOp r args"
  "delta_of dq (GroupBy r vs ks as body) = GroupBy r vs ks as (delta_of dq body)"
  "delta_of dq (Seq ps) = Seq (map (delta_of dq) ps)"
  by (simp_all add: delta_of_def [abs_def] delta_plan_def split: option.split)

subsection \<open>Evaluating terms\<close>

text \<open>Instructions appended for the fields of a struct have other numbers in the second run, and the same
  content.\<close>

definition same_inst :: "planner \<Rightarrow> planner \<Rightarrow> inst_id \<Rightarrow> inst_id \<Rightarrow> bool" where
  "same_inst p q i j \<longleftrightarrow> i = j \<or> (\<exists>x. ir_get (pl_ir p) i = Inr x \<and> ir_get (pl_ir q) j = Inr x)"

lemma same_inst_refl [simp]: "same_inst p q i i"
  by (simp add: same_inst_def)

lemma same_inst_grown: "same_inst p q i j \<Longrightarrow> grown p p' \<Longrightarrow> grown q q' \<Longrightarrow> same_inst p' q' i j"
  unfolding same_inst_def grown_def by (elim disjE exE conjE) (auto dest: ir_grown_get)

lemma stable_same_inst: "stable (\<lambda>p q. same_inst p q i j)"
  unfolding stable_def by (intro allI impI) (rule same_inst_grown)

lemma stable_conj: "stable P \<Longrightarrow> stable Q \<Longrightarrow> stable (\<lambda>p q. P p q \<and> Q p q)"
  unfolding stable_def by blast

lemma stable_same_insts: "stable (\<lambda>p q. list_all2 (same_inst p q) is js)"
  unfolding stable_def by (intro allI impI) (erule list_all2_mono, rule same_inst_grown)

lemma sim_get_same: "sim M dq (\<lambda>p q. P p q \<and> same_inst p q i j) same (get_inst i) (get_inst j)"
proof -
  have "x = y" if "ir_get m i = Inr x" "ir_get m' j = Inr y" "ir_grown m M" "ir_grown M m'"
    "i = j \<or> (\<exists>z. ir_get m i = Inr z \<and> ir_get m' j = Inr z)" for m m' x y
    using that ir_grown_get by (metis sum.inject(2))
  then show ?thesis
    unfolding sim_def get_inst_def liftP_def start_def same_inst_def by fastforce
qed

lemma sim_add_inst: "sim M dq P (\<lambda>p q. same_inst p q) (add_instP x) (add_instP x)"
  unfolding sim_def add_instP_def same_inst_def start_def by (fastforce dest: add_instD(2))

lemma sim_struct_args:
  "sim M dq (\<lambda>_ _. True) (\<lambda>p q. list_all2 (same_inst p q)) (struct_args fs vs) (struct_args fs vs)"
proof (induction fs arbitrary: vs)
  case (Cons f fs)
  show ?case
  proof (cases vs)
    case (Cons v vs')
    show ?thesis
      unfolding Cons struct_args.simps [abs_def]
    proof (rule sim_bind_gen [OF sim_add_inst])
      fix i j
      let ?P = "\<lambda>p q. True \<and> same_inst p q i j"
      show "sim M dq ?P (\<lambda>p q. list_all2 (same_inst p q)) (bindP (struct_args fs vs') (\<lambda>rest. retP (i # v # rest)))
         (bindP (struct_args fs vs') (\<lambda>rest. retP (j # v # rest)))"
      proof (rule sim_bind_gen)
        show "sim M dq ?P (\<lambda>p q. list_all2 (same_inst p q)) (struct_args fs vs') (struct_args fs vs')"
          using Cons.IH by (rule sim_weaken) simp
        show "stable ?P"
          by (rule stable_conj [OF _ stable_same_inst]) (simp add: stable_def)
      qed (auto simp: sim_def retP_def start_def intro!: keeps_rules)
    qed (auto simp: stable_def intro!: keeps_rules)
  qed (simp add: struct_args.simps [abs_def] sim_rules)
qed (simp add: struct_args.simps [abs_def] sim_rules)

lemma sim_let_call:
  assumes "stable P" "\<And>x. sim M dq P (planned dq) (f x) (g x)" "\<And>x. keeps (f x)" "\<And>x. keeps (g x)"
  shows "sim M dq P (planned dq) (let_call prefix h f ops) (let_call prefix h g ops)"
  unfolding let_call_def using assms by (auto intro!: sim_rules keeps_rules)

definition evals_alike :: "ir \<Rightarrow> name_id option \<Rightarrow> nat \<Rightarrow> nat \<Rightarrow> bool" where
  "evals_alike M dq n n' \<longleftrightarrow>
     (\<forall>P i j f g. stable P \<longrightarrow> (\<forall>p q. P p q \<longrightarrow> same_inst p q i j) \<longrightarrow>
        (\<forall>x. sim M dq P (planned dq) (f x) (g x) \<and> keeps (f x) \<and> keeps (g x)) \<longrightarrow>
        sim M dq P (planned dq) (with_eval n i f) (with_eval n' j g))"

lemma sim_args_from:
  assumes IH: "evals_alike M dq n n'"
  shows "length args = length args' \<Longrightarrow> stable P \<Longrightarrow> \<forall>p q. P p q \<longrightarrow> list_all2 (same_inst p q) args args' \<Longrightarrow>
    \<forall>x. sim M dq P (planned dq) (f x) (g x) \<and> keeps (f x) \<and> keeps (g x) \<Longrightarrow>
    sim M dq P (planned dq) (with_eval_args n args acc f) (with_eval_args n' args' acc g)"
proof (induction args args' arbitrary: acc rule: list_induct2)
  case Nil
  then show ?case by (simp add: with_eval_args.simps [abs_def])
next
  case (Cons a args b args')
  have "sim M dq P (planned dq) (with_eval_args n args (acc @ [x]) f) (with_eval_args n' args' (acc @ [x]) g)" for x
    by (rule Cons.IH) (use Cons.prems in auto)
  moreover have "\<forall>p q. P p q \<longrightarrow> same_inst p q a b"
    using Cons.prems(2) by simp
  ultimately show ?case
    unfolding with_eval_args.simps(2) [abs_def]
    using IH [unfolded evals_alike_def, rule_format, of P a b "\<lambda>x. with_eval_args n args (acc @ [x]) f"
        "\<lambda>x. with_eval_args n' args' (acc @ [x]) g"] Cons.prems by (simp add: keeps_rules)
qed

lemma sim_struct_eval:
  assumes IH: "evals_alike M dq n n'" and P: "stable P"
    and f: "\<forall>x. sim M dq P (planned dq) (f x) (g x) \<and> keeps (f x) \<and> keeps (g x)"
  shows "sim M dq P (planned dq)
    (bindP (struct_args fs vs) (\<lambda>args. bindP (intern_nameP nm) (\<lambda>h. with_eval_args n args [] (let_call pre h f))))
    (bindP (struct_args fs vs) (\<lambda>args. bindP (intern_nameP nm) (\<lambda>h. with_eval_args n' args [] (let_call pre h g))))"
proof (rule sim_bind_gen [OF sim_weaken [OF sim_struct_args]])
  fix args args'
  let ?Q = "\<lambda>p q. P p q \<and> list_all2 (same_inst p q) args args'"
  have Q: "stable ?Q"
    by (rule stable_conj [OF P stable_same_insts])
  have fQ: "\<forall>x. sim M dq ?Q (planned dq) (f x) (g x) \<and> keeps (f x) \<and> keeps (g x)"
    using f by (auto intro: sim_weaken [of M dq P])
  show "sim M dq ?Q (planned dq) (bindP (intern_nameP nm) (\<lambda>h. with_eval_args n args [] (let_call pre h f)))
      (bindP (intern_nameP nm) (\<lambda>h. with_eval_args n' args' [] (let_call pre h g)))"
  proof (cases "length args = length args'")
    case True
    have "sim M dq ?Q (planned dq) (with_eval_args n args [] (let_call pre h f)) (with_eval_args n' args' [] (let_call pre h g))" for h
      by (rule sim_args_from [OF IH True Q]) (use fQ Q in \<open>auto intro!: sim_let_call keeps_rules\<close>)
    then show ?thesis
      by (rule sim_bind [OF sim_intern _ Q]) (use f in \<open>auto intro!: keeps_rules\<close>)
  next
    case False
    then show ?thesis
      by (auto simp: sim_def dest: list_all2_lengthD)
  qed
qed (use P f in \<open>auto intro!: keeps_rules\<close>)

lemma evals_alike: "evals_alike M dq n n'"
proof (induction n arbitrary: n')
  case 0
  have "with_eval 0 i f = failP Panic" for i f
    by (rule ext) simp
  then show ?case by (simp add: evals_alike_def sim_fail)
next
  case (Suc n)
  show ?case
  proof (cases n')
    case 0
    have "with_eval 0 i f = failP Panic" for i f
      by (rule ext) simp
    then show ?thesis by (simp add: 0 evals_alike_def sim_def failP_def)
  next
    case (Suc k)
    note IH = Suc.IH [of k]
    show ?thesis
      unfolding evals_alike_def Suc
    proof (intro allI impI)
      fix P i j and f g :: "operand \<Rightarrow> planned pl"
      assume P: "stable P" "\<forall>p q. P p q \<longrightarrow> same_inst p q i j"
        and f: "\<forall>x. sim M dq P (planned dq) (f x) (g x) \<and> keeps (f x) \<and> keeps (g x)"
      have args: "sim M dq P (planned dq) (with_eval_args n args [] (let_call pre h f)) (with_eval_args k args [] (let_call pre h g))"
        for args pre h
        by (rule sim_args_from [OF IH refl P(1)])
           (use P(1) f in \<open>auto intro!: sim_let_call keeps_rules list_all2_refl\<close>)
      show "sim M dq P (planned dq) (with_eval (Suc n) i f) (with_eval (Suc k) j g)"
        unfolding with_eval.simps(2) [abs_def]
      proof (rule sim_bind)
        show "sim M dq P same (get_inst i) (get_inst j)"
          by (rule sim_weaken [OF sim_get_same]) (use P(2) in auto)
        fix inst
        show "sim M dq P (planned dq)
          (case inst of IVar v \<Rightarrow> f (OVar v)
           | IApplyFn function args \<Rightarrow> with_eval_args n args [] (let_call ''call'' function f)
           | IList args \<Rightarrow> bindP (intern_nameP ''fn:list'') (\<lambda>g. with_eval_args n args [] (let_call ''list'' g f))
           | IMap keys vals \<Rightarrow>
               bindP (intern_nameP ''fn:map'') (\<lambda>g. with_eval_args n (interleave keys vals) [] (let_call ''map'' g f))
           | IStruct flds vals \<Rightarrow>
               bindP (struct_args flds vals) (\<lambda>args.
               bindP (intern_nameP ''fn:struct'') (\<lambda>g. with_eval_args n args [] (let_call ''struct'' g f)))
           | _ \<Rightarrow> (case const_operand inst of Some c \<Rightarrow> f c
              | None \<Rightarrow> failP (Anyhow ''Unsupported expression in evaluation'')))
          (case inst of IVar v \<Rightarrow> g (OVar v)
           | IApplyFn function args \<Rightarrow> with_eval_args k args [] (let_call ''call'' function g)
           | IList args \<Rightarrow> bindP (intern_nameP ''fn:list'') (\<lambda>h. with_eval_args k args [] (let_call ''list'' h g))
           | IMap keys vals \<Rightarrow>
               bindP (intern_nameP ''fn:map'') (\<lambda>h. with_eval_args k (interleave keys vals) [] (let_call ''map'' h g))
           | IStruct flds vals \<Rightarrow>
               bindP (struct_args flds vals) (\<lambda>args.
               bindP (intern_nameP ''fn:struct'') (\<lambda>h. with_eval_args k args [] (let_call ''struct'' h g)))
           | _ \<Rightarrow> (case const_operand inst of Some c \<Rightarrow> g c
              | None \<Rightarrow> failP (Anyhow ''Unsupported expression in evaluation'')))"
          using f P(1) args sim_struct_eval [OF IH P(1) f]
          by (cases inst) (auto intro!: sim_rules keeps_rules)
      qed (use P(1) f in \<open>auto split: inst.split intro!: keeps_rules\<close>)
    qed
  qed
qed

lemma sim_with_eval [sim_rules]:
  "stable P \<Longrightarrow> (\<And>x. sim M dq P (planned dq) (f x) (g x)) \<Longrightarrow> (\<And>x. keeps (f x)) \<Longrightarrow> (\<And>x. keeps (g x)) \<Longrightarrow>
     sim M dq P (planned dq) (with_eval n i f) (with_eval n' i g)"
  using evals_alike [of M dq n n'] unfolding evals_alike_def by simp

lemma sim_with_eval_args [sim_rules]:
  "stable P \<Longrightarrow> (\<And>x. sim M dq P (planned dq) (f x) (g x)) \<Longrightarrow> (\<And>x. keeps (f x)) \<Longrightarrow> (\<And>x. keeps (g x)) \<Longrightarrow>
     sim M dq P (planned dq) (with_eval_args n args acc f) (with_eval_args n' args acc g)"
  by (rule sim_args_from [OF evals_alike refl]) (auto intro: list_all2_refl)

subsection \<open>The order of the premises\<close>

definition agreeR :: "'a result \<Rightarrow> 'a result \<Rightarrow> bool" where
  "agreeR r r' \<longleftrightarrow> (\<forall>x y. r = Inr x \<longrightarrow> r' = Inr y \<longrightarrow> x = y)"

named_theorems agree_rules \<open>two evaluations that agree when both succeed\<close>

lemma agreeR_basic [agree_rules]: "agreeR r r" "agreeR (Inl e) r" "agreeR r (Inl e)"
  by (simp_all add: agreeR_def)

lemma agreeR_bind [agree_rules]: "agreeR r r' \<Longrightarrow> (\<And>x. agreeR (f x) (f' x)) \<Longrightarrow> agreeR (bindR r f) (bindR r' f')"
  by (auto simp: agreeR_def)

lemma agreeR_if [agree_rules]:
  "(b \<Longrightarrow> agreeR r r') \<Longrightarrow> (\<not> b \<Longrightarrow> agreeR s s') \<Longrightarrow> agreeR (if b then r else s) (if b then r' else s')"
  by simp

lemma agreeR_pair [agree_rules]:
  "(\<And>x y. agreeR (f x y) (f' x y)) \<Longrightarrow> agreeR (case z of (x, y) \<Rightarrow> f x y) (case z of (x, y) \<Rightarrow> f' x y)"
  by (cases z) simp

lemma agreeR_traverse [agree_rules]:
  "(\<And>x. agreeR (f x) (f' x)) \<Longrightarrow> agreeR (traverseR f xs) (traverseR f' xs)"
  by (induction xs) (auto intro!: agree_rules)

lemma agreeR_tests [agree_rules]:
  "agreeR a a' \<Longrightarrow> agreeR b b' \<Longrightarrow> agreeR (andR a b) (andR a' b')"
  "agreeR a a' \<Longrightarrow> agreeR b b' \<Longrightarrow> agreeR (orR a b) (orR a' b')"
  by (auto simp: andR_def orR_def intro!: agree_rules)

lemma agreeR_all [agree_rules]: "(\<And>x. agreeR (f x) (f' x)) \<Longrightarrow> agreeR (allR f xs) (allR f' xs)"
  by (induction xs) (auto intro!: agree_rules)

lemma agreeR_union [agree_rules]:
  "(\<And>x. agreeR (f x) (f' x)) \<Longrightarrow> agreeR (union_results f xs) (union_results f' xs)"
  unfolding union_results_def by (intro agree_rules)

text \<open>All of it on an IR and a larger one.\<close>

definition ir_ext :: "ir \<Rightarrow> ir \<Rightarrow> bool" where
  "ir_ext m m' \<longleftrightarrow> (\<forall>i x. ir_get m i = Inr x \<longrightarrow> ir_get m' i = Inr x) \<and>
     (\<forall>k nm. resolve_name m k = Inr nm \<longrightarrow> resolve_name m' k = Inr nm)"

lemma agree_get [agree_rules]: "ir_ext m m' \<Longrightarrow> agreeR (ir_get m i) (ir_get m' i)"
  unfolding ir_ext_def agreeR_def by (metis sum.inject(2))

lemma agree_resolve [agree_rules]: "ir_ext m m' \<Longrightarrow> agreeR (resolve_name m k) (resolve_name m' k)"
  unfolding ir_ext_def agreeR_def by (metis sum.inject(2))

lemma agree_collect [agree_rules]: "ir_ext m m' \<Longrightarrow> agreeR (collect_vars n m i) (collect_vars n' m' i)"
proof (induction n arbitrary: n' i)
  case (Suc n)
  show ?case
  proof (cases n')
    case (Suc k)
    then show ?thesis
      using Suc.IH Suc.prems by (auto split: inst.split intro!: agree_rules)
  qed (simp add: agree_rules)
qed (simp add: agree_rules)

lemma agree_bound [agree_rules]:
  "ir_ext m m' \<Longrightarrow> agreeR (term_fully_bound n m i bound) (term_fully_bound n' m' i bound)"
  unfolding term_fully_bound_def by (intro agree_rules)

lemma agree_ready [agree_rules]: "ir_ext m m' \<Longrightarrow> agreeR (premise_ready n m p bound) (premise_ready n' m' p bound)"
  unfolding premise_ready_def eq_as_binding_ready_def by (auto split: inst.split intro!: agree_rules)

lemma agree_var_of [agree_rules]: "ir_ext m m' \<Longrightarrow> agreeR (var_of m i) (var_of m' i)"
  unfolding var_of_def by (intro agree_rules)

lemma agree_bindings [agree_rules]:
  "ir_ext m m' \<Longrightarrow> agreeR (premise_bindings n m p bound) (premise_bindings n' m' p bound)"
  unfolding premise_bindings_def by (auto split: inst.split list.split intro!: agree_rules)

lemma agree_waiting [agree_rules]:
  "ir_ext m m' \<Longrightarrow> agreeR (place_waiting n m ws ordered bound) (place_waiting n' m' ws ordered bound)"
  by (induction ws arbitrary: ordered bound) (auto intro!: agree_rules)

lemma agree_place_loop [agree_rules]:
  "ir_ext m m' \<Longrightarrow> agreeR (place_loop n m ws ordered bound) (place_loop n' m' ws ordered bound)"
proof (induction "length ws" arbitrary: ws ordered bound rule: less_induct)
  case less
  have wait: "agreeR (place_waiting n m ws ordered bound) (place_waiting n' m' ws ordered bound)"
    using less.prems by (rule agree_waiting)
  show ?case
  proof (cases "place_waiting n m ws ordered bound")
    case one: (Inr r)
    obtain ordered' bound' still where r: "r = (ordered', bound', still)"
      by (cases r)
    have rest: "agreeR (place_loop n m still ordered' bound') (place_loop n' m' still ordered' bound')"
      if "length still \<noteq> length ws"
      by (rule less.hyps [OF _ less.prems])
         (use that place_waiting_length [of n m ws ordered bound ordered' bound' still] one r in simp)
    show ?thesis
    proof (cases "place_waiting n' m' ws ordered bound")
      case two: (Inr r')
      then have r': "r' = (ordered', bound', still)"
        using wait one r by (simp add: agreeR_def)
      show ?thesis
        unfolding place_loop.simps [of n m ws] place_loop.simps [of n' m' ws] one two r r' bindR_simps prod.case
        by (intro agree_rules rest)
    qed (simp add: agree_rules place_loop.simps [of n' m' ws])
  qed (simp add: agree_rules place_loop.simps [of n m ws])
qed

lemma agree_delay_loop [agree_rules]:
  "ir_ext m m' \<Longrightarrow> agreeR (delay_loop n m ps ordered bound waiting) (delay_loop n' m' ps ordered bound waiting)"
proof (induction ps arbitrary: ordered bound waiting)
  case (Cons p ps)
  then show ?case
    by (auto simp: place_premise_def intro!: agree_rules simp del: place_loop.simps)
qed (simp add: agree_rules)

lemma start_ext: "start M dq p q \<Longrightarrow> ir_grown (pl_ir p) M \<Longrightarrow> ir_ext (pl_ir p) (pl_ir q)"
  unfolding ir_ext_def start_def using ir_grown_get ir_grown_resolve by blast

lemma sim_lift:
  assumes "\<And>m m'. ir_ext m m' \<Longrightarrow> agreeR (f m) (f' m')"
  shows "sim M dq P same (liftP (\<lambda>p. f (pl_ir p))) (liftP (\<lambda>p. f' (pl_ir p)))"
  unfolding sim_def
proof (intro allI impI)
  fix p q x p' y q'
  assume run: "liftP (\<lambda>p. f (pl_ir p)) p = Inr (x, p')" "liftP (\<lambda>p. f' (pl_ir p)) q = Inr (y, q')"
    and s: "start M dq p q" "ir_grown (pl_ir p) M"
  have "agreeR (f (pl_ir p)) (f' (pl_ir q))"
    by (rule assms [OF start_ext [OF s]])
  then show "x = y \<and> pl_fresh p' = pl_fresh q'"
    using run s(1) by (auto simp: liftP_def agreeR_def start_def)
qed

subsection \<open>Premises\<close>

lemma sim_inst_to_expr [sim_rules]:
  "stable P \<Longrightarrow> (\<And>x. sim M dq P (planned dq) (f x) (g x)) \<Longrightarrow> (\<And>x. keeps (f x)) \<Longrightarrow> (\<And>x. keeps (g x)) \<Longrightarrow>
     sim M dq P (planned dq) (inst_to_expr n i f) (inst_to_expr n' i g)"
  unfolding inst_to_expr_def by (auto split: inst.split intro!: sim_rules keeps_rules)

lemma sim_eval2 [sim_rules]:
  assumes "stable P" "\<And>x y p. w' x y (delta_of dq p) = delta_of dq (w x y p)"
  shows "sim M dq P (planned dq) (with_eval2 n l r w body) (with_eval2 n' l r w' (delta_of dq (fst body), snd body))"
  unfolding with_eval2_def using assms by (auto intro!: sim_rules keeps_rules)

lemma sim_checks [sim_rules]:
  "stable P \<Longrightarrow> sim M dq P (planned dq) (wrap_eval_check n i x body) (wrap_eval_check n' i x (delta_of dq (fst body), snd body))"
  "stable P \<Longrightarrow> sim M dq P (planned dq) (wrap_eq_check n l r body) (wrap_eq_check n' l r (delta_of dq (fst body), snd body))"
  unfolding wrap_eval_check_def wrap_eq_check_def by (auto intro!: sim_rules keeps_rules)

lemmas sim_checks_pair [sim_rules] = sim_checks [where body = "(body, cap)" for body cap, unfolded fst_conv snd_conv]
lemmas sim_eval2_pair [sim_rules] = sim_eval2 [where body = "(body, cap)" for body cap, unfolded fst_conv snd_conv]

text \<open>The body is planned first, then wrapped.\<close>

lemma sim_bind_body:
  assumes "sim M dq P (planned dq) f f'" "\<And>body. sim M dq P S (g body) (g' (delta_of dq (fst body), snd body))"
    and "stable P" "keeps f" "keeps f'" "\<And>x. keeps (g x)"
  shows "sim M dq P S (bindP f g) (bindP f' g')"
  by (rule sim_bind_planned [OF assms(1) _ assms(3-6)]) (use assms(2) in fastforce)

lemma sim_head [sim_rules]: "stable P \<Longrightarrow> sim M dq P (planned dq) (plan_head_insert n h) (plan_head_insert n' h)"
  unfolding plan_head_insert_def by (auto split: inst.split intro!: sim_rules keeps_rules)

lemma sim_binary [sim_rules]:
  assumes "stable P" "sim M dq P (planned dq) f g" "keeps f" "keeps g"
  shows "sim M dq P (planned dq) (plan_comparison n c args f) (plan_comparison n' c args g)"
    "sim M dq P (planned dq) (plan_string_pred n pred args f) (plan_string_pred n' pred args g)"
    "sim M dq P (planned dq) (plan_ineq n l r f) (plan_ineq n' l r g)"
  unfolding plan_comparison_def plan_string_pred_def plan_ineq_def using assms
  by (auto split: list.split intro!: sim_rules sim_bind_body keeps_rules)

lemma sim_small [sim_rules]:
  "stable P \<Longrightarrow> sim M dq P same (unbound_var bound i) (unbound_var bound i)"
  "stable P \<Longrightarrow> sim M dq P same (field_name i) (field_name i)"
  unfolding unbound_var_def field_name_def by (auto split: inst.split intro!: sim_rules keeps_rules)

lemma sim_matching [sim_rules]:
  assumes "stable P" "\<And>b. sim M dq P (planned dq) (f b) (g b)" "\<And>b. keeps (f b)" "\<And>b. keeps (g b)"
  shows "sim M dq P (planned dq) (plan_match_field n args bound f) (plan_match_field n' args bound g)"
    "sim M dq P (planned dq) (plan_list_member n args bound f) (plan_list_member n' args bound g)"
  unfolding plan_match_field_def plan_list_member_def using assms
  by (auto split: list.split intro!: sim_bind sim_rules sim_bind_body keeps_rules)

lemma sim_eq [sim_rules]:
  assumes "stable P" "\<And>b. sim M dq P (planned dq) (f b) (g b)" "\<And>b. keeps (f b)" "\<And>b. keeps (g b)"
  shows "sim M dq P (planned dq) (plan_eq n l r bound f) (plan_eq n' l r bound g)"
proof -
  have binding: "sim M dq P same (eq_as_binding l r bound) (eq_as_binding l r bound)" "keeps (eq_as_binding l r bound)" for l r
    unfolding eq_as_binding_def using assms(1) by (auto intro!: sim_rules keeps_rules)
  have "sim M dq P (planned dq)
      (case z of Some (v, i) \<Rightarrow> inst_to_expr n i (\<lambda>e. wrap_op (LetOp v e) (f (insert v bound)))
       | None \<Rightarrow> bindP (f bound) (wrap_eq_check n l r))
      (case z of Some (v, i) \<Rightarrow> inst_to_expr n' i (\<lambda>e. wrap_op (LetOp v e) (g (insert v bound)))
       | None \<Rightarrow> bindP (g bound) (wrap_eq_check n' l r))" for z
  proof (cases z)
    case None
    have "sim M dq P (planned dq) (bindP (f bound) (wrap_eq_check n l r)) (bindP (g bound) (wrap_eq_check n' l r))"
      by (rule sim_bind_body) (use assms in \<open>auto intro!: sim_rules keeps_rules\<close>)
    then show ?thesis using None by simp
  qed (use assms in \<open>auto intro!: sim_rules keeps_rules\<close>)
  moreover have "keeps (case z of Some (v, i) \<Rightarrow> inst_to_expr n i (\<lambda>e. wrap_op (LetOp v e) (f (insert v bound)))
       | None \<Rightarrow> bindP (f bound) (wrap_eq_check n l r))" for z
    using assms by (auto split: option.split intro!: keeps_rules)
  ultimately show ?thesis
    unfolding plan_eq_def
    using assms by (intro sim_bind binding assms(1)) (auto intro!: binding sim_rules keeps_rules split: option.split)
qed

lemma sim_find_index [sim_rules]: "stable P \<Longrightarrow> sim M dq P same (find_index bound i args) (find_index bound i args)"
  by (induction args arbitrary: i)
     (auto simp: find_index.simps [abs_def] split: inst.split intro!: sim_rules keeps_rules)

lemma sim_scan_args [sim_rules]: "stable P \<Longrightarrow> sim M dq P same (scan_args bound direct args) (scan_args bound direct args)"
  by (induction args arbitrary: direct)
     (auto simp: scan_args.simps [abs_def] split: inst.split intro!: sim_rules keeps_rules)

lemma sim_constraints [sim_rules]:
  assumes "stable P"
  shows "sim M dq P (planned dq) (apply_constraints n args svs body)
    (apply_constraints n' args svs (delta_of dq (fst body), snd body))"
proof (induction args arbitrary: svs)
  case (Cons a args)
  show ?case
  proof (cases svs)
    case Nil
    then show ?thesis by (simp add: apply_constraints.simps [abs_def] sim_rules)
  next
    case (Cons sv svs')
    show ?thesis
      unfolding Cons apply_constraints.simps [abs_def]
      by (rule sim_bind_body [OF Cons.IH]) (use assms in \<open>auto split: inst.split intro!: sim_rules keeps_rules\<close>)
  qed
qed (simp add: apply_constraints.simps [abs_def] sim_rules)

lemma sim_state:
  "(\<And>p q. start M dq p q \<Longrightarrow> f p = f0 p \<and> g q = g0 q) \<Longrightarrow> sim M dq P R f0 g0 \<Longrightarrow> sim M dq P R f g"
  unfolding sim_def by metis

lemma delta_of_Iterate:
  "delta_of dq (Iterate src body) = Iterate (case dq of None \<Rightarrow> src | Some d \<Rightarrow> delta_source d src) (delta_of dq body)"
  by (simp add: delta_of_def split: option.split)

lemma sim_scan [sim_rules]:
  assumes "stable P" "\<And>b. sim M dq P (planned dq) (f b) (g b)" "\<And>b. keeps (f b)" "\<And>b. keeps (g b)"
  shows "sim M dq P (planned dq) (plan_scan n pred args bound f) (plan_scan n' pred args bound g)"
proof -
  let ?src = "\<lambda>lookup svs dp. case lookup of Some (col, key) \<Rightarrow> IndexLookup pred col key svs
      | None \<Rightarrow> if dp = Some pred then ScanDelta pred svs else Scan pred svs"
  let ?fin = "\<lambda>lookup svs body p. retP (Iterate (?src lookup svs (pl_delta p)) (fst body), snd body) p"
  have "sim M dq P (planned dq) (?fin lookup svs body) (?fin lookup svs (delta_of dq (fst body), snd body))" for lookup svs body
  proof (rule sim_state)
    show "sim M dq P (planned dq) (retP (Iterate (?src lookup svs None) (fst body), snd body))
        (retP (Iterate (?src lookup svs dq) (delta_of dq (fst body)), snd body))"
      by (rule sim_ret) (auto simp: delta_of_Iterate split: option.splits)
  qed (auto simp: start_def)
  moreover have "keeps (?fin lookup svs body)" for lookup svs body
    by (rule keeps_state) (intro keeps_rules)
  moreover have "(\<lambda>(wrapped, captured) p. retP (Iterate (?src lookup svs (pl_delta p)) wrapped, captured) p) =
      (\<lambda>body. ?fin lookup svs body)" for lookup svs
    by (auto simp: fun_eq_iff)
  ultimately show ?thesis
    unfolding plan_scan_def using assms
    by (intro sim_bind sim_find_index sim_scan_args sim_bind_body) (auto intro!: sim_rules keeps_rules)
qed

lemma sim_require [sim_rules]:
  "stable P \<Longrightarrow> sim M dq P same (require_bound_args args bound ctxt) (require_bound_args args bound ctxt)"
  by (induction args) (auto simp: require_bound_args.simps [abs_def] intro!: sim_rules keeps_rules)

lemma sim_neg_operands [sim_rules]: "stable P \<Longrightarrow> sim M dq P same (neg_operands args) (neg_operands args)"
  by (induction args) (auto simp: neg_operands.simps [abs_def] intro!: sim_rules keeps_rules)

lemma sim_neg_builtin [sim_rules]:
  assumes "stable P" "sim M dq P (planned dq) f g" "keeps f" "keeps g"
  shows "sim M dq P (planned dq) (plan_neg_builtin2 n msg ctxt cond args bound f) (plan_neg_builtin2 n' msg ctxt cond args bound g)"
    "sim M dq P (planned dq) (plan_neg_match_field n pred args bound f) (plan_neg_match_field n' pred args bound g)"
  unfolding plan_neg_builtin2_def plan_neg_match_field_def using assms
  by (auto split: list.split intro!: sim_bind sim_rules sim_bind_body keeps_rules)

lemma sim_negation [sim_rules]:
  assumes "stable P" "sim M dq P (planned dq) f g" "keeps f" "keeps g"
  shows "sim M dq P (planned dq) (plan_negation n inner bound f) (plan_negation n' inner bound g)"
proof -
  have "sim M dq P (planned dq)
      (bindP f (\<lambda>(body, captured). bindP (neg_operands args) (\<lambda>ops. retP (FilterOp (Negation pred ops) body, captured))))
      (bindP g (\<lambda>(body, captured). bindP (neg_operands args) (\<lambda>ops. retP (FilterOp (Negation pred ops) body, captured))))"
    for pred args
    by (rule sim_bind_planned) (use assms in \<open>auto intro!: sim_rules keeps_rules\<close>)
  moreover have "keeps (bindP f (\<lambda>(body, captured). bindP (neg_operands args) (\<lambda>ops.
      retP (FilterOp (Negation pred ops) body, captured))))" for pred args
    using assms by (auto intro!: keeps_rules)
  ultimately show ?thesis
    unfolding plan_negation_def using assms
    by (intro sim_bind sim_get keeps_rules) (auto split: inst.split option.split intro!: sim_bind sim_name sim_if sim_neg_builtin sim_fail keeps_rules)
qed

lemma sim_join_sequence [sim_rules]:
  assumes "stable P" "\<And>b. sim M dq P (planned dq) (f b) (g b)" "\<And>b. keeps (f b)" "\<And>b. keeps (g b)"
  shows "sim M dq P (planned dq) (plan_join_sequence n ps bound f) (plan_join_sequence n' ps bound g)"
proof (induction ps arbitrary: bound)
  case Nil
  then show ?case
    using assms(2) by (simp add: plan_join_sequence.simps [abs_def])
next
  case (Cons p ps)
  let ?join = "\<lambda>n cont pred args st. bindP (if pl_hash_join st \<and> pl_delta st = None \<and> ps \<noteq> []
            then try_plan_hash_join pred args (hd ps) bound else retP None) (\<lambda>j.
            case j of
              Some (op, bound') \<Rightarrow> wrap_op (splice_hash_join_body op) (plan_join_sequence n (tl ps) bound' cont)
            | None \<Rightarrow> plan_scan n pred args bound (\<lambda>b. plan_join_sequence n ps b cont)) st"
  have join: "sim M dq P (planned dq) (?join n f pred args) (?join n' g pred args)" for pred args
  proof (rule sim_state)
    show "sim M dq P (planned dq) (plan_scan n pred args bound (\<lambda>b. plan_join_sequence n ps b f))
        (plan_scan n' pred args bound (\<lambda>b. plan_join_sequence n' ps b g))"
      using assms Cons.IH by (auto intro!: sim_scan keeps_rules)
  qed (auto simp: start_def bindP_def retP_def)
  have keeps_join: "keeps (?join n f pred args)" for pred args
    by (rule keeps_state) (use assms in \<open>auto intro!: keeps_rules\<close>)
  show ?case
    unfolding plan_join_sequence.simps(2) [abs_def]
  proof (rule sim_bind [OF sim_get])
    fix inst
    show "sim M dq P (planned dq)
      (case inst of
         IAtom pred args \<Rightarrow>
           bindP (name_of pred) (\<lambda>nm.
             case cmp_of_name nm of
               Some c \<Rightarrow> plan_comparison n c args (plan_join_sequence n ps bound f)
             | None \<Rightarrow>
                 if is_string_pred nm then plan_string_pred n pred args (plan_join_sequence n ps bound f)
                 else if nm = '':match_field'' then plan_match_field n args bound (\<lambda>b. plan_join_sequence n ps b f)
                 else if nm = '':list:member'' then plan_list_member n args bound (\<lambda>b. plan_join_sequence n ps b f)
                 else ?join n f pred args)
       | IEq l r \<Rightarrow> plan_eq n l r bound (\<lambda>b. plan_join_sequence n ps b f)
       | IIneq l r \<Rightarrow> plan_ineq n l r (plan_join_sequence n ps bound f)
       | INegAtom inner \<Rightarrow> plan_negation n inner bound (plan_join_sequence n ps bound f)
       | _ \<Rightarrow> failP (Anyhow ''Unsupported premise type''))
      (case inst of
         IAtom pred args \<Rightarrow>
           bindP (name_of pred) (\<lambda>nm.
             case cmp_of_name nm of
               Some c \<Rightarrow> plan_comparison n' c args (plan_join_sequence n' ps bound g)
             | None \<Rightarrow>
                 if is_string_pred nm then plan_string_pred n' pred args (plan_join_sequence n' ps bound g)
                 else if nm = '':match_field'' then plan_match_field n' args bound (\<lambda>b. plan_join_sequence n' ps b g)
                 else if nm = '':list:member'' then plan_list_member n' args bound (\<lambda>b. plan_join_sequence n' ps b g)
                 else ?join n' g pred args)
       | IEq l r \<Rightarrow> plan_eq n' l r bound (\<lambda>b. plan_join_sequence n' ps b g)
       | IIneq l r \<Rightarrow> plan_ineq n' l r (plan_join_sequence n' ps bound g)
       | INegAtom inner \<Rightarrow> plan_negation n' inner bound (plan_join_sequence n' ps bound g)
       | _ \<Rightarrow> failP (Anyhow ''Unsupported premise type''))"
      using assms Cons.IH
      by (cases inst) (auto intro!: join keeps_join sim_rules keeps_rules)
  qed (use assms in \<open>auto split: inst.split intro!: keeps_join keeps_rules\<close>)
qed

subsection \<open>Transforms and rules\<close>

lemma sim_transforms [sim_rules]:
  assumes "stable P" "\<And>b. sim M dq P (planned dq) (f b) (g b)" "\<And>b. keeps (f b)" "\<And>b. keeps (g b)"
  shows "sim M dq P (planned dq) (plan_transforms_sequence n ts bound f) (plan_transforms_sequence n' ts bound g)"
  using assms
  by (induction ts arbitrary: bound)
     (auto simp: plan_transforms_sequence.simps [abs_def] split: inst.split option.split intro!: sim_rules keeps_rules)

lemma sim_split [sim_rules]: "stable P \<Longrightarrow> sim M dq P same (split_transforms ts) (split_transforms ts)"
proof -
  assume "stable P"
  then have "sim M dq P same (split_loop ts blocks current) (split_loop ts blocks current)" for blocks current
    by (induction ts arbitrary: blocks current)
       (auto simp: split_loop.simps [abs_def] split: inst.split option.split intro!: sim_rules keeps_rules)
  then show ?thesis
    by (simp add: split_transforms_def)
qed

lemma sim_app_args [sim_rules]:
  assumes "stable P"
  shows "sim M dq P same (get_transform_app_args t) (get_transform_app_args t)"
    "sim M dq P same (key_vars ks) (key_vars ks)" "sim M dq P same (agg_operands args) (agg_operands args)"
proof -
  show "sim M dq P same (get_transform_app_args t) (get_transform_app_args t)"
    unfolding get_transform_app_args_def using assms by (auto split: inst.split intro!: sim_rules keeps_rules)
  show "sim M dq P same (key_vars ks) (key_vars ks)"
    using assms by (induction ks) (auto simp: key_vars.simps [abs_def] split: inst.split intro!: sim_rules keeps_rules)
  show "sim M dq P same (agg_operands args) (agg_operands args)"
    using assms by (induction args) (auto simp: agg_operands.simps [abs_def] intro!: sim_rules keeps_rules)
qed

lemma sim_aggregate [sim_rules]:
  assumes "stable P"
  shows "sim M dq P same (try_parse_aggregate t) (try_parse_aggregate t)"
    "sim M dq P same (split_aggregates ts) (split_aggregates ts)"
proof -
  show *: "sim M dq P same (try_parse_aggregate t) (try_parse_aggregate t)" for t
    unfolding try_parse_aggregate_def using assms
    by (auto split: inst.split option.split intro!: sim_rules keeps_rules)
  show "sim M dq P same (split_aggregates ts) (split_aggregates ts)"
    using assms by (induction ts)
      (auto simp: split_aggregates.simps [abs_def] split: option.split intro!: sim_rules keeps_rules *)
qed

lemma sim_block [sim_rules]:
  assumes "stable P" "\<And>b. sim M dq P (planned dq) (f b) (g b)" "\<And>b. keeps (f b)" "\<And>b. keeps (g b)"
  shows "sim M dq P (planned dq) (plan_block_k n rel vars block f) (plan_block_k n' rel vars block g)"
  unfolding plan_block_k_def using assms by (auto split: list.split intro!: sim_rules keeps_rules)

lemma sim_capture [sim_rules]: "sim M dq P (planned dq) (capture rel vars) (capture rel vars)"
  unfolding capture_def Let_def by (intro sim_rules) simp

lemma sim_blocks [sim_rules]:
  assumes "stable P"
  shows "sim M dq P (\<lambda>_ _ xs ys. ys = map (delta_of dq) xs)
    (plan_blocks n prefix h rel vars blocks) (plan_blocks n' prefix h rel vars blocks)"
proof (induction blocks arbitrary: rel vars)
  case (Cons block blocks)
  let ?R = "\<lambda>_ _ xs ys. ys = map (delta_of dq) xs"
  show ?case
  proof (cases "blocks = []")
    case True
    then show ?thesis
      unfolding plan_blocks.simps [abs_def] if_P [OF True]
      by (intro sim_bind_planned) (use assms in \<open>auto intro!: sim_rules keeps_rules\<close>)
  next
    case False
    have more: "sim M dq P ?R (bindP (plan_blocks n prefix h rel' vars' blocks) (\<lambda>ops. retP (op # ops)))
        (bindP (plan_blocks n' prefix h rel' vars' blocks) (\<lambda>ops. retP (delta_of dq op # ops)))" for rel' vars' op
      by (rule sim_bind_gen [OF Cons.IH]) (use assms in \<open>auto simp: sim_def retP_def start_def intro!: keeps_rules\<close>)
    show ?thesis
      unfolding plan_blocks.simps [abs_def] if_not_P [OF False]
      by (intro sim_bind sim_fresh sim_bind_planned) (use assms more in \<open>auto intro!: sim_rules keeps_rules\<close>)
  qed
qed (simp add: plan_blocks.simps [abs_def] sim_rules)

lemma sim_first_block:
  assumes "stable P"
  shows "sim M dq P (\<lambda>_ _ xs ys. ys = map (delta_of dq) xs)
    (plan_first_block n prefix h ps block blocks) (plan_first_block n' prefix h ps block blocks)"
proof (cases "blocks = []")
  case True
  then show ?thesis
    unfolding plan_first_block_def if_P [OF True]
    by (intro sim_bind_planned) (use assms in \<open>auto intro!: sim_rules keeps_rules\<close>)
next
  case False
  have more: "sim M dq P (\<lambda>_ _ xs ys. ys = map (delta_of dq) xs)
      (bindP (plan_blocks n prefix h rel' vars' blocks) (\<lambda>ops. retP (op # ops)))
      (bindP (plan_blocks n' prefix h rel' vars' blocks) (\<lambda>ops. retP (delta_of dq op # ops)))" for rel' vars' op
    by (rule sim_bind_gen [OF sim_blocks [OF assms]])
       (use assms in \<open>auto simp: sim_def retP_def start_def intro!: keeps_rules\<close>)
  show ?thesis
    unfolding plan_first_block_def if_not_P [OF False]
    by (intro sim_bind sim_fresh sim_bind_planned) (use assms more in \<open>auto intro!: sim_rules keeps_rules\<close>)
qed

lemma sim_rule: "sim M dq (\<lambda>_ _. True) (\<lambda>_ _ x y. y = delta_of dq x) (plan_rule_depth n rule) (plan_rule_depth n' rule)"
proof -
  let ?P = "\<lambda>_ _ :: planner. True" and ?R = "\<lambda>_ _ x y. y = delta_of dq x"
  have st: "stable ?P" by (simp add: stable_def)
  have delay: "sim M dq ?P same (liftP (\<lambda>p. delay_unbound_premises n (pl_ir p) ps))
      (liftP (\<lambda>p. delay_unbound_premises n' (pl_ir p) ps))" for ps
    unfolding delay_unbound_premises_def by (rule sim_lift) (intro agree_rules)
  have "sim M dq ?P ?R
      (bindP (plan_first_block n pre h ps block rest) (\<lambda>ops. retP (case ops of [op] \<Rightarrow> op | _ \<Rightarrow> Seq ops)))
      (bindP (plan_first_block n' pre h ps block rest) (\<lambda>ops. retP (case ops of [op] \<Rightarrow> op | _ \<Rightarrow> Seq ops)))" for pre h ps block rest
    by (rule sim_bind_gen [OF sim_first_block [OF st]])
       (auto simp: sim_def retP_def start_def st plan_first_block_def split: list.split intro!: keeps_rules)
  then have tail: "sim M dq ?P ?R
      (case blocks of [] \<Rightarrow> retP (Seq []) | block # rest \<Rightarrow>
         bindP (plan_first_block n pre h ps block rest) (\<lambda>ops. retP (case ops of [op] \<Rightarrow> op | _ \<Rightarrow> Seq ops)))
      (case blocks of [] \<Rightarrow> retP (Seq []) | block # rest \<Rightarrow>
         bindP (plan_first_block n' pre h ps block rest) (\<lambda>ops. retP (case ops of [op] \<Rightarrow> op | _ \<Rightarrow> Seq ops)))" for pre h ps blocks
    by (cases blocks) (auto intro!: sim_rules)
  have keeps_tail: "keeps (case blocks of [] \<Rightarrow> retP (Seq []) | block # rest \<Rightarrow>
      bindP (plan_first_block k pre h ps block rest) (\<lambda>ops. retP (case ops of [op] \<Rightarrow> op | _ \<Rightarrow> Seq ops)))" for k pre h ps blocks
    by (cases blocks) (auto simp: plan_first_block_def intro!: keeps_rules)
  have body: "sim M dq ?P ?R
      (bindP (liftP (\<lambda>p. delay_unbound_premises n (pl_ir p) ps)) (\<lambda>ps'. bindP (split_transforms ts) (\<lambda>blocks.
         case blocks of [] \<Rightarrow> retP (Seq []) | block # rest \<Rightarrow>
         bindP (plan_first_block n pre h ps' block rest) (\<lambda>ops. retP (case ops of [op] \<Rightarrow> op | _ \<Rightarrow> Seq ops)))))
      (bindP (liftP (\<lambda>p. delay_unbound_premises n' (pl_ir p) ps)) (\<lambda>ps'. bindP (split_transforms ts) (\<lambda>blocks.
         case blocks of [] \<Rightarrow> retP (Seq []) | block # rest \<Rightarrow>
         bindP (plan_first_block n' pre h ps' block rest) (\<lambda>ops. retP (case ops of [op] \<Rightarrow> op | _ \<Rightarrow> Seq ops)))))"
    for pre h ps ts
    by (intro sim_bind delay sim_split st tail keeps_tail keeps_bindP keeps_basic keeps_split)
  show ?thesis
    unfolding plan_rule_depth_def
  proof (rule sim_bind [OF sim_get _ st])
    fix inst
    show "sim M dq ?P ?R
      (case inst of
         IRule head ps transform \<Rightarrow>
           bindP (liftP (\<lambda>p. delay_unbound_premises n (pl_ir p) ps)) (\<lambda>ps'.
           bindP (split_transforms transform) (\<lambda>blocks.
             case blocks of
               [] \<Rightarrow> retP (Seq [])
             | block # rest \<Rightarrow>
                 bindP (plan_first_block n (''temp_grp_r'' @ show_nat (key_index rule)) head ps' block rest)
                   (\<lambda>ops. retP (case ops of [op] \<Rightarrow> op | _ \<Rightarrow> Seq ops))))
       | _ \<Rightarrow> failP (Anyhow ''Not a rule''))
      (case inst of
         IRule head ps transform \<Rightarrow>
           bindP (liftP (\<lambda>p. delay_unbound_premises n' (pl_ir p) ps)) (\<lambda>ps'.
           bindP (split_transforms transform) (\<lambda>blocks.
             case blocks of
               [] \<Rightarrow> retP (Seq [])
             | block # rest \<Rightarrow>
                 bindP (plan_first_block n' (''temp_grp_r'' @ show_nat (key_index rule)) head ps' block rest)
                   (\<lambda>ops. retP (case ops of [op] \<Rightarrow> op | _ \<Rightarrow> Seq ops))))
       | _ \<Rightarrow> failP (Anyhow ''Not a rule''))"
      using body by (cases inst) (simp_all add: sim_fail)
  qed (auto split: inst.split intro!: keeps_tail keeps_rules)
qed

text \<open>The plan of a rule for the delta predicate \<open>d\<close> is the delta plan of its full plan.\<close>

lemma plan_rule_delta:
  assumes "plan_rule rule p = Inr (x, p')" "plan_rule rule q = Inr (y, q')"
    and "ir_inv (pl_ir p)" "ir_grown (pl_ir p') (pl_ir q)" "pl_delta p = None" "pl_fresh p = pl_fresh q"
    and "\<not> pl_hash_join p" "\<not> pl_hash_join q"
  shows "y = delta_of (pl_delta q) x"
proof -
  have g: "grown p p'"
    using keepsD [OF keeps_rule(2) assms(1)] .
  then have M: "ir_inv (pl_ir p')" "ir_grown (pl_ir p) (pl_ir p')" "ir_inv (pl_ir q)"
    using assms(3,4) ir_grown_inv by (auto simp: grown_def)
  have "start (pl_ir p') (pl_delta q) p q"
    using assms M by (simp add: start_def)
  then show ?thesis
    using sim_rule [of "pl_ir p'" "pl_delta q" "Suc (length (insts (pl_ir p)))" rule "Suc (length (insts (pl_ir q)))"]
      assms(1,2) M(2) unfolding sim_def plan_rule_def by auto
qed

end
