(* ===== verification/Planner_Shape.thy ===== *)
theory Planner_Shape
  imports Planner_Delta
begin

text \<open>
  The shape of plans.  Without hash joins and without a delta predicate, the plan of a rule that does not
  aggregate is a nest of scans, index lookups, filters, lets and matches around one insertion.
\<close>

fun rule_plan :: "name_id set \<Rightarrow> (name_id \<times> nat) set \<Rightarrow> op \<Rightarrow> bool" where
  "rule_plan A H (Iterate src body) = (\<not> is_delta src \<and> source_rel src \<in> A \<and> rule_plan A H body)"
| "rule_plan A H (FilterOp c body) = (plain_cond c \<and> rule_plan A H body)"
| "rule_plan A H (InsertOp r args) = ((r, length args) \<in> H)"
| "rule_plan A H (LetOp _ _ body) = rule_plan A H body"
| "rule_plan A H (MatchField _ _ _ body) = rule_plan A H body"
| "rule_plan A H (IterateList _ _ body) = rule_plan A H body"
| "rule_plan A H _ = False"

lemma rule_planD:
  assumes "rule_plan A H p"
  shows "plain p" "simple_plan p" "is_full p" "set (reads p) \<subseteq> A" "\<exists>w\<in>H. writes p = [w]"
  using assms by (induction A H p rule: rule_plan.induct) (auto simp: is_full_def reads_def)

lemma rule_plan_mono: "rule_plan A H p \<Longrightarrow> A \<subseteq> A' \<Longrightarrow> H \<subseteq> H' \<Longrightarrow> rule_plan A' H' p"
  by (induction A H p rule: rule_plan.induct) auto

text \<open>The predicates of the atoms among premises, and the head's with the number of its arguments.\<close>

definition atoms :: "ir \<Rightarrow> inst_id list \<Rightarrow> name_id set" where
  "atoms m ps = {r. \<exists>p\<in>set ps. \<exists>args. ir_get m p = Inr (IAtom r args)}"

definition heads :: "ir \<Rightarrow> inst_id \<Rightarrow> (name_id \<times> nat) set" where
  "heads m h = {(r, n). \<exists>args. ir_get m h = Inr (IAtom r args) \<and> n = length args}"

lemma atoms_grown: "ir_grown m m' \<Longrightarrow> atoms m ps \<subseteq> atoms m' ps" "ir_grown m m' \<Longrightarrow> heads m h \<subseteq> heads m' h"
  unfolding atoms_def heads_def using ir_grown_get by fastforce+

named_theorems makes_rules \<open>planning steps that yield plans of rules\<close>

text \<open>\<open>makes ps h RA RH B f\<close>: \<open>f\<close> yields a plan of the rule with premises \<open>ps\<close> and head \<open>h\<close>, if the bodies \<open>B\<close>
  planned before are; relations of \<open>RA\<close> and heads of \<open>RH\<close> have been looked up before and are allowed too.\<close>

definition allowed :: "inst_id list \<Rightarrow> inst_id \<Rightarrow> name_id set \<Rightarrow> (name_id \<times> nat) set \<Rightarrow> ir \<Rightarrow> op \<Rightarrow> bool" where
  "allowed ps h RA RH m p \<longleftrightarrow> rule_plan (atoms m ps \<union> RA) (heads m h \<union> RH) p"

lemma allowed_grown: "allowed ps h RA RH m p \<Longrightarrow> ir_grown m m' \<Longrightarrow> allowed ps h RA RH m' p"
  unfolding allowed_def by (rule rule_plan_mono) (auto dest: atoms_grown)

definition makes :: "inst_id list \<Rightarrow> inst_id \<Rightarrow> name_id set \<Rightarrow> (name_id \<times> nat) set \<Rightarrow> op set \<Rightarrow> planned pl \<Rightarrow> bool" where
  "makes ps h RA RH B f \<longleftrightarrow>
     (\<forall>p x p'. f p = Inr (x, p') \<longrightarrow> pl_delta p = None \<longrightarrow> \<not> pl_hash_join p \<longrightarrow>
        (\<forall>b\<in>B. allowed ps h RA RH (pl_ir p) b) \<longrightarrow> allowed ps h RA RH (pl_ir p') (fst x))"

lemma makes_ret [makes_rules]: "fst x \<in> B \<Longrightarrow> makes ps h RA RH B (retP x)"
  by (simp add: makes_def retP_def)

lemma makes_ret_wrap:
  "(\<And>A H. rule_plan A H b \<Longrightarrow> rule_plan A H (w b)) \<Longrightarrow> b \<in> B \<Longrightarrow> makes ps h RA RH B (retP (w b, captured))"
  by (auto simp: makes_def retP_def allowed_def)

lemma makes_fail [makes_rules]: "makes ps h RA RH B (failP e)"
  by (simp add: makes_def failP_def)

lemma makes_bind_body:
  assumes "makes ps h RA RH B f" "keeps f" "\<And>body. makes ps h RA RH (insert (fst body) B) (g body)"
  shows "makes ps h RA RH B (bindP f g)"
  unfolding makes_def bindP_def
proof (intro allI impI)
  fix p x p'
  assume run: "bindR (f p) (\<lambda>(x, y). g x y) = Inr (x, p')" and p: "pl_delta p = None" "\<not> pl_hash_join p"
    and B: "\<forall>b\<in>B. allowed ps h RA RH (pl_ir p) b"
  obtain y p1 where y: "f p = Inr (y, p1)" "g y p1 = Inr (x, p')"
    using run by auto
  have g: "grown p p1"
    by (rule keepsD [OF assms(2) y(1)])
  then have "\<forall>b\<in>B. allowed ps h RA RH (pl_ir p1) b" "pl_delta p1 = None" "\<not> pl_hash_join p1"
    using B p by (auto simp: grown_def intro: allowed_grown)
  moreover have "allowed ps h RA RH (pl_ir p1) (fst y)"
    using assms(1) y(1) p B unfolding makes_def by blast
  ultimately show "allowed ps h RA RH (pl_ir p') (fst x)"
    using y(2) assms(3) [of y] unfolding makes_def by blast
qed

lemma makes_bind [makes_rules]:
  assumes "keeps f" "\<And>x. makes ps h RA RH B (g x)"
  shows "makes ps h RA RH B (bindP f g)"
  unfolding makes_def bindP_def
proof (intro allI impI)
  fix p x p'
  assume run: "bindR (f p) (\<lambda>(x, y). g x y) = Inr (x, p')" and p: "pl_delta p = None" "\<not> pl_hash_join p"
    and B: "\<forall>b\<in>B. allowed ps h RA RH (pl_ir p) b"
  obtain y p1 where y: "f p = Inr (y, p1)" "g y p1 = Inr (x, p')"
    using run by auto
  then have "\<forall>b\<in>B. allowed ps h RA RH (pl_ir p1) b" "pl_delta p1 = None" "\<not> pl_hash_join p1"
    using B p keepsD [OF assms(1) y(1)] by (auto simp: grown_def intro: allowed_grown)
  then show "allowed ps h RA RH (pl_ir p') (fst x)"
    using assms(2) [of y] y(2) unfolding makes_def by blast
qed

lemma makes_wrap [makes_rules]:
  assumes "makes ps h RA RH B f" "\<And>A H b. RA \<subseteq> A \<Longrightarrow> rule_plan A H b \<Longrightarrow> rule_plan A H (w b)"
  shows "makes ps h RA RH B (wrap_op w f)"
  unfolding makes_def wrap_op_def bindP_def retP_def
proof (intro allI impI)
  fix p x p'
  assume run: "bindR (f p) (\<lambda>(x, y). (case x of (body, captured) \<Rightarrow> \<lambda>q. Inr ((w body, captured), q)) y) = Inr (x, p')"
    and p: "pl_delta p = None" "\<not> pl_hash_join p" and B: "\<forall>b\<in>B. allowed ps h RA RH (pl_ir p) b"
  obtain b cap where b: "f p = Inr ((b, cap), p')" "fst x = w b"
    using run by auto
  then have "allowed ps h RA RH (pl_ir p') b"
    using assms(1) p B unfolding makes_def by (metis fst_conv)
  then show "allowed ps h RA RH (pl_ir p') (fst x)"
    using assms(2) b(2) by (simp add: allowed_def)
qed

text \<open>Looking up a premise, or the head, allows its predicate.\<close>

lemma makes_premise:
  assumes "i \<in> set ps" "\<And>inst. makes ps h (RA \<union> (case inst of IAtom r _ \<Rightarrow> {r} | _ \<Rightarrow> {})) RH {} (g inst)"
    and "\<And>inst. keeps (g inst)"
  shows "makes ps h RA RH {} (bindP (get_inst i) g)"
  unfolding makes_def
proof (intro allI impI)
  fix p x p'
  assume run: "bindP (get_inst i) g p = Inr (x, p')" and p: "pl_delta p = None" "\<not> pl_hash_join p"
  obtain inst where inst: "ir_get (pl_ir p) i = Inr inst" "g inst p = Inr (x, p')"
    using run by (auto simp: bindP_def get_inst_def liftP_def)
  let ?R = "case inst of IAtom r _ \<Rightarrow> {r} | _ \<Rightarrow> {}"
  have "allowed ps h (RA \<union> ?R) RH (pl_ir p') (fst x)"
    using assms(2) [of inst] inst(2) p unfolding makes_def by blast
  moreover have "ir_get (pl_ir p') i = Inr inst"
    using ir_grown_get [OF _ inst(1)] keepsD [OF assms(3) inst(2)] by (simp add: grown_def)
  then have "?R \<subseteq> atoms (pl_ir p') ps"
    using assms(1) by (auto simp: atoms_def split: inst.splits)
  ultimately show "allowed ps h RA RH (pl_ir p') (fst x)"
    unfolding allowed_def by (elim rule_plan_mono) auto
qed

lemma makes_head_inst:
  assumes "\<And>inst. makes ps h RA (RH \<union> (case inst of IAtom r args \<Rightarrow> {(r, length args)} | _ \<Rightarrow> {})) {} (g inst)"
    and "\<And>inst. keeps (g inst)"
  shows "makes ps h RA RH {} (bindP (get_inst h) g)"
  unfolding makes_def
proof (intro allI impI)
  fix p x p'
  assume run: "bindP (get_inst h) g p = Inr (x, p')" and p: "pl_delta p = None" "\<not> pl_hash_join p"
  obtain inst where inst: "ir_get (pl_ir p) h = Inr inst" "g inst p = Inr (x, p')"
    using run by (auto simp: bindP_def get_inst_def liftP_def)
  let ?R = "case inst of IAtom r args \<Rightarrow> {(r, length args)} | _ \<Rightarrow> {}"
  have "allowed ps h RA (RH \<union> ?R) (pl_ir p') (fst x)"
    using assms(1) [of inst] inst(2) p unfolding makes_def by blast
  moreover have "ir_get (pl_ir p') h = Inr inst"
    using ir_grown_get [OF _ inst(1)] keepsD [OF assms(2) inst(2)] by (simp add: grown_def)
  then have "?R \<subseteq> heads (pl_ir p') h"
    by (auto simp: heads_def split: inst.splits)
  ultimately show "allowed ps h RA RH (pl_ir p') (fst x)"
    unfolding allowed_def by (elim rule_plan_mono) auto
qed

lemma makes_if [makes_rules]:
  "(b \<Longrightarrow> makes ps h RA RH B f) \<Longrightarrow> (\<not> b \<Longrightarrow> makes ps h RA RH B g) \<Longrightarrow> makes ps h RA RH B (if b then f else g)"
  by simp

lemma makes_option [makes_rules]:
  "makes ps h RA RH B f \<Longrightarrow> (\<And>x. makes ps h RA RH B (g x)) \<Longrightarrow> makes ps h RA RH B (case x of None \<Rightarrow> f | Some y \<Rightarrow> g y)"
  by (cases x) simp_all

lemma makes_state:
  "(\<And>p. pl_delta p = None \<Longrightarrow> \<not> pl_hash_join p \<Longrightarrow> f p = g p) \<Longrightarrow> makes ps h RA RH B g \<Longrightarrow> makes ps h RA RH B f"
  unfolding makes_def by metis

subsection \<open>Evaluating terms\<close>

lemma makes_let_call [makes_rules]: "(\<And>x. makes ps h RA RH B (f x)) \<Longrightarrow> makes ps h RA RH B (let_call prefix g f ops)"
  unfolding let_call_def by (auto intro!: makes_rules keeps_rules)

lemma makes_args_from:
  assumes "\<And>i f. (\<And>x. makes ps h RA RH B (f x)) \<Longrightarrow> makes ps h RA RH B (with_eval n i f)"
    and "\<And>xs. length xs = length acc + length args \<Longrightarrow> makes ps h RA RH B (g xs)"
  shows "makes ps h RA RH B (with_eval_args n args acc g)"
  using assms(2)
proof (induction args arbitrary: acc)
  case Nil
  then show ?case by (simp add: with_eval_args.simps [abs_def])
next
  case (Cons a args)
  then show ?case
    using assms(1) by (simp add: with_eval_args.simps(2) [abs_def])
qed

lemma makes_with_eval [makes_rules]:
  "(\<And>x. makes ps h RA RH B (f x)) \<Longrightarrow> makes ps h RA RH B (with_eval n i f)"
proof (induction n arbitrary: i f)
  case 0
  then show ?case by (simp add: with_eval.simps(1) [abs_def] makes_rules)
next
  case (Suc n)
  note args = makes_args_from [OF Suc.IH]
  show ?case
    unfolding with_eval.simps(2) [abs_def]
  proof (rule makes_bind)
    fix inst
    show "makes ps h RA RH B (case inst of IVar v \<Rightarrow> f (OVar v)
       | IApplyFn function args \<Rightarrow> with_eval_args n args [] (let_call ''call'' function f)
       | IList args \<Rightarrow>
           bindP (intern_nameP ''fn:list'') (\<lambda>g. with_eval_args n args [] (let_call ''list'' g f))
       | IMap keys vals \<Rightarrow>
           bindP (intern_nameP ''fn:map'') (\<lambda>g.
             with_eval_args n (interleave keys vals) [] (let_call ''map'' g f))
       | IStruct flds vals \<Rightarrow>
           bindP (struct_args flds vals) (\<lambda>args.
           bindP (intern_nameP ''fn:struct'') (\<lambda>g. with_eval_args n args [] (let_call ''struct'' g f)))
       | _ \<Rightarrow>
           (case const_operand inst of
              Some c \<Rightarrow> f c
            | None \<Rightarrow> failP (Anyhow ''Unsupported expression in evaluation'')))"
      using Suc.prems by (cases inst) (auto intro!: makes_rules keeps_rules args)
  qed (rule keeps_get)
qed

lemma makes_with_eval_args [makes_rules]:
  "(\<And>xs. length xs = length acc + length args \<Longrightarrow> makes ps h RA RH B (g xs)) \<Longrightarrow>
     makes ps h RA RH B (with_eval_args n args acc g)"
  by (rule makes_args_from [OF makes_with_eval])

lemma makes_inst_to_expr [makes_rules]:
  "(\<And>x. makes ps h RA RH B (f x)) \<Longrightarrow> makes ps h RA RH B (inst_to_expr n i f)"
  unfolding inst_to_expr_def by (auto split: inst.split intro!: makes_rules keeps_rules)

lemma makes_eval2 [makes_rules]:
  "fst body \<in> B \<Longrightarrow> (\<And>x y A H b. rule_plan A H b \<Longrightarrow> rule_plan A H (w x y b)) \<Longrightarrow>
     makes ps h RA RH B (with_eval2 n l r w body)"
  unfolding with_eval2_def by (auto intro!: makes_rules keeps_rules)

lemma makes_checks [makes_rules]:
  "fst body \<in> B \<Longrightarrow> makes ps h RA RH B (wrap_eval_check n i x body)"
  "fst body \<in> B \<Longrightarrow> makes ps h RA RH B (wrap_eq_check n l r body)"
  unfolding wrap_eval_check_def wrap_eq_check_def by (auto intro!: makes_rules keeps_rules)

lemma makes_head [makes_rules]: "makes ps h RA RH {} (plan_head_insert n h)"
  unfolding plan_head_insert_def
proof (rule makes_head_inst)
  fix inst
  have "makes ps h RA (RH \<union> {(pred, length args)}) {} (with_eval_args n args [] (\<lambda>ops. retP (InsertOp pred ops, [])))" for pred args
    by (rule makes_with_eval_args) (auto simp: makes_def retP_def allowed_def)
  then show "makes ps h RA (RH \<union> (case inst of IAtom r args \<Rightarrow> {(r, length args)} | _ \<Rightarrow> {})) {}
      (case inst of IAtom pred args \<Rightarrow> with_eval_args n args [] (\<lambda>ops. retP (InsertOp pred ops, []))
       | _ \<Rightarrow> failP (Anyhow ''Head must be an atom''))"
    by (cases inst) (auto intro!: makes_rules)
qed (auto split: inst.split intro!: keeps_rules)

subsection \<open>Premises\<close>

lemma makes_binary [makes_rules]:
  assumes "makes ps h RA RH {} rest" "keeps rest"
  shows "makes ps h RA RH {} (plan_comparison n c args rest)"
    "makes ps h RA RH {} (plan_string_pred n pred args rest)" "makes ps h RA RH {} (plan_ineq n l r rest)"
  unfolding plan_comparison_def plan_string_pred_def plan_ineq_def using assms
  by (auto split: list.split intro!: makes_fail makes_bind_body makes_eval2 keeps_rules)

lemma makes_matching [makes_rules]:
  assumes "\<And>b. makes ps h RA RH {} (rest b)" "\<And>b. keeps (rest b)"
  shows "makes ps h RA RH {} (plan_match_field n args bound rest)"
    "makes ps h RA RH {} (plan_list_member n args bound rest)"
  unfolding plan_match_field_def plan_list_member_def using assms
  by (auto split: list.split option.split intro!: makes_fail makes_bind_body makes_eval2 makes_with_eval makes_wrap
      makes_ret keeps_rules makes_bind [OF keeps_small(1)] makes_bind [OF keeps_small(2)] makes_bind [OF keeps_fresh])

lemma makes_eq [makes_rules]:
  assumes "\<And>b. makes ps h RA RH {} (rest b)" "\<And>b. keeps (rest b)"
  shows "makes ps h RA RH {} (plan_eq n l r bound rest)"
  unfolding plan_eq_def eq_as_binding_def
proof (intro makes_bind)
  fix z
  have "makes ps h RA RH {} (bindP (rest bound) (wrap_eq_check n l r))"
    by (rule makes_bind_body) (use assms in \<open>auto intro!: makes_rules keeps_rules\<close>)
  then show "makes ps h RA RH {} (case z of
         Some (v, i) \<Rightarrow> inst_to_expr n i (\<lambda>e. wrap_op (LetOp v e) (rest (insert v bound)))
       | None \<Rightarrow> bindP (rest bound) (wrap_eq_check n l r))"
    using assms by (auto split: option.split intro!: makes_inst_to_expr makes_wrap keeps_rules)
qed (auto split: option.split intro!: keeps_rules)

lemma makes_constraints [makes_rules]: "makes ps h RA RH {fst body} (apply_constraints n args svs body)"
proof (induction args arbitrary: svs)
  case Nil
  then show ?case by (simp add: apply_constraints.simps [abs_def] makes_ret)
next
  case (Cons a args)
  show ?case
  proof (cases svs)
    case Nil
    then show ?thesis by (simp add: apply_constraints.simps [abs_def] makes_rules)
  next
    case (Cons sv svs')
    show ?thesis
      unfolding Cons apply_constraints.simps [abs_def]
      by (rule makes_bind_body [OF Cons.IH])
         (auto split: inst.split intro!: makes_bind makes_wrap makes_ret makes_checks keeps_rules)
  qed
qed

lemma makes_scan [makes_rules]:
  assumes "\<And>b. makes ps h RA RH {} (rest b)" "\<And>b. keeps (rest b)" "pred \<in> RA"
  shows "makes ps h RA RH {} (plan_scan n pred args bound rest)"
proof -
  have fin: "makes ps h RA RH (insert wrapped B)
      (\<lambda>p. retP (Iterate (case lookup of Some (col, key) \<Rightarrow> IndexLookup pred col key svs
          | None \<Rightarrow> if pl_delta p = Some pred then ScanDelta pred svs else Scan pred svs) wrapped, captured) p)"
    for lookup svs wrapped captured B
    using assms(3) by (auto simp: makes_def retP_def allowed_def split: option.splits)
  have "makes ps h RA RH {fst body}
      (bindP (apply_constraints n args svs body) (\<lambda>(wrapped, captured) p.
       retP (Iterate (case lookup of
                        Some (col, key) \<Rightarrow> IndexLookup pred col key svs
                      | None \<Rightarrow> if pl_delta p = Some pred then ScanDelta pred svs else Scan pred svs)
               wrapped, captured) p))" for body svs lookup
    by (rule makes_bind_body [OF makes_constraints]) (auto intro!: fin keeps_rules)
  then have "makes ps h RA RH {}
      (bindP (rest b) (\<lambda>body. bindP (apply_constraints n args svs body) (\<lambda>(wrapped, captured) p.
       retP (Iterate (case lookup of
                        Some (col, key) \<Rightarrow> IndexLookup pred col key svs
                      | None \<Rightarrow> if pl_delta p = Some pred then ScanDelta pred svs else Scan pred svs)
               wrapped, captured) p)))" for svs lookup b
    by (rule makes_bind_body [OF assms(1,2)])
  then show ?thesis
    unfolding plan_scan_def
    by (rule makes_bind [OF keeps_find_index makes_bind [OF keeps_scan_args]])
qed

lemma makes_neg_builtin [makes_rules]:
  assumes "makes ps h RA RH {} rest" "keeps rest" "\<And>x y. store_free (cond x y)"
  shows "makes ps h RA RH {} (plan_neg_builtin2 n msg ctxt cond args bound rest)"
  unfolding plan_neg_builtin2_def using assms
  by (auto split: list.split intro!: makes_fail makes_bind_body makes_eval2 makes_bind [OF keeps_require])

lemma makes_neg_field [makes_rules]:
  "makes ps h RA RH {} rest \<Longrightarrow> keeps rest \<Longrightarrow> makes ps h RA RH {} (plan_neg_match_field n pred args bound rest)"
  unfolding plan_neg_match_field_def
  by (auto split: list.split intro!: makes_fail makes_bind_body makes_eval2 makes_bind [OF keeps_require]
      makes_bind [OF keeps_small(2)])

lemma makes_negation [makes_rules]:
  assumes "makes ps h RA RH {} rest" "keeps rest"
  shows "makes ps h RA RH {} (plan_negation n inner bound rest)"
proof -
  have "makes ps h RA RH {} (bindP rest (\<lambda>(body, captured). bindP (neg_operands args) (\<lambda>ops.
      retP (FilterOp (Negation pred ops) body, captured))))" for pred args
    by (rule makes_bind_body [OF assms])
       (auto intro!: makes_bind [OF keeps_neg_operands] makes_ret_wrap [where w = "FilterOp _"])
  then show ?thesis
    unfolding plan_negation_def using assms
    by (intro makes_bind keeps_rules)
       (auto split: inst.split option.split intro!: makes_bind [OF keeps_get(2)] makes_if makes_neg_builtin makes_neg_field makes_fail)
qed

lemma makes_join_sequence [makes_rules]:
  assumes "\<And>RA b. makes ps h RA RH {} (cont b)" "\<And>b. keeps (cont b)"
  shows "set qs \<subseteq> set ps \<Longrightarrow> makes ps h RA RH {} (plan_join_sequence n qs bound cont)"
proof (induction qs arbitrary: bound RA)
  case Nil
  then show ?case using assms by (simp add: plan_join_sequence.simps [abs_def])
next
  case (Cons q qs)
  have IH: "makes ps h RA RH {} (plan_join_sequence n qs b cont)" for b RA
    using Cons by simp
  let ?join = "\<lambda>pred args st. bindP (if pl_hash_join st \<and> pl_delta st = None \<and> qs \<noteq> []
            then try_plan_hash_join pred args (hd qs) bound else retP None) (\<lambda>j.
            case j of
              Some (op, bound') \<Rightarrow> wrap_op (splice_hash_join_body op) (plan_join_sequence n (tl qs) bound' cont)
            | None \<Rightarrow> plan_scan n pred args bound (\<lambda>b. plan_join_sequence n qs b cont)) st"
  have join: "makes ps h (RA \<union> {pred}) RH {} (?join pred args)" for pred args
  proof (rule makes_state)
    show "makes ps h (RA \<union> {pred}) RH {} (plan_scan n pred args bound (\<lambda>b. plan_join_sequence n qs b cont))"
      using assms IH by (auto intro!: makes_scan keeps_rules)
  qed (auto simp: bindP_def retP_def)
  have keeps_join: "keeps (?join pred args)" for pred args
    by (rule keeps_state) (use assms in \<open>auto intro!: keeps_rules\<close>)
  show ?case
    unfolding plan_join_sequence.simps(2) [abs_def]
  proof (rule makes_premise)
    fix inst
    show "makes ps h (RA \<union> (case inst of IAtom r _ \<Rightarrow> {r} | _ \<Rightarrow> {})) RH {} (case inst of
         IAtom pred args \<Rightarrow>
           bindP (name_of pred) (\<lambda>nm.
             case cmp_of_name nm of
               Some c \<Rightarrow> plan_comparison n c args (plan_join_sequence n qs bound cont)
             | None \<Rightarrow>
                 if is_string_pred nm then plan_string_pred n pred args (plan_join_sequence n qs bound cont)
                 else if nm = '':match_field'' then plan_match_field n args bound (\<lambda>b. plan_join_sequence n qs b cont)
                 else if nm = '':list:member'' then plan_list_member n args bound (\<lambda>b. plan_join_sequence n qs b cont)
                 else ?join pred args)
       | IEq l r \<Rightarrow> plan_eq n l r bound (\<lambda>b. plan_join_sequence n qs b cont)
       | IIneq l r \<Rightarrow> plan_ineq n l r (plan_join_sequence n qs bound cont)
       | INegAtom inner \<Rightarrow> plan_negation n inner bound (plan_join_sequence n qs bound cont)
       | _ \<Rightarrow> failP (Anyhow ''Unsupported premise type''))"
      using assms IH join by (cases inst) (auto intro!: makes_rules keeps_rules)
  qed (use Cons.prems assms in \<open>auto split: inst.split intro!: keeps_join keeps_rules\<close>)
qed

lemma makes_transforms [makes_rules]:
  "(\<And>b. makes ps h RA RH {} (cont b)) \<Longrightarrow> makes ps h RA RH {} (plan_transforms_sequence n ts bound cont)"
  by (induction ts arbitrary: bound)
     (auto simp: plan_transforms_sequence.simps [abs_def] split: inst.split option.split intro!: makes_rules keeps_rules)

subsection \<open>Rules\<close>

lemma place_waiting_mset:
  "place_waiting n m ws ordered bound = Inr (ordered', bound', still) \<Longrightarrow>
     mset ordered' + mset still = mset ordered + mset ws"
proof (induction ws arbitrary: ordered bound ordered' bound' still)
  case (Cons w ws)
  then show ?case
    by (force split: if_splits prod.splits)
qed simp

lemma place_loop_mset:
  "place_loop n m ws ordered bound = Inr (ordered', bound', still) \<Longrightarrow>
     mset ordered' + mset still = mset ordered + mset ws"
proof (induction n m ws ordered bound rule: place_loop.induct)
  case (1 n m ws ordered bound)
  obtain o1 b1 s1 where one: "place_waiting n m ws ordered bound = Inr (o1, b1, s1)"
    using 1(2) by (auto simp: place_loop.simps [of n m ws])
  show ?case
  proof (cases "length s1 = length ws")
    case True
    then show ?thesis
      using 1(2) one place_waiting_mset [OF one] by (simp add: place_loop.simps [of n m ws])
  next
    case False
    then have "place_loop n m s1 o1 b1 = Inr (ordered', bound', still)"
      using 1(2) one by (simp add: place_loop.simps [of n m ws])
    then show ?thesis
      using 1(1) [OF one refl refl False] place_waiting_mset [OF one] by simp
  qed
qed

lemma delay_loop_mset:
  "delay_loop n m ps ordered bound waiting = Inr qs \<Longrightarrow> mset qs = mset ps + mset ordered + mset waiting"
proof (induction ps arbitrary: ordered bound waiting)
  case (Cons p ps)
  obtain inst ready where r: "ir_get m p = Inr inst" "(if delayable inst then premise_ready n m p bound else Inr True) = Inr ready"
    using Cons.prems by auto
  show ?case
  proof (cases ready)
    case True
    then obtain b1 o1 b2 w1 where placed: "place_loop n m waiting (ordered @ [p]) b1 = Inr (o1, b2, w1)"
      "delay_loop n m ps o1 b2 w1 = Inr qs"
      using Cons.prems r by (auto simp: place_premise_def simp del: place_loop.simps)
    have "mset qs = mset ps + (mset o1 + mset w1)"
      using Cons.IH [OF placed(2)] by (simp add: ac_simps)
    then show ?thesis
      using place_loop_mset [OF placed(1)] by (simp add: ac_simps)
  next
    case False
    then show ?thesis
      using Cons.prems r Cons.IH [of ordered bound "waiting @ [p]"] by simp
  qed
qed auto

lemma delay_mset: "delay_unbound_premises n m ps = Inr qs \<Longrightarrow> mset qs = mset ps"
  unfolding delay_unbound_premises_def using delay_loop_mset by fastforce

definition no_groups :: "ir \<Rightarrow> inst_id list \<Rightarrow> bool" where
  "no_groups m ts = list_all (\<lambda>t. case ir_get m t of Inr (ITransform None _) \<Rightarrow> False | _ \<Rightarrow> True) ts"

lemma split_loop_single:
  assumes "split_loop ts [] current p = Inr (blocks, p')" "no_groups (pl_ir p) ts"
  shows "blocks = [current @ ts] \<and> p' = p"
  using assms
proof (induction ts arbitrary: current)
  case Nil
  then show ?case by (simp add: retP_def)
next
  case (Cons t ts)
  obtain inst where inst: "ir_get (pl_ir p) t = Inr inst"
    using Cons.prems(1) by (auto simp: bindP_def get_inst_def liftP_def)
  have "\<nexists>app. inst = ITransform None app"
    using Cons.prems(2) inst by (auto simp: no_groups_def)
  then have "split_loop ts [] (current @ [t]) p = Inr (blocks, p')"
    using Cons.prems(1) inst by (auto simp: bindP_def get_inst_def liftP_def split: inst.splits option.splits)
  then show ?case
    using Cons.IH [of "current @ [t]"] Cons.prems(2) by (simp add: no_groups_def)
qed

lemma plan_rule_shape:
  assumes "plan_rule rule p = Inr (x, p')" "pl_delta p = None" "\<not> pl_hash_join p"
    and rule: "ir_get (pl_ir p) rule = Inr (IRule h ps ts)" and "no_groups (pl_ir p) ts"
  shows "rule_plan (atoms (pl_ir p') ps) (heads (pl_ir p') h) x"
proof -
  let ?n = "Suc (length (insts (pl_ir p)))"
  obtain ps' blocks p1 pre where d: "delay_unbound_premises ?n (pl_ir p) ps = Inr ps'"
    and b: "split_transforms ts p = Inr (blocks, p1)"
    and r: "(case blocks of [] \<Rightarrow> retP (Seq []) | block # rest \<Rightarrow>
       bindP (plan_first_block ?n pre h ps' block rest) (\<lambda>ops. retP (case ops of [op] \<Rightarrow> op | _ \<Rightarrow> Seq ops))) p1 = Inr (x, p')"
    using assms(1) rule
    by (auto simp: plan_rule_def plan_rule_depth_def bindP_def get_inst_def liftP_def)
  have blocks: "blocks = [ts]" "p1 = p"
    using split_loop_single [of ts "[]" p blocks p1] b assms(5) by (simp_all add: split_transforms_def)
  let ?f = "plan_join_sequence ?n ps' {} (\<lambda>vars. plan_transforms_sequence ?n ts vars (\<lambda>_. plan_head_insert ?n h))"
  obtain cap where run: "?f p = Inr ((x, cap), p')"
    using r unfolding blocks plan_first_block_def
    by (auto simp: bindP_def retP_def split: prod.splits)
  have "set ps' \<subseteq> set ps"
    using delay_mset [OF d] by (metis mset_eq_setD order_refl)
  then have "makes ps h {} {} {} ?f"
    by (intro makes_join_sequence makes_transforms makes_head keeps_rules)
  then show ?thesis
    using run assms(2,3) unfolding makes_def allowed_def by fastforce
qed

end
