(* ===== verification/Driver_Plans.thy ===== *)
theory Driver_Plans
  imports Driver_Halts Planner_Shape
begin

text \<open>
  The plans of the driver.  For rules without aggregation, the plans that the driver makes for a stratum
  have everything its evaluation needs except what depends on the rules themselves: that plans are well
  scoped, that no relation of the stratum is negated in it, and that recursion is linear.
\<close>

subsection \<open>Planning a stratum grows the IR\<close>

lemma plan_with_rule:
  "plan_with hj dq r m = Inr (op, m') \<longleftrightarrow>
     (\<exists>p'. plan_rule r ((planner_new hj m)\<lparr>pl_delta := dq\<rparr>) = Inr (op, p') \<and> m' = pl_ir p')"
  by (cases dq) (auto simp: plan_with_def with_delta_def planner_new_def)

lemma plan_with_grown: "plan_with hj dq r m = Inr (op, m') \<Longrightarrow> ir_grown m m'"
  unfolding plan_with_rule using keepsD [OF keeps_rule(2)] by (force simp: grown_def planner_new_def)

lemma plan_rules_grown: "plan_rules hj rs m = Inr (ops, m') \<Longrightarrow> ir_grown m m'"
proof (induction rs arbitrary: m ops)
  case (Cons r rs)
  then show ?case using plan_with_grown ir_grown_trans by fastforce
qed simp

lemma plan_deltas_of_grown: "plan_deltas_of hj names r ps m = Inr (ops, m') \<Longrightarrow> ir_grown m m'"
proof (induction ps arbitrary: m ops)
  case (Cons p ps)
  then show ?case
    using plan_with_grown ir_grown_trans by (fastforce split: option.splits)
qed simp

lemma plan_deltas_grown: "plan_deltas hj names rs m = Inr (ops, m') \<Longrightarrow> ir_grown m m'"
proof (induction rs arbitrary: m ops)
  case (Cons r rs)
  then show ?case using plan_deltas_of_grown ir_grown_trans by fastforce
qed simp

lemma plan_stratum_grown: "plan_stratum hj a stratum m = Inr (plan, m') \<Longrightarrow> ir_grown m m'"
  unfolding plan_stratum_def Let_def using plan_rules_grown plan_deltas_grown ir_grown_trans
  by (fastforce split: if_splits)

lemma plan_strata_grown: "plan_strata hj a strata m = Inr (plans, m') \<Longrightarrow> ir_grown m m'"
proof (induction strata arbitrary: m plans)
  case (Cons c cs)
  then show ?case using plan_stratum_grown ir_grown_trans by fastforce
qed simp

subsection \<open>The rules of a stratum\<close>

definition stratum_rule :: "ir \<Rightarrow> string set \<Rightarrow> inst_id \<Rightarrow> bool" where
  "stratum_rule m names r \<longleftrightarrow> (\<exists>h ps ts pred args nm. ir_get m r = Inr (IRule h ps ts) \<and>
     ir_get m h = Inr (IAtom pred args) \<and> resolve_name m pred = Inr nm \<and> nm \<in> names)"

lemma rules_of_one:
  assumes "(case x of
              IRule head _ _ \<Rightarrow>
                bindR (ir_get m head) (\<lambda>h.
                  case h of
                    IAtom pred _ \<Rightarrow>
                      bindR (resolve_name m pred) (\<lambda>nm.
                        if nm \<in> names then bindR (key_new i) (\<lambda>k. Inr [k]) else Inr [])
                  | _ \<Rightarrow> Inr [])
            | _ \<Rightarrow> Inr []) = Inr ks" "k \<in> set ks"
  shows "\<exists>h ps ts pred args nm. x = IRule h ps ts \<and> ir_get m h = Inr (IAtom pred args) \<and>
    resolve_name m pred = Inr nm \<and> nm \<in> names \<and> key_new i = Inr k"
proof -
  obtain h ps ts where x: "x = IRule h ps ts"
    using assms by (cases x) auto
  obtain hd where hd: "ir_get m h = Inr hd"
    using assms(1) x by (cases "ir_get m h") auto
  obtain pred args where a: "hd = IAtom pred args"
    using assms x hd by (cases hd) auto
  obtain nm where nm: "resolve_name m pred = Inr nm"
    using assms(1) x hd a by (cases "resolve_name m pred") auto
  have "nm \<in> names \<and> key_new i = Inr k"
    using assms x hd a nm by (cases "nm \<in> names"; cases "key_new i") auto
  then show ?thesis
    using x hd a nm by blast
qed

lemma rules_of_spec:
  assumes "rules_of m names i xs = Inr ks" "insts m = pre @ xs" "length pre = i" "ir_inv m" "k \<in> set ks"
  shows "stratum_rule m names k"
  using assms
proof (induction xs arbitrary: i pre ks)
  case (Cons x xs)
  obtain ks1 ks2 where ks: "rules_of m names (Suc i) xs = Inr ks2" "ks = ks1 @ ks2"
    and one: "(case x of IRule head _ _ \<Rightarrow> bindR (ir_get m head) (\<lambda>h.
                  case h of
                    IAtom pred _ \<Rightarrow> bindR (resolve_name m pred) (\<lambda>nm.
                        if nm \<in> names then bindR (key_new i) (\<lambda>k. Inr [k]) else Inr [])
                  | _ \<Rightarrow> Inr [])
            | _ \<Rightarrow> Inr []) = Inr ks1"
    using Cons.prems(1) unfolding rules_of.simps bindR_eq_Inr by blast
  show ?case
  proof (cases "k \<in> set ks2")
    case True
    then show ?thesis
      using Cons.IH [OF ks(1), of "pre @ [x]"] Cons.prems by simp
  next
    case False
    then have "k \<in> set ks1"
      using Cons.prems(5) ks(2) by simp
    then obtain h ps ts pred args nm where x: "x = IRule h ps ts" "ir_get m h = Inr (IAtom pred args)"
      "resolve_name m pred = Inr nm" "nm \<in> names" "key_new i = Inr k"
      using rules_of_one [OF one] by blast
    have len: "i < 2 ^ 32"
      using Cons.prems(2-4) by (simp add: ir_inv_def)
    have "k = of_nat (i + 1)"
      using x(5) unfolding key_new_Inr [OF len] by blast
    then have "key_index k = i"
      using key_index_of_nat [OF len] by simp
    then have "ir_get m k = Inr x"
      using Cons.prems(2,3) by (simp add: ir_get_def nth_append)
    then show ?thesis
      unfolding stratum_rule_def using x by blast
  qed
qed simp

text \<open>Rules that do not aggregate: all their transforms are lets.\<close>

fun is_let :: "inst \<Rightarrow> bool" where
  "is_let (ITransform (Some _) _) = True"
| "is_let _ = False"

fun rule_transforms :: "inst \<Rightarrow> inst_id list" where
  "rule_transforms (IRule _ _ ts) = ts"
| "rule_transforms _ = []"

definition let_at :: "ir \<Rightarrow> inst_id \<Rightarrow> bool" where
  "let_at m t = (case ir_get m t of Inl _ \<Rightarrow> False | Inr x \<Rightarrow> is_let x)"

definition no_aggregates :: "ir \<Rightarrow> bool" where
  "no_aggregates m = list_all (\<lambda>x. list_all (let_at m) (rule_transforms x)) (insts m)"

lemma let_at_grown: "let_at m t \<Longrightarrow> ir_grown m m' \<Longrightarrow> let_at m' t"
  by (auto simp: let_at_def dest: ir_grown_get split: sum.splits)

lemma let_atD: "let_at m t \<Longrightarrow> \<exists>v app. ir_get m t = Inr (ITransform (Some v) app)"
  by (cases "ir_get m t") (auto simp: let_at_def elim: is_let.elims(2))

lemma no_groupsI: "\<forall>t\<in>set ts. let_at m t \<Longrightarrow> no_groups m ts"
  by (induction ts) (auto simp: no_groups_def dest!: let_atD)

lemma no_aggregatesD:
  assumes "no_aggregates m" "ir_get m r = Inr (IRule h ps ts)" "ir_grown m m'"
  shows "no_groups m' ts"
proof (rule no_groupsI)
  have "IRule h ps ts \<in> set (insts m)"
    using assms(2) by (auto simp: ir_get_def split: if_splits)
  then show "\<forall>t\<in>set ts. let_at m' t"
    using assms(1) let_at_grown [OF _ assms(3)] unfolding no_aggregates_def list_all_iff
    by (metis rule_transforms.simps(1))
qed

lemma no_aggregates_grown: "no_aggregates m \<Longrightarrow> ir_grown m m' \<Longrightarrow> no_aggregates m'"
  using let_at_grown [of m _ m'] by (auto simp: no_aggregates_def ir_grown_def list_all_iff)

subsection \<open>The plans of a stratum\<close>

lemma grown_atom: "ir_grown m m' \<Longrightarrow> ir_get m' i = Inr (IAtom r args) \<Longrightarrow> ir_get m i = Inr (IAtom r args)"
  by (auto simp: ir_grown_def ir_get_def nth_append split: if_splits)

lemma grown_atoms: "ir_grown m m' \<Longrightarrow> atoms m' ps = atoms m ps" "ir_grown m m' \<Longrightarrow> heads m' h = heads m h"
  unfolding atoms_def heads_def using grown_atom ir_grown_get by fast+

text \<open>\<open>planned_at m m' dq r op\<close>: between \<open>m\<close> and \<open>m'\<close>, the rule \<open>r\<close> was planned for the delta predicate
  \<open>dq\<close>, if any, with the plan \<open>op\<close>.\<close>

definition planned_at :: "ir \<Rightarrow> ir \<Rightarrow> name_id option \<Rightarrow> inst_id \<Rightarrow> op \<Rightarrow> bool" where
  "planned_at m m' dq r op \<longleftrightarrow>
     (\<exists>m1 m2. ir_grown m m1 \<and> plan_with False dq r m1 = Inr (op, m2) \<and> ir_grown m2 m')"

lemma planned_atI: "plan_with False dq r m = Inr (op, m') \<Longrightarrow> planned_at m m' dq r op"
  unfolding planned_at_def using ir_grown_refl by blast

lemma planned_at_wider: "planned_at m m' dq r op \<Longrightarrow> ir_grown m0 m \<Longrightarrow> ir_grown m' m1 \<Longrightarrow> planned_at m0 m1 dq r op"
  unfolding planned_at_def using ir_grown_trans by blast

lemma plan_rules_spec:
  "plan_rules False rs m = Inr (ops, m') \<Longrightarrow> list_all2 (planned_at m m' None) rs ops"
proof (induction rs arbitrary: m ops)
  case (Cons r rs)
  obtain op m1 ops' where op: "plan_with False None r m = Inr (op, m1)" "plan_rules False rs m1 = Inr (ops', m')"
    "ops = op # ops'"
    using Cons.prems by auto
  have "list_all2 (planned_at m m' None) rs ops'"
    by (rule list_all2_mono [OF Cons.IH [OF op(2)]])
       (rule planned_at_wider, assumption, rule plan_with_grown [OF op(1)], simp)
  moreover have "planned_at m m' None r op"
    using planned_at_wider [OF planned_atI [OF op(1)] ir_grown_refl plan_rules_grown [OF op(2)]] .
  ultimately show ?case
    using op(3) by simp
qed simp

text \<open>The predicates of the stratum among the atoms of premises.\<close>

definition stratum_atoms :: "ir \<Rightarrow> string set \<Rightarrow> inst_id list \<Rightarrow> name_id set" where
  "stratum_atoms m names ps = {d \<in> atoms m ps. \<exists>nm\<in>names. resolve_name m d = Inr nm}"

lemma stratum_atom_iff:
  "stratum_atom m names p = Inr (Some d) \<longleftrightarrow>
     (\<exists>args nm. ir_get m p = Inr (IAtom d args) \<and> resolve_name m d = Inr nm \<and> nm \<in> names)"
  (is "_ \<longleftrightarrow> ?R")
proof (cases "ir_get m p")
  case (Inr x)
  then show ?thesis by (cases x) (auto simp: stratum_atom_def)
qed (simp add: stratum_atom_def)

lemma stratum_atom_grown:
  "stratum_atom m names p = Inr (Some d) \<Longrightarrow> ir_grown m m' \<Longrightarrow> ir_inv m \<Longrightarrow> stratum_atom m' names p = Inr (Some d)"
  unfolding stratum_atom_iff using ir_grown_get ir_grown_resolve by blast

lemma stratum_atoms_member: "d \<in> stratum_atoms m names ps \<longleftrightarrow> (\<exists>p\<in>set ps. stratum_atom m names p = Inr (Some d))"
  unfolding stratum_atoms_def atoms_def stratum_atom_iff by blast

lemma plan_deltas_of_spec:
  "plan_deltas_of False names r ps m = Inr (ops, m') \<Longrightarrow> ir_inv m \<Longrightarrow>
     (\<forall>op\<in>set ops. \<exists>d. planned_at m m' (Some d) r op) \<and>
     (\<forall>d\<in>stratum_atoms m names ps. \<exists>op\<in>set ops. planned_at m m' (Some d) r op)"
proof (induction ps arbitrary: m ops)
  case Nil
  then show ?case by (simp add: stratum_atoms_member)
next
  case (Cons p ps)
  obtain a where a: "stratum_atom m names p = Inr a"
    using Cons.prems(1) by auto
  show ?case
  proof (cases a)
    case None
    then have "stratum_atoms m names (p # ps) = stratum_atoms m names ps"
      using a by (auto simp: stratum_atoms_member)
    then show ?thesis
      using Cons None a by simp
  next
    case (Some d)
    then obtain op m1 ops' where op: "plan_with False (Some d) r m = Inr (op, m1)"
      "plan_deltas_of False names r ps m1 = Inr (ops', m')" "ops = op # ops'"
      using Cons.prems(1) a by auto
    have g: "ir_grown m m1" "ir_grown m1 m'"
      using plan_with_grown [OF op(1)] plan_deltas_of_grown [OF op(2)] .
    have IH: "\<forall>op\<in>set ops'. \<exists>d. planned_at m1 m' (Some d) r op"
      "\<forall>d\<in>stratum_atoms m1 names ps. \<exists>op\<in>set ops'. planned_at m1 m' (Some d) r op"
      using Cons.IH [OF op(2) ir_grown_inv [OF g(1) Cons.prems(2)]] by blast+
    have wide: "planned_at m1 m' (Some d) r op \<Longrightarrow> planned_at m m' (Some d) r op" for d op
      by (rule planned_at_wider [OF _ g(1) ir_grown_refl])
    have here: "planned_at m m' (Some d) r op"
      by (rule planned_at_wider [OF planned_atI [OF op(1)] ir_grown_refl g(2)])
    have "stratum_atoms m names (p # ps) \<subseteq> insert d (stratum_atoms m1 names ps)"
      using a Some stratum_atom_grown [OF _ g(1) Cons.prems(2)] by (fastforce simp: stratum_atoms_member)
    then show ?thesis
      using IH wide here unfolding op(3) by (metis insertE list.set_intros set_ConsD subsetD)
  qed
qed

lemma plan_deltas_spec:
  "plan_deltas False names rs m = Inr (ops, m') \<Longrightarrow> ir_inv m \<Longrightarrow>
     (\<forall>op\<in>set ops. \<exists>r\<in>set rs. \<exists>d. planned_at m m' (Some d) r op) \<and>
     (\<forall>r\<in>set rs. \<forall>h ps ts. ir_get m r = Inr (IRule h ps ts) \<longrightarrow>
        (\<forall>d\<in>stratum_atoms m names ps. \<exists>op\<in>set ops. planned_at m m' (Some d) r op))"
proof (induction rs arbitrary: m ops)
  case (Cons r rs)
  obtain ps0 ops1 m1 ops2 where op: "rule_premises m r = Inr ps0" "plan_deltas_of False names r ps0 m = Inr (ops1, m1)"
    "plan_deltas False names rs m1 = Inr (ops2, m')" "ops = ops1 @ ops2"
    using Cons.prems(1) by auto
  have g: "ir_grown m m1" "ir_grown m1 m'"
    using plan_deltas_of_grown [OF op(2)] plan_deltas_grown [OF op(3)] .
  note one = plan_deltas_of_spec [OF op(2) Cons.prems(2)]
  note IH = Cons.IH [OF op(3) ir_grown_inv [OF g(1) Cons.prems(2)]]
  have w1: "planned_at m m1 (Some d) r op \<Longrightarrow> planned_at m m' (Some d) r op" for d r op
    by (rule planned_at_wider [OF _ ir_grown_refl g(2)])
  have w2: "planned_at m1 m' (Some d) r op \<Longrightarrow> planned_at m m' (Some d) r op" for d r op
    by (rule planned_at_wider [OF _ g(1) ir_grown_refl])
  have at: "d \<in> stratum_atoms m names ps \<Longrightarrow> d \<in> stratum_atoms m1 names ps" for d ps
    unfolding stratum_atoms_member using stratum_atom_grown [OF _ g(1) Cons.prems(2)] by blast
  have get: "ir_get m r = Inr x \<Longrightarrow> ir_get m1 r = Inr x" for r x
    by (rule ir_grown_get [OF g(1)])
  have ps0: "ir_get m r = Inr (IRule h ps ts) \<Longrightarrow> ps0 = ps" for h ps ts
    using op(1) by (simp add: rule_premises_def)
  have "\<forall>op\<in>set ops. \<exists>r'\<in>set (r # rs). \<exists>d. planned_at m m' (Some d) r' op"
    unfolding op(4) set_append list.set ball_Un using one IH w1 w2 by (meson insertCI)
  moreover have "\<exists>op\<in>set ops. planned_at m m' (Some d) r' op"
    if "r' \<in> set (r # rs)" "ir_get m r' = Inr (IRule h ps ts)" "d \<in> stratum_atoms m names ps" for r' h ps ts d
  proof (cases "r' = r")
    case True
    then show ?thesis
      using one that ps0 w1 unfolding op(4) by (metis UnI1 set_append)
  next
    case False
    then have "\<exists>op\<in>set ops2. planned_at m1 m' (Some d) r' op"
      using IH that get at by (metis set_ConsD)
    then show ?thesis
      using w2 unfolding op(4) by auto
  qed
  ultimately show ?case by blast
qed simp

text \<open>A stratum that is not recursive reads none of its predicates.\<close>

lemma any_recursive_False:
  "any_recursive m names ps = Inr False \<Longrightarrow> stratum_atoms m names ps = {}"
proof (induction ps)
  case Nil
  then show ?case by (simp add: stratum_atoms_member set_eq_iff)
next
  case (Cons p ps)
  then have "stratum_atom m names p = Inr None" "any_recursive m names ps = Inr False"
    by (auto split: if_splits)
  then show ?case
    using Cons.IH by (auto simp: stratum_atoms_member set_eq_iff)
qed

lemma is_recursive_False:
  "is_recursive m names rs = Inr False \<Longrightarrow> r \<in> set rs \<Longrightarrow> ir_get m r = Inr (IRule h ps ts) \<Longrightarrow>
     stratum_atoms m names ps = {}"
  by (induction rs) (auto simp: rule_premises_def any_recursive_False split: if_splits)

subsection \<open>Delta plans keep the discipline of plans\<close>

lemma delta_source_scope [simp]:
  "source_vars (delta_source d src) = source_vars src" "source_in V (delta_source d src) = source_in V src"
  by (cases src; simp)+

lemma scoped_delta [simp]: "scoped V (delta_plan d p) = scoped V p"
  unfolding delta_plan_def by (induction V p rule: scoped.induct) (auto simp: list_all_iff)

lemma plain_delta [simp]: "plain (delta_plan d p) = plain p"
  unfolding delta_plan_def by (induction p rule: plain.induct) (auto simp: list_all_iff)

lemma map_sources_comp: "map_sources g (map_sources h p) = map_sources (\<lambda>src. g (h src)) p"
  by (induction p) simp_all

lemma full_delta: "is_full p \<Longrightarrow> full_plan (delta_plan d p) = p"
  unfolding full_plan_def delta_plan_def map_sources_comp
proof (rule map_sources_id)
  have "\<not> is_delta src \<Longrightarrow> full_source (delta_source d src) = src" for src
    by (cases src) simp_all
  then show "is_full p \<Longrightarrow> \<forall>src\<in>set (sources p). full_source (delta_source d src) = src"
    by (simp add: is_full_def list_all_iff)
qed

lemma list_all2_left: "list_all2 P xs ys \<Longrightarrow> x \<in> set xs \<Longrightarrow> \<exists>y\<in>set ys. P x y"
  by (induction rule: list_all2_induct) auto

lemma list_all2_right: "list_all2 P xs ys \<Longrightarrow> y \<in> set ys \<Longrightarrow> \<exists>x\<in>set xs. P x y"
  by (induction rule: list_all2_induct) auto

lemma planned_delta:
  assumes "planned_at m m1 None r p" "planned_at m1 m2 (Some d) r q" "ir_inv m"
  shows "q = delta_plan d p"
proof -
  obtain a b c e where p: "ir_grown m a" "plan_with False None r a = Inr (p, b)" "ir_grown b m1"
    and q: "ir_grown m1 c" "plan_with False (Some d) r c = Inr (q, e)"
    using assms(1,2) unfolding planned_at_def by blast
  obtain p' q' where "plan_rule r ((planner_new False a)\<lparr>pl_delta := None\<rparr>) = Inr (p, p')" "b = pl_ir p'"
    "plan_rule r ((planner_new False c)\<lparr>pl_delta := Some d\<rparr>) = Inr (q, q')"
    using p(2) q(2) unfolding plan_with_rule by blast
  then have "q = delta_of (Some d) p"
    using plan_rule_delta [where rule = r and x = p and y = q] ir_grown_trans [OF p(3) q(1)]
      ir_grown_inv [OF p(1) assms(3)] by (force simp: planner_new_def)
  then show ?thesis
    by (simp add: delta_of_def)
qed

lemma planned_shape:
  assumes "planned_at m m1 None r p" "no_aggregates m" "ir_get m r = Inr (IRule h ps ts)"
  shows "rule_plan (atoms m ps) (heads m h) p"
proof -
  obtain a b where p: "ir_grown m a" "plan_with False None r a = Inr (p, b)"
    using assms(1) unfolding planned_at_def by blast
  obtain p' where run: "plan_rule r ((planner_new False a)\<lparr>pl_delta := None\<rparr>) = Inr (p, p')" "b = pl_ir p'"
    using p(2) unfolding plan_with_rule by blast
  have "rule_plan (atoms b ps) (heads b h) p"
    unfolding run(2) by (rule plan_rule_shape [OF run(1)])
      (use ir_grown_get [OF p(1) assms(3)] no_aggregatesD [OF assms(2,3) p(1)] in \<open>simp_all add: planner_new_def\<close>)
  then show ?thesis
    using grown_atoms [OF ir_grown_trans [OF p(1) plan_with_grown [OF p(2)]]] by simp
qed

text \<open>What depends on the rules themselves: their plans are well scoped, and no relation of the stratum is
  negated in it or read twice by one plan.\<close>

definition rules_ok :: "op list \<Rightarrow> bool" where
  "rules_ok ops \<longleftrightarrow> list_all (\<lambda>p. scoped {} p \<and> list_all (\<lambda>r. r \<notin> written ops) (negated p) \<and>
     list_all (\<lambda>(d, _). linear_in d p) (concat (map writes ops))) ops"

lemma rules_okD:
  assumes "rules_ok ops" "p \<in> set ops"
  shows "scoped {} p" "list_all (\<lambda>r. r \<notin> written ops) (negated p)" "\<forall>d\<in>written ops. linear_in d p"
proof -
  show "scoped {} p" "list_all (\<lambda>r. r \<notin> written ops) (negated p)"
    using assms by (simp_all add: rules_ok_def list_all_iff)
  have "\<forall>w\<in>set (concat (map writes ops)). linear_in (fst w) p"
    using assms by (simp add: rules_ok_def list_all_iff case_prod_beta)
  then show "\<forall>d\<in>written ops. linear_in d p"
    by (auto simp: written_def)
qed

text \<open>The rules of a stratum with their full plans.\<close>

definition planned_rules :: "ir \<Rightarrow> ir \<Rightarrow> string set \<Rightarrow> inst_id list \<Rightarrow> op list \<Rightarrow> bool" where
  "planned_rules m m' names rules ops \<longleftrightarrow> ir_inv m \<and> no_aggregates m \<and> (\<forall>r\<in>set rules. stratum_rule m names r) \<and>
     list_all2 (planned_at m m' None) rules ops \<and> rules_ok ops"

lemma planned_origin:
  assumes "planned_rules m m' names rules ops" "p \<in> set ops"
  shows "\<exists>r\<in>set rules. \<exists>h ps ts. planned_at m m' None r p \<and> ir_get m r = Inr (IRule h ps ts) \<and>
    rule_plan (atoms m ps) (heads m h) p"
proof -
  have all: "list_all2 (planned_at m m' None) rules ops" and rule: "\<forall>r\<in>set rules. stratum_rule m names r"
    and m: "no_aggregates m"
    using assms(1) by (simp_all add: planned_rules_def)
  obtain r where r: "r \<in> set rules" "planned_at m m' None r p"
    using list_all2_right [OF all assms(2)] by blast
  then show ?thesis
    using bspec [OF rule r(1)] planned_shape [OF r(2) m] unfolding stratum_rule_def by blast
qed

text \<open>The relations a stratum writes are predicates of the stratum, so those of them that a plan reads are
  atoms of the stratum.\<close>

lemma planned_written:
  assumes pr: "planned_rules m m' names rules ops" and d: "d \<in> written ops"
  shows "\<exists>nm\<in>names. resolve_name m d = Inr nm"
proof -
  obtain p n where p: "p \<in> set ops" "(d, n) \<in> set (writes p)"
    using d by (auto simp: written_def)
  obtain r h ps ts where r: "r \<in> set rules" "ir_get m r = Inr (IRule h ps ts)" "rule_plan (atoms m ps) (heads m h) p"
    using planned_origin [OF pr p(1)] by blast
  have "(d, n) \<in> heads m h"
    using rule_planD(5) [OF r(3)] p(2) by auto
  moreover have "stratum_rule m names r"
    using pr r(1) by (simp add: planned_rules_def)
  ultimately show ?thesis
    using r(2) by (auto simp: stratum_rule_def heads_def)
qed

lemma planned_reads:
  assumes "planned_rules m m' names rules ops" "rule_plan (atoms m ps) (heads m h) p"
    and "d \<in> set (reads p)" "d \<in> written ops"
  shows "d \<in> stratum_atoms m names ps"
  using rule_planD(4) [OF assms(2)] assms(3) planned_written [OF assms(1,4)] by (auto simp: stratum_atoms_def)

lemma planned_full:
  assumes "planned_rules m m' names rules ops" "p \<in> set ops"
  shows "full_ok (written ops) p" "simple_plan p" "\<forall>d\<in>written ops. linear_in d p"
proof -
  have ok: "rules_ok ops"
    using assms(1) by (simp add: planned_rules_def)
  show "full_ok (written ops) p" "simple_plan p" "\<forall>d\<in>written ops. linear_in d p"
    using planned_origin [OF assms] rule_planD rules_okD [OF ok assms(2)] by (auto simp: full_ok_def)
qed

lemma planned_nonrecursive:
  assumes pr: "planned_rules m m' names rules ops" and "is_recursive m names rules = Inr False"
  shows "stratum_ok (Some (NonRecursive ops))"
proof -
  have "d \<notin> written ops" if p: "p \<in> set ops" "d \<in> set (reads p)" for p d
    using planned_origin [OF pr p(1)] planned_reads [OF pr _ p(2)] is_recursive_False [OF assms(2)] by blast
  then show ?thesis
    using planned_full [OF pr] by (simp add: list_all_iff)
qed

lemma planned_recursive:
  assumes pr: "planned_rules m m1 names rules ops" and g: "ir_grown m m1"
    and ds: "plan_deltas False names rules m1 = Inr (ds, m')"
  shows "stratum_ok (Some (Recursive ops ds))"
proof -
  have m: "ir_inv m" and all: "list_all2 (planned_at m m1 None) rules ops"
    using pr by (simp_all add: planned_rules_def)
  note spec = plan_deltas_spec [OF ds ir_grown_inv [OF g m]]
  have "initial_ok (written ops) ds p" if p: "p \<in> set ops" for p
  proof -
    obtain r h ps ts where r: "r \<in> set rules" "planned_at m m1 None r p" "ir_get m r = Inr (IRule h ps ts)"
      "rule_plan (atoms m ps) (heads m h) p"
      using planned_origin [OF pr p] by blast
    have "delta_plan d p \<in> set ds" if d: "d \<in> set (reads p)" "d \<in> written ops" for d
    proof -
      have "d \<in> stratum_atoms m1 names ps"
        using planned_reads [OF pr r(4) d] stratum_atom_grown [OF _ g m] unfolding stratum_atoms_member by blast
      then obtain q where "q \<in> set ds" "planned_at m1 m' (Some d) r q"
        using spec r(1) ir_grown_get [OF g r(3)] by blast
      then show ?thesis
        using planned_delta [OF r(2) _ m] by blast
    qed
    then show ?thesis
      using planned_full(2,3) [OF pr p] by (simp add: initial_ok_def list_all_iff)
  qed
  moreover have "scoped {} q \<and> plain q \<and> full_plan q \<in> set ops" if q: "q \<in> set ds" for q
  proof -
    obtain r d where r: "r \<in> set rules" "planned_at m1 m' (Some d) r q"
      using spec q by blast
    obtain p where p: "p \<in> set ops" "planned_at m m1 None r p"
      using list_all2_left [OF all r(1)] by blast
    have "q = delta_plan d p"
      by (rule planned_delta [OF p(2) r(2) m])
    then show ?thesis
      using planned_full(1) [OF pr p(1)] p(1) by (simp add: full_delta full_ok_def)
  qed
  ultimately show ?thesis
    using planned_full(1) [OF pr] by (simp add: list_all_iff)
qed

lemma planned_stratum_ok:
  assumes plan: "plan_stratum False a stratum m = Inr (sp, m')" and m: "ir_inv m" "no_aggregates m"
    and ok: "rules_ok (stratum_ops sp)"
  shows "stratum_ok sp"
proof -
  let ?names = "stratum_names a stratum"
  obtain rules where rules: "rules_of m ?names 0 (insts m) = Inr rules"
    using plan by (auto simp: plan_stratum_def Let_def)
  have rule: "\<forall>r\<in>set rules. stratum_rule m ?names r"
    using rules_of_spec [OF rules _ _ m(1), of "[]"] by simp
  show ?thesis
  proof (cases "rules = []")
    case True
    then show ?thesis
      using plan rules by (simp add: plan_stratum_def Let_def)
  next
    case False
    then obtain recu ops m1 where rc: "is_recursive m ?names rules = Inr recu"
      and ops: "plan_rules False rules m = Inr (ops, m1)"
      and sp: "if recu then \<exists>ds. plan_deltas False ?names rules m1 = Inr (ds, m') \<and> sp = Some (Recursive ops ds)
               else sp = Some (NonRecursive ops)"
      using plan rules by (auto simp: plan_stratum_def Let_def split: if_splits)
    have "rules_ok ops"
      using ok sp by (auto split: if_splits)
    then have pr: "planned_rules m m1 ?names rules ops"
      using m rule plan_rules_spec [OF ops] by (simp add: planned_rules_def)
    show ?thesis
      using sp planned_nonrecursive [OF pr] planned_recursive [OF pr plan_rules_grown [OF ops]] rc
      by (cases recu) auto
  qed
qed

lemma planned_strata_ok:
  "plan_strata False a strata m = Inr (plans, m') \<Longrightarrow> ir_inv m \<Longrightarrow> no_aggregates m \<Longrightarrow>
     list_all (\<lambda>sp. rules_ok (stratum_ops sp)) plans \<Longrightarrow> list_all stratum_ok plans"
proof (induction strata arbitrary: m plans)
  case (Cons c cs)
  obtain sp m1 sps where sp: "plan_stratum False a c m = Inr (sp, m1)" "plan_strata False a cs m1 = Inr (sps, m')"
    "plans = sp # sps"
    using Cons.prems(1) by auto
  have g: "ir_grown m m1"
    by (rule plan_stratum_grown [OF sp(1)])
  show ?case
    using planned_stratum_ok [OF sp(1) Cons.prems(2,3)] Cons.prems(4) sp(3)
      Cons.IH [OF sp(2) ir_grown_inv [OF g Cons.prems(2)] no_aggregates_grown [OF Cons.prems(3) g]]
    by simp
qed simp

end
