(* ===== verification/Planner_Props.thy ===== *)
theory Planner_Props
  imports Driver_Plans
begin

text \<open>
  Properties of the planner: what the ordering of the premises guarantees, how the plans for a delta
  predicate relate to the full plan, what plans read and write, and what planning does to the IR.
\<close>

subsection \<open>The order of the premises\<close>

text \<open>\<open>bound_after n m qs bound\<close>: the variables bound after the premises \<open>qs\<close>, if each of them that can wait
  is ready when its turn comes.\<close>

definition waits :: "ir \<Rightarrow> inst_id \<Rightarrow> bool" where
  "waits m q \<longleftrightarrow> (case ir_get m q of Inl _ \<Rightarrow> False | Inr i \<Rightarrow> delayable i)"

fun bound_after :: "nat \<Rightarrow> ir \<Rightarrow> inst_id list \<Rightarrow> name_id set \<Rightarrow> name_id set option" where
  "bound_after n m [] bound = Some bound"
| "bound_after n m (q # qs) bound =
     (if waits m q \<and> premise_ready n m q bound \<noteq> Inr True then None
      else case premise_bindings n m q bound of Inl _ \<Rightarrow> None | Inr bound' \<Rightarrow> bound_after n m qs bound')"

lemma bound_after_append:
  "bound_after n m (qs @ rs) bound =
     (case bound_after n m qs bound of None \<Rightarrow> None | Some bound' \<Rightarrow> bound_after n m rs bound')"
  by (induction qs arbitrary: bound) (auto split: sum.splits)

definition stuck :: "nat \<Rightarrow> ir \<Rightarrow> name_id set \<Rightarrow> inst_id list \<Rightarrow> bool" where
  "stuck n m bound ws \<longleftrightarrow> list_all (\<lambda>w. waits m w \<and> premise_ready n m w bound = Inr False) ws"

lemma place_waiting_spec:
  assumes "place_waiting n m ws ordered bound = Inr (ordered', bound', still)"
    and "bound_after n m ordered {} = Some bound" "list_all (waits m) ws"
  shows "bound_after n m ordered' {} = Some bound' \<and> list_all (waits m) still \<and>
    (length still = length ws \<longrightarrow> ordered' = ordered \<and> bound' = bound \<and> still = ws \<and> stuck n m bound ws) \<and>
    filter (\<lambda>q. \<not> waits m q) ordered' = filter (\<lambda>q. \<not> waits m q) ordered"
  using assms
proof (induction ws arbitrary: ordered bound still)
  case (Cons w ws)
  obtain r where r: "premise_ready n m w bound = Inr r"
    using Cons.prems(1) by auto
  show ?case
  proof (cases r)
    case True
    then obtain b where b: "premise_bindings n m w bound = Inr b"
      "place_waiting n m ws (ordered @ [w]) b = Inr (ordered', bound', still)"
      using Cons.prems(1) r by auto
    have "bound_after n m (ordered @ [w]) {} = Some b"
      using Cons.prems(2) r True b(1) by (simp add: bound_after_append)
    moreover have "length still \<le> length ws"
      by (rule place_waiting_length [OF b(2)])
    ultimately show ?thesis
      using Cons.IH [OF b(2)] Cons.prems(3) by auto
  next
    case False
    then obtain s where s: "place_waiting n m ws ordered bound = Inr (ordered', bound', s)" "still = w # s"
      using Cons.prems(1) r by auto
    then show ?thesis
      using Cons.IH [OF s(1) Cons.prems(2)] Cons.prems(3) r False by (auto simp: stuck_def)
  qed
qed (simp add: stuck_def)

lemma place_loop_spec:
  "place_loop n m ws ordered bound = Inr (ordered', bound', still) \<Longrightarrow>
     bound_after n m ordered {} = Some bound \<Longrightarrow> list_all (waits m) ws \<Longrightarrow>
     bound_after n m ordered' {} = Some bound' \<and> stuck n m bound' still \<and>
     filter (\<lambda>q. \<not> waits m q) ordered' = filter (\<lambda>q. \<not> waits m q) ordered"
proof (induction n m ws ordered bound rule: place_loop.induct)
  case (1 n m ws ordered bound)
  obtain o1 b1 s1 where one: "place_waiting n m ws ordered bound = Inr (o1, b1, s1)"
    using 1(2) by (auto simp: place_loop.simps [of n m ws])
  note spec = place_waiting_spec [OF one 1(3,4)]
  show ?case
  proof (cases "length s1 = length ws")
    case True
    then show ?thesis
      using 1(2) one spec by (auto simp: place_loop.simps [of n m ws])
  next
    case False
    then have "place_loop n m s1 o1 b1 = Inr (ordered', bound', still)"
      using 1(2) one by (simp add: place_loop.simps [of n m ws])
    then show ?thesis
      using 1(1) [OF one refl refl False] spec by simp
  qed
qed

lemma stuck_waits: "stuck n m bound ws \<Longrightarrow> list_all (waits m) ws"
  by (simp add: stuck_def list_all_iff)

lemma delay_loop_spec:
  "delay_loop n m ps ordered bound waiting = Inr qs \<Longrightarrow>
     bound_after n m ordered {} = Some bound \<Longrightarrow> stuck n m bound waiting \<Longrightarrow>
     \<exists>done ws bound'. qs = done @ ws \<and> bound_after n m done {} = Some bound' \<and> stuck n m bound' ws \<and>
       filter (\<lambda>q. \<not> waits m q) qs = filter (\<lambda>q. \<not> waits m q) (ordered @ ps)"
proof (induction ps arbitrary: ordered bound waiting)
  case Nil
  then have "qs = ordered @ waiting" "filter (\<lambda>q. \<not> waits m q) waiting = []"
    using stuck_waits [OF Nil(3)] by (auto simp: list_all_iff filter_empty_conv)
  then show ?case
    using Nil by auto
next
  case (Cons p ps)
  obtain inst ready where r: "ir_get m p = Inr inst" "(if delayable inst then premise_ready n m p bound else Inr True) = Inr ready"
    using Cons.prems(1) by auto
  have w: "waits m p = delayable inst"
    using r(1) by (simp add: waits_def)
  show ?case
  proof (cases ready)
    case True
    then obtain b1 o1 b2 w1 where placed: "premise_bindings n m p bound = Inr b1"
      "place_loop n m waiting (ordered @ [p]) b1 = Inr (o1, b2, w1)" "delay_loop n m ps o1 b2 w1 = Inr qs"
      using Cons.prems(1) r by (auto simp: place_premise_def simp del: place_loop.simps)
    have "bound_after n m (ordered @ [p]) {} = Some b1"
      using Cons.prems(2) r(2) w True placed(1) by (auto simp: bound_after_append split: if_splits)
    note step = place_loop_spec [OF placed(2) this stuck_waits [OF Cons.prems(3)]]
    have "filter (\<lambda>q. \<not> waits m q) (o1 @ ps) = filter (\<lambda>q. \<not> waits m q) (ordered @ p # ps)"
      using step by simp
    then show ?thesis
      using Cons.IH [OF placed(3)] step by metis
  next
    case False
    then have "stuck n m bound (waiting @ [p])" "waits m p"
      using Cons.prems(3) r w by (auto simp: stuck_def split: if_splits)
    then show ?thesis
      using Cons.IH [OF _ Cons.prems(2), of "waiting @ [p]"] Cons.prems(1) r False by simp
  qed
qed

text \<open>C30: The planner's ordering of the premises is a permutation of them that keeps the order of the atoms.
  In the first part of it, every negation, equation and inequation comes where its variables are bound
  (or where the equation binds one); in the rest there are only such premises, and none of them is
  ready with the variables bound by the first part.\<close>

theorem premise_order_spec:
  assumes "delay_unbound_premises n m ps = Inr qs"
  shows "mset qs = mset ps \<and> filter (\<lambda>q. \<not> waits m q) qs = filter (\<lambda>q. \<not> waits m q) ps \<and>
    (\<exists>done ws bound. qs = done @ ws \<and> bound_after n m done {} = Some bound \<and>
       list_all (\<lambda>w. waits m w \<and> premise_ready n m w bound = Inr False) ws)"
  using delay_mset [OF assms] delay_loop_spec [of n m ps "[]" "{}" "[]" qs] assms
  by (auto simp: delay_unbound_premises_def stuck_def)

text \<open>The premises \<open>!q(X), X != Y, p(X), r(Z)\<close> and, last, a rule \<open>s(X) :- p(X), r(X).\<close>\<close>

definition order_ir :: ir where
  "order_ir = ir_new\<lparr>name_store := snd (projr (intern_list intern [''p'', ''q'', ''r'', ''s'', ''X'', ''Y'', ''Z''] interner_new)),
    insts := [IVar 5, IVar 6, IVar 7, IAtom 2 [1], INegAtom 4, IIneq 1 2, IAtom 1 [1], IAtom 3 [3],
      IAtom 3 [1], IAtom 4 [1], IRule 10 [7, 9] []]\<rparr>"

theorem premise_order_spec_witness:
  "delay_unbound_premises 3 order_ir [5, 6, 7, 8] = Inr [7, 5, 8, 6] \<and>
     filter (\<lambda>q. \<not> waits order_ir q) [7, 5, 8, 6] = filter (\<lambda>q. \<not> waits order_ir q) [5, 6, 7, 8]"
proof -
  have "delay_unbound_premises 3 order_ir [5, 6, 7, 8] = Inr [7, 5, 8, 6]"
    by code_simp
  then show ?thesis
    using premise_order_spec by blast
qed

subsection \<open>Plans for a delta predicate\<close>

text \<open>C31: With hash joins off (\<open>MANGLE_HASHJOIN\<close> unset), planning a rule again for a delta predicate, in the IR
  as it has grown since, gives the full plan with exactly the scans of that predicate turned into scans of
  its delta: the same order of premises, the same index lookups, the same fresh variables.\<close>

theorem delta_plan_spec:
  assumes "plan_with False None r m = Inr (p, m1)" "ir_grown m1 m2" "plan_with False (Some d) r m2 = Inr (q, m3)"
    and "ir_inv m"
  shows "q = delta_plan d p"
  by (rule planned_delta [of m m2 r p m3 d q])
     (use assms planned_at_wider [OF planned_atI [OF assms(1)] ir_grown_refl assms(2)] planned_atI in auto)

lemma order_ir_inv: "ir_inv order_ir"
proof -
  let ?names = "[''p'', ''q'', ''r'', ''s'', ''X'', ''Y'', ''Z'']"
  have ok: "(case intern_list intern ?names interner_new of Inl _ \<Rightarrow> False | Inr _ \<Rightarrow> True)"
    by code_simp
  obtain ks s where "intern_list intern ?names interner_new = Inr (ks, s)"
    using ok by (auto split: sum.splits)
  then have "interner_inv (snd (projr (intern_list intern ?names interner_new)))"
    using si.intern_list_inv [OF interner_new_inv] by (metis snd_conv sum.sel(2))
  then show ?thesis
    unfolding ir_inv_def order_ir_def by (simp del: intern_list.simps)
qed

lemma Inr_projr: "\<not> isl x \<Longrightarrow> x = Inr (fst (projr x), snd (projr x))"
  by (cases x) simp_all

theorem delta_plan_spec_witness:
  "\<exists>p m1 q m3. plan_with False None 11 order_ir = Inr (p, m1) \<and> plan_with False (Some 1) 11 m1 = Inr (q, m3) \<and>
     q = delta_plan 1 p \<and> sources q = [ScanDelta 1 [5], IndexLookup 3 0 (OVar 5) [8]]"
proof -
  define x where "x = plan_with False None 11 order_ir"
  define y where "y = plan_with False (Some 1) 11 (snd (projr x))"
  have ok: "\<not> isl x" "\<not> isl y" "sources (fst (projr y)) = [ScanDelta 1 [5], IndexLookup 3 0 (OVar 5) [8]]"
    unfolding y_def x_def by code_simp+
  have p: "plan_with False None 11 order_ir = Inr (fst (projr x), snd (projr x))"
    "plan_with False (Some 1) 11 (snd (projr x)) = Inr (fst (projr y), snd (projr y))"
    using Inr_projr [OF ok(1)] Inr_projr [OF ok(2)] by (simp_all only: x_def y_def)
  show ?thesis
    using delta_plan_spec [OF p(1) ir_grown_refl p(2) order_ir_inv] p ok(3) by blast
qed

subsection \<open>What plans read and write\<close>

text \<open>C32: With hash joins off (\<open>MANGLE_HASHJOIN\<close> unset), the plan of a rule in a program without aggregating
  transforms is well formed: it inserts into the relation of the rule's head only, once, with as many columns
  as the head has arguments; it reads only the predicates of the rule's atoms, and no delta; it groups
  nothing and joins by nested iteration.\<close>

theorem plan_typed:
  assumes "plan_with False None r m = Inr (p, m')" "no_aggregates m"
    and "ir_get m r = Inr (IRule h ps ts)" "ir_get m h = Inr (IAtom pred args)"
  shows "writes p = [(pred, length args)] \<and> set (reads p) \<subseteq> {d. \<exists>q\<in>set ps. \<exists>as. ir_get m q = Inr (IAtom d as)} \<and>
    is_full p \<and> simple_plan p"
proof -
  have "heads m h = {(pred, length args)}"
    using assms(4) by (auto simp: heads_def)
  then show ?thesis
    using rule_planD [OF planned_shape [OF planned_atI [OF assms(1)] assms(2,3)]]
    by (auto simp: atoms_def)
qed

theorem plan_typed_witness:
  "\<exists>p m'. plan_with False None 11 order_ir = Inr (p, m') \<and> writes p = [(4, 1)] \<and>
     set (reads p) \<subseteq> {d. \<exists>q\<in>{7, 9}. \<exists>as. ir_get order_ir q = Inr (IAtom d as)}"
proof -
  have "(case plan_with False None 11 order_ir of Inl _ \<Rightarrow> False | Inr _ \<Rightarrow> True)"
    by code_simp
  then obtain p m' where p: "plan_with False None 11 order_ir = Inr (p, m')"
    by (auto split: sum.splits)
  have m: "no_aggregates order_ir" "ir_get order_ir 11 = Inr (IRule 10 [7, 9] [])" "ir_get order_ir 10 = Inr (IAtom 4 [1])"
    by code_simp+
  show ?thesis
    using plan_typed [OF p m] p by auto
qed

subsection \<open>The IR\<close>

text \<open>Planning a program only adds to the IR: the instructions there were stay where they were (those added
  are names of struct fields), every name resolves as before, strings and temporal predicates are
  untouched, and the invariant of the interner is kept.\<close>

theorem planning_keeps_ir:
  assumes "plan_strata hash_join a strata m = Inr (plans, m')" "ir_inv m"
  shows "ir_inv m' \<and> (\<exists>ns. insts m' = insts m @ map IName ns) \<and>
    (\<forall>k nm. resolve_name m k = Inr nm \<longrightarrow> resolve_name m' k = Inr nm) \<and>
    string_store m' = string_store m \<and> temporal_predicates m' = temporal_predicates m"
  using plan_strata_grown [OF assms(1)] assms(2) by (simp add: ir_grown_def)

definition order_arena :: arena where
  "order_arena = \<lparr>ar_interner = \<lparr>ai_map = [(''s'', 1), (''_'', 0)], ai_vec = [''_'', ''s'']\<rparr>,
     ar_predicates = [\<lparr>sy_name = 1, sy_arity = Some 1\<rparr>], ar_functions = []\<rparr>"

theorem planning_keeps_ir_witness:
  "\<exists>plans m'. plan_strata True order_arena [[0]] order_ir = Inr (plans, m') \<and> ir_inv m' \<and> resolve_name m' 4 = Inr ''s''"
proof -
  have ok: "\<not> isl (plan_strata True order_arena [[0]] order_ir)" "resolve_name order_ir 4 = Inr ''s''"
    by code_simp+
  show ?thesis
    using planning_keeps_ir [OF Inr_projr [OF ok(1)] order_ir_inv] Inr_projr [OF ok(1)] ok(2) by blast
qed

end
