(* ===== verification/Proto.thy ===== *)
theory Proto
  imports Builtins
begin

text \<open>
  \<open>mangle-proto\<close>: the conversions between internal values, facts and commands and the messages of the
  wire format.  The message types are those of the \<open>.proto\<close> files: a singular message field may be
  unset (\<open>None\<close>), and reading an unset field of an owned message gives the default message; enumerations
  are open, so that their fields are integers.  Fields the conversions leave at their default and never
  read are left out.
\<close>

subsection \<open>Values\<close>

datatype pvalue = PValue "pkind option"
and pkind =
    NumberValue i64
  | FloatValue f64
  | StringValue string
  | NameValue string
  | TimeValue i64
  | DurationValue i64
  | BytesValue "8 word list"
  | BoolValue bool
  | ListValue "pvalue list"
  | PairValue "pvalue option" "pvalue option"
  | MapValue "(pvalue option \<times> pvalue option) list"
  | StructValue "(string \<times> pvalue option) list"

definition struct_key_name :: "platform \<Rightarrow> mvalue \<Rightarrow> string" where
  "struct_key_name P v = (case v of Name s \<Rightarrow> s | Str s \<Rightarrow> s | _ \<Rightarrow> value_display P v)"

fun value_to_proto :: "platform \<Rightarrow> mvalue \<Rightarrow> pvalue"
and entries_to_proto :: "platform \<Rightarrow> mvalue list \<Rightarrow> (pvalue option \<times> pvalue option) list"
and fields_to_proto :: "platform \<Rightarrow> mvalue list \<Rightarrow> (string \<times> pvalue option) list" where
  "value_to_proto P (Number n) = PValue (Some (NumberValue n))"
| "value_to_proto P (Float f) = PValue (Some (FloatValue f))"
| "value_to_proto P (Str s) = PValue (Some (StringValue s))"
| "value_to_proto P (Name s) = PValue (Some (NameValue s))"
| "value_to_proto P (Time t) = PValue (Some (TimeValue t))"
| "value_to_proto P (Duration d) = PValue (Some (DurationValue d))"
| "value_to_proto P Null = PValue None"
| "value_to_proto P (Compound KList es) = PValue (Some (ListValue (map (value_to_proto P) es)))"
| "value_to_proto P (Compound KPair es) =
     (case es of
        [a, b] \<Rightarrow> PValue (Some (PairValue (Some (value_to_proto P a)) (Some (value_to_proto P b))))
      | _ \<Rightarrow> PValue (Some (ListValue (map (value_to_proto P) es))))"
| "value_to_proto P (Compound KMap es) = PValue (Some (MapValue (entries_to_proto P es)))"
| "value_to_proto P (Compound KStruct es) = PValue (Some (StructValue (fields_to_proto P es)))"
| "entries_to_proto P (k # v # es) =
     (Some (value_to_proto P k), Some (value_to_proto P v)) # entries_to_proto P es"
| "entries_to_proto P _ = []"
| "fields_to_proto P (k # v # es) = (struct_key_name P k, Some (value_to_proto P v)) # fields_to_proto P es"
| "fields_to_proto P _ = []"

function (sequential) value_from_proto :: "pvalue \<Rightarrow> mvalue result"
and kind_from_proto :: "pkind \<Rightarrow> mvalue result"
and values_from_proto :: "pvalue list \<Rightarrow> mvalue list result"
and field_from_proto :: "pvalue option \<Rightarrow> mvalue result"
and entries_from_proto :: "(pvalue option \<times> pvalue option) list \<Rightarrow> mvalue list result"
and fields_from_proto :: "(string \<times> pvalue option) list \<Rightarrow> mvalue list result" where
  "value_from_proto (PValue k) = (case k of None \<Rightarrow> Inr Null | Some k \<Rightarrow> kind_from_proto k)"
| "kind_from_proto (NumberValue n) = Inr (Number n)"
| "kind_from_proto (FloatValue f) = Inr (Float f)"
| "kind_from_proto (StringValue s) = Inr (Str s)"
| "kind_from_proto (NameValue s) = Inr (Name s)"
| "kind_from_proto (TimeValue t) = Inr (Time t)"
| "kind_from_proto (DurationValue d) = Inr (Duration d)"
| "kind_from_proto (BytesValue _) =
     Inl (Anyhow ''bytes values are not yet supported by the internal Value type'')"
| "kind_from_proto (BoolValue _) =
     Inl (Anyhow ''bool values are not yet supported by the internal Value type'')"
| "kind_from_proto (ListValue vs) = bindR (values_from_proto vs) (\<lambda>es. Inr (Compound KList es))"
| "kind_from_proto (PairValue a b) =
     bindR (field_from_proto a) (\<lambda>x. bindR (field_from_proto b) (\<lambda>y. Inr (Compound KPair [x, y])))"
| "kind_from_proto (MapValue kvs) = bindR (entries_from_proto kvs) (\<lambda>es. Inr (Compound KMap es))"
| "kind_from_proto (StructValue fvs) = bindR (fields_from_proto fvs) (\<lambda>es. Inr (Compound KStruct es))"
| "values_from_proto [] = Inr []"
| "values_from_proto (v # vs) =
     bindR (value_from_proto v) (\<lambda>x. bindR (values_from_proto vs) (\<lambda>xs. Inr (x # xs)))"
| "field_from_proto None = Inr Null"
| "field_from_proto (Some v) = value_from_proto v"
| "entries_from_proto [] = Inr []"
| "entries_from_proto ((k, v) # kvs) =
     bindR (field_from_proto k) (\<lambda>x. bindR (field_from_proto v) (\<lambda>y.
     bindR (entries_from_proto kvs) (\<lambda>es. Inr (x # y # es))))"
| "fields_from_proto [] = Inr []"
| "fields_from_proto ((f, v) # fvs) =
     bindR (field_from_proto v) (\<lambda>y. bindR (fields_from_proto fvs) (\<lambda>es. Inr (Name f # y # es)))"
  by pat_completeness auto

termination
  by size_change

subsection \<open>Facts and batches\<close>

record pfact =
  pf_relation :: string
  pf_args :: "pvalue list"

definition fact_to_proto :: "platform \<Rightarrow> string \<Rightarrow> mvalue list \<Rightarrow> pfact" where
  "fact_to_proto P rel row = \<lparr>pf_relation = rel, pf_args = map (value_to_proto P) row\<rparr>"

definition fact_from_row :: "pfact \<Rightarrow> (string \<times> mvalue list) result" where
  "fact_from_row f = bindR (traverseR value_from_proto (pf_args f)) (\<lambda>t. Inr (pf_relation f, t))"

text \<open>\<open>ColumnType\<close> by its numbers.\<close>

datatype column_type = CtNumber | CtFloat | CtString | CtName | CtTime | CtDuration | CtBytes | CtBool | CtAny

fun column_code :: "column_type \<Rightarrow> int" where
  "column_code CtNumber = 0"
| "column_code CtFloat = 1"
| "column_code CtString = 2"
| "column_code CtName = 3"
| "column_code CtTime = 4"
| "column_code CtDuration = 5"
| "column_code CtBytes = 6"
| "column_code CtBool = 7"
| "column_code CtAny = 8"

record column =
  col_type :: int
  col_numbers :: "i64 list"
  col_floats :: "f64 list"
  col_strings :: "string list"
  col_names :: "string list"
  col_times :: "i64 list"
  col_durations :: "i64 list"
  col_values :: "pvalue list"

record fact_batch =
  fb_relation :: string
  fb_num_rows :: u32
  fb_columns :: "column list"

definition empty_column :: "column_type \<Rightarrow> column" where
  "empty_column ty = \<lparr>col_type = column_code ty, col_numbers = [], col_floats = [], col_strings = [], col_names = [],
     col_times = [], col_durations = [], col_values = []\<rparr>"

fun scalar_type :: "mvalue \<Rightarrow> column_type option" where
  "scalar_type (Number _) = Some CtNumber"
| "scalar_type (Float _) = Some CtFloat"
| "scalar_type (Str _) = Some CtString"
| "scalar_type (Name _) = Some CtName"
| "scalar_type (Time _) = Some CtTime"
| "scalar_type (Duration _) = Some CtDuration"
| "scalar_type _ = None"

definition uniform_type :: "mvalue list \<Rightarrow> column_type option" where
  "uniform_type vs =
     (let ty = (case vs of [] \<Rightarrow> None | v # _ \<Rightarrow> scalar_type v) in
      if ty \<noteq> None \<and> list_all (\<lambda>v. scalar_type v = ty) vs then ty else None)"

text \<open>The cells of a column; \<open>unreachable!\<close> where the classification excludes a value.\<close>

definition column_of :: "platform \<Rightarrow> mvalue list \<Rightarrow> column result" where
  "column_of P vs =
     (case uniform_type vs of
        Some CtNumber \<Rightarrow>
          bindR (traverseR (\<lambda>v. case v of Number n \<Rightarrow> Inr n | _ \<Rightarrow> Inl Panic) vs)
            (\<lambda>ns. Inr ((empty_column CtNumber)\<lparr>col_numbers := ns\<rparr>))
      | Some CtFloat \<Rightarrow>
          bindR (traverseR (\<lambda>v. case v of Float f \<Rightarrow> Inr f | _ \<Rightarrow> Inl Panic) vs)
            (\<lambda>fs. Inr ((empty_column CtFloat)\<lparr>col_floats := fs\<rparr>))
      | Some CtString \<Rightarrow>
          bindR (traverseR (\<lambda>v. case v of Str s \<Rightarrow> Inr s | _ \<Rightarrow> Inl Panic) vs)
            (\<lambda>ss. Inr ((empty_column CtString)\<lparr>col_strings := ss\<rparr>))
      | Some CtName \<Rightarrow>
          bindR (traverseR (\<lambda>v. case v of Name s \<Rightarrow> Inr s | _ \<Rightarrow> Inl Panic) vs)
            (\<lambda>ss. Inr ((empty_column CtName)\<lparr>col_names := ss\<rparr>))
      | Some CtTime \<Rightarrow>
          bindR (traverseR (\<lambda>v. case v of Time t \<Rightarrow> Inr t | _ \<Rightarrow> Inl Panic) vs)
            (\<lambda>ts. Inr ((empty_column CtTime)\<lparr>col_times := ts\<rparr>))
      | Some CtDuration \<Rightarrow>
          bindR (traverseR (\<lambda>v. case v of Duration d \<Rightarrow> Inr d | _ \<Rightarrow> Inl Panic) vs)
            (\<lambda>ds. Inr ((empty_column CtDuration)\<lparr>col_durations := ds\<rparr>))
      | _ \<Rightarrow> Inr ((empty_column CtAny)\<lparr>col_values := map (value_to_proto P) vs\<rparr>))"

text \<open>The arity is that of the first row; \<open>r[j]\<close> panics on a shorter row.\<close>

definition batch_from_rows :: "platform \<Rightarrow> string \<Rightarrow> mvalue list list \<Rightarrow> fact_batch result" where
  "batch_from_rows P rel rows =
     bindR (traverseR (\<lambda>j. bindR (traverseR (\<lambda>r. index_list r j) rows) (column_of P))
        [0..<(case rows of [] \<Rightarrow> 0 | r # _ \<Rightarrow> length r)])
       (\<lambda>columns. Inr \<lparr>fb_relation = rel, fb_num_rows = of_nat (length rows), fb_columns = columns\<rparr>)"

definition get_or :: "rerror \<Rightarrow> 'a list \<Rightarrow> nat \<Rightarrow> 'a result" where
  "get_or e xs i = (if i < length xs then Inr (xs ! i) else Inl e)"

definition column_len_err :: rerror where
  "column_len_err = Anyhow ''column has fewer elements than num_rows''"

definition cell_at :: "column \<Rightarrow> nat \<Rightarrow> mvalue result" where
  "cell_at col i =
     (let ty = col_type col; e = column_len_err in
      if ty = column_code CtNumber then bindR (get_or e (col_numbers col) i) (\<lambda>n. Inr (Number n))
      else if ty = column_code CtFloat then bindR (get_or e (col_floats col) i) (\<lambda>f. Inr (Float f))
      else if ty = column_code CtString then bindR (get_or e (col_strings col) i) (\<lambda>s. Inr (Str s))
      else if ty = column_code CtName then bindR (get_or e (col_names col) i) (\<lambda>s. Inr (Name s))
      else if ty = column_code CtTime then bindR (get_or e (col_times col) i) (\<lambda>t. Inr (Time t))
      else if ty = column_code CtDuration then bindR (get_or e (col_durations col) i) (\<lambda>d. Inr (Duration d))
      else bindR (get_or e (col_values col) i) value_from_proto)"

fun push_cells :: "column \<Rightarrow> nat \<Rightarrow> mvalue list list \<Rightarrow> mvalue list list result" where
  "push_cells col i [] = Inr []"
| "push_cells col i (row # rows) =
     bindR (cell_at col i) (\<lambda>v. bindR (push_cells col (Suc i) rows) (\<lambda>rest. Inr ((row @ [v]) # rest)))"

fun push_columns :: "column list \<Rightarrow> mvalue list list \<Rightarrow> mvalue list list result" where
  "push_columns [] rows = Inr rows"
| "push_columns (col # cols) rows = bindR (push_cells col 0 rows) (push_columns cols)"

definition rows_from_batch :: "fact_batch \<Rightarrow> mvalue list list result" where
  "rows_from_batch b = push_columns (fb_columns b) (replicate (unat (fb_num_rows b)) [])"

subsection \<open>Commands\<close>

datatype mutation_op_kind = OpInsert | OpRetract

record mutation_op =
  mo_kind :: mutation_op_kind
  mo_relation :: string
  mo_tuple :: "mvalue list"

datatype command =
    Mutate string "mutation_op list"
  | LoadProgram string string
  | DeleteProgram string
  | Noop

record pmutation_op =
  pm_op :: int
  pm_relation :: string
  pm_tuple :: "pvalue list"

datatype payload =
    PMutate string "pmutation_op list"
  | PLoadProgram string string
  | PDeleteProgram string
  | PNoop

record pcommand =
  pc_type :: int
  pc_payload :: "payload option"

definition op_to_proto :: "platform \<Rightarrow> mutation_op \<Rightarrow> pmutation_op" where
  "op_to_proto P op = \<lparr>pm_op = (case mo_kind op of OpInsert \<Rightarrow> 1 | OpRetract \<Rightarrow> 2), pm_relation = mo_relation op,
     pm_tuple = map (value_to_proto P) (mo_tuple op)\<rparr>"

definition op_from_proto :: "pmutation_op \<Rightarrow> mutation_op result" where
  "op_from_proto op =
     bindR (if pm_op op = 1 then Inr OpInsert else if pm_op op = 2 then Inr OpRetract
            else Inl (Anyhow ''unknown mutation op kind'')) (\<lambda>kind.
     bindR (traverseR value_from_proto (pm_tuple op)) (\<lambda>t.
       Inr \<lparr>mo_kind = kind, mo_relation = pm_relation op, mo_tuple = t\<rparr>))"

definition command_to_proto :: "platform \<Rightarrow> command \<Rightarrow> pcommand" where
  "command_to_proto P cmd =
     (case cmd of
        Mutate program ops \<Rightarrow> \<lparr>pc_type = 1, pc_payload = Some (PMutate program (map (op_to_proto P) ops))\<rparr>
      | LoadProgram name source \<Rightarrow> \<lparr>pc_type = 2, pc_payload = Some (PLoadProgram name source)\<rparr>
      | DeleteProgram name \<Rightarrow> \<lparr>pc_type = 3, pc_payload = Some (PDeleteProgram name)\<rparr>
      | Noop \<Rightarrow> \<lparr>pc_type = 4, pc_payload = Some PNoop\<rparr>)"

definition command_from_proto :: "pcommand \<Rightarrow> command result" where
  "command_from_proto cmd =
     (case pc_payload cmd of
        None \<Rightarrow> Inl (Anyhow ''command payload is required (mutate, load_program, delete_program or noop)'')
      | Some (PMutate program ops) \<Rightarrow> bindR (traverseR op_from_proto ops) (\<lambda>ops'. Inr (Mutate program ops'))
      | Some (PLoadProgram name source) \<Rightarrow> Inr (LoadProgram name source)
      | Some (PDeleteProgram name) \<Rightarrow> Inr (DeleteProgram name)
      | Some PNoop \<Rightarrow> Inr Noop)"

subsection \<open>Snapshots\<close>

type_synonym ledger_entry = "string \<times> mvalue list"

record snapshot_ledger =
  sl_replicated :: "ledger_entry list"
  sl_retracted :: "ledger_entry list"

record snapshot_program =
  ssp_name :: string
  ssp_source :: string
  ssp_ledger :: snapshot_ledger

record psnapshot_ledger =
  psl_replicated :: "(string \<times> pvalue list) list"
  psl_retracted :: "(string \<times> pvalue list) list"

record psnapshot_program =
  psp_name :: string
  psp_source :: string
  psp_ledger :: "psnapshot_ledger option"

definition entries_to :: "platform \<Rightarrow> ledger_entry list \<Rightarrow> (string \<times> pvalue list) list" where
  "entries_to P es = map (\<lambda>(rel, t). (rel, map (value_to_proto P) t)) es"

definition ledger_to_proto :: "platform \<Rightarrow> snapshot_ledger \<Rightarrow> psnapshot_ledger" where
  "ledger_to_proto P l = \<lparr>psl_replicated = entries_to P (sl_replicated l), psl_retracted = entries_to P (sl_retracted l)\<rparr>"

definition entries_from :: "(string \<times> pvalue list) list \<Rightarrow> ledger_entry list result" where
  "entries_from es = traverseR (\<lambda>(rel, vs). bindR (traverseR value_from_proto vs) (\<lambda>t. Inr (rel, t))) es"

definition ledger_from_proto :: "psnapshot_ledger \<Rightarrow> snapshot_ledger result" where
  "ledger_from_proto l =
     bindR (entries_from (psl_replicated l)) (\<lambda>rep. bindR (entries_from (psl_retracted l)) (\<lambda>ret.
       Inr \<lparr>sl_replicated = rep, sl_retracted = ret\<rparr>))"

definition snapshot_to_proto :: "platform \<Rightarrow> snapshot_program list \<Rightarrow> psnapshot_program list" where
  "snapshot_to_proto P ps = map (\<lambda>p. \<lparr>psp_name = ssp_name p, psp_source = ssp_source p,
     psp_ledger = Some (ledger_to_proto P (ssp_ledger p))\<rparr>) ps"

definition snapshot_from_proto :: "psnapshot_program list \<Rightarrow> snapshot_program list result" where
  "snapshot_from_proto ps =
     traverseR (\<lambda>p. bindR (case psp_ledger p of None \<Rightarrow> Inr \<lparr>sl_replicated = [], sl_retracted = []\<rparr>
                                           | Some l \<Rightarrow> ledger_from_proto l)
       (\<lambda>l. Inr \<lparr>ssp_name = psp_name p, ssp_source = psp_source p, ssp_ledger = l\<rparr>)) ps"

end
