(* ===== verification/Proto_Props.thy ===== *)
theory Proto_Props
  imports Proto Demo
begin

text \<open>
  What survives the wire.  A value comes back from its message exactly when it has the shape its kind
  promises; from there on, facts, batches, commands and snapshots do.
\<close>

subsection \<open>Values\<close>

text \<open>The shape of compounds: a pair has two elements, the elements of a map and a struct come in pairs,
  the keys of a struct are names.\<close>

fun proto_safe :: "mvalue \<Rightarrow> bool"
and even_safe :: "mvalue list \<Rightarrow> bool"
and struct_safe :: "mvalue list \<Rightarrow> bool" where
  "proto_safe (Compound KList es) = list_all proto_safe es"
| "proto_safe (Compound KPair es) = (length es = 2 \<and> list_all proto_safe es)"
| "proto_safe (Compound KMap es) = even_safe es"
| "proto_safe (Compound KStruct es) = struct_safe es"
| "proto_safe _ = True"
| "even_safe [] = True"
| "even_safe [_] = False"
| "even_safe (k # v # es) = (proto_safe k \<and> proto_safe v \<and> even_safe es)"
| "struct_safe [] = True"
| "struct_safe [_] = False"
| "struct_safe (k # v # es) = ((case k of Name _ \<Rightarrow> True | _ \<Rightarrow> False) \<and> proto_safe v \<and> struct_safe es)"

lemma values_from_traverse: "values_from_proto vs = traverseR value_from_proto vs"
  by (induction vs) simp_all

text \<open>Reading back always succeeds; the result differs from the value in the other cases.\<close>

lemma traverse_map_iff:
  assumes "\<And>x. x \<in> set xs \<Longrightarrow> \<exists>y. f (g x) = Inr y \<and> (y = x \<longleftrightarrow> Q x)"
  shows "\<exists>ys. traverseR f (map g xs) = Inr ys \<and> length ys = length xs \<and> (ys = xs \<longleftrightarrow> list_all Q xs)"
  using assms
proof (induction xs)
  case (Cons x xs)
  obtain y where "f (g x) = Inr y" "y = x \<longleftrightarrow> Q x"
    using Cons.prems [of x] by auto
  moreover obtain ys where "traverseR f (map g xs) = Inr ys" "length ys = length xs" "ys = xs \<longleftrightarrow> list_all Q xs"
    using Cons.IH Cons.prems by auto
  ultimately show ?case by auto
qed simp

lemma value_roundtrip_iff:
  "\<exists>w. value_from_proto (value_to_proto P v) = Inr w \<and> (w = v \<longleftrightarrow> proto_safe v)"
  "\<exists>ws. entries_from_proto (entries_to_proto P es) = Inr ws \<and> (ws = es \<longleftrightarrow> even_safe es)"
  "\<exists>ws. fields_from_proto (fields_to_proto P es) = Inr ws \<and> (ws = es \<longleftrightarrow> struct_safe es)"
proof (induction P v and P es and P es rule: value_to_proto_entries_to_proto_fields_to_proto.induct)
  case (8 P es)
  then show ?case
    using traverse_map_iff [of es value_from_proto "value_to_proto P" proto_safe]
    by (auto simp: values_from_traverse)
next
  case (9 P es)
  consider a b where "es = [a, b]" | "length es \<noteq> 2"
    by (metis (no_types, opaque_lifting) length_0_conv length_Suc_conv numeral_2_eq_2)
  then show ?case
  proof cases
    case 1
    have "\<And>x. x \<in> {a, b} \<Longrightarrow> \<exists>w. value_from_proto (value_to_proto P x) = Inr w \<and> (w = x \<longleftrightarrow> proto_safe x)"
      using 9 1 by auto
    then obtain x y where "value_from_proto (value_to_proto P a) = Inr x" "x = a \<longleftrightarrow> proto_safe a"
      "value_from_proto (value_to_proto P b) = Inr y" "y = b \<longleftrightarrow> proto_safe b"
      by (metis insertCI)
    then show ?thesis using 1 by auto
  next
    case 2
    then have "value_to_proto P (Compound KPair es) = PValue (Some (ListValue (map (value_to_proto P) es)))"
      by (auto split: list.split)
    moreover have "\<And>x. x \<in> set es \<Longrightarrow> \<exists>w. value_from_proto (value_to_proto P x) = Inr w \<and> (w = x \<longleftrightarrow> proto_safe x)"
      using 9 2 by (cases es; cases "tl es"; cases "tl (tl es)"; auto)
    ultimately show ?thesis
      using 2 traverse_map_iff [of es value_from_proto "value_to_proto P" proto_safe]
      by (auto simp: values_from_traverse)
  qed
next
  case (12 P k v es)
  then show ?case by auto
next
  case (14 P k v es)
  then show ?case by (auto simp: struct_key_name_def split: mvalue.splits)
qed auto

text \<open>C33: A value survives the conversion to its wire message and back exactly when its compounds have the
  promised shape; reading back its own message never fails.  Otherwise data changes silently: a pair
  that has not two elements comes back as a list, a map or struct with an odd number of elements loses
  its last one, and a field name that is not a name becomes one.\<close>

theorem proto_value_roundtrip:
  "\<exists>w. value_from_proto (value_to_proto P v) = Inr w \<and> (w = v \<longleftrightarrow> proto_safe v)"
  by (rule value_roundtrip_iff(1))

lemma proto_safeD [simp]: "proto_safe v \<Longrightarrow> value_from_proto (value_to_proto P v) = Inr v"
  using value_roundtrip_iff(1) [of P v] by auto

lemma tuple_roundtrip: "list_all proto_safe t \<Longrightarrow> traverseR value_from_proto (map (value_to_proto P) t) = Inr t"
  by (induction t) simp_all

lemma fact_roundtrip:
  "list_all proto_safe t \<Longrightarrow> fact_from_row (fact_to_proto P rel t) = Inr (rel, t)"
  by (simp add: fact_from_row_def fact_to_proto_def tuple_roundtrip)

subsection \<open>Batches\<close>

lemma scalar_type_iff:
  "scalar_type v = Some CtNumber \<longleftrightarrow> (\<exists>n. v = Number n)" "scalar_type v = Some CtFloat \<longleftrightarrow> (\<exists>f. v = Float f)"
  "scalar_type v = Some CtString \<longleftrightarrow> (\<exists>s. v = Str s)" "scalar_type v = Some CtName \<longleftrightarrow> (\<exists>s. v = Name s)"
  "scalar_type v = Some CtTime \<longleftrightarrow> (\<exists>t. v = Time t)" "scalar_type v = Some CtDuration \<longleftrightarrow> (\<exists>d. v = Duration d)"
  "scalar_type v \<noteq> Some CtBytes" "scalar_type v \<noteq> Some CtBool" "scalar_type v \<noteq> Some CtAny"
  by (cases v; simp)+

lemma traverse_undo: "(\<And>x. f (k x) = Inr x) \<Longrightarrow> traverseR f (map k xs) = Inr xs"
  by (induction xs) simp_all

lemma uniform_type_all: "uniform_type vs = Some c \<Longrightarrow> \<forall>v\<in>set vs. scalar_type v = Some c"
  by (auto simp: uniform_type_def Let_def list_all_iff split: if_splits)

lemma uniform_type_ex: "uniform_type vs = Some c \<Longrightarrow> \<exists>v. scalar_type v = Some c"
  by (auto simp: uniform_type_def Let_def split: list.splits if_splits)

lemma uniform_map:
  "uniform_type vs = Some c \<Longrightarrow> (\<And>v. scalar_type v = Some c \<Longrightarrow> \<exists>x. v = k x) \<Longrightarrow> \<exists>xs. vs = map k xs"
  using uniform_type_all [of vs c] by (simp add: ex_map_conv)

text \<open>A packed column with elements \<open>xs\<close> of one constructor \<open>k\<close>.\<close>

lemma packed_column:
  assumes "uniform_type vs = Some c" "\<And>v. scalar_type v = Some c \<Longrightarrow> \<exists>x. v = k x"
    and "\<And>xs. vs = map k xs \<Longrightarrow> column_of P vs = Inr (mk xs)"
    and "\<And>xs i. i < length xs \<Longrightarrow> cell_at (mk xs) i = Inr (k (xs ! i))"
  shows "\<exists>col. column_of P vs = Inr col \<and> (\<forall>i<length vs. cell_at col i = Inr (vs ! i))"
proof -
  obtain xs where "vs = map k xs"
    using uniform_map [OF assms(1,2)] by blast
  then show ?thesis
    using assms(3,4) by (intro exI [of _ "mk xs"]) simp
qed

lemma column_of_cells:
  assumes "list_all proto_safe vs"
  shows "\<exists>col. column_of P vs = Inr col \<and> (\<forall>i<length vs. cell_at col i = Inr (vs ! i))"
proof (cases "uniform_type vs")
  case None
  then show ?thesis
    using assms by (simp add: column_of_def cell_at_def empty_column_def get_or_def list_all_length Let_def)
next
  case (Some c)
  note simps = column_of_def traverse_undo cell_at_def empty_column_def get_or_def Let_def
  show ?thesis
  proof (cases c)
    case CtNumber
    show ?thesis
      by (rule packed_column [OF Some, where k = Number and mk = "\<lambda>xs. (empty_column CtNumber)\<lparr>col_numbers := xs\<rparr>"])
         (use Some CtNumber in \<open>simp_all add: simps scalar_type_iff\<close>)
  next
    case CtFloat
    show ?thesis
      by (rule packed_column [OF Some, where k = Float and mk = "\<lambda>xs. (empty_column CtFloat)\<lparr>col_floats := xs\<rparr>"])
         (use Some CtFloat in \<open>simp_all add: simps scalar_type_iff\<close>)
  next
    case CtString
    show ?thesis
      by (rule packed_column [OF Some, where k = Str and mk = "\<lambda>xs. (empty_column CtString)\<lparr>col_strings := xs\<rparr>"])
         (use Some CtString in \<open>simp_all add: simps scalar_type_iff\<close>)
  next
    case CtName
    show ?thesis
      by (rule packed_column [OF Some, where k = Name and mk = "\<lambda>xs. (empty_column CtName)\<lparr>col_names := xs\<rparr>"])
         (use Some CtName in \<open>simp_all add: simps scalar_type_iff\<close>)
  next
    case CtTime
    show ?thesis
      by (rule packed_column [OF Some, where k = Time and mk = "\<lambda>xs. (empty_column CtTime)\<lparr>col_times := xs\<rparr>"])
         (use Some CtTime in \<open>simp_all add: simps scalar_type_iff\<close>)
  next
    case CtDuration
    show ?thesis
      by (rule packed_column [OF Some, where k = Duration and mk = "\<lambda>xs. (empty_column CtDuration)\<lparr>col_durations := xs\<rparr>"])
         (use Some CtDuration in \<open>simp_all add: simps scalar_type_iff\<close>)
  qed (use uniform_type_ex [OF Some] in \<open>simp_all add: scalar_type_iff\<close>)
qed

text \<open>\<open>holds_column n col f\<close>: the column has the cell \<open>f i\<close> in every row \<open>i < n\<close>.\<close>

definition holds_column :: "nat \<Rightarrow> column \<Rightarrow> (nat \<Rightarrow> mvalue) \<Rightarrow> bool" where
  "holds_column n col f \<longleftrightarrow> (\<forall>i<n. cell_at col i = Inr (f i))"

lemma push_cells_map:
  assumes "holds_column n col f" "k \<le> n"
  shows "push_cells col k (map g [k..<n]) = Inr (map (\<lambda>i. g i @ [f i]) [k..<n])"
  using assms(2)
proof (induction k rule: inc_induct)
  case (step k)
  then show ?case
    using assms(1) by (simp add: upt_conv_Cons holds_column_def)
qed simp

lemma push_columns_map:
  "list_all2 (holds_column n) cols fs \<Longrightarrow>
     push_columns cols (map g [0..<n]) = Inr (map (\<lambda>i. g i @ map (\<lambda>f. f i) fs) [0..<n])"
proof (induction cols fs arbitrary: g rule: list_all2_induct)
  case (Cons col cols f fs)
  then show ?case
    using push_cells_map [of n col f 0 g] by simp
qed simp

lemma columns_of_rows:
  assumes "list_all (list_all proto_safe) tab" "list_all (\<lambda>r. m \<le> length r) tab"
  shows "\<exists>cols. traverseR (\<lambda>j. bindR (traverseR (\<lambda>r. index_list r j) tab) (column_of P)) [0..<m] = Inr cols \<and>
    list_all2 (holds_column (length tab)) cols (map (\<lambda>j i. tab ! i ! j) [0..<m])"
  using assms(2)
proof (induction m)
  case (Suc m)
  obtain cols where cols: "traverseR (\<lambda>j. bindR (traverseR (\<lambda>r. index_list r j) tab) (column_of P)) [0..<m] = Inr cols"
    "list_all2 (holds_column (length tab)) cols (map (\<lambda>j i. tab ! i ! j) [0..<m])"
    using Suc.IH Suc.prems by (metis (no_types, lifting) Suc_leD list_all_iff)
  have cell: "traverseR (\<lambda>r. index_list r m) tab = Inr (map (\<lambda>r. r ! m) tab)"
    by (rule traverseR_Inr_map) (use Suc.prems in \<open>auto simp: list_all_iff\<close>)
  have "list_all proto_safe (map (\<lambda>r. r ! m) tab)"
    using assms(1) Suc.prems by (auto simp: list_all_iff)
  then obtain col where "column_of P (map (\<lambda>r. r ! m) tab) = Inr col" "holds_column (length tab) col (\<lambda>i. tab ! i ! m)"
    using column_of_cells [of "map (\<lambda>r. r ! m) tab" P] by (auto simp: holds_column_def)
  then show ?case
    using cols cell by (auto simp: traverseR_append intro!: list_all2_appendI)
qed simp

text \<open>C39: A batch of rows survives the columnar encoding, with its packed columns, its mixed columns and its
  number of rows: fewer than \<open>2^32\<close> rows of one length, whose values have the promised shapes (pairs of two elements, maps and
  structs with an even number of elements, struct keys that are names), come back as they were.\<close>

theorem batch_roundtrip:
  assumes "list_all (\<lambda>r. length r = m \<and> list_all proto_safe r) tab" "length tab < 2 ^ 32"
  shows "bindR (batch_from_rows P rel tab) rows_from_batch = Inr tab"
proof -
  let ?m = "case tab of [] \<Rightarrow> 0 | r # _ \<Rightarrow> length r"
  have len: "\<forall>r\<in>set tab. length r = ?m"
    using assms(1) by (cases tab) (auto simp: list_all_iff)
  obtain cols where cols: "traverseR (\<lambda>j. bindR (traverseR (\<lambda>r. index_list r j) tab) (column_of P)) [0..<?m] = Inr cols"
    "list_all2 (holds_column (length tab)) cols (map (\<lambda>j i. tab ! i ! j) [0..<?m])"
    using columns_of_rows [of tab ?m P] assms(1) len by (auto simp: list_all_iff)
  have "push_columns cols (replicate (length tab) []) =
      Inr (map (\<lambda>i. map (\<lambda>j. tab ! i ! j) [0..<?m]) [0..<length tab])"
    using push_columns_map [OF cols(2), of "\<lambda>_. []"] by (simp add: map_replicate_const comp_def)
  also have "map (\<lambda>i. map (\<lambda>j. tab ! i ! j) [0..<?m]) [0..<length tab] = tab"
    using len by (intro nth_equalityI) (auto intro!: nth_equalityI)
  finally have "push_columns cols (replicate (length tab) []) = Inr tab" .
  then show ?thesis
    using cols(1) assms(2) by (simp add: batch_from_rows_def rows_from_batch_def unat_of_nat)
qed

theorem batch_roundtrip_witness:
  "bindR (batch_from_rows demo_platform ''p'' [[Number 1, Str ''a''], [Number 2, Null]]) rows_from_batch =
     Inr [[Number 1, Str ''a''], [Number 2, Null]]"
  by (rule batch_roundtrip [of 2]) simp_all

subsection \<open>Commands and snapshots\<close>

fun command_safe :: "command \<Rightarrow> bool" where
  "command_safe (Mutate _ ops) = list_all (\<lambda>op. list_all proto_safe (mo_tuple op)) ops"
| "command_safe _ = True"

lemma op_roundtrip: "list_all proto_safe (mo_tuple op) \<Longrightarrow> op_from_proto (op_to_proto P op) = Inr op"
  by (cases "mo_kind op") (simp_all add: op_from_proto_def op_to_proto_def tuple_roundtrip)

lemma command_roundtrip: "command_safe cmd \<Longrightarrow> command_from_proto (command_to_proto P cmd) = Inr cmd"
proof (cases cmd)
  case (Mutate program ops)
  assume "command_safe cmd"
  then have "traverseR op_from_proto (map (op_to_proto P) ops) = Inr ops"
    unfolding Mutate by (induction ops) (simp_all add: op_roundtrip)
  then show ?thesis
    by (simp add: Mutate command_from_proto_def command_to_proto_def)
qed (simp_all add: command_from_proto_def command_to_proto_def)

definition ledger_safe :: "snapshot_ledger \<Rightarrow> bool" where
  "ledger_safe l \<longleftrightarrow> list_all (\<lambda>(_, t). list_all proto_safe t) (sl_replicated l @ sl_retracted l)"

lemma entries_roundtrip: "list_all (\<lambda>(_, t). list_all proto_safe t) es \<Longrightarrow> entries_from (entries_to P es) = Inr es"
  by (induction es) (auto simp: entries_from_def entries_to_def tuple_roundtrip)

lemma snapshot_roundtrip:
  "list_all (\<lambda>p. ledger_safe (ssp_ledger p)) ps \<Longrightarrow> snapshot_from_proto (snapshot_to_proto P ps) = Inr ps"
  by (induction ps)
     (auto simp: snapshot_from_proto_def snapshot_to_proto_def ledger_from_proto_def ledger_to_proto_def
       entries_roundtrip ledger_safe_def)

text \<open>C34: Commands of the replicated log and snapshots of the state machine survive the wire: decoding the
  message of a command, or of a snapshot, whose tuples have the promised shapes gives it back.\<close>

theorem replicated_roundtrip:
  assumes "command_safe cmd" "list_all (\<lambda>p. ledger_safe (ssp_ledger p)) ps"
  shows "command_from_proto (command_to_proto P cmd) = Inr cmd \<and> snapshot_from_proto (snapshot_to_proto P ps) = Inr ps"
  using command_roundtrip [OF assms(1)] snapshot_roundtrip [OF assms(2)] by blast

theorem replicated_roundtrip_witness:
  "command_from_proto (command_to_proto demo_platform
      (Mutate ''g'' [\<lparr>mo_kind = OpRetract, mo_relation = ''e'', mo_tuple = [Number 1, Compound KPair [Null, Str ''x'']]\<rparr>])) =
    Inr (Mutate ''g'' [\<lparr>mo_kind = OpRetract, mo_relation = ''e'', mo_tuple = [Number 1, Compound KPair [Null, Str ''x'']]\<rparr>])"
  using replicated_roundtrip [of "Mutate ''g'' [\<lparr>mo_kind = OpRetract, mo_relation = ''e'',
     mo_tuple = [Number 1, Compound KPair [Null, Str ''x'']]\<rparr>]" "[]" demo_platform] by simp

end
