(* ===== verification/Wal_Codec.thy ===== *)
theory Wal_Codec
  imports Proto_Props
begin

text \<open>
  \<open>mangle-wal/src/codec.rs\<close>: the binary encoding of votes, log ids, memberships and log entries.  Votes,
  log ids and entries are plain data of the consensus library.  Its \<open>Membership\<close> is abstract: the code
  reads the joint configuration and the nodes and builds one with \<open>Membership::new\<close>, so these three
  operations are a parameter, as are the two operations of the protobuf library on command messages.
  \<open>BTreeSet\<close> and \<open>BTreeMap\<close> are strictly ascending lists.
\<close>

type_synonym bytes = "8 word list"

record 'm membership_api =
  ma_configs :: "'m \<Rightarrow> u64 list list"
  ma_nodes :: "'m \<Rightarrow> (u64 \<times> string) list"
  ma_new :: "u64 list list \<Rightarrow> (u64 \<times> string) list \<Rightarrow> 'm"

record pb_api =
  pb_encode :: "pcommand \<Rightarrow> bytes"
  pb_decode :: "bytes \<Rightarrow> pcommand result"

record log_id =
  li_term :: u64
  li_node :: u64
  li_index :: u64

record vote =
  vt_term :: u64
  vt_node :: u64
  vt_committed :: bool

datatype 'm entry_payload = Blank | Normal command | MembershipP 'm

record 'm entry =
  en_log_id :: log_id
  en_payload :: "'m entry_payload"

subsection \<open>Writing\<close>

definition to_le_bytes :: "u64 \<Rightarrow> bytes" where
  "to_le_bytes w = map (\<lambda>i. ucast (drop_bit (8 * i) w)) [0..<8]"

definition put_u64 :: "u64 \<Rightarrow> bytes" where
  "put_u64 v = to_le_bytes v"

definition put_bool :: "bool \<Rightarrow> bytes" where
  "put_bool b = [of_bool b]"

definition as_bytes :: "string \<Rightarrow> bytes" where
  "as_bytes s = map of_char s"

definition put_str :: "string \<Rightarrow> bytes" where
  "put_str s = put_u64 (of_nat (length s)) @ as_bytes s"

definition encode_committed_leader_id :: "u64 \<Rightarrow> u64 \<Rightarrow> bytes" where
  "encode_committed_leader_id term node = put_u64 term @ put_u64 node"

definition encode_log_id :: "log_id \<Rightarrow> bytes" where
  "encode_log_id i = encode_committed_leader_id (li_term i) (li_node i) @ put_u64 (li_index i)"

definition encode_vote :: "vote \<Rightarrow> bytes" where
  "encode_vote v = put_u64 (vt_term v) @ put_u64 (vt_node v) @ put_bool (vt_committed v)"

definition encode_membership :: "'m membership_api \<Rightarrow> 'm \<Rightarrow> bytes" where
  "encode_membership M m =
     put_u64 (of_nat (length (ma_configs M m))) @
     concat (map (\<lambda>config. put_u64 (of_nat (length config)) @ concat (map put_u64 config)) (ma_configs M m)) @
     put_u64 (of_nat (length (ma_nodes M m))) @
     concat (map (\<lambda>(i, addr). put_u64 i @ put_str addr) (ma_nodes M m))"

definition encode_stored_membership :: "'m membership_api \<Rightarrow> log_id option \<Rightarrow> 'm \<Rightarrow> bytes" where
  "encode_stored_membership M li m =
     (case li of Some i \<Rightarrow> put_bool True @ encode_log_id i | None \<Rightarrow> put_bool False) @ encode_membership M m"

definition encode_entry :: "platform \<Rightarrow> pb_api \<Rightarrow> 'm membership_api \<Rightarrow> 'm entry \<Rightarrow> bytes result" where
  "encode_entry P B M e =
     Inr (put_u64 (li_term (en_log_id e)) @ put_u64 (li_node (en_log_id e)) @ put_u64 (li_index (en_log_id e)) @
       (case en_payload e of
          Blank \<Rightarrow> [0]
        | Normal cmd \<Rightarrow> (let bs = pb_encode B (command_to_proto P cmd) in [1] @ put_u64 (of_nat (length bs)) @ bs)
        | MembershipP m \<Rightarrow> (let bs = encode_membership M m in [2] @ put_u64 (of_nat (length bs)) @ bs)))"

subsection \<open>Reading\<close>

record reader =
  rd_buf :: bytes
  rd_pos :: nat

type_synonym 'a rd = "reader \<Rightarrow> ('a \<times> reader) result"

definition reader_new :: "bytes \<Rightarrow> reader" where
  "reader_new buf = \<lparr>rd_buf = buf, rd_pos = 0\<rparr>"

definition bindD :: "'a rd \<Rightarrow> ('a \<Rightarrow> 'b rd) \<Rightarrow> 'b rd" where
  "bindD f g r = bindR (f r) (\<lambda>(x, r'). g x r')"

definition retD :: "'a \<Rightarrow> 'a rd" where
  "retD x r = Inr (x, r)"

definition liftD :: "'a result \<Rightarrow> 'a rd" where
  "liftD x r = bindR x (\<lambda>y. Inr (y, r))"

definition take_bytes :: "nat \<Rightarrow> bytes rd" where
  "take_bytes n r =
     (let fin = rd_pos r + n in
      if 2 ^ 64 \<le> fin then Inl (Anyhow ''length overflow'')
      else if length (rd_buf r) < fin then Inl (Anyhow ''truncated record'')
      else Inr (take n (drop (rd_pos r) (rd_buf r)), r\<lparr>rd_pos := fin\<rparr>))"

definition from_le_bytes :: "bytes \<Rightarrow> u64" where
  "from_le_bytes bs = foldr (\<lambda>b acc. or (ucast b) (push_bit 8 acc)) bs 0"

definition read_u64 :: "u64 rd" where
  "read_u64 = bindD (take_bytes 8) (\<lambda>b. retD (from_le_bytes b))"

definition read_bool :: "bool rd" where
  "read_bool = bindD (take_bytes 1) (\<lambda>b. retD (hd b \<noteq> 0))"

text \<open>\<open>String::from_utf8\<close>: the well-formed byte sequences of the Unicode standard.\<close>

definition cont :: "8 word \<Rightarrow> bool" where
  "cont b \<longleftrightarrow> 0x80 \<le> b \<and> b \<le> 0xBF"

fun valid_utf8 :: "bytes \<Rightarrow> bool" where
  "valid_utf8 [] = True"
| "valid_utf8 (a # bs) =
     (if a \<le> 0x7F then valid_utf8 bs
      else if 0xC2 \<le> a \<and> a \<le> 0xDF
      then (case bs of b # cs \<Rightarrow> cont b \<and> valid_utf8 cs | _ \<Rightarrow> False)
      else if 0xE0 \<le> a \<and> a \<le> 0xEF
      then (case bs of
              b # c # ds \<Rightarrow>
                cont b \<and> (a = 0xE0 \<longrightarrow> 0xA0 \<le> b) \<and> (a = 0xED \<longrightarrow> b \<le> 0x9F) \<and> cont c \<and> valid_utf8 ds
            | _ \<Rightarrow> False)
      else if 0xF0 \<le> a \<and> a \<le> 0xF4
      then (case bs of
              b # c # d # es \<Rightarrow>
                cont b \<and> (a = 0xF0 \<longrightarrow> 0x90 \<le> b) \<and> (a = 0xF4 \<longrightarrow> b \<le> 0x8F) \<and> cont c \<and> cont d \<and> valid_utf8 es
            | _ \<Rightarrow> False)
      else False)"

definition from_utf8 :: "bytes \<Rightarrow> string result" where
  "from_utf8 bs = (if valid_utf8 bs then Inr (map (\<lambda>b. char_of (unat b)) bs) else Inl (Anyhow ''invalid utf-8''))"

definition read_str :: "string rd" where
  "read_str = bindD read_u64 (\<lambda>len. bindD (take_bytes (unat len)) (\<lambda>b. liftD (from_utf8 b)))"

definition read_done :: "unit rd" where
  "read_done r = (if rd_pos r = length (rd_buf r) then Inr ((), r) else Inl (Anyhow ''trailing bytes in record''))"

definition run_rd :: "'a rd \<Rightarrow> bytes \<Rightarrow> 'a result" where
  "run_rd f buf = bindR (f (reader_new buf)) (\<lambda>(x, _). Inr x)"

definition decode_committed_leader_id :: "bytes \<Rightarrow> (u64 \<times> u64) result" where
  "decode_committed_leader_id =
     run_rd (bindD read_u64 (\<lambda>term. bindD read_u64 (\<lambda>node. bindD read_done (\<lambda>_. retD (term, node)))))"

definition decode_log_id :: "bytes \<Rightarrow> log_id result" where
  "decode_log_id buf =
     (if length buf < 24 then Inl (Anyhow ''truncated log id'')
      else bindR (decode_committed_leader_id (take 16 buf)) (\<lambda>(term, node).
           run_rd (bindD read_u64 (\<lambda>index. bindD read_done (\<lambda>_.
             retD \<lparr>li_term = term, li_node = node, li_index = index\<rparr>))) (drop 16 buf)))"

definition decode_vote :: "bytes \<Rightarrow> vote result" where
  "decode_vote =
     run_rd (bindD read_u64 (\<lambda>term. bindD read_u64 (\<lambda>node. bindD read_bool (\<lambda>committed. bindD read_done (\<lambda>_.
       retD \<lparr>vt_term = term, vt_node = node, vt_committed = committed\<rparr>)))))"

text \<open>\<open>for _ in 0..n\<close> with a fallible body.\<close>

fun repeatD :: "nat \<Rightarrow> ('s \<Rightarrow> 's rd) \<Rightarrow> 's \<Rightarrow> 's rd" where
  "repeatD 0 f s = retD s"
| "repeatD (Suc n) f s = bindD (f s) (repeatD n f)"

fun btree_insert :: "'k::linorder \<Rightarrow> 'v \<Rightarrow> ('k \<times> 'v) list \<Rightarrow> ('k \<times> 'v) list" where
  "btree_insert k v [] = [(k, v)]"
| "btree_insert k v ((k', v') # m) =
     (if k < k' then (k, v) # (k', v') # m else if k = k' then (k, v) # m else (k', v') # btree_insert k v m)"

definition read_config :: "u64 list rd" where
  "read_config = bindD read_u64 (\<lambda>n. repeatD (unat n) (\<lambda>config. bindD read_u64 (\<lambda>i. retD (insort_insert i config))) [])"

text \<open>\<open>Vec::with_capacity\<close> panics when the elements, of 24 bytes each, exceed \<open>isize::MAX\<close> bytes.\<close>

definition with_capacity :: "u64 \<Rightarrow> unit rd" where
  "with_capacity n = (if 2 ^ 63 \<le> 24 * unat n then liftD (Inl Panic) else retD ())"

definition decode_membership :: "'m membership_api \<Rightarrow> bytes \<Rightarrow> 'm result" where
  "decode_membership M =
     run_rd (bindD read_u64 (\<lambda>n_configs. bindD (with_capacity n_configs) (\<lambda>_.
       bindD (repeatD (unat n_configs) (\<lambda>configs. bindD read_config (\<lambda>config. retD (configs @ [config]))) []) (\<lambda>configs.
       bindD read_u64 (\<lambda>n_nodes.
       bindD (repeatD (unat n_nodes) (\<lambda>nodes. bindD read_u64 (\<lambda>i. bindD read_str (\<lambda>addr. retD (btree_insert i addr nodes)))) []) (\<lambda>nodes.
       bindD read_done (\<lambda>_. retD (ma_new M configs nodes))))))))"

definition decode_stored_membership :: "'m membership_api \<Rightarrow> bytes \<Rightarrow> (log_id option \<times> 'm) result" where
  "decode_stored_membership M buf =
     bindR (bindD read_bool (\<lambda>has_log_id.
        if has_log_id
        then bindD read_u64 (\<lambda>term. bindD read_u64 (\<lambda>node. bindD read_u64 (\<lambda>index.
               retD (Some \<lparr>li_term = term, li_node = node, li_index = index\<rparr>))))
        else retD None) (reader_new buf)) (\<lambda>(li, r).
     bindR (decode_membership M (drop (rd_pos r) buf)) (\<lambda>m. Inr (li, m)))"

definition decode_entry :: "pb_api \<Rightarrow> 'm membership_api \<Rightarrow> bytes \<Rightarrow> 'm entry result" where
  "decode_entry B M =
     run_rd (bindD read_u64 (\<lambda>term. bindD read_u64 (\<lambda>node. bindD read_u64 (\<lambda>index. bindD (take_bytes 1) (\<lambda>tag.
       bindD
         (if hd tag = 0 then retD Blank
          else if hd tag = 1
          then bindD read_u64 (\<lambda>len. bindD (take_bytes (unat len)) (\<lambda>bs.
                 liftD (bindR (pb_decode B bs) (\<lambda>pb. bindR (command_from_proto pb) (\<lambda>cmd. Inr (Normal cmd))))))
          else if hd tag = 2
          then bindD read_u64 (\<lambda>len. bindD (take_bytes (unat len)) (\<lambda>bs.
                 liftD (bindR (decode_membership M bs) (\<lambda>m. Inr (MembershipP m)))))
          else liftD (Inl (Anyhow ''unknown entry payload tag'')))
         (\<lambda>payload. bindD read_done (\<lambda>_.
            retD \<lparr>en_log_id = \<lparr>li_term = term, li_node = node, li_index = index\<rparr>, en_payload = payload\<rparr>)))))))"

end
