(* ===== verification/Wal_Codec_Props.thy ===== *)
theory Wal_Codec_Props
  imports Wal_Codec
begin

text \<open>
  Round trips of the write-ahead log's codec, and what it does with records that are too short or too
  long.  \<open>reads f bs x\<close> says that the reader \<open>f\<close> consumes exactly the bytes \<open>bs\<close>, wherever they stand in a
  buffer, and yields \<open>x\<close>; \<open>reads_end\<close> says so for bytes at the end of the buffer.
\<close>

named_theorems reads_rules \<open>what readers consume\<close>
named_theorems extends_rules \<open>readers are not affected by bytes behind those they read\<close>

subsection \<open>Little-endian integers\<close>

lemma le_bytes_cons:
  fixes w :: u64
  shows "or (ucast (ucast w :: 8 word)) (push_bit 8 (take_bit k (drop_bit 8 w))) = take_bit (8 + k) w"
  by (rule bit_word_eqI) (auto simp: bit_simps)

lemma from_le_bytes_map:
  "from_le_bytes (map (\<lambda>i. ucast (drop_bit (8 * i) w)) [0..<k]) = take_bit (8 * k) w"
proof (induction k arbitrary: w)
  case (Suc k)
  have "map (\<lambda>i. ucast (drop_bit (8 * i) w) :: 8 word) [0..<Suc k] =
      ucast w # map (\<lambda>i. ucast (drop_bit (8 * i) (drop_bit 8 w))) [0..<k]"
    unfolding upt_conv_Cons [OF zero_less_Suc] map_Suc_upt [symmetric] by (simp add: add.commute)
  then show ?case
    using Suc [of "drop_bit 8 w"] le_bytes_cons [of w "8 * k"] by (simp add: from_le_bytes_def)
qed (simp add: from_le_bytes_def)

lemma le_bytes_roundtrip [simp]: "from_le_bytes (to_le_bytes w) = w"
  unfolding to_le_bytes_def from_le_bytes_map by (rule bit_word_eqI) (simp add: bit_simps)

lemma length_put [simp]: "length (put_u64 w) = 8" "length (put_bool b) = 1"
  by (simp_all add: put_u64_def to_le_bytes_def put_bool_def)

subsection \<open>What readers consume\<close>

definition reads :: "'a rd \<Rightarrow> bytes \<Rightarrow> 'a \<Rightarrow> bool" where
  "reads f bs x \<longleftrightarrow> (\<forall>pre suf. length (pre @ bs @ suf) < 2 ^ 64 \<longrightarrow>
     f \<lparr>rd_buf = pre @ bs @ suf, rd_pos = length pre\<rparr> =
       Inr (x, \<lparr>rd_buf = pre @ bs @ suf, rd_pos = length pre + length bs\<rparr>))"

definition reads_end :: "'a rd \<Rightarrow> bytes \<Rightarrow> 'a \<Rightarrow> bool" where
  "reads_end f bs x \<longleftrightarrow> (\<forall>pre. length (pre @ bs) < 2 ^ 64 \<longrightarrow>
     f \<lparr>rd_buf = pre @ bs, rd_pos = length pre\<rparr> =
       Inr (x, \<lparr>rd_buf = pre @ bs, rd_pos = length pre + length bs\<rparr>))"

lemma reads_bind [reads_rules]:
  assumes "reads f bs x" "reads (g x) cs y"
  shows "reads (bindD f g) (bs @ cs) y"
  unfolding reads_def
proof (intro allI impI)
  fix pre suf :: bytes
  assume len: "length (pre @ (bs @ cs) @ suf) < 2 ^ 64"
  have "f \<lparr>rd_buf = pre @ bs @ cs @ suf, rd_pos = length pre\<rparr> =
      Inr (x, \<lparr>rd_buf = pre @ bs @ cs @ suf, rd_pos = length pre + length bs\<rparr>)"
    using assms(1) len unfolding reads_def by (metis append.assoc)
  moreover have "g x \<lparr>rd_buf = (pre @ bs) @ cs @ suf, rd_pos = length (pre @ bs)\<rparr> =
      Inr (y, \<lparr>rd_buf = (pre @ bs) @ cs @ suf, rd_pos = length (pre @ bs) + length cs\<rparr>)"
    using assms(2) len unfolding reads_def by (metis append.assoc)
  ultimately show "bindD f g \<lparr>rd_buf = pre @ (bs @ cs) @ suf, rd_pos = length pre\<rparr> =
      Inr (y, \<lparr>rd_buf = pre @ (bs @ cs) @ suf, rd_pos = length pre + length (bs @ cs)\<rparr>)"
    by (simp add: bindD_def add.assoc)
qed

lemma reads_end_bind [reads_rules]:
  assumes "reads f bs x" "reads_end (g x) cs y"
  shows "reads_end (bindD f g) (bs @ cs) y"
  unfolding reads_end_def
proof (intro allI impI)
  fix pre :: bytes
  assume len: "length (pre @ bs @ cs) < 2 ^ 64"
  have "f \<lparr>rd_buf = pre @ bs @ cs, rd_pos = length pre\<rparr> =
      Inr (x, \<lparr>rd_buf = pre @ bs @ cs, rd_pos = length pre + length bs\<rparr>)"
    using assms(1) len unfolding reads_def by blast
  moreover have "g x \<lparr>rd_buf = (pre @ bs) @ cs, rd_pos = length (pre @ bs)\<rparr> =
      Inr (y, \<lparr>rd_buf = (pre @ bs) @ cs, rd_pos = length (pre @ bs) + length cs\<rparr>)"
    using assms(2) len unfolding reads_end_def by (metis append.assoc)
  ultimately show "bindD f g \<lparr>rd_buf = pre @ bs @ cs, rd_pos = length pre\<rparr> =
      Inr (y, \<lparr>rd_buf = pre @ bs @ cs, rd_pos = length pre + length (bs @ cs)\<rparr>)"
    by (simp add: bindD_def add.assoc)
qed

lemma reads_ret [reads_rules]: "reads (retD x) [] x" "reads (liftD (Inr x)) [] x"
  by (simp_all add: reads_def retD_def liftD_def)

lemma reads_ret_eq: "x = y \<Longrightarrow> reads (retD x) [] y"
  by (simp add: reads_ret)

lemma reads_end_done: "x = y \<Longrightarrow> reads_end (bindD read_done (\<lambda>_. retD x)) [] y"
  by (simp add: reads_end_def bindD_def read_done_def retD_def)

lemma reads_take [reads_rules]: "n = length bs \<Longrightarrow> reads (take_bytes n) bs bs"
  by (simp add: reads_def take_bytes_def Let_def)

lemma reads_bind0: "reads f bs x \<Longrightarrow> reads (g x) [] y \<Longrightarrow> reads (bindD f g) bs y"
  using reads_bind [of f bs x g "[]" y] by simp

lemma reads_u64 [reads_rules]: "reads read_u64 (put_u64 w) w"
  unfolding read_u64_def
  by (rule reads_bind0 [OF reads_take]) (simp_all add: put_u64_def reads_ret, simp add: to_le_bytes_def)

lemma reads_bool [reads_rules]: "reads read_bool (put_bool b) b"
  unfolding read_bool_def
  by (rule reads_bind0 [OF reads_take]) (simp_all add: put_bool_def reads_ret)

lemma char_byte_roundtrip [simp]: "char_of (unat (of_char c :: 8 word)) = c"
proof -
  have "unat (of_nat (of_char c) :: 8 word) = of_char c"
    unfolding unat_of_nat by simp
  then show ?thesis
    unfolding of_nat_of_char by simp
qed

lemma reads_str [reads_rules]:
  assumes "valid_utf8 (as_bytes s)" "length s < 2 ^ 64"
  shows "reads read_str (put_str s) s"
proof -
  have len: "unat (of_nat (length s) :: u64) = length s"
    using assms(2) by (simp add: unat_of_nat)
  have "from_utf8 (as_bytes s) = Inr s"
    using assms(1) by (simp add: from_utf8_def as_bytes_def comp_def)
  then have "reads (liftD (from_utf8 (as_bytes s))) [] s"
    by (simp add: reads_ret)
  then have "reads (bindD (take_bytes (length s)) (\<lambda>b. liftD (from_utf8 b))) (as_bytes s) s"
    by (intro reads_bind0 [OF reads_take]) (simp_all add: as_bytes_def)
  then show ?thesis
    unfolding read_str_def put_str_def by (intro reads_bind [OF reads_u64]) (simp add: len)
qed

lemma reads_repeat:
  assumes "\<And>s x. x \<in> set xs \<Longrightarrow> reads (f s) (enc x) (step s x)"
  shows "reads (repeatD (length xs) f s) (concat (map enc xs)) (foldl step s xs)"
  using assms
proof (induction xs arbitrary: s)
  case (Cons x xs)
  then show ?case
    using reads_bind [of "f s" "enc x" "step s x" "repeatD (length xs) f"] by simp
qed (simp add: reads_ret)

lemma run_reads_end: "reads_end f bs x \<Longrightarrow> length bs < 2 ^ 64 \<Longrightarrow> run_rd f bs = Inr x"
  unfolding reads_end_def run_rd_def reader_new_def
  by (drule spec [of _ "[]"]) simp

subsection \<open>Votes and log ids\<close>

lemma vote_roundtrip: "decode_vote (encode_vote v) = Inr v"
proof -
  have "reads_end (bindD read_u64 (\<lambda>term. bindD read_u64 (\<lambda>node. bindD read_bool (\<lambda>committed. bindD read_done (\<lambda>_.
       retD \<lparr>vt_term = term, vt_node = node, vt_committed = committed\<rparr>)))))
     (put_u64 (vt_term v) @ put_u64 (vt_node v) @ put_bool (vt_committed v) @ [])
     v"
    by ((rule reads_end_bind reads_u64 reads_bool reads_end_done)+, simp)
  then show ?thesis
    unfolding decode_vote_def encode_vote_def by (intro run_reads_end) simp_all
qed

lemma leader_id_roundtrip: "decode_committed_leader_id (encode_committed_leader_id term node) = Inr (term, node)"
proof -
  have "reads_end (bindD read_u64 (\<lambda>term. bindD read_u64 (\<lambda>node. bindD read_done (\<lambda>_. retD (term, node)))))
     (put_u64 term @ put_u64 node @ []) (term, node)"
    by ((rule reads_end_bind reads_u64 reads_bool reads_end_done)+, simp)
  then show ?thesis
    unfolding decode_committed_leader_id_def encode_committed_leader_id_def by (intro run_reads_end) simp_all
qed

lemma length_leader_id [simp]: "length (encode_committed_leader_id term node) = 16"
  by (simp add: encode_committed_leader_id_def)

lemma log_id_roundtrip: "decode_log_id (encode_log_id i) = Inr i"
proof -
  have "reads_end (bindD read_u64 (\<lambda>index. bindD read_done (\<lambda>_.
      retD \<lparr>li_term = li_term i, li_node = li_node i, li_index = index\<rparr>))) (put_u64 (li_index i) @ []) i"
    by (rule reads_end_bind [OF reads_u64]) (simp add: reads_end_done)
  then have "run_rd (bindD read_u64 (\<lambda>index. bindD read_done (\<lambda>_.
      retD \<lparr>li_term = li_term i, li_node = li_node i, li_index = index\<rparr>))) (put_u64 (li_index i)) = Inr i"
    by (intro run_reads_end) simp_all
  then show ?thesis
    by (simp add: decode_log_id_def encode_log_id_def leader_id_roundtrip)
qed

subsection \<open>Memberships\<close>

text \<open>What the code relies on of a membership: \<open>Membership::new\<close> on its own configurations and nodes gives it
  back; the configurations are sets and the nodes a map, iterated in ascending order, with addresses
  that are strings and sizes that fit memory.\<close>

definition membership_ok :: "'m membership_api \<Rightarrow> 'm \<Rightarrow> bool" where
  "membership_ok M m \<longleftrightarrow> ma_new M (ma_configs M m) (ma_nodes M m) = m \<and>
     list_all (\<lambda>config. sorted_wrt (<) config \<and> length config < 2 ^ 63) (ma_configs M m) \<and>
     24 * length (ma_configs M m) < 2 ^ 63 \<and>
     sorted_wrt (<) (map fst (ma_nodes M m)) \<and> length (ma_nodes M m) < 2 ^ 63 \<and>
     list_all (\<lambda>(_, addr). valid_utf8 (as_bytes addr) \<and> length addr < 2 ^ 63) (ma_nodes M m)"

lemma insort_insert_last: "\<forall>y\<in>set xs. y < x \<Longrightarrow> insort_insert x xs = xs @ [x]"
  by (induction xs) (auto simp: insort_insert_key_def insort_is_Cons not_le_imp_less)

lemma btree_insert_last: "\<forall>y\<in>set m. fst y < k \<Longrightarrow> btree_insert k v m = m @ [(k, v)]"
  by (induction m) auto

text \<open>Inserting in ascending order appends.\<close>

lemma foldl_insort: "sorted_wrt (<) (acc @ xs) \<Longrightarrow> foldl (\<lambda>s x. insort_insert x s) acc xs = acc @ xs"
proof (induction xs arbitrary: acc)
  case (Cons x xs)
  then show ?case
    using insort_insert_last [of acc x] by (simp add: sorted_wrt_append)
qed simp

lemma foldl_btree: "sorted_wrt (<) (map fst (acc @ xs)) \<Longrightarrow> foldl (\<lambda>s (k, v). btree_insert k v s) acc xs = acc @ xs"
proof (induction xs arbitrary: acc)
  case (Cons x xs)
  then show ?case
    using btree_insert_last [of acc "fst x" "snd x"] by (simp add: sorted_wrt_append case_prod_beta)
qed simp

lemma unat_of_length: "n < 2 ^ 63 \<Longrightarrow> unat (of_nat n :: u64) = n"
  by (simp add: unat_of_nat)

lemma reads_config:
  assumes "sorted_wrt (<) config" "length config < 2 ^ 63"
  shows "reads read_config (put_u64 (of_nat (length config)) @ concat (map put_u64 config)) config"
proof -
  have "reads (repeatD (length config) (\<lambda>s. bindD read_u64 (\<lambda>i. retD (insort_insert i s))) [])
      (concat (map put_u64 config)) (foldl (\<lambda>s x. insort_insert x s) [] config)"
    by (rule reads_repeat) (rule reads_bind0 [OF reads_u64 reads_ret(1)])
  then show ?thesis
    unfolding read_config_def using foldl_insort [of "[]" config] assms
    by (intro reads_bind [OF reads_u64]) (simp add: unat_of_length)
qed

lemma reads_configs:
  assumes "list_all (\<lambda>config. sorted_wrt (<) config \<and> length config < 2 ^ 63) configs"
  shows "reads (repeatD (length configs) (\<lambda>s. bindD read_config (\<lambda>config. retD (s @ [config]))) [])
    (concat (map (\<lambda>config. put_u64 (of_nat (length config)) @ concat (map put_u64 config)) configs)) configs"
proof -
  have "foldl (\<lambda>s x. s @ [x]) acc xs = acc @ xs" for acc and xs :: "u64 list list"
    by (induction xs arbitrary: acc) simp_all
  moreover have "reads (bindD read_config (\<lambda>config. retD (s @ [config])))
      (put_u64 (of_nat (length x)) @ concat (map put_u64 x)) (s @ [x])" if "x \<in> set configs" for s x
    by (rule reads_bind0 [OF reads_config reads_ret(1)]) (use that assms in \<open>simp_all add: list_all_iff\<close>)
  ultimately show ?thesis
    using reads_repeat [of configs "\<lambda>s. bindD read_config (\<lambda>config. retD (s @ [config]))"
      "\<lambda>config. put_u64 (of_nat (length config)) @ concat (map put_u64 config)" "\<lambda>s x. s @ [x]" "[]"]
    by simp
qed

lemma reads_nodes:
  assumes "sorted_wrt (<) (map fst nodes)"
    and "list_all (\<lambda>(_, addr). valid_utf8 (as_bytes addr) \<and> length addr < 2 ^ 63) nodes"
  shows "reads (repeatD (length nodes) (\<lambda>s. bindD read_u64 (\<lambda>i. bindD read_str (\<lambda>addr. retD (btree_insert i addr s)))) [])
    (concat (map (\<lambda>(i, addr). put_u64 i @ put_str addr) nodes)) nodes"
proof -
  have "reads (bindD read_u64 (\<lambda>i. bindD read_str (\<lambda>addr. retD (btree_insert i addr s))))
      ((\<lambda>(i, addr). put_u64 i @ put_str addr) x) ((\<lambda>(k, v). btree_insert k v s) x)" if "x \<in> set nodes" for s x
    using that assms(2)
    by (cases x) (auto simp: list_all_iff intro!: reads_bind [OF reads_u64] reads_bind0 [OF reads_str reads_ret(1)])
  then show ?thesis
    using reads_repeat [of nodes _ "\<lambda>(i, addr). put_u64 i @ put_str addr" "\<lambda>s (k, v). btree_insert k v s" "[]"]
      foldl_btree [of "[]" nodes] assms(1) by simp
qed

lemma reads_capacity: "24 * unat n < 2 ^ 63 \<Longrightarrow> reads (with_capacity n) [] ()"
  by (simp add: with_capacity_def reads_ret)

lemma reads_end_bind0: "reads f [] x \<Longrightarrow> reads_end (g x) bs y \<Longrightarrow> reads_end (bindD f g) bs y"
  using reads_end_bind [of f "[]" x g bs y] by simp

lemma membership_roundtrip:
  assumes "membership_ok M m" "length (encode_membership M m) < 2 ^ 64"
  shows "decode_membership M (encode_membership M m) = Inr m"
proof -
  let ?cs = "ma_configs M m" and ?ns = "ma_nodes M m"
  have ok: "ma_new M ?cs ?ns = m" "list_all (\<lambda>config. sorted_wrt (<) config \<and> length config < 2 ^ 63) ?cs"
    "24 * length ?cs < 2 ^ 63" "sorted_wrt (<) (map fst ?ns)" "length ?ns < 2 ^ 63"
    "list_all (\<lambda>(_, addr). valid_utf8 (as_bytes addr) \<and> length addr < 2 ^ 63) ?ns"
    using assms(1) by (simp_all add: membership_ok_def)
  have len: "unat (of_nat (length ?cs) :: u64) = length ?cs" "unat (of_nat (length ?ns) :: u64) = length ?ns"
    using ok(3,5) by (simp_all add: unat_of_length)
  have "run_rd (bindD read_u64 (\<lambda>n_configs. bindD (with_capacity n_configs) (\<lambda>_.
       bindD (repeatD (unat n_configs) (\<lambda>configs. bindD read_config (\<lambda>config. retD (configs @ [config]))) []) (\<lambda>configs.
       bindD read_u64 (\<lambda>n_nodes.
       bindD (repeatD (unat n_nodes) (\<lambda>nodes. bindD read_u64 (\<lambda>i. bindD read_str (\<lambda>addr. retD (btree_insert i addr nodes)))) []) (\<lambda>nodes.
       bindD read_done (\<lambda>_. retD (ma_new M configs nodes))))))))
     (encode_membership M m @ []) = Inr m"
    unfolding encode_membership_def append_assoc
    by (rule run_reads_end, rule reads_end_bind [OF reads_u64], rule reads_end_bind0 [OF reads_capacity],
        use ok(3) len in simp, rule reads_end_bind [where x = ?cs], use reads_configs [OF ok(2)] len in simp,
        rule reads_end_bind [OF reads_u64], rule reads_end_bind [where x = ?ns],
        use reads_nodes [OF ok(4,6)] len in simp, rule reads_end_done [OF ok(1)])
       (use assms(2) in \<open>simp add: encode_membership_def\<close>)
  then show ?thesis
    by (simp add: decode_membership_def)
qed

lemma stored_membership_roundtrip:
  assumes "membership_ok M m" "length (encode_stored_membership M li m) < 2 ^ 64"
  shows "decode_stored_membership M (encode_stored_membership M li m) = Inr (li, m)"
proof -
  let ?f = "bindD read_bool (\<lambda>has_log_id. if has_log_id
     then bindD read_u64 (\<lambda>term. bindD read_u64 (\<lambda>node. bindD read_u64 (\<lambda>index.
            retD (Some \<lparr>li_term = term, li_node = node, li_index = index\<rparr>))))
     else retD None)"
  let ?h = "case li of Some i \<Rightarrow> put_bool True @ encode_log_id i | None \<Rightarrow> put_bool False"
  have rd: "reads ?f ?h li"
  proof (cases li)
    case None
    show ?thesis
      unfolding None option.case by (rule reads_bind0 [OF reads_bool]) (simp add: reads_ret)
  next
    case (Some i)
    have "reads (bindD read_u64 (\<lambda>term. bindD read_u64 (\<lambda>node. bindD read_u64 (\<lambda>index.
            retD (Some \<lparr>li_term = term, li_node = node, li_index = index\<rparr>)))))
       (put_u64 (li_term i) @ put_u64 (li_node i) @ put_u64 (li_index i)) (Some i)"
      by ((rule reads_bind [OF reads_u64] reads_bind0 [OF reads_u64] reads_ret_eq)+, simp)
    then show ?thesis
      unfolding Some option.case encode_log_id_def encode_committed_leader_id_def append_assoc
      by (intro reads_bind [OF reads_bool]) simp
  qed
  have len: "length ([] @ ?h @ encode_membership M m) < 2 ^ 64"
    using assms(2) by (simp add: encode_stored_membership_def)
  have "?f \<lparr>rd_buf = [] @ ?h @ encode_membership M m, rd_pos = length ([] :: bytes)\<rparr> =
      Inr (li, \<lparr>rd_buf = [] @ ?h @ encode_membership M m, rd_pos = length ([] :: bytes) + length ?h\<rparr>)"
    using rd [unfolded reads_def, rule_format, OF len] .
  then show ?thesis
    using membership_roundtrip [OF assms(1)] assms(2)
    by (simp add: decode_stored_membership_def encode_stored_membership_def reader_new_def)
qed

subsection \<open>Entries\<close>

definition payload_reader :: "pb_api \<Rightarrow> 'm membership_api \<Rightarrow> bytes \<Rightarrow> 'm entry_payload rd" where
  "payload_reader B M tag =
     (if hd tag = 0 then retD Blank
      else if hd tag = 1
      then bindD read_u64 (\<lambda>len. bindD (take_bytes (unat len)) (\<lambda>bs.
             liftD (bindR (pb_decode B bs) (\<lambda>pb. bindR (command_from_proto pb) (\<lambda>cmd. Inr (Normal cmd))))))
      else if hd tag = 2
      then bindD read_u64 (\<lambda>len. bindD (take_bytes (unat len)) (\<lambda>bs.
             liftD (bindR (decode_membership M bs) (\<lambda>m. Inr (MembershipP m)))))
      else liftD (Inl (Anyhow ''unknown entry payload tag'')))"

definition entry_reader :: "pb_api \<Rightarrow> 'm membership_api \<Rightarrow> 'm entry rd" where
  "entry_reader B M =
     bindD read_u64 (\<lambda>term. bindD read_u64 (\<lambda>node. bindD read_u64 (\<lambda>index. bindD (take_bytes 1) (\<lambda>tag.
       bindD (payload_reader B M tag) (\<lambda>payload. bindD read_done (\<lambda>_.
         retD \<lparr>en_log_id = \<lparr>li_term = term, li_node = node, li_index = index\<rparr>, en_payload = payload\<rparr>))))))"

lemma decode_entry_reader: "decode_entry B M = run_rd (entry_reader B M)"
  unfolding decode_entry_def entry_reader_def payload_reader_def ..

text \<open>An entry the log can hold: its command has the promised shapes and its message is one the protobuf
  library decodes to what it encoded; its membership is one; it fits memory.\<close>

definition entry_ok :: "platform \<Rightarrow> pb_api \<Rightarrow> 'm membership_api \<Rightarrow> 'm entry \<Rightarrow> bool" where
  "entry_ok P B M e \<longleftrightarrow>
     (case en_payload e of
        Blank \<Rightarrow> True
      | Normal cmd \<Rightarrow> command_safe cmd \<and> pb_decode B (pb_encode B (command_to_proto P cmd)) = Inr (command_to_proto P cmd)
      | MembershipP m \<Rightarrow> membership_ok M m) \<and>
     (case encode_entry P B M e of Inl _ \<Rightarrow> False | Inr bs \<Rightarrow> length bs < 2 ^ 63)"

text \<open>A length-prefixed block that is decoded as a whole.\<close>

lemma reads_block:
  assumes "f bs = Inr x" "length bs < 2 ^ 63"
  shows "reads (bindD read_u64 (\<lambda>len. bindD (take_bytes (unat len)) (\<lambda>b. liftD (f b)))) (put_u64 (of_nat (length bs)) @ bs) x"
  by (rule reads_bind [OF reads_u64], rule reads_bind0 [OF reads_take])
     (use assms in \<open>simp_all add: unat_of_length reads_ret\<close>)

lemma entry_roundtrip:
  assumes ok: "entry_ok P B M e" and enc: "encode_entry P B M e = Inr bs"
  shows "decode_entry B M bs = Inr e"
proof -
  let ?i = "en_log_id e"
  define tag where "tag = (case en_payload e of Blank \<Rightarrow> [0] | Normal _ \<Rightarrow> [1] | MembershipP _ \<Rightarrow> [2 :: 8 word])"
  obtain rest where rest: "bs = put_u64 (li_term ?i) @ put_u64 (li_node ?i) @ put_u64 (li_index ?i) @ tag @ rest"
    and len: "length bs < 2 ^ 63" and pay: "reads (payload_reader B M tag) rest (en_payload e)"
  proof (cases "en_payload e")
    case Blank
    then show ?thesis
      using that [of "[]"] ok enc by (auto simp: entry_ok_def encode_entry_def tag_def payload_reader_def reads_ret)
  next
    case (Normal cmd)
    let ?bs = "pb_encode B (command_to_proto P cmd)"
    have "bindR (pb_decode B ?bs) (\<lambda>pb. bindR (command_from_proto pb) (\<lambda>cmd. Inr (Normal cmd))) = Inr (en_payload e)"
      "length ?bs < 2 ^ 63"
      using ok Normal by (auto simp: entry_ok_def encode_entry_def command_roundtrip Let_def)
    from reads_block [where f = "\<lambda>bs. bindR (pb_decode B bs) (\<lambda>pb. bindR (command_from_proto pb) (\<lambda>cmd. Inr (Normal cmd)))", OF this]
    have "reads (payload_reader B M tag) (put_u64 (of_nat (length ?bs)) @ ?bs) (en_payload e)"
      by (simp add: payload_reader_def tag_def Normal)
    then show ?thesis
      using that ok enc Normal by (auto simp: entry_ok_def encode_entry_def tag_def Let_def)
  next
    case (MembershipP m)
    let ?bs = "encode_membership M m"
    have mok: "membership_ok M m" and mlen: "length ?bs < 2 ^ 63"
      using ok MembershipP by (auto simp: entry_ok_def encode_entry_def Let_def)
    then have "bindR (decode_membership M ?bs) (\<lambda>m. Inr (MembershipP m)) = Inr (en_payload e)"
      using membership_roundtrip [OF mok] MembershipP by simp
    from reads_block [where f = "\<lambda>bs. bindR (decode_membership M bs) (\<lambda>m. Inr (MembershipP m))", OF this mlen]
    have "reads (payload_reader B M tag) (put_u64 (of_nat (length ?bs)) @ ?bs) (en_payload e)"
      by (simp add: payload_reader_def tag_def MembershipP)
    then show ?thesis
      using that ok enc MembershipP by (auto simp: entry_ok_def encode_entry_def tag_def Let_def)
  qed
  have "reads_end (entry_reader B M)
      (put_u64 (li_term ?i) @ put_u64 (li_node ?i) @ put_u64 (li_index ?i) @ tag @ rest @ []) e"
    unfolding entry_reader_def
    by (rule reads_end_bind [OF reads_u64], rule reads_end_bind [OF reads_u64], rule reads_end_bind [OF reads_u64],
        rule reads_end_bind [OF reads_take], simp add: tag_def split: entry_payload.split,
        rule reads_end_bind [OF pay], rule reads_end_done) simp
  then show ?thesis
    unfolding decode_entry_reader rest using len rest by (intro run_reads_end) simp_all
qed

subsection \<open>Torn records\<close>

text \<open>\<open>extends f\<close>: where \<open>f\<close> succeeds, it does so with the same result when more bytes follow; \<open>ends f\<close>: where
  \<open>f\<close> succeeds, it fails when more bytes follow.\<close>

definition extends :: "'a rd \<Rightarrow> bool" where
  "extends f \<longleftrightarrow> (\<forall>buf pos x r suf. f \<lparr>rd_buf = buf, rd_pos = pos\<rparr> = Inr (x, r) \<longrightarrow>
     rd_buf r = buf \<and> f \<lparr>rd_buf = buf @ suf, rd_pos = pos\<rparr> = Inr (x, \<lparr>rd_buf = buf @ suf, rd_pos = rd_pos r\<rparr>))"

definition ends :: "'a rd \<Rightarrow> bool" where
  "ends f \<longleftrightarrow> (\<forall>buf pos x r suf. f \<lparr>rd_buf = buf, rd_pos = pos\<rparr> = Inr (x, r) \<longrightarrow> suf \<noteq> [] \<longrightarrow>
     (\<exists>e. f \<lparr>rd_buf = buf @ suf, rd_pos = pos\<rparr> = Inl e))"

lemma extends_bind [extends_rules]:
  assumes "extends f" "\<And>x. extends (g x)"
  shows "extends (bindD f g)"
  unfolding extends_def
proof (intro allI impI)
  fix buf pos y r and suf :: bytes
  assume "bindD f g \<lparr>rd_buf = buf, rd_pos = pos\<rparr> = Inr (y, r)"
  then obtain x r1 where x: "f \<lparr>rd_buf = buf, rd_pos = pos\<rparr> = Inr (x, r1)" "g x r1 = Inr (y, r)"
    by (auto simp: bindD_def)
  then have r1: "r1 = \<lparr>rd_buf = buf, rd_pos = rd_pos r1\<rparr>"
    and f: "f \<lparr>rd_buf = buf @ suf, rd_pos = pos\<rparr> = Inr (x, \<lparr>rd_buf = buf @ suf, rd_pos = rd_pos r1\<rparr>)"
    using assms(1) unfolding extends_def by auto
  have g: "g x \<lparr>rd_buf = buf, rd_pos = rd_pos r1\<rparr> = Inr (y, r)"
    using x(2) r1 by metis
  show "rd_buf r = buf \<and> bindD f g \<lparr>rd_buf = buf @ suf, rd_pos = pos\<rparr> = Inr (y, \<lparr>rd_buf = buf @ suf, rd_pos = rd_pos r\<rparr>)"
    using assms(2) [of x] g f unfolding extends_def bindD_def by auto
qed

lemma ends_bind:
  assumes "extends f" "\<And>x. ends (g x)"
  shows "ends (bindD f g)"
  unfolding ends_def
proof (intro allI impI)
  fix buf pos y r and suf :: bytes
  assume "bindD f g \<lparr>rd_buf = buf, rd_pos = pos\<rparr> = Inr (y, r)" and suf: "suf \<noteq> []"
  then obtain x r1 where x: "f \<lparr>rd_buf = buf, rd_pos = pos\<rparr> = Inr (x, r1)" "g x r1 = Inr (y, r)"
    by (auto simp: bindD_def)
  then have r1: "r1 = \<lparr>rd_buf = buf, rd_pos = rd_pos r1\<rparr>"
    and f: "f \<lparr>rd_buf = buf @ suf, rd_pos = pos\<rparr> = Inr (x, \<lparr>rd_buf = buf @ suf, rd_pos = rd_pos r1\<rparr>)"
    using assms(1) unfolding extends_def by auto
  have g: "g x \<lparr>rd_buf = buf, rd_pos = rd_pos r1\<rparr> = Inr (y, r)"
    using x(2) r1 by metis
  then show "\<exists>e. bindD f g \<lparr>rd_buf = buf @ suf, rd_pos = pos\<rparr> = Inl e"
    using assms(2) [of x] f suf unfolding ends_def bindD_def by auto
qed

lemma ends_done: "ends (bindD read_done g)"
  by (auto simp: ends_def bindD_def read_done_def split: if_splits)

lemma extends_basic [extends_rules]: "extends (retD x)" "extends (liftD y)"
  by (auto simp: extends_def retD_def liftD_def)

lemma extends_take [extends_rules]: "extends (take_bytes n)"
  by (auto simp: extends_def take_bytes_def Let_def split: if_splits)

lemma extends_if [extends_rules]: "extends f \<Longrightarrow> extends g \<Longrightarrow> extends (if b then f else g)"
  by simp

lemma extends_read [extends_rules]: "extends read_u64" "extends read_bool"
  unfolding read_u64_def read_bool_def by (intro extends_rules)+

lemma ends_run:
  assumes "ends f" "run_rd f bs = Inr x" "suf \<noteq> []"
  shows "\<exists>e. run_rd f (bs @ suf) = Inl e"
  using assms unfolding ends_def run_rd_def reader_new_def by fastforce

text \<open>A record that decodes has no proper prefix that does.\<close>

lemma ends_prefix:
  assumes "ends f" "run_rd f bs = Inr x" "n < length bs"
  shows "\<exists>e. run_rd f (take n bs) = Inl e"
proof (rule ccontr)
  assume "\<nexists>e. run_rd f (take n bs) = Inl e"
  then obtain y where "run_rd f (take n bs) = Inr y"
    by (cases "run_rd f (take n bs)") auto
  from ends_run [OF assms(1) this, of "drop n bs"] show False
    using assms(2,3) by simp
qed

lemma ends_entry: "ends (entry_reader B M)"
  unfolding entry_reader_def payload_reader_def by (intro ends_bind ends_done extends_rules)

lemma ends_vote: "ends (bindD read_u64 (\<lambda>term. bindD read_u64 (\<lambda>node. bindD read_bool (\<lambda>committed. bindD read_done (\<lambda>_.
    retD \<lparr>vt_term = term, vt_node = node, vt_committed = committed\<rparr>)))))"
  by (intro ends_bind ends_done extends_rules)

subsection \<open>Properties\<close>

text \<open>C35: What the write-ahead log writes it reads back: votes, log ids, stored memberships and log entries
  (blank, with a command, or with a membership) decode to what was encoded.\<close>

theorem wal_roundtrip:
  assumes "entry_ok P B M e" "encode_entry P B M e = Inr bs"
    and "membership_ok M m" "length (encode_stored_membership M li m) < 2 ^ 64"
  shows "decode_entry B M bs = Inr e \<and> decode_stored_membership M (encode_stored_membership M li m) = Inr (li, m) \<and>
    decode_vote (encode_vote v) = Inr v \<and> decode_log_id (encode_log_id i) = Inr i"
  using entry_roundtrip [OF assms(1,2)] stored_membership_roundtrip [OF assms(3,4)] vote_roundtrip log_id_roundtrip
  by blast

text \<open>C36: Torn writes are detected: whatever record decodes as an entry (or as a vote), no proper prefix of it
  does, and neither does it with bytes appended.\<close>

theorem torn_entry_detected:
  assumes "decode_entry B M bs = Inr e"
  shows "(\<forall>n<length bs. \<exists>err. decode_entry B M (take n bs) = Inl err) \<and>
    (\<forall>suf. suf \<noteq> [] \<longrightarrow> (\<exists>err. decode_entry B M (bs @ suf) = Inl err))"
  using ends_prefix [OF ends_entry assms [unfolded decode_entry_reader]]
    ends_run [OF ends_entry assms [unfolded decode_entry_reader]] unfolding decode_entry_reader by blast

text \<open>Instances of the two libraries, for concrete runs: a membership is its configurations and nodes, and
  one message has an encoding.\<close>

definition pair_api :: "(u64 list list \<times> (u64 \<times> string) list) membership_api" where
  "pair_api = \<lparr>ma_configs = fst, ma_nodes = snd, ma_new = Pair\<rparr>"

definition noop_api :: pb_api where
  "noop_api = \<lparr>pb_encode = (\<lambda>_. [8, 4, 42, 0]), pb_decode = (\<lambda>_. Inr (command_to_proto demo_platform Noop))\<rparr>"

definition demo_membership :: "u64 list list \<times> (u64 \<times> string) list" where
  "demo_membership = ([[1, 2]], [(1, ''10.0.0.1:8090''), (2, ''10.0.0.2:8090'')])"

definition demo_entry :: "(u64 list list \<times> (u64 \<times> string) list) entry" where
  "demo_entry = \<lparr>en_log_id = \<lparr>li_term = 3, li_node = 1, li_index = 17\<rparr>, en_payload = Normal Noop\<rparr>"

lemma demo_addresses:
  "valid_utf8 (as_bytes ''10.0.0.1:8090'')" "valid_utf8 (as_bytes ''10.0.0.2:8090'')"
  by code_simp+

lemma demo_membership_ok: "membership_ok pair_api demo_membership"
  by (simp add: membership_ok_def pair_api_def demo_membership_def demo_addresses)

lemma demo_entry_ok: "entry_ok demo_platform noop_api pair_api demo_entry"
  by (simp add: entry_ok_def demo_entry_def noop_api_def encode_entry_def)

lemma demo_stored_length: "length (encode_stored_membership pair_api None demo_membership) < 2 ^ 64"
  by (simp add: encode_stored_membership_def encode_membership_def pair_api_def demo_membership_def put_str_def as_bytes_def)

theorem wal_roundtrip_witness:
  "bindR (encode_entry demo_platform noop_api pair_api demo_entry) (decode_entry noop_api pair_api) = Inr demo_entry \<and>
     decode_stored_membership pair_api (encode_stored_membership pair_api None demo_membership) = Inr (None, demo_membership)"
proof -
  obtain bs where "encode_entry demo_platform noop_api pair_api demo_entry = Inr bs"
    by (simp add: encode_entry_def)
  then show ?thesis
    using wal_roundtrip [OF demo_entry_ok _ demo_membership_ok demo_stored_length] by simp
qed

theorem torn_entry_detected_witness:
  "\<exists>bs err. encode_entry demo_platform noop_api pair_api demo_entry = Inr bs \<and> length bs = 37 \<and>
     decode_entry noop_api pair_api (take 20 bs) = Inl err"
proof -
  obtain bs where bs: "encode_entry demo_platform noop_api pair_api demo_entry = Inr bs" "length bs = 37"
    by (simp add: encode_entry_def demo_entry_def noop_api_def)
  then show ?thesis
    using torn_entry_detected [OF entry_roundtrip [OF demo_entry_ok bs(1)]] by auto
qed

text \<open>A corrupt membership record does not always give an error: a configuration count that no memory can
  hold panics with a capacity overflow before the missing bytes are noticed.\<close>

theorem membership_capacity_panic:
  assumes "2 ^ 63 \<le> 24 * unat n" "length bs < 2 ^ 63"
  shows "decode_membership M (put_u64 n @ bs) = Inl Panic"
proof -
  have "read_u64 \<lparr>rd_buf = put_u64 n @ bs, rd_pos = 0\<rparr> = Inr (n, \<lparr>rd_buf = put_u64 n @ bs, rd_pos = 8\<rparr>)"
    using reads_u64 [of n, unfolded reads_def, rule_format, of "[]" bs] assms(2) by simp
  then show ?thesis
    using assms(1) by (simp add: decode_membership_def run_rd_def reader_new_def bindD_def [of read_u64]
        with_capacity_def bindD_def [of "liftD (Inl Panic)"] liftD_def)
qed

theorem membership_capacity_panic_witness:
  "decode_membership pair_api [0, 0, 0, 0, 0, 0, 0, 0x80] = Inl Panic"
proof -
  have "[0, 0, 0, 0, 0, 0, 0, 0x80] = put_u64 (2 ^ 63) @ []"
    by code_simp
  moreover have "2 ^ 63 \<le> 24 * unat (2 ^ 63 :: u64)"
    by simp
  ultimately show ?thesis
    using membership_capacity_panic [of "2 ^ 63" "[]" pair_api] by simp
qed

end
