(* ===== verification/Lowering.thy ===== *)
theory Lowering
  imports Arena Plan_IR Planner_Frame
begin

text \<open>
  \<open>mangle-analysis/src/lowering.rs\<close>: from the abstract syntax of a unit to the flat instruction list of the
  IR.  The context holds the IR and the instruction of each variable of the clause at hand; every method is
  a state transformer on it.  A method fails only where an index no longer fits 32 bits.
\<close>

subsection \<open>Declarations and units\<close>

record bound_decl =
  bd_base_terms :: "base_term list"

record constraints =
  co_consequences :: "atom list"
  co_alternatives :: "atom list list"

record decl =
  de_atom :: atom
  de_descr :: "atom list"
  de_bounds :: "bound_decl list option"
  de_constraints :: "constraints option"
  de_is_temporal :: bool

record ast_unit =
  un_decls :: "decl list"
  un_clauses :: "clause list"

subsection \<open>The context\<close>

record lowering_context =
  lc_ir :: ir
  lc_vars :: "(var_index \<times> inst_id) list"

type_synonym 'a low = "lowering_context \<Rightarrow> ('a \<times> lowering_context) result"

definition bindL :: "'a low \<Rightarrow> ('a \<Rightarrow> 'b low) \<Rightarrow> 'b low" where
  "bindL f g c = bindR (f c) (\<lambda>(x, c'). g x c')"

definition retL :: "'a \<Rightarrow> 'a low" where
  "retL x c = Inr (x, c)"

definition on_ir :: "(ir \<Rightarrow> ('a \<times> ir) result) \<Rightarrow> 'a low" where
  "on_ir f c = bindR (f (lc_ir c)) (\<lambda>(x, m). Inr (x, c\<lparr>lc_ir := m\<rparr>))"

definition add_temporal :: "name_id \<Rightarrow> unit low" where
  "add_temporal k c =
     Inr ((), c\<lparr>lc_ir := (lc_ir c)\<lparr>temporal_predicates := List.insert k (temporal_predicates (lc_ir c))\<rparr>\<rparr>)"

definition clear_vars :: "unit low" where
  "clear_vars c = Inr ((), c\<lparr>lc_vars := []\<rparr>)"

text \<open>\<open>iter().map(f).collect()\<close> with a method as \<open>f\<close>.\<close>

fun mapL :: "('a \<Rightarrow> 'b low) \<Rightarrow> 'a list \<Rightarrow> 'b list low" where
  "mapL f [] = retL []"
| "mapL f (x # xs) = bindL (f x) (\<lambda>y. bindL (mapL f xs) (\<lambda>ys. retL (y # ys)))"

lemma mapL_cong [fundef_cong]:
  "xs = ys \<Longrightarrow> (\<And>x. x \<in> set ys \<Longrightarrow> f x = g x) \<Longrightarrow> mapL f xs = mapL g ys"
  by (induction ys arbitrary: xs) auto

subsection \<open>Constants, terms and atoms\<close>

definition unwrap_or :: "'a option \<Rightarrow> 'a \<Rightarrow> 'a" where
  "unwrap_or x d = (case x of None \<Rightarrow> d | Some y \<Rightarrow> y)"

fun lower_const :: "arena \<Rightarrow> ast_const \<Rightarrow> inst_id low" where
  "lower_const a (CsName n) =
     bindL (on_ir (intern_name (unwrap_or (lookup_name a n) ''unknown_name''))) (\<lambda>name. on_ir (add_inst (IName name)))"
| "lower_const a (CsBool b) = on_ir (add_inst (IBool b))"
| "lower_const a (CsNumber n) = on_ir (add_inst (INumber n))"
| "lower_const a (CsFloat f) = on_ir (add_inst (IFloat f))"
| "lower_const a (CsTime t) = on_ir (add_inst (ITime t))"
| "lower_const a (CsDuration d) = on_ir (add_inst (IDuration d))"
| "lower_const a (CsString s) = bindL (on_ir (intern_string s)) (\<lambda>i. on_ir (add_inst (IString i)))"
| "lower_const a (CsBytes b) = on_ir (add_inst (IBytes b))"
| "lower_const a (CsList l) = bindL (mapL (lower_const a) l) (\<lambda>args. on_ir (add_inst (IList args)))"
| "lower_const a (CsMap ks vs) =
     bindL (mapL (lower_const a) ks) (\<lambda>keys.
     bindL (mapL (lower_const a) vs) (\<lambda>values. on_ir (add_inst (IMap keys values))))"
| "lower_const a (CsStruct fs vs) =
     bindL (mapL (\<lambda>s. on_ir (intern_name s)) fs) (\<lambda>fields.
     bindL (mapL (lower_const a) vs) (\<lambda>values. on_ir (add_inst (IStruct fields values))))"

text \<open>The instruction of a variable: the one of its first occurrence, a new one for every wildcard.\<close>

definition lower_var :: "string \<Rightarrow> var_index \<Rightarrow> inst_id low" where
  "lower_var name_str v c =
     (case map_of (lc_vars c) v of
        Some i \<Rightarrow> Inr (i, c)
      | None \<Rightarrow>
          bindL (on_ir (intern_name name_str)) (\<lambda>name. bindL (on_ir (add_inst (IVar name))) (\<lambda>i c'.
            Inr (i, if v \<noteq> 0 then c'\<lparr>lc_vars := (v, i) # lc_vars c'\<rparr> else c'))) c)"

definition var_name :: "arena \<Rightarrow> var_index \<Rightarrow> string" where
  "var_name a v = (if v = 0 then ''_'' else unwrap_or (lookup_name a v) ''unknown_var'')"

fun lower_base_term :: "arena \<Rightarrow> base_term \<Rightarrow> inst_id low" where
  "lower_base_term a (BConst c) = lower_const a c"
| "lower_base_term a (BVar v) = lower_var (var_name a v) v"
| "lower_base_term a (BApp f args) =
     bindL (on_ir (intern_name (unwrap_or (function_name a f) ''unknown_fn''))) (\<lambda>function.
     bindL (mapL (lower_base_term a) args) (\<lambda>args'. on_ir (add_inst (IApplyFn function args'))))"

definition pred_name :: "arena \<Rightarrow> pred_index \<Rightarrow> string" where
  "pred_name a p = unwrap_or (predicate_name a p) ''unknown_pred''"

definition lower_atom :: "arena \<Rightarrow> atom \<Rightarrow> inst_id low" where
  "lower_atom a at =
     bindL (on_ir (intern_name (pred_name a (a_sym at)))) (\<lambda>predicate.
     bindL (mapL (lower_base_term a) (a_args at)) (\<lambda>args. on_ir (add_inst (IAtom predicate args))))"

fun lower_temporal_bound :: "arena \<Rightarrow> temporal_bound \<Rightarrow> inst_id low" where
  "lower_temporal_bound a (Timestamp nanos) = on_ir (add_inst (ITime nanos))"
| "lower_temporal_bound a (BoundVar v) = lower_var (unwrap_or (lookup_name a v) ''unknown_var'') v"
| "lower_temporal_bound a NegInf = on_ir (add_inst (ITime (push_bit 63 1)))"
| "lower_temporal_bound a PosInf = on_ir (add_inst (ITime (mask 63)))"

definition lower_temporal_atom :: "arena \<Rightarrow> atom \<Rightarrow> time_interval \<Rightarrow> inst_id low" where
  "lower_temporal_atom a at iv =
     bindL (on_ir (intern_name (pred_name a (a_sym at)))) (\<lambda>predicate.
     bindL (add_temporal predicate) (\<lambda>_.
     bindL (mapL (lower_base_term a) (a_args at)) (\<lambda>args.
     bindL (lower_temporal_bound a (ti_start iv)) (\<lambda>s.
     bindL (lower_temporal_bound a (ti_end iv)) (\<lambda>e. on_ir (add_inst (IAtom predicate (args @ [s, e]))))))))"

fun lower_term :: "arena \<Rightarrow> ast_term \<Rightarrow> inst_id low" where
  "lower_term a (TAtom at) = lower_atom a at"
| "lower_term a (TNegAtom at) = bindL (lower_atom a at) (\<lambda>i. on_ir (add_inst (INegAtom i)))"
| "lower_term a (TEq l r) =
     bindL (lower_base_term a l) (\<lambda>left. bindL (lower_base_term a r) (\<lambda>right. on_ir (add_inst (IEq left right))))"
| "lower_term a (TIneq l r) =
     bindL (lower_base_term a l) (\<lambda>left. bindL (lower_base_term a r) (\<lambda>right. on_ir (add_inst (IIneq left right))))"
| "lower_term a (TTemporalAtom at iv) = lower_temporal_atom a at iv"

definition optL :: "('a \<Rightarrow> 'b low) \<Rightarrow> 'a option \<Rightarrow> 'b option low" where
  "optL f x = (case x of None \<Rightarrow> retL None | Some y \<Rightarrow> bindL (f y) (\<lambda>z. retL (Some z)))"

definition lower_transform :: "arena \<Rightarrow> transform_stmt \<Rightarrow> inst_id low" where
  "lower_transform a t =
     bindL (optL (\<lambda>s. on_ir (intern_name s)) (ts_var t)) (\<lambda>var.
     bindL (lower_base_term a (ts_app t)) (\<lambda>app. on_ir (add_inst (ITransform var app))))"

subsection \<open>Clauses, declarations and units\<close>

definition lower_head :: "arena \<Rightarrow> clause \<Rightarrow> inst_id low" where
  "lower_head a cl =
     (case cl_head_time cl of Some iv \<Rightarrow> lower_temporal_atom a (cl_head cl) iv | None \<Rightarrow> lower_atom a (cl_head cl))"

definition lower_clause :: "arena \<Rightarrow> clause \<Rightarrow> inst_id low" where
  "lower_clause a cl =
     bindL clear_vars (\<lambda>_.
     bindL (lower_head a cl) (\<lambda>head.
     bindL (mapL (lower_term a) (cl_premises cl)) (\<lambda>premises.
     bindL (mapL (lower_transform a) (cl_transform cl)) (\<lambda>transform.
       on_ir (add_inst (IRule head premises transform))))))"

definition lower_bound_decl :: "arena \<Rightarrow> bound_decl \<Rightarrow> inst_id low" where
  "lower_bound_decl a b = bindL (mapL (lower_base_term a) (bd_base_terms b)) (\<lambda>ts. on_ir (add_inst (IBoundDecl ts)))"

definition lower_constraints :: "arena \<Rightarrow> constraints \<Rightarrow> inst_id low" where
  "lower_constraints a c =
     bindL (mapL (lower_atom a) (co_consequences c)) (\<lambda>consequences.
     bindL (mapL (mapL (lower_atom a)) (co_alternatives c)) (\<lambda>alternatives.
       on_ir (add_inst (IConstraints consequences alternatives))))"

definition note_temporal :: "arena \<Rightarrow> decl \<Rightarrow> unit low" where
  "note_temporal a d =
     (if de_is_temporal d then bindL (on_ir (intern_name (pred_name a (a_sym (de_atom d))))) add_temporal else retL ())"

definition lower_decl :: "arena \<Rightarrow> decl \<Rightarrow> inst_id low" where
  "lower_decl a d =
     bindL clear_vars (\<lambda>_.
     bindL (note_temporal a d) (\<lambda>_.
     bindL (lower_atom a (de_atom d)) (\<lambda>atom.
     bindL (mapL (lower_atom a) (de_descr d)) (\<lambda>descr.
     bindL (case de_bounds d of Some bs \<Rightarrow> mapL (lower_bound_decl a) bs | None \<Rightarrow> retL []) (\<lambda>bounds.
     bindL (optL (lower_constraints a) (de_constraints d)) (\<lambda>constraints.
       on_ir (add_inst (IDecl atom descr bounds constraints))))))))"

definition lower_unit :: "arena \<Rightarrow> ast_unit \<Rightarrow> ir result" where
  "lower_unit a u =
     bindR (bindL (mapL (lower_decl a) (un_decls u)) (\<lambda>_. mapL (lower_clause a) (un_clauses u))
        \<lparr>lc_ir = ir_new, lc_vars = []\<rparr>) (\<lambda>(_, c). Inr (lc_ir c))"

end
