(* ===== verification/Rename.thy ===== *)
theory Rename
  imports Lowering
begin

text \<open>
  \<open>mangle-analysis/src/rename.rs\<close>: a unit with a \<open>Package\<close> declaration has the package name put before
  every predicate it defines.  The renamer carries the arena, into which it interns new names, and a cache;
  a method that meets an unknown symbol gives \<open>None\<close>, and the clause or declaration is left out.
\<close>

definition find_name_desc :: "arena \<Rightarrow> atom list \<Rightarrow> string option" where
  "find_name_desc a descr =
     (case List.map_filter (\<lambda>at.
        if unwrap_or (predicate_name a (a_sym at)) [] = ''name''
        then (case a_args at of BConst (CsString s) # _ \<Rightarrow> Some s | _ \<Rightarrow> None) else None) descr of
        [] \<Rightarrow> None | s # _ \<Rightarrow> Some s)"

fun find_package_info :: "arena \<Rightarrow> decl list \<Rightarrow> string \<times> string set \<Rightarrow> string \<times> string set" where
  "find_package_info a [] (pkg_name, used_pkgs) = (pkg_name, used_pkgs)"
| "find_package_info a (d # ds) (pkg_name, used_pkgs) =
     (let pred_name = unwrap_or (predicate_name a (a_sym (de_atom d))) [] in
      find_package_info a ds
        (if pred_name = ''Package''
         then (case find_name_desc a (de_descr d) of Some desc \<Rightarrow> (desc, used_pkgs) | None \<Rightarrow> (pkg_name, used_pkgs))
         else if pred_name = ''Use''
         then (case find_name_desc a (de_descr d) of Some desc \<Rightarrow> (pkg_name, insert desc used_pkgs) | None \<Rightarrow> (pkg_name, used_pkgs))
         else (pkg_name, used_pkgs)))"

definition find_defined_preds :: "ast_unit \<Rightarrow> pred_index set" where
  "find_defined_preds u = set (map (\<lambda>d. a_sym (de_atom d)) (un_decls u)) \<union> set (map (\<lambda>cl. a_sym (cl_head cl)) (un_clauses u))"

record renamer =
  rn_arena :: arena
  rn_pkg_name :: string
  rn_used_pkgs :: "string set"
  rn_defined_preds :: "pred_index set"
  rn_cache :: "(pred_index \<times> pred_index) list"

type_synonym 'a rn = "renamer \<Rightarrow> 'a option \<times> renamer"

definition bindN :: "'a rn \<Rightarrow> ('a \<Rightarrow> 'b rn) \<Rightarrow> 'b rn" where
  "bindN f g s = (case f s of (None, s') \<Rightarrow> (None, s') | (Some x, s') \<Rightarrow> g x s')"

definition retN :: "'a \<Rightarrow> 'a rn" where
  "retN x s = (Some x, s)"

definition cached :: "pred_index \<Rightarrow> pred_index \<Rightarrow> renamer \<Rightarrow> pred_index option \<times> renamer" where
  "cached symb new_symb s = (Some new_symb, s\<lparr>rn_cache := (symb, new_symb) # rn_cache s\<rparr>)"

text \<open>\<open>name.rfind('.')\<close> and the text before it.\<close>

definition before_last_dot :: "string \<Rightarrow> string option" where
  "before_last_dot s = (if CHR ''.'' \<in> set s then Some (rev (tl (dropWhile (\<lambda>c. c \<noteq> CHR ''.'') (rev s)))) else None)"

definition rename_pred :: "pred_index \<Rightarrow> pred_index rn" where
  "rename_pred symb s =
     (case map_of (rn_cache s) symb of
        Some new_symb \<Rightarrow> (Some new_symb, s)
      | None \<Rightarrow>
          (case predicate_name (rn_arena s) symb of
             None \<Rightarrow> (None, s)
           | Some nm \<Rightarrow>
               if nm = ''Package'' \<or> nm = ''Use'' then cached symb symb s
               else if symb \<in> rn_defined_preds s
               then (let (new_symb, a) = predicate_sym (rn_pkg_name s @ ''.'' @ nm) (predicate_arity (rn_arena s) symb) (rn_arena s)
                     in cached symb new_symb (s\<lparr>rn_arena := a\<rparr>))
               else if (case before_last_dot nm of Some prefix \<Rightarrow> prefix \<in> rn_used_pkgs s | None \<Rightarrow> False)
               then cached symb symb s
               else cached symb symb s))"

definition rewrite_atom :: "atom \<Rightarrow> atom rn" where
  "rewrite_atom at = bindN (rename_pred (a_sym at)) (\<lambda>new_symb. retN (at\<lparr>a_sym := new_symb\<rparr>))"

definition rewrite_bound_term :: "base_term \<Rightarrow> renamer \<Rightarrow> base_term \<times> renamer" where
  "rewrite_bound_term t s =
     (case t of
        BConst (CsName name_idx) \<Rightarrow>
          (case lookup_predicate_sym (rn_arena s) name_idx of
             Some pred_idx \<Rightarrow>
               if pred_idx \<in> rn_defined_preds s
               then (let nm = unwrap_or (lookup_name (rn_arena s) name_idx) [];
                         (i, a) = arena_intern (rn_pkg_name s @ ''.'' @ nm) (rn_arena s)
                     in (BConst (CsName i), s\<lparr>rn_arena := a\<rparr>))
               else (t, s)
           | None \<Rightarrow> (t, s))
      | _ \<Rightarrow> (t, s))"

fun map_state :: "('a \<Rightarrow> 's \<Rightarrow> 'b \<times> 's) \<Rightarrow> 'a list \<Rightarrow> 's \<Rightarrow> 'b list \<times> 's" where
  "map_state f [] s = ([], s)"
| "map_state f (x # xs) s = (let (y, s1) = f x s; (ys, s2) = map_state f xs s1 in (y # ys, s2))"

definition rewrite_bound :: "bound_decl \<Rightarrow> renamer \<Rightarrow> bound_decl \<times> renamer" where
  "rewrite_bound b s = (let (ts, s') = map_state rewrite_bound_term (bd_base_terms b) s in (\<lparr>bd_base_terms = ts\<rparr>, s'))"

definition rewrite_bounds :: "bound_decl list option \<Rightarrow> bound_decl list option rn" where
  "rewrite_bounds bs s =
     (case bs of None \<Rightarrow> (Some None, s) | Some l \<Rightarrow> (let (l', s') = map_state rewrite_bound l s in (Some (Some l'), s')))"

definition rewrite_decl :: "decl \<Rightarrow> decl rn" where
  "rewrite_decl d s =
     (let pred_name = unwrap_or (predicate_name (rn_arena s) (a_sym (de_atom d))) [] in
      if pred_name = ''Package'' \<or> pred_name = ''Use'' then (None, s)
      else bindN (rewrite_atom (de_atom d)) (\<lambda>new_atom. bindN (rewrite_bounds (de_bounds d)) (\<lambda>bounds.
             retN (d\<lparr>de_atom := new_atom, de_bounds := bounds\<rparr>))) s)"

fun rewrite_premise :: "ast_term \<Rightarrow> ast_term rn" where
  "rewrite_premise (TAtom at) = bindN (rewrite_atom at) (\<lambda>at'. retN (TAtom at'))"
| "rewrite_premise (TNegAtom at) = bindN (rewrite_atom at) (\<lambda>at'. retN (TNegAtom at'))"
| "rewrite_premise (TTemporalAtom at iv) = bindN (rewrite_atom at) (\<lambda>at'. retN (TTemporalAtom at' iv))"
| "rewrite_premise t = retN t"

fun mapN :: "('a \<Rightarrow> 'b rn) \<Rightarrow> 'a list \<Rightarrow> 'b list rn" where
  "mapN f [] = retN []"
| "mapN f (x # xs) = bindN (f x) (\<lambda>y. bindN (mapN f xs) (\<lambda>ys. retN (y # ys)))"

definition rewrite_clause :: "clause \<Rightarrow> clause rn" where
  "rewrite_clause cl =
     bindN (rewrite_atom (cl_head cl)) (\<lambda>head. bindN (mapN rewrite_premise (cl_premises cl)) (\<lambda>ps.
       retN (cl\<lparr>cl_head := head, cl_premises := ps\<rparr>)))"

text \<open>\<open>for x in xs { if let Some(y) = f(x) { out.push(y) } }\<close>\<close>

fun filter_map_state :: "('a \<Rightarrow> 'b rn) \<Rightarrow> 'a list \<Rightarrow> renamer \<Rightarrow> 'b list \<times> renamer" where
  "filter_map_state f [] s = ([], s)"
| "filter_map_state f (x # xs) s =
     (let (o1, s1) = f x s; (ys, s2) = filter_map_state f xs s1 in (case o1 of None \<Rightarrow> ys | Some y \<Rightarrow> y # ys, s2))"

definition rewrite_unit :: "ast_unit \<Rightarrow> arena \<Rightarrow> ast_unit \<times> arena" where
  "rewrite_unit u a =
     (let (pkg_name, used_pkgs) = find_package_info a (un_decls u) ([], {}) in
      if pkg_name = [] then (u, a)
      else
        let s = \<lparr>rn_arena = a, rn_pkg_name = pkg_name, rn_used_pkgs = used_pkgs,
                  rn_defined_preds = find_defined_preds u, rn_cache = []\<rparr>;
            (decls, s1) = filter_map_state rewrite_decl (un_decls u) s;
            (clauses, s2) = filter_map_state rewrite_clause (un_clauses u) s1
        in (\<lparr>un_decls = decls, un_clauses = clauses\<rparr>, rn_arena s2))"

subsection \<open>Symbols are kept\<close>

definition arena_ok :: "arena \<Rightarrow> bool" where
  "arena_ok a \<longleftrightarrow> length (ai_map (ar_interner a)) = length (ai_vec (ar_interner a)) \<and>
     (\<forall>nm i. map_of (ai_map (ar_interner a)) nm = Some i \<longrightarrow> lookup_name a i = Some nm)"

definition arena_grows :: "arena \<Rightarrow> arena \<Rightarrow> bool" where
  "arena_grows a a' \<longleftrightarrow> (\<exists>ns. ai_vec (ar_interner a') = ai_vec (ar_interner a) @ ns) \<and>
     (\<exists>ps. ar_predicates a' = ar_predicates a @ ps) \<and> ar_functions a' = ar_functions a"

abbreviation arena_room :: "arena \<Rightarrow> bool" where
  "arena_room a \<equiv> length (ai_vec (ar_interner a)) \<le> 2 ^ 32"

lemma arena_grows_refl [simp]: "arena_grows a a"
  by (simp add: arena_grows_def)

lemma arena_grows_trans [trans]: "arena_grows a b \<Longrightarrow> arena_grows b c \<Longrightarrow> arena_grows a c"
  by (auto simp: arena_grows_def)

lemma arena_grows_room: "arena_grows a b \<Longrightarrow> arena_room b \<Longrightarrow> arena_room a"
  by (auto simp: arena_grows_def)

lemma grows_lookup: "arena_grows a b \<Longrightarrow> lookup_name a i = Some nm \<Longrightarrow> lookup_name b i = Some nm"
  by (auto simp: arena_grows_def lookup_name_def ast_lookup_def nth_append split: if_splits)

lemma grows_predicate: "arena_grows a b \<Longrightarrow> predicate_name a p = Some nm \<Longrightarrow> predicate_name b p = Some nm"
  using grows_lookup [of a b] by (auto simp: arena_grows_def predicate_name_def nth_append split: if_splits)

lemma arena_intern_grows:
  "arena_intern nm a = (i, a') \<Longrightarrow> arena_grows a a' \<and> ar_predicates a' = ar_predicates a"
  by (auto simp: arena_intern_def ast_intern_def arena_grows_def Let_def split: option.splits)

lemma arena_intern_spec:
  assumes "arena_ok a" "arena_intern nm a = (i, a')" "arena_room a'"
  shows "arena_ok a'" "lookup_name a' i = Some nm"
proof -
  have "arena_ok a' \<and> lookup_name a' i = Some nm"
  proof (cases "map_of (ai_map (ar_interner a)) nm")
    case (Some j)
    then show ?thesis
      using assms by (auto simp: arena_intern_def ast_intern_def arena_ok_def lookup_name_def)
  next
    case None
    let ?n = "length (ai_vec (ar_interner a))"
    have a': "ai_vec (ar_interner a') = ai_vec (ar_interner a) @ [nm]" "i = of_nat ?n"
      "ai_map (ar_interner a') = (nm, i) # ai_map (ar_interner a)" "length (ai_map (ar_interner a)) = ?n"
      using assms None by (auto simp: arena_intern_def ast_intern_def Let_def arena_ok_def)
    have "?n < 2 ^ 32"
      using assms(3) a'(1) by simp
    then have "unat i = ?n"
      unfolding a'(2) by (simp add: unat_of_nat)
    then have new: "lookup_name a' i = Some nm"
      by (simp add: lookup_name_def ast_lookup_def a'(1))
    moreover have "lookup_name a' j = Some x" if "map_of (ai_map (ar_interner a)) x = Some j" for x j
      using assms(1) that a'(1) by (fastforce simp: arena_ok_def lookup_name_def ast_lookup_def nth_append split: if_splits)
    ultimately show ?thesis
      using a'(1,3,4) by (auto simp: arena_ok_def)
  qed
  then show "arena_ok a'" "lookup_name a' i = Some nm"
    by simp_all
qed

lemma find_symbol_Some: "find_symbol n ss = Some i \<Longrightarrow> i < length ss \<and> sy_name (ss ! i) = n"
  by (induction ss arbitrary: i) (auto split: if_splits)

lemma predicate_sym_grows:
  assumes "predicate_sym nm ar a = (p, a')"
  shows "arena_grows a a'"
proof -
  obtain n a1 where n: "arena_intern nm a = (n, a1)"
    by (cases "arena_intern nm a")
  have "arena_grows a1 a'"
    using assms n by (auto simp: predicate_sym_def arena_grows_def split: option.splits)
  then show ?thesis
    using arena_intern_grows [OF n] arena_grows_trans by blast
qed

lemma predicate_sym_spec:
  assumes "arena_ok a" "predicate_sym nm ar a = (p, a')" "arena_room a'"
  shows "arena_ok a'" "predicate_name a' p = Some nm"
proof -
  obtain n a1 where n: "arena_intern nm a = (n, a1)"
    by (cases "arena_intern nm a")
  have a': "ar_interner a' = ar_interner a1"
    using assms(2) n by (auto simp: predicate_sym_def split: option.splits)
  then have ok: "arena_ok a1" "lookup_name a1 n = Some nm"
    using arena_intern_spec [OF assms(1) n] assms(3) by simp_all
  have "p < length (ar_predicates a') \<and> sy_name (ar_predicates a' ! p) = n"
    using assms(2) n by (auto simp: predicate_sym_def dest: find_symbol_Some split: option.splits)
  then show "arena_ok a'" "predicate_name a' p = Some nm"
    using ok a' by (simp_all add: predicate_name_def arena_ok_def lookup_name_def)
qed

subsection \<open>What is renamed\<close>

text \<open>The name a predicate of the unit has afterwards.\<close>

definition qual_name :: "arena \<Rightarrow> string \<Rightarrow> pred_index set \<Rightarrow> pred_index \<Rightarrow> string" where
  "qual_name a pkg D p =
     (let nm = the (predicate_name a p) in
      if nm = ''Package'' \<or> nm = ''Use'' then nm else if p \<in> D then pkg @ ''.'' @ nm else nm)"

definition renamed_atom :: "arena \<Rightarrow> string \<Rightarrow> pred_index set \<Rightarrow> arena \<Rightarrow> atom \<Rightarrow> atom \<Rightarrow> bool" where
  "renamed_atom a pkg D a' at at' \<longleftrightarrow>
     predicate_name a' (a_sym at') = Some (qual_name a pkg D (a_sym at)) \<and> a_args at' = a_args at"

fun renamed_premise :: "arena \<Rightarrow> string \<Rightarrow> pred_index set \<Rightarrow> arena \<Rightarrow> ast_term \<Rightarrow> ast_term \<Rightarrow> bool" where
  "renamed_premise a pkg D a' (TAtom at) t' = (\<exists>at'. t' = TAtom at' \<and> renamed_atom a pkg D a' at at')"
| "renamed_premise a pkg D a' (TNegAtom at) t' = (\<exists>at'. t' = TNegAtom at' \<and> renamed_atom a pkg D a' at at')"
| "renamed_premise a pkg D a' (TTemporalAtom at iv) t' = (\<exists>at'. t' = TTemporalAtom at' iv \<and> renamed_atom a pkg D a' at at')"
| "renamed_premise a pkg D a' t t' = (t' = t)"

definition renamed_clause :: "arena \<Rightarrow> string \<Rightarrow> pred_index set \<Rightarrow> arena \<Rightarrow> clause \<Rightarrow> clause \<Rightarrow> bool" where
  "renamed_clause a pkg D a' cl cl' \<longleftrightarrow>
     renamed_atom a pkg D a' (cl_head cl) (cl_head cl') \<and> cl_head_time cl' = cl_head_time cl \<and>
     list_all2 (renamed_premise a pkg D a') (cl_premises cl) (cl_premises cl') \<and> cl_transform cl' = cl_transform cl"

text \<open>In the bounds of a declaration a name constant that is the name of a predicate of the unit has the
  package name put before it; every other term stays.\<close>

definition renamed_bound_term :: "arena \<Rightarrow> string \<Rightarrow> pred_index set \<Rightarrow> arena \<Rightarrow> base_term \<Rightarrow> base_term \<Rightarrow> bool" where
  "renamed_bound_term a pkg D a' t t' \<longleftrightarrow>
     (case t of
        BConst (CsName n) \<Rightarrow>
          (case lookup_predicate_sym a n of
             Some p \<Rightarrow>
               if p \<in> D
               then (\<exists>i. t' = BConst (CsName i) \<and> lookup_name a' i = Some (pkg @ ''.'' @ the (lookup_name a n)))
               else t' = t
           | None \<Rightarrow> t' = t)
      | _ \<Rightarrow> t' = t)"

definition renamed_bound :: "arena \<Rightarrow> string \<Rightarrow> pred_index set \<Rightarrow> arena \<Rightarrow> bound_decl \<Rightarrow> bound_decl \<Rightarrow> bool" where
  "renamed_bound a pkg D a' b b' \<longleftrightarrow>
     list_all2 (renamed_bound_term a pkg D a') (bd_base_terms b) (bd_base_terms b')"

definition renamed_decl :: "arena \<Rightarrow> string \<Rightarrow> pred_index set \<Rightarrow> arena \<Rightarrow> decl \<Rightarrow> decl \<Rightarrow> bool" where
  "renamed_decl a pkg D a' d d' \<longleftrightarrow>
     renamed_atom a pkg D a' (de_atom d) (de_atom d') \<and> de_descr d' = de_descr d \<and>
     rel_option (list_all2 (renamed_bound a pkg D a')) (de_bounds d) (de_bounds d') \<and>
     de_constraints d' = de_constraints d \<and> de_is_temporal d' = de_is_temporal d"

definition rn_inv :: "arena \<Rightarrow> string \<Rightarrow> pred_index set \<Rightarrow> renamer \<Rightarrow> bool" where
  "rn_inv a pkg D s \<longleftrightarrow> arena_ok (rn_arena s) \<and> arena_grows a (rn_arena s) \<and> rn_pkg_name s = pkg \<and> rn_defined_preds s = D \<and>
     (\<forall>p q. map_of (rn_cache s) p = Some q \<longrightarrow> predicate_name (rn_arena s) q = Some (qual_name a pkg D p))"

definition grows_rn :: "(renamer \<Rightarrow> 'a \<times> renamer) \<Rightarrow> bool" where
  "grows_rn f \<longleftrightarrow> (\<forall>s. arena_grows (rn_arena s) (rn_arena (snd (f s))))"

text \<open>A method that returns a renamed piece of syntax, where the arena has room for the new names.\<close>

definition renames :: "arena \<Rightarrow> string \<Rightarrow> pred_index set \<Rightarrow> 'a rn \<Rightarrow> (arena \<Rightarrow> 'a \<Rightarrow> bool) \<Rightarrow> bool" where
  "renames a pkg D f R \<longleftrightarrow> grows_rn f \<and>
     (\<forall>s. rn_inv a pkg D s \<and> arena_room (rn_arena (snd (f s))) \<longrightarrow>
        rn_inv a pkg D (snd (f s)) \<and> (\<exists>y. fst (f s) = Some y \<and> R (rn_arena (snd (f s))) y))"

lemma renamesI:
  assumes "grows_rn f"
    and "\<And>s. rn_inv a pkg D s \<Longrightarrow> arena_room (rn_arena (snd (f s))) \<Longrightarrow>
      rn_inv a pkg D (snd (f s)) \<and> (\<exists>y. fst (f s) = Some y \<and> R (rn_arena (snd (f s))) y)"
  shows "renames a pkg D f R"
  using assms unfolding renames_def by blast

lemma grows_bind:
  assumes "grows_rn f" "\<And>x. grows_rn (g x)"
  shows "grows_rn (bindN f g)"
  unfolding grows_rn_def
proof
  fix s
  show "arena_grows (rn_arena s) (rn_arena (snd (bindN f g s)))"
    using assms(1) [unfolded grows_rn_def, rule_format, of s] assms(2) [unfolded grows_rn_def, rule_format]
    by (auto simp: bindN_def split: prod.splits option.splits intro: arena_grows_trans)
qed

lemma renames_bind:
  assumes f: "renames a pkg D f Q" and g: "\<And>x. renames a pkg D (g x) (R x)"
    and keep: "\<And>b b' x y. arena_grows b b' \<Longrightarrow> Q b x \<Longrightarrow> R x b' y \<Longrightarrow> T b' y"
  shows "renames a pkg D (bindN f g) T"
proof (rule renamesI, goal_cases)
  case 1
  show ?case
    using f g by (intro grows_bind) (simp_all add: renames_def)
next
  case (2 s)
  obtain x s1 where x: "f s = (x, s1)"
    by (cases "f s")
  have s1: "rn_inv a pkg D s1 \<and> (\<exists>y. x = Some y \<and> Q (rn_arena s1) y)" if "arena_room (rn_arena s1)"
    using f 2 that x unfolding renames_def by force
  have gr: "arena_grows (rn_arena s1) (rn_arena (snd (g y s1)))" for y
    using g [of y] by (simp add: renames_def grows_rn_def)
  show ?case
  proof (cases x)
    case None
    then show ?thesis
      using 2 s1 x by (simp add: bindN_def)
  next
    case (Some y)
    then have eq: "bindN f g s = g y s1"
      using x by (simp add: bindN_def)
    then have "arena_room (rn_arena s1)"
      using 2 gr [of y] arena_grows_room by metis
    then have "rn_inv a pkg D s1" "Q (rn_arena s1) y"
      using s1 Some by auto
    then show ?thesis
      using g [of y, unfolded renames_def] 2 keep [OF gr [of y]] unfolding eq by blast
  qed
qed

lemma renames_ret: "(\<And>b. R b x) \<Longrightarrow> renames a pkg D (retN x) R"
  by (simp add: renames_def grows_rn_def retN_def)

lemma renamed_keeps:
  "arena_grows b b' \<Longrightarrow> renamed_atom a pkg D b at at' \<Longrightarrow> renamed_atom a pkg D b' at at'"
  "arena_grows b b' \<Longrightarrow> renamed_premise a pkg D b t t' \<Longrightarrow> renamed_premise a pkg D b' t t'"
proof -
  show at: "arena_grows b b' \<Longrightarrow> renamed_atom a pkg D b at at' \<Longrightarrow> renamed_atom a pkg D b' at at'" for at at'
    by (auto simp: renamed_atom_def dest: grows_predicate)
  then show "arena_grows b b' \<Longrightarrow> renamed_premise a pkg D b t t' \<Longrightarrow> renamed_premise a pkg D b' t t'"
    by (cases t) auto
qed

lemma rename_pred_grows: "grows_rn (rename_pred p)"
  by (auto simp: grows_rn_def rename_pred_def cached_def dest: predicate_sym_grows split: option.splits prod.splits)

lemma rename_pred_renames:
  assumes "predicate_name a p \<noteq> None"
  shows "renames a pkg D (rename_pred p) (\<lambda>b q. predicate_name b q = Some (qual_name a pkg D p))"
proof (rule renamesI, goal_cases)
  case 1
  show ?case
    by (rule rename_pred_grows)
next
  case (2 s)
  then have inv: "arena_ok (rn_arena s)" "arena_grows a (rn_arena s)" "rn_pkg_name s = pkg" "rn_defined_preds s = D"
    "\<And>p q. map_of (rn_cache s) p = Some q \<Longrightarrow> predicate_name (rn_arena s) q = Some (qual_name a pkg D p)"
    by (simp_all add: rn_inv_def)
  show ?case
  proof (cases "map_of (rn_cache s) p")
    case (Some q)
    then show ?thesis
      using 2 inv(5) by (simp add: rename_pred_def)
  next
    case None
    obtain nm where nm: "predicate_name a p = Some nm" "predicate_name (rn_arena s) p = Some nm"
      using assms grows_predicate [OF inv(2)] by blast
    have keep: "rename_pred p s = cached p p s" "qual_name a pkg D p = nm" if "nm = ''Package'' \<or> nm = ''Use'' \<or> p \<notin> D"
      using that nm None inv(4) by (auto simp: rename_pred_def qual_name_def)
    show ?thesis
    proof (cases "nm = ''Package'' \<or> nm = ''Use'' \<or> p \<notin> D")
      case True
      then show ?thesis
        using 2 keep nm(2) by (simp add: cached_def rn_inv_def)
    next
      case False
      obtain q b where q: "predicate_sym (pkg @ ''.'' @ nm) (predicate_arity (rn_arena s) p) (rn_arena s) = (q, b)"
        by (cases "predicate_sym (pkg @ ''.'' @ nm) (predicate_arity (rn_arena s) p) (rn_arena s)")
      have eq: "rename_pred p s = cached p q (s\<lparr>rn_arena := b\<rparr>)" "qual_name a pkg D p = pkg @ ''.'' @ nm"
        using False nm None inv(3,4) q by (auto simp: rename_pred_def qual_name_def)
      have "arena_room b"
        using 2 eq(1) by (simp add: cached_def)
      then have "arena_ok b" "predicate_name b q = Some (pkg @ ''.'' @ nm)"
        using predicate_sym_spec [OF inv(1) q] by simp_all
      moreover have gr: "arena_grows (rn_arena s) b"
        by (rule predicate_sym_grows [OF q])
      moreover have "arena_grows a b"
        using inv(2) gr by (rule arena_grows_trans)
      ultimately show ?thesis
        using inv(3-5) grows_predicate [OF gr] unfolding eq cached_def rn_inv_def by (simp add: eq(2))
    qed
  qed
qed

text \<open>The predicates of a premise and of a clause.\<close>

fun premise_preds :: "ast_term \<Rightarrow> pred_index list" where
  "premise_preds (TAtom at) = [a_sym at]"
| "premise_preds (TNegAtom at) = [a_sym at]"
| "premise_preds (TTemporalAtom at iv) = [a_sym at]"
| "premise_preds _ = []"

definition clause_preds :: "clause \<Rightarrow> pred_index list" where
  "clause_preds cl = a_sym (cl_head cl) # concat (map premise_preds (cl_premises cl))"

abbreviation known :: "arena \<Rightarrow> pred_index list \<Rightarrow> bool" where
  "known a ps \<equiv> list_all (\<lambda>p. predicate_name a p \<noteq> None) ps"

lemma rewrite_atom_renames:
  assumes "known a [a_sym at]"
  shows "renames a pkg D (rewrite_atom at) (\<lambda>b at'. renamed_atom a pkg D b at at')"
  unfolding rewrite_atom_def
proof (rule renames_bind)
  show "renames a pkg D (rename_pred (a_sym at)) (\<lambda>b q. predicate_name b q = Some (qual_name a pkg D (a_sym at)))"
    using assms by (intro rename_pred_renames) simp
  show "renames a pkg D (retN (at\<lparr>a_sym := x\<rparr>)) (\<lambda>b y. y = at\<lparr>a_sym := x\<rparr>)" for x
    by (rule renames_ret) simp
qed (auto simp: renamed_atom_def dest: grows_predicate)

lemma renames_atom_then:
  assumes "known a [a_sym at]" "\<And>b at'. renamed_atom a pkg D b at at' \<Longrightarrow> R b (h at')"
  shows "renames a pkg D (bindN (rewrite_atom at) (\<lambda>at'. retN (h at'))) R"
proof (rule renames_bind [OF rewrite_atom_renames [OF assms(1)]])
  show "renames a pkg D (retN (h x)) (\<lambda>b y. y = h x)" for x
    by (rule renames_ret) simp
qed (simp add: assms(2) renamed_keeps(1))

lemma rewrite_premise_renames:
  "known a (premise_preds t) \<Longrightarrow> renames a pkg D (rewrite_premise t) (\<lambda>b t'. renamed_premise a pkg D b t t')"
  by (cases t) (auto intro!: renames_atom_then renames_ret)

lemma rewrite_premises_renames:
  "list_all (\<lambda>t. known a (premise_preds t)) ts \<Longrightarrow>
   renames a pkg D (mapN rewrite_premise ts) (\<lambda>b ts'. list_all2 (renamed_premise a pkg D b) ts ts')"
proof (induction ts)
  case Nil
  show ?case by (simp add: renames_ret)
next
  case (Cons t ts)
  show ?case
    unfolding mapN.simps
  proof (rule renames_bind [OF rewrite_premise_renames])
    show "known a (premise_preds t)"
      using Cons.prems by simp
    show "renames a pkg D (bindN (mapN rewrite_premise ts) (\<lambda>ys. retN (x # ys)))
        (\<lambda>b ys. \<exists>ts'. ys = x # ts' \<and> list_all2 (renamed_premise a pkg D b) ts ts')" for x
    proof (rule renames_bind [OF Cons.IH])
      show "renames a pkg D (retN (x # ys)) (\<lambda>b zs. zs = x # ys)" for ys
        by (rule renames_ret) simp
    qed (use Cons.prems in \<open>auto elim!: list.rel_mono_strong intro: renamed_keeps(2)\<close>)
  qed (auto intro: renamed_keeps(2))
qed

lemma rewrite_clause_renames:
  assumes "known a (clause_preds cl)"
  shows "renames a pkg D (rewrite_clause cl) (\<lambda>b cl'. renamed_clause a pkg D b cl cl')"
  unfolding rewrite_clause_def
proof (rule renames_bind [OF rewrite_atom_renames])
  show "known a [a_sym (cl_head cl)]"
    using assms by (simp add: clause_preds_def)
  have ps: "list_all (\<lambda>t. known a (premise_preds t)) (cl_premises cl)"
    using assms by (auto simp: clause_preds_def list_all_iff)
  show "renames a pkg D (bindN (mapN rewrite_premise (cl_premises cl)) (\<lambda>ps. retN (cl\<lparr>cl_head := h, cl_premises := ps\<rparr>)))
      (\<lambda>b cl'. \<exists>ps. cl' = cl\<lparr>cl_head := h, cl_premises := ps\<rparr> \<and> list_all2 (renamed_premise a pkg D b) (cl_premises cl) ps)" for h
  proof (rule renames_bind [OF rewrite_premises_renames [OF ps]])
    show "renames a pkg D (retN (cl\<lparr>cl_head := h, cl_premises := ps\<rparr>)) (\<lambda>b cl'. cl' = cl\<lparr>cl_head := h, cl_premises := ps\<rparr>)" for ps
      by (rule renames_ret) simp
  qed (auto elim!: list.rel_mono_strong intro: renamed_keeps(2))
qed (auto simp: renamed_clause_def intro: renamed_keeps(1))

subsection \<open>Declarations\<close>

lemma map_state_inv:
  assumes "\<And>x s. arena_grows (rn_arena s) (rn_arena (snd (f x s)))"
    and "\<And>x s. rn_inv a pkg D s \<Longrightarrow> arena_room (rn_arena (snd (f x s))) \<Longrightarrow> rn_inv a pkg D (snd (f x s))"
  shows "arena_grows (rn_arena s) (rn_arena (snd (map_state f xs s)))"
    "rn_inv a pkg D s \<Longrightarrow> arena_room (rn_arena (snd (map_state f xs s))) \<Longrightarrow> rn_inv a pkg D (snd (map_state f xs s))"
proof (induction xs arbitrary: s)
  case (Cons x xs)
  {
    case 1
    show ?case
      using Cons.IH(1) [of "snd (f x s)"] assms(1) [of s x] by (auto simp: case_prod_beta intro: arena_grows_trans)
  next
    case 2
    have "arena_room (rn_arena (snd (f x s)))"
      using arena_grows_room [OF Cons.IH(1) [of "snd (f x s)"]] 2(2) by (simp add: case_prod_beta)
    then show ?case
      using Cons.IH(2) [of "snd (f x s)"] assms(2) [OF 2(1)] 2(2) by (simp add: case_prod_beta)
  }
qed simp_all

lemma arena_grows_inv: "rn_inv a pkg D s \<Longrightarrow> arena_grows (rn_arena s) b \<Longrightarrow> arena_ok b \<Longrightarrow> rn_inv a pkg D (s\<lparr>rn_arena := b\<rparr>)"
  using grows_predicate [of "rn_arena s" b] arena_grows_trans [of a "rn_arena s" b] by (auto simp: rn_inv_def)

lemma rewrite_bound_term_inv:
  "arena_grows (rn_arena s) (rn_arena (snd (rewrite_bound_term t s)))"
  "rn_inv a pkg D s \<Longrightarrow> arena_room (rn_arena (snd (rewrite_bound_term t s))) \<Longrightarrow> rn_inv a pkg D (snd (rewrite_bound_term t s))"
proof -
  let ?w = "\<lambda>n. arena_intern (rn_pkg_name s @ ''.'' @ unwrap_or (lookup_name (rn_arena s) n) []) (rn_arena s)"
  have cases: "snd (rewrite_bound_term t s) = s \<or> (\<exists>n. snd (rewrite_bound_term t s) = s\<lparr>rn_arena := snd (?w n)\<rparr>)"
    by (fastforce simp: rewrite_bound_term_def Let_def case_prod_beta split: base_term.splits ast_const.splits option.splits)
  have gr: "arena_grows (rn_arena s) (snd (?w n))" for n
    using arena_intern_grows [of "rn_pkg_name s @ ''.'' @ unwrap_or (lookup_name (rn_arena s) n) []" "rn_arena s"] by (metis prod.collapse)
  show "arena_grows (rn_arena s) (rn_arena (snd (rewrite_bound_term t s)))"
    using cases gr by auto
  show "rn_inv a pkg D (snd (rewrite_bound_term t s))"
    if "rn_inv a pkg D s" "arena_room (rn_arena (snd (rewrite_bound_term t s)))"
    using cases
  proof
    assume "\<exists>n. snd (rewrite_bound_term t s) = s\<lparr>rn_arena := snd (?w n)\<rparr>"
    then obtain n where n: "snd (rewrite_bound_term t s) = s\<lparr>rn_arena := snd (?w n)\<rparr>" ..
    have "arena_ok (snd (?w n))"
      using arena_intern_spec(1) [of "rn_arena s" _ "fst (?w n)" "snd (?w n)"] that n by (simp add: rn_inv_def)
    then show ?thesis
      unfolding n by (rule arena_grows_inv [OF that(1) gr])
  qed (use that in simp)
qed

lemma rewrite_bounds_renames: "renames a pkg D (rewrite_bounds bs) (\<lambda>b _. True)"
proof -
  have b: "snd (rewrite_bound b s) = snd (map_state rewrite_bound_term (bd_base_terms b) s)" for b s
    by (simp add: rewrite_bound_def case_prod_beta)
  have terms: "arena_grows (rn_arena s) (rn_arena (snd (map_state rewrite_bound_term ts s)))"
    "rn_inv a pkg D s \<Longrightarrow> arena_room (rn_arena (snd (map_state rewrite_bound_term ts s))) \<Longrightarrow>
      rn_inv a pkg D (snd (map_state rewrite_bound_term ts s))" for ts s
    using map_state_inv [of rewrite_bound_term a pkg D s ts] rewrite_bound_term_inv by blast+
  have "arena_grows (rn_arena s) (rn_arena (snd (rewrite_bound x s)))"
    "rn_inv a pkg D s \<Longrightarrow> arena_room (rn_arena (snd (rewrite_bound x s))) \<Longrightarrow> rn_inv a pkg D (snd (rewrite_bound x s))" for x s
    unfolding b using terms by blast+
  then have bounds: "arena_grows (rn_arena s) (rn_arena (snd (map_state rewrite_bound l s)))"
    "rn_inv a pkg D s \<Longrightarrow> arena_room (rn_arena (snd (map_state rewrite_bound l s))) \<Longrightarrow> rn_inv a pkg D (snd (map_state rewrite_bound l s))"
    for l s
    using map_state_inv [of rewrite_bound a pkg D s l] by blast+
  show ?thesis
    by (rule renamesI) (use bounds in \<open>auto simp: rewrite_bounds_def grows_rn_def case_prod_beta split: option.splits\<close>)
qed

lemma find_symbol_append:
  "find_symbol n (ss @ ts) =
     (case find_symbol n ss of Some i \<Rightarrow> Some i | None \<Rightarrow> map_option (\<lambda>i. length ss + i) (find_symbol n ts))"
  by (cases "find_symbol n ts"; induction ss) (auto split: option.splits)

lemma map_state_related:
  assumes grows: "\<And>x s. arena_grows (rn_arena s) (rn_arena (snd (f x s)))"
    and step: "\<And>x s. rn_inv a pkg D s \<Longrightarrow> arena_room (rn_arena (snd (f x s))) \<Longrightarrow>
      rn_inv a pkg D (snd (f x s)) \<and> R (rn_arena (snd (f x s))) x (fst (f x s))"
    and R: "\<And>b b' x y. arena_grows b b' \<Longrightarrow> R b x y \<Longrightarrow> R b' x y"
    and s: "rn_inv a pkg D s" "arena_room (rn_arena (snd (map_state f xs s)))"
  shows "list_all2 (R (rn_arena (snd (map_state f xs s)))) xs (fst (map_state f xs s))"
  using s
proof (induction xs arbitrary: s)
  case (Cons x xs)
  let ?s = "snd (f x s)"
  have gr: "arena_grows (rn_arena ?s) (rn_arena (snd (map_state f xs ?s)))"
    by (rule map_state_inv(1) [OF grows]) (use step in blast)
  have room: "arena_room (rn_arena (snd (map_state f xs ?s)))"
    using Cons.prems(2) by (simp add: case_prod_beta)
  have x: "rn_inv a pkg D ?s" "R (rn_arena ?s) x (fst (f x s))"
    using step [OF Cons.prems(1)] arena_grows_room [OF gr room] by blast+
  show ?case
    using Cons.IH [OF x(1) room] R [OF gr x(2)] by (simp add: case_prod_beta)
qed simp

text \<open>A predicate of the unit is found under its name in the arena the unit came with; predicates interned
  since are behind it and are not of the unit.\<close>

lemma rewrite_bound_term_renamed:
  assumes D: "\<And>p. p \<in> D \<Longrightarrow> predicate_name a p \<noteq> None"
    and s: "rn_inv a pkg D s" "arena_room (rn_arena (snd (rewrite_bound_term t s)))"
  shows "renamed_bound_term a pkg D (rn_arena (snd (rewrite_bound_term t s))) t (fst (rewrite_bound_term t s))"
proof (cases "\<exists>n. t = BConst (CsName n)")
  case True
  then obtain n where t: "t = BConst (CsName n)" ..
  note inv = s(1) [unfolded rn_inv_def]
  obtain qs where qs: "ar_predicates (rn_arena s) = ar_predicates a @ qs"
    using inv by (auto simp: arena_grows_def)
  have new: "length (ar_predicates a) + i \<notin> D" for i
    using D [of "length (ar_predicates a) + i"] by (auto simp: predicate_name_def)
  show ?thesis
  proof (cases "\<exists>p. lookup_predicate_sym a n = Some p \<and> p \<in> D")
    case True
    then obtain p where p: "find_symbol n (ar_predicates a) = Some p" "p \<in> D"
      by (auto simp: lookup_predicate_sym_def)
    obtain nm where nm: "lookup_name a n = Some nm"
      using D [OF p(2)] find_symbol_Some [OF p(1)] by (auto simp: predicate_name_def)
    then have nm': "lookup_name (rn_arena s) n = Some nm"
      using grows_lookup [of a "rn_arena s"] inv by blast
    obtain i b where i: "arena_intern (pkg @ ''.'' @ nm) (rn_arena s) = (i, b)"
      by (cases "arena_intern (pkg @ ''.'' @ nm) (rn_arena s)")
    have eq: "rewrite_bound_term t s = (BConst (CsName i), s\<lparr>rn_arena := b\<rparr>)"
      using t p nm' i inv qs by (simp add: rewrite_bound_term_def lookup_predicate_sym_def find_symbol_append unwrap_or_def)
    have "lookup_name b i = Some (pkg @ ''.'' @ nm)"
      using arena_intern_spec(2) [OF _ i] inv s(2) unfolding eq by simp
    then show ?thesis
      unfolding eq using t p nm by (simp add: renamed_bound_term_def lookup_predicate_sym_def)
  next
    case False
    then have "fst (rewrite_bound_term t s) = t"
      using t inv qs new
      by (auto simp: rewrite_bound_term_def lookup_predicate_sym_def find_symbol_append split: option.splits)
    then show ?thesis
      using t False by (auto simp: renamed_bound_term_def split: option.splits)
  qed
next
  case False
  then have "rewrite_bound_term t s = (t, s)"
    by (auto simp: rewrite_bound_term_def split: base_term.splits ast_const.splits)
  then show ?thesis
    using False by (auto simp: renamed_bound_term_def split: base_term.splits ast_const.splits)
qed

lemma renamed_bound_term_keeps:
  "arena_grows b b' \<Longrightarrow> renamed_bound_term a pkg D b t t' \<Longrightarrow> renamed_bound_term a pkg D b' t t'"
  by (auto simp: renamed_bound_term_def dest: grows_lookup split: base_term.splits ast_const.splits option.splits if_splits)

lemma renamed_bound_keeps:
  "arena_grows b b' \<Longrightarrow> renamed_bound a pkg D b x y \<Longrightarrow> renamed_bound a pkg D b' x y"
  unfolding renamed_bound_def by (erule list.rel_mono_strong) (rule renamed_bound_term_keeps)

lemma renamed_bounds_keeps:
  "arena_grows b b' \<Longrightarrow> rel_option (list_all2 (renamed_bound a pkg D b)) x y \<Longrightarrow>
     rel_option (list_all2 (renamed_bound a pkg D b')) x y"
  by (auto elim!: option.rel_mono_strong list.rel_mono_strong intro: renamed_bound_keeps)

lemma rewrite_bound_step:
  assumes D: "\<And>p. p \<in> D \<Longrightarrow> predicate_name a p \<noteq> None"
  shows "arena_grows (rn_arena s) (rn_arena (snd (rewrite_bound x s)))"
    and "rn_inv a pkg D s \<Longrightarrow> arena_room (rn_arena (snd (rewrite_bound x s))) \<Longrightarrow>
      rn_inv a pkg D (snd (rewrite_bound x s)) \<and> renamed_bound a pkg D (rn_arena (snd (rewrite_bound x s))) x (fst (rewrite_bound x s))"
proof -
  let ?ts = "bd_base_terms x"
  have b: "snd (rewrite_bound x s) = snd (map_state rewrite_bound_term ?ts s)"
    "bd_base_terms (fst (rewrite_bound x s)) = fst (map_state rewrite_bound_term ?ts s)"
    by (simp_all add: rewrite_bound_def case_prod_beta)
  show "arena_grows (rn_arena s) (rn_arena (snd (rewrite_bound x s)))"
    unfolding b by (rule map_state_inv(1)) (rule rewrite_bound_term_inv | assumption)+
  assume s: "rn_inv a pkg D s" "arena_room (rn_arena (snd (rewrite_bound x s)))"
  have "rn_inv a pkg D (snd (rewrite_bound x s))"
    using s unfolding b by (rule map_state_inv(2) [rotated 2]) (rule rewrite_bound_term_inv | assumption)+
  moreover have "list_all2 (renamed_bound_term a pkg D (rn_arena (snd (map_state rewrite_bound_term ?ts s))))
      ?ts (fst (map_state rewrite_bound_term ?ts s))"
    by (rule map_state_related [OF rewrite_bound_term_inv(1) _ renamed_bound_term_keeps s(1)])
       (use rewrite_bound_term_inv(2) rewrite_bound_term_renamed [OF D] s(2) b(1) in auto)
  ultimately show "rn_inv a pkg D (snd (rewrite_bound x s)) \<and>
      renamed_bound a pkg D (rn_arena (snd (rewrite_bound x s))) x (fst (rewrite_bound x s))"
    by (simp add: renamed_bound_def b)
qed

lemma rewrite_bounds_renamed:
  assumes D: "\<And>p. p \<in> D \<Longrightarrow> predicate_name a p \<noteq> None"
  shows "renames a pkg D (rewrite_bounds bs) (\<lambda>b bs'. rel_option (list_all2 (renamed_bound a pkg D b)) bs bs')"
proof (rule renamesI, goal_cases)
  case 1
  show ?case
    using rewrite_bounds_renames [of a pkg D bs] by (simp add: renames_def)
next
  case (2 s)
  then have inv: "rn_inv a pkg D (snd (rewrite_bounds bs s))"
    using rewrite_bounds_renames [of a pkg D bs] by (simp add: renames_def)
  show ?case
  proof (cases bs)
    case None
    then show ?thesis
      using 2(1) by (simp add: rewrite_bounds_def)
  next
    case (Some l)
    then have eq: "rewrite_bounds bs s = (Some (Some (fst (map_state rewrite_bound l s))), snd (map_state rewrite_bound l s))"
      by (simp add: rewrite_bounds_def case_prod_beta)
    have "list_all2 (renamed_bound a pkg D (rn_arena (snd (map_state rewrite_bound l s)))) l (fst (map_state rewrite_bound l s))"
      by (rule map_state_related [OF rewrite_bound_step(1) [OF D] _ renamed_bound_keeps 2(1)])
         (use rewrite_bound_step(2) [OF D] 2(2) eq in auto)
    then show ?thesis
      using inv Some unfolding eq by simp
  qed
qed

definition package_decl :: "arena \<Rightarrow> decl \<Rightarrow> bool" where
  "package_decl a d \<longleftrightarrow> predicate_name a (a_sym (de_atom d)) \<in> {Some ''Package'', Some ''Use''}"

lemma rewrite_decl_renames:
  assumes "known a [a_sym (de_atom d)]" "\<not> package_decl a d" and D: "\<And>p. p \<in> D \<Longrightarrow> predicate_name a p \<noteq> None"
  shows "renames a pkg D (bindN (rewrite_atom (de_atom d)) (\<lambda>new_atom. bindN (rewrite_bounds (de_bounds d)) (\<lambda>bounds.
             retN (d\<lparr>de_atom := new_atom, de_bounds := bounds\<rparr>)))) (\<lambda>b d'. renamed_decl a pkg D b d d')"
proof (rule renames_bind [OF rewrite_atom_renames [OF assms(1)]])
  show "renames a pkg D (bindN (rewrite_bounds (de_bounds d)) (\<lambda>bounds. retN (d\<lparr>de_atom := at, de_bounds := bounds\<rparr>)))
      (\<lambda>b d'. \<exists>bs. d' = d\<lparr>de_atom := at, de_bounds := bs\<rparr> \<and> rel_option (list_all2 (renamed_bound a pkg D b)) (de_bounds d) bs)" for at
  proof (rule renames_bind [OF rewrite_bounds_renamed [OF D]])
    show "renames a pkg D (retN (d\<lparr>de_atom := at, de_bounds := bs\<rparr>)) (\<lambda>b d'. d' = d\<lparr>de_atom := at, de_bounds := bs\<rparr>)" for bs
      by (rule renames_ret) simp
  qed (use renamed_bounds_keeps in blast)+
qed (auto simp: renamed_decl_def intro: renamed_keeps(1))

lemma filter_map_grows:
  assumes "\<And>x. grows_rn (f x)"
  shows "arena_grows (rn_arena s) (rn_arena (snd (filter_map_state f xs s)))"
proof (induction xs arbitrary: s)
  case (Cons x xs)
  show ?case
    using assms [of x, unfolded grows_rn_def, rule_format, of s] Cons.IH [of "snd (f x s)"]
    by (auto simp: case_prod_beta intro: arena_grows_trans)
qed simp

lemma filter_map_renames:
  assumes grows: "\<And>x. grows_rn (f x)"
    and step: "\<And>x s. x \<in> set xs \<Longrightarrow> rn_inv a pkg D s \<Longrightarrow> arena_room (rn_arena (snd (f x s))) \<Longrightarrow>
      rn_inv a pkg D (snd (f x s)) \<and>
      (if keep x then \<exists>y. fst (f x s) = Some y \<and> R (rn_arena (snd (f x s))) x y else fst (f x s) = None)"
    and R: "\<And>b b' x y. arena_grows b b' \<Longrightarrow> R b x y \<Longrightarrow> R b' x y"
    and s: "rn_inv a pkg D s" "arena_room (rn_arena (snd (filter_map_state f xs s)))"
  shows "rn_inv a pkg D (snd (filter_map_state f xs s)) \<and>
    list_all2 (R (rn_arena (snd (filter_map_state f xs s)))) (filter keep xs) (fst (filter_map_state f xs s))"
  using step s
proof (induction xs arbitrary: s)
  case (Cons x xs)
  let ?s = "snd (f x s)" and ?t = "filter_map_state f xs (snd (f x s))"
  have t: "snd (filter_map_state f (x # xs) s) = snd ?t"
    by (simp add: case_prod_beta)
  have gr: "arena_grows (rn_arena ?s) (rn_arena (snd ?t))"
    by (rule filter_map_grows [OF grows])
  have "arena_room (rn_arena ?s)"
    using arena_grows_room [OF gr] Cons.prems(3) unfolding t .
  then have x: "rn_inv a pkg D ?s" "if keep x then \<exists>y. fst (f x s) = Some y \<and> R (rn_arena ?s) x y else fst (f x s) = None"
    using Cons.prems(1) [of x s] Cons.prems(2) by auto
  have "rn_inv a pkg D (snd ?t) \<and> list_all2 (R (rn_arena (snd ?t))) (filter keep xs) (fst ?t)"
    using Cons.IH [of ?s] Cons.prems(1,3) x(1) unfolding t by (meson list.set_intros(2))
  then show ?case
    unfolding t using x(2) R [OF gr] by (auto simp: case_prod_beta split: if_splits)
qed simp

lemma grows_basic:
  "grows_rn (retN y)" "grows_rn (rewrite_atom at)" "grows_rn (rewrite_bounds bs)"
proof -
  show "grows_rn (retN y)"
    by (simp add: grows_rn_def retN_def)
  show "grows_rn (rewrite_atom at)"
    unfolding rewrite_atom_def by (intro grows_bind rename_pred_grows) (simp add: grows_rn_def retN_def)
  show "grows_rn (rewrite_bounds bs)"
    using rewrite_bounds_renames unfolding renames_def by blast
qed

lemma rewrite_clause_grows: "grows_rn (rewrite_clause cl)"
proof -
  have t: "grows_rn (rewrite_premise t)" for t
    by (cases t) (simp_all add: grows_bind grows_basic)
  have "grows_rn (mapN rewrite_premise ts)" for ts
    by (induction ts) (simp_all add: grows_bind grows_basic t)
  then show ?thesis
    unfolding rewrite_clause_def by (intro grows_bind grows_basic)
qed

lemma rewrite_decl_grows: "grows_rn (rewrite_decl d)"
proof -
  have "grows_rn (bindN (rewrite_atom (de_atom d)) (\<lambda>new_atom. bindN (rewrite_bounds (de_bounds d)) (\<lambda>bounds.
             retN (d\<lparr>de_atom := new_atom, de_bounds := bounds\<rparr>))))"
    by (intro grows_bind grows_basic)
  then show ?thesis
    by (simp add: grows_rn_def rewrite_decl_def Let_def)
qed

lemma renamed_decl_keeps: "arena_grows b b' \<Longrightarrow> renamed_decl a pkg D b d d' \<Longrightarrow> renamed_decl a pkg D b' d d'"
  by (auto simp: renamed_decl_def intro: renamed_keeps(1) renamed_bounds_keeps)

lemma renamed_clause_keeps: "arena_grows b b' \<Longrightarrow> renamed_clause a pkg D b cl cl' \<Longrightarrow> renamed_clause a pkg D b' cl cl'"
  by (auto simp: renamed_clause_def intro: renamed_keeps elim!: list.rel_mono_strong)

lemma rewrite_decls_renames:
  assumes "list_all (\<lambda>d. known a [a_sym (de_atom d)]) ds" "rn_inv a pkg D s"
    and "arena_room (rn_arena (snd (filter_map_state rewrite_decl ds s)))"
    and D: "\<And>p. p \<in> D \<Longrightarrow> predicate_name a p \<noteq> None"
  shows "rn_inv a pkg D (snd (filter_map_state rewrite_decl ds s)) \<and>
    list_all2 (renamed_decl a pkg D (rn_arena (snd (filter_map_state rewrite_decl ds s))))
      (filter (\<lambda>d. \<not> package_decl a d) ds) (fst (filter_map_state rewrite_decl ds s))"
proof (rule filter_map_renames [OF rewrite_decl_grows _ renamed_decl_keeps assms(2)])
  fix d s
  assume d: "d \<in> set ds" "rn_inv a pkg D s" "arena_room (rn_arena (snd (rewrite_decl d s)))"
  have known: "known a [a_sym (de_atom d)]"
    using assms(1) d(1) by (simp add: list_all_iff)
  then have nm: "predicate_name (rn_arena s) (a_sym (de_atom d)) = predicate_name a (a_sym (de_atom d))"
    using d(2) grows_predicate [of a "rn_arena s"] by (auto simp: rn_inv_def)
  show "rn_inv a pkg D (snd (rewrite_decl d s)) \<and>
    (if \<not> package_decl a d then \<exists>y. fst (rewrite_decl d s) = Some y \<and> renamed_decl a pkg D (rn_arena (snd (rewrite_decl d s))) d y
     else fst (rewrite_decl d s) = None)"
  proof (cases "package_decl a d")
    case True
    then show ?thesis
      using d(2) nm by (auto simp: rewrite_decl_def package_decl_def unwrap_or_def)
  next
    case False
    have eq: "rewrite_decl d s = bindN (rewrite_atom (de_atom d)) (\<lambda>new_atom. bindN (rewrite_bounds (de_bounds d)) (\<lambda>bounds.
           retN (d\<lparr>de_atom := new_atom, de_bounds := bounds\<rparr>))) s"
      using False nm known by (auto simp: rewrite_decl_def package_decl_def unwrap_or_def)
    show ?thesis
      using rewrite_decl_renames [OF known False D, unfolded renames_def] d(2,3) False unfolding eq by simp
  qed
qed (assumption+, rule assms(3))

lemma rewrite_clauses_renames:
  assumes "list_all (\<lambda>cl. known a (clause_preds cl)) cls" "rn_inv a pkg D s"
    and "arena_room (rn_arena (snd (filter_map_state rewrite_clause cls s)))"
  shows "list_all2 (renamed_clause a pkg D (rn_arena (snd (filter_map_state rewrite_clause cls s))))
      cls (fst (filter_map_state rewrite_clause cls s))"
proof -
  have "rn_inv a pkg D (snd (filter_map_state rewrite_clause cls s)) \<and>
    list_all2 (renamed_clause a pkg D (rn_arena (snd (filter_map_state rewrite_clause cls s))))
      (filter (\<lambda>cl. True) cls) (fst (filter_map_state rewrite_clause cls s))"
  proof (rule filter_map_renames [OF rewrite_clause_grows _ renamed_clause_keeps assms(2)])
    fix cl s
    assume "cl \<in> set cls" "rn_inv a pkg D s" "arena_room (rn_arena (snd (rewrite_clause cl s)))"
    moreover from this have "known a (clause_preds cl)"
      using assms(1) by (simp add: list_all_iff)
    ultimately show "rn_inv a pkg D (snd (rewrite_clause cl s)) \<and>
      (if True then \<exists>y. fst (rewrite_clause cl s) = Some y \<and> renamed_clause a pkg D (rn_arena (snd (rewrite_clause cl s))) cl y
       else fst (rewrite_clause cl s) = None)"
      using rewrite_clause_renames [unfolded renames_def] by simp
  qed (assumption+, rule assms(3))
  then show ?thesis
    by simp
qed

text \<open>C20: Renaming a unit whose predicates are symbols of the arena.  Without a package nothing changes.
  With one, the \<open>Package\<close> and \<open>Use\<close> declarations are left out and every other declaration and every clause is
  kept, in order, with its arguments, premises, intervals and transforms.  A predicate the unit declares or
  defines has the package name put before its name in the head of every clause, in every atom, negated atom
  and temporal atom among the premises, and in the atom of its declaration; every other predicate keeps its
  name there.  In the bounds of a declaration a name constant that is the name of such a predicate is
  qualified too and every other term stays.  The atoms in descriptions and in constraints are left as they
  are, so predicates named there stay unqualified.  No symbol of the arena changes.\<close>

theorem rename_spec:
  assumes "arena_ok a" "rewrite_unit u a = (u', a')" "arena_room a'"
    and "list_all (\<lambda>d. known a [a_sym (de_atom d)]) (un_decls u)" "list_all (\<lambda>cl. known a (clause_preds cl)) (un_clauses u)"
    and "fst (find_package_info a (un_decls u) ([], {})) = pkg"
  shows "arena_grows a a' \<and>
    (if pkg = [] then u' = u \<and> a' = a
     else list_all2 (renamed_decl a pkg (find_defined_preds u) a') (filter (\<lambda>d. \<not> package_decl a d) (un_decls u)) (un_decls u') \<and>
       list_all2 (renamed_clause a pkg (find_defined_preds u) a') (un_clauses u) (un_clauses u'))"
proof (cases "pkg = []")
  case True
  then show ?thesis
    using assms(2,6) by (auto simp: rewrite_unit_def case_prod_beta)
next
  case False
  let ?D = "find_defined_preds u"
  define s where "s = \<lparr>rn_arena = a, rn_pkg_name = pkg, rn_used_pkgs = snd (find_package_info a (un_decls u) ([], {})),
     rn_defined_preds = ?D, rn_cache = []\<rparr>"
  define r1 where "r1 = filter_map_state rewrite_decl (un_decls u) s"
  define r2 where "r2 = filter_map_state rewrite_clause (un_clauses u) (snd r1)"
  have u': "u' = \<lparr>un_decls = fst r1, un_clauses = fst r2\<rparr>" "a' = rn_arena (snd r2)"
    using assms(2,6) False by (auto simp: rewrite_unit_def case_prod_beta Let_def s_def r1_def r2_def)
  have s: "rn_inv a pkg ?D s" "rn_arena s = a"
    using assms(1) by (simp_all add: rn_inv_def s_def)
  have gr: "arena_grows (rn_arena s) (rn_arena (snd r1))" "arena_grows (rn_arena (snd r1)) (rn_arena (snd r2))"
    unfolding r1_def r2_def by (intro filter_map_grows rewrite_decl_grows rewrite_clause_grows)+
  have room: "arena_room (rn_arena (snd r1))" "arena_room (rn_arena (snd r2))"
    using arena_grows_room [OF gr(2)] assms(3) u'(2) by simp_all
  have defined: "predicate_name a p \<noteq> None" if "p \<in> ?D" for p
    using that assms(4,5) by (auto simp: find_defined_preds_def clause_preds_def list_all_iff)
  have d: "rn_inv a pkg ?D (snd r1)"
    "list_all2 (renamed_decl a pkg ?D (rn_arena (snd r1))) (filter (\<lambda>d. \<not> package_decl a d) (un_decls u)) (fst r1)"
    using rewrite_decls_renames [OF assms(4) s(1) room(1) [unfolded r1_def] defined] unfolding r1_def by blast+
  have "list_all2 (renamed_clause a pkg ?D (rn_arena (snd r2))) (un_clauses u) (fst r2)"
    using rewrite_clauses_renames [OF assms(5) d(1) room(2) [unfolded r2_def]] unfolding r2_def .
  moreover have "list_all2 (renamed_decl a pkg ?D (rn_arena (snd r2))) (filter (\<lambda>d. \<not> package_decl a d) (un_decls u)) (fst r1)"
    using d(2) renamed_decl_keeps [OF gr(2)] by (rule list.rel_mono_strong)
  ultimately show ?thesis
    using False u' s(2) arena_grows_trans [OF gr] by simp
qed

text \<open>The unit \<open>Package pkg! Decl foo(X) bound [bar]. bar(1). foo(X) :- bar(X), ext(X).\<close>\<close>

definition ren_arena :: arena where
  "ren_arena = (let (_, a1) = predicate_sym ''Package'' (Some 0) (arena_new ast_interner_new);
                    (_, a2) = predicate_sym ''name'' (Some 1) a1; (_, a3) = predicate_sym ''bar'' (Some 1) a2;
                    (_, a4) = predicate_sym ''foo'' (Some 1) a3; (_, a5) = predicate_sym ''ext'' (Some 1) a4
                in snd (variable_sym ''X'' a5))"
definition ren_unit :: ast_unit where
  "ren_unit = \<lparr>un_decls = [\<lparr>de_atom = \<lparr>a_sym = 0, a_args = []\<rparr>, de_descr = [\<lparr>a_sym = 1, a_args = [BConst (CsString ''pkg'')]\<rparr>],
       de_bounds = None, de_constraints = None, de_is_temporal = False\<rparr>,
     \<lparr>de_atom = \<lparr>a_sym = 3, a_args = [BVar 6]\<rparr>, de_descr = [],
       de_bounds = Some [\<lparr>bd_base_terms = [BConst (CsName 3)]\<rparr>], de_constraints = None, de_is_temporal = False\<rparr>],
     un_clauses = [
     \<lparr>cl_head = \<lparr>a_sym = 2, a_args = [BConst (CsNumber 1)]\<rparr>, cl_head_time = None, cl_premises = [], cl_transform = []\<rparr>,
     \<lparr>cl_head = \<lparr>a_sym = 3, a_args = [BVar 6]\<rparr>, cl_head_time = None,
      cl_premises = [TAtom \<lparr>a_sym = 2, a_args = [BVar 6]\<rparr>, TAtom \<lparr>a_sym = 4, a_args = [BVar 6]\<rparr>], cl_transform = []\<rparr>]\<rparr>"

lemma ren_arena_ok: "arena_ok ren_arena"
proof -
  have eq: "ren_arena = \<lparr>ar_interner = \<lparr>ai_map = [(''X'', 6), (''ext'', 5), (''foo'', 4), (''bar'', 3), (''name'', 2), (''Package'', 1), (''_'', 0)],
      ai_vec = [''_'', ''Package'', ''name'', ''bar'', ''foo'', ''ext'', ''X'']\<rparr>,
     ar_predicates = [\<lparr>sy_name = 1, sy_arity = Some 0\<rparr>, \<lparr>sy_name = 2, sy_arity = Some 1\<rparr>, \<lparr>sy_name = 3, sy_arity = Some 1\<rparr>,
       \<lparr>sy_name = 4, sy_arity = Some 1\<rparr>, \<lparr>sy_name = 5, sy_arity = Some 1\<rparr>], ar_functions = []\<rparr>"
    by code_simp
  show ?thesis
    unfolding eq arena_ok_def by (auto simp: lookup_name_def ast_lookup_def split: if_splits)
qed

theorem rename_spec_witness:
  "list_all2 (renamed_clause ren_arena ''pkg'' (find_defined_preds ren_unit) (snd (rewrite_unit ren_unit ren_arena)))
     (un_clauses ren_unit) (un_clauses (fst (rewrite_unit ren_unit ren_arena))) \<and>
   list_all2 (renamed_decl ren_arena ''pkg'' (find_defined_preds ren_unit) (snd (rewrite_unit ren_unit ren_arena)))
     [un_decls ren_unit ! 1] (un_decls (fst (rewrite_unit ren_unit ren_arena))) \<and>
   map (\<lambda>cl. map (predicate_name (snd (rewrite_unit ren_unit ren_arena))) (clause_preds cl)) (un_clauses (fst (rewrite_unit ren_unit ren_arena)))
     = [[Some ''pkg.bar''], [Some ''pkg.foo'', Some ''pkg.bar'', Some ''ext'']]"
proof (intro conjI)
  have len: "length (ai_vec (ar_interner (snd (rewrite_unit ren_unit ren_arena)))) = 9"
    by code_simp
  have known: "list_all (\<lambda>d. known ren_arena [a_sym (de_atom d)]) (un_decls ren_unit)"
    "list_all (\<lambda>cl. known ren_arena (clause_preds cl)) (un_clauses ren_unit)"
    "fst (find_package_info ren_arena (un_decls ren_unit) ([], {})) = ''pkg''"
    by code_simp+
  have "package_decl ren_arena (un_decls ren_unit ! 0)" "\<not> package_decl ren_arena (un_decls ren_unit ! 1)"
    "length (un_decls ren_unit) = 2"
    by code_simp+
  then have kept: "filter (\<lambda>d. \<not> package_decl ren_arena d) (un_decls ren_unit) = [un_decls ren_unit ! 1]"
    by (cases "un_decls ren_unit"; cases "tl (un_decls ren_unit)") auto
  note spec = rename_spec [OF ren_arena_ok _ _ known, of "fst (rewrite_unit ren_unit ren_arena)" "snd (rewrite_unit ren_unit ren_arena)"]
  show "list_all2 (renamed_clause ren_arena ''pkg'' (find_defined_preds ren_unit) (snd (rewrite_unit ren_unit ren_arena)))
     (un_clauses ren_unit) (un_clauses (fst (rewrite_unit ren_unit ren_arena)))"
    using spec by (simp add: len)
  show "list_all2 (renamed_decl ren_arena ''pkg'' (find_defined_preds ren_unit) (snd (rewrite_unit ren_unit ren_arena)))
     [un_decls ren_unit ! 1] (un_decls (fst (rewrite_unit ren_unit ren_arena)))"
    using spec by (simp add: len kept del: list_all2_Cons1)
  show "map (\<lambda>cl. map (predicate_name (snd (rewrite_unit ren_unit ren_arena))) (clause_preds cl)) (un_clauses (fst (rewrite_unit ren_unit ren_arena)))
     = [[Some ''pkg.bar''], [Some ''pkg.foo'', Some ''pkg.bar'', Some ''ext'']]"
    by code_simp
qed

end
