(* ===== verification/Lowering_Props.thy ===== *)
theory Lowering_Props
  imports Lowering
begin

text \<open>
  Lowering loses nothing.  A reading relates instructions to the syntax they stand for; every method of
  the context is shown to return, within its share of the 32-bit index space, an instruction that reads
  as its argument, and to keep what was lowered before.
\<close>

subsection \<open>Growth of the IR\<close>

definition top_inst :: "inst \<Rightarrow> bool" where
  "top_inst i = (case i of IRule _ _ _ \<Rightarrow> True | IDecl _ _ _ _ \<Rightarrow> True | _ \<Rightarrow> False)"

definition tops :: "ir \<Rightarrow> inst list" where
  "tops m = filter top_inst (insts m)"

text \<open>\<open>m'\<close> has at most \<open>n\<close> instructions, names and strings more than \<open>m\<close>.\<close>

definition extends_ir :: "nat \<Rightarrow> ir \<Rightarrow> ir \<Rightarrow> bool" where
  "extends_ir n m m' \<longleftrightarrow>
     (\<exists>xs. insts m' = insts m @ xs \<and> length xs \<le> n) \<and>
     (\<forall>k x. resolve_name m k = Inr x \<longrightarrow> resolve_name m' k = Inr x) \<and>
     (\<forall>k x. resolve_string m k = Inr x \<longrightarrow> resolve_string m' k = Inr x) \<and>
     length (ivec (name_store m')) \<le> length (ivec (name_store m)) + n \<and>
     length (ivec (string_store m')) \<le> length (ivec (string_store m)) + n \<and>
     set (temporal_predicates m) \<subseteq> set (temporal_predicates m')"

definition stable_ir :: "(ir \<Rightarrow> bool) \<Rightarrow> bool" where
  "stable_ir Q \<longleftrightarrow> (\<forall>n m m'. extends_ir n m m' \<longrightarrow> Q m \<longrightarrow> Q m')"

lemma extends_refl [simp]: "extends_ir n m m"
  by (simp add: extends_ir_def)

lemma extends_trans:
  assumes "extends_ir j m m1" "extends_ir k m1 m2"
  shows "extends_ir (j + k) m m2"
proof -
  obtain xs ys where "insts m1 = insts m @ xs" "length xs \<le> j" "insts m2 = insts m1 @ ys" "length ys \<le> k"
    using assms unfolding extends_ir_def by blast
  then have "insts m2 = insts m @ (xs @ ys) \<and> length (xs @ ys) \<le> j + k"
    by simp
  then show ?thesis
    using assms unfolding extends_ir_def by (intro conjI exI [of _ "xs @ ys"]) (auto intro: order_trans)
qed

lemma extends_weaken: "extends_ir j m m' \<Longrightarrow> j \<le> k \<Longrightarrow> extends_ir k m m'"
  unfolding extends_ir_def by (auto intro: order_trans)

lemma extends_get: "extends_ir n m m' \<Longrightarrow> ir_get m i = Inr x \<Longrightarrow> ir_get m' i = Inr x"
  by (auto simp: extends_ir_def ir_get_def nth_append)

lemma extends_resolve:
  "extends_ir n m m' \<Longrightarrow> resolve_name m k = Inr x \<Longrightarrow> resolve_name m' k = Inr x"
  "extends_ir n m m' \<Longrightarrow> resolve_string m k = Inr x \<Longrightarrow> resolve_string m' k = Inr x"
  "extends_ir n m m' \<Longrightarrow> k \<in> set (temporal_predicates m) \<Longrightarrow> k \<in> set (temporal_predicates m')"
  unfolding extends_ir_def by blast+

subsection \<open>Readings\<close>

text \<open>Instruction \<open>i\<close> of \<open>m\<close> stands for a piece of syntax.\<close>

definition is_name :: "ir \<Rightarrow> string \<Rightarrow> name_id \<Rightarrow> bool" where
  "is_name m s k \<longleftrightarrow> resolve_name m k = Inr s"

fun reads_const :: "arena \<Rightarrow> ir \<Rightarrow> inst_id \<Rightarrow> ast_const \<Rightarrow> bool" where
  "reads_const a m i (CsName n) =
     (\<exists>k. ir_get m i = Inr (IName k) \<and> is_name m (unwrap_or (lookup_name a n) ''unknown_name'') k)"
| "reads_const a m i (CsBool b) = (ir_get m i = Inr (IBool b))"
| "reads_const a m i (CsNumber n) = (ir_get m i = Inr (INumber n))"
| "reads_const a m i (CsFloat f) = (ir_get m i = Inr (IFloat f))"
| "reads_const a m i (CsTime t) = (ir_get m i = Inr (ITime t))"
| "reads_const a m i (CsDuration d) = (ir_get m i = Inr (IDuration d))"
| "reads_const a m i (CsString s) = (\<exists>k. ir_get m i = Inr (IString k) \<and> resolve_string m k = Inr s)"
| "reads_const a m i (CsBytes b) = (ir_get m i = Inr (IBytes b))"
| "reads_const a m i (CsList l) = (\<exists>is. ir_get m i = Inr (IList is) \<and> list_all2 (reads_const a m) is l)"
| "reads_const a m i (CsMap ks vs) =
     (\<exists>is js. ir_get m i = Inr (IMap is js) \<and> list_all2 (reads_const a m) is ks \<and> list_all2 (reads_const a m) js vs)"
| "reads_const a m i (CsStruct fs vs) =
     (\<exists>ns is. ir_get m i = Inr (IStruct ns is) \<and> list_all2 (\<lambda>k s. is_name m s k) ns fs \<and>
        list_all2 (reads_const a m) is vs)"

definition reads_var :: "ir \<Rightarrow> inst_id \<Rightarrow> string \<Rightarrow> bool" where
  "reads_var m i s \<longleftrightarrow> (\<exists>k. ir_get m i = Inr (IVar k) \<and> is_name m s k)"

fun reads_term :: "arena \<Rightarrow> ir \<Rightarrow> inst_id \<Rightarrow> base_term \<Rightarrow> bool" where
  "reads_term a m i (BConst c) = reads_const a m i c"
| "reads_term a m i (BVar v) = reads_var m i (var_name a v)"
| "reads_term a m i (BApp f args) =
     (\<exists>k is. ir_get m i = Inr (IApplyFn k is) \<and> is_name m (unwrap_or (function_name a f) ''unknown_fn'') k \<and>
        list_all2 (reads_term a m) is args)"

definition reads_atom :: "arena \<Rightarrow> ir \<Rightarrow> inst_id \<Rightarrow> atom \<Rightarrow> bool" where
  "reads_atom a m i at \<longleftrightarrow>
     (\<exists>k is. ir_get m i = Inr (IAtom k is) \<and> is_name m (pred_name a (a_sym at)) k \<and> list_all2 (reads_term a m) is (a_args at))"

fun reads_bound :: "arena \<Rightarrow> ir \<Rightarrow> inst_id \<Rightarrow> temporal_bound \<Rightarrow> bool" where
  "reads_bound a m i (Timestamp t) = (ir_get m i = Inr (ITime t))"
| "reads_bound a m i (BoundVar v) = reads_var m i (unwrap_or (lookup_name a v) ''unknown_var'')"
| "reads_bound a m i NegInf = (ir_get m i = Inr (ITime (push_bit 63 1)))"
| "reads_bound a m i PosInf = (ir_get m i = Inr (ITime (mask 63)))"

text \<open>A temporal atom has its interval in two more columns, and its predicate is known as temporal.\<close>

definition reads_temporal :: "arena \<Rightarrow> ir \<Rightarrow> inst_id \<Rightarrow> atom \<Rightarrow> time_interval \<Rightarrow> bool" where
  "reads_temporal a m i at iv \<longleftrightarrow>
     (\<exists>k is s e. ir_get m i = Inr (IAtom k (is @ [s, e])) \<and> is_name m (pred_name a (a_sym at)) k \<and>
        k \<in> set (temporal_predicates m) \<and> list_all2 (reads_term a m) is (a_args at) \<and>
        reads_bound a m s (ti_start iv) \<and> reads_bound a m e (ti_end iv))"

fun reads_premise :: "arena \<Rightarrow> ir \<Rightarrow> inst_id \<Rightarrow> ast_term \<Rightarrow> bool" where
  "reads_premise a m i (TAtom at) = reads_atom a m i at"
| "reads_premise a m i (TNegAtom at) = (\<exists>j. ir_get m i = Inr (INegAtom j) \<and> reads_atom a m j at)"
| "reads_premise a m i (TEq l r) = (\<exists>j k. ir_get m i = Inr (IEq j k) \<and> reads_term a m j l \<and> reads_term a m k r)"
| "reads_premise a m i (TIneq l r) = (\<exists>j k. ir_get m i = Inr (IIneq j k) \<and> reads_term a m j l \<and> reads_term a m k r)"
| "reads_premise a m i (TTemporalAtom at iv) = reads_temporal a m i at iv"

definition reads_transform :: "arena \<Rightarrow> ir \<Rightarrow> inst_id \<Rightarrow> transform_stmt \<Rightarrow> bool" where
  "reads_transform a m i t \<longleftrightarrow>
     (\<exists>var j. ir_get m i = Inr (ITransform var j) \<and> rel_option (\<lambda>k s. is_name m s k) var (ts_var t) \<and>
        reads_term a m j (ts_app t))"

definition reads_head :: "arena \<Rightarrow> ir \<Rightarrow> inst_id \<Rightarrow> clause \<Rightarrow> bool" where
  "reads_head a m i cl \<longleftrightarrow>
     (case cl_head_time cl of Some iv \<Rightarrow> reads_temporal a m i (cl_head cl) iv | None \<Rightarrow> reads_atom a m i (cl_head cl))"

definition reads_rule :: "arena \<Rightarrow> ir \<Rightarrow> inst \<Rightarrow> clause \<Rightarrow> bool" where
  "reads_rule a m i cl \<longleftrightarrow>
     (\<exists>h ps ts. i = IRule h ps ts \<and> reads_head a m h cl \<and> list_all2 (reads_premise a m) ps (cl_premises cl) \<and>
        list_all2 (reads_transform a m) ts (cl_transform cl))"

definition reads_bound_decl :: "arena \<Rightarrow> ir \<Rightarrow> inst_id \<Rightarrow> bound_decl \<Rightarrow> bool" where
  "reads_bound_decl a m i b \<longleftrightarrow>
     (\<exists>is. ir_get m i = Inr (IBoundDecl is) \<and> list_all2 (reads_term a m) is (bd_base_terms b))"

definition reads_constraints :: "arena \<Rightarrow> ir \<Rightarrow> inst_id \<Rightarrow> constraints \<Rightarrow> bool" where
  "reads_constraints a m i c \<longleftrightarrow>
     (\<exists>is jss. ir_get m i = Inr (IConstraints is jss) \<and> list_all2 (reads_atom a m) is (co_consequences c) \<and>
        list_all2 (list_all2 (reads_atom a m)) jss (co_alternatives c))"

definition is_temporal_name :: "ir \<Rightarrow> string \<Rightarrow> bool" where
  "is_temporal_name m s \<longleftrightarrow> (\<exists>k\<in>set (temporal_predicates m). is_name m s k)"

definition reads_decl :: "arena \<Rightarrow> ir \<Rightarrow> inst \<Rightarrow> decl \<Rightarrow> bool" where
  "reads_decl a m i d \<longleftrightarrow>
     (\<exists>at ds bs co. i = IDecl at ds bs co \<and> reads_atom a m at (de_atom d) \<and> list_all2 (reads_atom a m) ds (de_descr d) \<and>
        list_all2 (reads_bound_decl a m) bs (case de_bounds d of None \<Rightarrow> [] | Some bs \<Rightarrow> bs) \<and>
        rel_option (reads_constraints a m) co (de_constraints d) \<and>
        (de_is_temporal d \<longrightarrow> is_temporal_name m (pred_name a (a_sym (de_atom d)))))"

subsection \<open>What was read stays readable\<close>

named_theorems keeps \<open>readings survive the growth of the IR\<close>

lemma is_name_keeps [keeps]: "extends_ir n m m' \<Longrightarrow> is_name m s k \<Longrightarrow> is_name m' s k"
  by (simp add: is_name_def extends_resolve)

lemma reads_var_keeps [keeps]: "extends_ir n m m' \<Longrightarrow> reads_var m i s \<Longrightarrow> reads_var m' i s"
  unfolding reads_var_def using extends_get is_name_keeps by blast

lemma reads_const_keeps [keeps]: "extends_ir n m m' \<Longrightarrow> reads_const a m i c \<Longrightarrow> reads_const a m' i c"
proof (induction c arbitrary: i)
  case (CsList x)
  then show ?case using extends_get [OF CsList.prems(1)] by (fastforce elim!: list.rel_mono_strong)
next
  case (CsMap ks vs)
  then show ?case using extends_get [OF CsMap.prems(1)] by (fastforce elim!: list.rel_mono_strong)
next
  case (CsStruct fs vs)
  then show ?case
    using extends_get [OF CsStruct.prems(1)] is_name_keeps [OF CsStruct.prems(1)]
    by (fastforce elim!: list.rel_mono_strong)
qed (auto intro: extends_get extends_resolve is_name_keeps)

lemma reads_term_keeps [keeps]: "extends_ir n m m' \<Longrightarrow> reads_term a m i t \<Longrightarrow> reads_term a m' i t"
proof (induction t arbitrary: i)
  case (BApp f args)
  then show ?case
    using extends_get [OF BApp.prems(1)] is_name_keeps [OF BApp.prems(1)] by (fastforce elim!: list.rel_mono_strong)
qed (auto intro: keeps)

lemma reads_terms_keeps [keeps]:
  "extends_ir n m m' \<Longrightarrow> list_all2 (reads_term a m) is ts \<Longrightarrow> list_all2 (reads_term a m') is ts"
  by (erule list.rel_mono_strong) (rule reads_term_keeps)

lemma reads_atom_keeps [keeps]: "extends_ir n m m' \<Longrightarrow> reads_atom a m i at \<Longrightarrow> reads_atom a m' i at"
  unfolding reads_atom_def using extends_get keeps by meson

lemma reads_bound_keeps [keeps]: "extends_ir n m m' \<Longrightarrow> reads_bound a m i b \<Longrightarrow> reads_bound a m' i b"
  by (cases b) (auto intro: keeps extends_get)

lemma reads_temporal_keeps [keeps]: "extends_ir n m m' \<Longrightarrow> reads_temporal a m i at iv \<Longrightarrow> reads_temporal a m' i at iv"
  unfolding reads_temporal_def using extends_get extends_resolve(3) keeps by meson

lemma reads_premise_keeps [keeps]: "extends_ir n m m' \<Longrightarrow> reads_premise a m i t \<Longrightarrow> reads_premise a m' i t"
  by (cases t) (auto intro: keeps dest: extends_get)

lemma reads_transform_keeps [keeps]: "extends_ir n m m' \<Longrightarrow> reads_transform a m i t \<Longrightarrow> reads_transform a m' i t"
  unfolding reads_transform_def
  by (metis (mono_tags, lifting) extends_get is_name_keeps option.rel_mono_strong reads_term_keeps)

lemma reads_head_keeps [keeps]: "extends_ir n m m' \<Longrightarrow> reads_head a m i cl \<Longrightarrow> reads_head a m' i cl"
  by (auto simp: reads_head_def intro: keeps split: option.splits)

lemma list_all2_keeps:
  "(\<And>i x. extends_ir n m m' \<Longrightarrow> R m i x \<Longrightarrow> R m' i x) \<Longrightarrow> extends_ir n m m' \<Longrightarrow> list_all2 (R m) is xs \<Longrightarrow> list_all2 (R m') is xs"
  by (erule list.rel_mono_strong)

lemma reads_bound_decl_keeps [keeps]: "extends_ir n m m' \<Longrightarrow> reads_bound_decl a m i b \<Longrightarrow> reads_bound_decl a m' i b"
  unfolding reads_bound_decl_def using extends_get keeps by meson

lemma reads_atoms_keeps [keeps]:
  "extends_ir n m m' \<Longrightarrow> list_all2 (reads_atom a m) is ts \<Longrightarrow> list_all2 (reads_atom a m') is ts"
  "extends_ir n m m' \<Longrightarrow> list_all2 (list_all2 (reads_atom a m)) jss tss \<Longrightarrow> list_all2 (list_all2 (reads_atom a m')) jss tss"
  by (auto elim!: list.rel_mono_strong intro: reads_atom_keeps)

lemma reads_constraints_keeps [keeps]: "extends_ir n m m' \<Longrightarrow> reads_constraints a m i c \<Longrightarrow> reads_constraints a m' i c"
  unfolding reads_constraints_def using extends_get reads_atoms_keeps by blast

lemma is_temporal_name_keeps [keeps]: "extends_ir n m m' \<Longrightarrow> is_temporal_name m s \<Longrightarrow> is_temporal_name m' s"
  unfolding is_temporal_name_def using extends_resolve(3) is_name_keeps by blast

lemma reads_lists_keep [keeps]:
  "extends_ir n m m' \<Longrightarrow> list_all2 (reads_premise a m) is ts \<Longrightarrow> list_all2 (reads_premise a m') is ts"
  "extends_ir n m m' \<Longrightarrow> list_all2 (reads_transform a m) is us \<Longrightarrow> list_all2 (reads_transform a m') is us"
  "extends_ir n m m' \<Longrightarrow> list_all2 (reads_bound_decl a m) is bs \<Longrightarrow> list_all2 (reads_bound_decl a m') is bs"
  "extends_ir n m m' \<Longrightarrow> rel_option (reads_constraints a m) co c \<Longrightarrow> rel_option (reads_constraints a m') co c"
  by (auto elim!: list.rel_mono_strong option.rel_mono_strong intro: keeps)

lemma reads_rule_keeps: "extends_ir n m m' \<Longrightarrow> reads_rule a m i cl \<Longrightarrow> reads_rule a m' i cl"
  by (auto simp: reads_rule_def intro: reads_head_keeps reads_lists_keep(1,2))

lemma reads_decl_keeps: "extends_ir n m m' \<Longrightarrow> reads_decl a m i d \<Longrightarrow> reads_decl a m' i d"
  by (auto simp: reads_decl_def intro: reads_atom_keeps reads_atoms_keeps(1) reads_lists_keep(3,4) is_temporal_name_keeps)

subsection \<open>Specifications of the methods\<close>

definition room :: "nat \<Rightarrow> ir \<Rightarrow> bool" where
  "room n m \<longleftrightarrow> length (insts m) + n < 2 ^ 32 \<and> length (ivec (name_store m)) + n < 2 ^ 32 \<and>
     length (ivec (string_store m)) + n < 2 ^ 32"

definition lc_inv :: "arena \<Rightarrow> lowering_context \<Rightarrow> bool" where
  "lc_inv a c \<longleftrightarrow> ir_inv (lc_ir c) \<and> interner_inv (string_store (lc_ir c)) \<and>
     (\<forall>v i. map_of (lc_vars c) v = Some i \<longrightarrow> v \<noteq> 0 \<and> reads_var (lc_ir c) i (var_name a v))"

text \<open>From an IR with \<open>P\<close> and room for \<open>n\<close> entries, \<open>f\<close> returns a result with \<open>Q\<close>, and adds no rule and
  no declaration.\<close>

definition lowers :: "arena \<Rightarrow> nat \<Rightarrow> (ir \<Rightarrow> bool) \<Rightarrow> 'a low \<Rightarrow> ('a \<Rightarrow> ir \<Rightarrow> bool) \<Rightarrow> bool" where
  "lowers a n P f Q \<longleftrightarrow>
     (\<forall>c. lc_inv a c \<and> room n (lc_ir c) \<and> P (lc_ir c) \<longrightarrow>
        (\<exists>x c'. f c = Inr (x, c') \<and> lc_inv a c' \<and> extends_ir n (lc_ir c) (lc_ir c') \<and>
           tops (lc_ir c') = tops (lc_ir c) \<and> Q x (lc_ir c')))"

lemma lowersE:
  assumes "lowers a n P f Q" "lc_inv a c" "room n (lc_ir c)" "P (lc_ir c)"
  obtains x c' where "f c = Inr (x, c')" "lc_inv a c'" "extends_ir n (lc_ir c) (lc_ir c')" "Q x (lc_ir c')"
    "tops (lc_ir c') = tops (lc_ir c)"
  using assms unfolding lowers_def by blast

lemma room_extends: "extends_ir j m m' \<Longrightarrow> room (j + k) m \<Longrightarrow> room k m'"
  by (auto simp: extends_ir_def room_def)

lemma room_less: "room k m \<Longrightarrow> j \<le> k \<Longrightarrow> room j m"
  by (auto simp: room_def)

lemma lowers_bind:
  assumes f: "lowers a j P f Q" and g: "\<And>x. lowers a k (\<lambda>m. P m \<and> Q x m) (g x) R" and "stable_ir P"
  shows "lowers a (j + k) P (bindL f g) R"
  unfolding lowers_def
proof (intro allI impI, elim conjE)
  fix c
  assume c: "lc_inv a c" "room (j + k) (lc_ir c)" "P (lc_ir c)"
  obtain x c1 where x: "f c = Inr (x, c1)" "lc_inv a c1" "extends_ir j (lc_ir c) (lc_ir c1)" "Q x (lc_ir c1)"
    "tops (lc_ir c1) = tops (lc_ir c)"
    using lowersE [OF f c(1) _ c(3)] room_less [OF c(2)] by (metis le_add1)
  have P: "P (lc_ir c1)"
    using assms(3) x(3) c(3) unfolding stable_ir_def by blast
  obtain y c2 where y: "g x c1 = Inr (y, c2)" "lc_inv a c2" "extends_ir k (lc_ir c1) (lc_ir c2)" "R y (lc_ir c2)"
    "tops (lc_ir c2) = tops (lc_ir c1)"
    using lowersE [OF g x(2) room_extends [OF x(3) c(2)]] P x(4) by blast
  show "\<exists>y c'. bindL f g c = Inr (y, c') \<and> lc_inv a c' \<and> extends_ir (j + k) (lc_ir c) (lc_ir c') \<and>
      tops (lc_ir c') = tops (lc_ir c) \<and> R y (lc_ir c')"
    using x y extends_trans [OF x(3) y(3)] by (simp add: bindL_def)
qed

lemma lowers_ret: "(\<And>m. P m \<Longrightarrow> Q x m) \<Longrightarrow> lowers a n P (retL x) Q"
  by (simp add: lowers_def retL_def)

lemma lowers_weaken:
  assumes "lowers a j P f Q" "\<And>m. P' m \<Longrightarrow> P m" "\<And>x m. Q x m \<Longrightarrow> Q' x m" "j \<le> k"
  shows "lowers a k P' f Q'"
  using assms room_less extends_weaken unfolding lowers_def by meson

lemma lowers_frame:
  assumes "lowers a n P f Q" "stable_ir P"
  shows "lowers a n P f (\<lambda>x m. P m \<and> Q x m)"
  using assms unfolding lowers_def stable_ir_def by meson

lemma lowers_then:
  assumes "lowers a n P f Q" "stable_ir P" "\<And>x m. P m \<Longrightarrow> Q x m \<Longrightarrow> R x m"
  shows "lowers a n P f R"
  by (rule lowers_weaken [OF lowers_frame [OF assms(1,2)]]) (simp_all add: assms(3))

lemma keeps_conj [intro!]: "stable_ir P \<Longrightarrow> stable_ir Q \<Longrightarrow> stable_ir (\<lambda>m. P m \<and> Q m)"
  unfolding stable_ir_def by blast

lemma stable_True [simp]: "stable_ir (\<lambda>m. True)"
  by (simp add: stable_ir_def)

subsection \<open>The primitive steps\<close>

lemma lc_inv_ir:
  assumes "lc_inv a c" "extends_ir n (lc_ir c) m" "ir_inv m" "interner_inv (string_store m)"
  shows "lc_inv a (c\<lparr>lc_ir := m\<rparr>)"
  using assms reads_var_keeps [OF assms(2)] unfolding lc_inv_def by auto

lemma key_new_room: "i + 1 < 2 ^ 32 \<Longrightarrow> key_new i = Inr (of_nat (i + 1))"
  using key_new_Inr [of i "of_nat (i + 1)"] by (metis add_lessD1)

lemma lowers_inst:
  assumes "\<not> top_inst x"
  shows "lowers a 1 P (on_ir (add_inst x)) (\<lambda>i m. ir_get m i = Inr x)"
  unfolding lowers_def
proof (intro allI impI, elim conjE)
  fix c
  assume c: "lc_inv a c" "room 1 (lc_ir c)" "P (lc_ir c)"
  let ?n = "length (insts (lc_ir c))"
  let ?m = "(lc_ir c)\<lparr>insts := insts (lc_ir c) @ [x]\<rparr>"
  have n: "?n + 1 < 2 ^ 32"
    using c(2) by (simp add: room_def)
  then have k: "key_new ?n = Inr (of_nat (?n + 1))"
    by (rule key_new_room)
  have ext: "extends_ir 1 (lc_ir c) ?m"
    using assms by (simp add: extends_ir_def resolve_name_def resolve_string_def)
  have "ir_inv ?m" "interner_inv (string_store ?m)"
    using c(1) n by (simp_all add: lc_inv_def ir_inv_def)
  then have "lc_inv a (c\<lparr>lc_ir := ?m\<rparr>)"
    by (rule lc_inv_ir [OF c(1) ext])
  moreover have "ir_get ?m (of_nat (?n + 1)) = Inr x"
    using key_index_of_nat [of ?n] n by (simp add: ir_get_def)
  ultimately show "\<exists>i c'. on_ir (add_inst x) c = Inr (i, c') \<and> lc_inv a c' \<and> extends_ir 1 (lc_ir c) (lc_ir c') \<and> tops (lc_ir c') = tops (lc_ir c) \<and> ir_get (lc_ir c') i = Inr x"
    using k ext assms by (simp add: on_ir_def add_inst_def tops_def)
qed

lemma intern_room:
  assumes "interner_inv s" "length (ivec s) + 1 < 2 ^ 32"
  obtains k s' where "intern n s = Inr (k, s')" "interner_inv s'" "interner_get s' k = Inr n"
    "\<And>j x. interner_get s j = Inr x \<Longrightarrow> interner_get s' j = Inr x" "length (ivec s') \<le> length (ivec s) + 1"
proof -
  have k: "key_new (length (ivec s)) = Inr (of_nat (length (ivec s) + 1))"
    using assms(2) by (rule key_new_room)
  obtain k s' where i: "intern n s = Inr (k, s')" "length (ivec s') \<le> length (ivec s) + 1"
    using k by (cases "imap s n") (auto simp: intern_def)
  show ?thesis
    using that [OF i(1) intern_inv [OF assms(1) i(1)] si.int_get [OF assms(1) i(1)] _ i(2)] si.int_keeps [OF assms(1) i(1)]
    by blast
qed

lemma lowers_name: "lowers a 1 P (on_ir (intern_name s)) (\<lambda>k m. is_name m s k)"
  unfolding lowers_def
proof (intro allI impI, elim conjE)
  fix c
  assume c: "lc_inv a c" "room 1 (lc_ir c)" "P (lc_ir c)"
  have inv: "interner_inv (name_store (lc_ir c))" "length (ivec (name_store (lc_ir c))) + 1 < 2 ^ 32"
    using c by (auto simp: lc_inv_def ir_inv_def room_def)
  obtain k s' where k: "intern s (name_store (lc_ir c)) = Inr (k, s')" "interner_inv s'" "interner_get s' k = Inr s"
    "\<And>j x. interner_get (name_store (lc_ir c)) j = Inr x \<Longrightarrow> interner_get s' j = Inr x"
    "length (ivec s') \<le> length (ivec (name_store (lc_ir c))) + 1"
    using intern_room [OF inv, of s] by metis
  let ?m = "(lc_ir c)\<lparr>name_store := s'\<rparr>"
  have ext: "extends_ir 1 (lc_ir c) ?m"
    using k(4,5) by (simp add: extends_ir_def resolve_name_def resolve_string_def)
  have "lc_inv a (c\<lparr>lc_ir := ?m\<rparr>)"
    by (rule lc_inv_ir [OF c(1) ext]) (use c(1) k(2) in \<open>simp_all add: lc_inv_def ir_inv_def\<close>)
  then show "\<exists>k c'. on_ir (intern_name s) c = Inr (k, c') \<and> lc_inv a c' \<and> extends_ir 1 (lc_ir c) (lc_ir c') \<and> tops (lc_ir c') = tops (lc_ir c) \<and> is_name (lc_ir c') s k"
    using k(1,3) ext by (simp add: on_ir_def intern_name_def is_name_def resolve_name_def tops_def)
qed

lemma lowers_string: "lowers a 1 P (on_ir (intern_string s)) (\<lambda>k m. resolve_string m k = Inr s)"
  unfolding lowers_def
proof (intro allI impI, elim conjE)
  fix c
  assume c: "lc_inv a c" "room 1 (lc_ir c)" "P (lc_ir c)"
  have inv: "interner_inv (string_store (lc_ir c))" "length (ivec (string_store (lc_ir c))) + 1 < 2 ^ 32"
    using c by (auto simp: lc_inv_def room_def)
  obtain k s' where k: "intern s (string_store (lc_ir c)) = Inr (k, s')" "interner_inv s'" "interner_get s' k = Inr s"
    "\<And>j x. interner_get (string_store (lc_ir c)) j = Inr x \<Longrightarrow> interner_get s' j = Inr x"
    "length (ivec s') \<le> length (ivec (string_store (lc_ir c))) + 1"
    using intern_room [OF inv, of s] by metis
  let ?m = "(lc_ir c)\<lparr>string_store := s'\<rparr>"
  have ext: "extends_ir 1 (lc_ir c) ?m"
    using k(4,5) by (simp add: extends_ir_def resolve_name_def resolve_string_def)
  have "lc_inv a (c\<lparr>lc_ir := ?m\<rparr>)"
    by (rule lc_inv_ir [OF c(1) ext]) (use c(1) k(2) in \<open>simp_all add: lc_inv_def ir_inv_def\<close>)
  then show "\<exists>k c'. on_ir (intern_string s) c = Inr (k, c') \<and> lc_inv a c' \<and> extends_ir 1 (lc_ir c) (lc_ir c') \<and> tops (lc_ir c') = tops (lc_ir c) \<and>
      resolve_string (lc_ir c') k = Inr s"
    using k(1,3) ext by (simp add: on_ir_def intern_string_def resolve_string_def tops_def)
qed

lemma lowers_temporal: "lowers a 0 P (add_temporal k) (\<lambda>_ m. k \<in> set (temporal_predicates m))"
  unfolding lowers_def
proof (intro allI impI, elim conjE)
  fix c
  assume c: "lc_inv a c" "room 0 (lc_ir c)" "P (lc_ir c)"
  let ?m = "(lc_ir c)\<lparr>temporal_predicates := List.insert k (temporal_predicates (lc_ir c))\<rparr>"
  have ext: "extends_ir 0 (lc_ir c) ?m"
    by (auto simp: extends_ir_def resolve_name_def resolve_string_def)
  have "lc_inv a (c\<lparr>lc_ir := ?m\<rparr>)"
    by (rule lc_inv_ir [OF c(1) ext]) (use c(1) in \<open>simp_all add: lc_inv_def ir_inv_def\<close>)
  then show "\<exists>x c'. add_temporal k c = Inr (x, c') \<and> lc_inv a c' \<and> extends_ir 0 (lc_ir c) (lc_ir c') \<and> tops (lc_ir c') = tops (lc_ir c) \<and>
      k \<in> set (temporal_predicates (lc_ir c'))"
    using ext by (simp add: add_temporal_def tops_def)
qed

lemma lowers_map:
  assumes "\<And>x. x \<in> set xs \<Longrightarrow> lowers a (sz x) (\<lambda>m. True) (f x) (\<lambda>i m. R m i x)"
    and keep: "\<And>i x n m m'. extends_ir n m m' \<Longrightarrow> R m i x \<Longrightarrow> R m' i x"
  shows "lowers a (sum_list (map sz xs)) (\<lambda>m. True) (mapL f xs) (\<lambda>is m. list_all2 (R m) is xs)"
  using assms(1)
proof (induction xs)
  case Nil
  show ?case by (simp add: lowers_ret)
next
  case (Cons x xs)
  have hd: "lowers a (sz x) (\<lambda>m. True) (f x) (\<lambda>i m. R m i x)"
    by (rule Cons.prems) simp
  have tl: "lowers a (sum_list (map sz xs)) (\<lambda>m. True) (mapL f xs) (\<lambda>is m. list_all2 (R m) is xs)"
    by (rule Cons.IH) (rule Cons.prems, simp)
  have st: "stable_ir (\<lambda>m. R m y x)" for y
    unfolding stable_ir_def using keep by blast
  have "lowers a (sum_list (map sz xs) + 0) (\<lambda>m. True \<and> R m y x) (bindL (mapL f xs) (\<lambda>ys. retL (y # ys)))
      (\<lambda>is m. list_all2 (R m) is (x # xs))" for y
    by (rule lowers_bind [where Q = "\<lambda>is m. list_all2 (R m) is xs"]) (auto intro!: lowers_ret st lowers_weaken [OF tl])
  from lowers_bind [OF hd this] show ?case
    by simp
qed

subsection \<open>The methods\<close>

text \<open>How many entries of the IR a piece of syntax may take.\<close>

fun const_size :: "ast_const \<Rightarrow> nat" where
  "const_size (CsList l) = sum_list (map const_size l) + 1"
| "const_size (CsMap ks vs) = sum_list (map const_size ks) + (sum_list (map const_size vs) + 1)"
| "const_size (CsStruct fs vs) = sum_list (map (\<lambda>_. 1) fs) + (sum_list (map const_size vs) + 1)"
| "const_size (CsName n) = 1 + 1"
| "const_size (CsString s) = 1 + 1"
| "const_size _ = 1"

fun term_size :: "base_term \<Rightarrow> nat" where
  "term_size (BConst c) = const_size c"
| "term_size (BVar v) = 2"
| "term_size (BApp f args) = 1 + (sum_list (map term_size args) + 1)"

definition atom_size :: "atom \<Rightarrow> nat" where
  "atom_size at = 1 + (sum_list (map term_size (a_args at)) + 1)"

fun bound_size :: "temporal_bound \<Rightarrow> nat" where
  "bound_size (BoundVar v) = 2"
| "bound_size _ = 1"

definition temporal_size :: "atom \<Rightarrow> time_interval \<Rightarrow> nat" where
  "temporal_size at iv = 1 + (0 + (sum_list (map term_size (a_args at)) + (bound_size (ti_start iv) + (bound_size (ti_end iv) + 1))))"

fun premise_size :: "ast_term \<Rightarrow> nat" where
  "premise_size (TAtom at) = atom_size at"
| "premise_size (TNegAtom at) = atom_size at + 1"
| "premise_size (TEq l r) = term_size l + (term_size r + 1)"
| "premise_size (TIneq l r) = term_size l + (term_size r + 1)"
| "premise_size (TTemporalAtom at iv) = temporal_size at iv"

lemma stable_keeps [intro!]:
  "stable_ir (\<lambda>m. is_name m s k)"
  "stable_ir (\<lambda>m. reads_const a m i c)"
  "stable_ir (\<lambda>m. reads_term a m i t)"
  "stable_ir (\<lambda>m. reads_atom a m i at)"
  "stable_ir (\<lambda>m. reads_bound a m i b)"
  "stable_ir (\<lambda>m. list_all2 (reads_const a m) is cs)"
  "stable_ir (\<lambda>m. list_all2 (reads_term a m) is ts)"
  "stable_ir (\<lambda>m. list_all2 (reads_atom a m) is ats)"
  "stable_ir (\<lambda>m. list_all2 (\<lambda>k s. is_name m s k) ks ss)"
  "stable_ir (\<lambda>m. k \<in> set (temporal_predicates m))"
  "stable_ir (\<lambda>m. rel_option (\<lambda>k s. is_name m s k) ko so)"
  unfolding stable_ir_def
  by (auto intro: keeps extends_resolve(3) elim!: list.rel_mono_strong option.rel_mono_strong)

lemma lowers_inst_reads:
  assumes "\<not> top_inst x" "stable_ir P" "\<And>i m. P m \<Longrightarrow> ir_get m i = Inr x \<Longrightarrow> Q i m"
  shows "lowers a 1 P (on_ir (add_inst x)) Q"
  using lowers_inst [OF assms(1)] assms(2,3) by (rule lowers_then)

lemma lowers_any: "lowers a n (\<lambda>m. True) f Q \<Longrightarrow> lowers a n P f Q"
  by (erule lowers_weaken) simp_all

lemma lowers_names:
  "lowers a (sum_list (map (\<lambda>_. 1) fs)) (\<lambda>m. True) (mapL (\<lambda>s. on_ir (intern_name s)) fs) (\<lambda>ks m. list_all2 (\<lambda>k s. is_name m s k) ks fs)"
  by (rule lowers_map [where R = "\<lambda>m k s. is_name m s k"]) (rule lowers_name, rule is_name_keeps)

text \<open>The last step of a method adds its instruction.\<close>

lemma lowers_const: "lowers a (const_size c) (\<lambda>m. True) (lower_const a c) (\<lambda>i m. reads_const a m i c)"
proof (induction c)
  case (CsName n)
  show ?case
    unfolding lower_const.simps const_size.simps
    by (rule lowers_bind [OF lowers_name], rule lowers_inst_reads) (auto simp: top_inst_def)
next
  case (CsString s)
  show ?case
    unfolding lower_const.simps const_size.simps
    by (rule lowers_bind [OF lowers_string], rule lowers_inst_reads)
       (auto simp: top_inst_def stable_ir_def intro: extends_resolve)
next
  case (CsList l)
  show ?case
    unfolding lower_const.simps const_size.simps
    by (rule lowers_bind [OF lowers_map [OF CsList reads_const_keeps]], assumption+, rule lowers_inst_reads)
       (auto simp: top_inst_def)
next
  case (CsMap ks vs)
  show ?case
    unfolding lower_const.simps const_size.simps
    by (rule lowers_bind [OF lowers_map [OF CsMap(1) reads_const_keeps]], assumption+,
        rule lowers_bind [OF lowers_any [OF lowers_map [OF CsMap(2) reads_const_keeps]]], assumption+,
        rule lowers_inst_reads) (auto simp: top_inst_def)
next
  case (CsStruct fs vs)
  show ?case
    unfolding lower_const.simps const_size.simps
    by (rule lowers_bind [OF lowers_names],
        rule lowers_bind [OF lowers_any [OF lowers_map [OF CsStruct reads_const_keeps]]], assumption+,
        rule lowers_inst_reads) (auto simp: top_inst_def)
qed (unfold lower_const.simps const_size.simps, (rule lowers_inst_reads; simp add: top_inst_def)+)

lemma lowers_var:
  assumes "v \<noteq> 0 \<Longrightarrow> s = var_name a v"
  shows "lowers a 2 (\<lambda>m. True) (lower_var s v) (\<lambda>i m. reads_var m i s)"
  unfolding lowers_def
proof (intro allI impI, elim conjE)
  fix c
  assume c: "lc_inv a c" "room 2 (lc_ir c)"
  show "\<exists>i c'. lower_var s v c = Inr (i, c') \<and> lc_inv a c' \<and> extends_ir 2 (lc_ir c) (lc_ir c') \<and> tops (lc_ir c') = tops (lc_ir c) \<and> reads_var (lc_ir c') i s"
  proof (cases "map_of (lc_vars c) v")
    case (Some i)
    then have "v \<noteq> 0" "reads_var (lc_ir c) i (var_name a v)"
      using c(1) by (simp_all add: lc_inv_def)
    then show ?thesis
      using Some c(1) assms by (simp add: lower_var_def)
  next
    case None
    have "lowers a (1 + 1) (\<lambda>m. True) (bindL (on_ir (intern_name s)) (\<lambda>name. on_ir (add_inst (IVar name)))) (\<lambda>i m. reads_var m i s)"
      by (rule lowers_bind [OF lowers_name], rule lowers_inst_reads) (auto simp: top_inst_def reads_var_def)
    then obtain i c' where i: "bindL (on_ir (intern_name s)) (\<lambda>name. on_ir (add_inst (IVar name))) c = Inr (i, c')"
      "lc_inv a c'" "extends_ir 2 (lc_ir c) (lc_ir c')" "reads_var (lc_ir c') i s" "tops (lc_ir c') = tops (lc_ir c)"
      using c by (auto elim!: lowersE simp: numeral_2_eq_2)
    let ?c = "if v \<noteq> 0 then c'\<lparr>lc_vars := (v, i) # lc_vars c'\<rparr> else c'"
    have "lower_var s v c = Inr (i, ?c)"
      using None i(1) by (auto simp: lower_var_def bindL_def split: prod.splits)
    moreover have "lc_inv a ?c"
      using i(2,4) assms by (auto simp: lc_inv_def)
    ultimately show ?thesis
      using i(3-5) by (intro exI [of _ i] exI [of _ ?c]) simp
  qed
qed

lemma lowers_base_term: "lowers a (term_size t) (\<lambda>m. True) (lower_base_term a t) (\<lambda>i m. reads_term a m i t)"
proof (induction t)
  case (BConst c)
  show ?case using lowers_const by simp
next
  case (BVar v)
  show ?case using lowers_var [of v "var_name a v" a] by simp
next
  case (BApp f args)
  show ?case
    unfolding lower_base_term.simps term_size.simps
    by (rule lowers_bind [OF lowers_name],
        rule lowers_bind [OF lowers_any [OF lowers_map [OF BApp reads_term_keeps]]], assumption+,
        rule lowers_inst_reads) (auto simp: top_inst_def)
qed

lemmas lowers_terms = lowers_any [OF lowers_map [where R = "reads_term a" and sz = term_size and f = "lower_base_term a" for a,
    OF lowers_base_term reads_term_keeps]]

lemma lowers_atom: "lowers a (atom_size at) (\<lambda>m. True) (lower_atom a at) (\<lambda>i m. reads_atom a m i at)"
  unfolding lower_atom_def atom_size_def
  by (rule lowers_bind [OF lowers_name], rule lowers_bind [OF lowers_terms], assumption+, rule lowers_inst_reads)
     (auto simp: top_inst_def reads_atom_def)

lemma lowers_bound: "lowers a (bound_size b) (\<lambda>m. True) (lower_temporal_bound a b) (\<lambda>i m. reads_bound a m i b)"
proof (cases b)
  case (BoundVar v)
  then show ?thesis
    using lowers_var [of v "unwrap_or (lookup_name a v) ''unknown_var''" a] by (simp add: var_name_def)
qed (simp_all only: lower_temporal_bound.simps bound_size.simps, (rule lowers_inst_reads; simp add: top_inst_def)+)

lemma lowers_temporal_atom:
  "lowers a (temporal_size at iv) (\<lambda>m. True) (lower_temporal_atom a at iv) (\<lambda>i m. reads_temporal a m i at iv)"
  unfolding lower_temporal_atom_def temporal_size_def
  by (rule lowers_bind [OF lowers_name], rule lowers_bind [OF lowers_temporal], rule lowers_bind [OF lowers_terms], assumption+,
      rule lowers_bind [OF lowers_any [OF lowers_bound]], rule lowers_bind [OF lowers_any [OF lowers_bound]],
      rule lowers_inst_reads)
     (auto simp: top_inst_def reads_temporal_def)

lemma lowers_term: "lowers a (premise_size t) (\<lambda>m. True) (lower_term a t) (\<lambda>i m. reads_premise a m i t)"
proof (cases t)
  case (TNegAtom at)
  show ?thesis
    unfolding TNegAtom lower_term.simps premise_size.simps
    by (rule lowers_bind [OF lowers_atom], rule lowers_inst_reads) (auto simp: top_inst_def)
next
  case (TEq l r)
  show ?thesis
    unfolding TEq lower_term.simps premise_size.simps
    by (rule lowers_bind [OF lowers_base_term], rule lowers_bind [OF lowers_any [OF lowers_base_term]], rule lowers_inst_reads)
       (auto simp: top_inst_def)
next
  case (TIneq l r)
  show ?thesis
    unfolding TIneq lower_term.simps premise_size.simps
    by (rule lowers_bind [OF lowers_base_term], rule lowers_bind [OF lowers_any [OF lowers_base_term]], rule lowers_inst_reads)
       (auto simp: top_inst_def)
qed (simp_all add: lowers_atom lowers_temporal_atom)

definition transform_size :: "transform_stmt \<Rightarrow> nat" where
  "transform_size t = 1 + (term_size (ts_app t) + 1)"

lemma lowers_opt_name:
  "lowers a 1 (\<lambda>m. True) (optL (\<lambda>s. on_ir (intern_name s)) so) (\<lambda>ko m. rel_option (\<lambda>k s. is_name m s k) ko so)"
proof (cases so)
  case (Some s)
  have "lowers a (1 + 0) (\<lambda>m. True) (bindL (on_ir (intern_name s)) (\<lambda>z. retL (Some z))) (\<lambda>ko m. rel_option (\<lambda>k s. is_name m s k) ko so)"
    by (rule lowers_bind [OF lowers_name], rule lowers_ret) (simp_all add: Some)
  then show ?thesis by (simp add: optL_def Some)
qed (simp add: optL_def lowers_ret)

lemma lowers_transform: "lowers a (transform_size t) (\<lambda>m. True) (lower_transform a t) (\<lambda>i m. reads_transform a m i t)"
  unfolding lower_transform_def transform_size_def
  by (rule lowers_bind [OF lowers_opt_name], rule lowers_bind [OF lowers_any [OF lowers_base_term]], rule lowers_inst_reads)
     (auto simp: top_inst_def reads_transform_def)

definition head_size :: "clause \<Rightarrow> nat" where
  "head_size cl = (case cl_head_time cl of Some iv \<Rightarrow> temporal_size (cl_head cl) iv | None \<Rightarrow> atom_size (cl_head cl))"

lemma lowers_head: "lowers a (head_size cl) (\<lambda>m. True) (lower_head a cl) (\<lambda>i m. reads_head a m i cl)"
  by (cases "cl_head_time cl") (simp_all add: head_size_def lower_head_def reads_head_def lowers_atom lowers_temporal_atom)

lemma lowers_clear: "lowers a 0 P clear_vars (\<lambda>_ m. True)"
  by (simp add: lowers_def clear_vars_def lc_inv_def)

text \<open>A clause, and a declaration, adds one instruction of its kind.\<close>

lemma bindL_assoc: "bindL (bindL f g) h = bindL f (\<lambda>x. bindL (g x) h)"
proof
  fix c
  show "bindL (bindL f g) h c = bindL f (\<lambda>x. bindL (g x) h) c"
    by (cases "f c") (auto simp: bindL_def)
qed

lemma bindL_ret [simp]: "bindL (retL x) g = g x"
  by (simp add: bindL_def retL_def fun_eq_iff)

definition adds :: "arena \<Rightarrow> nat \<Rightarrow> 'a low \<Rightarrow> (ir \<Rightarrow> inst list \<Rightarrow> bool) \<Rightarrow> bool" where
  "adds a n f R \<longleftrightarrow>
     (\<forall>c. lc_inv a c \<and> room n (lc_ir c) \<longrightarrow>
        (\<exists>x c' ts. f c = Inr (x, c') \<and> lc_inv a c' \<and> extends_ir n (lc_ir c) (lc_ir c') \<and>
           tops (lc_ir c') = tops (lc_ir c) @ ts \<and> R (lc_ir c') ts))"

lemma adds_inst:
  assumes f: "lowers a n (\<lambda>m. True) f Q" and "\<And>x. top_inst (g x)"
    and R: "\<And>k m m' x. extends_ir k m m' \<Longrightarrow> Q x m \<Longrightarrow> R m' [g x]"
  shows "adds a (n + 1) (bindL f (\<lambda>x. on_ir (add_inst (g x)))) R"
  unfolding adds_def
proof (intro allI impI, elim conjE)
  fix c
  assume c: "lc_inv a c" "room (n + 1) (lc_ir c)"
  obtain x c1 where x: "f c = Inr (x, c1)" "lc_inv a c1" "extends_ir n (lc_ir c) (lc_ir c1)" "Q x (lc_ir c1)"
    "tops (lc_ir c1) = tops (lc_ir c)"
    using lowersE [OF f c(1) room_less [OF c(2)]] by auto
  let ?n = "length (insts (lc_ir c1))"
  let ?m = "(lc_ir c1)\<lparr>insts := insts (lc_ir c1) @ [g x]\<rparr>"
  have n: "?n + 1 < 2 ^ 32"
    using room_extends [OF x(3) c(2)] by (simp add: room_def)
  have ext: "extends_ir 1 (lc_ir c1) ?m"
    by (simp add: extends_ir_def resolve_name_def resolve_string_def)
  have "lc_inv a (c1\<lparr>lc_ir := ?m\<rparr>)"
    by (rule lc_inv_ir [OF x(2) ext]) (use x(2) n in \<open>simp_all add: lc_inv_def ir_inv_def\<close>)
  moreover have "tops ?m = tops (lc_ir c) @ [g x]"
    using x(5) assms(2) by (simp add: tops_def)
  ultimately show "\<exists>y c' ts. bindL f (\<lambda>x. on_ir (add_inst (g x))) c = Inr (y, c') \<and> lc_inv a c' \<and>
      extends_ir (n + 1) (lc_ir c) (lc_ir c') \<and> tops (lc_ir c') = tops (lc_ir c) @ ts \<and> R (lc_ir c') ts"
    using x(1) key_new_room [OF n] extends_trans [OF x(3) ext] R [OF ext x(4)]
    by (simp add: bindL_def on_ir_def add_inst_def)
qed

definition clause_size :: "clause \<Rightarrow> nat" where
  "clause_size cl = 0 + (head_size cl + (sum_list (map premise_size (cl_premises cl)) +
     (sum_list (map transform_size (cl_transform cl)) + 0))) + 1"

lemma stable_lists [intro!]:
  "stable_ir (\<lambda>m. reads_head a m i cl)"
  "stable_ir (\<lambda>m. list_all2 (reads_premise a m) is ps)"
  "stable_ir (\<lambda>m. list_all2 (reads_transform a m) is ts)"
  "stable_ir (\<lambda>m. list_all2 (reads_bound_decl a m) is bs)"
  "stable_ir (\<lambda>m. is_temporal_name m s)"
  "stable_ir (\<lambda>m. P \<longrightarrow> is_temporal_name m s)"
  unfolding stable_ir_def by (auto intro: keeps)

lemma clause_adds: "adds a (clause_size cl) (lower_clause a cl) (\<lambda>m ts. list_all2 (reads_rule a m) ts [cl])"
proof -
  let ?Q = "\<lambda>(h, ps, ts) m. reads_rule a m (IRule h ps ts) cl"
  let ?f = "bindL clear_vars (\<lambda>_. bindL (lower_head a cl) (\<lambda>head. bindL (mapL (lower_term a) (cl_premises cl)) (\<lambda>premises.
      bindL (mapL (lower_transform a) (cl_transform cl)) (\<lambda>transform. retL (head, premises, transform)))))"
  have "lowers a (0 + (head_size cl + (sum_list (map premise_size (cl_premises cl)) +
     (sum_list (map transform_size (cl_transform cl)) + 0)))) (\<lambda>m. True) ?f ?Q"
    by (rule lowers_bind [OF lowers_clear], rule lowers_bind [OF lowers_any [OF lowers_head]],
        rule lowers_bind [OF lowers_any [OF lowers_map [OF lowers_term reads_premise_keeps]]], assumption+,
        rule lowers_bind [OF lowers_any [OF lowers_map [OF lowers_transform reads_transform_keeps]]], assumption+,
        rule lowers_ret) (auto simp: reads_rule_def)
  then have "adds a (clause_size cl) (bindL ?f (\<lambda>(h, ps, ts). on_ir (add_inst (IRule h ps ts)))) (\<lambda>m ts. list_all2 (reads_rule a m) ts [cl])"
    unfolding clause_size_def case_prod_beta by (rule adds_inst) (auto simp: top_inst_def intro: reads_rule_keeps)
  then show ?thesis
    by (simp add: lower_clause_def bindL_assoc)
qed

definition bound_decl_size :: "bound_decl \<Rightarrow> nat" where
  "bound_decl_size b = sum_list (map term_size (bd_base_terms b)) + 1"

lemma lowers_bound_decl: "lowers a (bound_decl_size b) (\<lambda>m. True) (lower_bound_decl a b) (\<lambda>i m. reads_bound_decl a m i b)"
  unfolding lower_bound_decl_def bound_decl_size_def
  by (rule lowers_bind [OF lowers_terms], assumption+, rule lowers_inst_reads) (auto simp: top_inst_def reads_bound_decl_def)

definition constraints_size :: "constraints \<Rightarrow> nat" where
  "constraints_size c = sum_list (map atom_size (co_consequences c)) +
     (sum_list (map (\<lambda>alt. sum_list (map atom_size alt)) (co_alternatives c)) + 1)"

lemma stable_alternatives [intro!]: "stable_ir (\<lambda>m. list_all2 (list_all2 (reads_atom a m)) jss tss)"
  "stable_ir (\<lambda>m. rel_option (reads_constraints a m) co c)"
  unfolding stable_ir_def by (auto intro: keeps)

lemmas lowers_atoms = lowers_map [where R = "reads_atom a" and sz = atom_size and f = "lower_atom a" for a, OF lowers_atom reads_atom_keeps]

lemma lowers_constraints: "lowers a (constraints_size c) (\<lambda>m. True) (lower_constraints a c) (\<lambda>i m. reads_constraints a m i c)"
proof -
  have alts: "lowers a (sum_list (map (\<lambda>alt. sum_list (map atom_size alt)) (co_alternatives c))) (\<lambda>m. True)
      (mapL (mapL (lower_atom a)) (co_alternatives c)) (\<lambda>is m. list_all2 (list_all2 (reads_atom a m)) is (co_alternatives c))"
    by (rule lowers_map, rule lowers_atoms, assumption+) (rule reads_atoms_keeps(1))
  show ?thesis
    unfolding lower_constraints_def constraints_size_def
    by (rule lowers_bind [OF lowers_atoms], assumption+, rule lowers_bind [OF lowers_any [OF alts]], rule lowers_inst_reads)
       (auto simp: top_inst_def reads_constraints_def)
qed

definition opt_size :: "('a \<Rightarrow> nat) \<Rightarrow> 'a option \<Rightarrow> nat" where
  "opt_size f x = (case x of None \<Rightarrow> 0 | Some y \<Rightarrow> f y)"

definition decl_size :: "decl \<Rightarrow> nat" where
  "decl_size d = 0 + (1 + (atom_size (de_atom d) + (sum_list (map atom_size (de_descr d)) +
     (sum_list (map bound_decl_size (case de_bounds d of None \<Rightarrow> [] | Some bs \<Rightarrow> bs)) +
      (opt_size constraints_size (de_constraints d) + 0))))) + 1"

lemma lowers_note_temporal:
  "lowers a 1 (\<lambda>m. True) (note_temporal a d) (\<lambda>_ m. de_is_temporal d \<longrightarrow> is_temporal_name m (pred_name a (a_sym (de_atom d))))"
proof (cases "de_is_temporal d")
  case True
  have "lowers a (1 + 0) (\<lambda>m. True) (note_temporal a d) (\<lambda>_ m. is_temporal_name m (pred_name a (a_sym (de_atom d))))"
    unfolding note_temporal_def if_P [OF True]
    by (rule lowers_bind [OF lowers_name], rule lowers_then [OF lowers_temporal])
       (auto simp: is_temporal_name_def)
  then show ?thesis by (simp add: True)
qed (simp add: note_temporal_def lowers_ret)

lemma lowers_opt_constraints:
  "lowers a (opt_size constraints_size co) (\<lambda>m. True) (optL (lower_constraints a) co) (\<lambda>x m. rel_option (reads_constraints a m) x co)"
proof (cases co)
  case (Some c)
  have "lowers a (constraints_size c + 0) (\<lambda>m. True) (bindL (lower_constraints a c) (\<lambda>z. retL (Some z))) (\<lambda>x m. rel_option (reads_constraints a m) x co)"
    by (rule lowers_bind [OF lowers_constraints], rule lowers_ret) (simp_all add: Some)
  then show ?thesis by (simp add: optL_def opt_size_def Some)
qed (simp add: optL_def lowers_ret)

lemma decl_adds: "adds a (decl_size d) (lower_decl a d) (\<lambda>m ts. list_all2 (reads_decl a m) ts [d])"
proof -
  let ?bs = "case de_bounds d of None \<Rightarrow> [] | Some bs \<Rightarrow> bs"
  let ?Q = "\<lambda>(at, ds, bs, co) m. reads_decl a m (IDecl at ds bs co) d"
  let ?f = "bindL clear_vars (\<lambda>_. bindL (note_temporal a d) (\<lambda>_. bindL (lower_atom a (de_atom d)) (\<lambda>atom.
     bindL (mapL (lower_atom a) (de_descr d)) (\<lambda>descr. bindL (mapL (lower_bound_decl a) ?bs) (\<lambda>bounds.
     bindL (optL (lower_constraints a) (de_constraints d)) (\<lambda>co. retL (atom, descr, bounds, co)))))))"
  have bs: "(case de_bounds d of Some bs \<Rightarrow> mapL (lower_bound_decl a) bs | None \<Rightarrow> retL []) = mapL (lower_bound_decl a) ?bs"
    by (cases "de_bounds d") simp_all
  have "lowers a (0 + (1 + (atom_size (de_atom d) + (sum_list (map atom_size (de_descr d)) +
     (sum_list (map bound_decl_size ?bs) + (opt_size constraints_size (de_constraints d) + 0)))))) (\<lambda>m. True) ?f ?Q"
    by (rule lowers_bind [OF lowers_clear], rule lowers_bind [OF lowers_any [OF lowers_note_temporal]],
        rule lowers_bind [OF lowers_any [OF lowers_atom]],
        rule lowers_bind [OF lowers_any [OF lowers_atoms]], assumption+,
        rule lowers_bind [OF lowers_any [OF lowers_map [OF lowers_bound_decl reads_bound_decl_keeps]]], assumption+,
        rule lowers_bind [OF lowers_any [OF lowers_opt_constraints]], rule lowers_ret)
       (auto simp: reads_decl_def simp del: imp_disj_not1)
  then have "adds a (decl_size d) (bindL ?f (\<lambda>(at, ds, bs, co). on_ir (add_inst (IDecl at ds bs co)))) (\<lambda>m ts. list_all2 (reads_decl a m) ts [d])"
    unfolding decl_size_def case_prod_beta by (rule adds_inst) (auto simp: top_inst_def intro: reads_decl_keeps)
  then show ?thesis
    by (simp add: lower_decl_def bindL_assoc bs)
qed

lemma adds_map:
  assumes f: "\<And>x. adds a (sz x) (f x) (\<lambda>m ts. list_all2 (R m) ts [x])"
    and keep: "\<And>k m m' i x. extends_ir k m m' \<Longrightarrow> R m i x \<Longrightarrow> R m' i x"
  shows "adds a (sum_list (map sz xs)) (mapL f xs) (\<lambda>m ts. list_all2 (R m) ts xs)"
proof (induction xs)
  case Nil
  show ?case by (simp add: adds_def retL_def)
next
  case (Cons x xs)
  show ?case
    unfolding adds_def
  proof (intro allI impI, elim conjE)
    fix c
    assume c: "lc_inv a c" "room (sum_list (map sz (x # xs))) (lc_ir c)"
    then have r: "room (sz x) (lc_ir c)" "room (sz x + sum_list (map sz xs)) (lc_ir c)"
      by (auto intro: room_less)
    obtain y c1 t where y: "f x c = Inr (y, c1)" "lc_inv a c1" "extends_ir (sz x) (lc_ir c) (lc_ir c1)"
      "tops (lc_ir c1) = tops (lc_ir c) @ t" "list_all2 (R (lc_ir c1)) t [x]"
      using f [of x] c(1) r(1) unfolding adds_def by blast
    obtain ys c2 ts where ys: "mapL f xs c1 = Inr (ys, c2)" "lc_inv a c2" "extends_ir (sum_list (map sz xs)) (lc_ir c1) (lc_ir c2)"
      "tops (lc_ir c2) = tops (lc_ir c1) @ ts" "list_all2 (R (lc_ir c2)) ts xs"
      using Cons.IH y(2) room_extends [OF y(3) r(2)] unfolding adds_def by blast
    have "list_all2 (R (lc_ir c2)) t [x]"
      using y(5) keep [OF ys(3)] by (rule list.rel_mono_strong)
    then have "list_all2 (R (lc_ir c2)) (t @ ts) (x # xs)"
      using list_all2_appendI [OF _ ys(5)] by fastforce
    then show "\<exists>z c' us. mapL f (x # xs) c = Inr (z, c') \<and> lc_inv a c' \<and> extends_ir (sum_list (map sz (x # xs))) (lc_ir c) (lc_ir c') \<and>
        tops (lc_ir c') = tops (lc_ir c) @ us \<and> list_all2 (R (lc_ir c')) us (x # xs)"
      using y(1,4) ys(1,2,4) extends_trans [OF y(3) ys(3)]
      by (intro exI [of _ "y # ys"] exI [of _ c2] exI [of _ "t @ ts"]) (simp add: bindL_def retL_def)
  qed
qed

definition unit_size :: "ast_unit \<Rightarrow> nat" where
  "unit_size u = sum_list (map decl_size (un_decls u)) + sum_list (map clause_size (un_clauses u))"

lemma unit_lowered:
  assumes "unit_size u < 2 ^ 32"
  shows "\<exists>m ds rs. lower_unit a u = Inr m \<and> ir_inv m \<and> filter top_inst (insts m) = ds @ rs \<and>
    list_all2 (reads_decl a m) ds (un_decls u) \<and> list_all2 (reads_rule a m) rs (un_clauses u)"
proof -
  let ?c = "\<lparr>lc_ir = ir_new, lc_vars = []\<rparr>"
  have D: "adds a (sum_list (map decl_size (un_decls u))) (mapL (lower_decl a) (un_decls u))
      (\<lambda>m ts. list_all2 (reads_decl a m) ts (un_decls u))"
    by (rule adds_map [OF decl_adds]) (rule reads_decl_keeps)
  have E: "adds a (sum_list (map clause_size (un_clauses u))) (mapL (lower_clause a) (un_clauses u))
      (\<lambda>m ts. list_all2 (reads_rule a m) ts (un_clauses u))"
    by (rule adds_map [OF clause_adds]) (rule reads_rule_keeps)
  have c: "lc_inv a ?c"
    using interner_new_inv by (simp add: lc_inv_def ir_inv_def ir_new_def)
  have room: "room (unit_size u) (lc_ir ?c)"
    using assms by (simp add: room_def ir_new_def interner_new_def)
  then have "room (sum_list (map decl_size (un_decls u))) (lc_ir ?c)"
    by (rule room_less) (simp add: unit_size_def)
  then obtain ks c1 ds where d: "mapL (lower_decl a) (un_decls u) ?c = Inr (ks, c1)" "lc_inv a c1"
    "extends_ir (sum_list (map decl_size (un_decls u))) (lc_ir ?c) (lc_ir c1)" "tops (lc_ir c1) = tops (lc_ir ?c) @ ds"
    "list_all2 (reads_decl a (lc_ir c1)) ds (un_decls u)"
    using D c unfolding adds_def by blast
  obtain js c2 rs where r: "mapL (lower_clause a) (un_clauses u) c1 = Inr (js, c2)" "lc_inv a c2"
    "extends_ir (sum_list (map clause_size (un_clauses u))) (lc_ir c1) (lc_ir c2)" "tops (lc_ir c2) = tops (lc_ir c1) @ rs"
    "list_all2 (reads_rule a (lc_ir c2)) rs (un_clauses u)"
    using E d(2) room_extends [OF d(3) room [unfolded unit_size_def]] unfolding adds_def by blast
  have "list_all2 (reads_decl a (lc_ir c2)) ds (un_decls u)"
    using d(5) reads_decl_keeps [OF r(3)] by (rule list.rel_mono_strong)
  moreover have "tops (lc_ir c2) = ds @ rs"
    using d(4) r(4) by (simp add: tops_def ir_new_def)
  ultimately show ?thesis
    using d(1) r(1,2,5) by (auto simp: lower_unit_def bindL_def lc_inv_def tops_def)
qed

text \<open>C37: Lowering is faithful and total.  A unit that fits the 32-bit index space is lowered without a panic; the
  IR is well formed, and its declarations and rules, in order, read back as the declarations and clauses
  of the unit: heads, premises, transforms, nested terms, constants and names, with the two extra columns
  of a temporal atom.\<close>

theorem lowering_faithful:
  assumes "unit_size u < 2 ^ 32"
  shows "\<exists>m ds rs. lower_unit a u = Inr m \<and> ir_inv m \<and> filter top_inst (insts m) = ds @ rs \<and>
    list_all2 (reads_decl a m) ds (un_decls u) \<and> list_all2 (reads_rule a m) rs (un_clauses u)"
  using assms by (rule unit_lowered)

text \<open>The unit \<open>e(1, 2). t(X, Y) :- e(X, Y), X != Y.\<close>\<close>

definition low_arena :: arena where
  "low_arena = \<lparr>ar_interner = \<lparr>ai_map = [(''Y'', 4), (''X'', 3), (''t'', 2), (''e'', 1), (''_'', 0)],
       ai_vec = [''_'', ''e'', ''t'', ''X'', ''Y'']\<rparr>,
     ar_predicates = [\<lparr>sy_name = 1, sy_arity = Some 2\<rparr>, \<lparr>sy_name = 2, sy_arity = Some 2\<rparr>], ar_functions = []\<rparr>"
definition low_unit :: ast_unit where
  "low_unit = \<lparr>un_decls = [], un_clauses = [
     \<lparr>cl_head = \<lparr>a_sym = 0, a_args = [BConst (CsNumber 1), BConst (CsNumber 2)]\<rparr>, cl_head_time = None, cl_premises = [], cl_transform = []\<rparr>,
     \<lparr>cl_head = \<lparr>a_sym = 1, a_args = [BVar 3, BVar 4]\<rparr>, cl_head_time = None,
      cl_premises = [TAtom \<lparr>a_sym = 0, a_args = [BVar 3, BVar 4]\<rparr>, TIneq (BVar 3) (BVar 4)], cl_transform = []\<rparr>]\<rparr>"

theorem lowering_faithful_witness:
  "\<exists>m rs. lower_unit low_arena low_unit = Inr m \<and> filter top_inst (insts m) = rs \<and>
     list_all2 (reads_rule low_arena m) rs (un_clauses low_unit)"
proof -
  have "unit_size low_unit < 2 ^ 32"
    by (simp add: unit_size_def low_unit_def clause_size_def head_size_def atom_size_def)
  from lowering_faithful [OF this, of low_arena] show ?thesis
    by (auto simp: low_unit_def)
qed

end
