(* ===== verification/Stratification_Props.thy ===== *)
theory Stratification_Props
  imports Stratification
begin

text \<open>
  Correctness of stratification.  The graph built from a program has exactly the edges its clauses
  declare; \<open>stratify\<close> always returns, fails exactly when a negative dependency lies on a cycle, and
  otherwise partitions the predicates into the classes of mutual dependency, ordered so that every
  predicate comes after what it depends on.
\<close>

subsection \<open>Edges of a graph\<close>

definition edge :: "dep_graph \<Rightarrow> pred_index \<Rightarrow> pred_index \<Rightarrow> bool option" where
  "edge g s d = map_of (edges_at g s) d"

definition nodes :: "dep_graph \<Rightarrow> pred_index set" where
  "nodes g = fst ` set g"

definition wf_orders :: "hash_orders \<Rightarrow> bool" where
  "wf_orders ho \<longleftrightarrow> (\<forall>ks. mset (ho_rules ho ks) = mset ks \<and> mset (ho_nodes ho ks) = mset ks \<and>
     mset (ho_edges ho ks) = mset ks \<and> mset (ho_set ho ks) = mset ks)"

lemma wf_orders_set [simp]:
  assumes "wf_orders ho"
  shows "set (ho_rules ho ks) = set ks" "set (ho_nodes ho ks) = set ks" "set (ho_edges ho ks) = set ks"
    "set (ho_set ho ks) = set ks"
  using assms unfolding wf_orders_def by (metis set_mset_mset)+

lemma edges_at_update: "edges_at (AList.update s es g) s' = (if s' = s then es else edges_at g s')"
  by (simp add: edges_at_def update_conv')

lemma edge_add_edge:
  "edge (add_edge s d neg g) s' d' =
     (if s' = s \<and> d' = d then Some (neg \<or> edge g s d = Some True) else edge g s' d')"
  by (auto simp: edge_def add_edge_def Let_def edges_at_update update_conv')

lemma edge_init_node [simp]: "edge (init_node s g) = edge g"
  by (intro ext) (auto simp: edge_def init_node_def edges_at_def update_conv')

lemma nodes_update: "nodes (AList.update s es g) = insert s (nodes g)"
  by (simp add: nodes_def dom_update dom_map_of_conv_image_fst [symmetric] update_conv' fun_upd_def)
     (auto simp: dom_def)

lemma nodes_add_edge [simp]: "nodes (add_edge s d neg g) = insert s (nodes g)"
  by (simp add: add_edge_def Let_def nodes_update)

lemma nodes_init_node [simp]: "nodes (init_node s g) = insert s (nodes g)"
proof (cases "map_of g s")
  case (Some es)
  then have "s \<in> nodes g" by (force simp: nodes_def dest: map_of_SomeD)
  then show ?thesis using Some by (auto simp: init_node_def)
qed (simp add: init_node_def nodes_update)

text \<open>All edges of one source, added one after the other.\<close>

lemma edge_add_edges:
  "edge (fold (\<lambda>(d, neg). add_edge s d neg) ds g) s' d' =
     (if s' = s \<and> (\<exists>neg. (d', neg) \<in> set ds) then Some ((d', True) \<in> set ds \<or> edge g s d' = Some True)
      else edge g s' d')"
proof (induction ds arbitrary: g)
  case (Cons p ds)
  obtain d neg where p: "p = (d, neg)" by (cases p)
  show ?case
    using Cons.IH [of "add_edge s d neg g"] by (auto simp: p edge_add_edge)
qed simp

lemma nodes_add_edges [simp]: "nodes (fold (\<lambda>(d, neg). add_edge s d neg) ds g) =
    (if ds = [] then nodes g else insert s (nodes g))"
  by (induction ds arbitrary: g) auto

subsection \<open>The graph of a program\<close>

definition depends :: "program \<Rightarrow> pred_index \<Rightarrow> pred_index \<Rightarrow> bool \<Rightarrow> bool" where
  "depends prog p q neg \<longleftrightarrow>
     (\<exists>c\<in>set (rules_for prog p). \<exists>t\<in>set (cl_premises c). dep_of prog c t = Some (q, neg))"

lemma rule_deps_depends: "(q, neg) \<in> set (rule_deps prog p) \<longleftrightarrow> depends prog p q neg"
proof -
  have "(q, neg) \<in> set (List.map_filter f ts) \<longleftrightarrow> (\<exists>t\<in>set ts. f t = Some (q, neg))"
    for f :: "ast_term \<Rightarrow> (pred_index \<times> bool) option" and ts
    by (induction ts) (auto simp: List.map_filter_def)
  then show ?thesis
    by (simp add: rule_deps_def depends_def)
qed

lemma edge_add_rules:
  "edge (add_rules prog s g) p q = (if p = s \<and> (\<exists>neg. depends prog s q neg)
     then Some (depends prog s q True \<or> edge g s q = Some True) else edge g p q)"
  by (auto simp: add_rules_def edge_add_edges rule_deps_depends)

lemma nodes_add_rules [simp]: "nodes (add_rules prog s g) = insert s (nodes g)"
  by (simp add: add_rules_def)

lemma fold_program_edges:
  "distinct ps \<Longrightarrow> edge (fold (add_rules prog) ps g) p q =
     (if p \<in> set ps \<and> (\<exists>neg. depends prog p q neg)
      then Some (depends prog p q True \<or> edge g p q = Some True) else edge g p q)"
  by (induction ps arbitrary: g) (simp, auto simp: edge_add_rules)

lemma fold_program_nodes: "nodes (fold (add_rules prog) ps g) = set ps \<union> nodes g"
  by (induction ps arbitrary: g) auto

lemma program_edges:
  assumes "wf_orders ho" "distinct (map fst (prog_rules prog))"
  shows "edge (make_dep_graph ho prog) p q =
      (if \<exists>neg. depends prog p q neg then Some (depends prog p q True) else None)"
    and "nodes (make_dep_graph ho prog) = fst ` set (prog_rules prog)"
proof -
  let ?ps = "ho_rules ho (map fst (prog_rules prog))"
  have "mset ?ps = mset (map fst (prog_rules prog))"
    using assms(1) by (simp add: wf_orders_def)
  then have "distinct ?ps" and set: "set ?ps = fst ` set (prog_rules prog)"
    using assms(2) mset_eq_imp_distinct_iff by (blast, metis set_map set_mset_mset)
  note spec = fold_program_edges [OF this(1), of prog "[]"] fold_program_nodes [of prog ?ps "[]"]
  have "p \<in> fst ` set (prog_rules prog)" if "depends prog p q neg" for neg
  proof (rule ccontr)
    assume "p \<notin> fst ` set (prog_rules prog)"
    then show False
      using that by (simp add: depends_def rules_for_def map_of_eq_None_iff [THEN iffD2])
  qed
  then show "edge (make_dep_graph ho prog) p q =
      (if \<exists>neg. depends prog p q neg then Some (depends prog p q True) else None)"
    unfolding make_dep_graph_def spec(1) set by (auto simp: edge_def edges_at_def)
  show "nodes (make_dep_graph ho prog) = fst ` set (prog_rules prog)"
    unfolding make_dep_graph_def spec(2) set by (simp add: nodes_def)
qed

subsection \<open>Adjacency\<close>

definition has_edge :: "dep_graph \<Rightarrow> pred_index \<Rightarrow> pred_index \<Rightarrow> bool" where
  "has_edge g s d \<longleftrightarrow> edge g s d \<noteq> None"

lemma has_edge_simps [simp]:
  "has_edge (init_node n g) s d = has_edge g s d"
  "has_edge (add_edge n e neg g) s d \<longleftrightarrow> n = s \<and> e = d \<or> has_edge g s d"
  "\<not> has_edge [] s d"
  by (auto simp: has_edge_def edge_add_edge) (simp add: edge_def edges_at_def)

lemma set_adj_of:
  "wf_orders ho \<Longrightarrow> d \<in> set (succs (adj_of ho g) s) \<longleftrightarrow> has_edge g s d"
proof -
  assume ho: "wf_orders ho"
  have "map_of (adj_of ho g) s = map_option (\<lambda>es. ho_edges ho (map fst es)) (map_of g s)"
    unfolding adj_of_def by (induction g) auto
  then show ?thesis
    using ho by (auto simp: succs_def has_edge_def edge_def edges_at_def map_of_eq_None_iff split: option.splits)
qed

lemma keys_adj_of [simp]: "fst ` set (adj_of ho g) = nodes g"
  unfolding adj_of_def nodes_def by force

lemma edge_node: "has_edge g s d \<Longrightarrow> s \<in> nodes g"
  by (rule ccontr) (simp add: nodes_def has_edge_def edge_def edges_at_def map_of_eq_None_iff [THEN iffD2])

lemma edge_add_reversed:
  "has_edge (add_reversed g src ds r) d s \<longleftrightarrow> s = src \<and> d \<in> set ds \<or> has_edge r d s"
proof (induction ds arbitrary: r)
  case (Cons d' ds)
  have "add_reversed g src (d' # ds) r =
      add_reversed g src ds (add_edge d' src (the (map_of (edges_at g src) d')) (init_node d' r))"
    by (simp add: add_reversed_def)
  then show ?case
    by (simp add: Cons.IH) blast
qed (simp add: add_reversed_def)

lemma edge_transpose:
  assumes "wf_orders ho"
  shows "has_edge (transpose_graph ho g) d s \<longleftrightarrow> has_edge g s d"
proof -
  have fold: "has_edge (fold (\<lambda>src. add_reversed g src (ho_edges ho (map fst (edges_at g src)))) ns r) d s \<longleftrightarrow>
      s \<in> set ns \<and> has_edge g s d \<or> has_edge r d s" for ns r
  proof (induction ns arbitrary: r)
    case (Cons n ns)
    have "d \<in> set (ho_edges ho (map fst (edges_at g n))) \<longleftrightarrow> has_edge g n d"
      using assms by (simp add: has_edge_def edge_def map_of_eq_None_iff)
    then show ?case
      unfolding fold_simps Cons.IH edge_add_reversed by auto
  qed simp
  have "set (ho_nodes ho (map fst g)) = nodes g"
    using assms by (simp add: nodes_def)
  then show ?thesis
    unfolding transpose_graph_def fold using edge_node [of g s d] by auto
qed

lemma edges_of_transpose:
  "wf_orders ho \<Longrightarrow> edges_of (adj_of ho (transpose_graph ho g)) = (edges_of (adj_of ho g))\<inverse>"
  by (auto simp: edges_of_def set_adj_of edge_transpose)

lemma sccs_spec:
  assumes "wf_orders ho"
  shows "distinct (concat (sccs ho g))" "\<forall>c\<in>set (sccs ho g). is_class (adj_of ho g) c"
    "set (concat (sccs ho g)) = nodes g \<union> {d. \<exists>s. has_edge g s d}"
proof -
  let ?ns = "ho_nodes ho (map fst g)"
  have ns: "set ?ns = nodes g"
    using assms by (simp add: nodes_def)
  have "fst ` set (adj_of ho g) \<subseteq> set ?ns"
    by (simp add: ns)
  note spec = sccs_are_classes [OF edges_of_transpose [OF assms] this refl refl]
  show "distinct (concat (sccs ho g))" "\<forall>c\<in>set (sccs ho g). is_class (adj_of ho g) c"
    using spec(1,2) by (simp_all add: sccs_def Let_def)
  have "v \<in> nodes g \<union> {d. \<exists>s. has_edge g s d}" if "(n, v) \<in> inside (adj_of ho g) UNIV" "n \<in> nodes g" for n v
    using that by (induction rule: inside_induct) (auto simp: set_adj_of [OF assms])
  moreover have "d \<in> reach (adj_of ho g) UNIV ?ns" if "has_edge g s d" for s d
  proof -
    have "s \<in> set ?ns" "(s, d) \<in> inside (adj_of ho g) UNIV"
      using edge_node [OF that] ns that set_adj_of [OF assms] by (auto intro!: inside_edge)
    then show ?thesis by (auto simp: reach_def)
  qed
  ultimately have "reach (adj_of ho g) UNIV ?ns = nodes g \<union> {d. \<exists>s. has_edge g s d}"
    by (auto simp: reach_def ns) (metis inside_refl)
  then show "set (concat (sccs ho g)) = nodes g \<union> {d. \<exists>s. has_edge g s d}"
    using spec(3) by (simp add: sccs_def Let_def)
qed

subsection \<open>The check\<close>

lemma fold_stratum_map: "fold (\<lambda>p m. m(p \<mapsto> i)) c m = (\<lambda>p. if p \<in> set c then Some i else m p)"
  by (induction c arbitrary: m) auto

lemma position_where_None: "position_where P xs = None \<longleftrightarrow> (\<forall>x\<in>set xs. \<not> P x)"
  by (induction xs) auto

lemma position_where_Some: "position_where P xs = Some k \<Longrightarrow> k < length xs \<and> P (xs ! k)"
  by (induction xs arbitrary: k) (auto split: if_splits)

lemma concat_disjoint:
  assumes "distinct (concat cs)" "i < length cs" "j < length cs" "p \<in> set (cs ! i)" "p \<in> set (cs ! j)"
  shows "i = j"
  using assms
proof (induction cs arbitrary: i j)
  case (Cons c cs)
  have out: "p \<notin> set c" if "k < length cs" "p \<in> set (cs ! k)" for k
  proof -
    have "p \<in> set (concat cs)"
      using that nth_mem by fastforce
    then show ?thesis using Cons.prems(1) by auto
  qed
  have dist: "distinct (concat cs)"
    using Cons.prems(1) by simp
  show ?case
  proof (cases i)
    case 0
    then show ?thesis using Cons.prems(3-5) out by (cases j) auto
  next
    case (Suc i')
    then show ?thesis using Cons.prems(2-5) out Cons.IH [OF dist] by (cases j) auto
  qed
qed simp

lemma position_in:
  assumes "distinct (concat cs)" "k < length cs" "p \<in> set (cs ! k)"
  shows "position_where (\<lambda>c. p \<in> set c) cs = Some k"
proof (cases "position_where (\<lambda>c. p \<in> set c) cs")
  case None
  then show ?thesis
    using assms(2,3) by (auto simp: position_where_None)
next
  case (Some j)
  then show ?thesis
    using concat_disjoint [OF assms(1) _ assms(2) _ assms(3)] position_where_Some [OF Some] by blast
qed

definition stratum_of :: "pred_index list list \<Rightarrow> nat \<Rightarrow> stratum_map \<Rightarrow> stratum_map" where
  "stratum_of cs i m = (\<lambda>p. case position_where (\<lambda>c. p \<in> set c) cs of Some k \<Rightarrow> Some (i + k) | None \<Rightarrow> m p)"

definition negative_inside :: "dep_graph \<Rightarrow> pred_index list \<Rightarrow> bool" where
  "negative_inside g c \<longleftrightarrow> (\<exists>p\<in>set c. \<exists>d\<in>set c. (d, True) \<in> set (edges_at g p))"

lemma check_strata_spec:
  assumes "distinct (concat cs)" "\<And>p k. m p = Some k \<Longrightarrow> k < i" "\<And>p. p \<in> set (concat cs) \<Longrightarrow> m p = None"
  shows "check_strata g i cs m =
    (if \<exists>c\<in>set cs. negative_inside g c then Inl (Anyhow ''program cannot be stratified'')
     else Inr (stratum_of cs i m))"
  using assms
proof (induction cs arbitrary: i m)
  case (Cons c cs)
  let ?m = "\<lambda>p. if p \<in> set c then Some i else m p"
  have same: "?m d = Some i \<longleftrightarrow> d \<in> set c" for d
    using Cons.prems(2) [of d i] by auto
  have neg: "(\<exists>p\<in>set c. \<exists>(d, neg)\<in>set (edges_at g p). neg \<and> ?m d = Some i) \<longleftrightarrow> negative_inside g c"
    unfolding negative_inside_def same by force
  have "stratum_of cs (Suc i) ?m = stratum_of (c # cs) i m"
    using Cons.prems(1) position_where_Some [of _ cs]
    by (intro ext) (fastforce simp: stratum_of_def split: option.splits)
  moreover have "check_strata g (Suc i) cs ?m =
    (if \<exists>c\<in>set cs. negative_inside g c then Inl (Anyhow ''program cannot be stratified'')
     else Inr (stratum_of cs (Suc i) ?m))"
    by (rule Cons.IH) (use Cons.prems in \<open>auto split: if_splits dest: less_SucI\<close>)
  ultimately show ?case
    by (simp only: check_strata.simps Let_def fold_stratum_map neg) auto
qed (simp add: stratum_of_def)

subsection \<open>The order of the strata\<close>

lemma fill_permutation_spec:
  assumes "distinct olds" "\<forall>old\<in>set olds. old < length perm"
  shows "\<exists>perm'. fill_permutation olds i perm = Inr perm' \<and> length perm' = length perm \<and>
    (\<forall>k < length olds. perm' ! (olds ! k) = i + k) \<and> (\<forall>j. j \<notin> set olds \<longrightarrow> perm' ! j = perm ! j)"
  using assms
proof (induction olds arbitrary: i perm)
  case (Cons old olds)
  obtain perm' where p: "fill_permutation olds (Suc i) (perm[old := i]) = Inr perm'"
    "length perm' = length perm" "\<forall>k < length olds. perm' ! (olds ! k) = Suc i + k"
    "\<forall>j. j \<notin> set olds \<longrightarrow> perm' ! j = perm[old := i] ! j"
    using Cons.IH [of "perm[old := i]" "Suc i"] Cons.prems by auto
  have "perm' ! ((old # olds) ! k) = i + k" if "k < length (old # olds)" for k
    using that p(3,4) Cons.prems by (cases k) auto
  moreover have "perm' ! j = perm ! j" if "j \<notin> set (old # olds)" for j
    using that p(4) by (auto simp: nth_list_update)
  ultimately show ?case
    using p(1,2) Cons.prems(2) by auto
qed simp

lemma inverse_is_perm:
  assumes "length perm = n" "length olds = n" "set olds = {0..<n}" "\<forall>k < n. perm ! (olds ! k) = k"
  shows "is_perm perm n"
proof -
  have "set perm = {0..<n}"
  proof (intro set_eqI iffI)
    fix k
    assume "k \<in> set perm"
    then obtain j where j: "j < n" "k = perm ! j"
      using assms(1) by (auto simp: in_set_conv_nth)
    then obtain l where "l < n" "j = olds ! l"
      using assms(2,3) by (metis atLeastLessThan_iff in_set_conv_nth zero_le)
    then show "k \<in> {0..<n}" using j assms(4) by simp
  next
    fix k
    assume k: "k \<in> {0..<n}"
    then have "olds ! k \<in> {0..<n}"
      using assms(2,3) nth_mem by fastforce
    then show "k \<in> set perm"
      using assms(1,4) k by (auto simp: in_set_conv_nth)
  qed
  moreover from this have "distinct perm"
    using assms(1) by (intro card_distinct) simp
  ultimately show ?thesis
    using assms(1) by (simp add: is_perm_def)
qed

lemma succs_stratum_adj:
  assumes "wf_orders ho"
  shows "j \<in> set (succs (stratum_adj ho g cs m) i) \<longleftrightarrow>
    i < length cs \<and> (\<exists>p\<in>set (cs ! i). \<exists>q. has_edge g p q \<and> m q = Some j)"
proof -
  have "map_of (stratum_adj ho g cs m) i = (if i < length cs then Some
      (concat (map (\<lambda>p. List.map_filter m (ho_edges ho (map fst (edges_at g p)))) (ho_set ho (cs ! i)))) else None)"
    unfolding stratum_adj_def by (simp add: map_of_map_restrict)
  moreover have "j \<in> set (List.map_filter m qs) \<longleftrightarrow> (\<exists>q\<in>set qs. m q = Some j)" for qs
    by (induction qs) (auto simp: List.map_filter_def)
  moreover have "q \<in> set (ho_edges ho (map fst (edges_at g p))) \<longleftrightarrow> has_edge g p q" for p q
    using assms by (simp add: has_edge_def edge_def map_of_eq_None_iff)
  moreover have "set (ho_set ho (cs ! i)) = set (cs ! i)"
    using assms by simp
  ultimately show ?thesis
    by (simp add: succs_def Bex_def)
qed

lemma sort_result_returns:
  assumes ho: "wf_orders ho" and m: "\<And>q k. m q = Some k \<Longrightarrow> k < length cs"
  shows "\<exists>m' strata olds. sort_result ho g cs m = Some (Inr (strata, m')) \<and>
    olds = snd (walk (stratum_adj ho g cs m) {} [0..<length cs]) \<and>
    distinct olds \<and> set olds = {0..<length cs} \<and> strata = map ((!) cs) olds"
proof -
  let ?n = "length cs" and ?adj = "stratum_adj ho g cs m"
  let ?olds = "snd (walk ?adj {} [0..<?n])"
  have "v < ?n" if "(n, v) \<in> inside ?adj UNIV" "n < ?n" for n v
    using that by (induction rule: inside_induct) (auto simp: succs_stratum_adj [OF ho] m)
  then have set: "set ?olds = {0..<?n}"
    unfolding walk_sets(2) reach_def
    by (auto intro!: exI [where P = "\<lambda>k. k < length cs \<and> (k, _) \<in> inside _ UNIV"] conjI inside_refl simp: Bex_def)
  have dist: "distinct ?olds" by (rule walk_distinct)
  have len: "length ?olds = ?n"
    using distinct_card [OF dist] set by simp
  obtain perm where p: "fill_permutation ?olds 0 (replicate ?n 0) = Inr perm" "length perm = ?n"
    "\<forall>k < ?n. perm ! (?olds ! k) = k"
    using fill_permutation_spec [OF dist, of "replicate ?n 0" 0] set len by auto
  have "is_perm perm ?n"
    by (rule inverse_is_perm [OF p(2) len set p(3)])
  then obtain strata where s: "apply_permutation_cycle_rotate [] cs perm = Some (Inr strata)"
    "length strata = ?n" "\<forall>j < ?n. strata ! (perm ! j) = cs ! j"
    using cycle_rotate_spec [of perm cs "[]"] by blast
  have "strata = map ((!) cs) ?olds"
  proof (rule nth_equalityI)
    fix k
    assume k: "k < length strata"
    then have "?olds ! k < ?n"
      using set len s(2) nth_mem [of k ?olds] by auto
    then show "strata ! k = map ((!) cs) ?olds ! k"
      using s(3) p(3) k s(2) len by force
  qed (simp add: s(2) len)
  then show ?thesis
    using p(1) s(1) dist set len by (auto simp: sort_result_def Let_def)
qed

subsection \<open>Stratification of a program\<close>

definition dep_rel :: "program \<Rightarrow> (pred_index \<times> pred_index) set" where
  "dep_rel prog = {(p, q). \<exists>neg. depends prog p q neg}"

definition same_stratum :: "program \<Rightarrow> pred_index \<Rightarrow> pred_index \<Rightarrow> bool" where
  "same_stratum prog p q \<longleftrightarrow> (p, q) \<in> (dep_rel prog)\<^sup>* \<and> (q, p) \<in> (dep_rel prog)\<^sup>*"

lemma distinct_edges_at:
  "distinct (map fst (edges_at g s)) \<Longrightarrow> distinct (map fst (edges_at (add_edge p d neg g) s))"
  "distinct (map fst (edges_at g s)) \<Longrightarrow> distinct (map fst (edges_at (init_node p g) s))"
proof -
  show "distinct (map fst (edges_at (add_edge p d neg g) s))" if "distinct (map fst (edges_at g s))"
    using that by (auto simp: add_edge_def Let_def edges_at_update distinct_update)
  show "distinct (map fst (edges_at (init_node p g) s))" if "distinct (map fst (edges_at g s))"
    using that by (simp add: init_node_def edges_at_update)
qed

lemma distinct_edges_program: "distinct (map fst (edges_at (make_dep_graph ho prog) s))"
proof -
  have edges: "distinct (map fst (edges_at g s)) \<Longrightarrow>
      distinct (map fst (edges_at (fold (\<lambda>(d, neg). add_edge p d neg) ds g) s))" for p ds g
    by (induction ds arbitrary: g) (auto simp: distinct_edges_at)
  have "distinct (map fst (edges_at g s)) \<Longrightarrow> distinct (map fst (edges_at (fold (add_rules prog) ps g) s))" for ps g
    by (induction ps arbitrary: g) (auto simp: add_rules_def edges distinct_edges_at)
  then show ?thesis
    by (simp add: make_dep_graph_def edges_at_def)
qed

lemma program_adj:
  assumes "wf_orders ho" "distinct (map fst (prog_rules prog))"
  shows "has_edge (make_dep_graph ho prog) p q \<longleftrightarrow> (p, q) \<in> dep_rel prog"
    and "(p, q) \<in> inside (adj_of ho (make_dep_graph ho prog)) UNIV \<longleftrightarrow> (p, q) \<in> (dep_rel prog)\<^sup>*"
    and "(q, True) \<in> set (edges_at (make_dep_graph ho prog) p) \<longleftrightarrow> depends prog p q True"
proof -
  show edge: "has_edge (make_dep_graph ho prog) p q \<longleftrightarrow> (p, q) \<in> dep_rel prog" for p q
    by (simp add: has_edge_def dep_rel_def program_edges(1) [OF assms])
  have "edges_of (adj_of ho (make_dep_graph ho prog)) = dep_rel prog"
    by (auto simp: edges_of_def set_adj_of [OF assms(1)] edge)
  then show "(p, q) \<in> inside (adj_of ho (make_dep_graph ho prog)) UNIV \<longleftrightarrow> (p, q) \<in> (dep_rel prog)\<^sup>*"
    by (simp add: inside_def)
  have "(q, True) \<in> set (edges_at (make_dep_graph ho prog) p) \<longleftrightarrow> edge (make_dep_graph ho prog) p q = Some True"
    unfolding edge_def using map_of_eq_Some_iff [OF distinct_edges_program] by metis
  then show "(q, True) \<in> set (edges_at (make_dep_graph ho prog) p) \<longleftrightarrow> depends prog p q True"
    by (auto simp: program_edges(1) [OF assms])
qed

text \<open>A list of the classes of mutual dependency.\<close>

definition classes :: "program \<Rightarrow> pred_index list list \<Rightarrow> bool" where
  "classes prog cs \<longleftrightarrow> distinct (concat cs) \<and> (\<forall>c\<in>set cs. c \<noteq> [] \<and> (\<forall>p\<in>set c. \<forall>q. q \<in> set c \<longleftrightarrow> same_stratum prog p q)) \<and>
     set (concat cs) = fst ` set (prog_rules prog) \<union> Range (dep_rel prog)"

lemma classesD:
  assumes "classes prog cs" "i < length cs" "p \<in> set (cs ! i)"
  shows "q \<in> set (cs ! i) \<longleftrightarrow> same_stratum prog p q"
  using assms nth_mem [OF assms(2)] unfolding classes_def by blast

lemma sccs_classes:
  assumes "wf_orders ho" "distinct (map fst (prog_rules prog))"
  shows "classes prog (sccs ho (make_dep_graph ho prog))"
proof -
  let ?g = "make_dep_graph ho prog"
  note adj = program_adj [OF assms]
  note spec = sccs_spec [OF assms(1), of ?g]
  have mut: "mutual (adj_of ho ?g) p q \<longleftrightarrow> same_stratum prog p q" for p q
    by (simp add: mutual_def same_stratum_def adj(2))
  have "c \<noteq> [] \<and> (\<forall>p\<in>set c. \<forall>q. q \<in> set c \<longleftrightarrow> same_stratum prog p q)" if "c \<in> set (sccs ho ?g)" for c
  proof -
    have "is_class (adj_of ho ?g) c"
      using spec(2) that by blast
    then obtain t where c: "set c = {u. mutual (adj_of ho ?g) u t}"
      unfolding is_class_def ..
    then have "t \<in> set c" by simp
    moreover have "q \<in> set c \<longleftrightarrow> same_stratum prog p q" if "p \<in> set c" for p q
    proof -
      have pt: "mutual (adj_of ho ?g) p t" using that c by simp
      show ?thesis
        using mutual_trans [OF pt, of q] mutual_sym [of "adj_of ho ?g" q t]
          mutual_trans [OF mutual_sym [of _ p q] pt] by (auto simp: c mut [symmetric])
    qed
    ultimately show ?thesis by (cases c) auto
  qed
  moreover have "set (concat (sccs ho ?g)) = fst ` set (prog_rules prog) \<union> Range (dep_rel prog)"
    unfolding spec(3) by (auto simp: program_edges(2) [OF assms] adj(1))
  ultimately show ?thesis
    using spec(1) unfolding classes_def by blast
qed

lemma negative_iff:
  assumes "wf_orders ho" "distinct (map fst (prog_rules prog))" "classes prog cs"
  shows "(\<exists>c\<in>set cs. negative_inside (make_dep_graph ho prog) c) \<longleftrightarrow>
    (\<exists>p q. depends prog p q True \<and> (q, p) \<in> (dep_rel prog)\<^sup>*)"
proof
  assume "\<exists>c\<in>set cs. negative_inside (make_dep_graph ho prog) c"
  then obtain c p q where c: "c \<in> set cs" "p \<in> set c" "q \<in> set c" "depends prog p q True"
    by (auto simp: negative_inside_def program_adj(3) [OF assms(1,2)])
  then have "same_stratum prog p q"
    using assms(3) unfolding classes_def by blast
  then show "\<exists>p q. depends prog p q True \<and> (q, p) \<in> (dep_rel prog)\<^sup>*"
    using c(4) by (auto simp: same_stratum_def)
next
  assume "\<exists>p q. depends prog p q True \<and> (q, p) \<in> (dep_rel prog)\<^sup>*"
  then obtain p q where pq: "depends prog p q True" "(q, p) \<in> (dep_rel prog)\<^sup>*"
    by blast
  then have step: "(p, q) \<in> dep_rel prog"
    by (auto simp: dep_rel_def)
  then have same: "same_stratum prog q p"
    using pq(2) by (auto simp: same_stratum_def)
  have "q \<in> set (concat cs)"
    using assms(3) step unfolding classes_def by blast
  then obtain c where c: "c \<in> set cs" "q \<in> set c" by auto
  then have "p \<in> set c"
    using assms(3) same unfolding classes_def by blast
  then show "\<exists>c\<in>set cs. negative_inside (make_dep_graph ho prog) c"
    using c pq(1) by (auto simp: negative_inside_def program_adj(3) [OF assms(1,2)])
qed

subsection \<open>Dependencies come first\<close>

lemma stratum_of_Some:
  "stratum_of cs 0 Map.empty q = Some k \<Longrightarrow> k < length cs \<and> q \<in> set (cs ! k)"
  using position_where_Some [of "\<lambda>c. q \<in> set c" cs k] by (auto simp: stratum_of_def split: option.splits)

lemma stratum_of_in:
  "distinct (concat cs) \<Longrightarrow> k < length cs \<Longrightarrow> q \<in> set (cs ! k) \<Longrightarrow> stratum_of cs 0 Map.empty q = Some k"
  by (simp add: stratum_of_def position_in)

lemma stratum_paths:
  assumes ho: "wf_orders ho" "distinct (map fst (prog_rules prog))" and cs: "classes prog cs"
    and path: "(i, j) \<in> inside (stratum_adj ho (make_dep_graph ho prog) cs (stratum_of cs 0 Map.empty)) UNIV"
    and i: "i < length cs"
  shows "j < length cs \<and> (\<forall>p\<in>set (cs ! i). \<forall>q\<in>set (cs ! j). (p, q) \<in> (dep_rel prog)\<^sup>*)"
  using path
proof (induction rule: inside_induct)
  case refl
  then show ?case
    using i classesD [OF cs i] by (auto simp: same_stratum_def)
next
  case (step k l)
  then obtain p' q' where pq: "p' \<in> set (cs ! k)" "(p', q') \<in> dep_rel prog" "l < length cs" "q' \<in> set (cs ! l)"
    using stratum_of_Some by (auto simp: succs_stratum_adj [OF ho(1)] program_adj(1) [OF ho])
  have "(p, q) \<in> (dep_rel prog)\<^sup>*" if "p \<in> set (cs ! i)" "q \<in> set (cs ! l)" for p q
  proof -
    have "(p, p') \<in> (dep_rel prog)\<^sup>*"
      using step(5) that(1) pq(1) by blast
    moreover have "(q', q) \<in> (dep_rel prog)\<^sup>*"
      using classesD [OF cs pq(3,4)] that(2) by (auto simp: same_stratum_def)
    ultimately show ?thesis
      using pq(2) by (meson rtrancl.rtrancl_into_rtrancl rtrancl_trans)
  qed
  then show ?case using pq(3) by blast
qed

lemma order_of_strata:
  assumes ho: "wf_orders ho" "distinct (map fst (prog_rules prog))" and cs: "classes prog cs"
    and olds: "olds = snd (walk (stratum_adj ho (make_dep_graph ho prog) cs (stratum_of cs 0 Map.empty)) {} [0..<length cs])"
    and perm: "distinct olds" "set olds = {0..<length cs}"
    and ab: "a < length olds" "b < length olds" "p \<in> set (cs ! (olds ! a))" "q \<in> set (cs ! (olds ! b))"
    and dep: "(p, q) \<in> dep_rel prog"
  shows "b \<le> a"
proof -
  let ?adj = "stratum_adj ho (make_dep_graph ho prog) cs (stratum_of cs 0 Map.empty)"
  have lt: "olds ! k < length cs" if "k < length olds" for k
    using perm(2) nth_mem [OF that] by auto
  have dist: "distinct (concat cs)"
    using cs by (simp add: classes_def)
  have "olds ! b \<in> set (succs ?adj (olds ! a))"
    unfolding succs_stratum_adj [OF ho(1)] program_adj(1) [OF ho]
    using ab dep lt stratum_of_in [OF dist, of "olds ! b" q] by blast
  then have "(olds ! a, olds ! b) \<in> inside ?adj UNIV"
    by (simp add: inside_edge)
  moreover have "left_after ?adj UNIV olds"
    using walk_left_after [of ?adj "{}" "[0..<length cs]"] olds by simp
  ultimately obtain z where z: "z \<in> set (drop b olds)" "(olds ! a, z) \<in> inside ?adj UNIV" "(z, olds ! a) \<in> inside ?adj UNIV"
    using left_afterD [of ?adj UNIV olds "take b olds" "olds ! b" "drop (Suc b) olds" "olds ! a"] ab(1,2)
    by (auto simp: id_take_nth_drop [symmetric] Cons_nth_drop_Suc [symmetric])
  have zn: "z < length cs"
    using stratum_paths [OF ho cs z(2) lt [OF ab(1)]] by blast
  have "same_stratum prog p' q'" if "p' \<in> set (cs ! (olds ! a))" "q' \<in> set (cs ! z)" for p' q'
    using stratum_paths [OF ho cs z(2) lt [OF ab(1)]] stratum_paths [OF ho cs z(3) zn] that
    by (auto simp: same_stratum_def)
  moreover have "cs ! z \<noteq> []"
    using cs nth_mem [OF zn] by (auto simp: classes_def)
  then obtain q' where "q' \<in> set (cs ! z)"
    using hd_in_set by blast
  ultimately have "q' \<in> set (cs ! (olds ! a))"
    using ab(3) classesD [OF cs lt [OF ab(1)] ab(3)] by blast
  then have "z = olds ! a"
    using concat_disjoint [OF dist zn lt [OF ab(1)] \<open>q' \<in> set (cs ! z)\<close>] by blast
  moreover obtain c where "c < length olds - b" "z = olds ! (b + c)"
    using z(1) by (auto simp: in_set_conv_nth add.commute)
  ultimately show ?thesis
    using nth_eq_iff_index_eq [OF perm(1), of "b + c" a] ab(1) by simp
qed

lemma concat_permuted:
  assumes "distinct olds" "set olds = {0..<length cs}"
  shows "mset (concat (map ((!) cs) olds)) = mset (concat cs)"
proof -
  have "mset olds = mset [0..<length cs]"
    using assms set_eq_iff_mset_eq_distinct [of olds "[0..<length cs]"] by simp
  then have "mset (map ((!) cs) olds) = mset (map ((!) cs) [0..<length cs])"
    by (metis mset_map)
  then have "mset (map mset (map ((!) cs) olds)) = mset (map mset cs)"
    by (metis mset_map map_nth)
  then show ?thesis
    unfolding mset_concat by (metis sum_mset_sum_list)
qed

text \<open>The whole specification of \<open>stratify\<close>.\<close>

lemma stratify_spec:
  assumes "wf_orders ho" "distinct (map fst (prog_rules prog))"
  shows "if \<exists>p q. depends prog p q True \<and> (q, p) \<in> (dep_rel prog)\<^sup>*
    then stratify ho prog = Some (Inl (Anyhow ''program cannot be stratified''))
    else \<exists>cs. stratify ho prog = Some (Inr \<lparr>sp_program = prog, sp_strata = cs\<rparr>) \<and>
      distinct (concat cs) \<and> set (concat cs) = fst ` set (prog_rules prog) \<union> Range (dep_rel prog) \<and>
      (\<forall>i j p q. i < length cs \<longrightarrow> j < length cs \<longrightarrow> p \<in> set (cs ! i) \<longrightarrow> q \<in> set (cs ! j) \<longrightarrow>
        (i = j \<longleftrightarrow> same_stratum prog p q) \<and> ((p, q) \<in> dep_rel prog \<longrightarrow> j \<le> i) \<and>
        (depends prog p q True \<longrightarrow> j < i))"
proof -
  let ?g = "make_dep_graph ho prog" and ?cs = "sccs ho (make_dep_graph ho prog)"
  note cl = sccs_classes [OF assms]
  have dist: "distinct (concat ?cs)" and un: "set (concat ?cs) = fst ` set (prog_rules prog) \<union> Range (dep_rel prog)"
    using cl by (simp_all add: classes_def)
  note check = check_strata_spec [OF dist, of Map.empty 0 ?g, unfolded negative_iff [OF assms cl]]
  show ?thesis
  proof (cases "\<exists>p q. depends prog p q True \<and> (q, p) \<in> (dep_rel prog)\<^sup>*")
    case True
    then show ?thesis using check by (simp add: stratify_def Let_def)
  next
    case False
    let ?m = "stratum_of ?cs 0 Map.empty"
    have "\<And>q k. ?m q = Some k \<Longrightarrow> k < length ?cs"
      using stratum_of_Some by blast
    then obtain m' olds where srt: "sort_result ho ?g ?cs ?m = Some (Inr (map ((!) ?cs) olds, m'))"
      "olds = snd (walk (stratum_adj ho ?g ?cs ?m) {} [0..<length ?cs])" "distinct olds" "set olds = {0..<length ?cs}"
      using sort_result_returns [OF assms(1), of ?m ?cs ?g] by blast
    let ?new = "map ((!) ?cs) olds"
    have ok: "(i = j \<longleftrightarrow> same_stratum prog p q) \<and> ((p, q) \<in> dep_rel prog \<longrightarrow> j \<le> i) \<and>
        (depends prog p q True \<longrightarrow> j < i)"
      if ij: "i < length ?new" "j < length ?new" "p \<in> set (?new ! i)" "q \<in> set (?new ! j)" for i j p q
    proof -
      have o: "i < length olds" "j < length olds" "p \<in> set (?cs ! (olds ! i))" "q \<in> set (?cs ! (olds ! j))"
        "olds ! i < length ?cs" "olds ! j < length ?cs"
        using ij srt(4) nth_mem [of i olds] nth_mem [of j olds] by auto
      have "i = j \<longleftrightarrow> olds ! i = olds ! j"
        using nth_eq_iff_index_eq [OF srt(3) o(1,2)] by simp
      also have "\<dots> \<longleftrightarrow> same_stratum prog p q"
        using classesD [OF cl o(5,3), of q] o(4) concat_disjoint [OF dist o(5,6) _ o(4)] by auto
      finally have same: "i = j \<longleftrightarrow> same_stratum prog p q" .
      have le: "(p, q) \<in> dep_rel prog \<longrightarrow> j \<le> i"
        using order_of_strata [OF assms cl srt(2-4) o(1-4)] by blast
      have "i \<noteq> j" if "depends prog p q True"
        using False that same by (auto simp: same_stratum_def)
      then show ?thesis
        using same le by (auto simp: dep_rel_def order.strict_iff_order)
    qed
    have "mset (concat ?new) = mset (concat ?cs)"
      by (rule concat_permuted [OF srt(3,4)])
    then have "distinct (concat ?new)" "set (concat ?new) = set (concat ?cs)"
      using dist mset_eq_imp_distinct_iff mset_eq_setD by blast+
    moreover have "stratify ho prog = Some (Inr \<lparr>sp_program = prog, sp_strata = ?new\<rparr>)"
      using check False srt(1) by (simp add: stratify_def Let_def)
    ultimately show ?thesis
      unfolding if_not_P [OF False] using un ok by blast
  qed
qed


subsection \<open>Properties\<close>

text \<open>C7: Stratification always returns.  It fails exactly when some predicate depends negatively (by
  negation or aggregation) on a predicate that depends on it in turn.  Otherwise every predicate of the
  program is in exactly one stratum, two predicates share a stratum exactly when they depend on each
  other, and a predicate's stratum comes no earlier than those of its dependencies, strictly later
  for negative ones; all of this whatever order the hash maps are iterated in.\<close>

theorem stratify_correct:
  assumes "wf_orders ho" "distinct (map fst (prog_rules prog))"
  shows "if \<exists>p q. depends prog p q True \<and> (q, p) \<in> (dep_rel prog)\<^sup>*
    then stratify ho prog = Some (Inl (Anyhow ''program cannot be stratified''))
    else \<exists>cs. stratify ho prog = Some (Inr \<lparr>sp_program = prog, sp_strata = cs\<rparr>) \<and>
      distinct (concat cs) \<and> set (concat cs) = fst ` set (prog_rules prog) \<union> Range (dep_rel prog) \<and>
      (\<forall>i j p q. i < length cs \<longrightarrow> j < length cs \<longrightarrow> p \<in> set (cs ! i) \<longrightarrow> q \<in> set (cs ! j) \<longrightarrow>
        (i = j \<longleftrightarrow> same_stratum prog p q) \<and> ((p, q) \<in> dep_rel prog \<longrightarrow> j \<le> i) \<and>
        (depends prog p q True \<longrightarrow> j < i))"
  using assms by (rule stratify_spec)

text \<open>The witness: \<open>p0(X) :- !p1(X).\<close> with the hash maps iterated in insertion order.\<close>

definition plain_orders :: hash_orders where
  "plain_orders = \<lparr>ho_rules = (\<lambda>ks. ks), ho_nodes = (\<lambda>ks. ks), ho_edges = (\<lambda>ks. ks), ho_set = (\<lambda>ks. ks)\<rparr>"

definition negating_program :: program where
  "negating_program = add_clause (\<lambda>c. c)
     \<lparr>cl_head = \<lparr>a_sym = 0, a_args = [BVar 1]\<rparr>, cl_head_time = None,
      cl_premises = [TNegAtom \<lparr>a_sym = 1, a_args = [BVar 1]\<rparr>], cl_transform = []\<rparr> program_new"

lemma plain_orders_wf: "wf_orders plain_orders"
  by (simp add: wf_orders_def plain_orders_def)

lemma negating_rules: "prog_rules negating_program = [(0, [\<lparr>cl_head = \<lparr>a_sym = 0, a_args = [BVar 1]\<rparr>,
    cl_head_time = None, cl_premises = [TNegAtom \<lparr>a_sym = 1, a_args = [BVar 1]\<rparr>], cl_transform = []\<rparr>])]"
  "ext_preds negating_program = []"
  by (simp_all add: negating_program_def add_clause_def program_new_def Let_def rules_for_def)

lemma negating_depends: "depends negating_program p q neg \<longleftrightarrow> p = 0 \<and> q = 1 \<and> neg"
  by (auto simp: depends_def rules_for_def negating_rules dep_of_def)

theorem stratify_correct_witness:
  "\<exists>cs. stratify plain_orders negating_program = Some (Inr \<lparr>sp_program = negating_program, sp_strata = cs\<rparr>) \<and>
     set (concat cs) = {0, 1} \<and>
     (\<forall>i j. i < length cs \<longrightarrow> j < length cs \<longrightarrow> 0 \<in> set (cs ! i) \<longrightarrow> 1 \<in> set (cs ! j) \<longrightarrow> j < i)"
proof -
  have rel: "dep_rel negating_program = {(0, 1)}"
    by (auto simp: dep_rel_def negating_depends)
  have "(1, 0) \<notin> {(0 :: nat, 1 :: nat)}\<^sup>*"
    by (auto elim: converse_rtranclE)
  then have no: "\<not> (\<exists>p q. depends negating_program p q True \<and> (q, p) \<in> (dep_rel negating_program)\<^sup>*)"
    by (auto simp: negating_depends rel)
  have rules: "distinct (map fst (prog_rules negating_program))" "fst ` set (prog_rules negating_program) = {0}"
    by (simp_all add: negating_rules)
  have range: "Range {(0 :: nat, 1 :: nat)} = {1}" by auto
  from stratify_correct [OF plain_orders_wf rules(1), unfolded if_not_P [OF no], unfolded rules(2) rel range]
  obtain cs where cs: "stratify plain_orders negating_program = Some (Inr \<lparr>sp_program = negating_program, sp_strata = cs\<rparr>)"
    "set (concat cs) = {0} \<union> {1}" and all: "\<forall>i j p q. i < length cs \<longrightarrow> j < length cs \<longrightarrow> p \<in> set (cs ! i) \<longrightarrow> q \<in> set (cs ! j) \<longrightarrow>
        (i = j \<longleftrightarrow> same_stratum negating_program p q) \<and> ((p, q) \<in> {(0, 1)} \<longrightarrow> j \<le> i) \<and>
        (depends negating_program p q True \<longrightarrow> j < i)"
    by (elim exE conjE) (rule that)
  have "j < i" if "i < length cs" "j < length cs" "0 \<in> set (cs ! i)" "1 \<in> set (cs ! j)" for i j
    using all [rule_format, OF that] negating_depends by blast
  with cs show ?thesis
    by (intro exI [of _ cs]) auto
qed

end
