(* ===== verification/Compile.thy ===== *)
theory Compile
  imports Rename Lowering_Props Driver Stratification_Props
begin

text \<open>
  Compilation: \<open>compile_units\<close> of \<open>mangle-driver/src/lib.rs\<close> and \<open>compile_source\<close> of
  \<open>mangle-db/src/database.rs\<close>, which parse, rename, collect the predicates, stratify, lower and check.
  The parser, the bounds checker and the order in which a hash set of predicates is iterated are
  parameters, in the record \<open>frontend\<close>.
\<close>

record frontend =
  fe_parse :: "string \<Rightarrow> arena \<Rightarrow> (ast_unit \<times> arena) result"
  fe_check :: "ir \<Rightarrow> ir result"
  fe_preds :: "pred_index list \<Rightarrow> pred_index list"
  fe_hash :: hash_orders

fun parse_units :: "frontend \<Rightarrow> string list \<Rightarrow> arena \<Rightarrow> (ast_unit \<times> arena) result" where
  "parse_units F [] a = Inr (\<lparr>un_decls = [], un_clauses = []\<rparr>, a)"
| "parse_units F (source # sources) a =
     bindR (fe_parse F source a) (\<lambda>(u, a1).
       let (rewritten, a2) = rewrite_unit u a1 in
       bindR (parse_units F sources a2) (\<lambda>(v, a3).
         Inr (\<lparr>un_decls = un_decls rewritten @ un_decls v, un_clauses = un_clauses rewritten @ un_clauses v\<rparr>, a3)))"

fun add_clauses :: "clause list \<Rightarrow> arena \<Rightarrow> program \<Rightarrow> (program \<times> arena) result" where
  "add_clauses [] a prog = Inr (prog, a)"
| "add_clauses (c # cs) a prog =
     bindR (copy_clause a c a) (\<lambda>(c', a'). add_clauses cs a' (add_clause (\<lambda>_. c') c prog))"

text \<open>The extensional predicates: those of the premises that head no clause.  \<open>preds_of\<close> says which
  predicate a premise counts for.\<close>

definition all_preds :: "(ast_term \<Rightarrow> pred_index list) \<Rightarrow> clause list \<Rightarrow> pred_index list" where
  "all_preds preds_of cls = remdups (concat (map (\<lambda>c. a_sym (cl_head c) # concat (map preds_of (cl_premises c))) cls))"

definition idb_preds :: "clause list \<Rightarrow> pred_index set" where
  "idb_preds cls = set (map (\<lambda>c. a_sym (cl_head c)) cls)"

definition make_program :: "frontend \<Rightarrow> (ast_term \<Rightarrow> pred_index list) \<Rightarrow> clause list \<Rightarrow> arena \<Rightarrow> (program \<times> arena) result" where
  "make_program F preds_of cls a =
     bindR (add_clauses cls a program_new) (\<lambda>(prog, a').
       Inr (prog\<lparr>ext_preds := filter (\<lambda>p. p \<notin> idb_preds cls) (fe_preds F (all_preds preds_of cls))\<rparr>, a'))"

definition compile_unit :: "frontend \<Rightarrow> (ast_term \<Rightarrow> pred_index list) \<Rightarrow> ast_unit \<Rightarrow> arena \<Rightarrow>
    (arena \<times> ir \<times> stratified_program) result option" where
  "compile_unit F preds_of u a =
     thenO (Some (make_program F preds_of (un_clauses u) a)) (\<lambda>(prog, a').
     thenO (stratify (fe_hash F) prog) (\<lambda>sp.
     thenO (Some (lower_unit a' u)) (\<lambda>m.
     thenO (Some (fe_check F m)) (\<lambda>m'. Some (Inr (a', m', sp))))))"

definition compile_units :: "frontend \<Rightarrow> string list \<Rightarrow> arena \<Rightarrow> (arena \<times> ir \<times> stratified_program) result option" where
  "compile_units F sources a = thenO (Some (parse_units F sources a)) (\<lambda>(u, a'). compile_unit F premise_preds u a')"

text \<open>The copy in \<open>mangle-db\<close> looks at atoms and negated atoms only.\<close>

fun db_premise_preds :: "ast_term \<Rightarrow> pred_index list" where
  "db_premise_preds (TAtom at) = [a_sym at]"
| "db_premise_preds (TNegAtom at) = [a_sym at]"
| "db_premise_preds _ = []"

definition compile_source :: "frontend \<Rightarrow> string \<Rightarrow> arena \<Rightarrow> (arena \<times> ir \<times> stratified_program) result option" where
  "compile_source F source a =
     thenO (Some (fe_parse F source a)) (\<lambda>(u, a1).
       let (unit, a2) = rewrite_unit u a1 in compile_unit F db_premise_preds unit a2)"

subsection \<open>Copying a clause into its own arena\<close>

definition arena_full :: "arena \<Rightarrow> bool" where
  "arena_full a \<longleftrightarrow> (\<forall>nm i. map_of (ai_map (ar_interner a)) nm = Some i \<longleftrightarrow> lookup_name a i = Some nm) \<and>
     distinct (map sy_name (ar_predicates a)) \<and> distinct (map sy_name (ar_functions a))"

fun const_known :: "arena \<Rightarrow> ast_const \<Rightarrow> bool" where
  "const_known a (CsName n) = (lookup_name a n \<noteq> None)"
| "const_known a (CsList l) = list_all (const_known a) l"
| "const_known a (CsMap ks vs) = (list_all (const_known a) ks \<and> list_all (const_known a) vs)"
| "const_known a (CsStruct fs vs) = list_all (const_known a) vs"
| "const_known a _ = True"

fun term_known :: "arena \<Rightarrow> base_term \<Rightarrow> bool" where
  "term_known a (BConst c) = const_known a c"
| "term_known a (BVar v) = (lookup_name a v \<noteq> None)"
| "term_known a (BApp f args) = (function_name a f \<noteq> None \<and> list_all (term_known a) args)"

definition atom_known :: "arena \<Rightarrow> atom \<Rightarrow> bool" where
  "atom_known a at \<longleftrightarrow> predicate_name a (a_sym at) \<noteq> None \<and> list_all (term_known a) (a_args at)"

fun premise_known :: "arena \<Rightarrow> ast_term \<Rightarrow> bool" where
  "premise_known a (TAtom at) = atom_known a at"
| "premise_known a (TNegAtom at) = atom_known a at"
| "premise_known a (TEq l r) = (term_known a l \<and> term_known a r)"
| "premise_known a (TIneq l r) = (term_known a l \<and> term_known a r)"
| "premise_known a (TTemporalAtom at iv) = atom_known a at"

definition clause_known :: "arena \<Rightarrow> clause \<Rightarrow> bool" where
  "clause_known a c \<longleftrightarrow> atom_known a (cl_head c) \<and> list_all (premise_known a) (cl_premises c) \<and>
     list_all (\<lambda>t. term_known a (ts_app t)) (cl_transform c)"

lemma intern_known: "arena_full a \<Longrightarrow> lookup_name a i = Some nm \<Longrightarrow> arena_intern nm a = (i, a)"
  unfolding arena_full_def arena_intern_def ast_intern_def by (metis (no_types, lifting) case_prod_conv option.simps(5) arena.surjective arena.update_convs(1))

lemma find_symbol_distinct: "distinct (map sy_name ss) \<Longrightarrow> p < length ss \<Longrightarrow> find_symbol (sy_name (ss ! p)) ss = Some p"
proof (induction ss arbitrary: p)
  case (Cons s ss)
  show ?case
  proof (cases p)
    case (Suc q)
    then have "q < length ss" "sy_name s \<noteq> sy_name (ss ! q)"
      using Cons.prems nth_mem [of q ss] by (auto simp: image_iff)
    then show ?thesis
      using Cons Suc by simp
  qed simp
qed simp

lemma copy_symbols:
  assumes "arena_full a"
  shows "predicate_name a p \<noteq> None \<Longrightarrow> copy_predicate_sym a p a = Inr (p, a)"
    "function_name a f \<noteq> None \<Longrightarrow> copy_function_sym a f a = Inr (f, a)"
proof -
  show "copy_predicate_sym a p a = Inr (p, a)" if "predicate_name a p \<noteq> None"
    using that assms find_symbol_distinct [of "ar_predicates a" p]
    by (auto simp: predicate_name_def copy_predicate_sym_def index_list_def expect_name_def predicate_sym_def
        intern_known arena_full_def split: if_splits)
  show "copy_function_sym a f a = Inr (f, a)" if "function_name a f \<noteq> None"
    using that assms find_symbol_distinct [of "ar_functions a" f]
    by (auto simp: function_name_def copy_function_sym_def index_list_def expect_name_def function_sym_def
        intern_known arena_full_def split: if_splits)
qed

lemma copy_all_self: "(\<And>x. x \<in> set xs \<Longrightarrow> f x a = Inr (x, a)) \<Longrightarrow> copy_all f xs a = Inr (xs, a)"
  by (induction xs) simp_all

lemma copy_const_self: "arena_full a \<Longrightarrow> const_known a c \<Longrightarrow> copy_const a c a = Inr (c, a)"
  by (induction c) (auto simp: expect_name_def intern_known list_all_iff copy_all_self)

lemma copy_term_self: "arena_full a \<Longrightarrow> term_known a t \<Longrightarrow> copy_base_term a t a = Inr (t, a)"
  by (induction t) (auto simp: copy_const_self expect_name_def variable_sym_def intern_known list_all_iff copy_all_self copy_symbols)

lemma copy_atom_self: "arena_full a \<Longrightarrow> atom_known a at \<Longrightarrow> copy_atom a at a = Inr (at, a)"
  by (simp add: copy_atom_def atom_known_def list_all_iff copy_all_self copy_term_self copy_symbols)

lemma copy_clause_self: "arena_full a \<Longrightarrow> clause_known a c \<Longrightarrow> copy_clause a c a = Inr (c, a)"
proof -
  assume a: "arena_full a" "clause_known a c"
  have "copy_term a t a = Inr (t, a)" if "premise_known a t" for t
    using a(1) that by (cases t) (simp_all add: copy_atom_self copy_term_self)
  moreover have "copy_transform a t a = Inr (t, a)" if "term_known a (ts_app t)" for t
    using a(1) that by (simp add: copy_transform_def copy_term_self)
  ultimately show ?thesis
    using a by (simp add: copy_clause_def clause_known_def list_all_iff copy_all_self copy_atom_self)
qed

lemma add_clauses_self:
  "arena_full a \<Longrightarrow> list_all (clause_known a) cs \<Longrightarrow> add_clauses cs a prog = Inr (fold (add_clause (\<lambda>c. c)) cs prog, a)"
proof (induction cs arbitrary: prog)
  case (Cons c cs)
  have "add_clause (\<lambda>_. c) c prog = add_clause (\<lambda>c. c) c prog"
    by (simp add: add_clause_def)
  then show ?case
    using Cons by (simp add: copy_clause_self)
qed simp

subsection \<open>The program of a list of clauses\<close>

lemma fold_add_clause:
  "rules_for (fold (add_clause (\<lambda>c. c)) cs prog) p = rules_for prog p @ filter (\<lambda>c. a_sym (cl_head c) = p) cs"
  "distinct (map fst (prog_rules prog)) \<Longrightarrow> distinct (map fst (prog_rules (fold (add_clause (\<lambda>c. c)) cs prog)))"
  "fst ` set (prog_rules (fold (add_clause (\<lambda>c. c)) cs prog)) = fst ` set (prog_rules prog) \<union> idb_preds cs"
proof (induction cs arbitrary: prog)
  case (Cons c cs)
  have step: "rules_for (add_clause (\<lambda>c. c) c prog) p = (if p = a_sym (cl_head c) then rules_for prog p @ [c] else rules_for prog p)"
    "distinct (map fst (prog_rules prog)) \<Longrightarrow> distinct (map fst (prog_rules (add_clause (\<lambda>c. c) c prog)))"
    "fst ` set (prog_rules (add_clause (\<lambda>c. c) c prog)) = insert (a_sym (cl_head c)) (fst ` set (prog_rules prog))" for prog
    by (simp_all add: add_clause_def Let_def rules_for_def update_conv' distinct_update dom_update flip: dom_map_of_conv_image_fst)
  {
    case 1
    show ?case using Cons.IH(1) step(1) by simp
  next
    case 2
    then show ?case using Cons.IH(2) step(2) by simp
  next
    case 3
    show ?case using Cons.IH(3) step(3) by (simp add: idb_preds_def)
  }
qed (simp_all add: idb_preds_def)

definition program_of :: "frontend \<Rightarrow> (ast_term \<Rightarrow> pred_index list) \<Rightarrow> clause list \<Rightarrow> program" where
  "program_of F preds_of cls =
     (fold (add_clause (\<lambda>c. c)) cls program_new)\<lparr>ext_preds := filter (\<lambda>p. p \<notin> idb_preds cls) (fe_preds F (all_preds preds_of cls))\<rparr>"

lemma make_program_self:
  "arena_full a \<Longrightarrow> list_all (clause_known a) cls \<Longrightarrow> make_program F preds_of cls a = Inr (program_of F preds_of cls, a)"
  by (simp add: make_program_def add_clauses_self program_of_def)

lemma program_of_rules:
  "rules_for (program_of F preds_of cls) p = filter (\<lambda>c. a_sym (cl_head c) = p) cls"
  "distinct (map fst (prog_rules (program_of F preds_of cls)))"
  "fst ` set (prog_rules (program_of F preds_of cls)) = idb_preds cls"
  using fold_add_clause [where cs = cls and prog = program_new]
  by (simp_all add: program_of_def program_new_def rules_for_def)

lemma program_of_ext:
  assumes "\<And>ks. set (fe_preds F ks) = set ks"
  shows "set (ext_preds (program_of F preds_of cls)) = {q. \<exists>c\<in>set cls. \<exists>t\<in>set (cl_premises c). q \<in> set (preds_of t)} - idb_preds cls"
  using assms by (auto simp: program_of_def all_preds_def idb_preds_def)

text \<open>With the driver's reading of premises, every dependency is on a predicate that heads a clause.\<close>

lemma dep_of_premise: "dep_of prog c t = Some (q, neg) \<Longrightarrow> q \<in> set (premise_preds t) \<and> q \<notin> set (ext_preds prog)"
  by (cases t) (auto simp: dep_of_def split: if_splits)

lemma range_dep_rel:
  assumes "\<And>ks. set (fe_preds F ks) = set ks"
  shows "Range (dep_rel (program_of F premise_preds cls)) \<subseteq> idb_preds cls"
proof
  fix q
  assume "q \<in> Range (dep_rel (program_of F premise_preds cls))"
  then obtain p neg where "depends (program_of F premise_preds cls) p q neg"
    by (auto simp: dep_rel_def)
  then obtain c t where "c \<in> set cls" "t \<in> set (cl_premises c)" "dep_of (program_of F premise_preds cls) c t = Some (q, neg)"
    by (auto simp: depends_def program_of_rules(1))
  then show "q \<in> idb_preds cls"
    using dep_of_premise [of "program_of F premise_preds cls" c t q neg] unfolding program_of_ext [OF assms] by blast
qed

subsection \<open>Properties\<close>

definition unit_known :: "arena \<Rightarrow> ast_unit \<Rightarrow> bool" where
  "unit_known a u \<longleftrightarrow> arena_full a \<and> list_all (clause_known a) (un_clauses u) \<and> unit_size u < 2 ^ 32"

text \<open>Clauses \<open>cls\<close> have a predicate that depends negatively on itself.\<close>

definition negative_cycle :: "program \<Rightarrow> bool" where
  "negative_cycle prog \<longleftrightarrow> (\<exists>p q. depends prog p q True \<and> (q, p) \<in> (dep_rel prog)\<^sup>*)"

text \<open>C19: Compilation of a program.  Once the sources are parsed and renamed, compilation returns.  It fails with
  the error of stratification exactly when the clauses have a negative cycle, and otherwise only if the
  bounds checker refuses the lowered unit.  Its result pairs an IR whose declarations and rules read back
  as the units' with strata that partition exactly the predicates heading a clause, dependencies first and
  negative ones strictly first; the extensional predicates are those of the premises that head no clause.\<close>

theorem compile_units_spec:
  assumes "parse_units F sources a = Inr (u, a')" "unit_known a' u" "wf_orders (fe_hash F)" "\<And>ks. set (fe_preds F ks) = set ks"
    and "prog = program_of F premise_preds (un_clauses u)"
  shows "if negative_cycle prog
    then compile_units F sources a = Some (Inl (Anyhow ''program cannot be stratified''))
    else \<exists>m ds rs cs. compile_units F sources a =
        Some (bindR (fe_check F m) (\<lambda>m'. Inr (a', m', \<lparr>sp_program = prog, sp_strata = cs\<rparr>))) \<and>
      ir_inv m \<and> filter top_inst (insts m) = ds @ rs \<and>
      list_all2 (reads_decl a' m) ds (un_decls u) \<and> list_all2 (reads_rule a' m) rs (un_clauses u) \<and>
      set (ext_preds prog) = {q. \<exists>c\<in>set (un_clauses u). \<exists>t\<in>set (cl_premises c). q \<in> set (premise_preds t)} - idb_preds (un_clauses u) \<and>
      distinct (concat cs) \<and> set (concat cs) = idb_preds (un_clauses u) \<and>
      (\<forall>i j p q. i < length cs \<longrightarrow> j < length cs \<longrightarrow> p \<in> set (cs ! i) \<longrightarrow> q \<in> set (cs ! j) \<longrightarrow>
        (i = j \<longleftrightarrow> same_stratum prog p q) \<and> ((p, q) \<in> dep_rel prog \<longrightarrow> j \<le> i) \<and> (depends prog p q True \<longrightarrow> j < i))"
proof -
  have known: "arena_full a'" "list_all (clause_known a') (un_clauses u)" "unit_size u < 2 ^ 32"
    using assms(2) by (simp_all add: unit_known_def)
  have mk: "make_program F premise_preds (un_clauses u) a' = Inr (prog, a')"
    unfolding assms(5) by (rule make_program_self [OF known(1,2)])
  have compile: "compile_units F sources a = thenO (stratify (fe_hash F) prog) (\<lambda>sp.
     thenO (Some (lower_unit a' u)) (\<lambda>m. thenO (Some (fe_check F m)) (\<lambda>m'. Some (Inr (a', m', sp)))))"
    using assms(1) mk by (simp add: compile_units_def compile_unit_def thenO_def)
  have rules: "distinct (map fst (prog_rules prog))" "fst ` set (prog_rules prog) \<union> Range (dep_rel prog) = idb_preds (un_clauses u)"
    using range_dep_rel [OF assms(4), of "un_clauses u"] unfolding assms(5) by (auto simp: program_of_rules(2,3))
  note strat = stratify_spec [OF assms(3) rules(1), folded negative_cycle_def, unfolded rules(2)]
  show ?thesis
  proof (cases "negative_cycle prog")
    case True
    then show ?thesis
      using strat compile by (simp add: thenO_def)
  next
    case False
    then obtain cs where cs: "stratify (fe_hash F) prog = Some (Inr \<lparr>sp_program = prog, sp_strata = cs\<rparr>)"
      "distinct (concat cs)" "set (concat cs) = idb_preds (un_clauses u)"
      "\<forall>i j p q. i < length cs \<longrightarrow> j < length cs \<longrightarrow> p \<in> set (cs ! i) \<longrightarrow> q \<in> set (cs ! j) \<longrightarrow>
        (i = j \<longleftrightarrow> same_stratum prog p q) \<and> ((p, q) \<in> dep_rel prog \<longrightarrow> j \<le> i) \<and> (depends prog p q True \<longrightarrow> j < i)"
      using strat by auto
    obtain m ds rs where m: "lower_unit a' u = Inr m" "ir_inv m" "filter top_inst (insts m) = ds @ rs"
      "list_all2 (reads_decl a' m) ds (un_decls u)" "list_all2 (reads_rule a' m) rs (un_clauses u)"
      using unit_lowered [OF known(3), of a'] by blast
    have "compile_units F sources a = Some (bindR (fe_check F m) (\<lambda>m'. Inr (a', m', \<lparr>sp_program = prog, sp_strata = cs\<rparr>)))"
      unfolding compile cs(1) m(1) by (simp add: thenO_def bindR_def split: sum.splits)
    then show ?thesis
      unfolding if_not_P [OF False] using cs(2-4) m(2-5) program_of_ext [OF assms(4), of premise_preds "un_clauses u"]
      unfolding assms(5) by blast
  qed
qed

definition demo_frontend :: "ast_unit \<Rightarrow> arena \<Rightarrow> frontend" where
  "demo_frontend u a = \<lparr>fe_parse = (\<lambda>_ _. Inr (u, a)), fe_check = Inr, fe_preds = (\<lambda>ks. ks), fe_hash = plain_orders\<rparr>"

lemma interner_full:
  assumes "distinct vec" "length vec \<le> 2 ^ 32"
    and "ai_map s = rev (zip vec (map of_nat [0..<length vec]))" "ai_vec s = vec"
  shows "map_of (ai_map s) nm = Some i \<longleftrightarrow> ast_lookup s i = Some nm"
proof -
  have "map_of (ai_map s) nm = Some i \<longleftrightarrow> (nm, i) \<in> set (ai_map s)"
    using assms(1,3) by (intro map_of_eq_Some_iff) (simp add: rev_map [symmetric])
  also have "\<dots> \<longleftrightarrow> (\<exists>k<length vec. nm = vec ! k \<and> i = of_nat k)"
    unfolding assms(3) by (auto simp: set_zip)
  also have "\<dots> \<longleftrightarrow> unat i < length vec \<and> vec ! unat i = nm"
  proof
    assume "\<exists>k<length vec. nm = vec ! k \<and> i = of_nat k"
    then obtain k where k: "k < length vec" "nm = vec ! k" "i = of_nat k"
      by blast
    then have "unat i = k"
      using assms(2) by (simp add: unat_of_nat)
    then show "unat i < length vec \<and> vec ! unat i = nm"
      using k by simp
  qed (auto intro!: exI [of _ "unat i"])
  also have "\<dots> \<longleftrightarrow> ast_lookup s i = Some nm"
    using assms(4) by (simp add: ast_lookup_def)
  finally show ?thesis .
qed

lemma low_known: "unit_known low_arena low_unit"
proof -
  have "map_of (ai_map (ar_interner low_arena)) nm = Some i \<longleftrightarrow> lookup_name low_arena i = Some nm" for nm i
    unfolding lookup_name_def by (rule interner_full [of "[''_'', ''e'', ''t'', ''X'', ''Y'']"]) (simp_all add: low_arena_def upt_rec)
  then have "arena_full low_arena"
    by (simp add: arena_full_def) (simp add: low_arena_def)
  moreover have "list_all (clause_known low_arena) (un_clauses low_unit)"
    by code_simp
  ultimately show ?thesis
    by (simp add: unit_known_def unit_size_def low_unit_def clause_size_def head_size_def atom_size_def)
qed

theorem compile_units_spec_witness:
  "\<exists>m rs cs. compile_units (demo_frontend low_unit low_arena) [''source''] low_arena =
      Some (Inr (low_arena, m, \<lparr>sp_program = program_of (demo_frontend low_unit low_arena) premise_preds (un_clauses low_unit), sp_strata = cs\<rparr>)) \<and>
    list_all2 (reads_rule low_arena m) rs (un_clauses low_unit) \<and> set (concat cs) = {0, 1}"
proof -
  let ?F = "demo_frontend low_unit low_arena"
  let ?prog = "program_of ?F premise_preds (un_clauses low_unit)"
  have parse: "parse_units ?F [''source''] low_arena = Inr (low_unit, low_arena)"
    by (simp add: demo_frontend_def rewrite_unit_def low_unit_def)
  have orders: "wf_orders (fe_hash ?F)" "\<And>ks. set (fe_preds ?F ks) = set ks"
    by (simp_all add: demo_frontend_def plain_orders_wf)
  have "\<not> depends ?prog p q True" for p q
    by (auto simp: depends_def program_of_rules(1) low_unit_def dep_of_def aggregates_def split: if_splits)
  then have "\<not> negative_cycle ?prog"
    by (simp add: negative_cycle_def)
  then obtain m ds rs cs where "compile_units ?F [''source''] low_arena =
      Some (bindR (fe_check ?F m) (\<lambda>m'. Inr (low_arena, m', \<lparr>sp_program = ?prog, sp_strata = cs\<rparr>)))"
    "list_all2 (reads_rule low_arena m) rs (un_clauses low_unit)" "set (concat cs) = idb_preds (un_clauses low_unit)"
    using compile_units_spec [OF parse low_known orders refl] by auto
  moreover have "idb_preds (un_clauses low_unit) = {0, 1}"
    by (auto simp: idb_preds_def low_unit_def)
  ultimately show ?thesis
    by (auto simp: demo_frontend_def)
qed

end
