(* ===== verification/Pushdown.thy ===== *)
theory Pushdown
  imports Interp_Props Demo
begin

text \<open>
  \<open>mangle-db/src/predicate.rs\<close> and the predicates of \<open>mangle-db/src/source.rs\<close>: conditions of plans on the
  columns of an extensional relation, collected so that a source can filter what it loads.  The result
  map is an association list in the order of first entries; a name that does not resolve is a panic.
\<close>

datatype predicate_op = PEq | PNeq | PLt | PLe | PGt | PGe

record column_predicate =
  cp_col_idx :: nat
  cp_op :: predicate_op
  cp_value :: mvalue

definition pred_eval :: "column_predicate \<Rightarrow> tuple \<Rightarrow> bool" where
  "pred_eval p row =
     (if length row \<le> cp_col_idx p then False
      else let v = row ! cp_col_idx p in
           case cp_op p of
             PEq \<Rightarrow> v = cp_value p
           | PNeq \<Rightarrow> v \<noteq> cp_value p
           | PLt \<Rightarrow> value_cmp v (cp_value p) = Less
           | PLe \<Rightarrow> value_cmp v (cp_value p) \<noteq> Greater
           | PGt \<Rightarrow> value_cmp v (cp_value p) = Greater
           | PGe \<Rightarrow> value_cmp v (cp_value p) \<noteq> Less)"

text \<open>The default \<open>scan_with_predicates\<close> of a source.\<close>

definition scan_with_predicates :: "(string \<Rightarrow> tuple list result) \<Rightarrow> string \<Rightarrow> column_predicate list \<Rightarrow> tuple list result" where
  "scan_with_predicates scan rel ps =
     bindR (scan rel) (\<lambda>ts. if ps = [] then Inr ts else Inr (filter (\<lambda>row. list_all (\<lambda>p. pred_eval p row) ps) ts))"

fun constant_to_value :: "ir \<Rightarrow> plan_const \<Rightarrow> mvalue result" where
  "constant_to_value m (CNumber n) = Inr (Number n)"
| "constant_to_value m (CFloat f) = Inr (Float f)"
| "constant_to_value m (CString sid) = bindR (resolve_string m sid) (\<lambda>s. Inr (Str s))"
| "constant_to_value m (CName nid) = bindR (resolve_name m nid) (\<lambda>s. Inr (Name s))"
| "constant_to_value m (CTime t) = Inr (Time t)"
| "constant_to_value m (CDuration d) = Inr (Duration d)"

fun operand_to_value :: "ir \<Rightarrow> operand \<Rightarrow> mvalue option result" where
  "operand_to_value m (OConst c) = bindR (constant_to_value m c) (\<lambda>v. Inr (Some v))"
| "operand_to_value m (OVar _) = Inr None"

fun flip_cmp :: "cmp_op \<Rightarrow> cmp_op" where
  "flip_cmp CEq = CEq"
| "flip_cmp CNeq = CNeq"
| "flip_cmp CLt = CGt"
| "flip_cmp CLe = CGe"
| "flip_cmp CGt = CLt"
| "flip_cmp CGe = CLe"

fun cmp_to_pred_op :: "cmp_op \<Rightarrow> predicate_op" where
  "cmp_to_pred_op CEq = PEq"
| "cmp_to_pred_op CNeq = PNeq"
| "cmp_to_pred_op CLt = PLt"
| "cmp_to_pred_op CLe = PLe"
| "cmp_to_pred_op CGt = PGt"
| "cmp_to_pred_op CGe = PGe"

text \<open>\<open>vars.iter().enumerate().map(..).collect()\<close>: a variable that occurs twice has its last column.\<close>

definition var_to_col :: "name_id list \<Rightarrow> name_id \<Rightarrow> nat option" where
  "var_to_col vars = map_of (rev (zip vars [0..<length vars]))"

definition try_var_const :: "ir \<Rightarrow> cmp_op \<Rightarrow> operand \<Rightarrow> operand \<Rightarrow> (name_id \<Rightarrow> nat option) \<Rightarrow> column_predicate option result" where
  "try_var_const m c left right cols =
     (case left of
        OVar v \<Rightarrow>
          (case cols v of
             None \<Rightarrow> Inr None
           | Some col \<Rightarrow>
               bindR (operand_to_value m right) (\<lambda>x. Inr (map_option (\<lambda>val.
                 \<lparr>cp_col_idx = col, cp_op = cmp_to_pred_op c, cp_value = val\<rparr>) x)))
      | OConst _ \<Rightarrow> Inr None)"

definition condition_to_predicate :: "ir \<Rightarrow> condition \<Rightarrow> (name_id \<Rightarrow> nat option) \<Rightarrow> column_predicate option result" where
  "condition_to_predicate m cond cols =
     (case cond of
        Cmp c left right \<Rightarrow>
          bindR (try_var_const m c left right cols) (\<lambda>p.
            if p \<noteq> None then Inr p else try_var_const m (flip_cmp c) right left cols)
      | _ \<Rightarrow> Inr None)"

fun collect_filters :: "ir \<Rightarrow> op \<Rightarrow> (name_id \<Rightarrow> nat option) \<Rightarrow> column_predicate list result" where
  "collect_filters m (FilterOp cond body) cols =
     bindR (condition_to_predicate m cond cols) (\<lambda>p. bindR (collect_filters m body cols) (\<lambda>ps.
       Inr (case p of None \<Rightarrow> ps | Some q \<Rightarrow> q # ps)))"
| "collect_filters m _ cols = Inr []"

type_synonym pushdown = "(string \<times> column_predicate list) list"

definition extend_preds :: "string \<Rightarrow> column_predicate list \<Rightarrow> pushdown \<Rightarrow> pushdown" where
  "extend_preds rel ps R = AList.update rel ((case map_of R rel of None \<Rightarrow> [] | Some qs \<Rightarrow> qs) @ ps) R"

definition extract_from_iterate :: "ir \<Rightarrow> data_source \<Rightarrow> op \<Rightarrow> string set \<Rightarrow> pushdown \<Rightarrow> pushdown result" where
  "extract_from_iterate m source body edb R =
     (case source of
        Scan rel vars \<Rightarrow>
          bindR (resolve_name m rel) (\<lambda>nm.
            if nm \<notin> edb then Inr R
            else bindR (collect_filters m body (var_to_col vars)) (\<lambda>ps. Inr (if ps \<noteq> [] then extend_preds nm ps R else R)))
      | ScanDelta rel vars \<Rightarrow> bindR (resolve_name m rel) (\<lambda>nm. Inr R)
      | IndexLookup rel col key vars \<Rightarrow>
          bindR (resolve_name m rel) (\<lambda>nm.
            if nm \<notin> edb then Inr R
            else bindR (operand_to_value m key) (\<lambda>x. Inr (case x of
                   None \<Rightarrow> R
                 | Some v \<Rightarrow> extend_preds nm [\<lparr>cp_col_idx = col, cp_op = PEq, cp_value = v\<rparr>] R))))"

fun extract_from_op :: "ir \<Rightarrow> string set \<Rightarrow> op \<Rightarrow> pushdown \<Rightarrow> pushdown result"
and extract_from_ops :: "ir \<Rightarrow> string set \<Rightarrow> op list \<Rightarrow> pushdown \<Rightarrow> pushdown result" where
  "extract_from_op m edb Nop R = Inr R"
| "extract_from_op m edb (Seq ops) R = extract_from_ops m edb ops R"
| "extract_from_op m edb (Iterate source body) R =
     bindR (extract_from_iterate m source body edb R) (extract_from_op m edb body)"
| "extract_from_op m edb (FilterOp cond body) R = extract_from_op m edb body R"
| "extract_from_op m edb (InsertOp _ _) R = Inr R"
| "extract_from_op m edb (LetOp _ _ body) R = extract_from_op m edb body R"
| "extract_from_op m edb (GroupBy _ _ _ _ body) R = extract_from_op m edb body R"
| "extract_from_op m edb (HashJoin _ _ _ body) R = extract_from_op m edb body R"
| "extract_from_op m edb (MatchField _ _ _ body) R = extract_from_op m edb body R"
| "extract_from_op m edb (IterateList _ _ body) R = extract_from_op m edb body R"
| "extract_from_ops m edb [] R = Inr R"
| "extract_from_ops m edb (p # ps) R = bindR (extract_from_op m edb p R) (extract_from_ops m edb ps)"

definition extract_predicates :: "ir \<Rightarrow> op list \<Rightarrow> string set \<Rightarrow> pushdown result" where
  "extract_predicates m ops edb = extract_from_ops m edb ops []"

subsection \<open>One scan\<close>

lemma pred_eval_cmp:
  assumes "col < length row"
  shows "pred_eval \<lparr>cp_col_idx = col, cp_op = cmp_to_pred_op c, cp_value = v\<rparr> row \<longleftrightarrow> cmp_holds c (row ! col) v"
  using assms by (cases c) (auto simp: pred_eval_def cmp_holds_def)

lemma constant_to_value_eq: "constant_to_value m c = eval_const m c"
  by (cases c) simp_all

lemma operand_to_value_Some: "operand_to_value m x = Inr (Some v) \<Longrightarrow> eval_operand m e x = Inr v"
  by (cases x) (auto simp: constant_to_value_eq)

lemma var_to_col_Some:
  assumes "var_to_col vars v = Some col" "length t = length vars"
  shows "col < length t" "(e(vars [\<mapsto>] t)) v = Some (t ! col)"
proof -
  have zip: "zip vars t = map (\<lambda>(v, i). (v, t ! i)) (zip vars [0..<length vars])"
    using assms(2) by (intro nth_equalityI) simp_all
  have "(v, col) \<in> set (zip vars [0..<length vars])"
    using assms(1) map_of_SomeD by (fastforce simp: var_to_col_def)
  then show "col < length t"
    using assms(2) by (auto simp: set_zip)
  have "map_of (rev (zip vars t)) v = map_option (\<lambda>i. t ! i) (var_to_col vars v)"
    unfolding zip var_to_col_def rev_map by (simp add: map_of_map)
  then show "(e(vars [\<mapsto>] t)) v = Some (t ! col)"
    using assms(1) by (simp add: map_upds_def map_add_def)
qed

lemma try_var_const_Some:
  assumes "try_var_const m c x y (var_to_col vars) = Inr (Some p)" "length t = length vars"
  obtains v where "eval_operand m (e(vars [\<mapsto>] t)) y = Inr v"
    "eval_operand m (e(vars [\<mapsto>] t)) x = Inr (t ! cp_col_idx p)" "pred_eval p t \<longleftrightarrow> cmp_holds c (t ! cp_col_idx p) v"
proof -
  obtain u col v where p: "x = OVar u" "var_to_col vars u = Some col" "operand_to_value m y = Inr (Some v)"
    "p = \<lparr>cp_col_idx = col, cp_op = cmp_to_pred_op c, cp_value = v\<rparr>"
    using assms(1) by (auto simp: try_var_const_def split: operand.splits option.splits)
  show ?thesis
    using that [of v] operand_to_value_Some [OF p(3)] var_to_col_Some [OF p(2) assms(2)] pred_eval_cmp [of col t c v] p(1,4)
    by simp
qed

lemma flip_holds: "cmp_holds (flip_cmp c) x y \<longleftrightarrow> cmp_holds c y x"
  using cmp_swap_both(1) [of y x] by (cases c; cases "value_cmp x y") (auto simp: cmp_holds_def)

text \<open>A condition that holds implies its predicate.\<close>

lemma condition_to_predicate_holds:
  assumes "condition_to_predicate (cf_ir C) cond (var_to_col vars) = Inr (Some p)" "length t = length vars"
    and "eval_cond C s (e(vars [\<mapsto>] t)) cond = Inr True"
  shows "pred_eval p t"
proof -
  obtain c x y where c: "cond = Cmp c x y"
    using assms(1) by (auto simp: condition_to_predicate_def split: condition.splits)
  have holds: "cmp_holds c v w"
    if "eval_operand (cf_ir C) (e(vars [\<mapsto>] t)) x = Inr v" "eval_operand (cf_ir C) (e(vars [\<mapsto>] t)) y = Inr w" for v w
    using assms(3) that by (simp add: c)
  show ?thesis
  proof (cases "try_var_const (cf_ir C) c x y (var_to_col vars) = Inr (Some p)")
    case True
    then show ?thesis
      using try_var_const_Some [OF True assms(2), of e] holds by metis
  next
    case False
    then have "try_var_const (cf_ir C) (flip_cmp c) y x (var_to_col vars) = Inr (Some p)"
      using assms(1) by (auto simp: condition_to_predicate_def c split: if_splits)
    from try_var_const_Some [OF this assms(2), of e] show ?thesis
      using holds flip_holds by metis
  qed
qed

lemma collect_filters_holds:
  assumes "collect_filters (cf_ir C) body (var_to_col vars) = Inr ps" "p \<in> set ps" "length t = length vars"
    and "derives C s (e(vars [\<mapsto>] t)) body f"
  shows "pred_eval p t"
  using assms
proof (induction body arbitrary: ps)
  case (FilterOp cond body)
  then obtain q qs where q: "condition_to_predicate (cf_ir C) cond (var_to_col vars) = Inr q"
    "collect_filters (cf_ir C) body (var_to_col vars) = Inr qs" "ps = (case q of None \<Rightarrow> qs | Some x \<Rightarrow> x # qs)"
    by auto
  have d: "eval_cond C s (e(vars [\<mapsto>] t)) cond = Inr True" "derives C s (e(vars [\<mapsto>] t)) body f"
    using FilterOp.prems(4) by (simp_all add: derives_simps)
  show ?case
    using FilterOp.IH [OF q(2) _ FilterOp.prems(3) d(2)] condition_to_predicate_holds [OF _ FilterOp.prems(3) d(1)] q(1,3) FilterOp.prems(2)
    by (auto split: option.splits)
qed simp_all

subsection \<open>Properties\<close>

text \<open>C22: The predicates collected for one scan are safe for that scan: dropping the tuples that fail one of them
  before iterating derives exactly the same facts, whatever filters follow and with the operands of a
  comparison in either order.\<close>

theorem pushdown_scan_sound:
  assumes "collect_filters (cf_ir C) body (var_to_col vars) = Inr ps"
  shows "derives C s e (Iterate (Scan rel vars) body) f \<longleftrightarrow>
    (\<exists>nm ts t. collect_data_source C s e (Scan rel vars) = Inr (nm, ts) \<and>
       t \<in> set (filter (\<lambda>row. list_all (\<lambda>p. pred_eval p row) ps) ts) \<and> length t = length vars \<and>
       derives C s (e(vars [\<mapsto>] t)) body f)"
  using collect_filters_holds [OF assms] by (cases f) (fastforce simp: derives_simps list_all_iff)

theorem pushdown_scan_sound_witness:
  "\<forall>f. derives demo_cfg mem_new Map.empty (Iterate (Scan 1 [2]) (FilterOp (Cmp CLt (OConst (CNumber 1)) (OVar 2)) (InsertOp 3 [OVar 2]))) f \<longleftrightarrow>
    (\<exists>nm ts t. collect_data_source demo_cfg mem_new Map.empty (Scan 1 [2]) = Inr (nm, ts) \<and>
       t \<in> set (filter (\<lambda>row. list_all (\<lambda>p. pred_eval p row) [\<lparr>cp_col_idx = 0, cp_op = PGt, cp_value = Number 1\<rparr>]) ts) \<and> length t = length [2 :: name_id] \<and>
       derives demo_cfg mem_new (Map.empty([2] [\<mapsto>] t)) (FilterOp (Cmp CLt (OConst (CNumber 1)) (OVar 2)) (InsertOp 3 [OVar 2])) f)"
  by (intro allI pushdown_scan_sound)
     (simp add: condition_to_predicate_def try_var_const_def var_to_col_def)

end
