(* ===== verification/Database.thy ===== *)
theory Database
  imports Compile Pushdown Wal_Codec
begin

text \<open>
  \<open>mangle-db/src/database.rs\<close>: a database compiles its program, loads the facts of external sources, runs
  the driver on a scratch store, keeps the derived facts beside the external ones and serves queries;
  mutations of external facts recompute the derived ones.  The working store is \<open>MemStore\<close>; the disk
  store is not modelled.  Parameters (\<open>db_env\<close>): the frontend, the arena a compilation starts from, the
  configuration of the interpreter, the hash, the clock, the order in which a hash set of names is
  iterated, and the backend that caches derived facts, with its own state.  Locks are not modelled: an
  operation runs to its end before the next.  Where an operation fails, the state it leaves behind is
  returned beside the error; a driver that does not return gives \<open>None\<close>.
\<close>

type_synonym hash = bytes

record edb_source =
  es_relations :: "string list result"
  es_scan :: "string \<Rightarrow> column_predicate list \<Rightarrow> tuple list result"
  es_fingerprint :: "hash option result"

record cache_meta =
  cm_program_hash :: hash
  cm_edb_fingerprint :: hash
  cm_created_at :: u64

type_synonym idb_snapshot = "(string \<times> tuple list) list"

record 'b db_env =
  en_frontend :: frontend
  en_arena :: arena
  en_cfg :: "mem_store interp_cfg"
  en_hash_join :: bool
  en_coalesce :: "string \<Rightarrow> mem_store \<Rightarrow> mem_store result"
  en_sha256 :: "bytes \<Rightarrow> hash"
  en_names :: "string list \<Rightarrow> string list"
  en_now :: u64
  en_load :: "'b \<Rightarrow> string \<Rightarrow> (cache_meta \<times> idb_snapshot) option result"
  en_save :: "string \<Rightarrow> cache_meta \<Rightarrow> idb_snapshot \<Rightarrow> 'b \<Rightarrow> 'b result"

record database_config =
  dc_name :: string
  dc_source :: string
  dc_edb_sources :: "edb_source list"
  dc_cached :: bool

record database =
  db_config :: database_config
  db_store :: mem_store
  db_edb :: "string list"
  db_idb :: "string list"
  db_fingerprint :: "hash option"
  db_program_hash :: hash

subsection \<open>Helpers\<close>

definition compute_program_hash :: "'b db_env \<Rightarrow> string \<Rightarrow> hash" where
  "compute_program_hash E source = en_sha256 E (as_bytes source)"

fun hash_sources :: "edb_source list \<Rightarrow> bytes \<Rightarrow> bytes option result" where
  "hash_sources [] acc = Inr (Some acc)"
| "hash_sources (src # srcs) acc =
     bindR (es_fingerprint src) (\<lambda>fp. case fp of Some f \<Rightarrow> hash_sources srcs (acc @ f) | None \<Rightarrow> Inr None)"

definition compute_edb_fingerprint :: "'b db_env \<Rightarrow> edb_source list \<Rightarrow> hash option result" where
  "compute_edb_fingerprint E srcs = bindR (hash_sources srcs []) (\<lambda>x. Inr (map_option (en_sha256 E) x))"

definition insert_all :: "string \<Rightarrow> tuple list \<Rightarrow> mem_store \<Rightarrow> mem_store" where
  "insert_all rel ts s = fold (\<lambda>t s. snd (mem_insert rel t s)) ts s"

fun load_relations :: "edb_source \<Rightarrow> (string \<Rightarrow> column_predicate list) \<Rightarrow> string list \<Rightarrow> mem_store \<Rightarrow> unit result \<times> mem_store" where
  "load_relations src preds [] s = (Inr (), s)"
| "load_relations src preds (rel # rels) s =
     (let s1 = mem_create_relation rel s in
      case es_scan src rel (preds rel) of
        Inl e \<Rightarrow> (Inl e, s1)
      | Inr ts \<Rightarrow> load_relations src preds rels (insert_all rel ts s1))"

fun load_sources :: "(string \<Rightarrow> column_predicate list) \<Rightarrow> edb_source list \<Rightarrow> mem_store \<Rightarrow> unit result \<times> mem_store" where
  "load_sources preds [] s = (Inr (), s)"
| "load_sources preds (src # srcs) s =
     (case es_relations src of
        Inl e \<Rightarrow> (Inl e, s)
      | Inr rels \<Rightarrow>
          (case load_relations src preds rels s of
             (Inl e, s1) \<Rightarrow> (Inl e, s1)
           | (Inr _, s1) \<Rightarrow> load_sources preds srcs s1))"

definition load_edb_into_store_filtered :: "(string \<Rightarrow> column_predicate list) \<Rightarrow> edb_source list \<Rightarrow> mem_store \<Rightarrow> unit result \<times> mem_store" where
  "load_edb_into_store_filtered preds srcs s =
     (case load_sources preds srcs s of
        (Inl e, s1) \<Rightarrow> (Inl e, s1)
      | (Inr _, s1) \<Rightarrow> (case mem_merge_deltas s1 of Inl e \<Rightarrow> (Inl e, s1) | Inr s2 \<Rightarrow> (Inr (), s2)))"

definition load_edb_into_store :: "edb_source list \<Rightarrow> mem_store \<Rightarrow> unit result \<times> mem_store" where
  "load_edb_into_store srcs s = load_edb_into_store_filtered (\<lambda>_. []) srcs s"

fun extract_idb_snapshot :: "mem_store \<Rightarrow> string list \<Rightarrow> idb_snapshot result" where
  "extract_idb_snapshot s [] = Inr []"
| "extract_idb_snapshot s (rel # rels) =
     bindR (mem_scan s rel) (\<lambda>facts. bindR (extract_idb_snapshot s rels) (\<lambda>rest.
       Inr (if facts \<noteq> [] then (rel, facts) # rest else rest)))"

definition edb_names :: "'b db_env \<Rightarrow> arena \<Rightarrow> stratified_program \<Rightarrow> string list" where
  "edb_names E a sp = en_names E (remdups (List.map_filter (predicate_name a) (ext_preds (sp_program sp))))"

definition idb_names :: "'b db_env \<Rightarrow> arena \<Rightarrow> stratified_program \<Rightarrow> string list" where
  "idb_names E a sp = en_names E (remdups (List.map_filter (predicate_name a) (concat (sp_strata sp))))"

definition extract_relation_names :: "'b db_env \<Rightarrow> string \<Rightarrow> (string list \<times> string list) result option" where
  "extract_relation_names E source =
     thenO (compile_source (en_frontend E) source (en_arena E)) (\<lambda>(a, m, sp). Some (Inr (edb_names E a sp, idb_names E a sp)))"

text \<open>The plans of the rules, those that cannot be planned left out.  (The source keeps the names a failed
  attempt interned; the model drops them.)\<close>

fun plan_lenient :: "bool \<Rightarrow> inst_id list \<Rightarrow> ir \<Rightarrow> (op list \<times> ir) result" where
  "plan_lenient hj [] m = Inr ([], m)"
| "plan_lenient hj (r # rs) m =
     (case plan_with hj None r m of
        Inl Panic \<Rightarrow> Inl Panic
      | Inl (Anyhow _) \<Rightarrow> plan_lenient hj rs m
      | Inr (p, m1) \<Rightarrow> bindR (plan_lenient hj rs m1) (\<lambda>(ps, m2). Inr (p # ps, m2)))"

fun plan_all :: "bool \<Rightarrow> arena \<Rightarrow> pred_index list list \<Rightarrow> ir \<Rightarrow> (op list \<times> ir) result" where
  "plan_all hj a [] m = Inr ([], m)"
| "plan_all hj a (c # cs) m =
     bindR (rules_of m (stratum_names a c) 0 (insts m)) (\<lambda>rules.
     bindR (plan_lenient hj rules m) (\<lambda>(ps, m1).
     bindR (plan_all hj a cs m1) (\<lambda>(qs, m2). Inr (ps @ qs, m2))))"

definition pushdown_of :: "'b db_env \<Rightarrow> arena \<Rightarrow> ir \<Rightarrow> stratified_program \<Rightarrow> (pushdown \<times> ir) result" where
  "pushdown_of E a m sp =
     bindR (plan_all (en_hash_join E) a (sp_strata sp) m) (\<lambda>(ops, m').
     bindR (extract_predicates m' ops (set (edb_names E a sp))) (\<lambda>R. Inr (R, m')))"

definition extract_edb_predicates :: "'b db_env \<Rightarrow> string \<Rightarrow> pushdown result option" where
  "extract_edb_predicates E source =
     (case compile_source (en_frontend E) source (en_arena E) of
        None \<Rightarrow> None
      | Some (Inl Panic) \<Rightarrow> Some (Inl Panic)
      | Some (Inl (Anyhow _)) \<Rightarrow> Some (Inr [])
      | Some (Inr (a, m, sp)) \<Rightarrow> Some (bindR (pushdown_of E a m sp) (\<lambda>(R, _). Inr R)))"

subsection \<open>Recomputation\<close>

definition copy_relation :: "mem_store \<Rightarrow> string \<Rightarrow> mem_store \<Rightarrow> mem_store result" where
  "copy_relation from rel s = bindR (mem_scan from rel) (\<lambda>ts. Inr (insert_all rel ts (mem_create_relation rel s)))"

text \<open>\<open>reload\<close>: whether the sources are given, so that the rules are planned once more for their predicates.\<close>

definition full_recompute :: "'b db_env \<Rightarrow> bool \<Rightarrow> string \<Rightarrow> mem_store \<Rightarrow> ((string list \<times> string list) result \<times> mem_store) option" where
  "full_recompute E reload source s =
     (case compile_source (en_frontend E) source (en_arena E) of
        None \<Rightarrow> None
      | Some (Inl e) \<Rightarrow> Some (Inl e, s)
      | Some (Inr (a, m, sp)) \<Rightarrow>
          (let edb = edb_names E a sp; idb = idb_names E a sp in
           case (if reload then bindR (pushdown_of E a m sp) (\<lambda>(_, m'). Inr m') else Inr m) of
             Inl e \<Rightarrow> Some (Inl e, s)
           | Inr m1 \<Rightarrow>
               (case bindR (foldR_store (copy_relation s) edb mem_new) mem_merge_deltas of
                  Inl e \<Rightarrow> Some (Inl e, s)
                | Inr exec_store \<Rightarrow>
                    (case execute_with_options (en_hash_join E) (en_coalesce E) ((en_cfg E)\<lparr>cf_ir := m1\<rparr>) a sp exec_store False of
                       None \<Rightarrow> None
                     | Some (Inl e) \<Rightarrow> Some (Inl e, s)
                     | Some (Inr (_, st)) \<Rightarrow>
                         (case bindR (foldR_store (copy_relation (st_store st)) idb s) mem_merge_deltas of
                            Inl e \<Rightarrow> Some (Inl e, s)
                          | Inr s' \<Rightarrow> Some (Inr (edb, idb), s'))))))"

definition save_cache :: "'b db_env \<Rightarrow> database \<Rightarrow> 'b \<Rightarrow> unit result \<times> 'b" where
  "save_cache E db b =
     (case (dc_cached (db_config db), db_fingerprint db) of
        (True, Some fp) \<Rightarrow>
          (case bindR (extract_idb_snapshot (db_store db) (db_idb db)) (\<lambda>snapshot.
             en_save E (dc_name (db_config db))
               \<lparr>cm_program_hash = db_program_hash db, cm_edb_fingerprint = fp, cm_created_at = en_now E\<rparr> snapshot b) of
             Inl e \<Rightarrow> (Inl e, b)
           | Inr b' \<Rightarrow> (Inr (), b'))
      | _ \<Rightarrow> (Inr (), b))"

definition recompute_idb :: "'b db_env \<Rightarrow> database \<Rightarrow> 'b \<Rightarrow> (unit result \<times> database \<times> 'b) option" where
  "recompute_idb E db b =
     (case full_recompute E False (dc_source (db_config db)) (fold mem_clear (db_idb db) (db_store db)) of
        None \<Rightarrow> None
      | Some (Inl e, s) \<Rightarrow> Some (Inl e, db\<lparr>db_store := s\<rparr>, b)
      | Some (Inr (_, idb), s) \<Rightarrow>
          (let db' = db\<lparr>db_store := s, db_idb := idb\<rparr>; (r, b') = save_cache E db' b in Some (r, db', b')))"

subsection \<open>The interface\<close>

definition database_open :: "'b db_env \<Rightarrow> database_config \<Rightarrow> 'b \<Rightarrow> (database \<times> 'b) result option" where
  "database_open E cfg b =
     thenO (Some (compute_edb_fingerprint E (dc_edb_sources cfg))) (\<lambda>fp.
     thenO (Some (if dc_cached cfg then en_load E b (dc_name cfg) else Inr None)) (\<lambda>cached.
       let hash = compute_program_hash E (dc_source cfg);
           hit = (case cached of
                    Some (meta, snapshot) \<Rightarrow>
                      if cm_program_hash meta = hash \<and> fp = Some (cm_edb_fingerprint meta) then Some snapshot else None
                  | None \<Rightarrow> None);
           (loaded, s) = load_edb_into_store (dc_edb_sources cfg) mem_new
       in thenO (Some loaded) (\<lambda>_.
          case hit of
            Some snapshot \<Rightarrow>
              thenO (Some (mem_merge_deltas (fold (\<lambda>(rel, facts) s. insert_all rel facts (mem_create_relation rel s)) snapshot s))) (\<lambda>s1.
              thenO (extract_relation_names E (dc_source cfg)) (\<lambda>(edb, idb).
                Some (Inr (\<lparr>db_config = cfg, db_store = s1, db_edb = edb, db_idb = idb, db_fingerprint = fp, db_program_hash = hash\<rparr>, b))))
          | None \<Rightarrow>
              (case full_recompute E False (dc_source cfg) s of
                 None \<Rightarrow> None
               | Some (Inl e, _) \<Rightarrow> Some (Inl e)
               | Some (Inr (edb, idb), s1) \<Rightarrow>
                   (let db = \<lparr>db_config = cfg, db_store = s1, db_edb = edb, db_idb = idb, db_fingerprint = fp, db_program_hash = hash\<rparr>;
                        (r, b') = save_cache E db b
                    in thenO (Some r) (\<lambda>_. Some (Inr (db, b'))))))))"

definition db_query :: "database \<Rightarrow> string \<Rightarrow> tuple list result" where
  "db_query db rel = mem_scan (db_store db) rel"

definition batch_insert :: "string \<Rightarrow> tuple \<Rightarrow> database \<Rightarrow> unit result \<times> database" where
  "batch_insert rel t db =
     (let s = snd (mem_insert rel t (db_store db)) in
      case mem_merge_deltas s of Inl e \<Rightarrow> (Inl e, db\<lparr>db_store := s\<rparr>) | Inr s' \<Rightarrow> (Inr (), db\<lparr>db_store := s'\<rparr>))"

definition batch_retract :: "string \<Rightarrow> tuple \<Rightarrow> database \<Rightarrow> unit result \<times> database" where
  "batch_retract rel t db =
     (case mem_retract rel t (db_store db) of Inl e \<Rightarrow> (Inl e, db) | Inr (_, s) \<Rightarrow> (Inr (), db\<lparr>db_store := s\<rparr>))"

definition batch_commit :: "'b db_env \<Rightarrow> database \<Rightarrow> 'b \<Rightarrow> (unit result \<times> database \<times> 'b) option" where
  "batch_commit E db b = recompute_idb E db b"

definition recompute_if :: "bool \<Rightarrow> 'b db_env \<Rightarrow> unit result \<times> database \<Rightarrow> 'b \<Rightarrow> (unit result \<times> database \<times> 'b) option" where
  "recompute_if edb E r b =
     (case r of (Inl e, db) \<Rightarrow> Some (Inl e, db, b) | (Inr _, db) \<Rightarrow> if edb then recompute_idb E db b else Some (Inr (), db, b))"

definition db_insert :: "'b db_env \<Rightarrow> string \<Rightarrow> tuple \<Rightarrow> database \<Rightarrow> 'b \<Rightarrow> (unit result \<times> database \<times> 'b) option" where
  "db_insert E rel t db b = recompute_if (rel \<in> set (db_edb db)) E (batch_insert rel t db) b"

definition db_retract :: "'b db_env \<Rightarrow> string \<Rightarrow> tuple \<Rightarrow> database \<Rightarrow> 'b \<Rightarrow> (unit result \<times> database \<times> 'b) option" where
  "db_retract E rel t db b = recompute_if (rel \<in> set (db_edb db)) E (batch_retract rel t db) b"

definition db_relation_names :: "database \<Rightarrow> string list" where
  "db_relation_names db = mem_relation_names (db_store db)"

definition is_mutable_relation :: "database \<Rightarrow> string \<Rightarrow> bool" where
  "is_mutable_relation db rel \<longleftrightarrow> rel \<notin> set (db_idb db)"

definition db_reload :: "'b db_env \<Rightarrow> database \<Rightarrow> 'b \<Rightarrow> (unit result \<times> database \<times> 'b) option" where
  "db_reload E db b =
     (let cfg = db_config db; s0 = fold mem_clear (mem_relation_names (db_store db)) (db_store db) in
      case extract_edb_predicates E (dc_source cfg) of
        None \<Rightarrow> None
      | Some (Inl e) \<Rightarrow> Some (Inl e, db\<lparr>db_store := s0\<rparr>, b)
      | Some (Inr R) \<Rightarrow>
          (case load_edb_into_store_filtered (\<lambda>rel. case map_of R rel of None \<Rightarrow> [] | Some ps \<Rightarrow> ps) (dc_edb_sources cfg) s0 of
             (Inl e, s1) \<Rightarrow> Some (Inl e, db\<lparr>db_store := s1\<rparr>, b)
           | (Inr _, s1) \<Rightarrow>
               (case full_recompute E True (dc_source cfg) s1 of
                  None \<Rightarrow> None
                | Some (Inl e, s2) \<Rightarrow> Some (Inl e, db\<lparr>db_store := s2\<rparr>, b)
                | Some (Inr (edb, idb), s2) \<Rightarrow>
                    (let db1 = db\<lparr>db_store := s2, db_edb := edb, db_idb := idb\<rparr> in
                     case compute_edb_fingerprint E (dc_edb_sources cfg) of
                       Inl e \<Rightarrow> Some (Inl e, db1, b)
                     | Inr fp \<Rightarrow>
                         (let db2 = db1\<lparr>db_fingerprint := fp, db_program_hash := compute_program_hash E (dc_source cfg)\<rparr>;
                              (r, b') = save_cache E db2 b
                          in Some (r, db2, b'))))))"

end
