(* ===== verification/Server.thy ===== *)
theory Server
  imports Database Proto
begin

text \<open>
  \<open>mangle-server/src/store.rs\<close>, with \<open>mutations.rs\<close> and the filter of \<open>query.rs\<close>: the registry of programs
  that replicated commands change.  Every program has a database and a ledger of the facts that commands
  inserted or retracted, from which a snapshot is taken and restored.  Parameters (\<open>server_env\<close>): that of the
  databases, the external sources of a program (a directory of its own, if there is one), the query
  parser, the display of values, appending a line to a file, and the order in which the hash map of
  programs is iterated.  A \<open>BTreeMap\<close> and a \<open>BTreeSet\<close> are lists in key order, where the elements of a set are
  found by comparing \<open>Equal\<close>; this is what the search tree does as long as the comparison is a total order on
  the values stored.  \<open>None\<close>: the driver does not return.
\<close>

subsection \<open>The ledger\<close>

fun bset_insert :: "tuple \<Rightarrow> tuple list \<Rightarrow> tuple list" where
  "bset_insert t [] = [t]"
| "bset_insert t (x # xs) =
     (case values_cmp t x of Less \<Rightarrow> t # x # xs | Equal \<Rightarrow> x # xs | Greater \<Rightarrow> x # bset_insert t xs)"

definition bset_contains :: "tuple \<Rightarrow> tuple list \<Rightarrow> bool" where
  "bset_contains t xs = list_ex (\<lambda>x. values_cmp t x = Equal) xs"

definition bset_remove :: "tuple \<Rightarrow> tuple list \<Rightarrow> tuple list" where
  "bset_remove t xs = filter (\<lambda>x. values_cmp t x \<noteq> Equal) xs"

type_synonym fact_sets = "(string \<times> tuple list) list"

definition facts_in :: "fact_sets \<Rightarrow> string \<Rightarrow> tuple list" where
  "facts_in m rel = (case map_of m rel of None \<Rightarrow> [] | Some s \<Rightarrow> s)"

text \<open>\<open>entry(rel).or_default().insert(t)\<close>\<close>

definition entry_insert :: "string \<Rightarrow> tuple \<Rightarrow> fact_sets \<Rightarrow> fact_sets" where
  "entry_insert rel t m = btree_insert rel (bset_insert t (facts_in m rel)) m"

record fact_ledger =
  fl_replicated :: fact_sets
  fl_retracted :: fact_sets

definition ledger_default :: fact_ledger where
  "ledger_default = \<lparr>fl_replicated = [], fl_retracted = []\<rparr>"

definition ledger_is_empty :: "fact_ledger \<Rightarrow> bool" where
  "ledger_is_empty l \<longleftrightarrow> fl_replicated l = [] \<and> fl_retracted l = []"

definition replicated_contains :: "string \<Rightarrow> tuple \<Rightarrow> fact_ledger \<Rightarrow> bool" where
  "replicated_contains rel t l \<longleftrightarrow> bset_contains t (facts_in (fl_replicated l) rel)"

definition retracted_contains :: "string \<Rightarrow> tuple \<Rightarrow> fact_ledger \<Rightarrow> bool" where
  "retracted_contains rel t l \<longleftrightarrow> bset_contains t (facts_in (fl_retracted l) rel)"

definition note_insert :: "string \<Rightarrow> tuple \<Rightarrow> fact_ledger \<Rightarrow> fact_ledger" where
  "note_insert rel t l =
     l\<lparr>fl_replicated := entry_insert rel t (fl_replicated l),
       fl_retracted := (case map_of (fl_retracted l) rel of
                          None \<Rightarrow> fl_retracted l
                        | Some s \<Rightarrow> btree_insert rel (filter (\<lambda>x. x \<noteq> t) s) (fl_retracted l))\<rparr>"

definition note_retract :: "string \<Rightarrow> tuple \<Rightarrow> fact_ledger \<Rightarrow> fact_ledger" where
  "note_retract rel t l =
     (if replicated_contains rel t l
      then l\<lparr>fl_replicated := btree_insert rel (bset_remove t (facts_in (fl_replicated l) rel)) (fl_replicated l)\<rparr>
      else l\<lparr>fl_retracted := entry_insert rel t (fl_retracted l)\<rparr>)"

definition entries_of :: "fact_sets \<Rightarrow> ledger_entry list" where
  "entries_of m = concat (map (\<lambda>(rel, ts). map (Pair rel) ts) m)"

definition ledger_to_snapshot :: "fact_ledger \<Rightarrow> snapshot_ledger" where
  "ledger_to_snapshot l = \<lparr>sl_replicated = entries_of (fl_replicated l), sl_retracted = entries_of (fl_retracted l)\<rparr>"

definition sets_of :: "ledger_entry list \<Rightarrow> fact_sets" where
  "sets_of es = fold (\<lambda>(rel, t). entry_insert rel t) es []"

definition ledger_from_snapshot :: "snapshot_ledger \<Rightarrow> fact_ledger" where
  "ledger_from_snapshot sl = \<lparr>fl_replicated = sets_of (sl_replicated sl), fl_retracted = sets_of (sl_retracted sl)\<rparr>"

subsection \<open>Queries\<close>

datatype query_arg = QVariable | QString string | QName string | QNumber i64

record parsed_query =
  pq_predicate :: string
  pq_args :: "query_arg list"

fun arg_matches :: "query_arg \<Rightarrow> mvalue \<Rightarrow> bool" where
  "arg_matches QVariable v = True"
| "arg_matches (QString s) v = (v = Str s)"
| "arg_matches (QName s) v = (v = Name s)"
| "arg_matches (QNumber n) v = (v = Number n)"

fun tuple_matches :: "query_arg list \<Rightarrow> tuple \<Rightarrow> bool" where
  "tuple_matches [] t = True"
| "tuple_matches (a # as) [] = False"
| "tuple_matches (a # as) (v # t) = (arg_matches a v \<and> tuple_matches as t)"

definition filter_tuples :: "tuple list \<Rightarrow> parsed_query \<Rightarrow> tuple list" where
  "filter_tuples ts q = filter (tuple_matches (pq_args q)) ts"

text \<open>A pattern beyond the columns of a tuple matches only if it is a wildcard.\<close>

fun pattern_matches :: "mvalue option list \<Rightarrow> tuple \<Rightarrow> bool" where
  "pattern_matches [] t = True"
| "pattern_matches (p # ps) [] = (p = None \<and> pattern_matches ps [])"
| "pattern_matches (p # ps) (v # t) = ((p = None \<or> p = Some v) \<and> pattern_matches ps t)"

subsection \<open>The registry\<close>

record stored_program =
  st_source :: string
  st_predicates :: "string list"
  st_db :: database
  st_ledger :: fact_ledger

record 'l mutation_log =
  ml_persist :: "string list"
  ml_files :: 'l

record ('b, 'l) server_env =
  se_db :: "'b db_env"
  se_sources :: "string \<Rightarrow> edb_source list"
  se_cached :: bool
  se_parse_query :: "string \<Rightarrow> parsed_query result"
  se_display :: "mvalue \<Rightarrow> string"
  se_append_line :: "string \<Rightarrow> string \<Rightarrow> 'l \<Rightarrow> 'l result"
  se_order :: "(string \<times> stored_program) list \<Rightarrow> (string \<times> stored_program) list"

record ('b, 'l) program_store =
  ps_programs :: "(string \<times> stored_program) list"
  ps_backend :: 'b
  ps_log :: "'l mutation_log option"

record program_info =
  pi_name :: string
  pi_predicates :: "string list"

definition make_db_config :: "('b, 'l) server_env \<Rightarrow> string \<Rightarrow> string \<Rightarrow> database_config" where
  "make_db_config E name source =
     \<lparr>dc_name = name, dc_source = source, dc_edb_sources = se_sources E name, dc_cached = se_cached E\<rparr>"

definition not_found :: "string \<Rightarrow> rerror" where
  "not_found name = Anyhow (''program '' @ [CHR 0x27] @ name @ [CHR 0x27] @ '' not found'')"

definition server_load ::
    "('b, 'l) server_env \<Rightarrow> string \<Rightarrow> string \<Rightarrow> ('b, 'l) program_store \<Rightarrow> (program_info result \<times> ('b, 'l) program_store) option" where
  "server_load E name source st =
     (case database_open (se_db E) (make_db_config E name source) (ps_backend st) of
        None \<Rightarrow> None
      | Some (Inl e) \<Rightarrow> Some (Inl e, st)
      | Some (Inr (db, b)) \<Rightarrow>
          (let predicates = sort (db_relation_names db) in
           Some (Inr \<lparr>pi_name = name, pi_predicates = predicates\<rparr>,
             st\<lparr>ps_programs := AList.update name
                  \<lparr>st_source = source, st_predicates = predicates, st_db = db, st_ledger = ledger_default\<rparr> (ps_programs st),
                ps_backend := b\<rparr>)))"

definition server_list :: "('b, 'l) server_env \<Rightarrow> ('b, 'l) program_store \<Rightarrow> program_info list" where
  "server_list E st = map (\<lambda>(name, p). \<lparr>pi_name = name, pi_predicates = st_predicates p\<rparr>) (se_order E (ps_programs st))"

definition server_remove :: "string \<Rightarrow> ('b, 'l) program_store \<Rightarrow> bool \<times> ('b, 'l) program_store" where
  "server_remove name st = (map_of (ps_programs st) name \<noteq> None, st\<lparr>ps_programs := AList.delete name (ps_programs st)\<rparr>)"

definition server_execute_query :: "('b, 'l) server_env \<Rightarrow> string \<Rightarrow> string \<Rightarrow> ('b, 'l) program_store \<Rightarrow> tuple list result" where
  "server_execute_query E name query st =
     (case map_of (ps_programs st) name of
        None \<Rightarrow> Inl (not_found name)
      | Some p \<Rightarrow> bindR (se_parse_query E query) (\<lambda>q.
          bindR (db_query (st_db p) (pq_predicate q)) (\<lambda>ts. Inr (filter_tuples ts q))))"

definition execute_query_patterns :: "string \<Rightarrow> string \<Rightarrow> mvalue option list \<Rightarrow> ('b, 'l) program_store \<Rightarrow> tuple list result" where
  "execute_query_patterns name predicate patterns st =
     (case map_of (ps_programs st) name of
        None \<Rightarrow> Inl (not_found name)
      | Some p \<Rightarrow> bindR (db_query (st_db p) predicate) (\<lambda>ts. Inr (filter (pattern_matches patterns) ts)))"

subsection \<open>Commands\<close>

datatype apply_outcome =
    Mutated nat nat
  | Loaded string "string list"
  | Deleted
  | NoopDone

fun intercalate_args :: "string list \<Rightarrow> string" where
  "intercalate_args [] = []"
| "intercalate_args [x] = x"
| "intercalate_args (x # xs) = x @ '', '' @ intercalate_args xs"

definition format_fact :: "(mvalue \<Rightarrow> string) \<Rightarrow> string \<Rightarrow> tuple \<Rightarrow> string" where
  "format_fact show rel t = rel @ ''('' @ intercalate_args (map show t) @ '').''"

definition log_append :: "('b, 'l) server_env \<Rightarrow> string \<Rightarrow> mutation_op \<Rightarrow> 'l mutation_log \<Rightarrow> 'l mutation_log result" where
  "log_append E program op log =
     (if program \<notin> set (ml_persist log) then Inr log
      else bindR (se_append_line E program
                    (format_fact (se_display E)
                       (case mo_kind op of OpInsert \<Rightarrow> mo_relation op | OpRetract \<Rightarrow> ''__retract__'' @ mo_relation op) (mo_tuple op))
                    (ml_files log)) (\<lambda>fs. Inr (log\<lparr>ml_files := fs\<rparr>)))"

text \<open>The relations a command touches, and their tuples.\<close>

fun seed_membership :: "database \<Rightarrow> mutation_op list \<Rightarrow> (string \<times> tuple list) list \<Rightarrow> (string \<times> tuple list) list result" where
  "seed_membership db [] M = Inr M"
| "seed_membership db (op # ops) M =
     (if map_of M (mo_relation op) \<noteq> None then seed_membership db ops M
      else bindR (db_query db (mo_relation op)) (\<lambda>ts. seed_membership db ops (AList.update (mo_relation op) ts M)))"

text \<open>The operations that change something, in order, and the number of the others.\<close>

fun classify :: "mutation_op list \<Rightarrow> (string \<times> tuple list) list \<Rightarrow> (mutation_op list \<times> nat) result" where
  "classify [] M = Inr ([], 0)"
| "classify (op # ops) M =
     (case map_of M (mo_relation op) of
        None \<Rightarrow> Inl Panic
      | Some ts \<Rightarrow>
          (case (mo_kind op, mo_tuple op \<in> set ts) of
             (OpInsert, False) \<Rightarrow>
               bindR (classify ops (AList.update (mo_relation op) (mo_tuple op # ts) M)) (\<lambda>(as, n). Inr (op # as, n))
           | (OpRetract, True) \<Rightarrow>
               bindR (classify ops (AList.update (mo_relation op) (removeAll (mo_tuple op) ts) M)) (\<lambda>(as, n). Inr (op # as, n))
           | _ \<Rightarrow> bindR (classify ops M) (\<lambda>(as, n). Inr (as, Suc n))))"

definition batch_op :: "mutation_op \<Rightarrow> database \<Rightarrow> unit result \<times> database" where
  "batch_op op db =
     (case mo_kind op of OpInsert \<Rightarrow> batch_insert (mo_relation op) (mo_tuple op) db
                       | OpRetract \<Rightarrow> batch_retract (mo_relation op) (mo_tuple op) db)"

fun batch_ops :: "mutation_op list \<Rightarrow> database \<Rightarrow> unit result \<times> database" where
  "batch_ops [] db = (Inr (), db)"
| "batch_ops (op # ops) db =
     (case batch_op op db of (Inl e, db1) \<Rightarrow> (Inl e, db1) | (Inr _, db1) \<Rightarrow> batch_ops ops db1)"

definition note_op :: "mutation_op \<Rightarrow> fact_ledger \<Rightarrow> fact_ledger" where
  "note_op op l =
     (case mo_kind op of OpInsert \<Rightarrow> note_insert (mo_relation op) (mo_tuple op) l
                       | OpRetract \<Rightarrow> note_retract (mo_relation op) (mo_tuple op) l)"

fun note_ops ::
    "('b, 'l) server_env \<Rightarrow> string \<Rightarrow> mutation_op list \<Rightarrow> fact_ledger \<Rightarrow> 'l mutation_log option \<Rightarrow>
      unit result \<times> fact_ledger \<times> 'l mutation_log option" where
  "note_ops E program [] l log = (Inr (), l, log)"
| "note_ops E program (op # ops) l log =
     (let l1 = note_op op l in
      case log of
        None \<Rightarrow> note_ops E program ops l1 log
      | Some g \<Rightarrow> (case log_append E program op g of Inl e \<Rightarrow> (Inl e, l1, log) | Inr g1 \<Rightarrow> note_ops E program ops l1 (Some g1)))"

text \<open>The batch of a command: the database it leaves and whether it succeeded.\<close>

definition run_batch :: "'b db_env \<Rightarrow> mutation_op list \<Rightarrow> database \<Rightarrow> 'b \<Rightarrow> (unit result \<times> database \<times> 'b) option" where
  "run_batch E ops db b =
     (case batch_ops ops db of (Inl e, db1) \<Rightarrow> Some (Inl e, db1, b) | (Inr _, db1) \<Rightarrow> batch_commit E db1 b)"

definition not_mutable :: "string \<Rightarrow> rerror" where
  "not_mutable rel = Anyhow (''relation '' @ [CHR 0x27] @ rel @ [CHR 0x27] @
     '' is defined by the program source; only EDB relations can be mutated'')"

definition apply_mutate ::
    "('b, 'l) server_env \<Rightarrow> string \<Rightarrow> mutation_op list \<Rightarrow> ('b, 'l) program_store \<Rightarrow> (apply_outcome result \<times> ('b, 'l) program_store) option" where
  "apply_mutate E program ops st =
     (case map_of (ps_programs st) program of
        None \<Rightarrow> Some (Inl (not_found program), st)
      | Some p \<Rightarrow>
          (case find (\<lambda>op. \<not> is_mutable_relation (st_db p) (mo_relation op)) ops of
             Some op \<Rightarrow> Some (Inl (not_mutable (mo_relation op)), st)
           | None \<Rightarrow>
               (case bindR (seed_membership (st_db p) ops []) (classify ops) of
                  Inl e \<Rightarrow> Some (Inl e, st)
                | Inr (applied, num_skipped) \<Rightarrow>
                    if applied = [] then Some (Inr (Mutated 0 num_skipped), st)
                    else (case run_batch (se_db E) applied (st_db p) (ps_backend st) of
                            None \<Rightarrow> None
                          | Some (r, db, b) \<Rightarrow>
                              (let put = (\<lambda>q st. st\<lparr>ps_programs := AList.update program q (ps_programs st), ps_backend := b\<rparr>) in
                               case r of
                                 Inl e \<Rightarrow> Some (Inl e, put (p\<lparr>st_db := db\<rparr>) st)
                               | Inr _ \<Rightarrow>
                                   (let (r', l, log) = note_ops E program applied (st_ledger p) (ps_log st);
                                        st' = put (p\<lparr>st_db := db, st_ledger := l\<rparr>) (st\<lparr>ps_log := log\<rparr>)
                                    in Some (bindR r' (\<lambda>_. Inr (Mutated (length applied) num_skipped)), st')))))))"

definition server_apply ::
    "('b, 'l) server_env \<Rightarrow> command \<Rightarrow> ('b, 'l) program_store \<Rightarrow> (apply_outcome result \<times> ('b, 'l) program_store) option" where
  "server_apply E cmd st =
     (case cmd of
        Mutate program ops \<Rightarrow> apply_mutate E program ops st
      | LoadProgram name source \<Rightarrow>
          map_option (\<lambda>(r, st'). (bindR r (\<lambda>i. Inr (Loaded (pi_name i) (pi_predicates i))), st')) (server_load E name source st)
      | DeleteProgram name \<Rightarrow>
          (let (found, st') = server_remove name st in Some (if found then Inr Deleted else Inl (not_found name), st'))
      | Noop \<Rightarrow> Some (Inr NoopDone, st))"

definition mutate_one :: "string \<Rightarrow> string \<Rightarrow> tuple \<Rightarrow> mutation_op_kind \<Rightarrow> command" where
  "mutate_one program rel t kind = Mutate program [\<lparr>mo_kind = kind, mo_relation = rel, mo_tuple = t\<rparr>]"

definition insert_fact ::
    "('b, 'l) server_env \<Rightarrow> string \<Rightarrow> string \<Rightarrow> tuple \<Rightarrow> ('b, 'l) program_store \<Rightarrow> (unit result \<times> ('b, 'l) program_store) option" where
  "insert_fact E name rel t st =
     map_option (\<lambda>(r, st'). (bindR r (\<lambda>_. Inr ()), st')) (server_apply E (mutate_one name rel t OpInsert) st)"

definition retract_fact ::
    "('b, 'l) server_env \<Rightarrow> string \<Rightarrow> string \<Rightarrow> tuple \<Rightarrow> ('b, 'l) program_store \<Rightarrow> (unit result \<times> ('b, 'l) program_store) option" where
  "retract_fact E name rel t st =
     map_option (\<lambda>(r, st'). (bindR r (\<lambda>_. Inr ()), st')) (server_apply E (mutate_one name rel t OpRetract) st)"

subsection \<open>Snapshots\<close>

definition snapshot_state :: "('b, 'l) server_env \<Rightarrow> ('b, 'l) program_store \<Rightarrow> snapshot_program list" where
  "snapshot_state E st =
     map (\<lambda>(name, p). \<lparr>ssp_name = name, ssp_source = st_source p, ssp_ledger = ledger_to_snapshot (st_ledger p)\<rparr>)
       (se_order E (ps_programs st))"

text \<open>The batch that replays a ledger: the replicated facts inserted, the retracted ones retracted again.\<close>

definition replay_ops :: "fact_ledger \<Rightarrow> mutation_op list" where
  "replay_ops l =
     map (\<lambda>(rel, t). \<lparr>mo_kind = OpInsert, mo_relation = rel, mo_tuple = t\<rparr>) (entries_of (fl_replicated l)) @
     map (\<lambda>(rel, t). \<lparr>mo_kind = OpRetract, mo_relation = rel, mo_tuple = t\<rparr>) (entries_of (fl_retracted l))"

definition install_program ::
    "('b, 'l) server_env \<Rightarrow> snapshot_program \<Rightarrow> ('b, 'l) program_store \<Rightarrow> (unit result \<times> ('b, 'l) program_store) option" where
  "install_program E sp st =
     (case server_load E (ssp_name sp) (ssp_source sp) st of
        None \<Rightarrow> None
      | Some (Inl e, st1) \<Rightarrow> Some (Inl e, st1)
      | Some (Inr info, st1) \<Rightarrow>
          (let l = ledger_from_snapshot (ssp_ledger sp) in
           case map_of (ps_programs st1) (pi_name info) of
             None \<Rightarrow> Some (Inl Panic, st1)
           | Some p \<Rightarrow>
               (case (if ledger_is_empty l then Some (Inr (), st_db p, ps_backend st1)
                      else run_batch (se_db E) (replay_ops l) (st_db p) (ps_backend st1)) of
                  None \<Rightarrow> None
                | Some (r, db, b) \<Rightarrow>
                    Some (r, st1\<lparr>ps_programs := AList.update (pi_name info)
                                   (p\<lparr>st_db := db, st_ledger := (case r of Inl _ \<Rightarrow> st_ledger p | Inr _ \<Rightarrow> l)\<rparr>) (ps_programs st1),
                                 ps_backend := b\<rparr>))))"

fun install_programs ::
    "('b, 'l) server_env \<Rightarrow> snapshot_program list \<Rightarrow> ('b, 'l) program_store \<Rightarrow> (unit result \<times> ('b, 'l) program_store) option" where
  "install_programs E [] st = Some (Inr (), st)"
| "install_programs E (sp # sps) st =
     (case install_program E sp st of
        None \<Rightarrow> None
      | Some (Inl e, st1) \<Rightarrow> Some (Inl e, st1)
      | Some (Inr _, st1) \<Rightarrow> install_programs E sps st1)"

definition install_snapshot_state ::
    "('b, 'l) server_env \<Rightarrow> snapshot_program list \<Rightarrow> ('b, 'l) program_store \<Rightarrow> (unit result \<times> ('b, 'l) program_store) option" where
  "install_snapshot_state E snap st = install_programs E snap (st\<lparr>ps_programs := []\<rparr>)"

end
