(* ===== verification/Ledger_Props.thy ===== *)
theory Ledger_Props
  imports Server
begin

text \<open>
  The fact ledger as sets of facts.  Values of one fragment of the value order (without integers, or
  without floats, times and durations) compare equal only when they are equal; on tuples of such values
  the sets of the ledger are sets.  \<open>ledger_tracks\<close> relates a ledger to the facts of a store and those its
  sources supply.
\<close>

subsection \<open>Sets and maps\<close>

definition in_fragment :: "(mvalue \<Rightarrow> bool) \<Rightarrow> tuple \<Rightarrow> bool" where
  "in_fragment Q t \<longleftrightarrow> Q \<in> {integral, no_number} \<and> list_all Q t"

lemma fragment_Equal: "in_fragment Q t \<Longrightarrow> in_fragment Q u \<Longrightarrow> values_cmp t u = Equal \<longleftrightarrow> t = u"
  by (rule values_cmp_Equal, rule fragment_cmp_Equal) (auto simp: in_fragment_def list_all_iff)

lemma bset_insert_set:
  assumes "in_fragment Q t" "\<forall>x\<in>set xs. in_fragment Q x"
  shows "set (bset_insert t xs) = insert t (set xs)"
  using assms(2)
proof (induction xs)
  case (Cons x xs)
  have "values_cmp t x = Equal \<longleftrightarrow> t = x"
    using Cons.prems assms(1) by (simp add: fragment_Equal)
  then show ?case
    using Cons by (cases "values_cmp t x") auto
qed simp

lemma bset_contains_set: "in_fragment Q t \<Longrightarrow> \<forall>x\<in>set xs. in_fragment Q x \<Longrightarrow> bset_contains t xs \<longleftrightarrow> t \<in> set xs"
  by (auto simp: bset_contains_def list_ex_iff fragment_Equal)

lemma bset_remove_set: "in_fragment Q t \<Longrightarrow> \<forall>x\<in>set xs. in_fragment Q x \<Longrightarrow> set (bset_remove t xs) = set xs - {t}"
  by (auto simp: bset_remove_def fragment_Equal)

lemma map_of_btree_insert [simp]: "map_of (btree_insert k v m) = (map_of m)(k \<mapsto> v)"
  by (induction m) (auto simp: fun_eq_iff)

lemma btree_insert_keys: "fst ` set (btree_insert k v m) = insert k (fst ` set m)"
proof (induction m)
  case (Cons x m)
  then show ?case by (cases x) (simp add: insert_commute)
qed simp

definition keys_sorted :: "(string \<times> 'v) list \<Rightarrow> bool" where
  "keys_sorted m \<longleftrightarrow> sorted_wrt (<) (map fst m)"

lemma keys_sorted_insert: "keys_sorted m \<Longrightarrow> keys_sorted (btree_insert k v m)"
proof (induction m)
  case (Cons x m)
  obtain k' v' where x: "x = (k', v')"
    by (cases x)
  have rest: "keys_sorted (btree_insert k v m)" and less: "\<forall>y\<in>fst ` set m. k' < y"
    using Cons x by (auto simp: keys_sorted_def)
  show ?case
  proof (cases "k < k'")
    case True
    then show ?thesis
      using Cons.prems less x by (force simp: keys_sorted_def)
  next
    case False
    then show ?thesis
      using Cons.prems rest less x btree_insert_keys [of k v m] by (auto simp: keys_sorted_def)
  qed
qed (simp add: keys_sorted_def)

lemma keys_sorted_distinct: "keys_sorted m \<Longrightarrow> distinct (map fst m)"
  by (auto simp: keys_sorted_def strict_sorted_iff)

lemma facts_in_insert: "facts_in (btree_insert rel s m) r = (if r = rel then s else facts_in m r)"
  by (simp add: facts_in_def)

subsection \<open>Well-formed fact sets\<close>

definition sets_ok :: "(mvalue \<Rightarrow> bool) \<Rightarrow> fact_sets \<Rightarrow> bool" where
  "sets_ok Q m \<longleftrightarrow> keys_sorted m \<and> (\<forall>r. \<forall>t\<in>set (facts_in m r). in_fragment Q t)"

definition fact_set :: "fact_sets \<Rightarrow> string \<Rightarrow> tuple set" where
  "fact_set m r = set (facts_in m r)"

lemma sets_ok_Nil [simp]: "sets_ok Q []" "fact_set [] r = {}"
  by (simp_all add: sets_ok_def keys_sorted_def facts_in_def fact_set_def)

lemma entry_insert_ok:
  assumes "sets_ok Q m" "in_fragment Q t"
  shows "sets_ok Q (entry_insert rel t m)" "fact_set (entry_insert rel t m) = (fact_set m)(rel := insert t (fact_set m rel))"
proof -
  have "set (bset_insert t (facts_in m rel)) = insert t (set (facts_in m rel))"
    using assms by (intro bset_insert_set) (auto simp: sets_ok_def)
  then show "sets_ok Q (entry_insert rel t m)" "fact_set (entry_insert rel t m) = (fact_set m)(rel := insert t (fact_set m rel))"
    using assms by (auto simp: sets_ok_def entry_insert_def facts_in_insert fact_set_def keys_sorted_insert fun_eq_iff)
qed

lemma update_ok:
  assumes "sets_ok Q m" "set s \<subseteq> fact_set m rel"
  shows "sets_ok Q (btree_insert rel s m)" "fact_set (btree_insert rel s m) = (fact_set m)(rel := set s)"
  using assms by (auto simp: sets_ok_def facts_in_insert fact_set_def keys_sorted_insert fun_eq_iff)

lemma entries_of_set: "keys_sorted m \<Longrightarrow> (r, t) \<in> set (entries_of m) \<longleftrightarrow> t \<in> fact_set m r"
proof -
  assume "keys_sorted m"
  then have "map_of m r = Some ts \<longleftrightarrow> (r, ts) \<in> set m" for ts
    by (simp add: keys_sorted_distinct)
  moreover have "(r, t) \<in> set (entries_of m) \<longleftrightarrow> (\<exists>ts. (r, ts) \<in> set m \<and> t \<in> set ts)"
    by (force simp: entries_of_def)
  moreover have "t \<in> fact_set m r \<longleftrightarrow> (\<exists>ts. map_of m r = Some ts \<and> t \<in> set ts)"
    by (cases "map_of m r") (simp_all add: fact_set_def facts_in_def)
  ultimately show ?thesis
    by blast
qed

lemma sets_of_spec:
  assumes "\<forall>(r, t)\<in>set es. in_fragment Q t"
  shows "sets_ok Q (sets_of es) \<and> fact_set (sets_of es) = (\<lambda>r. {t. (r, t) \<in> set es})"
proof -
  have "sets_ok Q m \<Longrightarrow> sets_ok Q (fold (\<lambda>(rel, t). entry_insert rel t) es m) \<and>
      fact_set (fold (\<lambda>(rel, t). entry_insert rel t) es m) = (\<lambda>r. fact_set m r \<union> {t. (r, t) \<in> set es})" for m
    using assms
  proof (induction es arbitrary: m)
    case (Cons e es)
    obtain rel t where e: "e = (rel, t)"
      by (cases e)
    note ins = entry_insert_ok [OF Cons.prems(1), of t rel]
    show ?case
      using Cons.IH [OF ins(1)] Cons.prems(2) ins(2) e by (auto simp: fun_eq_iff)
  qed simp
  from this [of "[]"] show ?thesis
    by (simp add: sets_of_def)
qed

subsection \<open>The ledger and the facts\<close>

definition ledger_tracks :: "(mvalue \<Rightarrow> bool) \<Rightarrow> (string \<Rightarrow> tuple set) \<Rightarrow> (string \<Rightarrow> tuple set) \<Rightarrow> fact_ledger \<Rightarrow> bool" where
  "ledger_tracks Q L F l \<longleftrightarrow> sets_ok Q (fl_replicated l) \<and> sets_ok Q (fl_retracted l) \<and>
     (\<forall>r. F r = (L r - fact_set (fl_retracted l) r) \<union> fact_set (fl_replicated l) r) \<and>
     (\<forall>r. fact_set (fl_replicated l) r \<inter> L r = {}) \<and> (\<forall>r. fact_set (fl_retracted l) r \<subseteq> L r)"

lemma tracks_default: "ledger_tracks Q L L ledger_default"
  by (simp add: ledger_tracks_def ledger_default_def)

lemma tracks_insert:
  assumes "ledger_tracks Q L F l" "in_fragment Q t" "t \<notin> L r"
  shows "ledger_tracks Q L (F(r := insert t (F r))) (note_insert r t l)"
proof -
  have ok: "sets_ok Q (fl_replicated l)" "sets_ok Q (fl_retracted l)" and ret: "fact_set (fl_retracted l) r \<subseteq> L r"
    using assms(1) by (simp_all add: ledger_tracks_def)
  note rep = entry_insert_ok [OF ok(1) assms(2), of r]
  have "sets_ok Q (fl_retracted (note_insert r t l)) \<and> fact_set (fl_retracted (note_insert r t l)) = fact_set (fl_retracted l)"
  proof (cases "map_of (fl_retracted l) r")
    case (Some s)
    then have s: "facts_in (fl_retracted l) r = s" "filter (\<lambda>x. x \<noteq> t) s = s"
      using ret assms(3) by (auto simp: facts_in_def fact_set_def intro!: filter_True)
    then show ?thesis
      using update_ok [OF ok(2), of s r] Some by (auto simp: note_insert_def fact_set_def fun_eq_iff)
  qed (simp add: note_insert_def ok)
  moreover have "fl_replicated (note_insert r t l) = entry_insert r t (fl_replicated l)"
    by (simp add: note_insert_def)
  ultimately show ?thesis
    using assms(1,3) rep unfolding ledger_tracks_def by auto
qed

lemma tracks_retract:
  assumes "ledger_tracks Q L F l" "in_fragment Q t" "t \<in> F r"
  shows "ledger_tracks Q L (F(r := F r - {t})) (note_retract r t l)"
proof -
  have ok: "sets_ok Q (fl_replicated l)" "sets_ok Q (fl_retracted l)"
    and F: "F r = (L r - fact_set (fl_retracted l) r) \<union> fact_set (fl_replicated l) r"
    using assms(1) by (simp_all add: ledger_tracks_def)
  have frag: "\<forall>x\<in>set (facts_in (fl_replicated l) r). in_fragment Q x"
    using ok(1) by (simp add: sets_ok_def)
  have contains: "replicated_contains r t l \<longleftrightarrow> t \<in> fact_set (fl_replicated l) r"
    using bset_contains_set [OF assms(2) frag] by (simp add: replicated_contains_def fact_set_def)
  have removed: "set (bset_remove t (facts_in (fl_replicated l) r)) = fact_set (fl_replicated l) r - {t}"
    using bset_remove_set [OF assms(2) frag] by (simp add: fact_set_def)
  show ?thesis
  proof (cases "t \<in> fact_set (fl_replicated l) r")
    case True
    then show ?thesis
      using assms(1) contains removed update_ok [OF ok(1), of "bset_remove t (facts_in (fl_replicated l) r)" r]
      unfolding ledger_tracks_def note_retract_def by auto
  next
    case False
    then show ?thesis
      using assms F contains entry_insert_ok [OF ok(2) assms(2), of r]
      unfolding ledger_tracks_def note_retract_def by auto
  qed
qed

text \<open>A ledger that is saved and read back tracks the same facts.\<close>

lemma snapshot_ledger:
  assumes "ledger_tracks Q L F l"
  shows "ledger_tracks Q L F (ledger_from_snapshot (ledger_to_snapshot l)) \<and>
    fact_set (fl_replicated (ledger_from_snapshot (ledger_to_snapshot l))) = fact_set (fl_replicated l)"
proof -
  have saved: "sets_ok Q (sets_of (entries_of m))" "fact_set (sets_of (entries_of m)) = fact_set m" if "sets_ok Q m" for m
  proof -
    have "keys_sorted m" "\<And>r t. t \<in> fact_set m r \<Longrightarrow> in_fragment Q t"
      using that by (auto simp: sets_ok_def fact_set_def)
    then have "\<forall>(r, t)\<in>set (entries_of m). in_fragment Q t"
      using entries_of_set by blast
    then show "sets_ok Q (sets_of (entries_of m))" "fact_set (sets_of (entries_of m)) = fact_set m"
      using sets_of_spec [of "entries_of m" Q] entries_of_set [OF \<open>keys_sorted m\<close>] by auto
  qed
  show ?thesis
    using assms saved unfolding ledger_tracks_def ledger_from_snapshot_def ledger_to_snapshot_def by simp
qed

end
