(* ===== verification/Driver_Props.thy ===== *)
theory Driver_Props
  imports Driver_Plans Demo
begin

text \<open>
  Properties of the driver over \<open>MemStore\<close>.
\<close>

declare fixpoint_loop.simps [code]

subsection \<open>A rule that reads its own predicate twice\<close>

text \<open>The program \<open>s(1). s(2) :- s(1). f(1,2,3). s(X) :- s(Y), s(Z), f(Y,Z,X).\<close>, as lowering produces
  it, and the running of one of its rules once more on the state the driver ends in.\<close>

definition nl_ir :: ir where
  "nl_ir = ir_new\<lparr>name_store := \<lparr>imap = [''s'' \<mapsto> 1, ''f'' \<mapsto> 2, ''X'' \<mapsto> 3, ''Y'' \<mapsto> 4, ''Z'' \<mapsto> 5],
      ivec = [''s'', ''f'', ''X'', ''Y'', ''Z'']\<rparr>,
    insts := [INumber 1, INumber 2, INumber 3, IAtom 1 [1], IAtom 1 [2], IAtom 2 [1, 2, 3],
      IVar 3, IVar 4, IVar 5, IAtom 1 [7], IAtom 1 [8], IAtom 1 [9], IAtom 2 [8, 9, 7],
      IRule 4 [] [], IRule 5 [4] [], IRule 6 [] [], IRule 10 [11, 12, 13] []]\<rparr>"
definition nl_arena :: arena where
  "nl_arena = \<lparr>ar_interner = \<lparr>ai_map = [(''f'', 2), (''s'', 1), (''_'', 0)], ai_vec = [''_'', ''s'', ''f'']\<rparr>,
     ar_predicates = [\<lparr>sy_name = 1, sy_arity = Some 1\<rparr>, \<lparr>sy_name = 2, sy_arity = Some 3\<rparr>], ar_functions = []\<rparr>"
definition nl_sp :: stratified_program where
  "nl_sp = \<lparr>sp_program = program_new, sp_strata = [[1], [0]]\<rparr>"

definition rerun :: "inst_id \<Rightarrow> string \<Rightarrow> mem_store interp_cfg \<times> mem_store istate \<Rightarrow> (tuple list \<times> nat) result" where
  "rerun rule nm r =
     (let (C, st) = r in
      bindR (mem_scan (st_store st) nm) (\<lambda>ts.
      bindR (plan_with False None rule (cf_ir C)) (\<lambda>(p, m).
      bindR (fst (execute (C\<lparr>cf_ir := m\<rparr>) p st)) (\<lambda>n. Inr (ts, n)))))"

text \<open>Semi-naive evaluation loses facts when a rule reads a predicate of its own stratum twice: in
  the delta plan every such occurrence that has no bound column scans the delta only, so that a fact of
  the last round never meets one of an earlier round.  On the program above the driver returns with
  \<open>s = {1, 2}\<close>, while running the plan of its last rule on that very store still inserts a fact,
  \<open>s(3)\<close>.\<close>

theorem seminaive_incomplete:
  "map_option (\<lambda>r. bindR r (rerun 17 ''s''))
     (execute_with_options False (\<lambda>r s. Inr s) (demo_cfg\<lparr>cf_ir := nl_ir\<rparr>) nl_arena nl_sp mem_new False)
   = Some (Inr ([[Number 1], [Number 2]], 1))"
  by code_simp

subsection \<open>What the driver stores\<close>

definition mem_facts :: "mem_store \<Rightarrow> fact set" where
  "mem_facts s = {(r, t). t \<in> set (stable_facts s r @ delta_facts s r @ next_facts s r)}"

lemma mem_facts_eq: "mem_facts s = ms.facts s"
  by (simp add: mem_facts_def ms.facts_def)

text \<open>A store a run may start from: no insertion is pending, and \<open>A\<close> gives the arities registered.\<close>

definition start_store :: "(string \<Rightarrow> nat) \<Rightarrow> mem_store \<Rightarrow> bool" where
  "start_store A s \<longleftrightarrow> store_inv s \<and> (\<forall>r n. arity s r = Some n \<longrightarrow> n = A r) \<and> (\<forall>r. next_facts s r = [])"

lemma start_store_eq: "start_store A s = ims.ready A s"
  by (simp add: start_store_def ims.ready_def ims.arities_def)

lemma create_start:
  assumes "start_store A s"
  shows "start_store A (mem_create_relation r s)" "mem_facts (mem_create_relation r s) = mem_facts s"
proof -
  have "represents s (stable_facts s) (delta_facts s) (next_facts s)"
    using assms by (simp add: start_store_def inv_represents)
  then have rep: "represents (mem_create_relation r s) (stable_facts s) (delta_facts s) (next_facts s)"
    by (rule mem_create_represents)
  have "arity (mem_create_relation r s) = arity s"
    by (simp add: mem_create_relation_def)
  then show "start_store A (mem_create_relation r s)" "mem_facts (mem_create_relation r s) = mem_facts s"
    using assms represents_inv [OF rep] represents_facts [OF rep] by (simp_all add: start_store_def mem_facts_def)
qed

lemma create_all_start:
  "start_store A s \<Longrightarrow> start_store A (fold mem_create_relation rs s) \<and> mem_facts (fold mem_create_relation rs s) = mem_facts s"
  by (induction rs arbitrary: s) (simp_all add: create_start)

lemma facts_of_keys: "t \<in> set (facts_of s tab r) \<Longrightarrow> r \<in> fst ` set tab"
  by (cases "map_of tab r") (auto simp: facts_of_def rows_def map_of_eq_None_iff intro: rev_image_eqI dest!: map_of_SomeD)

lemma finite_mem_facts: "finite (mem_facts s)"
proof -
  have "mem_facts s \<subseteq> (SIGMA r : fst ` set (mem_store.stable s) \<union> fst ` set (mem_store.delta s) \<union> fst ` set (next_delta s).
      set (stable_facts s r @ delta_facts s r @ next_facts s r))"
    using facts_of_keys by (fastforce simp: mem_facts_def)
  then show ?thesis
    by (rule finite_subset) (intro finite_SigmaI, simp_all)
qed

lemma fits_code [code]:
  "fits m A ops = list_all (\<lambda>p. list_all (\<lambda>(rel, n). case resolve_name m rel of Inl _ \<Rightarrow> True | Inr nm \<Rightarrow> A nm = n) (writes p)) ops"
  by (auto simp: fits_def list_all_iff split: sum.splits)

lemma flat_map_sources [simp]: "flat (map_sources h p) = flat p"
  by (induction p) (simp_all add: list_all_iff)

lemma flat_all_plans: "stratum_ok plan \<Longrightarrow> \<forall>p\<in>set (stratum_ops plan). flat p \<Longrightarrow> \<forall>p\<in>set (all_plans plan). flat p"
proof (cases plan rule: stratum_ok.cases)
  case (3 ops deltas)
  assume "stratum_ok plan" and flat: "\<forall>p\<in>set (stratum_ops plan). flat p"
  then have "\<forall>q\<in>set deltas. flat (full_plan q)"
    using 3 by (simp add: list_all_iff)
  then show ?thesis
    using flat 3 by (auto simp: full_plan_def)
qed simp_all

text \<open>The programs the guarantees cover: rules do not aggregate, no predicate carries time intervals, plans
  are well scoped, no relation of a stratum is negated in it or read twice by one plan, and \<open>A\<close> gives the
  arities.\<close>

definition covered :: "(string \<Rightarrow> nat) \<Rightarrow> arena \<Rightarrow> stratified_program \<Rightarrow> ir \<Rightarrow> bool" where
  "covered A a sp m \<longleftrightarrow> no_aggregates m \<and> temporal_predicates m = [] \<and>
     (case plan_strata False a (sp_strata sp) m of
        Inl _ \<Rightarrow> True
      | Inr (plans, m') \<Rightarrow> list_all (\<lambda>plan. rules_ok (stratum_ops plan) \<and> fits m' A (stratum_ops plan)) plans)"

text \<open>Programs that compute no new values: plans only copy columns, constants and components of compounds.\<close>

definition copying :: "arena \<Rightarrow> stratified_program \<Rightarrow> ir \<Rightarrow> bool" where
  "copying a sp m \<longleftrightarrow>
     (case plan_strata False a (sp_strata sp) m of
        Inl _ \<Rightarrow> True
      | Inr (plans, _) \<Rightarrow> list_all (\<lambda>plan. list_all flat (stratum_ops plan)) plans)"

lemma coveredD:
  assumes "covered A a sp m" "ir_inv m" "plan_strata False a (sp_strata sp) m = Inr (plans, m')"
  shows "list_all stratum_ok plans" "list_all (\<lambda>plan. fits m' A (stratum_ops plan)) plans"
    "interner_inv (name_store m')" "temporal_predicates m' = []"
proof -
  have g: "ir_grown m m'"
    by (rule plan_strata_grown [OF assms(3)])
  then show "interner_inv (name_store m')" "temporal_predicates m' = []"
    using assms(1,2) ir_grown_inv [OF g] by (simp_all add: ir_inv_def ir_grown_def covered_def)
  have ok: "list_all (\<lambda>plan. rules_ok (stratum_ops plan)) plans"
    using assms(1,3) by (simp add: covered_def list_all_iff)
  show "list_all (\<lambda>plan. fits m' A (stratum_ops plan)) plans"
    using assms(1,3) by (simp add: covered_def list_all_iff)
  show "list_all stratum_ok plans"
    by (rule planned_strata_ok [OF assms(3,2) _ ok]) (use assms(1) in \<open>simp add: covered_def\<close>)
qed

text \<open>The state in which the strata start to run.\<close>

lemma driver_unfold:
  assumes "plan_strata False a (sp_strata sp) (cf_ir C) = Inr (plans, m)" "temporal_predicates m = []"
    and "cf_store C = mem_ops" "start_store A s"
  shows "\<exists>st. execute_with_options False co C a sp s prov =
      thenO (run_strata co [] (C\<lparr>cf_ir := m\<rparr>) plans st) (\<lambda>st'. Some (Inr (C\<lparr>cf_ir := m\<rparr>, st'))) \<and>
    start_store A (st_store st) \<and> mem_facts (st_store st) = mem_facts s"
proof -
  have "so_create_relation mem_ops = mem_create_relation"
    by (simp add: mem_ops_def)
  then show ?thesis
    using create_all_start [OF assms(4)] assms(1-3)
    by (intro exI [of _ "\<lparr>st_store = fold mem_create_relation (List.map_filter (predicate_name a) (ext_preds (sp_program sp))) s,
        st_prov = if prov then Some \<lparr>prov_entries = [], active_premises = []\<rparr> else None, st_env = Map.empty\<rparr>"])
       (simp add: execute_with_options_def thenO_def [of "Some (Inr _)"] Let_def)
qed

text \<open>The facts of the store after a run that returns.\<close>

lemma driver_model:
  assumes "ir_inv (cf_ir C)" "covered A a sp (cf_ir C)" "cf_store C = mem_ops" "start_store A s"
    and run: "execute_with_options False co C a sp s prov = Some (Inr (C', st'))"
  shows "\<exists>plans G. plan_strata False a (sp_strata sp) (cf_ir C) = Inr (plans, cf_ir C') \<and>
    strata_model C' plans (mem_facts s) G \<and>
    (\<forall>r. \<exists>ts. mem_scan (st_store st') r = Inr ts \<and> distinct ts \<and> set ts = {t. (r, t) \<in> G}) \<and> start_store A (st_store st')"
proof -
  obtain plans m where plans: "plan_strata False a (sp_strata sp) (cf_ir C) = Inr (plans, m)"
    using run by (auto simp: execute_with_options_def thenO_Some)
  note cov = coveredD [OF assms(2,1) plans]
  obtain st where st: "run_strata co [] (C\<lparr>cf_ir := m\<rparr>) plans st = Some (Inr st')" "C' = C\<lparr>cf_ir := m\<rparr>"
    "start_store A (st_store st)" "mem_facts (st_store st) = mem_facts s"
    using driver_unfold [OF plans cov(4) assms(3,4), of co prov] unfolding run by (force simp: thenO_Some dest: sym)
  have model: "ims.ready A (st_store st')" "strata_model C' plans (mem_facts s) (mem_facts (st_store st'))"
    using ims.strata_models [of "C\<lparr>cf_ir := m\<rparr>", OF _ _ _ cov(1) _ st(1)] cov(2,3) assms(3) st(2-4)
    by (simp_all add: start_store_eq mem_facts_eq)
  then have inv: "store_inv (st_store st')" "\<forall>r. next_facts (st_store st') r = []"
    by (simp_all add: ims.ready_def)
  have "\<exists>ts. mem_scan (st_store st') r = Inr ts \<and> distinct ts \<and> set ts = {t. (r, t) \<in> mem_facts (st_store st')}" for r
    using scan_facts(1) [OF inv(1)] ms.facts_distinct [OF inv(1), of r] inv(2) by (auto simp: mem_facts_def)
  then show ?thesis
    using plans model st(2) start_store_eq by auto
qed

text \<open>C1: The driver computes the model of a covered program, with hash joins off (\<open>MANGLE_HASHJOIN\<close> unset).
  Covered means: no rule aggregates, no predicate carries time intervals, every plan is well scoped, no
  relation of a stratum is negated in that stratum, a plan reads a relation of its own stratum at most once
  or only through index lookups (linear recursion; see \<open>seminaive_incomplete\<close> for what happens otherwise),
  and heads and stored facts have the arities \<open>A\<close> gives.  When the driver returns without an error on such
  a program and a well-formed store with nothing pending, the store holds, in every relation and without
  duplicates, exactly the facts of the stratified model: stratum by stratum, the least set of facts that
  contains those of the stratum before and is closed under the plans of the rules, negation being read in
  the stratum before.\<close>

theorem driver_computes_model:
  assumes "ir_inv (cf_ir C)" "covered A a sp (cf_ir C)" "cf_store C = mem_ops" "start_store A s"
    and run: "execute_with_options False co C a sp s prov = Some (Inr (C', st'))"
  shows "\<exists>plans G. plan_strata False a (sp_strata sp) (cf_ir C) = Inr (plans, cf_ir C') \<and>
    strata_model C' plans (mem_facts s) G \<and>
    (\<forall>r. \<exists>ts. mem_scan (st_store st') r = Inr ts \<and> distinct ts \<and> set ts = {t. (r, t) \<in> G})"
  using driver_model [OF assms] by blast

text \<open>The program \<open>e(1,2). e(2,3). t(X,Y) :- e(X,Y). t(X,Z) :- e(X,Y), t(Y,Z).\<close>\<close>

definition tc_ir :: ir where
  "tc_ir = ir_new\<lparr>name_store := snd (projr (intern_list intern [''e'', ''t'', ''X'', ''Y'', ''Z''] interner_new)),
    insts := [INumber 1, INumber 2, INumber 3, IAtom 1 [1, 2], IAtom 1 [2, 3], IVar 3, IVar 4, IVar 5,
      IAtom 1 [6, 7], IAtom 2 [6, 7], IAtom 2 [7, 8], IAtom 2 [6, 8],
      IRule 4 [] [], IRule 5 [] [], IRule 10 [9] [], IRule 12 [9, 11] []]\<rparr>"
definition tc_arena :: arena where
  "tc_arena = \<lparr>ar_interner = \<lparr>ai_map = [(''t'', 2), (''e'', 1), (''_'', 0)], ai_vec = [''_'', ''e'', ''t'']\<rparr>,
     ar_predicates = [\<lparr>sy_name = 1, sy_arity = Some 2\<rparr>, \<lparr>sy_name = 2, sy_arity = Some 2\<rparr>], ar_functions = []\<rparr>"
definition tc_sp :: stratified_program where
  "tc_sp = \<lparr>sp_program = program_new, sp_strata = [[0], [1]]\<rparr>"
definition tc_cfg :: "mem_store interp_cfg" where
  "tc_cfg = demo_cfg\<lparr>cf_ir := tc_ir\<rparr>"
definition tc_run :: "(mem_store interp_cfg \<times> mem_store istate) result option" where
  "tc_run = execute_with_options False (\<lambda>r s. Inr s) tc_cfg tc_arena tc_sp mem_new False"

lemma tc_inv: "ir_inv (cf_ir tc_cfg)"
proof -
  have ok: "(case intern_list intern [''e'', ''t'', ''X'', ''Y'', ''Z''] interner_new of Inl _ \<Rightarrow> False | Inr _ \<Rightarrow> True)"
    by code_simp
  obtain ks s where "intern_list intern [''e'', ''t'', ''X'', ''Y'', ''Z''] interner_new = Inr (ks, s)"
    using ok by (auto split: sum.splits)
  then have "interner_inv (snd (projr (intern_list intern [''e'', ''t'', ''X'', ''Y'', ''Z''] interner_new)))"
    using si.intern_list_inv [OF interner_new_inv] by (metis snd_conv sum.sel(2))
  then show ?thesis
    unfolding ir_inv_def tc_cfg_def tc_ir_def by (simp del: intern_list.simps)
qed

lemma tc_covered: "covered (\<lambda>_. 2) tc_arena tc_sp (cf_ir tc_cfg)" "copying tc_arena tc_sp (cf_ir tc_cfg)"
  by code_simp+

lemma tc_start: "cf_store tc_cfg = mem_ops" "start_store A mem_new"
  using mem_new_inv by (simp_all add: tc_cfg_def demo_cfg_def start_store_def mem_new_def facts_of_def rows_def)

lemma tc_result: "map_option (\<lambda>r. bindR r (\<lambda>(C, st). mem_scan (st_store st) ''t'')) tc_run =
    Some (Inr [[Number 1, Number 2], [Number 2, Number 3], [Number 1, Number 3]])"
  by code_simp

theorem driver_computes_model_witness:
  "\<exists>(C' :: mem_store interp_cfg) plans G. plan_strata False tc_arena (sp_strata tc_sp) tc_ir = Inr (plans, cf_ir C') \<and>
     strata_model C' plans (mem_facts mem_new) G \<and>
     {t. (''t'', t) \<in> G} = {[Number 1, Number 2], [Number 2, Number 3], [Number 1, Number 3]}"
proof -
  obtain C' st' where run: "tc_run = Some (Inr (C', st'))"
    and t: "mem_scan (st_store st') ''t'' = Inr [[Number 1, Number 2], [Number 2, Number 3], [Number 1, Number 3]]"
    using tc_result by auto
  obtain plans G where G: "plan_strata False tc_arena (sp_strata tc_sp) (cf_ir tc_cfg) = Inr (plans, cf_ir C')"
    "strata_model C' plans (mem_facts mem_new) G"
    "\<forall>r. \<exists>ts. mem_scan (st_store st') r = Inr ts \<and> distinct ts \<and> set ts = {t. (r, t) \<in> G}"
    using driver_computes_model [OF tc_inv tc_covered(1) tc_start run [unfolded tc_run_def]] by blast
  have "{t. (''t'', t) \<in> G} = {[Number 1, Number 2], [Number 2, Number 3], [Number 1, Number 3]}"
    using G(3) t by (metis Inr_inject list.set)
  then show ?thesis
    using G(1,2) by (intro exI [of _ C'] exI [of _ plans] exI [of _ G]) (simp add: tc_cfg_def)
qed

text \<open>C2: The driver terminates on covered programs that compute no new values, with hash joins off.  Covered is
  as for the model (no aggregation, no temporal predicates, well-scoped plans, no negation within a stratum,
  linear recursion, fixed arities); no new values means that the plans only copy columns, constants and
  components of compounds, and call no function.  From every such program and every well-formed store with
  nothing pending the driver returns, with a result or an error.\<close>

theorem driver_returns:
  assumes "ir_inv (cf_ir C)" "covered A a sp (cf_ir C)" "cf_store C = mem_ops" "start_store A s"
    and flat: "copying a sp (cf_ir C)"
  shows "\<exists>r. execute_with_options False co C a sp s prov = Some r"
proof (cases "plan_strata False a (sp_strata sp) (cf_ir C)")
  case (Inl e)
  then show ?thesis by (simp add: execute_with_options_def thenO_def)
next
  case (Inr x)
  then obtain plans m where plans: "plan_strata False a (sp_strata sp) (cf_ir C) = Inr (plans, m)"
    by (cases x) simp
  note cov = coveredD [OF assms(2,1) plans]
  have ops: "\<forall>plan\<in>set plans. \<forall>p\<in>set (stratum_ops plan). flat p"
    using flat plans by (simp add: copying_def list_all_iff)
  have "\<forall>p\<in>set (all_plans plan). flat p" if "plan \<in> set plans" for plan
    by (rule flat_all_plans) (use that cov(1) ops in \<open>auto simp: list_all_iff\<close>)
  then have "list_all (\<lambda>plan. list_all flat (all_plans plan)) plans"
    by (simp add: list_all_iff)
  then have "\<exists>r. run_strata co [] (C\<lparr>cf_ir := m\<rparr>) plans st = Some r"
    if "start_store A (st_store st)" for st
    using ims.strata_return [of "C\<lparr>cf_ir := m\<rparr>", OF _ _ _ _ cov(1)] cov(2,3) assms(3) that finite_mem_facts
    by (simp add: start_store_eq mem_facts_eq)
  then show ?thesis
    using driver_unfold [OF plans cov(4) assms(3,4), of co prov] by (auto intro!: thenO_returns)
qed

theorem driver_returns_witness: "\<exists>r. tc_run = Some r"
  unfolding tc_run_def by (rule driver_returns [OF tc_inv tc_covered(1) tc_start tc_covered(2)])

end
