(* ===== verification/Database_Props.thy ===== *)
theory Database_Props
  imports Database Mem_Store_Scan Driver_Props
begin

text \<open>
  What a database answers: after opening it, and after any mutations, a query of an external relation
  returns the facts loaded and mutated, and one of a derived relation the model of the program over them.
  The programs where this fails are those of the last section.
\<close>

subsection \<open>Copying relations\<close>

definition same_indexes :: "mem_store \<Rightarrow> mem_store \<Rightarrow> bool" where
  "same_indexes s s' \<longleftrightarrow> stable_indexes s' = stable_indexes s \<and> delta_indexes s' = delta_indexes s"

lemma same_indexes_refl [simp]: "same_indexes s s"
  by (simp add: same_indexes_def)

lemma same_indexes_trans: "same_indexes s s' \<Longrightarrow> same_indexes s' s'' \<Longrightarrow> same_indexes s s''"
  by (simp add: same_indexes_def)

lemma registers_accepts: "registers ar s \<Longrightarrow> length t = ar r \<Longrightarrow> accepts s r t"
  by (cases "arity s r") (auto simp: registers_def accepts_def)

lemma registers_upd: "registers ar s \<Longrightarrow> arity s' = (arity s)(r \<mapsto> ar r) \<Longrightarrow> registers ar s'"
  by (simp add: registers_def)

lemma registers_create: "registers ar (mem_create_relation r s) = registers ar s"
  by (simp add: registers_def mem_create_relation_def)

lemma same_indexes_create: "same_indexes s (mem_create_relation r s)"
  by (simp add: same_indexes_def mem_create_relation_def)

lemma tables_insert_all:
  assumes "tables s A B C" "registers ar s" "\<forall>t\<in>set ts. length t = ar r"
  shows "\<exists>D. tables (insert_all r ts s) A B (C(r := D)) \<and> set D = set (C r) \<union> (set ts - set (A r) - set (B r)) \<and>
    registers ar (insert_all r ts s) \<and> same_indexes s (insert_all r ts s)"
  using assms
proof (induction ts arbitrary: s C)
  case Nil
  then show ?case
    by (intro exI [of _ "C r"]) (simp add: insert_all_def)
next
  case (Cons t ts)
  let ?s = "snd (mem_insert r t s)"
  have acc: "accepts s r t"
    using Cons.prems(2,3) by (simp add: registers_accepts)
  obtain D where D: "tables ?s A B (C(r := D))" "set D = set (C r) \<union> ({t} - set (A r) - set (B r))"
    "arity ?s = (arity s)(r \<mapsto> length t)" "same_indexes s ?s"
    using tables_insert [OF Cons.prems(1) acc] by (auto simp: same_indexes_def)
  have "registers ar ?s"
    by (rule registers_upd [OF Cons.prems(2)]) (use D(3) Cons.prems(3) in simp)
  then obtain D' where "tables (insert_all r ts ?s) A B ((C(r := D))(r := D'))" "set D' = set D \<union> (set ts - set (A r) - set (B r))"
    "registers ar (insert_all r ts ?s)" "same_indexes ?s (insert_all r ts ?s)"
    using Cons.IH [OF D(1)] Cons.prems(3) by fastforce
  moreover have "insert_all r (t # ts) s = insert_all r ts ?s"
    by (simp add: insert_all_def)
  moreover from calculation(2) D(2) have "set D' = set (C r) \<union> (set (t # ts) - set (A r) - set (B r))"
    by auto
  ultimately show ?case
    using same_indexes_trans [OF D(4)] by (intro exI [of _ D']) (simp del: fun_upd_apply)
qed

lemma tables_copies:
  assumes "tables s A B C" "registers ar s" "stores from G" "registers ar from"
  shows "\<exists>s' D. foldR_store (copy_relation from) rs s = Inr s' \<and> tables s' A B D \<and> registers ar s' \<and> same_indexes s s' \<and>
    (\<forall>r. set (D r) = set (C r) \<union> (if r \<in> set rs then G r - set (A r) - set (B r) else {}))"
  using assms(1,2)
proof (induction rs arbitrary: s C)
  case (Cons q rs)
  obtain ts where ts: "mem_scan from q = Inr ts" "set ts = G q"
    using stores_scan [OF assms(3)] by blast
  then have len: "\<forall>t\<in>set ts. length t = ar q"
    using stores_length [OF assms(3,4)] by simp
  let ?s = "insert_all q ts (mem_create_relation q s)"
  obtain D where D: "tables ?s A B (C(q := D))" "set D = set (C q) \<union> (set ts - set (A q) - set (B q))"
    "registers ar ?s" "same_indexes s ?s"
    using tables_insert_all [where r = q and ar = ar, OF tables_create [OF Cons.prems(1), of q] _ len] Cons.prems(2)
      same_indexes_trans [OF same_indexes_create] by (metis registers_create)
  obtain s' D' where "foldR_store (copy_relation from) rs ?s = Inr s'" "tables s' A B D'" "registers ar s'" "same_indexes ?s s'"
    "\<forall>r. set (D' r) = set ((C(q := D)) r) \<union> (if r \<in> set rs then G r - set (A r) - set (B r) else {})"
    using Cons.IH [OF D(1,3)] by blast
  then show ?case
    using ts D(2) same_indexes_trans [OF D(4)] by (intro exI [of _ s'] exI [of _ D']) (auto simp: copy_relation_def [of "from" q s])
qed auto

text \<open>Copying into a store and merging adds the facts copied.\<close>

lemma stores_copies:
  assumes "stores s F" "registers ar s" "stores from G" "registers ar from"
  shows "\<exists>s'. bindR (foldR_store (copy_relation from) rs s) mem_merge_deltas = Inr s' \<and> registers ar s' \<and>
    stores s' (\<lambda>r. F r \<union> (if r \<in> set rs then G r else {}))"
proof -
  obtain A B where t0: "tables s A B (\<lambda>r. [])" "F = (\<lambda>r. set (A r) \<union> set (B r))"
    using assms(1) unfolding stores_def by blast
  obtain s1 D where s1: "foldR_store (copy_relation from) rs s = Inr s1" "tables s1 A B D" "registers ar s1"
    "\<forall>r. set (D r) = (if r \<in> set rs then G r - set (A r) - set (B r) else {})"
    using tables_copies [OF t0(1) assms(2-4), of rs] by auto
  obtain s' where s': "mem_merge_deltas s1 = Inr s'" "arity s' = arity s1" "tables s' (\<lambda>r. A r @ B r) D (\<lambda>r. [])"
    using tables_merge [OF s1(2)] by blast
  have "stores s' (\<lambda>r. F r \<union> (if r \<in> set rs then G r else {}))"
    by (rule tables_stores [OF s'(3)]) (use s1(4) t0(2) in auto)
  then show ?thesis
    using s1(1,3) s'(1,2) by (simp add: registers_def)
qed

text \<open>The store a run starts from: the external facts, in the delta, with exact indexes.\<close>

lemma exec_start:
  assumes "stores from G" "registers ar from"
  shows "\<exists>s'. bindR (foldR_store (copy_relation from) rs mem_new) mem_merge_deltas = Inr s' \<and> start_store ar s' \<and>
    mem_facts s' = {(r, t). r \<in> set rs \<and> t \<in> G r}"
proof -
  have new: "represents mem_new (\<lambda>r. []) (\<lambda>r. []) (\<lambda>r. [])"
    by (simp add: represents_def mem_new_def index_hits_def)
  then have t0: "tables mem_new (\<lambda>r. []) (\<lambda>r. []) (\<lambda>r. [])"
    by (simp add: represents_tables)
  obtain s1 D where s1: "foldR_store (copy_relation from) rs mem_new = Inr s1" "tables s1 (\<lambda>r. []) (\<lambda>r. []) D" "registers ar s1"
    "same_indexes mem_new s1" "\<forall>r. set (D r) = (if r \<in> set rs then G r else {})"
    using tables_copies [OF t0 stores_new(2) assms, of rs] by auto
  have rep: "represents s1 (\<lambda>r. []) (\<lambda>r. []) D"
    using s1(2,4) new unfolding represents_tables same_indexes_def by metis
  obtain s' where s': "mem_merge_deltas s1 = Inr s'" "arity s' = arity s1" "represents s' (\<lambda>r. []) D (\<lambda>r. [])"
    using mem_merge_represents [OF rep] by auto
  then have "start_store ar s'" "mem_facts s' = {(r, t). r \<in> set rs \<and> t \<in> G r}"
    using s1(3,5) represents_inv [OF s'(3)] represents_facts [OF s'(3)]
    by (auto simp: start_store_def registers_def mem_facts_def split: if_splits)
  then show ?thesis
    using s1(1) s'(1) by simp
qed

lemma start_stores:
  assumes "start_store ar s"
  shows "stores s (\<lambda>r. {t. (r, t) \<in> mem_facts s})" "registers ar s"
proof -
  have inv: "store_inv s" "\<And>r. next_facts s r = []"
    using assms by (simp_all add: start_store_def)
  then have "represents s (stable_facts s) (delta_facts s) (\<lambda>r. [])"
    using inv_represents [OF inv(1)] inv(2) by presburger
  then have "tables s (stable_facts s) (delta_facts s) (\<lambda>r. [])"
    by (simp add: represents_tables)
  then show "stores s (\<lambda>r. {t. (r, t) \<in> mem_facts s})"
    by (rule tables_stores) (auto simp: mem_facts_def inv(2))
  show "registers ar s"
    using assms by (simp add: start_store_def registers_def)
qed

subsection \<open>Loading\<close>

definition loaded :: "edb_source list \<Rightarrow> string \<Rightarrow> tuple set" where
  "loaded srcs r = {t. \<exists>src\<in>set srcs. \<exists>rels ts. es_relations src = Inr rels \<and> r \<in> set rels \<and> es_scan src r [] = Inr ts \<and> t \<in> set ts}"

text \<open>Every source returns tuples of the arities given.\<close>

definition source_arities :: "(string \<Rightarrow> nat) \<Rightarrow> edb_source list \<Rightarrow> bool" where
  "source_arities ar srcs \<longleftrightarrow> (\<forall>src\<in>set srcs. \<forall>r ts. es_scan src r [] = Inr ts \<longrightarrow> (\<forall>t\<in>set ts. length t = ar r))"

lemma load_relations_tables:
  assumes "load_relations src (\<lambda>_. []) rels s = (Inr (), s')" "tables s (\<lambda>r. []) (\<lambda>r. []) C" "registers ar s" "source_arities ar [src]"
  shows "\<exists>D. tables s' (\<lambda>r. []) (\<lambda>r. []) D \<and> registers ar s' \<and>
    (\<forall>r. set (D r) = set (C r) \<union> (if r \<in> set rels then {t. \<exists>ts. es_scan src r [] = Inr ts \<and> t \<in> set ts} else {}))"
  using assms(1-3)
proof (induction rels arbitrary: s C)
  case (Cons q rels)
  obtain ts where ts: "es_scan src q [] = Inr ts"
    and rest: "load_relations src (\<lambda>_. []) rels (insert_all q ts (mem_create_relation q s)) = (Inr (), s')"
    using Cons.prems(1) by (auto simp: Let_def split: sum.splits)
  have len: "\<forall>t\<in>set ts. length t = ar q"
    using assms(4) ts by (simp add: source_arities_def)
  have reg: "registers ar (mem_create_relation q s)"
    using Cons.prems(3) by (simp add: registers_create)
  obtain D where D: "tables (insert_all q ts (mem_create_relation q s)) (\<lambda>r. []) (\<lambda>r. []) (C(q := D))" "set D = set (C q) \<union> set ts"
    "registers ar (insert_all q ts (mem_create_relation q s))"
    using tables_insert_all [where r = q and ar = ar, OF tables_create [OF Cons.prems(2), of q] reg len] by auto
  obtain D' where "tables s' (\<lambda>r. []) (\<lambda>r. []) D'" "registers ar s'"
    "\<forall>r. set (D' r) = set ((C(q := D)) r) \<union> (if r \<in> set rels then {t. \<exists>ts. es_scan src r [] = Inr ts \<and> t \<in> set ts} else {})"
    using Cons.IH [OF rest D(1,3)] by blast
  then show ?case
    using ts D(2) by (intro exI [of _ D']) auto
qed auto

lemma load_sources_tables:
  assumes "load_sources (\<lambda>_. []) srcs s = (Inr (), s')" "tables s (\<lambda>r. []) (\<lambda>r. []) C" "registers ar s" "source_arities ar srcs"
  shows "\<exists>D. tables s' (\<lambda>r. []) (\<lambda>r. []) D \<and> registers ar s' \<and> (\<forall>r. set (D r) = set (C r) \<union> loaded srcs r)"
  using assms
proof (induction srcs arbitrary: s C)
  case (Cons src srcs)
  obtain rels s1 where rels: "es_relations src = Inr rels" "load_relations src (\<lambda>_. []) rels s = (Inr (), s1)"
    "load_sources (\<lambda>_. []) srcs s1 = (Inr (), s')"
    using Cons.prems(1) by (auto split: sum.splits prod.splits)
  have ar: "source_arities ar [src]" "source_arities ar srcs"
    using Cons.prems(4) by (auto simp: source_arities_def)
  obtain D where D: "tables s1 (\<lambda>r. []) (\<lambda>r. []) D" "registers ar s1"
    "\<forall>r. set (D r) = set (C r) \<union> (if r \<in> set rels then {t. \<exists>ts. es_scan src r [] = Inr ts \<and> t \<in> set ts} else {})"
    using load_relations_tables [OF rels(2) Cons.prems(2,3) ar(1)] by blast
  obtain D' where "tables s' (\<lambda>r. []) (\<lambda>r. []) D'" "registers ar s'" "\<forall>r. set (D' r) = set (D r) \<union> loaded srcs r"
    using Cons.IH [OF rels(3) D(1,2) ar(2)] by blast
  then show ?case
    using rels(1) D(3) by (intro exI [of _ D']) (auto simp: loaded_def)
qed (auto simp: loaded_def)

lemma load_edb_stores:
  assumes "load_edb_into_store srcs mem_new = (Inr (), s)" "source_arities ar srcs"
  shows "stores s (loaded srcs)" "registers ar s"
proof -
  obtain s1 where s1: "load_sources (\<lambda>_. []) srcs mem_new = (Inr (), s1)" "mem_merge_deltas s1 = Inr s"
    using assms(1) by (auto simp: load_edb_into_store_def load_edb_into_store_filtered_def split: prod.splits sum.splits)
  have t0: "tables mem_new (\<lambda>r. []) (\<lambda>r. []) (\<lambda>r. [])"
    by (simp add: tables_def mem_new_def)
  obtain D where D: "tables s1 (\<lambda>r. []) (\<lambda>r. []) D" "registers ar s1" "\<forall>r. set (D r) = loaded srcs r"
    using load_sources_tables [OF s1(1) t0 stores_new(2) assms(2)] by auto
  obtain s' where s': "mem_merge_deltas s1 = Inr s'" "arity s' = arity s1" "tables s' (\<lambda>r. []) D (\<lambda>r. [])"
    using tables_merge [OF D(1)] by auto
  show "stores s (loaded srcs)"
    by (rule tables_stores) (use s'(1,3) s1(2) D(3) in auto)
  show "registers ar s"
    using s' s1(2) D(2) by (simp add: registers_def)
qed

subsection \<open>Recomputation\<close>

text \<open>What is fixed about a database: the program, compiled, within what the driver guarantees.\<close>

definition compiled :: "'b db_env \<Rightarrow> (string \<Rightarrow> nat) \<Rightarrow> string \<Rightarrow> arena \<Rightarrow> ir \<Rightarrow> stratified_program \<Rightarrow> bool" where
  "compiled E ar source a m sp \<longleftrightarrow> compile_source (en_frontend E) source (en_arena E) = Some (Inr (a, m, sp)) \<and>
     ir_inv m \<and> covered ar a sp m \<and> cf_store (en_cfg E) = mem_ops \<and> \<not> en_hash_join E"

text \<open>\<open>G\<close> is the model of the program over the external facts of \<open>F\<close>.\<close>

definition model_over :: "'b db_env \<Rightarrow> arena \<Rightarrow> ir \<Rightarrow> stratified_program \<Rightarrow> (string \<Rightarrow> tuple set) \<Rightarrow> fact set \<Rightarrow> bool" where
  "model_over E a m sp F G \<longleftrightarrow> (\<exists>plans m'. plan_strata False a (sp_strata sp) m = Inr (plans, m') \<and>
     strata_model ((en_cfg E)\<lparr>cf_ir := m'\<rparr>) plans
       {(r, t). r \<in> set (edb_names E a sp) - set (idb_names E a sp) \<and> t \<in> F r} G)"

lemma full_recompute_Ok:
  assumes "full_recompute E False source s = Some (Inr (edb, idb), s')"
    and "compile_source (en_frontend E) source (en_arena E) = Some (Inr (a, m, sp))"
    and "bindR (foldR_store (copy_relation s) (edb_names E a sp) mem_new) mem_merge_deltas = Inr es"
  shows "\<exists>C' st. execute_with_options (en_hash_join E) (en_coalesce E) ((en_cfg E)\<lparr>cf_ir := m\<rparr>) a sp es False = Some (Inr (C', st)) \<and>
    bindR (foldR_store (copy_relation (st_store st)) (idb_names E a sp) s) mem_merge_deltas = Inr s' \<and>
    edb = edb_names E a sp \<and> idb = idb_names E a sp"
proof (cases "execute_with_options (en_hash_join E) (en_coalesce E) ((en_cfg E)\<lparr>cf_ir := m\<rparr>) a sp es False")
  case None
  then show ?thesis
    using assms by (simp add: full_recompute_def Let_def del: bindR_simps)
next
  case (Some r)
  then show ?thesis
  proof (cases r)
    case (Inl e)
    then show ?thesis
      using assms Some by (simp add: full_recompute_def Let_def)
  next
    case (Inr x)
    obtain C' st where x: "x = (C', st)"
      by (cases x)
    show ?thesis
      using assms Some Inr x
      by (cases "bindR (foldR_store (copy_relation (st_store st)) (idb_names E a sp) s) mem_merge_deltas")
         (simp_all add: full_recompute_def Let_def)
  qed
qed

lemma execute_cfg: "execute_with_options hj co C a sp s prov = Some (Inr (C', st)) \<Longrightarrow> C' = C\<lparr>cf_ir := cf_ir C'\<rparr>"
proof -
  assume run: "execute_with_options hj co C a sp s prov = Some (Inr (C', st))"
  obtain plans m where "plan_strata hj a (sp_strata sp) (cf_ir C) = Inr (plans, m)"
    using run by (auto simp: execute_with_options_def thenO_Some)
  then have "C' = C\<lparr>cf_ir := m\<rparr>"
    using run by (auto simp: execute_with_options_def thenO_Some Let_def)
  then show ?thesis by simp
qed

lemma full_recompute_spec:
  assumes "compiled E ar source a m sp" "stores s F" "registers ar s" "\<And>r. r \<in> set (idb_names E a sp) \<Longrightarrow> F r = {}"
    and run: "full_recompute E False source s = Some (Inr (edb, idb), s')"
  shows "edb = edb_names E a sp \<and> idb = idb_names E a sp \<and> registers ar s' \<and>
    (\<exists>G. model_over E a m sp F G \<and> stores s' (\<lambda>r. if r \<in> set idb then {t. (r, t) \<in> G} else F r))"
proof -
  have comp: "compile_source (en_frontend E) source (en_arena E) = Some (Inr (a, m, sp))" "ir_inv m" "covered ar a sp m"
    "cf_store (en_cfg E) = mem_ops" "\<not> en_hash_join E"
    using assms(1) by (simp_all add: compiled_def)
  let ?C = "(en_cfg E)\<lparr>cf_ir := m\<rparr>"
  obtain es where es: "bindR (foldR_store (copy_relation s) (edb_names E a sp) mem_new) mem_merge_deltas = Inr es"
    "start_store ar es" "mem_facts es = {(r, t). r \<in> set (edb_names E a sp) \<and> t \<in> F r}"
    using exec_start [OF assms(2,3)] by blast
  obtain C' st where ex: "execute_with_options False (en_coalesce E) ?C a sp es False = Some (Inr (C', st))"
    and res: "bindR (foldR_store (copy_relation (st_store st)) (idb_names E a sp) s) mem_merge_deltas = Inr s'"
    and names: "edb = edb_names E a sp" "idb = idb_names E a sp"
    using full_recompute_Ok [OF run comp(1) es(1)] comp(5) by auto
  obtain plans G where G: "plan_strata False a (sp_strata sp) m = Inr (plans, cf_ir C')" "strata_model C' plans (mem_facts es) G"
    "\<forall>r. \<exists>ts. mem_scan (st_store st) r = Inr ts \<and> distinct ts \<and> set ts = {t. (r, t) \<in> G}" "start_store ar (st_store st)"
    using driver_model [OF _ _ _ es(2) ex] comp(2-4) by auto
  have C': "C' = (en_cfg E)\<lparr>cf_ir := cf_ir C'\<rparr>"
    using execute_cfg [OF ex] by simp
  have facts: "mem_facts es = {(r, t). r \<in> set (edb_names E a sp) - set (idb_names E a sp) \<and> t \<in> F r}"
    using es(3) assms(4) by auto
  note st = start_stores [OF G(4)]
  have "{t. (r, t) \<in> mem_facts (st_store st)} = {t. (r, t) \<in> G}" for r
    using stores_scan [OF st(1), of r] G(3) by (metis Inr_inject)
  then have "stores (st_store st) (\<lambda>r. {t. (r, t) \<in> G})"
    using st(1) by presburger
  then have fin: "stores s' (\<lambda>r. F r \<union> (if r \<in> set idb then {t. (r, t) \<in> G} else {}))" "registers ar s'"
    using stores_copies [OF assms(2,3) _ st(2), of _ "idb_names E a sp"] res names(2) by fastforce+
  have "(\<lambda>r. F r \<union> (if r \<in> set idb then {t. (r, t) \<in> G} else {})) = (\<lambda>r. if r \<in> set idb then {t. (r, t) \<in> G} else F r)"
    using assms(4) names(2) by (simp add: fun_eq_iff)
  then have "stores s' (\<lambda>r. if r \<in> set idb then {t. (r, t) \<in> G} else F r)"
    using fin(1) by simp
  moreover have "model_over E a m sp F G"
    unfolding model_over_def facts [symmetric] using G(1,2) C' by metis
  ultimately show ?thesis
    using names fin(2) by blast
qed

subsection \<open>Serving\<close>

text \<open>The database answers with \<open>F\<close> on relations that are not derived and with the model over \<open>F\<close> on those
  that are.\<close>

definition serves :: "'b db_env \<Rightarrow> (string \<Rightarrow> nat) \<Rightarrow> arena \<Rightarrow> ir \<Rightarrow> stratified_program \<Rightarrow> (string \<Rightarrow> tuple set) \<Rightarrow> database \<Rightarrow> bool" where
  "serves E ar a m sp F db \<longleftrightarrow> compiled E ar (dc_source (db_config db)) a m sp \<and>
     db_edb db = edb_names E a sp \<and> db_idb db = idb_names E a sp \<and> registers ar (db_store db) \<and>
     (\<exists>G. model_over E a m sp F G \<and> stores (db_store db) (\<lambda>r. if r \<in> set (db_idb db) then {t. (r, t) \<in> G} else F r))"

lemma model_over_cong: "(\<And>r. r \<in> set (edb_names E a sp) - set (idb_names E a sp) \<Longrightarrow> F r = F' r) \<Longrightarrow> model_over E a m sp F G = model_over E a m sp F' G"
proof -
  assume "\<And>r. r \<in> set (edb_names E a sp) - set (idb_names E a sp) \<Longrightarrow> F r = F' r"
  then have "{(r, t). r \<in> set (edb_names E a sp) - set (idb_names E a sp) \<and> t \<in> F r} =
      {(r, t). r \<in> set (edb_names E a sp) - set (idb_names E a sp) \<and> t \<in> F' r}"
    by auto
  then show ?thesis
    by (simp only: model_over_def)
qed

text \<open>Recomputation restores the service after a change to the facts that are not derived.\<close>

lemma recompute_serves:
  assumes "compiled E ar (dc_source (db_config db)) a m sp" "db_edb db = edb_names E a sp" "db_idb db = idb_names E a sp"
    and "registers ar (db_store db)" "stores (db_store db) H" "\<And>r. r \<notin> set (db_idb db) \<Longrightarrow> H r = F r"
    and run: "recompute_idb E db b = Some (Inr (), db', b')"
  shows "serves E ar a m sp F db'"
proof -
  let ?s = "fold mem_clear (db_idb db) (db_store db)"
  have s: "stores ?s (\<lambda>r. if r \<in> set (db_idb db) then {} else H r)" "registers ar ?s"
    using stores_clear [OF assms(5), of "db_idb db"] assms(4) by (simp_all add: registers_def)
  obtain edb idb s' where full: "full_recompute E False (dc_source (db_config db)) ?s = Some (Inr (edb, idb), s')"
    and db': "db' = db\<lparr>db_store := s', db_idb := idb\<rparr>"
    using run by (auto simp: recompute_idb_def Let_def split: option.splits sum.splits prod.splits)
  obtain G where G: "edb = edb_names E a sp" "idb = idb_names E a sp" "registers ar s'"
    "model_over E a m sp (\<lambda>r. if r \<in> set (db_idb db) then {} else H r) G"
    "stores s' (\<lambda>r. if r \<in> set idb then {t. (r, t) \<in> G} else if r \<in> set (db_idb db) then {} else H r)"
    using full_recompute_spec [OF assms(1) s _ full] assms(3) by auto
  have "model_over E a m sp F G"
    by (rule iffD1 [OF model_over_cong G(4)]) (use assms(3,6) in simp)
  moreover have "(\<lambda>r. if r \<in> set idb then {t. (r, t) \<in> G} else if r \<in> set (db_idb db) then {} else H r) =
      (\<lambda>r. if r \<in> set idb then {t. (r, t) \<in> G} else F r)"
    using assms(3,6) G(2) by (simp add: fun_eq_iff)
  ultimately show ?thesis
    using assms(1,2) G(2,3,5) db' by (auto simp: serves_def)
qed

text \<open>A change of a relation that is not derived.\<close>

lemma change_serves:
  assumes "serves E ar a m sp F db" "is_mutable_relation db r" "registers ar s"
    and s: "\<And>H. stores (db_store db) H \<Longrightarrow> stores s (H(r := f (H r)))"
    and run: "recompute_if (r \<in> set (db_edb db)) E (Inr (), db\<lparr>db_store := s\<rparr>) b = Some (Inr (), db', b')"
  shows "serves E ar a m sp (F(r := f (F r))) db'"
proof -
  obtain G where db: "compiled E ar (dc_source (db_config db)) a m sp" "db_edb db = edb_names E a sp" "db_idb db = idb_names E a sp"
    "model_over E a m sp F G" "stores (db_store db) (\<lambda>r. if r \<in> set (db_idb db) then {t. (r, t) \<in> G} else F r)"
    using assms(1) unfolding serves_def by blast
  have r: "r \<notin> set (db_idb db)"
    using assms(2) by (simp add: is_mutable_relation_def)
  have eq: "(\<lambda>r. if r \<in> set (db_idb db) then {t. (r, t) \<in> G} else F r)(r := f (F r)) =
      (\<lambda>q. if q \<in> set (db_idb db) then {t. (q, t) \<in> G} else (F(r := f (F r))) q)"
    using r by (simp add: fun_eq_iff)
  have st: "stores s (\<lambda>q. if q \<in> set (db_idb db) then {t. (q, t) \<in> G} else (F(r := f (F r))) q)"
    using s [OF db(5)] r unfolding eq [symmetric] by simp
  show ?thesis
  proof (cases "r \<in> set (db_edb db)")
    case True
    then have "recompute_idb E (db\<lparr>db_store := s\<rparr>) b = Some (Inr (), db', b')"
      using run by (simp add: recompute_if_def)
    note rec = recompute_serves [OF _ _ _ _ _ _ this]
    show ?thesis
      by (rule rec [where H = "\<lambda>q. if q \<in> set (db_idb db) then {t. (q, t) \<in> G} else (F(r := f (F r))) q"])
         (use db(1-3) assms(3) st in simp_all)
  next
    case False
    then have "db' = db\<lparr>db_store := s\<rparr>"
      using run by (simp add: recompute_if_def)
    moreover have "model_over E a m sp (F(r := f (F r))) G"
      by (rule iffD1 [OF model_over_cong db(4)]) (use False db(2) in auto)
    ultimately show ?thesis
      using db(1-3) assms(3) st unfolding serves_def by auto
  qed
qed

lemma insert_serves:
  assumes "serves E ar a m sp F db" "is_mutable_relation db r" "length t = ar r"
    and run: "db_insert E r t db b = Some (Inr (), db', b')"
  shows "serves E ar a m sp (F(r := insert t (F r))) db'"
proof -
  have reg: "registers ar (db_store db)" and ex: "\<exists>H. stores (db_store db) H"
    using assms(1) by (auto simp: serves_def)
  have acc: "accepts (db_store db) r t"
    by (rule registers_accepts [OF reg assms(3)])
  obtain s where s: "mem_merge_deltas (snd (mem_insert r t (db_store db))) = Inr s" "arity s = (arity (db_store db))(r \<mapsto> length t)"
    using ex stores_insert [of "db_store db"] acc by (metis (no_types))
  have "stores s (H(r := insert t (H r)))" if "stores (db_store db) H" for H
    using stores_insert [OF that, of r t] acc s(1) by auto
  moreover have "registers ar s"
    by (rule registers_upd [OF reg]) (simp add: s(2) assms(3))
  moreover have "recompute_if (r \<in> set (db_edb db)) E (Inr (), db\<lparr>db_store := s\<rparr>) b = Some (Inr (), db', b')"
    using run s(1) by (simp add: db_insert_def batch_insert_def Let_def)
  ultimately show ?thesis
    using change_serves [OF assms(1,2), where f = "insert t"] by blast
qed

lemma retract_serves:
  assumes "serves E ar a m sp F db" "is_mutable_relation db r"
    and run: "db_retract E r t db b = Some (Inr (), db', b')"
  shows "serves E ar a m sp (F(r := F r - {t})) db'"
proof -
  have reg: "registers ar (db_store db)" and ex: "\<exists>H. stores (db_store db) H"
    using assms(1) by (auto simp: serves_def)
  obtain p s where s: "mem_retract r t (db_store db) = Inr (p, s)" "arity s = arity (db_store db)"
    using ex stores_retract [of "db_store db"] by blast
  have "stores s (H(r := H r - {t}))" if "stores (db_store db) H" for H
    using stores_retract [OF that, of r t] s(1) by auto
  moreover have "registers ar s"
    using reg s(2) by (simp add: registers_def)
  moreover have "recompute_if (r \<in> set (db_edb db)) E (Inr (), db\<lparr>db_store := s\<rparr>) b = Some (Inr (), db', b')"
    using run s(1) by (simp add: db_retract_def batch_retract_def)
  ultimately show ?thesis
    using change_serves [OF assms(1,2), where f = "\<lambda>X. X - {t}"] by blast
qed

text \<open>Opening without a cached snapshot.\<close>

lemma open_serves:
  assumes "compiled E ar (dc_source cfg) a m sp" "source_arities ar (dc_edb_sources cfg)"
    and "\<And>r. r \<in> set (idb_names E a sp) \<Longrightarrow> loaded (dc_edb_sources cfg) r = {}"
    and "dc_cached cfg \<Longrightarrow> en_load E b (dc_name cfg) = Inr None"
    and run: "database_open E cfg b = Some (Inr (db, b'))"
  shows "serves E ar a m sp (loaded (dc_edb_sources cfg)) db"
proof -
  obtain s where s: "load_edb_into_store (dc_edb_sources cfg) mem_new = (Inr (), s)"
    using run by (cases "load_edb_into_store (dc_edb_sources cfg) mem_new") (auto simp: database_open_def thenO_Some Let_def)
  have cached: "(if dc_cached cfg then en_load E b (dc_name cfg) else Inr None) = Inr None"
    using assms(4) by simp
  let ?run = "full_recompute E False (dc_source cfg) s"
  have "\<exists>edb idb s1. ?run = Some (Inr (edb, idb), s1)"
  proof (cases ?run)
    case (Some x)
    then show ?thesis
      using run s cached by (cases x; cases "fst x") (auto simp: database_open_def thenO_Some thenO_def [of "Some (Inl _)"] Let_def)
  qed (use run s cached in \<open>auto simp: database_open_def thenO_Some Let_def\<close>)
  then obtain edb idb s1 where full: "?run = Some (Inr (edb, idb), s1)"
    by blast
  then have db: "db_config db = cfg" "db_store db = s1" "db_edb db = edb" "db_idb db = idb"
    using run s cached by (auto simp: database_open_def thenO_Some Let_def case_prod_beta)
  show ?thesis
    using full_recompute_spec [OF assms(1) load_edb_stores [OF s assms(2)] assms(3) full] assms(1) db
    by (auto simp: serves_def)
qed

subsection \<open>Mutations in sequence\<close>

datatype mutation = Insert_Fact string tuple | Retract_Fact string tuple

fun mutate :: "'b db_env \<Rightarrow> mutation \<Rightarrow> database \<Rightarrow> 'b \<Rightarrow> (unit result \<times> database \<times> 'b) option" where
  "mutate E (Insert_Fact r t) db b = db_insert E r t db b"
| "mutate E (Retract_Fact r t) db b = db_retract E r t db b"

fun run_mutations :: "'b db_env \<Rightarrow> mutation list \<Rightarrow> database \<times> 'b \<Rightarrow> (database \<times> 'b) result option" where
  "run_mutations E [] x = Some (Inr x)"
| "run_mutations E (c # cs) (db, b) =
     (case mutate E c db b of
        None \<Rightarrow> None
      | Some (Inl e, _, _) \<Rightarrow> Some (Inl e)
      | Some (Inr _, db1, b1) \<Rightarrow> run_mutations E cs (db1, b1))"

text \<open>What a mutation means for the facts, and which mutations are in order.\<close>

fun mutated :: "mutation \<Rightarrow> (string \<Rightarrow> tuple set) \<Rightarrow> string \<Rightarrow> tuple set" where
  "mutated (Insert_Fact r t) F = F(r := insert t (F r))"
| "mutated (Retract_Fact r t) F = F(r := F r - {t})"

fun mutation_ok :: "(string \<Rightarrow> nat) \<Rightarrow> string list \<Rightarrow> mutation \<Rightarrow> bool" where
  "mutation_ok ar idb (Insert_Fact r t) = (r \<notin> set idb \<and> length t = ar r)"
| "mutation_ok ar idb (Retract_Fact r t) = (r \<notin> set idb)"

lemma mutations_serve:
  "run_mutations E cs (db, b) = Some (Inr (db', b')) \<Longrightarrow> serves E ar a m sp F db \<Longrightarrow>
    list_all (mutation_ok ar (idb_names E a sp)) cs \<Longrightarrow> serves E ar a m sp (fold mutated cs F) db'"
proof (induction cs arbitrary: db b F)
  case (Cons c cs)
  obtain db1 b1 where c: "mutate E c db b = Some (Inr (), db1, b1)" "run_mutations E cs (db1, b1) = Some (Inr (db', b'))"
    using Cons.prems(1) by (auto split: option.splits sum.splits)
  have idb: "db_idb db = idb_names E a sp"
    using Cons.prems(2) by (simp add: serves_def)
  have "serves E ar a m sp (mutated c F) db1"
  proof (cases c)
    case (Insert_Fact r t)
    then show ?thesis
      using insert_serves [OF Cons.prems(2), of r t] c(1) Cons.prems(3) idb by (simp add: is_mutable_relation_def)
  next
    case (Retract_Fact r t)
    then show ?thesis
      using retract_serves [OF Cons.prems(2), of r t] c(1) Cons.prems(3) idb by (simp add: is_mutable_relation_def)
  qed
  then show ?case
    using Cons.IH [OF c(2)] Cons.prems(3) by simp
qed simp

text \<open>C3: A database answers queries with the model of its program, under these conditions: the program compiles
  to a covered one (no aggregation, no temporal predicates, well-scoped plans, no negation within a stratum,
  linear recursion, arities as registered) and hash joins are off; the database is opened without a cached
  snapshot, on sources that supply no derived relation and only tuples of the registered arities; the
  insertions and retractions that follow are of relations that are not derived and of tuples of the
  registered arity; and opening and mutations all succeed.  Then every query of a relation that is not derived
  returns the facts loaded and mutated, without duplicates; and every query of a derived relation returns
  the facts of the stratified model of the program over those external facts, so that nothing derived from
  a retracted fact stays and nothing derivable from an inserted one is missing.\<close>

theorem database_serves_model:
  assumes "compiled E ar (dc_source cfg) a m sp" "source_arities ar (dc_edb_sources cfg)"
    and "\<And>r. r \<in> set (idb_names E a sp) \<Longrightarrow> loaded (dc_edb_sources cfg) r = {}"
    and "dc_cached cfg \<Longrightarrow> en_load E b (dc_name cfg) = Inr None"
    and "list_all (mutation_ok ar (idb_names E a sp)) cs"
    and run: "thenO (database_open E cfg b) (run_mutations E cs) = Some (Inr (db, b'))"
  shows "\<exists>G. model_over E a m sp (fold mutated cs (loaded (dc_edb_sources cfg))) G \<and>
    (\<forall>r. \<exists>ts. db_query db r = Inr ts \<and> distinct ts \<and>
      set ts = (if r \<in> set (idb_names E a sp) then {t. (r, t) \<in> G} else fold mutated cs (loaded (dc_edb_sources cfg)) r))"
proof -
  obtain db0 b0 where 0: "database_open E cfg b = Some (Inr (db0, b0))" "run_mutations E cs (db0, b0) = Some (Inr (db, b'))"
    using run by (auto simp: thenO_Some)
  have "serves E ar a m sp (fold mutated cs (loaded (dc_edb_sources cfg))) db"
    by (rule mutations_serve [OF 0(2) open_serves [OF assms(1-4) 0(1)] assms(5)])
  then obtain G where "model_over E a m sp (fold mutated cs (loaded (dc_edb_sources cfg))) G" "db_idb db = idb_names E a sp"
    "stores (db_store db) (\<lambda>r. if r \<in> set (db_idb db) then {t. (r, t) \<in> G} else fold mutated cs (loaded (dc_edb_sources cfg)) r)"
    unfolding serves_def by blast
  then show ?thesis
    using stores_scan unfolding db_query_def by (intro exI [of _ G]) fastforce
qed

subsection \<open>Example databases\<close>

declare rotate_loop.simps [code]

type_synonym demo_cache = "(string \<times> (cache_meta \<times> idb_snapshot)) list"

definition demo_env :: "ast_unit \<Rightarrow> arena \<Rightarrow> demo_cache db_env" where
  "demo_env u a = \<lparr>en_frontend = demo_frontend u a, en_arena = a, en_cfg = demo_cfg, en_hash_join = False,
     en_coalesce = (\<lambda>_ s. Inr s), en_sha256 = (\<lambda>bs. bs), en_names = (\<lambda>ns. ns), en_now = 0,
     en_load = (\<lambda>b n. Inr (map_of b n)), en_save = (\<lambda>n m sn b. Inr (AList.update n (m, sn) b))\<rparr>"

definition table_source :: "(string \<times> tuple list) list \<Rightarrow> edb_source" where
  "table_source T = \<lparr>es_relations = Inr (map fst T),
     es_scan = scan_with_predicates (\<lambda>rel. Inr (case map_of T rel of None \<Rightarrow> [] | Some ts \<Rightarrow> ts)), es_fingerprint = Inr (Some [])\<rparr>"

definition table_config :: "(string \<times> tuple list) list \<Rightarrow> bool \<Rightarrow> database_config" where
  "table_config T with_cache = \<lparr>dc_name = ''d'', dc_source = [], dc_edb_sources = [table_source T], dc_cached = with_cache\<rparr>"

text \<open>An arena with the predicates \<open>p\<close>, \<open>q\<close>, \<open>r\<close> and the variable \<open>X\<close>, of index 4.\<close>

definition pqr_arena :: arena where
  "pqr_arena = (let (_, a1) = predicate_sym ''p'' (Some 1) (arena_new ast_interner_new);
                    (_, a2) = predicate_sym ''q'' (Some 1) a1;
                    (_, a3) = predicate_sym ''r'' (Some 1) a2
                in snd (variable_sym ''X'' a3))"

definition head_rule :: "nat \<Rightarrow> ast_term list \<Rightarrow> clause" where
  "head_rule q ps = \<lparr>cl_head = \<lparr>a_sym = q, a_args = [BVar 4]\<rparr>, cl_head_time = None, cl_premises = ps, cl_transform = []\<rparr>"

definition p_atom :: atom where
  "p_atom = \<lparr>a_sym = 0, a_args = [BVar 4]\<rparr>"

text \<open>\<open>q(X) :- p(X).\<close>\<close>

definition copy_unit :: ast_unit where
  "copy_unit = \<lparr>un_decls = [], un_clauses = [head_rule 1 [TAtom p_atom]]\<rparr>"

definition copy_env :: "demo_cache db_env" where
  "copy_env = demo_env copy_unit pqr_arena"

definition copy_cfg :: database_config where
  "copy_cfg = table_config [(''p'', [[Number 1]])] True"

lemma copy_ir: "compile_source (en_frontend copy_env) src a0 = Some (Inr (a, m, sp)) \<Longrightarrow> ir_inv m"
proof -
  assume c: "compile_source (en_frontend copy_env) src a0 = Some (Inr (a, m, sp))"
  have "rewrite_unit copy_unit pqr_arena = (copy_unit, pqr_arena)"
    by (simp add: rewrite_unit_def copy_unit_def)
  then have low: "lower_unit a copy_unit = Inr m"
    using c by (auto simp: compile_source_def copy_env_def demo_env_def demo_frontend_def compile_unit_def thenO_Some)
  have "unit_size copy_unit < 2 ^ 32"
    by (simp add: unit_size_def copy_unit_def head_rule_def p_atom_def clause_size_def head_size_def atom_size_def)
  then show ?thesis
    using unit_lowered [of copy_unit a] low by auto
qed

lemma copy_facts:
  "case compile_source (en_frontend copy_env) [] (en_arena copy_env) of
     Some (Inr (a, m, sp)) \<Rightarrow> covered (\<lambda>_. 1) a sp m \<and> edb_names copy_env a sp = [''p''] \<and> idb_names copy_env a sp = [''q'']
   | _ \<Rightarrow> False"
  by code_simp

lemma copy_compiled:
  "\<exists>a m sp. compiled copy_env (\<lambda>_. 1) [] a m sp \<and> edb_names copy_env a sp = [''p''] \<and> idb_names copy_env a sp = [''q'']"
proof -
  obtain a m sp where c: "compile_source (en_frontend copy_env) [] (en_arena copy_env) = Some (Inr (a, m, sp))"
    "covered (\<lambda>_. 1) a sp m" "edb_names copy_env a sp = [''p'']" "idb_names copy_env a sp = [''q'']"
    using copy_facts by (auto split: option.splits sum.splits)
  moreover have "cf_store (en_cfg copy_env) = mem_ops" "\<not> en_hash_join copy_env"
    by (simp_all add: copy_env_def demo_env_def demo_cfg_def)
  ultimately show ?thesis
    using copy_ir [OF c(1)] unfolding compiled_def by blast
qed

lemma table_loaded:
  "loaded [table_source [(''p'', [[Number 1]])]] = (\<lambda>r. if r = ''p'' then {[Number 1]} else {})"
  "source_arities (\<lambda>_. 1) [table_source [(''p'', [[Number 1]])]]"
  by (simp_all add: fun_eq_iff loaded_def source_arities_def table_source_def scan_with_predicates_def)

lemma copy_run:
  "map_option (\<lambda>r. bindR r (\<lambda>(db, b). db_query db ''q''))
     (thenO (database_open copy_env copy_cfg []) (run_mutations copy_env [Insert_Fact ''p'' [Number 2], Retract_Fact ''p'' [Number 1]])) =
   Some (Inr [[Number 2]])"
  by code_simp

theorem database_serves_model_witness:
  "\<exists>a m sp G. model_over copy_env a m sp (\<lambda>r. if r = ''p'' then {[Number 2]} else {}) G \<and> {t. (''q'', t) \<in> G} = {[Number 2]}"
proof -
  let ?cs = "[Insert_Fact ''p'' [Number 2], Retract_Fact ''p'' [Number 1]]"
  obtain a m sp where c: "compiled copy_env (\<lambda>_. 1) [] a m sp" "idb_names copy_env a sp = [''q'']"
    using copy_compiled by blast
  have cfg: "dc_source copy_cfg = []" "dc_edb_sources copy_cfg = [table_source [(''p'', [[Number 1]])]]"
    by (simp_all add: copy_cfg_def table_config_def)
  note loaded = table_loaded [folded cfg(2)]
  have no_snapshot: "dc_cached copy_cfg \<Longrightarrow> en_load copy_env [] (dc_name copy_cfg) = Inr None"
    by (simp add: copy_env_def demo_env_def)
  obtain db b where run: "thenO (database_open copy_env copy_cfg []) (run_mutations copy_env ?cs) = Some (Inr (db, b))"
    and q: "db_query db ''q'' = Inr [[Number 2]]"
    using copy_run by (auto simp del: run_mutations.simps)
  obtain G where G: "model_over copy_env a m sp (fold mutated ?cs (loaded (dc_edb_sources copy_cfg))) G \<and>
    (\<forall>r. \<exists>ts. db_query db r = Inr ts \<and> distinct ts \<and>
      set ts = (if r \<in> set (idb_names copy_env a sp) then {t. (r, t) \<in> G} else fold mutated ?cs (loaded (dc_edb_sources copy_cfg)) r))"
    using database_serves_model [OF c(1) [folded cfg(1)] loaded(2) _ _ _ run] by (auto simp: loaded(1) c(2) no_snapshot)
  have "fold mutated ?cs (loaded (dc_edb_sources copy_cfg)) = (\<lambda>r. if r = ''p'' then {[Number 2]} else {})"
    unfolding loaded(1) by (auto simp: fun_eq_iff)
  then have over: "model_over copy_env a m sp (\<lambda>r. if r = ''p'' then {[Number 2]} else {}) G"
    using G by metis
  have "\<exists>ts. db_query db ''q'' = Inr ts \<and> set ts = {t. (''q'', t) \<in> G}"
    using G c(2) by (metis list.set_intros(1))
  then have "{t. (''q'', t) \<in> G} = {[Number 2]}"
    using q by auto
  then show ?thesis
    using over by (intro exI conjI)
qed

subsection \<open>Where a database answers wrongly\<close>

text \<open>What the queries of a database return, and what follows an opening.\<close>

definition answers :: "string list \<Rightarrow> database \<Rightarrow> tuple list result list" where
  "answers rels db = map (db_query db) rels"

definition opened :: "'b db_env \<Rightarrow> database_config \<Rightarrow> 'b \<Rightarrow> (database \<Rightarrow> 'b \<Rightarrow> bool) \<Rightarrow> bool" where
  "opened E cfg b P = (case database_open E cfg b of Some (Inr (db, b')) \<Rightarrow> P db b' | _ \<Rightarrow> False)"

definition succeeds :: "(unit result \<times> database \<times> 'b) option \<Rightarrow> (database \<Rightarrow> 'b \<Rightarrow> bool) \<Rightarrow> bool" where
  "succeeds x P = (case x of Some (Inr _, db, b) \<Rightarrow> P db b | _ \<Rightarrow> False)"

text \<open>\<open>q(X) :- p(X), X = 1. r(X) :- p(X), X = 2.\<close>\<close>

definition select_unit :: ast_unit where
  "select_unit = \<lparr>un_decls = [],
     un_clauses = [head_rule 1 [TAtom p_atom, TEq (BVar 4) (BConst (CsNumber 1))],
                   head_rule 2 [TAtom p_atom, TEq (BVar 4) (BConst (CsNumber 2))]]\<rparr>"

definition select_env :: "demo_cache db_env" where
  "select_env = demo_env select_unit pqr_arena"

definition select_cfg :: database_config where
  "select_cfg = table_config [(''p'', [[Number 1], [Number 2]])] False"

text \<open>Reloading loses facts.  The predicates pushed down to a source are collected over all rules and
  conjoined per relation, also those of different rules: with \<open>q(X) :- p(X), X = 1\<close> and
  \<open>r(X) :- p(X), X = 2\<close> a source is asked for the tuples of \<open>p\<close> equal to 1 and to 2, so that after a
  reload \<open>p\<close>, \<open>q\<close> and \<open>r\<close> are empty although the sources have not changed.\<close>

theorem reload_loses_facts:
  "opened select_env select_cfg [] (\<lambda>db b.
     answers [''p'', ''q'', ''r''] db = [Inr [[Number 1], [Number 2]], Inr [[Number 1]], Inr [[Number 2]]] \<and>
     succeeds (db_reload select_env db b) (\<lambda>db' b'. answers [''p'', ''q'', ''r''] db' = [Inr [], Inr [], Inr []]))"
  by code_simp

text \<open>The cache of derived facts goes stale.  A mutation recomputes the derived facts and saves them
  under the fingerprint of the unchanged sources; the next opening finds the fingerprint and serves
  them beside the facts of the sources, without the mutation: with \<open>q(X) :- p(X)\<close>, a database
  reopened after the insertion of \<open>p(2)\<close> answers \<open>q(2)\<close> but not \<open>p(2)\<close>.\<close>

theorem cache_goes_stale:
  "opened copy_env copy_cfg [] (\<lambda>db b.
     answers [''p'', ''q''] db = [Inr [[Number 1]], Inr [[Number 1]]] \<and>
     succeeds (db_insert copy_env ''p'' [Number 2] db b) (\<lambda>db' b'.
       opened copy_env copy_cfg b' (\<lambda>db'' b''. answers [''p'', ''q''] db'' = [Inr [[Number 1]], Inr [[Number 1], [Number 2]]])))"
  by code_simp

text \<open>\<open>q(X) :- p(X) @[S, T].\<close>\<close>

definition timed_unit :: ast_unit where
  "timed_unit = \<lparr>un_decls = [], un_clauses = [head_rule 1 [TTemporalAtom p_atom \<lparr>ti_start = BoundVar 1, ti_end = BoundVar 2\<rparr>]]\<rparr>"

definition timed_env :: "demo_cache db_env" where
  "timed_env = demo_env timed_unit pqr_arena"

definition timed_cfg :: database_config where
  "timed_cfg = table_config [(''p'', [[Number 1, Time 1, Time 2]])] False"

text \<open>A relation that is only read in temporal atoms is taken for a derived one: \<open>compile_source\<close> of
  the database looks for external predicates in atoms and negated atoms only.  So with
  \<open>q(X) :- p(X) @[S, T]\<close> the facts of \<open>p\<close> that the sources supply do not reach the program (\<open>q\<close> is empty),
  \<open>p\<close> cannot be mutated by a client, and the next commit deletes its facts.\<close>

theorem temporal_source_ignored:
  "opened timed_env timed_cfg [] (\<lambda>db b.
     answers [''p'', ''q''] db = [Inr [[Number 1, Time 1, Time 2]], Inr []] \<and> \<not> is_mutable_relation db ''p'' \<and>
     succeeds (batch_commit timed_env db b) (\<lambda>db' b'. answers [''p'', ''q''] db' = [Inr [], Inr []]))"
  by code_simp

end
