(* ===== verification/Server_Props.thy ===== *)
theory Server_Props
  imports Ledger_Props Database_Props
begin

text \<open>
  The registry as a state machine: what a mutation command does to the facts, that the ledger tracks
  the facts, and that a snapshot restores them, as far as it does.
\<close>

subsection \<open>Batches\<close>

definition mutation_of :: "mutation_op \<Rightarrow> mutation" where
  "mutation_of op = (case mo_kind op of OpInsert \<Rightarrow> Insert_Fact (mo_relation op) (mo_tuple op)
                                      | OpRetract \<Rightarrow> Retract_Fact (mo_relation op) (mo_tuple op))"

abbreviation effect :: "mutation_op \<Rightarrow> (string \<Rightarrow> tuple set) \<Rightarrow> string \<Rightarrow> tuple set" where
  "effect op \<equiv> mutated (mutation_of op)"

lemma effect_eq:
  "effect op F = F(mo_relation op := (case mo_kind op of OpInsert \<Rightarrow> insert (mo_tuple op) (F (mo_relation op))
                                                       | OpRetract \<Rightarrow> F (mo_relation op) - {mo_tuple op}))"
  by (cases "mo_kind op") (simp_all add: mutation_of_def)

definition op_fits :: "(string \<Rightarrow> nat) \<Rightarrow> mutation_op \<Rightarrow> bool" where
  "op_fits ar op \<longleftrightarrow> (mo_kind op = OpInsert \<longrightarrow> length (mo_tuple op) = ar (mo_relation op))"

lemma batch_op_stores:
  assumes "stores (db_store db) H" "registers ar (db_store db)" "op_fits ar op"
  shows "\<exists>s. batch_op op db = (Inr (), db\<lparr>db_store := s\<rparr>) \<and> stores s (effect op H) \<and> registers ar s"
proof (cases "mo_kind op")
  case OpInsert
  let ?r = "mo_relation op" and ?t = "mo_tuple op"
  have len: "length ?t = ar ?r"
    using assms(3) OpInsert by (simp add: op_fits_def)
  have acc: "accepts (db_store db) ?r ?t"
    by (rule registers_accepts [OF assms(2) len])
  obtain s where s: "mem_merge_deltas (snd (mem_insert ?r ?t (db_store db))) = Inr s" "stores s (H(?r := insert ?t (H ?r)))"
    "arity s = (arity (db_store db))(?r \<mapsto> length ?t)"
    using stores_insert [OF assms(1), of ?r ?t] acc by auto
  have "registers ar s"
    by (rule registers_upd [OF assms(2)]) (simp add: s(3) len)
  then show ?thesis
    using s(1,2) OpInsert by (auto simp: batch_op_def batch_insert_def Let_def mutation_of_def)
next
  case OpRetract
  obtain b s where "mem_retract (mo_relation op) (mo_tuple op) (db_store db) = Inr (b, s)"
    "stores s (H(mo_relation op := H (mo_relation op) - {mo_tuple op}))" "arity s = arity (db_store db)"
    using stores_retract [OF assms(1)] by blast
  then show ?thesis
    using assms(2) OpRetract by (auto simp: batch_op_def batch_retract_def mutation_of_def registers_def)
qed

lemma batch_ops_stores:
  assumes "stores (db_store db) H" "registers ar (db_store db)" "list_all (op_fits ar) ops"
  shows "\<exists>s. batch_ops ops db = (Inr (), db\<lparr>db_store := s\<rparr>) \<and> stores s (fold effect ops H) \<and> registers ar s"
  using assms
proof (induction ops arbitrary: db H)
  case Nil
  then show ?case
    by (intro exI [of _ "db_store db"]) simp
next
  case (Cons op ops)
  obtain s where s: "batch_op op db = (Inr (), db\<lparr>db_store := s\<rparr>)" "stores s (effect op H)" "registers ar s"
    using batch_op_stores [OF Cons.prems(1,2)] Cons.prems(3) by auto
  obtain s' where "batch_ops ops (db\<lparr>db_store := s\<rparr>) = (Inr (), db\<lparr>db_store := s\<rparr>\<lparr>db_store := s'\<rparr>)"
    "stores s' (fold effect ops (effect op H))" "registers ar s'"
    using Cons.IH [of "db\<lparr>db_store := s\<rparr>" "effect op H"] s(2,3) Cons.prems(3) by auto
  then show ?case
    using s(1) by auto
qed

lemma effects_agree:
  "\<forall>op\<in>set ops. mo_relation op \<notin> I \<Longrightarrow> \<forall>r. r \<notin> I \<longrightarrow> H r = F r \<Longrightarrow> r \<notin> I \<Longrightarrow> fold effect ops H r = fold effect ops F r"
proof (induction ops arbitrary: H F)
  case (Cons op ops)
  have "\<forall>r. r \<notin> I \<longrightarrow> effect op H r = effect op F r"
    using Cons.prems(1,2) by (cases "mo_kind op") (simp_all add: effect_eq)
  then show ?case
    using Cons.IH [of "effect op H" "effect op F"] Cons.prems by simp
qed simp

lemma recompute_config: "recompute_idb E db b = Some (r, db', b') \<Longrightarrow> db_config db' = db_config db"
  by (auto simp: recompute_idb_def Let_def split: option.splits sum.splits prod.splits)

lemma run_batch_serves:
  assumes "serves E ar a m sp F db" "list_all (op_fits ar) ops" "\<forall>op\<in>set ops. is_mutable_relation db (mo_relation op)"
    and run: "run_batch E ops db b = Some (Inr (), db', b')"
  shows "serves E ar a m sp (fold effect ops F) db'" "db_config db' = db_config db"
proof -
  obtain G where db: "compiled E ar (dc_source (db_config db)) a m sp" "db_edb db = edb_names E a sp" "db_idb db = idb_names E a sp"
    "registers ar (db_store db)" "stores (db_store db) (\<lambda>r. if r \<in> set (db_idb db) then {t. (r, t) \<in> G} else F r)"
    using assms(1) unfolding serves_def by blast
  let ?H = "\<lambda>r. if r \<in> set (db_idb db) then {t. (r, t) \<in> G} else F r"
  obtain s where s: "batch_ops ops db = (Inr (), db\<lparr>db_store := s\<rparr>)" "stores s (fold effect ops ?H)" "registers ar s"
    using batch_ops_stores [OF db(5,4) assms(2)] by blast
  then have com: "recompute_idb E (db\<lparr>db_store := s\<rparr>) b = Some (Inr (), db', b')"
    using run by (simp add: run_batch_def batch_commit_def)
  have "fold effect ops ?H r = fold effect ops F r" if "r \<notin> set (db_idb db)" for r
    by (rule effects_agree [where I = "set (db_idb db)"]) (use assms(3) that in \<open>simp_all add: is_mutable_relation_def\<close>)
  then show "serves E ar a m sp (fold effect ops F) db'"
    using recompute_serves [OF _ _ _ _ _ _ com, of ar a m sp "fold effect ops ?H"] db(1-3) s(2,3) by simp
  show "db_config db' = db_config db"
    using recompute_config [OF com] by simp
qed

subsection \<open>Classification\<close>

text \<open>The operations that change something, over sets of facts.\<close>

fun effective :: "(string \<Rightarrow> tuple set) \<Rightarrow> mutation_op list \<Rightarrow> mutation_op list" where
  "effective F [] = []"
| "effective F (op # ops) =
     (if mo_tuple op \<in> F (mo_relation op) \<longleftrightarrow> mo_kind op = OpRetract then op # effective (effect op F) ops else effective F ops)"

lemma effective_effect: "fold effect (effective F ops) F = fold effect ops F"
proof (induction ops arbitrary: F)
  case (Cons op ops)
  have "effect op F = F" if "\<not> (mo_tuple op \<in> F (mo_relation op) \<longleftrightarrow> mo_kind op = OpRetract)"
    using that by (cases "mo_kind op") (auto simp: effect_eq insert_absorb)
  then show ?case
    using Cons.IH by simp
qed simp

lemma effective_subset: "set (effective F ops) \<subseteq> set ops"
  by (induction ops arbitrary: F) auto

lemma effective_length: "length (effective F ops) \<le> length ops"
  by (induction ops arbitrary: F) (auto intro: le_SucI)

definition seeded :: "(string \<times> tuple list) list \<Rightarrow> (string \<Rightarrow> tuple set) \<Rightarrow> string set \<Rightarrow> bool" where
  "seeded M F R \<longleftrightarrow> (\<forall>r\<in>R. \<exists>ts. map_of M r = Some ts \<and> set ts = F r)"

lemma seed_spec:
  assumes "\<forall>r. r \<in> R \<longrightarrow> (\<exists>ts. db_query db r = Inr ts \<and> set ts = F r)"
  shows "mo_relation ` set ops \<subseteq> R \<Longrightarrow> seeded M F (dom (map_of M)) \<Longrightarrow>
    \<exists>M'. seed_membership db ops M = Inr M' \<and> seeded M' F (dom (map_of M) \<union> mo_relation ` set ops)"
proof (induction ops arbitrary: M)
  case (Cons op ops)
  let ?r = "mo_relation op"
  show ?case
  proof (cases "map_of M ?r = None")
    case True
    obtain ts where ts: "db_query db ?r = Inr ts" "set ts = F ?r"
      using assms Cons.prems(1) by auto
    have "seeded (AList.update ?r ts M) F (dom (map_of (AList.update ?r ts M)))"
      using Cons.prems(2) ts(2) by (auto simp: seeded_def update_conv)
    then obtain M' where "seed_membership db ops (AList.update ?r ts M) = Inr M'"
      "seeded M' F (dom (map_of (AList.update ?r ts M)) \<union> mo_relation ` set ops)"
      using Cons.IH [of "AList.update ?r ts M"] Cons.prems(1) by auto
    moreover have "dom (map_of (AList.update ?r ts M)) \<union> mo_relation ` set ops = dom (map_of M) \<union> mo_relation ` set (op # ops)"
      by (simp add: update_conv')
    ultimately show ?thesis
      using True ts(1) by (metis (no_types, lifting) bindR_simps(2) seed_membership.simps(2))
  next
    case False
    obtain M' where M': "seed_membership db ops M = Inr M'" "seeded M' F (dom (map_of M) \<union> mo_relation ` set ops)"
      using Cons.IH [OF _ Cons.prems(2)] Cons.prems(1) by auto
    have "dom (map_of M) \<union> mo_relation ` set (op # ops) = dom (map_of M) \<union> mo_relation ` set ops"
      using False by auto
    then show ?thesis
      using M' False by simp
  qed
qed auto

lemma classify_spec:
  "seeded M F (mo_relation ` set ops) \<Longrightarrow> classify ops M = Inr (effective F ops, length ops - length (effective F ops))"
proof (induction ops arbitrary: M F)
  case (Cons op ops)
  let ?r = "mo_relation op" and ?t = "mo_tuple op"
  obtain ts where ts: "map_of M ?r = Some ts" "set ts = F ?r"
    using Cons.prems by (auto simp: seeded_def)
  have rest: "seeded M F (mo_relation ` set ops)"
    using Cons.prems by (simp add: seeded_def)
  have upd: "seeded (AList.update ?r us M) (F(?r := set us)) (mo_relation ` set ops)" for us
    using rest by (auto simp: seeded_def update_conv)
  have le: "length (effective F' ops) \<le> length ops" for F'
    by (rule effective_length)
  show ?case
  proof (cases "?t \<in> F ?r \<longleftrightarrow> mo_kind op = OpRetract")
    case True
    have "classify ops (AList.update ?r (if ?t \<in> F ?r then removeAll ?t ts else ?t # ts) M) =
        Inr (effective (effect op F) ops, length ops - length (effective (effect op F) ops))"
      by (rule Cons.IH) (use upd [of "removeAll ?t ts"] upd [of "?t # ts"] ts(2) True in
        \<open>cases "mo_kind op"; simp add: effect_eq del: fun_upd_apply\<close>)
    then show ?thesis
      using True ts le [of "effect op F"] by (cases "mo_kind op") (simp_all add: Suc_diff_le)
  next
    case False
    then show ?thesis
      using ts Cons.IH [OF rest] le [of F] by (cases "mo_kind op") (simp_all add: Suc_diff_le)
  qed
qed simp

subsection \<open>Mutation commands\<close>

lemma serves_query:
  assumes "serves E ar a m sp F db" "is_mutable_relation db r"
  shows "\<exists>ts. db_query db r = Inr ts \<and> set ts = F r"
proof -
  obtain G where "stores (db_store db) (\<lambda>r. if r \<in> set (db_idb db) then {t. (r, t) \<in> G} else F r)"
    using assms(1) unfolding serves_def by blast
  then show ?thesis
    using stores_scan [of "db_store db" _ r] assms(2) by (fastforce simp: db_query_def is_mutable_relation_def)
qed

lemma note_ops_ledger: "note_ops E program ops l log = (Inr (), l', log') \<Longrightarrow> l' = fold note_op ops l"
  by (induction ops arbitrary: l log) (auto simp: Let_def split: option.splits sum.splits)

lemma find_all: "find P xs = None \<longleftrightarrow> (\<forall>x\<in>set xs. \<not> P x)"
  by (auto simp: find_None_iff)

lemma mutate_served:
  assumes p: "map_of (ps_programs st) program = Some p" and serves: "serves (se_db E) ar a m sp F (st_db p)"
    and fits: "list_all (op_fits ar) ops" and run: "apply_mutate E program ops st = Some (Inr out, st')"
  shows "\<exists>p'. map_of (ps_programs st') = (map_of (ps_programs st))(program \<mapsto> p') \<and> st_source p' = st_source p \<and>
    db_config (st_db p') = db_config (st_db p) \<and> st_ledger p' = fold note_op (effective F ops) (st_ledger p) \<and>
    serves (se_db E) ar a m sp (fold effect ops F) (st_db p') \<and>
    out = Mutated (length (effective F ops)) (length ops - length (effective F ops)) \<and>
    (\<forall>op\<in>set ops. is_mutable_relation (st_db p) (mo_relation op))"
proof -
  have mut: "\<forall>op\<in>set ops. is_mutable_relation (st_db p) (mo_relation op)"
    using run p by (auto simp: apply_mutate_def find_all split: option.splits)
  have queries: "\<forall>r. r \<in> mo_relation ` set ops \<longrightarrow> (\<exists>ts. db_query (st_db p) r = Inr ts \<and> set ts = F r)"
    using serves_query [OF serves] mut by blast
  obtain M where "seed_membership (st_db p) ops [] = Inr M" "seeded M F (mo_relation ` set ops)"
    using seed_spec [OF queries, of ops "[]"] by (auto simp: seeded_def)
  then have cl: "bindR (seed_membership (st_db p) ops []) (classify ops) = Inr (effective F ops, length ops - length (effective F ops))"
    using classify_spec by simp
  have none: "find (\<lambda>op. \<not> is_mutable_relation (st_db p) (mo_relation op)) ops = None"
    using mut by (simp add: find_all)
  show ?thesis
  proof (cases "effective F ops = []")
    case True
    then have "st' = st" "out = Mutated 0 (length ops)"
      using run p none cl by (simp_all add: apply_mutate_def)
    moreover have "fold effect ops F = F"
      using effective_effect [of F ops] True by simp
    ultimately show ?thesis
      using p serves mut True by (intro exI [of _ p]) auto
  next
    case False
    have "\<exists>r db b. run_batch (se_db E) (effective F ops) (st_db p) (ps_backend st) = Some (r, db, b)"
      using run p none cl False by (auto simp: apply_mutate_def split: option.splits)
    then obtain r db b where batch: "run_batch (se_db E) (effective F ops) (st_db p) (ps_backend st) = Some (r, db, b)"
      by blast
    obtain r' l log where noted: "note_ops E program (effective F ops) (st_ledger p) (ps_log st) = (r', l, log)"
      by (cases "note_ops E program (effective F ops) (st_ledger p) (ps_log st)") auto
    have r: "r = Inr ()"
      using run p none cl False batch by (cases r) (auto simp: apply_mutate_def Let_def)
    then have out: "r' = Inr ()" "out = Mutated (length (effective F ops)) (length ops - length (effective F ops))"
      "st' = st\<lparr>ps_programs := AList.update program (p\<lparr>st_db := db, st_ledger := l\<rparr>) (ps_programs st), ps_backend := b, ps_log := log\<rparr>"
      using run p none cl False batch noted by (auto simp: apply_mutate_def Let_def)
    have sub: "list_all (op_fits ar) (effective F ops)" "\<forall>op\<in>set (effective F ops). is_mutable_relation (st_db p) (mo_relation op)"
      using fits mut effective_subset [of F ops] by (auto simp: list_all_iff)
    note served = run_batch_serves [OF serves sub batch [unfolded r]]
    have l: "l = fold note_op (effective F ops) (st_ledger p)"
      using note_ops_ledger noted out(1) by blast
    show ?thesis
      using out served mut l effective_effect [of F ops]
      by (intro exI [of _ "p\<lparr>st_db := db, st_ledger := l\<rparr>"]) (simp add: update_conv')
  qed
qed

text \<open>C21: A mutation command changes the facts as its operations say, in order, one after the other.  Let the
  database of the program serve facts \<open>F\<close> (its program is covered, compiled with hash joins off, and its store
  holds \<open>F\<close> and the model over it), and let the tuples of the operations have the arity of their relations
  (see \<open>wrong_length_diverges\<close> for others).  When the command succeeds, the database of the program
  afterwards serves the facts that the insertions and retractions leave of \<open>F\<close>, with the model of the program
  over them on derived relations; the outcome counts the operations that changed something and those that
  did not, duplicates within the command included; other programs are as before.\<close>

theorem mutate_command_spec:
  assumes "map_of (ps_programs st) program = Some p" "serves (se_db E) ar a m sp F (st_db p)" "list_all (op_fits ar) ops"
    and "server_apply E (Mutate program ops) st = Some (Inr out, st')"
  shows "out = Mutated (length (effective F ops)) (length ops - length (effective F ops)) \<and>
    (\<forall>name. name \<noteq> program \<longrightarrow> map_of (ps_programs st') name = map_of (ps_programs st) name) \<and>
    (\<exists>p'. map_of (ps_programs st') program = Some p' \<and> serves (se_db E) ar a m sp (fold effect ops F) (st_db p') \<and>
      (\<forall>r. is_mutable_relation (st_db p) r \<longrightarrow> (\<exists>ts. execute_query_patterns program r [] st' = Inr ts \<and> set ts = fold effect ops F r)))"
proof -
  have run: "apply_mutate E program ops st = Some (Inr out, st')"
    using assms(4) by (simp add: server_apply_def)
  obtain p' where p': "map_of (ps_programs st') = (map_of (ps_programs st))(program \<mapsto> p')"
    "serves (se_db E) ar a m sp (fold effect ops F) (st_db p')"
    "out = Mutated (length (effective F ops)) (length ops - length (effective F ops))"
    using mutate_served [OF assms(1-3) run] by blast
  have "\<exists>ts. execute_query_patterns program r [] st' = Inr ts \<and> set ts = fold effect ops F r"
    if "is_mutable_relation (st_db p) r" for r
  proof -
    have "is_mutable_relation (st_db p') r"
      using that assms(2) p'(2) by (simp add: is_mutable_relation_def serves_def)
    then show ?thesis
      using serves_query [OF p'(2)] p'(1) by (auto simp: execute_query_patterns_def)
  qed
  then show ?thesis
    using p' by simp
qed

subsection \<open>Tracking\<close>

text \<open>A program that can be restored: its database serves some facts, and its ledger tracks them.\<close>

definition restorable :: "('b, 'l) server_env \<Rightarrow> (mvalue \<Rightarrow> bool) \<Rightarrow> (string \<Rightarrow> string \<Rightarrow> nat) \<Rightarrow> string \<Rightarrow> string \<Rightarrow>
    arena \<Rightarrow> ir \<Rightarrow> stratified_program \<Rightarrow> bool" where
  "restorable E Q ar name source a m sp \<longleftrightarrow> compiled (se_db E) (ar name) source a m sp \<and>
     source_arities (ar name) (se_sources E name) \<and>
     (\<forall>r\<in>set (idb_names (se_db E) a sp). loaded (se_sources E name) r = {})"







subsection \<open>Loading and restoring\<close>

lemma open_config: "database_open E cfg b = Some (Inr (db, b')) \<Longrightarrow> db_config db = cfg"
  by (auto simp: database_open_def thenO_Some Let_def case_prod_beta split: option.splits sum.splits prod.splits if_splits)

lemma load_served:
  assumes "\<not> se_cached E" "restorable E Q ar name source a m sp" "server_load E name source st = Some (Inr info, st')"
  shows "pi_name info = name \<and> (\<exists>p. map_of (ps_programs st') = (map_of (ps_programs st))(name \<mapsto> p) \<and> st_source p = source \<and>
    dc_source (db_config (st_db p)) = source \<and> st_ledger p = ledger_default \<and>
    serves (se_db E) (ar name) a m sp (loaded (se_sources E name)) (st_db p) \<and>
    fst ` set (ps_programs st') = insert name (fst ` set (ps_programs st)) \<and>
    (distinct (map fst (ps_programs st)) \<longrightarrow> distinct (map fst (ps_programs st'))))"
proof -
  let ?cfg = "make_db_config E name source"
  obtain db b where db: "database_open (se_db E) ?cfg (ps_backend st) = Some (Inr (db, b))"
    using assms(3) by (auto simp: server_load_def split: option.splits sum.splits)
  have cfg: "dc_source ?cfg = source" "dc_edb_sources ?cfg = se_sources E name" "\<not> dc_cached ?cfg"
    using assms(1) by (simp_all add: make_db_config_def)
  have "serves (se_db E) (ar name) a m sp (loaded (se_sources E name)) db"
    using open_serves [OF _ _ _ _ db, of "ar name" a m sp] assms(2) cfg by (simp add: restorable_def)
  moreover have "pi_name info = name"
    "st' = st\<lparr>ps_programs := AList.update name \<lparr>st_source = source, st_predicates = sort (db_relation_names db), st_db = db,
        st_ledger = ledger_default\<rparr> (ps_programs st), ps_backend := b\<rparr>"
    using assms(3) db by (auto simp: server_load_def Let_def)
  ultimately show ?thesis
    using open_config [OF db] cfg(1) by (auto simp: update_conv' dom_update distinct_update)
qed







subsection \<open>Runs of commands\<close>

fun run_commands :: "('b, 'l) server_env \<Rightarrow> command list \<Rightarrow> ('b, 'l) program_store \<Rightarrow> ('b, 'l) program_store result option" where
  "run_commands E [] st = Some (Inr st)"
| "run_commands E (c # cs) st =
     (case server_apply E c st of
        None \<Rightarrow> None
      | Some (Inl e, _) \<Rightarrow> Some (Inl e)
      | Some (Inr _, st') \<Rightarrow> run_commands E cs st')"






subsection \<open>Restoring a snapshot\<close>







subsection \<open>Example registries\<close>

definition demo_server :: "(string \<times> tuple list) list \<Rightarrow> (demo_cache, unit) server_env" where
  "demo_server T = \<lparr>se_db = copy_env, se_sources = (\<lambda>_. [table_source T]), se_cached = False,
     se_parse_query = (\<lambda>_. Inl Panic), se_display = (\<lambda>_. []), se_append_line = (\<lambda>_ _ l. Inr l), se_order = AList.clearjunk\<rparr>"

abbreviation p_server :: "(demo_cache, unit) server_env" where
  "p_server \<equiv> demo_server [(''p'', [[Number 1]])]"

definition empty_store :: "(demo_cache, unit) program_store" where
  "empty_store = \<lparr>ps_programs = [], ps_backend = [], ps_log = None\<rparr>"

definition ins :: "mvalue list \<Rightarrow> mutation_op" where
  "ins t = \<lparr>mo_kind = OpInsert, mo_relation = ''p'', mo_tuple = t\<rparr>"

definition ret :: "mvalue list \<Rightarrow> mutation_op" where
  "ret t = \<lparr>mo_kind = OpRetract, mo_relation = ''p'', mo_tuple = t\<rparr>"

lemma p_restorable: "\<exists>a m sp. restorable p_server Q (\<lambda>_ _. 1) name [] a m sp"
proof -
  obtain a m sp where c: "compiled copy_env (\<lambda>_. 1) [] a m sp" "idb_names copy_env a sp = [''q'']"
    using copy_compiled by blast
  show ?thesis
    by (intro exI [of _ a] exI [of _ m] exI [of _ sp]) (simp add: restorable_def demo_server_def c table_loaded del: One_nat_def)
qed

lemma p_loaded: "\<exists>st. run_commands p_server [LoadProgram ''c'' []] empty_store = Some (Inr st)"
proof -
  have "case run_commands p_server [LoadProgram ''c'' []] empty_store of Some (Inr st) \<Rightarrow> True | _ \<Rightarrow> False"
    by code_simp
  then show ?thesis
    by (auto split: option.splits sum.splits)
qed

lemma p_counts:
  "map_option (\<lambda>r. case r of Inl _ \<Rightarrow> None | Inr st \<Rightarrow>
       (case server_apply p_server (Mutate ''c'' [ins [Number 2], ins [Number 2], ret [Number 1]]) st of
          Some (Inr out, _) \<Rightarrow> Some out | _ \<Rightarrow> None))
     (run_commands p_server [LoadProgram ''c'' []] empty_store) = Some (Some (Mutated 2 1))"
  by code_simp

theorem mutate_command_spec_witness:
  "\<exists>st st' ts. server_apply p_server (Mutate ''c'' [ins [Number 2], ins [Number 2], ret [Number 1]]) st = Some (Inr (Mutated 2 1), st') \<and>
     execute_query_patterns ''c'' ''p'' [] st' = Inr ts \<and> set ts = {[Number 2]}"
proof -
  let ?ops = "[ins [Number 2], ins [Number 2], ret [Number 1]]" and ?F = "\<lambda>r. if r = ''p'' then {[Number 1]} else {}"
  obtain st where st: "run_commands p_server [LoadProgram ''c'' []] empty_store = Some (Inr st)"
    using p_loaded by blast
  then obtain st' where run: "server_apply p_server (Mutate ''c'' ?ops) st = Some (Inr (Mutated 2 1), st')"
    using p_counts by (auto split: option.splits sum.splits)
  obtain info where load: "server_load p_server ''c'' [] empty_store = Some (Inr info, st)"
    using st by (auto simp: server_apply_def split: option.splits sum.splits)
  obtain a m sp where r: "restorable p_server integral (\<lambda>_ _. 1) ''c'' [] a m sp"
    using p_restorable by blast
  have env: "se_db p_server = copy_env" "se_sources p_server ''c'' = [table_source [(''p'', [[Number 1]])]]" "\<not> se_cached p_server"
    by (simp_all add: demo_server_def)
  obtain p where p: "map_of (ps_programs st) ''c'' = Some p" "serves copy_env (\<lambda>_. 1) a m sp ?F (st_db p)"
    using load_served [OF env(3) r load] unfolding env(1,2) table_loaded(1) by auto
  have fits: "list_all (op_fits (\<lambda>_. 1)) ?ops"
    by (simp add: op_fits_def ins_def ret_def)
  note spec = mutate_command_spec [OF p(1) p(2) [folded env(1)] fits run]
  have "is_mutable_relation (st_db p) ''p''"
    using p(2) r table_loaded(1) env(1,2) by (auto simp: is_mutable_relation_def serves_def restorable_def)
  then obtain ts where "execute_query_patterns ''c'' ''p'' [] st' = Inr ts" "set ts = fold effect ?ops ?F ''p''"
    using spec by blast
  moreover have "fold effect ?ops ?F ''p'' = {[Number 2]}"
    by (auto simp: mutation_of_def ins_def ret_def)
  ultimately show ?thesis
    using run by blast
qed

definition restored :: "(demo_cache, unit) server_env \<Rightarrow> command list \<Rightarrow> (tuple list result \<times> tuple list result) option" where
  "restored E cs =
     (case run_commands E cs empty_store of
        Some (Inr st) \<Rightarrow>
          (case install_snapshot_state E (snapshot_state E st) empty_store of
             Some (Inr _, st') \<Rightarrow> Some (execute_query_patterns ''c'' ''p'' [] st, execute_query_patterns ''c'' ''p'' [] st')
           | _ \<Rightarrow> None)
      | _ \<Rightarrow> None)"



subsection \<open>Where a snapshot does not restore\<close>

text \<open>A snapshot can bring back a retracted fact.  Recording an insertion forgets that the fact was
  retracted from a source, and the retraction that follows then only removes the insertion from the
  ledger: after \<open>p(1)\<close>, which a source supplies, is retracted, inserted and retracted, it is no fact
  of the registry, but it is one of the registry restored from a snapshot.\<close>

theorem snapshot_resurrects_fact:
  "restored p_server [LoadProgram ''c'' [], Mutate ''c'' [ret [Number 1]], Mutate ''c'' [ins [Number 1]], Mutate ''c'' [ret [Number 1]]] =
     Some (Inr [], Inr [[Number 1]])"
  by code_simp

text \<open>An insertion of a tuple of another length than its relation has is ignored by the store, yet
  counted as applied and entered in the ledger.  Restoring replays the ledger in the order of the values, so
  that the store then takes the tuple of the wrong length, which comes first, and ignores the others: the
  replica that ran the commands and the one that installed the snapshot have different facts.\<close>

lemma wrong_length_diverges:
  "restored (demo_server [(''p'', [])]) [LoadProgram ''c'' [], Mutate ''c'' [ins [Number 5]], Mutate ''c'' [ins [Number 1, Number 2]]] =
     Some (Inr [[Number 5]], Inr [[Number 1, Number 2]])"
  by code_simp

end
