(* ===== verification/Type_Expr.thy ===== *)
theory Type_Expr
  imports Interner Rust_Strings
begin

text \<open>
  \<open>mangle-analysis/src/type_expr.rs\<close>: type expressions are instructions of the IR.  Shapes, accessors,
  well-formedness, conformance (\<open>set_conforms\<close>, \<open>type_conforms\<close>) and the check of a constant against
  a type (\<open>has_type\<close>).  The source recurses over the instructions, which are a graph; the functions
  here take a depth, and panic, as the source overflows its stack, when it is exhausted.
\<close>

subsection \<open>Shapes\<close>

text \<open>An instruction as a type expression: a name, a variable or an application, with its name resolved.\<close>

datatype tnode = NName string | NVar name_id | NApply string "inst_id list" | NOther inst

definition inst_node :: "ir \<Rightarrow> inst \<Rightarrow> tnode result" where
  "inst_node m inst =
     (case inst of
        IName n \<Rightarrow> bindR (resolve_name m n) (\<lambda>s. Inr (NName s))
      | IVar v \<Rightarrow> Inr (NVar v)
      | IApplyFn f args \<Rightarrow> bindR (resolve_name m f) (\<lambda>s. Inr (NApply s args))
      | other \<Rightarrow> Inr (NOther other))"

definition tnode_of :: "ir \<Rightarrow> inst_id \<Rightarrow> tnode result" where
  "tnode_of m i = bindR (ir_get m i) (inst_node m)"

definition name_str :: "tnode \<Rightarrow> string option" where
  "name_str n = (case n of NName s \<Rightarrow> Some s | _ \<Rightarrow> None)"

definition apply_fn_name :: "tnode \<Rightarrow> string option" where
  "apply_fn_name n = (case n of NApply f _ \<Rightarrow> Some f | _ \<Rightarrow> None)"

definition base_types :: "string list" where
  "base_types = [''/any'', ''/bot'', ''/number'', ''/float64'', ''/string'', ''/bytes'', ''/name'', ''/bool'',
     ''/time'', ''/duration'', ''/unit'']"

type_synonym type_context = "(name_id \<times> inst_id) list"

fun allR :: "('a \<Rightarrow> bool result) \<Rightarrow> 'a list \<Rightarrow> bool result" where
  "allR f [] = Inr True"
| "allR f (x # xs) = bindR (f x) (\<lambda>b. if b then allR f xs else Inr False)"

fun anyR :: "('a \<Rightarrow> bool result) \<Rightarrow> 'a list \<Rightarrow> bool result" where
  "anyR f [] = Inr False"
| "anyR f (x # xs) = bindR (f x) (\<lambda>b. if b then Inr True else anyR f xs)"

text \<open>The fields of a struct type: a name and a type, or one application of \<open>fn:opt\<close>.\<close>

fun struct_fields :: "ir \<Rightarrow> inst_id list \<Rightarrow> (inst_id \<times> inst_id \<times> bool) list result" where
  "struct_fields m [] = Inr []"
| "struct_fields m (a # rest) =
     bindR (tnode_of m a) (\<lambda>n.
       if apply_fn_name n = Some ''fn:opt''
       then bindR (struct_fields m rest) (\<lambda>fs.
              Inr ((case n of NApply _ [x, y] \<Rightarrow> [(x, y, True)] | _ \<Rightarrow> []) @ fs))
       else (case rest of
               [] \<Rightarrow> Inr []
             | b # rest' \<Rightarrow> bindR (struct_fields m rest') (\<lambda>fs. Inr ((a, b, False) # fs))))"

definition struct_type_fields :: "ir \<Rightarrow> inst_id \<Rightarrow> (inst_id \<times> inst_id \<times> bool) list result" where
  "struct_type_fields m i =
     bindR (tnode_of m i) (\<lambda>n. case n of NApply f args \<Rightarrow> if f = ''fn:Struct'' then struct_fields m args else Inr [] | _ \<Rightarrow> Inr [])"

fun chunk_pairs :: "'a list \<Rightarrow> ('a \<times> 'a) list" where
  "chunk_pairs (x # y # r) = (x, y) # chunk_pairs r"
| "chunk_pairs _ = []"

text \<open>The variants of a tagged union, from its arguments: the tag field, then tags and struct types.\<close>

definition tagged_union_variants :: "inst_id list \<Rightarrow> (inst_id \<times> inst_id) list option" where
  "tagged_union_variants args = (if length args < 3 \<or> even (length args) then None else Some (chunk_pairs (tl args)))"

text \<open>The last entry of a hash map counts.\<close>

definition last_of :: "(string \<times> 'a) list \<Rightarrow> string \<Rightarrow> 'a option" where
  "last_of kvs k = map_of (rev kvs) k"

fun named :: "ir \<Rightarrow> (inst_id \<times> 'a) list \<Rightarrow> (string \<times> 'a) list result" where
  "named m [] = Inr []"
| "named m ((i, x) # rest) =
     bindR (tnode_of m i) (\<lambda>n. bindR (named m rest) (\<lambda>r.
       Inr (case name_str n of Some s \<Rightarrow> (s, x) # r | None \<Rightarrow> r)))"

subsection \<open>Equality and base types\<close>

definition ir_eq :: "ir \<Rightarrow> inst_id \<Rightarrow> inst_id \<Rightarrow> bool result" where
  "ir_eq m a b =
     (if a = b then Inr True
      else bindR (ir_get m a) (\<lambda>x. bindR (ir_get m b) (\<lambda>y.
        Inr (case (x, y) of
               (IName na, IName nb) \<Rightarrow> na = nb
             | (INumber na, INumber nb) \<Rightarrow> na = nb
             | (IFloat fa, IFloat fb) \<Rightarrow> fa = fb
             | (IString sa, IString sb) \<Rightarrow> sa = sb
             | (IBool ba, IBool bb) \<Rightarrow> ba = bb
             | _ \<Rightarrow> False))))"

text \<open>\<open>name\<close> is \<open>type_name\<close> or lies below it in the hierarchy of names.\<close>

definition below_name :: "string \<Rightarrow> string \<Rightarrow> bool" where
  "below_name name type_name \<longleftrightarrow> starts_with name type_name \<and>
     (length name = length type_name \<or> length type_name < length name \<and> name ! length type_name = CHR ''/'')"

definition inst_has_base_type :: "ir \<Rightarrow> inst \<Rightarrow> string \<Rightarrow> bool result" where
  "inst_has_base_type m c type_name =
     (case c of
        INumber _ \<Rightarrow> Inr (type_name \<in> {''/number'', ''/any''})
      | IFloat _ \<Rightarrow> Inr (type_name \<in> {''/float64'', ''/any''})
      | IString _ \<Rightarrow> Inr (type_name \<in> {''/string'', ''/any''})
      | IBool _ \<Rightarrow> Inr (type_name \<in> {''/bool'', ''/any''})
      | ITime _ \<Rightarrow> Inr (type_name \<in> {''/time'', ''/any''})
      | IDuration _ \<Rightarrow> Inr (type_name \<in> {''/duration'', ''/any''})
      | IBytes _ \<Rightarrow> Inr (type_name \<in> {''/bytes'', ''/any''})
      | IName n \<Rightarrow>
          if type_name \<in> {''/name'', ''/any''} then Inr True
          else bindR (resolve_name m n) (\<lambda>name. Inr (below_name name type_name))
      | _ \<Rightarrow> Inr False)"

definition const_has_base_type :: "ir \<Rightarrow> inst_id \<Rightarrow> inst_id \<Rightarrow> bool result" where
  "const_has_base_type m const_id type_id =
     bindR (tnode_of m type_id) (\<lambda>t.
       case name_str t of
         None \<Rightarrow> Inr False
       | Some type_name \<Rightarrow> bindR (ir_get m const_id) (\<lambda>c. inst_has_base_type m c type_name))"

subsection \<open>Conformance\<close>

text \<open>\<open>sc\<close> stands for the recursive call of \<open>set_conforms\<close>.\<close>

fun fields_conform :: "ir \<Rightarrow> (inst_id \<Rightarrow> inst_id \<Rightarrow> bool result) \<Rightarrow> (string \<times> inst_id) list \<Rightarrow>
    (inst_id \<times> inst_id \<times> bool) list \<Rightarrow> bool result" where
  "fields_conform m sc left_map [] = Inr True"
| "fields_conform m sc left_map ((fname, ftype, optional) # fs) =
     bindR (tnode_of m fname) (\<lambda>n.
       case name_str n of
         None \<Rightarrow> fields_conform m sc left_map fs
       | Some s \<Rightarrow>
           (case last_of left_map s of
              Some left_type \<Rightarrow> bindR (sc left_type ftype) (\<lambda>b. if b then fields_conform m sc left_map fs else Inr False)
            | None \<Rightarrow> if \<not> optional then Inr False else fields_conform m sc left_map fs))"

definition struct_type_conforms :: "ir \<Rightarrow> (inst_id \<Rightarrow> inst_id \<Rightarrow> bool result) \<Rightarrow> inst_id \<Rightarrow> inst_id \<Rightarrow> bool result" where
  "struct_type_conforms m sc l r =
     bindR (struct_type_fields m l) (\<lambda>lfs. bindR (struct_type_fields m r) (\<lambda>rfs.
     bindR (named m (map (\<lambda>(f, t, _). (f, t)) lfs)) (\<lambda>left_map. fields_conform m sc left_map rfs)))"

definition args_conform :: "(inst_id \<Rightarrow> inst_id \<Rightarrow> bool result) \<Rightarrow> inst_id list \<Rightarrow> inst_id list \<Rightarrow> bool result" where
  "args_conform sc la ra = allR (\<lambda>(l, r). sc l r) (zip la ra)"

definition apply_conforms ::
    "ir \<Rightarrow> (inst_id \<Rightarrow> inst_id \<Rightarrow> bool result) \<Rightarrow> string \<Rightarrow> inst_id \<Rightarrow> inst_id list \<Rightarrow> inst_id \<Rightarrow> inst_id list \<Rightarrow> bool result" where
  "apply_conforms m sc f l la r ra =
     (if f \<in> {''fn:List'', ''fn:Option''} then (if length la = 1 \<and> length ra = 1 then args_conform sc la ra else Inr False)
      else if f \<in> {''fn:Map'', ''fn:Pair''} then (if length la = 2 \<and> length ra = 2 then args_conform sc la ra else Inr False)
      else if f \<in> {''fn:Tuple'', ''fn:Rel''} then (if length la = length ra then args_conform sc la ra else Inr False)
      else if f = ''fn:Struct'' then struct_type_conforms m sc l r
      else if f = ''fn:Singleton'' then (case (la, ra) of ([x], [y]) \<Rightarrow> ir_eq m x y | _ \<Rightarrow> Inr False)
      else if f = ''fn:Fun'' then
        (if length la \<noteq> length ra \<or> la = [] then Inr False
         else bindR (sc (hd la) (hd ra)) (\<lambda>b. if \<not> b then Inr False else allR (\<lambda>(x, y). sc y x) (zip (tl la) (tl ra))))
      else Inr False)"

definition singleton_const :: "tnode \<Rightarrow> inst_id option" where
  "singleton_const n = (case n of NApply f [c] \<Rightarrow> if f = ''fn:Singleton'' then Some c else None | _ \<Rightarrow> None)"

definition var_bound :: "type_context \<Rightarrow> tnode \<Rightarrow> inst_id option" where
  "var_bound ctx n = (case n of NVar v \<Rightarrow> map_of ctx v | _ \<Rightarrow> None)"

definition names_conform :: "string \<Rightarrow> string \<Rightarrow> bool" where
  "names_conform left_name right_name \<longleftrightarrow>
     right_name = ''/name'' \<and> starts_with left_name ''/'' \<and> left_name \<notin> set base_types \<or> below_name left_name right_name"

definition type_conforms :: "ir \<Rightarrow> type_context \<Rightarrow> (inst_id \<Rightarrow> inst_id \<Rightarrow> bool result) \<Rightarrow> inst_id \<Rightarrow> inst_id \<Rightarrow> bool result" where
  "type_conforms m ctx sc l r =
     (if l = r then Inr True
      else bindR (tnode_of m r) (\<lambda>R.
        if R = NName ''/any'' then Inr True
        else bindR (tnode_of m l) (\<lambda>L.
          if L = NName ''/bot'' then Inr True
          else if name_str L \<noteq> None \<and> name_str R \<noteq> None then Inr (names_conform (the (name_str L)) (the (name_str R)))
          else (case singleton_const L of
                  Some c \<Rightarrow> const_has_base_type m c r
                | None \<Rightarrow>
                    (case var_bound ctx L of
                       Some bound \<Rightarrow> sc bound r
                     | None \<Rightarrow>
                         (case var_bound ctx R of
                            Some bound \<Rightarrow> sc l bound
                          | None \<Rightarrow>
                              (case (L, R) of
                                 (NApply f la, NApply g ra) \<Rightarrow> if f = g then apply_conforms m sc f l la r ra else Inr False
                               | _ \<Rightarrow> Inr False)))))))"

text \<open>A variant of a tagged union on the left, with the tag it stands for.\<close>

fun expanded_variant_conforms ::
    "nat \<Rightarrow> ir \<Rightarrow> (inst_id \<Rightarrow> inst_id \<Rightarrow> bool result) \<Rightarrow> inst_id \<Rightarrow> inst_id \<Rightarrow> inst_id \<Rightarrow> inst_id \<Rightarrow> bool result" where
  "expanded_variant_conforms 0 m sc tag_field tag variant r = Inl Panic"
| "expanded_variant_conforms (Suc n) m sc tag_field tag variant r =
     bindR (tnode_of m r) (\<lambda>R.
       case R of
         NName s \<Rightarrow> Inr (s = ''/any'')
       | NApply f args \<Rightarrow>
           if f = ''fn:Struct'' then sc variant r
           else if f = ''fn:TaggedUnion'' then
             (case tagged_union_variants args of
                None \<Rightarrow> Inr False
              | Some vs \<Rightarrow>
                  bindR (ir_eq m tag_field (hd args)) (\<lambda>same.
                    if \<not> same then Inr False
                    else anyR (\<lambda>(rt, rs). bindR (ir_eq m tag rt) (\<lambda>e. if e then sc variant rs else Inr False)) vs))
           else if f = ''fn:Union'' then anyR (expanded_variant_conforms n m sc tag_field tag variant) args
           else Inr False
       | _ \<Rightarrow> Inr False)"

definition args_of :: "string \<Rightarrow> tnode \<Rightarrow> inst_id list option" where
  "args_of f n = (case n of NApply g args \<Rightarrow> if g = f then Some args else None | _ \<Rightarrow> None)"

definition tagged_union_set_conforms_left ::
    "(inst_id \<Rightarrow> inst_id \<Rightarrow> inst_id \<Rightarrow> inst_id \<Rightarrow> bool result) \<Rightarrow> inst_id list \<Rightarrow> inst_id \<Rightarrow> bool result" where
  "tagged_union_set_conforms_left ev la r =
     (case tagged_union_variants la of
        None \<Rightarrow> Inr False
      | Some vs \<Rightarrow> allR (\<lambda>(tag, variant). ev (hd la) tag variant r) vs)"

text \<open>The tag field and the tag are ignored.\<close>

definition expanded_variant_conforms_right ::
    "(inst_id \<Rightarrow> inst_id \<Rightarrow> bool result) \<Rightarrow> inst_id \<Rightarrow> inst_id \<Rightarrow> inst_id \<Rightarrow> inst_id \<Rightarrow> bool result" where
  "expanded_variant_conforms_right sc l tag_field tag variant = sc l variant"

definition tagged_union_set_conforms_right ::
    "(inst_id \<Rightarrow> inst_id \<Rightarrow> bool result) \<Rightarrow> inst_id \<Rightarrow> inst_id list \<Rightarrow> bool result" where
  "tagged_union_set_conforms_right sc l ra =
     (case tagged_union_variants ra of
        None \<Rightarrow> Inr False
      | Some vs \<Rightarrow> anyR (\<lambda>(tag, variant). expanded_variant_conforms_right sc l (hd ra) tag variant) vs)"

text \<open>One level of \<open>set_conforms\<close>: \<open>ev\<close> is \<open>expanded_variant_conforms\<close>, \<open>sc\<close> the recursive call.\<close>

definition set_conforms_step ::
    "ir \<Rightarrow> type_context \<Rightarrow> (inst_id \<Rightarrow> inst_id \<Rightarrow> inst_id \<Rightarrow> inst_id \<Rightarrow> bool result) \<Rightarrow>
     (inst_id \<Rightarrow> inst_id \<Rightarrow> bool result) \<Rightarrow> inst_id \<Rightarrow> inst_id \<Rightarrow> bool result" where
  "set_conforms_step m ctx ev sc l r =
     (if l = r then Inr True
      else bindR (tnode_of m r) (\<lambda>R.
        if R = NName ''/any'' then Inr True
        else bindR (tnode_of m l) (\<lambda>L.
          if L = NName ''/bot'' then Inr True
          else (case args_of ''fn:TaggedUnion'' L of
            Some la \<Rightarrow> tagged_union_set_conforms_left ev la r
          | None \<Rightarrow>
              (case args_of ''fn:TaggedUnion'' R of
                Some ra \<Rightarrow> tagged_union_set_conforms_right sc l ra
              | None \<Rightarrow>
                  (case args_of ''fn:Union'' L of
                    Some la \<Rightarrow> allR (\<lambda>alt. sc alt r) la
                  | None \<Rightarrow>
                      (case args_of ''fn:Union'' R of
                        Some ra \<Rightarrow> anyR (\<lambda>alt. sc l alt) ra
                      | None \<Rightarrow> type_conforms m ctx sc l r)))))))"

fun set_conforms :: "nat \<Rightarrow> ir \<Rightarrow> type_context \<Rightarrow> inst_id \<Rightarrow> inst_id \<Rightarrow> bool result" where
  "set_conforms 0 m ctx l r = Inl Panic"
| "set_conforms (Suc n) m ctx l r =
     set_conforms_step m ctx (expanded_variant_conforms n m (set_conforms n m ctx)) (set_conforms n m ctx) l r"

subsection \<open>Values of a type\<close>

definition list_value_elems :: "ir \<Rightarrow> inst_id \<Rightarrow> inst_id list option result" where
  "list_value_elems m v =
     bindR (tnode_of m v) (\<lambda>n. Inr (case n of NOther (IList elems) \<Rightarrow> Some elems | _ \<Rightarrow> args_of ''fn:list'' n))"

definition map_value_entries :: "ir \<Rightarrow> inst_id \<Rightarrow> (inst_id list \<times> inst_id list) option result" where
  "map_value_entries m v =
     bindR (tnode_of m v) (\<lambda>n.
       Inr (case n of
              NOther (IMap ks vs) \<Rightarrow> Some (ks, vs)
            | _ \<Rightarrow> (case args_of ''fn:map'' n of
                      Some args \<Rightarrow> if odd (length args) then None else Some (map fst (chunk_pairs args), map snd (chunk_pairs args))
                    | None \<Rightarrow> None)))"

fun field_names :: "ir \<Rightarrow> (inst_id \<times> inst_id) list \<Rightarrow> (name_id \<times> inst_id) list option result" where
  "field_names m [] = Inr (Some [])"
| "field_names m ((k, v) # rest) =
     bindR (ir_get m k) (\<lambda>i.
       case i of
         IName n \<Rightarrow> bindR (field_names m rest) (\<lambda>r. Inr (map_option (Cons (n, v)) r))
       | _ \<Rightarrow> Inr None)"

text \<open>Names and values of a struct value; \<open>zip\<close> stops at the shorter vector.\<close>

definition struct_value_fields :: "ir \<Rightarrow> inst_id \<Rightarrow> (name_id list \<times> inst_id list) option result" where
  "struct_value_fields m v =
     bindR (tnode_of m v) (\<lambda>n.
       case n of
         NOther (IStruct fs vs) \<Rightarrow> Inr (Some (fs, vs))
       | _ \<Rightarrow> (case args_of ''fn:struct'' n of
                 Some args \<Rightarrow>
                   if odd (length args) then Inr None
                   else bindR (field_names m (chunk_pairs args)) (\<lambda>r. Inr (map_option (\<lambda>kvs. (map fst kvs, map snd kvs)) r))
               | None \<Rightarrow> Inr None))"

text \<open>\<open>ht\<close> stands for the recursive call of \<open>has_type\<close>.\<close>

fun fields_have_types :: "ir \<Rightarrow> (inst_id \<Rightarrow> inst_id \<Rightarrow> bool result) \<Rightarrow> (string \<times> inst_id) list \<Rightarrow>
    (inst_id \<times> inst_id \<times> bool) list \<Rightarrow> bool result" where
  "fields_have_types m ht value_map [] = Inr True"
| "fields_have_types m ht value_map ((fname, ftype, optional) # fs) =
     bindR (tnode_of m fname) (\<lambda>n.
       case name_str n of
         None \<Rightarrow> fields_have_types m ht value_map fs
       | Some s \<Rightarrow>
           (case last_of value_map s of
              Some v \<Rightarrow> bindR (ht ftype v) (\<lambda>b. if b then fields_have_types m ht value_map fs else Inr False)
            | None \<Rightarrow> if \<not> optional then Inr False else fields_have_types m ht value_map fs))"

definition has_type_struct :: "ir \<Rightarrow> (inst_id \<Rightarrow> inst_id \<Rightarrow> bool result) \<Rightarrow> inst_id \<Rightarrow> inst_id \<Rightarrow> bool result" where
  "has_type_struct m ht t v =
     bindR (struct_type_fields m t) (\<lambda>tfs. bindR (struct_value_fields m v) (\<lambda>vf.
       case vf of
         None \<Rightarrow> Inr False
       | Some (vfields, vvalues) \<Rightarrow>
           bindR (traverseR (resolve_name m) vfields) (\<lambda>vnames.
           bindR (fields_have_types m ht (zip vnames vvalues) tfs) (\<lambda>ok.
             if \<not> ok then Inr False
             else bindR (named m (map (\<lambda>(f, t, _). (f, t)) tfs)) (\<lambda>tnames.
               Inr (list_all (\<lambda>s. s \<in> fst ` set tnames) vnames))))))"

text \<open>\<open>vfields.iter().position(|f| ir.resolve_name(*f) == name)\<close>\<close>

fun field_position :: "ir \<Rightarrow> string \<Rightarrow> name_id list \<Rightarrow> nat option result" where
  "field_position m nm [] = Inr None"
| "field_position m nm (f # fs) =
     bindR (resolve_name m f) (\<lambda>s.
       if s = nm then Inr (Some 0) else bindR (field_position m nm fs) (\<lambda>r. Inr (map_option Suc r)))"

definition has_type_tagged_variant ::
    "ir \<Rightarrow> (inst_id \<Rightarrow> inst_id \<Rightarrow> bool result) \<Rightarrow> inst_id \<Rightarrow> inst_id \<Rightarrow> inst_id \<Rightarrow> inst_id \<Rightarrow> bool result" where
  "has_type_tagged_variant m ht tag_field tag variant v =
     bindR (struct_value_fields m v) (\<lambda>vf.
       case vf of
         None \<Rightarrow> Inr False
       | Some (vfields, vvalues) \<Rightarrow>
           bindR (tnode_of m tag_field) (\<lambda>tn.
             case name_str tn of
               None \<Rightarrow> Inr False
             | Some tag_name \<Rightarrow>
                 bindR (field_position m tag_name vfields) (\<lambda>tag_idx.
                   case tag_idx of
                     None \<Rightarrow> Inr False
                   | Some idx \<Rightarrow>
                       bindR (index_list vvalues idx) (\<lambda>tv.
                       bindR (ir_eq m tv tag) (\<lambda>same.
                         if \<not> same then Inr False
                         else bindR (struct_type_fields m variant) (\<lambda>tfs.
                           bindR (traverseR (resolve_name m) (map fst (zip vfields vvalues))) (\<lambda>vnames.
                           bindR (fields_have_types m ht (filter (\<lambda>(s, _). s \<noteq> tag_name) (zip vnames vvalues)) tfs) (\<lambda>ok.
                             if \<not> ok then Inr False
                             else bindR (named m (map (\<lambda>(f, t, _). (f, t)) tfs)) (\<lambda>tnames.
                               allR (\<lambda>f. bindR (resolve_name m f) (\<lambda>s. Inr (s = tag_name \<or> s \<in> fst ` set tnames)))
                                 vfields)))))))))"

definition pair_has_type :: "(inst_id \<Rightarrow> inst_id \<Rightarrow> bool result) \<Rightarrow> inst_id list \<Rightarrow> inst_id list \<Rightarrow> bool result" where
  "pair_has_type ht ts vs = allR (\<lambda>(t, v). ht t v) (zip ts vs)"

definition list_has_type :: "ir \<Rightarrow> (inst_id \<Rightarrow> inst_id \<Rightarrow> bool result) \<Rightarrow> inst_id list \<Rightarrow> inst_id \<Rightarrow> bool result" where
  "list_has_type m ht args v =
     (case args of
        [a] \<Rightarrow> bindR (list_value_elems m v) (\<lambda>es. case es of None \<Rightarrow> Inr False | Some es \<Rightarrow> allR (ht a) es)
      | _ \<Rightarrow> Inr False)"

definition map_has_type :: "ir \<Rightarrow> (inst_id \<Rightarrow> inst_id \<Rightarrow> bool result) \<Rightarrow> inst_id list \<Rightarrow> inst_id \<Rightarrow> bool result" where
  "map_has_type m ht args v =
     (case args of
        [a, b] \<Rightarrow>
          bindR (map_value_entries m v) (\<lambda>kv.
            case kv of
              None \<Rightarrow> Inr False
            | Some (ks, vs) \<Rightarrow> bindR (allR (ht a) ks) (\<lambda>ok. if ok then allR (ht b) vs else Inr False))
      | _ \<Rightarrow> Inr False)"

definition pair_type_has :: "ir \<Rightarrow> (inst_id \<Rightarrow> inst_id \<Rightarrow> bool result) \<Rightarrow> inst_id list \<Rightarrow> inst_id \<Rightarrow> bool result" where
  "pair_type_has m ht args v =
     (if length args \<noteq> 2 then Inr False
      else bindR (tnode_of m v) (\<lambda>V.
        case args_of ''fn:pair'' V of
          Some vargs \<Rightarrow> if length vargs = 2 then pair_has_type ht args vargs else Inr False
        | None \<Rightarrow>
            bindR (list_value_elems m v) (\<lambda>es.
              case es of
                Some es \<Rightarrow> if length es = 2 then pair_has_type ht args es else Inr False
              | None \<Rightarrow> Inr False)))"

definition tuple_has_type :: "ir \<Rightarrow> (inst_id \<Rightarrow> inst_id \<Rightarrow> bool result) \<Rightarrow> inst_id list \<Rightarrow> inst_id \<Rightarrow> bool result" where
  "tuple_has_type m ht args v =
     bindR (tnode_of m v) (\<lambda>V.
       case args_of ''fn:tuple'' V of
         Some vargs \<Rightarrow> if length vargs = length args then pair_has_type ht args vargs else Inr False
       | None \<Rightarrow>
           (case args_of ''fn:pair'' V of
              Some vargs \<Rightarrow> if length args = 2 \<and> length vargs = 2 then pair_has_type ht args vargs else Inr False
            | None \<Rightarrow> Inr False))"

definition option_has_type :: "ir \<Rightarrow> (inst_id \<Rightarrow> inst_id \<Rightarrow> bool result) \<Rightarrow> inst_id list \<Rightarrow> inst_id \<Rightarrow> bool result" where
  "option_has_type m ht args v =
     (case args of
        [a] \<Rightarrow> bindR (tnode_of m v) (\<lambda>V. if name_str V = Some ''/unit'' then Inr True else ht a v)
      | _ \<Rightarrow> Inr False)"

definition tagged_has_type :: "ir \<Rightarrow> (inst_id \<Rightarrow> inst_id \<Rightarrow> bool result) \<Rightarrow> inst_id list \<Rightarrow> inst_id \<Rightarrow> bool result" where
  "tagged_has_type m ht args v =
     (case tagged_union_variants args of
        None \<Rightarrow> Inr False
      | Some vs \<Rightarrow> anyR (\<lambda>(tag, variant). has_type_tagged_variant m ht (hd args) tag variant v) vs)"

definition has_type_apply ::
    "ir \<Rightarrow> (inst_id \<Rightarrow> inst_id \<Rightarrow> bool result) \<Rightarrow> inst_id \<Rightarrow> string \<Rightarrow> inst_id list \<Rightarrow> inst_id \<Rightarrow> bool result" where
  "has_type_apply m ht t f args v =
     (if f = ''fn:Singleton'' then (case args of [c] \<Rightarrow> ir_eq m v c | _ \<Rightarrow> Inr False)
      else if f = ''fn:Union'' then anyR (\<lambda>alt. ht alt v) args
      else if f = ''fn:TaggedUnion'' then tagged_has_type m ht args v
      else if f = ''fn:List'' then list_has_type m ht args v
      else if f = ''fn:Map'' then map_has_type m ht args v
      else if f = ''fn:Pair'' then pair_type_has m ht args v
      else if f = ''fn:Tuple'' then tuple_has_type m ht args v
      else if f = ''fn:Struct'' then has_type_struct m ht t v
      else if f = ''fn:Option'' then option_has_type m ht args v
      else Inr False)"

text \<open>One level of \<open>has_type\<close>.\<close>

definition has_type_step :: "ir \<Rightarrow> (inst_id \<Rightarrow> inst_id \<Rightarrow> bool result) \<Rightarrow> inst_id \<Rightarrow> inst_id \<Rightarrow> bool result" where
  "has_type_step m ht t v =
     bindR (tnode_of m t) (\<lambda>T.
       case T of
         NName _ \<Rightarrow> const_has_base_type m v t
       | NVar _ \<Rightarrow> Inr True
       | NOther _ \<Rightarrow> Inr False
       | NApply f args \<Rightarrow> has_type_apply m ht t f args v)"

fun has_type :: "nat \<Rightarrow> ir \<Rightarrow> inst_id \<Rightarrow> inst_id \<Rightarrow> bool result" where
  "has_type 0 m t v = Inl Panic"
| "has_type (Suc n) m t v = has_type_step m (has_type n m) t v"

subsection \<open>Well-formed types\<close>

text \<open>\<open>wft\<close> stands for the recursive call of \<open>wellformed_type\<close>; \<open>seen\<close> holds the names met so far.\<close>

fun eachR :: "('a \<Rightarrow> unit result) \<Rightarrow> 'a list \<Rightarrow> unit result" where
  "eachR f [] = Inr ()"
| "eachR f (x # xs) = bindR (f x) (\<lambda>_. eachR f xs)"

fun check_struct_type_expr :: "ir \<Rightarrow> (inst_id \<Rightarrow> unit result) \<Rightarrow> string list \<Rightarrow> inst_id list \<Rightarrow> unit result" where
  "check_struct_type_expr m wft seen [] = Inr ()"
| "check_struct_type_expr m wft seen (a # rest) =
     bindR (tnode_of m a) (\<lambda>n.
       case args_of ''fn:opt'' n of
         Some oargs \<Rightarrow>
           (case oargs of
              [f, t] \<Rightarrow>
                bindR (tnode_of m f) (\<lambda>fnode.
                  case name_str fnode of
                    None \<Rightarrow> Inl (Anyhow ''fn:opt field name must be a name constant'')
                  | Some s \<Rightarrow>
                      if s \<in> set seen then Inl (Anyhow ''duplicate struct field: '')
                      else bindR (wft t) (\<lambda>_. check_struct_type_expr m wft (s # seen) rest))
            | _ \<Rightarrow> Inl (Anyhow ''fn:opt requires 2 arguments''))
       | None \<Rightarrow>
           (case rest of
              [] \<Rightarrow> Inl (Anyhow ''fn:Struct: odd number of args (missing type for last field)'')
            | t # rest' \<Rightarrow>
                (case name_str n of
                   None \<Rightarrow> Inl (Anyhow ''fn:Struct field name must be a name constant'')
                 | Some s \<Rightarrow>
                     if s \<in> set seen then Inl (Anyhow ''duplicate struct field: '')
                     else bindR (wft t) (\<lambda>_. check_struct_type_expr m wft (s # seen) rest'))))"

fun check_variants :: "ir \<Rightarrow> (inst_id \<Rightarrow> unit result) \<Rightarrow> string \<Rightarrow> string list \<Rightarrow> (inst_id \<times> inst_id) list \<Rightarrow> unit result" where
  "check_variants m wft tag_field_name seen [] = Inr ()"
| "check_variants m wft tag_field_name seen ((tag, variant) # rest) =
     bindR (tnode_of m tag) (\<lambda>tn.
       case name_str tn of
         None \<Rightarrow> Inl (Anyhow ''fn:TaggedUnion variant tag must be a name constant'')
       | Some tag_name \<Rightarrow>
           if tag_name \<in> set seen then Inl (Anyhow ''fn:TaggedUnion duplicate variant tag: '')
           else bindR (tnode_of m variant) (\<lambda>vn.
             if apply_fn_name vn \<noteq> Some ''fn:Struct'' then Inl (Anyhow ''fn:TaggedUnion variant type for  must be fn:Struct'')
             else bindR (wft variant) (\<lambda>_.
               bindR (struct_type_fields m variant) (\<lambda>fs.
               bindR (named m (map (\<lambda>(f, t, _). (f, t)) fs)) (\<lambda>names.
                 if tag_field_name \<in> fst ` set names
                 then Inl (Anyhow ''fn:TaggedUnion tag field  must not appear in variant struct for '')
                 else check_variants m wft tag_field_name (tag_name # seen) rest)))))"

definition check_tagged_union_type_expr :: "ir \<Rightarrow> (inst_id \<Rightarrow> unit result) \<Rightarrow> inst_id list \<Rightarrow> unit result" where
  "check_tagged_union_type_expr m wft args =
     (if length args < 3 then Inl (Anyhow ''fn:TaggedUnion requires at least 3 arguments (tag_field, tag, struct)'')
      else if even (length args) then Inl (Anyhow ''fn:TaggedUnion requires odd number of arguments'')
      else bindR (tnode_of m (hd args)) (\<lambda>n.
        case name_str n of
          None \<Rightarrow> Inl (Anyhow ''fn:TaggedUnion tag field must be a name constant'')
        | Some s \<Rightarrow> check_variants m wft s [] (chunk_pairs (tl args))))"

definition is_constant :: "inst \<Rightarrow> bool" where
  "is_constant i = (case i of
     IName _ \<Rightarrow> True | INumber _ \<Rightarrow> True | IString _ \<Rightarrow> True | IFloat _ \<Rightarrow> True | IBool _ \<Rightarrow> True
   | ITime _ \<Rightarrow> True | IDuration _ \<Rightarrow> True | _ \<Rightarrow> False)"

definition wellformed_apply :: "ir \<Rightarrow> (inst_id \<Rightarrow> unit result) \<Rightarrow> string \<Rightarrow> inst_id list \<Rightarrow> unit result" where
  "wellformed_apply m wft f args =
     (if f = ''fn:Struct'' then check_struct_type_expr m wft [] args
      else if f = ''fn:Union'' then
        (if length args < 2 then Inl (Anyhow ''fn:Union requires at least 2 alternatives'') else eachR wft args)
      else if f = ''fn:Singleton'' then
        (case args of
           [c] \<Rightarrow> bindR (ir_get m c) (\<lambda>i. if is_constant i then Inr () else Inl (Anyhow ''fn:Singleton argument must be a constant''))
         | _ \<Rightarrow> Inl (Anyhow ''fn:Singleton requires exactly 1 argument''))
      else if f = ''fn:List'' then
        (if length args \<noteq> 1 then Inl (Anyhow ''fn:List requires exactly 1 argument'') else eachR wft args)
      else if f = ''fn:Map'' then
        (if length args \<noteq> 2 then Inl (Anyhow ''fn:Map requires exactly 2 arguments'') else eachR wft args)
      else if f = ''fn:Pair'' then
        (if length args \<noteq> 2 then Inl (Anyhow ''fn:Pair requires exactly 2 arguments'') else eachR wft args)
      else if f = ''fn:Tuple'' then
        (if length args < 2 then Inl (Anyhow ''fn:Tuple requires at least 2 arguments'') else eachR wft args)
      else if f = ''fn:Option'' then
        (if length args \<noteq> 1 then Inl (Anyhow ''fn:Option requires exactly 1 argument'') else eachR wft args)
      else if f = ''fn:Fun'' then
        (if args = [] then Inl (Anyhow ''fn:Fun requires at least 1 argument (the result type)'') else eachR wft args)
      else if f = ''fn:Rel'' then
        (if args = [] then Inl (Anyhow ''fn:Rel requires at least 1 argument'') else eachR wft args)
      else if f = ''fn:TaggedUnion'' then check_tagged_union_type_expr m wft args
      else if f = ''fn:opt'' then
        (case args of
           [x, t] \<Rightarrow> bindR (tnode_of m x) (\<lambda>n.
             if name_str n = None then Inl (Anyhow ''fn:opt first argument must be a name constant'') else wft t)
         | _ \<Rightarrow> Inl (Anyhow ''fn:opt requires exactly 2 arguments''))
      else Inl (Anyhow ''unknown type constructor: ''))"

fun wellformed_type :: "nat \<Rightarrow> ir \<Rightarrow> type_context \<Rightarrow> inst_id \<Rightarrow> unit result" where
  "wellformed_type 0 m ctx i = Inl Panic"
| "wellformed_type (Suc n) m ctx i =
     bindR (tnode_of m i) (\<lambda>t.
       case t of
         NName s \<Rightarrow> if s \<in> set base_types \<or> starts_with s ''/'' then Inr () else Inl (Anyhow ''unknown type name: '')
       | NVar v \<Rightarrow> if map_of ctx v \<noteq> None then Inr () else Inl (Anyhow ''type variable  not in context'')
       | NApply f args \<Rightarrow> wellformed_apply m (wellformed_type n m ctx) f args
       | NOther _ \<Rightarrow> Inl (Anyhow ''not a valid type expression''))"

text \<open>A depth for the recursion that the number of instructions makes sufficient.\<close>

definition type_depth :: "ir \<Rightarrow> nat" where
  "type_depth m = 2 * length (insts m) + 3"

end
