(* ===== verification/Type_Bounds.thy ===== *)
theory Type_Bounds
  imports Type_Expr
begin

text \<open>
  The operations of \<open>type_expr.rs\<close> that build types: constructors, the expansion of tagged unions, upper
  and lower bounds, intersections, the removal of alternatives from a union, projections of struct
  fields and substitutions.  They add instructions to the IR, which is passed through.
\<close>

type_synonym 'a irm = "ir \<Rightarrow> ('a \<times> ir) result"

definition bindI :: "'a irm \<Rightarrow> ('a \<Rightarrow> 'b irm) \<Rightarrow> 'b irm" where
  "bindI c f m = bindR (c m) (\<lambda>(x, m'). f x m')"

definition returnI :: "'a \<Rightarrow> 'a irm" where
  "returnI x m = Inr (x, m)"

text \<open>A computation that only reads the IR.\<close>

definition readI :: "(ir \<Rightarrow> 'a result) \<Rightarrow> 'a irm" where
  "readI f m = bindR (f m) (\<lambda>x. Inr (x, m))"

fun mapI :: "('a \<Rightarrow> 'b irm) \<Rightarrow> 'a list \<Rightarrow> 'b list irm" where
  "mapI f [] = returnI []"
| "mapI f (x # xs) = bindI (f x) (\<lambda>y. bindI (mapI f xs) (\<lambda>ys. returnI (y # ys)))"

subsection \<open>Constructors\<close>

fun position :: "('a \<Rightarrow> bool) \<Rightarrow> 'a list \<Rightarrow> nat option" where
  "position P [] = None"
| "position P (x # xs) = (if P x then Some 0 else map_option Suc (position P xs))"

definition find_or_create_name :: "string \<Rightarrow> inst_id irm" where
  "find_or_create_name name m =
     (case Option.bind (interner_lookup (name_store m) name) (\<lambda>k. position (\<lambda>i. i = IName k) (insts m)) of
        Some idx \<Rightarrow> bindR (key_new idx) (\<lambda>k. Inr (k, m))
      | None \<Rightarrow> bindI (intern_name name) (\<lambda>n. add_inst (IName n)) m)"

text \<open>The index of the first application of \<open>fn:EmptyType\<close> to no arguments.\<close>

fun find_empty :: "ir \<Rightarrow> nat \<Rightarrow> inst list \<Rightarrow> nat option result" where
  "find_empty m k [] = Inr None"
| "find_empty m k (i # is) =
     (case i of
        IApplyFn f args \<Rightarrow> bindR (resolve_name m f) (\<lambda>s. if s = ''fn:EmptyType'' \<and> args = [] then Inr (Some k) else find_empty m (Suc k) is)
      | _ \<Rightarrow> find_empty m (Suc k) is)"

text \<open>An application of a type constructor: \<open>new_rel_type\<close>, \<open>new_list_type\<close>, \<open>new_map_type\<close>, \<open>new_pair_type\<close>,
  \<open>new_struct_type\<close>, \<open>new_tuple_type\<close>.\<close>

definition new_type :: "string \<Rightarrow> inst_id list \<Rightarrow> inst_id irm" where
  "new_type f args = bindI (intern_name f) (\<lambda>n. add_inst (IApplyFn n args))"

definition empty_type :: "inst_id irm" where
  "empty_type m =
     bindR (find_empty m 0 (insts m)) (\<lambda>r.
       case r of
         Some idx \<Rightarrow> bindR (key_new idx) (\<lambda>k. Inr (k, m))
       | None \<Rightarrow> new_type ''fn:EmptyType'' [] m)"

definition new_rel_type :: "inst_id list \<Rightarrow> inst_id irm" where
  "new_rel_type args = new_type ''fn:Rel'' args"

definition new_list_type :: "inst_id \<Rightarrow> inst_id irm" where
  "new_list_type e = new_type ''fn:List'' [e]"

definition new_map_type :: "inst_id \<Rightarrow> inst_id \<Rightarrow> inst_id irm" where
  "new_map_type k v = new_type ''fn:Map'' [k, v]"

definition new_pair_type :: "inst_id \<Rightarrow> inst_id \<Rightarrow> inst_id irm" where
  "new_pair_type l r = new_type ''fn:Pair'' [l, r]"

definition new_struct_type :: "inst_id list \<Rightarrow> inst_id irm" where
  "new_struct_type args = new_type ''fn:Struct'' args"

definition new_tuple_type :: "inst_id list \<Rightarrow> inst_id irm" where
  "new_tuple_type args = new_type ''fn:Tuple'' args"

definition new_union_or_single :: "inst_id list \<Rightarrow> inst_id irm" where
  "new_union_or_single alts = (case alts of [a] \<Rightarrow> returnI a | _ \<Rightarrow> new_type ''fn:Union'' alts)"

definition is_apply :: "string \<Rightarrow> ir \<Rightarrow> inst_id \<Rightarrow> bool result" where
  "is_apply f m i = bindR (tnode_of m i) (\<lambda>n. Inr (apply_fn_name n = Some f))"

definition union_type_args :: "ir \<Rightarrow> inst_id \<Rightarrow> inst_id list option result" where
  "union_type_args m i = bindR (tnode_of m i) (\<lambda>n. Inr (args_of ''fn:Union'' n))"

definition rel_type_args :: "ir \<Rightarrow> inst_id \<Rightarrow> inst_id list option result" where
  "rel_type_args m i = bindR (tnode_of m i) (\<lambda>n. Inr (args_of ''fn:Rel'' n))"

definition rel_type_alternatives :: "ir \<Rightarrow> inst_id \<Rightarrow> inst_id list result" where
  "rel_type_alternatives m i = bindR (union_type_args m i) (\<lambda>r. Inr (case r of Some args \<Rightarrow> args | None \<Rightarrow> [i]))"

definition rel_type_from_alternatives :: "inst_id list \<Rightarrow> inst_id irm" where
  "rel_type_from_alternatives alts = (if alts = [] then empty_type else new_union_or_single alts)"

definition rel_types_from_decl :: "inst_id list \<Rightarrow> inst_id list irm" where
  "rel_types_from_decl bounds =
     bindI (mapI (\<lambda>b. bindI (readI (\<lambda>m. ir_get m b)) (\<lambda>i.
       case i of IBoundDecl terms \<Rightarrow> bindI (new_rel_type terms) (\<lambda>t. returnI [t]) | _ \<Rightarrow> returnI [])) bounds)
       (\<lambda>ts. returnI (concat ts))"

subsection \<open>Tagged unions\<close>

text \<open>The expansion of a tagged union; \<open>tag_type\<close> gives the type of the tag field of a variant.\<close>

definition expand_variants :: "inst_id list \<Rightarrow> (inst_id \<Rightarrow> inst_id irm) \<Rightarrow> name_id \<Rightarrow> name_id \<Rightarrow> inst_id irm" where
  "expand_variants args tag_type struct_name union_name =
     bindI (mapI (\<lambda>(tag, variant).
         bindI (tag_type tag) (\<lambda>tt.
         bindI (readI (\<lambda>m. ir_get m variant)) (\<lambda>i.
           add_inst (IApplyFn struct_name (hd args # tt # (case i of IApplyFn _ fs \<Rightarrow> fs | _ \<Rightarrow> []))))))
       (chunk_pairs (tl args)))
     (\<lambda>vs. add_inst (IApplyFn union_name vs))"

definition expandable :: "ir \<Rightarrow> inst_id \<Rightarrow> inst_id list result" where
  "expandable m i =
     bindR (ir_get m i) (\<lambda>x.
       case x of
         IApplyFn _ args \<Rightarrow>
           if length args < 3 \<or> even (length args) then Inl (Anyhow ''TaggedUnion: bad arity'') else Inr args
       | _ \<Rightarrow> Inl (Anyhow ''not a TaggedUnion''))"

definition expand_tagged_union_type :: "inst_id \<Rightarrow> inst_id irm" where
  "expand_tagged_union_type i =
     bindI (readI (\<lambda>m. expandable m i)) (\<lambda>args.
     bindI (intern_name ''fn:Singleton'') (\<lambda>singleton_name.
     bindI (intern_name ''fn:Struct'') (\<lambda>struct_name.
     bindI (intern_name ''fn:Union'') (\<lambda>union_name.
       expand_variants args (\<lambda>tag. add_inst (IApplyFn singleton_name [tag])) struct_name union_name))))"

definition expand_tagged_union_for_bounds :: "inst_id \<Rightarrow> inst_id irm" where
  "expand_tagged_union_for_bounds i =
     bindI (readI (\<lambda>m. expandable m i)) (\<lambda>args.
     bindI (intern_name ''/name'') (\<lambda>name_type.
     bindI (add_inst (IName name_type)) (\<lambda>name_type_id.
     bindI (intern_name ''fn:Struct'') (\<lambda>struct_name.
     bindI (intern_name ''fn:Union'') (\<lambda>union_name.
       expand_variants args (\<lambda>_. returnI name_type_id) struct_name union_name)))))"

subsection \<open>Bounds\<close>

definition conformsR :: "ir \<Rightarrow> type_context \<Rightarrow> inst_id \<Rightarrow> inst_id \<Rightarrow> bool result" where
  "conformsR m ctx l r = set_conforms (type_depth m) m ctx l r"

text \<open>The work list of \<open>upper_bound\<close>: unions taken apart, \<open>None\<close> when \<open>/any\<close> is met.\<close>

fun flatten_types :: "ir \<Rightarrow> inst_id list \<Rightarrow> inst_id list option result" where
  "flatten_types m [] = Inr (Some [])"
| "flatten_types m (t # ts) =
     bindR (tnode_of m t) (\<lambda>n.
       if n = NName ''/any'' then Inr None
       else bindR (flatten_types m ts) (\<lambda>r.
         Inr (map_option (\<lambda>w. (case args_of ''fn:Union'' n of Some args \<Rightarrow> args | None \<Rightarrow> [t]) @ w) r)))"

fun reduce_into :: "(inst_id \<Rightarrow> inst_id \<Rightarrow> bool result) \<Rightarrow> inst_id \<Rightarrow> inst_id list \<Rightarrow> inst_id list result" where
  "reduce_into sc te [] = Inr [te]"
| "reduce_into sc te (r # rs) =
     bindR (sc te r) (\<lambda>b.
       if b then Inr (r # rs)
       else bindR (sc r te) (\<lambda>c. if c then Inr (te # rs) else bindR (reduce_into sc te rs) (\<lambda>rs'. Inr (r # rs'))))"

fun reduce_all :: "(inst_id \<Rightarrow> inst_id \<Rightarrow> bool result) \<Rightarrow> inst_id list \<Rightarrow> inst_id list \<Rightarrow> inst_id list result" where
  "reduce_all sc [] reduced = Inr reduced"
| "reduce_all sc (t # ts) reduced = bindR (reduce_into sc t reduced) (reduce_all sc ts)"

definition upper_bound :: "type_context \<Rightarrow> inst_id list \<Rightarrow> inst_id irm" where
  "upper_bound ctx type_exprs m =
     bindR (flatten_types m type_exprs) (\<lambda>worklist.
       case worklist of
         None \<Rightarrow> find_or_create_name ''/any'' m
       | Some [] \<Rightarrow> empty_type m
       | Some (w # ws) \<Rightarrow> bindR (reduce_all (conformsR m ctx) ws [w]) (\<lambda>reduced. new_union_or_single reduced m))"

text \<open>The alternatives of a union that conform to \<open>a\<close>, or \<open>a\<close> where it conforms to them.\<close>

fun common_alternatives :: "(inst_id \<Rightarrow> inst_id \<Rightarrow> bool result) \<Rightarrow> inst_id \<Rightarrow> inst_id list \<Rightarrow> inst_id list result" where
  "common_alternatives sc a [] = Inr []"
| "common_alternatives sc a (e # es) =
     bindR (sc a e) (\<lambda>b.
       bindR (if b then Inr [a] else bindR (sc e a) (\<lambda>c. Inr (if c then [e] else []))) (\<lambda>x.
       bindR (common_alternatives sc a es) (\<lambda>xs. Inr (x @ xs))))"

fun intersect_type :: "nat \<Rightarrow> type_context \<Rightarrow> inst_id \<Rightarrow> inst_id \<Rightarrow> inst_id irm" where
  "intersect_type 0 ctx a b m = Inl Panic"
| "intersect_type (Suc n) ctx a b m =
     bindR (ir_eq m a b) (\<lambda>same. if same then Inr (a, m)
     else bindR (tnode_of m a) (\<lambda>A. if A = NName ''/any'' then Inr (b, m)
     else bindR (tnode_of m b) (\<lambda>B. if B = NName ''/any'' then Inr (a, m)
     else (case A of
       NVar v \<Rightarrow> (case map_of ctx v of Some bound \<Rightarrow> intersect_type n ctx bound b m | None \<Rightarrow> empty_type m)
     | _ \<Rightarrow> (case B of
         NVar v \<Rightarrow> (case map_of ctx v of Some bound \<Rightarrow> intersect_type n ctx a bound m | None \<Rightarrow> empty_type m)
       | _ \<Rightarrow>
           bindR (conformsR m ctx a b) (\<lambda>ab. if ab then Inr (a, m)
           else bindR (conformsR m ctx b a) (\<lambda>ba. if ba then Inr (b, m)
           else (case args_of ''fn:Union'' A of
             Some args \<Rightarrow>
               bindI (mapI (\<lambda>e. bindI (intersect_type n ctx e b) (\<lambda>u.
                   bindI (readI (\<lambda>m. is_apply ''fn:EmptyType'' m u)) (\<lambda>empty. returnI (if empty then [] else [u])))) args)
                 (\<lambda>res. upper_bound ctx (concat res)) m
           | None \<Rightarrow>
               (case args_of ''fn:Union'' B of
                  Some args \<Rightarrow> bindR (common_alternatives (conformsR m ctx) a args) (\<lambda>res. upper_bound ctx res m)
                | None \<Rightarrow> empty_type m))))))))) "

fun lower_from :: "nat \<Rightarrow> type_context \<Rightarrow> inst_id \<Rightarrow> inst_id list \<Rightarrow> inst_id irm" where
  "lower_from d ctx result [] = returnI result"
| "lower_from d ctx result (t # ts) =
     bindI (intersect_type d ctx result t) (\<lambda>r.
     bindI (readI (\<lambda>m. is_apply ''fn:EmptyType'' m r)) (\<lambda>empty.
       if empty then returnI r else lower_from d ctx r ts))"

definition lower_bound :: "nat \<Rightarrow> type_context \<Rightarrow> inst_id list \<Rightarrow> inst_id irm" where
  "lower_bound d ctx type_exprs = bindI (find_or_create_name ''/any'') (\<lambda>any. lower_from d ctx any type_exprs)"

fun not_conforming :: "(inst_id \<Rightarrow> inst_id \<Rightarrow> bool result) \<Rightarrow> inst_id \<Rightarrow> inst_id list \<Rightarrow> inst_id list result" where
  "not_conforming sc r [] = Inr []"
| "not_conforming sc r (t # ts) =
     bindR (sc t r) (\<lambda>b. bindR (not_conforming sc r ts) (\<lambda>rest. Inr (if b then rest else t # rest)))"

definition remove_from_union_type :: "inst_id \<Rightarrow> inst_id \<Rightarrow> inst_id irm" where
  "remove_from_union_type to_remove union_type m =
     bindR (union_type_args m union_type) (\<lambda>r.
       case r of
         Some args \<Rightarrow>
           bindR (not_conforming (conformsR m []) to_remove args) (\<lambda>remaining.
             if remaining = [] then empty_type m else new_union_or_single remaining m)
       | None \<Rightarrow> bindR (conformsR m [] union_type to_remove) (\<lambda>b. if b then empty_type m else Inr (union_type, m)))"

subsection \<open>Fields and substitutions\<close>

fun field_type :: "ir \<Rightarrow> string \<Rightarrow> (inst_id \<times> inst_id \<times> bool) list \<Rightarrow> inst_id option result" where
  "field_type m field [] = Inr None"
| "field_type m field ((f, t, opt) # fs) =
     bindR (tnode_of m f) (\<lambda>n. if name_str n = Some field then Inr (Some t) else field_type m field fs)"

definition struct_type_field :: "ir \<Rightarrow> inst_id \<Rightarrow> name_id \<Rightarrow> inst_id option result" where
  "struct_type_field m t field =
     bindR (is_apply ''fn:Struct'' m t) (\<lambda>s. if \<not> s then Inr None
     else bindR (resolve_name m field) (\<lambda>field_name. bindR (struct_type_fields m t) (field_type m field_name)))"

definition somes :: "'a option list \<Rightarrow> 'a list" where
  "somes xs = concat (map (\<lambda>x. case x of Some y \<Rightarrow> [y] | None \<Rightarrow> []) xs)"

text \<open>The field in every alternative of a union; \<open>?\<close> stops at the first alternative without it.\<close>

fun fields_of_all :: "(inst_id \<Rightarrow> inst_id option irm) \<Rightarrow> inst_id list \<Rightarrow> inst_id list option irm" where
  "fields_of_all f [] = returnI (Some [])"
| "fields_of_all f (a # as) =
     bindI (f a) (\<lambda>r. case r of None \<Rightarrow> returnI None | Some t \<Rightarrow> bindI (fields_of_all f as) (\<lambda>ts. returnI (map_option (Cons t) ts)))"

fun struct_type_field_deep :: "nat \<Rightarrow> inst_id \<Rightarrow> name_id \<Rightarrow> inst_id option irm" where
  "struct_type_field_deep 0 t field m = Inl Panic"
| "struct_type_field_deep (Suc n) t field m =
     bindR (tnode_of m t) (\<lambda>T.
       case T of
         NApply f args \<Rightarrow>
           if f = ''fn:Struct'' then bindR (struct_type_field m t field) (\<lambda>r. Inr (r, m))
           else if f = ''fn:TaggedUnion'' then
             (case tagged_union_variants args of
                None \<Rightarrow> Inr (None, m)
              | Some vs \<Rightarrow>
                  bindR (resolve_name m field) (\<lambda>field_name.
                  bindR (tnode_of m (hd args)) (\<lambda>tf.
                    case name_str tf of
                      None \<Rightarrow> Inr (None, m)
                    | Some tag_field_name \<Rightarrow>
                        if field_name = tag_field_name
                        then bindI (intern_name ''fn:Singleton'') (\<lambda>sn.
                               bindI (mapI (\<lambda>(tag, _). add_inst (IApplyFn sn [tag])) vs) (\<lambda>tag_types.
                               bindI (new_union_or_single tag_types) (\<lambda>u. returnI (Some u)))) m
                        else bindI (mapI (\<lambda>(_, variant). bindI (intern_name field_name) (\<lambda>vf.
                                 readI (\<lambda>m. struct_type_field m variant vf))) vs) (\<lambda>ts.
                               if somes ts = [] then returnI None
                               else bindI (upper_bound [] (somes ts)) (\<lambda>u. returnI (Some u))) m)))
           else if f = ''fn:Union'' then
             bindI (fields_of_all (\<lambda>a. struct_type_field_deep n a field) args) (\<lambda>r.
               case r of
                 None \<Rightarrow> returnI None
               | Some ts \<Rightarrow> if ts = [] then returnI None else bindI (upper_bound [] ts) (\<lambda>u. returnI (Some u))) m
           else Inr (None, m)
       | _ \<Rightarrow> Inr (None, m))"

fun type_apply_subst :: "nat \<Rightarrow> type_context \<Rightarrow> inst_id \<Rightarrow> inst_id irm" where
  "type_apply_subst 0 subst i m = Inl Panic"
| "type_apply_subst (Suc n) subst i m =
     (if subst = [] then Inr (i, m)
      else bindR (ir_get m i) (\<lambda>x.
        case x of
          IVar v \<Rightarrow> Inr (case map_of subst v of Some r \<Rightarrow> r | None \<Rightarrow> i, m)
        | IApplyFn f args \<Rightarrow>
            bindI (mapI (type_apply_subst n subst) args) (\<lambda>new_args.
              if new_args = args then returnI i else add_inst (IApplyFn f new_args)) m
        | _ \<Rightarrow> Inr (i, m)))"

text \<open>The variables of a type, in the order they are met.\<close>

fun type_collect_vars :: "nat \<Rightarrow> ir \<Rightarrow> inst_id \<Rightarrow> name_id list result" where
  "type_collect_vars 0 m i = Inl Panic"
| "type_collect_vars (Suc n) m i =
     bindR (ir_get m i) (\<lambda>x.
       case x of
         IVar v \<Rightarrow> Inr [v]
       | IApplyFn f args \<Rightarrow> bindR (traverseR (type_collect_vars n m) args) (\<lambda>vs. Inr (concat vs))
       | _ \<Rightarrow> Inr [])"

end
