(* ===== verification/Type_Depth.thy ===== *)
theory Type_Depth
  imports Type_Expr
begin

text \<open>
  The recursion of \<open>type_expr.rs\<close> ends on an IR whose instructions refer to earlier ones only, which is
  how \<open>Ir::add_inst\<close> builds it: the depth is bounded by the size of the IR, and from that depth on the
  results of \<open>has_type\<close> and \<open>set_conforms\<close> no longer depend on it.
\<close>

subsection \<open>Total results\<close>

definition total_R :: "'a result \<Rightarrow> bool" where
  "total_R r \<longleftrightarrow> (\<exists>b. r = Inr b)"

lemma total_Inr [simp]: "total_R (Inr b)"
  by (simp add: total_R_def)

lemma total_bindR: "total_R r \<Longrightarrow> (\<And>x. r = Inr x \<Longrightarrow> total_R (f x)) \<Longrightarrow> total_R (bindR r f)"
  by (auto simp: total_R_def)

lemma total_allR: "(\<And>x. x \<in> set xs \<Longrightarrow> total_R (f x)) \<Longrightarrow> total_R (allR f xs)"
  by (induction xs) (auto intro!: total_bindR)

lemma total_anyR: "(\<And>x. x \<in> set xs \<Longrightarrow> total_R (f x)) \<Longrightarrow> total_R (anyR f xs)"
  by (induction xs) (auto intro!: total_bindR)

lemma total_traverseR: "(\<And>x. x \<in> set xs \<Longrightarrow> total_R (f x)) \<Longrightarrow> total_R (traverseR f xs)"
  by (induction xs) (auto intro!: total_bindR)

lemma allR_cong [fundef_cong]: "xs = ys \<Longrightarrow> (\<And>x. x \<in> set ys \<Longrightarrow> f x = g x) \<Longrightarrow> allR f xs = allR g ys"
proof (induction ys arbitrary: xs)
  case (Cons y ys)
  then show ?case
    using Cons.IH [OF refl] by (simp cong: if_cong)
qed simp

lemma anyR_cong [fundef_cong]: "xs = ys \<Longrightarrow> (\<And>x. x \<in> set ys \<Longrightarrow> f x = g x) \<Longrightarrow> anyR f xs = anyR g ys"
proof (induction ys arbitrary: xs)
  case (Cons y ys)
  then show ?case
    using Cons.IH [OF refl] by (simp cong: if_cong)
qed simp

lemma allR_True: "allR f xs = Inr True \<longleftrightarrow> (\<forall>x\<in>set xs. f x = Inr True)"
  by (induction xs) (auto split: if_splits)

lemma anyR_True: "anyR f xs = Inr True \<Longrightarrow> \<exists>x\<in>set xs. f x = Inr True"
  by (induction xs) (auto split: if_splits)

lemma anyR_TrueI:
  assumes "\<And>x. x \<in> set xs \<Longrightarrow> total_R (f x)" "x \<in> set xs" "f x = Inr True"
  shows "anyR f xs = Inr True"
  using assms(2,1)
proof (induction xs)
  case (Cons y ys)
  obtain b where b: "f y = Inr b"
    using Cons.prems(2) [of y] by (auto simp: total_R_def)
  show ?case
    using Cons b assms(3) by (cases b) auto
qed simp

subsection \<open>Instructions that refer to earlier ones\<close>

definition inst_args :: "inst \<Rightarrow> inst_id list" where
  "inst_args i = (case i of IApplyFn _ as \<Rightarrow> as | IList es \<Rightarrow> es | IMap ks vs \<Rightarrow> ks @ vs | IStruct _ vs \<Rightarrow> vs | _ \<Rightarrow> [])"

definition inst_names :: "inst \<Rightarrow> name_id list" where
  "inst_names i = (case i of IName n \<Rightarrow> [n] | IApplyFn f _ \<Rightarrow> [f] | IStruct fs _ \<Rightarrow> fs | _ \<Rightarrow> [])"

definition has_inst :: "ir \<Rightarrow> inst_id \<Rightarrow> bool" where
  "has_inst m i \<longleftrightarrow> key_index i < length (insts m)"

definition has_name :: "ir \<Rightarrow> name_id \<Rightarrow> bool" where
  "has_name m n \<longleftrightarrow> key_index n < length (ivec (name_store m))"

definition inst_ok :: "ir \<Rightarrow> nat \<Rightarrow> inst \<Rightarrow> bool" where
  "inst_ok m k i \<longleftrightarrow> list_all (\<lambda>a. key_index a < k) (inst_args i) \<and> list_all (has_name m) (inst_names i) \<and>
     (case i of IStruct fs vs \<Rightarrow> length fs = length vs | _ \<Rightarrow> True)"

definition acyclic_ir :: "ir \<Rightarrow> bool" where
  "acyclic_ir m \<longleftrightarrow> list_all (\<lambda>k. inst_ok m k (insts m ! k)) [0..<length (insts m)]"

lemma ir_get_total: "has_inst m i \<Longrightarrow> ir_get m i = Inr (insts m ! key_index i)"
  by (simp add: has_inst_def ir_get_def index_list_def)

lemma total_ir_get: "has_inst m i \<Longrightarrow> total_R (ir_get m i)"
  by (simp add: ir_get_total)

lemma total_resolve: "has_name m n \<Longrightarrow> total_R (resolve_name m n)"
  by (simp add: has_name_def resolve_name_def interner_get_def index_list_def)

lemma ir_get_ok: "acyclic_ir m \<Longrightarrow> ir_get m i = Inr x \<Longrightarrow> inst_ok m (key_index i) x"
  by (auto simp: acyclic_ir_def ir_get_def list_all_iff)

lemma ir_get_has: "ir_get m i = Inr x \<Longrightarrow> has_inst m i"
  by (simp add: ir_get_def has_inst_def)

lemma has_inst_le: "has_inst m i \<Longrightarrow> key_index j < key_index i \<Longrightarrow> has_inst m j"
  by (simp add: has_inst_def)

lemma inst_node_Inr:
  "inst_node m x = Inr (NName s) \<longleftrightarrow> (\<exists>n. x = IName n \<and> resolve_name m n = Inr s)"
  "inst_node m x = Inr (NVar v) \<longleftrightarrow> x = IVar v"
  "inst_node m x = Inr (NApply s as) \<longleftrightarrow> (\<exists>f. x = IApplyFn f as \<and> resolve_name m f = Inr s)"
  "inst_node m x = Inr (NOther y) \<longleftrightarrow> x = y \<and> (\<forall>n. x \<noteq> IName n) \<and> (\<forall>v. x \<noteq> IVar v) \<and> (\<forall>f as. x \<noteq> IApplyFn f as)"
  by (cases x; auto simp: inst_node_def)+

lemma total_inst_node: "inst_ok m k x \<Longrightarrow> total_R (inst_node m x)"
  by (cases x) (auto simp: inst_node_def inst_ok_def inst_names_def intro!: total_bindR total_resolve)

lemma total_tnode: "acyclic_ir m \<Longrightarrow> has_inst m i \<Longrightarrow> total_R (tnode_of m i)"
  unfolding tnode_of_def
  by (rule total_bindR [OF total_ir_get], assumption)
    (drule (1) ir_get_ok, rule total_inst_node)

lemma tnode_Apply:
  assumes "acyclic_ir m" "tnode_of m i = Inr (NApply f as)" "a \<in> set as"
  shows "key_index a < key_index i" "has_inst m a"
proof -
  obtain g where g: "ir_get m i = Inr (IApplyFn g as)"
    using assms(2) by (auto simp: tnode_of_def inst_node_Inr)
  show *: "key_index a < key_index i"
    using ir_get_ok [OF assms(1) g] assms(3) by (simp add: inst_ok_def inst_args_def list_all_iff)
  show "has_inst m a"
    using has_inst_le [OF ir_get_has [OF g] *] .
qed

lemma tnode_Other:
  assumes "acyclic_ir m" "tnode_of m i = Inr (NOther x)"
  shows "\<forall>a\<in>set (inst_args x). has_inst m a" "\<forall>a\<in>set (inst_names x). has_name m a"
    "\<And>fs vs. x = IStruct fs vs \<Longrightarrow> length fs = length vs"
proof -
  have g: "ir_get m i = Inr x"
    using assms(2) by (auto simp: tnode_of_def inst_node_Inr)
  note ok = ir_get_ok [OF assms(1) g]
  show "\<forall>a\<in>set (inst_args x). has_inst m a"
    using ok has_inst_le [OF ir_get_has [OF g]] by (auto simp: inst_ok_def list_all_iff)
  show "\<forall>a\<in>set (inst_names x). has_name m a"
    using ok by (simp add: inst_ok_def list_all_iff)
  show "\<And>fs vs. x = IStruct fs vs \<Longrightarrow> length fs = length vs"
    using ok by (simp add: inst_ok_def)
qed

lemma args_of_Some: "args_of f n = Some as \<longleftrightarrow> n = NApply f as"
  by (cases n) (auto simp: args_of_def)

lemma chunk_pairs_set: "(x, y) \<in> set (chunk_pairs xs) \<Longrightarrow> x \<in> set xs \<and> y \<in> set xs"
  by (induction xs rule: chunk_pairs.induct) auto

lemma variants_set: "tagged_union_variants as = Some vs \<Longrightarrow> (x, y) \<in> set vs \<Longrightarrow> x \<in> set as \<and> y \<in> set as"
  by (auto simp: tagged_union_variants_def split: if_splits dest!: chunk_pairs_set intro: list.set_sel(2))

lemma variants_hd: "tagged_union_variants as = Some vs \<Longrightarrow> hd as \<in> set as"
  by (cases as) (auto simp: tagged_union_variants_def)


subsection \<open>Fields of types and values\<close>

definition below :: "ir \<Rightarrow> nat \<Rightarrow> inst_id \<Rightarrow> bool" where
  "below m k i \<longleftrightarrow> has_inst m i \<and> key_index i < k"

lemma below_has: "below m k i \<Longrightarrow> has_inst m i"
  by (simp add: below_def)

lemma below_trans: "below m k i \<Longrightarrow> key_index j < key_index i \<Longrightarrow> below m k j"
  using has_inst_le by (auto simp: below_def)

lemma apply_below: "acyclic_ir m \<Longrightarrow> tnode_of m i = Inr (NApply f as) \<Longrightarrow> \<forall>a\<in>set as. below m (key_index i) a"
  using tnode_Apply by (auto simp: below_def)

lemma apply_below': "acyclic_ir m \<Longrightarrow> below m k i \<Longrightarrow> tnode_of m i = Inr (NApply f as) \<Longrightarrow> \<forall>a\<in>set as. below m k a"
  using tnode_Apply(1) below_trans by blast

lemma total_struct_fields:
  "acyclic_ir m \<Longrightarrow> \<forall>a\<in>set as. has_inst m a \<Longrightarrow> total_R (struct_fields m as)"
proof (induction m as rule: struct_fields.induct)
  case (2 m a rest)
  show ?case
    unfolding struct_fields.simps(2)
  proof (rule total_bindR)
    fix n assume n: "tnode_of m a = Inr n"
    show "total_R (if apply_fn_name n = Some ''fn:opt''
       then bindR (struct_fields m rest) (\<lambda>fs. Inr ((case n of NApply _ [x, y] \<Rightarrow> [(x, y, True)] | _ \<Rightarrow> []) @ fs))
       else (case rest of
               [] \<Rightarrow> Inr []
             | b # rest' \<Rightarrow> bindR (struct_fields m rest') (\<lambda>fs. Inr ((a, b, False) # fs))))"
      using 2(1) [OF n] 2(2) [OF n] 2(3,4) by (cases rest) (auto intro!: total_bindR simp del: struct_fields.simps(2))
  qed (use 2(3,4) total_tnode in auto)
qed simp

lemma struct_fields_below:
  "acyclic_ir m \<Longrightarrow> struct_fields m as = Inr fs \<Longrightarrow> \<forall>a\<in>set as. below m k a \<Longrightarrow> (f, t, opt) \<in> set fs \<Longrightarrow>
   below m k f \<and> below m k t"
proof (induction m as arbitrary: fs rule: struct_fields.induct)
  case (2 m a rest)
  obtain n where n: "tnode_of m a = Inr n"
    using 2(4) by auto
  show ?case
  proof (cases "apply_fn_name n = Some ''fn:opt''")
    case True
    then obtain fs' where fs': "struct_fields m rest = Inr fs'"
      "fs = (case n of NApply _ [x, y] \<Rightarrow> [(x, y, True)] | _ \<Rightarrow> []) @ fs'"
      using 2(4) n by auto
    have "below m k f \<and> below m k t" if "(f, t, opt) \<in> set fs'"
      using 2(1) [OF n True 2(3) fs'(1)] 2(5) that by auto
    moreover have "below m k f \<and> below m k t" if nn: "n = NApply g [f, t]" for g
      using apply_below' [OF 2(3) _ n [unfolded nn]] 2(5) by auto
    ultimately show ?thesis
      using 2(6) fs'(2) by (auto split: tnode.splits list.splits)
  next
    case False
    show ?thesis
      using 2(4,5,6) n False 2(2) [OF n False _ 2(3)] by (cases rest) auto
  qed
qed simp

lemma total_named: "acyclic_ir m \<Longrightarrow> \<forall>(f, x)\<in>set fs. has_inst m f \<Longrightarrow> total_R (named m fs)"
  by (induction m fs rule: named.induct) (auto intro!: total_bindR total_tnode)

lemma total_struct_type_fields: "acyclic_ir m \<Longrightarrow> has_inst m t \<Longrightarrow> total_R (struct_type_fields m t)"
  unfolding struct_type_fields_def
  by (rule total_bindR [OF total_tnode])
    (auto split: tnode.split intro!: total_struct_fields dest: tnode_Apply(2))

lemma struct_type_fields_below:
  assumes "acyclic_ir m" "struct_type_fields m t = Inr fs" "(f, ty, opt) \<in> set fs"
  shows "below m (key_index t) f \<and> below m (key_index t) ty"
proof -
  obtain n where n: "tnode_of m t = Inr n"
    using assms(2) by (auto simp: struct_type_fields_def)
  then obtain as where as: "n = NApply ''fn:Struct'' as" "struct_fields m as = Inr fs"
    using assms(2,3) by (auto simp: struct_type_fields_def split: tnode.splits if_splits)
  show ?thesis
    using struct_fields_below [OF assms(1) as(2) apply_below [OF assms(1) n [unfolded as(1)]] assms(3)] .
qed

lemma total_type_names:
  assumes "acyclic_ir m" "struct_type_fields m t = Inr fs"
  shows "total_R (named m (map (\<lambda>(f, t, _). (f, t)) fs))"
  by (rule total_named [OF assms(1)]) (use struct_type_fields_below [OF assms] below_has in fastforce)

lemma total_list_value_elems: "acyclic_ir m \<Longrightarrow> has_inst m v \<Longrightarrow> total_R (list_value_elems m v)"
  unfolding list_value_elems_def by (rule total_bindR [OF total_tnode]) auto

lemma list_value_elems_has:
  assumes "acyclic_ir m" "list_value_elems m v = Inr (Some es)"
  shows "\<forall>e\<in>set es. has_inst m e"
proof -
  obtain n where n: "tnode_of m v = Inr n"
    using assms(2) by (auto simp: list_value_elems_def)
  then have "n = NOther (IList es) \<or> n = NApply ''fn:list'' es"
    using assms(2) by (auto simp: list_value_elems_def args_of_Some split: tnode.splits inst.split_asm)
  then show ?thesis
    using n tnode_Other(1) [OF assms(1), of v "IList es"] tnode_Apply(2) [OF assms(1), of v "''fn:list''" es]
    by (auto simp: inst_args_def)
qed

lemma total_map_value_entries: "acyclic_ir m \<Longrightarrow> has_inst m v \<Longrightarrow> total_R (map_value_entries m v)"
  unfolding map_value_entries_def by (rule total_bindR [OF total_tnode]) auto

lemma map_value_entries_has:
  assumes "acyclic_ir m" "map_value_entries m v = Inr (Some (ks, vs))"
  shows "(\<forall>e\<in>set ks. has_inst m e) \<and> (\<forall>e\<in>set vs. has_inst m e)"
proof -
  obtain n where n: "tnode_of m v = Inr n"
    using assms(2) by (auto simp: map_value_entries_def)
  then have "n = NOther (IMap ks vs) \<or>
      (\<exists>as. n = NApply ''fn:map'' as \<and> ks = map fst (chunk_pairs as) \<and> vs = map snd (chunk_pairs as))"
    using assms(2)
    by (auto simp: map_value_entries_def args_of_Some split: tnode.splits inst.split_asm option.split_asm if_splits)
  then show ?thesis
    using n tnode_Other(1) [OF assms(1), of v "IMap ks vs"] tnode_Apply(2) [OF assms(1), of v "''fn:map''"]
    by (auto simp: inst_args_def dest!: chunk_pairs_set)
qed

lemma field_names_Some:
  "acyclic_ir m \<Longrightarrow> field_names m kvs = Inr (Some r) \<Longrightarrow>
   map snd r = map snd kvs \<and> (\<forall>n\<in>fst ` set r. has_name m n)"
proof (induction m kvs arbitrary: r rule: field_names.induct)
  case (2 m k v rest)
  obtain x where x: "ir_get m k = Inr x"
    using 2(3) by auto
  then obtain n r' where nr: "ir_get m k = Inr (IName n)" "field_names m rest = Inr (Some r')" "r = (n, v) # r'"
    using 2(3) by (cases x) auto
  show ?case
    using 2(1) [OF nr(1) refl 2(2) nr(2)] ir_get_ok [OF 2(2) nr(1)] nr(3)
    by (auto simp: inst_ok_def inst_names_def)
qed auto

lemma total_field_names:
  "\<forall>(k, v)\<in>set kvs. has_inst m k \<Longrightarrow> total_R (field_names m kvs)"
  by (induction m kvs rule: field_names.induct) (auto intro!: total_bindR total_ir_get split: inst.split)

lemma total_struct_value_fields:
  assumes "acyclic_ir m" "has_inst m v"
  shows "total_R (struct_value_fields m v)"
  unfolding struct_value_fields_def
proof (rule total_bindR [OF total_tnode [OF assms]])
  fix n assume n: "tnode_of m v = Inr n"
  have "total_R (field_names m (chunk_pairs as))" if "n = NApply ''fn:struct'' as" for as
    using tnode_Apply(2) [OF assms(1) n [unfolded that]] chunk_pairs_set by (fastforce intro!: total_field_names)
  then show "total_R (case n of
         NOther (IStruct fs vs) \<Rightarrow> Inr (Some (fs, vs))
       | _ \<Rightarrow> (case args_of ''fn:struct'' n of
                 Some args \<Rightarrow>
                   if odd (length args) then Inr None
                   else bindR (field_names m (chunk_pairs args)) (\<lambda>r. Inr (map_option (\<lambda>kvs. (map fst kvs, map snd kvs)) r))
               | None \<Rightarrow> Inr None))"
    by (cases n) (auto simp: args_of_def split: inst.split intro!: total_bindR)
qed

lemma struct_value_fields_has:
  assumes "acyclic_ir m" "struct_value_fields m v = Inr (Some (fs, vs))"
  shows "length fs = length vs" "\<forall>f\<in>set fs. has_name m f" "\<forall>x\<in>set vs. has_inst m x"
proof -
  obtain n where n: "tnode_of m v = Inr n"
    using assms(2) by (auto simp: struct_value_fields_def)
  consider (st) "n = NOther (IStruct fs vs)"
    | (app) as r where "n = NApply ''fn:struct'' as" "field_names m (chunk_pairs as) = Inr (Some r)"
        "fs = map fst r" "vs = map snd r"
  proof (cases "\<exists>x. n = NOther x")
    case True
    then show ?thesis
      using assms(2) n that(1) by (auto simp: struct_value_fields_def args_of_def split: inst.split_asm)
  next
    case False
    then show ?thesis
      using assms(2) n that(2)
      by (cases n) (auto simp: struct_value_fields_def args_of_def map_option_case split: option.split_asm if_splits)
  qed
  then have "length fs = length vs \<and> (\<forall>f\<in>set fs. has_name m f) \<and> (\<forall>x\<in>set vs. has_inst m x)"
  proof cases
    case st
    then show ?thesis
      using tnode_Other [OF assms(1) n [unfolded st]] by (auto simp: inst_args_def inst_names_def)
  next
    case app
    have "\<forall>x\<in>set vs. has_inst m x"
      using field_names_Some [OF assms(1) app(2)] app(4) tnode_Apply(2) [OF assms(1) n [unfolded app(1)]]
      by (auto dest!: chunk_pairs_set)
    then show ?thesis
      using field_names_Some [OF assms(1) app(2)] app(3,4) by auto (metis length_map)
  qed
  then show "length fs = length vs" "\<forall>f\<in>set fs. has_name m f" "\<forall>x\<in>set vs. has_inst m x"
    by auto
qed

subsection \<open>Results that agree\<close>

text \<open>Two computations that both return, and return the same.\<close>

definition agree :: "'a result \<Rightarrow> 'a result \<Rightarrow> bool" where
  "agree r r' \<longleftrightarrow> (\<exists>b. r = Inr b \<and> r' = Inr b)"

lemma agree_total_refl: "total_R r \<Longrightarrow> agree r r"
  by (auto simp: agree_def total_R_def)

lemma agree_Inr [simp]: "agree (Inr b) (Inr c) \<longleftrightarrow> b = c"
  by (auto simp: agree_def)

lemma agree_bindR: "agree r r' \<Longrightarrow> (\<And>x. r = Inr x \<Longrightarrow> agree (f x) (f' x)) \<Longrightarrow> agree (bindR r f) (bindR r' f')"
  by (auto simp: agree_def)

lemma agree_total_bindR: "total_R r \<Longrightarrow> (\<And>x. r = Inr x \<Longrightarrow> agree (f x) (f' x)) \<Longrightarrow> agree (bindR r f) (bindR r f')"
  by (auto simp: agree_def total_R_def)

lemma agree_if: "(c \<Longrightarrow> agree a a') \<Longrightarrow> (\<not> c \<Longrightarrow> agree b b') \<Longrightarrow> agree (if c then a else b) (if c then a' else b')"
  by simp

lemma agree_allR: "(\<And>x. x \<in> set xs \<Longrightarrow> agree (f x) (g x)) \<Longrightarrow> agree (allR f xs) (allR g xs)"
  by (induction xs) (auto intro!: agree_bindR)

lemma agree_anyR: "(\<And>x. x \<in> set xs \<Longrightarrow> agree (f x) (g x)) \<Longrightarrow> agree (anyR f xs) (anyR g xs)"
  by (induction xs) (auto intro!: agree_bindR)

lemma agree_total: "agree r r' \<Longrightarrow> total_R r"
  by (auto simp: agree_def total_R_def)

lemma last_of_set: "last_of kvs k = Some v \<Longrightarrow> (k, v) \<in> set kvs"
  by (auto simp: last_of_def dest: map_of_SomeD)

lemma agree_fields_have_types:
  assumes "acyclic_ir m" "\<forall>(f, t, opt)\<in>set fs. below m k f \<and> below m k t" "\<forall>(s, v)\<in>set vm. has_inst m v"
    and "\<And>c w. below m k c \<Longrightarrow> has_inst m w \<Longrightarrow> agree (ht c w) (ht' c w)"
  shows "agree (fields_have_types m ht vm fs) (fields_have_types m ht' vm fs)"
  using assms(2)
proof (induction fs)
  case (Cons x fs)
  obtain f t opt where x: "x = (f, t, opt)"
    by (cases x)
  have b: "below m k f" "below m k t" and IH: "agree (fields_have_types m ht vm fs) (fields_have_types m ht' vm fs)"
    using Cons x by auto
  show ?case
    unfolding x fields_have_types.simps
  proof (rule agree_total_bindR [OF total_tnode [OF assms(1) below_has [OF b(1)]]])
    fix n
    show "agree (case name_str n of None \<Rightarrow> fields_have_types m ht vm fs
         | Some s \<Rightarrow> (case last_of vm s of
             Some v \<Rightarrow> bindR (ht t v) (\<lambda>b. if b then fields_have_types m ht vm fs else Inr False)
           | None \<Rightarrow> if \<not> opt then Inr False else fields_have_types m ht vm fs))
       (case name_str n of None \<Rightarrow> fields_have_types m ht' vm fs
         | Some s \<Rightarrow> (case last_of vm s of
             Some v \<Rightarrow> bindR (ht' t v) (\<lambda>b. if b then fields_have_types m ht' vm fs else Inr False)
           | None \<Rightarrow> if \<not> opt then Inr False else fields_have_types m ht' vm fs))"
      using IH assms(3) by (auto split: option.split intro!: agree_bindR assms(4) [OF b(2)] dest!: last_of_set)
  qed
qed simp

lemma total_ir_eq: "has_inst m a \<Longrightarrow> has_inst m b \<Longrightarrow> total_R (ir_eq m a b)"
  by (auto simp: ir_eq_def intro!: total_bindR total_ir_get)

lemma total_inst_has_base_type: "inst_ok m k c \<Longrightarrow> total_R (inst_has_base_type m c s)"
  by (cases c) (auto simp: inst_has_base_type_def inst_ok_def inst_names_def intro!: total_bindR total_resolve)

lemma total_const_has_base_type:
  "acyclic_ir m \<Longrightarrow> has_inst m c \<Longrightarrow> has_inst m t \<Longrightarrow> total_R (const_has_base_type m c t)"
  unfolding const_has_base_type_def
  by (rule total_bindR [OF total_tnode])
    (auto split: option.split intro!: total_bindR total_ir_get total_inst_has_base_type ir_get_ok)

text \<open>\<open>ht\<close> and \<open>ht'\<close> agree on the types below \<open>t\<close> and the values of the IR.\<close>

definition agree_below :: "ir \<Rightarrow> nat \<Rightarrow> (inst_id \<Rightarrow> inst_id \<Rightarrow> bool result) \<Rightarrow> (inst_id \<Rightarrow> inst_id \<Rightarrow> bool result) \<Rightarrow> bool" where
  "agree_below m k ht ht' \<longleftrightarrow> (\<forall>c w. below m k c \<longrightarrow> has_inst m w \<longrightarrow> agree (ht c w) (ht' c w))"

lemma agree_belowD: "agree_below m k ht ht' \<Longrightarrow> below m k c \<Longrightarrow> has_inst m w \<Longrightarrow> agree (ht c w) (ht' c w)"
  by (simp add: agree_below_def)

lemma fields_of_below:
  "acyclic_ir m \<Longrightarrow> has_inst m t \<Longrightarrow> key_index t \<le> k \<Longrightarrow> struct_type_fields m t = Inr fs \<Longrightarrow>
   \<forall>(f, ty, opt)\<in>set fs. below m k f \<and> below m k ty"
  using struct_type_fields_below by (fastforce simp: below_def)

lemma field_position_length: "field_position m nm fs = Inr (Some i) \<Longrightarrow> i < length fs"
  by (induction fs arbitrary: i) (auto split: if_splits)

lemma total_field_position: "\<forall>f\<in>set fs. has_name m f \<Longrightarrow> total_R (field_position m nm fs)"
  by (induction fs) (auto intro!: total_bindR total_resolve)

lemma agree_struct:
  assumes "acyclic_ir m" "has_inst m t" "has_inst m v" "agree_below m (key_index t) ht ht'"
  shows "agree (has_type_struct m ht t v) (has_type_struct m ht' t v)"
  unfolding has_type_struct_def
proof (intro agree_total_bindR total_struct_type_fields total_struct_value_fields assms(1-3), goal_cases)
  case (1 tfs vf)
  note tfs = fields_of_below [OF assms(1,2) order_refl 1(1)]
  have "agree (fields_have_types m ht (zip ns vs) tfs) (fields_have_types m ht' (zip ns vs) tfs)"
    if "vf = Some (fs, vs)" for fs vs ns
    by (rule agree_fields_have_types [OF assms(1) tfs _ agree_belowD [OF assms(4)]])
      (use struct_value_fields_has(3) [OF assms(1) 1(2) [unfolded that]] in \<open>auto dest: set_zip_rightD\<close>)
  then show ?case
    using struct_value_fields_has(2) [OF assms(1)] 1(2)
    by (auto split: option.split intro!: agree_bindR agree_total_refl total_bindR total_traverseR total_resolve
        total_type_names [OF assms(1) 1(1)])
qed

lemma agree_tagged_variant:
  assumes "acyclic_ir m" "has_inst m tf" "has_inst m tag" "has_inst m t" "has_inst m v" "agree_below m (key_index t) ht ht'"
  shows "agree (has_type_tagged_variant m ht tf tag t v) (has_type_tagged_variant m ht' tf tag t v)"
  unfolding has_type_tagged_variant_def
proof (intro agree_total_bindR total_struct_value_fields assms(1,5), goal_cases)
  case (1 vf)
  show ?case
  proof (cases vf)
    case (Some p)
    obtain fs vs where p: "p = (fs, vs)" by (cases p)
    note has = struct_value_fields_has [OF assms(1) 1 [unfolded Some p]]
    have idx: "total_R (index_list vs i)" if "field_position m x fs = Inr (Some i)" for x i
      using field_position_length [OF that] has(1) by (simp add: index_list_def)
    have fh: "agree (fields_have_types m ht (filter (\<lambda>(s, _). s \<noteq> x) (zip ns vs)) tfs)
        (fields_have_types m ht' (filter (\<lambda>(s, _). s \<noteq> x) (zip ns vs)) tfs)"
      if "struct_type_fields m t = Inr tfs" for ns x tfs
      by (rule agree_fields_have_types [OF assms(1) fields_of_below [OF assms(1,4) order_refl that] _ agree_belowD [OF assms(6)]])
        (use has(3) in \<open>auto dest: set_zip_rightD\<close>)
    have tv: "has_inst m (vs ! k)" if "k < length vs" for k
      using that has(3) by auto
    show ?thesis
      unfolding Some p option.simps prod.simps
      by (intro agree_total_bindR total_tnode assms)
        (use has(1,2) in \<open>auto split: option.split intro!: tv agree_total_bindR agree_bindR agree_total_refl
          total_bindR total_traverseR total_allR total_resolve total_field_position fh total_ir_eq total_struct_type_fields
          total_type_names assms\<close>, rule idx)
  qed simp
qed

lemma agree_pairs:
  assumes "agree_below m k ht ht'" "\<forall>t\<in>set ts. below m k t" "\<forall>v\<in>set vs. has_inst m v"
  shows "agree (pair_has_type ht ts vs) (pair_has_type ht' ts vs)"
  unfolding pair_has_type_def
proof (rule agree_allR)
  fix x assume "x \<in> set (zip ts vs)"
  then show "agree (case x of (t, v) \<Rightarrow> ht t v) (case x of (t, v) \<Rightarrow> ht' t v)"
    using assms(2,3) agree_belowD [OF assms(1)] 
    by (cases x rule: prod.exhaust) (metis (no_types, lifting) case_prod_conv set_zip_leftD set_zip_rightD)
qed

lemma agree_elems:
  "agree_below m k ht ht' \<Longrightarrow> below m k a \<Longrightarrow> \<forall>e\<in>set es. has_inst m e \<Longrightarrow> agree (allR (ht a) es) (allR (ht' a) es)"
  by (rule agree_allR) (auto intro: agree_belowD)

lemma agree_tagged:
  assumes m: "acyclic_ir m" and v: "has_inst m v" and ht: "agree_below m k ht ht'" and lo: "\<forall>a\<in>set args. below m k a"
  shows "agree (tagged_has_type m ht args v) (tagged_has_type m ht' args v)"
proof (cases "tagged_union_variants args")
  case (Some vs)
  have "agree (has_type_tagged_variant m ht (hd args) tag variant v) (has_type_tagged_variant m ht' (hd args) tag variant v)"
    if "(tag, variant) \<in> set vs" for tag variant
  proof (rule agree_tagged_variant [OF m _ _ _ v])
    show "has_inst m (hd args)" "has_inst m tag" "has_inst m variant"
      using variants_hd [OF Some] variants_set [OF Some that] lo by (auto dest: below_has)
    have "key_index variant < k"
      using variants_set [OF Some that] lo by (auto simp: below_def)
    then show "agree_below m (key_index variant) ht ht'"
      using ht by (auto simp: agree_below_def below_def)
  qed
  then show ?thesis
    by (auto simp: tagged_has_type_def Some intro!: agree_anyR)
qed (simp add: tagged_has_type_def)

lemma agree_containers:
  assumes m: "acyclic_ir m" and v: "has_inst m v" and ht: "agree_below m k ht ht'" and lo: "\<forall>a\<in>set args. below m k a"
  shows "agree (list_has_type m ht args v) (list_has_type m ht' args v)" (is ?l)
    and "agree (map_has_type m ht args v) (map_has_type m ht' args v)" (is ?m)
    and "agree (pair_type_has m ht args v) (pair_type_has m ht' args v)" (is ?p)
    and "agree (tuple_has_type m ht args v) (tuple_has_type m ht' args v)" (is ?t)
    and "agree (option_has_type m ht args v) (option_has_type m ht' args v)" (is ?o)
proof -
  note le = total_list_value_elems [OF m v]
  have lh: "has_inst m e" if "list_value_elems m v = Inr (Some es)" "e \<in> set es" for es e
    using list_value_elems_has [OF m that(1)] that(2) by blast
  note vn = total_tnode [OF m v]
  have prs: "agree (pair_has_type ht args vs) (pair_has_type ht' args vs)" if "\<forall>e\<in>set vs. has_inst m e" for vs
    using agree_pairs [OF ht lo that] .
  have va: "has_inst m a" if "tnode_of m v = Inr V" "args_of f V = Some vargs" "a \<in> set vargs" for V f vargs a
    using tnode_Apply(2) [OF m] that by (auto simp: args_of_Some)
  note prs_l = prs [OF list_value_elems_has [OF m, of v]]
  have prs_v: "agree (pair_has_type ht args vargs) (pair_has_type ht' args vargs)"
    if "tnode_of m v = Inr V" "args_of f V = Some vargs" for V f vargs
    using va [OF that] by (intro prs) blast
  show ?l
    using lo by (auto simp: list_has_type_def split: list.split option.split
        intro!: agree_total_bindR le agree_elems [OF ht] intro: lh)
  show ?m
    using lo map_value_entries_has [OF m, of v]
    by (auto simp: map_has_type_def split: list.split option.split
        intro!: agree_total_bindR [OF total_map_value_entries [OF m v]] agree_bindR agree_elems [OF ht])
  show ?p
    unfolding pair_type_has_def
    by (intro agree_if agree_total_bindR vn) (auto split: option.split intro!: agree_total_bindR le simp: prs_l prs_v)
  show ?t
    by (auto simp: tuple_has_type_def split: option.split intro!: agree_total_bindR vn intro: prs_v)
  show ?o
    using lo v by (auto simp: option_has_type_def split: list.split intro!: agree_total_bindR vn agree_belowD [OF ht])
qed

lemma agree_step:
  assumes m: "acyclic_ir m" and t: "has_inst m t" and v: "has_inst m v" and ht: "agree_below m (key_index t) ht ht'"
  shows "agree (has_type_step m ht t v) (has_type_step m ht' t v)"
  unfolding has_type_step_def
proof (rule agree_total_bindR [OF total_tnode [OF m t]], goal_cases)
  case (1 T)
  show ?case
  proof (cases T)
    case (NApply f args)
    note lo = apply_below [OF m 1 [unfolded NApply]]
    have sing: "agree (case args of [c] \<Rightarrow> ir_eq m v c | _ \<Rightarrow> Inr False) (case args of [c] \<Rightarrow> ir_eq m v c | _ \<Rightarrow> Inr False)"
      using lo v by (auto split: list.split intro!: agree_total_refl total_ir_eq dest: below_has)
    have uni: "agree (anyR (\<lambda>alt. ht alt v) args) (anyR (\<lambda>alt. ht' alt v) args)"
      using lo v by (auto intro!: agree_anyR agree_belowD [OF ht])
    show ?thesis
      unfolding NApply tnode.simps has_type_apply_def
      by (intro agree_if sing uni agree_tagged [OF m v ht lo] agree_containers [OF m v ht lo] agree_struct [OF m t v ht] agree_Inr [THEN iffD2] refl)
  qed (simp_all add: agree_total_refl total_const_has_base_type m t v)
qed

lemma agree_sym: "agree r r' \<Longrightarrow> agree r' r"
  by (auto simp: agree_def)

lemma has_type_agree:
  "acyclic_ir m \<Longrightarrow> has_inst m t \<Longrightarrow> has_inst m v \<Longrightarrow> key_index t < n \<Longrightarrow> key_index t < n' \<Longrightarrow>
   agree (has_type n m t v) (has_type n' m t v)"
proof (induction "key_index t" arbitrary: t v n n' rule: less_induct)
  case less
  obtain k k' where k: "n = Suc k" "n' = Suc k'"
    using less.prems(4,5) by (cases n; cases n') auto
  have "agree_below m (key_index t) (has_type k m) (has_type k' m)"
    unfolding agree_below_def below_def using less.hyps less.prems k by auto
  then show ?case
    using agree_step [OF less.prems(1-3)] by (simp add: k)
qed

subsection \<open>The depth of conformance\<close>

text \<open>A measure of types that falls from an application to its arguments and from a variable to its bound.\<close>

definition trank :: "ir \<Rightarrow> inst_id \<Rightarrow> nat" where
  "trank m i = (case tnode_of m i of Inr (NApply _ _) \<Rightarrow> key_index i + 2 | Inr (NVar _) \<Rightarrow> 1 | _ \<Rightarrow> 0)"

definition ctx_ok :: "ir \<Rightarrow> type_context \<Rightarrow> bool" where
  "ctx_ok m ctx \<longleftrightarrow> list_all (\<lambda>(v, b). has_inst m b \<and> (case tnode_of m b of Inr (NName _) \<Rightarrow> True | _ \<Rightarrow> False)) ctx"

definition agree_conf :: "ir \<Rightarrow> nat \<Rightarrow> (inst_id \<Rightarrow> inst_id \<Rightarrow> bool result) \<Rightarrow> (inst_id \<Rightarrow> inst_id \<Rightarrow> bool result) \<Rightarrow> bool" where
  "agree_conf m w sc sc' \<longleftrightarrow>
     (\<forall>a b. has_inst m a \<longrightarrow> has_inst m b \<longrightarrow> trank m a + trank m b < w \<longrightarrow> agree (sc a b) (sc' a b))"

lemma agree_confD:
  "agree_conf m w sc sc' \<Longrightarrow> has_inst m a \<Longrightarrow> has_inst m b \<Longrightarrow> trank m a + trank m b < w \<Longrightarrow> agree (sc a b) (sc' a b)"
  by (simp add: agree_conf_def)

lemma trank_le: "trank m i \<le> key_index i + 2"
  by (auto simp: trank_def split: sum.split tnode.split)

lemma trank_below: "tnode_of m t = Inr (NApply f as) \<Longrightarrow> below m (key_index t) c \<Longrightarrow> trank m c < trank m t"
  using trank_le [of m c] by (simp add: trank_def [of m t] below_def)

lemma trank_args:
  "acyclic_ir m \<Longrightarrow> tnode_of m t = Inr (NApply f as) \<Longrightarrow> a \<in> set as \<Longrightarrow> has_inst m a \<and> trank m a < trank m t"
  using apply_below trank_below by (meson below_has)

lemma agree_variant:
  assumes "acyclic_ir m" "has_inst m tf" "has_inst m tag" "has_inst m r" "trank m r < n" "trank m r < n'"
    and "\<And>b. has_inst m b \<Longrightarrow> trank m b \<le> trank m r \<Longrightarrow> agree (sc variant b) (sc' variant b)"
  shows "agree (expanded_variant_conforms n m sc tf tag variant r) (expanded_variant_conforms n' m sc' tf tag variant r)"
  using assms(4-)
proof (induction "trank m r" arbitrary: r n n' rule: less_induct)
  case less
  obtain k k' where k: "n = Suc k" "n' = Suc k'"
    using less.prems(2,3) by (cases n; cases n') auto
  show ?case
    unfolding k expanded_variant_conforms.simps
  proof (rule agree_total_bindR [OF total_tnode [OF assms(1) less.prems(1)]], goal_cases)
    case (1 R)
    show ?case
    proof (cases R)
      case (NApply f args)
      note arg = trank_args [OF assms(1) 1 [unfolded NApply]]
      have var: "agree
          (case tagged_union_variants args of None \<Rightarrow> Inr False
           | Some vs \<Rightarrow> bindR (ir_eq m tf (hd args)) (\<lambda>same. if \<not> same then Inr False
               else anyR (\<lambda>(rt, rs). bindR (ir_eq m tag rt) (\<lambda>e. if e then sc variant rs else Inr False)) vs))
          (case tagged_union_variants args of None \<Rightarrow> Inr False
           | Some vs \<Rightarrow> bindR (ir_eq m tf (hd args)) (\<lambda>same. if \<not> same then Inr False
               else anyR (\<lambda>(rt, rs). bindR (ir_eq m tag rt) (\<lambda>e. if e then sc' variant rs else Inr False)) vs))"
        using variants_hd variants_set arg assms(2,3)
        by (auto split: option.split intro!: agree_total_bindR total_ir_eq agree_anyR less.prems(4) less_imp_le)
      have uni: "agree (anyR (expanded_variant_conforms k m sc tf tag variant) args)
          (anyR (expanded_variant_conforms k' m sc' tf tag variant) args)"
      proof (rule agree_anyR)
        fix a assume "a \<in> set args"
        note a = arg [OF this]
        show "agree (expanded_variant_conforms k m sc tf tag variant a) (expanded_variant_conforms k' m sc' tf tag variant a)"
          using a less.prems k by (intro less.hyps) auto
      qed
      show ?thesis
        unfolding NApply tnode.simps
        by (intro agree_if var uni less.prems(4) order_refl less.prems(1)) simp_all
    qed simp_all
  qed
qed

lemma named_values: "named m kvs = Inr r \<Longrightarrow> (s, x) \<in> set r \<Longrightarrow> x \<in> snd ` set kvs"
proof (induction m kvs arbitrary: r rule: named.induct)
  case (2 m i y rest)
  obtain n r' where n: "tnode_of m i = Inr n" "named m rest = Inr r'"
    "r = (case name_str n of Some s \<Rightarrow> (s, y) # r' | None \<Rightarrow> r')"
    using 2(2) by auto
  show ?case
    using 2(1) [OF n(1,2)] 2(3) n(3) by (auto split: option.splits)
qed simp

lemma agree_fields_conform:
  assumes "acyclic_ir m" "\<forall>(f, t, opt)\<in>set fs. has_inst m f"
    and "\<And>s a f t opt. (s, a) \<in> set lm \<Longrightarrow> (f, t, opt) \<in> set fs \<Longrightarrow> agree (sc a t) (sc' a t)"
  shows "agree (fields_conform m sc lm fs) (fields_conform m sc' lm fs)"
  using assms(2,3)
proof (induction fs)
  case (Cons x fs)
  obtain f t opt where x: "x = (f, t, opt)"
    by (cases x)
  have f: "has_inst m f"
    using Cons.prems(1) x by simp
  have IH: "agree (fields_conform m sc lm fs) (fields_conform m sc' lm fs)"
    using Cons.prems(1) by (intro Cons.IH) (auto intro: Cons.prems(2))
  have sub: "agree (sc a t) (sc' a t)" if "last_of lm s = Some a" for s a
    using Cons.prems(2) [OF last_of_set [OF that], of f t opt] x by simp
  show ?case
    unfolding x fields_conform.simps
    by (rule agree_total_bindR [OF total_tnode [OF assms(1) f]])
      (auto split: option.split simp: IH intro!: agree_bindR sub)
qed simp

lemma agree_struct_conforms:
  assumes m: "acyclic_ir m" and l: "tnode_of m l = Inr (NApply f la)" and r: "tnode_of m r = Inr (NApply g ra)"
    and has: "has_inst m l" "has_inst m r" and sc: "agree_conf m (trank m l + trank m r) sc sc'"
  shows "agree (struct_type_conforms m sc l r) (struct_type_conforms m sc' l r)"
  unfolding struct_type_conforms_def
proof (intro agree_total_bindR total_struct_type_fields m has, goal_cases)
  case (1 lfs rfs)
  then show ?case by (intro total_type_names m)
next
  case (2 lfs rfs lm)
  have "agree (sc a t) (sc' a t)" if sa: "(s, a) \<in> set lm" and ft: "(f, t, opt) \<in> set rfs" for s a f t opt
  proof -
    obtain f' opt' where "(f', a, opt') \<in> set lfs"
      using named_values [OF 2(3) sa] by auto
    then have "below m (key_index l) a" "below m (key_index r) t"
      using struct_type_fields_below [OF m 2(1)] struct_type_fields_below [OF m 2(2) ft] by auto
    then show ?thesis
      using trank_below [OF l] trank_below [OF r] by (intro agree_confD [OF sc]) (auto intro: below_has add_strict_mono)
  qed
  moreover have "has_inst m f" if "(f, t, opt) \<in> set rfs" for f t opt
    using struct_type_fields_below [OF m 2(2) that] below_has by blast
  ultimately show ?case
    by (intro agree_fields_conform m) auto
qed

lemma agree_args:
  assumes "\<And>a b. a \<in> set la \<Longrightarrow> b \<in> set ra \<Longrightarrow> agree (sc a b) (sc' a b)"
  shows "agree (allR (\<lambda>(a, b). sc a b) (zip la ra)) (allR (\<lambda>(a, b). sc' a b) (zip la ra))"
  by (rule agree_allR) (use assms in \<open>auto dest: set_zip_leftD set_zip_rightD split: prod.split\<close>)

lemma agree_apply_conforms:
  assumes m: "acyclic_ir m" and l: "tnode_of m l = Inr (NApply f la)" and r: "tnode_of m r = Inr (NApply f ra)"
    and has: "has_inst m l" "has_inst m r" and sc: "agree_conf m (trank m l + trank m r) sc sc'"
  shows "agree (apply_conforms m sc f l la r ra) (apply_conforms m sc' f l la r ra)"
proof -
  note la = trank_args [OF m l] and ra = trank_args [OF m r]
  have co: "agree (sc a b) (sc' a b)" if "a \<in> set la" "b \<in> set ra" for a b
    using la [OF that(1)] ra [OF that(2)] by (intro agree_confD [OF sc]) auto
  have contra: "agree (sc b a) (sc' b a)" if "a \<in> set la" "b \<in> set ra" for a b
    using la [OF that(1)] ra [OF that(2)] by (intro agree_confD [OF sc]) auto
  have eq: "agree (ir_eq m x y) (ir_eq m x y)" if "la = [x]" "ra = [y]" for x y
    using la ra that by (intro agree_total_refl total_ir_eq) auto
  have fun_args: "agree (allR (\<lambda>(x, y). sc y x) (zip (tl la) (tl ra))) (allR (\<lambda>(x, y). sc' y x) (zip (tl la) (tl ra)))"
    by (rule agree_args) (use contra in \<open>cases la; cases ra; auto\<close>)
  show ?thesis
    unfolding apply_conforms_def args_conform_def
    by (intro agree_if agree_args co agree_struct_conforms [OF m l r has sc])
      (auto split: list.split intro!: eq agree_bindR co fun_args hd_in_set)
qed

lemma ctx_bound: "ctx_ok m ctx \<Longrightarrow> map_of ctx v = Some b \<Longrightarrow> has_inst m b \<and> trank m b = 0"
  by (drule map_of_SomeD) (auto simp: ctx_ok_def list_all_iff trank_def dest!: bspec split: sum.splits tnode.splits)

lemma agree_type_conforms:
  assumes m: "acyclic_ir m" and ctx: "ctx_ok m ctx" and has: "has_inst m l" "has_inst m r"
    and sc: "agree_conf m (trank m l + trank m r) sc sc'"
  shows "agree (type_conforms m ctx sc l r) (type_conforms m ctx sc' l r)"
proof -
  obtain L R where L: "tnode_of m l = Inr L" and R: "tnode_of m r = Inr R"
    using total_tnode [OF m has(1)] total_tnode [OF m has(2)] by (auto simp: total_R_def)
  have vl: "agree (sc b r) (sc' b r)" if "var_bound ctx L = Some b" for b
    using that ctx_bound [OF ctx] L has
    by (auto simp: var_bound_def trank_def [of m l] split: tnode.splits intro!: agree_confD [OF sc])
  have vr: "agree (sc l b) (sc' l b)" if "var_bound ctx R = Some b" for b
    using that ctx_bound [OF ctx] R has
    by (auto simp: var_bound_def trank_def [of m r] split: tnode.splits intro!: agree_confD [OF sc])
  have sing: "total_R (const_has_base_type m c r)" if "singleton_const L = Some c" for c
    using that L has trank_args [OF m, of l]
    by (auto simp: singleton_const_def split: tnode.splits list.splits if_splits intro!: total_const_has_base_type m)
  have app: "agree (apply_conforms m sc f l la r ra) (apply_conforms m sc' f l la r ra)"
    if "L = NApply f la" "R = NApply f ra" for f la ra
    using agree_apply_conforms [OF m _ _ has sc] L R that by auto
  have "agree
      (case (L, R) of (NApply f la, NApply g ra) \<Rightarrow> if f = g then apply_conforms m sc f l la r ra else Inr False
       | _ \<Rightarrow> Inr False)
      (case (L, R) of (NApply f la, NApply g ra) \<Rightarrow> if f = g then apply_conforms m sc' f l la r ra else Inr False
       | _ \<Rightarrow> Inr False)"
    using app by (cases L; cases R) auto
  then show ?thesis
    unfolding type_conforms_def L R bindR_simps
    by (intro agree_if agree_Inr [THEN iffD2] refl)
      (auto split: option.split intro!: agree_total_refl sing vl vr)
qed

lemma agree_set_conforms_step:
  assumes m: "acyclic_ir m" and ctx: "ctx_ok m ctx" and has: "has_inst m l" "has_inst m r"
    and sc: "agree_conf m (trank m l + trank m r) sc sc'" and n: "trank m l + trank m r \<le> n" "trank m l + trank m r \<le> n'"
  shows "agree (set_conforms_step m ctx (expanded_variant_conforms n m sc) sc l r)
    (set_conforms_step m ctx (expanded_variant_conforms n' m sc') sc' l r)"
proof -
  obtain L R where L: "tnode_of m l = Inr L" and R: "tnode_of m r = Inr R"
    using total_tnode [OF m has(1)] total_tnode [OF m has(2)] by (auto simp: total_R_def)
  have lk: "has_inst m a \<and> trank m a < trank m l" if "args_of f L = Some la" "a \<in> set la" for f la a
    using trank_args [OF m] L that by (auto simp: args_of_Some)
  have rk: "has_inst m a \<and> trank m a < trank m r" if "args_of f R = Some ra" "a \<in> set ra" for f ra a
    using trank_args [OF m] R that by (auto simp: args_of_Some)
  have sub_l: "agree (sc a r) (sc' a r)" if "args_of f L = Some la" "a \<in> set la" for f la a
    using lk [OF that] has by (intro agree_confD [OF sc]) auto
  have sub_r: "agree (sc l a) (sc' l a)" if "args_of f R = Some ra" "a \<in> set ra" for f ra a
    using rk [OF that] has by (intro agree_confD [OF sc]) auto
  have var: "agree (expanded_variant_conforms n m sc (hd la) tag variant r) (expanded_variant_conforms n' m sc' (hd la) tag variant r)"
    if la: "args_of f L = Some la" "tagged_union_variants la = Some vs" "(tag, variant) \<in> set vs" for f la vs tag variant
  proof (rule agree_variant [OF m _ _ has(2)])
    note k = lk [OF la(1)] and mem = variants_set [OF la(2,3)]
    show "has_inst m (hd la)" "has_inst m tag"
      using k variants_hd [OF la(2)] mem by auto
    show "trank m r < n" "trank m r < n'"
      using k mem n by fastforce+
    show "agree (sc variant b) (sc' variant b)" if "has_inst m b" "trank m b \<le> trank m r" for b
      using k [of variant] mem that by (intro agree_confD [OF sc]) auto
  qed
  show ?thesis
    unfolding set_conforms_step_def tagged_union_set_conforms_left_def tagged_union_set_conforms_right_def
      expanded_variant_conforms_right_def L R bindR_simps
    apply (intro agree_if agree_Inr [THEN iffD2] refl)
    by (auto split: option.split intro!: agree_allR agree_anyR agree_type_conforms [OF m ctx has sc]
        intro: sub_l sub_r var dest: variants_set)
qed

lemma set_conforms_agree:
  "acyclic_ir m \<Longrightarrow> ctx_ok m ctx \<Longrightarrow> has_inst m l \<Longrightarrow> has_inst m r \<Longrightarrow>
   trank m l + trank m r < n \<Longrightarrow> trank m l + trank m r < n' \<Longrightarrow>
   agree (set_conforms n m ctx l r) (set_conforms n' m ctx l r)"
proof (induction "trank m l + trank m r" arbitrary: l r n n' rule: less_induct)
  case less
  obtain k k' where k: "n = Suc k" "n' = Suc k'"
    using less.prems(5,6) by (cases n; cases n') auto
  have "agree_conf m (trank m l + trank m r) (set_conforms k m ctx) (set_conforms k' m ctx)"
    unfolding agree_conf_def using less.hyps less.prems k by auto
  then show ?case
    using agree_set_conforms_step [OF less.prems(1-4)] less.prems(5,6) by (simp add: k)
qed

subsection \<open>A depth that is always enough\<close>

lemma trank_depth: "has_inst m l \<Longrightarrow> has_inst m r \<Longrightarrow> trank m l + trank m r < 2 * length (insts m) + 3"
  using trank_le [of m l] trank_le [of m r] by (simp add: has_inst_def)

definition of_type :: "ir \<Rightarrow> inst_id \<Rightarrow> inst_id \<Rightarrow> bool" where
  "of_type m t v \<longleftrightarrow> has_type (type_depth m) m t v = Inr True"

definition conforms :: "ir \<Rightarrow> type_context \<Rightarrow> inst_id \<Rightarrow> inst_id \<Rightarrow> bool" where
  "conforms m ctx l r \<longleftrightarrow> set_conforms (type_depth m) m ctx l r = Inr True"

lemma agree_eq: "agree a b \<Longrightarrow> a = b"
  by (auto simp: agree_def)

lemma of_type_total: "acyclic_ir m \<Longrightarrow> has_inst m t \<Longrightarrow> has_inst m v \<Longrightarrow> total_R (has_type (type_depth m) m t v)"
  by (rule agree_total [OF has_type_agree]) (auto simp: type_depth_def has_inst_def)

lemma type_depth_Suc:
  obtains k where "type_depth m = Suc k" "k = 2 * length (insts m) + 2"
  by (simp add: type_depth_def)

lemma of_type_unfold:
  assumes "acyclic_ir m" "has_inst m t" "has_inst m v"
  shows "of_type m t v \<longleftrightarrow> has_type_step m (has_type (type_depth m) m) t v = Inr True"
proof -
  obtain k where k: "type_depth m = Suc k" "k = 2 * length (insts m) + 2"
    by (rule type_depth_Suc)
  have "key_index c < k \<and> key_index c < type_depth m" if "has_inst m c" for c
    using that k by (simp add: has_inst_def)
  then have "agree_below m (key_index t) (has_type k m) (has_type (type_depth m) m)"
    unfolding agree_below_def below_def by (blast intro: has_type_agree [OF assms(1)])
  from agree_eq [OF agree_step [OF assms this]] show ?thesis
    by (simp add: of_type_def k(1))
qed

lemma conforms_unfold:
  assumes "acyclic_ir m" "ctx_ok m ctx" "has_inst m l" "has_inst m r"
  shows "conforms m ctx l r \<longleftrightarrow>
    set_conforms_step m ctx (expanded_variant_conforms (type_depth m) m (set_conforms (type_depth m) m ctx))
      (set_conforms (type_depth m) m ctx) l r = Inr True"
proof -
  obtain k where k: "type_depth m = Suc k" "k = 2 * length (insts m) + 2"
    by (rule type_depth_Suc)
  have lr: "trank m l + trank m r \<le> k"
    using trank_depth [OF assms(3,4)] k(2) by simp
  then have "agree_conf m (trank m l + trank m r) (set_conforms k m ctx) (set_conforms (type_depth m) m ctx)"
    unfolding agree_conf_def k(1) by (auto intro!: set_conforms_agree [OF assms(1,2)] simp del: set_conforms.simps)
  from agree_eq [OF agree_set_conforms_step [OF assms this, of k "type_depth m"]] lr
  show ?thesis
    by (simp add: conforms_def k(1))
qed

end
