(* ===== verification/Type_Expr_Props.thy ===== *)
theory Type_Expr_Props
  imports Type_Depth
begin

text \<open>
  Conformance (\<open>set_conforms\<close>) against the values of a type (\<open>has_type\<close>): sound for the constructors
  on which the two agree, unsound for structs, tagged unions and \<open>/any\<close>.
\<close>

subsection \<open>The constructors on which conformance is sound\<close>

text \<open>Name types other than \<open>/any\<close> and \<open>/bot\<close>, singletons, unions, lists, maps, pairs, tuples, options,
  functions and relations; no structs, tagged unions or variables.\<close>

definition leaf_fns :: "string list" where
  "leaf_fns = [''fn:Singleton'', ''fn:Fun'', ''fn:Rel'']"

definition inner_fns :: "string list" where
  "inner_fns = [''fn:Union'', ''fn:List'', ''fn:Map'', ''fn:Pair'', ''fn:Tuple'', ''fn:Option'']"

fun plain_type :: "nat \<Rightarrow> ir \<Rightarrow> inst_id \<Rightarrow> bool" where
  "plain_type 0 m t = False"
| "plain_type (Suc n) m t =
     (case tnode_of m t of
        Inr (NName s) \<Rightarrow> starts_with s ''/'' \<and> s \<noteq> ''/any'' \<and> s \<noteq> ''/bot''
      | Inr (NApply f args) \<Rightarrow>
          f \<in> set leaf_fns \<or>
          f \<in> set inner_fns \<and> list_all (plain_type n m) args
      | _ \<Rightarrow> False)"

lemma inner_not_leaf: "f \<in> set inner_fns \<Longrightarrow> f \<notin> set leaf_fns"
  by (auto simp: inner_fns_def leaf_fns_def)

lemma plain_args:
  "plain_type n m t \<Longrightarrow> tnode_of m t = Inr (NApply f args) \<Longrightarrow>
   f \<in> set inner_fns \<Longrightarrow> a \<in> set args \<Longrightarrow> \<exists>k. plain_type k m a"
  by (cases n) (auto simp: list_all_iff dest: inner_not_leaf)

lemma below_name_trans: "below_name a b \<Longrightarrow> below_name b c \<Longrightarrow> below_name a c"
  by (auto simp: below_name_def starts_with_iff nth_append)

lemma below_name_single:
  assumes "below_name s r" "starts_with r ''/''" "CHR ''/'' \<notin> set (tl s)"
  shows "s = r"
proof -
  obtain t where t: "s = r @ t"
    using assms(1) by (auto simp: below_name_def starts_with_iff)
  obtain u where u: "r = CHR ''/'' # u"
    using assms(2) by (auto simp: starts_with_iff)
  show ?thesis
    using assms(1,3) by (cases t) (auto simp: below_name_def t u)
qed

lemma names_sound:
  assumes "names_conform ln rn" "starts_with rn ''/''" "inst_has_base_type m c ln = Inr True"
  shows "inst_has_base_type m c rn = Inr True"
proof (cases "ln = rn")
  case False
  have below: "\<not> below_name ln rn" if "ln \<in> set base_types"
    using below_name_single [OF _ assms(2), of ln] that False by (auto simp: base_types_def)
  have nb: "ln \<notin> set base_types"
    using assms(1) below by (auto simp: names_conform_def)
  then obtain n s where c: "c = IName n" "resolve_name m n = Inr s" "below_name s ln"
    using assms(3) by (cases c) (auto simp: inst_has_base_type_def base_types_def)
  show ?thesis
    using assms(1) c below_name_trans [OF c(3)] by (auto simp: inst_has_base_type_def names_conform_def)
qed (use assms in simp)

lemma ir_eq_base:
  assumes "ir_eq m v c = Inr True" "const_has_base_type m c t = Inr True"
  shows "const_has_base_type m v t = Inr True"
proof (cases "v = c")
  case False
  obtain x y where xy: "ir_get m v = Inr x" "ir_get m c = Inr y"
    using assms(1) False by (auto simp: ir_eq_def)
  then have "x = y"
    using assms(1) False by (cases x; cases y) (auto simp: ir_eq_def)
  then show ?thesis
    using assms(2) xy by (auto simp: const_has_base_type_def split: option.splits)
qed (use assms in simp)

text \<open>Every value of \<open>l\<close> is one of \<open>r\<close>.\<close>

definition sub_values :: "ir \<Rightarrow> inst_id \<Rightarrow> inst_id \<Rightarrow> bool" where
  "sub_values m l r \<longleftrightarrow> (\<forall>v. has_inst m v \<longrightarrow> of_type m l v \<longrightarrow> of_type m r v)"

lemma sub_valuesD: "sub_values m l r \<Longrightarrow> has_inst m v \<Longrightarrow> has_type (type_depth m) m l v = Inr True \<Longrightarrow>
  has_type (type_depth m) m r v = Inr True"
  by (simp add: sub_values_def of_type_def)

lemma pairs_sound:
  assumes "list_all2 (sub_values m) la ra" "\<forall>v\<in>set vs. has_inst m v"
    and "pair_has_type (has_type (type_depth m) m) la vs = Inr True"
  shows "pair_has_type (has_type (type_depth m) m) ra vs = Inr True"
  unfolding pair_has_type_def allR_True
proof (clarsimp simp: in_set_zip)
  fix i assume i: "i < length ra" "i < length vs"
  then have "has_type (type_depth m) m (la ! i) (vs ! i) = Inr True"
    using assms(3) list_all2_lengthD [OF assms(1)] unfolding pair_has_type_def allR_True
    by (metis (mono_tags, lifting) case_prod_conv fst_conv in_set_zip snd_conv)
  then show "has_type (type_depth m) m (ra ! i) (vs ! i) = Inr True"
    using sub_valuesD [OF list_all2_nthD2 [OF assms(1) i(1)]] assms(2) i(2) by simp
qed

lemma elems_sound:
  assumes "sub_values m a b" "\<forall>v\<in>set vs. has_inst m v" "allR (has_type (type_depth m) m a) vs = Inr True"
  shows "allR (has_type (type_depth m) m b) vs = Inr True"
  using assms sub_valuesD by (auto simp: allR_True)

lemma list_has_type_True:
  "list_has_type m ht args v = Inr True \<longleftrightarrow>
     (\<exists>a es. args = [a] \<and> list_value_elems m v = Inr (Some es) \<and> allR (ht a) es = Inr True)"
  by (cases args rule: list.exhaust [case_product list.exhaust]) (auto simp: list_has_type_def split: list.split option.split_asm)

lemma map_has_type_True:
  "map_has_type m ht args v = Inr True \<longleftrightarrow>
     (\<exists>a b ks vs. args = [a, b] \<and> map_value_entries m v = Inr (Some (ks, vs)) \<and>
        allR (ht a) ks = Inr True \<and> allR (ht b) vs = Inr True)"
  by (auto simp: map_has_type_def split: list.splits option.split_asm if_splits)

lemma pair_type_has_True:
  "pair_type_has m ht args v = Inr True \<longleftrightarrow> length args = 2 \<and>
     (\<exists>V vs. tnode_of m v = Inr V \<and> length vs = 2 \<and> pair_has_type ht args vs = Inr True \<and>
        (args_of ''fn:pair'' V = Some vs \<or> args_of ''fn:pair'' V = None \<and> list_value_elems m v = Inr (Some vs)))"
proof (cases "tnode_of m v")
  case (Inr V)
  then show ?thesis
    by (cases "args_of ''fn:pair'' V") (auto simp: pair_type_has_def split: option.split_asm if_splits)
qed (simp add: pair_type_has_def)

lemma tuple_has_type_True:
  "tuple_has_type m ht args v = Inr True \<longleftrightarrow>
     (\<exists>V vs. tnode_of m v = Inr V \<and> pair_has_type ht args vs = Inr True \<and>
        (args_of ''fn:tuple'' V = Some vs \<and> length vs = length args \<or>
         args_of ''fn:tuple'' V = None \<and> args_of ''fn:pair'' V = Some vs \<and> length args = 2 \<and> length vs = 2))"
proof (cases "tnode_of m v")
  case (Inr V)
  then show ?thesis
    by (cases "args_of ''fn:tuple'' V"; cases "args_of ''fn:pair'' V") (auto simp: tuple_has_type_def)
qed (simp add: tuple_has_type_def)

lemma containers_sound:
  assumes m: "acyclic_ir m" and sub: "list_all2 (sub_values m) la ra" and v: "has_inst m v"
  defines "ht \<equiv> has_type (type_depth m) m"
  shows "list_has_type m ht la v = Inr True \<Longrightarrow> list_has_type m ht ra v = Inr True"
    and "map_has_type m ht la v = Inr True \<Longrightarrow> map_has_type m ht ra v = Inr True"
    and "pair_type_has m ht la v = Inr True \<Longrightarrow> pair_type_has m ht ra v = Inr True"
    and "tuple_has_type m ht la v = Inr True \<Longrightarrow> tuple_has_type m ht ra v = Inr True"
    and "option_has_type m ht la v = Inr True \<Longrightarrow> option_has_type m ht ra v = Inr True"
proof -
  note len = list_all2_lengthD [OF sub]
  note lh = list_value_elems_has [OF m, of v]
  have prs: "pair_has_type ht ra vs = Inr True" if "\<forall>x\<in>set vs. has_inst m x" "pair_has_type ht la vs = Inr True" for vs
    using pairs_sound [OF sub that(1)] that(2) by (simp add: ht_def)
  have els: "allR (ht b) vs = Inr True" if "sub_values m a b" "\<forall>x\<in>set vs. has_inst m x" "allR (ht a) vs = Inr True" for a b vs
    using elems_sound [OF that(1,2)] that(3) by (simp add: ht_def)
  have va: "\<forall>x\<in>set vargs. has_inst m x" if "tnode_of m v = Inr V" "args_of f V = Some vargs" for V f vargs
    using tnode_Apply(2) [OF m] that by (auto simp: args_of_Some)
  show "list_has_type m ht la v = Inr True \<Longrightarrow> list_has_type m ht ra v = Inr True"
    unfolding list_has_type_True using sub lh els by (auto simp: list_all2_Cons1)
  show "map_has_type m ht la v = Inr True \<Longrightarrow> map_has_type m ht ra v = Inr True"
    unfolding map_has_type_True using sub map_value_entries_has [OF m, of v] els
    by (auto simp: list_all2_Cons1)
  show "pair_type_has m ht la v = Inr True \<Longrightarrow> pair_type_has m ht ra v = Inr True"
    unfolding pair_type_has_True using len prs va lh by metis
  show "tuple_has_type m ht la v = Inr True \<Longrightarrow> tuple_has_type m ht ra v = Inr True"
    unfolding tuple_has_type_True using len prs va by metis
  show "option_has_type m ht la v = Inr True \<Longrightarrow> option_has_type m ht ra v = Inr True"
    using sub v by (auto simp: option_has_type_def list_all2_Cons1 ht_def split: list.splits if_splits dest: sub_valuesD)
qed

subsection \<open>Soundness\<close>

lemma plain_node:
  assumes "plain_type n m t"
  obtains s where "tnode_of m t = Inr (NName s)" "starts_with s ''/''" "s \<noteq> ''/any''" "s \<noteq> ''/bot''"
  | f as where "tnode_of m t = Inr (NApply f as)" "f \<in> set leaf_fns"
  | f as where "tnode_of m t = Inr (NApply f as)" "f \<in> set inner_fns" "\<forall>a\<in>set as. \<exists>k. plain_type k m a"
proof -
  obtain k where k: "n = Suc k"
    using assms by (cases n) auto
  obtain T where T: "tnode_of m t = Inr T"
    using assms k by (auto split: sum.split_asm)
  show ?thesis
    using assms that T by (cases T) (auto simp: k list_all_iff)
qed

lemma union_inner: "''fn:Union'' \<in> set inner_fns"
  by (simp add: inner_fns_def)

lemma union_values:
  assumes "acyclic_ir m" "has_inst m t" "has_inst m v" "tnode_of m t = Inr (NApply ''fn:Union'' as)"
  shows "of_type m t v \<longleftrightarrow> (\<exists>a\<in>set as. of_type m a v)"
proof -
  have "total_R (has_type (type_depth m) m a v)" if "a \<in> set as" for a
    using of_type_total [OF assms(1) _ assms(3)] tnode_Apply(2) [OF assms(1,4) that] .
  then show ?thesis
    unfolding of_type_unfold [OF assms(1-3)] unfolding of_type_def has_type_step_def has_type_apply_def
    using anyR_True [of "\<lambda>a. has_type (type_depth m) m a v" as]
      anyR_TrueI [of as "\<lambda>a. has_type (type_depth m) m a v"]
    by (auto simp: assms(4))
qed

text \<open>Conformance of two applications of one constructor, given the soundness of their arguments.\<close>

lemma apply_sound:
  assumes m: "acyclic_ir m" and has: "has_inst m l" "has_inst m r" "has_inst m v"
    and l: "tnode_of m l = Inr (NApply f la)" and r: "tnode_of m r = Inr (NApply f ra)"
    and f: "f \<in> {''fn:List'', ''fn:Map'', ''fn:Pair'', ''fn:Tuple'', ''fn:Option''}"
    and sc: "apply_conforms m sc f l la r ra = Inr True"
    and sub: "\<And>a b. a \<in> set la \<Longrightarrow> b \<in> set ra \<Longrightarrow> sc a b = Inr True \<Longrightarrow> sub_values m a b"
    and v: "of_type m l v"
  shows "of_type m r v"
proof -
  have "length la = length ra \<and> args_conform sc la ra = Inr True"
    using sc f by (auto simp: apply_conforms_def split: if_splits)
  then have ac: "length la = length ra" "\<forall>x\<in>set (zip la ra). (case x of (a, b) \<Rightarrow> sc a b) = Inr True"
    by (simp_all add: args_conform_def allR_True)
  have "list_all2 (sub_values m) la ra"
  proof (rule list_all2_all_nthI [OF ac(1)])
    fix i assume i: "i < length la"
    then have "(la ! i, ra ! i) \<in> set (zip la ra)"
      using ac(1) by (force simp: in_set_zip)
    then show "sub_values m (la ! i) (ra ! i)"
      using ac i by (intro sub) auto
  qed
  from containers_sound [OF m this has(3)] v show ?thesis
    unfolding of_type_unfold [OF m has(1,3)] of_type_unfold [OF m has(2,3)] has_type_step_def has_type_apply_def l r bindR_simps tnode.simps
    using f by (elim insertE emptyE) simp_all
qed

lemma plain_right:
  assumes "plain_type n m r" "tnode_of m r = Inr R"
  shows "R \<noteq> NName ''/any''" "\<And>v. R \<noteq> NVar v" "\<And>s. R = NName s \<Longrightarrow> starts_with s ''/''"
  using assms by (auto elim!: plain_node)

lemma type_conforms_name:
  assumes "type_conforms m ctx sc l r = Inr True" "l \<noteq> r" "tnode_of m l = Inr (NName s)" "s \<noteq> ''/bot''"
    "tnode_of m r = Inr R" "R \<noteq> NName ''/any''" "\<And>v. R \<noteq> NVar v"
  obtains u where "R = NName u" "names_conform s u"
  using assms by (cases R) (auto simp: type_conforms_def name_str_def singleton_const_def var_bound_def)

lemma type_conforms_apply:
  assumes "type_conforms m ctx sc l r = Inr True" "l \<noteq> r" "tnode_of m l = Inr (NApply f la)"
    "singleton_const (NApply f la) = None" "tnode_of m r = Inr R" "R \<noteq> NName ''/any''" "\<And>v. R \<noteq> NVar v"
  obtains ra where "R = NApply f ra" "apply_conforms m sc f l la r ra = Inr True"
  using assms by (cases R) (auto simp: type_conforms_def name_str_def var_bound_def split: if_splits)

text \<open>Conformance between types that are no unions.\<close>

lemma type_conforms_sound:
  assumes m: "acyclic_ir m" and has: "has_inst m l" "has_inst m r" "has_inst m v"
    and pl: "plain_type n m l" and pr: "plain_type k m r"
    and nu: "\<And>as. tnode_of m l \<noteq> Inr (NApply ''fn:Union'' as)"
    and sc: "type_conforms m ctx sc l r = Inr True" and v: "of_type m l v"
    and sub: "\<And>f la g ra a b. tnode_of m l = Inr (NApply f la) \<Longrightarrow> tnode_of m r = Inr (NApply g ra) \<Longrightarrow>
      a \<in> set la \<Longrightarrow> b \<in> set ra \<Longrightarrow> \<exists>n. plain_type n m a \<Longrightarrow> \<exists>n. plain_type n m b \<Longrightarrow> sc a b = Inr True \<Longrightarrow> sub_values m a b"
  shows "of_type m r v"
proof (cases "l = r")
  case False
  obtain R where R: "tnode_of m r = Inr R"
    using total_tnode [OF m has(2)] by (auto simp: total_R_def)
  show ?thesis
    using pl
  proof (cases rule: plain_node)
    case (1 s)
    note l = 1
    obtain u where u: "R = NName u" "names_conform s u"
      by (rule type_conforms_name [OF sc False l(1,4) R plain_right(1,2) [OF pr R]])
    have "const_has_base_type m v l = Inr True"
      using v of_type_unfold [OF m has(1,3)] by (simp add: has_type_step_def has_type_apply_def l(1))
    then have "const_has_base_type m v r = Inr True"
      using names_sound [OF u(2) plain_right(3) [OF pr R u(1)]] by (auto simp: const_has_base_type_def l(1) R u(1) name_str_def)
    then show ?thesis
      using of_type_unfold [OF m has(2,3)] by (simp add: has_type_step_def has_type_apply_def R u(1))
  next
    case (2 f as)
    have fs: "f = ''fn:Singleton''"
      using v of_type_unfold [OF m has(1,3)] 2 by (auto simp: has_type_step_def has_type_apply_def leaf_fns_def)
    then have "\<exists>c. as = [c] \<and> ir_eq m v c = Inr True"
      using v of_type_unfold [OF m has(1,3)] 2(1) by (auto simp: has_type_step_def has_type_apply_def split: list.split_asm)
    then obtain c where c: "as = [c]" "ir_eq m v c = Inr True" by blast
    have "const_has_base_type m c r = Inr True"
      using sc False 2(1) fs c(1) R plain_right(1) [OF pr R] by (simp add: type_conforms_def name_str_def singleton_const_def)
    from ir_eq_base [OF c(2) this] have "const_has_base_type m v r = Inr True" .
    then show ?thesis
      using of_type_unfold [OF m has(2,3)] R
      by (cases R) (auto simp: has_type_step_def has_type_apply_def const_has_base_type_def name_str_def)
  next
    case (3 f la)
    note l = 3
    have sing: "singleton_const (NApply f la) = None"
      using 3(2) by (cases "f = ''fn:Singleton''") (auto simp: singleton_const_def inner_fns_def split: list.split)
    obtain ra where "R = NApply f ra" "apply_conforms m sc f l la r ra = Inr True"
      by (rule type_conforms_apply [OF sc False l(1) sing R plain_right(1,2) [OF pr R]])
    then have ra: "tnode_of m r = Inr (NApply f ra)" "apply_conforms m sc f l la r ra = Inr True"
      using R by simp_all
    have f: "f \<in> {''fn:List'', ''fn:Map'', ''fn:Pair'', ''fn:Tuple'', ''fn:Option''}"
      using 3(2) nu [of la] 3(1) unfolding inner_fns_def by (cases "f = ''fn:Union''") simp_all
    show ?thesis
    proof (rule apply_sound [OF m has l(1) ra(1) f ra(2) _ v])
      fix a b assume ab: "a \<in> set la" "b \<in> set ra" "sc a b = Inr True"
      show "sub_values m a b"
        using sub [OF l(1) ra(1) ab(1,2) _ plain_args [OF pr ra(1) 3(2) ab(2)] ab(3)] l(3) ab(1) by blast
    qed
  qed
qed (use v in simp)

lemma conforms_sub_values:
  assumes m: "acyclic_ir m" and ctx: "ctx_ok m ctx"
  shows "has_inst m l \<Longrightarrow> has_inst m r \<Longrightarrow> plain_type n m l \<Longrightarrow> plain_type k m r \<Longrightarrow> conforms m ctx l r \<Longrightarrow> sub_values m l r"
proof (induction "trank m l + trank m r" arbitrary: l r n k rule: less_induct)
  case less
  note has = less.prems(1,2) and pl = less.prems(3) and pr = less.prems(4)
  let ?sc = "set_conforms (type_depth m) m ctx"
  obtain L R where L: "tnode_of m l = Inr L" and R: "tnode_of m r = Inr R"
    using total_tnode [OF m has(1)] total_tnode [OF m has(2)] by (auto simp: total_R_def)
  have ntu: "args_of ''fn:TaggedUnion'' L = None" "args_of ''fn:TaggedUnion'' R = None"
    using pl pr L R by (auto elim!: plain_node simp: args_of_def leaf_fns_def inner_fns_def)
  have nab: "R \<noteq> NName ''/any''" "L \<noteq> NName ''/bot''"
    using pl pr L R by (auto elim!: plain_node)
  have IH: "sub_values m a b" if "has_inst m a" "has_inst m b" "trank m a + trank m b < trank m l + trank m r"
      "\<exists>n. plain_type n m a" "\<exists>n. plain_type n m b" "?sc a b = Inr True" for a b
    using that less.hyps [of a b] by (auto simp: conforms_def)
  note step = less.prems(5) [unfolded conforms_unfold [OF m ctx has] set_conforms_step_def L R bindR_simps]
  show ?case
    unfolding sub_values_def
  proof (intro allI impI)
    fix v assume v: "has_inst m v" "of_type m l v"
    consider "l = r" | (ul) la where "L = NApply ''fn:Union'' la" "allR (\<lambda>alt. ?sc alt r) la = Inr True"
      | (ur) ra where "R = NApply ''fn:Union'' ra" "anyR (\<lambda>alt. ?sc l alt) ra = Inr True" "args_of ''fn:Union'' L = None"
      | (tc) "type_conforms m ctx ?sc l r = Inr True" "args_of ''fn:Union'' L = None"
      using step nab ntu by (auto simp: args_of_Some split: option.split_asm if_splits)
    then show "of_type m r v"
    proof cases
      case ul
      obtain a where a: "a \<in> set la" "of_type m a v"
        using union_values [OF m has(1) v(1)] v(2) L ul(1) by auto
      have "sub_values m a r"
        using trank_args [OF m L [unfolded ul(1)] a(1)] plain_args [OF pl L [unfolded ul(1)] _ a(1), OF union_inner] pr ul(2) a(1)
        by (intro IH has) (auto simp: allR_True)
      then show ?thesis
        using a(2) v(1) by (simp add: sub_values_def)
    next
      case ur
      obtain a where a: "a \<in> set ra" "?sc l a = Inr True"
        using anyR_True [OF ur(2)] by blast
      have "sub_values m l a"
        using trank_args [OF m R [unfolded ur(1)] a(1)] plain_args [OF pr R [unfolded ur(1)] _ a(1), OF union_inner] pl a(2)
        by (intro IH has) auto
      then show ?thesis
        using union_values [OF m has(2) v(1) R [unfolded ur(1)]] a(1) v by (auto simp: sub_values_def)
    next
      case tc
      show ?thesis
      proof (rule type_conforms_sound [OF m has v(1) pl pr _ tc(1) v(2)])
        show "tnode_of m l \<noteq> Inr (NApply ''fn:Union'' as)" for as
          using tc(2) L by (auto simp: args_of_def)
        show "sub_values m a b" if "tnode_of m l = Inr (NApply f la)" "tnode_of m r = Inr (NApply g ra)"
          "a \<in> set la" "b \<in> set ra" "\<exists>n. plain_type n m a" "\<exists>n. plain_type n m b" "?sc a b = Inr True" for f la g ra a b
          using trank_args [OF m that(1,3)] trank_args [OF m that(2,4)] that(5-) by (intro IH) auto
      qed
    qed (use v in simp)
  qed
qed

subsection \<open>Properties\<close>

text \<open>C24: On an IR whose instructions refer to earlier ones, \<open>set_conforms\<close> and \<open>has_type\<close> return: a depth of
  recursion of twice the number of instructions plus three is enough, for every type, value and context
  that binds variables to name types, and no greater depth changes the answer.\<close>

theorem type_checks_bounded:
  assumes "acyclic_ir m" "ctx_ok m ctx" "has_inst m l" "has_inst m r" "has_inst m v" "2 * length (insts m) + 3 \<le> d"
  shows "(\<exists>b. set_conforms d m ctx l r = Inr b \<and> set_conforms (2 * length (insts m) + 3) m ctx l r = Inr b) \<and>
    (\<exists>b. has_type d m l v = Inr b \<and> has_type (length (insts m)) m l v = Inr b)"
proof
  have "agree (set_conforms d m ctx l r) (set_conforms (2 * length (insts m) + 3) m ctx l r)"
    using set_conforms_agree [OF assms(1-4)] trank_depth [OF assms(3,4)] assms(6) by simp
  then show "\<exists>b. set_conforms d m ctx l r = Inr b \<and> set_conforms (2 * length (insts m) + 3) m ctx l r = Inr b"
    by (simp add: agree_def)
  have "agree (has_type d m l v) (has_type (length (insts m)) m l v)"
    using has_type_agree [OF assms(1,3,5)] assms(3,6) by (simp add: has_inst_def)
  then show "\<exists>b. has_type d m l v = Inr b \<and> has_type (length (insts m)) m l v = Inr b"
    by (simp add: agree_def)
qed

text \<open>C23: Conformance is sound: where \<open>set_conforms\<close> accepts a type for another, every value of the first
  is a value of the second, for types built from names other than \<open>/any\<close> and \<open>/bot\<close>, singletons,
  unions, lists, maps, pairs, tuples, options, functions and relations, nested in any way.\<close>

theorem conforms_sound:
  assumes "acyclic_ir m" "ctx_ok m ctx" "has_inst m l" "has_inst m r" "has_inst m v"
    and "plain_type n m l" "plain_type k m r" "type_depth m \<le> d"
    and "set_conforms d m ctx l r = Inr True" "has_type d m l v = Inr True"
  shows "has_type d m r v = Inr True"
proof -
  have d: "has_type d m t v = has_type (type_depth m) m t v" if "has_inst m t" for t
    using has_type_agree [OF assms(1) that assms(5)] that assms(8)
    by (intro agree_eq) (simp add: has_inst_def type_depth_def)
  have "set_conforms (type_depth m) m ctx l r = set_conforms d m ctx l r"
    using set_conforms_agree [OF assms(1-4)] trank_depth [OF assms(3,4)] assms(8)
    by (intro agree_eq) (simp add: type_depth_def)
  then show ?thesis
    using conforms_sub_values [OF assms(1-4,6,7)] assms(5,9,10) d assms(3,4)
    by (simp add: conforms_def sub_values_def of_type_def)
qed

subsection \<open>An example\<close>

text \<open>Types over a small IR: \<open>/number\<close>, \<open>/name\<close>, \<open>/any\<close>, lists and unions of them, and the values 1, \<open>/a/b\<close> and \<open>[1]\<close>.\<close>

definition demo_names :: "string list" where
  "demo_names = [''/number'', ''/name'', ''/any'', ''/a'', ''/a/b'', ''fn:List'', ''fn:Union'', ''fn:Struct'', ''fn:opt'',
     ''fn:TaggedUnion'', ''fn:list'', ''/x'', ''/y'', ''/kind'']"

definition type_demo :: ir where
  "type_demo =
     \<lparr>insts =
        [IName 1, IName 2, IName 3, IName 4, IName 5, INumber 1,
         IApplyFn 7 [1, 4], IApplyFn 7 [2, 1], IApplyFn 6 [7], IApplyFn 6 [8], IList [6, 5],
         IName 12, IName 13, IApplyFn 9 [12, 1], IApplyFn 8 [14], IApplyFn 8 [12, 1], IStruct [] [],
         IApplyFn 8 [12, 1, 13, 1], IStruct [12, 13] [6, 6], IName 14, IApplyFn 10 [20, 4, 16], IStruct [12] [6]],
      name_store = snd (projr (intern_list intern demo_names interner_new)),
      string_store = interner_new, temporal_predicates = []\<rparr>"

lemma demo_inv: "interner_inv (name_store type_demo)"
proof -
  have "\<not> isl (intern_list intern demo_names interner_new)"
    by code_simp
  then obtain ks s where "intern_list intern demo_names interner_new = Inr (ks, s)"
    by (cases "intern_list intern demo_names interner_new") auto
  then show ?thesis
    using si.intern_list_inv [OF interner_new_inv] by (simp add: type_demo_def)
qed

theorem type_checks_bounded_witness:
  "(\<exists>b. set_conforms 60 type_demo [(1, 3)] 9 10 = Inr b \<and> set_conforms 47 type_demo [(1, 3)] 9 10 = Inr b) \<and>
   (\<exists>b. has_type 60 type_demo 9 11 = Inr b \<and> has_type 22 type_demo 9 11 = Inr b)"
proof -
  have "acyclic_ir type_demo" "ctx_ok type_demo [(1, 3)]" "has_inst type_demo 9" "has_inst type_demo 10" "has_inst type_demo 11"
    by code_simp+
  moreover have "length (insts type_demo) = 22"
    by (simp add: type_demo_def)
  ultimately show ?thesis
    using type_checks_bounded [of type_demo "[(1, 3)]" 9 10 11 60] by (simp del: set_conforms.simps has_type.simps)
qed

theorem conforms_sound_witness: "has_type 60 type_demo 10 11 = Inr True"
proof -
  have "acyclic_ir type_demo" "ctx_ok type_demo []" "has_inst type_demo 9" "has_inst type_demo 10" "has_inst type_demo 11"
    "plain_type 22 type_demo 9" "plain_type 22 type_demo 10" "type_depth type_demo \<le> 60"
    "set_conforms 60 type_demo [] 9 10 = Inr True" "has_type 60 type_demo 9 11 = Inr True"
    by code_simp+
  then show ?thesis
    by (rule conforms_sound)
qed

text \<open>Outside those constructors conformance accepts types whose values the other type rejects: a list type
  conforms to \<open>/any\<close> although \<open>has_type\<close> finds no list in \<open>/any\<close>; a struct type with an optional field
  conforms to one that requires it; a struct type with a further field conforms to one without, whose
  values may not have it; and a struct type without the tag field conforms to a tagged union.\<close>

theorem conforms_unsound:
  "list_all (\<lambda>(l, r, v). set_conforms 47 type_demo [] l r = Inr True \<and> has_type 22 type_demo l v = Inr True \<and>
       has_type 22 type_demo r v = Inr False)
     [(9, 3, 11), (15, 16, 17), (18, 16, 19), (16, 21, 22)]"
  by code_simp

end
