(* ===== verification/Type_Bounds_Props.thy ===== *)
theory Type_Bounds_Props
  imports Type_Bounds Type_Expr_Props
begin

text \<open>
  Types keep their values when the IR grows; the upper bound of types covers the values of each of them,
  and the removal of a type from a union keeps the values the type does not have.
\<close>

subsection \<open>Results that a larger IR keeps\<close>

definition le_R :: "'a result \<Rightarrow> 'a result \<Rightarrow> bool" where
  "le_R r r' \<longleftrightarrow> (\<forall>x. r = Inr x \<longrightarrow> r' = Inr x)"

lemma le_refl [simp]: "le_R r r"
  by (simp add: le_R_def)

lemma le_Inl [simp]: "le_R (Inl e) r"
  by (simp add: le_R_def)

lemma le_RD: "le_R r r' \<Longrightarrow> r = Inr x \<Longrightarrow> r' = Inr x"
  by (simp add: le_R_def)

lemma le_bindR: "le_R r r' \<Longrightarrow> (\<And>x. r = Inr x \<Longrightarrow> le_R (f x) (f' x)) \<Longrightarrow> le_R (bindR r f) (bindR r' f')"
  by (auto simp: le_R_def)

lemma le_allR: "(\<And>x. x \<in> set xs \<Longrightarrow> le_R (f x) (g x)) \<Longrightarrow> le_R (allR f xs) (allR g xs)"
  by (induction xs) (auto intro!: le_bindR)

lemma le_anyR: "(\<And>x. x \<in> set xs \<Longrightarrow> le_R (f x) (g x)) \<Longrightarrow> le_R (anyR f xs) (anyR g xs)"
  by (induction xs) (auto intro!: le_bindR)

lemma le_traverseR: "(\<And>x. x \<in> set xs \<Longrightarrow> le_R (f x) (g x)) \<Longrightarrow> le_R (traverseR f xs) (traverseR g xs)"
  by (induction xs) (auto intro!: le_bindR)

lemma le_if: "(c \<Longrightarrow> le_R a a') \<Longrightarrow> (\<not> c \<Longrightarrow> le_R b b') \<Longrightarrow> le_R (if c then a else b) (if c then a' else b')"
  by simp

definition ir_ext :: "ir \<Rightarrow> ir \<Rightarrow> bool" where
  "ir_ext m m' \<longleftrightarrow> (\<exists>xs. insts m' = insts m @ xs) \<and> (\<forall>k. le_R (resolve_name m k) (resolve_name m' k))"

lemma ext_get: "ir_ext m m' \<Longrightarrow> le_R (ir_get m i) (ir_get m' i)"
  by (auto simp: ir_ext_def le_R_def ir_get_def nth_append)

lemma ext_resolve: "ir_ext m m' \<Longrightarrow> le_R (resolve_name m k) (resolve_name m' k)"
  by (simp add: ir_ext_def)

lemma ext_inst_node: "ir_ext m m' \<Longrightarrow> le_R (inst_node m x) (inst_node m' x)"
  by (cases x) (auto simp: inst_node_def intro!: le_bindR ext_resolve)

lemma ext_tnode: "ir_ext m m' \<Longrightarrow> le_R (tnode_of m i) (tnode_of m' i)"
  unfolding tnode_of_def by (intro le_bindR ext_get ext_inst_node)

lemma ext_base: "ir_ext m m' \<Longrightarrow> le_R (const_has_base_type m c t) (const_has_base_type m' c t)"
  unfolding const_has_base_type_def inst_has_base_type_def
  by (rule le_bindR [OF ext_tnode])
    (auto split: option.split inst.split intro!: le_bindR ext_get ext_resolve)

lemma ext_eq: "ir_ext m m' \<Longrightarrow> le_R (ir_eq m a b) (ir_eq m' a b)"
  unfolding ir_eq_def by (intro le_if le_bindR ext_get) simp_all

lemma ext_struct_fields: "ir_ext m m' \<Longrightarrow> le_R (struct_fields m as) (struct_fields m' as)"
proof (induction m as rule: struct_fields.induct)
  case (2 m a rest)
  show ?case
    unfolding struct_fields.simps(2)
    by (rule le_bindR [OF ext_tnode [OF 2(3)]], rule le_if)
      (use 2(1) [OF _ _ 2(3)] 2(2) [OF _ _ _ 2(3)] in \<open>auto split: list.split intro!: le_bindR simp del: struct_fields.simps(2)\<close>)
qed simp

lemma ext_struct_type_fields: "ir_ext m m' \<Longrightarrow> le_R (struct_type_fields m t) (struct_type_fields m' t)"
  unfolding struct_type_fields_def
  by (rule le_bindR [OF ext_tnode]) (auto split: tnode.split intro!: ext_struct_fields)

lemma ext_named: "ir_ext m m' \<Longrightarrow> le_R (named m fs) (named m' fs)"
  by (induction m fs rule: named.induct) (auto intro!: le_bindR ext_tnode)

lemma ext_elems: "ir_ext m m' \<Longrightarrow> le_R (list_value_elems m v) (list_value_elems m' v)"
  unfolding list_value_elems_def by (intro le_bindR ext_tnode) simp_all

lemma ext_entries: "ir_ext m m' \<Longrightarrow> le_R (map_value_entries m v) (map_value_entries m' v)"
  unfolding map_value_entries_def by (intro le_bindR ext_tnode) simp_all

lemma ext_field_names: "ir_ext m m' \<Longrightarrow> le_R (field_names m kvs) (field_names m' kvs)"
  by (induction m kvs rule: field_names.induct) (auto intro!: le_bindR ext_get split: inst.split)

lemma ext_struct_value_fields: "ir_ext m m' \<Longrightarrow> le_R (struct_value_fields m v) (struct_value_fields m' v)"
  unfolding struct_value_fields_def
  by (rule le_bindR [OF ext_tnode])
    (auto split: tnode.split inst.split option.split intro!: le_bindR ext_field_names)

lemma ext_fields_have_types:
  assumes "ir_ext m m'" "\<And>t v. le_R (ht t v) (ht' t v)"
  shows "le_R (fields_have_types m ht vm fs) (fields_have_types m' ht' vm fs)"
  using assms by (induction m ht vm fs rule: fields_have_types.induct)
    (auto intro!: le_bindR ext_tnode split: option.split)

lemma ext_has_type_struct:
  assumes "ir_ext m m'" "\<And>t v. le_R (ht t v) (ht' t v)"
  shows "le_R (has_type_struct m ht t v) (has_type_struct m' ht' t v)"
  unfolding has_type_struct_def
  by (intro le_bindR ext_struct_type_fields ext_struct_value_fields assms(1))
    (auto split: option.split intro!: le_bindR le_traverseR ext_resolve [OF assms(1)] ext_fields_have_types assms ext_named)

lemma ext_field_position: "ir_ext m m' \<Longrightarrow> le_R (field_position m nm fs) (field_position m' nm fs)"
  by (induction fs) (auto intro!: le_bindR ext_resolve)

lemma ext_tagged_variant:
  assumes "ir_ext m m'" "\<And>t v. le_R (ht t v) (ht' t v)"
  shows "le_R (has_type_tagged_variant m ht tf tag t v) (has_type_tagged_variant m' ht' tf tag t v)"
  unfolding has_type_tagged_variant_def
  by (intro le_bindR ext_struct_value_fields assms(1))
    (auto split: option.split intro!: le_bindR le_traverseR le_allR ext_resolve [OF assms(1)] ext_fields_have_types assms
      ext_named ext_tnode ext_eq ext_struct_type_fields ext_field_position)

lemma ext_pairs: "(\<And>t v. le_R (ht t v) (ht' t v)) \<Longrightarrow> le_R (pair_has_type ht ts vs) (pair_has_type ht' ts vs)"
  unfolding pair_has_type_def by (rule le_allR) (auto split: prod.split)

lemma ext_step:
  assumes "ir_ext m m'" "\<And>t v. le_R (ht t v) (ht' t v)"
  shows "le_R (has_type_step m ht t v) (has_type_step m' ht' t v)"
proof -
  note base = ext_tnode [OF assms(1)] ext_eq [OF assms(1)] ext_base [OF assms(1)] ext_elems [OF assms(1)] ext_entries [OF assms(1)]
  have "le_R (tagged_has_type m ht args v) (tagged_has_type m' ht' args v)"
    "le_R (list_has_type m ht args v) (list_has_type m' ht' args v)"
    "le_R (map_has_type m ht args v) (map_has_type m' ht' args v)"
    "le_R (option_has_type m ht args v) (option_has_type m' ht' args v)" for args
    unfolding tagged_has_type_def list_has_type_def map_has_type_def option_has_type_def
    by (auto split: option.split list.split intro!: le_anyR le_allR le_bindR ext_tagged_variant assms base)
  moreover have "le_R (pair_type_has m ht args v) (pair_type_has m' ht' args v)"
    "le_R (tuple_has_type m ht args v) (tuple_has_type m' ht' args v)" for args
    unfolding pair_type_has_def tuple_has_type_def
    by (auto split: option.split intro!: le_bindR ext_pairs assms base)
  moreover have "le_R (case args of [c] \<Rightarrow> ir_eq m v c | _ \<Rightarrow> Inr False) (case args of [c] \<Rightarrow> ir_eq m' v c | _ \<Rightarrow> Inr False)" for args
    by (auto split: list.split intro!: base)
  ultimately have "le_R (has_type_apply m ht t f args v) (has_type_apply m' ht' t f args v)" for f args
    unfolding has_type_apply_def by (intro le_if le_anyR ext_has_type_struct assms) simp_all
  then show ?thesis
    unfolding has_type_step_def by (auto split: tnode.split intro!: le_bindR base)
qed

lemma ext_has_type: "ir_ext m m' \<Longrightarrow> le_R (has_type n m t v) (has_type n m' t v)"
  by (induction n arbitrary: t v) (simp_all add: ext_step)

subsection \<open>Adding a union\<close>

lemma resolve_intern:
  assumes "interner_inv (name_store m)" "intern_name f m = Inr (k, m')"
  shows "resolve_name m' k = Inr f" "le_R (resolve_name m j) (resolve_name m' j)" "insts m' = insts m"
    "\<And>j. has_name m j \<Longrightarrow> has_name m' j"
proof -
  obtain s where s: "intern f (name_store m) = Inr (k, s)" "m' = m\<lparr>name_store := s\<rparr>"
    using assms(2) by (auto simp: intern_name_def)
  show "resolve_name m' k = Inr f" "le_R (resolve_name m j) (resolve_name m' j)" "insts m' = insts m"
    using si.int_get [OF assms(1) s(1)] si.int_keeps [OF assms(1) s(1)] s(2) by (simp_all add: resolve_name_def le_R_def)
  show "\<And>j. has_name m j \<Longrightarrow> has_name m' j"
    using si.int_keeps [OF assms(1) s(1)] s(2) by (auto simp: has_name_def interner_get_def)
qed

lemma inst_ok_mono: "inst_ok m k x \<Longrightarrow> (\<And>j. has_name m j \<Longrightarrow> has_name m' j) \<Longrightarrow> inst_ok m' k x"
  by (auto simp: inst_ok_def list_all_iff)

lemma new_type_ext:
  assumes "acyclic_ir m" "interner_inv (name_store m)" "length (insts m) < 2 ^ 32" "\<forall>a\<in>set args. has_inst m a"
    and "new_type f args m = Inr (u, m')"
  shows "acyclic_ir m' \<and> ir_ext m m' \<and> has_inst m' u \<and> tnode_of m' u = Inr (NApply f args)"
proof -
  obtain n m1 where n: "intern_name f m = Inr (n, m1)" and u: "add_inst (IApplyFn n args) m1 = Inr (u, m')"
    using assms(5) by (auto simp: new_type_def bindI_def)
  note i = resolve_intern [OF assms(2) n]
  have k: "key_new (length (insts m)) = Inr u" and m': "m' = m1\<lparr>insts := insts m @ [IApplyFn n args]\<rparr>"
    using u by (auto simp: add_inst_def i(3))
  have ku: "key_index u = length (insts m)"
    using k key_index_of_nat [OF assms(3)] unfolding key_new_Inr [OF assms(3)] by simp
  have res: "resolve_name m' j = resolve_name m1 j" "has_name m' j = has_name m1 j" for j
    by (simp_all add: m' resolve_name_def has_name_def)
  have node: "tnode_of m' u = Inr (NApply f args)"
    by (simp add: tnode_of_def ir_get_def index_list_def ku m' inst_node_def res(1) [unfolded m'] i(1))
  have "inst_ok m' j (insts m' ! j)" if "j < Suc (length (insts m))" for j
  proof (cases "j < length (insts m)")
    case True
    then have "inst_ok m j (insts m ! j)"
      using assms(1) by (auto simp: acyclic_ir_def list_all_iff)
    then show ?thesis
      using inst_ok_mono [of m j _ m'] i(4) res(2) True by (simp add: m' nth_append)
  next
    case False
    then show ?thesis
      using that assms(4) res i(1) by (auto simp: m' nth_append inst_ok_def inst_args_def inst_names_def list_all_iff
          has_inst_def has_name_def resolve_name_def interner_get_def less_Suc_eq)
  qed
  then have "acyclic_ir m'"
    unfolding acyclic_ir_def list_all_iff by (simp add: m' del: upt_Suc)
  moreover have "ir_ext m m'"
    using i(2) by (auto simp: ir_ext_def res(1)) (simp add: m')
  ultimately show ?thesis
    using node ku by (simp add: has_inst_def m')
qed

lemma of_type_ext:
  assumes "acyclic_ir m" "acyclic_ir m'" "ir_ext m m'" "has_inst m t" "has_inst m v"
  shows "of_type m' t v \<longleftrightarrow> of_type m t v"
proof -
  have has: "has_inst m' t" "has_inst m' v"
    using assms(3-5) by (auto simp: ir_ext_def has_inst_def)
  have d: "key_index t < type_depth m" "key_index t < type_depth m'"
    using assms(4) has(1) by (simp_all add: has_inst_def type_depth_def)
  obtain b where b: "has_type (type_depth m) m t v = Inr b"
    using of_type_total [OF assms(1,4,5)] by (auto simp: total_R_def)
  have "has_type (type_depth m) m' t v = Inr b"
    using le_RD [OF ext_has_type [OF assms(3)] b] .
  then show ?thesis
    using b agree_eq [OF has_type_agree [OF assms(2) has d]] by (simp add: of_type_def)
qed

text \<open>The union of types, or the one type, has the values of each.\<close>

lemma union_or_single_values:
  assumes "acyclic_ir m" "interner_inv (name_store m)" "length (insts m) < 2 ^ 32" "\<forall>a\<in>set ts. has_inst m a" "has_inst m v"
    and "new_union_or_single ts m = Inr (u, m')"
  shows "of_type m' u v \<longleftrightarrow> (\<exists>t\<in>set ts. of_type m t v)"
proof (cases "\<exists>a. ts = [a]")
  case True
  then show ?thesis
    using assms(6) by (auto simp: new_union_or_single_def returnI_def)
next
  case False
  then have "new_type ''fn:Union'' ts m = Inr (u, m')"
    using assms(6) by (auto simp: new_union_or_single_def split: list.split_asm)
  then have n: "acyclic_ir m'" "ir_ext m m'" "has_inst m' u" "tnode_of m' u = Inr (NApply ''fn:Union'' ts)"
    using new_type_ext [OF assms(1-4)] by auto
  have "has_inst m' v"
    using n(2) assms(5) by (auto simp: ir_ext_def has_inst_def)
  then show ?thesis
    using union_values [OF n(1,3) _ n(4)] of_type_ext [OF assms(1) n(1,2)] assms(4,5) by auto
qed

subsection \<open>Bounds\<close>

definition plain_all :: "ir \<Rightarrow> inst_id list \<Rightarrow> bool" where
  "plain_all m ts \<longleftrightarrow> (\<forall>t\<in>set ts. has_inst m t \<and> (\<exists>n. plain_type n m t))"

lemma flatten_types_values:
  assumes "acyclic_ir m" "plain_all m ts" "flatten_types m ts = Inr r"
  shows "\<exists>ws. r = Some ws \<and> plain_all m ws \<and>
    (\<forall>t\<in>set ts. \<forall>v. has_inst m v \<longrightarrow> of_type m t v \<longrightarrow> (\<exists>w\<in>set ws. of_type m w v))"
  using assms(2,3)
proof (induction ts arbitrary: r)
  case (Cons t ts)
  obtain n where n: "tnode_of m t = Inr n"
    using Cons.prems(2) by auto
  obtain k where t: "has_inst m t" "plain_type k m t"
    using Cons.prems(1) by (auto simp: plain_all_def)
  have "n \<noteq> NName ''/any''"
    using plain_right(1) [OF t(2) n] .
  then obtain r' where r': "flatten_types m ts = Inr r'"
    "r = map_option (\<lambda>w. (case args_of ''fn:Union'' n of Some args \<Rightarrow> args | None \<Rightarrow> [t]) @ w) r'"
    using Cons.prems(2) n by auto
  have "plain_all m ts"
    using Cons.prems(1) by (simp add: plain_all_def)
  from Cons.IH [OF this r'(1)] obtain ws where ws: "r' = Some ws" "plain_all m ws"
    "\<forall>t\<in>set ts. \<forall>v. has_inst m v \<longrightarrow> of_type m t v \<longrightarrow> (\<exists>w\<in>set ws. of_type m w v)"
    by blast
  define alts where "alts = (case args_of ''fn:Union'' n of Some args \<Rightarrow> args | None \<Rightarrow> [t])"
  have alts: "plain_all m alts \<and> (\<forall>v. has_inst m v \<longrightarrow> of_type m t v \<longrightarrow> (\<exists>w\<in>set alts. of_type m w v))"
  proof (cases "args_of ''fn:Union'' n")
    case None
    then show ?thesis
      using t by (auto simp: plain_all_def alts_def)
  next
    case (Some args)
    then have node: "tnode_of m t = Inr (NApply ''fn:Union'' args)"
      using n by (simp add: args_of_Some)
    show ?thesis
      using union_values [OF assms(1) t(1) _ node] plain_args [OF t(2) node union_inner] tnode_Apply(2) [OF assms(1) node] Some
      by (auto simp: plain_all_def alts_def)
  qed
  have "r = Some (alts @ ws)" "plain_all m (alts @ ws)"
    using ws(1,2) r'(2) conjunct1 [OF alts] by (auto simp: alts_def plain_all_def)
  then show ?case
    using ws(3) conjunct2 [OF alts] by (metis UnCI set_ConsD set_append)
qed (simp add: plain_all_def)

lemma conformsR_sub:
  assumes "acyclic_ir m" "ctx_ok m ctx" "plain_all m [l, r]" "conformsR m ctx l r = Inr True"
  shows "sub_values m l r"
  using assms conforms_sub_values [OF assms(1,2)] by (auto simp: plain_all_def conforms_def conformsR_def)

text \<open>\<open>rs\<close> covers the values of \<open>ts\<close>.\<close>

definition covers :: "ir \<Rightarrow> inst_id list \<Rightarrow> inst_id list \<Rightarrow> bool" where
  "covers m rs ts \<longleftrightarrow> plain_all m rs \<and> (\<forall>t\<in>set ts. \<exists>r\<in>set rs. sub_values m t r)"

lemma sub_values_refl [simp]: "sub_values m t t"
  by (simp add: sub_values_def)

lemma sub_values_trans: "sub_values m a b \<Longrightarrow> sub_values m b c \<Longrightarrow> sub_values m a c"
  by (simp add: sub_values_def)

lemma reduce_into_covers:
  assumes "acyclic_ir m" "ctx_ok m ctx"
  shows "plain_all m (t # rs) \<Longrightarrow> reduce_into (conformsR m ctx) t rs = Inr rs' \<Longrightarrow> covers m rs' (t # rs)"
proof (induction rs arbitrary: rs')
  case (Cons r rs)
  have pl: "plain_all m [t, r]" "plain_all m [r, t]" "plain_all m (t # rs)" "plain_all m [r]" "plain_all m rs"
    using Cons.prems(1) by (auto simp: plain_all_def)
  consider "conformsR m ctx t r = Inr True" "rs' = r # rs" | "conformsR m ctx r t = Inr True" "rs' = t # rs"
    | rs'' where "reduce_into (conformsR m ctx) t rs = Inr rs''" "rs' = r # rs''"
    using Cons.prems(2) by (auto split: if_splits)
  then show ?case
  proof cases
    case 1
    then show ?thesis
      using conformsR_sub [OF assms pl(1)] Cons.prems(1) by (force simp: covers_def plain_all_def)
  next
    case 2
    then show ?thesis
      using conformsR_sub [OF assms pl(2)] Cons.prems(1) by (force simp: covers_def plain_all_def)
  next
    case 3
    then show ?thesis
      using Cons.IH [OF pl(3)] pl(4) by (auto simp: covers_def plain_all_def)
  qed
qed (auto simp: covers_def)

lemma reduce_all_covers:
  assumes "acyclic_ir m" "ctx_ok m ctx"
  shows "covers m rs us \<Longrightarrow> plain_all m ts \<Longrightarrow> reduce_all (conformsR m ctx) ts rs = Inr rs' \<Longrightarrow> covers m rs' (us @ ts)"
proof (induction ts arbitrary: rs us)
  case (Cons t ts)
  obtain r1 where r1: "reduce_into (conformsR m ctx) t rs = Inr r1" "reduce_all (conformsR m ctx) ts r1 = Inr rs'"
    using Cons.prems(3) by auto
  have "plain_all m (t # rs)"
    using Cons.prems(1,2) unfolding covers_def plain_all_def by simp
  from reduce_into_covers [OF assms this r1(1)] have "covers m r1 (t # rs)" .
  then have r1c: "plain_all m r1" "\<And>x. x = t \<or> x \<in> set rs \<Longrightarrow> \<exists>r\<in>set r1. sub_values m x r"
    by (auto simp: covers_def)
  have "\<exists>r\<in>set r1. sub_values m u r" if u: "u \<in> set us" for u
  proof -
    obtain r where r: "r \<in> set rs" "sub_values m u r"
      using Cons.prems(1) u by (auto simp: covers_def)
    obtain r' where "r' \<in> set r1" "sub_values m r r'"
      using r1c(2) r(1) by blast
    then show ?thesis
      using sub_values_trans [OF r(2)] by blast
  qed
  then have "covers m r1 (us @ [t])"
    using r1c by (auto simp: covers_def)
  moreover have "plain_all m ts"
    using Cons.prems(2) by (simp add: plain_all_def)
  ultimately show ?case
    using Cons.IH [OF _ _ r1(2), of "us @ [t]"] by simp
qed simp

lemma not_conforming_keeps:
  "not_conforming sc r ts = Inr rs \<Longrightarrow> set rs \<subseteq> set ts \<and> (\<forall>t\<in>set ts. t \<in> set rs \<or> sc t r = Inr True)"
proof (induction ts arbitrary: rs)
  case (Cons t ts)
  then obtain b rs' where "sc t r = Inr b" "not_conforming sc r ts = Inr rs'" "rs = (if b then rs' else t # rs')"
    by auto
  then show ?case
    using Cons.IH [of rs'] by auto
qed simp

lemma demo_small: "length (insts type_demo) < 2 ^ 32"
  by (simp add: type_demo_def)

lemma demo_plain: "list_all (\<lambda>t. has_inst type_demo t \<and> plain_type 22 type_demo t) ts \<Longrightarrow> plain_all type_demo ts"
  by (auto simp: plain_all_def list_all_iff)

subsection \<open>Properties\<close>

text \<open>C25: The upper bound that \<open>upper_bound\<close> computes for types built without structs, tagged unions, variables,
  \<open>/any\<close> and \<open>/bot\<close>, in an IR whose instructions refer to earlier ones only and with room for another
  instruction, has every value of each of them, whatever alternatives it leaves out because they conform to
  others and whatever instruction it adds.\<close>

theorem upper_bound_covers:
  assumes "acyclic_ir m" "interner_inv (name_store m)" "length (insts m) < 2 ^ 32" "ctx_ok m ctx" "plain_all m ts"
    and "upper_bound ctx ts m = Inr (u, m')" "t \<in> set ts" "has_inst m v" "has_type (type_depth m) m t v = Inr True"
  shows "has_type (type_depth m') m' u v = Inr True"
proof -
  obtain ws where ws: "flatten_types m ts = Inr (Some ws)" "plain_all m ws" "\<exists>w\<in>set ws. of_type m w v"
    using flatten_types_values [OF assms(1,5)] assms(6-9) by (auto simp: upper_bound_def of_type_def)
  then obtain w ws' where w: "ws = w # ws'"
    by (cases ws) auto
  then obtain rs where rs: "reduce_all (conformsR m ctx) ws' [w] = Inr rs" "new_union_or_single rs m = Inr (u, m')"
    using assms(6) ws(1) by (auto simp: upper_bound_def)
  have "covers m [w] [w]" "plain_all m ws'"
    using ws(2) by (auto simp: w covers_def plain_all_def)
  from reduce_all_covers [OF assms(1,4) this rs(1)] have c: "covers m rs ws"
    by (simp add: w)
  then have "\<exists>r\<in>set rs. of_type m r v"
    using ws(3) assms(8) unfolding covers_def sub_values_def by metis
  then show ?thesis
    using union_or_single_values [OF assms(1-3) _ assms(8) rs(2)] c
    by (auto simp: covers_def plain_all_def of_type_def)
qed

theorem upper_bound_covers_witness:
  "(case upper_bound [] [1, 5, 4] type_demo of Inr (u, m') \<Rightarrow> has_type (type_depth m') m' u 5 = Inr True | Inl _ \<Rightarrow> False)"
proof -
  have "acyclic_ir type_demo" "ctx_ok type_demo []" "has_inst type_demo 5"
    "has_type (type_depth type_demo) type_demo 5 5 = Inr True" "list_all (\<lambda>t. has_inst type_demo t \<and> plain_type 22 type_demo t) [1, 5, 4]"
    by code_simp+
  moreover have "\<not> isl (upper_bound [] [1, 5, 4] type_demo)"
    by code_simp
  ultimately show ?thesis
    using upper_bound_covers [OF _ demo_inv demo_small, of "[]" "[1, 5, 4]" _ _ 5 5] demo_plain [of "[1, 5, 4]"]
    by (auto split: sum.split)
qed

text \<open>C38: Removing a type from a union keeps the values the type does not have, for types built without structs,
  tagged unions, variables, \<open>/any\<close> and \<open>/bot\<close>, in an IR whose instructions refer to earlier ones only and
  with room for another instruction.\<close>

theorem remove_from_union_keeps:
  assumes "acyclic_ir m" "interner_inv (name_store m)" "length (insts m) < 2 ^ 32" "plain_all m [r, u]"
    and "remove_from_union_type r u m = Inr (u', m')" "has_inst m v"
    and "has_type (type_depth m) m u v = Inr True" "has_type (type_depth m) m r v = Inr False"
  shows "has_type (type_depth m') m' u' v = Inr True"
proof -
  have ctx: "ctx_ok m []"
    by (simp add: ctx_ok_def)
  have vr: "\<not> of_type m r v"
    using assms(8) by (simp add: of_type_def)
  have u: "has_inst m u"
    using assms(4) by (simp add: plain_all_def)
  obtain n where n: "tnode_of m u = Inr n"
    using total_tnode [OF assms(1) u] by (auto simp: total_R_def)
  have out: "conformsR m [] t r \<noteq> Inr True" if "plain_all m [t]" "of_type m t v" for t
    using conformsR_sub [OF assms(1) ctx, of t r] that assms(4,6) vr by (auto simp: plain_all_def sub_values_def)
  show ?thesis
  proof (cases "args_of ''fn:Union'' n")
    case None
    then show ?thesis
      using assms(4,5,7) n out [of u]
      by (auto simp: remove_from_union_type_def union_type_args_def plain_all_def of_type_def split: if_splits)
  next
    case (Some args)
    then have node: "tnode_of m u = Inr (NApply ''fn:Union'' args)"
      using n by (simp add: args_of_Some)
    have pl: "plain_all m args"
      using plain_args [OF _ node union_inner] assms(4) tnode_Apply(2) [OF assms(1) node] by (auto simp: plain_all_def)
    obtain rs where rs: "not_conforming (conformsR m []) r args = Inr rs"
      "(if rs = [] then empty_type m else new_union_or_single rs m) = Inr (u', m')"
      using assms(5) n Some by (auto simp: remove_from_union_type_def union_type_args_def)
    obtain a where a: "a \<in> set args" "of_type m a v"
      using union_values [OF assms(1) u assms(6) node] assms(7) by (auto simp: of_type_def)
    have ar: "a \<in> set rs"
      using not_conforming_keeps [OF rs(1)] a(1) out [of a] pl a by (auto simp: plain_all_def)
    then have "new_union_or_single rs m = Inr (u', m')"
      using rs(2) by (auto split: if_splits)
    then have "of_type m' u' v \<longleftrightarrow> (\<exists>t\<in>set rs. of_type m t v)"
      using not_conforming_keeps [OF rs(1)] pl
      by (intro union_or_single_values [OF assms(1-3) _ assms(6)]) (auto simp: plain_all_def)
    then show ?thesis
      using ar a(2) by (auto simp: of_type_def)
  qed
qed

theorem remove_from_union_keeps_witness:
  "(case remove_from_union_type 4 7 type_demo of Inr (u, m') \<Rightarrow> has_type (type_depth m') m' u 6 = Inr True | Inl _ \<Rightarrow> False)"
proof -
  have "acyclic_ir type_demo" "has_inst type_demo 6"
    "has_type (type_depth type_demo) type_demo 7 6 = Inr True" "has_type (type_depth type_demo) type_demo 4 6 = Inr False"
    "list_all (\<lambda>t. has_inst type_demo t \<and> plain_type 22 type_demo t) [4, 7]"
    by code_simp+
  moreover have "\<not> isl (remove_from_union_type 4 7 type_demo)"
    by code_simp
  ultimately show ?thesis
    using remove_from_union_keeps [OF _ demo_inv demo_small, of 4 7 _ _ 6] demo_plain [of "[4, 7]"]
    by (auto split: sum.split)
qed

end
