(* ===== verification/Name_Trie.thy ===== *)
theory Name_Trie
  imports Type_Expr "HOL-Library.AList"
begin

text \<open>
  \<open>mangle-analysis/src/name_trie.rs\<close>: the trie over the segments of name constants from which the
  bounds checker takes the most precise declared type of a name.
\<close>

subsection \<open>The trie\<close>

datatype name_trie = NameTrie (tr_children: "(string \<times> name_trie) list") (tr_terminal: bool)

definition name_trie_new :: name_trie where
  "name_trie_new = NameTrie [] False"

definition split_name :: "string \<Rightarrow> string list" where
  "split_name name = filter (\<lambda>s. s \<noteq> []) (split_on CHR ''/'' name)"

text \<open>The walk of \<open>add\<close> along the segments, with \<open>entry(..).or_default()\<close> at each.\<close>

fun trie_add :: "string list \<Rightarrow> name_trie \<Rightarrow> name_trie" where
  "trie_add [] t = NameTrie (tr_children t) True"
| "trie_add (p # ps) t =
     NameTrie (AList.update p (trie_add ps (case map_of (tr_children t) p of Some c \<Rightarrow> c | None \<Rightarrow> name_trie_new)) (tr_children t))
       (tr_terminal t)"

fun trie_contains :: "string list \<Rightarrow> name_trie \<Rightarrow> bool" where
  "trie_contains [] t = tr_terminal t"
| "trie_contains (p # ps) t = (case map_of (tr_children t) p of Some c \<Rightarrow> trie_contains ps c | None \<Rightarrow> False)"

text \<open>The loop of \<open>prefix_name\<close>: the index of the last segment whose node is terminal.\<close>

fun last_terminal :: "string list \<Rightarrow> nat \<Rightarrow> nat option \<Rightarrow> name_trie \<Rightarrow> nat option" where
  "last_terminal [] i best t = best"
| "last_terminal (p # ps) i best t =
     (case map_of (tr_children t) p of
        Some c \<Rightarrow> last_terminal ps (Suc i) (if tr_terminal c then Some i else best) c
      | None \<Rightarrow> best)"

fun join_slash :: "string list \<Rightarrow> string" where
  "join_slash [] = []"
| "join_slash [s] = s"
| "join_slash (s # ss) = s @ ''/'' @ join_slash ss"

definition nt_add :: "string \<Rightarrow> name_trie \<Rightarrow> name_trie" where
  "nt_add name t = trie_add (split_name name) t"

definition nt_contains :: "name_trie \<Rightarrow> string \<Rightarrow> bool" where
  "nt_contains t name = trie_contains (split_name name) t"

definition nt_prefix_name :: "name_trie \<Rightarrow> string \<Rightarrow> string" where
  "nt_prefix_name t name =
     (let parts = split_name name
      in case last_terminal parts 0 None t of
           Some idx \<Rightarrow> ''/'' @ join_slash (take (Suc idx) parts)
         | None \<Rightarrow> ''/name'')"

fun every_second :: "'a list \<Rightarrow> 'a list" where
  "every_second (x # y # r) = x # every_second r"
| "every_second xs = xs"

text \<open>\<open>collect\<close>: the name constants of a type, without base types, tag fields and tags.\<close>

fun foldT :: "(inst_id \<Rightarrow> name_trie \<Rightarrow> name_trie result) \<Rightarrow> inst_id list \<Rightarrow> name_trie \<Rightarrow> name_trie result" where
  "foldT f [] t = Inr t"
| "foldT f (x # xs) t = bindR (f x t) (foldT f xs)"

fun nt_collect :: "nat \<Rightarrow> ir \<Rightarrow> inst_id \<Rightarrow> name_trie \<Rightarrow> name_trie result" where
  "nt_collect 0 m i t = Inl Panic"
| "nt_collect (Suc n) m i t =
     bindR (tnode_of m i) (\<lambda>x.
       case x of
         NName name \<Rightarrow> Inr (if name \<notin> set base_types \<and> starts_with name ''/'' then nt_add name t else t)
       | NApply f args \<Rightarrow>
           if f = ''fn:TaggedUnion'' \<and> 3 \<le> length args then foldT (nt_collect n m) (every_second (drop 2 args)) t
           else foldT (nt_collect n m) args t
       | _ \<Rightarrow> Inr t)"

subsection \<open>What a trie holds\<close>

lemma trie_contains_new [simp]: "\<not> trie_contains ps name_trie_new"
  by (cases ps) (simp_all add: name_trie_new_def)

lemma trie_contains_add: "trie_contains qs (trie_add ps t) \<longleftrightarrow> qs = ps \<or> trie_contains qs t"
proof (induction ps arbitrary: qs t)
  case Nil
  then show ?case by (cases qs) auto
next
  case (Cons p ps)
  show ?case
  proof (cases qs)
    case Nil
    then show ?thesis by simp
  next
    case (Cons q qs')
    then show ?thesis
      using Cons.IH [of qs'] by (auto simp: update_conv' split: option.split)
  qed
qed

definition trie_of :: "string list \<Rightarrow> name_trie" where
  "trie_of names = fold nt_add names name_trie_new"

lemma trie_contains_fold: "trie_contains ps (fold nt_add names t) \<longleftrightarrow> ps \<in> set (map split_name names) \<or> trie_contains ps t"
  by (induction names arbitrary: t) (auto simp: nt_add_def trie_contains_add)

lemma trie_of_contains: "trie_contains ps (trie_of names) \<longleftrightarrow> ps \<in> set (map split_name names)"
  by (simp add: trie_of_def trie_contains_fold)

text \<open>The lengths of the prefixes of \<open>ps\<close> that the trie holds.\<close>

definition held :: "string list \<Rightarrow> name_trie \<Rightarrow> nat set" where
  "held ps t = {k. 0 < k \<and> k \<le> length ps \<and> trie_contains (take k ps) t}"

lemma held_Cons:
  "held (p # ps) t =
     (case map_of (tr_children t) p of
        None \<Rightarrow> {}
      | Some c \<Rightarrow> (if tr_terminal c then {1} else {}) \<union> Suc ` held ps c)"
proof (cases "map_of (tr_children t) p")
  case None
  have "\<not> trie_contains (take k (p # ps)) t" if "0 < k" for k
    using that None by (cases k) auto
  then show ?thesis
    using None by (auto simp: held_def)
next
  case (Some c)
  have "k \<in> held (p # ps) t \<longleftrightarrow> (\<exists>j. k = Suc j \<and> (j = 0 \<and> tr_terminal c \<or> j \<in> held ps c))" for k
    using Some by (cases k; cases "k - 1") (auto simp: held_def)
  then show ?thesis
    using Some by auto
qed

lemma held_finite: "finite (held ps t)"
  by (rule finite_subset [of _ "{..length ps}"]) (auto simp: held_def)

lemma held_pos: "held ps t \<noteq> {} \<Longrightarrow> 0 < Max (held ps t)"
  using Max_in [OF held_finite, of ps t] by (simp add: held_def)

lemma last_terminal_held:
  "last_terminal ps i best t = (if held ps t = {} then best else Some (i + Max (held ps t) - 1))"
proof (induction ps arbitrary: i best t)
  case Nil
  then show ?case by (simp add: held_def)
next
  case (Cons p ps)
  show ?case
  proof (cases "map_of (tr_children t) p")
    case None
    then show ?thesis by (simp add: held_Cons)
  next
    case (Some c)
    have Suc_Max: "held ps c \<noteq> {} \<Longrightarrow> Max (Suc ` held ps c) = Suc (Max (held ps c))"
      using held_finite [of ps c] by (simp add: mono_Max_commute mono_Suc)
    show ?thesis
      using Some Cons.IH [of "Suc i"] held_finite [of ps c] held_pos [of ps c] Suc_Max by (auto simp: held_Cons)
  qed
qed

subsection \<open>Properties\<close>

text \<open>C28: A trie contains exactly the names added to it, and \<open>prefix_name\<close> returns the longest prefix of a
  name, by segments, that was added, and \<open>/name\<close> when there is none.\<close>

theorem name_trie_spec:
  "nt_contains (trie_of names) name = (split_name name \<in> set (map split_name names)) \<and>
   (let ks = {k. 0 < k \<and> k \<le> length (split_name name) \<and> take k (split_name name) \<in> set (map split_name names)}
    in nt_prefix_name (trie_of names) name =
         (if ks = {} then ''/name'' else ''/'' @ join_slash (take (Max ks) (split_name name))))"
proof -
  let ?ps = "split_name name" and ?t = "trie_of names"
  have ks: "{k. 0 < k \<and> k \<le> length ?ps \<and> take k ?ps \<in> set (map split_name names)} = held ?ps ?t"
    unfolding held_def trie_of_contains ..
  have "nt_prefix_name ?t name = (if held ?ps ?t = {} then ''/name'' else ''/'' @ join_slash (take (Max (held ?ps ?t)) ?ps))"
    using held_pos [of ?ps ?t] by (simp add: nt_prefix_name_def last_terminal_held Let_def)
  then show ?thesis
    unfolding ks Let_def by (simp only: nt_contains_def trie_of_contains simp_thms)
qed

end
