(* ===== verification/Quote.thy ===== *)
theory Quote
  imports Rust_Strings
begin

text \<open>
  \<open>mangle-parse/src/quote.rs\<close>: string and byte literals.  A string is its UTF-8 bytes; \<open>chars\<close> decodes
  them, and the code mixes indexes of characters and of bytes, which the model keeps apart.
\<close>

subsection \<open>Characters of a string\<close>

definition code_point :: "char \<Rightarrow> string \<Rightarrow> nat" where
  "code_point lead conts =
     (if conts = [] then of_char lead
      else foldl (\<lambda>acc b. acc * 64 + of_char b mod 64) (of_char lead mod 2 ^ (6 - length conts)) conts)"

function chars :: "string \<Rightarrow> nat list" where
  "chars [] = []"
| "chars (c # cs) = code_point c (takeWhile is_cont_byte cs) # chars (dropWhile is_cont_byte cs)"
  by pat_completeness auto
termination
  by (relation "measure length") (auto simp: less_Suc_eq_le length_dropWhile_le)

declare chars.simps [simp del]

definition nth_char :: "string \<Rightarrow> nat \<Rightarrow> nat result" where
  "nth_char s i = index_list (chars s) i"

definition encode_utf8 :: "nat \<Rightarrow> string" where
  "encode_utf8 n =
     map char_of
       (if n < 128 then [n]
        else if n < 2048 then [192 + n div 64, 128 + n mod 64]
        else if n < 65536 then [224 + n div 4096, 128 + n div 64 mod 64, 128 + n mod 64]
        else [240 + n div 262144, 128 + n div 4096 mod 64, 128 + n div 64 mod 64, 128 + n mod 64])"

definition from_u32 :: "nat \<Rightarrow> nat option" where
  "from_u32 n = (if 55296 \<le> n \<and> n < 57344 \<or> 1114111 < n then None else Some n)"

text \<open>\<open>String::from_utf8\<close>: well-formed sequences, none overlong, no surrogates.\<close>

fun valid_utf8 :: "nat list \<Rightarrow> bool" where
  "valid_utf8 [] = True"
| "valid_utf8 (a # r) =
     (if a < 128 then valid_utf8 r
      else case r of
        b # r2 \<Rightarrow>
          if 194 \<le> a \<and> a < 224 then 128 \<le> b \<and> b < 192 \<and> valid_utf8 r2
          else (case r2 of
            c # r3 \<Rightarrow>
              if 224 \<le> a \<and> a < 240
              then (if a = 224 then 160 else 128) \<le> b \<and> b < (if a = 237 then 160 else 192) \<and> 128 \<le> c \<and> c < 192 \<and> valid_utf8 r3
              else (case r3 of
                d # r4 \<Rightarrow>
                  240 \<le> a \<and> a < 245 \<and> (if a = 240 then 144 else 128) \<le> b \<and> b < (if a = 244 then 144 else 192) \<and>
                  128 \<le> c \<and> c < 192 \<and> 128 \<le> d \<and> d < 192 \<and> valid_utf8 r4
              | [] \<Rightarrow> False)
          | [] \<Rightarrow> False)
      | [] \<Rightarrow> False)"

text \<open>\<open>u32::from_str_radix(s, 16)\<close> on at most eight digits: a sign \<open>+\<close> is allowed.\<close>

definition hex_digit :: "char \<Rightarrow> nat option" where
  "hex_digit c =
     (let n = of_char c :: nat
      in if 48 \<le> n \<and> n < 58 then Some (n - 48)
         else if 97 \<le> n \<and> n < 103 then Some (n - 87)
         else if 65 \<le> n \<and> n < 71 then Some (n - 55) else None)"

fun hex_val :: "nat \<Rightarrow> string \<Rightarrow> nat option" where
  "hex_val acc [] = Some acc"
| "hex_val acc (c # cs) = (case hex_digit c of None \<Rightarrow> None | Some d \<Rightarrow> hex_val (acc * 16 + d) cs)"

definition parse_hex :: "string \<Rightarrow> nat option" where
  "parse_hex s =
     (let ds = (case s of c # cs \<Rightarrow> if c = CHR ''+'' then cs else s | [] \<Rightarrow> s)
      in if ds = [] then None else hex_val 0 ds)"

subsection \<open>Unquoting\<close>

datatype decoded_sequence = DString string | DBytes string

text \<open>\<open>unesc\<close>: the characters of one-letter escapes, by code point.\<close>

definition unesc :: "nat \<Rightarrow> nat option" where
  "unesc c = map_of
     [(97, 7), (98, 8), (102, 12), (110, 10), (114, 13), (116, 9), (118, 11), (92, 92), (39, 39), (34, 34)] c"

definition slice_from :: "string \<Rightarrow> nat \<Rightarrow> string result" where
  "slice_from s i = str_slice s i (length s)"

text \<open>The second and third digit of an octal escape: the guard reads the character at position \<open>i\<close> of what
  is left, and panics when there is none.\<close>

fun octal_more :: "nat list \<Rightarrow> string \<Rightarrow> nat \<Rightarrow> (nat \<times> string) result" where
  "octal_more [] q n = Inr (n, q)"
| "octal_more (i # is) q n =
     (if q = [] then Inr (n, q)
      else bindR (nth_char q i) (\<lambda>ci. bindR (nth_char q 0) (\<lambda>c0.
        if ci < 48 \<or> 55 < c0 then Inr (n, q)
        else if c0 < 48 then Inl Panic
        else bindR (slice_from q 1) (\<lambda>q'. octal_more is q' (n * 8 + (c0 - 48))))))"

text \<open>One escape sequence at the start of \<open>q\<close>, whose first character is skipped: the bytes it stands for and
  what is left.\<close>

definition octal_escape :: "bool \<Rightarrow> nat \<Rightarrow> string \<Rightarrow> (string \<times> string) result" where
  "octal_escape is_byte c q =
     bindR (slice_from q 2) (\<lambda>q1. bindR (octal_more [1, 2] q1 (c - 48)) (\<lambda>(n, q2).
       if \<not> is_byte \<and> 127 < n then Inl (Anyhow ''non-ASCII octal escape '')
       else if 256 \<le> n then Inl (Anyhow ''invalid escape sequence '')
       else Inr ([char_of (0::nat)], q2)))"

definition hex_escape :: "bool \<Rightarrow> string \<Rightarrow> (string \<times> string) result" where
  "hex_escape is_byte q =
     (if length q < 4 then Inl (Anyhow ''truncated escape sequence '')
      else bindR (str_slice q 2 4) (\<lambda>h.
        case parse_hex h of
          None \<Rightarrow> Inl (Anyhow ''could not parse unicode codepoint '')
        | Some n \<Rightarrow>
            if \<not> is_byte \<and> 127 < n then Inl (Anyhow ''non-ASCII hex escape '')
            else (case from_u32 n of
                    None \<Rightarrow> Inl (Anyhow ''invalid Unicode code point U'')
                  | Some ch \<Rightarrow> bindR (slice_from q 4) (\<lambda>q'. Inr (encode_utf8 ch, q')))))"

definition unicode_escape :: "nat \<Rightarrow> string \<Rightarrow> (string \<times> string) result" where
  "unicode_escape sz q =
     (if length q < sz then Inl (Anyhow ''truncated escape sequence '')
      else bindR (str_slice q 2 sz) (\<lambda>h.
        case parse_hex h of
          None \<Rightarrow> Inl (Anyhow ''failed to parse unicode code point: '')
        | Some n \<Rightarrow>
            if 55296 \<le> n \<and> n < 57344 then Inl (Anyhow ''invalid Unicode code point U'')
            else if 1114111 < n then Inl (Anyhow ''code point out of range: '')
            else (case from_u32 n of
                    None \<Rightarrow> Inl (Anyhow ''invalid Unicode code point U'')
                  | Some ch \<Rightarrow> bindR (slice_from q sz) (\<lambda>q'. Inr (encode_utf8 ch, q')))))"

definition escape_sequence :: "bool \<Rightarrow> string \<Rightarrow> (string \<times> string) result" where
  "escape_sequence is_byte q =
     (if length q = 1 then Inl (Anyhow ''truncated escape sequence '')
      else case (if 1 < length (chars q) then Some (chars q ! 1) else None) of
        None \<Rightarrow> Inl (Anyhow ''invalid escape sequence '')
      | Some c \<Rightarrow>
          if c = 10 then bindR (slice_from q 2) (\<lambda>q'. Inr ([], q'))
          else (case unesc c of
            Some b \<Rightarrow> bindR (slice_from q 2) (\<lambda>q'. Inr ([char_of b], q'))
          | None \<Rightarrow>
              if 48 \<le> c \<and> c < 56 then octal_escape is_byte c q
              else if c = 120 then hex_escape is_byte q
              else if c = 117 then unicode_escape 6 q
              else if c = 85 then unicode_escape 10 q
              else Inl (Anyhow ''invalid escape sequence '')))"

definition starts_escape :: "bool \<Rightarrow> nat \<Rightarrow> bool" where
  "starts_escape raw c \<longleftrightarrow> c = 13 \<or> \<not> raw \<and> c = 92"

definition as_u8 :: "nat list \<Rightarrow> string" where
  "as_u8 cs = map (\<lambda>c. char_of (c mod 256)) cs"

text \<open>One turn of the loop: the plain text before the next escape and the escape; the position is counted in
  characters and used as an index of bytes.  \<open>None\<close> is the end of the loop.\<close>

definition unquote_turn :: "bool \<Rightarrow> bool \<Rightarrow> string \<Rightarrow> (string \<times> string option) result" where
  "unquote_turn raw is_byte q =
     (let i = length (takeWhile (\<lambda>c. \<not> starts_escape raw c) (chars q))
      in if i = length (chars q) then Inr (as_u8 (chars q), None)
         else bindR (str_slice q 0 i) (\<lambda>pre. bindR (slice_from q i) (\<lambda>q1.
           if starts_with q1 [char_of (13::nat)]
           then bindR (if 1 < length q1 \<and> 1 < length (chars q1) \<and> chars q1 ! 1 = 10 then slice_from q1 2 else slice_from q1 1) (\<lambda>q2.
                  Inr (as_u8 (chars pre) @ [char_of (10::nat)], Some q2))
           else bindR (escape_sequence is_byte q1) (\<lambda>(out, q2). Inr (as_u8 (chars pre) @ out, Some q2)))))"

fun unquote_loop :: "nat \<Rightarrow> bool \<Rightarrow> bool \<Rightarrow> string \<Rightarrow> string \<Rightarrow> string result" where
  "unquote_loop 0 raw is_byte buf q = Inl Panic"
| "unquote_loop (Suc n) raw is_byte buf q =
     bindR (unquote_turn raw is_byte q) (\<lambda>(out, rest).
       case rest of None \<Rightarrow> Inr (buf @ out) | Some q' \<Rightarrow> unquote_loop n raw is_byte (buf @ out) q')"

definition unquote_body :: "bool \<Rightarrow> bool \<Rightarrow> string \<Rightarrow> decoded_sequence result" where
  "unquote_body raw is_byte q =
     (if \<not> list_ex (starts_escape raw) (chars q) then Inr (if is_byte then DBytes q else DString q)
      else bindR (unquote_loop (Suc (length q)) raw is_byte [] q) (\<lambda>buf.
        if is_byte then Inr (DBytes buf)
        else if valid_utf8 (map of_char buf) then Inr (DString buf)
        else Inl (Anyhow ''invalid utf-8 sequence'')))"

definition strip_quotes :: "string \<Rightarrow> string result" where
  "strip_quotes q =
     (if length q < 2 then Inl (Anyhow ''string literal too short'')
      else bindR (nth_char q 0) (\<lambda>first.
        if first \<noteq> 34 \<and> first \<noteq> 39 \<or> first \<noteq> last (chars q) then Inl (Anyhow ''string literal  has invalid quotes'')
        else if 6 \<le> length q
        then bindR (nth_char q 1) (\<lambda>c1.
             if c1 \<noteq> first then str_slice q 1 (length q - 1)
             else bindR (nth_char q 2) (\<lambda>c2.
               if c2 \<noteq> first then str_slice q 1 (length q - 1)
               else bindR (str_slice q 0 3) (\<lambda>a. bindR (slice_from q (length q - 3)) (\<lambda>b.
                 if a = b then str_slice q 3 (length q - 3) else str_slice q 1 (length q - 1)))))
        else str_slice q 1 (length q - 1)))"

definition unquote :: "string \<Rightarrow> decoded_sequence result" where
  "unquote quoted =
     (let raw = starts_with quoted ''r'';
          q1 = (if raw then tl quoted else quoted);
          is_byte = starts_with q1 ''b'';
          q2 = (if is_byte then tl q1 else q1)
      in bindR (strip_quotes q2) (unquote_body raw is_byte))"

subsection \<open>Quoting\<close>

text \<open>\<open>char::escape_default\<close>.\<close>

fun show_hex :: "nat \<Rightarrow> string" where
  "show_hex n = (if n < 16 then [''0123456789abcdef'' ! n] else show_hex (n div 16) @ [''0123456789abcdef'' ! (n mod 16)])"

declare show_hex.simps [simp del]

definition escape_default :: "nat \<Rightarrow> string" where
  "escape_default c =
     (if c = 9 then [CHR 0x5C, CHR ''t''] else if c = 13 then [CHR 0x5C, CHR ''r''] else if c = 10 then [CHR 0x5C, CHR ''n'']
      else if c \<in> {39, 34, 92} then [CHR 0x5C, char_of c]
      else if 32 \<le> c \<and> c < 127 then [char_of c]
      else [CHR 0x5C, CHR ''u'', CHR 0x7B] @ show_hex c @ [CHR 0x7D])"

definition quote_char :: "nat \<Rightarrow> string" where
  "quote_char c = (if c = 39 then [char_of c] else escape_default c)"

definition quote :: "string \<Rightarrow> string" where
  "quote s = [CHR 0x22] @ concat (map quote_char (chars s)) @ [CHR 0x22]"

end
