(* ===== verification/Scanner.thy ===== *)
theory Scanner
  imports Quote Civil_Time
begin

text \<open>
  \<open>mangle-parse/src/scan.rs\<close>, \<open>token.rs\<close> and \<open>error.rs\<close>: from bytes to tokens.  The reader is the list of
  what its byte iterator yields, bytes or read errors; a character is its code point, and \<open>cp\<close> writes the
  code point of a character literal.  The two pushback slots, the position and the text buffer are fields of
  the state, and every method is a function on it; after an error the state is dropped.  Loops recurse, and
  end because \<open>scanner_size\<close>, what is left to read, goes down.  Reading and printing \<open>f64\<close> are parameters.
\<close>

abbreviation cp :: "char \<Rightarrow> nat" where
  "cp c \<equiv> of_char c"

subsection \<open>Tokens\<close>

datatype token =
    TkIllegal | TkEof
  | TkName string | TkDotIdent string | TkIdent string | TkInt i64 | TkFloat f64
  | TkString string | TkBytes string | TkTimestamp i64 | TkDuration i64
  | TkSemi | TkPackage | TkDecl | TkUse | TkBound | TkDescr | TkInclusion | TkLet | TkDo
  | TkLParen | TkRParen | TkLBracket | TkRBracket | TkLBrace | TkRBrace
  | TkColon | TkColonDash | TkEq | TkBang | TkBangEq | TkComma
  | TkLt | TkLe | TkGt | TkGe | TkPipe | TkPipeGt | TkDot | TkAt | TkLongLeftDoubleArrow

text \<open>What the scanner and the error messages take from the platform.\<close>

record lit_env =
  le_parse_f64 :: "string \<Rightarrow> f64 option"
  le_show_f64 :: "f64 \<Rightarrow> string"

text \<open>\<open>{:?}\<close> of a \<open>Vec<u8>\<close>.\<close>

fun join_with :: "string \<Rightarrow> string list \<Rightarrow> string" where
  "join_with sep [] = []"
| "join_with sep [s] = s"
| "join_with sep (s # ss) = s @ sep @ join_with sep ss"

definition debug_bytes :: "string \<Rightarrow> string" where
  "debug_bytes bs = ''['' @ join_with '', '' (map (\<lambda>b. show_nat (of_char b)) bs) @ '']''"

definition long_arrow :: nat where
  "long_arrow = 0x27F8"

fun token_display :: "lit_env \<Rightarrow> token \<Rightarrow> string" where
  "token_display E TkIllegal = ''illegal''"
| "token_display E TkEof = ''eof''"
| "token_display E TkPackage = ''Package''"
| "token_display E TkDecl = ''Decl''"
| "token_display E (TkName name) = name"
| "token_display E (TkDotIdent name) = ''.'' @ name"
| "token_display E (TkIdent name) = name"
| "token_display E (TkInt decoded) = show_int (sint decoded)"
| "token_display E (TkFloat decoded) = le_show_f64 E decoded"
| "token_display E (TkString decoded) = quote decoded"
| "token_display E (TkBytes decoded) = debug_bytes decoded"
| "token_display E (TkTimestamp nanos) = ''timestamp('' @ show_int (sint nanos) @ '')''"
| "token_display E (TkDuration nanos) = ''duration('' @ show_int (sint nanos) @ '')''"
| "token_display E TkSemi = '';''"
| "token_display E TkUse = ''Use''"
| "token_display E TkLParen = ''(''"
| "token_display E TkRParen = '')''"
| "token_display E TkLBrace = [CHR 0x7B]"
| "token_display E TkRBrace = [CHR 0x7D]"
| "token_display E TkColon = [CHR 0x3A]"
| "token_display E TkColonDash = [CHR 0x3A, CHR ''-'']"
| "token_display E TkPipe = ''|''"
| "token_display E TkPipeGt = ''|>''"
| "token_display E TkBound = ''bound''"
| "token_display E TkInclusion = ''inclusion''"
| "token_display E TkDescr = ''descr''"
| "token_display E TkLet = ''let''"
| "token_display E TkDo = ''do''"
| "token_display E TkLBracket = ''[''"
| "token_display E TkRBracket = '']''"
| "token_display E TkEq = ''=''"
| "token_display E TkBang = ''!''"
| "token_display E TkBangEq = ''!=''"
| "token_display E TkComma = '',''"
| "token_display E TkLt = ''<''"
| "token_display E TkLe = ''<=''"
| "token_display E TkGt = ''>''"
| "token_display E TkGe = ''<=''"
| "token_display E TkDot = ''.''"
| "token_display E TkAt = ''@''"
| "token_display E TkLongLeftDoubleArrow = encode_utf8 long_arrow"

subsection \<open>The state\<close>

record scanner =
  sc_iter :: "(rerror + char) list"
  sc_ch :: "nat option"
  sc_ch2 :: "nat option"
  sc_line :: nat
  sc_col :: nat
  sc_start_of_line :: nat
  sc_text :: string
  sc_path :: string

definition scanner_new :: "(rerror + char) list \<Rightarrow> string \<Rightarrow> scanner" where
  "scanner_new reader path =
     \<lparr>sc_iter = reader, sc_ch = None, sc_ch2 = None, sc_line = 1, sc_col = 0, sc_start_of_line = 0,
      sc_text = [], sc_path = path\<rparr>"

record error_context =
  ec_path :: string
  ec_line :: nat
  ec_col :: nat
  ec_start_of_line :: nat

definition get_error_context :: "scanner \<Rightarrow> error_context" where
  "get_error_context s =
     \<lparr>ec_path = sc_path s, ec_line = sc_line s, ec_col = sc_col s, ec_start_of_line = sc_start_of_line s\<rparr>"

definition context_display :: "error_context \<Rightarrow> string" where
  "context_display c = ec_path c @ [CHR 0x3A] @ show_nat (ec_line c) @ [CHR 0x3A] @ show_nat (ec_col c)"

definition incomplete_utf8 :: "error_context \<Rightarrow> rerror" where
  "incomplete_utf8 c = Anyhow (context_display c @ [CHR 0x3A] @ '' incomplete UTF8'')"

definition unexpected_char :: "error_context \<Rightarrow> nat \<Rightarrow> rerror" where
  "unexpected_char c ch =
     Anyhow (context_display c @ [CHR 0x3A] @ '' unexpected character '' @ [CHR 0x60] @ encode_utf8 ch @ [CHR 0x60])"

definition unexpected_token :: "lit_env \<Rightarrow> error_context \<Rightarrow> token \<Rightarrow> token \<Rightarrow> rerror" where
  "unexpected_token E c wanted got =
     Anyhow (context_display c @ [CHR 0x3A] @ '' expected '' @ [CHR 0x60] @ token_display E wanted @ [CHR 0x60]
             @ '' got '' @ [CHR 0x60] @ token_display E got @ [CHR 0x60])"

definition scanner_size :: "scanner \<Rightarrow> nat" where
  "scanner_size s = length (sc_iter s) + (if sc_ch s = None then 0 else 1) + (if sc_ch2 s = None then 0 else 1)"

definition clear_text :: "scanner \<Rightarrow> scanner" where
  "clear_text s = s\<lparr>sc_text := []\<rparr>"

definition push_text :: "nat \<Rightarrow> scanner \<Rightarrow> scanner" where
  "push_text c s = s\<lparr>sc_text := sc_text s @ encode_utf8 c\<rparr>"

subsection \<open>Characters\<close>

definition next_byte :: "scanner \<Rightarrow> (char option \<times> scanner) result" where
  "next_byte s =
     (case sc_iter s of
        [] \<Rightarrow> Inr (None, s)
      | Inl e # bs \<Rightarrow> Inl e
      | Inr b # bs \<Rightarrow>
          if b = CHR 0x0A
          then Inr (Some b, s\<lparr>sc_iter := bs, sc_start_of_line := sc_start_of_line s + (sc_col s + 1),
                              sc_line := sc_line s + 1, sc_col := 0\<rparr>)
          else Inr (Some b, s\<lparr>sc_iter := bs, sc_col := sc_col s + 1\<rparr>))"

definition next_byte_or_incomplete :: "scanner \<Rightarrow> (char \<times> scanner) result" where
  "next_byte_or_incomplete s =
     bindR (next_byte s) (\<lambda>(b, s').
       case b of None \<Rightarrow> Inl (incomplete_utf8 (get_error_context s')) | Some b \<Rightarrow> Inr (b, s'))"

definition first_of_utf8 :: "string \<Rightarrow> nat option result" where
  "first_of_utf8 bs =
     (if valid_utf8 (map of_char bs) then Inr (case chars bs of [] \<Rightarrow> None | c # _ \<Rightarrow> Some c)
      else Inl (Anyhow ''invalid utf-8 sequence''))"

definition read_char_from_iter :: "scanner \<Rightarrow> (nat option \<times> scanner) result" where
  "read_char_from_iter s =
     bindR (next_byte s) (\<lambda>(b, s1).
       case b of
         None \<Rightarrow> Inr (None, s1)
       | Some b1 \<Rightarrow>
           let n = (of_char b1 :: nat) in
           if n \<le> 0x7F then Inr (Some n, s1)
           else if 0xC0 \<le> n \<and> n \<le> 0xDF
           then bindR (next_byte_or_incomplete s1) (\<lambda>(b2, s2).
                bindR (first_of_utf8 [b1, b2]) (\<lambda>c. Inr (c, s2)))
           else if 0xE0 \<le> n \<and> n \<le> 0xEF
           then bindR (next_byte_or_incomplete s1) (\<lambda>(b2, s2).
                bindR (next_byte_or_incomplete s2) (\<lambda>(b3, s3).
                bindR (first_of_utf8 [b1, b2, b3]) (\<lambda>c. Inr (c, s3))))
           else if 0xF0 \<le> n \<and> n \<le> 0xF4
           then bindR (next_byte_or_incomplete s1) (\<lambda>(b2, s2).
                bindR (next_byte_or_incomplete s2) (\<lambda>(b3, s3).
                bindR (next_byte_or_incomplete s3) (\<lambda>(b4, s4).
                bindR (first_of_utf8 [b1, b2, b3, b4]) (\<lambda>c. Inr (c, s4)))))
           else Inl (Anyhow ''invalid utf8''))"

definition next_char :: "scanner \<Rightarrow> (nat option \<times> scanner) result" where
  "next_char s =
     (case sc_ch s of
        Some c \<Rightarrow> Inr (Some c, s\<lparr>sc_ch := sc_ch2 s, sc_ch2 := None\<rparr>)
      | None \<Rightarrow> read_char_from_iter s)"

definition peek :: "scanner \<Rightarrow> (nat option \<times> scanner) result" where
  "peek s =
     (if sc_ch s = None
      then bindR (read_char_from_iter s) (\<lambda>(c, s'). Inr (c, s'\<lparr>sc_ch := c\<rparr>))
      else Inr (sc_ch s, s))"

definition peek_second :: "scanner \<Rightarrow> (nat option \<times> scanner) result" where
  "peek_second s =
     bindR (peek s) (\<lambda>(_, s1).
       if sc_ch s1 = None then Inr (None, s1)
       else if sc_ch2 s1 = None
       then bindR (read_char_from_iter s1) (\<lambda>(c, s2). Inr (c, s2\<lparr>sc_ch2 := c\<rparr>))
       else Inr (sc_ch2 s1, s1))"

subsection \<open>What is left to read\<close>

lemma next_byte_size: "next_byte s = Inr (b, s') \<Longrightarrow> scanner_size s' \<le> scanner_size s \<and> (b \<noteq> None \<longrightarrow> scanner_size s' < scanner_size s)
    \<and> sc_ch s' = sc_ch s \<and> sc_ch2 s' = sc_ch2 s"
  by (auto simp: next_byte_def scanner_size_def split: list.splits sum.splits if_splits)

lemma next_byte_or_incomplete_size: "next_byte_or_incomplete s = Inr (b, s') \<Longrightarrow>
    scanner_size s' \<le> scanner_size s \<and> sc_ch s' = sc_ch s \<and> sc_ch2 s' = sc_ch2 s"
  by (auto simp: next_byte_or_incomplete_def dest!: next_byte_size split: option.splits)

definition rest_of :: "scanner \<Rightarrow> scanner \<Rightarrow> bool" where
  "rest_of s s' \<longleftrightarrow> sc_ch s' = sc_ch s \<and> sc_ch2 s' = sc_ch2 s \<and> scanner_size s' \<le> scanner_size s"

lemma rest_of_trans: "rest_of s t \<Longrightarrow> rest_of t u \<Longrightarrow> rest_of s u"
  by (simp add: rest_of_def)

lemma read_char_cases:
  assumes "read_char_from_iter s = Inr (c, s')"
  obtains "c = None" "next_byte s = Inr (None, s')"
  | b s1 where "next_byte s = Inr (Some b, s1)" "rest_of s1 s'"
proof -
  obtain b s1 where b: "next_byte s = Inr (b, s1)"
    using assms by (auto simp: read_char_from_iter_def)
  note inc = next_byte_or_incomplete_size [folded rest_of_def]
  show thesis
  proof (cases b)
    case None
    then show thesis
      using that(1) assms b by (simp add: read_char_from_iter_def)
  next
    case (Some b1)
    have "rest_of s1 s'"
      using assms unfolding read_char_from_iter_def b Some
      by (auto simp: Let_def rest_of_def split: if_splits dest!: next_byte_or_incomplete_size)
    then show thesis
      using that(2) b Some by blast
  qed
qed

lemma read_char_size:
  assumes "read_char_from_iter s = Inr (c, s')"
  shows "sc_ch s' = sc_ch s" "sc_ch2 s' = sc_ch2 s" "scanner_size s' \<le> scanner_size s" "c \<noteq> None \<Longrightarrow> scanner_size s' < scanner_size s"
  using assms by (rule read_char_cases; use next_byte_size in \<open>force simp: rest_of_def\<close>)+

lemma next_char_size: "next_char s = Inr (c, s') \<Longrightarrow> scanner_size s' \<le> scanner_size s \<and> (c \<noteq> None \<longrightarrow> scanner_size s' < scanner_size s)"
  by (auto simp: next_char_def scanner_size_def dest: read_char_size split: option.splits)

lemma peek_size:
  assumes "peek s = Inr (c, s')"
  shows "sc_ch s' = c" "scanner_size s' \<le> scanner_size s"
proof -
  have "sc_ch s' = c \<and> scanner_size s' \<le> scanner_size s"
  proof (cases "sc_ch s")
    case None
    then obtain s1 where r: "read_char_from_iter s = Inr (c, s1)" and s': "s' = s1\<lparr>sc_ch := c\<rparr>"
      using assms by (auto simp: peek_def)
    show ?thesis
      using read_char_size [OF r] None by (auto simp: s' scanner_size_def)
  next
    case (Some a)
    then show ?thesis
      using assms by (auto simp: peek_def)
  qed
  then show "sc_ch s' = c" "scanner_size s' \<le> scanner_size s"
    by blast+
qed

lemma text_size [simp]: "scanner_size (push_text c s) = scanner_size s" "scanner_size (clear_text s) = scanner_size s"
  by (simp_all add: push_text_def clear_text_def scanner_size_def)

lemma peek_next_size:
  assumes "peek s = Inr (Some c, s1)" "next_char s1 = Inr (x, s2)"
  shows "scanner_size s2 < scanner_size s"
proof -
  have "sc_ch s1 = Some c" "scanner_size s1 \<le> scanner_size s"
    using peek_size [OF assms(1)] by auto
  then show ?thesis
    using assms(2) next_char_size [OF assms(2)] by (auto simp: next_char_def)
qed

lemma peek_second_next_size:
  assumes "peek s = Inr (Some c, s1)" "peek_second s1 = Inr (d, s2)" "next_char s2 = Inr (x, s3)"
  shows "scanner_size s3 < scanner_size s"
proof -
  have 1: "sc_ch s1 = Some c" "scanner_size s1 \<le> scanner_size s"
    using peek_size [OF assms(1)] by auto
  have "sc_ch s2 = Some c \<and> scanner_size s2 \<le> scanner_size s1"
  proof (cases "sc_ch2 s1")
    case None
    then obtain t where r: "read_char_from_iter s1 = Inr (d, t)" and s2: "s2 = t\<lparr>sc_ch2 := d\<rparr>"
      using assms(2) 1(1) by (auto simp: peek_second_def peek_def)
    show ?thesis
      using read_char_size [OF r] None 1(1) by (auto simp: s2 scanner_size_def)
  qed (use assms(2) 1(1) in \<open>auto simp: peek_second_def peek_def\<close>)
  then show ?thesis
    using 1 assms(3) next_char_size [OF assms(3)] by (auto simp: next_char_def)
qed

subsection \<open>Blanks and comments\<close>

function skip_line :: "scanner \<Rightarrow> scanner result" where
  "skip_line s =
     bindR (next_byte s) (\<lambda>(b, s').
       case b of None \<Rightarrow> Inr s' | Some b \<Rightarrow> if b = CHR 0x0A then Inr s' else skip_line s')"
  by pat_completeness auto
termination
  by (relation "measure scanner_size") (auto dest: next_byte_size)

declare skip_line.simps [simp del]

lemma skip_line_size: "skip_line s = Inr s' \<Longrightarrow> scanner_size s' \<le> scanner_size s"
proof (induction s rule: skip_line.induct)
  case (1 s)
  then obtain b s1 where b: "next_byte s = Inr (b, s1)"
    by (auto simp: skip_line.simps [of s])
  show ?case
  proof (cases "b = None \<or> b = Some CHR 0x0A")
    case True
    then show ?thesis
      using 1(2) next_byte_size [OF b] b by (auto simp: skip_line.simps [of s])
  next
    case False
    then obtain x where x: "b = Some x" "x \<noteq> CHR 0x0A"
      by auto
    then have "skip_line s1 = Inr s'"
      using 1(2) b by (simp add: skip_line.simps [of s])
    then show ?thesis
      using 1(1) [OF b refl x] next_byte_size [OF b] by linarith
  qed
qed

function next_char_skip :: "scanner \<Rightarrow> (nat option \<times> scanner) result" where
  "next_char_skip s =
     bindR (next_char s) (\<lambda>(c, s').
       case c of
         Some ch \<Rightarrow>
           if ch = cp (CHR '' '') \<or> ch = cp (CHR 0x09) \<or> ch = cp (CHR 0x0A) then next_char_skip s'
           else if ch = cp (CHR ''#'') then bindR (skip_line s') next_char_skip
           else Inr (c, s')
       | None \<Rightarrow> Inr (c, s'))"
  by pat_completeness auto
termination
  by (relation "measure scanner_size") (auto dest!: next_char_size dest: skip_line_size)

declare next_char_skip.simps [simp del]

subsection \<open>Identifiers, names and strings\<close>

definition in_range :: "nat \<Rightarrow> char \<Rightarrow> char \<Rightarrow> bool" where
  "in_range c a b \<longleftrightarrow> cp a \<le> c \<and> c \<le> cp b"

definition is_digit :: "nat \<Rightarrow> bool" where
  "is_digit c \<longleftrightarrow> in_range c CHR ''0'' CHR ''9''"

definition is_ident_start :: "nat \<Rightarrow> bool" where
  "is_ident_start c \<longleftrightarrow> in_range c CHR ''a'' CHR ''z'' \<or> in_range c CHR ''A'' CHR ''Z'' \<or> c = cp (CHR ''_'')"

definition is_ident :: "nat \<Rightarrow> bool" where
  "is_ident c \<longleftrightarrow>
     in_range c CHR ''a'' CHR ''z'' \<or> in_range c CHR ''A'' CHR ''Z'' \<or> is_digit c \<or> c = cp (CHR ''_'')"

definition is_name_char :: "nat \<Rightarrow> bool" where
  "is_name_char c \<longleftrightarrow>
     in_range c CHR ''a'' CHR ''z'' \<or> in_range c CHR ''A'' CHR ''Z'' \<or> is_digit c \<or>
     c = cp (CHR ''_'') \<or> c = cp (CHR ''~'') \<or> c = cp (CHR ''.'') \<or> c = cp (CHR ''%'')"

type_synonym 'a scan = "('a \<times> scanner) result"

function builtin_loop :: "scanner \<Rightarrow> scanner result" where
  "builtin_loop s =
     bindR (peek s) (\<lambda>(c, s1).
       case c of
         Some ch \<Rightarrow> if is_ident ch \<or> ch = cp (CHR 0x3A)
                    then bindR (next_char s1) (\<lambda>(_, s2). builtin_loop (push_text ch s2)) else Inr s1
       | None \<Rightarrow> Inr s1)"
  by pat_completeness auto
termination
  by (relation "measure scanner_size") (auto dest: peek_next_size)

declare builtin_loop.simps [simp del]

definition builtin_predicate :: "scanner \<Rightarrow> token scan" where
  "builtin_predicate s =
     bindR (builtin_loop (push_text (cp (CHR 0x3A)) (clear_text s))) (\<lambda>s'. Inr (TkIdent (sc_text s'), s'))"

function name_loop :: "bool \<Rightarrow> scanner \<Rightarrow> (bool \<times> scanner) result" where
  "name_loop seen_char s =
     bindR (peek s) (\<lambda>(c, s1).
       case c of
         Some ch \<Rightarrow>
           if is_name_char ch then bindR (next_char s1) (\<lambda>(_, s2). name_loop True (push_text ch s2))
           else if ch = cp (CHR ''/'')
           then bindR (next_char s1) (\<lambda>(_, s2).
                  if \<not> seen_char then Inl (Anyhow ''name constant: expected char after '')
                  else name_loop False (push_text ch s2))
           else Inr (seen_char, s1)
       | None \<Rightarrow> Inr (seen_char, s1))"
  by pat_completeness auto
termination
  by (relation "measure (\<lambda>(_, s). scanner_size s)") (auto dest: peek_next_size)

declare name_loop.simps [simp del]

definition scan_name :: "scanner \<Rightarrow> token scan" where
  "scan_name s =
     bindR (name_loop False (push_text (cp (CHR ''/'')) (clear_text s))) (\<lambda>(seen_char, s').
       if \<not> seen_char then Inl (Anyhow ''name constant: expected name char after '')
       else Inr (TkName (sc_text s'), s'))"

text \<open>The two loops over the text of a string differ in what the end of the input means.\<close>

function long_string_loop :: "scanner \<Rightarrow> scanner result" where
  "long_string_loop s =
     bindR (next_char s) (\<lambda>(c, s').
       case c of
         Some ch \<Rightarrow> if ch = cp (CHR 0x60) then Inr s' else long_string_loop (push_text ch s')
       | None \<Rightarrow> Inl (Anyhow ''unterminated backtick string literal''))"
  by pat_completeness auto
termination
  by (relation "measure scanner_size") (auto dest: next_char_size)

declare long_string_loop.simps [simp del]

definition long_string :: "scanner \<Rightarrow> token scan" where
  "long_string s = bindR (long_string_loop (clear_text s)) (\<lambda>s'. Inr (TkString (sc_text s'), s'))"

function string_loop :: "nat \<Rightarrow> scanner \<Rightarrow> scanner result" where
  "string_loop delim s =
     bindR (next_char s) (\<lambda>(c, s').
       case c of Some ch \<Rightarrow> if ch = delim then Inr s' else string_loop delim (push_text ch s') | None \<Rightarrow> Inr s')"
  by pat_completeness auto
termination
  by (relation "measure (\<lambda>(_, s). scanner_size s)") (auto dest: next_char_size)

declare string_loop.simps [simp del]

definition scan_string :: "nat \<Rightarrow> bool \<Rightarrow> scanner \<Rightarrow> token scan" where
  "scan_string delim is_byte s =
     (let s0 = clear_text s;
          s1 = (if is_byte then push_text (cp (CHR ''b'')) s0 else s0)
      in bindR (string_loop delim (push_text delim s1)) (\<lambda>s2.
         let s3 = push_text delim s2 in
         bindR (unquote (sc_text s3)) (\<lambda>d.
           Inr (case d of DString decoded \<Rightarrow> TkString decoded | DBytes decoded \<Rightarrow> TkBytes decoded, s3))))"

subsection \<open>Numbers, timestamps and durations\<close>

text \<open>A dot continues a number only before a digit; the flag says whether there was one.\<close>

function numeric_loop :: "bool \<Rightarrow> scanner \<Rightarrow> (bool \<times> scanner) result" where
  "numeric_loop is_float s =
     bindR (peek s) (\<lambda>(c, s1).
       case c of
         Some ch \<Rightarrow>
           if is_digit ch then bindR (next_char s1) (\<lambda>(_, s2). numeric_loop is_float (push_text ch s2))
           else if ch = cp (CHR ''.'')
           then bindR (peek_second s1) (\<lambda>(d, s2).
                  case d of
                    Some d \<Rightarrow> if is_digit d
                              then bindR (next_char s2) (\<lambda>(_, s3). numeric_loop True (push_text ch s3))
                              else Inr (is_float, s2)
                  | None \<Rightarrow> Inr (is_float, s2))
           else Inr (is_float, s1)
       | None \<Rightarrow> Inr (is_float, s1))"
  by pat_completeness auto
termination
  by (relation "measure (\<lambda>(_, s). scanner_size s)") (auto dest: peek_next_size peek_second_next_size)

declare numeric_loop.simps [simp del]

fun scan_n_digits :: "nat \<Rightarrow> string \<Rightarrow> scanner \<Rightarrow> scanner result" where
  "scan_n_digits 0 ctx s = Inr s"
| "scan_n_digits (Suc n) ctx s =
     bindR (next_char s) (\<lambda>(c, s').
       case c of
         Some ch \<Rightarrow> if is_digit ch then scan_n_digits n ctx (push_text ch s')
                    else Inl (Anyhow (ctx @ [CHR 0x3A] @ '' expected digit, got ''))
       | None \<Rightarrow> Inl (Anyhow (ctx @ [CHR 0x3A] @ '' unexpected end of input'')))"

definition expect_char :: "nat \<Rightarrow> string \<Rightarrow> scanner \<Rightarrow> scanner result" where
  "expect_char expected ctx s =
     bindR (next_char s) (\<lambda>(c, s').
       case c of
         Some ch \<Rightarrow> if ch = expected then Inr (push_text ch s') else Inl (Anyhow (ctx @ [CHR 0x3A] @ '' expected, got ''))
       | None \<Rightarrow> Inl (Anyhow (ctx @ [CHR 0x3A] @ '' expected, got end of input'')))"

function digits_loop :: "scanner \<Rightarrow> scanner result" where
  "digits_loop s =
     bindR (peek s) (\<lambda>(c, s1).
       case c of
         Some ch \<Rightarrow> if is_digit ch then bindR (next_char s1) (\<lambda>(_, s2). digits_loop (push_text ch s2)) else Inr s1
       | None \<Rightarrow> Inr s1)"
  by pat_completeness auto
termination
  by (relation "measure scanner_size") (auto dest: peek_next_size)

declare digits_loop.simps [simp del]

text \<open>\<open>s[a..b].parse()?\<close>\<close>

definition parse_slice :: "(string \<Rightarrow> 'a option) \<Rightarrow> string \<Rightarrow> nat \<Rightarrow> nat \<Rightarrow> 'a result" where
  "parse_slice p s a b =
     bindR (str_slice s a b) (\<lambda>f. case p f of None \<Rightarrow> Inl (Anyhow ''invalid digit found in string'') | Some v \<Rightarrow> Inr v)"

definition timestamp_frac :: "string \<Rightarrow> i64 result" where
  "timestamp_frac s =
     (if 19 < length s \<and> s ! 19 = CHR ''.'' then
        (let end_pos = length s - (if ends_with s ''Z'' then 1 else 0) in
         bindR (str_slice s 20 end_pos) (\<lambda>frac_str.
         parse_slice parse_i64 (frac_str @ replicate (9 - char_count frac_str) CHR ''0'') 0 9))
      else Inr 0)"

definition parse_timestamp_to_nanos :: "string \<Rightarrow> bool \<Rightarrow> i64 result" where
  "parse_timestamp_to_nanos s has_time =
     bindR (parse_slice parse_i64 s 0 4) (\<lambda>year.
     bindR (parse_slice parse_u32 s 5 7) (\<lambda>month.
     bindR (parse_slice parse_u32 s 8 10) (\<lambda>day.
     bindR (if has_time
            then bindR (parse_slice parse_u32 s 11 13) (\<lambda>h.
                 bindR (parse_slice parse_u32 s 14 16) (\<lambda>m.
                 bindR (parse_slice parse_u32 s 17 19) (\<lambda>sec.
                 bindR (timestamp_frac s) (\<lambda>frac. Inr (h, m, sec, frac)))))
            else Inr (0, 0, 0, 0)) (\<lambda>(hour, minute, second, frac_nanos).
       let days = days_of_date year month day;
           total_seconds = days * 86400 + uint hour * 3600 + uint minute * 60 + uint second
       in Inr (word_of_int total_seconds * 1000000000 + frac_nanos)))))"

definition timestamp_fraction :: "scanner \<Rightarrow> scanner result" where
  "timestamp_fraction s =
     bindR (peek s) (\<lambda>(c, s1).
       if c = Some (cp (CHR ''.''))
       then bindR (next_char s1) (\<lambda>(_, s2).
            let s3 = push_text (cp (CHR ''.'')) s2 in
            bindR (digits_loop s3) (\<lambda>s4.
              if length (sc_text s4) = length (sc_text s3) then Inl (Anyhow ''timestamp: expected digits after '') else Inr s4))
       else Inr s1)"

definition timestamp_zulu :: "scanner \<Rightarrow> scanner result" where
  "timestamp_zulu s =
     bindR (peek s) (\<lambda>(c, s1).
       if c = Some (cp (CHR ''Z'')) then bindR (next_char s1) (\<lambda>(_, s2). Inr (push_text (cp (CHR ''Z'')) s2)) else Inr s1)"

definition timestamp_time :: "scanner \<Rightarrow> scanner result" where
  "timestamp_time s =
     bindR (next_char s) (\<lambda>(_, s1).
     bindR (scan_n_digits 2 ''timestamp hour'' (push_text (cp (CHR ''T'')) s1)) (\<lambda>s2.
     bindR (expect_char (cp (CHR 0x3A)) ''timestamp'' s2) (\<lambda>s3.
     bindR (scan_n_digits 2 ''timestamp minute'' s3) (\<lambda>s4.
     bindR (expect_char (cp (CHR 0x3A)) ''timestamp'' s4) (\<lambda>s5.
     bindR (scan_n_digits 2 ''timestamp second'' s5) (\<lambda>s6.
     bindR (timestamp_fraction s6) timestamp_zulu))))))"

definition timestamp :: "scanner \<Rightarrow> token scan" where
  "timestamp s =
     bindR (next_char s) (\<lambda>(_, s1).
     bindR (scan_n_digits 2 ''timestamp month'' (push_text (cp (CHR ''-'')) s1)) (\<lambda>s2.
     bindR (expect_char (cp (CHR ''-'')) ''timestamp'' s2) (\<lambda>s3.
     bindR (scan_n_digits 2 ''timestamp day'' s3) (\<lambda>s4.
     bindR (peek s4) (\<lambda>(c, s5).
     let has_time = (c = Some (cp (CHR ''T''))) in
     bindR (if has_time then timestamp_time s5 else Inr s5) (\<lambda>s6.
     bindR (parse_timestamp_to_nanos (sc_text s6) has_time) (\<lambda>nanos. Inr (TkTimestamp nanos, s6))))))))"

definition checked_mul :: "i64 \<Rightarrow> int \<Rightarrow> i64 option" where
  "checked_mul a b = (if in_i64 (sint a * b) then Some (word_of_int (sint a * b)) else None)"

definition duration_unit :: "nat \<Rightarrow> scanner \<Rightarrow> (string \<times> scanner) result" where
  "duration_unit suffix_start s =
     (if suffix_start = cp (CHR ''m'')
      then bindR (peek s) (\<lambda>(c, s1).
             if c = Some (cp (CHR ''s'')) then bindR (next_char s1) (\<lambda>(_, s2). Inr (''ms'', s2)) else Inr (''m'', s1))
      else if suffix_start = cp (CHR ''d'') then Inr (''d'', s)
      else if suffix_start = cp (CHR ''h'') then Inr (''h'', s)
      else if suffix_start = cp (CHR ''s'') then Inr (''s'', s)
      else Inl Panic)"

definition unit_nanos_of :: "string \<Rightarrow> int option" where
  "unit_nanos_of u = map_of
     [(''d'', 24 * 60 * 60 * 1000000000), (''h'', 60 * 60 * 1000000000), (''m'', 60 * 1000000000),
      (''s'', 1000000000), (''ms'', 1000000)] u"

definition duration_literal :: "nat \<Rightarrow> scanner \<Rightarrow> token scan" where
  "duration_literal suffix_start s =
     bindR (next_char s) (\<lambda>(_, s1).
     bindR (duration_unit suffix_start s1) (\<lambda>(u, s2).
       case parse_i64 (sc_text s2) of
         None \<Rightarrow> Inl (Anyhow ''number too large to fit in target type'')
       | Some amount \<Rightarrow>
           (case unit_nanos_of u of
              None \<Rightarrow> Inl Panic
            | Some k \<Rightarrow> (case checked_mul amount k of
                          None \<Rightarrow> Inl (Anyhow ''duration overflow'') | Some nanos \<Rightarrow> Inr (TkDuration nanos, s2)))))"

definition numeric_value :: "lit_env \<Rightarrow> bool \<Rightarrow> scanner \<Rightarrow> token scan" where
  "numeric_value E is_float s =
     (if is_float
      then (case le_parse_f64 E (sc_text s) of
              None \<Rightarrow> Inl (Anyhow ''invalid float literal'') | Some num \<Rightarrow> Inr (TkFloat num, s))
      else (case parse_i64 (sc_text s) of
              None \<Rightarrow> Inl (Anyhow ''number too large to fit in target type'') | Some num \<Rightarrow> Inr (TkInt num, s)))"

definition duration_suffix :: "nat option \<Rightarrow> bool" where
  "duration_suffix c \<longleftrightarrow> c \<in> {Some (cp (CHR ''d'')), Some (cp (CHR ''h'')), Some (cp (CHR ''m'')), Some (cp (CHR ''s''))}"

definition numeric :: "lit_env \<Rightarrow> nat \<Rightarrow> scanner \<Rightarrow> token scan" where
  "numeric E first s =
     bindR (numeric_loop False (push_text first (clear_text s))) (\<lambda>(is_float, s1).
     bindR (if \<not> is_float \<and> length (sc_text s1) = 4 \<and> first \<noteq> cp (CHR ''-'')
            then bindR (peek s1) (\<lambda>(c, s2). Inr (c = Some (cp (CHR ''-'')), s2)) else Inr (False, s1)) (\<lambda>(is_time, s2).
       if is_time then timestamp s2
       else bindR (if \<not> is_float \<and> first \<noteq> cp (CHR ''-'')
                   then bindR (peek s2) (\<lambda>(c, s3). Inr (if duration_suffix c then c else None, s3)) else Inr (None, s2)) (\<lambda>(suffix, s3).
            case suffix of Some c \<Rightarrow> duration_literal c s3 | None \<Rightarrow> numeric_value E is_float s3)))"

subsection \<open>The dispatcher\<close>

definition keyword :: "string \<Rightarrow> token option" where
  "keyword w = map_of
     [(''Package'', TkPackage), (''Use'', TkUse), (''Decl'', TkDecl), (''bound'', TkBound),
      (''inclusion'', TkInclusion), (''do'', TkDo), (''descr'', TkDescr), (''let'', TkLet)] w"

function ident_loop :: "scanner \<Rightarrow> scanner result" where
  "ident_loop s =
     bindR (peek s) (\<lambda>(c, s1).
       case c of
         Some ch \<Rightarrow>
           if is_ident ch then bindR (next_char s1) (\<lambda>(_, s2). ident_loop (push_text ch s2))
           else if ch = cp (CHR 0x3A) \<and> (starts_with (sc_text s1) (''fn'' @ [CHR 0x3A]) \<or> sc_text s1 = ''fn'') \<and>
                   \<not> ends_with (sc_text s1) [CHR 0x3A]
           then bindR (next_char s1) (\<lambda>(_, s2). ident_loop (push_text ch s2))
           else Inr s1
       | None \<Rightarrow> Inr s1)"
  by pat_completeness auto
termination
  by (relation "measure scanner_size") (auto dest: peek_next_size)

declare ident_loop.simps [simp del]

definition ident_or_dot_ident :: "nat \<Rightarrow> bool \<Rightarrow> scanner \<Rightarrow> token scan" where
  "ident_or_dot_ident first dot_ident s =
     bindR (ident_loop (push_text first (clear_text s))) (\<lambda>s1.
       Inr (case keyword (sc_text s1) of
              Some t \<Rightarrow> t
            | None \<Rightarrow> if dot_ident then TkDotIdent (''fn'' @ [CHR 0x3A] @ sc_text s1) else TkIdent (sc_text s1), s1))"

definition scan_ident :: "nat \<Rightarrow> scanner \<Rightarrow> token scan" where
  "scan_ident first s = ident_or_dot_ident first False s"

text \<open>\<open>match self.peek()? { Some(c) => .., _ => .. }\<close> with one character consumed when it is \<open>c\<close>.\<close>

definition if_next :: "char \<Rightarrow> token \<Rightarrow> token \<Rightarrow> scanner \<Rightarrow> token scan" where
  "if_next c yes no s =
     bindR (peek s) (\<lambda>(d, s1).
       if d = Some (cp c) then bindR (next_char s1) (\<lambda>(_, s2). Inr (yes, s2)) else Inr (no, s1))"

definition single_tokens :: "(nat \<times> token) list" where
  "single_tokens =
     [(cp (CHR ''=''), TkEq), (cp (CHR '';''), TkSemi), (cp (CHR '',''), TkComma), (cp (CHR ''(''), TkLParen),
      (cp (CHR '')''), TkRParen), (cp (CHR 0x7B), TkLBrace), (cp (CHR 0x7D), TkRBrace), (cp (CHR ''[''), TkLBracket),
      (cp (CHR '']''), TkRBracket), (0x2264, TkLe), (0x2265, TkGe), (cp (CHR ''@''), TkAt), (long_arrow, TkLongLeftDoubleArrow)]"

definition after_colon :: "scanner \<Rightarrow> token scan" where
  "after_colon s =
     bindR (peek s) (\<lambda>(d, s1).
       case d of
         Some c \<Rightarrow> if c = cp (CHR ''-'') then bindR (next_char s1) (\<lambda>(_, s2). Inr (TkColonDash, s2))
                   else if is_ident_start c then builtin_predicate s1 else Inr (TkColon, s1)
       | None \<Rightarrow> Inr (TkColon, s1))"

definition after_dot :: "scanner \<Rightarrow> token scan" where
  "after_dot s =
     bindR (peek s) (\<lambda>(d, s1).
       case d of
         Some c \<Rightarrow> if in_range c CHR ''A'' CHR ''Z''
                   then bindR (next_char s1) (\<lambda>(first, s2).
                        case first of Some f \<Rightarrow> ident_or_dot_ident f True s2 | None \<Rightarrow> Inl Panic)
                   else Inr (TkDot, s1)
       | None \<Rightarrow> Inr (TkDot, s1))"

definition after_minus :: "lit_env \<Rightarrow> scanner \<Rightarrow> token scan" where
  "after_minus E s =
     bindR (peek s) (\<lambda>(d, s1).
       case d of
         Some c \<Rightarrow> if is_digit c \<or> c = cp (CHR ''.'') then numeric E (cp (CHR ''-'')) s1
                   else Inl (unexpected_char (get_error_context s1) (cp (CHR ''-'')))
       | None \<Rightarrow> Inl (unexpected_char (get_error_context s1) (cp (CHR ''-''))))"

definition ident_or_bytes :: "nat \<Rightarrow> scanner \<Rightarrow> token scan" where
  "ident_or_bytes ch s =
     (if ch = cp (CHR ''b'')
      then bindR (peek s) (\<lambda>(d, s1).
             if d = Some (cp (CHR 0x27)) \<or> d = Some (cp (CHR 0x22))
             then bindR (next_char s1) (\<lambda>(_, s2). scan_string (the d) True s2)
             else scan_ident ch s1)
      else scan_ident ch s)"

definition next_token_internal :: "lit_env \<Rightarrow> scanner \<Rightarrow> token scan" where
  "next_token_internal E s0 =
     bindR (next_char_skip s0) (\<lambda>(c, s).
       case c of
         None \<Rightarrow> Inr (TkEof, s)
       | Some ch \<Rightarrow>
           (case map_of single_tokens ch of
              Some t \<Rightarrow> Inr (t, s)
            | None \<Rightarrow>
                if ch = cp (CHR ''!'') then if_next CHR ''='' TkBangEq TkBang s
                else if ch = cp (CHR ''<'') then if_next CHR ''='' TkLe TkLt s
                else if ch = cp (CHR ''>'') then if_next CHR ''='' TkGe TkGt s
                else if ch = cp (CHR 0x3A) then after_colon s
                else if ch = cp (CHR ''|'') then if_next CHR ''>'' TkPipeGt TkPipe s
                else if ch = cp (CHR ''.'') then after_dot s
                else if ch = cp (CHR ''/'') then scan_name s
                else if ch = cp (CHR 0x27) \<or> ch = cp (CHR 0x22) then scan_string ch False s
                else if ch = cp (CHR 0x60) then long_string s
                else if is_digit ch then numeric E ch s
                else if ch = cp (CHR ''-'') then after_minus E s
                else if is_ident_start ch then ident_or_bytes ch s
                else Inl (unexpected_char (get_error_context s) ch)))"

definition next_token :: "lit_env \<Rightarrow> scanner \<Rightarrow> token scan" where
  "next_token E s = next_token_internal E s"

end
