(* ===== verification/Quote_Props.thy ===== *)
theory Quote_Props
  imports Quote
begin

text \<open>
  Quoting and unquoting: literals of printable ASCII text, tabs and line ends are read back; every other
  string is quoted as a literal that is rejected, and some literals panic.
\<close>

subsection \<open>ASCII\<close>

definition ascii :: "string \<Rightarrow> bool" where
  "ascii s \<longleftrightarrow> list_all (\<lambda>c. (of_char c :: nat) < 128) s"

lemma ascii_simps [simp]: "ascii []" "ascii (c # s) \<longleftrightarrow> (of_char c :: nat) < 128 \<and> ascii s" "ascii (s @ t) \<longleftrightarrow> ascii s \<and> ascii t"
  by (auto simp: ascii_def)

lemma ascii_cont: "(of_char c :: nat) < 128 \<Longrightarrow> \<not> is_cont_byte c"
  by (simp add: is_cont_byte_def)

lemma ascii_chars: "ascii s \<Longrightarrow> chars s = map of_char s"
proof (induction s rule: chars.induct)
  case (2 c cs)
  then show ?case
    by (cases cs) (auto simp: chars.simps code_point_def ascii_cont)
qed (simp add: chars.simps)

lemma ascii_slice: "ascii s \<Longrightarrow> a \<le> b \<Longrightarrow> b \<le> length s \<Longrightarrow> str_slice s a b = Inr (take (b - a) (drop a s))"
  by (auto simp: str_slice_def is_char_boundary_def ascii_def list_all_length ascii_cont order_le_less)

lemma ascii_take: "ascii s \<Longrightarrow> ascii (take n s)"
  by (auto simp: ascii_def list_all_iff dest: in_set_takeD)

lemma ascii_drop: "ascii s \<Longrightarrow> ascii (drop n s)"
  by (auto simp: ascii_def list_all_iff dest: in_set_dropD)

lemma of_char_small: "n < 256 \<Longrightarrow> (of_char (char_of (n :: nat) :: char) :: nat) = n"
  by (simp add: of_char_of)

lemma as_u8_of_char: "as_u8 (map of_char s) = s"
proof (induction s)
  case (Cons c s)
  then show ?case
    by (simp add: as_u8_def of_char_mod_256)
qed (simp add: as_u8_def)

subsection \<open>The text of a literal\<close>

text \<open>Characters that are written as themselves, and those with a one-letter escape.\<close>

definition direct :: "nat \<Rightarrow> bool" where
  "direct c \<longleftrightarrow> 32 \<le> c \<and> c < 127 \<and> c \<noteq> 34 \<and> c \<noteq> 92"

definition letter_escaped :: "nat \<Rightarrow> bool" where
  "letter_escaped c \<longleftrightarrow> c \<in> {9, 10, 13, 34, 92}"

definition plain_char :: "nat \<Rightarrow> bool" where
  "plain_char c \<longleftrightarrow> direct c \<or> letter_escaped c"

lemma quote_direct: "direct c \<Longrightarrow> quote_char c = [char_of c]"
  by (auto simp: direct_def quote_char_def escape_default_def)

lemma char_of_codes: "char_of (34 :: nat) = CHR 0x22" "char_of (92 :: nat) = CHR 0x5C" "char_of (13 :: nat) = CHR 0x0D"
  by code_simp+

lemma quote_letter:
  assumes "letter_escaped c"
  obtains d where "quote_char c = [CHR 0x5C, d]" "unesc (of_char d) = Some c" "(of_char d :: nat) < 128" "(of_char d :: nat) \<noteq> 10"
proof -
  consider "c = 9" | "c = 10" | "c = 13" | "c = 34" | "c = 92"
    using assms by (auto simp: letter_escaped_def)
  then show ?thesis
    using that [of "CHR ''t''"] that [of "CHR ''n''"] that [of "CHR ''r''"] that [of "CHR 0x22"] that [of "CHR 0x5C"]
    by cases (simp_all add: quote_char_def escape_default_def unesc_def char_of_codes)
qed

lemma hex_chars_ascii: "n < 16 \<Longrightarrow> (of_char (''0123456789abcdef'' ! n) :: nat) < 128"
proof -
  have "list_all (\<lambda>c. (of_char c :: nat) < 128) ''0123456789abcdef''"
    by code_simp
  then show "n < 16 \<Longrightarrow> (of_char (''0123456789abcdef'' ! n) :: nat) < 128"
    unfolding list_all_length by simp
qed

lemma show_hex_ascii: "ascii (show_hex n)"
  by (induction n rule: show_hex.induct) (subst show_hex.simps, simp add: hex_chars_ascii)

lemma show_hex_ne: "show_hex n \<noteq> []"
  by (subst show_hex.simps) simp

lemma quote_other:
  assumes "\<not> plain_char c"
  obtains r where "quote_char c = [CHR 0x5C, CHR ''u'', CHR 0x7B] @ r" "ascii r"
proof
  show "quote_char c = [CHR 0x5C, CHR ''u'', CHR 0x7B] @ (show_hex c @ [CHR 0x7D])"
    using assms by (auto simp: plain_char_def direct_def letter_escaped_def quote_char_def escape_default_def)
  show "ascii (show_hex c @ [CHR 0x7D])"
    by (simp add: show_hex_ascii)
qed

lemma quote_char_ascii: "ascii (quote_char c)"
proof (cases "plain_char c")
  case True
  then show ?thesis
    unfolding plain_char_def
  proof
    assume "direct c"
    then show ?thesis
      by (simp add: quote_direct direct_def of_char_of)
  next
    assume "letter_escaped c"
    then show ?thesis
      by (rule quote_letter) simp
  qed
next
  case False
  then show ?thesis
    by (rule quote_other) simp
qed

definition text_of :: "nat list \<Rightarrow> string" where
  "text_of cs = concat (map quote_char cs)"

lemma text_ascii: "ascii (text_of cs)"
  by (induction cs) (simp_all add: text_of_def quote_char_ascii)

lemma text_direct: "list_all direct cs \<Longrightarrow> text_of cs = map char_of cs"
  by (induction cs) (simp_all add: text_of_def quote_direct)

lemma text_append: "text_of (as @ bs) = text_of as @ text_of bs"
  by (simp add: text_of_def)

lemma text_Cons: "text_of (c # cs) = quote_char c @ text_of cs"
  by (simp add: text_of_def)

subsection \<open>Reading a literal\<close>

lemma escape_letter:
  assumes "letter_escaped c" "ascii rest"
  shows "escape_sequence False (quote_char c @ rest) = Inr ([char_of c], rest)"
  using assms(1)
proof (rule quote_letter)
  fix d assume d: "quote_char c = [CHR 0x5C, d]" "unesc (of_char d) = Some c" "(of_char d :: nat) < 128" "(of_char d :: nat) \<noteq> 10"
  have a: "ascii (quote_char c @ rest)"
    using assms(2) by (simp add: quote_char_ascii)
  have "chars (CHR 0x5C # d # rest) = 92 # of_char d # map of_char rest" "str_slice (CHR 0x5C # d # rest) 2 (length rest + 2) = Inr rest"
    using ascii_chars [OF a] ascii_slice [OF a, of 2 "length rest + 2"] d(1) by simp_all
  then show ?thesis
    using d by (simp add: escape_sequence_def slice_from_def)
qed

lemma escape_other:
  assumes "\<not> plain_char c" "ascii rest"
  shows "\<exists>e. escape_sequence False (quote_char c @ rest) = Inl (Anyhow e)"
  using assms(1)
proof (rule quote_other)
  fix r assume r: "quote_char c = [CHR 0x5C, CHR ''u'', CHR 0x7B] @ r" "ascii r"
  have a: "ascii (quote_char c @ rest)"
    using assms(2) by (simp add: quote_char_ascii)
  have "chars (quote_char c @ rest) = 92 # 117 # 123 # map of_char (r @ rest)"
    using ascii_chars [OF a] r(1) by simp
  then have "escape_sequence False (quote_char c @ rest) = unicode_escape 6 (quote_char c @ rest)"
    by (simp add: escape_sequence_def unesc_def r(1))
  moreover have "parse_hex (CHR 0x7B # x) = None" for x
    by (simp add: parse_hex_def hex_digit_def)
  ultimately show ?thesis
    using ascii_slice [OF a, of 2 6]
    by (auto simp: unicode_escape_def r(1) numeral_eq_Suc)
qed

lemma direct_no_escape: "direct c \<Longrightarrow> \<not> starts_escape False c"
  by (auto simp: direct_def starts_escape_def)

lemma direct_small: "list_all direct cs \<Longrightarrow> map of_char (map char_of cs :: string) = cs"
  by (induction cs) (auto simp: direct_def of_char_of)

lemma quote_not_direct:
  assumes "\<not> direct c"
  obtains r where "quote_char c = CHR 0x5C # r"
proof (cases "letter_escaped c")
  case True
  then show ?thesis
    by (rule quote_letter) (use that in simp)
next
  case False
  then have "\<not> plain_char c"
    using assms by (simp add: plain_char_def)
  then show ?thesis
    by (rule quote_other) (use that in simp)
qed

lemma turn_end:
  assumes "list_all direct cs"
  shows "unquote_turn False False (text_of cs) = Inr (text_of cs, None)"
proof -
  have "chars (text_of cs) = cs"
    using ascii_chars [OF text_ascii, of cs] direct_small [OF assms] by (simp add: text_direct [OF assms])
  moreover have "takeWhile (\<lambda>c. \<not> starts_escape False c) cs = cs"
    using assms direct_no_escape by (auto simp: takeWhile_eq_all_conv list_all_iff)
  moreover have "as_u8 cs = text_of cs"
    using as_u8_of_char [of "map char_of cs"] direct_small [OF assms] by (simp add: text_direct [OF assms])
  ultimately show ?thesis
    unfolding unquote_turn_def by (simp add: Let_def del: takeWhile_eq_all_conv)
qed

lemma turn_escape:
  assumes "list_all direct pre" "\<not> direct c"
  shows "unquote_turn False False (text_of (pre @ c # cs)) =
    bindR (escape_sequence False (quote_char c @ text_of cs)) (\<lambda>(out, q). Inr (text_of pre @ out, Some q))"
proof -
  obtain r where r: "quote_char c = CHR 0x5C # r"
    using quote_not_direct [OF assms(2)] by blast
  let ?q = "text_of (pre @ c # cs)"
  have q: "?q = map char_of pre @ CHR 0x5C # r @ text_of cs"
    by (simp add: text_append text_Cons text_direct [OF assms(1)] r)
  have ch: "chars ?q = pre @ 92 # map of_char (r @ text_of cs)"
    using ascii_chars [OF text_ascii, of "pre @ c # cs"] direct_small [OF assms(1)] unfolding q by simp
  have esc: "\<not> starts_escape False x" if "x \<in> set pre" for x
    using assms(1) direct_no_escape that by (simp add: list_all_iff)
  have i: "length (takeWhile (\<lambda>c. \<not> starts_escape False c) (chars ?q)) = length pre"
    unfolding ch using esc by (subst takeWhile_append2) (auto simp: starts_escape_def)
  have pre: "str_slice ?q 0 (length pre) = Inr (map char_of pre)" "slice_from ?q (length pre) = Inr (quote_char c @ text_of cs)"
    using ascii_slice [OF text_ascii, of 0 "length pre" "pre @ c # cs"]
      ascii_slice [OF text_ascii, of "length pre" "length ?q" "pre @ c # cs"]
    unfolding q slice_from_def by (simp_all add: r)
  have "chars (map char_of pre) = pre" "as_u8 pre = text_of pre"
    using ascii_chars [of "map char_of pre"] text_ascii [of pre] direct_small [OF assms(1)] as_u8_of_char [of "map char_of pre"]
    by (simp_all add: text_direct [OF assms(1)])
  then show ?thesis
    unfolding unquote_turn_def Let_def i pre
    by (simp add: ch r starts_with_def char_of_codes)
qed

lemma split_direct:
  assumes "\<not> list_all direct cs"
  obtains pre c rest where "cs = pre @ c # rest" "list_all direct pre" "\<not> direct c"
proof -
  obtain c where "c \<in> set cs" "\<not> direct c"
    using assms by (auto simp: list_all_iff)
  then obtain pre c' rest where "cs = pre @ c' # rest" "\<not> direct c'" "\<forall>x\<in>set pre. \<not> \<not> direct x"
    using split_list_first_prop [of cs "\<lambda>c. \<not> direct c"] by blast
  then show ?thesis
    using that by (simp add: list_all_iff)
qed

lemma unquote_loop_text:
  "length cs < n \<Longrightarrow>
   (list_all plain_char cs \<longrightarrow> unquote_loop n False False buf (text_of cs) = Inr (buf @ map char_of cs)) \<and>
   (\<not> list_all plain_char cs \<longrightarrow> (\<exists>e. unquote_loop n False False buf (text_of cs) = Inl (Anyhow e)))"
proof (induction "length cs" arbitrary: cs n buf rule: less_induct)
  case less
  obtain k where k: "n = Suc k"
    using less.prems by (cases n) auto
  show ?case
  proof (cases "list_all direct cs")
    case True
    then have "list_all plain_char cs"
      by (auto simp: list_all_iff plain_char_def)
    then show ?thesis
      using turn_end [OF True] by (simp add: k text_direct [OF True])
  next
    case False
    then obtain pre c rest where cs: "cs = pre @ c # rest" "list_all direct pre" "\<not> direct c"
      by (rule split_direct)
    have plain_pre: "list_all plain_char pre"
      using cs(2) by (auto simp: list_all_iff plain_char_def)
    show ?thesis
    proof (cases "letter_escaped c")
      case True
      have step: "unquote_loop n False False buf (text_of cs) =
          unquote_loop k False False (buf @ map char_of pre @ [char_of c]) (text_of rest)"
        using turn_escape [OF cs(2,3), of rest] escape_letter [OF True text_ascii, of rest]
        by (simp add: k cs(1) text_direct [OF cs(2)])
      have "length rest < length cs" "length rest < k"
        using cs(1) less.prems k by simp_all
      note IH = less.hyps [OF this, of "buf @ map char_of pre @ [char_of c]"]
      have "plain_char c"
        using True by (simp add: plain_char_def)
      then have "list_all plain_char cs \<longleftrightarrow> list_all plain_char rest"
        using plain_pre by (simp add: cs(1))
      then show ?thesis
        unfolding step using IH by (simp add: cs(1))
    next
      case False
      then have np: "\<not> plain_char c"
        using cs(3) by (simp add: plain_char_def)
      obtain e where "escape_sequence False (quote_char c @ text_of rest) = Inl (Anyhow e)"
        using escape_other [OF np text_ascii] by blast
      then have "unquote_loop n False False buf (text_of cs) = Inl (Anyhow e)"
        using turn_escape [OF cs(2,3), of rest] by (simp add: k cs(1))
      then show ?thesis
        using np by (simp add: cs(1))
    qed
  qed
qed

subsection \<open>Properties\<close>

lemma strip_quotes_text: "strip_quotes ([CHR 0x22] @ text_of cs @ [CHR 0x22]) = Inr (text_of cs)"
proof -
  let ?q = "[CHR 0x22] @ text_of cs @ [CHR 0x22]"
  have a: "ascii ?q"
    by (simp add: text_ascii)
  have ch: "chars ?q = 34 # map of_char (text_of cs) @ [34]"
    using ascii_chars [OF a] by simp
  have inner: "str_slice ?q 1 (length ?q - 1) = Inr (text_of cs)"
    using ascii_slice [OF a, of 1 "length ?q - 1"] by simp
  have first: "chars ?q ! 1 \<noteq> 34" if six: "6 \<le> length ?q"
  proof -
    obtain c cs' where cs: "cs = c # cs'"
      using six by (cases cs) (auto simp: text_of_def)
    show ?thesis
    proof (cases "direct c")
      case True
      then show ?thesis
        unfolding ch by (simp add: cs text_Cons quote_direct direct_def of_char_of)
    next
      case False
      then obtain r where "quote_char c = CHR 0x5C # r"
        by (rule quote_not_direct)
      then show ?thesis
        unfolding ch by (simp add: cs text_Cons)
    qed
  qed
  show ?thesis
    using first inner unfolding strip_quotes_def nth_char_def index_list_def ch by auto
qed

lemma text_valid: "list_all plain_char cs \<Longrightarrow> valid_utf8 (map of_char (map char_of cs :: string))"
  by (induction cs) (auto simp: plain_char_def direct_def letter_escaped_def of_char_of)

lemma text_length: "length cs \<le> length (text_of cs)"
proof (induction cs)
  case (Cons c cs)
  have "quote_char c \<noteq> []"
    by (cases "direct c") (auto simp: quote_direct elim: quote_not_direct)
  then have "1 \<le> length (quote_char c)"
    by (cases "quote_char c") simp_all
  then show ?case
    using Cons unfolding text_Cons length_append length_Cons by linarith
qed simp

lemma text_escapes: "list_ex (starts_escape False) (chars (text_of cs)) \<longleftrightarrow> \<not> list_all direct cs"
proof (cases "list_all direct cs")
  case True
  then have "chars (text_of cs) = cs"
    using ascii_chars [OF text_ascii, of cs] direct_small [OF True] by (simp add: text_direct)
  then show ?thesis
    using True direct_no_escape by (auto simp: list_ex_iff list_all_iff)
next
  case False
  then obtain pre c rest where cs: "cs = pre @ c # rest" "list_all direct pre" "\<not> direct c"
    by (rule split_direct)
  obtain r where "quote_char c = CHR 0x5C # r"
    using quote_not_direct [OF cs(3)] by blast
  then have "CHR 0x5C \<in> set (text_of cs)"
    by (simp add: cs(1) text_append text_Cons)
  then have "of_char (CHR 0x5C) \<in> set (chars (text_of cs))"
    unfolding ascii_chars [OF text_ascii, of cs] set_map by (rule imageI)
  then show ?thesis
    using False by (auto simp: list_ex_iff starts_escape_def)
qed

lemma unquote_quoted: "unquote ([CHR 0x22] @ text_of cs @ [CHR 0x22]) = unquote_body False False (text_of cs)"
  using strip_quotes_text [of cs] by (simp add: unquote_def starts_with_def)

lemma unquote_text:
  assumes "list_all plain_char cs"
  shows "unquote ([CHR 0x22] @ text_of cs @ [CHR 0x22]) = Inr (DString (map char_of cs))"
proof (cases "list_all direct cs")
  case True
  then have "unquote_body False False (text_of cs) = Inr (DString (map char_of cs))"
    using text_escapes [of cs] by (simp only: unquote_body_def text_direct simp_thms if_True if_False)
  then show ?thesis
    unfolding unquote_quoted .
next
  case False
  have "unquote_loop (Suc (length (text_of cs))) False False [] (text_of cs) = Inr (map char_of cs)"
    using unquote_loop_text [of cs "Suc (length (text_of cs))" "[]"] text_length [of cs] assms by auto
  then show ?thesis
    using text_valid [OF assms] False unfolding unquote_quoted unquote_body_def text_escapes by (simp del: unquote_loop.simps)
qed

lemma unquote_text_other:
  assumes "\<not> list_all plain_char cs"
  shows "\<exists>e. unquote ([CHR 0x22] @ text_of cs @ [CHR 0x22]) = Inl (Anyhow e)"
proof -
  have "\<not> list_all direct cs"
    using assms by (auto simp: list_all_iff plain_char_def)
  moreover obtain e where "unquote_loop (Suc (length (text_of cs))) False False [] (text_of cs) = Inl (Anyhow e)"
    using unquote_loop_text [of cs "Suc (length (text_of cs))" "[]"] text_length [of cs] assms by auto
  ultimately show ?thesis
    unfolding unquote_quoted unquote_body_def text_escapes by (simp del: unquote_loop.simps)
qed

text \<open>C27: Unquoting a quoted string gives the string back exactly when it consists of printable ASCII characters,
  tabs and line ends (in UTF-8 these are ASCII strings); for any other string \<open>quote\<close> writes escapes of a form that \<open>unquote\<close> rejects.\<close>

theorem quote_roundtrip:
  "if list_all plain_char (chars s) then unquote (quote s) = Inr (DString (if ascii s then s else map char_of (chars s)))
   else \<exists>e. unquote (quote s) = Inl (Anyhow e)"
proof -
  have id: "(if ascii s then s else map char_of (chars s)) = map char_of (chars s)"
    using ascii_chars [of s] by (simp add: comp_def)
  have "quote s = [CHR 0x22] @ text_of (chars s) @ [CHR 0x22]"
    by (simp add: quote_def text_of_def)
  then show ?thesis
    unfolding id using unquote_text unquote_text_other by simp
qed

text \<open>Literals on which the scanner panics instead of answering: an octal escape of up to three digits at the
  end of a string, since the guard of the loop reads a character that need not be there, and an escape
  after a character that is not ASCII, since a position counted in characters is used to slice bytes.
  An octal escape followed by more text is read as the byte 0, here with its last digit left over.\<close>

theorem unquote_panics:
  "unquote [CHR 0x22, CHR 0x5C, CHR ''1'', CHR ''0'', CHR ''1'', CHR 0x22] = Inl Panic \<and>
   unquote [CHR 0x22, CHR 0xC3, CHR 0xA9, CHR 0x5C, CHR ''n'', CHR 0x22] = Inl Panic \<and>
   unquote [CHR 0x22, CHR 0x5C, CHR ''1'', CHR ''0'', CHR ''1'', CHR '' '', CHR '' '', CHR 0x22] = Inr (DString [CHR 0x00, CHR ''1'', CHR '' '', CHR '' ''])"
  by code_simp

end
