(* ===== verification/Scanner_Props.thy ===== *)
theory Scanner_Props
  imports Scanner Quote_Props
begin

text \<open>
  What the scanner does, over the text it has yet to read.  \<open>sees s cs\<close> says that the characters \<open>cs\<close> are
  ahead of the scanner, whether in its pushback slots or still in the reader; every method is described by what
  it consumes of them.  Tokens written out one after the other are scanned as those tokens.
\<close>

subsection \<open>UTF-8\<close>

definition scalar :: "nat \<Rightarrow> bool" where
  "scalar c \<longleftrightarrow> from_u32 c = Some c"

definition encode_all :: "nat list \<Rightarrow> string" where
  "encode_all cs = concat (map encode_utf8 cs)"

lemma encode_all_simps [simp]: "encode_all [] = []" "encode_all (c # cs) = encode_utf8 c @ encode_all cs"
    "encode_all (as @ bs) = encode_all as @ encode_all bs"
  by (simp_all add: encode_all_def)

lemma scalar_bounds: "scalar c \<Longrightarrow> c \<le> 1114111 \<and> \<not> (55296 \<le> c \<and> c < 57344)"
  by (auto simp: scalar_def from_u32_def split: if_splits)

lemma ascii_scalar: "c < 128 \<Longrightarrow> scalar c"
  by (simp add: scalar_def from_u32_def)

lemma encode_ascii: "c < 128 \<Longrightarrow> encode_utf8 c = [char_of c]"
  by (simp add: encode_utf8_def)

lemma encode_cp: "cp c < 128 \<Longrightarrow> encode_utf8 (cp c) = [c]"
  by (simp add: encode_ascii)

lemma encode_ascii_string: "ascii s \<Longrightarrow> encode_all (map of_char s) = s"
  by (induction s) (simp_all add: encode_ascii)

lemma next_byte_read:
  "sc_iter s = Inr b # bs \<Longrightarrow> \<exists>s'. next_byte s = Inr (Some b, s') \<and> sc_iter s' = bs \<and> sc_ch s' = sc_ch s \<and> sc_ch2 s' = sc_ch2 s \<and> sc_text s' = sc_text s"
  by (simp add: next_byte_def)

lemma next_byte_or_incomplete_read:
  "sc_iter s = Inr b # bs \<Longrightarrow> \<exists>s'. next_byte_or_incomplete s = Inr (b, s') \<and> sc_iter s' = bs \<and> sc_ch s' = sc_ch s \<and> sc_ch2 s' = sc_ch2 s \<and> sc_text s' = sc_text s"
  using next_byte_read [of s b bs] by (auto simp: next_byte_or_incomplete_def)

lemma lead_mods:
  "x < 32 \<Longrightarrow> (192 + x) mod 32 = (x :: nat)" "x < 16 \<Longrightarrow> (224 + x) mod 16 = (x :: nat)"
  "x < 8 \<Longrightarrow> (240 + x) mod 8 = (x :: nat)" "x < 64 \<Longrightarrow> (128 + x) mod 64 = (x :: nat)"
  using mod_mult_self2 [of x 32 6] mod_mult_self2 [of x 16 14] mod_mult_self2 [of x 8 30] mod_mult_self2 [of x 64 2]
  by (simp_all add: add.commute)

lemma div_4096: "c div 4096 = c div 64 div (64 :: nat)" "c div 262144 = c div 64 div 64 div (64 :: nat)"
  by (simp_all add: div_mult2_eq [symmetric])

lemmas utf8_simps = first_of_utf8_def encode_utf8_def of_char_of chars.simps is_cont_byte_def code_point_def lead_mods div_4096

lemma first_two:
  assumes "128 \<le> c" "c < 2048" "c div 64 = x" "c mod 64 = y" "x < 32" "y < 64" "2 \<le> x" "(x * 64 + y) = c"
  shows "first_of_utf8 (encode_utf8 c) = Inr (Some c)"
  using assms by (simp add: utf8_simps)

lemma first_three:
  assumes "2048 \<le> c" "c < 65536" "c div 64 = p" "c mod 64 = z" "p div 64 = x" "p mod 64 = y" "(x * 64 + y) * 64 + z = c"
    "x < 16" "y < 64" "z < 64" "x = 0 \<Longrightarrow> 32 \<le> y" "x = 13 \<Longrightarrow> y < 32"
  shows "first_of_utf8 (encode_utf8 c) = Inr (Some c)"
proof -
  have "encode_utf8 c = map char_of [224 + x, 128 + y, 128 + z]"
    using assms(1-6) by (simp add: encode_utf8_def div_4096)
  then show ?thesis
    using assms(7-12) by (simp add: first_of_utf8_def of_char_of chars.simps is_cont_byte_def code_point_def lead_mods)
qed

lemma first_four:
  assumes "65536 \<le> c" "c div 64 = p" "c mod 64 = z" "p div 64 = q" "p mod 64 = y" "q div 64 = v" "q mod 64 = x"
    "((v * 64 + x) * 64 + y) * 64 + z = c" "v < 5" "x < 64" "y < 64" "z < 64" "v = 0 \<Longrightarrow> 16 \<le> x" "v = 4 \<Longrightarrow> x < 16"
  shows "first_of_utf8 (encode_utf8 c) = Inr (Some c)"
proof -
  have "encode_utf8 c = map char_of [240 + v, 128 + x, 128 + y, 128 + z]"
    using assms(1-7) by (simp add: encode_utf8_def div_4096)
  then show ?thesis
    using assms(8-14) by (simp add: first_of_utf8_def of_char_of chars.simps is_cont_byte_def code_point_def lead_mods)
qed

lemma encode_first:
  assumes "scalar c" "128 \<le> c"
  shows "first_of_utf8 (encode_utf8 c) = Inr (Some c)"
proof -
  have b: "c \<le> 1114111" "\<not> (55296 \<le> c \<and> c < 57344)"
    using scalar_bounds [OF assms(1)] by auto
  obtain p z q y v x where d: "c div 64 = p" "c mod 64 = z" "p div 64 = q" "p mod 64 = y" "q div 64 = v" "q mod 64 = x"
    by blast
  have c: "64 * p + z = c" "64 * q + y = p" "64 * v + x = q"
    using mult_div_mod_eq [of 64 c] mult_div_mod_eq [of 64 p] mult_div_mod_eq [of 64 q] by (simp_all add: d)
  have small: "z < 64" "y < 64" "x < 64"
    using mod_less_divisor [of 64 c] mod_less_divisor [of 64 p] mod_less_divisor [of 64 q] by (simp_all add: d)
  consider "c < 2048" | "2048 \<le> c" "c < 65536" | "65536 \<le> c"
    by linarith
  then show ?thesis
  proof cases
    case 1
    then show ?thesis
      by (intro first_two [OF assms(2) _ d(1,2)]) (use assms(2) c small in linarith)+
  next
    case 2
    have "q < 16" "(q * 64 + y) * 64 + z = c"
      using 2 c small by simp_all
    moreover have "q = 0 \<Longrightarrow> 32 \<le> y" "q = 13 \<Longrightarrow> y < 32"
      using 2 b(2) c small by linarith+
    ultimately show ?thesis
      using first_three [OF 2 d(1,2,3,4)] small by blast
  next
    case 3
    have "v < 5" "((v * 64 + x) * 64 + y) * 64 + z = c"
      using 3 b(1) c small by simp_all
    moreover have "v = 0 \<Longrightarrow> 16 \<le> x" "v = 4 \<Longrightarrow> x < 16"
      using 3 b(1) c small by linarith+
    ultimately show ?thesis
      using first_four [OF 3 d] small by blast
  qed
qed

definition read_to :: "scanner \<Rightarrow> (rerror + char) list \<Rightarrow> scanner \<Rightarrow> bool" where
  "read_to s r s' \<longleftrightarrow> sc_iter s' = r \<and> sc_ch s' = sc_ch s \<and> sc_ch2 s' = sc_ch2 s \<and> sc_text s' = sc_text s"

lemma read_encoded:
  assumes "scalar c" "sc_iter s = map Inr (encode_utf8 c) @ r"
  shows "\<exists>s'. read_char_from_iter s = Inr (Some c, s') \<and> read_to s r s'"
proof (cases "c < 128")
  case True
  then show ?thesis
    using assms(2) next_byte_read [of s "char_of c" r]
    by (auto simp: encode_ascii read_char_from_iter_def read_to_def of_char_of)
next
  case False
  then have f: "first_of_utf8 (encode_utf8 c) = Inr (Some c)"
    using encode_first [OF assms(1)] by simp
  obtain b1 bs where e: "encode_utf8 c = b1 # bs"
    by (cases "encode_utf8 c") (auto simp: encode_utf8_def split: if_splits)
  then obtain s1 where s1: "next_byte s = Inr (Some b1, s1)" "sc_iter s1 = map Inr bs @ r" "sc_ch s1 = sc_ch s"
      "sc_ch2 s1 = sc_ch2 s" "sc_text s1 = sc_text s"
    using assms(2) next_byte_read [of s b1 "map Inr bs @ r"] by auto
  consider b2 where "bs = [b2]" "192 \<le> cp b1" "cp b1 \<le> 223"
    | b2 b3 where "bs = [b2, b3]" "224 \<le> cp b1" "cp b1 \<le> 239"
    | b2 b3 b4 where "bs = [b2, b3, b4]" "240 \<le> cp b1" "cp b1 \<le> 244"
  proof -
    have "c \<le> 1114111"
      using scalar_bounds [OF assms(1)] by simp
    then show thesis
      using e that False
      by (auto simp: encode_utf8_def of_char_of less_mult_imp_div_less split: if_splits)
  qed
  then show ?thesis
  proof cases
    case 1
    then obtain s2 where "next_byte_or_incomplete s1 = Inr (b2, s2)" "read_to s r s2"
      using next_byte_or_incomplete_read [of s1 b2 r] s1 by (auto simp: read_to_def)
    then show ?thesis
      using 1 s1(1) f by (simp add: read_char_from_iter_def e)
  next
    case 2
    then obtain s2 where s2: "next_byte_or_incomplete s1 = Inr (b2, s2)" "read_to s (Inr b3 # r) s2"
      using next_byte_or_incomplete_read [of s1 b2] s1 by (auto simp: read_to_def)
    then obtain s3 where "next_byte_or_incomplete s2 = Inr (b3, s3)" "read_to s r s3"
      using next_byte_or_incomplete_read [of s2 b3 r] by (auto simp: read_to_def)
    then show ?thesis
      using 2 s1(1) s2(1) f by (simp add: read_char_from_iter_def e)
  next
    case 3
    then obtain s2 where s2: "next_byte_or_incomplete s1 = Inr (b2, s2)" "read_to s (Inr b3 # Inr b4 # r) s2"
      using next_byte_or_incomplete_read [of s1 b2] s1 by (auto simp: read_to_def)
    then obtain s3 where s3: "next_byte_or_incomplete s2 = Inr (b3, s3)" "read_to s (Inr b4 # r) s3"
      using next_byte_or_incomplete_read [of s2 b3] by (auto simp: read_to_def)
    then obtain s4 where "next_byte_or_incomplete s3 = Inr (b4, s4)" "read_to s r s4"
      using next_byte_or_incomplete_read [of s3 b4 r] by (auto simp: read_to_def)
    then show ?thesis
      using 3 s1(1) s2(1) s3(1) f by (simp add: read_char_from_iter_def e)
  qed
qed

subsection \<open>The text ahead\<close>

definition pending :: "scanner \<Rightarrow> nat list" where
  "pending s = (case sc_ch s of None \<Rightarrow> [] | Some c \<Rightarrow> c # (case sc_ch2 s of None \<Rightarrow> [] | Some d \<Rightarrow> [d]))"

text \<open>The second slot is filled only behind a dot, so that nothing is pushed back when a comment is skipped.\<close>

definition sees :: "scanner \<Rightarrow> nat list \<Rightarrow> bool" where
  "sees s cs \<longleftrightarrow> list_all scalar cs \<and> (sc_ch2 s \<noteq> None \<longrightarrow> sc_ch s = Some (cp (CHR ''.''))) \<and>
     (\<exists>r. cs = pending s @ r \<and> sc_iter s = map Inr (encode_all r))"

definition first :: "nat list \<Rightarrow> nat option" where
  "first cs = (case cs of [] \<Rightarrow> None | c # _ \<Rightarrow> Some c)"

lemma first_simps [simp]: "first [] = None" "first (c # cs) = Some c"
  by (simp_all add: first_def)

lemma sees_new: "list_all scalar cs \<Longrightarrow> sees (scanner_new (map Inr (encode_all cs)) path) cs"
  by (simp add: sees_def scanner_new_def pending_def)

lemma sees_text [simp]: "sees (push_text c s) cs = sees s cs" "sees (clear_text s) cs = sees s cs"
  by (simp_all add: sees_def pending_def push_text_def clear_text_def cong: option.case_cong)

lemma text_simps [simp]: "sc_text (push_text c s) = sc_text s @ encode_utf8 c" "sc_text (clear_text s) = []"
    "sc_ch (push_text c s) = sc_ch s" "sc_ch (clear_text s) = sc_ch s"
  by (simp_all add: push_text_def clear_text_def)

lemma read_end: "sc_iter s = [] \<Longrightarrow> read_char_from_iter s = Inr (None, s)"
  by (simp add: read_char_from_iter_def next_byte_def)

lemma read_sees:
  assumes "sees s cs" "sc_ch s = None"
  shows "\<exists>s'. read_char_from_iter s = Inr (first cs, s') \<and> sc_ch s' = None \<and> sc_ch2 s' = None \<and> sc_text s' = sc_text s
    \<and> list_all scalar cs \<and> sc_iter s' = map Inr (encode_all (tl cs))"
proof -
  have c2: "sc_ch2 s = None"
    using assms by (auto simp: sees_def)
  then have it: "sc_iter s = map Inr (encode_all cs)" "list_all scalar cs"
    using assms by (auto simp: sees_def pending_def)
  show ?thesis
  proof (cases cs)
    case Nil
    then show ?thesis
      using it read_end [of s] assms(2) c2 by simp
  next
    case (Cons c r)
    then show ?thesis
      using it read_encoded [of c s "map Inr (encode_all r)"] assms(2) c2 by (auto simp: read_to_def)
  qed
qed

lemma next_char_sees:
  assumes "sees s (c # cs)"
  obtains s' where "next_char s = Inr (Some c, s')" "sees s' cs" "sc_text s' = sc_text s" "c \<noteq> cp (CHR ''.'') \<Longrightarrow> sc_ch s' = None"
proof (cases "sc_ch s")
  case None
  then obtain s' where "read_char_from_iter s = Inr (Some c, s')" "sc_ch s' = None" "sc_ch2 s' = None" "sc_text s' = sc_text s"
      "list_all scalar (c # cs)" "sc_iter s' = map Inr (encode_all cs)"
    using read_sees [OF assms] by auto
  then show thesis
    using None by (intro that [of s']) (auto simp: next_char_def sees_def pending_def)
next
  case (Some d)
  then have "d = c" "sc_ch2 s \<noteq> None \<Longrightarrow> c = cp (CHR ''.'')"
    using assms by (auto simp: sees_def pending_def)
  then show thesis
    using assms Some
    by (intro that [of "s\<lparr>sc_ch := sc_ch2 s, sc_ch2 := None\<rparr>"]) (auto simp: next_char_def sees_def pending_def split: option.splits)
qed

lemma next_char_end:
  assumes "sees s []"
  obtains s' where "next_char s = Inr (None, s')" "sees s' []" "sc_text s' = sc_text s"
proof -
  have "sc_ch s = None" "sc_iter s = []"
    using assms by (auto simp: sees_def pending_def split: option.splits)
  then show thesis
    using that [of s] assms by (simp add: next_char_def read_end)
qed

lemma peek_sees:
  assumes "sees s cs"
  obtains s' where "peek s = Inr (first cs, s')" "sees s' cs" "sc_text s' = sc_text s"
proof (cases "sc_ch s")
  case None
  then obtain s' where "read_char_from_iter s = Inr (first cs, s')" "sc_ch s' = None" "sc_ch2 s' = None" "sc_text s' = sc_text s"
      "list_all scalar cs" "sc_iter s' = map Inr (encode_all (tl cs))"
    using read_sees [OF assms] by auto
  then show thesis
    using None by (intro that [of "s'\<lparr>sc_ch := first cs\<rparr>"]) (cases cs; auto simp: peek_def sees_def pending_def)+
next
  case (Some d)
  then show thesis
    using assms by (intro that [of s]) (auto simp: peek_def sees_def pending_def)
qed

lemma peek_second_sees:
  assumes "sees s (cp (CHR ''.'') # cs)"
  obtains s' where "peek_second s = Inr (first cs, s')" "sees s' (cp (CHR ''.'') # cs)" "sc_text s' = sc_text s"
proof -
  obtain s1 where s1: "peek s = Inr (Some (cp (CHR ''.'')), s1)" "sees s1 (cp (CHR ''.'') # cs)" "sc_text s1 = sc_text s"
    using peek_sees [OF assms] by auto
  have c: "sc_ch s1 = Some (cp (CHR ''.''))"
    using peek_size(1) [OF s1(1)] .
  show thesis
  proof (cases "sc_ch2 s1")
    case None
    then have it: "sc_iter s1 = map Inr (encode_all cs)" "list_all scalar cs"
      using s1(2) c by (auto simp: sees_def pending_def)
    show thesis
    proof (cases cs)
      case Nil
      then show thesis
        using None c s1 it read_end [of s1] by (intro that [of s1]) (simp_all add: peek_second_def)
    next
      case (Cons d r)
      obtain s2 where "read_char_from_iter s1 = Inr (Some d, s2)" "read_to s1 (map Inr (encode_all r)) s2"
        using it Cons read_encoded [of d s1 "map Inr (encode_all r)"] by auto
      then show thesis
        using None c s1 it Cons
        by (intro that [of "s2\<lparr>sc_ch2 := Some d\<rparr>"]) (auto simp: peek_second_def sees_def pending_def read_to_def)
    qed
  next
    case (Some d)
    then show thesis
      using c s1 by (intro that [of s1]) (auto simp: peek_second_def sees_def pending_def)
  qed
qed

lemma peek_next_sees:
  assumes "sees s (c # cs)"
  obtains s1 s2 where "peek s = Inr (Some c, s1)" "next_char s1 = Inr (Some c, s2)" "sees s2 cs" "sc_text s1 = sc_text s" "sc_text s2 = sc_text s"
proof -
  obtain s1 where s1: "peek s = Inr (Some c, s1)" "sees s1 (c # cs)" "sc_text s1 = sc_text s"
    using peek_sees [OF assms] by auto
  obtain s2 where "next_char s1 = Inr (Some c, s2)" "sees s2 cs" "sc_text s2 = sc_text s1"
    using next_char_sees [OF s1(2)] by blast
  then show thesis
    using that s1 by simp
qed

subsection \<open>Blanks and comments\<close>

definition is_blank :: "nat \<Rightarrow> bool" where
  "is_blank c \<longleftrightarrow> c = cp (CHR '' '') \<or> c = cp (CHR 0x09) \<or> c = cp (CHR 0x0A)"

function skip_blank :: "nat list \<Rightarrow> nat list" where
  "skip_blank [] = []"
| "skip_blank (c # cs) =
     (if is_blank c then skip_blank cs
      else if c = cp (CHR ''#'') then skip_blank (tl (dropWhile (\<lambda>d. d \<noteq> cp (CHR 0x0A)) cs))
      else c # cs)"
  by pat_completeness auto
termination
  by (relation "measure length") (auto simp: less_Suc_eq_le le_diff_conv intro: le_trans [OF length_dropWhile_le])

lemma newline_code:
  fixes k :: nat
  assumes "k < 256"
  shows "CHR 0x0A = (char_of k :: char) \<longleftrightarrow> k = 10"
proof
  assume "CHR 0x0A = (char_of k :: char)"
  then have "cp (CHR 0x0A) = cp (char_of k)"
    by simp
  then show "k = 10"
    using assms by (simp add: of_char_of)
next
  have "CHR 0x0A = (char_of (10 :: nat) :: char)"
    by code_simp
  then show "k = 10 \<Longrightarrow> CHR 0x0A = (char_of k :: char)"
    by simp
qed

lemma encode_newline:
  assumes "scalar c"
  shows "CHR 0x0A \<in> set (encode_utf8 c) \<longleftrightarrow> c = 10"
proof -
  have "c \<le> 1114111"
    using scalar_bounds [OF assms] by simp
  then show ?thesis
    by (auto simp: encode_utf8_def newline_code less_mult_imp_div_less)
qed

lemma skip_encoded:
  assumes "list_all scalar cs"
  shows "tl (dropWhile (\<lambda>b. b \<noteq> CHR 0x0A) (encode_all cs)) = encode_all (tl (dropWhile (\<lambda>d. d \<noteq> cp (CHR 0x0A)) cs))"
  using assms
proof (induction cs)
  case (Cons c cs)
  show ?case
  proof (cases "c = 10")
    case True
    have "char_of (10 :: nat) = CHR 0x0A"
      by code_simp
    then show ?thesis
      using True by (simp add: encode_ascii)
  next
    case False
    then have "\<forall>b\<in>set (encode_utf8 c). b \<noteq> CHR 0x0A"
      using Cons.prems encode_newline [of c] by auto
    then show ?thesis
      using False Cons by (simp add: dropWhile_append2)
  qed
qed simp

lemma skip_line_bytes:
  "sc_iter s = map Inr bs \<Longrightarrow>
   \<exists>s'. skip_line s = Inr s' \<and> sc_iter s' = map Inr (tl (dropWhile (\<lambda>b. b \<noteq> CHR 0x0A) bs)) \<and>
        sc_ch s' = sc_ch s \<and> sc_ch2 s' = sc_ch2 s \<and> sc_text s' = sc_text s"
proof (induction bs arbitrary: s)
  case Nil
  then show ?case
    by (simp add: skip_line.simps [of s] next_byte_def)
next
  case (Cons b bs)
  obtain s1 where s1: "next_byte s = Inr (Some b, s1)" "sc_iter s1 = map Inr bs" "sc_ch s1 = sc_ch s" "sc_ch2 s1 = sc_ch2 s"
      "sc_text s1 = sc_text s"
    using next_byte_read [of s b "map Inr bs"] Cons.prems by auto
  then show ?case
    using Cons.IH [OF s1(2)] by (auto simp: skip_line.simps [of s])
qed

lemma set_tl_dropWhile: "x \<in> set (tl (dropWhile P xs)) \<Longrightarrow> x \<in> set xs"
  using set_dropWhileD [of x P xs] by (cases "dropWhile P xs") auto

lemma skip_line_sees:
  assumes "sees s cs" "sc_ch s = None"
  obtains s' where "skip_line s = Inr s'" "sees s' (tl (dropWhile (\<lambda>d. d \<noteq> cp (CHR 0x0A)) cs))" "sc_text s' = sc_text s"
proof -
  have cs: "list_all scalar cs" "sc_iter s = map Inr (encode_all cs)" "sc_ch2 s = None"
    using assms by (auto simp: sees_def pending_def)
  have "list_all scalar (tl (dropWhile (\<lambda>d. d \<noteq> cp (CHR 0x0A)) cs))"
    using cs(1) by (auto simp: list_all_iff dest: set_tl_dropWhile)
  then show thesis
    using that skip_line_bytes [OF cs(2)] skip_encoded [OF cs(1)] assms(2) cs(3)
    by (auto simp: sees_def pending_def)
qed

lemma next_char_skip_sees:
  assumes "sees s cs"
  shows "\<exists>s'. next_char_skip s = Inr (first (skip_blank cs), s') \<and> sees s' (tl (skip_blank cs))"
  using assms
proof (induction cs arbitrary: s rule: skip_blank.induct)
  case 1
  then show ?case
    by (rule next_char_end) (auto simp: next_char_skip.simps [of s])
next
  case (2 c cs)
  obtain s1 where s1: "next_char s = Inr (Some c, s1)" "sees s1 cs" "c \<noteq> cp (CHR ''.'') \<Longrightarrow> sc_ch s1 = None"
    using next_char_sees [OF 2(3)] by blast
  consider "is_blank c" | "\<not> is_blank c" "c = cp (CHR ''#'')" | "\<not> is_blank c" "c \<noteq> cp (CHR ''#'')"
    by blast
  then show ?case
  proof cases
    case 1
    then show ?thesis
      using 2(1) [OF 1 s1(2)] s1(1) by (auto simp: next_char_skip.simps [of s] is_blank_def)
  next
    case b: 2
    then obtain s2 where s2: "skip_line s1 = Inr s2" "sees s2 (tl (dropWhile (\<lambda>d. d \<noteq> cp (CHR 0x0A)) cs))"
      using skip_line_sees [OF s1(2)] s1(3) by auto
    show ?thesis
      using 2(2) [OF b s2(2)] s1(1) s2(1) b by (auto simp: next_char_skip.simps [of s] is_blank_def)
  next
    case 3
    then show ?thesis
      using s1(1,2) by (auto simp: next_char_skip.simps [of s] is_blank_def)
  qed
qed

subsection \<open>Words\<close>

text \<open>The loops that append to the text while a condition on it and the next character holds.\<close>

fun run_of :: "(string \<Rightarrow> nat \<Rightarrow> bool) \<Rightarrow> string \<Rightarrow> string \<Rightarrow> bool" where
  "run_of step t [] = True"
| "run_of step t (c # w) = (step t (cp c) \<and> run_of step (t @ [c]) w)"

definition stops_at :: "(string \<Rightarrow> nat \<Rightarrow> bool) \<Rightarrow> string \<Rightarrow> nat list \<Rightarrow> bool" where
  "stops_at step t rest \<longleftrightarrow> (case rest of [] \<Rightarrow> True | c # _ \<Rightarrow> \<not> step t c)"

locale char_loop =
  fixes loop :: "scanner \<Rightarrow> scanner result" and step :: "string \<Rightarrow> nat \<Rightarrow> bool"
  assumes loop_eq: "loop s = bindR (peek s) (\<lambda>(c, s1).
      case c of
        Some ch \<Rightarrow> if step (sc_text s1) ch then bindR (next_char s1) (\<lambda>(_, s2). loop (push_text ch s2)) else Inr s1
      | None \<Rightarrow> Inr s1)"
    and step_ascii: "step t c \<Longrightarrow> c < 128"
begin

lemma loop_reads:
  assumes "sees s (map cp w @ rest)" "run_of step (sc_text s) w" "stops_at step (sc_text s @ w) rest"
  obtains s' where "loop s = Inr s'" "sees s' rest" "sc_text s' = sc_text s @ w"
  using assms
proof (induction w arbitrary: s thesis)
  case Nil
  then have "sees s rest"
    by simp
  then show ?case
  proof (rule peek_sees)
    fix s'
    assume s': "peek s = Inr (first rest, s')" "sees s' rest" "sc_text s' = sc_text s"
    then have "loop s = Inr s'"
      using Nil.prems(4) by (cases rest) (simp_all add: loop_eq [of s] stops_at_def)
    then show ?case
      using Nil.prems(1) s' by simp
  qed
next
  case (Cons c w)
  then have "sees s (cp c # map cp w @ rest)"
    by simp
  then obtain s1 s2 where s: "peek s = Inr (Some (cp c), s1)" "next_char s1 = Inr (Some (cp c), s2)" "sees s2 (map cp w @ rest)"
      "sc_text s1 = sc_text s" "sc_text s2 = sc_text s"
    by (rule peek_next_sees)
  have c: "step (sc_text s) (cp c)" "encode_utf8 (cp c) = [c]"
    using Cons.prems(3) step_ascii [of "sc_text s" "cp c"] by (simp_all add: encode_ascii)
  show ?case
  proof (rule Cons.IH [of "push_text (cp c) s2"])
    show "sees (push_text (cp c) s2) (map cp w @ rest)" "run_of step (sc_text (push_text (cp c) s2)) w"
        "stops_at step (sc_text (push_text (cp c) s2) @ w) rest"
      using s c Cons.prems(3,4) by simp_all
    fix s'
    assume "loop (push_text (cp c) s2) = Inr s'" "sees s' rest" "sc_text s' = sc_text (push_text (cp c) s2) @ w"
    then show ?case
      using s c by (intro Cons.prems(1) [of s']) (simp_all add: loop_eq [of s])
  qed
qed

end

definition colon_ok :: "string \<Rightarrow> nat \<Rightarrow> bool" where
  "colon_ok t c \<longleftrightarrow>
     c = cp (CHR 0x3A) \<and> (starts_with t (''fn'' @ [CHR 0x3A]) \<or> t = ''fn'') \<and> \<not> ends_with t [CHR 0x3A]"

definition ident_step :: "string \<Rightarrow> nat \<Rightarrow> bool" where
  "ident_step t c \<longleftrightarrow> is_ident c \<or> colon_ok t c"

definition builtin_step :: "string \<Rightarrow> nat \<Rightarrow> bool" where
  "builtin_step t c \<longleftrightarrow> is_ident c \<or> c = cp (CHR 0x3A)"

definition digit_step :: "string \<Rightarrow> nat \<Rightarrow> bool" where
  "digit_step t c \<longleftrightarrow> is_digit c"

lemma is_digit_ascii: "is_digit c \<Longrightarrow> c < 128"
  by (simp add: is_digit_def in_range_def)

lemma is_ident_ascii: "is_ident c \<Longrightarrow> c < 128"
  by (auto simp: is_ident_def is_digit_def in_range_def)

lemma is_name_char_ascii: "is_name_char c \<Longrightarrow> c < 128"
  by (auto simp: is_name_char_def is_digit_def in_range_def)

interpretation ident_chars: char_loop ident_loop ident_step
proof
  show "ident_loop s = bindR (peek s) (\<lambda>(c, s1).
      case c of
        Some ch \<Rightarrow> if ident_step (sc_text s1) ch then bindR (next_char s1) (\<lambda>(_, s2). ident_loop (push_text ch s2)) else Inr s1
      | None \<Rightarrow> Inr s1)" for s
    unfolding ident_loop.simps [of s] ident_step_def colon_ok_def
    by (intro bindR_cong refl) (auto split: option.splits)
qed (auto simp: ident_step_def colon_ok_def is_ident_ascii)

interpretation builtin_chars: char_loop builtin_loop builtin_step
  by (unfold_locales, unfold builtin_step_def, rule builtin_loop.simps, auto simp: is_ident_ascii)

interpretation digit_chars: char_loop digits_loop digit_step
  by (unfold_locales, unfold digit_step_def, rule digits_loop.simps, rule is_digit_ascii)

fun name_run :: "bool \<Rightarrow> string \<Rightarrow> bool" where
  "name_run seen [] = seen"
| "name_run seen (c # w) = (if is_name_char (cp c) then name_run True w else c = CHR ''/'' \<and> seen \<and> name_run False w)"

definition name_stop :: "nat list \<Rightarrow> bool" where
  "name_stop rest \<longleftrightarrow> (case rest of [] \<Rightarrow> True | c # _ \<Rightarrow> \<not> is_name_char c \<and> c \<noteq> cp (CHR ''/''))"

lemma slash_not_name_char: "\<not> is_name_char 47"
  by (simp add: is_name_char_def is_digit_def in_range_def)

lemma name_loop_sees:
  assumes "sees s (map cp w @ rest)" "name_run seen w" "name_stop rest"
  obtains s' where "name_loop seen s = Inr (True, s')" "sees s' rest" "sc_text s' = sc_text s @ w"
  using assms
proof (induction w arbitrary: s seen thesis)
  case Nil
  then have "sees s rest" seen
    by simp_all
  then show ?case
  proof (induction rule: peek_sees [consumes 1, case_names peeked])
    case (peeked s')
    then have "name_loop seen s = Inr (True, s')"
      using Nil.prems(4) by (cases rest) (simp_all add: name_loop.simps [of _ s] name_stop_def)
    then show ?case
      using Nil.prems(1) peeked by simp
  qed
next
  case (Cons c w)
  then have "sees s (cp c # map cp w @ rest)"
    by simp
  then obtain s1 s2 where s: "peek s = Inr (Some (cp c), s1)" "next_char s1 = Inr (Some (cp c), s2)" "sees s2 (map cp w @ rest)"
      "sc_text s1 = sc_text s" "sc_text s2 = sc_text s"
    by (rule peek_next_sees)
  have "cp c < 128"
    using Cons.prems(3) by (auto simp: is_name_char_ascii split: if_splits)
  then have e: "encode_utf8 (cp c) = [c]"
    by (rule encode_cp)
  have run: "name_run (is_name_char (cp c)) w"
    using Cons.prems(3) by (auto split: if_splits)
  show ?case
  proof (rule Cons.IH [of "is_name_char (cp c)" "push_text (cp c) s2"])
    show "sees (push_text (cp c) s2) (map cp w @ rest)" "name_run (is_name_char (cp c)) w" "name_stop rest"
      using s run Cons.prems(4) by simp_all
    fix s'
    assume "name_loop (is_name_char (cp c)) (push_text (cp c) s2) = Inr (True, s')" "sees s' rest" "sc_text s' = sc_text (push_text (cp c) s2) @ w"
    then show ?case
      using s e Cons.prems(3)
      by (intro Cons.prems(1) [of s']) (auto simp: name_loop.simps [of _ s] slash_not_name_char split: if_splits)
  qed
qed

text \<open>A number without a fraction: digits that neither a digit nor a dot and a digit follow.\<close>

definition digits_stop :: "nat list \<Rightarrow> bool" where
  "digits_stop rest \<longleftrightarrow>
     (case rest of [] \<Rightarrow> True
      | c # r \<Rightarrow> \<not> is_digit c \<and> (c = cp (CHR ''.'') \<longrightarrow> (case r of [] \<Rightarrow> True | d # _ \<Rightarrow> \<not> is_digit d)))"

lemma dot_not_digit: "\<not> is_digit 46"
  by (simp add: is_digit_def in_range_def)

lemma numeric_loop_sees:
  assumes "sees s (map cp w @ rest)" "list_all (\<lambda>c. is_digit (cp c)) w" "digits_stop rest"
  obtains s' where "numeric_loop False s = Inr (False, s')" "sees s' rest" "sc_text s' = sc_text s @ w"
  using assms
proof (induction w arbitrary: s thesis)
  case Nil
  then obtain s1 where s1: "peek s = Inr (first rest, s1)" "sees s1 rest" "sc_text s1 = sc_text s"
    using peek_sees [of s rest] by auto
  show ?case
  proof (cases "\<exists>r. rest = cp (CHR ''.'') # r")
    case True
    then obtain r where r: "rest = cp (CHR ''.'') # r"
      by blast
    then obtain s2 where "peek_second s1 = Inr (first r, s2)" "sees s2 rest" "sc_text s2 = sc_text s1"
      using peek_second_sees s1(2) by metis
    then show ?thesis
      using Nil.prems(1,4) s1 r
      by (intro Nil.prems(1) [of s2]) (cases r; auto simp: numeric_loop.simps [of _ s] digits_stop_def dot_not_digit)+
  next
    case False
    then show ?thesis
      using Nil.prems(1,4) s1
      by (intro Nil.prems(1) [of s1]) (cases rest; auto simp: numeric_loop.simps [of _ s] digits_stop_def)+
  qed
next
  case (Cons c w)
  then have "sees s (cp c # map cp w @ rest)"
    by simp
  then obtain s1 s2 where s: "peek s = Inr (Some (cp c), s1)" "next_char s1 = Inr (Some (cp c), s2)" "sees s2 (map cp w @ rest)"
      "sc_text s1 = sc_text s" "sc_text s2 = sc_text s"
    by (rule peek_next_sees)
  have e: "encode_utf8 (cp c) = [c]"
    using Cons.prems(3) by (simp add: encode_ascii is_digit_ascii)
  show ?case
  proof (rule Cons.IH [of "push_text (cp c) s2"])
    show "sees (push_text (cp c) s2) (map cp w @ rest)" "list_all (\<lambda>c. is_digit (cp c)) w" "digits_stop rest"
      using s Cons.prems by simp_all
    fix s'
    assume "numeric_loop False (push_text (cp c) s2) = Inr (False, s')" "sees s' rest" "sc_text s' = sc_text (push_text (cp c) s2) @ w"
    then show ?case
      using s e Cons.prems(3) by (intro Cons.prems(1) [of s']) (simp_all add: numeric_loop.simps [of _ s])
  qed
qed

lemma string_loop_sees:
  assumes "sees s (cs @ delim # rest)" "delim \<notin> set cs"
  obtains s' where "string_loop delim s = Inr s'" "sees s' rest" "sc_text s' = sc_text s @ encode_all cs"
  using assms
proof (induction cs arbitrary: s thesis)
  case Nil
  then have "sees s (delim # rest)"
    by simp
  then show ?case
    by (rule next_char_sees) (use Nil.prems(1) in \<open>auto simp: string_loop.simps [of _ s]\<close>)
next
  case (Cons c cs)
  then have "sees s (c # cs @ delim # rest)"
    by simp
  then obtain s1 where s1: "next_char s = Inr (Some c, s1)" "sees s1 (cs @ delim # rest)" "sc_text s1 = sc_text s"
    by (rule next_char_sees)
  show ?case
  proof (rule Cons.IH [of "push_text c s1"])
    show "sees (push_text c s1) (cs @ delim # rest)" "delim \<notin> set cs"
      using s1 Cons.prems by simp_all
    fix s'
    assume "string_loop delim (push_text c s1) = Inr s'" "sees s' rest" "sc_text s' = sc_text (push_text c s1) @ encode_all cs"
    then show ?case
      using s1 Cons.prems(3) by (intro Cons.prems(1) [of s']) (simp_all add: string_loop.simps [of _ s])
  qed
qed

subsection \<open>Tokens\<close>

text \<open>\<open>w\<close> is scanned as the token \<open>t\<close> when \<open>rest\<close> follows.\<close>

definition scans :: "lit_env \<Rightarrow> string \<Rightarrow> token \<Rightarrow> nat list \<Rightarrow> bool" where
  "scans E w t rest \<longleftrightarrow> (\<forall>s. sees s (map cp w @ rest) \<longrightarrow> (\<exists>s'. next_token E s = Inr (t, s') \<and> sees s' rest))"

lemma scans_blank:
  assumes "is_blank b" "sees s (b # cs)"
  obtains s1 where "sees s1 cs" "next_token E s = next_token E s1"
proof -
  obtain s1 where s1: "next_char s = Inr (Some b, s1)" "sees s1 cs"
    using assms(2) by (rule next_char_sees)
  then have "next_char_skip s = next_char_skip s1"
    using assms(1) by (auto simp: next_char_skip.simps [of s] is_blank_def)
  then show thesis
    using that s1(2) by (simp add: next_token_def next_token_internal_def)
qed

lemma scansI:
  assumes "\<not> is_blank (cp c)" "c \<noteq> CHR ''#''"
    and "\<And>s s1. next_char_skip s = Inr (Some (cp c), s1) \<Longrightarrow> sees s1 (map cp w @ rest) \<Longrightarrow> \<exists>s'. next_token E s = Inr (t, s') \<and> sees s' rest"
  shows "scans E (c # w) t rest"
  unfolding scans_def
proof (intro allI impI)
  fix s
  assume s: "sees s (map cp (c # w) @ rest)"
  have "cp c \<noteq> cp (CHR ''#'')"
    using assms(2) of_char_eq_iff by blast
  then have "skip_blank (map cp (c # w) @ rest) = cp c # map cp w @ rest"
    using assms(1) by simp
  then show "\<exists>s'. next_token E s = Inr (t, s') \<and> sees s' rest"
    using next_char_skip_sees [OF s] assms(3) by auto
qed

lemma scans_end: "sees s [] \<Longrightarrow> \<exists>s'. next_token E s = Inr (TkEof, s') \<and> sees s' []"
  using next_char_skip_sees [of s "[]"] by (auto simp: next_token_def next_token_internal_def)

lemmas token_simps = next_token_def next_token_internal_def single_tokens_def long_arrow_def is_blank_def

lemma scans_single:
  assumes "map_of single_tokens (cp c) = Some t"
  shows "scans E [c] t rest"
proof (rule scansI)
  show "\<not> is_blank (cp c)" "c \<noteq> CHR ''#''"
    using assms by (auto simp: single_tokens_def is_blank_def long_arrow_def split: if_splits)
qed (use assms in \<open>auto simp: next_token_def next_token_internal_def\<close>)

lemma if_next_yes:
  assumes "sees s (cp c # rest)"
  shows "\<exists>s'. if_next c yes no s = Inr (yes, s') \<and> sees s' rest"
  using assms by (rule peek_next_sees) (auto simp: if_next_def)

lemma if_next_no:
  assumes "sees s rest" "first rest \<noteq> Some (cp c)"
  shows "\<exists>s'. if_next c yes no s = Inr (no, s') \<and> sees s' rest"
  using assms(1) by (rule peek_sees) (use assms(2) in \<open>auto simp: if_next_def\<close>)

lemma scans_pairs:
  "scans E ''!='' TkBangEq rest" "scans E ''<='' TkLe rest" "scans E ''>='' TkGe rest" "scans E ''|>'' TkPipeGt rest"
  using if_next_yes by (auto intro!: scansI simp: token_simps)

lemma scans_unpaired:
  "first rest \<noteq> Some (cp (CHR ''='')) \<Longrightarrow> scans E ''!'' TkBang rest"
  "first rest \<noteq> Some (cp (CHR ''='')) \<Longrightarrow> scans E ''<'' TkLt rest"
  "first rest \<noteq> Some (cp (CHR ''='')) \<Longrightarrow> scans E ''>'' TkGt rest"
  "first rest \<noteq> Some (cp (CHR ''>'')) \<Longrightarrow> scans E ''|'' TkPipe rest"
  using if_next_no by (auto intro!: scansI simp: token_simps)

lemma scans_colon_dash: "scans E [CHR 0x3A, CHR ''-''] TkColonDash rest"
proof (rule scansI)
  fix s s1
  assume s: "next_char_skip s = Inr (Some (cp (CHR 0x3A)), s1)" and "sees s1 (map cp [CHR ''-''] @ rest)"
  then have "sees s1 (cp (CHR ''-'') # rest)"
    by simp
  then show "\<exists>s'. next_token E s = Inr (TkColonDash, s') \<and> sees s' rest"
    by (rule peek_next_sees) (use s in \<open>auto simp: token_simps after_colon_def\<close>)
qed (simp_all add: is_blank_def)

lemma scans_colon:
  assumes "first rest \<noteq> Some (cp (CHR ''-''))" "\<forall>c. first rest = Some c \<longrightarrow> \<not> is_ident_start c"
  shows "scans E [CHR 0x3A] TkColon rest"
proof (rule scansI)
  fix s s1
  assume s: "next_char_skip s = Inr (Some (cp (CHR 0x3A)), s1)" and "sees s1 (map cp [] @ rest)"
  then have "sees s1 rest"
    by simp
  then show "\<exists>s'. next_token E s = Inr (TkColon, s') \<and> sees s' rest"
    by (rule peek_sees) (use s assms in \<open>auto simp: token_simps after_colon_def split: option.splits\<close>)
qed (simp_all add: is_blank_def)

lemma scans_dot:
  assumes "\<forall>c. first rest = Some c \<longrightarrow> \<not> in_range c CHR ''A'' CHR ''Z''"
  shows "scans E ''.'' TkDot rest"
proof (rule scansI)
  fix s s1
  assume s: "next_char_skip s = Inr (Some (cp (CHR ''.'')), s1)" and "sees s1 (map cp [] @ rest)"
  then have "sees s1 rest"
    by simp
  then show "\<exists>s'. next_token E s = Inr (TkDot, s') \<and> sees s' rest"
    by (rule peek_sees) (use s assms in \<open>auto simp: token_simps after_dot_def split: option.splits\<close>)
qed (simp_all add: is_blank_def)

lemma scans_name:
  assumes "name_run False w" "name_stop rest"
  shows "scans E (CHR ''/'' # w) (TkName (CHR ''/'' # w)) rest"
proof (rule scansI)
  fix s s1
  assume s: "next_char_skip s = Inr (Some (cp (CHR ''/'')), s1)" and "sees s1 (map cp w @ rest)"
  then have "sees (push_text (cp (CHR ''/'')) (clear_text s1)) (map cp w @ rest)"
    by simp
  then show "\<exists>s'. next_token E s = Inr (TkName (CHR ''/'' # w), s') \<and> sees s' rest"
    using assms
  proof (rule name_loop_sees)
    fix s'
    assume "name_loop False (push_text (cp (CHR ''/'')) (clear_text s1)) = Inr (True, s')" "sees s' rest"
      "sc_text s' = sc_text (push_text (cp (CHR ''/'')) (clear_text s1)) @ w"
    moreover have "encode_utf8 (cp (CHR ''/'')) = ''/''"
      by code_simp
    ultimately show ?thesis
      using s by (auto simp: token_simps scan_name_def)
  qed
qed (simp_all add: is_blank_def)

text \<open>Identifiers and keywords.\<close>

definition word_token :: "string \<Rightarrow> token" where
  "word_token w = (case keyword w of Some t \<Rightarrow> t | None \<Rightarrow> TkIdent w)"

lemma ident_start_codes:
  assumes "is_ident_start c"
  shows "\<not> is_blank c" "c \<noteq> 35" "map_of single_tokens c = None" "c \<noteq> 33" "c \<noteq> 60" "c \<noteq> 62" "c \<noteq> 58" "c \<noteq> 124" "c \<noteq> 46"
    "c \<noteq> 47" "c \<noteq> 39" "c \<noteq> 34" "c \<noteq> 96" "\<not> is_digit c" "c \<noteq> 45" "c < 128"
  using assms
  by (auto simp: is_ident_start_def is_blank_def in_range_def is_digit_def single_tokens_def long_arrow_def)

definition byte_quote :: "string \<Rightarrow> nat list \<Rightarrow> bool" where
  "byte_quote w rest \<longleftrightarrow> w = ''b'' \<and> (first rest = Some (cp (CHR 0x27)) \<or> first rest = Some (cp (CHR 0x22)))"

lemma scan_ident_reads:
  assumes "sees s (map cp w @ rest)" "run_of ident_step [c] w" "stops_at ident_step (c # w) rest" "cp c < 128"
  shows "\<exists>s'. scan_ident (cp c) s = Inr (word_token (c # w), s') \<and> sees s' rest"
proof -
  have t: "sc_text (push_text (cp c) (clear_text s)) = [c]"
    using assms(4) by (simp add: encode_cp)
  obtain s' where "ident_loop (push_text (cp c) (clear_text s)) = Inr s'" "sees s' rest" "sc_text s' = c # w"
    using ident_chars.loop_reads [of "push_text (cp c) (clear_text s)" w rest] assms t by auto
  then show ?thesis
    by (auto simp: scan_ident_def ident_or_dot_ident_def word_token_def split: option.splits)
qed

lemma ident_step_quotes: "ident_step t c \<Longrightarrow> c \<noteq> 39 \<and> c \<noteq> 34"
  by (auto simp: ident_step_def colon_ok_def is_ident_def is_digit_def in_range_def)

lemma ident_or_bytes_ident:
  assumes "sees s (map cp w @ rest)" "run_of ident_step [c] w" "stops_at ident_step (c # w) rest" "cp c < 128" "\<not> byte_quote (c # w) rest"
  shows "\<exists>s'. ident_or_bytes (cp c) s = Inr (word_token (c # w), s') \<and> sees s' rest"
proof (cases "c = CHR ''b''")
  case True
  obtain s1 where s1: "peek s = Inr (first (map cp w @ rest), s1)" "sees s1 (map cp w @ rest)"
    using assms(1) by (rule peek_sees)
  have "first (map cp w @ rest) \<noteq> Some 39" "first (map cp w @ rest) \<noteq> Some 34"
    using assms(2,5) True ident_step_quotes [of "''b''"] by (cases w; auto simp: byte_quote_def)+
  then have "ident_or_bytes (cp c) s = scan_ident (cp c) s1"
    using True s1(1) by (simp add: ident_or_bytes_def)
  then show ?thesis
    using scan_ident_reads [OF s1(2) assms(2,3,4)] by simp
next
  case False
  have "cp c \<noteq> cp (CHR ''b'')"
    using False of_char_eq_iff by blast
  then show ?thesis
    using scan_ident_reads [OF assms(1-4)] by (simp add: ident_or_bytes_def)
qed

lemma scans_word:
  assumes "is_ident_start (cp c)" "run_of ident_step [c] w" "stops_at ident_step (c # w) rest" "\<not> byte_quote (c # w) rest"
  shows "scans E (c # w) (word_token (c # w)) rest"
proof (rule scansI)
  fix s s1
  assume s: "next_char_skip s = Inr (Some (cp c), s1)" and s1: "sees s1 (map cp w @ rest)"
  show "\<exists>s'. next_token E s = Inr (word_token (c # w), s') \<and> sees s' rest"
    using ident_or_bytes_ident [OF s1 assms(2,3) _ assms(4)] ident_start_codes [OF assms(1)] assms(1) s
    by (simp add: next_token_def next_token_internal_def)
qed (use ident_start_codes(1,2) [OF assms(1)] in auto)

lemma scans_builtin:
  assumes "is_ident_start (cp c)" "run_of builtin_step [CHR 0x3A] (c # w)" "stops_at builtin_step (CHR 0x3A # c # w) rest"
  shows "scans E (CHR 0x3A # c # w) (TkIdent (CHR 0x3A # c # w)) rest"
proof (rule scansI)
  fix s s1
  assume s: "next_char_skip s = Inr (Some (cp (CHR 0x3A)), s1)" and s1: "sees s1 (map cp (c # w) @ rest)"
  obtain s2 where s2: "peek s1 = Inr (Some (cp c), s2)" "sees s2 (map cp (c # w) @ rest)"
    using peek_sees [OF s1] by auto
  have "encode_utf8 (cp (CHR 0x3A)) = [CHR 0x3A]"
    by code_simp
  then have t: "sc_text (push_text (cp (CHR 0x3A)) (clear_text s2)) = [CHR 0x3A]"
    by simp
  obtain s3 where "builtin_loop (push_text (cp (CHR 0x3A)) (clear_text s2)) = Inr s3" "sees s3 rest" "sc_text s3 = CHR 0x3A # c # w"
    using builtin_chars.loop_reads [of "push_text (cp (CHR 0x3A)) (clear_text s2)" "c # w" rest] assms(2,3) s2(2) t
    by auto
  then show "\<exists>s'. next_token E s = Inr (TkIdent (CHR 0x3A # c # w), s') \<and> sees s' rest"
    using s s2(1) assms(1) ident_start_codes(15) [OF assms(1)] by (simp add: token_simps after_colon_def builtin_predicate_def)
qed (simp_all add: is_blank_def)

text \<open>Numbers.\<close>

definition number_stop :: "string \<Rightarrow> nat list \<Rightarrow> bool" where
  "number_stop w rest \<longleftrightarrow> digits_stop rest \<and> \<not> duration_suffix (first rest) \<and> \<not> (length w = 4 \<and> first rest = Some (cp (CHR ''-'')))"

lemma digit_codes:
  assumes "is_digit c"
  shows "\<not> is_blank c" "c \<noteq> 35" "map_of single_tokens c = None" "c \<noteq> 33" "c \<noteq> 60" "c \<noteq> 62" "c \<noteq> 58" "c \<noteq> 124" "c \<noteq> 46"
    "c \<noteq> 47" "c \<noteq> 39" "c \<noteq> 34" "c \<noteq> 96" "c \<noteq> 45" "c < 128"
  using assms by (auto simp: is_blank_def in_range_def is_digit_def single_tokens_def long_arrow_def)

lemma numeric_loop_first:
  assumes "sees s (map cp w @ rest)" "list_all (\<lambda>c. is_digit (cp c)) w" "digits_stop rest" "cp c < 128"
  obtains s' where "numeric_loop False (push_text (cp c) (clear_text s)) = Inr (False, s')" "sees s' rest" "sc_text s' = c # w"
proof -
  have "sees (push_text (cp c) (clear_text s)) (map cp w @ rest)"
    using assms(1) by simp
  then show thesis
    using assms(2,3) by (rule numeric_loop_sees) (use that assms(4) in \<open>auto simp: encode_cp\<close>)
qed

lemma numeric_reads:
  assumes "sees s (map cp w @ rest)" "list_all (\<lambda>c. is_digit (cp c)) w" "cp c < 128" "parse_i64 (c # w) = Some n"
    "if c = CHR ''-'' then digits_stop rest else number_stop (c # w) rest"
  shows "\<exists>s'. numeric E (cp c) s = Inr (TkInt n, s') \<and> sees s' rest"
proof -
  have "digits_stop rest"
    using assms(5) by (simp add: number_stop_def split: if_splits)
  with assms(1,2) obtain s1 where s1: "numeric_loop False (push_text (cp c) (clear_text s)) = Inr (False, s1)" "sees s1 rest" "sc_text s1 = c # w"
    using assms(3) by (rule numeric_loop_first)
  show ?thesis
  proof (cases "c = CHR ''-''")
    case True
    then show ?thesis
      using s1 assms(4) by (simp add: numeric_def numeric_value_def)
  next
    case False
    then have ns: "number_stop (c # w) rest" "cp c \<noteq> 45"
      using assms(5) of_char_eq_iff [of c "CHR ''-''"] by auto
    obtain s2 where s2: "peek s1 = Inr (first rest, s2)" "sees s2 rest" "sc_text s2 = sc_text s1"
      using s1(2) by (rule peek_sees)
    obtain s3 where s3: "peek s2 = Inr (first rest, s3)" "sees s3 rest" "sc_text s3 = sc_text s2"
      using s2(2) by (rule peek_sees)
    show ?thesis
      using s1 s2 s3 ns assms(4) by (auto simp: numeric_def numeric_value_def number_stop_def)
  qed
qed

lemma scans_int:
  assumes "number_stop (show_int (sint n)) rest"
  shows "scans E (show_int (sint n)) (TkInt n) rest"
proof (cases "sint n < 0")
  case True
  let ?w = "show_nat (nat (- sint n))"
  have w: "show_int (sint n) = CHR ''-'' # ?w"
    using True by (simp add: show_int_def)
  have d: "list_all (\<lambda>c. is_digit (cp c)) ?w"
    using show_nat_digits [of "nat (- sint n)"] by (simp add: is_digit_def in_range_def is_ascii_digit_def [abs_def])
  obtain d0 w0 where w0: "?w = d0 # w0" "is_digit (cp d0)"
    using d by (cases ?w) auto
  show ?thesis
    unfolding w
  proof (rule scansI)
    fix s s1
    assume s: "next_char_skip s = Inr (Some (cp (CHR ''-'')), s1)" and s1: "sees s1 (map cp ?w @ rest)"
    obtain s2 where s2: "peek s1 = Inr (Some (cp d0), s2)" "sees s2 (map cp ?w @ rest)"
      using peek_sees [OF s1] w0(1) by auto
    have "\<exists>s'. numeric E (cp (CHR ''-'')) s2 = Inr (TkInt n, s') \<and> sees s' rest"
      using assms parse_i64_show_int [of n] w by (intro numeric_reads [OF s2(2) d]) (simp_all add: number_stop_def)
    then show "\<exists>s'. next_token E s = Inr (TkInt n, s') \<and> sees s' rest"
      using s s2(1) w0(2) by (simp add: token_simps after_minus_def is_digit_def in_range_def is_ident_start_def)
  qed (simp_all add: is_blank_def)
next
  case False
  let ?w = "show_nat (nat (sint n))"
  have w: "show_int (sint n) = ?w"
    using False by (simp add: show_int_def)
  have "list_all (\<lambda>c. is_digit (cp c)) ?w"
    using show_nat_digits [of "nat (sint n)"] by (simp add: is_digit_def in_range_def is_ascii_digit_def [abs_def])
  then obtain c w0 where w0: "?w = c # w0" "is_digit (cp c)" "list_all (\<lambda>c. is_digit (cp c)) w0"
    by (cases ?w) auto
  note codes = digit_codes [OF w0(2)]
  show ?thesis
    unfolding w w0(1)
  proof (rule scansI)
    fix s s1
    assume s: "next_char_skip s = Inr (Some (cp c), s1)" and s1: "sees s1 (map cp w0 @ rest)"
    have "\<exists>s'. numeric E (cp c) s1 = Inr (TkInt n, s') \<and> sees s' rest"
      using assms parse_i64_show_int [of n] w w0(1) codes
      by (intro numeric_reads [OF s1 w0(3)]) (auto simp: number_stop_def)
    then show "\<exists>s'. next_token E s = Inr (TkInt n, s') \<and> sees s' rest"
      using s codes w0(2) by (simp add: next_token_def next_token_internal_def)
  qed (use codes in auto)
qed

text \<open>Strings: the closing quote is the first one, so a literal must not contain it, not even escaped.\<close>

definition plain_string :: "string \<Rightarrow> bool" where
  "plain_string s \<longleftrightarrow> list_all (\<lambda>c. plain_char (cp c) \<and> c \<noteq> CHR 0x22) s"

lemma plain_char_ascii: "plain_char c \<Longrightarrow> c < 128"
  by (auto simp: plain_char_def direct_def letter_escaped_def)

lemma plain_string_ascii: "plain_string s \<Longrightarrow> ascii s"
  using plain_char_ascii by (auto simp: plain_string_def ascii_def list_all_iff)

lemma direct_no_quote:
  assumes "direct c"
  shows "CHR 0x22 \<notin> set (quote_char c)"
proof -
  have "CHR 0x22 \<noteq> (char_of c :: char)"
  proof
    assume "CHR 0x22 = (char_of c :: char)"
    then have "cp (CHR 0x22) = cp (char_of c)"
      by (rule arg_cong)
    then show False
      using assms by (simp add: direct_def of_char_of)
  qed
  then show ?thesis
    unfolding quote_direct [OF assms] by simp
qed

lemma escaped_no_quote: "CHR 0x22 \<notin> set (quote_char 9)" "CHR 0x22 \<notin> set (quote_char 10)" "CHR 0x22 \<notin> set (quote_char 13)"
    "CHR 0x22 \<notin> set (quote_char 92)"
  by (simp_all add: quote_char_def escape_default_def char_of_codes(2))

lemma quote_char_no_quote:
  assumes "plain_char c" "c \<noteq> 34"
  shows "CHR 0x22 \<notin> set (quote_char c)"
proof (cases "direct c")
  case False
  then have "c = 9 \<or> c = 10 \<or> c = 13 \<or> c = 92"
    using assms by (auto simp: plain_char_def letter_escaped_def)
  then show ?thesis
    using escaped_no_quote by metis
qed (rule direct_no_quote)

lemma text_no_quote: "plain_string s \<Longrightarrow> CHR 0x22 \<notin> set (text_of (map cp s))"
proof (induction s)
  case (Cons c s)
  then have "plain_char (cp c)" "c \<noteq> CHR 0x22" "plain_string s"
    by (simp_all add: plain_string_def)
  moreover have "cp c \<noteq> 34"
    using \<open>c \<noteq> CHR 0x22\<close> of_char_eq_iff [of c "CHR 0x22"] by auto
  ultimately show ?case
    using Cons.IH quote_char_no_quote [of "cp c"] by (simp add: text_Cons)
qed (simp add: text_of_def)

lemma scans_string:
  assumes "plain_string str"
  shows "scans E ([CHR 0x22] @ text_of (map cp str) @ [CHR 0x22]) (TkString str) rest"
  unfolding append_Cons append_Nil
proof (rule scansI)
  fix s s1
  let ?t = "text_of (map cp str)"
  assume s: "next_char_skip s = Inr (Some (cp (CHR 0x22)), s1)" and "sees s1 (map cp (?t @ [CHR 0x22]) @ rest)"
  then have s1: "sees (push_text (cp (CHR 0x22)) (clear_text s1)) (map cp ?t @ cp (CHR 0x22) # rest)"
    by simp
  have "cp (CHR 0x22) \<notin> set (map cp ?t)"
    using text_no_quote [OF assms] of_char_eq_iff by (metis (no_types, lifting) image_iff list.set_map)
  with s1 obtain s2 where s2: "string_loop (cp (CHR 0x22)) (push_text (cp (CHR 0x22)) (clear_text s1)) = Inr s2" "sees s2 rest"
      "sc_text s2 = sc_text (push_text (cp (CHR 0x22)) (clear_text s1)) @ encode_all (map cp ?t)"
    by (rule string_loop_sees)
  have q: "encode_utf8 (cp (CHR 0x22)) = [CHR 0x22]"
    by code_simp
  have "list_all plain_char (map cp str)"
    using assms by (simp add: plain_string_def list_all_iff)
  then have "unquote (sc_text (push_text (cp (CHR 0x22)) s2)) = Inr (DString str)"
    using unquote_text [of "map cp str"] s2(3) q text_ascii [of "map cp str"] by (simp add: encode_ascii_string comp_def)
  then show "\<exists>s'. next_token E s = Inr (TkString str, s') \<and> sees s' rest"
    using s s2(1,2) by (simp add: token_simps scan_string_def is_digit_def in_range_def)
qed (simp_all add: is_blank_def)

subsection \<open>Tokens written out\<close>

fun ident_text :: "string \<Rightarrow> bool" where
  "ident_text [] = False"
| "ident_text (c # w) = (is_ident_start (cp c) \<and> run_of ident_step [c] w \<and> keyword (c # w) = None)"

fun builtin_text :: "string \<Rightarrow> bool" where
  "builtin_text (c # d # w) = (c = CHR 0x3A \<and> is_ident_start (cp d) \<and> run_of builtin_step [c] (d # w))"
| "builtin_text _ = False"

fun name_text :: "string \<Rightarrow> bool" where
  "name_text [] = False"
| "name_text (c # w) = (c = CHR ''/'' \<and> name_run False w)"

fun scannable :: "token \<Rightarrow> bool" where
  "scannable (TkName n) = name_text n"
| "scannable (TkIdent w) = (ident_text w \<or> builtin_text w)"
| "scannable (TkString s) = plain_string s"
| "scannable t = (t \<notin> {TkIllegal, TkEof, TkGe} \<and>
     (case t of TkDotIdent _ \<Rightarrow> False | TkFloat _ \<Rightarrow> False | TkBytes _ \<Rightarrow> False | TkTimestamp _ \<Rightarrow> False | TkDuration _ \<Rightarrow> False | _ \<Rightarrow> True))"

text \<open>What stops a token: a character that does not continue it.\<close>

definition separates :: "string \<Rightarrow> nat list \<Rightarrow> bool" where
  "separates w rest \<longleftrightarrow>
     name_stop rest \<and> stops_at ident_step w rest \<and> stops_at builtin_step w rest \<and> number_stop w rest \<and> \<not> byte_quote w rest \<and>
     first rest \<notin> {Some (cp (CHR ''='')), Some (cp (CHR ''-'')), Some (cp (CHR ''>''))} \<and>
     (case rest of [] \<Rightarrow> True | c # _ \<Rightarrow> \<not> is_ident_start c)"

lemma separatesD:
  assumes "separates w rest"
  shows "name_stop rest" "stops_at ident_step w rest" "stops_at builtin_step w rest" "number_stop w rest" "\<not> byte_quote w rest"
    "first rest \<noteq> Some (cp (CHR ''=''))" "first rest \<noteq> Some (cp (CHR ''-''))" "first rest \<noteq> Some (cp (CHR ''>''))"
    "\<forall>c. first rest = Some c \<longrightarrow> \<not> is_ident_start c" "\<forall>c. first rest = Some c \<longrightarrow> \<not> in_range c CHR ''A'' CHR ''Z''"
  using assms by (auto simp: separates_def first_def is_ident_start_def split: list.splits)

lemma separates_space: "separates w (cp (CHR '' '') # rest)"
  by (simp add: separates_def name_stop_def stops_at_def ident_step_def colon_ok_def builtin_step_def number_stop_def
      digits_stop_def byte_quote_def duration_suffix_def is_name_char_def is_ident_def is_digit_def is_ident_start_def in_range_def)

lemma scans_ident_text: "ident_text w \<Longrightarrow> separates w rest \<Longrightarrow> scans E w (TkIdent w) rest"
  using separatesD(2,5) [of w rest] scans_word [of "hd w" "tl w" rest E] by (cases w) (auto simp: word_token_def)

lemma scans_builtin_text: "builtin_text w \<Longrightarrow> separates w rest \<Longrightarrow> scans E w (TkIdent w) rest"
  using separatesD(3) [of w rest] scans_builtin [of "w ! 1" "drop 2 w" rest E] by (cases w rule: builtin_text.cases) auto

lemma scans_name_text: "name_text w \<Longrightarrow> separates w rest \<Longrightarrow> scans E w (TkName w) rest"
  using separatesD(1) [of w rest] scans_name [of "tl w" rest E] by (cases w) auto

lemma keyword_ne: "keyword w = Some t \<Longrightarrow> w \<noteq> [] \<and> list_all (\<lambda>c. is_ident (cp c)) w \<and> is_ident_start (cp (hd w)) \<and> w \<noteq> ''b''"
  by (auto simp: keyword_def is_ident_def is_ident_start_def in_range_def split: if_splits)

lemma run_of_idents: "list_all (\<lambda>c. is_ident (cp c)) w \<Longrightarrow> run_of ident_step t w"
  by (induction w arbitrary: t) (auto simp: ident_step_def)

lemma scans_keyword:
  assumes "keyword w = Some t" "separates w rest"
  shows "scans E w t rest"
proof -
  obtain c v where w: "w = c # v" "is_ident_start (cp c)" "list_all (\<lambda>c. is_ident (cp c)) v"
    using keyword_ne [OF assms(1)] by (cases w) auto
  then show ?thesis
    using scans_word [OF w(2), of v rest E] run_of_idents [OF w(3)] separatesD(2,5) [OF assms(2)] assms(1)
    by (simp add: word_token_def)
qed

lemma scans_display:
  assumes "scannable t" "separates (token_display E t) rest" "t \<noteq> TkLongLeftDoubleArrow"
  shows "scans E (token_display E t) t rest"
proof -
  note sep = separatesD [OF assms(2)]
  show ?thesis
  proof (cases t)
    case (TkName n)
    then show ?thesis
      using assms(1,2) by (simp add: scans_name_text)
  next
    case (TkIdent w)
    then show ?thesis
      using assms(1,2) by (auto intro: scans_ident_text scans_builtin_text)
  next
    case (TkInt n)
    then show ?thesis
      using sep(4) scans_int by simp
  next
    case (TkString s)
    moreover have "quote s = [CHR 0x22] @ text_of (map cp s) @ [CHR 0x22]"
      if "plain_string s"
      using ascii_chars [OF plain_string_ascii [OF that]] by (simp add: quote_def text_of_def)
    ultimately show ?thesis
      using assms(1) scans_string [of s E rest] by simp
  qed (use assms(1,3) sep scans_pairs scans_unpaired scans_colon scans_colon_dash scans_dot scans_keyword [OF _ assms(2)] in
      \<open>simp_all add: scans_single single_tokens_def long_arrow_def keyword_def\<close>)
qed

text \<open>The characters of a displayed token.\<close>

definition written :: "lit_env \<Rightarrow> token \<Rightarrow> nat list" where
  "written E t = (if t = TkLongLeftDoubleArrow then [long_arrow] else map cp (token_display E t))"

lemma scans_written:
  assumes "scannable t" "sees s (written E t @ cp (CHR '' '') # rest)"
  shows "\<exists>s'. next_token E s = Inr (t, s') \<and> sees s' (cp (CHR '' '') # rest)"
proof (cases "t = TkLongLeftDoubleArrow")
  case True
  then obtain s' where "next_char_skip s = Inr (Some long_arrow, s')" "sees s' (cp (CHR '' '') # rest)"
    using next_char_skip_sees [OF assms(2)] by (auto simp: written_def is_blank_def long_arrow_def)
  then show ?thesis
    using True by (simp add: token_simps)
next
  case False
  then have "scans E (token_display E t) t (cp (CHR '' '') # rest)"
    using assms(1) separates_space by (intro scans_display)
  then show ?thesis
    using assms(2) False unfolding scans_def written_def by simp
qed

fun yields :: "lit_env \<Rightarrow> scanner \<Rightarrow> token list \<Rightarrow> bool" where
  "yields E s [] = (case next_token E s of Inl _ \<Rightarrow> False | Inr (t, _) \<Rightarrow> t = TkEof)"
| "yields E s (t # ts) = (case next_token E s of Inl _ \<Rightarrow> False | Inr (t', s') \<Rightarrow> t' = t \<and> yields E s' ts)"

definition spaced :: "lit_env \<Rightarrow> token list \<Rightarrow> string" where
  "spaced E ts = concat (map (\<lambda>t. token_display E t @ '' '') ts)"

lemma yields_blank: "is_blank b \<Longrightarrow> sees s (b # cs) \<Longrightarrow> \<exists>s1. sees s1 cs \<and> yields E s ts = yields E s1 ts"
  by (erule scans_blank [where E = E], assumption) (cases ts; auto)

lemma yields_written:
  "list_all scannable ts \<Longrightarrow> sees s (concat (map (\<lambda>t. written E t @ [cp (CHR '' '')]) ts)) \<Longrightarrow> yields E s ts"
proof (induction ts arbitrary: s)
  case Nil
  then show ?case
    using scans_end [of s E] by auto
next
  case (Cons t ts)
  then have "sees s (written E t @ cp (CHR '' '') # concat (map (\<lambda>t. written E t @ [cp (CHR '' '')]) ts))"
    by simp
  then obtain s1 where s1: "next_token E s = Inr (t, s1)" "sees s1 (cp (CHR '' '') # concat (map (\<lambda>t. written E t @ [cp (CHR '' '')]) ts))"
    using scans_written [of t s E] Cons.prems(1) by auto
  then obtain s2 where "sees s2 (concat (map (\<lambda>t. written E t @ [cp (CHR '' '')]) ts))" "yields E s1 ts = yields E s2 ts"
    using yields_blank [OF _ s1(2), of E ts] by (auto simp: is_blank_def)
  then show ?case
    using Cons s1(1) by auto
qed

lemma display_ascii:
  assumes "scannable t" "t \<noteq> TkLongLeftDoubleArrow"
  shows "ascii (token_display E t)"
proof -
  have name: "ascii w" if "name_run b w" for b w
    using that by (induction w arbitrary: b) (auto simp: is_name_char_ascii split: if_splits)
  have run: "ascii w" if "run_of st u w" "\<And>t c. st t c \<Longrightarrow> c < 128" for st u w
    using that by (induction w arbitrary: u) auto
  have digits: "ascii (show_nat n)" for n
    using show_nat_digits [of n] by (auto simp: ascii_def is_ascii_digit_def list_all_iff)
  show ?thesis
  proof (cases t)
    case (TkName n)
    then show ?thesis
      using assms(1) name by (cases n) auto
  next
    case (TkIdent w)
    then show ?thesis
      using assms(1) run [of ident_step] run [of builtin_step] ident_start_codes(16) ident_chars.step_ascii builtin_chars.step_ascii
      by (cases w rule: builtin_text.cases) auto
  next
    case (TkInt n)
    then show ?thesis
      using digits by (simp add: show_int_def)
  next
    case (TkString s)
    then show ?thesis
      using text_ascii by (simp add: quote_def text_of_def)
  qed (use assms in simp_all)
qed

lemma ascii_all_scalar: "ascii s \<Longrightarrow> list_all scalar (map cp s)"
  by (induction s) (simp_all add: ascii_scalar)

lemma encode_written:
  assumes "scannable t"
  shows "encode_all (written E t) = token_display E t" "list_all scalar (written E t)"
proof -
  have "scalar long_arrow"
    by (simp add: scalar_def from_u32_def long_arrow_def)
  then show "encode_all (written E t) = token_display E t" "list_all scalar (written E t)"
    using display_ascii [OF assms] encode_ascii_string ascii_all_scalar by (auto simp: written_def)
qed

lemma encode_spaced:
  "list_all scannable ts \<Longrightarrow> encode_all (concat (map (\<lambda>t. written E t @ [cp (CHR '' '')]) ts)) = spaced E ts"
proof (induction ts)
  case (Cons t ts)
  moreover have "encode_utf8 (cp (CHR '' '')) = '' ''"
    by code_simp
  ultimately show ?case
    by (simp add: spaced_def encode_written(1))
qed (simp add: spaced_def)

lemma scalar_spaced: "list_all scannable ts \<Longrightarrow> list_all scalar (concat (map (\<lambda>t. written E t @ [cp (CHR '' '')]) ts))"
  by (induction ts) (simp_all add: encode_written(2) ascii_scalar)

text \<open>C26: Tokens survive being displayed: the text of a sequence of tokens, each followed by a blank, is scanned as
  exactly these tokens and the end of the input.  It holds for names and identifiers that are spelled as such,
  all integers, strings that the quoting writes without a quote inside, and every punctuation and keyword but
  \<open>>=\<close>, whose display is wrong; the other literals are displayed in a form of their own.\<close>

theorem tokens_roundtrip:
  assumes "list_all scannable ts"
  shows "yields E (scanner_new (map Inr (spaced E ts)) path) ts"
  using yields_written [OF assms] sees_new [OF scalar_spaced [OF assms, of E]] encode_spaced [OF assms, of E] by simp

definition plain_env :: lit_env where
  "plain_env = \<lparr>le_parse_f64 = (\<lambda>_. None), le_show_f64 = (\<lambda>_. [])\<rparr>"

definition demo_tokens :: "token list" where
  "demo_tokens =
     [TkIdent ''reach'', TkLParen, TkIdent ''X'', TkComma, TkInt (- 42), TkRParen, TkLongLeftDoubleArrow, TkIdent (''fn'' @ [CHR 0x3A] @ ''plus''),
      TkName ''/a/b'', TkString ''x y'', TkBangEq, TkLe, TkDot]"

theorem tokens_roundtrip_witness:
  "list_all scannable demo_tokens \<and> yields plain_env (scanner_new (map Inr (spaced plain_env demo_tokens)) ''f'') demo_tokens"
proof -
  have "list_all scannable demo_tokens"
    by code_simp
  then show ?thesis
    using tokens_roundtrip [of demo_tokens] by blast
qed

text \<open>The display of \<open>>=\<close> is scanned as \<open><=\<close>, and a quote that is displayed escaped ends the string.\<close>

theorem display_ge_wrong:
  "yields E (scanner_new (map Inr (spaced E [TkGe])) path) [TkLe]"
  "next_token plain_env (scanner_new (map Inr (token_display plain_env (TkString [CHR 0x22]))) ''f'') =
     Inl (Anyhow ''truncated escape sequence '')"
proof -
  have ok: "list_all scannable [TkLe]"
    by simp
  have same: "spaced E [TkGe] = spaced E [TkLe]"
    by (simp add: spaced_def)
  show "yields E (scanner_new (map Inr (spaced E [TkGe])) path) [TkLe]"
    using yields_written [OF ok sees_new [OF scalar_spaced [OF ok, of E], of path]] unfolding encode_spaced [OF ok] same .
  show "next_token plain_env (scanner_new (map Inr (token_display plain_env (TkString [CHR 0x22]))) ''f'') =
     Inl (Anyhow ''truncated escape sequence '')"
    by code_simp
qed

end
