(* ===== verification/Naive.thy ===== *)
theory Naive
  imports Stratification
begin

text \<open>
  The legacy engine \<open>mangle-engine/src/naive.rs\<close> on the table store of \<open>mangle-common/src/tablestore.rs\<close>.
  Store, program and rules share one arena, as the engine's callers set it up, so that copying a term
  between arenas is the identity.  An index out of range of a fact's arguments panics.
\<close>

subsection \<open>The table store\<close>

record table_store =
  tb_tables :: "(pred_index \<times> atom list) list"

definition table_store_new :: "pred_index list \<Rightarrow> table_store" where
  "table_store_new schema = \<lparr>tb_tables = map (\<lambda>p. (p, [])) (remdups schema)\<rparr>"

text \<open>The derived \<open>PartialEq\<close> of terms: structural, with the equality of IEEE numbers on floats.\<close>

definition f64_eq :: "f64 \<Rightarrow> f64 \<Rightarrow> bool" where
  "f64_eq a b \<longleftrightarrow>
     (let mag = (\<lambda>x. uint x mod 2 ^ 63); inf = 2047 * 2 ^ 52
      in mag a \<le> inf \<and> mag b \<le> inf \<and> (a = b \<or> mag a = 0 \<and> mag b = 0))"

fun const_eq :: "ast_const \<Rightarrow> ast_const \<Rightarrow> bool"
and consts_eq :: "ast_const list \<Rightarrow> ast_const list \<Rightarrow> bool" where
  "const_eq (CsFloat a) (CsFloat b) = f64_eq a b"
| "const_eq (CsList as) (CsList bs) = consts_eq as bs"
| "const_eq (CsMap ks vs) (CsMap ks' vs') = (consts_eq ks ks' \<and> consts_eq vs vs')"
| "const_eq (CsStruct fs vs) (CsStruct fs' vs') = (fs = fs' \<and> consts_eq vs vs')"
| "const_eq a b = (a = b)"
| "consts_eq [] [] = True"
| "consts_eq (a # as) (b # bs) = (const_eq a b \<and> consts_eq as bs)"
| "consts_eq _ _ = False"

fun term_eq :: "base_term \<Rightarrow> base_term \<Rightarrow> bool"
and terms_eq :: "base_term list \<Rightarrow> base_term list \<Rightarrow> bool" where
  "term_eq (BConst a) (BConst b) = const_eq a b"
| "term_eq (BApp f as) (BApp g bs) = (f = g \<and> terms_eq as bs)"
| "term_eq (BVar v) (BVar w) = (v = w)"
| "term_eq _ _ = False"
| "terms_eq [] [] = True"
| "terms_eq (a # as) (b # bs) = (term_eq a b \<and> terms_eq as bs)"
| "terms_eq _ _ = False"

definition atom_eq :: "atom \<Rightarrow> atom \<Rightarrow> bool" where
  "atom_eq a b \<longleftrightarrow> a_sym a = a_sym b \<and> terms_eq (a_args a) (a_args b)"

text \<open>\<open>Atom::matches\<close>.\<close>

definition atom_matches :: "atom \<Rightarrow> base_term list \<Rightarrow> bool" where
  "atom_matches f qargs \<longleftrightarrow>
     list_all (\<lambda>(fa, qa). case qa of BConst _ \<Rightarrow> term_eq fa qa | _ \<Rightarrow> True) (zip (a_args f) qargs)"

definition ts_contains :: "table_store \<Rightarrow> atom \<Rightarrow> bool result" where
  "ts_contains ts f =
     (case map_of (tb_tables ts) (a_sym f) of
        Some t \<Rightarrow> Inr (list_ex (\<lambda>x. atom_eq x f) t)
      | None \<Rightarrow> Inl (Anyhow ''unknown predicate index ''))"

definition ts_add :: "atom \<Rightarrow> table_store \<Rightarrow> (bool \<times> table_store) result" where
  "ts_add f ts =
     (case map_of (tb_tables ts) (a_sym f) of
        None \<Rightarrow> Inl (Anyhow ''no table for '')
      | Some t \<Rightarrow>
          Inr (if list_ex (\<lambda>x. atom_eq x f) t then (False, ts)
               else (True, ts\<lparr>tb_tables := AList.update (a_sym f) (t @ [f]) (tb_tables ts)\<rparr>)))"

text \<open>\<open>get\<close>: a callback that changes \<open>s\<close> runs on the matching facts in order; the first error ends it.
  The state it had then is returned beside the error.\<close>

fun each_fact :: "(atom \<Rightarrow> 's \<Rightarrow> unit result \<times> 's) \<Rightarrow> base_term list \<Rightarrow> atom list \<Rightarrow> 's \<Rightarrow> unit result \<times> 's" where
  "each_fact cb qargs [] s = (Inr (), s)"
| "each_fact cb qargs (f # fs) s =
     (if atom_matches f qargs
      then (case cb f s of (Inl e, s') \<Rightarrow> (Inl e, s') | (Inr _, s') \<Rightarrow> each_fact cb qargs fs s')
      else each_fact cb qargs fs s)"

definition ts_get :: "table_store \<Rightarrow> pred_index \<Rightarrow> base_term list \<Rightarrow> (atom \<Rightarrow> 's \<Rightarrow> unit result \<times> 's) \<Rightarrow> 's \<Rightarrow> unit result \<times> 's" where
  "ts_get ts p qargs cb s =
     (case map_of (tb_tables ts) p of
        Some t \<Rightarrow> each_fact cb qargs t s
      | None \<Rightarrow> (Inl (Anyhow ''unknown predicate index ''), s))"

subsection \<open>Premises\<close>

type_synonym naive_subst = "var_index \<Rightarrow> base_term option"

text \<open>The callback of a positive premise: the bindings of the variables and whether a constant differs.\<close>

fun bind_args :: "base_term list \<Rightarrow> nat \<Rightarrow> atom \<Rightarrow> naive_subst \<Rightarrow> bool result \<times> naive_subst" where
  "bind_args [] i f \<sigma> = (Inr False, \<sigma>)"
| "bind_args (q # qs) i f \<sigma> =
     (case q of
        BVar v \<Rightarrow>
          (case index_list (a_args f) i of
             Inl e \<Rightarrow> (Inl e, \<sigma>)
           | Inr x \<Rightarrow> bind_args qs (Suc i) f (\<sigma>(v \<mapsto> x)))
      | BConst c \<Rightarrow>
          (case index_list (a_args f) i of
             Inl e \<Rightarrow> (Inl e, \<sigma>)
           | Inr x \<Rightarrow> if term_eq q x then bind_args qs (Suc i) f \<sigma> else (Inr True, \<sigma>))
      | BApp g args \<Rightarrow> (Inl (Anyhow ''Unsupported term: ''), \<sigma>))"

definition on_fact :: "base_term list \<Rightarrow> atom \<Rightarrow> naive_subst \<times> bool \<Rightarrow> unit result \<times> (naive_subst \<times> bool)" where
  "on_fact qargs f s =
     (case s of (\<sigma>, found) \<Rightarrow>
        (case bind_args qargs 0 f \<sigma> of
           (Inl e, \<sigma>') \<Rightarrow> (Inl e, (\<sigma>', found))
         | (Inr mismatch, \<sigma>') \<Rightarrow> (Inr (), (\<sigma>', \<not> mismatch))))"

text \<open>The result of \<open>store.get\<close> is ignored, unless it is a panic; a positive premise is taken to hold when
  nothing was found.\<close>

definition ignore :: "unit result \<times> 's \<Rightarrow> 's result" where
  "ignore r = (case r of (Inl Panic, _) \<Rightarrow> Inl Panic | (_, s) \<Rightarrow> Inr s)"

definition query_atom :: "table_store \<Rightarrow> atom \<Rightarrow> naive_subst \<Rightarrow> (bool \<times> naive_subst) result" where
  "query_atom ts a \<sigma> =
     (let q = apply_subst_atom \<sigma> a
      in bindR (ignore (ts_get ts (a_sym q) (a_args q) (on_fact (a_args q)) (\<sigma>, False))) (\<lambda>(\<sigma>', found). Inr (\<not> found, \<sigma>')))"

definition query_neg_atom :: "table_store \<Rightarrow> atom \<Rightarrow> naive_subst \<Rightarrow> (bool \<times> naive_subst) result" where
  "query_neg_atom ts a \<sigma> =
     (let q = apply_subst_atom \<sigma> a
      in bindR (ignore (ts_get ts (a_sym q) (a_args q) (\<lambda>f found. (Inr (), True)) False)) (\<lambda>found. Inr (\<not> found, \<sigma>)))"

fun eval_premise :: "table_store \<Rightarrow> ast_term \<Rightarrow> naive_subst \<Rightarrow> (bool \<times> naive_subst) result" where
  "eval_premise ts (TAtom a) \<sigma> = query_atom ts a \<sigma>"
| "eval_premise ts (TNegAtom a) \<sigma> = query_neg_atom ts a \<sigma>"
| "eval_premise ts (TEq l r) \<sigma> = Inr (term_eq (apply_subst \<sigma> l) (apply_subst \<sigma> r), \<sigma>)"
| "eval_premise ts (TIneq l r) \<sigma> = Inr (\<not> term_eq (apply_subst \<sigma> l) (apply_subst \<sigma> r), \<sigma>)"
| "eval_premise ts (TTemporalAtom a iv) \<sigma> = query_atom ts a \<sigma>"

fun eval_premises :: "table_store \<Rightarrow> ast_term list \<Rightarrow> naive_subst \<Rightarrow> (bool \<times> naive_subst) result" where
  "eval_premises ts [] \<sigma> = Inr (True, \<sigma>)"
| "eval_premises ts (p # ps) \<sigma> =
     bindR (eval_premise ts p \<sigma>) (\<lambda>(ok, \<sigma>'). if ok then eval_premises ts ps \<sigma>' else Inr (False, \<sigma>'))"

subsection \<open>Evaluation\<close>

text \<open>One rule with premises; \<open>fact_added\<close> is overwritten, not accumulated.\<close>

definition eval_rule :: "clause \<Rightarrow> bool \<times> table_store \<Rightarrow> (bool \<times> table_store) result" where
  "eval_rule rule s =
     (case s of (fact_added, ts) \<Rightarrow>
        if cl_premises rule = [] then Inr s
        else bindR (eval_premises ts (cl_premises rule) Map.empty) (\<lambda>(all_ok, \<sigma>).
          if all_ok then ts_add (apply_subst_atom \<sigma> (cl_head rule)) ts else Inr s))"

fun naive_fold :: "('a \<Rightarrow> 's \<Rightarrow> 's result) \<Rightarrow> 'a list \<Rightarrow> 's \<Rightarrow> 's result" where
  "naive_fold f [] s = Inr s"
| "naive_fold f (x # xs) s = bindR (f x s) (naive_fold f xs)"

definition naive_rules :: "hash_orders \<Rightarrow> program \<Rightarrow> clause list" where
  "naive_rules ho prog = concat (map (rules_for prog) (ho_rules ho (map fst (prog_rules prog))))"

definition initial_facts :: "clause list \<Rightarrow> table_store \<Rightarrow> table_store result" where
  "initial_facts rules ts =
     naive_fold (\<lambda>r ts. if cl_premises r = [] then bindR (ts_add (cl_head r) ts) (\<lambda>(_, ts'). Inr ts') else Inr ts) rules ts"

partial_function (option) naive_loop :: "clause list \<Rightarrow> table_store \<Rightarrow> table_store result option" where
  "naive_loop rules ts =
     (case naive_fold eval_rule rules (False, ts) of
        Inl e \<Rightarrow> Some (Inl e)
      | Inr (fact_added, ts') \<Rightarrow> if \<not> fact_added then Some (Inr ts') else naive_loop rules ts')"

definition naive_eval :: "hash_orders \<Rightarrow> program \<Rightarrow> table_store \<Rightarrow> table_store result option" where
  "naive_eval ho prog ts =
     (case initial_facts (naive_rules ho prog) ts of
        Inl e \<Rightarrow> Some (Inl e)
      | Inr ts' \<Rightarrow> naive_loop (naive_rules ho prog) ts')"

subsection \<open>Positive premises\<close>

text \<open>The query of a premise and the facts of its table have the shape the engine supports: variables and
  constants, and as many arguments.\<close>

definition flat_query :: "base_term list \<Rightarrow> bool" where
  "flat_query qs \<longleftrightarrow> list_all (\<lambda>q. case q of BApp _ _ \<Rightarrow> False | _ \<Rightarrow> True) qs"

lemma f64_eq_sym: "f64_eq a b = f64_eq b a"
  by (auto simp: f64_eq_def Let_def)

lemma const_eq_sym: "const_eq a b = const_eq b a" and consts_eq_sym: "consts_eq as bs = consts_eq bs as"
  by (induction a b and as bs rule: const_eq_consts_eq.induct) (auto simp: f64_eq_sym)

lemma bind_args_matching:
  "flat_query qs \<Longrightarrow> length (a_args f) = i + length qs \<Longrightarrow>
   list_all (\<lambda>(fa, qa). case qa of BConst _ \<Rightarrow> term_eq fa qa | _ \<Rightarrow> True) (zip (drop i (a_args f)) qs) \<Longrightarrow>
   \<exists>\<sigma>'. bind_args qs i f \<sigma> = (Inr False, \<sigma>')"
proof (induction qs arbitrary: i \<sigma>)
  case (Cons q qs)
  have i: "i < length (a_args f)" "drop i (a_args f) = a_args f ! i # drop (Suc i) (a_args f)"
    using Cons.prems(2) by (simp_all add: Cons_nth_drop_Suc)
  have IH: "\<exists>\<sigma>'. bind_args qs (Suc i) f \<tau> = (Inr False, \<sigma>')" for \<tau>
    using Cons.prems i by (intro Cons.IH) (auto simp: flat_query_def)
  show ?case
  proof (cases q)
    case (BConst c)
    then obtain d where "a_args f ! i = BConst d" "const_eq d c"
      using Cons.prems(3) i(2) by (cases "a_args f ! i") auto
    then show ?thesis
      using IH i(1) BConst by (simp add: index_list_def const_eq_sym [of c d])
  qed (use IH i(1) Cons.prems(1) in \<open>auto simp: index_list_def flat_query_def\<close>)
qed simp

lemma each_fact_found:
  assumes "flat_query qs"
  shows "\<forall>f\<in>set fs. length (a_args f) = length qs \<Longrightarrow>
    \<exists>\<sigma>'. each_fact (on_fact qs) qs fs (\<sigma>, b) = (Inr (), (\<sigma>', b \<or> list_ex (\<lambda>f. atom_matches f qs) fs))"
proof (induction fs arbitrary: \<sigma> b)
  case (Cons f fs)
  show ?case
  proof (cases "atom_matches f qs")
    case True
    then obtain \<sigma>' where "bind_args qs 0 f \<sigma> = (Inr False, \<sigma>')"
      using bind_args_matching [OF assms, of f 0 \<sigma>] Cons.prems by (auto simp: atom_matches_def)
    then show ?thesis
      using Cons.IH [of \<sigma>' True] Cons.prems True by (simp add: on_fact_def)
  qed (use Cons in simp)
qed simp

lemma each_fact_neg: "each_fact (\<lambda>f found. (Inr (), True)) qs fs b = (Inr (), b \<or> list_ex (\<lambda>f. atom_matches f qs) fs)"
  by (induction fs arbitrary: b) auto

subsection \<open>An example\<close>

text \<open>The program of the engine's test: \<open>reachable\<close> (1) from \<open>edge\<close> (0).\<close>

definition naive_edge :: "i64 \<Rightarrow> i64 \<Rightarrow> atom" where
  "naive_edge x y = \<lparr>a_sym = 0, a_args = [BConst (CsNumber x), BConst (CsNumber y)]\<rparr>"

definition naive_demo_rule :: clause where
  "naive_demo_rule = \<lparr>cl_head = \<lparr>a_sym = 1, a_args = [BVar 1, BVar 2]\<rparr>, cl_head_time = None,
     cl_premises = [TAtom \<lparr>a_sym = 0, a_args = [BVar 1, BVar 2]\<rparr>], cl_transform = []\<rparr>"

definition naive_demo_prog :: program where
  "naive_demo_prog = \<lparr>ext_preds = [0], prog_rules = [(1, [naive_demo_rule])]\<rparr>"

definition naive_demo_store :: "atom list \<Rightarrow> table_store" where
  "naive_demo_store edges = \<lparr>tb_tables = [(0, edges), (1, [])]\<rparr>"

definition naive_ho :: hash_orders where
  "naive_ho = \<lparr>ho_rules = id, ho_nodes = id, ho_edges = id, ho_set = id\<rparr>"

lemma naive_demo_rules: "naive_rules naive_ho naive_demo_prog = [naive_demo_rule]"
  by code_simp

subsection \<open>Properties\<close>

text \<open>C29: A positive premise is evaluated as its negation: on a table whose facts have as many arguments as the
  query, a premise \<open>Atom\<close> holds exactly when \<open>NegAtom\<close> of the same atom does, that is when no fact
  matches.\<close>

theorem naive_atom_negated:
  assumes "map_of (tb_tables ts) (a_sym a) = Some t" "\<forall>f\<in>set t. length (a_args f) = length (a_args a)"
    and "flat_query (map (apply_subst \<sigma>) (a_args a))"
  shows "\<exists>\<sigma>'. eval_premise ts (TAtom a) \<sigma> = Inr (\<not> list_ex (\<lambda>f. atom_matches f (map (apply_subst \<sigma>) (a_args a))) t, \<sigma>') \<and>
    eval_premise ts (TNegAtom a) \<sigma> = Inr (\<not> list_ex (\<lambda>f. atom_matches f (map (apply_subst \<sigma>) (a_args a))) t, \<sigma>)"
  using each_fact_found [OF assms(3), of t \<sigma> False] assms(1,2)
  by (auto simp: query_atom_def query_neg_atom_def ts_get_def apply_subst_atom_def ignore_def each_fact_neg)

theorem naive_atom_negated_witness:
  "\<exists>\<sigma>'. eval_premise (naive_demo_store [naive_edge 10 20]) (TAtom \<lparr>a_sym = 0, a_args = [BVar 1, BVar 2]\<rparr>) Map.empty = Inr (False, \<sigma>')"
  using naive_atom_negated [of "naive_demo_store [naive_edge 10 20]" "\<lparr>a_sym = 0, a_args = [BVar 1, BVar 2]\<rparr>" "[naive_edge 10 20]" Map.empty]
  by (auto simp: naive_demo_store_def naive_edge_def flat_query_def atom_matches_def)

text \<open>The engine derives nothing from edges, and from no edges a fact with variables.\<close>

theorem naive_run_wrong:
  "naive_eval naive_ho naive_demo_prog (naive_demo_store [naive_edge 10 20]) = Some (Inr (naive_demo_store [naive_edge 10 20])) \<and>
   naive_eval naive_ho naive_demo_prog (naive_demo_store []) =
     Some (Inr (naive_demo_store [] \<lparr>tb_tables := [(0, []), (1, [\<lparr>a_sym = 1, a_args = [BVar 1, BVar 2]\<rparr>])]\<rparr>))"
  unfolding naive_eval_def naive_demo_rules
  by (simp add: initial_facts_def naive_demo_rule_def naive_loop.simps eval_rule_def naive_demo_store_def
      query_atom_def ts_get_def apply_subst_atom_def ignore_def on_fact_def naive_edge_def atom_matches_def index_list_def
      ts_add_def atom_eq_def)

end
