(* ===== verification/Spec2Isabelle.thy ===== *)
theory Spec2Isabelle
  imports Interp_Props Aggregates Mem_Store_Steps Planner_Props Wal_Codec_Props Server_Props Type_Bounds_Props
    Name_Trie Scanner_Props Naive
begin

text \<open>
  Verification of mangle-rs, a Datalog engine in Rust: from the parsed program to the facts that queries
  of a database, or of a replicated server, return.

  \<^bold>\<open>The program.\<close>  A program text is parsed (\<open>mangle-parse\<close>) into an AST (\<open>mangle-ast\<close>), renamed,
  lowered, stratified, checked and planned (\<open>mangle-analysis\<close>) into the IR of \<open>mangle-ir\<close>: a flat
  instruction list and, per rule, a physical plan (\<open>physical.rs\<close>).  The driver (\<open>mangle-driver\<close>) compiles
  and then runs the plans stratum by stratum, semi-naively, on the interpreter (\<open>mangle-interpreter\<close>), which
  reads and writes facts through the \<open>Store\<close> trait of \<open>mangle-common\<close>; \<open>MemStore\<close> is the in-memory store.
  A database (\<open>mangle-db\<close>) keeps the facts of external sources beside the derived ones and recomputes the
  latter; the registry of programs (\<open>mangle-server\<close>) is the state machine of a replicated service, whose
  commands and snapshots travel as messages (\<open>mangle-proto\<close>) and log records (\<open>mangle-wal\<close>).  The
  remaining crates put other back ends, file formats and language bindings around this core.

  \<^bold>\<open>Values and storage.\<close>
  \<^item> \<open>Prelude\<close>: results (\<open>anyhow::Result\<close> and panics), orderings, machine integers.
  \<^item> \<open>Rust_Strings\<close>: the operations of \<open>str\<close> and of integer formatting and parsing that the code uses,
    on UTF-8 byte strings.
  \<^item> \<open>Values\<close>: \<open>Value\<close> and its \<open>Ord\<close> (\<open>mangle-common/src/lib.rs\<close>); \<open>f64\<close> as its bit pattern,
    \<open>total_cmp\<close>, and \<open>i64 as f64\<close> with round-to-nearest-even.  The order is total on two fragments and has
    cycles across them.
  \<^item> \<open>Civil_Time\<close>: printing and parsing of times and durations, with the proleptic Gregorian calendar.
  \<^item> \<open>Builtins\<close>: one definition per arm of \<open>eval_function\<close> and \<open>eval_builtin_predicate\<close>.
  \<^item> \<open>Interner\<close>, \<open>Plan_IR\<close>: the interner, the IR container and the plan language (\<open>mangle-ir\<close>).
  \<^item> \<open>Cells\<close>, \<open>Mem_Store\<close>: the cell encoding and \<open>MemStore\<close>, one definition per method;
    \<open>Mem_Store_Inv\<close> and \<open>Mem_Store_Props\<close>: its invariant and the effect of its operations;
    \<open>Mem_Store_Scan\<close>: the weaker view of a client that retracts and only scans; \<open>Coalesce\<close>: merging of
    time intervals; \<open>Mem_Store_Steps\<close>: the operations as steps, and what holds on every store they reach,
    the relations with a stale delta index tracked.
  \<^item> \<open>Store_API\<close>: the trait \<open>Store\<close> as a record of operations and its contract, the locale
    \<open>fact_store\<close>, with the interpretation for \<open>MemStore\<close>; \<open>Plan_Model\<close> extends it by index lookups.

  \<^bold>\<open>Running plans.\<close>
  \<^item> \<open>Interp\<close>: the interpreter, \<open>exec_op\<close> on every operation, threading store, provenance recorder and
    environment; \<open>Interp_Correct\<close>: the declarative reading of plans and the proof, inside the contract of
    the store, that a run inserts exactly the derivable facts; \<open>Interp_Prov\<close>: frame and provenance;
    \<open>Interp_Why\<close>: the premises of a recorded derivation are the facts it read;
    \<open>Interp_Group\<close>: grouping; \<open>Interp_Props\<close>: the resulting properties over \<open>MemStore\<close>;
    \<open>Aggregates\<close>: the aggregate functions.
  \<^item> \<open>Plan_Model\<close>, \<open>Seminaive\<close>: plans over sets of facts, least models, delta plans.
  \<^item> \<open>Naive\<close>: the legacy engine (\<open>naive.rs\<close>) on its table store, and what is wrong with it.

  \<^bold>\<open>Compilation.\<close>
  \<^item> \<open>Ast\<close>, \<open>Arena\<close>: syntax, symbol tables and copying between arenas.
  \<^item> \<open>Rename\<close>: package renaming (\<open>rename.rs\<close>) and what it changes.
  \<^item> \<open>Lowering\<close>, \<open>Lowering_Props\<close>: \<open>lowering.rs\<close>, and that the IR reads back as the unit lowered.
  \<^item> \<open>Graph_Walk\<close>, \<open>Components\<close>, \<open>Cycle_Rotate\<close>, \<open>Stratification\<close>, \<open>Stratification_Props\<close>:
    \<open>stratification.rs\<close>, with the strongly connected components of the dependency graph.
  \<^item> \<open>Planner\<close> (\<open>planner.rs\<close>), \<open>Planner_Frame\<close>, \<open>Planner_Delta\<close>, \<open>Planner_Shape\<close>, \<open>Planner_Props\<close>: planning
    only adds names to the IR, a delta plan is the full plan with scans turned into delta scans, and plans have
    the shape the driver needs.
  \<^item> \<open>Type_Expr\<close>, \<open>Type_Bounds\<close> (\<open>type_expr.rs\<close>): type expressions, which are instructions of the IR;
    \<open>Type_Depth\<close>: their recursion ends within a depth linear in the size of the IR; \<open>Type_Expr_Props\<close>:
    where conformance is sound for the values of a type, and where it is not; \<open>Type_Bounds_Props\<close>: upper bounds.
  \<^item> \<open>Name_Trie\<close> (\<open>name_trie.rs\<close>): the most precise declared type of a name constant.
  \<^item> \<open>Quote\<close>, \<open>Quote_Props\<close> (\<open>quote.rs\<close>): string and byte literals, and which strings survive quoting.
  \<^item> \<open>Scanner\<close>, \<open>Scanner_Props\<close> (\<open>scan.rs\<close>, \<open>token.rs\<close>, \<open>error.rs\<close>): from bytes to tokens, and that displayed
    tokens are scanned as themselves.
  \<^item> \<open>Compile\<close>: \<open>compile_units\<close> of the driver and \<open>compile_source\<close> of the database.

  \<^bold>\<open>Driver, database and server.\<close>
  \<^item> \<open>Driver\<close>, \<open>Driver_Model\<close>, \<open>Driver_Halts\<close>, \<open>Driver_Plans\<close>, \<open>Driver_Props\<close>: \<open>execute_with_options\<close>
    computes the stratified model, and returns on programs that make no new values, with hash joins off and
    on covered programs: no aggregation, no temporal predicates, well-scoped plans, no negation within a
    stratum, linear recursion, fixed arities; without linear recursion it can miss facts
    (\<open>seminaive_incomplete\<close>).  \<open>Demo\<close>: an example configuration for the witnesses.
  \<^item> \<open>Pushdown\<close>: predicates of scans handed to sources (\<open>predicate.rs\<close>, \<open>source.rs\<close>).
  \<^item> \<open>Database\<close>, \<open>Database_Props\<close>: \<open>database.rs\<close>; a database with a covered program answers with the
    model over the loaded and mutated facts, and where it does not.
  \<^item> \<open>Proto\<close>, \<open>Proto_Props\<close>, \<open>Wal_Codec\<close>, \<open>Wal_Codec_Props\<close>: messages and log records, both directions.
  \<^item> \<open>Server\<close>, \<open>Ledger_Props\<close>, \<open>Server_Props\<close>: \<open>store.rs\<close>; the effect of a mutation command, what the ledger
    tracks, and that a snapshot restores every answer, and where it does not.

  \<^bold>\<open>Conventions.\<close>  An error is a value: \<open>Inl (Anyhow msg)\<close> for \<open>Err\<close>, \<open>Inl Panic\<close> for a panic.  Where an
  error must not lose state, the state is returned beside the result.  Machine arithmetic wraps as in
  the release profile.  A \<open>HashMap\<close> whose iteration order is not observable is an association list or a
  map; where the order is observable (the groups of a \<open>GroupBy\<close>, the components of a program, the programs
  of a snapshot) it is a parameter of the model.  Loops that are not structural have termination proofs.
  Two loops may run forever, the fixpoint loop of the driver and the rotation of a cycle by the
  stratification: they are partial functions into \<open>option\<close>, where \<open>None\<close> means that the code does not return, and
  that they return is proved (for the driver, on programs that make no new values).  The planner recurses
  over terms of the IR, which is a graph; its depth is bounded by the number of instructions, which
  no path without a cycle exceeds.  The functions on types take a depth and panic, as a stack overflow
  would, when it is exhausted; \<open>type_depth\<close> is proved to be enough.

  \<^bold>\<open>Parameters.\<close>  The record \<open>platform\<close> holds what the built-in functions take from outside the model:
  IEEE arithmetic, parsing and printing of \<open>f64\<close>, the escaping of \<open>{:?}\<close>, and the system clock.  Others are
  \<open>f64\<close> literals (\<open>lit_env\<close>), the use of hash joins (an environment variable), the message encoder and the memberships of the
  consensus library, the parser and the bounds checker (\<open>frontend\<close>), the sources, cache backend and hash of a
  database (\<open>db_env\<close>), and the files and the query parser of the server (\<open>server_env\<close>).

  \<^bold>\<open>Not modelled.\<close>  The parser, bounds checking, code generation and virtual
  machine, the disk store and file formats, the files of the write-ahead log, the adapter to the
  consensus library, remote procedure calls and language bindings; of the database, locks and provenance
  queries; of the server, reloading from a directory.
\<close>

end
